(* ===== verification/Prelude.thy ===== *)
theory Prelude
  imports Main "HOL-Library.Word"
begin

unbundle bit_operations_syntax

text \<open>
  Shared vocabulary of the development: the machine integers of the Cortex-M target
  (\<open>size_t\<close> is 32 bits wide there), bounded first-match searches (the \<open>for\<close> loop over a
  table that returns at the first hit), indexed table filling, byte memory with explicit
  bounds, and the counter-mode XOR loop that four components of the firmware repeat.

  Conventions used by every theory.
  \<^item> A C pointer to an object that the code asserts to be non-\<open>NULL\<close> is a value of the
    object's type, so the assertion holds by typing and its branch disappears. A pointer the
    code really tests at run time is an \<open>option\<close>.
  \<^item> A function that writes through pointers returns the new contents next to its result.
  \<^item> \<open>None\<close> in a function over byte memory is an access outside of the memory block (undefined
    behaviour in C); theorems of the development show where it cannot happen.
  \<^item> Lengths guarded by the code against underflow are \<open>nat\<close>; where an unsigned wrap-around
    can be reached it is written out with \<open>add32\<close> and \<open>sub32\<close> or with machine words.
\<close>

type_synonym u8 = "8 word"
type_synonym u16 = "16 word"
type_synonym u32 = "32 word"
type_synonym u64 = "64 word"

named_theorems table_simps \<open>first-match search and table update\<close>
named_theorems mem_simps \<open>byte memory: length and content of reads and writes\<close>
named_theorems linear_simps \<open>operations that commute with exclusive or\<close>

subsection \<open>Exclusive or\<close>

lemma xor_eq_zero [linear_simps]: "(a :: 'a::len word) XOR b = 0 \<longleftrightarrow> a = b"
proof
  assume "a XOR b = 0"
  then have "b = (a XOR b) XOR b" by (simp only: xor.left_neutral)
  then show "a = b" by (simp add: xor.assoc)
qed simp

lemma xor_left_cancel_zero [linear_simps]: "(a :: 'a::len word) XOR b = a \<longleftrightarrow> b = 0"
  using xor_eq_zero [of "a XOR b" a] by (simp add: xor.commute [of a] xor.assoc)

subsection \<open>Single bits and two-bit fields\<close>

lemma and_single: "(c :: 'a::len word) AND push_bit k 1 = (if bit c k then push_bit k 1 else 0)"
  by (auto intro!: bit_eqI simp: bit_simps)

lemma and_3_take_bit: "(x :: 'a::len word) AND 3 = take_bit 2 x"
  by (simp add: take_bit_eq_mask mask_eq_exp_minus_1)

lemma and_1_odd: "(x :: 'a::len word) AND 1 = of_bool (odd x)"
  by (simp add: and_one_eq mod_2_eq_odd)

lemma ucast_u16_u32: "(ucast (ucast (c :: u16) :: u32) :: u16) = c"
  by (rule bit_eqI) (auto simp: bit_simps)

lemma ucast_u16_u32_zero: "(ucast (c :: u16) :: u32) = 0 \<longleftrightarrow> c = 0"
  by (metis ucast_u16_u32 unsigned_0)

lemma two_bit_field:
  assumes "bit x 0 = bit y 0" "bit x 1 = bit y 1" "2 \<le> LENGTH('a)" "2 \<le> LENGTH('b)"
  shows "ucast (take_bit 2 (x :: 'b::len word)) = (take_bit 2 y :: 'a::len word)"
proof (rule bit_eqI)
  fix n assume "possible_bit TYPE('a word) n"
  consider "n = 0" | "n = 1" | "2 \<le> n" by linarith
  then show "bit (ucast (take_bit 2 x) :: 'a word) n = bit (take_bit 2 y) n"
    using assms by cases (auto simp: bit_simps)
qed

subsection \<open>Unsigned 32-bit arithmetic on natural numbers\<close>

definition add32 :: "nat \<Rightarrow> nat \<Rightarrow> nat" where
  "add32 a b = (a + b) mod 2 ^ 32"

definition sub32 :: "nat \<Rightarrow> nat \<Rightarrow> nat" where
  "sub32 a b = nat ((int a - int b) mod 2 ^ 32)"

lemma add32_small: "a + b < 2 ^ 32 \<Longrightarrow> add32 a b = a + b"
  by (simp add: add32_def)

lemma add32_bound: "add32 a b < 2 ^ 32"
  by (simp add: add32_def)

lemma sub32_small: "b \<le> a \<Longrightarrow> a < 2 ^ 32 \<Longrightarrow> sub32 a b = a - b"
  by (simp add: sub32_def flip: of_nat_diff)

lemma sub32_bound: "sub32 a b < 2 ^ 32"
proof -
  have "0 \<le> (int a - int b) mod 2 ^ 32" and "(int a - int b) mod 2 ^ 32 < int (2 ^ 32)"
    by simp_all
  then show ?thesis unfolding sub32_def by (metis nat_less_iff)
qed

lemma sub32_wraps: "sub32 0 1 = 2 ^ 32 - 1"
  by (simp add: sub32_def)

lemma sint_u8: "sint (w :: u8) = (if unat w < 128 then int (unat w) else int (unat w) - 256)"
proof -
  have u: "unat w < 256" using unsigned_less [where ?'a = nat and w = w] by simp
  have i: "uint w = int (unat w)" by simp
  have s: "sint w = signed_take_bit 7 (uint w)" by (simp add: sint_uint)
  show ?thesis
  proof (cases "unat w < 128")
    case True
    with i have "uint w < 128" by linarith
    then have "signed_take_bit 7 (uint w) = uint w" by (intro signed_take_bit_int_eq_self) (auto intro: order.trans [of _ 0])
    with True show ?thesis by (simp add: s)
  next
    case False
    with u i have b: "128 \<le> uint w" "uint w < 256" by linarith+
    have "take_bit (Suc 7) (uint w) = take_bit (Suc 7) (uint w - 256)"
      by (simp add: take_bit_eq_mod)
    then have "signed_take_bit 7 (uint w) = signed_take_bit 7 (uint w - 256)"
      by (simp only: signed_take_bit_eq_iff_take_bit_eq)
    also have "\<dots> = uint w - 256" using b by (intro signed_take_bit_int_eq_self) auto
    finally show ?thesis using False by (simp add: s)
  qed
qed

subsection \<open>First-match search\<close>

text \<open>\<open>find_index p xs\<close> is the loop
  \<open>for (i = 0; i < n; i++) if (p(x[i])) return i;\<close>.\<close>

fun find_index :: "('a \<Rightarrow> bool) \<Rightarrow> 'a list \<Rightarrow> nat option" where
  "find_index p [] = None"
| "find_index p (x # xs) = (if p x then Some 0 else map_option Suc (find_index p xs))"

lemma find_index_None [table_simps]: "find_index p xs = None \<longleftrightarrow> (\<forall>x \<in> set xs. \<not> p x)"
  by (induction xs) auto

lemma find_index_Some [table_simps]:
  "find_index p xs = Some i \<longleftrightarrow> i < length xs \<and> p (xs ! i) \<and> (\<forall>j < i. \<not> p (xs ! j))"
proof (induction xs arbitrary: i)
  case Nil
  then show ?case by simp
next
  case (Cons x xs)
  show ?case
    by (cases i) (auto simp: Cons.IH less_Suc_eq_0_disj)
qed

lemma find_index_less: "find_index p xs = Some i \<Longrightarrow> i < length xs"
  by (simp add: find_index_Some)

lemma find_index_holds: "find_index p xs = Some i \<Longrightarrow> p (xs ! i)"
  by (simp add: find_index_Some)

lemma find_index_exists: "x \<in> set xs \<Longrightarrow> p x \<Longrightarrow> \<exists>i. find_index p xs = Some i"
  using find_index_None [of p xs] by (cases "find_index p xs") auto

lemma find_index_cong:
  "length xs = length ys \<Longrightarrow> (\<And>i. i < length xs \<Longrightarrow> p (xs ! i) = q (ys ! i)) \<Longrightarrow>
    find_index p xs = find_index q ys"
proof (induction xs ys rule: list_induct2)
  case Nil
  then show ?case by simp
next
  case (Cons x xs y ys)
  from Cons.prems [of 0] have "p x = q y" by simp
  moreover have "find_index p xs = find_index q ys"
  proof (rule Cons.IH)
    fix i assume "i < length xs"
    then show "p (xs ! i) = q (ys ! i)" using Cons.prems [of "Suc i"] by simp
  qed
  ultimately show ?case by simp
qed

text \<open>\<open>find_last p xs\<close> is the loop without \<open>break\<close>,
  \<open>for (i = 0; i < n; i++) if (p(x[i])) best = i;\<close>: it finds the last one.\<close>

definition find_last :: "('a \<Rightarrow> bool) \<Rightarrow> 'a list \<Rightarrow> nat option" where
  "find_last p xs = foldl (\<lambda>best i. if p (xs ! i) then Some i else best) None [0..<length xs]"

lemma find_last_Some:
  "find_last p xs = Some i \<Longrightarrow> i < length xs \<and> p (xs ! i) \<and> (\<forall>j < length xs. i < j \<longrightarrow> \<not> p (xs ! j))"
proof -
  define f where "f = (\<lambda>best i. if p (xs ! i) then Some i else best)"
  have "foldl f None [0..<n] = Some i \<Longrightarrow> i < n \<and> p (xs ! i) \<and> (\<forall>j < n. i < j \<longrightarrow> \<not> p (xs ! j))" for n
    by (induction n) (auto simp: f_def less_Suc_eq split: if_splits)
  then show "find_last p xs = Some i \<Longrightarrow> ?thesis"
    by (simp add: find_last_def f_def)
qed

lemma find_last_None: "find_last p xs = None \<longleftrightarrow> (\<forall>x \<in> set xs. \<not> p x)"
proof -
  define f where "f = (\<lambda>best i. if p (xs ! i) then Some i else best)"
  have "foldl f None [0..<n] = None \<longleftrightarrow> (\<forall>j < n. \<not> p (xs ! j))" for n
    by (induction n) (auto simp: f_def less_Suc_eq)
  moreover have "find_last p xs = foldl f None [0..<length xs]" by (simp add: find_last_def f_def)
  ultimately show ?thesis by (metis in_set_conv_nth)
qed

subsection \<open>Filling a table at computed indices\<close>

text \<open>\<open>fill_table key val xs t\<close> is the loop \<open>for (x in xs) t[key(x)] = val(x);\<close>: an entry
  ends up with the value of the last \<open>x\<close> that has its key.\<close>

definition fill_table :: "('a \<Rightarrow> nat) \<Rightarrow> ('a \<Rightarrow> 'b) \<Rightarrow> 'a list \<Rightarrow> 'b list \<Rightarrow> 'b list" where
  "fill_table key val xs t = foldl (\<lambda>t x. t[key x := val x]) t xs"

lemma length_fill_table [table_simps]: "length (fill_table key val xs t) = length t"
  by (induction xs rule: rev_induct) (auto simp: fill_table_def)

lemma fill_table_entry:
  assumes "x \<in> set xs" and "key x < length t"
  shows "\<exists>y \<in> set xs. key y = key x \<and> fill_table key val xs t ! key x = val y"
  using assms(1)
proof (induction xs rule: rev_induct)
  case Nil
  then show ?case by simp
next
  case (snoc z xs)
  have fill: "fill_table key val (xs @ [z]) t = (fill_table key val xs t)[key z := val z]"
    by (simp add: fill_table_def)
  show ?case
  proof (cases "key z = key x")
    case True
    with assms(2) show ?thesis by (auto simp: fill length_fill_table intro!: bexI [of _ z])
  next
    case False
    with snoc.prems have "x \<in> set xs" by auto
    with snoc.IH False show ?thesis by (auto simp: fill)
  qed
qed

subsection \<open>Byte memory\<close>

text \<open>A memory block is the list of its bytes; reads and writes of \<open>n\<close> bytes at a position
  that leaves the block are \<open>None\<close>.\<close>

definition mem_read :: "'a list \<Rightarrow> nat \<Rightarrow> nat \<Rightarrow> 'a list option" where
  "mem_read m pos n = (if pos + n \<le> length m then Some (take n (drop pos m)) else None)"

definition mem_write :: "'a list \<Rightarrow> nat \<Rightarrow> 'a list \<Rightarrow> 'a list option" where
  "mem_write m pos bs =
     (if pos + length bs \<le> length m then Some (take pos m @ bs @ drop (pos + length bs) m) else None)"

definition mem_get :: "'a list \<Rightarrow> nat \<Rightarrow> 'a option" where
  "mem_get m pos = (if pos < length m then Some (m ! pos) else None)"

lemma mem_read_Some [mem_simps]: "pos + n \<le> length m \<Longrightarrow> mem_read m pos n = Some (take n (drop pos m))"
  by (simp add: mem_read_def)

lemma mem_get_Some [mem_simps]: "pos < length m \<Longrightarrow> mem_get m pos = Some (m ! pos)"
  by (simp add: mem_get_def)

lemma mem_write_Some [mem_simps]:
  "pos + length bs \<le> length m \<Longrightarrow> mem_write m pos bs = Some (take pos m @ bs @ drop (pos + length bs) m)"
  by (simp add: mem_write_def)

lemma length_mem_write: "mem_write m pos bs = Some m' \<Longrightarrow> length m' = length m"
  by (auto simp: mem_write_def split: if_splits)

lemma take_mem_write: "mem_write m pos bs = Some m' \<Longrightarrow> take (pos + length bs) m' = take pos m @ bs"
  by (auto simp: mem_write_def split: if_splits)

lemma mem_read_write: "mem_write m pos bs = Some m' \<Longrightarrow> mem_read m' pos (length bs) = Some bs"
  by (auto simp: mem_write_def mem_read_def split: if_splits)

subsection \<open>Loops whose body can fail\<close>

text \<open>\<open>fold_opt f xs s\<close> is the loop \<open>for (x in xs) f(x);\<close> on the state \<open>s\<close>, where \<open>None\<close> is an access
  outside of an object in one of the iterations.\<close>

fun fold_opt :: "('a \<Rightarrow> 's \<Rightarrow> 's option) \<Rightarrow> 'a list \<Rightarrow> 's \<Rightarrow> 's option" where
  "fold_opt f [] s = Some s"
| "fold_opt f (x # xs) s = Option.bind (f x s) (fold_opt f xs)"

lemma fold_opt_Nil [simp]: "fold_opt f [] = Some"
  by (rule ext) simp

lemma fold_opt_append [simp]:
  "fold_opt f (xs @ ys) s = Option.bind (fold_opt f xs s) (fold_opt f ys)"
  by (induction xs arbitrary: s) (auto split: Option.bind_split)

lemma fold_opt_keeps:
  "(\<And>x s s'. f x s = Some s' \<Longrightarrow> g s' = g s) \<Longrightarrow> fold_opt f xs s = Some s' \<Longrightarrow> g s' = g s"
  by (induction xs arbitrary: s) (auto simp: bind_eq_Some_conv)

text \<open>A loop over \<open>[0..<n]\<close> establishes at its end what its body carries from one index to the next.\<close>

lemma fold_opt_upt_inv:
  assumes "Inv 0 s" and "\<And>i s. i < n \<Longrightarrow> Inv i s \<Longrightarrow> \<exists>s'. f i s = Some s' \<and> Inv (Suc i) s'"
  shows "\<exists>s'. fold_opt f [0..<n] s = Some s' \<and> Inv n s'"
  using assms(2)
proof (induction n)
  case 0
  then show ?case using assms(1) by simp
next
  case (Suc n)
  then obtain s1 where s1: "fold_opt f [0..<n] s = Some s1" "Inv n s1" by fastforce
  then obtain s2 where "f n s1 = Some s2" "Inv (Suc n) s2" using Suc.prems by blast
  then show ?case using s1 by simp
qed

text \<open>A buffer after a receive that puts \<open>bs\<close> at its start.\<close>

definition rx_fill :: "'a list \<Rightarrow> 'a list \<Rightarrow> 'a list" where
  "rx_fill buf bs = take (length buf) bs @ drop (length bs) buf"

lemma rx_fill_all [simp]: "length bs = length buf \<Longrightarrow> rx_fill buf bs = bs"
  by (simp add: rx_fill_def)

lemma length_rx_fill [simp]: "length (rx_fill buf bs) = length buf"
  by (simp add: rx_fill_def min_def)

subsection \<open>Strings\<close>

text \<open>\<open>strlcpy\<close> into a buffer of the given size; strings are kept without their terminating zero.\<close>

definition strlcpy :: "nat \<Rightarrow> string \<Rightarrow> string" where
  "strlcpy sz s = take (sz - 1) s"

subsection \<open>Little-endian words, rotation\<close>

definition load32_le :: "u8 list \<Rightarrow> u32" where
  "load32_le p = ucast (p ! 0) OR push_bit 8 (ucast (p ! 1)) OR push_bit 16 (ucast (p ! 2)) OR
     push_bit 24 (ucast (p ! 3))"

definition store32_le :: "u32 \<Rightarrow> u8 list" where
  "store32_le v = [ucast v, ucast (drop_bit 8 v), ucast (drop_bit 16 v), ucast (drop_bit 24 v)]"

definition rotl32 :: "u32 \<Rightarrow> nat \<Rightarrow> u32" where
  "rotl32 v n = push_bit n v OR drop_bit (32 - n) v"

definition rotr32 :: "u32 \<Rightarrow> nat \<Rightarrow> u32" where
  "rotr32 v n = drop_bit n v OR push_bit (32 - n) v"

lemma length_store32_le [simp]: "length (store32_le v) = 4"
  by (simp add: store32_le_def)

lemma load_store32_le: "load32_le (store32_le v) = v"
proof (rule bit_eqI)
  fix n assume n: "possible_bit TYPE(u32) n"
  consider "n < 8" | "8 \<le> n" "n < 16" | "16 \<le> n" "n < 24" | "24 \<le> n" "n < 32"
    using n by (force simp: possible_bit_word)
  then show "bit (load32_le (store32_le v)) n = bit v n"
    by cases (auto simp: load32_le_def store32_le_def bit_simps)
qed

lemma length_concat_store32 [simp]: "length (concat (map store32_le ws)) = 4 * length ws"
  by (induction ws) auto

end
