(* ===== verification/Golay.thy ===== *)
theory Golay
  imports Prelude
begin

text \<open>
  The Golay(23,12) forward error correction of \<open>lib/fec-golay/src/fec_golay.c\<close>: the
  systematic encoder, the syndrome, the decoding table filled by
  \<open>fec_golay_table_fill\<close> and the correction of a received codeword. The main result is the
  one the code is there for: up to three flipped bits of a 23-bit codeword are repaired,
  whatever the data and wherever the errors are. The division by the generator polynomial is
  linear over exclusive or, so the statement reduces to the minimum distance of the code,
  which is evaluated once by the kernel over the 4096 codewords (held as rows of bits).
\<close>

subsection \<open>Encoder and syndrome\<close>

definition FEC_GOLAY_POLY :: u32 where
  "FEC_GOLAY_POLY = 0xae3"

text \<open>One turn of the division loop shared by encoder and syndrome.\<close>

definition golay_step :: "u32 \<Rightarrow> u32" where
  "golay_step c = drop_bit 1 (if c AND 1 \<noteq> 0 then c XOR FEC_GOLAY_POLY else c)"

definition fec_golay_encode :: "u32 \<Rightarrow> u32" where
  "fec_golay_encode codeword =
     (let codeword = codeword AND 0xfff;
          c = (golay_step ^^ 12) codeword
      in codeword OR push_bit 12 c)"

definition fec_golay_syndrome :: "u32 \<Rightarrow> u32" where
  "fec_golay_syndrome codeword = (golay_step ^^ 12) (codeword AND 0x7fffff)"

definition golay_weights :: "nat list" where
  "golay_weights = [0, 1, 1, 2, 1, 2, 2, 3, 1, 2, 2, 3, 2, 3, 3, 4]"

definition fec_golay_weight_codeword :: "u32 \<Rightarrow> nat" where
  "fec_golay_weight_codeword codeword =
     golay_weights ! unat (codeword AND 0xf) +
     golay_weights ! unat (drop_bit 4 codeword AND 0xf) +
     golay_weights ! unat (drop_bit 8 codeword AND 0xf)"

subsection \<open>Decoding table and correction\<close>

definition golay_pattern :: "nat \<Rightarrow> nat \<Rightarrow> nat \<Rightarrow> u32" where
  "golay_pattern i j k = push_bit i 1 OR push_bit j 1 OR push_bit k 1"

definition golay_entry :: "nat \<Rightarrow> nat \<Rightarrow> nat \<Rightarrow> u16" where
  "golay_entry i j k = push_bit 10 (of_nat i) OR push_bit 5 (of_nat j) OR of_nat k"

text \<open>The three nested loops visit these index triples in this order.\<close>

definition golay_triples :: "(nat \<times> nat \<times> nat) list" where
  "golay_triples = [(i, j, k). i \<leftarrow> [0..<23], j \<leftarrow> [0..<23], k \<leftarrow> [0..<23]]"

definition fec_golay_table_fill :: "u16 list \<Rightarrow> u16 list" where
  "fec_golay_table_fill fec_golay_table =
     (fill_table
        (\<lambda>(i, j, k). unat (fec_golay_syndrome (golay_pattern i j k)))
        (\<lambda>(i, j, k). golay_entry i j k)
        golay_triples
        fec_golay_table)[0 := 0]"

definition fec_golay_correct :: "u16 list \<Rightarrow> u32 \<Rightarrow> u32" where
  "fec_golay_correct fec_golay_table codeword =
     (let syn = fec_golay_syndrome codeword in
      if syn = 0 then codeword
      else
        let t = fec_golay_table ! unat syn;
            pattern = golay_pattern (unat (drop_bit 10 t AND 0x1f))
                                    (unat (drop_bit 5 t AND 0x1f))
                                    (unat (t AND 0x1f))
        in codeword XOR pattern)"

text \<open>The table starts zeroed (static storage) with one entry per 11-bit syndrome.\<close>

definition golay_table :: "u16 list" where
  "golay_table = fec_golay_table_fill (replicate 2048 0)"

subsection \<open>Linearity\<close>

lemma golay_step_odd: "golay_step c = drop_bit 1 (if odd c then c XOR FEC_GOLAY_POLY else c)"
  by (simp add: golay_step_def and_one_eq odd_iff_mod_2_eq_one)

lemma golay_step_xor [linear_simps]: "golay_step (a XOR b) = golay_step a XOR golay_step b"
proof -
  have "odd (a XOR b) = (odd a \<noteq> odd b)"
    by (simp add: even_xor_iff)
  then show ?thesis
    by (cases "odd a"; cases "odd b") (simp_all add: golay_step_odd drop_bit_xor ac_simps)
qed

lemma golay_steps_xor [linear_simps]:
  "(golay_step ^^ n) (a XOR b) = (golay_step ^^ n) a XOR (golay_step ^^ n) b"
  by (induction n) (simp_all add: golay_step_xor)

lemma golay_steps_zero [simp]: "(golay_step ^^ n) 0 = 0"
  by (induction n) (simp_all add: golay_step_def)

lemma syndrome_xor [linear_simps]:
  "fec_golay_syndrome (a XOR b) = fec_golay_syndrome a XOR fec_golay_syndrome b"
proof -
  have "(a XOR b) AND 0x7fffff = (a AND 0x7fffff) XOR (b AND 0x7fffff)"
    by (rule bit_eqI) (auto simp: bit_simps)
  then show ?thesis by (simp add: fec_golay_syndrome_def golay_steps_xor)
qed

subsection \<open>Widths of intermediate values\<close>

definition fits :: "nat \<Rightarrow> u32 \<Rightarrow> bool" where
  "fits n c \<longleftrightarrow> (\<forall>m. bit c m \<longrightarrow> m < n)"

lemma fits_mono: "fits n c \<Longrightarrow> n \<le> m \<Longrightarrow> fits m c"
  unfolding fits_def by (meson order_less_le_trans)

lemma fits_xor: "fits n a \<Longrightarrow> fits n b \<Longrightarrow> fits n (a XOR b)"
  by (auto simp: fits_def bit_xor_iff)

lemma fits_and: "fits n b \<Longrightarrow> fits n (a AND b)"
  by (auto simp: fits_def bit_and_iff)

lemma fits_take_bit: "fits n (take_bit n a)"
  by (auto simp: fits_def bit_take_bit_iff)

lemma fits_iff_take_bit: "fits n c \<longleftrightarrow> take_bit n c = c"
proof
  assume "fits n c"
  then show "take_bit n c = c" by (intro bit_eqI) (auto simp: fits_def bit_simps)
next
  assume "take_bit n c = c"
  with fits_take_bit [of n c] show "fits n c" by simp
qed

lemma fits_push_bit: "fits n a \<Longrightarrow> fits (n + k) (push_bit k a)"
  by (force simp: fits_def bit_push_bit_iff)

lemma fits_less: "fits n c \<Longrightarrow> n < 32 \<Longrightarrow> unat c < 2 ^ n"
  by (metis fits_iff_take_bit unsigned_take_bit_eq take_bit_nat_less_exp)

lemma fits_poly: "fits 12 FEC_GOLAY_POLY"
  by (simp add: fits_iff_take_bit FEC_GOLAY_POLY_def)

lemma mask12: "c AND 0xfff = take_bit 12 (c :: u32)"
  by (simp add: take_bit_eq_mask mask_eq_exp_minus_1)

lemma mask23: "c AND 0x7fffff = take_bit 23 (c :: u32)"
  by (simp add: take_bit_eq_mask mask_eq_exp_minus_1)

lemma fits_step:
  assumes "fits (Suc n) c" and "11 \<le> n"
  shows "fits n (golay_step c)"
proof -
  have "fits (Suc n) FEC_GOLAY_POLY"
    using fits_poly by (rule fits_mono) (use assms(2) in simp)
  with assms(1) have "fits (Suc n) (if odd c then c XOR FEC_GOLAY_POLY else c)"
    by (simp add: fits_xor)
  then show ?thesis unfolding golay_step_odd fits_def by (auto simp: bit_drop_bit_eq)
qed

lemma fits_steps: "fits (n + k) c \<Longrightarrow> 11 \<le> n \<Longrightarrow> fits n ((golay_step ^^ k) c)"
proof (induction k arbitrary: c)
  case 0
  then show ?case by simp
next
  case (Suc k)
  from Suc.prems have "fits (n + k) (golay_step c)" by (intro fits_step) simp_all
  with Suc show ?case by (simp add: funpow_swap1)
qed

lemma step_push_bit:
  assumes "fits 31 (push_bit k c)"
  shows "golay_step (push_bit (Suc k) c) = push_bit k c"
proof -
  have "drop_bit 1 (push_bit (Suc k) c) = push_bit k c"
    using assms
    by (intro bit_eqI) (auto simp: bit_drop_bit_eq bit_push_bit_iff fits_def simp del: push_bit_Suc)
  moreover have "even (push_bit (Suc k) c)"
    by (simp add: bit_push_bit_iff flip: bit_0 del: push_bit_Suc)
  ultimately show ?thesis by (simp add: golay_step_odd del: push_bit_Suc)
qed

lemma steps_push_bit: "fits n c \<Longrightarrow> n + k \<le> 32 \<Longrightarrow> (golay_step ^^ k) (push_bit k c) = c"
proof (induction k)
  case 0
  then show ?case by simp
next
  case (Suc k)
  from Suc.prems have "fits 31 (push_bit k c)"
    using fits_mono [OF fits_push_bit [of n c k]] by simp
  with Suc show ?case by (simp add: step_push_bit funpow_swap1 del: push_bit_Suc)
qed

subsection \<open>Codewords\<close>

lemma encode_xor_form:
  "fec_golay_encode x = take_bit 12 x XOR push_bit 12 ((golay_step ^^ 12) (take_bit 12 x))"
  unfolding fec_golay_encode_def Let_def mask12
  by (rule bit_eqI) (auto simp: bit_simps)

lemma encode_xor [linear_simps]:
  "fec_golay_encode (a XOR b) = fec_golay_encode a XOR fec_golay_encode b"
  by (simp add: encode_xor_form take_bit_xor golay_steps_xor push_bit_xor ac_simps)

lemma fits_check: "fits 11 ((golay_step ^^ 12) (take_bit 12 x))"
proof -
  have "fits (11 + 12) (take_bit 12 x)" by (rule fits_mono [OF fits_take_bit]) simp
  then show ?thesis by (rule fits_steps) simp
qed

lemma fits_encode: "fits 23 (fec_golay_encode x)"
  unfolding encode_xor_form
  using fits_push_bit [OF fits_check, of 12 x]
  by (intro fits_xor) (auto intro: fits_mono [OF fits_take_bit])

lemma syndrome_fits: "fits 23 w \<Longrightarrow> fec_golay_syndrome w = (golay_step ^^ 12) w"
  by (simp add: fec_golay_syndrome_def mask23 fits_iff_take_bit)

lemma syndrome_encode: "fec_golay_syndrome (fec_golay_encode x) = 0"
  unfolding syndrome_fits [OF fits_encode] unfolding encode_xor_form
  by (simp add: golay_steps_xor steps_push_bit [OF fits_check])

lemma fits_syndrome: "fits 11 (fec_golay_syndrome w)"
proof -
  have "fits (11 + 12) (take_bit 23 w)" using fits_take_bit [of 23 w] by simp
  then show ?thesis unfolding fec_golay_syndrome_def mask23 by (rule fits_steps) simp
qed

lemma zero_syndrome_codeword:
  assumes "fits 23 w" and "fec_golay_syndrome w = 0"
  shows "w = fec_golay_encode w"
proof -
  define d where "d = w XOR fec_golay_encode w"
  define h where "h = drop_bit 12 d"
  have "fits 23 d" unfolding d_def using assms(1) fits_encode by (rule fits_xor)
  then have "fits 11 h" unfolding h_def fits_def by (auto simp: bit_drop_bit_eq)
  have "take_bit 12 d = 0"
    unfolding d_def encode_xor_form by (rule bit_eqI) (auto simp: bit_simps)
  then have d: "d = push_bit 12 h"
    unfolding h_def by (metis bits_ident add_0_right)
  have "fec_golay_syndrome d = 0"
    unfolding d_def using assms(2) by (simp add: syndrome_xor syndrome_encode)
  then have "h = 0"
    using steps_push_bit [OF \<open>fits 11 h\<close>, of 12] syndrome_fits [OF \<open>fits 23 d\<close>] d by simp
  with d have "w XOR fec_golay_encode w = 0" unfolding d_def by simp
  then show ?thesis by (metis xor.assoc xor.left_neutral xor.right_neutral xor_self_eq)
qed

subsection \<open>Minimum distance\<close>

text \<open>Hamming weight of the bits in a range, and the eleven check bits of a word, least
  significant first.\<close>

definition weight :: "nat \<Rightarrow> nat \<Rightarrow> u32 \<Rightarrow> nat" where
  "weight lo hi w = card {m. lo \<le> m \<and> m < hi \<and> bit w m}"

definition check_bits :: "u32 \<Rightarrow> bool list" where
  "check_bits w = map (bit w) [12..<23]"

fun xor_row :: "bool list \<Rightarrow> bool list \<Rightarrow> bool list" where
  "xor_row (a # as) (b # bs) = (a \<noteq> b) # xor_row as bs"
| "xor_row as bs = []"

text \<open>At least \<open>n\<close> of the bits are set.\<close>

fun heavy :: "nat \<Rightarrow> bool list \<Rightarrow> bool" where
  "heavy 0 bs = True"
| "heavy (Suc n) [] = False"
| "heavy (Suc n) (b # bs) = (if b then heavy n bs else heavy (Suc n) bs)"

text \<open>Adding any selection of the rows to \<open>acc\<close> gives at least \<open>n\<close> selected rows and set
  bits together.\<close>

fun span_heavy :: "nat \<Rightarrow> bool list list \<Rightarrow> bool list \<Rightarrow> bool" where
  "span_heavy 0 rs acc = True"
| "span_heavy (Suc n) [] acc = heavy (Suc n) acc"
| "span_heavy (Suc n) (r # rs) acc = (span_heavy (Suc n) rs acc \<and> span_heavy n rs (xor_row acc r))"

text \<open>The same for every non-empty selection, starting from nothing.\<close>

fun all_heavy :: "nat \<Rightarrow> bool list list \<Rightarrow> bool" where
  "all_heavy n [] = True"
| "all_heavy n (r # rs) = (span_heavy (n - 1) rs r \<and> all_heavy n rs)"

lemma weight_empty [simp]: "weight k k w = 0"
  by (simp add: weight_def)

lemma weight_Suc: "weight 0 (Suc n) w = weight 0 n w + of_bool (bit w n)"
proof -
  have "{m. 0 \<le> m \<and> m < Suc n \<and> bit w m} =
      (if bit w n then insert n {m. 0 \<le> m \<and> m < n \<and> bit w m} else {m. 0 \<le> m \<and> m < n \<and> bit w m})"
    by (auto simp: less_Suc_eq)
  then show ?thesis by (simp add: weight_def)
qed

lemma weight_cong: "(\<And>m. lo \<le> m \<Longrightarrow> m < hi \<Longrightarrow> bit a m = bit b m) \<Longrightarrow> weight lo hi a = weight lo hi b"
  unfolding weight_def by (intro arg_cong [where f = card]) auto

lemma weight_split:
  assumes "k \<le> n"
  shows "weight 0 n w = weight 0 k w + weight k n w"
proof -
  let ?A = "{m. 0 \<le> m \<and> m < k \<and> bit w m}" and ?B = "{m. k \<le> m \<and> m < n \<and> bit w m}"
  have "{m. 0 \<le> m \<and> m < n \<and> bit w m} = ?A \<union> ?B"
    using assms by auto
  moreover have "card (?A \<union> ?B) = card ?A + card ?B"
    by (rule card_Un_disjoint) auto
  ultimately show ?thesis by (simp add: weight_def)
qed

lemma weight_xor_le: "weight lo hi (a XOR b) \<le> weight lo hi a + weight lo hi b"
proof -
  have "{m. lo \<le> m \<and> m < hi \<and> bit (a XOR b) m} \<subseteq>
      {m. lo \<le> m \<and> m < hi \<and> bit a m} \<union> {m. lo \<le> m \<and> m < hi \<and> bit b m}"
    by (auto simp: bit_xor_iff)
  then have "weight lo hi (a XOR b) \<le>
      card ({m. lo \<le> m \<and> m < hi \<and> bit a m} \<union> {m. lo \<le> m \<and> m < hi \<and> bit b m})"
    unfolding weight_def by (intro card_mono) auto
  also have "\<dots> \<le> weight lo hi a + weight lo hi b"
    unfolding weight_def by (rule card_Un_le)
  finally show ?thesis .
qed

lemma xor_row_zip: "xor_row as bs = map (\<lambda>(a, b). a \<noteq> b) (zip as bs)"
  by (induction as bs rule: xor_row.induct) auto

lemma check_bits_xor: "check_bits (a XOR b) = xor_row (check_bits a) (check_bits b)"
  by (rule nth_equalityI) (auto simp: check_bits_def xor_row_zip bit_xor_iff)

lemma heavy_filter: "heavy n bs \<longleftrightarrow> n \<le> length (filter (\<lambda>b. b) bs)"
  by (induction n bs rule: heavy.induct) auto

lemma weight_bits: "length (filter (\<lambda>b. b) (map (bit w) [lo..<hi])) = weight lo hi w"
proof -
  have "length (filter (\<lambda>b. b) (map (bit w) [lo..<hi])) = length (filter (bit w) [lo..<hi])"
    by (simp add: filter_map o_def)
  also have "\<dots> = card (set (filter (bit w) [lo..<hi]))"
    by (rule distinct_card [symmetric]) simp
  also have "set (filter (bit w) [lo..<hi]) = {m. lo \<le> m \<and> m < hi \<and> bit w m}"
    by auto
  finally show ?thesis by (simp add: weight_def)
qed

lemma weight_check_bits: "length (filter (\<lambda>b. b) (check_bits w)) = weight 12 23 w"
  unfolding check_bits_def by (rule weight_bits)

fun unit_rows :: "nat \<Rightarrow> bool list list" where
  "unit_rows 0 = []"
| "unit_rows (Suc n) = check_bits (fec_golay_encode (push_bit n 1)) # unit_rows n"

lemma encode_zero: "fec_golay_encode 0 = 0"
  by (simp add: encode_xor_form)

lemma fits_Suc_cases:
  assumes "fits (Suc n) x"
  shows "x = (if bit x n then push_bit n 1 XOR take_bit n x else take_bit n x)"
  using assms by (intro bit_eqI) (auto simp: bit_simps fits_def less_Suc_eq)

lemma span_heavy_sound:
  assumes "span_heavy k (unit_rows n) (check_bits a)" and "fits n x"
  shows "k \<le> weight 0 n x + weight 12 23 (a XOR fec_golay_encode x)"
  using assms
proof (induction n arbitrary: a x k)
  case 0
  then have "x = 0" by (intro bit_eqI) (auto simp: fits_def)
  with 0 show ?case by (cases k) (auto simp: encode_zero heavy_filter weight_check_bits)
next
  case (Suc n)
  let ?y = "take_bit n x"
  have fit: "fits n ?y" by (rule fits_take_bit)
  have wy: "weight 0 n ?y = weight 0 n x" by (rule weight_cong) (simp add: bit_take_bit_iff)
  note x = fits_Suc_cases [OF Suc.prems(2)]
  show ?case
  proof (cases k)
    case 0
    then show ?thesis by simp
  next
    case k: (Suc j)
    show ?thesis
    proof (cases "bit x n")
      case False
      with x have "x = ?y" by simp
      with Suc.IH [OF _ fit, of k a] Suc.prems(1) False k show ?thesis
        by (simp add: weight_Suc wy)
    next
      case True
      have "span_heavy j (unit_rows n) (check_bits (a XOR fec_golay_encode (push_bit n 1)))"
        using Suc.prems(1) k by (simp add: check_bits_xor)
      from Suc.IH [OF this fit]
      have "j \<le> weight 0 n x + weight 12 23 (a XOR fec_golay_encode (push_bit n 1 XOR ?y))"
        by (simp only: wy encode_xor xor.assoc)
      with x True k show ?thesis by (simp add: weight_Suc)
    qed
  qed
qed

lemma all_heavy_sound:
  assumes "all_heavy (Suc k) (unit_rows n)" and "fits n x" and "x \<noteq> 0"
  shows "Suc k \<le> weight 0 n x + weight 12 23 (fec_golay_encode x)"
  using assms
proof (induction n arbitrary: x)
  case 0
  then have "x = 0" by (intro bit_eqI) (auto simp: fits_def)
  with 0 show ?case by simp
next
  case (Suc n)
  let ?y = "take_bit n x"
  have fit: "fits n ?y" by (rule fits_take_bit)
  have wy: "weight 0 n ?y = weight 0 n x" by (rule weight_cong) (simp add: bit_take_bit_iff)
  note x = fits_Suc_cases [OF Suc.prems(2)]
  show ?case
  proof (cases "bit x n")
    case False
    with x have "x = ?y" by simp
    with Suc.IH [of x] fit Suc.prems False show ?thesis by (simp add: weight_Suc)
  next
    case True
    have "span_heavy k (unit_rows n) (check_bits (fec_golay_encode (push_bit n 1)))"
      using Suc.prems(1) by simp
    from span_heavy_sound [OF this fit]
    have "k \<le> weight 0 n x + weight 12 23 (fec_golay_encode (push_bit n 1 XOR ?y))"
      by (simp only: wy encode_xor)
    with x True show ?thesis by (simp add: weight_Suc)
  qed
qed

text \<open>The remainders of the powers of two: the orbit of one under the division step.\<close>

lemma golay_orbit:
  "golay_step 1 = 1393"
  "golay_step 1393 = 1993"
  "golay_step 1993 = 1685"
  "golay_step 1685 = 1595"
  "golay_step 1595 = 1644"
  "golay_step 1644 = 822"
  "golay_step 822 = 411"
  "golay_step 411 = 1468"
  "golay_step 1468 = 734"
  "golay_step 734 = 367"
  "golay_step 367 = 1478"
  "golay_step 1478 = 739"
  by (simp_all add: golay_step_odd FEC_GOLAY_POLY_def)

lemma funpow_next: "(f ^^ n) x = y \<Longrightarrow> f y = z \<Longrightarrow> m = Suc n \<Longrightarrow> (f ^^ m) x = z"
  by simp

lemma golay_orbits:
  "(golay_step ^^ 1) 1 = 1393"
  "(golay_step ^^ 2) 1 = 1993"
  "(golay_step ^^ 3) 1 = 1685"
  "(golay_step ^^ 4) 1 = 1595"
  "(golay_step ^^ 5) 1 = 1644"
  "(golay_step ^^ 6) 1 = 822"
  "(golay_step ^^ 7) 1 = 411"
  "(golay_step ^^ 8) 1 = 1468"
  "(golay_step ^^ 9) 1 = 734"
  "(golay_step ^^ 10) 1 = 367"
  "(golay_step ^^ 11) 1 = 1478"
  "(golay_step ^^ 12) 1 = 739"
proof -
  show o1: "(golay_step ^^ 1) 1 = 1393" by (simp add: golay_orbit)
  show o2: "(golay_step ^^ 2) 1 = 1993" by (rule funpow_next [OF o1 golay_orbit(2)]) simp
  show o3: "(golay_step ^^ 3) 1 = 1685" by (rule funpow_next [OF o2 golay_orbit(3)]) simp
  show o4: "(golay_step ^^ 4) 1 = 1595" by (rule funpow_next [OF o3 golay_orbit(4)]) simp
  show o5: "(golay_step ^^ 5) 1 = 1644" by (rule funpow_next [OF o4 golay_orbit(5)]) simp
  show o6: "(golay_step ^^ 6) 1 = 822" by (rule funpow_next [OF o5 golay_orbit(6)]) simp
  show o7: "(golay_step ^^ 7) 1 = 411" by (rule funpow_next [OF o6 golay_orbit(7)]) simp
  show o8: "(golay_step ^^ 8) 1 = 1468" by (rule funpow_next [OF o7 golay_orbit(8)]) simp
  show o9: "(golay_step ^^ 9) 1 = 734" by (rule funpow_next [OF o8 golay_orbit(9)]) simp
  show o10: "(golay_step ^^ 10) 1 = 367" by (rule funpow_next [OF o9 golay_orbit(10)]) simp
  show o11: "(golay_step ^^ 11) 1 = 1478" by (rule funpow_next [OF o10 golay_orbit(11)]) simp
  show o12: "(golay_step ^^ 12) 1 = 739" by (rule funpow_next [OF o11 golay_orbit(12)]) simp
qed

lemma encode_unit:
  assumes "n < 12"
  shows "fec_golay_encode (push_bit n 1) = push_bit n 1 XOR push_bit 12 ((golay_step ^^ (12 - n)) 1)"
proof -
  have "take_bit 12 (push_bit n 1) = (push_bit n 1 :: u32)"
    using assms by (intro bit_eqI) (auto simp: bit_simps)
  moreover have "(golay_step ^^ 12) (push_bit n 1) = (golay_step ^^ (12 - n)) ((golay_step ^^ n) (push_bit n 1))"
    using assms by (simp flip: funpow_add [THEN fun_cong, unfolded o_apply])
  moreover have "(golay_step ^^ n) (push_bit n 1) = 1"
    by (rule steps_push_bit [of 1]) (use assms in \<open>auto simp: fits_def bit_1_iff\<close>)
  ultimately show ?thesis by (simp add: encode_xor_form)
qed

definition generator_rows :: "bool list list" where
  "generator_rows = [
    [True, False, False, False, True, True, True, False, True, False, True],
    [True, False, False, True, False, False, True, True, True, True, True],
    [True, False, True, False, True, False, False, True, False, True, True],
    [True, True, False, True, True, True, False, False, False, True, True],
    [False, False, True, True, False, True, True, False, False, True, True],
    [False, True, True, False, True, True, False, False, True, True, False],
    [True, True, False, True, True, False, False, True, True, False, False],
    [False, False, True, True, True, True, False, True, True, False, True],
    [False, True, True, True, True, False, True, True, False, True, False],
    [True, True, True, True, False, True, True, False, True, False, False],
    [False, True, True, False, False, False, True, True, True, False, True],
    [True, True, False, False, False, True, True, True, False, True, False]]"

lemma upt_12_23: "[12..<23] = [12, 13, 14, 15, 16, 17, 18, 19, 20, 21, 22]"
  by (simp add: upt_rec)

lemma unit_rows_12: "unit_rows 12 = generator_rows"
proof -
  have "unit_rows 12 = map check_bits (map (\<lambda>n. fec_golay_encode (push_bit n 1))
      [11, 10, 9, 8, 7, 6, 5, 4, 3, 2, 1, 0])"
    by (simp add: eval_nat_numeral)
  also have "map (\<lambda>n. fec_golay_encode (push_bit n 1)) [11, 10, 9, 8, 7, 6, 5, 4, 3, 2, 1, 0] =
      map (\<lambda>n. push_bit n 1 XOR push_bit 12 ((golay_step ^^ (12 - n)) 1))
      [11, 10, 9, 8, 7, 6, 5, 4, 3, 2, 1, 0]"
    by (simp only: list.map) (simp only: encode_unit)
  also have "\<dots> = [5707776, 8164352, 6902272, 6533376, 6733952, 3366976, 1683488, 6012944, 3006472, 1503236, 6053890, 3026945]"
    by (simp add: golay_orbits golay_orbit(1))
  also have "map check_bits [5707776, 8164352, 6902272, 6533376, 6733952, 3366976, 1683488, 6012944, 3006472, 1503236, 6053890, 3026945] = generator_rows"
    by (simp add: check_bits_def upt_12_23 generator_rows_def)
  finally show ?thesis .
qed

lemma generator_span: "all_heavy (Suc 6) generator_rows"
proof -
  have "all_heavy (Suc (Suc (Suc (Suc (Suc (Suc (Suc 0))))))) generator_rows"
    by code_simp
  then show ?thesis by (simp only: numeral_eq_Suc pred_numeral_simps arith_simps BitM.simps)
qed

lemma weight_encode: "weight 0 12 (fec_golay_encode x) = weight 0 12 x"
  by (rule weight_cong) (simp add: encode_xor_form bit_simps)

lemma minimum_distance:
  assumes "fits 23 w" and "fec_golay_syndrome w = 0" and "w \<noteq> 0"
  shows "7 \<le> weight 0 23 w"
proof -
  let ?x = "take_bit 12 w"
  have w: "w = fec_golay_encode ?x"
    using zero_syndrome_codeword [OF assms(1,2)] by (simp add: encode_xor_form)
  with assms(3) have "?x \<noteq> 0" by (metis encode_zero)
  then have "Suc 6 \<le> weight 0 12 ?x + weight 12 23 (fec_golay_encode ?x)"
    by (intro all_heavy_sound) (simp_all only: unit_rows_12 generator_span fits_take_bit not_False_eq_True)
  moreover have "weight 0 12 ?x = weight 0 12 w"
    using weight_encode [of ?x] w by simp
  ultimately show ?thesis using w by (simp add: weight_split [of 12 23])
qed

subsection \<open>The decoding table\<close>

lemma golay_triples_set: "set golay_triples = {(i, j, k). i < 23 \<and> j < 23 \<and> k < 23}"
  by (auto simp: golay_triples_def image_iff)

lemma entry_fields:
  assumes "i < 32" and "j < 32" and "k < 32"
  shows "unat (drop_bit 10 (golay_entry i j k) AND 0x1f) = i"
    and "unat (drop_bit 5 (golay_entry i j k) AND 0x1f) = j"
    and "unat (golay_entry i j k AND 0x1f) = k"
proof -
  have mask: "c AND 0x1f = take_bit 5 c" for c :: u16
    by (simp add: take_bit_eq_mask mask_eq_exp_minus_1)
  have small: "m < 5" if "x < 32" and "bit (of_nat x :: u16) m" for x m
  proof -
    have "bit x m" using that(2) by (simp add: bit_simps)
    have "take_bit 5 x = x" using that(1) by (simp add: take_bit_nat_eq_self)
    with \<open>bit x m\<close> show "m < 5" by (metis bit_take_bit_iff)
  qed
  have of_unat: "unat (of_nat x :: u16) = x" if "x < 32" for x
    using that by (simp add: unsigned_of_nat take_bit_nat_eq_self)
  have high: "\<not> bit (of_nat x :: u16) m" if "x < 32" and "5 \<le> m" for x m
    using small [of x m] that by auto
  note fields = golay_entry_def bit_take_bit_iff bit_drop_bit_eq bit_or_iff bit_push_bit_iff
  have "take_bit 5 (drop_bit 10 (golay_entry i j k)) = of_nat i"
    using assms high by (intro bit_eqI) (auto simp: fields dest: small [rotated])
  then show "unat (drop_bit 10 (golay_entry i j k) AND 0x1f) = i"
    using of_unat assms by (simp add: mask)
  have "take_bit 5 (drop_bit 5 (golay_entry i j k)) = of_nat j"
    using assms high by (intro bit_eqI) (auto simp: fields dest: small [rotated])
  then show "unat (drop_bit 5 (golay_entry i j k) AND 0x1f) = j"
    using of_unat assms by (simp add: mask)
  have "take_bit 5 (golay_entry i j k) = of_nat k"
    using assms high by (intro bit_eqI) (auto simp: fields dest: small [rotated])
  then show "unat (golay_entry i j k AND 0x1f) = k"
    using of_unat assms by (simp add: mask)
qed

lemma bit_golay_pattern: "bit (golay_pattern i j k) m \<longleftrightarrow> m < 32 \<and> (m = i \<or> m = j \<or> m = k)"
  by (auto simp: golay_pattern_def bit_simps)

lemma fits_pattern: "i < 23 \<Longrightarrow> j < 23 \<Longrightarrow> k < 23 \<Longrightarrow> fits 23 (golay_pattern i j k)"
  by (auto simp: fits_def golay_pattern_def bit_simps)

lemma weight_pattern: "weight 0 23 (golay_pattern i j k) \<le> 3"
proof -
  have "{m. 0 \<le> m \<and> m < 23 \<and> bit (golay_pattern i j k) m} \<subseteq> {i, j, k}"
    by (auto simp: golay_pattern_def bit_simps)
  then have "weight 0 23 (golay_pattern i j k) \<le> card {i, j, k}"
    unfolding weight_def by (intro card_mono) auto
  also have "card {i, j, k} \<le> 3"
    by (simp add: card_insert_if)
  finally show ?thesis .
qed

lemma light_pattern:
  assumes "fits 23 e" and "e \<noteq> 0" and "weight 0 23 e \<le> 3"
  shows "\<exists>i j k. i < 23 \<and> j < 23 \<and> k < 23 \<and> e = golay_pattern i j k"
proof -
  let ?S = "{m. 0 \<le> m \<and> m < 23 \<and> bit e m}"
  have "?S \<noteq> {}"
    using assms(1,2) bit_eq_iff [of e 0] by (auto simp: fits_def)
  have fin: "finite ?S" by simp
  have "card ?S \<in> {1, 2, 3}"
    using assms(3) \<open>?S \<noteq> {}\<close> fin card_0_eq [OF fin] unfolding weight_def by force
  then obtain i j k where S: "?S = {i, j, k}"
    by (auto simp: card_1_singleton_iff card_2_iff card_3_iff)
  then have "i < 23" "j < 23" "k < 23" by auto
  moreover have "e = golay_pattern i j k"
  proof (rule bit_eqI)
    fix n assume "possible_bit TYPE(u32) n"
    have "bit e n \<longleftrightarrow> n \<in> ?S" using assms(1) by (auto simp: fits_def)
    also have "\<dots> \<longleftrightarrow> n = i \<or> n = j \<or> n = k" using S by auto
    also have "\<dots> \<longleftrightarrow> bit (golay_pattern i j k) n"
      using \<open>i < 23\<close> \<open>j < 23\<close> \<open>k < 23\<close> by (auto simp: golay_pattern_def bit_simps)
    finally show "bit e n \<longleftrightarrow> bit (golay_pattern i j k) n" .
  qed
  ultimately show ?thesis by blast
qed

lemma golay_table_entry:
  assumes "fits 23 e" and "weight 0 23 e \<le> 3" and "fec_golay_syndrome e \<noteq> 0"
  shows "\<exists>i j k. i < 23 \<and> j < 23 \<and> k < 23 \<and>
    golay_table ! unat (fec_golay_syndrome e) = golay_entry i j k \<and>
    fec_golay_syndrome (golay_pattern i j k) = fec_golay_syndrome e"
proof -
  have "e \<noteq> 0" using assms(3) by (auto simp: fec_golay_syndrome_def)
  then obtain i j k where ijk: "i < 23" "j < 23" "k < 23" and e: "e = golay_pattern i j k"
    using light_pattern assms(1,2) by blast
  let ?key = "\<lambda>(i, j, k). unat (fec_golay_syndrome (golay_pattern i j k))"
  have "unat (fec_golay_syndrome e) < 2 ^ 11"
    using fits_syndrome by (rule fits_less) simp
  then obtain t where "t \<in> set golay_triples" and "?key t = ?key (i, j, k)" and
    fill: "fill_table ?key (\<lambda>(i, j, k). golay_entry i j k) golay_triples (replicate 2048 0) !
      ?key (i, j, k) = (\<lambda>(i, j, k). golay_entry i j k) t"
    using ijk e fill_table_entry [of "(i, j, k)" golay_triples ?key "replicate 2048 0"
      "\<lambda>(i, j, k). golay_entry i j k"]
    by (auto simp: golay_triples_set)
  moreover obtain x y z where t: "t = (x, y, z)" by (cases t) auto
  ultimately have "x < 23" "y < 23" "z < 23"
    and "fec_golay_syndrome (golay_pattern x y z) = fec_golay_syndrome e"
    by (auto simp: golay_triples_set e word_unat_eq_iff)
  moreover have "golay_table ! unat (fec_golay_syndrome e) = golay_entry x y z"
    using assms(3) fill t e by (simp add: golay_table_def fec_golay_table_fill_def unat_eq_0)
  ultimately show ?thesis by blast
qed

lemma golay_correct_light:
  assumes "fits 23 e" and "weight 0 23 e \<le> 3"
  shows "fec_golay_correct golay_table (fec_golay_encode x XOR e) = fec_golay_encode x"
proof -
  let ?c = "fec_golay_encode x XOR e"
  have syn: "fec_golay_syndrome ?c = fec_golay_syndrome e"
    by (simp add: syndrome_xor syndrome_encode)
  show ?thesis
  proof (cases "fec_golay_syndrome e = 0")
    case True
    with minimum_distance [OF assms(1)] assms(2) have "e = 0" by fastforce
    with True syn show ?thesis by (simp add: fec_golay_correct_def)
  next
    case False
    then obtain i j k where ijk: "i < 23" "j < 23" "k < 23"
      and entry: "golay_table ! unat (fec_golay_syndrome e) = golay_entry i j k"
      and same: "fec_golay_syndrome (golay_pattern i j k) = fec_golay_syndrome e"
      using golay_table_entry assms by blast
    let ?d = "golay_pattern i j k XOR e"
    have "weight 0 23 ?d \<le> 6"
      using weight_xor_le [of 0 23 "golay_pattern i j k" e] weight_pattern [of i j k] assms(2) by simp
    moreover have "fits 23 ?d" using fits_pattern [OF ijk] assms(1) by (rule fits_xor)
    moreover have "fec_golay_syndrome ?d = 0" using same by (simp add: syndrome_xor)
    ultimately have "?d = 0" using minimum_distance by fastforce
    then have "golay_pattern i j k = e" by (metis xor.assoc xor.left_neutral xor.right_neutral xor_self_eq)
    with False syn entry ijk show ?thesis
      by (simp add: fec_golay_correct_def entry_fields xor.assoc)
  qed
qed

subsection \<open>Properties\<close>

text \<open>Property C4. The decoder repairs every error of at most three flipped bits in the 23-bit codeword
  of any 12-bit datum: correcting the damaged codeword with the table that
  \<open>fec_golay_table_fill\<close> builds gives back the codeword that was sent.\<close>

theorem golay_corrects_three_errors:
  assumes "e AND 0x7fffff = e" and "card {m. bit e m} \<le> 3"
  shows "fec_golay_correct golay_table (fec_golay_encode x XOR e) = fec_golay_encode x"
proof (rule golay_correct_light)
  show "fits 23 e" using assms(1) by (simp add: mask23 fits_iff_take_bit)
  have "weight 0 23 e \<le> card {m. bit e m}"
    unfolding weight_def by (intro card_mono) auto
  with assms(2) show "weight 0 23 e \<le> 3" by simp
qed

theorem golay_corrects_three_errors_witness:
  "fec_golay_correct golay_table (fec_golay_encode 0x5a7 XOR golay_pattern 22 11 0) =
    fec_golay_encode 0x5a7"
proof (rule golay_corrects_three_errors)
  show "golay_pattern 22 11 0 AND 0x7fffff = golay_pattern 22 11 0"
    by (simp add: golay_pattern_def push_bit_eq_mult)
  have "{m. bit (golay_pattern 22 11 0) m} \<subseteq> {0, 11, 22}"
    by (auto simp: bit_golay_pattern)
  then have "card {m. bit (golay_pattern 22 11 0) m} \<le> card {0, 11, 22 :: nat}"
    by (intro card_mono) auto
  then show "card {m. bit (golay_pattern 22 11 0) m} \<le> 3" by simp
qed

end
