(* ===== verification/Table.thy ===== *)
theory Table
  imports Prelude
begin

text \<open>
  Statically allocated tables. The firmware keeps neighbours and packets in arrays
  whose entries are free or used, looks an entry up by a linear search for its key and adds one
  in the first free place. The locale \<open>keyed_table\<close> is the contract that the neighbour tables of
  uMesh and of the radio MAC share: at most one used entry per key, and lookup and insertion
  that act on the table as on a partial map.
\<close>

definition table_find :: "('a \<Rightarrow> bool) \<Rightarrow> ('a \<Rightarrow> 'k) \<Rightarrow> 'k \<Rightarrow> 'a list \<Rightarrow> nat option" where
  "table_find used key k xs = find_index (\<lambda>x. used x \<and> key x = k) xs"

definition table_alloc :: "('a \<Rightarrow> bool) \<Rightarrow> 'a list \<Rightarrow> nat option" where
  "table_alloc used xs = find_index (\<lambda>x. \<not> used x) xs"

definition table_put :: "('a \<Rightarrow> bool) \<Rightarrow> ('a \<Rightarrow> 'k) \<Rightarrow> ('k \<Rightarrow> 'a) \<Rightarrow> 'k \<Rightarrow> 'a list \<Rightarrow> (nat \<times> 'a list) option" where
  "table_put used key fresh k xs =
     (case table_find used key k xs of
        Some i \<Rightarrow> Some (i, xs)
      | None \<Rightarrow> (case table_alloc used xs of None \<Rightarrow> None | Some i \<Rightarrow> Some (i, xs[i := fresh k])))"

definition table_distinct :: "('a \<Rightarrow> bool) \<Rightarrow> ('a \<Rightarrow> 'k) \<Rightarrow> 'a list \<Rightarrow> bool" where
  "table_distinct used key xs \<longleftrightarrow>
     (\<forall>i < length xs. \<forall>j < length xs. used (xs ! i) \<and> used (xs ! j) \<and> key (xs ! i) = key (xs ! j) \<longrightarrow> i = j)"

definition table_lookup :: "('a \<Rightarrow> bool) \<Rightarrow> ('a \<Rightarrow> 'k) \<Rightarrow> 'a list \<Rightarrow> 'k \<Rightarrow> 'a option" where
  "table_lookup used key xs k = map_option (nth xs) (table_find used key k xs)"

lemma table_alloc_Some [table_simps]:
  "table_alloc used xs = Some i \<Longrightarrow> i < length xs \<and> \<not> used (xs ! i) \<and> (\<forall>j < i. used (xs ! j))"
  by (auto simp: table_alloc_def find_index_Some)

lemma table_alloc_None [table_simps]: "table_alloc used xs = None \<longleftrightarrow> (\<forall>x \<in> set xs. used x)"
  by (simp add: table_alloc_def find_index_None)

lemma table_find_None [table_simps]:
  "table_find used key k xs = None \<longleftrightarrow> (\<forall>x \<in> set xs. used x \<longrightarrow> key x \<noteq> k)"
  by (auto simp: table_find_def find_index_None)

lemma table_find_Some [table_simps]:
  "table_find used key k xs = Some i \<Longrightarrow> i < length xs \<and> used (xs ! i) \<and> key (xs ! i) = k"
  by (simp add: table_find_def find_index_Some)

locale keyed_table =
  fixes used :: "'a \<Rightarrow> bool" and key :: "'a \<Rightarrow> 'k" and fresh :: "'k \<Rightarrow> 'a"
  assumes fresh_used: "used (fresh k)"
    and fresh_key: "key (fresh k) = k"
begin

lemma find_unique:
  assumes "table_distinct used key xs" "i < length xs" "used (xs ! i)" "key (xs ! i) = k"
  shows "table_find used key k xs = Some i"
proof -
  obtain j where j: "table_find used key k xs = Some j"
    using assms find_index_exists [of "xs ! i" xs "\<lambda>x. used x \<and> key x = k"]
    by (auto simp: table_find_def)
  from table_find_Some [OF j] assms have "j = i" by (auto simp: table_distinct_def)
  with j show ?thesis by simp
qed

lemma lookup_eq_Some:
  assumes "table_distinct used key xs"
  shows "table_lookup used key xs k = Some x \<longleftrightarrow> x \<in> set xs \<and> used x \<and> key x = k"
proof
  assume "table_lookup used key xs k = Some x"
  then show "x \<in> set xs \<and> used x \<and> key x = k"
    by (auto simp: table_lookup_def dest!: table_find_Some)
next
  assume "x \<in> set xs \<and> used x \<and> key x = k"
  then obtain i where "i < length xs" "xs ! i = x" "used x" "key x = k" by (auto simp: in_set_conv_nth)
  with find_unique [OF assms, of i k] show "table_lookup used key xs k = Some x"
    by (auto simp: table_lookup_def)
qed

lemma put_None:
  "table_put used key fresh k xs = None \<longleftrightarrow> (\<forall>x \<in> set xs. used x \<and> key x \<noteq> k)"
proof (cases "table_find used key k xs")
  case None
  then have "\<forall>x \<in> set xs. used x \<longrightarrow> key x \<noteq> k" by (simp add: table_find_None)
  moreover have "table_put used key fresh k xs = None \<longleftrightarrow> table_alloc used xs = None"
    using None by (simp add: table_put_def split: option.splits)
  ultimately show ?thesis by (auto simp: table_alloc_None)
next
  case (Some i)
  then show ?thesis by (auto simp: table_put_def dest!: table_find_Some)
qed

lemma update_distinct:
  assumes "table_distinct used key xs" "i < length xs"
    and "used y \<longrightarrow> (\<forall>j < length xs. j \<noteq> i \<longrightarrow> used (xs ! j) \<longrightarrow> key (xs ! j) \<noteq> key y)"
  shows "table_distinct used key (xs[i := y])"
  using assms by (auto simp: table_distinct_def nth_list_update)

lemma update_same_key_distinct:
  assumes "table_distinct used key xs" "i < length xs"
    and "used y \<longrightarrow> used (xs ! i) \<and> key y = key (xs ! i)"
  shows "table_distinct used key (xs[i := y])"
  using assms by (intro update_distinct) (auto simp: table_distinct_def)

lemma put_props:
  assumes "table_distinct used key xs" "table_put used key fresh k xs = Some (i, ys)"
  shows "table_distinct used key ys" "length ys = length xs" "i < length ys"
    "used (ys ! i)" "key (ys ! i) = k"
    "\<And>j. j \<noteq> i \<Longrightarrow> ys ! j = xs ! j"
proof -
  have "table_distinct used key ys \<and> length ys = length xs \<and> i < length ys \<and> used (ys ! i) \<and>
    key (ys ! i) = k \<and> (\<forall>j. j \<noteq> i \<longrightarrow> ys ! j = xs ! j)"
  proof (cases "table_find used key k xs")
    case (Some j)
    with assms table_find_Some [OF Some] show ?thesis by (auto simp: table_put_def)
  next
    case None
    then obtain j where j: "table_alloc used xs = Some j" and ij: "i = j" "ys = xs[j := fresh k]"
      using assms(2) by (auto simp: table_put_def split: option.splits)
    note jj = table_alloc_Some [OF j]
    have "table_distinct used key (xs[j := fresh k])"
      using assms(1) jj None by (intro update_distinct) (auto simp: table_find_None fresh_key)
    with jj show ?thesis by (auto simp: ij fresh_used fresh_key)
  qed
  then show "table_distinct used key ys" "length ys = length xs" "i < length ys"
    "used (ys ! i)" "key (ys ! i) = k" "\<And>j. j \<noteq> i \<Longrightarrow> ys ! j = xs ! j" by auto
qed

text \<open>Insertion refines the map update that leaves a present key alone.\<close>

lemma put_lookup:
  assumes "table_distinct used key xs" "table_put used key fresh k xs = Some (i, ys)"
  shows "table_lookup used key ys =
    (table_lookup used key xs)(k \<mapsto> case table_lookup used key xs k of None \<Rightarrow> fresh k | Some x \<Rightarrow> x)"
proof (cases "table_find used key k xs")
  case (Some j)
  with assms(2) have "ys = xs" by (auto simp: table_put_def)
  with Some show ?thesis by (auto simp: table_lookup_def)
next
  case None
  then obtain j where j: "table_alloc used xs = Some j" and ij: "i = j" "ys = xs[j := fresh k]"
    using assms(2) by (auto simp: table_put_def split: option.splits)
  note jj = table_alloc_Some [OF j]
  have dist: "table_distinct used key ys" using put_props [OF assms] by simp
  have "table_lookup used key ys k' = Some x \<longleftrightarrow>
    ((table_lookup used key xs)(k \<mapsto> fresh k)) k' = Some x" for k' x
  proof -
    have "x \<in> set ys \<and> used x \<longleftrightarrow> x = fresh k \<or> x \<in> set xs \<and> used x"
      using jj unfolding ij
      by (auto simp: in_set_conv_nth nth_list_update fresh_used)
    moreover have "x \<in> set xs \<and> used x \<Longrightarrow> key x \<noteq> k" using None by (auto simp: table_find_None)
    ultimately show ?thesis
      using lookup_eq_Some [OF dist] lookup_eq_Some [OF assms(1)] fresh_key [of k] by auto
  qed
  then have "table_lookup used key ys = (table_lookup used key xs)(k \<mapsto> fresh k)"
    by (metis ext option.exhaust)
  moreover have "table_lookup used key xs k = None" using None by (simp add: table_lookup_def)
  ultimately show ?thesis by simp
qed

end

end
