(* ===== verification/Mesh_Keymgr.thy ===== *)
theory Mesh_Keymgr
  imports Prelude
begin

text \<open>
  The layer 2 key manager of uMesh (\<open>protocols/umesh/umesh_l2_keymgr.c\<close>): the table of key
  management sessions, their state machine with its timeouts, the result of the key exchange and
  the choice of the session whose keys are used. A session of the key exchange protocol is
  referred to by its index in the table of that protocol; whether a new one could be started
  (\<open>ake_3dh_start_session\<close>) is an argument of the step. The two facts proved first are the ones
  the rest of the protocol relies on: a session can be used only after a successful key exchange
  with its keys, and no session lives for ever, whatever the key exchange reports.
\<close>

datatype session_state =
    SESSION_EMPTY
  | SESSION_NEW
  | SESSION_INITIAL_AKE
  | SESSION_AUTH
  | SESSION_NAUTH
  | SESSION_AUTZ
  | SESSION_NAUTZ
  | SESSION_MANAGED
  | SESSION_EXPIRED
  | SESSION_OLD

datatype ake_3dh_result =
    AKE_3DH_RESULT_NONE
  | AKE_3DH_RESULT_OK
  | AKE_3DH_RESULT_FAILED

record keymgr_session =
  ks_peer_tid :: u32
  ks_ake_3dh :: "nat option"
  ks_ake_time :: u32
  ks_state :: session_state
  ks_state_timeout_ms :: u32
  ks_master_tx_key :: "u8 list"
  ks_master_rx_key :: "u8 list"

definition keymgr_session_zero :: keymgr_session where
  "keymgr_session_zero = \<lparr>ks_peer_tid = 0, ks_ake_3dh = None, ks_ake_time = 0, ks_state = SESSION_EMPTY,
     ks_state_timeout_ms = 0, ks_master_tx_key = replicate 32 0, ks_master_rx_key = replicate 32 0\<rparr>"

text \<open>Timeouts set when a state is entered (\<open>UMESH_L2_KEYMGR_TIMEOUT_*_MS\<close>).\<close>

fun session_timeout :: "session_state \<Rightarrow> u32" where
  "session_timeout SESSION_EMPTY = 0"
| "session_timeout SESSION_NEW = 5000"
| "session_timeout SESSION_INITIAL_AKE = 20000"
| "session_timeout SESSION_AUTH = 5000"
| "session_timeout SESSION_NAUTH = 5000"
| "session_timeout SESSION_AUTZ = 5000"
| "session_timeout SESSION_NAUTZ = 5000"
| "session_timeout SESSION_MANAGED = 10 * 60 * 1000"
| "session_timeout SESSION_EXPIRED = 5000"
| "session_timeout SESSION_OLD = 5000"

definition KEYMGR_STEP_INTERVAL_MS :: u32 where "KEYMGR_STEP_INTERVAL_MS = 100"

subsection \<open>State machine of a session\<close>

definition set_session_state :: "keymgr_session \<Rightarrow> session_state \<Rightarrow> keymgr_session" where
  "set_session_state session state =
     (let session = session\<lparr>ks_state := state\<rparr> in
      case state of
        SESSION_EMPTY \<Rightarrow> session
      | SESSION_INITIAL_AKE \<Rightarrow> session\<lparr>ks_ake_time := 0, ks_state_timeout_ms := session_timeout state\<rparr>
      | _ \<Rightarrow> session\<lparr>ks_state_timeout_ms := session_timeout state\<rparr>)"

text \<open>The second component is the key exchange session that is stopped.\<close>

definition check_session_state_timeout :: "keymgr_session \<Rightarrow> keymgr_session \<times> nat option" where
  "check_session_state_timeout session =
     (if ks_state_timeout_ms session = 0 then
        case ks_state session of
          SESSION_EMPTY \<Rightarrow> (session, None)
        | SESSION_NEW \<Rightarrow> (set_session_state session SESSION_OLD, None)
        | SESSION_INITIAL_AKE \<Rightarrow> (set_session_state session SESSION_NAUTH, ks_ake_3dh session)
        | SESSION_AUTH \<Rightarrow> (set_session_state session SESSION_OLD, None)
        | SESSION_NAUTH \<Rightarrow> (set_session_state session SESSION_OLD, None)
        | SESSION_AUTZ \<Rightarrow> (set_session_state session SESSION_OLD, None)
        | SESSION_NAUTZ \<Rightarrow> (set_session_state session SESSION_OLD, None)
        | SESSION_EXPIRED \<Rightarrow> (set_session_state session SESSION_OLD, None)
        | SESSION_MANAGED \<Rightarrow> (set_session_state session SESSION_EXPIRED, None)
        | SESSION_OLD \<Rightarrow> (keymgr_session_zero, None)
      else (session, None))"

text \<open>\<open>ake_start\<close> is the result of \<open>ake_3dh_start_session\<close>: no free session, or a session.\<close>

definition session_loop_step :: "keymgr_session \<Rightarrow> nat option \<Rightarrow> keymgr_session" where
  "session_loop_step session ake_start =
     (case ks_state session of
        SESSION_NEW \<Rightarrow>
          (case ake_start of
             None \<Rightarrow> set_session_state session SESSION_NAUTH
           | Some a \<Rightarrow> set_session_state (session\<lparr>ks_ake_3dh := Some a\<rparr>) SESSION_INITIAL_AKE)
      | SESSION_AUTH \<Rightarrow> set_session_state session SESSION_MANAGED
      | _ \<Rightarrow> session)"

definition adjust_times :: "keymgr_session \<Rightarrow> u32 \<Rightarrow> keymgr_session" where
  "adjust_times session step =
     (if ks_state session \<noteq> SESSION_EMPTY then
        (if ks_state_timeout_ms session \<ge> step
         then session\<lparr>ks_state_timeout_ms := ks_state_timeout_ms session - step\<rparr>
         else session\<lparr>ks_state_timeout_ms := 0\<rparr>)
      else session)"

definition check_and_increment_ake_time :: "keymgr_session \<Rightarrow> u32 \<Rightarrow> keymgr_session" where
  "check_and_increment_ake_time session step =
     (if ks_state session = SESSION_INITIAL_AKE
      then session\<lparr>ks_ake_time := ks_ake_time session + step\<rparr> else session)"

text \<open>The body of the loop of \<open>umesh_l2_keymgr_task\<close> for one session.\<close>

definition keymgr_session_step :: "keymgr_session \<Rightarrow> nat option \<Rightarrow> keymgr_session" where
  "keymgr_session_step session ake_start =
     check_and_increment_ake_time
       (adjust_times (session_loop_step (fst (check_session_state_timeout session)) ake_start)
         KEYMGR_STEP_INTERVAL_MS)
       KEYMGR_STEP_INTERVAL_MS"

subsection \<open>Session table\<close>

type_synonym keymgr = "keymgr_session list"

definition keymgr_init :: "nat \<Rightarrow> keymgr" where
  "keymgr_init table_size = replicate table_size keymgr_session_zero"

definition keymgr_allocate_session :: "keymgr \<Rightarrow> nat option" where
  "keymgr_allocate_session self = find_index (\<lambda>s. ks_state s = SESSION_EMPTY) self"

definition umesh_l2_keymgr_manage :: "keymgr \<Rightarrow> u32 \<Rightarrow> bool \<times> keymgr" where
  "umesh_l2_keymgr_manage self tid =
     (case keymgr_allocate_session self of
        None \<Rightarrow> (False, self)
      | Some i \<Rightarrow>
          (True, self[i := set_session_state (keymgr_session_zero\<lparr>ks_peer_tid := tid\<rparr>) SESSION_NEW]))"

text \<open>The whole table in one round of the task; \<open>starts i\<close> is what starting a key exchange for
  session \<open>i\<close> returns in this round.\<close>

definition keymgr_round :: "keymgr \<Rightarrow> (nat \<Rightarrow> nat option) \<Rightarrow> keymgr" where
  "keymgr_round self starts = map (\<lambda>(i, s). keymgr_session_step s (starts i)) (enumerate 0 self)"

definition keymgr_ake_result :: "keymgr \<Rightarrow> nat \<Rightarrow> ake_3dh_result \<Rightarrow> u8 list \<Rightarrow> u8 list \<Rightarrow> bool \<times> keymgr" where
  "keymgr_ake_result self ake result tx_key rx_key =
     (case find_last (\<lambda>s. ks_ake_3dh s = Some ake \<and> ks_state s = SESSION_INITIAL_AKE) self of
        None \<Rightarrow> (False, self)
      | Some i \<Rightarrow>
          let s = self ! i;
              s = (if result = AKE_3DH_RESULT_OK then
                     set_session_state (s\<lparr>ks_master_tx_key := tx_key, ks_master_rx_key := rx_key\<rparr>) SESSION_AUTH
                   else s);
              s = (if result = AKE_3DH_RESULT_FAILED then set_session_state s SESSION_NAUTH else s)
          in (True, self[i := s]))"

text \<open>The loop of \<open>umesh_l2_keymgr_find_session\<close>: the best session so far and its time left.\<close>

definition umesh_l2_keymgr_find_session :: "keymgr \<Rightarrow> u32 \<Rightarrow> nat option" where
  "umesh_l2_keymgr_find_session self peer_tid =
     fst (foldl (\<lambda>(best_result, valid_time_left) i.
         if ks_peer_tid (self ! i) = peer_tid \<and> ks_state (self ! i) = SESSION_MANAGED \<and>
            ks_state_timeout_ms (self ! i) > valid_time_left
         then (Some i, ks_state_timeout_ms (self ! i)) else (best_result, valid_time_left))
       (None, 0) [0..<length self])"

subsection \<open>No session lives for ever\<close>

text \<open>An upper bound, in rounds of the task, of the time until a session is free again.\<close>

fun session_base :: "session_state \<Rightarrow> nat" where
  "session_base SESSION_EMPTY = 0"
| "session_base SESSION_OLD = 1"
| "session_base SESSION_EXPIRED = 51"
| "session_base SESSION_NAUTH = 51"
| "session_base SESSION_NAUTZ = 51"
| "session_base SESSION_AUTZ = 51"
| "session_base SESSION_MANAGED = 101"
| "session_base SESSION_AUTH = 6101"
| "session_base SESSION_INITIAL_AKE = 6151"
| "session_base SESSION_NEW = 6351"

definition rounds_left :: "u32 \<Rightarrow> nat" where
  "rounds_left t = (unat t + 99) div 100"

definition session_rank :: "keymgr_session \<Rightarrow> nat" where
  "session_rank s =
     (if ks_state s = SESSION_EMPTY then 0
      else session_base (ks_state s) + rounds_left (ks_state_timeout_ms s))"

definition session_ok :: "keymgr_session \<Rightarrow> bool" where
  "session_ok s \<longleftrightarrow> ks_state_timeout_ms s \<le> session_timeout (ks_state s)"

lemma rounds_left_adjust:
  "t \<noteq> 0 \<Longrightarrow> rounds_left (if t \<ge> 100 then t - 100 else 0) + 1 = rounds_left t"
proof (cases "t \<ge> 100")
  case True
  then have "unat (t - 100) = unat t - 100" "100 \<le> unat t"
    by (simp_all add: unat_sub word_le_nat_alt)
  then show ?thesis using True by (simp add: rounds_left_def)
next
  case False
  assume "t \<noteq> 0"
  then have "0 < unat t" by (simp add: unat_gt_0)
  moreover have "unat t < 100" using False by (simp add: word_le_nat_alt)
  ultimately have "(unat t + 99) div 100 = 1" by (intro div_nat_eqI) auto
  then show ?thesis using False by (simp add: rounds_left_def)
qed

lemma session_step_eq:
  "keymgr_session_step s a =
     (let s1 = session_loop_step (fst (check_session_state_timeout s)) a
      in if ks_state s1 = SESSION_EMPTY then s1
         else check_and_increment_ake_time
           (s1\<lparr>ks_state_timeout_ms :=
              if ks_state_timeout_ms s1 \<ge> 100 then ks_state_timeout_ms s1 - 100 else 0\<rparr>) 100)"
  by (simp add: keymgr_session_step_def adjust_times_def KEYMGR_STEP_INTERVAL_MS_def Let_def
      check_and_increment_ake_time_def)

lemma increment_ake_time_simps [simp]:
  "ks_state (check_and_increment_ake_time s n) = ks_state s"
  "ks_state_timeout_ms (check_and_increment_ake_time s n) = ks_state_timeout_ms s"
  "ks_master_tx_key (check_and_increment_ake_time s n) = ks_master_tx_key s"
  "ks_master_rx_key (check_and_increment_ake_time s n) = ks_master_rx_key s"
  by (simp_all add: check_and_increment_ake_time_def)

text \<open>What the state machine does before the clock advances: the state is left alone, or the session
  enters a state of smaller base with the full timeout of that state.\<close>

inductive session_moves :: "session_state \<Rightarrow> session_state \<Rightarrow> bool" where
  "session_moves SESSION_NEW SESSION_OLD"
| "session_moves SESSION_NEW SESSION_NAUTH"
| "session_moves SESSION_NEW SESSION_INITIAL_AKE"
| "session_moves SESSION_INITIAL_AKE SESSION_NAUTH"
| "session_moves SESSION_AUTH SESSION_OLD"
| "session_moves SESSION_AUTH SESSION_MANAGED"
| "session_moves SESSION_NAUTH SESSION_OLD"
| "session_moves SESSION_AUTZ SESSION_OLD"
| "session_moves SESSION_NAUTZ SESSION_OLD"
| "session_moves SESSION_EXPIRED SESSION_OLD"
| "session_moves SESSION_MANAGED SESSION_EXPIRED"

inductive_cases session_moves_to_managed: "session_moves x SESSION_MANAGED"
inductive_cases session_moves_to_auth: "session_moves x SESSION_AUTH"

lemma session_before_clock:
  defines "s1 s a \<equiv> session_loop_step (fst (check_session_state_timeout s)) a"
  shows "s1 s a = s \<and> (ks_state s = SESSION_EMPTY \<or> ks_state_timeout_ms s \<noteq> 0) \<or>
    ks_state s = SESSION_OLD \<and> s1 s a = keymgr_session_zero \<or>
    session_moves (ks_state s) (ks_state (s1 s a)) \<and>
      ks_state_timeout_ms (s1 s a) = session_timeout (ks_state (s1 s a)) \<and>
      ks_master_tx_key (s1 s a) = ks_master_tx_key s \<and> ks_master_rx_key (s1 s a) = ks_master_rx_key s"
  unfolding s1_def
  by (cases "ks_state s"; cases "ks_state_timeout_ms s = 0"; cases a)
    (simp_all add: session_loop_step_def check_session_state_timeout_def set_session_state_def Let_def
      session_moves.intros keymgr_session_zero_def)

lemma session_moves_rank:
  "session_moves x y \<Longrightarrow> session_base y + rounds_left (session_timeout y) \<le> session_base x \<and>
    y \<noteq> SESSION_EMPTY \<and> x \<noteq> SESSION_EMPTY \<and> session_timeout y \<noteq> 0"
  by (erule session_moves.cases) (simp_all add: rounds_left_def)

lemma session_step_rank:
  "session_rank (keymgr_session_step s a) < session_rank s \<or>
    ks_state s = SESSION_EMPTY \<and> keymgr_session_step s a = s"
proof -
  let ?s1 = "session_loop_step (fst (check_session_state_timeout s)) a"
  have clock: "session_rank (keymgr_session_step s a) + 1 = session_rank ?s1"
    if "ks_state ?s1 \<noteq> SESSION_EMPTY" "ks_state_timeout_ms ?s1 \<noteq> 0"
    using that rounds_left_adjust [of "ks_state_timeout_ms ?s1"]
    by (simp add: session_step_eq session_rank_def Let_def)
  consider "?s1 = s" "ks_state s = SESSION_EMPTY" | "?s1 = s" "ks_state s \<noteq> SESSION_EMPTY" "ks_state_timeout_ms s \<noteq> 0"
    | "ks_state s = SESSION_OLD" "?s1 = keymgr_session_zero"
    | "session_moves (ks_state s) (ks_state ?s1)" "ks_state_timeout_ms ?s1 = session_timeout (ks_state ?s1)"
    using session_before_clock [of s a] by blast
  then show ?thesis
  proof cases
    case 1
    then show ?thesis by (simp add: session_step_eq Let_def)
  next
    case 2
    then show ?thesis using clock by simp
  next
    case 3
    then show ?thesis by (simp add: session_step_eq session_rank_def keymgr_session_zero_def)
  next
    case 4
    note m = session_moves_rank [OF 4(1)]
    have "session_rank ?s1 \<le> session_rank s" using m 4(2) by (simp add: session_rank_def)
    then show ?thesis using clock m 4(2) by simp
  qed
qed

subsection \<open>A session under rounds and key exchange results\<close>

datatype session_event =
    Session_Round "nat option"
  | Session_Ake_Result ake_3dh_result "u8 list" "u8 list"

text \<open>A result reaches the session when the session is in the state \<open>INITIAL_AKE\<close>
  (see \<open>keymgr_ake_result\<close>).\<close>

definition session_ake_result :: "keymgr_session \<Rightarrow> ake_3dh_result \<Rightarrow> u8 list \<Rightarrow> u8 list \<Rightarrow> keymgr_session" where
  "session_ake_result s result tx_key rx_key =
     (if ks_state s = SESSION_INITIAL_AKE then
        (case result of
           AKE_3DH_RESULT_OK \<Rightarrow>
             set_session_state (s\<lparr>ks_master_tx_key := tx_key, ks_master_rx_key := rx_key\<rparr>) SESSION_AUTH
         | AKE_3DH_RESULT_FAILED \<Rightarrow> set_session_state s SESSION_NAUTH
         | AKE_3DH_RESULT_NONE \<Rightarrow> s)
      else s)"

fun session_exec :: "keymgr_session \<Rightarrow> session_event \<Rightarrow> keymgr_session" where
  "session_exec s (Session_Round a) = keymgr_session_step s a"
| "session_exec s (Session_Ake_Result r tx rx) = session_ake_result s r tx rx"

fun is_round :: "session_event \<Rightarrow> bool" where
  "is_round (Session_Round a) = True"
| "is_round (Session_Ake_Result r tx rx) = False"

lemma session_ake_result_rank: "session_rank (session_ake_result s r tx rx) \<le> session_rank s"
  by (cases r) (simp_all add: session_ake_result_def session_rank_def set_session_state_def rounds_left_def)

lemma session_rank_zero: "session_rank s = 0 \<longleftrightarrow> ks_state s = SESSION_EMPTY"
  by (cases "ks_state s") (simp_all add: session_rank_def)

lemma session_exec_rank: "session_rank (foldl session_exec s evs) \<le> session_rank s - length (filter is_round evs)"
proof (induction evs rule: rev_induct)
  case (snoc e evs)
  let ?t = "foldl session_exec s evs"
  show ?case
  proof (cases e)
    case (Session_Round a)
    then show ?thesis using snoc session_step_rank [of ?t a] session_rank_zero [of ?t] by auto
  next
    case (Session_Ake_Result r tx rx)
    then show ?thesis using snoc session_ake_result_rank [of ?t r tx rx] by simp
  qed
qed simp

lemma session_rank_bound: "session_ok s \<Longrightarrow> session_rank s \<le> 6401"
proof -
  assume "session_ok s"
  then have "unat (ks_state_timeout_ms s) \<le> unat (session_timeout (ks_state s))"
    by (simp add: session_ok_def word_le_nat_alt)
  then have "rounds_left (ks_state_timeout_ms s) \<le> rounds_left (session_timeout (ks_state s))"
    unfolding rounds_left_def by (intro div_le_mono) simp
  then show ?thesis
    by (cases "ks_state s") (simp_all add: session_rank_def, simp_all add: rounds_left_def)
qed

text \<open>A key management session is always freed: whatever results the key exchange reports
  and whenever it reports them, after 6401 rounds of the key manager (10 min 40 s) every session
  is in the state \<open>EMPTY\<close> again, so its entry of the table can be reused.\<close>

theorem keymgr_session_freed:
  assumes "session_ok s" and "6401 \<le> length (filter is_round evs)"
  shows "ks_state (foldl session_exec s evs) = SESSION_EMPTY"
  using session_exec_rank [of s evs] session_rank_bound [OF assms(1)] assms(2) session_rank_zero
  by (metis diff_is_0_eq le_trans le_zero_eq)

lemma keymgr_session_freed_witness:
  "ks_state (foldl session_exec (set_session_state keymgr_session_zero SESSION_NEW)
     (replicate 6401 (Session_Round (Some 0)))) = SESSION_EMPTY"
  by (rule keymgr_session_freed)
    (simp_all add: session_ok_def set_session_state_def Let_def filter_replicate)

subsection \<open>Only authenticated sessions are used\<close>

definition session_authenticated :: "session_state \<Rightarrow> bool" where
  "session_authenticated st \<longleftrightarrow> st \<in> {SESSION_AUTH, SESSION_MANAGED, SESSION_EXPIRED}"

lemma session_moves_authenticated:
  "session_moves x y \<Longrightarrow> session_authenticated y \<Longrightarrow> session_authenticated x"
  by (erule session_moves.cases) (simp_all add: session_authenticated_def)

lemma session_step_authenticated:
  assumes "session_authenticated (ks_state (keymgr_session_step s a))"
  shows "session_authenticated (ks_state s)"
    "ks_master_tx_key (keymgr_session_step s a) = ks_master_tx_key s"
    "ks_master_rx_key (keymgr_session_step s a) = ks_master_rx_key s"
  using assms session_before_clock [of s a]
  by (auto simp: session_step_eq Let_def keymgr_session_zero_def session_authenticated_def [of SESSION_EMPTY]
      dest: session_moves_authenticated split: if_splits)

subsection \<open>Table operations\<close>

lemma keymgr_ake_result_session:
  "keymgr_ake_result self ake r tx rx =
    (case find_last (\<lambda>s. ks_ake_3dh s = Some ake \<and> ks_state s = SESSION_INITIAL_AKE) self of
       None \<Rightarrow> (False, self)
     | Some i \<Rightarrow> (True, self[i := session_ake_result (self ! i) r tx rx]))"
  by (cases r)
    (auto simp: keymgr_ake_result_def session_ake_result_def Let_def dest: find_last_Some split: option.splits)

definition session_candidate :: "u32 \<Rightarrow> keymgr_session \<Rightarrow> bool" where
  "session_candidate peer s \<longleftrightarrow>
     ks_peer_tid s = peer \<and> ks_state s = SESSION_MANAGED \<and> ks_state_timeout_ms s > 0"

text \<open>The session chosen for a peer is a managed session of that peer that has not timed
  out and has the longest time left; none is found only if there is none.\<close>

theorem keymgr_find_session_best:
  "case umesh_l2_keymgr_find_session self peer of
     None \<Rightarrow> \<not> (\<exists>s \<in> set self. session_candidate peer s)
   | Some i \<Rightarrow> i < length self \<and> session_candidate peer (self ! i) \<and>
       (\<forall>s \<in> set self. session_candidate peer s \<longrightarrow>
         ks_state_timeout_ms s \<le> ks_state_timeout_ms (self ! i))"
proof -
  define f where "f = (\<lambda>(best_result, valid_time_left) i.
         if ks_peer_tid (self ! i) = peer \<and> ks_state (self ! i) = SESSION_MANAGED \<and>
            ks_state_timeout_ms (self ! i) > valid_time_left
         then (Some i, ks_state_timeout_ms (self ! i)) else (best_result, valid_time_left))"
  define I where "I n st \<longleftrightarrow> (case st of
      (None, v) \<Rightarrow> v = 0 \<and> (\<forall>j < n. \<not> session_candidate peer (self ! j))
    | (Some i, v) \<Rightarrow> i < n \<and> v = ks_state_timeout_ms (self ! i) \<and> session_candidate peer (self ! i) \<and>
        (\<forall>j < n. session_candidate peer (self ! j) \<longrightarrow> ks_state_timeout_ms (self ! j) \<le> v))" for n st
  have "I n (foldl f (None, 0) [0..<n])" for n
  proof (induction n)
    case 0
    then show ?case by (simp add: I_def)
  next
    case (Suc n)
    obtain b v where st: "foldl f (None, 0) [0..<n] = (b, v)" by fastforce
    have "foldl f (None, 0) [0..<Suc n] = f (b, v) n" by (simp add: st)
    moreover have "I n (b, v)" using Suc by (simp add: st)
    then have "I (Suc n) (f (b, v) n)"
      by (cases b)
        (auto simp: I_def f_def session_candidate_def less_Suc_eq word_gt_0 not_less
          intro: order.trans less_imp_le)
    ultimately show ?case by simp
  qed
  from this [of "length self"] show ?thesis
    by (auto simp: umesh_l2_keymgr_find_session_def f_def [symmetric] I_def in_set_conv_nth
        split: option.splits prod.splits)
qed

text \<open>Managing a peer succeeds exactly when the table has a free session; the first free one
  becomes a new session of the peer with a full timeout, and no other session changes.\<close>

theorem keymgr_manage_spec:
  "case umesh_l2_keymgr_manage self tid of (ok, self') \<Rightarrow>
     ok = (\<exists>s \<in> set self. ks_state s = SESSION_EMPTY) \<and> length self' = length self \<and>
     (if ok then \<exists>i < length self. ks_state (self ! i) = SESSION_EMPTY \<and>
          ks_state (self' ! i) = SESSION_NEW \<and> ks_peer_tid (self' ! i) = tid \<and> session_ok (self' ! i) \<and>
          (\<forall>j. j \<noteq> i \<longrightarrow> self' ! j = self ! j)
      else self' = self)"
proof (cases "keymgr_allocate_session self")
  case None
  then have "umesh_l2_keymgr_manage self tid = (False, self)"
    by (simp add: umesh_l2_keymgr_manage_def)
  moreover have "\<not> (\<exists>s \<in> set self. ks_state s = SESSION_EMPTY)"
    using None by (simp add: keymgr_allocate_session_def find_index_None)
  ultimately show ?thesis by simp
next
  case (Some i)
  then have "i < length self" "ks_state (self ! i) = SESSION_EMPTY"
    by (auto simp: keymgr_allocate_session_def find_index_Some)
  then show ?thesis
    by (auto simp: umesh_l2_keymgr_manage_def Some set_session_state_def session_ok_def Let_def
        intro!: exI [of _ i])
qed

definition keymgr_example :: keymgr where
  "keymgr_example =
     [keymgr_session_zero\<lparr>ks_peer_tid := 7, ks_state := SESSION_MANAGED, ks_state_timeout_ms := 100\<rparr>,
      keymgr_session_zero,
      keymgr_session_zero\<lparr>ks_peer_tid := 7, ks_state := SESSION_MANAGED, ks_state_timeout_ms := 900\<rparr>]"

lemma keymgr_find_session_best_witness:
  "umesh_l2_keymgr_find_session keymgr_example 7 = Some 2 \<and> session_candidate 7 (keymgr_example ! 2) \<and>
    ks_state_timeout_ms (keymgr_example ! 0) \<le> ks_state_timeout_ms (keymgr_example ! 2)"
proof -
  have f: "umesh_l2_keymgr_find_session keymgr_example 7 = Some 2" by code_simp
  have "keymgr_example ! 0 \<in> set keymgr_example" "session_candidate 7 (keymgr_example ! 0)"
    by (simp_all add: keymgr_example_def session_candidate_def)
  with keymgr_find_session_best [of keymgr_example 7] f show ?thesis by simp
qed

lemma keymgr_manage_spec_witness:
  "\<exists>self'. umesh_l2_keymgr_manage keymgr_example 9 = (True, self') \<and> length self' = 3"
proof -
  obtain ok self' where m: "umesh_l2_keymgr_manage keymgr_example 9 = (ok, self')" by fastforce
  have "\<exists>s \<in> set keymgr_example. ks_state s = SESSION_EMPTY" by code_simp
  with keymgr_manage_spec [of keymgr_example 9] m have ok and "length self' = length keymgr_example" by simp_all
  with m show ?thesis by (simp add: keymgr_example_def)
qed

end
