(* ===== verification/Keystream.thy ===== *)
theory Keystream
  imports Prelude
begin

text \<open>
  The counter-mode loop of the firmware: a block counter selects a block of keystream, the
  buffer is combined with it byte by byte, at most a block at a time, and the counter is
  incremented (and wraps at its width). \<open>rmac_pbuf\<close>, \<open>worn_log_block\<close>, \<open>b2s_crypt\<close> and
  \<open>umesh_l2_decrypt\<close> all contain this loop and differ only in the generator and in the width
  and the first value of the counter. The locale \<open>keystream\<close> is their common interface: what
  a generator promises is the length of its blocks, what the packet code gets is that the
  operation keeps the length and undoes itself, and which keystream byte meets which data byte.
\<close>

definition xor_bytes :: "u8 list \<Rightarrow> u8 list \<Rightarrow> u8 list" where
  "xor_bytes as bs = map2 (XOR) as bs"

function ctr_xor :: "('c::len word \<Rightarrow> u8 list) \<Rightarrow> nat \<Rightarrow> 'c word \<Rightarrow> u8 list \<Rightarrow> u8 list" where
  "ctr_xor ks blk i buf =
     (if buf = [] \<or> blk = 0 then []
      else xor_bytes (take blk buf) (ks i) @ ctr_xor ks blk (i + 1) (drop blk buf))"
  by pat_completeness auto
termination
  by (relation "measure (\<lambda>(ks, blk, i, buf). length buf)") auto

declare ctr_xor.simps [simp del]

lemma length_xor_bytes [simp]: "length (xor_bytes as bs) = min (length as) (length bs)"
  by (simp add: xor_bytes_def)

lemma xor_bytes_involution: "length as \<le> length bs \<Longrightarrow> xor_bytes (xor_bytes as bs) bs = as"
  by (rule nth_equalityI) (auto simp: xor_bytes_def xor.assoc)

lemma ctr_xor_Nil [simp]: "ctr_xor ks blk i [] = []"
  by (simp add: ctr_xor.simps)

locale keystream =
  fixes ks :: "'c::len word \<Rightarrow> u8 list" and blk :: nat
  assumes blk_pos: "0 < blk"
    and length_ks: "length (ks i) = blk"
begin

lemma ctr_xor_step:
  "buf \<noteq> [] \<Longrightarrow>
    ctr_xor ks blk i buf = xor_bytes (take blk buf) (ks i) @ ctr_xor ks blk (i + 1) (drop blk buf)"
  using blk_pos by (simp add: ctr_xor.simps [of ks blk i buf])

lemma ctr_xor_induct [case_names Nil Block]:
  assumes "\<And>i. P i []"
    and "\<And>i buf. buf \<noteq> [] \<Longrightarrow> P (i + 1) (drop blk buf) \<Longrightarrow> P i buf"
  shows "P i buf"
proof (induction buf arbitrary: i rule: length_induct)
  case (1 buf)
  then show ?case
    using assms blk_pos by (cases "buf = []") auto
qed

lemma length_ctr_xor [simp]: "length (ctr_xor ks blk i buf) = length buf"
  by (induction i buf rule: ctr_xor_induct) (auto simp: ctr_xor_step length_ks)

lemma ctr_xor_involution: "ctr_xor ks blk i (ctr_xor ks blk i buf) = buf"
proof (induction i buf rule: ctr_xor_induct)
  case (Nil i)
  then show ?case by simp
next
  case (Block i buf)
  let ?head = "xor_bytes (take blk buf) (ks i)"
  let ?out = "ctr_xor ks blk i buf"
  have ne: "?out \<noteq> []" using Block(1) by (metis length_ctr_xor length_0_conv)
  have parts: "take blk ?out = ?head" "drop blk ?out = ctr_xor ks blk (i + 1) (drop blk buf)"
    using Block(1) by (cases "blk \<le> length buf"; simp add: ctr_xor_step length_ks)+
  then have "ctr_xor ks blk i ?out = xor_bytes ?head (ks i) @ drop blk buf"
    using ne Block(2) by (simp add: ctr_xor_step [of ?out])
  then show ?case by (simp add: xor_bytes_involution length_ks)
qed

text \<open>Which keystream byte meets which data byte: byte \<open>n\<close> of the buffer is combined with byte
  \<open>n mod blk\<close> of the block number \<open>n div blk\<close> after the first.\<close>

lemma ctr_xor_nth:
  "n < length buf \<Longrightarrow>
    ctr_xor ks blk i buf ! n = buf ! n XOR ks (i + of_nat (n div blk)) ! (n mod blk)"
proof (induction i buf arbitrary: n rule: ctr_xor_induct)
  case (Nil i)
  then show ?case by simp
next
  case (Block i buf)
  show ?case
  proof (cases "n < blk")
    case True
    with Block show ?thesis
      by (simp add: ctr_xor_step length_ks nth_append xor_bytes_def)
  next
    case False
    then have "n div blk = Suc ((n - blk) div blk)" and "n mod blk = (n - blk) mod blk"
      using blk_pos by (simp_all add: div_if mod_if [of n])
    moreover have "ctr_xor ks blk (i + 1) (drop blk buf) ! (n - blk) =
      buf ! n XOR ks (i + 1 + of_nat ((n - blk) div blk)) ! ((n - blk) mod blk)"
      using False Block.prems Block.IH [of "n - blk"] by simp
    moreover have "ctr_xor ks blk i buf ! n = ctr_xor ks blk (i + 1) (drop blk buf) ! (n - blk)"
      using False Block.prems Block(1)
      by (subst ctr_xor_step) (auto simp: length_ks nth_append)
    ultimately show ?thesis
      by (simp add: ac_simps)
  qed
qed

lemma ctr_xor_append:
  assumes "blk dvd length as"
  shows "ctr_xor ks blk i (as @ bs) =
    ctr_xor ks blk i as @ ctr_xor ks blk (i + of_nat (length as div blk)) bs"
proof (rule nth_equalityI)
  fix n assume n: "n < length (ctr_xor ks blk i (as @ bs))"
  show "ctr_xor ks blk i (as @ bs) ! n =
    (ctr_xor ks blk i as @ ctr_xor ks blk (i + of_nat (length as div blk)) bs) ! n"
  proof (cases "n < length as")
    case True
    then show ?thesis by (simp add: ctr_xor_nth nth_append)
  next
    case False
    obtain k where k: "length as = blk * k" using assms by blast
    then have "n = blk * k + (n - length as)" using False by simp
    then have "n div blk = k + (n - length as) div blk" and "n mod blk = (n - length as) mod blk"
      using blk_pos by (metis div_mult_self4 neq0_conv add.commute, metis mod_mult_self4)
    then show ?thesis
      using False n k blk_pos by (simp add: ctr_xor_nth nth_append add.assoc)
  qed
qed simp

end

end
