(* ===== verification/Chacha20.thy ===== *)
theory Chacha20
  imports Keystream
begin

text \<open>
  The ChaCha20 block function of \<open>lib/plumcore-cryptolib/src/chacha20.c\<close>, with which uMesh
  packets are encrypted. The context is the array of sixteen 32-bit words
  \<open>chacha20_context.input\<close>. The block function gives blocks of 64 bytes, which makes it an
  instance of the interface \<open>keystream\<close>.
\<close>

type_synonym chacha20_context = "u32 list"

definition chacha20_quarterround :: "nat \<Rightarrow> nat \<Rightarrow> nat \<Rightarrow> nat \<Rightarrow> u32 list \<Rightarrow> u32 list" where
  "chacha20_quarterround a b c d x =
     (let x = x[a := x ! a + x ! b]; x = x[d := rotl32 (x ! d XOR x ! a) 16];
          x = x[c := x ! c + x ! d]; x = x[b := rotl32 (x ! b XOR x ! c) 12];
          x = x[a := x ! a + x ! b]; x = x[d := rotl32 (x ! d XOR x ! a) 8];
          x = x[c := x ! c + x ! d]; x = x[b := rotl32 (x ! b XOR x ! c) 7]
      in x)"

definition chacha20_doubleround :: "u32 list \<Rightarrow> u32 list" where
  "chacha20_doubleround x =
     (let x = chacha20_quarterround 0 4 8 12 x;
          x = chacha20_quarterround 1 5 9 13 x;
          x = chacha20_quarterround 2 6 10 14 x;
          x = chacha20_quarterround 3 7 11 15 x;
          x = chacha20_quarterround 0 5 10 15 x;
          x = chacha20_quarterround 1 6 11 12 x;
          x = chacha20_quarterround 2 7 8 13 x;
          x = chacha20_quarterround 3 4 9 14 x
      in x)"

text \<open>The loop over \<open>i = 20, 18, \<dots>, 2\<close> runs ten times.\<close>

definition chacha20_keystream :: "chacha20_context \<Rightarrow> u8 list" where
  "chacha20_keystream ctx =
     (let x = (chacha20_doubleround ^^ 10) ctx;
          x = map2 (+) x ctx
      in concat (map store32_le x))"

text \<open>The constants ''expand 32-byte k'' and ''expand 16-byte k'' as character codes.\<close>

definition chacha20_sigma :: "u8 list" where
  "chacha20_sigma = map (\<lambda>c. of_char c) ''expand 32-byte k''"

definition chacha20_tau :: "u8 list" where
  "chacha20_tau = map (\<lambda>c. of_char c) ''expand 16-byte k''"

definition chacha20_keysetup :: "chacha20_context \<Rightarrow> u8 list \<Rightarrow> u32 \<Rightarrow> chacha20_context" where
  "chacha20_keysetup ctx k kbits =
     (let ctx = ctx[4 := load32_le (drop 0 k), 5 := load32_le (drop 4 k),
                    6 := load32_le (drop 8 k), 7 := load32_le (drop 12 k)];
          (k, constants) = (if kbits = 256 then (drop 16 k, chacha20_sigma) else (k, chacha20_tau))
      in ctx[8 := load32_le (drop 0 k), 9 := load32_le (drop 4 k),
             10 := load32_le (drop 8 k), 11 := load32_le (drop 12 k),
             0 := load32_le (drop 0 constants), 1 := load32_le (drop 4 constants),
             2 := load32_le (drop 8 constants), 3 := load32_le (drop 12 constants)])"

definition chacha20_nonce :: "chacha20_context \<Rightarrow> u8 list \<Rightarrow> chacha20_context" where
  "chacha20_nonce ctx nonce =
     ctx[12 := 0, 13 := 0, 14 := load32_le (drop 0 nonce), 15 := load32_le (drop 4 nonce)]"

definition chacha20_counter :: "chacha20_context \<Rightarrow> u32 \<Rightarrow> chacha20_context" where
  "chacha20_counter ctx counter = ctx[12 := counter, 13 := 0]"

text \<open>Selecting a block and generating it, the two calls that the packet code always makes
  together.\<close>

definition chacha20_block :: "chacha20_context \<Rightarrow> u32 \<Rightarrow> u8 list" where
  "chacha20_block ctx i = chacha20_keystream (chacha20_counter ctx i)"

subsection \<open>Sizes\<close>

lemma length_quarterround [simp]: "length (chacha20_quarterround a b c d x) = length x"
  by (simp add: chacha20_quarterround_def Let_def)

lemma length_doubleround [simp]: "length (chacha20_doubleround x) = length x"
  by (simp add: chacha20_doubleround_def Let_def)

lemma length_doublerounds [simp]: "length ((chacha20_doubleround ^^ n) x) = length x"
  by (induction n) simp_all

lemma length_chacha20_keystream [simp]: "length (chacha20_keystream ctx) = 4 * length ctx"
  by (simp add: chacha20_keystream_def Let_def del: map_map)

lemma length_chacha20_context [simp]:
  "length (chacha20_keysetup ctx k kbits) = length ctx"
  "length (chacha20_nonce ctx nonce) = length ctx"
  "length (chacha20_counter ctx i) = length ctx"
  by (simp_all add: chacha20_keysetup_def chacha20_nonce_def chacha20_counter_def Let_def)

lemma length_chacha20_block [simp]: "length (chacha20_block ctx i) = 4 * length ctx"
  by (simp add: chacha20_block_def)

text \<open>The order of \<open>chacha20_nonce\<close> and \<open>chacha20_counter\<close> calls does not matter, and the
  counter alone selects the block.\<close>

lemma chacha20_counter_counter: "chacha20_counter (chacha20_counter ctx i) j = chacha20_counter ctx j"
  by (simp add: chacha20_counter_def list_update_swap)

lemma chacha20_block_after_counter: "chacha20_block (chacha20_counter ctx i) j = chacha20_block ctx j"
  by (simp add: chacha20_block_def chacha20_counter_counter)

subsection \<open>The context of a 16-word array as a keystream generator\<close>

interpretation chacha: keystream "chacha20_block (take 16 (ctx @ replicate 16 0))" 64 for ctx
  by unfold_locales simp_all

end
