(* ===== verification/Poly1305.thy ===== *)
theory Poly1305
  imports Prelude
begin

text \<open>
  The Poly1305 one-time authenticator of \<open>lib/plumcore-cryptolib/src/poly1305.c\<close>: numbers modulo
  \<open>2 ^ 130 - 5\<close> as seventeen limbs of eight bits kept in 32-bit words.
\<close>

text \<open>The carry loops: \<open>u\<close> is the carry, the limb is what the word keeps after the carry.\<close>

definition poly_add :: "u32 list \<Rightarrow> u32 list \<Rightarrow> u32 list" where
  "poly_add h c =
     snd (foldl (\<lambda>(u, h) j. let u = u + (h ! j + c ! j) in (drop_bit 8 u, h[j := u AND 255]))
       (0, h) [0..<17])"

definition poly_carry16 :: "u32 \<Rightarrow> u32 list \<Rightarrow> u32 \<times> u32 list" where
  "poly_carry16 u h =
     foldl (\<lambda>(u, h) j. let u = u + h ! j in (drop_bit 8 u, h[j := u AND 255])) (u, h) [0..<16]"

definition poly_squeeze :: "u32 list \<Rightarrow> u32 list" where
  "poly_squeeze h =
     (let (u, h) = poly_carry16 0 h;
          u = u + h ! 16;
          h = h[16 := u AND 3];
          u = 5 * drop_bit 2 u;
          (u, h) = poly_carry16 u h;
          u = u + h ! 16
      in h[16 := u])"

definition poly_minusp :: "u32 list" where
  "poly_minusp = [5, 0, 0, 0, 0, 0, 0, 0, 0, 0, 0, 0, 0, 0, 0, 0, 252]"

definition poly_freeze :: "u32 list \<Rightarrow> u32 list" where
  "poly_freeze h =
     (let horig = h;
          h = poly_add h poly_minusp;
          negative = - drop_bit 7 (h ! 16)
      in map (\<lambda>j. h ! j XOR (negative AND (horig ! j XOR h ! j))) [0..<17])"

definition poly_mulmod :: "u32 list \<Rightarrow> u32 list \<Rightarrow> u32 list" where
  "poly_mulmod h r =
     (let hr = map (\<lambda>i.
            let u = foldl (\<lambda>u j. u + h ! j * r ! (i - j)) 0 [0..<i + 1]
            in foldl (\<lambda>u j. u + 320 * h ! j * r ! (i + 17 - j)) u [i + 1..<17]) [0..<17]
      in poly_squeeze hr)"

definition poly_clamp :: "u8 list \<Rightarrow> u32 list" where
  "poly_clamp k =
     [ucast (k ! 0), ucast (k ! 1), ucast (k ! 2), ucast (k ! 3) AND 15,
      ucast (k ! 4) AND 252, ucast (k ! 5), ucast (k ! 6), ucast (k ! 7) AND 15,
      ucast (k ! 8) AND 252, ucast (k ! 9), ucast (k ! 10), ucast (k ! 11) AND 15,
      ucast (k ! 12) AND 252, ucast (k ! 13), ucast (k ! 14), ucast (k ! 15) AND 15, 0]"

text \<open>A block of at most sixteen bytes, a one, and zeros up to seventeen limbs.\<close>

definition poly_block :: "u8 list \<Rightarrow> u32 list" where
  "poly_block inp = map ucast (take 16 inp) @ [1] @ replicate (16 - length (take 16 inp)) 0"

function poly_blocks :: "u32 list \<Rightarrow> u32 list \<Rightarrow> u8 list \<Rightarrow> u32 list" where
  "poly_blocks r h inp =
     (if inp = [] then h else poly_blocks r (poly_mulmod (poly_add h (poly_block inp)) r) (drop 16 inp))"
  by pat_completeness auto
termination
  by (relation "measure (\<lambda>(r, h, inp). length inp)") auto

declare poly_blocks.simps [simp del]

definition poly1305 :: "u8 list \<Rightarrow> u8 list \<Rightarrow> u8 list" where
  "poly1305 inp k =
     (let r = poly_clamp k;
          h = poly_blocks r (replicate 17 0) inp;
          h = poly_freeze h;
          c = map (\<lambda>j. ucast (k ! (j + 16))) [0..<16] @ [0];
          h = poly_add h c
      in map (\<lambda>j. ucast (h ! j)) [0..<16])"

lemma length_poly1305 [simp]: "length (poly1305 inp k) = 16"
  by (simp add: poly1305_def Let_def)

end
