(* ===== verification/Crc16.thy ===== *)
theory Crc16
  imports Keystream
begin

text \<open>
  The CRC-16 of \<open>lib/plumcore-cryptolib/src/crc.c\<close> (polynomial 0x1021, initial value 0), the
  integrity check of uMesh packets sent with the CRC algorithm. The division is linear over
  exclusive or and each of its steps is injective, from which two facts about the code follow:
  appending the checksum to the data gives residue zero, and an error confined to sixteen adjacent bits
  is always detected.
\<close>

definition CRC16_POLY :: u16 where "CRC16_POLY = 0x1021"
definition CRC16_INIT :: u16 where "CRC16_INIT = 0x0000"

text \<open>One turn of the bit loop of \<open>crc16_byte\<close>: the pair of the register and the byte being
  shifted out. The condition compares \<open>int\<close> values: both sides are 0x80 or 0.\<close>

fun crc16_bit :: "u16 \<times> u8 \<Rightarrow> u16 \<times> u8" where
  "crc16_bit (crc, b) =
     (if drop_bit 8 (crc AND 0x8000) XOR ucast (b AND 0x80) \<noteq> 0
      then push_bit 1 crc XOR CRC16_POLY else push_bit 1 crc,
      push_bit 1 b)"

definition crc16_byte :: "u16 \<Rightarrow> u8 \<Rightarrow> u16" where
  "crc16_byte crc b = fst ((crc16_bit ^^ 8) (crc, b))"

text \<open>The loop of \<open>crc16\<close> from a given register value, and \<open>crc16\<close> itself.\<close>

definition crc16_from :: "u16 \<Rightarrow> u8 list \<Rightarrow> u16" where
  "crc16_from crc data = foldl crc16_byte crc data"

definition crc16 :: "u8 list \<Rightarrow> u16" where
  "crc16 data = crc16_from CRC16_INIT data"

subsection \<open>The condition as a parity of two bits\<close>

lemma and_8000: "(crc :: u16) AND 0x8000 = (if bit crc 15 then 0x8000 else 0)"
  using and_single [of crc 15] by simp

lemma and_80: "(b :: u8) AND 0x80 = (if bit b 7 then 0x80 else 0)"
  using and_single [of b 7] by simp

lemma crc16_bit_eq:
  "crc16_bit (crc, b) =
     (if bit crc 15 \<noteq> bit b 7 then push_bit 1 crc XOR CRC16_POLY else push_bit 1 crc, push_bit 1 b)"
  by (simp add: and_8000 and_80)

subsection \<open>Linearity\<close>

lemma crc16_bit_xor [linear_simps]:
  "crc16_bit (a XOR c, b XOR d) =
     (fst (crc16_bit (a, b)) XOR fst (crc16_bit (c, d)), snd (crc16_bit (a, b)) XOR snd (crc16_bit (c, d)))"
  by (cases "bit a 15"; cases "bit b 7"; cases "bit c 15"; cases "bit d 7")
    (simp_all add: crc16_bit_eq bit_xor_iff push_bit_xor ac_simps
      del: crc16_bit.simps push_bit_of_Suc_0 push_bit_Suc One_nat_def)

lemma crc16_bits_xor:
  "(crc16_bit ^^ n) (a XOR c, b XOR d) =
     (fst ((crc16_bit ^^ n) (a, b)) XOR fst ((crc16_bit ^^ n) (c, d)),
      snd ((crc16_bit ^^ n) (a, b)) XOR snd ((crc16_bit ^^ n) (c, d)))"
proof (induction n)
  case 0
  then show ?case by simp
next
  case (Suc n)
  show ?case
    by (simp only: funpow.simps comp_apply Suc crc16_bit_xor prod.collapse)
qed

lemma crc16_byte_xor [linear_simps]:
  "crc16_byte (a XOR c) (b XOR d) = crc16_byte a b XOR crc16_byte c d"
  by (simp only: crc16_byte_def crc16_bits_xor fst_conv)

lemma crc16_from_xor:
  "length as = length bs \<Longrightarrow>
    crc16_from (a XOR b) (xor_bytes as bs) = crc16_from a as XOR crc16_from b bs"
proof (induction as bs arbitrary: a b rule: list_induct2)
  case Nil
  then show ?case by (simp add: crc16_from_def xor_bytes_def)
next
  case (Cons x xs y ys)
  from Cons.IH [of "crc16_byte a x" "crc16_byte b y"] show ?case
    by (simp add: crc16_from_def xor_bytes_def crc16_byte_xor)
qed

subsection \<open>A byte of input is a byte added to the top of the register\<close>

definition crc16_shift :: "u16 \<Rightarrow> u16" where
  "crc16_shift c = (if bit c 15 then push_bit 1 c XOR CRC16_POLY else push_bit 1 c)"

lemma crc16_bit_load: "crc16_bit (crc XOR push_bit 8 (ucast b), 0) =
  (fst (crc16_bit (crc, b)) XOR push_bit 8 (ucast (push_bit 1 b)), 0)"
proof -
  have shift: "push_bit 1 (push_bit 8 (ucast b)) = (push_bit 8 (ucast (push_bit 1 b)) :: u16)"
    by (rule bit_eqI) (auto simp: bit_simps simp del: push_bit_Suc One_nat_def)
  show ?thesis
    by (cases "bit crc 15"; cases "bit b 7")
      (simp_all only: crc16_bit_eq push_bit_xor shift fst_conv bit_xor_iff bit_push_bit_iff bit_0_eq
        bit_ucast_iff, simp_all add: ac_simps)
qed

lemma crc16_bits_load: "(crc16_bit ^^ n) (crc XOR push_bit 8 (ucast b), 0) =
  (fst ((crc16_bit ^^ n) (crc, b)) XOR push_bit 8 (ucast (push_bit n b)), 0)"
proof (induction n arbitrary: crc b)
  case 0
  then show ?case by simp
next
  case (Suc n)
  have "crc16_bit (crc, b) = (fst (crc16_bit (crc, b)), push_bit 1 b)" by simp
  then have "(crc16_bit ^^ Suc n) (crc, b) = (crc16_bit ^^ n) (fst (crc16_bit (crc, b)), push_bit 1 b)"
    by (simp only: funpow_Suc_right comp_apply)
  moreover have "push_bit n (push_bit 1 b) = push_bit (Suc n) b"
    by (simp only: push_bit_push_bit Suc_eq_plus1)
  ultimately show ?case
    by (simp only: funpow_Suc_right comp_apply crc16_bit_load Suc)
qed

lemma crc16_bits_zero: "(crc16_bit ^^ n) (crc, 0) = ((crc16_shift ^^ n) crc, 0)"
  by (induction n) (auto simp: crc16_bit_eq crc16_shift_def simp del: crc16_bit.simps)

lemma crc16_byte_shift: "crc16_byte crc b = (crc16_shift ^^ 8) (crc XOR push_bit 8 (ucast b))"
proof -
  have "push_bit 8 b = (0 :: u8)" by (rule bit_eqI) (auto simp: bit_simps)
  with crc16_bits_load [of 8 crc b] show ?thesis
    by (simp add: crc16_byte_def crc16_bits_zero)
qed

lemma crc16_shift_xor [linear_simps]: "crc16_shift (a XOR b) = crc16_shift a XOR crc16_shift b"
  by (cases "bit a 15"; cases "bit b 15") (simp_all add: crc16_shift_def bit_xor_iff push_bit_xor ac_simps)

lemma crc16_shifts_xor [linear_simps]:
  "(crc16_shift ^^ n) (a XOR b) = (crc16_shift ^^ n) a XOR (crc16_shift ^^ n) b"
  by (induction n) (simp_all add: crc16_shift_xor)

lemma crc16_shift_zero: "crc16_shift c = 0 \<longleftrightarrow> c = 0"
proof
  assume shift: "crc16_shift c = 0"
  have "bit (push_bit 1 c XOR CRC16_POLY) 0" by (simp add: CRC16_POLY_def bit_simps del: push_bit_Suc One_nat_def)
  with shift have top: "\<not> bit c 15" by (auto simp: crc16_shift_def split: if_splits)
  show "c = 0"
  proof (rule bit_eqI)
    fix n assume "possible_bit TYPE(u16) n"
    then have "n = 15 \<or> n < 15" by (auto simp: possible_bit_word)
    moreover have "n < 15 \<Longrightarrow> bit c n = bit (push_bit 1 c) (Suc n)"
      by (simp add: bit_simps del: push_bit_Suc One_nat_def)
    ultimately show "bit c n = bit 0 n" using shift top by (auto simp: crc16_shift_def)
  qed
qed (simp add: crc16_shift_def)

lemma crc16_shifts_zero: "(crc16_shift ^^ n) c = 0 \<longleftrightarrow> c = 0"
  by (induction n) (simp_all add: crc16_shift_zero)

lemma crc16_shifts_no_carry:
  "n \<le> 16 \<Longrightarrow> (\<And>k. 16 - n \<le> k \<Longrightarrow> \<not> bit c k) \<Longrightarrow> (crc16_shift ^^ n) c = push_bit n c"
proof (induction n)
  case (Suc n)
  have "\<not> bit c k" if "16 - n \<le> k" for k using Suc.prems(2) [of k] that by simp
  then have IH: "(crc16_shift ^^ n) c = push_bit n c" using Suc by simp
  have "\<not> bit (push_bit n c) 15" using Suc.prems(2) [of "15 - n"] by (auto simp: bit_simps)
  then have "crc16_shift (push_bit n c) = push_bit 1 (push_bit n c)" unfolding crc16_shift_def by (simp only: if_False)
  also have "\<dots> = push_bit (Suc n) c" by (simp only: push_bit_push_bit Suc_eq_plus1 add.commute)
  finally show ?case by (simp only: funpow.simps comp_apply IH)
qed simp

lemma crc16_low_byte:
  "n \<le> 8 \<Longrightarrow> (crc16_shift ^^ n) (ucast (b :: u8)) = push_bit n (ucast b)"
  by (rule crc16_shifts_no_carry) (auto simp: bit_simps dest: bit_imp_le_length)

subsection \<open>Residue and error detection\<close>

lemma crc16_from_append: "crc16_from c (as @ bs) = crc16_from (crc16_from c as) bs"
  by (simp add: crc16_from_def)

lemma crc16_from_zeros: "crc16_from 0 (replicate n 0) = 0"
proof (induction n)
  case (Suc n)
  have "crc16_byte 0 0 = 0" by (simp add: crc16_byte_shift crc16_shifts_zero)
  with Suc show ?case by (simp add: crc16_from_def)
qed (simp add: crc16_from_def)

lemma crc16_byte_eq_zero: "crc16_byte c b = 0 \<longleftrightarrow> c = push_bit 8 (ucast b)"
  by (simp add: crc16_byte_shift crc16_shifts_zero xor_eq_zero)

lemma crc16_from_zeros_eq_zero: "crc16_from c (replicate n 0) = 0 \<longleftrightarrow> c = 0"
proof (induction n arbitrary: c)
  case (Suc n)
  then show ?case by (simp add: crc16_from_def crc16_byte_eq_zero)
qed (simp add: crc16_from_def)

lemma crc16_byte_zero_left: "crc16_byte 0 b = (crc16_shift ^^ 8) (push_bit 8 (ucast b))"
  by (simp add: crc16_byte_shift)

lemma crc16_pair_zero: "crc16_from 0 [x, y] = 0 \<longleftrightarrow> x = 0 \<and> y = 0"
proof -
  have "crc16_from 0 [x, y] = (crc16_shift ^^ 8) ((crc16_shift ^^ 8) (push_bit 8 (ucast x))
      XOR (crc16_shift ^^ 8) (ucast y))"
    by (simp add: crc16_from_def crc16_byte_shift crc16_low_byte)
  also have "\<dots> = 0 \<longleftrightarrow> push_bit 8 (ucast x) XOR ucast y = (0 :: u16)"
    by (simp only: crc16_shifts_xor [symmetric] crc16_shifts_zero)
  also have "\<dots> \<longleftrightarrow> x = 0 \<and> y = 0"
  proof
    assume *: "push_bit 8 (ucast x) XOR ucast y = (0 :: u16)"
    have "bit x n = bit (push_bit 8 (ucast x) XOR ucast y :: u16) (n + 8)"
      and "bit y n = bit (push_bit 8 (ucast x) XOR ucast y :: u16) n" if "n < 8" for n
      using that by (auto simp: bit_simps dest: bit_imp_le_length)
    with * show "x = 0 \<and> y = 0" by (auto intro!: bit_eqI simp: possible_bit_word)
  qed simp
  finally show ?thesis .
qed

text \<open>Sixteen adjacent bits \<open>w\<close>, which begin \<open>s\<close> bits before the end of three bytes.\<close>

definition burst_bytes :: "u16 \<Rightarrow> nat \<Rightarrow> u8 list" where
  "burst_bytes w s = (let v = push_bit s (ucast w :: u32) in [ucast (drop_bit 16 v), ucast (drop_bit 8 v), ucast v])"

lemma length_burst_bytes [simp]: "length (burst_bytes w s) = 3"
  by (simp add: burst_bytes_def Let_def)

lemma crc16_three_bytes:
  "crc16_from 0 [x, y, z] =
    (crc16_shift ^^ 16) ((crc16_shift ^^ 8) (push_bit 8 (ucast x) XOR ucast y) XOR ucast z)"
proof -
  have b: "push_bit 8 (ucast b) = (crc16_shift ^^ 8) (ucast b)" for b :: u8 by (simp add: crc16_low_byte)
  have "crc16_from 0 [x, y, z] = (crc16_shift ^^ 8) ((crc16_shift ^^ 8) ((crc16_shift ^^ 8) (push_bit 8 (ucast x))
      XOR (crc16_shift ^^ 8) (ucast y)) XOR (crc16_shift ^^ 8) (ucast z))"
    by (simp only: crc16_from_def crc16_byte_shift foldl.simps b [of y] b [of z] xor.left_neutral)
  also have "\<dots> = (crc16_shift ^^ (8 + 8)) ((crc16_shift ^^ 8) (push_bit 8 (ucast x) XOR ucast y) XOR ucast z)"
    by (simp only: crc16_shifts_xor funpow_add comp_apply)
  finally show ?thesis by simp
qed

lemma crc16_burst:
  assumes "s \<le> 8"
  shows "crc16_from 0 (burst_bytes w s) = (crc16_shift ^^ 16) ((crc16_shift ^^ s) w)"
proof -
  define v where "v = push_bit s (ucast w :: u32)"
  define p where "p = (push_bit 8 (ucast (ucast (drop_bit 16 v) :: u8)) XOR ucast (ucast (drop_bit 8 v) :: u8) :: u16)"
  define z where "z = (ucast v :: u8)"
  have pb: "bit p n \<longleftrightarrow> bit w (8 + n - s) \<and> n < 16" for n
  proof (cases "n < 8")
    case True
    then show ?thesis using assms by (auto simp: p_def v_def bit_simps)
  next
    case False
    then show ?thesis using assms by (auto simp: p_def v_def bit_simps dest: bit_imp_le_length)
  qed
  have zb: "bit z n \<longleftrightarrow> s \<le> n \<and> n < 8 \<and> bit w (n - s)" for n
    using assms by (auto simp: z_def v_def bit_simps)
  have 1: "(crc16_shift ^^ (8 - s)) p = push_bit (8 - s) p"
  proof (rule crc16_shifts_no_carry)
    fix k assume "16 - (8 - s) \<le> k"
    then have "16 \<le> 8 + k - s" using assms by simp
    moreover have "bit w m \<Longrightarrow> m < 16" for m using bit_imp_le_length [of w m] by simp
    ultimately show "\<not> bit p k" unfolding pb by (meson leD)
  qed simp
  have 2: "(crc16_shift ^^ s) (ucast (drop_bit s z)) = ucast z"
  proof -
    have "(crc16_shift ^^ s) (ucast (drop_bit s z)) = push_bit s (ucast (drop_bit s z))" by (rule crc16_low_byte [OF assms])
    also have "\<dots> = ucast z"
    proof (rule bit_word_eqI)
      fix n assume "n < LENGTH(16)"
      then show "bit (push_bit s (ucast (drop_bit s z)) :: u16) n = bit (ucast z :: u16) n"
        by (simp only: bit_push_bit_iff bit_ucast_iff bit_drop_bit_eq comp_apply zb possible_bit_word) auto
    qed
    finally show ?thesis .
  qed
  have "push_bit (8 - s) p XOR ucast (drop_bit s z) = w"
    by (rule bit_word_eqI) (use assms in \<open>auto simp: bit_simps pb zb not_le\<close>)
  then have "(crc16_shift ^^ s) w = (crc16_shift ^^ s) ((crc16_shift ^^ (8 - s)) p) XOR ucast z"
    using 1 2 by (metis crc16_shifts_xor)
  also have "(crc16_shift ^^ s) ((crc16_shift ^^ (8 - s)) p) = (crc16_shift ^^ (s + (8 - s))) p"
    by (simp only: funpow_add comp_apply)
  finally have "(crc16_shift ^^ s) w = (crc16_shift ^^ (s + (8 - s))) p XOR ucast z" .
  moreover have "s + (8 - s) = 8" using assms by simp
  ultimately have 3: "(crc16_shift ^^ s) w = (crc16_shift ^^ 8) p XOR ucast z" by (simp only:)
  have 4: "burst_bytes w s = [ucast (drop_bit 16 v), ucast (drop_bit 8 v), z]" by (simp only: burst_bytes_def v_def z_def Let_def)
  show ?thesis unfolding 3 4 crc16_three_bytes p_def [symmetric] by (rule refl)
qed

definition crc16_bytes :: "u16 \<Rightarrow> u8 list" where
  "crc16_bytes c = [ucast (drop_bit 8 c), ucast c]"

lemma crc16_residue: "crc16 (data @ crc16_bytes (crc16 data)) = 0"
proof -
  let ?c = "crc16 data"
  let ?hi = "ucast (drop_bit 8 ?c) :: u8"
  have "?c XOR push_bit 8 (ucast ?hi) = ucast (ucast ?c :: u8)"
    by (rule bit_eqI) (auto simp: bit_simps)
  then have "crc16_byte ?c ?hi = push_bit 8 (ucast (ucast ?c :: u8))"
    by (simp add: crc16_byte_shift crc16_low_byte)
  then have "crc16_byte (crc16_byte ?c ?hi) (ucast ?c) = 0"
    by (simp only: crc16_byte_eq_zero)
  then show ?thesis
    by (simp add: crc16_def crc16_from_append crc16_bytes_def) (simp add: crc16_from_def)
qed

lemma crc16_detects_burst:
  assumes "w \<noteq> 0" "s \<le> 8"
  shows "crc16 (xor_bytes data (replicate n 0 @ burst_bytes w s @ replicate m 0)) \<noteq> crc16 data \<or>
    length data \<noteq> n + 3 + m"
proof -
  let ?e = "replicate n 0 @ burst_bytes w s @ replicate m 0"
  have "crc16_from 0 ?e \<noteq> 0"
    using assms crc16_burst [OF assms(2), of w]
    by (simp add: crc16_from_append crc16_from_zeros crc16_from_zeros_eq_zero crc16_shifts_zero del: append.simps)
  moreover have "length data = n + 3 + m \<Longrightarrow>
    crc16 (xor_bytes data ?e) = crc16 data XOR crc16_from 0 ?e"
    using crc16_from_xor [of data ?e CRC16_INIT 0] by (simp add: crc16_def)
  ultimately show ?thesis
    by (metis xor_left_cancel_zero)
qed

end
