(* ===== verification/Mesh_Pbuf.thy ===== *)
theory Mesh_Pbuf
  imports Chacha20 Poly1305 Crc16
begin

text \<open>
  The packet buffer of uMesh (\<open>protocols/umesh/umesh_l2_pbuf.c\<close>) and the packet cryptography
  (\<open>umesh_l2_crypto.c\<close>): the ChaCha20 keystream with the packet counter as nonce, decryption in
  counter mode, and the check of the truncated Poly1305 tag. The payload memory
  \<open>pbuf->data\<close> is the list of its bytes, so that \<open>pbuf->size\<close> is its length.
\<close>

datatype pbuf_security_type =
    UMESH_L2_PBUF_SECURITY_NONE
  | UMESH_L2_PBUF_SECURITY_VERIFY
  | UMESH_L2_PBUF_SECURITY_AE

definition SECURITY_ALGO_NONE :: u32 where "SECURITY_ALGO_NONE = 0"
definition SECURITY_ALGO_CRC16_CCITT :: u32 where "SECURITY_ALGO_CRC16_CCITT = 1"
definition SECURITY_ALGO_CHACHA20_POLY1305_2 :: u32 where "SECURITY_ALGO_CHACHA20_POLY1305_2 = 2"
definition SECURITY_ALGO_CHACHA20_POLY1305_4 :: u32 where "SECURITY_ALGO_CHACHA20_POLY1305_4 = 5"

lemmas security_algo_defs = SECURITY_ALGO_NONE_def SECURITY_ALGO_CRC16_CCITT_def
  SECURITY_ALGO_CHACHA20_POLY1305_2_def SECURITY_ALGO_CHACHA20_POLY1305_4_def

lemma security_algo_neq:
  "SECURITY_ALGO_NONE \<noteq> SECURITY_ALGO_CRC16_CCITT"
  "SECURITY_ALGO_CHACHA20_POLY1305_2 \<noteq> SECURITY_ALGO_NONE"
  "SECURITY_ALGO_CHACHA20_POLY1305_2 \<noteq> SECURITY_ALGO_CRC16_CCITT"
  "SECURITY_ALGO_CHACHA20_POLY1305_4 \<noteq> SECURITY_ALGO_NONE"
  "SECURITY_ALGO_CHACHA20_POLY1305_4 \<noteq> SECURITY_ALGO_CRC16_CCITT"
  by (simp_all add: security_algo_defs)

lemmas security_algo_distinct [simp] = security_algo_neq security_algo_neq [symmetric]

datatype umesh_enc_algo =
    UMESH_L2_ENC_ALGO_NONE
  | UMESH_L2_ENC_ALGO_AES128
  | UMESH_L2_ENC_ALGO_CHACHA20

datatype umesh_auth_algo =
    UMESH_L2_AUTH_ALGO_NONE
  | UMESH_L2_AUTH_ALGO_POLY1305
  | UMESH_L2_AUTH_ALGO_HMAC_SHA256

definition UMESH_L2_PBUF_FLAG_USED :: u8 where "UMESH_L2_PBUF_FLAG_USED = 1"
definition UMESH_L2_PBUF_FLAG_BROADCAST :: u8 where "UMESH_L2_PBUF_FLAG_BROADCAST = 2"
definition UMESH_L2_PACKET_SIZE :: nat where "UMESH_L2_PACKET_SIZE = 120"
definition UMESH_L2_SANDBOX_SIZE :: nat where "UMESH_L2_SANDBOX_SIZE = 140"

record umesh_l2_pbuf =
  pb_dtid :: u32
  pb_stid :: u32
  pb_flags :: u8
  pb_sec_type :: pbuf_security_type
  pb_sec_algo :: u32
  pb_counter :: u16
  pb_proto :: u8
  pb_prio :: u8
  pb_data :: "u8 list"
  pb_len :: nat
  pb_iface :: nat
  pb_timeout :: u32
  pb_rssi :: u32
  pb_bit_errors :: u32
  pb_fei :: u32
  pb_known_neighbor :: bool

text \<open>A packet buffer before \<open>umesh_l2_pbuf_init\<close>, without data.\<close>

definition umesh_l2_pbuf_zero :: umesh_l2_pbuf where
  "umesh_l2_pbuf_zero =
     \<lparr>pb_dtid = 0, pb_stid = 0, pb_flags = 0, pb_sec_type = UMESH_L2_PBUF_SECURITY_NONE,
      pb_sec_algo = 0, pb_counter = 0, pb_proto = 0, pb_prio = 0, pb_data = [], pb_len = 0,
      pb_iface = 0, pb_timeout = 0, pb_rssi = 0, pb_bit_errors = 0, pb_fei = 0,
      pb_known_neighbor = False\<rparr>"

text \<open>\<open>memset\<close> of the structure and of the data; the memory block and its size stay.\<close>

definition umesh_l2_pbuf_clear :: "umesh_l2_pbuf \<Rightarrow> umesh_l2_pbuf" where
  "umesh_l2_pbuf_clear pbuf =
     \<lparr>pb_dtid = 0, pb_stid = 0, pb_flags = 0, pb_sec_type = UMESH_L2_PBUF_SECURITY_NONE,
      pb_sec_algo = 0, pb_counter = 0, pb_proto = 0, pb_prio = 0,
      pb_data = replicate (length (pb_data pbuf)) 0, pb_len = 0, pb_iface = 0, pb_timeout = 0,
      pb_rssi = 0, pb_bit_errors = 0, pb_fei = 0, pb_known_neighbor = False\<rparr>"

definition umesh_l2_pbuf_init :: "umesh_l2_pbuf \<Rightarrow> umesh_l2_pbuf" where
  "umesh_l2_pbuf_init pbuf =
     umesh_l2_pbuf_clear (pbuf\<lparr>pb_data := replicate UMESH_L2_PACKET_SIZE 0\<rparr>)"

definition pbuf_broadcast :: "umesh_l2_pbuf \<Rightarrow> bool" where
  "pbuf_broadcast pbuf = (pb_flags pbuf AND UMESH_L2_PBUF_FLAG_BROADCAST \<noteq> 0)"

subsection \<open>Cryptography\<close>

definition umesh_l2_get_ctr_keystream ::
  "nat \<Rightarrow> u8 list \<Rightarrow> nat \<Rightarrow> u32 \<Rightarrow> u32 \<Rightarrow> umesh_enc_algo \<Rightarrow> u8 list option" where
  "umesh_l2_get_ctr_keystream keystream_len key key_len nonce counter algo =
     (if algo = UMESH_L2_ENC_ALGO_CHACHA20 then
        if \<not> (key_len = 16 \<or> key_len = 32) \<or> \<not> keystream_len \<le> 64 then None
        else
          let ctx = chacha20_keysetup (replicate 16 0) key (of_nat (key_len * 8));
              ctx = chacha20_nonce ctx
                [ucast (drop_bit 24 nonce AND 0xff), ucast (drop_bit 16 nonce AND 0xff),
                 ucast (drop_bit 8 nonce AND 0xff), ucast (nonce AND 0xff), 0, 0, 0, 0];
              ctx = chacha20_counter ctx counter
          in Some (take keystream_len (chacha20_keystream ctx))
      else None)"

text \<open>The comparison of the first \<open>tag_len\<close> bytes of the computed tag with the received one.\<close>

definition umesh_l2_data_authenticate ::
  "u8 list \<Rightarrow> u8 list \<Rightarrow> nat \<Rightarrow> u8 list \<Rightarrow> nat \<Rightarrow> umesh_auth_algo \<Rightarrow> bool" where
  "umesh_l2_data_authenticate data key key_len tag tag_len algo =
     (if algo = UMESH_L2_AUTH_ALGO_POLY1305 then
        if \<not> (key_len \<ge> 16 \<and> tag_len > 0 \<and> tag_len \<le> 16) then False
        else take tag_len (poly1305 data key) = take tag_len tag
      else False)"

text \<open>The keystream buffer of one turn of the encryption and decryption loops. The result of
  \<open>umesh_l2_get_ctr_keystream\<close> is not checked there; with a key of 16 or 32 bytes it never fails.\<close>

definition umesh_ctr_block :: "u8 list \<Rightarrow> nat \<Rightarrow> u32 \<Rightarrow> u16 \<Rightarrow> u8 list" where
  "umesh_ctr_block key key_len nonce counter =
     (case umesh_l2_get_ctr_keystream 64 key key_len nonce (ucast counter) UMESH_L2_ENC_ALGO_CHACHA20 of
        Some k \<Rightarrow> k
      | None \<Rightarrow> replicate 64 0)"

text \<open>\<open>src\<close> are the \<open>src_len\<close> bytes to decrypt; the result is the return value (success or
  not) and the new contents of the destination.\<close>

definition umesh_l2_decrypt ::
  "u8 list \<Rightarrow> u8 list \<Rightarrow> u8 list \<Rightarrow> nat \<Rightarrow> u32 \<Rightarrow> umesh_enc_algo \<Rightarrow> bool \<times> u8 list" where
  "umesh_l2_decrypt dst src key key_len nonce algo =
     (if length src > length dst \<or> nonce = 0 then (False, dst)
      else if algo = UMESH_L2_ENC_ALGO_CHACHA20
      then (True, ctr_xor (umesh_ctr_block key key_len nonce) 64 1 src @ drop (length src) dst)
      else (False, dst))"

lemma length_umesh_ctr_block [simp]: "length (umesh_ctr_block key key_len nonce i) = 64"
  by (simp add: umesh_ctr_block_def umesh_l2_get_ctr_keystream_def Let_def)

interpretation umesh_ctr: keystream "umesh_ctr_block key key_len nonce" 64 for key key_len nonce
  by unfold_locales simp_all

lemma length_pbuf_clear [simp]: "length (pb_data (umesh_l2_pbuf_clear p)) = length (pb_data p)"
  by (simp add: umesh_l2_pbuf_clear_def)

end
