(* ===== verification/Mesh_Nbtable.thy ===== *)
theory Mesh_Nbtable
  imports Table Mesh_Keymgr Mesh_Pbuf
begin

text \<open>
  The neighbour table of uMesh (\<open>protocols/umesh/umesh_l2_nbtable.c\<close>) and the neighbour
  discovery protocol that feeds it (\<open>umesh_l3_nbdiscovery.c\<close>). A neighbour is added when its
  beacon arrives, refreshed by every further beacon, handed to the key manager, and removed
  when it stays silent. The table is a list of items; the state of a table with its key manager
  is passed explicitly.
\<close>

datatype nbtable_state =
    ITEM_EMPTY
  | ITEM_VALID
  | ITEM_NEW
  | ITEM_GUARD
  | ITEM_OLD

record mesh_nb_item =
  ni_state :: nbtable_state
  ni_state_timeout_msec :: u32
  ni_unreachable_time_msec :: u32
  ni_tid :: u32
  ni_fei_hz :: u32
  ni_rssi_10dBm :: u16
  ni_lqi_percent :: u8
  ni_txcounter :: u16
  ni_rx_packets :: u32
  ni_rx_packets_dropped :: u32
  ni_rx_bytes :: u32
  ni_rx_bytes_dropped :: u32
  ni_tx_packets :: u32
  ni_tx_bytes :: u32

definition mesh_nb_item_zero :: mesh_nb_item where
  "mesh_nb_item_zero = \<lparr>ni_state = ITEM_EMPTY, ni_state_timeout_msec = 0, ni_unreachable_time_msec = 0,
     ni_tid = 0, ni_fei_hz = 0, ni_rssi_10dBm = 0, ni_lqi_percent = 0, ni_txcounter = 0, ni_rx_packets = 0,
     ni_rx_packets_dropped = 0, ni_rx_bytes = 0, ni_rx_bytes_dropped = 0,
     ni_tx_packets = 0, ni_tx_bytes = 0\<rparr>"

definition NBTABLE_STEP_INTERVAL_MS :: u32 where "NBTABLE_STEP_INTERVAL_MS = 100"
definition NBTABLE_UNREACHABLE_TIME_THRESHOLD :: u32 where "NBTABLE_UNREACHABLE_TIME_THRESHOLD = 2000"
definition NBTABLE_UNREACHABLE_TIME_MAX :: u32 where "NBTABLE_UNREACHABLE_TIME_MAX = 30000"

subsection \<open>State machine of an item\<close>

definition nb_item_set_state :: "mesh_nb_item \<Rightarrow> nbtable_state \<Rightarrow> mesh_nb_item" where
  "nb_item_set_state item state =
     (let item =
        (case state of
           ITEM_EMPTY \<Rightarrow> item
         | ITEM_NEW \<Rightarrow> item\<lparr>ni_state_timeout_msec := 5 * 1000\<rparr>
         | ITEM_VALID \<Rightarrow> item\<lparr>ni_state_timeout_msec := 10 * 60 * 1000\<rparr>
         | ITEM_GUARD \<Rightarrow> item\<lparr>ni_state_timeout_msec := 30 * 1000\<rparr>
         | ITEM_OLD \<Rightarrow> item\<lparr>ni_state_timeout_msec := - 1\<rparr>)
      in item\<lparr>ni_state := state\<rparr>)"

definition nb_item_check_state_timeout :: "mesh_nb_item \<Rightarrow> mesh_nb_item" where
  "nb_item_check_state_timeout item =
     (if ni_state_timeout_msec item = 0 then
        (case ni_state item of
           ITEM_EMPTY \<Rightarrow> item
         | ITEM_NEW \<Rightarrow> nb_item_set_state item ITEM_GUARD
         | ITEM_VALID \<Rightarrow> nb_item_set_state item ITEM_NEW
         | ITEM_GUARD \<Rightarrow> nb_item_set_state item ITEM_OLD
         | ITEM_OLD \<Rightarrow> item)
      else item)"

definition nb_item_check_unreachable_time :: "mesh_nb_item \<Rightarrow> mesh_nb_item" where
  "nb_item_check_unreachable_time item =
     (if ni_unreachable_time_msec item \<ge> NBTABLE_UNREACHABLE_TIME_MAX then
        (case ni_state item of
           ITEM_EMPTY \<Rightarrow> item
         | ITEM_OLD \<Rightarrow> item
         | _ \<Rightarrow> nb_item_set_state item ITEM_OLD)
      else item)"

definition nb_item_adjust_timeouts :: "mesh_nb_item \<Rightarrow> u32 \<Rightarrow> mesh_nb_item" where
  "nb_item_adjust_timeouts item step =
     (if ni_state item \<noteq> ITEM_EMPTY then
        let item = (if ni_state_timeout_msec item \<ge> step
                    then item\<lparr>ni_state_timeout_msec := ni_state_timeout_msec item - step\<rparr>
                    else item\<lparr>ni_state_timeout_msec := 0\<rparr>)
        in item\<lparr>ni_unreachable_time_msec := ni_unreachable_time_msec item + step\<rparr>
      else item)"

text \<open>The key manager is optional (\<open>nbtable->key_manager\<close> may be \<open>NULL\<close>).\<close>

definition nb_item_loop_step :: "keymgr option \<Rightarrow> mesh_nb_item \<Rightarrow> mesh_nb_item \<times> keymgr option" where
  "nb_item_loop_step key_manager item =
     (case ni_state item of
        ITEM_NEW \<Rightarrow>
          (nb_item_set_state item ITEM_VALID,
           case key_manager of None \<Rightarrow> None
           | Some km \<Rightarrow> Some (snd (umesh_l2_keymgr_manage km (ni_tid item))))
      | ITEM_OLD \<Rightarrow> (nb_item_set_state mesh_nb_item_zero ITEM_EMPTY, key_manager)
      | _ \<Rightarrow> (item, key_manager))"

definition nb_item_round :: "keymgr option \<Rightarrow> mesh_nb_item \<Rightarrow> mesh_nb_item \<times> keymgr option" where
  "nb_item_round key_manager item =
     (let item = nb_item_check_unreachable_time item;
          item = nb_item_check_state_timeout item;
          (item, key_manager) = nb_item_loop_step key_manager item
      in (nb_item_adjust_timeouts item NBTABLE_STEP_INTERVAL_MS, key_manager))"

text \<open>One turn of the loop of \<open>umesh_l2_nbtable_task\<close> over all items.\<close>

fun nbtable_round :: "keymgr option \<Rightarrow> mesh_nb_item list \<Rightarrow> mesh_nb_item list \<times> keymgr option" where
  "nbtable_round km [] = ([], km)"
| "nbtable_round km (item # items) =
     (let (item, km) = nb_item_round km item; (items, km) = nbtable_round km items
      in (item # items, km))"

subsection \<open>Table\<close>

definition mesh_nbtable_init :: "nat \<Rightarrow> mesh_nb_item list" where
  "mesh_nbtable_init nbtable_size = replicate nbtable_size mesh_nb_item_zero"

definition umesh_l2_nbtable_find :: "mesh_nb_item list \<Rightarrow> u32 \<Rightarrow> nat option" where
  "umesh_l2_nbtable_find nbtable tid =
     find_index (\<lambda>x. ni_state x \<noteq> ITEM_EMPTY \<and> ni_tid x = tid) nbtable"

definition umesh_l2_nbtable_allocate :: "mesh_nb_item list \<Rightarrow> nat option" where
  "umesh_l2_nbtable_allocate nbtable = find_index (\<lambda>x. ni_state x = ITEM_EMPTY) nbtable"

definition nb_item_is_reachable :: "mesh_nb_item \<Rightarrow> bool" where
  "nb_item_is_reachable item =
     (if ni_state item \<noteq> ITEM_VALID then False
      else if ni_unreachable_time_msec item \<ge> NBTABLE_UNREACHABLE_TIME_THRESHOLD then False
      else True)"

subsection \<open>Neighbour discovery\<close>

record nbdisc_msg =
  adv_tid :: u32
  adv_fei_hz :: u32
  adv_rssi_10dBm :: u32

definition nbdiscovery_process_adv_basic :: "mesh_nb_item list \<Rightarrow> nbdisc_msg \<Rightarrow> bool \<times> mesh_nb_item list" where
  "nbdiscovery_process_adv_basic nbtable msg =
     (case umesh_l2_nbtable_find nbtable (adv_tid msg) of
        Some i \<Rightarrow>
          let item = nbtable ! i;
              item = item\<lparr>ni_fei_hz := adv_fei_hz msg, ni_rssi_10dBm := ucast (adv_rssi_10dBm msg),
                          ni_unreachable_time_msec := 0\<rparr>
          in (True, nbtable[i := item])
      | None \<Rightarrow>
          (case umesh_l2_nbtable_allocate nbtable of
             None \<Rightarrow> (False, nbtable)
           | Some i \<Rightarrow>
               let item = nbtable ! i;
                   item = item\<lparr>ni_tid := adv_tid msg, ni_fei_hz := adv_fei_hz msg,
                               ni_rssi_10dBm := ucast (adv_rssi_10dBm msg), ni_unreachable_time_msec := 0\<rparr>;
                   item = nb_item_set_state item ITEM_NEW
               in (True, nbtable[i := item])))"

text \<open>The packet type is the first byte of the payload; there is one type, 0.\<close>

definition nbdiscovery_parse :: "umesh_l2_pbuf \<Rightarrow> nbdisc_msg option" where
  "nbdiscovery_parse pbuf =
     (if pb_len pbuf < 1 then None
      else case mem_get (pb_data pbuf) 0 of None \<Rightarrow> None | Some type \<Rightarrow>
        let len = pb_len pbuf - 1 in
        if type = 0 then
          if len > 0 then None
          else Some \<lparr>adv_tid = pb_stid pbuf, adv_fei_hz = pb_fei pbuf, adv_rssi_10dBm = pb_rssi pbuf\<rparr>
        else None)"

definition nbdiscovery_build :: "u32 \<Rightarrow> umesh_l2_pbuf \<Rightarrow> umesh_l2_pbuf option" where
  "nbdiscovery_build tid pbuf =
     (let pbuf = pbuf\<lparr>pb_sec_type := UMESH_L2_PBUF_SECURITY_VERIFY,
                      pb_flags := pb_flags pbuf OR UMESH_L2_PBUF_FLAG_BROADCAST, pb_proto := 0\<rparr>
      in if length (pb_data pbuf) < 1 then None
         else Some (pbuf\<lparr>pb_data := (pb_data pbuf)[0 := 0], pb_stid := tid, pb_len := 1\<rparr>))"

definition nbdiscovery_receive_check :: "umesh_l2_pbuf \<Rightarrow> bool" where
  "nbdiscovery_receive_check pbuf = (pb_sec_type pbuf = UMESH_L2_PBUF_SECURITY_VERIFY)"

definition nbdiscovery_receive_handler ::
  "mesh_nb_item list \<Rightarrow> umesh_l2_pbuf \<Rightarrow> bool \<times> mesh_nb_item list" where
  "nbdiscovery_receive_handler nbtable pbuf =
     (if \<not> nbdiscovery_receive_check pbuf then (False, nbtable)
      else case nbdiscovery_parse pbuf of
        None \<Rightarrow> (False, nbtable)
      | Some msg \<Rightarrow> nbdiscovery_process_adv_basic nbtable msg)"

text \<open>The own identifier of the node, and one turn of the loop of \<open>umesh_l3_nbdiscovery_task\<close>: whether
  a beacon is due, with which identifier, and the state afterwards. The identifier drawn from the
  random number generator is overwritten by a constant in the code.\<close>

record nbdiscovery =
  nd_tid_current :: u32
  nd_tid_last :: u32
  nd_last_adv_basic_ms :: u32
  nd_tid_age_ms :: u32

definition NBDISCOVERY_ADV_BASIC_INTERVAL :: u32 where "NBDISCOVERY_ADV_BASIC_INTERVAL = 1000"
definition NBDISCOVERY_STEP_INTERVAL :: u32 where "NBDISCOVERY_STEP_INTERVAL = 100"
definition NBDISCOVERY_VALID_TID_AGE_MAX :: u32 where "NBDISCOVERY_VALID_TID_AGE_MAX = 3600000"

definition nbdiscovery_task_step :: "nbdiscovery \<Rightarrow> u32 option \<times> nbdiscovery" where
  "nbdiscovery_task_step nbd =
     (let (adv, nbd) =
        (if nd_last_adv_basic_ms nbd \<ge> NBDISCOVERY_ADV_BASIC_INTERVAL
         then (Some (nd_tid_current nbd), nbd\<lparr>nd_last_adv_basic_ms := 0\<rparr>) else (None, nbd));
          nbd =
        (if nd_tid_current nbd = 0 then nbd\<lparr>nd_tid_current := 0xc206, nd_tid_age_ms := 0\<rparr>
         else if nd_tid_age_ms nbd \<ge> NBDISCOVERY_VALID_TID_AGE_MAX
         then nbd\<lparr>nd_tid_last := nd_tid_current nbd, nd_tid_current := 0\<rparr>
         else nbd)
      in (adv, nbd\<lparr>nd_last_adv_basic_ms := nd_last_adv_basic_ms nbd + NBDISCOVERY_STEP_INTERVAL,
                  nd_tid_age_ms := nd_tid_age_ms nbd + NBDISCOVERY_STEP_INTERVAL\<rparr>))"

subsection \<open>One entry per neighbour\<close>

definition nb_item_used :: "mesh_nb_item \<Rightarrow> bool" where
  "nb_item_used item = (ni_state item \<noteq> ITEM_EMPTY)"

definition nb_item_fresh :: "u32 \<Rightarrow> mesh_nb_item" where
  "nb_item_fresh tid = nb_item_set_state (mesh_nb_item_zero\<lparr>ni_tid := tid\<rparr>) ITEM_NEW"

interpretation mesh_nb: keyed_table nb_item_used ni_tid nb_item_fresh
  by unfold_locales (simp_all add: nb_item_used_def nb_item_fresh_def nb_item_set_state_def)

definition mesh_nbtable_inv :: "mesh_nb_item list \<Rightarrow> bool" where
  "mesh_nbtable_inv = table_distinct nb_item_used ni_tid"

definition mesh_neighbours :: "mesh_nb_item list \<Rightarrow> u32 \<Rightarrow> mesh_nb_item option" where
  "mesh_neighbours = table_lookup nb_item_used ni_tid"

lemma nbtable_find_table: "umesh_l2_nbtable_find xs tid = table_find nb_item_used ni_tid tid xs"
  by (simp add: umesh_l2_nbtable_find_def table_find_def nb_item_used_def)

lemma nbtable_allocate_table: "umesh_l2_nbtable_allocate xs = table_alloc nb_item_used xs"
  by (simp add: umesh_l2_nbtable_allocate_def table_alloc_def nb_item_used_def)

lemma adv_basic_inv:
  assumes "mesh_nbtable_inv xs"
  shows "mesh_nbtable_inv (snd (nbdiscovery_process_adv_basic xs msg))"
proof (cases "table_find nb_item_used ni_tid (adv_tid msg) xs")
  case (Some i)
  then show ?thesis
    using assms table_find_Some [OF Some]
    by (auto simp: nbdiscovery_process_adv_basic_def nbtable_find_table Let_def mesh_nbtable_inv_def
        nb_item_used_def intro!: mesh_nb.update_same_key_distinct)
next
  case None
  then have free: "\<forall>x \<in> set xs. nb_item_used x \<longrightarrow> ni_tid x \<noteq> adv_tid msg" by (simp add: table_find_None)
  show ?thesis
  proof (cases "table_alloc nb_item_used xs")
    case (Some i)
    then show ?thesis
      using assms None free table_alloc_Some [OF Some]
      by (auto simp: nbdiscovery_process_adv_basic_def nbtable_find_table nbtable_allocate_table Let_def
          mesh_nbtable_inv_def nb_item_set_state_def intro!: mesh_nb.update_distinct)
  qed (use assms None in \<open>simp add: nbdiscovery_process_adv_basic_def nbtable_find_table nbtable_allocate_table\<close>)
qed


subsection \<open>Runs of the table\<close>

lemma nb_item_round_fst: "fst (nb_item_round km item) = fst (nb_item_round None item)"
  by (simp add: nb_item_round_def nb_item_loop_step_def Let_def split: prod.splits nbtable_state.splits)

lemma nbtable_round_fst: "fst (nbtable_round km xs) = map (\<lambda>x. fst (nb_item_round None x)) xs"
proof (induction xs arbitrary: km)
  case (Cons x xs)
  then show ?case
    by (metis (no_types, lifting) fst_conv list.simps(9) nb_item_round_fst nbtable_round.simps(2)
        prod.collapse split_conv)
qed simp

lemma nb_item_round_tid:
  "ni_state (fst (nb_item_round km x)) \<noteq> ITEM_EMPTY \<Longrightarrow>
   ni_state x \<noteq> ITEM_EMPTY \<and> ni_tid (fst (nb_item_round km x)) = ni_tid x"
  by (cases "ni_state x")
    (auto simp: nb_item_round_def nb_item_loop_step_def nb_item_check_unreachable_time_def
      nb_item_check_state_timeout_def nb_item_set_state_def nb_item_adjust_timeouts_def Let_def
      mesh_nb_item_zero_def split: if_splits)

lemma nbtable_round_inv:
  assumes "mesh_nbtable_inv xs"
  shows "mesh_nbtable_inv (fst (nbtable_round km xs))"
  using assms nb_item_round_tid [of None]
  by (auto simp: mesh_nbtable_inv_def table_distinct_def nb_item_used_def nbtable_round_fst)

datatype nb_event = Beacon nbdisc_msg | Round

fun nb_event_step :: "nb_event \<Rightarrow> mesh_nb_item list \<times> keymgr option \<Rightarrow> mesh_nb_item list \<times> keymgr option" where
  "nb_event_step (Beacon msg) (xs, km) = (snd (nbdiscovery_process_adv_basic xs msg), km)"
| "nb_event_step Round (xs, km) = nbtable_round km xs"

lemma mesh_nbtable_init_inv: "mesh_nbtable_inv (mesh_nbtable_init n)"
  by (simp add: mesh_nbtable_inv_def table_distinct_def mesh_nbtable_init_def nb_item_used_def mesh_nb_item_zero_def)

lemma nb_event_step_inv: "mesh_nbtable_inv (fst s) \<Longrightarrow> mesh_nbtable_inv (fst (nb_event_step e s))"
  by (cases s; cases e) (simp_all add: adv_basic_inv nbtable_round_inv)

lemma nb_events_inv: "mesh_nbtable_inv (fst s) \<Longrightarrow> mesh_nbtable_inv (fst (fold nb_event_step es s))"
  by (induction es arbitrary: s) (simp_all add: nb_event_step_inv)

text \<open>
  Whatever beacons arrive and however they interleave with the turns of the table's
  task, a table that started empty never holds two entries for the same neighbour.
\<close>

theorem mesh_nbtable_unique:
  "mesh_nbtable_inv (fst (fold nb_event_step es (mesh_nbtable_init n, km)))"
  by (rule nb_events_inv) (simp add: mesh_nbtable_init_inv)

text \<open>The entry a beacon leaves behind, given the one that was there.\<close>

definition beacon_entry :: "nbdisc_msg \<Rightarrow> mesh_nb_item \<Rightarrow> mesh_nb_item" where
  "beacon_entry msg item =
     item\<lparr>ni_fei_hz := adv_fei_hz msg, ni_rssi_10dBm := ucast (adv_rssi_10dBm msg), ni_unreachable_time_msec := 0\<rparr>"

lemma neighbours_update:
  assumes "mesh_nbtable_inv xs" "i < length xs" "nb_item_used y" "ni_tid y = t"
    and "nb_item_used (xs ! i) \<longrightarrow> ni_tid (xs ! i) = t"
    and "\<not> nb_item_used (xs ! i) \<longrightarrow> (\<forall>x \<in> set xs. nb_item_used x \<longrightarrow> ni_tid x \<noteq> t)"
  shows "mesh_neighbours (xs[i := y]) = (mesh_neighbours xs)(t \<mapsto> y)"
proof -
  have free: "\<And>j. j < length xs \<Longrightarrow> j \<noteq> i \<Longrightarrow> nb_item_used (xs ! j) \<Longrightarrow> ni_tid (xs ! j) \<noteq> t"
    using assms unfolding mesh_nbtable_inv_def table_distinct_def by (metis nth_mem)
  have d: "table_distinct nb_item_used ni_tid (xs[i := y])"
    using assms(1) free unfolding mesh_nbtable_inv_def
    by (intro mesh_nb.update_distinct) (simp_all add: assms)
  have mem: "x \<in> set (xs[i := y]) \<and> nb_item_used x \<and> ni_tid x = k \<longleftrightarrow>
      (if k = t then x = y else x \<in> set xs \<and> nb_item_used x \<and> ni_tid x = k)" for k x
  proof
    assume l: "x \<in> set (xs[i := y]) \<and> nb_item_used x \<and> ni_tid x = k"
    then obtain j where "j < length xs" "x = xs[i := y] ! j" by (auto simp: in_set_conv_nth)
    with l free assms(4) show "if k = t then x = y else x \<in> set xs \<and> nb_item_used x \<and> ni_tid x = k"
      by (cases "j = i") auto
  next
    assume r: "if k = t then x = y else x \<in> set xs \<and> nb_item_used x \<and> ni_tid x = k"
    show "x \<in> set (xs[i := y]) \<and> nb_item_used x \<and> ni_tid x = k"
    proof (cases "k = t")
      case False
      with r obtain j where j: "j < length xs" "x = xs ! j" by (auto simp: in_set_conv_nth)
      with False r assms(5) have "j \<noteq> i" by auto
      with j have "xs[i := y] ! j = x" "j < length (xs[i := y])" by simp_all
      then have "x \<in> set (xs[i := y])" using nth_mem by metis
      with False r show ?thesis by simp
    qed (use r assms in \<open>simp add: set_update_memI\<close>)
  qed
  have iff: "table_lookup nb_item_used ni_tid (xs[i := y]) k = Some x \<longleftrightarrow>
      ((table_lookup nb_item_used ni_tid xs)(t \<mapsto> y)) k = Some x" for k x
    using mem [of x k] mesh_nb.lookup_eq_Some [OF d, of k x]
      mesh_nb.lookup_eq_Some [OF assms(1) [unfolded mesh_nbtable_inv_def], of k x] by (auto split: if_splits)
  show ?thesis unfolding mesh_neighbours_def
    by (rule ext) (metis iff option.exhaust)
qed

lemma adv_basic_new:
  assumes "mesh_nbtable_inv xs" "mesh_neighbours xs (adv_tid msg) = None"
    and "nbdiscovery_process_adv_basic xs msg = (True, ys)"
  shows "\<exists>item. ni_state item = ITEM_NEW \<and> ni_unreachable_time_msec item = 0 \<and>
    mesh_neighbours ys = (mesh_neighbours xs)(adv_tid msg \<mapsto> item)"
proof -
  have none: "table_find nb_item_used ni_tid (adv_tid msg) xs = None"
    using assms(2) by (simp add: mesh_neighbours_def table_lookup_def)
  then have free: "\<forall>x \<in> set xs. nb_item_used x \<longrightarrow> ni_tid x \<noteq> adv_tid msg" by (simp add: table_find_None)
  obtain i where i: "table_alloc nb_item_used xs = Some i"
    using assms(3) none by (cases "table_alloc nb_item_used xs")
      (simp_all add: nbdiscovery_process_adv_basic_def nbtable_find_table nbtable_allocate_table)
  define item where "item = nb_item_set_state (beacon_entry msg ((xs ! i)\<lparr>ni_tid := adv_tid msg\<rparr>)) ITEM_NEW"
  have ys: "ys = xs[i := item]"
    using assms(3) none i
    by (simp add: nbdiscovery_process_adv_basic_def nbtable_find_table nbtable_allocate_table Let_def item_def
        beacon_entry_def)
  have "mesh_neighbours ys = (mesh_neighbours xs)(adv_tid msg \<mapsto> item)"
    unfolding ys using table_alloc_Some [OF i] free
    by (intro neighbours_update [OF assms(1)]) (auto simp: item_def nb_item_used_def nb_item_set_state_def beacon_entry_def)
  moreover have "ni_state item = ITEM_NEW" "ni_unreachable_time_msec item = 0"
    by (simp_all add: item_def nb_item_set_state_def beacon_entry_def)
  ultimately show ?thesis by blast
qed

lemma adv_basic_known:
  assumes "mesh_nbtable_inv xs" "mesh_neighbours xs (adv_tid msg) = Some x"
  shows "\<exists>ys. nbdiscovery_process_adv_basic xs msg = (True, ys) \<and>
    mesh_neighbours ys = (mesh_neighbours xs)(adv_tid msg \<mapsto> beacon_entry msg x)"
proof -
  obtain i where i: "table_find nb_item_used ni_tid (adv_tid msg) xs = Some i" and x: "x = xs ! i"
    using assms(2) by (auto simp: mesh_neighbours_def table_lookup_def)
  have "nbdiscovery_process_adv_basic xs msg = (True, xs[i := beacon_entry msg x])"
    using i by (simp add: nbdiscovery_process_adv_basic_def nbtable_find_table Let_def beacon_entry_def x)
  moreover have "mesh_neighbours (xs[i := beacon_entry msg x]) = (mesh_neighbours xs)(adv_tid msg \<mapsto> beacon_entry msg x)"
    using table_find_Some [OF i]
    by (intro neighbours_update [OF assms(1)]) (auto simp: x nb_item_used_def beacon_entry_def)
  ultimately show ?thesis by blast
qed

text \<open>
  Property C18. A beacon acts on the table as one update of the map from identifiers to
  neighbours: it refreshes the quality and the age of a known neighbour and changes no
  other; an unknown neighbour is added in the state NEW, and only a table without a free entry
  refuses it, unchanged.
\<close>

theorem beacon_updates_neighbours:
  assumes "mesh_nbtable_inv xs" and step: "nbdiscovery_process_adv_basic xs msg = (ok, ys)"
  shows "case mesh_neighbours xs (adv_tid msg) of
      Some x \<Rightarrow> ok \<and> mesh_neighbours ys = (mesh_neighbours xs)(adv_tid msg \<mapsto> beacon_entry msg x)
    | None \<Rightarrow>
        (if ok then \<exists>item. ni_state item = ITEM_NEW \<and> ni_unreachable_time_msec item = 0 \<and>
             mesh_neighbours ys = (mesh_neighbours xs)(adv_tid msg \<mapsto> item)
         else ys = xs \<and> list_all nb_item_used xs)"
proof (cases "mesh_neighbours xs (adv_tid msg)")
  case (Some x)
  with adv_basic_known [OF assms(1) Some] step show ?thesis by auto
next
  case None
  show ?thesis
  proof (cases ok)
    case True
    with adv_basic_new [OF assms(1) None] step None show ?thesis by simp
  next
    case False
    have "table_find nb_item_used ni_tid (adv_tid msg) xs = None"
      using None by (simp add: mesh_neighbours_def table_lookup_def)
    with step False have "table_alloc nb_item_used xs = None \<and> ys = xs"
      by (cases "table_alloc nb_item_used xs")
        (auto simp: nbdiscovery_process_adv_basic_def nbtable_find_table nbtable_allocate_table Let_def)
    with False None show ?thesis by (simp add: table_alloc_None list_all_iff)
  qed
qed

theorem beacon_updates_neighbours_witness:
  "\<exists>msg. mesh_neighbours (snd (nbdiscovery_process_adv_basic (mesh_nbtable_init 2) msg)) (adv_tid msg) \<noteq> None"
proof -
  define msg where "msg = \<lparr>adv_tid = 7, adv_fei_hz = 0, adv_rssi_10dBm = 0\<rparr>"
  obtain ys where ys: "nbdiscovery_process_adv_basic (mesh_nbtable_init 2) msg = (True, ys)"
    by (simp add: nbdiscovery_process_adv_basic_def umesh_l2_nbtable_find_def umesh_l2_nbtable_allocate_def
        mesh_nbtable_init_def numeral_2_eq_2 mesh_nb_item_zero_def Let_def)
  have none: "mesh_neighbours (mesh_nbtable_init 2) (adv_tid msg) = None"
    by (simp add: mesh_neighbours_def table_lookup_def table_find_None mesh_nbtable_init_def nb_item_used_def
        mesh_nb_item_zero_def)
  from beacon_updates_neighbours [OF mesh_nbtable_init_inv ys] have "mesh_neighbours ys (adv_tid msg) \<noteq> None"
    by (auto simp: none)
  then show ?thesis using ys by (intro exI [of _ msg]) simp
qed

subsection \<open>Lifetime of a neighbour\<close>

definition nb_item_next :: "nat \<Rightarrow> mesh_nb_item \<Rightarrow> mesh_nb_item" where
  "nb_item_next n = ((\<lambda>x. fst (nb_item_round None x)) ^^ n)"

lemma nb_item_next_Suc: "nb_item_next (Suc n) x = fst (nb_item_round None (nb_item_next n x))"
  by (simp add: nb_item_next_def)

definition nb_item_alive :: "mesh_nb_item \<Rightarrow> bool" where
  "nb_item_alive x \<longleftrightarrow> ni_state x = ITEM_VALID \<or> ni_state x = ITEM_NEW \<and> ni_state_timeout_msec x \<noteq> 0"

lemma nb_item_round_alive:
  assumes "nb_item_alive x" "ni_unreachable_time_msec x < NBTABLE_UNREACHABLE_TIME_MAX"
  shows "ni_state (fst (nb_item_round km x)) = ITEM_VALID \<and>
    ni_tid (fst (nb_item_round km x)) = ni_tid x \<and>
    ni_unreachable_time_msec (fst (nb_item_round km x)) = ni_unreachable_time_msec x + 100"
  using assms
  by (auto simp: nb_item_alive_def nb_item_round_def nb_item_loop_step_def nb_item_check_unreachable_time_def
      nb_item_check_state_timeout_def nb_item_set_state_def nb_item_adjust_timeouts_def Let_def
      NBTABLE_STEP_INTERVAL_MS_def)

lemma nb_item_round_dead:
  assumes "ni_unreachable_time_msec x \<ge> NBTABLE_UNREACHABLE_TIME_MAX \<or> ni_state x = ITEM_EMPTY"
  shows "ni_state (fst (nb_item_round km x)) = ITEM_EMPTY"
  using assms
  by (cases "ni_state x")
    (auto simp: nb_item_round_def nb_item_loop_step_def nb_item_check_unreachable_time_def
      nb_item_check_state_timeout_def nb_item_set_state_def nb_item_adjust_timeouts_def Let_def
      mesh_nb_item_zero_def)

lemma nb_item_next_heard:
  assumes "nb_item_alive x" "ni_unreachable_time_msec x = 0" "n \<le> 300"
  shows "nb_item_alive (nb_item_next n x) \<and> ni_tid (nb_item_next n x) = ni_tid x \<and>
    (0 < n \<longrightarrow> ni_state (nb_item_next n x) = ITEM_VALID) \<and>
    ni_unreachable_time_msec (nb_item_next n x) = of_nat (100 * n)"
  using assms(3)
proof (induction n)
  case 0
  then show ?case by (simp add: nb_item_next_def assms)
next
  case (Suc n)
  then have IH: "nb_item_alive (nb_item_next n x)" "ni_tid (nb_item_next n x) = ni_tid x"
    "ni_unreachable_time_msec (nb_item_next n x) = of_nat (100 * n)" by auto
  have "(of_nat (100 * n) :: u32) < 30000"
    using Suc.prems unfolding word_less_nat_alt by (subst unat_of_nat) (simp add: take_bit_nat_eq_self)
  then have "ni_unreachable_time_msec (nb_item_next n x) < NBTABLE_UNREACHABLE_TIME_MAX"
    unfolding IH(3) NBTABLE_UNREACHABLE_TIME_MAX_def .
  from nb_item_round_alive [OF IH(1) this, of None] show ?case
    by (simp add: nb_item_next_Suc IH nb_item_alive_def algebra_simps)
qed

lemma nb_item_next_silent:
  assumes "nb_item_alive x" "ni_unreachable_time_msec x = 0"
  shows "ni_state (nb_item_next (301 + n) x) = ITEM_EMPTY"
proof (induction n)
  case 0
  have "ni_unreachable_time_msec (nb_item_next 300 x) = of_nat (100 * 300)"
    using nb_item_next_heard [OF assms, of 300] by simp
  then have "ni_unreachable_time_msec (nb_item_next 300 x) \<ge> NBTABLE_UNREACHABLE_TIME_MAX"
    by (simp add: NBTABLE_UNREACHABLE_TIME_MAX_def)
  then show ?case using nb_item_round_dead [of "nb_item_next 300 x" None] nb_item_next_Suc [of 300 x] by simp
next
  case (Suc n)
  then show ?case
    using nb_item_round_dead [of "nb_item_next (301 + n) x" None] nb_item_next_Suc [of "301 + n" x] by simp
qed

definition nbtable_rounds :: "nat \<Rightarrow> mesh_nb_item list \<times> keymgr option \<Rightarrow> mesh_nb_item list \<times> keymgr option" where
  "nbtable_rounds n = ((\<lambda>(xs, km). nbtable_round km xs) ^^ n)"

lemma nbtable_rounds_nth: "fst (nbtable_rounds n (xs, km)) = map (nb_item_next n) xs"
proof (induction n)
  case (Suc n)
  obtain ys km' where yk: "nbtable_rounds n (xs, km) = (ys, km')" by fastforce
  with Suc have "ys = map (nb_item_next n) xs" by simp
  with yk have "fst (nbtable_rounds (Suc n) (xs, km)) = fst (nbtable_round km' (map (nb_item_next n) xs))"
    by (simp add: nbtable_rounds_def)
  then show ?case by (simp add: nbtable_round_fst nb_item_next_Suc)
qed (simp add: nbtable_rounds_def nb_item_next_def)

text \<open>
  A neighbour stays in the table exactly as long as its beacons allow: an entry in
  the state VALID, or NEW with its timer running, whose beacon has just arrived is VALID
  after each of the next 300 turns of the task (thirty seconds) and empty after every later
  one, when no further beacon arrives.
\<close>

theorem neighbour_lifetime:
  assumes "i < length xs" "nb_item_alive (xs ! i)" "ni_unreachable_time_msec (xs ! i) = 0"
  shows "ni_state (fst (nbtable_rounds n (xs, km)) ! i) =
    (if n = 0 then ni_state (xs ! i) else if n \<le> 300 then ITEM_VALID else ITEM_EMPTY)"
proof -
  have "n > 300 \<Longrightarrow> ni_state (nb_item_next n (xs ! i)) = ITEM_EMPTY"
    using nb_item_next_silent [OF assms(2,3), of "n - 301"] by simp
  moreover have "nb_item_next 0 (xs ! i) = xs ! i" by (simp add: nb_item_next_def)
  ultimately show ?thesis
    using nb_item_next_heard [OF assms(2,3), of n] assms(1) by (auto simp: nbtable_rounds_nth)
qed

theorem neighbour_lifetime_witness:
  "ni_state (fst (nbtable_rounds 301 ([nb_item_fresh 7], None)) ! 0) = ITEM_EMPTY"
  by (subst neighbour_lifetime)
    (simp_all add: nb_item_fresh_def nb_item_alive_def nb_item_set_state_def mesh_nb_item_zero_def)

end
