(* ===== verification/Mesh_Codec.thy ===== *)
theory Mesh_Codec
  imports Mesh_Pbuf
begin

text \<open>
  The packet format of uMesh layer 2: parsing (\<open>protocols/umesh/umesh_l2_receive.c\<close>) and
  building (\<open>umesh_l2_send.c\<close>) of the control field, the variable-length temporary identifiers
  (TIDs), the packet counter and the data with its checksum or encryption. The received packet
  and the sandbox of the sender are byte memories, the pointer \<open>*data\<close> is a position in them
  and \<open>header\<close> is position 0. The outer \<open>None\<close> of a function is an access outside of the memory.
\<close>

datatype l2_ret =
    L2_OK
  | L2_FAILED
  | L2_AE_FAILED
  | L2_NO_DATA
  | L2_UNSUPPORTED
  | L2_TOO_BIG
  | L2_UNFINISHED
  | L2_BUFFER_SMALL
  | L2_MALFORMED
  | L2_UNROUTABLE

text \<open>The key that both directions use.\<close>

definition umesh_test_key :: "u8 list" where
  "umesh_test_key =
     [0xb0, 0x03, 0x44, 0xb5, 0xbe, 0x2c, 0x1e, 0x3c, 0x91, 0x29, 0xfe, 0x27, 0x2d, 0x99, 0x10, 0x90,
      0x3f, 0xce, 0x32, 0xc5, 0x68, 0x16, 0x56, 0x37, 0xfe, 0xda, 0xa8, 0x53, 0x70, 0xae, 0xd1, 0x10]"

subsection \<open>Control field\<close>

definition umesh_l2_parse_control ::
  "u8 list \<Rightarrow> nat \<Rightarrow> nat \<Rightarrow> umesh_l2_pbuf \<Rightarrow> (l2_ret \<times> nat \<times> umesh_l2_pbuf) option" where
  "umesh_l2_parse_control m pos len pbuf =
     (if len < 1 then Some (L2_NO_DATA, pos, pbuf)
      else case mem_get m pos of None \<Rightarrow> None | Some byte1 \<Rightarrow>
        let pos = pos + 1; len = len - 1;
            pbuf = (if byte1 AND 0x40 \<noteq> 0
                    then pbuf\<lparr>pb_flags := pb_flags pbuf OR UMESH_L2_PBUF_FLAG_BROADCAST\<rparr> else pbuf);
            pbuf = pbuf\<lparr>pb_sec_algo := ucast (drop_bit 4 byte1 AND 0x03)\<rparr>;
            pbuf = pbuf\<lparr>pb_proto := drop_bit 2 byte1 AND 0x03\<rparr>
        in
        if byte1 AND 0x80 \<noteq> 0 then
          if len < 1 then Some (L2_NO_DATA, pos, pbuf)
          else case mem_get m pos of None \<Rightarrow> None | Some byte2 \<Rightarrow>
            let pos = pos + 1;
                pbuf = (if byte2 AND 0x40 \<noteq> 0 then pbuf\<lparr>pb_sec_algo := pb_sec_algo pbuf + 4\<rparr> else pbuf);
                pbuf = pbuf\<lparr>pb_proto := push_bit 2 (pb_proto pbuf) OR (byte2 AND 0x03)\<rparr>
            in Some (if byte2 AND 0x80 \<noteq> 0 then L2_UNFINISHED else L2_OK, pos, pbuf)
        else Some (L2_OK, pos, pbuf))"

definition umesh_l2_build_control ::
  "umesh_l2_pbuf \<Rightarrow> u8 list \<Rightarrow> nat \<Rightarrow> nat \<Rightarrow> (l2_ret \<times> u8 list \<times> nat) option" where
  "umesh_l2_build_control pbuf m pos len =
     (let byte1 = (if pbuf_broadcast pbuf then 0x40 else 0);
          byte1 = byte1 OR ucast (push_bit 4 (pb_sec_algo pbuf AND 0x03));
          byte2 = ucast (push_bit 6 (drop_bit 2 (pb_sec_algo pbuf) AND 0x01));
          byte1 = byte1 OR push_bit 2 (pb_proto pbuf AND 0x03);
          byte2 = byte2 OR (drop_bit 2 (pb_proto pbuf) AND 0x03);
          byte1 = (if byte2 \<noteq> 0 then byte1 OR 0x80 else byte1)
      in
      if len < 1 then Some (L2_BUFFER_SMALL, m, pos)
      else case mem_write m pos [byte1] of None \<Rightarrow> None | Some m \<Rightarrow>
        let pos = pos + 1; len = len - 1 in
        if byte2 \<noteq> 0 then
          if len < 1 then Some (L2_BUFFER_SMALL, m, pos)
          else case mem_write m pos [byte2] of None \<Rightarrow> None | Some m \<Rightarrow> Some (L2_OK, m, pos + 1)
        else Some (L2_OK, m, pos))"

subsection \<open>Temporary identifiers\<close>

definition tid_chunk :: "u32 \<Rightarrow> nat \<Rightarrow> u32" where
  "tid_chunk tid i = drop_bit (i * 7) tid AND 0x7f"

fun tid_skip_zero :: "u32 \<Rightarrow> nat \<Rightarrow> nat" where
  "tid_skip_zero tid 0 = 0"
| "tid_skip_zero tid (Suc i) = (if tid_chunk tid (Suc i) = 0 then tid_skip_zero tid i else Suc i)"

definition tid_byte :: "u32 \<Rightarrow> nat \<Rightarrow> u8" where
  "tid_byte tid i = (if i \<noteq> 0 then ucast (tid_chunk tid i) OR 0x80 else ucast (tid_chunk tid i))"

text \<open>The emitting loop for the chunks \<open>i, i - 1, \<dots>, 0\<close>.\<close>

fun tid_emit :: "u32 \<Rightarrow> nat \<Rightarrow> u8 list \<Rightarrow> nat \<Rightarrow> nat \<Rightarrow> (l2_ret \<times> u8 list \<times> nat) option" where
  "tid_emit tid i m pos len =
     (if len < 1 then Some (L2_BUFFER_SMALL, m, pos)
      else case mem_write m pos [tid_byte tid i] of None \<Rightarrow> None | Some m \<Rightarrow>
        (case i of 0 \<Rightarrow> Some (L2_OK, m, pos + 1) | Suc i \<Rightarrow> tid_emit tid i m (pos + 1) (len - 1)))"

definition umesh_l2_build_tid :: "u32 \<Rightarrow> u8 list \<Rightarrow> nat \<Rightarrow> nat \<Rightarrow> (l2_ret \<times> u8 list \<times> nat) option" where
  "umesh_l2_build_tid tid m pos len = tid_emit tid (tid_skip_zero tid 4) m pos len"

fun tid_parse_loop :: "nat \<Rightarrow> u8 list \<Rightarrow> nat \<Rightarrow> nat \<Rightarrow> u32 \<Rightarrow> (l2_ret \<times> nat \<times> u32) option" where
  "tid_parse_loop 0 m pos len tid = Some (L2_TOO_BIG, pos, tid)"
| "tid_parse_loop (Suc i) m pos len tid =
     (if len < 1 then Some (L2_NO_DATA, pos, tid)
      else case mem_get m pos of None \<Rightarrow> None | Some byte \<Rightarrow>
        let pos = pos + 1; len = len - 1;
            tid = push_bit 7 tid OR ucast (byte AND 0x7f)
        in if byte AND 0x80 = 0 then Some (L2_OK, pos, tid)
           else tid_parse_loop i m pos len tid)"

definition umesh_l2_parse_tid :: "u8 list \<Rightarrow> nat \<Rightarrow> nat \<Rightarrow> (l2_ret \<times> nat \<times> u32) option" where
  "umesh_l2_parse_tid m pos len = tid_parse_loop 5 m pos len 0"

subsection \<open>Packet data\<close>

text \<open>Position, length and counter afterwards.\<close>

definition umesh_l2_parse_counter :: "u8 list \<Rightarrow> nat \<Rightarrow> nat \<Rightarrow> u16 \<Rightarrow> (l2_ret \<times> nat \<times> nat \<times> u16) option" where
  "umesh_l2_parse_counter m pos len counter =
     (if len < 2 then Some (L2_FAILED, pos, len, counter)
      else case mem_read m pos 2 of None \<Rightarrow> None | Some b \<Rightarrow>
        Some (L2_OK, pos + 2, len - 2, push_bit 8 (ucast (b ! 0)) OR ucast (b ! 1)))"

text \<open>The three supported packet securities, as branches of \<open>umesh_l2_parse_data\<close>.\<close>

definition parse_data_plain ::
  "u8 list \<Rightarrow> nat \<Rightarrow> nat \<Rightarrow> umesh_l2_pbuf \<Rightarrow> (l2_ret \<times> nat \<times> umesh_l2_pbuf) option" where
  "parse_data_plain m pos len pbuf =
     (if len > length (pb_data pbuf) then Some (L2_TOO_BIG, pos, pbuf)
      else case mem_read m pos len of None \<Rightarrow> None | Some bytes \<Rightarrow>
        (case mem_write (pb_data pbuf) 0 bytes of None \<Rightarrow> None | Some d \<Rightarrow>
           Some (L2_OK, pos + len, pbuf\<lparr>pb_len := len, pb_data := d\<rparr>)))"

definition parse_data_crc ::
  "u8 list \<Rightarrow> nat \<Rightarrow> nat \<Rightarrow> nat \<Rightarrow> umesh_l2_pbuf \<Rightarrow> (l2_ret \<times> nat \<times> umesh_l2_pbuf) option" where
  "parse_data_crc m header_len pos len pbuf =
     (if len < 2 then Some (L2_NO_DATA, pos, pbuf)
      else if len - 2 > length (pb_data pbuf) then Some (L2_TOO_BIG, pos, pbuf)
      else case mem_read m (pos + len - 2) 2 of None \<Rightarrow> None | Some c \<Rightarrow>
        (case mem_read m 0 (len - 2 + header_len) of None \<Rightarrow> None | Some checked \<Rightarrow>
          let crc_packet = push_bit 8 (ucast (c ! 0)) OR ucast (c ! 1) in
          if crc_packet \<noteq> crc16 checked then Some (L2_AE_FAILED, pos, pbuf)
          else case mem_read m pos (len - 2) of None \<Rightarrow> None | Some bytes \<Rightarrow>
            (case mem_write (pb_data pbuf) 0 bytes of None \<Rightarrow> None | Some d \<Rightarrow>
               Some (L2_OK, pos + len, pbuf\<lparr>pb_len := len - 2, pb_data := d,
                 pb_sec_type := UMESH_L2_PBUF_SECURITY_VERIFY\<rparr>))))"

definition umesh_poly_key :: "u16 \<Rightarrow> u8 list" where
  "umesh_poly_key counter =
     (case umesh_l2_get_ctr_keystream 32 umesh_test_key 32 (ucast counter) 0 UMESH_L2_ENC_ALGO_CHACHA20 of
        Some k \<Rightarrow> k | None \<Rightarrow> replicate 32 0)"

definition parse_data_ae ::
  "u8 list \<Rightarrow> nat \<Rightarrow> nat \<Rightarrow> nat \<Rightarrow> umesh_l2_pbuf \<Rightarrow> (l2_ret \<times> nat \<times> umesh_l2_pbuf) option" where
  "parse_data_ae m header_len pos len pbuf =
     (let tag_len = 4 in
      if len < 2 + tag_len then Some (L2_NO_DATA, pos, pbuf)
      else case umesh_l2_parse_counter m pos len (pb_counter pbuf) of None \<Rightarrow> None
      | Some (r, pos, len, counter) \<Rightarrow>
          let pbuf = pbuf\<lparr>pb_counter := counter\<rparr> in
          if r \<noteq> L2_OK then Some (L2_FAILED, pos, pbuf)
          else case mem_read m 0 (header_len + 2 + len - tag_len) of None \<Rightarrow> None | Some checked \<Rightarrow>
            (case mem_read m (pos + len - tag_len) tag_len of None \<Rightarrow> None | Some tag \<Rightarrow>
              if \<not> umesh_l2_data_authenticate checked (umesh_poly_key counter) 16 tag tag_len
                UMESH_L2_AUTH_ALGO_POLY1305
              then Some (L2_AE_FAILED, pos, pbuf)
              else
                let pbuf = pbuf\<lparr>pb_sec_type := UMESH_L2_PBUF_SECURITY_AE, pb_len := len - tag_len\<rparr> in
                (case mem_read m pos (pb_len pbuf) of None \<Rightarrow> None | Some src \<Rightarrow>
                  let (ok, d) = umesh_l2_decrypt (pb_data pbuf) src umesh_test_key 32
                        (ucast (pb_counter pbuf)) UMESH_L2_ENC_ALGO_CHACHA20
                  in Some (L2_OK, if ok then pos + pb_len pbuf else pos, pbuf\<lparr>pb_data := d\<rparr>))))"

text \<open>\<open>header_len\<close> is cut to eight bits by the code.\<close>

definition umesh_l2_parse_data ::
  "u8 list \<Rightarrow> nat \<Rightarrow> nat \<Rightarrow> umesh_l2_pbuf \<Rightarrow> (l2_ret \<times> nat \<times> umesh_l2_pbuf) option" where
  "umesh_l2_parse_data m pos len pbuf =
     (if \<not> pos > 0 then Some (L2_FAILED, pos, pbuf)
      else
        let pbuf = pbuf\<lparr>pb_sec_type := UMESH_L2_PBUF_SECURITY_NONE\<rparr>;
            header_len = pos mod 256;
            algo = pb_sec_algo pbuf
        in
        if algo = SECURITY_ALGO_NONE then parse_data_plain m pos len pbuf
        else if algo = SECURITY_ALGO_CRC16_CCITT then parse_data_crc m header_len pos len pbuf
        else if algo = SECURITY_ALGO_CHACHA20_POLY1305_2 \<or> algo = SECURITY_ALGO_CHACHA20_POLY1305_4
        then parse_data_ae m header_len pos len pbuf
        else Some (L2_UNSUPPORTED, pos, pbuf))"

text \<open>Building; \<open>key\<close> is the key pointer, which is only compared with \<open>NULL\<close>.\<close>

definition build_data_plain ::
  "umesh_l2_pbuf \<Rightarrow> u8 list \<Rightarrow> nat \<Rightarrow> nat \<Rightarrow> (l2_ret \<times> u8 list \<times> nat) option" where
  "build_data_plain pbuf m pos len =
     (if pb_len pbuf > len then Some (L2_BUFFER_SMALL, m, pos)
      else case mem_read (pb_data pbuf) 0 (pb_len pbuf) of None \<Rightarrow> None | Some d \<Rightarrow>
        (case mem_write m pos d of None \<Rightarrow> None | Some m \<Rightarrow> Some (L2_OK, m, pos + pb_len pbuf)))"

definition build_data_crc ::
  "umesh_l2_pbuf \<Rightarrow> u8 list \<Rightarrow> nat \<Rightarrow> nat \<Rightarrow> nat \<Rightarrow> (l2_ret \<times> u8 list \<times> nat) option" where
  "build_data_crc pbuf m header_len pos len =
     (if len < 2 then Some (L2_BUFFER_SMALL, m, pos)
      else if pb_len pbuf + 2 > len then Some (L2_BUFFER_SMALL, m, pos)
      else case mem_read (pb_data pbuf) 0 (pb_len pbuf) of None \<Rightarrow> None | Some d \<Rightarrow>
        (case mem_write m pos d of None \<Rightarrow> None | Some m \<Rightarrow>
          let pos = pos + pb_len pbuf; len = len - pb_len pbuf in
          if len < 2 then Some (L2_BUFFER_SMALL, m, pos)
          else case mem_read m 0 (header_len + pb_len pbuf) of None \<Rightarrow> None | Some checked \<Rightarrow>
            let crc = crc16 checked in
            (case mem_write m pos [ucast (drop_bit 8 crc)] of None \<Rightarrow> None | Some m \<Rightarrow>
              (case mem_write m (pos + 1) [ucast (crc AND 0xff)] of None \<Rightarrow> None | Some m \<Rightarrow>
                Some (L2_OK, m, pos + 2)))))"

definition build_data_ae ::
  "umesh_l2_pbuf \<Rightarrow> u8 list \<Rightarrow> nat \<Rightarrow> nat \<Rightarrow> nat \<Rightarrow> u8 list option \<Rightarrow> nat \<Rightarrow> (l2_ret \<times> u8 list \<times> nat) option" where
  "build_data_ae pbuf m header_len pos len key key_len =
     (let tag_len = 4 in
      if len < 2 + tag_len + pb_len pbuf then Some (L2_BUFFER_SMALL, m, pos)
      else if key = None \<or> (key_len \<noteq> 16 \<and> key_len \<noteq> 32) then Some (L2_FAILED, m, pos)
      else case mem_write m pos [ucast (drop_bit 8 (pb_counter pbuf))] of None \<Rightarrow> None | Some m \<Rightarrow>
        (case mem_write m (pos + 1) [ucast (pb_counter pbuf AND 0xff)] of None \<Rightarrow> None | Some m \<Rightarrow>
          (case mem_read (pb_data pbuf) 0 (pb_len pbuf) of None \<Rightarrow> None | Some d \<Rightarrow>
            let pos = pos + 2;
                cipher = ctr_xor (umesh_ctr_block umesh_test_key 32 (ucast (pb_counter pbuf))) 64 1 d
            in
            (case mem_write m pos cipher of None \<Rightarrow> None | Some m \<Rightarrow>
              (case mem_read m 0 (header_len + 2 + pb_len pbuf) of None \<Rightarrow> None | Some checked \<Rightarrow>
                let pos = pos + pb_len pbuf;
                    tag = take tag_len (poly1305 checked (umesh_poly_key (pb_counter pbuf)))
                in
                (case mem_write m pos tag of None \<Rightarrow> None | Some m \<Rightarrow>
                  Some (L2_OK, m, pos + tag_len)))))))"

definition umesh_l2_build_data ::
  "umesh_l2_pbuf \<Rightarrow> u8 list \<Rightarrow> nat \<Rightarrow> nat \<Rightarrow> u8 list option \<Rightarrow> nat \<Rightarrow> (l2_ret \<times> u8 list \<times> nat) option" where
  "umesh_l2_build_data pbuf m pos len key key_len =
     (let header_len = pos mod 256; algo = pb_sec_algo pbuf in
      if algo = SECURITY_ALGO_NONE then build_data_plain pbuf m pos len
      else if algo = SECURITY_ALGO_CRC16_CCITT then build_data_crc pbuf m header_len pos len
      else if algo = SECURITY_ALGO_CHACHA20_POLY1305_2 \<or> algo = SECURITY_ALGO_CHACHA20_POLY1305_4
      then build_data_ae pbuf m header_len pos len key key_len
      else Some (L2_UNSUPPORTED, m, pos))"

end
