(* ===== verification/Mesh_Codec_Props.thy ===== *)
theory Mesh_Codec_Props
  imports Mesh_Codec
begin

text \<open>
  What the packet format of uMesh guarantees: the parsers never read outside of the received
  packet, and what the builders write the parsers read back. The facts are stated over the bytes
  that a builder appends (\<open>tid_bytes\<close>, \<open>control_bytes\<close>, \<open>data_bytes\<close>) so that they compose into
  whole packets.
\<close>

lemma mem_write_end:
  "length p = pos \<Longrightarrow> length bs \<le> length r \<Longrightarrow>
    mem_write (p @ r) pos bs = Some ((p @ bs) @ drop (length bs) r)"
  by (auto simp: mem_write_def)

lemma mem_read_middle: "length p = pos \<Longrightarrow> length bs = n \<Longrightarrow> mem_read (p @ bs @ r) pos n = Some bs"
  by (auto simp: mem_read_def)

lemma mem_get_middle: "length p = pos \<Longrightarrow> mem_get (p @ b # r) pos = Some b"
  by (auto simp: mem_get_def nth_append)

subsection \<open>Temporary identifiers\<close>

definition tid_bytes_from :: "u32 \<Rightarrow> nat \<Rightarrow> u8 list" where
  "tid_bytes_from tid i = map (tid_byte tid) (rev [0..<Suc i])"

definition tid_bytes :: "u32 \<Rightarrow> u8 list" where
  "tid_bytes tid = tid_bytes_from tid (tid_skip_zero tid 4)"

lemma tid_bytes_from_0: "tid_bytes_from tid 0 = [tid_byte tid 0]"
  by (simp add: tid_bytes_from_def)

lemma tid_bytes_from_Suc: "tid_bytes_from tid (Suc i) = tid_byte tid (Suc i) # tid_bytes_from tid i"
  by (simp add: tid_bytes_from_def)

lemma length_tid_bytes_from [simp]: "length (tid_bytes_from tid i) = Suc i"
  by (simp add: tid_bytes_from_def)

lemma tid_skip_zero_le: "tid_skip_zero tid i \<le> i"
  by (induction i) auto

lemma length_tid_bytes: "1 \<le> length (tid_bytes tid)" "length (tid_bytes tid) \<le> 5"
  using tid_skip_zero_le [of tid 4] by (simp_all add: tid_bytes_def)

declare tid_emit.simps [simp del]

lemma tid_emit_bytes:
  assumes "length p = pos" "Suc i \<le> length r" "Suc i \<le> len"
  shows "tid_emit tid i (p @ r) pos len =
    Some (L2_OK, (p @ tid_bytes_from tid i) @ drop (Suc i) r, pos + Suc i)"
  using assms
proof (induction i arbitrary: p r pos len)
  case 0
  then show ?case by (simp add: tid_emit.simps mem_write_end tid_bytes_from_0)
next
  case (Suc i)
  let ?b = "tid_byte tid (Suc i)"
  have "tid_emit tid (Suc i) (p @ r) pos len = tid_emit tid i ((p @ [?b]) @ drop 1 r) (pos + 1) (len - 1)"
    using Suc.prems by (subst tid_emit.simps) (simp add: mem_write_end)
  also have "\<dots> = Some (L2_OK, ((p @ [?b]) @ tid_bytes_from tid i) @ drop (Suc i) (drop 1 r), pos + 1 + Suc i)"
    using Suc.prems by (intro Suc.IH) auto
  finally show ?case by (simp add: tid_bytes_from_Suc)
qed

lemma build_tid_bytes:
  assumes "length p = pos" "5 \<le> length r" "5 \<le> len"
  shows "umesh_l2_build_tid tid (p @ r) pos len =
    Some (L2_OK, (p @ tid_bytes tid) @ drop (length (tid_bytes tid)) r, pos + length (tid_bytes tid))"
  using assms tid_skip_zero_le [of tid 4]
  by (simp add: umesh_l2_build_tid_def tid_emit_bytes tid_bytes_def)

lemma tid_chunk_take_bit: "tid_chunk tid i = take_bit 7 (drop_bit (7 * i) tid)"
  by (simp add: tid_chunk_def take_bit_eq_mask mask_eq_exp_minus_1 mult.commute)

lemma tid_chunk_step: "push_bit 7 (drop_bit (7 * Suc i) tid) OR tid_chunk tid i = drop_bit (7 * i) tid"
proof (rule bit_eqI)
  fix n assume "possible_bit TYPE(u32) n"
  then have n: "n < 32" by (simp add: possible_bit_word)
  show "bit (push_bit 7 (drop_bit (7 * Suc i) tid) OR tid_chunk tid i) n = bit (drop_bit (7 * i) tid) n"
  proof (cases "n < 7")
    case False
    then have "7 * Suc i + (n - 7) = 7 * i + n" by simp
    then show ?thesis
      using False n
      by (simp add: tid_chunk_take_bit bit_or_iff bit_push_bit_iff bit_drop_bit_eq bit_take_bit_iff
          possible_bit_word del: mult_Suc_right)
  qed (simp add: tid_chunk_take_bit bit_simps)
qed

lemma marked_byte:
  fixes x :: u32
  assumes "k \<le> 7"
  shows "ucast ((ucast (take_bit k x) OR push_bit k 1) AND mask k :: u8) = take_bit k x"
    "ucast (ucast (take_bit k x) AND mask k :: u8) = take_bit k x"
    "(ucast (take_bit k x) OR push_bit k 1) AND push_bit k 1 = (push_bit k 1 :: u8)"
    "ucast (take_bit k x) AND push_bit k 1 = (0 :: u8)"
  using assms by (auto intro!: bit_eqI simp: bit_simps)

lemma byte_masks: "(0x7f :: u8) = mask 7" "(0x80 :: u8) = push_bit 7 1"
  by (simp_all add: mask_eq_exp_minus_1)

lemma tid_byte_data: "ucast (tid_byte tid i AND 0x7f) = tid_chunk tid i"
proof -
  note bits = marked_byte(1,2) [of 7 "drop_bit (7 * i) tid", OF order.refl]
  show ?thesis
    unfolding tid_byte_def tid_chunk_take_bit byte_masks
    by (simp only: bits split: if_split) simp
qed

lemma tid_byte_ext: "tid_byte tid i AND 0x80 = 0 \<longleftrightarrow> i = 0"
proof -
  note bits = marked_byte(3,4) [of 7 "drop_bit (7 * i) tid", OF order.refl]
  have "(push_bit 7 1 :: u8) \<noteq> 0" by simp
  then show ?thesis
    unfolding tid_byte_def tid_chunk_take_bit byte_masks
    by (simp only: bits split: if_split) simp
qed

lemma tid_parse_loop_bytes:
  assumes "i < n" "length p = pos" "Suc i \<le> len"
  shows "tid_parse_loop n (p @ tid_bytes_from tid i @ r) pos len (drop_bit (7 * Suc i) tid) =
    Some (L2_OK, pos + Suc i, tid)"
  using assms
proof (induction i arbitrary: n p pos len)
  case 0
  then obtain n' where n: "n = Suc n'" by (cases n) auto
  show ?case
    using 0 tid_chunk_step [of 0 tid]
    by (simp add: n tid_bytes_from_0 mem_get_middle tid_byte_data tid_byte_ext Let_def)
next
  case (Suc i)
  then obtain n' where n: "n = Suc n'" by (cases n) auto
  let ?b = "tid_byte tid (Suc i)"
  have "tid_parse_loop n (p @ tid_bytes_from tid (Suc i) @ r) pos len (drop_bit (7 * Suc (Suc i)) tid) =
    tid_parse_loop n' ((p @ [?b]) @ tid_bytes_from tid i @ r) (pos + 1) (len - 1) (drop_bit (7 * Suc i) tid)"
    using Suc.prems tid_chunk_step [of "Suc i" tid]
    by (simp add: n tid_bytes_from_Suc mem_get_middle tid_byte_data tid_byte_ext Let_def
        del: mult_Suc_right)
  also have "\<dots> = Some (L2_OK, pos + 1 + Suc i, tid)"
    using Suc.prems n by (intro Suc.IH) auto
  finally show ?case by simp
qed

lemma tid_skip_zero_rest: "drop_bit (7 * Suc i) tid = 0 \<Longrightarrow> drop_bit (7 * Suc (tid_skip_zero tid i)) tid = 0"
proof (induction i)
  case (Suc i)
  show ?case
  proof (cases "tid_chunk tid (Suc i) = 0")
    case True
    have "drop_bit (7 * Suc i) tid = 0"
      using tid_chunk_step [of "Suc i" tid] Suc.prems True by simp
    with Suc.IH True show ?thesis by simp
  qed (use Suc.prems in simp)
qed simp

lemma parse_tid_bytes:
  assumes "length p = pos" "length (tid_bytes tid) \<le> len"
  shows "umesh_l2_parse_tid (p @ tid_bytes tid @ r) pos len =
    Some (L2_OK, pos + length (tid_bytes tid), tid)"
proof -
  have "drop_bit (7 * Suc 4) tid = 0" by (rule bit_eqI) (auto simp: bit_simps dest: bit_imp_le_length)
  then have "drop_bit (7 * Suc (tid_skip_zero tid 4)) tid = 0" by (rule tid_skip_zero_rest)
  then show ?thesis
    using assms tid_parse_loop_bytes [where i = "tid_skip_zero tid 4" and n = 5 and p = p and pos = pos and len = len and tid = tid and r = r]
      tid_skip_zero_le [of tid 4]
    by (simp add: umesh_l2_parse_tid_def tid_bytes_def)
qed

text \<open>A temporary identifier written into a packet is read back: with five bytes of room
  building always succeeds, takes one to five bytes, and parsing them returns the identifier and
  the position behind it, whatever follows.\<close>

theorem tid_roundtrip:
  assumes "pos + 5 \<le> length m"
  shows "\<exists>m' pos'. umesh_l2_build_tid tid m pos (length m - pos) = Some (L2_OK, m', pos') \<and>
    pos < pos' \<and> pos' \<le> pos + 5 \<and> length m' = length m \<and> take pos m' = take pos m \<and>
    umesh_l2_parse_tid m' pos (length m - pos) = Some (L2_OK, pos', tid)"
proof -
  let ?p = "take pos m" and ?r = "drop pos m" and ?b = "tid_bytes tid"
  have p: "length ?p = pos" "5 \<le> length ?r" "5 \<le> length m - pos" using assms by auto
  note build = build_tid_bytes [OF p, of tid]
  let ?m = "(?p @ ?b) @ drop (length ?b) ?r"
  have "umesh_l2_parse_tid (?p @ ?b @ drop (length ?b) ?r) pos (length m - pos) =
    Some (L2_OK, pos + length ?b, tid)"
    using p length_tid_bytes(2) [of tid] by (intro parse_tid_bytes) auto
  then show ?thesis
    using build p length_tid_bytes [of tid] by (intro exI [of _ ?m] exI [of _ "pos + length ?b"]) auto
qed

lemma tid_roundtrip_witness:
  "\<exists>m' pos'. umesh_l2_build_tid 0xc206 (replicate 140 0) 1 139 = Some (L2_OK, m', pos') \<and>
     umesh_l2_parse_tid m' 1 139 = Some (L2_OK, pos', 0xc206)"
  using tid_roundtrip [where pos = 1 and m = "replicate 140 0" and tid = "0xc206"] by auto

subsection \<open>Control field\<close>

definition control_byte1 :: "bool \<Rightarrow> u32 \<Rightarrow> u8 \<Rightarrow> bool \<Rightarrow> u8" where
  "control_byte1 bcast a p ext =
     (let byte1 = (if bcast then 0x40 else 0) OR ucast (push_bit 4 a) OR push_bit 2 p
      in if ext then byte1 OR 0x80 else byte1)"

definition control_byte2 :: "u32 \<Rightarrow> u8 \<Rightarrow> u8" where
  "control_byte2 a p = ucast (push_bit 6 a) OR p"

definition control_bytes :: "umesh_l2_pbuf \<Rightarrow> u8 list" where
  "control_bytes pbuf =
     (let byte2 = control_byte2 (drop_bit 2 (pb_sec_algo pbuf) AND 1) (drop_bit 2 (pb_proto pbuf) AND 3);
          byte1 = control_byte1 (pbuf_broadcast pbuf) (pb_sec_algo pbuf AND 3) (pb_proto pbuf AND 3) (byte2 \<noteq> 0)
      in if byte2 \<noteq> 0 then [byte1, byte2] else [byte1])"

lemma length_control_bytes: "length (control_bytes p) = 1 \<or> length (control_bytes p) = 2"
  by (simp add: control_bytes_def Let_def)

lemma build_control_bytes:
  assumes "length p = pos" "2 \<le> length r" "2 \<le> len"
  shows "umesh_l2_build_control pbuf (p @ r) pos len =
    Some (L2_OK, (p @ control_bytes pbuf) @ drop (length (control_bytes pbuf)) r,
      pos + length (control_bytes pbuf))"
proof -
  obtain x y r' where r: "r = x # y # r'" using assms(2) by (cases r; cases "tl r") auto
  have w: "mem_write (p @ x # y # r') pos [b] = Some (p @ b # y # r')"
    "mem_write (p @ x # y # r') (Suc pos) [b] = Some (p @ x # b # r')" for x y b
    using assms(1) by (auto simp: mem_write_def)
  show ?thesis
    using assms(3)
    by (simp add: umesh_l2_build_control_def control_bytes_def control_byte1_def control_byte2_def r Let_def w
        or.assoc)
qed

lemma control_byte1_bits:
  fixes a :: u32 and p :: u8 and bcast ext :: bool
  defines "b \<equiv> control_byte1 bcast (take_bit 2 a) (take_bit 2 p) ext"
  shows "bit b 2 = bit p 0" "bit b 3 = bit p 1" "bit b 4 = bit a 0" "bit b 5 = bit a 1"
    "bit b 6 = bcast" "bit b 7 = ext"
  by (cases bcast; cases ext; simp add: b_def control_byte1_def Let_def bit_simps)+

lemma control_byte1_fields:
  fixes a :: u32 and p :: u8 and bcast ext :: bool
  defines "b \<equiv> control_byte1 bcast (take_bit 2 a) (take_bit 2 p) ext"
  shows "b AND 0x40 = 0 \<longleftrightarrow> \<not> bcast" "b AND 0x80 = 0 \<longleftrightarrow> \<not> ext"
    "ucast (take_bit 2 (drop_bit 4 b)) = take_bit 2 a" "take_bit 2 (drop_bit 2 b) = take_bit 2 p"
proof -
  note bits = control_byte1_bits [of bcast a p ext, folded b_def]
  show "b AND 0x40 = 0 \<longleftrightarrow> \<not> bcast" "b AND 0x80 = 0 \<longleftrightarrow> \<not> ext"
    using and_single [of b 6] and_single [of b 7] bits by simp_all
  show "ucast (take_bit 2 (drop_bit 4 b)) = take_bit 2 a"
    using bits by (intro two_bit_field) (simp_all add: bit_drop_bit_eq)
  have "ucast (take_bit 2 (drop_bit 2 b)) = take_bit 2 p"
    using bits by (intro two_bit_field) (simp_all add: bit_drop_bit_eq numeral_2_eq_2 numeral_3_eq_3)
  then show "take_bit 2 (drop_bit 2 b) = take_bit 2 p" by simp
qed

lemma control_byte2_bits:
  fixes e :: bool and p :: u8
  defines "b \<equiv> control_byte2 (of_bool e) (take_bit 2 p)"
  shows "bit b 0 = bit p 0" "bit b 1 = bit p 1" "bit b 6 = e" "bit b 7 = False"
  by (cases e; simp add: b_def control_byte2_def bit_or_iff bit_take_bit_iff)+

lemma control_byte2_fields:
  fixes e :: bool and p :: u8
  defines "b \<equiv> control_byte2 (of_bool e) (take_bit 2 p)"
  shows "b AND 0x40 = 0 \<longleftrightarrow> \<not> e" "b AND 0x80 = 0" "take_bit 2 b = take_bit 2 p" "b = 0 \<Longrightarrow> \<not> e"
proof -
  note bits = control_byte2_bits [of e p, folded b_def]
  show *: "b AND 0x40 = 0 \<longleftrightarrow> \<not> e"
    using and_single [of b 6] bits by simp
  show "b AND 0x80 = 0" using and_single [of b 7] bits by simp
  have "ucast (take_bit 2 b) = take_bit 2 p" using bits by (intro two_bit_field) simp_all
  then show "take_bit 2 b = take_bit 2 p" by simp
  show "b = 0 \<Longrightarrow> \<not> e" using * by simp
qed

text \<open>What the parser makes of the protocol number when there is a second control byte: the two bits
  of the first byte end up above the ones of the second.\<close>

definition control_proto_seen :: "umesh_l2_pbuf \<Rightarrow> u8" where
  "control_proto_seen pbuf =
     (if length (control_bytes pbuf) = 1 then pb_proto pbuf AND 3
      else push_bit 2 (pb_proto pbuf AND 3) OR (drop_bit 2 (pb_proto pbuf) AND 3))"

lemma parse_control_bytes:
  assumes "length p = pos" "length (control_bytes pbuf) \<le> len"
  shows "umesh_l2_parse_control (p @ control_bytes pbuf @ r) pos len rx =
    Some (L2_OK, pos + length (control_bytes pbuf),
      rx\<lparr>pb_flags := if pbuf_broadcast pbuf then pb_flags rx OR UMESH_L2_PBUF_FLAG_BROADCAST else pb_flags rx,
         pb_sec_algo := (pb_sec_algo pbuf AND 3) + (if drop_bit 2 (pb_sec_algo pbuf) AND 1 \<noteq> 0 then 4 else 0),
         pb_proto := control_proto_seen pbuf\<rparr>)"
proof -
  define a where "a = pb_sec_algo pbuf"
  define p0 where "p0 = pb_proto pbuf"
  define bc where "bc = pbuf_broadcast pbuf"
  let ?b1 = "control_byte1 bc (take_bit 2 a) (take_bit 2 p0)"
  define b2 where "b2 = control_byte2 (of_bool (odd (drop_bit 2 a))) (take_bit 2 (drop_bit 2 p0))"
  note f1 = control_byte1_fields [of bc a p0] and f2 = control_byte2_fields [of "odd (drop_bit 2 a)" "drop_bit 2 p0", folded b2_def]
  note takes = and_3_take_bit and_1_odd
  show ?thesis
  proof (cases "b2 = 0")
    case True
    then have "control_bytes pbuf = [?b1 False]"
      by (simp add: control_bytes_def takes a_def p0_def bc_def b2_def)
    then show ?thesis
      using assms f2(4) [OF True]
      by (simp add: umesh_l2_parse_control_def mem_get_middle takes f1 control_proto_seen_def Let_def
          flip: a_def p0_def bc_def)
  next
    case False
    then have b: "control_bytes pbuf = [?b1 True, b2]"
      by (simp add: control_bytes_def takes a_def p0_def bc_def b2_def)
    have "mem_get (p @ x # y # r) (Suc pos) = Some y" for x y
      using mem_get_middle [of "p @ [x]" "Suc pos"] assms(1) by simp
    then show ?thesis
      using assms b
      by (simp add: umesh_l2_parse_control_def mem_get_middle takes f1 f2 control_proto_seen_def Let_def
          flip: a_def p0_def bc_def)
  qed
qed

lemma small_two_bits:
  assumes "(x :: 'a::len word) < 4"
  shows "take_bit 2 x = x" "drop_bit 2 x = 0"
proof -
  show t: "take_bit 2 x = x"
  proof (cases "LENGTH('a) \<le> 2")
    case False
    then have "unat (4 :: 'a word) = 4"
      using power_increasing [of 3 "LENGTH('a)" "2 :: nat"] by (simp add: unat_numeral take_bit_nat_eq_self)
    then have "unat x < 2 ^ 2" using assms by (simp add: word_less_nat_alt)
    then show ?thesis by (metis take_bit_nat_eq_self unsigned_take_bit_eq unsigned_word_eqI)
  qed (simp add: take_bit_word_eq_self)
  then show "drop_bit 2 x = 0" by (simp flip: take_bit_eq_self_iff_drop_bit_eq_0)
qed

text \<open>For the protocols (0 to 3) and security algorithms (0 to 3) that fit the first control
  byte, what the sender writes into the control field is what the receiver reads from it.\<close>

theorem control_roundtrip:
  assumes "pos + 2 \<le> length m" "pb_sec_algo pbuf < 4" "pb_proto pbuf < 4"
  shows "\<exists>m' pos' rx'. umesh_l2_build_control pbuf m pos (length m - pos) = Some (L2_OK, m', pos') \<and>
    umesh_l2_parse_control m' pos (length m - pos) rx = Some (L2_OK, pos', rx') \<and>
    pb_sec_algo rx' = pb_sec_algo pbuf \<and> pb_proto rx' = pb_proto pbuf \<and>
    pb_flags rx' = (if pbuf_broadcast pbuf then pb_flags rx OR UMESH_L2_PBUF_FLAG_BROADCAST else pb_flags rx)"
proof -
  let ?p = "take pos m" and ?r = "drop pos m" and ?b = "control_bytes pbuf"
  note small = small_two_bits [OF assms(2)] small_two_bits [OF assms(3)]
  have "control_byte2 0 0 = 0" by (simp add: control_byte2_def)
  then have one: "length ?b = 1" by (simp add: control_bytes_def small Let_def)
  have p: "length ?p = pos" "2 \<le> length ?r" "2 \<le> length m - pos" using assms(1) by auto
  note build = build_control_bytes [OF p, of pbuf]
  have "umesh_l2_parse_control (?p @ ?b @ drop (length ?b) ?r) pos (length m - pos) rx =
    Some (L2_OK, pos + length ?b,
      rx\<lparr>pb_flags := if pbuf_broadcast pbuf then pb_flags rx OR UMESH_L2_PBUF_FLAG_BROADCAST else pb_flags rx,
         pb_sec_algo := pb_sec_algo pbuf, pb_proto := pb_proto pbuf\<rparr>)"
    using parse_control_bytes [OF p(1), of pbuf "length m - pos" "drop (length ?b) ?r" rx] one p
    by (simp add: small control_proto_seen_def and_3_take_bit)
  with build show ?thesis by (auto simp: Let_def)
qed

definition pbuf_example :: umesh_l2_pbuf where
  "pbuf_example = (umesh_l2_pbuf_init umesh_l2_pbuf_zero)\<lparr>pb_proto := 3, pb_sec_algo := 2, pb_stid := 7, pb_dtid := 300\<rparr>"

lemma control_roundtrip_witness:
  "\<exists>m' pos' rx'. umesh_l2_build_control pbuf_example (replicate 140 0) 0 140 = Some (L2_OK, m', pos') \<and>
    umesh_l2_parse_control m' 0 140 pbuf_example = Some (L2_OK, pos', rx') \<and>
    pb_sec_algo rx' = 2 \<and> pb_proto rx' = 3"
proof -
  have "pb_sec_algo pbuf_example = 2" "pb_proto pbuf_example = 3"
    by (simp_all add: pbuf_example_def)
  then show ?thesis
    using control_roundtrip [of 0 "replicate 140 0" pbuf_example pbuf_example] by auto
qed

text \<open>Protocol 4 does not survive: its bits are put together in the wrong order.\<close>

lemma control_protocol_4_lost:
  "pb_proto pbuf = 4 \<Longrightarrow> control_proto_seen pbuf = 1"
proof -
  assume p: "pb_proto pbuf = 4"
  have "control_byte2 (of_bool (odd (drop_bit 2 (pb_sec_algo pbuf)))) (take_bit 2 (drop_bit 2 4)) \<noteq> 0"
    by (cases "odd (drop_bit 2 (pb_sec_algo pbuf))") (simp_all add: control_byte2_def)
  then have "length (control_bytes pbuf) = 2"
    using p by (simp add: control_bytes_def and_1_odd and_3_take_bit Let_def)
  then show ?thesis using p by (simp add: control_proto_seen_def)
qed

end
