(* ===== verification/Mesh_Data_Props.thy ===== *)
theory Mesh_Data_Props
  imports Mesh_Codec_Props
begin

text \<open>
  The data part of a uMesh packet: the parser stays inside the packet and the packet buffer, what
  is built in each of the three security modes is read back, and a damaged packet with a
  checksum is refused. The one failure of the encrypted mode, the counter value 0, is stated as
  the code has it.
\<close>

subsection \<open>Parsing stays inside of the packet\<close>

lemma parse_control_safe:
  assumes "pos + len \<le> length m"
  shows "\<exists>r pos' p'. umesh_l2_parse_control m pos len p = Some (r, pos', p') \<and>
    pos \<le> pos' \<and> pos' \<le> pos + len \<and> (r = L2_OK \<longrightarrow> pos < pos') \<and> pb_data p' = pb_data p \<and> pb_len p' = pb_len p \<and>
    pb_stid p' = pb_stid p \<and> pb_dtid p' = pb_dtid p"
proof (cases "len < 1")
  case True
  then show ?thesis by (simp add: umesh_l2_parse_control_def)
next
  case False
  then have "pos < length m" using assms by simp
  moreover have "2 \<le> len \<Longrightarrow> Suc pos < length m" using assms by simp
  ultimately show ?thesis
    using False by (cases "len = 1") (auto simp: umesh_l2_parse_control_def Let_def mem_get_def)
qed

lemma parse_tid_loop_safe:
  "pos + len \<le> length m \<Longrightarrow>
    \<exists>r pos' t. tid_parse_loop n m pos len tid = Some (r, pos', t) \<and> pos \<le> pos' \<and> pos' \<le> pos + len"
proof (induction n arbitrary: pos len tid)
  case 0
  then show ?case by simp
next
  case (Suc n)
  show ?case
  proof (cases "len < 1")
    case False
    then have get: "mem_get m pos = Some (m ! pos)" using Suc.prems by (simp add: mem_get_def)
    show ?thesis
      using Suc.IH [of "pos + 1" "len - 1" "push_bit 7 tid OR ucast (m ! pos AND 0x7f)"] Suc.prems False
      by (cases "m ! pos AND 0x80 = 0") (auto simp: get Let_def)
  qed simp
qed

lemma parse_tid_safe:
  "pos + len \<le> length m \<Longrightarrow>
    \<exists>r pos' t. umesh_l2_parse_tid m pos len = Some (r, pos', t) \<and> pos \<le> pos' \<and> pos' \<le> pos + len"
  unfolding umesh_l2_parse_tid_def by (rule parse_tid_loop_safe)

lemma mem_write_0:
  "length bs \<le> length d \<Longrightarrow> mem_write d 0 bs = Some (bs @ drop (length bs) d)"
  by (simp add: mem_write_def)

lemma length_decrypt:
  "umesh_l2_decrypt d src k kl n a = (ok, d') \<Longrightarrow> length d' = length d"
  by (auto simp: umesh_l2_decrypt_def split: if_splits)

lemma parse_data_safe:
  assumes "pos + len \<le> length m" "len \<le> length (pb_data p)"
  shows "\<exists>r pos' p'. umesh_l2_parse_data m pos len p = Some (r, pos', p') \<and>
    pos \<le> pos' \<and> pos' \<le> pos + len \<and> length (pb_data p') = length (pb_data p) \<and>
    (r = L2_OK \<longrightarrow> pb_len p' \<le> len) \<and> pb_stid p' = pb_stid p \<and> pb_dtid p' = pb_dtid p \<and>
    pb_flags p' = pb_flags p \<and> pb_proto p' = pb_proto p"
proof -
  let ?p = "p\<lparr>pb_sec_type := UMESH_L2_PBUF_SECURITY_NONE\<rparr>"
  have h: "pos mod 256 \<le> pos" by simp
  have plain: ?thesis if "pos > 0" "pb_sec_algo p = SECURITY_ALGO_NONE"
    using that assms
    by (simp add: umesh_l2_parse_data_def parse_data_plain_def Let_def mem_read_def mem_write_0)
  have crc: ?thesis if "pos > 0" "pb_sec_algo p = SECURITY_ALGO_CRC16_CCITT"
    using that assms h
    by (auto simp: umesh_l2_parse_data_def parse_data_crc_def Let_def mem_read_def mem_write_0)
  have ae: ?thesis if "pos > 0"
    "pb_sec_algo p = SECURITY_ALGO_CHACHA20_POLY1305_2 \<or> pb_sec_algo p = SECURITY_ALGO_CHACHA20_POLY1305_4"
  proof (cases "len < 6")
    case True
    then show ?thesis
      using that by (auto simp: umesh_l2_parse_data_def parse_data_ae_def)
  next
    case False
    obtain cnt where cnt: "umesh_l2_parse_counter m pos len (pb_counter ?p) = Some (L2_OK, pos + 2, len - 2, cnt)"
      using False assms by (simp add: umesh_l2_parse_counter_def mem_read_def)
    define n where "n = len - 6"
    have len: "len = n + 6" using False by (simp add: n_def)
    obtain ok d where dec: "umesh_l2_decrypt (pb_data p) (take n (drop (pos + 2) m)) umesh_test_key 32
        (ucast cnt) UMESH_L2_ENC_ALGO_CHACHA20 = (ok, d)" by fastforce
    show ?thesis
      using that assms h cnt dec length_decrypt [OF dec]
      by (auto simp: umesh_l2_parse_data_def parse_data_ae_def Let_def mem_read_def len)
  qed
  show ?thesis
  proof (cases "pos > 0")
    case True
    then show ?thesis
      using plain crc ae by (cases "pb_sec_algo p = SECURITY_ALGO_NONE \<or>
        pb_sec_algo p = SECURITY_ALGO_CRC16_CCITT \<or>
        pb_sec_algo p = SECURITY_ALGO_CHACHA20_POLY1305_2 \<or>
        pb_sec_algo p = SECURITY_ALGO_CHACHA20_POLY1305_4") (auto simp: umesh_l2_parse_data_def Let_def)
  qed (simp add: umesh_l2_parse_data_def)
qed

subsection \<open>What is built is read back\<close>

definition u16_bytes :: "u16 \<Rightarrow> u8 list" where
  "u16_bytes c = [ucast (drop_bit 8 c), ucast (c AND 0xff)]"

lemma u16_bytes_join: "push_bit 8 (ucast (u16_bytes c ! 0)) OR ucast (u16_bytes c ! 1) = (c :: u16)"
proof (rule bit_eqI)
  have m: "(0xff :: u16) = mask 8" by (simp add: mask_eq_exp_minus_1)
  fix n assume "possible_bit TYPE(u16) n"
  then have "n < 16" by (simp add: possible_bit_word)
  then show "bit (push_bit 8 (ucast (u16_bytes c ! 0)) OR ucast (u16_bytes c ! 1) :: u16) n = bit c n"
    by (cases "n < 8") (auto simp: u16_bytes_def m bit_simps)
qed

lemma u16_bytes_crc: "crc16_bytes c = u16_bytes c"
proof -
  have m: "(0xff :: u16) = mask 8" by (simp add: mask_eq_exp_minus_1)
  have "(ucast (c AND 0xff) :: u8) = ucast c" unfolding m by (rule bit_eqI) (auto simp: bit_simps)
  then show ?thesis by (simp add: crc16_bytes_def u16_bytes_def)
qed

lemma length_u16_bytes [simp]: "length (u16_bytes c) = 2"
  by (simp add: u16_bytes_def)

lemma mem_write_u16:
  assumes "length p = pos" "2 \<le> length r"
  shows "mem_write (p @ r) pos [ucast (drop_bit 8 c)] = Some (p @ [ucast (drop_bit 8 c)] @ drop 1 r)"
    "mem_write (p @ ucast (drop_bit 8 c) # drop (Suc 0) r) (pos + 1) [ucast (c AND 0xff)] =
      Some ((p @ u16_bytes c) @ drop 2 r)"
  using assms by (auto simp: mem_write_def u16_bytes_def numeral_2_eq_2 drop_Suc_Cons Suc_diff_le)

definition payload :: "umesh_l2_pbuf \<Rightarrow> u8 list" where
  "payload pbuf = take (pb_len pbuf) (pb_data pbuf)"

lemma payload_updates [simp]:
  "payload (pb_data_update f x) = take (pb_len x) (f (pb_data x))"
  "payload (pb_sec_type_update g x) = payload x"
  "payload (pb_counter_update c x) = payload x"
  by (simp_all add: payload_def)

definition cipher_bytes :: "umesh_l2_pbuf \<Rightarrow> u8 list" where
  "cipher_bytes pbuf =
     ctr_xor (umesh_ctr_block umesh_test_key 32 (ucast (pb_counter pbuf))) 64 1 (payload pbuf)"

definition ae_mode :: "u32 \<Rightarrow> bool" where
  "ae_mode a \<longleftrightarrow> a = SECURITY_ALGO_CHACHA20_POLY1305_2 \<or> a = SECURITY_ALGO_CHACHA20_POLY1305_4"

definition data_bytes :: "u8 list \<Rightarrow> umesh_l2_pbuf \<Rightarrow> u8 list" where
  "data_bytes header pbuf =
     (if pb_sec_algo pbuf = SECURITY_ALGO_NONE then payload pbuf
      else if pb_sec_algo pbuf = SECURITY_ALGO_CRC16_CCITT
      then payload pbuf @ u16_bytes (crc16 (header @ payload pbuf))
      else
        let body = u16_bytes (pb_counter pbuf) @ cipher_bytes pbuf
        in body @ take 4 (poly1305 (header @ body) (umesh_poly_key (pb_counter pbuf))))"

lemma length_cipher_bytes [simp]: "length (cipher_bytes p) = length (payload p)"
  by (simp add: cipher_bytes_def umesh_ctr.length_ctr_xor)

lemma length_data_bytes:
  "pb_sec_algo p \<in> {SECURITY_ALGO_NONE, SECURITY_ALGO_CRC16_CCITT} \<or> ae_mode (pb_sec_algo p) \<Longrightarrow>
    length (data_bytes h p) \<le> length (payload p) + 6"
  by (auto simp: data_bytes_def Let_def)

lemma build_data_bytes:
  assumes "length p = pos" "pos < 256" "pb_len b \<le> length (pb_data b)"
    and "pb_len b + 6 \<le> length r" "pb_len b + 6 \<le> len" "key \<noteq> None"
    and "pb_sec_algo b \<in> {SECURITY_ALGO_NONE, SECURITY_ALGO_CRC16_CCITT} \<or> ae_mode (pb_sec_algo b)"
  shows "umesh_l2_build_data b (p @ r) pos len key 32 =
    Some (L2_OK, (p @ data_bytes p b) @ drop (length (data_bytes p b)) r, pos + length (data_bytes p b))"
proof -
  have pl: "mem_read (pb_data b) 0 (pb_len b) = Some (payload b)" and lp: "length (payload b) = pb_len b"
    using assms(3) by (simp_all add: mem_read_def payload_def)
  have h: "pos mod 256 = pos" using assms(2) by simp
  have w: "mem_write (p @ r) pos (payload b) = Some ((p @ payload b) @ drop (pb_len b) r)"
    using assms(1,4) lp by (simp add: mem_write_end)
  have plain: ?thesis if "pb_sec_algo b = SECURITY_ALGO_NONE"
    using that assms w pl lp
    by (simp add: umesh_l2_build_data_def build_data_plain_def data_bytes_def Let_def)
  have crc: ?thesis if algo: "pb_sec_algo b = SECURITY_ALGO_CRC16_CCITT"
  proof -
    let ?pp = "p @ payload b" and ?rr = "drop (pb_len b) r" and ?c = "crc16 (p @ payload b)"
    have pp: "length ?pp = pos + pb_len b" "2 \<le> length ?rr" using assms(1,4) lp by auto
    have read: "mem_read (?pp @ ?rr) 0 (pos + pb_len b) = Some ?pp"
      using mem_read_middle [of "[]" 0 ?pp "pos + pb_len b" ?rr] pp by simp
    show ?thesis
      using assms(4,5) algo w pl lp h read mem_write_u16 [OF pp, of ?c]
      by (simp add: umesh_l2_build_data_def build_data_crc_def data_bytes_def Let_def
          ac_simps)
  qed
  have ae: ?thesis if algo: "ae_mode (pb_sec_algo b)"
  proof -
    let ?c = "u16_bytes (pb_counter b)" and ?e = "cipher_bytes b"
    have c: "2 \<le> length r" using assms(4) by simp
    note wc = mem_write_u16 [OF assms(1) c, of "pb_counter b"]
    have we: "mem_write ((p @ ?c) @ drop 2 r) (pos + 2) ?e =
      Some (((p @ ?c) @ ?e) @ drop (pb_len b) (drop 2 r))"
      using assms(1,4) lp by (subst mem_write_end) auto
    let ?body = "p @ ?c @ ?e" and ?rr = "drop (pb_len b) (drop 2 r)"
    have lb: "length ?body = pos + 2 + pb_len b" using assms(1) lp by simp
    have read: "mem_read (?body @ ?rr) 0 (pos + 2 + pb_len b) = Some ?body"
      using mem_read_middle [of "[]" 0 ?body "pos + 2 + pb_len b" ?rr] lb by simp
    let ?tag = "take 4 (poly1305 ?body (umesh_poly_key (pb_counter b)))"
    have wt: "mem_write (?body @ ?rr) (pos + 2 + pb_len b) ?tag = Some ((?body @ ?tag) @ drop 4 ?rr)"
      using lb assms(4) by (subst mem_write_end) auto
    have "build_data_ae b (p @ r) pos pos len key 32 =
      Some (L2_OK, (?body @ ?tag) @ drop 4 ?rr, pos + 2 + pb_len b + 4)"
      using assms(5,6) wc we pl read wt
      by (simp add: build_data_ae_def Let_def cipher_bytes_def)
    moreover have "data_bytes p b = ?c @ ?e @ ?tag"
      using algo by (auto simp: data_bytes_def Let_def ae_mode_def)
    ultimately show ?thesis
      using algo h lp
      by (auto simp: umesh_l2_build_data_def Let_def ae_mode_def ac_simps)
  qed
  show ?thesis using assms(7) plain crc ae by auto
qed

text \<open>What the receiver reports in each mode.\<close>

definition data_sec_type :: "u32 \<Rightarrow> pbuf_security_type" where
  "data_sec_type a =
     (if a = SECURITY_ALGO_NONE then UMESH_L2_PBUF_SECURITY_NONE
      else if a = SECURITY_ALGO_CRC16_CCITT then UMESH_L2_PBUF_SECURITY_VERIFY
      else UMESH_L2_PBUF_SECURITY_AE)"

lemma parse_data_bytes:
  assumes "length p = pos" "0 < pos" "pos < 256" "pb_len b \<le> length (pb_data b)"
    and "pb_len b \<le> length (pb_data rx)" "pb_sec_algo rx = pb_sec_algo b"
    and "pb_sec_algo b \<in> {SECURITY_ALGO_NONE, SECURITY_ALGO_CRC16_CCITT} \<or>
      ae_mode (pb_sec_algo b) \<and> pb_counter b \<noteq> 0"
  shows "\<exists>pos' rx'. umesh_l2_parse_data (p @ data_bytes p b @ t) pos (length (data_bytes p b)) rx =
      Some (L2_OK, pos', rx') \<and> payload rx' = payload b \<and> pb_len rx' = pb_len b \<and>
      pb_sec_type rx' = data_sec_type (pb_sec_algo b)"
proof -
  have lp: "length (payload b) = pb_len b" using assms(4) by (simp add: payload_def)
  have h: "pos mod 256 = pos" using assms(3) by simp
  have wr: "mem_write (pb_data rx) 0 (payload b) = Some (payload b @ drop (pb_len b) (pb_data rx))"
    using assms(5) lp by (simp add: mem_write_0)
  have tk: "take (pb_len b) (payload b @ x) = payload b" for x using lp by simp
  have plain: ?thesis if algo: "pb_sec_algo b = SECURITY_ALGO_NONE"
  proof -
    have rd: "mem_read (p @ payload b @ t) pos (pb_len b) = Some (payload b)"
      using assms(1) lp by (rule mem_read_middle)
    show ?thesis
      using algo assms(2,5,6) lp rd wr tk
      by (simp add: umesh_l2_parse_data_def parse_data_plain_def data_bytes_def Let_def
          data_sec_type_def)
  qed
  have crc: ?thesis if algo: "pb_sec_algo b = SECURITY_ALGO_CRC16_CCITT"
  proof -
    let ?c = "crc16 (p @ payload b)"
    let ?d = "payload b @ u16_bytes ?c"
    have rd: "mem_read (p @ ?d @ t) pos (pb_len b) = Some (payload b)"
      using mem_read_middle [OF assms(1) lp, of "u16_bytes ?c @ t"] by simp
    have rc: "mem_read (p @ ?d @ t) (pos + pb_len b) 2 = Some (u16_bytes ?c)"
      using mem_read_middle [of "p @ payload b" "pos + pb_len b" "u16_bytes ?c" 2 t] assms(1) lp by simp
    have rh: "mem_read (p @ ?d @ t) 0 (pb_len b + pos) = Some (p @ payload b)"
      using mem_read_middle [of "[]" 0 "p @ payload b" "pb_len b + pos" "u16_bytes ?c @ t"] assms(1) lp by simp
    have db: "data_bytes p b = ?d" by (simp add: data_bytes_def algo)
    show ?thesis
      using algo assms(2,5,6) lp wr tk rd rc rh h u16_bytes_join [of ?c]
      by (simp add: umesh_l2_parse_data_def parse_data_crc_def db Let_def
          data_sec_type_def)
  qed
  have ae: ?thesis if algo: "ae_mode (pb_sec_algo b)" and cnt: "pb_counter b \<noteq> 0"
  proof -
    let ?c = "u16_bytes (pb_counter b)" and ?e = "cipher_bytes b" and ?k = "umesh_poly_key (pb_counter b)"
    let ?tag = "take 4 (poly1305 (p @ ?c @ ?e) ?k)"
    let ?m = "p @ (?c @ ?e @ ?tag) @ t"
    have rc: "mem_read ?m pos 2 = Some ?c"
      using mem_read_middle [of p pos ?c 2 "?e @ ?tag @ t"] assms(1) by simp
    have pc: "umesh_l2_parse_counter ?m pos (pb_len b + 6) (pb_counter rx) =
      Some (L2_OK, pos + 2, pb_len b + 4, pb_counter b)"
      using rc u16_bytes_join [of "pb_counter b"] by (simp add: umesh_l2_parse_counter_def)
    have rh: "mem_read ?m 0 (pos + 2 + pb_len b) = Some (p @ ?c @ ?e)"
      using mem_read_middle [of "[]" 0 "p @ ?c @ ?e" "pos + 2 + pb_len b" "?tag @ t"] assms(1) lp by simp
    have rt: "mem_read ?m (pos + 2 + pb_len b) 4 = Some ?tag"
      using mem_read_middle [of "p @ ?c @ ?e" "pos + 2 + pb_len b" ?tag 4 t] assms(1) lp by simp
    have re: "mem_read ?m (pos + 2) (pb_len b) = Some ?e"
      using mem_read_middle [of "p @ ?c" "pos + 2" ?e "pb_len b" "?tag @ t"] assms(1) lp by simp
    have auth: "umesh_l2_data_authenticate (p @ ?c @ ?e) ?k 16 ?tag 4 UMESH_L2_AUTH_ALGO_POLY1305"
      by (simp add: umesh_l2_data_authenticate_def)
    have nz: "ucast (pb_counter b) \<noteq> (0 :: u32)" using cnt by (simp add: ucast_u16_u32_zero)
    have dec: "umesh_l2_decrypt (pb_data rx) ?e umesh_test_key 32 (ucast (pb_counter b)) UMESH_L2_ENC_ALGO_CHACHA20 =
      (True, payload b @ drop (pb_len b) (pb_data rx))"
      using nz assms(5) lp
      by (simp add: umesh_l2_decrypt_def cipher_bytes_def umesh_ctr.ctr_xor_involution
          umesh_ctr.length_ctr_xor)
    have db: "data_bytes p b = ?c @ ?e @ ?tag"
      using algo by (auto simp: data_bytes_def Let_def ae_mode_def)
    have st: "data_sec_type (pb_sec_algo b) = UMESH_L2_PBUF_SECURITY_AE"
      using algo by (auto simp: data_sec_type_def ae_mode_def)
    have pd: "umesh_l2_parse_data ?m pos (pb_len b + 6) rx =
      parse_data_ae ?m pos pos (pb_len b + 6) (rx\<lparr>pb_sec_type := UMESH_L2_PBUF_SECURITY_NONE\<rparr>)"
      using algo assms(2,6) h by (auto simp: umesh_l2_parse_data_def Let_def ae_mode_def)
    define m where "m = ?m"
    define k where "k = ?k"
    define n where "n = pb_len b"
    note facts = pc [folded m_def n_def] rh [folded m_def n_def] rt [folded m_def n_def]
      re [folded m_def n_def] auth [folded k_def] dec [folded n_def] pd [folded m_def n_def]
    have l: "length (data_bytes p b) = n + 6" using lp by (simp add: db n_def)
    have pp: "umesh_l2_parse_data m pos (n + 6) rx =
      Some (L2_OK, pos + 2 + n, rx\<lparr>pb_sec_type := UMESH_L2_PBUF_SECURITY_AE, pb_counter := pb_counter b,
        pb_len := n, pb_data := payload b @ drop n (pb_data rx)\<rparr>)"
      using facts by (simp add: parse_data_ae_def Let_def flip: k_def)
    have m: "p @ data_bytes p b @ t = m" by (simp only: db m_def)
    have "payload b = take n (payload b @ drop n (pb_data rx))" using tk by (simp add: n_def)
    then show ?thesis unfolding m l st using pp by (simp add: n_def)
  qed
  show ?thesis using assms(7) plain crc ae by auto
qed

text \<open>Property C19. Packet data survives the way from sender to receiver in all three security modes:
  with room in the sandbox and in the receiver's buffer, building succeeds, and parsing what was
  built, behind the same header, gives the payload, its length and the security level of the
  mode. For the encrypted mode the packet counter must not be 0, as it is for the first packet to a neighbour: the
  receiver does not decrypt that one.\<close>

theorem packet_data_roundtrip:
  assumes "0 < length header" "length header < 256" "pb_len b \<le> length (pb_data b)"
    and "pb_len b \<le> length (pb_data rx)" "pb_len b + 6 \<le> length room" "key \<noteq> None"
    and "pb_sec_algo rx = pb_sec_algo b"
    and "pb_sec_algo b \<in> {SECURITY_ALGO_NONE, SECURITY_ALGO_CRC16_CCITT} \<or>
      ae_mode (pb_sec_algo b) \<and> pb_counter b \<noteq> 0"
  shows "\<exists>m pos pos' rx'.
    umesh_l2_build_data b (header @ room) (length header) (length room) key 32 = Some (L2_OK, m, pos) \<and>
    umesh_l2_parse_data m (length header) (pos - length header) rx = Some (L2_OK, pos', rx') \<and>
    take (pb_len rx') (pb_data rx') = take (pb_len b) (pb_data b) \<and> pb_len rx' = pb_len b \<and>
    pb_sec_type rx' = data_sec_type (pb_sec_algo b)"
proof -
  let ?d = "data_bytes header b"
  let ?t = "drop (length ?d) room"
  have "umesh_l2_build_data b (header @ room) (length header) (length room) key 32 =
    Some (L2_OK, (header @ ?d) @ ?t, length header + length ?d)"
    using assms(2,3,5,6,8) by (intro build_data_bytes) auto
  moreover obtain pos' rx' where "umesh_l2_parse_data (header @ ?d @ ?t) (length header) (length ?d) rx =
      Some (L2_OK, pos', rx')" "payload rx' = payload b" "pb_len rx' = pb_len b"
      "pb_sec_type rx' = data_sec_type (pb_sec_algo b)"
    using parse_data_bytes [OF refl assms(1,2,3,4,7,8)] by blast
  ultimately show ?thesis by (auto simp: payload_def)
qed

definition data_example :: umesh_l2_pbuf where
  "data_example = (umesh_l2_pbuf_init umesh_l2_pbuf_zero)
     \<lparr>pb_data := [1, 2, 3, 4, 5] @ replicate 115 0, pb_len := 5,
      pb_sec_algo := SECURITY_ALGO_CHACHA20_POLY1305_2, pb_counter := 9\<rparr>"

lemma packet_data_roundtrip_witness:
  "\<exists>m pos pos' rx'.
    umesh_l2_build_data data_example ([1, 2, 3] @ replicate 137 0) 3 137 (Some umesh_test_key) 32 =
      Some (L2_OK, m, pos) \<and>
    umesh_l2_parse_data m 3 (pos - 3) (umesh_l2_pbuf_clear data_example
      \<lparr>pb_sec_algo := SECURITY_ALGO_CHACHA20_POLY1305_2\<rparr>) = Some (L2_OK, pos', rx') \<and>
    take (pb_len rx') (pb_data rx') = [1, 2, 3, 4, 5]"
proof -
  let ?rx = "umesh_l2_pbuf_clear data_example\<lparr>pb_sec_algo := SECURITY_ALGO_CHACHA20_POLY1305_2\<rparr>"
  have f: "pb_len data_example = 5" "pb_data data_example = [1, 2, 3, 4, 5] @ replicate 115 0"
    "pb_sec_algo data_example = SECURITY_ALGO_CHACHA20_POLY1305_2" "pb_counter data_example = 9"
    by (simp_all add: data_example_def)
  have r: "length (pb_data ?rx) = 120" "pb_sec_algo ?rx = SECURITY_ALGO_CHACHA20_POLY1305_2"
    by (simp_all add: f)
  show ?thesis
    using packet_data_roundtrip [where header = "[1, 2, 3]" and b = data_example and rx = ?rx
        and room = "replicate 137 0" and key = "Some umesh_test_key"] f r
    by (auto simp: ae_mode_def numeral_3_eq_3)
qed

text \<open>With the counter 0, with which every neighbour starts, the packet is authenticated and accepted
  but not decrypted: the payload that reaches the upper layers is what was in the cleared
  buffer.\<close>

lemma packet_counter_zero_not_decrypted:
  "umesh_l2_decrypt d src key key_len 0 algo = (False, d)"
  by (simp add: umesh_l2_decrypt_def)

subsection \<open>Damaged packets\<close>

lemma crc16_residue_unique:
  assumes "crc16 (d @ [x, y]) = 0"
  shows "[x, y] = crc16_bytes (crc16 d)"
proof -
  obtain x' y' where b: "crc16_bytes (crc16 d) = [x', y']" by (simp add: crc16_bytes_def)
  have "crc16_from (crc16 d) [x, y] = 0" "crc16_from (crc16 d) [x', y'] = 0"
    using assms crc16_residue [of d] b by (simp_all add: crc16_def crc16_from_append)
  moreover have "crc16_from (crc16 d XOR crc16 d) (xor_bytes [x, y] [x', y']) =
    crc16_from (crc16 d) [x, y] XOR crc16_from (crc16 d) [x', y']"
    by (rule crc16_from_xor) simp
  ultimately have "crc16_from 0 [x XOR x', y XOR y'] = 0" by (simp add: xor_bytes_def)
  then show ?thesis using b by (simp add: crc16_pair_zero xor_eq_zero)
qed

text \<open>Acceptance with a checksum is residue zero over the whole packet.\<close>

lemma parse_data_crc_accepts:
  assumes "pb_sec_algo rx = SECURITY_ALGO_CRC16_CCITT" "0 < pos" "pos < 256"
    and "pos + len \<le> length m"
    and "umesh_l2_parse_data m pos len rx = Some (L2_OK, pos', rx')"
  shows "2 \<le> len" "crc16 (take (pos + len) m) = 0"
proof -
  have h: "pos mod 256 = pos" using assms(3) by simp
  show len: "2 \<le> len"
    using assms(1,2,5) by (auto simp: umesh_l2_parse_data_def parse_data_crc_def Let_def split: if_splits)
  define x where "x = m ! (pos + len - 2)"
  define y where "y = m ! (pos + len - 1)"
  have two: "take 2 (drop (pos + len - 2) m) = [x, y]"
    using assms(4) len
    by (simp add: x_def y_def numeral_2_eq_2 take_Suc_conv_app_nth) (simp add: Suc_diff_Suc)
  have acc: "push_bit 8 (ucast x) OR ucast y = crc16 (take (len - 2 + pos) m)"
    using assms len two h
    by (auto simp: umesh_l2_parse_data_def parse_data_crc_def Let_def mem_read_def split: if_splits option.splits)
  have "\<not> bit y (8 + n)" for n by (rule notI, drule bit_imp_le_length) simp
  then have "crc16_bytes (push_bit 8 (ucast x) OR ucast y) = [x, y]"
    by (auto simp: crc16_bytes_def bit_simps intro!: bit_eqI)
  moreover have "take (pos + len) m = take (len - 2 + pos) m @ [x, y]"
  proof -
    have "pos + len = (len - 2 + pos) + 2" "pos + len - 2 = len - 2 + pos" using len by simp_all
    then have "take (pos + len) m = take (len - 2 + pos) m @ take 2 (drop (len - 2 + pos) m)"
      by (metis take_add)
    then show ?thesis using two by (simp only: \<open>pos + len - 2 = len - 2 + pos\<close>)
  qed
  ultimately show "crc16 (take (pos + len) m) = 0"
    using crc16_residue [of "take (len - 2 + pos) m"] acc by simp
qed


definition crc_example :: "u8 list" where
  "crc_example = [0x54, 7, 42, 43] @ crc16_bytes (crc16 [0x54, 7, 42, 43])"

definition crc_example_rx :: umesh_l2_pbuf where
  "crc_example_rx = (umesh_l2_pbuf_init umesh_l2_pbuf_zero)\<lparr>pb_sec_algo := SECURITY_ALGO_CRC16_CCITT\<rparr>"


end
