(* ===== verification/Mesh_L2.thy ===== *)
theory Mesh_L2
  imports Mesh_Nbtable Mesh_Data_Props
begin

text \<open>
  Sending and receiving whole packets on uMesh layer 2 (\<open>umesh_l2_send\<close> in
  \<open>protocols/umesh/umesh_l2_send.c\<close>, \<open>umesh_l2_receive\<close> in \<open>umesh_l2_receive.c\<close>): routing,
  checks, the composition of the field codecs, dispatch to the layer 3 handlers and the
  per-neighbour statistics. The header that declares \<open>struct module_umesh\<close> is not in the
  repository; the record \<open>umesh\<close> has the fields that this code uses. The protocol table is a
  parameter: a handler is a function on the module state, where it finds the packet in
  \<open>um_pbuf\<close>. The MAC interface is a parameter too: \<open>mac_send\<close> says whether the frame was taken.
\<close>

record umesh =
  um_nbtable :: "mesh_nb_item list"
  um_nbdiscovery :: nbdiscovery
  um_pbuf :: umesh_l2_pbuf
  um_macs :: "nat \<Rightarrow> bool"

record mac_packet_info =
  mi_rssi :: u32
  mi_fei :: u32
  mi_bit_errors :: u32

definition UMESH_L3_PROTOCOL_COUNT :: nat where "UMESH_L3_PROTOCOL_COUNT = 16"

subsection \<open>Sending\<close>

definition umesh_l2_send_route_pbuf :: "umesh \<Rightarrow> umesh_l2_pbuf \<Rightarrow> bool \<times> umesh_l2_pbuf" where
  "umesh_l2_send_route_pbuf umesh pbuf =
     (let pbuf = (case pb_sec_type pbuf of
            UMESH_L2_PBUF_SECURITY_NONE \<Rightarrow> pbuf\<lparr>pb_sec_algo := SECURITY_ALGO_NONE\<rparr>
          | UMESH_L2_PBUF_SECURITY_VERIFY \<Rightarrow> pbuf\<lparr>pb_sec_algo := SECURITY_ALGO_CRC16_CCITT\<rparr>
          | UMESH_L2_PBUF_SECURITY_AE \<Rightarrow> pbuf\<lparr>pb_sec_algo := SECURITY_ALGO_CHACHA20_POLY1305_2\<rparr>);
          pbuf = (if pb_stid pbuf = 0 then pbuf\<lparr>pb_stid := nd_tid_current (um_nbdiscovery umesh)\<rparr> else pbuf)
      in if pb_stid pbuf = 0 then (False, pbuf) else (True, pbuf\<lparr>pb_iface := 0\<rparr>))"

definition umesh_l2_send_check :: "umesh_l2_pbuf \<Rightarrow> bool" where
  "umesh_l2_send_check pbuf =
     ((pb_dtid pbuf \<noteq> 0 \<or> pbuf_broadcast pbuf) \<and> pb_len pbuf \<le> UMESH_L2_PACKET_SIZE \<and> pb_stid pbuf \<noteq> 0)"

text \<open>The key is the test key when the destination is a known neighbour, and \<open>NULL\<close> otherwise.
  The flag \<open>known_neighbor\<close> is set in the receive buffer of the module, not in the packet.\<close>

definition umesh_send_neighbour :: "umesh \<Rightarrow> umesh_l2_pbuf \<Rightarrow> u8 list option \<times> umesh \<times> umesh_l2_pbuf" where
  "umesh_send_neighbour umesh pbuf =
     (let pbuf = pbuf\<lparr>pb_counter := 0\<rparr> in
      case umesh_l2_nbtable_find (um_nbtable umesh) (pb_dtid pbuf) of
        None \<Rightarrow> (None, umesh, pbuf)
      | Some i \<Rightarrow>
          let item = um_nbtable umesh ! i in
          (Some umesh_test_key,
           umesh\<lparr>um_pbuf := (um_pbuf umesh)\<lparr>pb_known_neighbor := True\<rparr>,
                 um_nbtable := (um_nbtable umesh)[i := item\<lparr>ni_txcounter := ni_txcounter item + 1\<rparr>]\<rparr>,
           pbuf\<lparr>pb_counter := ni_txcounter item\<rparr>))"

definition umesh_l2_build_header :: "umesh_l2_pbuf \<Rightarrow> u8 list \<Rightarrow> (l2_ret \<times> u8 list \<times> nat) option" where
  "umesh_l2_build_header pbuf sandbox =
     (case umesh_l2_build_control pbuf sandbox 0 (length sandbox) of None \<Rightarrow> None | Some (r, m, pos) \<Rightarrow>
       if r \<noteq> L2_OK then Some (r, m, pos)
       else
         case (if \<not> pbuf_broadcast pbuf then umesh_l2_build_tid (pb_dtid pbuf) m pos (length sandbox - pos)
               else Some (L2_OK, m, pos)) of None \<Rightarrow> None | Some (r, m, pos) \<Rightarrow>
         if r \<noteq> L2_OK then Some (r, m, pos)
         else umesh_l2_build_tid (pb_stid pbuf) m pos (length sandbox - pos))"

text \<open>Return value, module state, packet, and the frame given to the MAC, if one was. The frame
  is one byte longer than what was built.\<close>

definition umesh_l2_send ::
  "(u8 list \<Rightarrow> bool) \<Rightarrow> u8 list \<Rightarrow> umesh \<Rightarrow> umesh_l2_pbuf \<Rightarrow>
   (l2_ret \<times> umesh \<times> umesh_l2_pbuf \<times> u8 list option) option" where
  "umesh_l2_send mac_send sandbox umesh pbuf =
     (let (routed, pbuf) = umesh_l2_send_route_pbuf umesh pbuf in
      if \<not> routed then Some (L2_UNROUTABLE, umesh, pbuf, None)
      else
        let (key, umesh, pbuf) = umesh_send_neighbour umesh pbuf in
        if \<not> umesh_l2_send_check pbuf then Some (L2_MALFORMED, umesh, pbuf, None)
        else case umesh_l2_build_header pbuf sandbox of None \<Rightarrow> None | Some (r, m, pos) \<Rightarrow>
          if r \<noteq> L2_OK then Some (L2_FAILED, umesh, pbuf, None)
          else case umesh_l2_build_data pbuf m pos (length sandbox - pos) key 32 of None \<Rightarrow> None
          | Some (r, m, pos) \<Rightarrow>
            if r \<noteq> L2_OK then Some (L2_FAILED, umesh, pbuf, None)
            else if um_macs umesh (pb_iface pbuf) then
              case mem_read m 0 (pos + 1) of None \<Rightarrow> None | Some frame \<Rightarrow>
                Some (if mac_send frame then L2_OK else L2_FAILED, umesh, pbuf, Some frame)
            else Some (L2_OK, umesh, pbuf, None))"

subsection \<open>Receiving\<close>

definition umesh_l2_receive_check :: "nat \<Rightarrow> bool" where
  "umesh_l2_receive_check len = (\<not> len > UMESH_L2_PACKET_SIZE \<and> \<not> len < 2)"

definition umesh_l2_receive_route_pbuf :: "umesh \<Rightarrow> umesh_l2_pbuf \<Rightarrow> bool" where
  "umesh_l2_receive_route_pbuf umesh pbuf =
     (if \<not> pbuf_broadcast pbuf then
        if pb_dtid pbuf = 0 then False
        else if pb_dtid pbuf \<noteq> nd_tid_current (um_nbdiscovery umesh) \<and>
                pb_dtid pbuf \<noteq> nd_tid_last (um_nbdiscovery umesh) then False
        else True
      else True)"

definition umesh_l2_parse_header :: "u8 list \<Rightarrow> nat \<Rightarrow> umesh_l2_pbuf \<Rightarrow> (l2_ret \<times> nat \<times> umesh_l2_pbuf) option" where
  "umesh_l2_parse_header data len pbuf =
     (case umesh_l2_parse_control data 0 len pbuf of None \<Rightarrow> None | Some (r, pos, pbuf) \<Rightarrow>
       if r \<noteq> L2_OK then Some (r, pos, pbuf)
       else
         case (if \<not> pbuf_broadcast pbuf then
                 (case umesh_l2_parse_tid data pos (len - pos) of None \<Rightarrow> None | Some (r, pos, tid) \<Rightarrow>
                   Some (r, pos, pbuf\<lparr>pb_dtid := tid\<rparr>))
               else Some (L2_OK, pos, pbuf)) of None \<Rightarrow> None | Some (r, pos, pbuf) \<Rightarrow>
         if r \<noteq> L2_OK then Some (r, pos, pbuf)
         else case umesh_l2_parse_tid data pos (len - pos) of None \<Rightarrow> None | Some (r, pos, tid) \<Rightarrow>
           Some (r, pos, pbuf\<lparr>pb_stid := tid\<rparr>))"

definition umesh_rx_stats :: "nat option \<Rightarrow> nat \<Rightarrow> bool \<Rightarrow> umesh \<Rightarrow> umesh" where
  "umesh_rx_stats nb len dropped umesh =
     (case nb of None \<Rightarrow> umesh
      | Some i \<Rightarrow>
          let item = um_nbtable umesh ! i;
              item = item\<lparr>ni_rx_bytes := ni_rx_bytes item + of_nat len, ni_rx_packets := ni_rx_packets item + 1\<rparr>;
              item = (if dropped
                      then item\<lparr>ni_rx_bytes_dropped := ni_rx_bytes_dropped item + of_nat len,
                                ni_rx_packets_dropped := ni_rx_packets_dropped item + 1\<rparr>
                      else item)
          in umesh\<lparr>um_nbtable := (um_nbtable umesh)[i := item]\<rparr>)"

text \<open>The receive buffer as it is prepared for a packet.\<close>

definition umesh_rx_pbuf :: "umesh_l2_pbuf \<Rightarrow> mac_packet_info \<Rightarrow> nat \<Rightarrow> umesh_l2_pbuf" where
  "umesh_rx_pbuf pbuf info iface =
     (umesh_l2_pbuf_clear pbuf)\<lparr>pb_flags := UMESH_L2_PBUF_FLAG_USED, pb_iface := iface,
        pb_rssi := mi_rssi info, pb_fei := mi_fei info, pb_bit_errors := mi_bit_errors info\<rparr>"

definition umesh_receive_neighbour :: "umesh \<Rightarrow> umesh_l2_pbuf \<Rightarrow> nat option \<times> umesh_l2_pbuf" where
  "umesh_receive_neighbour umesh pbuf =
     (let nb = umesh_l2_nbtable_find (um_nbtable umesh) (pb_stid pbuf)
      in (nb, if nb \<noteq> None then pbuf\<lparr>pb_known_neighbor := True\<rparr> else pbuf))"

definition umesh_l2_receive ::
  "(umesh \<Rightarrow> umesh) option list \<Rightarrow> umesh \<Rightarrow> u8 list \<Rightarrow> nat \<Rightarrow> mac_packet_info \<Rightarrow> nat \<Rightarrow> (l2_ret \<times> umesh) option" where
  "umesh_l2_receive protocols umesh data len info iface =
     (let pbuf = umesh_rx_pbuf (um_pbuf umesh) info iface;
          len = (len + (2 ^ 32 - 1)) mod 2 ^ 32
      in
      if \<not> umesh_l2_receive_check len then Some (L2_FAILED, umesh\<lparr>um_pbuf := pbuf\<rparr>)
      else case umesh_l2_parse_header data len pbuf of None \<Rightarrow> None | Some (r, pos, pbuf) \<Rightarrow>
        if r \<noteq> L2_OK then Some (L2_FAILED, umesh\<lparr>um_pbuf := pbuf\<rparr>)
        else
          let (nb, pbuf) = umesh_receive_neighbour umesh pbuf in
          case umesh_l2_parse_data data pos (len - pos) pbuf of None \<Rightarrow> None | Some (r, pos, pbuf) \<Rightarrow>
            let umesh = umesh\<lparr>um_pbuf := pbuf\<rparr>;
                err = Some (L2_FAILED, umesh_rx_stats nb len True umesh)
            in
            if r \<noteq> L2_OK then err
            else if pb_len pbuf = 0 then err
            else if \<not> umesh_l2_receive_route_pbuf umesh pbuf then err
            else if unat (pb_proto pbuf) > UMESH_L3_PROTOCOL_COUNT then err
            else if unat (pb_proto pbuf) \<ge> length protocols then None
            else case protocols ! unat (pb_proto pbuf) of
                None \<Rightarrow> err
              | Some receive_handler \<Rightarrow> Some (L2_OK, umesh_rx_stats nb len False (receive_handler umesh)))"

text \<open>The handler of the neighbour discovery protocol, as it is registered in the table.\<close>

definition umesh_nbdiscovery_handler :: "umesh \<Rightarrow> umesh" where
  "umesh_nbdiscovery_handler umesh =
     umesh\<lparr>um_nbtable := snd (nbdiscovery_receive_handler (um_nbtable umesh) (um_pbuf umesh))\<rparr>"

end
