(* ===== verification/Mesh_L2_Props.thy ===== *)
theory Mesh_L2_Props
  imports Mesh_L2
begin

text \<open>
  Whole packets: sending and receiving stay inside of their buffers, what one node sends another
  one delivers unchanged, only packets for this node reach a handler, and a beacon ends up in the
  neighbour table.
\<close>

subsection \<open>The header\<close>

definition header_bytes :: "umesh_l2_pbuf \<Rightarrow> u8 list" where
  "header_bytes p =
     control_bytes p @ (if pbuf_broadcast p then [] else tid_bytes (pb_dtid p)) @ tid_bytes (pb_stid p)"

lemma length_header_bytes: "2 \<le> length (header_bytes p)" "length (header_bytes p) \<le> 12"
  using length_control_bytes [of p] length_tid_bytes [of "pb_stid p"] length_tid_bytes [of "pb_dtid p"]
  by (auto simp: header_bytes_def)

lemma build_header_bytes:
  assumes "12 \<le> length s"
  shows "umesh_l2_build_header p s =
    Some (L2_OK, header_bytes p @ drop (length (header_bytes p)) s, length (header_bytes p))"
proof -
  have c: "umesh_l2_build_control p s 0 (length s) =
      Some (L2_OK, control_bytes p @ drop (length (control_bytes p)) s, length (control_bytes p))"
    using build_control_bytes [of "[]" 0 s "length s" p] assms by simp
  have lc: "length (control_bytes p) \<le> 2" using length_control_bytes [of p] by auto
  show ?thesis
  proof (cases "pbuf_broadcast p")
    case True
    show ?thesis
      using build_tid_bytes [of "control_bytes p" "length (control_bytes p)" "drop (length (control_bytes p)) s"
          "length s - length (control_bytes p)" "pb_stid p"] assms lc True
      by (simp add: umesh_l2_build_header_def c header_bytes_def add.commute)
  next
    case False
    let ?cd = "control_bytes p @ tid_bytes (pb_dtid p)"
    have d: "umesh_l2_build_tid (pb_dtid p) (control_bytes p @ drop (length (control_bytes p)) s)
        (length (control_bytes p)) (length s - length (control_bytes p)) =
        Some (L2_OK, ?cd @ drop (length ?cd) s, length ?cd)"
      using build_tid_bytes [of "control_bytes p" "length (control_bytes p)" "drop (length (control_bytes p)) s"
          "length s - length (control_bytes p)" "pb_dtid p"] assms lc
      by (simp add: add.commute)
    show ?thesis
      using build_tid_bytes [of ?cd "length ?cd" "drop (length ?cd) s" "length s - length ?cd" "pb_stid p"]
        assms lc False length_tid_bytes [of "pb_dtid p"]
      by (simp add: umesh_l2_build_header_def c d header_bytes_def add.commute add.left_commute)
  qed
qed

definition header_received :: "umesh_l2_pbuf \<Rightarrow> umesh_l2_pbuf \<Rightarrow> umesh_l2_pbuf" where
  "header_received p rx =
     (let rx = rx\<lparr>pb_flags := if pbuf_broadcast p then pb_flags rx OR UMESH_L2_PBUF_FLAG_BROADCAST else pb_flags rx,
                 pb_sec_algo := (pb_sec_algo p AND 3) + (if drop_bit 2 (pb_sec_algo p) AND 1 \<noteq> 0 then 4 else 0),
                 pb_proto := control_proto_seen p\<rparr>;
          rx = (if pbuf_broadcast p then rx else rx\<lparr>pb_dtid := pb_dtid p\<rparr>)
      in rx\<lparr>pb_stid := pb_stid p\<rparr>)"

lemma broadcast_flag_nonzero: "UMESH_L2_PBUF_FLAG_BROADCAST \<noteq> 0"
  by (simp add: UMESH_L2_PBUF_FLAG_BROADCAST_def)

lemma parse_header_bytes:
  assumes "length (header_bytes p) \<le> len" "pb_flags rx = UMESH_L2_PBUF_FLAG_USED"
  shows "umesh_l2_parse_header (header_bytes p @ r) len rx =
    Some (L2_OK, length (header_bytes p), header_received p rx)"
proof -
  let ?c = "control_bytes p"
  have pc: "umesh_l2_parse_control (header_bytes p @ r) 0 len rx =
    Some (L2_OK, length ?c,
      rx\<lparr>pb_flags := if pbuf_broadcast p then pb_flags rx OR UMESH_L2_PBUF_FLAG_BROADCAST else pb_flags rx,
         pb_sec_algo := (pb_sec_algo p AND 3) + (if drop_bit 2 (pb_sec_algo p) AND 1 \<noteq> 0 then 4 else 0),
         pb_proto := control_proto_seen p\<rparr>)"
    using parse_control_bytes [of "[]" 0 p len "(if pbuf_broadcast p then [] else tid_bytes (pb_dtid p)) @ tid_bytes (pb_stid p) @ r" rx]
      assms by (simp add: header_bytes_def)
  have used: "\<not> pbuf_broadcast (rx\<lparr>pb_sec_algo := x, pb_proto := y\<rparr>)" for x y
    using assms(2) by (simp add: pbuf_broadcast_def UMESH_L2_PBUF_FLAG_USED_def UMESH_L2_PBUF_FLAG_BROADCAST_def)
  have bc: "pbuf_broadcast (rx\<lparr>pb_flags := pb_flags rx OR UMESH_L2_PBUF_FLAG_BROADCAST, pb_sec_algo := x, pb_proto := y\<rparr>)" for x y
    by (simp add: pbuf_broadcast_def broadcast_flag_nonzero)
  show ?thesis
  proof (cases "pbuf_broadcast p")
    case True
    have "umesh_l2_parse_tid (header_bytes p @ r) (length ?c) (len - length ?c) =
        Some (L2_OK, length (header_bytes p), pb_stid p)"
      using parse_tid_bytes [of ?c "length ?c" "pb_stid p" "len - length ?c" r] assms True
      by (simp add: header_bytes_def)
    with True show ?thesis
      by (simp add: umesh_l2_parse_header_def pc bc header_received_def)
  next
    case False
    have d: "umesh_l2_parse_tid (header_bytes p @ r) (length ?c) (len - length ?c) =
        Some (L2_OK, length ?c + length (tid_bytes (pb_dtid p)), pb_dtid p)"
      using parse_tid_bytes [of ?c "length ?c" "pb_dtid p" "len - length ?c" "tid_bytes (pb_stid p) @ r"] assms False
      by (simp add: header_bytes_def)
    have s: "umesh_l2_parse_tid (header_bytes p @ r) (length ?c + length (tid_bytes (pb_dtid p)))
        (len - (length ?c + length (tid_bytes (pb_dtid p)))) = Some (L2_OK, length (header_bytes p), pb_stid p)"
      using parse_tid_bytes [of "?c @ tid_bytes (pb_dtid p)" "length ?c + length (tid_bytes (pb_dtid p))" "pb_stid p"
          "len - (length ?c + length (tid_bytes (pb_dtid p)))" r] assms False
      by (simp add: header_bytes_def)
    from False show ?thesis
      by (simp add: umesh_l2_parse_header_def pc used d s header_received_def)
  qed
qed


subsection \<open>Sending\<close>

lemma build_data_no_key:
  "\<not> ae_mode (pb_sec_algo b) \<Longrightarrow> umesh_l2_build_data b m pos len key n = umesh_l2_build_data b m pos len key' n'"
  by (simp add: umesh_l2_build_data_def Let_def ae_mode_def)

lemma build_data_frame:
  assumes "length p = pos" "pos < 256" "pb_len b \<le> length (pb_data b)" "pb_len b + 6 \<le> length r"
    and "pb_sec_algo b \<in> {SECURITY_ALGO_NONE, SECURITY_ALGO_CRC16_CCITT} \<or> ae_mode (pb_sec_algo b)"
    and "ae_mode (pb_sec_algo b) \<longrightarrow> key \<noteq> None"
  shows "umesh_l2_build_data b (p @ r) pos (length r) key 32 =
    Some (L2_OK, (p @ data_bytes p b) @ drop (length (data_bytes p b)) r, pos + length (data_bytes p b))"
proof (cases "ae_mode (pb_sec_algo b)")
  case True
  with assms show ?thesis by (intro build_data_bytes) auto
next
  case False
  then have "umesh_l2_build_data b (p @ r) pos (length r) key 32 =
      umesh_l2_build_data b (p @ r) pos (length r) (Some []) 32"
    by (rule build_data_no_key)
  also have "\<dots> = Some (L2_OK, (p @ data_bytes p b) @ drop (length (data_bytes p b)) r, pos + length (data_bytes p b))"
    using assms False by (intro build_data_bytes) auto
  finally show ?thesis .
qed

lemma build_data_no_ae_key:
  assumes "ae_mode (pb_sec_algo b)"
  shows "\<exists>r. umesh_l2_build_data b m pos len None 32 = Some (r, m, pos) \<and> r \<noteq> L2_OK"
  using assms by (auto simp: umesh_l2_build_data_def Let_def ae_mode_def build_data_ae_def)

definition frame_bytes :: "umesh_l2_pbuf \<Rightarrow> u8 list" where
  "frame_bytes p = header_bytes p @ data_bytes (header_bytes p) p"

lemma route_sec_algo:
  "umesh_l2_send_route_pbuf u p = (r, q) \<Longrightarrow>
    pb_sec_algo q \<in> {SECURITY_ALGO_NONE, SECURITY_ALGO_CRC16_CCITT} \<or> ae_mode (pb_sec_algo q)"
  by (auto simp: umesh_l2_send_route_pbuf_def Let_def ae_mode_def split: pbuf_security_type.splits if_splits)

lemma route_fields:
  assumes "umesh_l2_send_route_pbuf u p = (r, q)"
  shows "pb_data q = pb_data p" "pb_len q = pb_len p" "pb_dtid q = pb_dtid p" "pb_flags q = pb_flags p"
    "pb_proto q = pb_proto p" "pb_sec_type q = pb_sec_type p" "pb_iface q = (if r then 0 else pb_iface p)"
    "data_sec_type (pb_sec_algo q) = pb_sec_type p" "pb_sec_algo q < 4"
  using assms
  by (auto simp: umesh_l2_send_route_pbuf_def Let_def data_sec_type_def split: pbuf_security_type.splits if_splits)
    (simp_all add: security_algo_defs)

lemma neighbour_fields:
  assumes "umesh_send_neighbour u p = (key, u', q)"
  shows "pb_data q = pb_data p" "pb_len q = pb_len p" "pb_dtid q = pb_dtid p" "pb_flags q = pb_flags p"
    "pb_stid q = pb_stid p" "pb_proto q = pb_proto p" "pb_sec_type q = pb_sec_type p" "pb_sec_algo q = pb_sec_algo p"
    "pb_iface q = pb_iface p" "um_macs u' = um_macs u" "key = None \<longrightarrow> u' = u \<and> pb_counter q = 0"
    "key = None \<longleftrightarrow> umesh_l2_nbtable_find (um_nbtable u) (pb_dtid p) = None"
    "um_nbdiscovery u' = um_nbdiscovery u"
  using assms by (auto simp: umesh_send_neighbour_def Let_def split: option.splits)

text \<open>All of \<open>umesh_l2_send\<close> on its possible inputs, with the bytes that it transmits.\<close>

lemma umesh_l2_send_cases:
  assumes "length sandbox = 140" "pb_len p \<le> length (pb_data p)"
    and route: "umesh_l2_send_route_pbuf u p = (routed, p1)"
    and nb: "umesh_send_neighbour u p1 = (key, u', q)"
  shows "umesh_l2_send mac_send sandbox u p =
    (if \<not> routed then Some (L2_UNROUTABLE, u, p1, None)
     else if \<not> umesh_l2_send_check q then Some (L2_MALFORMED, u', q, None)
     else if ae_mode (pb_sec_algo q) \<and> key = None then Some (L2_FAILED, u', q, None)
     else if um_macs u 0 then
       let frame = take (length (frame_bytes q) + 1) (frame_bytes q @ drop (length (frame_bytes q)) sandbox)
       in Some (if mac_send frame then L2_OK else L2_FAILED, u', q, Some frame)
     else Some (L2_OK, u', q, None))"
proof (cases "routed \<and> umesh_l2_send_check q")
  case False
  then show ?thesis by (auto simp: umesh_l2_send_def route nb)
next
  case True
  let ?h = "header_bytes q" and ?d = "data_bytes (header_bytes q) q"
  note rf = route_fields [OF route] and nf = neighbour_fields [OF nb]
  have len: "pb_len q \<le> 120" "pb_len q \<le> length (pb_data q)"
    using True assms(2) rf nf by (auto simp: umesh_l2_send_check_def UMESH_L2_PACKET_SIZE_def)
  have algo: "pb_sec_algo q \<in> {SECURITY_ALGO_NONE, SECURITY_ALGO_CRC16_CCITT} \<or> ae_mode (pb_sec_algo q)"
    using route_sec_algo [OF route] nf by simp
  have hb: "umesh_l2_build_header q sandbox = Some (L2_OK, ?h @ drop (length ?h) sandbox, length ?h)"
    using assms(1) by (simp add: build_header_bytes)
  have iface: "pb_iface q = 0" using rf nf True by simp
  show ?thesis
  proof (cases "ae_mode (pb_sec_algo q) \<and> key = None")
    case None: True
    then obtain r where r: "umesh_l2_build_data q (?h @ drop (length ?h) sandbox) (length ?h)
        (length sandbox - length ?h) None 32 = Some (r, ?h @ drop (length ?h) sandbox, length ?h)" "r \<noteq> L2_OK"
      using build_data_no_ae_key by blast
    with True None show ?thesis by (simp add: umesh_l2_send_def route nb hb)
  next
    case False
    have "umesh_l2_build_data q (?h @ drop (length ?h) sandbox) (length ?h)
        (length (drop (length ?h) sandbox)) key 32 =
      Some (L2_OK, (?h @ ?d) @ drop (length ?d) (drop (length ?h) sandbox), length ?h + length ?d)"
      using length_header_bytes [of q] len assms(1) algo False by (intro build_data_frame) auto
    then have bd: "umesh_l2_build_data q (?h @ drop (length ?h) sandbox) (length ?h)
        (length sandbox - length ?h) key 32 =
      Some (L2_OK, frame_bytes q @ drop (length (frame_bytes q)) sandbox, length (frame_bytes q))"
      by (simp add: frame_bytes_def add.commute)
    have "length ?d \<le> pb_len q + 6" using length_data_bytes [OF algo, of ?h] len by (simp add: payload_def)
    then have "length (frame_bytes q) \<le> 138" using length_header_bytes [of q] len by (simp add: frame_bytes_def)
    then have "mem_read (frame_bytes q @ drop (length (frame_bytes q)) sandbox) 0 (length (frame_bytes q) + 1) =
        Some (take (length (frame_bytes q) + 1) (frame_bytes q @ drop (length (frame_bytes q)) sandbox))"
      using assms(1) by (simp add: mem_read_def)
    with True False show ?thesis by (simp add: umesh_l2_send_def route nb hb bd iface nf Let_def)
  qed
qed

text \<open>
  Sending never reads or writes outside of the 140 byte sandbox, although the code
  checks the room in each builder separately and gives the MAC one byte more than was built: for
  every packet whose payload lies in its buffer the call returns, and the frame is at most 139
  bytes long.
\<close>

theorem umesh_send_safe:
  assumes "length sandbox = 140" "pb_len p \<le> length (pb_data p)"
  shows "\<exists>r u' q frame. umesh_l2_send mac_send sandbox u p = Some (r, u', q, frame) \<and>
    (case frame of None \<Rightarrow> True | Some f \<Rightarrow> 0 < length f \<and> length f \<le> 139)"
proof -
  obtain routed p1 where route: "umesh_l2_send_route_pbuf u p = (routed, p1)" by fastforce
  obtain key u' q where nb: "umesh_send_neighbour u p1 = (key, u', q)" by (metis prod_cases3)
  have algo: "pb_sec_algo q \<in> {SECURITY_ALGO_NONE, SECURITY_ALGO_CRC16_CCITT} \<or> ae_mode (pb_sec_algo q)"
    using route_sec_algo [OF route] neighbour_fields [OF nb] by simp
  have "umesh_l2_send_check q \<Longrightarrow> length (frame_bytes q) \<le> 138"
    using length_data_bytes [OF algo, of "header_bytes q"] length_header_bytes [of q]
    by (auto simp: frame_bytes_def payload_def umesh_l2_send_check_def UMESH_L2_PACKET_SIZE_def)
  moreover have "0 < length (frame_bytes q)" using length_header_bytes(1) [of q] by (cases "header_bytes q") (simp_all add: frame_bytes_def)
  ultimately show ?thesis
    by (auto simp: umesh_l2_send_cases [OF assms route nb] Let_def assms(1))
qed


subsection \<open>Receiving\<close>

lemma rx_pbuf_fields:
  "length (pb_data (umesh_rx_pbuf p info iface)) = length (pb_data p)"
  "pb_flags (umesh_rx_pbuf p info iface) = UMESH_L2_PBUF_FLAG_USED"
  by (simp_all add: umesh_rx_pbuf_def)

lemma receive_neighbour_fields:
  assumes "umesh_receive_neighbour u p = (nb, q)"
  shows "nb = umesh_l2_nbtable_find (um_nbtable u) (pb_stid p)" "pb_data q = pb_data p" "pb_proto q = pb_proto p"
    "pb_stid q = pb_stid p" "pb_dtid q = pb_dtid p" "pb_flags q = pb_flags p" "pb_sec_algo q = pb_sec_algo p"
    "pb_len q = pb_len p"
  using assms by (auto simp: umesh_receive_neighbour_def Let_def split: if_splits)

lemma two_bit_protocol:
  "unat (push_bit 2 (take_bit 2 x) OR take_bit 2 y :: u8) < 16" "unat (take_bit 2 x :: u8) < 16"
proof -
  have low: "unat p < 16" if "take_bit 4 p = p" for p :: u8
  proof -
    have "unat p = take_bit 4 (unat p)" using that by (metis unsigned_take_bit_eq)
    also have "\<dots> < 2 ^ 4" by (rule take_bit_nat_less_exp)
    finally show ?thesis by simp
  qed
  show "unat (push_bit 2 (take_bit 2 x) OR take_bit 2 y :: u8) < 16"
    by (rule low, rule bit_eqI) (auto simp: bit_simps)
  show "unat (take_bit 2 x :: u8) < 16" by (rule low) simp
qed

lemma parse_control_proto:
  assumes "umesh_l2_parse_control m pos len p = Some (L2_OK, pos', p')"
  shows "unat (pb_proto p') < 16"
  using assms
  by (auto simp: umesh_l2_parse_control_def [unfolded and_3_take_bit] Let_def two_bit_protocol
      split: if_splits option.splits)

lemma parse_data_keeps:
  assumes "umesh_l2_parse_data m pos len p = Some (r, pos', p')"
  shows "pb_stid p' = pb_stid p" "pb_proto p' = pb_proto p" "pb_dtid p' = pb_dtid p" "pb_flags p' = pb_flags p"
proof -
  have plain: "parse_data_plain m pos len q = Some (r, pos', p') \<Longrightarrow> pb_stid p' = pb_stid q \<and> pb_proto p' = pb_proto q \<and>
      pb_dtid p' = pb_dtid q \<and> pb_flags p' = pb_flags q" for q
    by (auto simp: parse_data_plain_def split: if_splits option.splits)
  have crc: "parse_data_crc m h pos len q = Some (r, pos', p') \<Longrightarrow> pb_stid p' = pb_stid q \<and> pb_proto p' = pb_proto q \<and>
      pb_dtid p' = pb_dtid q \<and> pb_flags p' = pb_flags q" for q h
    by (auto simp: parse_data_crc_def Let_def split: if_splits option.splits)
  have ae: "parse_data_ae m h pos len q = Some (r, pos', p') \<Longrightarrow> pb_stid p' = pb_stid q \<and> pb_proto p' = pb_proto q \<and>
      pb_dtid p' = pb_dtid q \<and> pb_flags p' = pb_flags q" for q h
    by (auto simp: parse_data_ae_def Let_def split: if_splits option.splits prod.splits)
  show "pb_stid p' = pb_stid p" "pb_proto p' = pb_proto p" "pb_dtid p' = pb_dtid p" "pb_flags p' = pb_flags p"
    using assms plain crc ae by (fastforce simp: umesh_l2_parse_data_def Let_def split: if_splits)+
qed

lemma parse_header_safe:
  assumes "len \<le> length m"
  shows "\<exists>r pos p'. umesh_l2_parse_header m len p = Some (r, pos, p') \<and> pos \<le> len \<and>
    pb_data p' = pb_data p \<and> (r = L2_OK \<longrightarrow> unat (pb_proto p') < 16)"
proof -
  obtain r pos p1 where c: "umesh_l2_parse_control m 0 len p = Some (r, pos, p1)" "pos \<le> len" "pb_data p1 = pb_data p"
    using parse_control_safe [of 0 len m p] assms by auto
  have proto: "r = L2_OK \<Longrightarrow> unat (pb_proto p1) < 16" using parse_control_proto c by simp
  have t: "\<exists>r pos' t. umesh_l2_parse_tid m pos (len - pos) = Some (r, pos', t) \<and> pos' \<le> len" if "pos \<le> len" for pos
    using parse_tid_safe [of pos "len - pos" m] that assms by auto
  obtain r2 pos2 t2 where t2: "umesh_l2_parse_tid m pos (len - pos) = Some (r2, pos2, t2)" "pos2 \<le> len"
    using t [OF c(2)] by auto
  obtain r3 pos3 t3 where t3: "umesh_l2_parse_tid m pos2 (len - pos2) = Some (r3, pos3, t3)" "pos3 \<le> len"
    using t [OF t2(2)] by auto
  show ?thesis
    using c t2 t3 proto by (simp add: umesh_l2_parse_header_def)
qed

lemma receive_len:
  assumes "len < 2 ^ 32"
  shows "umesh_l2_receive_check ((len + (2 ^ 32 - 1)) mod 2 ^ 32) \<Longrightarrow>
    (len + (2 ^ 32 - 1)) mod 2 ^ 32 = len - 1 \<and> 3 \<le> len \<and> len \<le> 121"
proof -
  assume ch: "umesh_l2_receive_check ((len + (2 ^ 32 - 1)) mod 2 ^ 32)"
  have "len > 0"
    using ch by (cases len) (auto simp: umesh_l2_receive_check_def UMESH_L2_PACKET_SIZE_def)
  then have "len + (2 ^ 32 - 1) = len - 1 + 2 ^ 32" by simp
  then have "(len + (2 ^ 32 - 1)) mod 2 ^ 32 = (len - 1) mod 2 ^ 32" by (simp del: power_numeral)
  also have "\<dots> = len - 1" using assms by (intro mod_less) simp
  finally have e: "(len + (2 ^ 32 - 1)) mod 2 ^ 32 = len - 1" .
  with ch show ?thesis by (auto simp: umesh_l2_receive_check_def UMESH_L2_PACKET_SIZE_def)
qed

text \<open>
  Property C2. Receiving is memory safe on every input: whatever bytes the radio delivers,
  the call returns without touching a byte outside of the received packet or of the 120 byte packet
  buffer, and without indexing the table of layer 3 protocols out of range. (The latter
  is due to the four bits of the protocol field; the code's own bound check lets 16 pass.)
\<close>

theorem umesh_receive_safe:
  assumes "len \<le> length data" "len < 2 ^ 32" "length (pb_data (um_pbuf u)) = UMESH_L2_PACKET_SIZE"
    and "length protocols = UMESH_L3_PROTOCOL_COUNT"
  shows "\<exists>r u'. umesh_l2_receive protocols u data len info iface = Some (r, u')"
proof -
  let ?p = "umesh_rx_pbuf (um_pbuf u) info iface" and ?len = "(len + (2 ^ 32 - 1)) mod 2 ^ 32"
  show ?thesis
  proof (cases "umesh_l2_receive_check ?len")
    case True
    note len = receive_len [OF assms(2) True]
    have le: "len - 1 \<le> length data" using assms by simp
    obtain r pos p1 where h: "umesh_l2_parse_header data (len - 1) ?p = Some (r, pos, p1)" "pos \<le> len - 1"
      "pb_data p1 = pb_data ?p" "r = L2_OK \<longrightarrow> unat (pb_proto p1) < 16"
      using parse_header_safe [OF le, of ?p] by auto
    obtain nb p2 where nb: "umesh_receive_neighbour u p1 = (nb, p2)" by fastforce
    have p2: "length (pb_data p2) = 120" "pb_proto p2 = pb_proto p1"
      using h assms(3) receive_neighbour_fields [OF nb] by (simp_all add: rx_pbuf_fields UMESH_L2_PACKET_SIZE_def)
    obtain r3 pos3 p3 where d: "umesh_l2_parse_data data pos (len - 1 - pos) p2 = Some (r3, pos3, p3)"
      "pb_proto p3 = pb_proto p2"
    proof -
      have "pos + (len - 1 - pos) \<le> length data" "len - 1 - pos \<le> length (pb_data p2)"
        using h(2) le p2 len by auto
      from parse_data_safe [OF this] show ?thesis using that by blast
    qed
    show ?thesis
      using True h d p2 assms(4) len
      by (auto simp: umesh_l2_receive_def Let_def UMESH_L3_PROTOCOL_COUNT_def nb simp del: power_numeral
          split: option.split)
  qed (simp add: umesh_l2_receive_def Let_def)
qed

text \<open>
  Property C10. A layer 3 handler only runs on a packet that is not empty and that is
  addressed to this node: a broadcast, or one whose destination is the present or the previous
  identifier of the node (and not 0). The state that the call returns is what the handler made of
  the module with that packet, plus the statistics of the sender.
\<close>

theorem umesh_receive_delivers:
  assumes "umesh_l2_receive protocols u data len info iface = Some (L2_OK, u')"
  shows "\<exists>rx h n. u' = umesh_rx_stats n ((len + (2 ^ 32 - 1)) mod 2 ^ 32) False (h (u\<lparr>um_pbuf := rx\<rparr>)) \<and>
    n = umesh_l2_nbtable_find (um_nbtable u) (pb_stid rx) \<and>
    unat (pb_proto rx) < length protocols \<and> protocols ! unat (pb_proto rx) = Some h \<and> pb_len rx \<noteq> 0 \<and>
    (pbuf_broadcast rx \<or> pb_dtid rx \<noteq> 0 \<and>
      (pb_dtid rx = nd_tid_current (um_nbdiscovery u) \<or> pb_dtid rx = nd_tid_last (um_nbdiscovery u)))"
proof -
  let ?p = "umesh_rx_pbuf (um_pbuf u) info iface" and ?len = "(len + (2 ^ 32 - 1)) mod 2 ^ 32"
  from assms obtain pos p1 where h: "umesh_l2_parse_header data ?len ?p = Some (L2_OK, pos, p1)"
    by (auto simp: umesh_l2_receive_def Let_def simp del: power_numeral split: if_splits option.splits)
  obtain nb p2 where nb: "umesh_receive_neighbour u p1 = (nb, p2)" by fastforce
  from assms h obtain pos3 rx where d: "umesh_l2_parse_data data pos (?len - pos) p2 = Some (L2_OK, pos3, rx)"
    by (auto simp: umesh_l2_receive_def Let_def nb simp del: power_numeral split: if_splits option.splits)
  note dk = parse_data_keeps [OF d]
  have p1: "pb_stid p1 = pb_stid rx" using dk receive_neighbour_fields [OF nb] by simp
  have route: "umesh_l2_receive_route_pbuf (u\<lparr>um_pbuf := rx\<rparr>) rx \<Longrightarrow>
    (pbuf_broadcast rx \<or> pb_dtid rx \<noteq> 0 \<and>
      (pb_dtid rx = nd_tid_current (um_nbdiscovery u) \<or> pb_dtid rx = nd_tid_last (um_nbdiscovery u)))"
    by (auto simp: umesh_l2_receive_route_pbuf_def split: if_splits)
  from assms have "umesh_l2_receive_check ?len"
    by (auto simp: umesh_l2_receive_def Let_def simp del: power_numeral split: if_splits)
  with assms h d have "\<exists>h. u' = umesh_rx_stats nb ?len False (h (u\<lparr>um_pbuf := rx\<rparr>)) \<and>
      unat (pb_proto rx) < length protocols \<and> protocols ! unat (pb_proto rx) = Some h \<and> pb_len rx \<noteq> 0 \<and>
      umesh_l2_receive_route_pbuf (u\<lparr>um_pbuf := rx\<rparr>) rx"
    by (auto simp: umesh_l2_receive_def Let_def nb simp del: power_numeral split: if_splits option.splits)
  with route p1 receive_neighbour_fields(1) [OF nb] show ?thesis by metis
qed


lemma sent_header_fields:
  assumes "pb_proto q < 4" "pb_sec_algo q < 4"
  shows "pb_proto (header_received q rx) = pb_proto q" "pb_sec_algo (header_received q rx) = pb_sec_algo q"
    "pb_stid (header_received q rx) = pb_stid q" "pb_data (header_received q rx) = pb_data rx"
    "\<not> pbuf_broadcast q \<Longrightarrow> pb_dtid (header_received q rx) = pb_dtid q"
    "pbuf_broadcast q \<Longrightarrow> pbuf_broadcast (header_received q rx)"
proof -
  note small = small_two_bits [OF assms(1)] small_two_bits [OF assms(2)]
  show "pb_proto (header_received q rx) = pb_proto q" "pb_sec_algo (header_received q rx) = pb_sec_algo q"
    using small by (simp_all add: header_received_def Let_def control_proto_seen_def and_3_take_bit control_bytes_def
        control_byte2_def)
  show "pb_stid (header_received q rx) = pb_stid q" "pb_data (header_received q rx) = pb_data rx"
    "\<not> pbuf_broadcast q \<Longrightarrow> pb_dtid (header_received q rx) = pb_dtid q"
    by (simp_all add: header_received_def Let_def)
  show "pbuf_broadcast q \<Longrightarrow> pbuf_broadcast (header_received q rx)"
    by (simp add: header_received_def Let_def pbuf_broadcast_def broadcast_flag_nonzero)
qed

lemma receive_frame:
  assumes "frame = frame_bytes q @ [x]" "length frame \<le> 121" "pb_len q \<le> length (pb_data q)" "0 < pb_len q"
    and "length (pb_data (um_pbuf b)) = UMESH_L2_PACKET_SIZE" "pb_proto q < 4" "pb_sec_algo q < 4"
    and "pb_sec_algo q \<in> {SECURITY_ALGO_NONE, SECURITY_ALGO_CRC16_CCITT} \<or>
      ae_mode (pb_sec_algo q) \<and> pb_counter q \<noteq> 0"
    and "pbuf_broadcast q \<or> pb_dtid q \<noteq> 0 \<and> pb_dtid q = nd_tid_current (um_nbdiscovery b)"
    and "unat (pb_proto q) < length protocols" "protocols ! unat (pb_proto q) = Some h"
  shows "\<exists>rx. umesh_l2_receive protocols b frame (length frame) info iface =
      Some (L2_OK, umesh_rx_stats (umesh_l2_nbtable_find (um_nbtable b) (pb_stid q)) (length frame - 1) False
        (h (b\<lparr>um_pbuf := rx\<rparr>))) \<and>
    payload rx = payload q \<and> pb_len rx = pb_len q \<and> pb_stid rx = pb_stid q \<and> pb_proto rx = pb_proto q \<and>
    pb_sec_type rx = data_sec_type (pb_sec_algo q)"
proof -
  let ?h = "header_bytes q" and ?d = "data_bytes (header_bytes q) q"
  let ?len = "(length frame + (2 ^ 32 - 1)) mod 2 ^ 32" and ?rx = "umesh_rx_pbuf (um_pbuf b) info iface"
  have l: "length frame = length ?h + length ?d + 1" by (simp add: assms(1) frame_bytes_def)
  have len: "?len = length ?h + length ?d"
  proof -
    have "length frame + (2 ^ 32 - 1) = length ?h + length ?d + 2 ^ 32" using l by simp
    then have "?len = (length ?h + length ?d) mod 2 ^ 32" by (simp del: power_numeral)
    then show ?thesis using l assms(2) by simp
  qed
  have check: "umesh_l2_receive_check ?len"
    using len l assms(2) length_header_bytes [of q] by (simp add: umesh_l2_receive_check_def UMESH_L2_PACKET_SIZE_def)
  have hdr: "umesh_l2_parse_header frame ?len ?rx = Some (L2_OK, length ?h, header_received q ?rx)"
    using parse_header_bytes [of q ?len ?rx "?d @ [x]"] len by (simp add: assms(1) frame_bytes_def rx_pbuf_fields)
  note hf = sent_header_fields [OF assms(6,7), of ?rx]
  obtain nb p2 where nb: "umesh_receive_neighbour b (header_received q ?rx) = (nb, p2)" by fastforce
  note nf = receive_neighbour_fields [OF nb]
  have pl: "length (payload q) = pb_len q" using assms(3) by (simp add: payload_def)
  have "pb_len q \<le> 120"
  proof -
    have "pb_len q \<le> length ?d" using pl by (simp add: data_bytes_def Let_def)
    then show ?thesis using l assms(2) by linarith
  qed
  then have room: "pb_len q \<le> length (pb_data p2)"
    using hf nf assms(5) by (simp add: rx_pbuf_fields UMESH_L2_PACKET_SIZE_def)
  obtain pos rx where d: "umesh_l2_parse_data frame (length ?h) (length ?d) p2 = Some (L2_OK, pos, rx)"
    "payload rx = payload q" "pb_len rx = pb_len q" "pb_sec_type rx = data_sec_type (pb_sec_algo q)"
  proof -
    have "0 < length ?h" "length ?h < 256" using length_header_bytes [of q] by linarith+
    from parse_data_bytes [OF refl this assms(3) room _ assms(8), of "[x]"] hf nf that show ?thesis
      by (auto simp: assms(1) frame_bytes_def)
  qed
  note dk = parse_data_keeps [OF d(1)]
  have route: "umesh_l2_receive_route_pbuf (b\<lparr>um_pbuf := rx\<rparr>) rx"
  proof (cases "pbuf_broadcast q")
    case True
    then have "pbuf_broadcast rx" using hf(6) dk(4) nf(6) unfolding pbuf_broadcast_def by simp
    then show ?thesis by (simp add: umesh_l2_receive_route_pbuf_def)
  next
    case False
    then have "pb_dtid rx = pb_dtid q" using hf(5) dk nf by simp
    with False assms(9) show ?thesis by (auto simp: umesh_l2_receive_route_pbuf_def)
  qed
  have small: "unat (pb_proto q) < 4" using assms(6) by (simp add: word_less_nat_alt)
  have nbq: "nb = umesh_l2_nbtable_find (um_nbtable b) (pb_stid q)" using nf hf by simp
  have "umesh_l2_receive protocols b frame (length frame) info iface =
      Some (L2_OK, umesh_rx_stats nb (length frame - 1) False (h (b\<lparr>um_pbuf := rx\<rparr>)))"
    using check hdr d dk nf hf route small assms(4,10,11) len l
    by (simp add: umesh_l2_receive_def Let_def nb UMESH_L3_PROTOCOL_COUNT_def del: power_numeral)
  with d dk nf hf nbq show ?thesis by auto
qed

lemma sent_frame:
  assumes "umesh_l2_send mac_send sandbox a p = Some (r, a', q, Some frame)"
    and "length sandbox = 140" "pb_len p \<le> length (pb_data p)"
  shows "\<exists>x. frame = frame_bytes q @ [x]" "pbuf_broadcast q = pbuf_broadcast p"
    "data_sec_type (pb_sec_algo q) = pb_sec_type p" "pb_sec_algo q < 4" "umesh_l2_send_check q"
    "pb_proto q = pb_proto p" "pb_len q = pb_len p" "pb_data q = pb_data p" "pb_dtid q = pb_dtid p"
    "pb_stid p \<noteq> 0 \<Longrightarrow> pb_stid q = pb_stid p"
    "pb_sec_algo q \<in> {SECURITY_ALGO_NONE, SECURITY_ALGO_CRC16_CCITT} \<or> ae_mode (pb_sec_algo q)"
proof -
  obtain routed p1 where route: "umesh_l2_send_route_pbuf a p = (routed, p1)" by fastforce
  obtain key u' q' where nb: "umesh_send_neighbour a p1 = (key, u', q')" by (metis prod_cases3)
  note sc = umesh_l2_send_cases [OF assms(2,3) route nb, of mac_send]
  have sent: "routed" "umesh_l2_send_check q'" "q' = q"
    "frame = take (length (frame_bytes q) + 1) (frame_bytes q @ drop (length (frame_bytes q)) sandbox)"
    using assms(1) unfolding sc by (auto simp: Let_def split: if_splits)
  note rf = route_fields [OF route] and nf = neighbour_fields [OF nb, unfolded sent(3)]
  show algo: "pb_sec_algo q \<in> {SECURITY_ALGO_NONE, SECURITY_ALGO_CRC16_CCITT} \<or> ae_mode (pb_sec_algo q)"
    using route_sec_algo [OF route] nf by simp
  have lq: "length (frame_bytes q) \<le> 138"
    using length_data_bytes [OF algo, of "header_bytes q"] length_header_bytes [of q] sent
    by (auto simp: frame_bytes_def payload_def umesh_l2_send_check_def UMESH_L2_PACKET_SIZE_def)
  then show "\<exists>x. frame = frame_bytes q @ [x]"
    using sent(4) assms(2) by (cases "drop (length (frame_bytes q)) sandbox") auto
  show "pbuf_broadcast q = pbuf_broadcast p" using rf nf by (simp add: pbuf_broadcast_def)
  show "data_sec_type (pb_sec_algo q) = pb_sec_type p" "pb_sec_algo q < 4" "pb_proto q = pb_proto p"
    "pb_len q = pb_len p" "pb_data q = pb_data p" "pb_dtid q = pb_dtid p" "umesh_l2_send_check q"
    using rf nf sent by simp_all
  show "pb_stid p \<noteq> 0 \<Longrightarrow> pb_stid q = pb_stid p"
    using route nf by (auto simp: umesh_l2_send_route_pbuf_def Let_def split: pbuf_security_type.splits if_splits)
qed

text \<open>
  Property C1. What one node sends another one delivers. When a node hands its MAC a frame for a
  packet with a payload and one of the protocols 0 to 3, and a node with the addressed identifier (or any
  node, for a broadcast) receives that frame, then the handler of the protocol runs on a buffer with
  the same payload, sender identifier and security, whether the receiver knows the sender or not: it has no
  check of the sender, although the comment on the routing function says that packets of unknown senders are
  dropped. The frame must fit the receiver's limit of 120
  bytes, which the sender does not enforce, and an encrypted packet must not be the very first one
  to its neighbour (counter 0, which the receiver leaves encrypted).
\<close>

theorem umesh_send_receive:
  assumes "umesh_l2_send mac_send sandbox a p = Some (r, a', q, Some frame)"
    and "length sandbox = 140" "pb_len p \<le> length (pb_data p)" "0 < pb_len p" "pb_proto p < 4"
    and "length frame \<le> 121" "pb_sec_type p = UMESH_L2_PBUF_SECURITY_AE \<longrightarrow> pb_counter q \<noteq> 0"
    and "length (pb_data (um_pbuf b)) = UMESH_L2_PACKET_SIZE"
    and "pbuf_broadcast p \<or> pb_dtid p = nd_tid_current (um_nbdiscovery b)"
    and "unat (pb_proto p) < length protocols" "protocols ! unat (pb_proto p) = Some h"
  shows "\<exists>rx. umesh_l2_receive protocols b frame (length frame) info iface =
      Some (L2_OK, umesh_rx_stats (umesh_l2_nbtable_find (um_nbtable b) (pb_stid q)) (length frame - 1) False
        (h (b\<lparr>um_pbuf := rx\<rparr>))) \<and>
    payload rx = payload p \<and> pb_len rx = pb_len p \<and> pb_stid rx = pb_stid q \<and> pb_proto rx = pb_proto p \<and> pb_sec_type rx = pb_sec_type p"
proof -
  note sf = sent_frame [OF assms(1-3)]
  obtain x where frame: "frame = frame_bytes q @ [x]" using sf(1) by blast
  have algo: "pb_sec_algo q \<in> {SECURITY_ALGO_NONE, SECURITY_ALGO_CRC16_CCITT} \<or>
      ae_mode (pb_sec_algo q) \<and> pb_counter q \<noteq> 0"
    using sf(11,3) assms(7) by (auto simp: ae_mode_def data_sec_type_def)
  have dest: "pbuf_broadcast q \<or> pb_dtid q \<noteq> 0 \<and> pb_dtid q = nd_tid_current (um_nbdiscovery b)"
    using assms(9) sf by (auto simp: umesh_l2_send_check_def)
  show ?thesis
    using receive_frame [OF frame assms(6) _ _ assms(8) _ sf(4) algo dest, of protocols h info iface] assms sf
    by (auto simp: payload_def)
qed

subsection \<open>Beacons\<close>

lemma beacon_build:
  assumes "nbdiscovery_build tid (umesh_l2_pbuf_clear p0) = Some p"
  shows "pb_len p = 1" "payload p = [0]" "pb_len p \<le> length (pb_data p)" "pb_proto p = 0" "pb_stid p = tid" "pbuf_broadcast p"
    "pb_sec_type p = UMESH_L2_PBUF_SECURITY_VERIFY"
  using assms
  by (cases "pb_data p0"; auto simp: nbdiscovery_build_def Let_def payload_def pbuf_broadcast_def broadcast_flag_nonzero
      umesh_l2_pbuf_clear_def split: if_splits)+

lemma beacon_handled:
  assumes "payload rx = [0]" "pb_len rx = 1" "pb_sec_type rx = UMESH_L2_PBUF_SECURITY_VERIFY"
  shows "nbdiscovery_receive_handler xs rx = nbdiscovery_process_adv_basic xs
    \<lparr>adv_tid = pb_stid rx, adv_fei_hz = pb_fei rx, adv_rssi_10dBm = pb_rssi rx\<rparr>"
proof -
  have "mem_get (pb_data rx) 0 = Some 0"
    using assms(1,2) by (cases "pb_data rx") (auto simp: payload_def mem_get_def)
  then show ?thesis
    using assms by (simp add: nbdiscovery_receive_handler_def nbdiscovery_receive_check_def nbdiscovery_parse_def Let_def)
qed

text \<open>The statistics leave the identity and the age of the sender's entry alone.\<close>

lemma rx_stats_known:
  assumes "mesh_nbtable_inv (um_nbtable u)" "umesh_l2_nbtable_find xs t = Some i"
    and "i < length (um_nbtable u)" "nb_item_used (um_nbtable u ! i)" "ni_tid (um_nbtable u ! i) = t"
  shows "\<exists>item. mesh_neighbours (um_nbtable (umesh_rx_stats (Some i) len d u)) t = Some item \<and>
    ni_unreachable_time_msec item = ni_unreachable_time_msec (um_nbtable u ! i)"
proof -
  obtain y where y: "um_nbtable (umesh_rx_stats (Some i) len d u) = (um_nbtable u)[i := y]"
    "nb_item_used y" "ni_tid y = t" "ni_unreachable_time_msec y = ni_unreachable_time_msec (um_nbtable u ! i)"
    using assms(4,5) by (auto simp: umesh_rx_stats_def Let_def nb_item_used_def)
  have "mesh_neighbours ((um_nbtable u)[i := y]) = (mesh_neighbours (um_nbtable u))(t \<mapsto> y)"
    using assms y by (intro neighbours_update) auto
  with y show ?thesis by simp
qed

lemma beacon_recorded:
  assumes inv: "mesh_nbtable_inv xs" and free: "\<not> list_all nb_item_used xs"
    and "adv_tid msg = t" "um_nbtable u = snd (nbdiscovery_process_adv_basic xs msg)"
  shows "\<exists>item. mesh_neighbours (um_nbtable (umesh_rx_stats (umesh_l2_nbtable_find xs t) len d u)) t = Some item \<and>
    ni_unreachable_time_msec item = 0"
proof (cases "umesh_l2_nbtable_find xs t")
  case None
  then have none: "mesh_neighbours xs (adv_tid msg) = None"
    using assms(3) by (simp add: mesh_neighbours_def table_lookup_def nbtable_find_table)
  have "fst (nbdiscovery_process_adv_basic xs msg)"
    using None assms(3) free
    by (auto simp: nbdiscovery_process_adv_basic_def nbtable_allocate_table Let_def table_alloc_None list_all_iff
        split: option.split)
  then have "nbdiscovery_process_adv_basic xs msg = (True, um_nbtable u)"
    using assms(4) by (metis prod.collapse)
  from adv_basic_new [OF inv none this] None show ?thesis by (auto simp: umesh_rx_stats_def assms(3))
next
  case (Some i)
  note i = table_find_Some [OF Some [unfolded nbtable_find_table]]
  have u: "um_nbtable u = xs[i := beacon_entry msg (xs ! i)]"
    using Some assms(3,4) by (simp add: nbdiscovery_process_adv_basic_def Let_def beacon_entry_def)
  have inv': "mesh_nbtable_inv (um_nbtable u)" using adv_basic_inv [OF inv, of msg] assms(4) by simp
  show ?thesis
    using rx_stats_known [OF inv' Some, of len d] i by (auto simp: Some u nb_item_used_def beacon_entry_def)
qed

text \<open>
  Property C11. A beacon reaches the neighbour table. The frame that a node sends for its
  beacon, received by a node whose discovery handler is registered and whose table has a free
  entry, leaves the sender's identifier in that node's table, just heard of.
\<close>

theorem beacon_reaches_neighbour:
  assumes "nbdiscovery_build tid (umesh_l2_pbuf_clear p0) = Some p" "tid \<noteq> 0"
    and "umesh_l2_send mac_send sandbox a p = Some (r, a', q, Some frame)" "length sandbox = 140"
    and "length (pb_data (um_pbuf b)) = UMESH_L2_PACKET_SIZE"
    and "protocols \<noteq> []" "protocols ! 0 = Some umesh_nbdiscovery_handler"
    and "mesh_nbtable_inv (um_nbtable b)" "\<not> list_all nb_item_used (um_nbtable b)"
  shows "\<exists>b' item. umesh_l2_receive protocols b frame (length frame) info iface = Some (L2_OK, b') \<and>
    mesh_neighbours (um_nbtable b') tid = Some item \<and> ni_unreachable_time_msec item = 0"
proof -
  note bb = beacon_build [OF assms(1)]
  note sf = sent_frame [OF assms(3,4) bb(3)]
  obtain x where frame: "frame = frame_bytes q @ [x]" using sf(1) by blast
  have pl: "payload q = [0]" using sf bb by (simp add: payload_def)
  have tid: "pb_stid q = tid" using sf bb assms(2) by simp
  have "length (data_bytes (header_bytes q) q) \<le> 7"
    using length_data_bytes [OF sf(11), of "header_bytes q"] pl by simp
  then have short: "length frame \<le> 121"
    using length_header_bytes [of q] by (simp add: frame frame_bytes_def)
  have sec: "pb_sec_algo q \<in> {SECURITY_ALGO_NONE, SECURITY_ALGO_CRC16_CCITT} \<or>
      ae_mode (pb_sec_algo q) \<and> pb_counter q \<noteq> 0"
    using sf(3,11) bb(7) by (auto simp: data_sec_type_def ae_mode_def split: if_splits)
  have proto: "pb_proto q < 4" "unat (pb_proto q) < length protocols"
    "protocols ! unat (pb_proto q) = Some umesh_nbdiscovery_handler"
    using sf bb assms(6,7) by simp_all
  have "pb_len q \<le> length (pb_data q)" "0 < pb_len q" "pbuf_broadcast q" using sf bb by simp_all
  then obtain rx where rx: "umesh_l2_receive protocols b frame (length frame) info iface =
      Some (L2_OK, umesh_rx_stats (umesh_l2_nbtable_find (um_nbtable b) (pb_stid q)) (length frame - 1) False
        (umesh_nbdiscovery_handler (b\<lparr>um_pbuf := rx\<rparr>)))"
    "payload rx = payload q" "pb_len rx = pb_len q" "pb_stid rx = pb_stid q"
    "pb_sec_type rx = data_sec_type (pb_sec_algo q)"
    using receive_frame [OF frame short _ _ assms(5) proto(1) sf(4) sec _ proto(2,3), of info iface] by auto
  let ?msg = "\<lparr>adv_tid = pb_stid rx, adv_fei_hz = pb_fei rx, adv_rssi_10dBm = pb_rssi rx\<rparr>"
  have "um_nbtable (umesh_nbdiscovery_handler (b\<lparr>um_pbuf := rx\<rparr>)) =
      snd (nbdiscovery_process_adv_basic (um_nbtable b) ?msg)"
    using beacon_handled [of rx "um_nbtable b"] rx pl sf bb by (simp add: umesh_nbdiscovery_handler_def)
  from beacon_recorded [OF assms(8,9) _ this, of tid "length frame - 1" False] rx tid show ?thesis by auto
qed

subsection \<open>A pair of nodes\<close>

definition node_example :: "u32 \<Rightarrow> umesh" where
  "node_example tid =
     \<lparr>um_nbtable = mesh_nbtable_init 4,
      um_nbdiscovery = \<lparr>nd_tid_current = tid, nd_tid_last = 0, nd_last_adv_basic_ms = 0, nd_tid_age_ms = 0\<rparr>,
      um_pbuf = umesh_l2_pbuf_init umesh_l2_pbuf_zero, um_macs = (\<lambda>i. i = 0)\<rparr>"

definition info_example :: mac_packet_info where
  "info_example = \<lparr>mi_rssi = 0, mi_fei = 0, mi_bit_errors = 0\<rparr>"

lemma node_example_pbuf: "length (pb_data (um_pbuf (node_example t))) = UMESH_L2_PACKET_SIZE"
  by (simp add: node_example_def umesh_l2_pbuf_init_def)

lemma umesh_send_safe_witness:
  "\<exists>r u' q frame. umesh_l2_send (\<lambda>_. True) (replicate 140 0) (node_example 7)
    (umesh_l2_pbuf_init umesh_l2_pbuf_zero) = Some (r, u', q, frame)"
  using umesh_send_safe [of "replicate 140 0" "umesh_l2_pbuf_init umesh_l2_pbuf_zero" "\<lambda>_. True" "node_example 7"]
  by (auto simp: umesh_l2_pbuf_init_def umesh_l2_pbuf_clear_def)

lemma umesh_receive_safe_witness:
  "\<exists>r u'. umesh_l2_receive (replicate 16 (Some id)) (node_example 7) (replicate 140 255) 140 info_example 0 =
    Some (r, u')"
  using umesh_receive_safe [of 140 "replicate 140 255" "node_example 7" "replicate 16 (Some id)" info_example 0]
  by (simp add: node_example_pbuf UMESH_L3_PROTOCOL_COUNT_def)

definition beacon_example :: umesh_l2_pbuf where
  "beacon_example = (umesh_l2_pbuf_clear (umesh_l2_pbuf_init umesh_l2_pbuf_zero))
     \<lparr>pb_sec_type := UMESH_L2_PBUF_SECURITY_VERIFY, pb_flags := UMESH_L2_PBUF_FLAG_BROADCAST, pb_proto := 0,
      pb_data := replicate 120 0, pb_stid := 7, pb_len := 1\<rparr>"

lemma beacon_example_built:
  "nbdiscovery_build 7 (umesh_l2_pbuf_clear (umesh_l2_pbuf_init umesh_l2_pbuf_zero)) = Some beacon_example"
proof -
  have "(replicate 120 (0 :: u8))[0 := 0] = replicate 120 0"
    by (simp add: list_update_same_conv)
  then show ?thesis
    by (simp add: nbdiscovery_build_def Let_def beacon_example_def umesh_l2_pbuf_init_def umesh_l2_pbuf_clear_def
        UMESH_L2_PACKET_SIZE_def)
qed

abbreviation sandbox_example :: "u8 list" where "sandbox_example \<equiv> replicate 140 0"

lemma beacon_example_sent:
  "\<exists>a' q frame. umesh_l2_send (\<lambda>_. True) sandbox_example (node_example 7) beacon_example =
    Some (L2_OK, a', q, Some frame) \<and> length frame \<le> 121"
proof -
  note bb = beacon_build [OF beacon_example_built]
  obtain routed p1 where route: "umesh_l2_send_route_pbuf (node_example 7) beacon_example = (routed, p1)" by fastforce
  obtain key u' q where nb: "umesh_send_neighbour (node_example 7) p1 = (key, u', q)" by (metis prod_cases3)
  note rf = route_fields [OF route] and nf = neighbour_fields [OF nb]
  have r: routed "pb_stid p1 = 7" "pb_sec_algo p1 = SECURITY_ALGO_CRC16_CCITT"
    using route bb by (auto simp: umesh_l2_send_route_pbuf_def Let_def split: if_splits)
  have "umesh_l2_send_check q" using r rf nf bb
    by (simp add: umesh_l2_send_check_def UMESH_L2_PACKET_SIZE_def pbuf_broadcast_def)
  moreover have "\<not> ae_mode (pb_sec_algo q)" using r nf by (simp add: ae_mode_def)
  moreover have "um_macs (node_example 7) 0" by (simp add: node_example_def)
  ultimately obtain frame where f: "umesh_l2_send (\<lambda>_. True) sandbox_example (node_example 7) beacon_example =
      Some (L2_OK, u', q, Some frame)"
    using umesh_l2_send_cases [OF _ bb(3) route nb, of sandbox_example "\<lambda>_. True"] r(1) by (simp add: Let_def)
  note sf = sent_frame [OF f _ bb(3)]
  have "length (data_bytes (header_bytes q) q) \<le> pb_len q + 6"
    using length_data_bytes [OF sf(11), of "header_bytes q"] by (simp add: payload_def)
  then have "length frame \<le> 121"
    using sf(1,7) length_header_bytes [of q] bb(1) by (auto simp: frame_bytes_def)
  with f show ?thesis by blast
qed

lemma beacon_reaches_neighbour_witness:
  "\<exists>frame b' item. umesh_l2_receive [Some umesh_nbdiscovery_handler] (node_example 9) frame (length frame) info_example 0 =
    Some (L2_OK, b') \<and> mesh_neighbours (um_nbtable b') 7 = Some item"
proof -
  obtain a' q frame where f: "umesh_l2_send (\<lambda>_. True) sandbox_example (node_example 7) beacon_example =
      Some (L2_OK, a', q, Some frame)"
    using beacon_example_sent by blast
  have "mesh_nbtable_inv (um_nbtable (node_example 9))" "\<not> list_all nb_item_used (um_nbtable (node_example 9))"
    by (simp_all add: node_example_def mesh_nbtable_init_inv)
      (simp add: list_all_iff mesh_nbtable_init_def nb_item_used_def mesh_nb_item_zero_def)
  from beacon_reaches_neighbour [OF beacon_example_built _ f _ node_example_pbuf _ _ this,
      of "[Some umesh_nbdiscovery_handler]" info_example 0] show ?thesis by auto
qed

lemma umesh_send_receive_witness:
  "\<exists>frame rx. umesh_l2_receive [Some id] (node_example 9) frame (length frame) info_example 0 =
    Some (L2_OK, umesh_rx_stats None (length frame - 1) False ((node_example 9)\<lparr>um_pbuf := rx\<rparr>)) \<and> payload rx = [0]"
proof -
  note bb = beacon_build [OF beacon_example_built]
  obtain a' q frame where f: "umesh_l2_send (\<lambda>_. True) sandbox_example (node_example 7) beacon_example =
      Some (L2_OK, a', q, Some frame)" "length frame \<le> 121"
    using beacon_example_sent by blast
  have none: "umesh_l2_nbtable_find (um_nbtable (node_example 9)) t = None" for t
    by (simp add: umesh_l2_nbtable_find_def find_index_None node_example_def mesh_nbtable_init_def mesh_nb_item_zero_def)
  show ?thesis
    using umesh_send_receive [OF f(1) _ bb(3) _ _ f(2) _ node_example_pbuf, of 9 "[Some id]" id info_example 0] bb
    by (auto simp: none)
qed

lemma beacon_example_delivered:
  "\<exists>frame u'. umesh_l2_receive [Some id] (node_example 9) frame (length frame) info_example 0 = Some (L2_OK, u')"
proof -
  note bb = beacon_build [OF beacon_example_built]
  obtain a' q frame where f: "umesh_l2_send (\<lambda>_. True) sandbox_example (node_example 7) beacon_example =
      Some (L2_OK, a', q, Some frame)" "length frame \<le> 121"
    using beacon_example_sent by blast
  note sf = sent_frame [OF f(1) _ bb(3)]
  obtain x where frame: "frame = frame_bytes q @ [x]" using sf(1) by auto
  have sec: "pb_sec_algo q \<in> {SECURITY_ALGO_NONE, SECURITY_ALGO_CRC16_CCITT} \<or>
      ae_mode (pb_sec_algo q) \<and> pb_counter q \<noteq> 0"
    using sf(3,11) bb(7) by (auto simp: data_sec_type_def ae_mode_def split: if_splits)
  show ?thesis
    using receive_frame [OF frame f(2) _ _ node_example_pbuf [of 9] _ _ sec, of "[Some id]" id info_example 0] sf bb
    by (auto simp: payload_def)
qed

lemma umesh_receive_delivers_witness:
  "\<exists>frame rx u'. umesh_l2_receive [Some id] (node_example 9) frame (length frame) info_example 0 = Some (L2_OK, u') \<and>
    pb_len rx \<noteq> 0 \<and> (pbuf_broadcast rx \<or> pb_dtid rx = 9 \<or> pb_dtid rx = 0)"
proof -
  obtain frame u' where r: "umesh_l2_receive [Some id] (node_example 9) frame (length frame) info_example 0 = Some (L2_OK, u')"
    using beacon_example_delivered by blast
  from umesh_receive_delivers [OF r] show ?thesis
    using r by (auto simp: node_example_def)
qed

end
