(* ===== verification/Ake_3dh.thy ===== *)
theory Ake_3dh
  imports Mesh_Keymgr Mesh_Pbuf "HOL-Library.Monad_Syntax"
begin

text \<open>
  The authenticated key exchange of uMesh (\<open>protocols/umesh/ake_3dh.c\<close>): two nodes exchange ephemeral and
  identity public keys, compute three shared secrets with X25519, hash them to a master key and derive a
  key for each direction. A session advances by one computation in every step of the task; messages only
  set flags and store the keys of the peer.

  \<open>curve25519_donna\<close> and the SHA-256 functions of the imported cryptographic library are the fields
  \<open>ac_dh\<close> and \<open>ac_sha256\<close> of the context (the hash of the concatenation of the updates), the bytes of the
  random number generator are an argument of the step. The pointers to the identity keys are \<open>None\<close> when
  they are null; \<open>None\<close> as a result is an access through a null pointer. A step and a message handler are
  atomic; the source has no lock here.
\<close>

definition AKE_3DH_EPK_SIZE :: nat where "AKE_3DH_EPK_SIZE = 32"
definition AKE_3DH_IPK_SIZE :: nat where "AKE_3DH_IPK_SIZE = 32"
definition AKE_3DH_SH_SIZE :: nat where "AKE_3DH_SH_SIZE = 32"
definition AKE_3DH_SESSION_SIZE :: nat where "AKE_3DH_SESSION_SIZE = 4"
definition AKE_3DH_MASTER_KEY_SIZE :: nat where "AKE_3DH_MASTER_KEY_SIZE = 32"
definition AKE_3DH_STEP_INTERVAL_MS :: u32 where "AKE_3DH_STEP_INTERVAL_MS = 100"
definition AKE_3DH_EPK_REQUEST_INITIAL_INTERVAL :: u32 where "AKE_3DH_EPK_REQUEST_INITIAL_INTERVAL = 200"
definition AKE_3DH_EPK_REQUEST_INTERVAL_MULTIPLIER :: u32 where "AKE_3DH_EPK_REQUEST_INTERVAL_MULTIPLIER = 2"
definition AKE_3DH_EPK_REQUEST_INTERVAL_MAX :: u32 where "AKE_3DH_EPK_REQUEST_INTERVAL_MAX = 2000"
definition AKE_3DH_IPK_REQUEST_INITIAL_INTERVAL :: u32 where "AKE_3DH_IPK_REQUEST_INITIAL_INTERVAL = 200"
definition AKE_3DH_IPK_REQUEST_INTERVAL_MULTIPLIER :: u32 where "AKE_3DH_IPK_REQUEST_INTERVAL_MULTIPLIER = 2"
definition AKE_3DH_IPK_REQUEST_INTERVAL_MAX :: u32 where "AKE_3DH_IPK_REQUEST_INTERVAL_MAX = 2000"

definition CURVE25519_BASEPOINT :: "u8 list" where "CURVE25519_BASEPOINT = 9 # replicate 31 0"

datatype ake_3dh_who_i_am = AKE_3DH_ROLE_UNKNOWN | AKE_3DH_ALICE | AKE_3DH_BOB

record ake_session =
  as_used :: bool
  as_session_id :: "u8 list"
  as_session_id_generated :: bool
  as_my_esk :: "u8 list"
  as_my_esk_generated :: bool
  as_my_epk :: "u8 list"
  as_my_epk_calculated :: bool
  as_my_epk_requested :: bool
  as_peer_epk :: "u8 list"
  as_peer_epk_request_interval :: u32
  as_peer_epk_request_time :: u32
  as_peer_epk_received :: bool
  as_my_isk :: "u8 list option"
  as_my_ipk :: "u8 list option"
  as_my_ipk_requested :: bool
  as_peer_ipk :: "u8 list"
  as_peer_ipk_request_interval :: u32
  as_peer_ipk_request_time :: u32
  as_peer_ipk_received :: bool
  as_sh1 :: "u8 list"
  as_sh1_computed :: bool
  as_who_i_am :: ake_3dh_who_i_am
  as_sh2 :: "u8 list"
  as_sh2_computed :: bool
  as_sh3 :: "u8 list"
  as_sh3_computed :: bool
  as_master_key :: "u8 list"
  as_master_key_computed :: bool
  as_master_tx_key :: "u8 list"
  as_master_rx_key :: "u8 list"
  as_tx_rx_keys_computed :: bool
  as_result :: ake_3dh_result

definition ake_session_zero :: ake_session where
  "ake_session_zero = \<lparr>as_used = False, as_session_id = replicate AKE_3DH_SESSION_SIZE 0,
     as_session_id_generated = False, as_my_esk = replicate 32 0, as_my_esk_generated = False,
     as_my_epk = replicate AKE_3DH_EPK_SIZE 0, as_my_epk_calculated = False, as_my_epk_requested = False,
     as_peer_epk = replicate AKE_3DH_EPK_SIZE 0, as_peer_epk_request_interval = 0,
     as_peer_epk_request_time = 0, as_peer_epk_received = False, as_my_isk = None, as_my_ipk = None,
     as_my_ipk_requested = False, as_peer_ipk = replicate AKE_3DH_IPK_SIZE 0,
     as_peer_ipk_request_interval = 0, as_peer_ipk_request_time = 0, as_peer_ipk_received = False,
     as_sh1 = replicate AKE_3DH_SH_SIZE 0, as_sh1_computed = False, as_who_i_am = AKE_3DH_ROLE_UNKNOWN,
     as_sh2 = replicate AKE_3DH_SH_SIZE 0, as_sh2_computed = False, as_sh3 = replicate AKE_3DH_SH_SIZE 0,
     as_sh3_computed = False, as_master_key = replicate AKE_3DH_MASTER_KEY_SIZE 0,
     as_master_key_computed = False, as_master_tx_key = replicate AKE_3DH_MASTER_KEY_SIZE 0,
     as_master_rx_key = replicate AKE_3DH_MASTER_KEY_SIZE 0, as_tx_rx_keys_computed = False,
     as_result = AKE_3DH_RESULT_NONE\<rparr>"

text \<open>Messages (\<open>proto/ake_3dh.proto\<close>): an identity response has a plain key, an encrypted one, or none.\<close>

datatype ake_content =
    Epk_request
  | Epk_response "u8 list"
  | Ipk_request
  | Ipk_response "u8 list option" bool
  | Ake_other

type_synonym ake_message = "u8 list \<times> ake_content"

text \<open>The context: whether a generator is set, the callbacks, and the imported functions.\<close>

record ake_ctx =
  ac_rng :: bool
  ac_send_callback :: bool
  ac_session_result_callback :: "ake_session \<Rightarrow> ake_3dh_result \<Rightarrow> ake_session"
  ac_dh :: "u8 list \<Rightarrow> u8 list \<Rightarrow> u8 list"
  ac_sha256 :: "u8 list \<Rightarrow> u8 list"

text \<open>What a step does outside of its session: messages, and results reported for the session as it is.\<close>

datatype ake_out = Ake_send ake_message | Ake_report ake_session ake_3dh_result

subsection \<open>Results and timers\<close>

definition ake_3dh_set_result :: "ake_ctx \<Rightarrow> ake_session \<Rightarrow> ake_3dh_result \<Rightarrow> ake_session \<times> ake_out list" where
  "ake_3dh_set_result self session result =
     (if result = AKE_3DH_RESULT_NONE \<or> as_result session \<noteq> AKE_3DH_RESULT_NONE then (session, [])
      else let session = session\<lparr>as_result := result\<rparr>
           in (ac_session_result_callback self session result, [Ake_report session result]))"

definition ake_3dh_advance_timers :: "ake_session \<Rightarrow> u32 \<Rightarrow> ake_session" where
  "ake_3dh_advance_timers session step_time_ms =
     session\<lparr>as_peer_epk_request_time := as_peer_epk_request_time session + step_time_ms,
             as_peer_ipk_request_time := as_peer_ipk_request_time session + step_time_ms\<rparr>"

subsection \<open>Computations\<close>

definition ake_3dh_generate_session_id :: "ake_session \<Rightarrow> u8 list \<Rightarrow> ake_session" where
  "ake_3dh_generate_session_id session random =
     session\<lparr>as_session_id := random, as_session_id_generated := True\<rparr>"

definition ake_3dh_generate_epk :: "ake_session \<Rightarrow> u8 list \<Rightarrow> ake_session" where
  "ake_3dh_generate_epk session random = session\<lparr>as_my_esk := random, as_my_esk_generated := True\<rparr>"

definition ake_3dh_compute_epk :: "ake_ctx \<Rightarrow> ake_session \<Rightarrow> ake_session" where
  "ake_3dh_compute_epk self session =
     session\<lparr>as_my_epk := ac_dh self (as_my_esk session) CURVE25519_BASEPOINT, as_my_epk_calculated := True\<rparr>"

text \<open>\<open>memcmp\<close>: the sign of the first difference of the unsigned bytes.\<close>

fun memcmp :: "u8 list \<Rightarrow> u8 list \<Rightarrow> int" where
  "memcmp (x # xs) (y # ys) = (if x < y then -1 else if y < x then 1 else memcmp xs ys)"
| "memcmp _ _ = 0"

definition ake_3dh_determine_role :: "ake_session \<Rightarrow> ake_session" where
  "ake_3dh_determine_role session =
     (let res = memcmp (take AKE_3DH_EPK_SIZE (as_my_epk session)) (take AKE_3DH_EPK_SIZE (as_peer_epk session))
      in if res = 0 then session\<lparr>as_who_i_am := AKE_3DH_ALICE\<rparr>
         else if res < 0 then session\<lparr>as_who_i_am := AKE_3DH_ALICE\<rparr>
         else session\<lparr>as_who_i_am := AKE_3DH_BOB\<rparr>)"

definition ake_3dh_compute_sh1 :: "ake_ctx \<Rightarrow> ake_session \<Rightarrow> ake_session" where
  "ake_3dh_compute_sh1 self session =
     session\<lparr>as_sh1 := ac_dh self (as_my_esk session) (as_peer_epk session), as_sh1_computed := True\<rparr>"

definition ake_3dh_compute_sh2_alice :: "ake_ctx \<Rightarrow> ake_session \<Rightarrow> ake_session option" where
  "ake_3dh_compute_sh2_alice self session = do {
     isk \<leftarrow> as_my_isk session;
     Some (session\<lparr>as_sh2 := ac_dh self isk (as_peer_epk session), as_sh2_computed := True\<rparr>)
   }"

definition ake_3dh_compute_sh2_bob :: "ake_ctx \<Rightarrow> ake_session \<Rightarrow> ake_session" where
  "ake_3dh_compute_sh2_bob self session =
     session\<lparr>as_sh2 := ac_dh self (as_my_esk session) (as_peer_ipk session), as_sh2_computed := True\<rparr>"

definition ake_3dh_compute_sh3_alice :: "ake_ctx \<Rightarrow> ake_session \<Rightarrow> ake_session" where
  "ake_3dh_compute_sh3_alice self session =
     session\<lparr>as_sh3 := ac_dh self (as_my_esk session) (as_peer_ipk session), as_sh3_computed := True\<rparr>"

definition ake_3dh_compute_sh3_bob :: "ake_ctx \<Rightarrow> ake_session \<Rightarrow> ake_session option" where
  "ake_3dh_compute_sh3_bob self session = do {
     isk \<leftarrow> as_my_isk session;
     Some (session\<lparr>as_sh3 := ac_dh self isk (as_peer_epk session), as_sh3_computed := True\<rparr>)
   }"

definition ake_3dh_compute_master_key :: "ake_ctx \<Rightarrow> ake_session \<Rightarrow> ake_session" where
  "ake_3dh_compute_master_key self session =
     session\<lparr>as_master_key := ac_sha256 self (take AKE_3DH_SH_SIZE (as_sh1 session) @
         take AKE_3DH_SH_SIZE (as_sh2 session) @ take AKE_3DH_SH_SIZE (as_sh3 session)),
       as_master_key_computed := True\<rparr>"

text \<open>The bytes of \<open>"first"\<close> and \<open>"second"\<close>.\<close>

definition label_first :: "u8 list" where "label_first = [0x66, 0x69, 0x72, 0x73, 0x74]"
definition label_second :: "u8 list" where "label_second = [0x73, 0x65, 0x63, 0x6f, 0x6e, 0x64]"

definition ake_3dh_compute_tx_rx_keys :: "ake_ctx \<Rightarrow> ake_session \<Rightarrow> ake_session" where
  "ake_3dh_compute_tx_rx_keys self session =
     (let master = take AKE_3DH_MASTER_KEY_SIZE (as_master_key session);
          key1 = ac_sha256 self (master @ label_first);
          key2 = ac_sha256 self (master @ label_second);
          session = (if as_who_i_am session = AKE_3DH_ALICE
                     then session\<lparr>as_master_tx_key := key1, as_master_rx_key := key2\<rparr>
                     else session\<lparr>as_master_rx_key := key1, as_master_tx_key := key2\<rparr>)
      in session\<lparr>as_tx_rx_keys_computed := True\<rparr>)"

subsection \<open>Sending\<close>

definition ake_3dh_send :: "ake_ctx \<Rightarrow> ake_message \<Rightarrow> ake_out list" where
  "ake_3dh_send self msg = (if ac_send_callback self then [Ake_send msg] else [])"

definition next_interval :: "u32 \<Rightarrow> u32 \<Rightarrow> u32 \<Rightarrow> u32 \<Rightarrow> u32" where
  "next_interval interval initial multiplier maximum =
     (let interval = (if interval = 0 then initial else interval * multiplier)
      in if interval > maximum then maximum else interval)"

definition ake_3dh_send_epk_request :: "ake_ctx \<Rightarrow> ake_session \<Rightarrow> ake_session \<times> ake_out list" where
  "ake_3dh_send_epk_request self session =
     (if as_peer_epk_request_time session \<ge> as_peer_epk_request_interval session then
        (session\<lparr>as_peer_epk_request_time := 0,
           as_peer_epk_request_interval := next_interval (as_peer_epk_request_interval session)
             AKE_3DH_EPK_REQUEST_INITIAL_INTERVAL AKE_3DH_EPK_REQUEST_INTERVAL_MULTIPLIER
             AKE_3DH_EPK_REQUEST_INTERVAL_MAX\<rparr>,
         ake_3dh_send self (as_session_id session, Epk_request))
      else (session, []))"

definition ake_3dh_send_ipk_request :: "ake_ctx \<Rightarrow> ake_session \<Rightarrow> ake_session \<times> ake_out list" where
  "ake_3dh_send_ipk_request self session =
     (if as_peer_ipk_request_time session \<ge> as_peer_ipk_request_interval session then
        (session\<lparr>as_peer_ipk_request_time := 0,
           as_peer_ipk_request_interval := next_interval (as_peer_ipk_request_interval session)
             AKE_3DH_IPK_REQUEST_INITIAL_INTERVAL AKE_3DH_IPK_REQUEST_INTERVAL_MULTIPLIER
             AKE_3DH_IPK_REQUEST_INTERVAL_MAX\<rparr>,
         ake_3dh_send self (as_session_id session, Ipk_request))
      else (session, []))"

definition ake_3dh_send_epk_response :: "ake_ctx \<Rightarrow> ake_session \<Rightarrow> ake_session \<times> ake_out list" where
  "ake_3dh_send_epk_response self session =
     (if \<not> as_my_epk_calculated session then (session, [])
      else (session\<lparr>as_my_epk_requested := False\<rparr>,
            ake_3dh_send self (as_session_id session, Epk_response (as_my_epk session))))"

text \<open>The key is copied to the address of the structure, whose first field is the size of two bytes
  (\<open>pb_size_t\<close> with \<open>PB_FIELD_16BIT\<close>); then the size is written over the first two bytes of the key.\<close>

definition PB_SIZE_T_BYTES :: nat where "PB_SIZE_T_BYTES = 2"

definition ake_3dh_send_ipk_response :: "ake_ctx \<Rightarrow> ake_session \<Rightarrow> (ake_session \<times> ake_out list) option" where
  "ake_3dh_send_ipk_response self session = do {
     ipk \<leftarrow> as_my_ipk session;
     let bytes = drop PB_SIZE_T_BYTES (take AKE_3DH_IPK_SIZE ipk) @ replicate PB_SIZE_T_BYTES 0;
     Some (session\<lparr>as_my_ipk_requested := False\<rparr>,
           ake_3dh_send self (as_session_id session, Ipk_response (Some bytes) False))
   }"

subsection \<open>The step of a session and the task\<close>

text \<open>The four conditional sends in the middle of the step.\<close>

definition ake_step_sends :: "ake_ctx \<Rightarrow> ake_session \<Rightarrow> (ake_session \<times> ake_out list) option" where
  "ake_step_sends self session = do {
     let (session, o1) = (if \<not> as_peer_epk_received session then ake_3dh_send_epk_request self session
                          else (session, []));
     let (session, o2) = (if \<not> as_peer_ipk_received session then ake_3dh_send_ipk_request self session
                          else (session, []));
     let (session, o3) = (if as_my_epk_requested session then ake_3dh_send_epk_response self session
                          else (session, []));
     (session, o4) \<leftarrow> (if as_my_ipk_requested session then ake_3dh_send_ipk_response self session
                       else Some (session, []));
     Some (session, o1 @ o2 @ o3 @ o4)
   }"

text \<open>The computations that follow, the first that is possible.\<close>

definition ake_step_compute :: "ake_ctx \<Rightarrow> ake_session \<Rightarrow> (ake_session \<times> ake_out list) option" where
  "ake_step_compute self session =
     (if as_my_epk_calculated session \<and> as_peer_epk_received session \<and> \<not> as_sh1_computed session then
        Some (ake_3dh_compute_sh1 self (ake_3dh_determine_role session), [])
      else if as_who_i_am session = AKE_3DH_ALICE \<and> as_peer_epk_received session \<and> \<not> as_sh2_computed session then
        map_option (\<lambda>s. (s, [])) (ake_3dh_compute_sh2_alice self session)
      else if as_who_i_am session = AKE_3DH_BOB \<and> as_my_esk_generated session \<and>
              as_peer_ipk_received session \<and> \<not> as_sh2_computed session then
        Some (ake_3dh_compute_sh2_bob self session, [])
      else if as_who_i_am session = AKE_3DH_ALICE \<and> as_my_esk_generated session \<and>
              as_peer_ipk_received session \<and> \<not> as_sh3_computed session then
        Some (ake_3dh_compute_sh3_alice self session, [])
      else if as_who_i_am session = AKE_3DH_BOB \<and> as_peer_epk_received session \<and> \<not> as_sh3_computed session then
        map_option (\<lambda>s. (s, [])) (ake_3dh_compute_sh3_bob self session)
      else if as_who_i_am session \<noteq> AKE_3DH_ROLE_UNKNOWN \<and> as_sh1_computed session \<and>
              as_sh2_computed session \<and> as_sh3_computed session \<and> \<not> as_master_key_computed session then
        Some (ake_3dh_compute_master_key self session, [])
      else if as_master_key_computed session \<and> \<not> as_tx_rx_keys_computed session then
        Some (ake_3dh_set_result self (ake_3dh_compute_tx_rx_keys self session) AKE_3DH_RESULT_OK)
      else Some (session, []))"

definition ake_3dh_session_step :: "ake_ctx \<Rightarrow> ake_session \<Rightarrow> u8 list \<Rightarrow> (ake_session \<times> ake_out list) option" where
  "ake_3dh_session_step self session random =
     (if \<not> as_session_id_generated session \<and> ac_rng self then
        Some (ake_3dh_generate_session_id session random, [])
      else if \<not> as_my_esk_generated session \<and> ac_rng self then
        Some (ake_3dh_generate_epk session random, [])
      else if \<not> as_my_epk_calculated session \<and> as_my_esk_generated session then
        Some (ake_3dh_compute_epk self session, [])
      else do {
        (session, o1) \<leftarrow> ake_step_sends self session;
        (session, o2) \<leftarrow> ake_step_compute self session;
        Some (session, o1 @ o2)
      })"

text \<open>One pass over the table; \<open>randoms i\<close> is what the generator returns for session \<open>i\<close>.\<close>

definition ake_3dh_task ::
  "ake_ctx \<Rightarrow> ake_session list \<Rightarrow> (nat \<Rightarrow> u8 list) \<Rightarrow> (ake_session list \<times> (nat \<times> ake_out) list) option" where
  "ake_3dh_task self table randoms =
     fold_opt (\<lambda>i (table, out). if as_used (table ! i) then do {
         (session, o1) \<leftarrow> ake_3dh_session_step self (table ! i) (randoms i);
         Some (table[i := ake_3dh_advance_timers session AKE_3DH_STEP_INTERVAL_MS], out @ map (Pair i) o1)
       } else Some (table, out)) [0..<length table] (table, [])"

subsection \<open>Interface\<close>

definition ake_3dh_init :: "nat \<Rightarrow> ake_session list" where
  "ake_3dh_init max_sessions = replicate max_sessions ake_session_zero"

text \<open>A copy of \<open>n\<close> bytes to the memory a pointer refers to.\<close>

definition copy_through :: "u8 list option \<Rightarrow> u8 list \<Rightarrow> nat \<Rightarrow> u8 list option option" where
  "copy_through destination source n =
     (case destination of
        None \<Rightarrow> None
      | Some d \<Rightarrow> Some (Some (take n source @ drop n d)))"

text \<open>The fields are cleared, so the key pointers are null when the keys are copied through them.\<close>

definition ake_3dh_start_session ::
  "ake_session list \<Rightarrow> u8 list \<Rightarrow> u8 list \<Rightarrow> u8 list option \<Rightarrow> (nat option \<times> ake_session list) option" where
  "ake_3dh_start_session table my_isk my_ipk session_id =
     (case find_last (\<lambda>s. \<not> as_used s) table of
        None \<Rightarrow> Some (None, table)
      | Some i \<Rightarrow> do {
          let session = ake_session_zero\<lparr>as_used := True\<rparr>;
          isk \<leftarrow> copy_through (as_my_isk session) my_isk 32;
          let session = session\<lparr>as_my_isk := isk\<rparr>;
          ipk \<leftarrow> copy_through (as_my_ipk session) my_ipk 32;
          let session = session\<lparr>as_my_ipk := ipk\<rparr>;
          let session = (case session_id of
              None \<Rightarrow> session
            | Some bytes \<Rightarrow>
                let n = min (length bytes) AKE_3DH_SESSION_SIZE
                in session\<lparr>as_session_id := take n bytes @ drop n (as_session_id session),
                           as_session_id_generated := True\<rparr>);
          let session = session\<lparr>as_who_i_am := AKE_3DH_ALICE\<rparr>;
          Some (Some i, table[i := session])
        })"

definition ake_3dh_stop_session :: "ake_session \<Rightarrow> ake_session" where
  "ake_3dh_stop_session session = ake_session_zero"

definition ake_3dh_protocol_status :: "ake_session \<Rightarrow> nat" where
  "ake_3dh_protocol_status session =
     (if as_my_esk_generated session then 10 else 0) + (if as_my_epk_calculated session then 10 else 0) +
     (if as_my_epk_requested session then 20 else 0) + (if as_peer_epk_received session then 20 else 0) +
     (if as_my_ipk_requested session then 20 else 0) + (if as_peer_ipk_received session then 20 else 0)"

datatype ake_receive_result = AKE_3DH_RECEIVE_HANDLER_OK | AKE_3DH_RECEIVE_HANDLER_FAILED
  | AKE_3DH_RECEIVE_HANDLER_NO_SESSION

text \<open>The \<open>switch\<close> over the content of a message for one session.\<close>

definition ake_process :: "ake_session \<Rightarrow> ake_content \<Rightarrow> ake_receive_result \<times> ake_session" where
  "ake_process session content =
     (case content of
        Epk_request \<Rightarrow> (AKE_3DH_RECEIVE_HANDLER_OK, session\<lparr>as_my_epk_requested := True\<rparr>)
      | Epk_response key \<Rightarrow>
          if length key \<noteq> AKE_3DH_EPK_SIZE then (AKE_3DH_RECEIVE_HANDLER_FAILED, session)
          else (AKE_3DH_RECEIVE_HANDLER_OK, session\<lparr>as_peer_epk := key, as_peer_epk_received := True\<rparr>)
      | Ipk_request \<Rightarrow> (AKE_3DH_RECEIVE_HANDLER_OK, session\<lparr>as_my_ipk_requested := True\<rparr>)
      | Ipk_response (Some key) _ \<Rightarrow>
          if length key \<noteq> AKE_3DH_IPK_SIZE then (AKE_3DH_RECEIVE_HANDLER_FAILED, session)
          else (AKE_3DH_RECEIVE_HANDLER_OK, session\<lparr>as_peer_ipk := key, as_peer_ipk_received := True\<rparr>)
      | Ipk_response None True \<Rightarrow> (AKE_3DH_RECEIVE_HANDLER_OK, session\<lparr>as_peer_ipk_received := True\<rparr>)
      | Ipk_response None False \<Rightarrow> (AKE_3DH_RECEIVE_HANDLER_FAILED, session)
      | Ake_other \<Rightarrow> (AKE_3DH_RECEIVE_HANDLER_FAILED, session))"

definition ake_3dh_receive_handler ::
  "ake_session list \<Rightarrow> ake_message \<Rightarrow> ake_receive_result \<times> ake_session list" where
  "ake_3dh_receive_handler table msg =
     (case find_last (\<lambda>s. take (length (fst msg)) (as_session_id s) = fst msg) table of
        None \<Rightarrow> (AKE_3DH_RECEIVE_HANDLER_NO_SESSION, table)
      | Some i \<Rightarrow>
          let (res, session) = ake_process (table ! i) (snd msg)
          in (res, table[i := session]))"

subsection \<open>The key manager as the user of the exchange (\<open>umesh_l2_keymgr.c\<close>)\<close>

text \<open>The peer a message of the key exchange session \<open>i\<close> is sent to.\<close>

definition umesh_l2_keymgr_ake_3dh_send :: "keymgr \<Rightarrow> nat \<Rightarrow> u32 option" where
  "umesh_l2_keymgr_ake_3dh_send self i =
     map_option (\<lambda>j. ks_peer_tid (self ! j)) (find_last (\<lambda>s. ks_ake_3dh s = Some i) self)"

text \<open>The packet handed to layer 2 for an encoded message; \<open>encode\<close> is the encoder of the protobuf library, which
  fails when the message does not fit into the given number of bytes.\<close>

definition UMESH_L3_PROTOCOL_KEYMGR :: u8 where "UMESH_L3_PROTOCOL_KEYMGR = 1"

definition umesh_l2_keymgr_send ::
  "(nat \<Rightarrow> ake_message \<Rightarrow> u8 list option) \<Rightarrow> umesh_l2_pbuf \<Rightarrow> ake_message \<Rightarrow> u32 \<Rightarrow> umesh_l2_pbuf option" where
  "umesh_l2_keymgr_send encode pbuf msg peer_tid =
     (let pbuf = umesh_l2_pbuf_clear pbuf;
          pbuf = pbuf\<lparr>pb_dtid := peer_tid, pb_sec_type := UMESH_L2_PBUF_SECURITY_VERIFY,
                      pb_proto := UMESH_L3_PROTOCOL_KEYMGR\<rparr>
      in case encode (length (pb_data pbuf)) msg of
           None \<Rightarrow> None
         | Some bytes \<Rightarrow>
             Some (pbuf\<lparr>pb_data := bytes @ drop (length bytes) (pb_data pbuf), pb_len := length bytes\<rparr>))"

text \<open>Setting the generator reports a failure after it has been set.\<close>

definition umesh_l2_keymgr_set_rng :: "ake_ctx \<Rightarrow> bool \<times> ake_ctx" where
  "umesh_l2_keymgr_set_rng ake = (False, ake\<lparr>ac_rng := True\<rparr>)"

text \<open>A decoded message of the node \<open>stid\<close>; an unknown key exchange session is started.\<close>

definition umesh_l2_keymgr_receive_handler ::
  "keymgr \<Rightarrow> ake_session list \<Rightarrow> u8 list \<Rightarrow> u8 list \<Rightarrow> u32 \<Rightarrow> ake_message option option \<Rightarrow>
    (bool \<times> keymgr \<times> ake_session list) option" where
  "umesh_l2_keymgr_receive_handler self ake isk ipk stid decoded =
     (case decoded of
        None \<Rightarrow> Some (False, self, ake)
      | Some None \<Rightarrow> Some (True, self, ake)
      | Some (Some msg) \<Rightarrow>
          (case ake_3dh_receive_handler ake msg of (res, ake) \<Rightarrow>
             if res = AKE_3DH_RECEIVE_HANDLER_NO_SESSION then
               (case keymgr_allocate_session self of
                  None \<Rightarrow> Some (False, self, ake)
                | Some j \<Rightarrow> do {
                    let session = set_session_state ((self ! j)\<lparr>ks_peer_tid := stid\<rparr>) SESSION_INITIAL_AKE;
                    (started, ake) \<leftarrow> ake_3dh_start_session ake isk ipk (Some (fst msg));
                    case started of
                      None \<Rightarrow> Some (False, self[j := set_session_state session SESSION_NAUTH], ake)
                    | Some i \<Rightarrow>
                        let (res, ake) = ake_3dh_receive_handler ake msg
                        in Some (res = AKE_3DH_RECEIVE_HANDLER_OK, self[j := session\<lparr>ks_ake_3dh := Some i\<rparr>], ake)
                  })
             else Some (res = AKE_3DH_RECEIVE_HANDLER_OK, self, ake)))"

end
