(* ===== verification/Ake_Props.thy ===== *)
theory Ake_Props
  imports Ake_3dh
begin

text \<open>
  Properties of the key exchange: the requests to a silent peer slow down to one in two seconds; and what the exchange
  would give if a session were started with its identity keys and these were delivered as they are: two sessions that
  run against each other's public keys and finish end with the same keys in opposite directions, and a session that has
  both keys of its peer finishes within eight steps. The code does neither: starting a session copies the keys through
  null pointers, and an identity key is sent shifted by two bytes, as the last lemmas show; nor does it keep an identity key
  back that arrives before the ephemeral one.
\<close>

datatype ake_event = Ake_step "u8 list" | Ake_timers u32 | Ake_deliver ake_content

text \<open>A run of one session under steps of the task, the clock and received messages: the session, and the
  sessions as they were reported to the key manager. The task steps used sessions only.\<close>

definition ake_event_step ::
  "ake_ctx \<Rightarrow> ake_event \<Rightarrow> ake_session \<times> ake_out list \<Rightarrow> (ake_session \<times> ake_out list) option" where
  "ake_event_step self e st = (case st of (s, out) \<Rightarrow>
     (case e of
        Ake_step random \<Rightarrow>
          if as_used s then map_option (\<lambda>(s', o1). (s', out @ o1)) (ake_3dh_session_step self s random)
          else Some (s, out)
      | Ake_timers t \<Rightarrow> Some (ake_3dh_advance_timers s t, out)
      | Ake_deliver c \<Rightarrow> Some (snd (ake_process s c), out)))"

definition ake_run :: "ake_ctx \<Rightarrow> ake_event list \<Rightarrow> ake_session \<Rightarrow> (ake_session \<times> ake_out list) option" where
  "ake_run self evs s = fold_opt (ake_event_step self) evs (s, [])"

text \<open>The keys a session has: computed from its secrets and the public keys \<open>E\<close> and \<open>I\<close> of its peer.\<close>

definition ake_role :: "u8 list \<Rightarrow> u8 list \<Rightarrow> ake_3dh_who_i_am" where
  "ake_role epk peer = (if memcmp (take 32 epk) (take 32 peer) \<le> 0 then AKE_3DH_ALICE else AKE_3DH_BOB)"

definition ake_sh2 :: "ake_ctx \<Rightarrow> u8 list \<Rightarrow> u8 list \<Rightarrow> u8 list \<Rightarrow> u8 list \<Rightarrow> ake_3dh_who_i_am \<Rightarrow> u8 list" where
  "ake_sh2 self isk esk E I role = (if role = AKE_3DH_ALICE then ac_dh self isk E else ac_dh self esk I)"

definition ake_sh3 :: "ake_ctx \<Rightarrow> u8 list \<Rightarrow> u8 list \<Rightarrow> u8 list \<Rightarrow> u8 list \<Rightarrow> ake_3dh_who_i_am \<Rightarrow> u8 list" where
  "ake_sh3 self isk esk E I role = (if role = AKE_3DH_ALICE then ac_dh self esk I else ac_dh self isk E)"

definition ake_master :: "ake_ctx \<Rightarrow> u8 list \<Rightarrow> u8 list \<Rightarrow> u8 list \<Rightarrow> u8 list \<Rightarrow> ake_3dh_who_i_am \<Rightarrow> u8 list" where
  "ake_master self isk esk E I role = ac_sha256 self (take 32 (ac_dh self esk E) @
     take 32 (ake_sh2 self isk esk E I role) @ take 32 (ake_sh3 self isk esk E I role))"

text \<open>What holds in a session all along, when its peer's messages carry \<open>E\<close> and \<open>I\<close>.\<close>

definition ake_inv :: "ake_ctx \<Rightarrow> u8 list \<Rightarrow> u8 list \<Rightarrow> u8 list \<Rightarrow> ake_session \<Rightarrow> bool" where
  "ake_inv self isk E I s \<longleftrightarrow>
     as_my_isk s = Some isk \<and> as_my_ipk s \<noteq> None \<and>
     (as_my_epk_calculated s \<longrightarrow> as_my_esk_generated s \<and>
        as_my_epk s = ac_dh self (as_my_esk s) CURVE25519_BASEPOINT) \<and>
     (as_peer_epk_received s \<longrightarrow> as_peer_epk s = E) \<and>
     (as_peer_ipk_received s \<longrightarrow> as_peer_ipk s = I \<and> as_sh1_computed s) \<and>
     (as_sh1_computed s \<longrightarrow> as_my_epk_calculated s \<and> as_peer_epk_received s \<and>
        as_sh1 s = ac_dh self (as_my_esk s) E \<and> as_who_i_am s = ake_role (as_my_epk s) E) \<and>
     (as_sh2_computed s \<longrightarrow> as_sh1_computed s \<and>
        as_sh2 s = ake_sh2 self isk (as_my_esk s) E I (as_who_i_am s)) \<and>
     (as_sh3_computed s \<longrightarrow> as_sh1_computed s \<and>
        as_sh3 s = ake_sh3 self isk (as_my_esk s) E I (as_who_i_am s)) \<and>
     (as_master_key_computed s \<longrightarrow> as_sh2_computed s \<and> as_sh3_computed s \<and>
        as_master_key s = ake_master self isk (as_my_esk s) E I (as_who_i_am s)) \<and>
     (\<not> as_sh1_computed s \<longrightarrow> as_who_i_am s = AKE_3DH_ALICE)"

text \<open>The session when it is reported.\<close>

definition ake_final :: "ake_ctx \<Rightarrow> u8 list \<Rightarrow> u8 list \<Rightarrow> u8 list \<Rightarrow> ake_session \<Rightarrow> bool" where
  "ake_final self isk E I s \<longleftrightarrow>
     as_my_epk s = ac_dh self (as_my_esk s) CURVE25519_BASEPOINT \<and>
     (let role = ake_role (as_my_epk s) E;
          master = take 32 (ake_master self isk (as_my_esk s) E I role);
          key1 = ac_sha256 self (master @ label_first);
          key2 = ac_sha256 self (master @ label_second)
      in if role = AKE_3DH_ALICE then as_master_tx_key s = key1 \<and> as_master_rx_key s = key2
         else as_master_rx_key s = key1 \<and> as_master_tx_key s = key2)"

lemma ake_inv_sends [simp]:
  "ake_inv self isk E I (s\<lparr>as_peer_epk_request_time := t\<rparr>) = ake_inv self isk E I s"
  "ake_inv self isk E I (s\<lparr>as_peer_epk_request_interval := t\<rparr>) = ake_inv self isk E I s"
  "ake_inv self isk E I (s\<lparr>as_peer_ipk_request_time := t\<rparr>) = ake_inv self isk E I s"
  "ake_inv self isk E I (s\<lparr>as_peer_ipk_request_interval := t\<rparr>) = ake_inv self isk E I s"
  "ake_inv self isk E I (s\<lparr>as_my_epk_requested := b\<rparr>) = ake_inv self isk E I s"
  "ake_inv self isk E I (s\<lparr>as_my_ipk_requested := b\<rparr>) = ake_inv self isk E I s"
  "ake_inv self isk E I (s\<lparr>as_result := r\<rparr>) = ake_inv self isk E I s"
  by (simp_all add: ake_inv_def)

text \<open>The context the key manager sets up: its result callback stops the session when it finds its own.\<close>

definition keymgr_ake_ctx ::
  "bool \<Rightarrow> (u8 list \<Rightarrow> u8 list \<Rightarrow> u8 list) \<Rightarrow> (u8 list \<Rightarrow> u8 list) \<Rightarrow> ake_ctx" where
  "keymgr_ake_ctx found dh sha256 =
     \<lparr>ac_rng = True, ac_send_callback = True,
      ac_session_result_callback = (\<lambda>s r. if found then ake_3dh_stop_session s else s),
      ac_dh = dh, ac_sha256 = sha256\<rparr>"

lemma keymgr_ake_ctx_sel [simp]:
  "ac_rng (keymgr_ake_ctx found dh sha256)" "ac_send_callback (keymgr_ake_ctx found dh sha256)" "ac_dh (keymgr_ake_ctx found dh sha256) = dh"
  "ac_sha256 (keymgr_ake_ctx found dh sha256) = sha256"
  "ac_session_result_callback (keymgr_ake_ctx found dh sha256) s r = (if found then ake_session_zero else s)"
  by (simp_all add: keymgr_ake_ctx_def ake_3dh_stop_session_def)

definition reports_final :: "ake_ctx \<Rightarrow> u8 list \<Rightarrow> u8 list \<Rightarrow> u8 list \<Rightarrow> ake_out list \<Rightarrow> bool" where
  "reports_final self isk E I out \<longleftrightarrow> (\<forall>s r. Ake_report s r \<in> set out \<longrightarrow> ake_final self isk E I s)"

lemma reports_final_simps [simp]:
  "reports_final self isk E I []"
  "reports_final self isk E I (xs @ ys) \<longleftrightarrow> reports_final self isk E I xs \<and> reports_final self isk E I ys"
  "reports_final self isk E I [Ake_report s r] \<longleftrightarrow> ake_final self isk E I s"
  "reports_final self isk E I (ake_3dh_send self m)"
  by (auto simp: reports_final_def ake_3dh_send_def)

text \<open>What the sends leave alone, besides the keys: how far the session has come.\<close>

definition ake_progress :: "ake_session \<Rightarrow> bool list \<times> ake_3dh_result" where
  "ake_progress s = ([as_used s, as_session_id_generated s, as_my_esk_generated s, as_my_epk_calculated s,
     as_peer_ipk_received s, as_sh2_computed s, as_sh3_computed s, as_master_key_computed s,
     as_tx_rx_keys_computed s], as_result s)"

lemma step_sends_inv:
  assumes "ake_inv self isk E I s"
  shows "\<exists>s' out. ake_step_sends self s = Some (s', out) \<and> ake_inv self isk E I s' \<and>
    ake_progress s' = ake_progress s \<and> reports_final self isk E I out"
proof -
  have e: "\<exists>s' o'. ake_3dh_send_epk_request self s = (s', o') \<and> ake_inv self isk E I s' = ake_inv self isk E I s \<and>
      ake_progress s' = ake_progress s \<and> reports_final self isk E I o'" for s
    by (simp add: ake_3dh_send_epk_request_def ake_progress_def)
  have i: "\<exists>s' o'. ake_3dh_send_ipk_request self s = (s', o') \<and> ake_inv self isk E I s' = ake_inv self isk E I s \<and>
      ake_progress s' = ake_progress s \<and> reports_final self isk E I o'" for s
    by (simp add: ake_3dh_send_ipk_request_def ake_progress_def)
  have er: "\<exists>s' o'. ake_3dh_send_epk_response self s = (s', o') \<and> ake_inv self isk E I s' = ake_inv self isk E I s \<and>
      ake_progress s' = ake_progress s \<and> reports_final self isk E I o'" for s
    by (simp add: ake_3dh_send_epk_response_def ake_progress_def)
  have ir: "\<exists>s' o'. ake_3dh_send_ipk_response self s = Some (s', o') \<and> ake_inv self isk E I s' = ake_inv self isk E I s \<and>
      ake_progress s' = ake_progress s \<and> reports_final self isk E I o'"
    if "ake_inv self isk E I s" for s
    using that by (auto simp: ake_3dh_send_ipk_response_def ake_inv_def ake_progress_def)
  obtain s1 o1 where s1: "(if \<not> as_peer_epk_received s then ake_3dh_send_epk_request self s else (s, [])) = (s1, o1)"
    "ake_inv self isk E I s1" "ake_progress s1 = ake_progress s"
    "reports_final self isk E I o1"
    using e [of s] assms by (cases "as_peer_epk_received s") auto
  obtain s2 o2 where s2: "(if \<not> as_peer_ipk_received s1 then ake_3dh_send_ipk_request self s1 else (s1, [])) = (s2, o2)"
    "ake_inv self isk E I s2" "ake_progress s2 = ake_progress s1"
    "reports_final self isk E I o2"
    using i [of s1] s1(2) by (cases "as_peer_ipk_received s1") auto
  obtain s3 o3 where s3: "(if as_my_epk_requested s2 then ake_3dh_send_epk_response self s2 else (s2, [])) = (s3, o3)"
    "ake_inv self isk E I s3" "ake_progress s3 = ake_progress s2"
    "reports_final self isk E I o3"
    using er [of s2] s2(2) by (cases "as_my_epk_requested s2") auto
  obtain s4 o4 where s4: "(if as_my_ipk_requested s3 then ake_3dh_send_ipk_response self s3 else Some (s3, [])) = Some (s4, o4)"
    "ake_inv self isk E I s4" "ake_progress s4 = ake_progress s3"
    "reports_final self isk E I o4"
    using ir [OF s3(2)] s3(2) by (cases "as_my_ipk_requested s3") auto
  show ?thesis
    using s1 s2 s3 s4 by (simp only: ake_step_sends_def Let_def prod.case Option.bind.simps) simp
qed

lemma determine_role_inv:
  "ake_3dh_determine_role s = s\<lparr>as_who_i_am := ake_role (as_my_epk s) (as_peer_epk s)\<rparr>"
  by (simp add: ake_3dh_determine_role_def ake_role_def AKE_3DH_EPK_SIZE_def Let_def)

lemma ake_role_cases: "ake_role a b \<in> {AKE_3DH_ALICE, AKE_3DH_BOB}"
  by (simp add: ake_role_def)

lemma step_compute_inv:
  assumes inv: "ake_inv (keymgr_ake_ctx found dh sha256) isk E I s" and calc: "as_my_epk_calculated s"
  shows "\<exists>s' out. ake_step_compute (keymgr_ake_ctx found dh sha256) s = Some (s', out) \<and>
    (as_used s' \<longrightarrow> ake_inv (keymgr_ake_ctx found dh sha256) isk E I s') \<and>
    reports_final (keymgr_ake_ctx found dh sha256) isk E I out"
proof -
  let ?c = "keymgr_ake_ctx found dh sha256"
  have who: "as_sh1_computed s \<Longrightarrow> as_who_i_am s = ake_role (as_my_epk s) E"
    and alice: "\<not> as_sh1_computed s \<Longrightarrow> as_who_i_am s = AKE_3DH_ALICE"
    using inv by (simp_all add: ake_inv_def)
  consider (sh1) "as_peer_epk_received s" "\<not> as_sh1_computed s"
    | (no_epk) "\<not> as_peer_epk_received s"
    | (sh2) "as_sh1_computed s" "\<not> as_sh2_computed s" | (sh3) "as_sh1_computed s" "as_sh2_computed s" "\<not> as_sh3_computed s"
    | (master) "as_sh1_computed s" "as_sh2_computed s" "as_sh3_computed s" "\<not> as_master_key_computed s"
    | (keys) "as_sh1_computed s" "as_sh2_computed s" "as_sh3_computed s" "as_master_key_computed s"
    by blast
  then show ?thesis
  proof cases
    case sh1
    then have "ake_step_compute ?c s = Some (ake_3dh_compute_sh1 ?c (ake_3dh_determine_role s), [])"
      using calc by (simp add: ake_step_compute_def)
    moreover have "ake_inv ?c isk E I (ake_3dh_compute_sh1 ?c (ake_3dh_determine_role s))"
      using inv sh1 calc by (auto simp: determine_role_inv ake_3dh_compute_sh1_def ake_inv_def)
    ultimately show ?thesis by simp
  next
    case no_epk
    then have "\<not> as_sh1_computed s" "\<not> as_peer_ipk_received s" "\<not> as_master_key_computed s"
      using inv by (auto simp: ake_inv_def)
    then have "ake_step_compute ?c s = Some (s, [])" using no_epk alice by (simp add: ake_step_compute_def)
    then show ?thesis using inv by simp
  next
    case sh2
    then show ?thesis using inv ake_role_cases [of "as_my_epk s" E]
      by (auto simp: ake_step_compute_def ake_inv_def ake_3dh_compute_sh2_alice_def ake_3dh_compute_sh2_bob_def
          ake_sh2_def ake_3dh_compute_sh3_bob_def ake_3dh_compute_sh3_alice_def ake_sh3_def)
  next
    case sh3
    then show ?thesis using inv ake_role_cases [of "as_my_epk s" E]
      by (auto simp: ake_step_compute_def ake_inv_def ake_sh3_def ake_3dh_compute_sh3_bob_def ake_3dh_compute_sh3_alice_def)
  next
    case master
    then have "ake_step_compute ?c s = Some (ake_3dh_compute_master_key ?c s, [])"
      using who ake_role_cases [of "as_my_epk s" E] by (auto simp: ake_step_compute_def)
    moreover have "ake_inv ?c isk E I (ake_3dh_compute_master_key ?c s)"
      using inv master by (simp add: ake_3dh_compute_master_key_def ake_inv_def ake_master_def AKE_3DH_SH_SIZE_def)
    ultimately show ?thesis by simp
  next
    case keys
    let ?s = "ake_3dh_compute_tx_rx_keys ?c s"
    have res: "as_result ?s = as_result s" by (simp add: ake_3dh_compute_tx_rx_keys_def Let_def)
    have "ake_inv ?c isk E I ?s"
      using inv by (auto simp: ake_3dh_compute_tx_rx_keys_def Let_def ake_inv_def)
    moreover have "ake_final ?c isk E I (?s\<lparr>as_result := AKE_3DH_RESULT_OK\<rparr>)"
      using inv keys who by (simp add: ake_3dh_compute_tx_rx_keys_def Let_def ake_inv_def ake_final_def
          AKE_3DH_MASTER_KEY_SIZE_def)
    moreover have "ake_step_compute ?c s = Some (if as_tx_rx_keys_computed s then (s, [])
        else ake_3dh_set_result ?c ?s AKE_3DH_RESULT_OK)"
      using keys by (simp add: ake_step_compute_def)
    ultimately show ?thesis using inv res
      by (cases found) (simp_all add: ake_3dh_set_result_def Let_def ake_session_zero_def)
  qed
qed

lemma ake_step_inv:
  assumes inv: "ake_inv (keymgr_ake_ctx found dh sha256) isk E I s"
  shows "\<exists>s' out. ake_3dh_session_step (keymgr_ake_ctx found dh sha256) s r = Some (s', out) \<and>
    (as_used s' \<longrightarrow> ake_inv (keymgr_ake_ctx found dh sha256) isk E I s') \<and>
    reports_final (keymgr_ake_ctx found dh sha256) isk E I out"
proof -
  let ?c = "keymgr_ake_ctx found dh sha256"
  consider (sid) "\<not> as_session_id_generated s" | (esk) "as_session_id_generated s" "\<not> as_my_esk_generated s"
    | (epk) "as_session_id_generated s" "as_my_esk_generated s" "\<not> as_my_epk_calculated s"
    | (rest) "as_session_id_generated s" "as_my_esk_generated s" "as_my_epk_calculated s" by blast
  then show ?thesis
  proof cases
    case sid
    then show ?thesis using inv
      by (simp add: ake_3dh_session_step_def ake_3dh_generate_session_id_def ake_inv_def)
  next
    case esk
    then have "\<not> as_my_epk_calculated s" using inv by (auto simp: ake_inv_def)
    then show ?thesis using inv esk
      by (auto simp: ake_3dh_session_step_def ake_3dh_generate_epk_def ake_inv_def)
  next
    case epk
    then show ?thesis using inv
      by (auto simp: ake_3dh_session_step_def ake_3dh_compute_epk_def ake_inv_def)
  next
    case rest
    obtain s1 o1 where s1: "ake_step_sends ?c s = Some (s1, o1)" "ake_inv ?c isk E I s1" "as_my_epk_calculated s1"
      "reports_final ?c isk E I o1" using step_sends_inv [OF inv] rest by (auto simp: ake_progress_def)
    show ?thesis using step_compute_inv [OF s1(2,3)] s1(1,4) rest by (auto simp: ake_3dh_session_step_def)
  qed
qed

subsection \<open>Both ends agree\<close>

text \<open>Events of a session whose peer is honest: the ephemeral key delivered is always \<open>E\<close>, the identity key
  \<open>I\<close>, and the identity key does not arrive before the session has computed its first secret (its role
  is not determined until then).\<close>

fun ake_honest :: "ake_ctx \<Rightarrow> u8 list \<Rightarrow> u8 list \<Rightarrow> ake_event list \<Rightarrow> ake_session \<times> ake_out list \<Rightarrow> bool" where
  "ake_honest self E I [] st = True"
| "ake_honest self E I (e # evs) st =
     ((case e of
         Ake_deliver (Epk_response key) \<Rightarrow> key = E
       | Ake_deliver (Ipk_response key encrypted) \<Rightarrow> key = Some I \<and> as_sh1_computed (fst st)
       | _ \<Rightarrow> True) \<and>
      (case ake_event_step self e st of None \<Rightarrow> False | Some st' \<Rightarrow> ake_honest self E I evs st'))"

definition ake_good :: "ake_ctx \<Rightarrow> u8 list \<Rightarrow> u8 list \<Rightarrow> u8 list \<Rightarrow> ake_session \<times> ake_out list \<Rightarrow> bool" where
  "ake_good self isk E I st \<longleftrightarrow>
     (as_used (fst st) \<longrightarrow> ake_inv self isk E I (fst st)) \<and> reports_final self isk E I (snd st)"

lemma process_used [simp]: "as_used (snd (ake_process s c)) = as_used s"
  by (auto simp: ake_process_def split: ake_content.splits option.splits bool.splits)

lemma ake_event_good:
  assumes good: "ake_good (keymgr_ake_ctx found dh sha256) isk E I st"
    and honest: "case e of Ake_deliver (Epk_response key) \<Rightarrow> key = E
       | Ake_deliver (Ipk_response key encrypted) \<Rightarrow> key = Some I \<and> as_sh1_computed (fst st) | _ \<Rightarrow> True"
  shows "\<exists>st'. ake_event_step (keymgr_ake_ctx found dh sha256) e st = Some st' \<and>
    ake_good (keymgr_ake_ctx found dh sha256) isk E I st'"
proof -
  obtain s out where st: "st = (s, out)" by (cases st) auto
  show ?thesis
  proof (cases e)
    case (Ake_step r)
    show ?thesis
    proof (cases "as_used s")
      case True
      then have "ake_inv (keymgr_ake_ctx found dh sha256) isk E I s" using good by (simp add: ake_good_def st)
      from ake_step_inv [OF this, of r] show ?thesis
        using good True Ake_step by (auto simp: ake_event_step_def st ake_good_def)
    next
      case False
      then show ?thesis using good Ake_step by (simp add: ake_event_step_def st)
    qed
  next
    case (Ake_timers t)
    then show ?thesis using good by (simp add: ake_event_step_def st ake_good_def ake_3dh_advance_timers_def)
  next
    case (Ake_deliver c)
    have "ake_inv (keymgr_ake_ctx found dh sha256) isk E I (snd (ake_process s c))" if "as_used s"
      using good honest that Ake_deliver
      by (cases c) (auto simp: ake_good_def st ake_process_def ake_inv_def)
    then show ?thesis using good Ake_deliver by (simp add: ake_event_step_def st ake_good_def)
  qed
qed

lemma ake_run_good:
  "ake_good (keymgr_ake_ctx found dh sha256) isk E I st \<Longrightarrow>
    ake_honest (keymgr_ake_ctx found dh sha256) E I evs st \<Longrightarrow>
    \<exists>st'. fold_opt (ake_event_step (keymgr_ake_ctx found dh sha256)) evs st = Some st' \<and>
      ake_good (keymgr_ake_ctx found dh sha256) isk E I st'"
proof (induction evs arbitrary: st)
  case Nil
  then show ?case by simp
next
  case (Cons e evs)
  then obtain st1 where "ake_event_step (keymgr_ake_ctx found dh sha256) e st = Some st1"
    "ake_good (keymgr_ake_ctx found dh sha256) isk E I st1"
    using ake_event_good [OF Cons.prems(1), of e] by auto
  then show ?case using Cons.IH [of st1] Cons.prems(2) by simp
qed

text \<open>A session as the code means to start it, with the pointers set to the identity keys; the code as it is does not
  get here.\<close>

definition ake_started :: "u8 list \<Rightarrow> u8 list \<Rightarrow> ake_session" where
  "ake_started isk ipk = ake_session_zero\<lparr>as_used := True, as_my_isk := Some isk, as_my_ipk := Some ipk,
     as_who_i_am := AKE_3DH_ALICE\<rparr>"

lemma ake_started_good: "ake_good (keymgr_ake_ctx found dh sha256) isk E I (ake_started isk ipk, [])"
  by (simp add: ake_good_def ake_inv_def ake_started_def ake_session_zero_def)

lemma ake_report_final:
  assumes "ake_honest (keymgr_ake_ctx found dh sha256) E I evs (ake_started isk ipk, [])"
    and "ake_run (keymgr_ake_ctx found dh sha256) evs (ake_started isk ipk) = Some (s, out)"
    and "Ake_report r res \<in> set out"
  shows "ake_final (keymgr_ake_ctx found dh sha256) isk E I r"
  using ake_run_good [OF ake_started_good assms(1)] assms(2,3)
  by (auto simp: ake_run_def ake_good_def reports_final_def)

lemma memcmp_swap: "memcmp ys xs = - memcmp xs ys"
  by (induction xs ys rule: memcmp.induct) (auto simp: not_less_iff_gr_or_eq)

lemma memcmp_equal: "length xs = length ys \<Longrightarrow> memcmp xs ys = 0 \<longleftrightarrow> xs = ys"
  by (induction xs ys rule: list_induct2) (auto simp: not_less_iff_gr_or_eq)

lemma ake_role_opposite:
  assumes "length a = 32" "length b = 32" "a \<noteq> b"
  shows "ake_role b a = (if ake_role a b = AKE_3DH_ALICE then AKE_3DH_BOB else AKE_3DH_ALICE)"
  using assms memcmp_swap [of a b] memcmp_equal [of a b] by (auto simp: ake_role_def)

text \<open>The computation of the keys, for sessions that were started as meant: two of them run the key exchange against each
  other, and each receives as its peer's keys the
  ephemeral key the other has computed and the other's identity key, not shifted, and after the first
  shared secret; otherwise steps of their tasks, clock ticks, requests and repeated messages come in any
  order. If both report a result, then the key one of them sends with is the key the other receives with,
  in both directions.\<close>

theorem ake_keys_agree:
  assumes dh: "\<And>a b. dh a (dh b CURVE25519_BASEPOINT) = dh b (dh a CURVE25519_BASEPOINT)"
    and len: "\<And>a b. length (dh a b) = 32"
    and a_run: "ake_run (keymgr_ake_ctx fa dh sha256) evs_a (ake_started isk_a ipk_a) = Some (s_a, out_a)"
    and b_run: "ake_run (keymgr_ake_ctx fb dh sha256) evs_b (ake_started isk_b ipk_b) = Some (s_b, out_b)"
    and a_hon: "ake_honest (keymgr_ake_ctx fa dh sha256) (as_my_epk r_b) (dh isk_b CURVE25519_BASEPOINT) evs_a
        (ake_started isk_a ipk_a, [])"
    and b_hon: "ake_honest (keymgr_ake_ctx fb dh sha256) (as_my_epk r_a) (dh isk_a CURVE25519_BASEPOINT) evs_b
        (ake_started isk_b ipk_b, [])"
    and a_rep: "Ake_report r_a res_a \<in> set out_a" and b_rep: "Ake_report r_b res_b \<in> set out_b"
    and diff: "as_my_epk r_a \<noteq> as_my_epk r_b"
  shows "as_master_tx_key r_a = as_master_rx_key r_b \<and> as_master_rx_key r_a = as_master_tx_key r_b"
proof -
  let ?I = "\<lambda>k. dh k CURVE25519_BASEPOINT"
  have fa: "ake_final (keymgr_ake_ctx fa dh sha256) isk_a (as_my_epk r_b) (?I isk_b) r_a"
    by (rule ake_report_final [OF a_hon a_run a_rep])
  have fb: "ake_final (keymgr_ake_ctx fb dh sha256) isk_b (as_my_epk r_a) (?I isk_a) r_b"
    by (rule ake_report_final [OF b_hon b_run b_rep])
  have epk: "as_my_epk r_a = ?I (as_my_esk r_a)" "as_my_epk r_b = ?I (as_my_esk r_b)"
    using fa fb by (simp_all add: ake_final_def)
  have role: "ake_role (as_my_epk r_b) (as_my_epk r_a) =
      (if ake_role (as_my_epk r_a) (as_my_epk r_b) = AKE_3DH_ALICE then AKE_3DH_BOB else AKE_3DH_ALICE)"
    by (rule ake_role_opposite) (use epk len diff in auto)
  have "ake_master (keymgr_ake_ctx fa dh sha256) isk_a (as_my_esk r_a) (as_my_epk r_b) (?I isk_b)
          (ake_role (as_my_epk r_a) (as_my_epk r_b)) =
        ake_master (keymgr_ake_ctx fb dh sha256) isk_b (as_my_esk r_b) (as_my_epk r_a) (?I isk_a)
          (ake_role (as_my_epk r_b) (as_my_epk r_a))"
    unfolding role using epk dh by (simp add: ake_master_def ake_sh2_def ake_sh3_def)
  then show ?thesis using fa fb role by (auto simp: ake_final_def Let_def split: if_splits)
qed

text \<open>The key agreement function of the witness: addition of the bytes without carry.\<close>

definition example_dh :: "u8 list \<Rightarrow> u8 list \<Rightarrow> u8 list" where
  "example_dh a b = map (\<lambda>i. (if i < length a then a ! i else 0) XOR (if i < length b then b ! i else 0)) [0..<32]"

lemma example_dh_commutes: "example_dh a (example_dh b k) = example_dh b (example_dh a k)"
  by (simp add: example_dh_def xor.left_commute)

definition example_key :: "u8 \<Rightarrow> u8 list" where "example_key x = replicate 32 x"

definition example_ake_events :: "u8 \<Rightarrow> u8 \<Rightarrow> u8 \<Rightarrow> ake_event list" where
  "example_ake_events esk peer_esk peer_isk =
     [Ake_step [1, 2, 3, 4], Ake_step (example_key esk), Ake_step [],
      Ake_deliver (Epk_response (example_dh (example_key peer_esk) CURVE25519_BASEPOINT)), Ake_deliver Epk_request,
      Ake_step [], Ake_deliver (Ipk_response (Some (example_dh (example_key peer_isk) CURVE25519_BASEPOINT)) False),
      Ake_timers 100, Ake_step [], Ake_step [], Ake_step [], Ake_step []]"

definition example_ake_run :: "u8 \<Rightarrow> u8 \<Rightarrow> u8 \<Rightarrow> u8 \<Rightarrow> (ake_session \<times> ake_out list) option" where
  "example_ake_run isk esk peer_esk peer_isk =
     ake_run (keymgr_ake_ctx True example_dh rev) (example_ake_events esk peer_esk peer_isk)
       (ake_started (example_key isk) [])"

fun last_report :: "ake_out list \<Rightarrow> ake_session" where
  "last_report [] = ake_session_zero"
| "last_report (Ake_report s r # out) = s"
| "last_report (Ake_send m # out) = last_report out"

definition example_report :: "u8 \<Rightarrow> u8 \<Rightarrow> u8 \<Rightarrow> u8 \<Rightarrow> ake_session" where
  "example_report isk esk peer_esk peer_isk =
     (case example_ake_run isk esk peer_esk peer_isk of None \<Rightarrow> ake_session_zero | Some (s, out) \<Rightarrow> last_report out)"

lemma ake_keys_agree_witness:
  "as_master_tx_key (example_report 3 5 7 9) = as_master_rx_key (example_report 9 7 5 3) \<and>
   as_master_tx_key (example_report 3 5 7 9) \<noteq> as_master_rx_key (example_report 3 5 7 9)"
proof
  let ?c = "keymgr_ake_ctx True example_dh rev"
  show "as_master_tx_key (example_report 3 5 7 9) \<noteq> as_master_rx_key (example_report 3 5 7 9)"
    by code_simp
  have ra: "case example_ake_run 3 5 7 9 of None \<Rightarrow> False | Some (s, out) \<Rightarrow>
      list_ex (\<lambda>e. case e of Ake_report r x \<Rightarrow> True | _ \<Rightarrow> False) out" by code_simp
  have rb: "case example_ake_run 9 7 5 3 of None \<Rightarrow> False | Some (s, out) \<Rightarrow>
      list_ex (\<lambda>e. case e of Ake_report r x \<Rightarrow> True | _ \<Rightarrow> False) out" by code_simp
  have rep: "\<exists>x. Ake_report (last_report out) x \<in> set out"
    if "list_ex (\<lambda>e. case e of Ake_report r x \<Rightarrow> True | _ \<Rightarrow> False) out" for out
    using that by (induction out rule: last_report.induct) auto
  obtain s_a out_a x_a where a: "example_ake_run 3 5 7 9 = Some (s_a, out_a)" "example_report 3 5 7 9 = last_report out_a"
    "Ake_report (last_report out_a) x_a \<in> set out_a"
    using ra rep by (auto simp: example_report_def split: option.splits)
  obtain s_b out_b x_b where b: "example_ake_run 9 7 5 3 = Some (s_b, out_b)" "example_report 9 7 5 3 = last_report out_b"
    "Ake_report (last_report out_b) x_b \<in> set out_b"
    using rb rep by (auto simp: example_report_def split: option.splits)
  have ha: "ake_honest ?c (as_my_epk (last_report out_b)) (example_dh (example_key 9) CURVE25519_BASEPOINT)
      (example_ake_events 5 7 9) (ake_started (example_key 3) [], [])"
    unfolding b(2) [symmetric] by code_simp
  have hb: "ake_honest ?c (as_my_epk (last_report out_a)) (example_dh (example_key 3) CURVE25519_BASEPOINT)
      (example_ake_events 7 5 3) (ake_started (example_key 9) [], [])"
    unfolding a(2) [symmetric] by code_simp
  have d: "as_my_epk (last_report out_a) \<noteq> as_my_epk (last_report out_b)"
    unfolding a(2) [symmetric] b(2) [symmetric] by code_simp
  show "as_master_tx_key (example_report 3 5 7 9) = as_master_rx_key (example_report 9 7 5 3)"
    using ake_keys_agree [OF example_dh_commutes _ a(1) [unfolded example_ake_run_def] b(1) [unfolded example_ake_run_def]
        ha hb a(3) b(3) d]
    unfolding a(2) b(2) by (simp add: example_dh_def)
qed

subsection \<open>The exchange comes to an end\<close>

text \<open>What is left to do once the identity key of the peer is there, and no result was reported.\<close>

definition ake_pending :: "ake_session \<Rightarrow> bool" where
  "ake_pending s \<longleftrightarrow> as_used s \<and> as_peer_ipk_received s \<and> \<not> as_tx_rx_keys_computed s \<and>
     as_result s = AKE_3DH_RESULT_NONE"

definition ake_left :: "ake_session \<Rightarrow> nat" where
  "ake_left s = of_bool (\<not> as_session_id_generated s) + of_bool (\<not> as_sh2_computed s) +
     of_bool (\<not> as_sh3_computed s) + of_bool (\<not> as_master_key_computed s) + 1"

lemma progress_eq:
  "ake_progress s' = ake_progress s \<Longrightarrow> ake_pending s' = ake_pending s \<and> ake_left s' = ake_left s \<and>
    as_my_epk_calculated s' = as_my_epk_calculated s \<and> as_session_id_generated s' = as_session_id_generated s"
  by (simp add: ake_progress_def ake_pending_def ake_left_def)

lemma compute_progress:
  assumes inv: "ake_inv self isk E I s" and p: "ake_pending s" and sid: "as_session_id_generated s"
    and step: "ake_step_compute self s = Some (s', out)"
  shows "(\<exists>r. Ake_report r AKE_3DH_RESULT_OK \<in> set out) \<or> ake_pending s' \<and> ake_left s' < ake_left s"
proof -
  have f: "as_sh1_computed s" "as_my_esk_generated s" "as_peer_epk_received s" "as_peer_ipk_received s"
    "as_my_isk s = Some isk" "as_who_i_am s \<in> {AKE_3DH_ALICE, AKE_3DH_BOB}"
    using inv p ake_role_cases [of "as_my_epk s" E] by (auto simp: ake_inv_def ake_pending_def)
  consider "\<not> as_sh2_computed s" | "as_sh2_computed s" "\<not> as_sh3_computed s"
    | "as_sh2_computed s" "as_sh3_computed s" "\<not> as_master_key_computed s"
    | "as_sh2_computed s" "as_sh3_computed s" "as_master_key_computed s" by blast
  then show ?thesis
  proof cases
    case 1
    then show ?thesis using f p sid step
      by (auto simp: ake_step_compute_def ake_pending_def ake_left_def ake_3dh_compute_sh2_alice_def
          ake_3dh_compute_sh2_bob_def)
  next
    case 2
    then show ?thesis using f p sid step
      by (auto simp: ake_step_compute_def ake_pending_def ake_left_def ake_3dh_compute_sh3_alice_def
          ake_3dh_compute_sh3_bob_def)
  next
    case 3
    then show ?thesis using f p sid step
      by (auto simp: ake_step_compute_def ake_pending_def ake_left_def ake_3dh_compute_master_key_def)
  next
    case 4
    then show ?thesis using f p step
      by (auto simp: ake_step_compute_def ake_pending_def ake_3dh_set_result_def ake_3dh_compute_tx_rx_keys_def Let_def)
  qed
qed

lemma step_progress:
  assumes inv: "ake_inv (keymgr_ake_ctx found dh sha256) isk E I s" and p: "ake_pending s"
    and step: "ake_3dh_session_step (keymgr_ake_ctx found dh sha256) s r = Some (s', out)"
  shows "(\<exists>x. Ake_report x AKE_3DH_RESULT_OK \<in> set out) \<or> ake_pending s' \<and> ake_left s' < ake_left s"
proof (cases "as_session_id_generated s")
  case False
  then show ?thesis using p step
    by (auto simp: ake_3dh_session_step_def ake_3dh_generate_session_id_def ake_pending_def ake_left_def)
next
  case True
  have gen: "as_my_esk_generated s" "as_my_epk_calculated s" using inv p by (auto simp: ake_inv_def ake_pending_def)
  obtain s1 o1 where s1: "ake_step_sends (keymgr_ake_ctx found dh sha256) s = Some (s1, o1)"
    "ake_inv (keymgr_ake_ctx found dh sha256) isk E I s1" "ake_progress s1 = ake_progress s"
    using step_sends_inv [OF inv] by blast
  obtain o2 where o2: "ake_step_compute (keymgr_ake_ctx found dh sha256) s1 = Some (s', o2)" "out = o1 @ o2"
    using step s1(1) True gen
    by (cases "ake_step_compute (keymgr_ake_ctx found dh sha256) s1") (auto simp: ake_3dh_session_step_def)
  show ?thesis
    using compute_progress [OF s1(2) _ _ o2(1)] progress_eq [OF s1(3)] p True o2(2) by auto
qed

lemma steps_keep_out:
  "as_used s \<longrightarrow> ake_inv (keymgr_ake_ctx found dh sha256) isk E I s \<Longrightarrow>
    \<exists>s' out'. fold_opt (ake_event_step (keymgr_ake_ctx found dh sha256)) (map Ake_step rs) (s, out) = Some (s', out') \<and>
      set out \<subseteq> set out'"
proof (induction rs arbitrary: s out)
  case (Cons r rs)
  let ?c = "keymgr_ake_ctx found dh sha256"
  show ?case
  proof (cases "as_used s")
    case True
    obtain s2 o2 where s2: "ake_3dh_session_step ?c s r = Some (s2, o2)" "as_used s2 \<longrightarrow> ake_inv ?c isk E I s2"
      using ake_step_inv Cons.prems True by blast
    obtain s' out' where "fold_opt (ake_event_step ?c) (map Ake_step rs) (s2, out @ o2) = Some (s', out')"
      "set (out @ o2) \<subseteq> set out'" using Cons.IH [OF s2(2)] by blast
    moreover have "ake_event_step ?c (Ake_step r) (s, out) = Some (s2, out @ o2)"
      using s2(1) True by (simp add: ake_event_step_def)
    ultimately show ?thesis by simp
  next
    case False
    then have "ake_event_step ?c (Ake_step r) (s, out) = Some (s, out)" by (simp add: ake_event_step_def)
    then show ?thesis using Cons by simp
  qed
qed simp

lemma steps_report:
  assumes "ake_left s \<le> length rs" and "ake_pending s"
    and "ake_inv (keymgr_ake_ctx found dh sha256) isk E I s"
  shows "\<exists>s' out'. fold_opt (ake_event_step (keymgr_ake_ctx found dh sha256)) (map Ake_step rs) (s, out) = Some (s', out') \<and>
    (\<exists>x. Ake_report x AKE_3DH_RESULT_OK \<in> set out')"
  using assms
proof (induction rs arbitrary: s out)
  case Nil
  then show ?case by (simp add: ake_left_def)
next
  case (Cons r rs)
  let ?c = "keymgr_ake_ctx found dh sha256"
  obtain s1 o1 where s1: "ake_3dh_session_step ?c s r = Some (s1, o1)" "as_used s1 \<longrightarrow> ake_inv ?c isk E I s1"
    using ake_step_inv [OF Cons.prems(3)] by blast
  have step: "ake_event_step ?c (Ake_step r) (s, out) = Some (s1, out @ o1)"
    using s1(1) Cons.prems(2) by (simp add: ake_event_step_def ake_pending_def)
  from step_progress [OF Cons.prems(3,2) s1(1)] show ?case
  proof
    assume "\<exists>x. Ake_report x AKE_3DH_RESULT_OK \<in> set o1"
    then obtain x where x: "Ake_report x AKE_3DH_RESULT_OK \<in> set (out @ o1)" by auto
    obtain s' out' where "fold_opt (ake_event_step ?c) (map Ake_step rs) (s1, out @ o1) = Some (s', out')"
      "set (out @ o1) \<subseteq> set out'" using steps_keep_out [OF s1(2)] by blast
    then show ?thesis using step x by auto
  next
    assume "ake_pending s1 \<and> ake_left s1 < ake_left s"
    then show ?thesis using Cons.IH [of s1 "out @ o1"] Cons.prems(1) step s1(2) by (simp add: ake_pending_def)
  qed
qed

text \<open>An exchange that was started as meant ends: once a session that has its keys has received the identity
  key of its peer, five more steps report success, unless it was reported before.\<close>

theorem ake_completes:
  assumes "ake_honest (keymgr_ake_ctx found dh sha256) E I evs (ake_started isk ipk, [])"
    and "ake_run (keymgr_ake_ctx found dh sha256) evs (ake_started isk ipk) = Some (s, out)"
    and "ake_pending s" and "5 \<le> length rs"
  shows "\<exists>s' out' r. ake_run (keymgr_ake_ctx found dh sha256) (evs @ map Ake_step rs) (ake_started isk ipk) = Some (s', out') \<and>
    Ake_report r AKE_3DH_RESULT_OK \<in> set out'"
proof -
  have "ake_inv (keymgr_ake_ctx found dh sha256) isk E I s"
    using ake_run_good [OF ake_started_good assms(1)] assms(2,3)
    by (auto simp: ake_run_def ake_good_def ake_pending_def)
  moreover have "ake_left s \<le> length rs" using assms(4) by (simp add: ake_left_def of_bool_def)
  ultimately show ?thesis using steps_report [of s rs found dh sha256 isk E I out] assms(2,3)
    by (auto simp: ake_run_def)
qed

definition example_ake_prefix :: "ake_event list" where
  "example_ake_prefix = take 7 (example_ake_events 5 7 9)"

lemma ake_completes_witness:
  "\<exists>s' out' r. ake_run (keymgr_ake_ctx True example_dh rev) (example_ake_prefix @ map Ake_step [[], [], [], [], []])
      (ake_started (example_key 3) []) = Some (s', out') \<and> Ake_report r AKE_3DH_RESULT_OK \<in> set out'"
proof -
  let ?c = "keymgr_ake_ctx True example_dh rev"
  have h: "ake_honest ?c (example_dh (example_key 7) CURVE25519_BASEPOINT) (example_dh (example_key 9) CURVE25519_BASEPOINT)
      example_ake_prefix (ake_started (example_key 3) [], [])" by code_simp
  have "case ake_run ?c example_ake_prefix (ake_started (example_key 3) []) of None \<Rightarrow> False | Some (s, out) \<Rightarrow> ake_pending s"
    by code_simp
  then obtain s out where "ake_run ?c example_ake_prefix (ake_started (example_key 3) []) = Some (s, out)" "ake_pending s"
    by (auto split: option.splits)
  from ake_completes [OF h this, of "[[], [], [], [], []]"] show ?thesis by simp
qed

subsection \<open>Requests slow down\<close>

text \<open>\<open>n\<close> rounds of the task in which a session still waits for the ephemeral key of its peer: the session and
  the number of requests sent.\<close>

fun epk_requests :: "ake_ctx \<Rightarrow> nat \<Rightarrow> ake_session \<Rightarrow> ake_session \<times> nat" where
  "epk_requests self 0 s = (s, 0)"
| "epk_requests self (Suc n) s =
     (let (s1, out) = ake_3dh_send_epk_request self s;
          (s2, k) = epk_requests self n (ake_3dh_advance_timers s1 AKE_3DH_STEP_INTERVAL_MS)
      in (s2, length out + k))"

text \<open>The same for the time since the last request and the interval alone.\<close>

fun request_schedule :: "nat \<Rightarrow> u32 \<Rightarrow> u32 \<Rightarrow> u32 \<times> u32 \<times> nat" where
  "request_schedule 0 t i = (t, i, 0)"
| "request_schedule (Suc n) t i =
     (if t \<ge> i then (case request_schedule n 100 (next_interval i 200 2 2000) of (t', i', k) \<Rightarrow> (t', i', Suc k))
      else request_schedule n (t + 100) i)"

lemma epk_requests_schedule:
  "snd (epk_requests (keymgr_ake_ctx found dh sha256) n s) =
    snd (snd (request_schedule n (as_peer_epk_request_time s) (as_peer_epk_request_interval s)))"
proof (induction n arbitrary: s)
  case (Suc n)
  show ?case
    by (simp add: Suc ake_3dh_send_epk_request_def ake_3dh_send_def ake_3dh_advance_timers_def Let_def
        AKE_3DH_STEP_INTERVAL_MS_def AKE_3DH_EPK_REQUEST_INITIAL_INTERVAL_def
        AKE_3DH_EPK_REQUEST_INTERVAL_MULTIPLIER_def AKE_3DH_EPK_REQUEST_INTERVAL_MAX_def split_beta)
qed simp

lemma request_schedule_add:
  "request_schedule (m + n) t i =
    (case request_schedule m t i of (t1, i1, k1) \<Rightarrow>
       (case request_schedule n t1 i1 of (t2, i2, k2) \<Rightarrow> (t2, i2, k1 + k2)))"
  by (induction m arbitrary: t i) (simp_all split: prod.splits)

lemma request_schedule_steady:
  "1 \<le> j \<Longrightarrow> j \<le> 20 \<Longrightarrow> snd (snd (request_schedule n (of_nat (100 * j)) 2000)) = (n + j - 1) div 20"
proof (induction n arbitrary: j)
  case (Suc n)
  have t: "unat (of_nat (100 * j) :: u32) = 100 * j"
    using Suc.prems by (simp add: unat_of_nat del: of_nat_mult)
  show ?case
  proof (cases "j = 20")
    case True
    have "request_schedule (Suc n) (of_nat (100 * j)) 2000 =
        (case request_schedule n 100 2000 of (t', i', k) \<Rightarrow> (t', i', Suc k))"
      using True by (simp add: next_interval_def)
    then show ?thesis using Suc.IH [of 1] True by (simp split: prod.splits)
  next
    case False
    then have "\<not> (of_nat (100 * j) :: u32) \<ge> 2000" using t Suc.prems by (simp add: word_le_nat_alt)
    moreover have "(of_nat (100 * j) :: u32) + 100 = of_nat (100 * Suc j)" by simp
    ultimately have "request_schedule (Suc n) (of_nat (100 * j)) 2000 = request_schedule n (of_nat (100 * Suc j)) 2000"
      by (simp only: request_schedule.simps if_False)
    then show ?thesis using Suc.IH [of "Suc j"] Suc.prems False by simp
  qed
qed simp

text \<open>Property C16. A session whose peer never answers asks for the ephemeral key five times in the first
  three seconds and from then on once in two seconds: 5 requests and one more for every 20 rounds.\<close>

theorem epk_request_rate:
  assumes "as_peer_epk_request_time s = 0" and "as_peer_epk_request_interval s = 0"
  shows "snd (epk_requests (keymgr_ake_ctx found dh sha256) (31 + n) s) = 5 + n div 20"
proof -
  have "request_schedule 31 0 0 = (100, 2000, 5)" by code_simp
  then show ?thesis
    using request_schedule_steady [of 1 n] assms by (simp add: epk_requests_schedule request_schedule_add split_beta)
qed

lemma epk_request_rate_witness:
  "snd (epk_requests (keymgr_ake_ctx True example_dh rev) (31 + 40) (ake_started [] [])) = 7"
  using epk_request_rate [of "ake_started [] []" True example_dh rev 40]
  by (simp add: ake_started_def ake_session_zero_def)

subsection \<open>What the code does outside of its intended use\<close>

text \<open>The fields of a session include the pointers to the identity keys; they are cleared and then used as
  the destination of the keys. A session can only be started when there is no room for one.\<close>

lemma start_session_through_null:
  assumes "s \<in> set table" and "\<not> as_used s"
  shows "ake_3dh_start_session table isk ipk sid = None"
proof -
  obtain i where "find_last (\<lambda>s. \<not> as_used s) table = Some i"
    using find_last_None [of "\<lambda>s. \<not> as_used s" table] assms by (cases "find_last (\<lambda>s. \<not> as_used s) table") auto
  then show ?thesis by (simp add: ake_3dh_start_session_def copy_through_def ake_session_zero_def)
qed

text \<open>The identity key sent starts with the third byte of the key and ends with two zeros.\<close>

lemma ipk_response_shifted:
  assumes "as_my_ipk s = Some ipk" and "length ipk = 32" and "ac_send_callback self"
  shows "\<exists>s'. ake_3dh_send_ipk_response self s =
    Some (s', [Ake_send (as_session_id s, Ipk_response (Some (drop 2 ipk @ [0, 0])) False)])"
  using assms by (simp add: ake_3dh_send_ipk_response_def ake_3dh_send_def PB_SIZE_T_BYTES_def AKE_3DH_IPK_SIZE_def
      numeral_2_eq_2)

text \<open>When the identity key of the peer arrives before its ephemeral key, the third secret is computed for the
  default role. A session that turns out to be Bob then has another master key than its peer.\<close>

lemma early_identity_key:
  assumes "as_who_i_am s = AKE_3DH_ALICE" and "as_my_esk_generated s" and "as_peer_ipk_received s"
    and "\<not> as_peer_epk_received s" and "\<not> as_sh3_computed s"
  shows "ake_step_compute self s =
    Some (s\<lparr>as_sh3 := ac_dh self (as_my_esk s) (as_peer_ipk s), as_sh3_computed := True\<rparr>, [])"
  using assms by (simp add: ake_step_compute_def ake_3dh_compute_sh3_alice_def)

text \<open>A message without a session identifier is taken for the last entry of the table, used or not.\<close>

lemma empty_identifier_matches_last:
  "table \<noteq> [] \<Longrightarrow> find_last (\<lambda>s. take (length []) (as_session_id s) = []) table = Some (length table - 1)"
proof -
  assume t: "table \<noteq> []"
  then obtain i where "find_last (\<lambda>s. take (length []) (as_session_id s) = []) table = Some i"
    using find_last_None [of "\<lambda>s. take (length []) (as_session_id s) = []" table]
    by (cases "find_last (\<lambda>s. take (length []) (as_session_id s) = []) table") auto
  moreover from find_last_Some [OF this] have "i = length table - 1"
    by (metis One_nat_def Suc_pred diff_less length_greater_0_conv less_Suc_eq list.size(3) not_less_eq t take0 zero_less_one)
  ultimately show ?thesis by simp
qed

text \<open>A key manager session keeps its reference after the exchange. When the exchange session is used again
  for another peer by an earlier entry of the table, its messages go to the former peer.\<close>

lemma stale_reference_gets_messages:
  "umesh_l2_keymgr_ake_3dh_send [keymgr_session_zero\<lparr>ks_peer_tid := 2, ks_ake_3dh := Some 0, ks_state := SESSION_INITIAL_AKE\<rparr>,
     keymgr_session_zero\<lparr>ks_peer_tid := 1, ks_ake_3dh := Some 0, ks_state := SESSION_MANAGED\<rparr>] 0 = Some 1"
  by code_simp

end
