(* ===== verification/Keymgr_Props.thy ===== *)
theory Keymgr_Props
  imports Ake_3dh
begin

text \<open>
  The table of key management sessions under everything that changes it: rounds of the task, results of the key exchange,
  requests to manage a peer and messages of other nodes, in any order. A session whose keys are used has its keys from a
  successful key exchange of its own.
\<close>

text \<open>The calls of the key manager, with what the key exchange gives it: which session of the key exchange is started for
  which entry in a round, a result with the keys, and for a message the key exchange itself, the keys of the node and the
  decoded message.\<close>

datatype keymgr_event =
    Keymgr_Round "nat \<Rightarrow> nat option"
  | Keymgr_Ake nat ake_3dh_result "u8 list" "u8 list"
  | Keymgr_Manage u32
  | Keymgr_Receive "ake_session list" "u8 list" "u8 list" u32 "ake_message option option"

fun keymgr_exec :: "keymgr \<Rightarrow> keymgr_event \<Rightarrow> keymgr" where
  "keymgr_exec self (Keymgr_Round starts) = keymgr_round self starts"
| "keymgr_exec self (Keymgr_Ake ake result tx_key rx_key) = snd (keymgr_ake_result self ake result tx_key rx_key)"
| "keymgr_exec self (Keymgr_Manage tid) = snd (umesh_l2_keymgr_manage self tid)"
| "keymgr_exec self (Keymgr_Receive ake isk ipk stid decoded) =
     (case umesh_l2_keymgr_receive_handler self ake isk ipk stid decoded of
        None \<Rightarrow> self
      | Some (_, self, _) \<Rightarrow> self)"

subsection \<open>One call\<close>

lemma keymgr_round_nth: "i < length self \<Longrightarrow> keymgr_round self starts ! i = keymgr_session_step (self ! i) (starts i)"
  by (simp add: keymgr_round_def nth_enumerate_eq)

lemma length_keymgr_round [simp]: "length (keymgr_round self starts) = length self"
  by (simp add: keymgr_round_def)

lemma session_step_peer:
  assumes "session_authenticated (ks_state (keymgr_session_step s a))"
  shows "ks_peer_tid (keymgr_session_step s a) = ks_peer_tid s"
  using assms
  by (cases "ks_state s"; cases "ks_state_timeout_ms s = 0"; cases a)
    (simp_all add: keymgr_session_step_def adjust_times_def check_and_increment_ake_time_def session_loop_step_def
      check_session_state_timeout_def set_session_state_def Let_def keymgr_session_zero_def session_authenticated_def)

text \<open>A message of another node changes at most one free entry, and that is not authenticated afterwards.\<close>

lemma receive_handler_sessions:
  assumes "umesh_l2_keymgr_receive_handler self ake isk ipk stid decoded = Some (ok, self', ake')"
  shows "self' = self \<or> (\<exists>j s. keymgr_allocate_session self = Some j \<and> self' = self[j := s] \<and>
    ks_state s \<in> {SESSION_INITIAL_AKE, SESSION_NAUTH})"
  using assms
  by (auto simp: umesh_l2_keymgr_receive_handler_def set_session_state_def Let_def
      split: option.splits prod.splits if_splits bind_splits)

lemma length_keymgr_exec [simp]: "length (keymgr_exec self e) = length self"
proof (cases e)
  case (Keymgr_Receive ake isk ipk stid decoded)
  then show ?thesis using receive_handler_sessions [of self ake isk ipk stid decoded]
    by (auto split: option.splits)
qed (auto simp: keymgr_ake_result_session umesh_l2_keymgr_manage_def split: option.splits)

text \<open>An entry that is authenticated after a call was so before, for the same peer and with the same keys, or the call
  was the report of success for the key exchange of the entry.\<close>

definition same_keys :: "keymgr_session \<Rightarrow> keymgr_session \<Rightarrow> bool" where
  "same_keys s s' \<longleftrightarrow> ks_peer_tid s' = ks_peer_tid s \<and> ks_master_tx_key s' = ks_master_tx_key s \<and>
     ks_master_rx_key s' = ks_master_rx_key s"

definition reported :: "keymgr_session \<Rightarrow> keymgr_event \<Rightarrow> keymgr_session \<Rightarrow> bool" where
  "reported s e s' \<longleftrightarrow> (\<exists>a. e = Keymgr_Ake a AKE_3DH_RESULT_OK (ks_master_tx_key s') (ks_master_rx_key s') \<and>
     ks_state s = SESSION_INITIAL_AKE \<and> ks_ake_3dh s = Some a \<and> ks_peer_tid s' = ks_peer_tid s)"

lemma ake_result_authenticated:
  assumes "find_last (\<lambda>s. ks_ake_3dh s = Some a \<and> ks_state s = SESSION_INITIAL_AKE) self = Some i"
    and "session_authenticated (ks_state (session_ake_result (self ! i) r tx rx))"
  shows "reported (self ! i) (Keymgr_Ake a r tx rx) (session_ake_result (self ! i) r tx rx)"
  using assms find_last_Some [OF assms(1)]
  by (cases r) (auto simp: session_ake_result_def set_session_state_def session_authenticated_def reported_def Let_def)

lemma keymgr_exec_step:
  assumes i: "i < length self" and a: "session_authenticated (ks_state (keymgr_exec self e ! i))"
  shows "session_authenticated (ks_state (self ! i)) \<and> same_keys (self ! i) (keymgr_exec self e ! i) \<or>
    reported (self ! i) e (keymgr_exec self e ! i)"
proof (cases "keymgr_exec self e ! i = self ! i")
  case True
  then show ?thesis using a by (simp add: same_keys_def)
next
  case changed: False
  show ?thesis
  proof (cases e)
    case (Keymgr_Round starts)
    then show ?thesis using a session_step_authenticated session_step_peer
      by (simp add: keymgr_round_nth [OF i] same_keys_def)
  next
    case (Keymgr_Ake k r tx rx)
    then obtain j where j: "find_last (\<lambda>s. ks_ake_3dh s = Some k \<and> ks_state s = SESSION_INITIAL_AKE) self = Some j" "j = i"
      using changed by (auto simp: keymgr_ake_result_session split: option.splits) (metis nth_list_update_neq)
    have s: "keymgr_exec self e ! i = session_ake_result (self ! i) r tx rx"
      using Keymgr_Ake j i by (simp add: keymgr_ake_result_session)
    show ?thesis using ake_result_authenticated [OF j(1) [unfolded j(2)] a [unfolded s]] unfolding s using Keymgr_Ake by simp
  next
    case (Keymgr_Manage tid)
    then obtain j where "keymgr_exec self e = self[j := set_session_state (keymgr_session_zero\<lparr>ks_peer_tid := tid\<rparr>) SESSION_NEW]"
      using changed by (auto simp: umesh_l2_keymgr_manage_def split: option.splits)
    then have "ks_state (keymgr_exec self e ! i) = SESSION_NEW"
      using changed i by (cases "i = j") (auto simp: set_session_state_def)
    then show ?thesis using a by (simp add: session_authenticated_def)
  next
    case (Keymgr_Receive ake isk ipk stid decoded)
    then obtain ok self' ake' where r: "umesh_l2_keymgr_receive_handler self ake isk ipk stid decoded = Some (ok, self', ake')"
      "keymgr_exec self e = self'" using changed by (auto split: option.splits)
    then obtain j s where "keymgr_exec self e = self[j := s]" "ks_state s \<in> {SESSION_INITIAL_AKE, SESSION_NAUTH}"
      using receive_handler_sessions [OF r(1)] changed by auto
    then have "ks_state (keymgr_exec self e ! i) \<in> {SESSION_INITIAL_AKE, SESSION_NAUTH}"
      using changed i by (cases "i = j") auto
    then show ?thesis using a by (auto simp: session_authenticated_def)
  qed
qed

lemma length_keymgr_execs [simp]: "length (foldl keymgr_exec self evs) = length self"
  by (induction evs rule: rev_induct) simp_all

lemma authenticated_reported:
  assumes i: "i < length self" and new: "\<not> session_authenticated (ks_state (self ! i))"
  shows "session_authenticated (ks_state (foldl keymgr_exec self evs ! i)) \<Longrightarrow>
    \<exists>before e later. evs = before @ e # later \<and> reported (foldl keymgr_exec self before ! i) e (foldl keymgr_exec self evs ! i)"
proof (induction evs rule: rev_induct)
  case Nil
  then show ?case using new by simp
next
  case (snoc e evs)
  let ?t = "foldl keymgr_exec self evs"
  have "session_authenticated (ks_state (keymgr_exec ?t e ! i))" using snoc.prems by simp
  from keymgr_exec_step [OF _ this] i consider
    "session_authenticated (ks_state (?t ! i))" "same_keys (?t ! i) (keymgr_exec ?t e ! i)" | "reported (?t ! i) e (keymgr_exec ?t e ! i)" by auto
  then show ?case
  proof cases
    case 1
    then obtain before e' later where h: "evs = before @ e' # later" "reported (foldl keymgr_exec self before ! i) e' (?t ! i)"
      using snoc.IH by blast
    then have "reported (foldl keymgr_exec self before ! i) e' (keymgr_exec ?t e ! i)" using 1(2) by (simp add: reported_def same_keys_def)
    moreover have "evs @ [e] = before @ e' # (later @ [e])" using h(1) by simp
    ultimately show ?thesis by (intro exI [of _ before] exI [of _ e'] exI [of _ "later @ [e]"]) simp
  next
    case 2
    then show ?thesis by (intro exI [of _ evs] exI [of _ e] exI [of _ "[]"]) simp
  qed
qed

subsection \<open>Properties\<close>

text \<open>Property C17. Keys are never used unauthenticated. From the empty table, after any sequence of rounds, reports of the key
  exchange, requests to manage a peer and messages of other nodes, an entry that is \<open>MANAGED\<close>, the only state whose keys are
  used for packets, has its keys from a report of success: there is a call among them that reported success with exactly
  these keys for the key exchange that this entry, for this peer, was waiting for.\<close>

theorem keymgr_managed_reported:
  assumes "i < n" "ks_state (foldl keymgr_exec (keymgr_init n) evs ! i) = SESSION_MANAGED"
  shows "\<exists>before a later.
    evs = before @ Keymgr_Ake a AKE_3DH_RESULT_OK (ks_master_tx_key (foldl keymgr_exec (keymgr_init n) evs ! i))
      (ks_master_rx_key (foldl keymgr_exec (keymgr_init n) evs ! i)) # later \<and>
    ks_state (foldl keymgr_exec (keymgr_init n) before ! i) = SESSION_INITIAL_AKE \<and>
    ks_ake_3dh (foldl keymgr_exec (keymgr_init n) before ! i) = Some a \<and>
    ks_peer_tid (foldl keymgr_exec (keymgr_init n) before ! i) = ks_peer_tid (foldl keymgr_exec (keymgr_init n) evs ! i)"
proof -
  have "i < length (keymgr_init n)" "\<not> session_authenticated (ks_state (keymgr_init n ! i))"
    using assms(1) by (simp_all add: keymgr_init_def keymgr_session_zero_def session_authenticated_def)
  from authenticated_reported [OF this, of evs] assms(2) show ?thesis
    unfolding reported_def by (fastforce simp: session_authenticated_def)
qed

text \<open>Two entries; a peer is managed, the key exchange 0 is started for it, and reports success while another peer waits.\<close>

definition keymgr_example_events :: "keymgr_event list" where
  "keymgr_example_events = [Keymgr_Manage 7, Keymgr_Round (\<lambda>_. Some 0), Keymgr_Manage 9,
     Keymgr_Ake 0 AKE_3DH_RESULT_OK (replicate 32 1) (replicate 32 2), Keymgr_Round (\<lambda>_. None)]"

lemma keymgr_managed_reported_witness:
  "\<exists>before a later. keymgr_example_events = before @ Keymgr_Ake a AKE_3DH_RESULT_OK (replicate 32 1) (replicate 32 2) # later \<and>
    ks_state (foldl keymgr_exec (keymgr_init 2) before ! 0) = SESSION_INITIAL_AKE \<and>
    ks_ake_3dh (foldl keymgr_exec (keymgr_init 2) before ! 0) = Some a \<and>
    ks_peer_tid (foldl keymgr_exec (keymgr_init 2) before ! 0) = 7"
proof -
  let ?s = "foldl keymgr_exec (keymgr_init 2) keymgr_example_events ! 0"
  have s: "ks_state ?s = SESSION_MANAGED" "ks_master_tx_key ?s = replicate 32 1" "ks_master_rx_key ?s = replicate 32 2"
    "ks_peer_tid ?s = 7" unfolding keymgr_example_events_def by code_simp+
  have "(0 :: nat) < 2" by simp
  from keymgr_managed_reported [OF this s(1)] show ?thesis unfolding s(2-4) .
qed

end
