(* ===== verification/File_Transfer.thy ===== *)
theory File_Transfer
  imports Prelude "HOL-Library.Monad_Syntax"
begin

text \<open>
  The file transfer protocol of uMesh (\<open>protocols/umesh/file_transfer.c\<close> with its parts
  \<open>file_transfer_misc.inc\<close>, \<open>file_transfer_messages.inc\<close>, \<open>file_transfer_loop.inc\<close>, and the layer 2
  module \<open>umesh_l2_file_transfer.c\<close> that binds it to the mesh). A file is cut into pieces, a piece into
  blocks; the receiver asks for the blocks of up to eight pieces at a time with bitmaps, the sender
  answers with a few blocks in every cycle. The file contents are not transferred by the code at this
  commit (reading and writing the file are open tasks in the source): a block response names a block.

  One step of the task and one message handler are atomic here, as the lock of the session would make
  them. \<open>None\<close> is an access outside of an array, a division by zero or the use of a missing lock. The
  byte that the bitmap functions read behind the bitmap of a piece is the parameter \<open>ft_pad\<close>.
\<close>

definition FT_MAX_FILE_NAME_SIZE :: nat where "FT_MAX_FILE_NAME_SIZE = 32"
definition FT_STEP_INTERVAL_MS :: u32 where "FT_STEP_INTERVAL_MS = 50"
definition FT_SESSION_INIT_TIMEOUT_MS :: u32 where "FT_SESSION_INIT_TIMEOUT_MS = 5000"
definition FT_SESSION_RUNNING_TIMEOUT_MS :: u32 where "FT_SESSION_RUNNING_TIMEOUT_MS = 10000"
definition FT_PROGRESS_UPDATE_INTERVAL_MS :: u32 where "FT_PROGRESS_UPDATE_INTERVAL_MS = 500"
definition FT_FILE_METADATA_MSG_INTERVAL :: u32 where "FT_FILE_METADATA_MSG_INTERVAL = 500"
definition FT_FILE_REQUEST_MSG_INTERVAL :: u32 where "FT_FILE_REQUEST_MSG_INTERVAL = 500"
definition FT_SENDER_PIECE_IDLE_MAX :: u32 where "FT_SENDER_PIECE_IDLE_MAX = 2000"
definition FT_RECEIVER_PIECE_IDLE_MAX :: u32 where "FT_RECEIVER_PIECE_IDLE_MAX = 500"
definition FT_SESSION_ID_SIZE :: nat where "FT_SESSION_ID_SIZE = 2"
definition FT_MAX_SESSION_ID_SIZE :: nat where "FT_MAX_SESSION_ID_SIZE = 8"
definition FT_PIECE_CACHE_COUNT :: nat where "FT_PIECE_CACHE_COUNT = 8"
definition FT_MAX_PIECE_BITMAP_SIZE :: nat where "FT_MAX_PIECE_BITMAP_SIZE = 4"
definition FT_MAX_BLOCK_SIZE :: u32 where "FT_MAX_BLOCK_SIZE = 32"

datatype ft_state =
    FT_STATE_EMPTY
  | FT_STATE_PEER
  | FT_STATE_PREPARED
  | FT_STATE_FILE_METADATA
  | FT_STATE_FILE_REQUEST
  | FT_STATE_SENDING
  | FT_STATE_RECEIVING
  | FT_STATE_FINISHED
  | FT_STATE_FAILED

record ft_piece =
  fp_used :: bool
  fp_bitmap :: "u8 list"
  fp_id :: u32
  fp_idle_time_ms :: u32

definition ft_piece_zero :: ft_piece where
  "ft_piece_zero = \<lparr>fp_used = False, fp_bitmap = replicate FT_MAX_PIECE_BITMAP_SIZE 0, fp_id = 0,
     fp_idle_time_ms = 0\<rparr>"

record ft_session =
  fs_state :: ft_state
  fs_lock :: bool
  fs_session_id :: "u8 list"
  fs_session_id_size :: nat
  fs_file_name :: "u8 list"
  fs_file_size_bytes :: u32
  fs_piece_size_blocks :: u32
  fs_block_size_bytes :: u32
  fs_transferred_pieces :: u32
  fs_pieces :: "ft_piece list"
  fs_next_piece_index :: u32
  fs_bits_lost :: u32
  fs_blocks_per_cycle :: u8
  fs_idle_time_ms :: u32
  fs_message_time_ms :: u32
  fs_last_progress_ms :: u32

definition ft_session_zero :: ft_session where
  "ft_session_zero = \<lparr>fs_state = FT_STATE_EMPTY, fs_lock = False,
     fs_session_id = replicate FT_SESSION_ID_SIZE 0, fs_session_id_size = 0,
     fs_file_name = replicate FT_MAX_FILE_NAME_SIZE 0, fs_file_size_bytes = 0, fs_piece_size_blocks = 0,
     fs_block_size_bytes = 0, fs_transferred_pieces = 0,
     fs_pieces = replicate FT_PIECE_CACHE_COUNT ft_piece_zero, fs_next_piece_index = 0, fs_bits_lost = 0,
     fs_blocks_per_cycle = 0, fs_idle_time_ms = 0, fs_message_time_ms = 0, fs_last_progress_ms = 0\<rparr>"

text \<open>The messages (\<open>proto/file_transfer.proto\<close>). The byte array of a bitmap is kept whole next to its
  size, because the code reads it beyond the size; of a block response the size of the data is kept, the
  data stay zero.\<close>

record block_request =
  br_piece :: u32
  br_bitmap_size :: nat
  br_bitmap :: "u8 list"
  br_transferred_pieces :: u32

record file_metadata =
  fm_file_size_bytes :: u32
  fm_file_name :: "u8 list"
  fm_piece_size_blocks :: u32
  fm_block_size_bytes :: u32

datatype ft_content =
    File_metadata file_metadata
  | File_request "u8 list"
  | Block_request block_request
  | Block_response u32 u32 u32
  | Ft_other

type_synonym ft_message = "u8 list \<times> ft_content"

text \<open>The callbacks of an instance: whether messages can be sent, and what the progress callback does to
  the session it is given (nothing when it is not set).\<close>

record ft_ctx =
  ft_send_callback :: bool
  ft_progress_callback :: "ft_session \<Rightarrow> ft_session"
  ft_pad :: u8

subsection \<open>Bitmaps (\<open>file_transfer_misc.inc\<close>)\<close>

definition bit_count8 :: "u8 \<Rightarrow> u64" where
  "bit_count8 b = ((ucast b * 0x200040008001) AND 0x111111111111111) mod 0xf"

text \<open>Both loops run up to and including \<open>size\<close>.\<close>

definition bitmap_compare :: "u8 list \<Rightarrow> u8 list \<Rightarrow> nat \<Rightarrow> u32 option" where
  "bitmap_compare src dst n = fold_opt (\<lambda>i bits. do {
       a \<leftarrow> mem_get src i;
       b \<leftarrow> mem_get dst i;
       Some (bits + ucast (bit_count8 (a XOR b)))
     }) [0..<Suc n] 0"

definition bitmap_received :: "u8 list \<Rightarrow> nat \<Rightarrow> u32 option" where
  "bitmap_received bitmap n = fold_opt (\<lambda>i bits. do {
       a \<leftarrow> mem_get bitmap i;
       Some (bits + ucast (bit_count8 a))
     }) [0..<Suc n] 0"

text \<open>The bit of a block: \<open>0x80 >> (block % 8)\<close> in byte \<open>block / 8\<close>.\<close>

definition block_bit :: "nat \<Rightarrow> u8" where
  "block_bit block = drop_bit (block mod 8) 0x80"

definition set_block_bit :: "u8 list \<Rightarrow> nat \<Rightarrow> u8 list option" where
  "set_block_bit bitmap block = do {
     b \<leftarrow> mem_get bitmap (block div 8);
     Some (bitmap[block div 8 := b OR block_bit block])
   }"

fun missing_from :: "u8 list \<Rightarrow> nat \<Rightarrow> nat \<Rightarrow> bool option" where
  "missing_from bitmap i 0 = Some False"
| "missing_from bitmap i (Suc n) = do {
     b \<leftarrow> mem_get bitmap i;
     if b \<noteq> 0xff then Some True else missing_from bitmap (Suc i) n
   }"

definition piece_missing_blocks :: "ft_session \<Rightarrow> ft_piece \<Rightarrow> bool option" where
  "piece_missing_blocks session piece =
     missing_from (fp_bitmap piece) 0 (unat (fs_piece_size_blocks session) div 8)"

definition compute_transferred_bytes :: "ft_ctx \<Rightarrow> ft_session \<Rightarrow> u32 option" where
  "compute_transferred_bytes self session =
     (if fs_state session = FT_STATE_EMPTY then Some 0
      else
        let bytes = fs_transferred_pieces session * fs_piece_size_blocks session * fs_block_size_bytes session
        in if fs_state session = FT_STATE_RECEIVING then
             fold_opt (\<lambda>p bytes.
               if fp_used p then do {
                 n \<leftarrow> bitmap_received (fp_bitmap p @ [ft_pad self]) (unat (fs_piece_size_blocks session) div 8);
                 Some (bytes + n * FT_MAX_BLOCK_SIZE)
               } else Some bytes) (fs_pieces session) bytes
           else Some bytes)"

subsection \<open>State, progress and pieces (\<open>file_transfer_misc.inc\<close>)\<close>

definition ft_set_state :: "ft_ctx \<Rightarrow> ft_session \<Rightarrow> ft_state \<Rightarrow> ft_session" where
  "ft_set_state self session state =
     (let session = (if state \<noteq> fs_state session then ft_progress_callback self session else session)
      in session\<lparr>fs_idle_time_ms := 0, fs_state := state\<rparr>)"

definition update_progress :: "ft_ctx \<Rightarrow> ft_session \<Rightarrow> u32 \<Rightarrow> ft_session" where
  "update_progress self session time_ms =
     (let session = session\<lparr>fs_last_progress_ms := fs_last_progress_ms session + time_ms\<rparr>
      in if fs_last_progress_ms session \<ge> FT_PROGRESS_UPDATE_INTERVAL_MS
         then (ft_progress_callback self session)\<lparr>fs_last_progress_ms := 0\<rparr>
         else session)"

definition file_transfer_send :: "ft_ctx \<Rightarrow> ft_message \<Rightarrow> ft_message list" where
  "file_transfer_send self msg = (if ft_send_callback self then [msg] else [])"

definition put_piece :: "ft_session \<Rightarrow> nat \<Rightarrow> ft_piece \<Rightarrow> ft_session" where
  "put_piece session i piece = session\<lparr>fs_pieces := (fs_pieces session)[i := piece]\<rparr>"

definition find_piece :: "ft_session \<Rightarrow> u32 \<Rightarrow> nat option" where
  "find_piece session piece_id = find_index (\<lambda>p. fp_used p \<and> fp_id p = piece_id) (fs_pieces session)"

definition read_piece :: "ft_session \<Rightarrow> u32 \<Rightarrow> (nat \<times> ft_session) option" where
  "read_piece session piece_id =
     (case find_index (\<lambda>p. \<not> fp_used p) (fs_pieces session) of
        None \<Rightarrow> None
      | Some i \<Rightarrow> Some (i, put_piece session i
          ((fs_pieces session ! i)\<lparr>fp_used := True, fp_id := piece_id, fp_idle_time_ms := 0\<rparr>)))"

definition ema_update :: "u32 \<Rightarrow> u32 \<Rightarrow> u32" where
  "ema_update ema value = (ema * 15 + value) div 16"

text \<open>The third argument of \<open>memcmp\<close> is the conjunction of the size and the state test: one byte is
  compared, or none.\<close>

definition find_session_by_id :: "ft_session list \<Rightarrow> u8 list \<Rightarrow> nat \<Rightarrow> nat option" where
  "find_session_by_id table session_id session_id_size =
     (let n = min session_id_size FT_MAX_SESSION_ID_SIZE
      in find_index (\<lambda>s. n = fs_session_id_size s \<and>
           (let k = (if n \<noteq> 0 \<and> fs_state s \<noteq> FT_STATE_EMPTY then 1 else 0)
            in take k session_id = take k (fs_session_id s))) table)"

subsection \<open>Messages sent (\<open>file_transfer_messages.inc\<close>)\<close>

definition ft_strlen :: "u8 list \<Rightarrow> nat option" where
  "ft_strlen s = (if 0 \<in> set s then Some (length (takeWhile (\<lambda>c. c \<noteq> 0) s)) else None)"

definition ft_lock :: "ft_session \<Rightarrow> unit option" where
  "ft_lock session = (if fs_lock session then Some () else None)"

definition session_header :: "ft_session \<Rightarrow> u8 list option" where
  "session_header session = mem_read (fs_session_id session) 0 (fs_session_id_size session)"

definition send_file_metadata :: "ft_ctx \<Rightarrow> ft_session \<Rightarrow> ft_message list option" where
  "send_file_metadata self session =
     (if fs_state session \<noteq> FT_STATE_FILE_METADATA then Some []
      else do {
        ft_lock session;
        sid \<leftarrow> session_header session;
        n \<leftarrow> ft_strlen (fs_file_name session);
        Some (file_transfer_send self (sid, File_metadata
          \<lparr>fm_file_size_bytes = fs_file_size_bytes session,
           fm_file_name = take n (fs_file_name session),
           fm_piece_size_blocks = 32, fm_block_size_bytes = 32\<rparr>))
      })"

definition send_file_request :: "ft_ctx \<Rightarrow> ft_session \<Rightarrow> ft_message list option" where
  "send_file_request self session =
     (if fs_state session \<noteq> FT_STATE_FILE_REQUEST then Some []
      else do {
        ft_lock session;
        sid \<leftarrow> session_header session;
        n \<leftarrow> ft_strlen (fs_file_name session);
        Some (file_transfer_send self (sid, File_request (take n (fs_file_name session))))
      })"

text \<open>The bitmap of a new message is zero, 32 bytes long, and its first bytes are overwritten.\<close>

definition send_block_request :: "ft_ctx \<Rightarrow> ft_session \<Rightarrow> ft_piece \<Rightarrow> ft_message list option" where
  "send_block_request self session piece =
     (if fs_state session \<noteq> FT_STATE_RECEIVING \<or> \<not> fp_used piece then Some []
      else do {
        ft_lock session;
        sid \<leftarrow> session_header session;
        missing \<leftarrow> piece_missing_blocks session piece;
        let n = unat (fs_piece_size_blocks session) div 8;
        (bytes, len) \<leftarrow> (if missing then do {
            b \<leftarrow> mem_read (fp_bitmap piece) 0 n;
            bytes \<leftarrow> mem_write (replicate 32 0) 0 b;
            Some (bytes, n)
          } else Some (replicate 32 0, 0));
        Some (file_transfer_send self (sid, Block_request
          \<lparr>br_piece = fp_id piece, br_bitmap_size = len, br_bitmap = bytes,
           br_transferred_pieces = fs_transferred_pieces session\<rparr>))
      })"

definition send_block_response :: "ft_ctx \<Rightarrow> ft_session \<Rightarrow> ft_piece \<Rightarrow> nat \<Rightarrow> ft_message list option" where
  "send_block_response self session piece block =
     (if fs_state session \<noteq> FT_STATE_SENDING \<or> \<not> fp_used piece then Some []
      else do {
        ft_lock session;
        sid \<leftarrow> session_header session;
        Some (file_transfer_send self (sid, Block_response (fp_id piece) (of_nat block)
          (fs_block_size_bytes session)))
      })"

subsection \<open>Messages received (\<open>file_transfer_messages.inc\<close>)\<close>

definition ft_set_file_name :: "ft_session \<Rightarrow> u8 list \<Rightarrow> ft_session option" where
  "ft_set_file_name session name =
     (let fnsize = (if length name \<ge> FT_MAX_FILE_NAME_SIZE then FT_MAX_FILE_NAME_SIZE - 1 else length name)
      in do {
        file_name \<leftarrow> mem_write (fs_file_name session) 0 (take fnsize name @ [0]);
        Some (session\<lparr>fs_file_name := file_name\<rparr>)
      })"

definition process_file_request :: "ft_ctx \<Rightarrow> ft_session \<Rightarrow> u8 list \<Rightarrow> ft_session option" where
  "process_file_request self session file_name =
     (if fs_state session = FT_STATE_PEER then do {
        session \<leftarrow> ft_set_file_name session file_name;
        let session = session\<lparr>fs_file_size_bytes := 50000, fs_piece_size_blocks := 32, fs_block_size_bytes := 32\<rparr>;
        Some (ft_set_state self session FT_STATE_FILE_METADATA)
      } else Some session)"

definition process_file_metadata :: "ft_ctx \<Rightarrow> ft_session \<Rightarrow> file_metadata \<Rightarrow> ft_session option" where
  "process_file_metadata self session msg =
     (if fs_state session = FT_STATE_FILE_REQUEST then
        Some (ft_set_state self
          (session\<lparr>fs_file_size_bytes := fm_file_size_bytes msg,
             fs_piece_size_blocks := fm_piece_size_blocks msg,
             fs_block_size_bytes := fm_block_size_bytes msg\<rparr>) FT_STATE_RECEIVING)
      else if fs_state session = FT_STATE_PEER then do {
        session \<leftarrow> ft_set_file_name session (fm_file_name msg);
        Some (ft_set_state self
          (session\<lparr>fs_file_size_bytes := fm_file_size_bytes msg,
             fs_piece_size_blocks := fm_piece_size_blocks msg,
             fs_block_size_bytes := fm_block_size_bytes msg\<rparr>) FT_STATE_RECEIVING)
      } else Some session)"

text \<open>The part of the handler for a piece of the cache.\<close>

definition request_piece :: "ft_ctx \<Rightarrow> ft_session \<Rightarrow> nat \<Rightarrow> block_request \<Rightarrow> ft_session option" where
  "request_piece self session i msg =
     (let piece = fs_pieces session ! i
      in if br_bitmap_size msg = 0 then
           Some (put_piece session i (piece\<lparr>fp_idle_time_ms := FT_SENDER_PIECE_IDLE_MAX\<rparr>))
         else
           let piece = piece\<lparr>fp_idle_time_ms := 0\<rparr>;
               session = put_piece session i piece
           in if br_bitmap_size msg * 8 \<noteq> unat (fs_piece_size_blocks session) then Some session
              else
                let n = unat (fs_piece_size_blocks session) div 8
                in do {
                  lost \<leftarrow> bitmap_compare (fp_bitmap piece @ [ft_pad self]) (br_bitmap msg) n;
                  let session = session\<lparr>fs_bits_lost :=
                        ema_update (fs_bits_lost session) (lost * fs_piece_size_blocks session)\<rparr>;
                  b \<leftarrow> mem_read (br_bitmap msg) 0 n;
                  bitmap \<leftarrow> mem_write (fp_bitmap piece) 0 b;
                  Some (ft_set_state self (put_piece session i (piece\<lparr>fp_bitmap := bitmap\<rparr>)) FT_STATE_SENDING)
                })"

definition process_block_request :: "ft_ctx \<Rightarrow> ft_session \<Rightarrow> block_request \<Rightarrow> ft_session option" where
  "process_block_request self session msg =
     (let session = (if fs_state session = FT_STATE_FILE_METADATA
                     then ft_set_state self session FT_STATE_SENDING else session)
      in if fs_state session = FT_STATE_SENDING then
           let session = session\<lparr>fs_transferred_pieces := br_transferred_pieces msg\<rparr>
           in case find_piece session (br_piece msg) of
                Some i \<Rightarrow> request_piece self session i msg
              | None \<Rightarrow>
                  (case read_piece session (br_piece msg) of
                     None \<Rightarrow> Some session
                   | Some (i, session) \<Rightarrow> request_piece self session i msg)
         else Some session)"

definition process_block_response :: "ft_ctx \<Rightarrow> ft_session \<Rightarrow> u32 \<Rightarrow> u32 \<Rightarrow> ft_session option" where
  "process_block_response self session piece block =
     (if fs_state session = FT_STATE_RECEIVING then
        case find_piece session piece of
          None \<Rightarrow> Some session
        | Some i \<Rightarrow>
            if block \<ge> fs_piece_size_blocks session then Some session
            else do {
              bitmap \<leftarrow> set_block_bit (fp_bitmap (fs_pieces session ! i)) (unat block);
              let session = put_piece session i ((fs_pieces session ! i)\<lparr>fp_bitmap := bitmap\<rparr>);
              Some ((ft_set_state self session FT_STATE_RECEIVING)\<lparr>fs_idle_time_ms := 0\<rparr>)
            }
      else Some session)"

text \<open>The \<open>switch\<close> of \<open>file_transfer_receive_handler\<close> and whether the message was known.\<close>

definition ft_process :: "ft_ctx \<Rightarrow> ft_session \<Rightarrow> ft_content \<Rightarrow> (bool \<times> ft_session) option" where
  "ft_process self session content =
     (case content of
        File_request name \<Rightarrow> map_option (Pair True) (process_file_request self session name)
      | File_metadata m \<Rightarrow> map_option (Pair True) (process_file_metadata self session m)
      | Block_request r \<Rightarrow> map_option (Pair True) (process_block_request self session r)
      | Block_response piece block _ \<Rightarrow> map_option (Pair True) (process_block_response self session piece block)
      | Ft_other \<Rightarrow> Some (False, session))"

datatype ft_receive_result = FILE_TRANSFER_RECEIVE_HANDLER_OK | FILE_TRANSFER_RECEIVE_HANDLER_FAILED
  | FILE_TRANSFER_RECEIVE_HANDLER_NO_SESSION

definition file_transfer_receive_handler ::
  "ft_ctx \<Rightarrow> ft_session list \<Rightarrow> ft_message \<Rightarrow> (ft_receive_result \<times> ft_session list) option" where
  "file_transfer_receive_handler self table msg =
     (case find_session_by_id table (fst msg) (length (fst msg)) of
        None \<Rightarrow> Some (FILE_TRANSFER_RECEIVE_HANDLER_NO_SESSION, table)
      | Some i \<Rightarrow> do {
          ft_lock (table ! i);
          (known, session) \<leftarrow> ft_process self (table ! i) (snd msg);
          Some (if known then FILE_TRANSFER_RECEIVE_HANDLER_OK else FILE_TRANSFER_RECEIVE_HANDLER_FAILED,
                table[i := session])
        })"

subsection \<open>The task (\<open>file_transfer_loop.inc\<close>)\<close>

text \<open>The number of pieces of the file; the product can be zero or wrap around.\<close>

definition ft_piece_count :: "ft_session \<Rightarrow> u32 option" where
  "ft_piece_count session =
     (let piece_bytes = fs_piece_size_blocks session * fs_block_size_bytes session
      in if piece_bytes = 0 then None
         else Some ((fs_file_size_bytes session - 1) div piece_bytes + 1))"

text \<open>One slot of the piece cache at the receiver: ask again for an incomplete piece, finish a complete
  one, and use a free slot for the next piece. The state counts the used slots.\<close>

definition receive_slot_piece ::
  "ft_ctx \<Rightarrow> u32 \<Rightarrow> nat \<Rightarrow> ft_session \<Rightarrow> (ft_session \<times> ft_message list) option" where
  "receive_slot_piece self step_time_ms i session =
     (let piece = fs_pieces session ! i
      in if fp_used piece then do {
           missing \<leftarrow> piece_missing_blocks session piece;
           if missing then
             let piece = piece\<lparr>fp_idle_time_ms := fp_idle_time_ms piece + step_time_ms\<rparr>
             in if fp_idle_time_ms piece \<ge> FT_RECEIVER_PIECE_IDLE_MAX then do {
                  m \<leftarrow> send_block_request self session piece;
                  Some (put_piece session i (piece\<lparr>fp_idle_time_ms := 0\<rparr>), m)
                } else Some (put_piece session i piece, [])
           else do {
             m \<leftarrow> send_block_request self session piece;
             Some (put_piece (session\<lparr>fs_transferred_pieces := fs_transferred_pieces session + 1\<rparr>) i
               ft_piece_zero, m)
           }
         } else Some (session, []))"

definition receive_slot_allocate :: "nat \<Rightarrow> ft_session \<Rightarrow> ft_session option" where
  "receive_slot_allocate i session =
     (if \<not> fp_used (fs_pieces session ! i) then do {
        count \<leftarrow> ft_piece_count session;
        if fs_next_piece_index session < count then
          Some (put_piece (session\<lparr>fs_next_piece_index := fs_next_piece_index session + 1\<rparr>) i
            \<lparr>fp_used = True, fp_bitmap = replicate FT_MAX_PIECE_BITMAP_SIZE 0,
             fp_id = fs_next_piece_index session, fp_idle_time_ms = FT_RECEIVER_PIECE_IDLE_MAX\<rparr>)
        else Some session
      } else Some session)"

definition receive_slot ::
  "ft_ctx \<Rightarrow> u32 \<Rightarrow> nat \<Rightarrow> ft_session \<times> ft_message list \<times> nat \<Rightarrow> (ft_session \<times> ft_message list \<times> nat) option" where
  "receive_slot self step_time_ms i st = (case st of (session, out, used_pieces) \<Rightarrow> do {
     (session, m) \<leftarrow> receive_slot_piece self step_time_ms i session;
     session \<leftarrow> receive_slot_allocate i session;
     Some (session, out @ m, if fp_used (fs_pieces session ! i) then used_pieces + 1 else used_pieces)
   })"

text \<open>One block of one slot at the sender; the counter is \<open>blocks_sent\<close>.\<close>

definition send_slot_block ::
  "ft_ctx \<Rightarrow> nat \<Rightarrow> nat \<Rightarrow> ft_session \<times> ft_message list \<times> nat \<Rightarrow> (ft_session \<times> ft_message list \<times> nat) option" where
  "send_slot_block self i block st = (case st of (session, out, blocks_sent) \<Rightarrow> do {
     let piece = fs_pieces session ! i;
     b \<leftarrow> mem_get (fp_bitmap piece) (block div 8);
     if b AND block_bit block = 0 \<and> blocks_sent < unat (fs_blocks_per_cycle session) then do {
       m \<leftarrow> send_block_response self session piece block;
       bitmap \<leftarrow> set_block_bit (fp_bitmap piece) block;
       Some (put_piece session i (piece\<lparr>fp_bitmap := bitmap\<rparr>), out @ m, blocks_sent + 1)
     } else Some (session, out, blocks_sent)
   })"

definition send_slot ::
  "ft_ctx \<Rightarrow> u32 \<Rightarrow> nat \<Rightarrow> ft_session \<times> ft_message list \<times> nat \<times> nat \<Rightarrow>
    (ft_session \<times> ft_message list \<times> nat \<times> nat) option" where
  "send_slot self step_time_ms i st = (case st of (session, out, blocks_sent, used_pieces) \<Rightarrow> do {
     (session, out, blocks_sent) \<leftarrow>
       (if fp_used (fs_pieces session ! i) then do {
          (session, out, blocks_sent) \<leftarrow>
            fold_opt (send_slot_block self i) [0..<unat (fs_piece_size_blocks session)] (session, out, blocks_sent);
          let piece = fs_pieces session ! i;
          let piece = piece\<lparr>fp_idle_time_ms := fp_idle_time_ms piece + step_time_ms\<rparr>;
          let piece = (if fp_idle_time_ms piece > FT_SENDER_PIECE_IDLE_MAX then ft_piece_zero else piece);
          Some (put_piece session i piece, out, blocks_sent)
        } else Some (session, out, blocks_sent));
     Some (session, out, blocks_sent, if fp_used (fs_pieces session ! i) then used_pieces + 1 else used_pieces)
   })"

text \<open>The step of a session that waits for the answer to its metadata or its request.\<close>

definition initial_step ::
  "ft_ctx \<Rightarrow> ft_session \<Rightarrow> u32 \<Rightarrow> (ft_ctx \<Rightarrow> ft_session \<Rightarrow> ft_message list option) \<Rightarrow>
    (ft_session \<times> ft_message list) option" where
  "initial_step self session interval send =
     (if fs_idle_time_ms session \<ge> FT_SESSION_INIT_TIMEOUT_MS
      then Some (ft_set_state self session FT_STATE_FAILED, [])
      else if fs_message_time_ms session \<ge> interval then do {
        m \<leftarrow> send self session;
        Some (session\<lparr>fs_message_time_ms := 0\<rparr>, m)
      } else Some (session, []))"

definition receiving_step :: "ft_ctx \<Rightarrow> ft_session \<Rightarrow> u32 \<Rightarrow> (ft_session \<times> ft_message list) option" where
  "receiving_step self session step_time_ms =
     (if fs_idle_time_ms session \<ge> FT_SESSION_RUNNING_TIMEOUT_MS
      then Some (ft_set_state self session FT_STATE_FAILED, [])
      else do {
        (session, out, used_pieces) \<leftarrow>
          fold_opt (receive_slot self step_time_ms) [0..<FT_PIECE_CACHE_COUNT] (session, [], 0);
        Some (if used_pieces = 0 then ft_set_state self session FT_STATE_FINISHED else session, out)
      })"

definition sending_step :: "ft_ctx \<Rightarrow> ft_session \<Rightarrow> u32 \<Rightarrow> (ft_session \<times> ft_message list) option" where
  "sending_step self session step_time_ms =
     (if fs_idle_time_ms session \<ge> FT_SESSION_RUNNING_TIMEOUT_MS
      then Some (ft_set_state self session FT_STATE_FAILED, [])
      else do {
        (session, out, blocks_sent, used_pieces) \<leftarrow>
          fold_opt (send_slot self step_time_ms) [0..<FT_PIECE_CACHE_COUNT] (session, [], 0, 0);
        Some (if used_pieces = 0 then ft_set_state self session FT_STATE_FINISHED else session, out)
      })"

definition file_transfer_session_step ::
  "ft_ctx \<Rightarrow> ft_session \<Rightarrow> u32 \<Rightarrow> (ft_session \<times> ft_message list) option" where
  "file_transfer_session_step self session step_time_ms =
     (let session = session\<lparr>fs_idle_time_ms := fs_idle_time_ms session + step_time_ms,
                            fs_message_time_ms := fs_message_time_ms session + step_time_ms\<rparr>
      in case fs_state session of
           FT_STATE_FILE_METADATA \<Rightarrow>
             initial_step self session FT_FILE_METADATA_MSG_INTERVAL send_file_metadata
         | FT_STATE_FILE_REQUEST \<Rightarrow>
             initial_step self session FT_FILE_REQUEST_MSG_INTERVAL send_file_request
         | FT_STATE_RECEIVING \<Rightarrow> receiving_step self session step_time_ms
         | FT_STATE_SENDING \<Rightarrow> sending_step self session step_time_ms
         | _ \<Rightarrow> Some (session, []))"

text \<open>The body of the loop of \<open>file_transfer_main_task\<close> for one session, and one round of the task.\<close>

definition ft_session_round :: "ft_ctx \<Rightarrow> ft_session \<Rightarrow> (ft_session \<times> ft_message list) option" where
  "ft_session_round self session =
     (if fs_state session \<noteq> FT_STATE_EMPTY then do {
        (session, out) \<leftarrow> file_transfer_session_step self session FT_STEP_INTERVAL_MS;
        Some (update_progress self session FT_STEP_INTERVAL_MS, out)
      } else Some (session, []))"

definition file_transfer_main_task ::
  "ft_ctx \<Rightarrow> ft_session list \<Rightarrow> (ft_session list \<times> (nat \<times> ft_message) list) option" where
  "file_transfer_main_task self table =
     fold_opt (\<lambda>i (table, out). do {
       (session, m) \<leftarrow> ft_session_round self (table ! i);
       Some (table[i := session], out @ map (Pair i) m)
     }) [0..<length table] (table, [])"

subsection \<open>Interface (\<open>file_transfer.c\<close>)\<close>

text \<open>The allocation of the table, the task, the timer and the locks succeeds here.\<close>

definition file_transfer_init :: "nat \<Rightarrow> ft_session list" where
  "file_transfer_init max_sessions = replicate max_sessions ft_session_zero"

text \<open>The session found is used without a test: a full table is an access through \<open>NULL\<close>.\<close>

definition file_transfer_init_session :: "ft_ctx \<Rightarrow> ft_session list \<Rightarrow> (nat \<times> ft_session list) option" where
  "file_transfer_init_session self table = do {
     i \<leftarrow> find_last (\<lambda>s. fs_state s = FT_STATE_EMPTY) table;
     let session = table ! i;
     sid \<leftarrow> mem_write (fs_session_id session) 0 [1, 2];
     let session = session\<lparr>fs_lock := True, fs_session_id := sid, fs_session_id_size := 2,
                           fs_blocks_per_cycle := 5\<rparr>;
     Some (i, table[i := ft_set_state self session FT_STATE_PREPARED])
   }"

definition file_transfer_init_peer_session ::
  "ft_ctx \<Rightarrow> ft_session list \<Rightarrow> u8 list \<Rightarrow> (nat \<times> ft_session list) option" where
  "file_transfer_init_peer_session self table session_id = do {
     i \<leftarrow> find_last (\<lambda>s. fs_state s = FT_STATE_EMPTY) table;
     let session = table ! i;
     let session_id_size = min (length session_id) FT_MAX_SESSION_ID_SIZE;
     sid \<leftarrow> mem_write (fs_session_id session) 0 (take session_id_size session_id);
     let session = session\<lparr>fs_lock := True, fs_session_id := sid, fs_session_id_size := session_id_size,
                           fs_blocks_per_cycle := 5\<rparr>;
     Some (i, table[i := ft_set_state self session FT_STATE_PEER])
   }"

definition file_transfer_free_session :: "ft_session \<Rightarrow> bool \<times> ft_session" where
  "file_transfer_free_session session =
     (if fs_state session \<in> {FT_STATE_FINISHED, FT_STATE_FAILED} then (True, ft_session_zero)
      else (False, session))"

text \<open>The file name is a string without its terminating zero.\<close>

definition file_transfer_send_file :: "ft_ctx \<Rightarrow> ft_session \<Rightarrow> u8 list \<Rightarrow> (bool \<times> ft_session) option" where
  "file_transfer_send_file self session file_name =
     (if fs_state session \<noteq> FT_STATE_PREPARED then Some (False, session)
      else do {
        ft_lock session;
        session \<leftarrow> ft_set_file_name session file_name;
        let session = session\<lparr>fs_file_size_bytes := 50000, fs_piece_size_blocks := 32, fs_block_size_bytes := 32\<rparr>;
        Some (True, ft_set_state self session FT_STATE_FILE_METADATA)
      })"

definition file_transfer_receive_file :: "ft_ctx \<Rightarrow> ft_session \<Rightarrow> u8 list \<Rightarrow> (bool \<times> ft_session) option" where
  "file_transfer_receive_file self session file_name =
     (if fs_state session \<noteq> FT_STATE_PREPARED then Some (False, session)
      else do {
        ft_lock session;
        session \<leftarrow> ft_set_file_name session file_name;
        Some (True, ft_set_state self session FT_STATE_FILE_REQUEST)
      })"

definition file_transfer_stop :: "ft_ctx \<Rightarrow> ft_session \<Rightarrow> (bool \<times> ft_session) option" where
  "file_transfer_stop self session =
     (if fs_state session \<notin> {FT_STATE_RECEIVING, FT_STATE_SENDING} then Some (False, session)
      else do {
        ft_lock session;
        Some (True, ft_set_state self session FT_STATE_FINISHED)
      })"

subsection \<open>The layer 2 module (\<open>umesh_l2_file_transfer.c\<close>)\<close>

record l2_ft_session =
  l2fs_peer_tid :: u32
  l2fs_file_transfer_session :: "nat option"
  l2fs_used :: bool

definition l2_ft_session_zero :: l2_ft_session where
  "l2_ft_session_zero = \<lparr>l2fs_peer_tid = 0, l2fs_file_transfer_session = None, l2fs_used = False\<rparr>"

record l2_file_transfer =
  l2ft_session_table :: "l2_ft_session list"
  l2ft_file_transfer :: "ft_session list"

definition umesh_l2_file_transfer_init :: "nat \<Rightarrow> l2_file_transfer" where
  "umesh_l2_file_transfer_init table_size =
     \<lparr>l2ft_session_table = replicate table_size l2_ft_session_zero,
      l2ft_file_transfer = file_transfer_init 1\<rparr>"

definition l2_ft_allocate_session :: "l2_file_transfer \<Rightarrow> nat option" where
  "l2_ft_allocate_session self = find_index (\<lambda>s. \<not> l2fs_used s) (l2ft_session_table self)"

text \<open>\<open>file_progress_callback\<close>: its effect on the session; the entries of the layer 2 table that refer
  to a session freed in this way are cleared with \<open>l2_ft_forget\<close>.\<close>

definition l2_file_progress_callback :: "ft_session \<Rightarrow> ft_session" where
  "l2_file_progress_callback session =
     (if fs_state session \<in> {FT_STATE_FINISHED, FT_STATE_FAILED}
      then snd (file_transfer_free_session session) else session)"

definition l2_ft_forget :: "nat \<Rightarrow> l2_ft_session list \<Rightarrow> l2_ft_session list" where
  "l2_ft_forget i = map (\<lambda>s. if l2fs_file_transfer_session s = Some i then l2_ft_session_zero else s)"

definition l2_ft_ctx :: "u8 \<Rightarrow> ft_ctx" where
  "l2_ft_ctx pad = \<lparr>ft_send_callback = True, ft_progress_callback = l2_file_progress_callback, ft_pad = pad\<rparr>"

text \<open>The peer the send callback finds for a message of session \<open>i\<close>.\<close>

definition l2_ft_send_callback :: "l2_ft_session list \<Rightarrow> nat \<Rightarrow> u32 option" where
  "l2_ft_send_callback table i =
     map_option (\<lambda>j. l2fs_peer_tid (table ! j)) (find_last (\<lambda>s. l2fs_file_transfer_session s = Some i) table)"

text \<open>A decoded message of the node \<open>stid\<close>. The layer 2 entry is written field by field, so its peer
  identifier is left changed when no session can be made.\<close>

definition umesh_l2_file_transfer_receive_handler ::
  "u8 \<Rightarrow> l2_file_transfer \<Rightarrow> u32 \<Rightarrow> ft_message option \<Rightarrow> (bool \<times> l2_file_transfer) option" where
  "umesh_l2_file_transfer_receive_handler pad self stid decoded =
     (case decoded of
        None \<Rightarrow> Some (False, self)
      | Some msg \<Rightarrow> do {
          (res, files) \<leftarrow> file_transfer_receive_handler (l2_ft_ctx pad) (l2ft_file_transfer self) msg;
          let self = self\<lparr>l2ft_file_transfer := files\<rparr>;
          if res = FILE_TRANSFER_RECEIVE_HANDLER_NO_SESSION then
            case l2_ft_allocate_session self of
              None \<Rightarrow> Some (False, self)
            | Some j \<Rightarrow> do {
                (i, files) \<leftarrow> file_transfer_init_peer_session (l2_ft_ctx pad) files (fst msg);
                let table = (l2ft_session_table self)[j :=
                      \<lparr>l2fs_peer_tid = stid, l2fs_file_transfer_session = Some i, l2fs_used = True\<rparr>];
                (res, files) \<leftarrow> file_transfer_receive_handler (l2_ft_ctx pad) files msg;
                Some (res = FILE_TRANSFER_RECEIVE_HANDLER_OK,
                      \<lparr>l2ft_session_table = table, l2ft_file_transfer = files\<rparr>)
              }
          else Some (res = FILE_TRANSFER_RECEIVE_HANDLER_OK, self)
        })"

definition l2_ft_start ::
  "l2_file_transfer \<Rightarrow> u32 \<Rightarrow> u8 \<Rightarrow> (ft_session \<Rightarrow> (bool \<times> ft_session) option) \<Rightarrow>
    (bool \<times> l2_file_transfer) option" where
  "l2_ft_start self peer_tid pad start =
     (case l2_ft_allocate_session self of
        None \<Rightarrow> Some (False, self)
      | Some j \<Rightarrow> do {
          (i, files) \<leftarrow> file_transfer_init_session (l2_ft_ctx pad) (l2ft_file_transfer self);
          (ok, session) \<leftarrow> start (files ! i);
          let self = self\<lparr>l2ft_file_transfer := files[i := session]\<rparr>;
          if \<not> ok then Some (False, self)
          else Some (True, self\<lparr>l2ft_session_table := (l2ft_session_table self)[j :=
            \<lparr>l2fs_peer_tid = peer_tid, l2fs_file_transfer_session = Some i, l2fs_used = True\<rparr>]\<rparr>)
        })"

definition umesh_l2_file_transfer_send where
  "umesh_l2_file_transfer_send self file_name peer_tid pad =
     l2_ft_start self peer_tid pad (\<lambda>s. file_transfer_send_file (l2_ft_ctx pad) s file_name)"

definition umesh_l2_file_transfer_receive where
  "umesh_l2_file_transfer_receive self file_name peer_tid pad =
     l2_ft_start self peer_tid pad (\<lambda>s. file_transfer_receive_file (l2_ft_ctx pad) s file_name)"

text \<open>One round of the task, with the messages and the nodes they are sent to. A session of the table
  that is empty after the round and was not before was freed by the progress callback.\<close>

definition l2_ft_round :: "u8 \<Rightarrow> l2_file_transfer \<Rightarrow> (l2_file_transfer \<times> (u32 \<times> ft_message) list) option" where
  "l2_ft_round pad self = do {
     (files, out) \<leftarrow> file_transfer_main_task (l2_ft_ctx pad) (l2ft_file_transfer self);
     let freed = [i \<leftarrow> [0..<length files]. fs_state (files ! i) = FT_STATE_EMPTY \<and>
                    fs_state (l2ft_file_transfer self ! i) \<noteq> FT_STATE_EMPTY];
     Some (\<lparr>l2ft_session_table = foldr l2_ft_forget freed (l2ft_session_table self), l2ft_file_transfer = files\<rparr>,
           concat (map (\<lambda>(i, m). case l2_ft_send_callback (l2ft_session_table self) i of
                          None \<Rightarrow> [] | Some tid \<Rightarrow> [(tid, m)]) out))
   }"

end
