(* ===== verification/File_Transfer_Props.thy ===== *)
theory File_Transfer_Props
  imports File_Transfer
begin

text \<open>
  Properties of the file transfer protocol: a receiver that reports the transfer as finished has seen a
  response for every block of every piece, in any interleaving of its task with messages of any kind; it
  never leaves its arrays when the announced piece size is one the bitmap can hold; and a session whose
  peer falls silent ends.
\<close>

datatype ft_event = Ft_round | Ft_receive ft_content

definition ft_event_step :: "ft_ctx \<Rightarrow> ft_event \<Rightarrow> ft_session \<Rightarrow> ft_session option" where
  "ft_event_step self e session =
     (case e of
        Ft_round \<Rightarrow> map_option fst (ft_session_round self session)
      | Ft_receive content \<Rightarrow> map_option snd (ft_process self session content))"

definition ft_run :: "ft_ctx \<Rightarrow> ft_event list \<Rightarrow> ft_session \<Rightarrow> ft_session option" where
  "ft_run self = fold_opt (ft_event_step self)"

subsection \<open>Bitmaps\<close>

definition block_got :: "u8 list \<Rightarrow> nat \<Rightarrow> bool" where
  "block_got bitmap b \<longleftrightarrow> bitmap ! (b div 8) AND block_bit b \<noteq> 0"

lemma block_bit_push: "block_bit b = push_bit (7 - b mod 8) 1"
proof -
  have "b mod 8 < 8" by simp
  then consider "b mod 8 = 0" | "b mod 8 = 1" | "b mod 8 = 2" | "b mod 8 = 3" | "b mod 8 = 4"
    | "b mod 8 = 5" | "b mod 8 = 6" | "b mod 8 = 7" by linarith
  then show ?thesis by cases (simp_all add: block_bit_def)
qed

lemma block_got_bit: "block_got bitmap b \<longleftrightarrow> bit (bitmap ! (b div 8)) (7 - b mod 8)"
proof -
  have "7 - b mod 8 < 8" by simp
  then have "push_bit (7 - b mod 8) 1 \<noteq> (0 :: u8)"
    using bit_push_bit_iff [of "7 - b mod 8" "1 :: u8" "7 - b mod 8"] by (auto simp: possible_bit_word)
  then show ?thesis unfolding block_got_def block_bit_push and_single by simp
qed

lemma block_got_set:
  assumes "set_block_bit bitmap c = Some bitmap'" and "block_got bitmap' b"
  shows "block_got bitmap b \<or> b = c"
proof -
  have c: "c div 8 < length bitmap" and b': "bitmap' = bitmap[c div 8 := bitmap ! (c div 8) OR block_bit c]"
    using assms(1) by (auto simp: set_block_bit_def mem_get_def split: if_splits)
  show ?thesis
  proof (cases "b div 8 = c div 8")
    case True
    then have "bit (bitmap ! (c div 8)) (7 - b mod 8) \<or> 7 - b mod 8 = 7 - c mod 8"
      using assms(2) c by (auto simp: block_got_bit b' block_bit_push bit_simps)
    moreover have "b mod 8 \<le> 7" "c mod 8 \<le> 7" using mod_less_divisor [of 8 b] mod_less_divisor [of 8 c] by linarith+
    ultimately have "bit (bitmap ! (c div 8)) (7 - b mod 8) \<or> b mod 8 = c mod 8" by linarith
    moreover have "b mod 8 = c mod 8 \<Longrightarrow> b = c"
      using True by (metis div_mult_mod_eq)
    ultimately show ?thesis using True by (auto simp: block_got_bit)
  next
    case False
    then show ?thesis using assms(2) by (simp add: block_got_def b')
  qed
qed

lemma set_block_bit_ok:
  "c < 8 * length bitmap \<Longrightarrow> \<exists>bitmap'. set_block_bit bitmap c = Some bitmap' \<and> length bitmap' = length bitmap"
  by (simp add: set_block_bit_def mem_get_def div_less_iff_less_mult mult.commute)

lemma missing_from_ok: "i + n \<le> length bitmap \<Longrightarrow> \<exists>m. missing_from bitmap i n = Some m"
  by (induction n arbitrary: i) (auto simp: mem_get_def)

lemma missing_from_complete:
  "missing_from bitmap i n = Some False \<Longrightarrow> i \<le> k \<Longrightarrow> k < i + n \<Longrightarrow> bitmap ! k = 0xff"
proof (induction n arbitrary: i)
  case 0
  then show ?case by simp
next
  case (Suc n)
  then show ?case by (cases "i = k") (auto simp: mem_get_def split: if_splits)
qed

lemma block_got_full: "bitmap ! (b div 8) = 0xff \<Longrightarrow> block_got bitmap b"
proof -
  assume f: "bitmap ! (b div 8) = 0xff"
  have "0xff = (mask 8 :: u8)" by (simp add: mask_eq_exp_minus_1)
  moreover have "7 - b mod 8 < 8" by simp
  ultimately show ?thesis using f by (simp only: block_got_bit bit_mask_iff) (simp add: possible_bit_word)
qed

lemma block_got_zero: "b < 8 * n \<Longrightarrow> \<not> block_got (replicate n 0) b"
  by (simp add: block_got_def div_less_iff_less_mult mult.commute)

lemma unat_plus_one: "x < (c :: u32) \<Longrightarrow> unat (x + 1) = unat x + 1"
proof -
  assume "x < c"
  then have "unat x + 1 < 2 ^ 32"
    using unsigned_less [of c, where ?'a = nat] by (simp add: word_less_nat_alt)
  then show ?thesis by (simp add: unat_word_ariths)
qed

subsection \<open>What a receiver knows about the blocks it has seen\<close>

definition ft_metadata_ok :: "ft_session \<Rightarrow> bool" where
  "ft_metadata_ok s \<longleftrightarrow> 8 dvd unat (fs_piece_size_blocks s) \<and> 0 < unat (fs_piece_size_blocks s) \<and>
     unat (fs_piece_size_blocks s) \<le> 32 \<and> fs_piece_size_blocks s * fs_block_size_bytes s \<noteq> 0"

definition used_count :: "ft_session \<Rightarrow> nat" where
  "used_count s = length (filter fp_used (fs_pieces s))"

text \<open>\<open>H\<close> are the blocks, with their piece, of the responses received so far.\<close>

definition rx_pieces :: "(u32 \<times> nat) set \<Rightarrow> ft_session \<Rightarrow> bool" where
  "rx_pieces H s \<longleftrightarrow>
     length (fs_pieces s) = FT_PIECE_CACHE_COUNT \<and>
     (\<forall>i < FT_PIECE_CACHE_COUNT. length (fp_bitmap (fs_pieces s ! i)) = FT_MAX_PIECE_BITMAP_SIZE \<and>
        (fp_used (fs_pieces s ! i) \<longrightarrow> fp_id (fs_pieces s ! i) < fs_next_piece_index s \<and>
          (\<forall>b < unat (fs_piece_size_blocks s).
             block_got (fp_bitmap (fs_pieces s ! i)) b \<longrightarrow> (fp_id (fs_pieces s ! i), b) \<in> H)))"

definition rx_done :: "(u32 \<times> nat) set \<Rightarrow> ft_session \<Rightarrow> bool" where
  "rx_done H s \<longleftrightarrow>
     (\<forall>k < fs_next_piece_index s.
        (\<exists>i < FT_PIECE_CACHE_COUNT. fp_used (fs_pieces s ! i) \<and> fp_id (fs_pieces s ! i) = k) \<or>
        (\<forall>b < unat (fs_piece_size_blocks s). (k, b) \<in> H)) \<and>
     unat (fs_transferred_pieces s) + used_count s = unat (fs_next_piece_index s)"

definition rx_static :: "ft_session \<Rightarrow> bool" where
  "rx_static s \<longleftrightarrow> fs_state s = FT_STATE_RECEIVING \<and> fs_lock s \<and>
     fs_session_id_size s \<le> length (fs_session_id s) \<and> ft_metadata_ok s \<and>
     (\<forall>count. ft_piece_count s = Some count \<longrightarrow> fs_next_piece_index s \<le> count)"

definition rx_inv :: "(u32 \<times> nat) set \<Rightarrow> ft_session \<Rightarrow> bool" where
  "rx_inv H s \<longleftrightarrow> rx_static s \<and> rx_pieces H s \<and> rx_done H s"

lemma length_filter_update:
  "i < length xs \<Longrightarrow>
    length (filter P (xs[i := x])) + (if P (xs ! i) then 1 else 0) = length (filter P xs) + (if P x then 1 else 0)"
proof (induction xs arbitrary: i)
  case Nil
  then show ?case by simp
next
  case (Cons y xs)
  then show ?case by (cases i) auto
qed

lemma put_piece_sel [simp]:
  "fs_state (put_piece s i p) = fs_state s" "fs_lock (put_piece s i p) = fs_lock s"
  "fs_session_id (put_piece s i p) = fs_session_id s"
  "fs_session_id_size (put_piece s i p) = fs_session_id_size s"
  "fs_file_size_bytes (put_piece s i p) = fs_file_size_bytes s"
  "fs_piece_size_blocks (put_piece s i p) = fs_piece_size_blocks s"
  "fs_block_size_bytes (put_piece s i p) = fs_block_size_bytes s"
  "fs_transferred_pieces (put_piece s i p) = fs_transferred_pieces s"
  "fs_next_piece_index (put_piece s i p) = fs_next_piece_index s"
  "fs_idle_time_ms (put_piece s i p) = fs_idle_time_ms s"
  "fs_blocks_per_cycle (put_piece s i p) = fs_blocks_per_cycle s"
  "fs_pieces (put_piece s i p) = (fs_pieces s)[i := p]"
  by (simp_all add: put_piece_def)

lemma used_count_put:
  "i < length (fs_pieces s) \<Longrightarrow>
    used_count (put_piece s i p) + (if fp_used (fs_pieces s ! i) then 1 else 0) =
      used_count s + (if fp_used p then 1 else 0)"
  unfolding used_count_def put_piece_sel by (rule length_filter_update)

text \<open>A piece replaced by one with the same identifier, and only blocks of \<open>H\<close> marked.\<close>

lemma rx_inv_put_same:
  assumes inv: "rx_inv H s" and i: "i < FT_PIECE_CACHE_COUNT" and H: "H \<subseteq> H'"
    and p: "fp_used p = fp_used (fs_pieces s ! i)" "fp_id p = fp_id (fs_pieces s ! i)"
      "length (fp_bitmap p) = FT_MAX_PIECE_BITMAP_SIZE"
    and got: "\<And>b. fp_used p \<Longrightarrow> b < unat (fs_piece_size_blocks s) \<Longrightarrow> block_got (fp_bitmap p) b \<Longrightarrow> (fp_id p, b) \<in> H'"
  shows "rx_inv H' (put_piece s i p)"
proof -
  have len: "length (fs_pieces s) = FT_PIECE_CACHE_COUNT" and rp: "rx_pieces H s" and rd: "rx_done H s"
    and rs: "rx_static s"
    using inv by (simp_all add: rx_inv_def rx_pieces_def)
  have "rx_static (put_piece s i p)"
    using rs by (simp add: rx_static_def ft_metadata_ok_def ft_piece_count_def)
  moreover have "rx_pieces H' (put_piece s i p)"
    unfolding rx_pieces_def put_piece_sel
  proof (intro conjI allI impI)
    fix j assume j: "j < FT_PIECE_CACHE_COUNT"
    let ?q = "(fs_pieces s)[i := p] ! j"
    show "length (fp_bitmap ?q) = FT_MAX_PIECE_BITMAP_SIZE"
      using j rp p(3) len by (cases "j = i") (simp_all add: rx_pieces_def)
    assume u: "fp_used ?q"
    then show "fp_id ?q < fs_next_piece_index s"
      using j rp p len by (cases "j = i") (simp_all add: rx_pieces_def)
    fix b assume b: "b < unat (fs_piece_size_blocks s)" "block_got (fp_bitmap ?q) b"
    then show "(fp_id ?q, b) \<in> H'"
      using j rp got [OF _ b(1)] len u H by (cases "j = i") (auto simp: rx_pieces_def)
  qed (simp add: len)
  moreover have "rx_done H' (put_piece s i p)"
  proof -
    have "used_count (put_piece s i p) = used_count s"
      using used_count_put [of i s p] i p(1) len by simp
    moreover have "(\<exists>j < FT_PIECE_CACHE_COUNT. fp_used ((fs_pieces s)[i := p] ! j) \<and> fp_id ((fs_pieces s)[i := p] ! j) = k)"
      if "\<exists>j < FT_PIECE_CACHE_COUNT. fp_used (fs_pieces s ! j) \<and> fp_id (fs_pieces s ! j) = k" for k
      using that p(1,2) i len by (metis nth_list_update_eq nth_list_update_neq)
    ultimately show ?thesis
      using rd H unfolding rx_done_def put_piece_sel by (intro conjI) (meson subsetD, simp)
  qed
  ultimately show ?thesis by (simp add: rx_inv_def)
qed

text \<open>A complete piece is taken out of the cache.\<close>

lemma rx_inv_complete:
  assumes inv: "rx_inv H s" and i: "i < FT_PIECE_CACHE_COUNT" and u: "fp_used (fs_pieces s ! i)"
    and full: "\<And>b. b < unat (fs_piece_size_blocks s) \<Longrightarrow> block_got (fp_bitmap (fs_pieces s ! i)) b"
  shows "rx_inv H (put_piece (s\<lparr>fs_transferred_pieces := fs_transferred_pieces s + 1\<rparr>) i ft_piece_zero)"
    (is "rx_inv H ?s'")
proof -
  have len: "length (fs_pieces s) = FT_PIECE_CACHE_COUNT" and rp: "rx_pieces H s" and rd: "rx_done H s"
    and rs: "rx_static s"
    using inv by (simp_all add: rx_inv_def rx_pieces_def)
  have "rx_static ?s'" using rs by (simp add: rx_static_def ft_metadata_ok_def ft_piece_count_def)
  moreover have "rx_pieces H ?s'"
    using rp i len by (auto simp: rx_pieces_def ft_piece_zero_def nth_list_update)
  moreover have "rx_done H ?s'"
  proof -
    let ?m = "s\<lparr>fs_transferred_pieces := fs_transferred_pieces s + 1\<rparr>"
    have "used_count ?s' + 1 = used_count s"
      using used_count_put [of i ?m ft_piece_zero] i u len by (simp add: ft_piece_zero_def used_count_def)
    moreover have sum: "unat (fs_transferred_pieces s) + used_count s = unat (fs_next_piece_index s)"
      using rd by (simp add: rx_done_def)
    moreover have "unat (fs_transferred_pieces s + 1) = unat (fs_transferred_pieces s) + 1"
      using calculation unsigned_less [of "fs_next_piece_index s", where ?'a = nat]
      by (simp add: unat_plus_simple unat_word_ariths)
    moreover have "(\<exists>j < FT_PIECE_CACHE_COUNT. fp_used (fs_pieces ?s' ! j) \<and> fp_id (fs_pieces ?s' ! j) = k) \<or>
        (\<forall>b < unat (fs_piece_size_blocks s). (k, b) \<in> H)" if k: "k < fs_next_piece_index s" for k
    proof (cases "k = fp_id (fs_pieces s ! i)")
      case True
      then show ?thesis using rp i u full by (auto simp: rx_pieces_def)
    next
      case False
      then show ?thesis using rd k i unfolding rx_done_def
        by (simp add: ) (metis nth_list_update_neq)
    qed
    ultimately show ?thesis by (simp add: rx_done_def)
  qed
  ultimately show ?thesis by (simp add: rx_inv_def)
qed

text \<open>The next piece enters a free slot.\<close>

lemma rx_inv_allocate:
  assumes inv: "rx_inv H s" and i: "i < FT_PIECE_CACHE_COUNT" and u: "\<not> fp_used (fs_pieces s ! i)"
    and count: "ft_piece_count s = Some count" and next_less: "fs_next_piece_index s < count"
  shows "rx_inv H (put_piece (s\<lparr>fs_next_piece_index := fs_next_piece_index s + 1\<rparr>) i
     \<lparr>fp_used = True, fp_bitmap = replicate FT_MAX_PIECE_BITMAP_SIZE 0,
      fp_id = fs_next_piece_index s, fp_idle_time_ms = FT_RECEIVER_PIECE_IDLE_MAX\<rparr>)"
    (is "rx_inv H (put_piece ?m i ?p)")
proof -
  have len: "length (fs_pieces s) = FT_PIECE_CACHE_COUNT" and rp: "rx_pieces H s" and rd: "rx_done H s"
    and rs: "rx_static s"
    using inv by (simp_all add: rx_inv_def rx_pieces_def)
  have n: "unat (fs_next_piece_index s + 1) = unat (fs_next_piece_index s) + 1"
    using next_less by (rule unat_plus_one)
  have up: "k < fs_next_piece_index s + 1 \<longleftrightarrow> k < fs_next_piece_index s \<or> k = fs_next_piece_index s" for k
    using n by (auto simp: word_less_nat_alt less_Suc_eq word_unat_eq_iff)
  have le: "fs_next_piece_index s + 1 \<le> count" using next_less n by (simp add: word_le_nat_alt word_less_nat_alt)
  have "rx_static (put_piece ?m i ?p)"
    using rs count le by (simp add: rx_static_def ft_metadata_ok_def ft_piece_count_def)
  moreover have "rx_pieces H (put_piece ?m i ?p)"
    unfolding rx_pieces_def put_piece_sel
  proof (intro conjI allI impI)
    have B: "unat (fs_piece_size_blocks s) \<le> 8 * FT_MAX_PIECE_BITMAP_SIZE"
      using rs by (simp add: rx_static_def ft_metadata_ok_def FT_MAX_PIECE_BITMAP_SIZE_def)
    fix j assume j: "j < FT_PIECE_CACHE_COUNT"
    let ?q = "(fs_pieces ?m)[i := ?p] ! j"
    show "length (fp_bitmap ?q) = FT_MAX_PIECE_BITMAP_SIZE"
      using j rp len by (cases "j = i") (simp_all add: rx_pieces_def)
    assume u: "fp_used ?q"
    then show "fp_id ?q < fs_next_piece_index ?m"
      using j rp len by (cases "j = i") (simp_all add: rx_pieces_def up)
    fix b assume b: "b < unat (fs_piece_size_blocks ?m)" "block_got (fp_bitmap ?q) b"
    then show "(fp_id ?q, b) \<in> H"
      using j rp len u B block_got_zero [of b FT_MAX_PIECE_BITMAP_SIZE]
      by (cases "j = i") (auto simp: rx_pieces_def)
  qed (simp add: len)
  moreover have "rx_done H (put_piece ?m i ?p)"
  proof -
    have "used_count (put_piece ?m i ?p) = used_count s + 1"
      using used_count_put [of i ?m ?p] i u len by (simp add: used_count_def)
    moreover have "(\<exists>j < FT_PIECE_CACHE_COUNT. fp_used ((fs_pieces s)[i := ?p] ! j) \<and>
          fp_id ((fs_pieces s)[i := ?p] ! j) = k) \<or>
        (\<forall>b < unat (fs_piece_size_blocks s). (k, b) \<in> H)" if k: "k < fs_next_piece_index s + 1" for k
    proof (cases "k = fs_next_piece_index s")
      case True
      then have "fp_used ((fs_pieces s)[i := ?p] ! i) \<and> fp_id ((fs_pieces s)[i := ?p] ! i) = k"
        using i len by simp
      then show ?thesis using i by blast
    next
      case False
      then have "k < fs_next_piece_index s" using k up by blast
      then show ?thesis using rd u unfolding rx_done_def by (metis nth_list_update_neq)
    qed
    ultimately show ?thesis using rd n by (simp add: rx_done_def)
  qed
  ultimately show ?thesis by (simp add: rx_inv_def)
qed

subsection \<open>One round of the receiver\<close>

lemma ft_piece_count_sel [simp]:
  "ft_piece_count (s\<lparr>fs_state := x\<rparr>) = ft_piece_count s"
  "ft_piece_count (s\<lparr>fs_idle_time_ms := a\<rparr>) = ft_piece_count s"
  "ft_piece_count (s\<lparr>fs_message_time_ms := a\<rparr>) = ft_piece_count s"
  "ft_piece_count (s\<lparr>fs_last_progress_ms := a\<rparr>) = ft_piece_count s"
  by (simp_all add: ft_piece_count_def Let_def)

lemma fs_state_same: "fs_state s = x \<Longrightarrow> s\<lparr>fs_state := x\<rparr> = s"
  by (cases s) simp

lemma rx_piece_missing:
  assumes "rx_inv H s" and "i < FT_PIECE_CACHE_COUNT" and "fp_bitmap p = fp_bitmap (fs_pieces s ! i)"
  shows "\<exists>m. piece_missing_blocks s p = Some m"
  unfolding piece_missing_blocks_def
  by (rule missing_from_ok)
    (use assms in \<open>auto simp: rx_inv_def rx_static_def rx_pieces_def ft_metadata_ok_def FT_MAX_PIECE_BITMAP_SIZE_def\<close>)

lemma rx_send_block_request:
  assumes inv: "rx_inv H s" and i: "i < FT_PIECE_CACHE_COUNT" and p: "fp_bitmap p = fp_bitmap (fs_pieces s ! i)"
  shows "\<exists>m. send_block_request self s p = Some m"
proof -
  obtain missing where "piece_missing_blocks s p = Some missing" using rx_piece_missing [OF assms] by blast
  moreover have "length (fp_bitmap p) = 4" "unat (fs_piece_size_blocks s) div 8 \<le> 4"
    using assms by (auto simp: rx_inv_def rx_static_def rx_pieces_def ft_metadata_ok_def FT_MAX_PIECE_BITMAP_SIZE_def)
  ultimately show ?thesis
    using inv by (simp add: send_block_request_def ft_lock_def session_header_def rx_inv_def rx_static_def
        mem_read_def mem_write_def Let_def)
qed

lemma rx_slot_piece:
  assumes inv: "rx_inv H s" and i: "i < FT_PIECE_CACHE_COUNT"
  shows "\<exists>s' m. receive_slot_piece self t i s = Some (s', m) \<and> rx_inv H s' \<and>
    ft_piece_count s' = ft_piece_count s \<and> fs_next_piece_index s' = fs_next_piece_index s \<and>
    fs_piece_size_blocks s' = fs_piece_size_blocks s \<and> (\<forall>j. j \<noteq> i \<longrightarrow> fs_pieces s' ! j = fs_pieces s ! j)"
proof -
  let ?p = "fs_pieces s ! i"
  have pieces: "length (fp_bitmap ?p) = FT_MAX_PIECE_BITMAP_SIZE"
    "fp_used ?p \<Longrightarrow> b < unat (fs_piece_size_blocks s) \<Longrightarrow> block_got (fp_bitmap ?p) b \<Longrightarrow> (fp_id ?p, b) \<in> H" for b
    using inv i by (auto simp: rx_inv_def rx_pieces_def)
  have count: "ft_piece_count (put_piece s i q) = ft_piece_count s"
    "ft_piece_count (put_piece (s\<lparr>fs_transferred_pieces := n\<rparr>) i q) = ft_piece_count s" for q n
    by (simp_all add: ft_piece_count_def Let_def)
  have same: "rx_inv H (put_piece s i (?p\<lparr>fp_idle_time_ms := n\<rparr>))" for n
    by (rule rx_inv_put_same [OF inv i]) (use pieces in auto)
  obtain missing where m: "piece_missing_blocks s ?p = Some missing" using rx_piece_missing [OF inv i] by auto
  obtain r where r: "send_block_request self s ?p = Some r" using rx_send_block_request [OF inv i] by auto
  obtain r' where r': "send_block_request self s (?p\<lparr>fp_idle_time_ms := fp_idle_time_ms ?p + t\<rparr>) = Some r'"
    using rx_send_block_request [OF inv i, of "?p\<lparr>fp_idle_time_ms := fp_idle_time_ms ?p + t\<rparr>"] by auto
  consider "\<not> fp_used ?p" | "fp_used ?p" missing | "fp_used ?p" "\<not> missing" by blast
  then show ?thesis
  proof cases
    case 1
    then show ?thesis using inv by (simp add: receive_slot_piece_def)
  next
    case 2
    then show ?thesis using same [of 0] same [of "fp_idle_time_ms ?p + t"] m r'
      by (simp add: receive_slot_piece_def Let_def count)
  next
    case 3
    have "block_got (fp_bitmap ?p) b" if "b < unat (fs_piece_size_blocks s)" for b
    proof (rule block_got_full)
      have "8 dvd unat (fs_piece_size_blocks s)" using inv by (simp add: rx_inv_def rx_static_def ft_metadata_ok_def)
      then have "b div 8 < unat (fs_piece_size_blocks s) div 8"
        using that by (metis div_less_iff_less_mult dvd_div_mult_self zero_less_numeral)
      then show "fp_bitmap ?p ! (b div 8) = 0xff"
        using m 3 missing_from_complete [of "fp_bitmap ?p" 0 "unat (fs_piece_size_blocks s) div 8" "b div 8"]
        by (simp add: piece_missing_blocks_def)
    qed
    then show ?thesis using rx_inv_complete [OF inv i 3(1)] 3 m r by (simp add: receive_slot_piece_def Let_def count)
  qed
qed

lemma rx_slot_allocate:
  assumes inv: "rx_inv H s" and i: "i < FT_PIECE_CACHE_COUNT"
  shows "\<exists>s'. receive_slot_allocate i s = Some s' \<and> rx_inv H s' \<and> ft_piece_count s' = ft_piece_count s \<and>
    fs_piece_size_blocks s' = fs_piece_size_blocks s \<and>
    (\<forall>j. j \<noteq> i \<longrightarrow> fs_pieces s' ! j = fs_pieces s ! j) \<and>
    (\<not> fp_used (fs_pieces s' ! i) \<longrightarrow> ft_piece_count s' = Some (fs_next_piece_index s')) \<and>
    (ft_piece_count s = Some (fs_next_piece_index s) \<longrightarrow> fs_next_piece_index s' = fs_next_piece_index s)"
proof -
  obtain count where c: "ft_piece_count s = Some count"
    using inv by (auto simp: rx_inv_def rx_static_def ft_metadata_ok_def ft_piece_count_def)
  have le: "fs_next_piece_index s \<le> count" using inv c by (simp add: rx_inv_def rx_static_def)
  have len: "i < length (fs_pieces s)" using inv i by (simp add: rx_inv_def rx_pieces_def)
  have cc: "ft_piece_count (put_piece (s\<lparr>fs_next_piece_index := n\<rparr>) i q) = ft_piece_count s" for q n
    by (simp add: ft_piece_count_def Let_def)
  consider "fp_used (fs_pieces s ! i)" | "\<not> fp_used (fs_pieces s ! i)" "fs_next_piece_index s < count"
    | "\<not> fp_used (fs_pieces s ! i)" "fs_next_piece_index s = count"
    using le by fastforce
  then show ?thesis
  proof cases
    case 1
    then show ?thesis using inv by (simp add: receive_slot_allocate_def)
  next
    case 2
    then show ?thesis using rx_inv_allocate [OF inv i 2(1) c 2(2)] c len by (simp add: receive_slot_allocate_def cc)
  next
    case 3
    then show ?thesis using inv c by (simp add: receive_slot_allocate_def)
  qed
qed

definition rx_finished :: "(u32 \<times> nat) set \<Rightarrow> ft_session \<Rightarrow> bool" where
  "rx_finished H s \<longleftrightarrow> fs_state s = FT_STATE_FINISHED \<and>
     ft_piece_count s = Some (fs_transferred_pieces s) \<and>
     (\<forall>k < fs_transferred_pieces s. \<forall>b < unat (fs_piece_size_blocks s). (k, b) \<in> H)"

lemma rx_timers [simp]:
  "rx_inv H (s\<lparr>fs_idle_time_ms := a\<rparr>) = rx_inv H s"
  "rx_inv H (s\<lparr>fs_message_time_ms := a\<rparr>) = rx_inv H s"
  "rx_inv H (s\<lparr>fs_last_progress_ms := a\<rparr>) = rx_inv H s"
  "rx_finished H (s\<lparr>fs_idle_time_ms := a\<rparr>) = rx_finished H s"
  "rx_finished H (s\<lparr>fs_message_time_ms := a\<rparr>) = rx_finished H s"
  "rx_finished H (s\<lparr>fs_last_progress_ms := a\<rparr>) = rx_finished H s"
  by (simp_all add: rx_inv_def rx_static_def rx_pieces_def rx_done_def rx_finished_def ft_metadata_ok_def
      ft_piece_count_def used_count_def Let_def)

lemma rx_slots:
  assumes inv: "rx_inv H s"
  shows "\<exists>s' out u. fold_opt (receive_slot self t) [0..<FT_PIECE_CACHE_COUNT] (s, [], 0) = Some (s', out, u) \<and>
    rx_inv H s' \<and> (u = 0 \<longrightarrow> rx_finished H (s'\<lparr>fs_state := FT_STATE_FINISHED\<rparr>))"
proof -
  define Inv where "Inv = (\<lambda>i st. case st of (s' :: ft_session, out :: ft_message list, u :: nat) \<Rightarrow>
     rx_inv H s' \<and> (u = 0 \<longrightarrow> (\<forall>j < i. \<not> fp_used (fs_pieces s' ! j))) \<and>
     ((\<exists>j < i. \<not> fp_used (fs_pieces s' ! j)) \<longrightarrow> ft_piece_count s' = Some (fs_next_piece_index s')))"
  have "\<exists>st. fold_opt (receive_slot self t) [0..<FT_PIECE_CACHE_COUNT] (s, [], 0) = Some st \<and>
    Inv FT_PIECE_CACHE_COUNT st"
  proof (rule fold_opt_upt_inv)
    show "Inv 0 (s, [], 0)" using inv by (simp add: Inv_def)
    fix i st assume i: "i < FT_PIECE_CACHE_COUNT" and I: "Inv i st"
    obtain s0 out u where st: "st = (s0, out, u)" by (cases st) auto
    have inv0: "rx_inv H s0" using I by (simp add: Inv_def st)
    obtain s1 m where s1: "receive_slot_piece self t i s0 = Some (s1, m)" "rx_inv H s1"
      "ft_piece_count s1 = ft_piece_count s0" "fs_next_piece_index s1 = fs_next_piece_index s0"
      "\<forall>j. j \<noteq> i \<longrightarrow> fs_pieces s1 ! j = fs_pieces s0 ! j"
      using rx_slot_piece [OF inv0 i] by blast
    obtain s2 where s2: "receive_slot_allocate i s1 = Some s2" "rx_inv H s2"
      "ft_piece_count s2 = ft_piece_count s1" "\<forall>j. j \<noteq> i \<longrightarrow> fs_pieces s2 ! j = fs_pieces s1 ! j"
      "\<not> fp_used (fs_pieces s2 ! i) \<longrightarrow> ft_piece_count s2 = Some (fs_next_piece_index s2)"
      "ft_piece_count s1 = Some (fs_next_piece_index s1) \<longrightarrow> fs_next_piece_index s2 = fs_next_piece_index s1"
      using rx_slot_allocate [OF s1(2) i] by blast
    have "Inv (Suc i) (s2, out @ m, if fp_used (fs_pieces s2 ! i) then u + 1 else u)"
      using I s1 s2 by (auto simp: Inv_def st less_Suc_eq)
    then show "\<exists>st'. receive_slot self t i st = Some st' \<and> Inv (Suc i) st'"
      using s1(1) s2(1) by (simp add: receive_slot_def st)
  qed
  then obtain s' out u where f: "fold_opt (receive_slot self t) [0..<FT_PIECE_CACHE_COUNT] (s, [], 0) = Some (s', out, u)"
    and I: "Inv FT_PIECE_CACHE_COUNT (s', out, u)" by auto
  have "rx_finished H (s'\<lparr>fs_state := FT_STATE_FINISHED\<rparr>)" if "u = 0"
  proof -
    have unused: "\<forall>j < FT_PIECE_CACHE_COUNT. \<not> fp_used (fs_pieces s' ! j)" using I that by (simp add: Inv_def)
    then have count: "ft_piece_count s' = Some (fs_next_piece_index s')"
      using I zero_less_numeral [of "num.Bit0 (num.Bit0 (num.Bit0 num.One))"]
      unfolding Inv_def FT_PIECE_CACHE_COUNT_def prod.case by blast
    have "rx_done H s'" "length (fs_pieces s') = FT_PIECE_CACHE_COUNT"
      using I by (simp_all add: Inv_def rx_inv_def rx_pieces_def)
    moreover from this have "used_count s' = 0"
      using unused by (simp add: used_count_def filter_empty_conv all_set_conv_all_nth)
    moreover from calculation have "fs_transferred_pieces s' = fs_next_piece_index s'"
      by (simp add: rx_done_def word_unat_eq_iff)
    ultimately show ?thesis
      using unused count by (auto simp: rx_finished_def rx_done_def)
  qed
  then show ?thesis using f I by (auto simp: Inv_def)
qed

text \<open>A session that was a receiver with well-formed metadata: still receiving, or ended.\<close>

definition rx_state :: "(u32 \<times> nat) set \<Rightarrow> ft_session \<Rightarrow> bool" where
  "rx_state H s \<longleftrightarrow> rx_inv H s \<or> rx_finished H s \<or> fs_state s \<in> {FT_STATE_FAILED, FT_STATE_EMPTY}"

lemma l2_progress_keeps [simp]:
  "fs_state s = FT_STATE_RECEIVING \<Longrightarrow> ft_progress_callback (l2_ft_ctx pad) s = s"
  by (simp add: l2_ft_ctx_def l2_file_progress_callback_def)

lemma rx_inv_state: "rx_inv H s \<Longrightarrow> fs_state s = FT_STATE_RECEIVING"
  by (simp add: rx_inv_def rx_static_def)

lemma rx_step:
  assumes inv: "rx_inv H s"
  shows "\<exists>s' m. file_transfer_session_step (l2_ft_ctx pad) s t = Some (s', m) \<and> rx_state H s'"
proof -
  let ?s = "s\<lparr>fs_idle_time_ms := fs_idle_time_ms s + t, fs_message_time_ms := fs_message_time_ms s + t\<rparr>"
  have inv': "rx_inv H ?s" using inv by simp
  obtain s' out u where f: "fold_opt (receive_slot (l2_ft_ctx pad) t) [0..<FT_PIECE_CACHE_COUNT] (?s, [], 0) = Some (s', out, u)"
    "rx_inv H s'" "u = 0 \<longrightarrow> rx_finished H (s'\<lparr>fs_state := FT_STATE_FINISHED\<rparr>)"
    using rx_slots [OF inv'] by blast
  show ?thesis
  proof (cases "fs_idle_time_ms ?s \<ge> FT_SESSION_RUNNING_TIMEOUT_MS")
    case True
    then show ?thesis using rx_inv_state [OF inv']
      by (simp add: file_transfer_session_step_def receiving_step_def ft_set_state_def rx_state_def Let_def)
  next
    case False
    have "rx_finished H (s'\<lparr>fs_idle_time_ms := 0, fs_state := FT_STATE_FINISHED\<rparr>)" if "u = 0"
      using f(3) that by (simp add: rx_finished_def)
    then show ?thesis using False rx_inv_state [OF inv'] f(1,2) rx_inv_state [OF f(2)]
      by (cases "u = 0")
        (simp_all add: file_transfer_session_step_def receiving_step_def ft_set_state_def rx_state_def Let_def)
  qed
qed

text \<open>Outside of the states of an active transfer, nothing but the progress callback changes a session.\<close>

lemma rx_ended_step:
  "fs_state s \<in> {FT_STATE_FINISHED, FT_STATE_FAILED} \<Longrightarrow>
    file_transfer_session_step self s t =
      Some (s\<lparr>fs_idle_time_ms := fs_idle_time_ms s + t, fs_message_time_ms := fs_message_time_ms s + t\<rparr>, [])"
  by (auto simp: file_transfer_session_step_def)

lemma rx_progress: "rx_state H s \<Longrightarrow> rx_state H (update_progress (l2_ft_ctx pad) s t)"
  by (auto simp: rx_state_def update_progress_def Let_def rx_inv_state l2_ft_ctx_def l2_file_progress_callback_def
      file_transfer_free_session_def ft_session_zero_def)

lemma rx_round:
  assumes "rx_state H s"
  shows "\<exists>s' m. ft_session_round (l2_ft_ctx pad) s = Some (s', m) \<and> rx_state H s'"
proof -
  have "\<exists>s' m. file_transfer_session_step (l2_ft_ctx pad) s FT_STEP_INTERVAL_MS = Some (s', m) \<and> rx_state H s'"
    if "fs_state s \<noteq> FT_STATE_EMPTY"
  proof (cases "rx_inv H s")
    case True
    then show ?thesis by (rule rx_step)
  next
    case False
    then have "fs_state s \<in> {FT_STATE_FINISHED, FT_STATE_FAILED}" "rx_finished H s \<or> fs_state s = FT_STATE_FAILED"
      using assms that by (auto simp: rx_state_def rx_finished_def)
    then show ?thesis by (subst rx_ended_step) (auto simp: rx_state_def)
  qed
  then show ?thesis
    using assms rx_progress by (fastforce simp: ft_session_round_def)
qed

lemma rx_block_response:
  assumes inv: "rx_inv H s"
  shows "\<exists>s'. process_block_response (l2_ft_ctx pad) s piece block = Some s' \<and>
    rx_inv (insert (piece, unat block) H) s'"
proof -
  have mono: "rx_inv (insert (piece, unat block) H) s"
    using inv by (auto simp: rx_inv_def rx_pieces_def rx_done_def)
  have st: "fs_state s = FT_STATE_RECEIVING" using inv by (rule rx_inv_state)
  show ?thesis
  proof (cases "find_piece s piece")
    case None
    then show ?thesis using mono st by (simp add: process_block_response_def)
  next
    case (Some i)
    have len: "length (fs_pieces s) = FT_PIECE_CACHE_COUNT" using inv by (simp add: rx_inv_def rx_pieces_def)
    have i: "i < FT_PIECE_CACHE_COUNT" and p: "fp_used (fs_pieces s ! i)" "fp_id (fs_pieces s ! i) = piece"
      using Some find_index_holds [of "\<lambda>p. fp_used p \<and> fp_id p = piece"] len
      by (auto simp: find_piece_def dest: find_index_less)
    show ?thesis
    proof (cases "block \<ge> fs_piece_size_blocks s")
      case True
      then show ?thesis using mono st Some by (simp add: process_block_response_def)
    next
      case False
      have bl: "length (fp_bitmap (fs_pieces s ! i)) = FT_MAX_PIECE_BITMAP_SIZE"
        and got: "\<And>b. b < unat (fs_piece_size_blocks s) \<Longrightarrow> block_got (fp_bitmap (fs_pieces s ! i)) b \<Longrightarrow> (piece, b) \<in> H"
        using inv i p by (auto simp: rx_inv_def rx_pieces_def)
      have "unat block < 8 * length (fp_bitmap (fs_pieces s ! i))"
        using False inv bl
        by (auto simp: rx_inv_def rx_static_def ft_metadata_ok_def FT_MAX_PIECE_BITMAP_SIZE_def word_le_nat_alt)
      then obtain bitmap where b: "set_block_bit (fp_bitmap (fs_pieces s ! i)) (unat block) = Some bitmap"
        "length bitmap = FT_MAX_PIECE_BITMAP_SIZE"
        using set_block_bit_ok bl by metis
      have "rx_inv (insert (piece, unat block) H) (put_piece s i ((fs_pieces s ! i)\<lparr>fp_bitmap := bitmap\<rparr>))"
        by (rule rx_inv_put_same [OF inv i]) (use p b got block_got_set [OF b(1)] in auto)
      then show ?thesis
        using Some False st b
        by (simp add: process_block_response_def ft_set_state_def Let_def fs_state_same)
    qed
  qed
qed

subsection \<open>A finished receiver has seen every block\<close>

definition responses :: "ft_event list \<Rightarrow> (u32 \<times> nat) set" where
  "responses evs = {(piece, unat block) |piece block n. Ft_receive (Block_response piece block n) \<in> set evs}"

lemma responses_simps [simp]:
  "responses [] = {}"
  "responses (evs @ [Ft_round]) = responses evs"
  "responses (evs @ [Ft_receive (Block_response piece block n)]) = insert (piece, unat block) (responses evs)"
  "(\<And>p b n. c \<noteq> Block_response p b n) \<Longrightarrow> responses (evs @ [Ft_receive c]) = responses evs"
  by (auto simp: responses_def) blast+

lemma rx_state_process:
  assumes s: "rx_state (responses evs) s"
  shows "\<exists>known s'. ft_process (l2_ft_ctx pad) s c = Some (known, s') \<and> rx_state (responses (evs @ [Ft_receive c])) s'"
proof (cases "\<exists>p b n. c = Block_response p b n")
  case True
  then obtain p b n where c: "c = Block_response p b n" by blast
  show ?thesis
  proof (cases "rx_inv (responses evs) s")
    case True
    then show ?thesis using rx_block_response [OF True, of pad p b] c by (auto simp: ft_process_def rx_state_def)
  next
    case False
    then have "rx_state (insert (p, unat b) (responses evs)) s" "fs_state s \<noteq> FT_STATE_RECEIVING"
      using s by (auto simp: rx_state_def rx_finished_def)
    then show ?thesis using c by (auto simp: ft_process_def process_block_response_def)
  qed
next
  case False
  then have r: "responses (evs @ [Ft_receive c]) = responses evs" by simp
  have "fs_state s \<in> {FT_STATE_RECEIVING, FT_STATE_FINISHED, FT_STATE_FAILED, FT_STATE_EMPTY}"
    using s by (auto simp: rx_state_def rx_finished_def rx_inv_state)
  then have "\<exists>known. ft_process (l2_ft_ctx pad) s c = Some (known, s)"
    using False by (cases c)
      (auto simp: ft_process_def process_file_request_def process_file_metadata_def process_block_request_def)
  then show ?thesis using s r by auto
qed

lemma rx_run:
  "rx_state {} s \<Longrightarrow> \<exists>s'. ft_run (l2_ft_ctx pad) evs s = Some s' \<and> rx_state (responses evs) s'"
proof (induction evs rule: rev_induct)
  case Nil
  then show ?case by (simp add: ft_run_def)
next
  case (snoc e evs)
  then obtain s1 where s1: "ft_run (l2_ft_ctx pad) evs s = Some s1" "rx_state (responses evs) s1" by blast
  then have run: "ft_run (l2_ft_ctx pad) (evs @ [e]) s = ft_event_step (l2_ft_ctx pad) e s1"
    by (cases "ft_event_step (l2_ft_ctx pad) e s1") (simp_all add: ft_run_def)
  show ?case
  proof (cases e)
    case Ft_round
    then show ?thesis using rx_round [OF s1(2), of pad] run by (auto simp: ft_event_step_def)
  next
    case (Ft_receive c)
    then show ?thesis using rx_state_process [OF s1(2), of pad c] run by (auto simp: ft_event_step_def)
  qed
qed

text \<open>A session that has just accepted the metadata of a file (\<open>process_file_metadata\<close>).\<close>

definition fresh_receiver :: "ft_session \<Rightarrow> bool" where
  "fresh_receiver s \<longleftrightarrow> fs_state s = FT_STATE_RECEIVING \<and> fs_lock s \<and>
     fs_session_id_size s \<le> length (fs_session_id s) \<and>
     fs_pieces s = replicate FT_PIECE_CACHE_COUNT ft_piece_zero \<and>
     fs_next_piece_index s = 0 \<and> fs_transferred_pieces s = 0"

lemma fresh_receiver_inv: "fresh_receiver s \<Longrightarrow> ft_metadata_ok s \<Longrightarrow> rx_inv {} s"
  by (simp add: fresh_receiver_def rx_inv_def rx_static_def rx_pieces_def rx_done_def ft_piece_zero_def used_count_def)

text \<open>Property C14. A receiver whose peer announced well-formed metadata (a piece of 8 to 32 blocks that fills whole
  bitmap bytes; the code does not check this, and with larger pieces it leaves its bitmap) never leaves its arrays, whatever messages of whatever kind arrive between the rounds of
  its task, in any order and number; and when it reports the transfer as finished it has received a
  response for every block of every piece of the file, and counted all the pieces.\<close>

theorem ft_receiver_complete:
  assumes "fresh_receiver s" and "ft_metadata_ok s"
  shows "\<exists>s'. ft_run (l2_ft_ctx pad) evs s = Some s' \<and>
    (fs_state s' = FT_STATE_FINISHED \<longrightarrow>
      ft_piece_count s' = Some (fs_transferred_pieces s') \<and>
      (\<forall>piece < fs_transferred_pieces s'. \<forall>block < fs_piece_size_blocks s'.
         (piece, unat block) \<in> responses evs))"
proof -
  obtain s' where s': "ft_run (l2_ft_ctx pad) evs s = Some s'" "rx_state (responses evs) s'"
    using rx_run [of s pad evs] fresh_receiver_inv [OF assms] by (auto simp: rx_state_def)
  then show ?thesis by (auto simp: rx_state_def rx_finished_def word_less_nat_alt dest: rx_inv_state)
qed

definition example_receiver :: ft_session where
  "example_receiver = ft_session_zero\<lparr>fs_state := FT_STATE_RECEIVING, fs_lock := True,
     fs_file_size_bytes := 10, fs_piece_size_blocks := 8, fs_block_size_bytes := 32\<rparr>"

definition example_events :: "ft_event list" where
  "example_events = [Ft_round] @ map (\<lambda>b. Ft_receive (Block_response 0 (of_nat b) 32)) [0..<8] @ [Ft_round]"

lemma ft_receiver_complete_witness:
  "map_option (\<lambda>s. (fs_state s, fs_transferred_pieces s)) (ft_run (l2_ft_ctx 0) example_events example_receiver) =
     Some (FT_STATE_FINISHED, 1) \<and> (0, 7) \<in> responses example_events"
proof
  show r: "map_option (\<lambda>s. (fs_state s, fs_transferred_pieces s)) (ft_run (l2_ft_ctx 0) example_events example_receiver) =
     Some (FT_STATE_FINISHED, 1)"
    by code_simp
  have p: "map_option fs_piece_size_blocks (ft_run (l2_ft_ctx 0) example_events example_receiver) = Some 8"
    by code_simp
  have "fresh_receiver example_receiver" "ft_metadata_ok example_receiver" by code_simp+
  from ft_receiver_complete [OF this, of 0 example_events] r p
  have "\<forall>block < (8 :: u32). (0, unat block) \<in> responses example_events" by auto
  moreover have "(7 :: u32) < 8" by simp
  ultimately have "(0, unat (7 :: u32)) \<in> responses example_events" by blast
  then show "(0, 7) \<in> responses example_events" by simp
qed

subsection \<open>The sender\<close>

definition tx_inv :: "ft_session \<Rightarrow> bool" where
  "tx_inv s \<longleftrightarrow> fs_state s = FT_STATE_SENDING \<and> fs_lock s \<and>
     fs_session_id_size s \<le> length (fs_session_id s) \<and> unat (fs_piece_size_blocks s) \<le> 32 \<and>
     length (fs_pieces s) = FT_PIECE_CACHE_COUNT \<and>
     (\<forall>p \<in> set (fs_pieces s). length (fp_bitmap p) = FT_MAX_PIECE_BITMAP_SIZE)"

lemma tx_timers [simp]:
  "tx_inv (s\<lparr>fs_idle_time_ms := a\<rparr>) = tx_inv s"
  "tx_inv (s\<lparr>fs_message_time_ms := a\<rparr>) = tx_inv s"
  "tx_inv (s\<lparr>fs_last_progress_ms := a\<rparr>) = tx_inv s"
  by (simp_all add: tx_inv_def)

lemma tx_inv_state: "tx_inv s \<Longrightarrow> fs_state s = FT_STATE_SENDING"
  by (simp add: tx_inv_def)

lemma tx_inv_put:
  "tx_inv s \<Longrightarrow> length (fp_bitmap p) = FT_MAX_PIECE_BITMAP_SIZE \<Longrightarrow> tx_inv (put_piece s i p)"
  by (auto simp: tx_inv_def dest!: set_update_subset_insert [THEN subsetD])

text \<open>The responses of one step: as many as were counted, never more than the limit, and only blocks of the
  piece that are in its bitmap range.\<close>

definition tx_out :: "ft_session \<Rightarrow> ft_message list \<Rightarrow> nat \<Rightarrow> bool" where
  "tx_out s out n \<longleftrightarrow> length out = n \<and> n \<le> unat (fs_blocks_per_cycle s) \<and>
     (\<forall>m \<in> set out. \<exists>piece block len. snd m = Block_response piece block len \<and> block < fs_piece_size_blocks s)"

definition tx_same :: "ft_session \<Rightarrow> ft_session \<Rightarrow> bool" where
  "tx_same s s' \<longleftrightarrow> fs_idle_time_ms s' = fs_idle_time_ms s \<and> fs_blocks_per_cycle s' = fs_blocks_per_cycle s \<and>
     fs_piece_size_blocks s' = fs_piece_size_blocks s"

lemma tx_same_simps [simp]: "tx_same s s" "tx_same s (put_piece s' i p) = tx_same s s'"
  by (simp_all add: tx_same_def)

lemma tx_slot_block:
  assumes inv: "tx_inv s" and i: "i < FT_PIECE_CACHE_COUNT" and u: "fp_used (fs_pieces s ! i)"
    and b: "b < unat (fs_piece_size_blocks s)" and o: "tx_out s out n"
  shows "\<exists>s' out' n'. send_slot_block (l2_ft_ctx pad) i b (s, out, n) = Some (s', out', n') \<and>
    tx_inv s' \<and> fp_used (fs_pieces s' ! i) \<and> tx_same s s' \<and> tx_out s out' n'"
proof -
  let ?p = "fs_pieces s ! i"
  have len: "length (fp_bitmap ?p) = FT_MAX_PIECE_BITMAP_SIZE" "i < length (fs_pieces s)"
    using inv i by (auto simp: tx_inv_def)
  have b8: "b < 8 * length (fp_bitmap ?p)"
    using inv b len by (simp add: tx_inv_def FT_MAX_PIECE_BITMAP_SIZE_def)
  then have "b div 8 < length (fp_bitmap ?p)" by (simp add: div_less_iff_less_mult mult.commute)
  moreover obtain bitmap where bitmap: "set_block_bit (fp_bitmap ?p) b = Some bitmap"
    "length bitmap = FT_MAX_PIECE_BITMAP_SIZE"
    using set_block_bit_ok [OF b8] len by auto
  moreover have "of_nat b < fs_piece_size_blocks s" using b by (simp add: word_less_nat_alt unat_of_nat)
  moreover have "fs_state s = FT_STATE_SENDING" "fs_lock s" "fs_session_id_size s \<le> length (fs_session_id s)"
    using inv by (simp_all add: tx_inv_def)
  ultimately show ?thesis
    using inv u o len tx_inv_put [OF inv, of "?p\<lparr>fp_bitmap := bitmap\<rparr>" i]
    by (auto simp: send_slot_block_def Let_def mem_get_def send_block_response_def ft_lock_def session_header_def
        mem_read_def file_transfer_send_def l2_ft_ctx_def tx_out_def)
qed

lemma tx_slot_blocks:
  assumes inv: "tx_inv s" and i: "i < FT_PIECE_CACHE_COUNT" and u: "fp_used (fs_pieces s ! i)" and o: "tx_out s out n"
  shows "\<exists>s' out' n'. fold_opt (send_slot_block (l2_ft_ctx pad) i) [0..<unat (fs_piece_size_blocks s)] (s, out, n) =
      Some (s', out', n') \<and> tx_inv s' \<and> tx_same s s' \<and> tx_out s out' n'"
proof -
  define Inv where "Inv = (\<lambda>(b :: nat) st. case st of (s', out, n) \<Rightarrow>
    tx_inv s' \<and> fp_used (fs_pieces s' ! i) \<and> tx_same s s' \<and> tx_out s out n)"
  have "\<exists>st. fold_opt (send_slot_block (l2_ft_ctx pad) i) [0..<unat (fs_piece_size_blocks s)] (s, out, n) = Some st \<and>
    Inv (unat (fs_piece_size_blocks s)) st"
  proof (rule fold_opt_upt_inv)
    show "Inv 0 (s, out, n)" using assms by (simp add: Inv_def)
    fix b st assume b: "b < unat (fs_piece_size_blocks s)" and I: "Inv b st"
    obtain s1 out1 n1 where st: "st = (s1, out1, n1)" by (cases st) auto
    have "tx_out s1 out1 n1" "b < unat (fs_piece_size_blocks s1)" "tx_inv s1" "fp_used (fs_pieces s1 ! i)"
      using I b by (simp_all add: Inv_def st tx_same_def tx_out_def)
    from tx_slot_block [OF this(3) i this(4,2,1), of pad]
    show "\<exists>st'. send_slot_block (l2_ft_ctx pad) i b st = Some st' \<and> Inv (Suc b) st'"
      using I by (auto simp: Inv_def st tx_same_def tx_out_def)
  qed
  then show ?thesis by (auto simp: Inv_def)
qed

lemma tx_slots:
  assumes inv: "tx_inv s"
  shows "\<exists>s' out n u. fold_opt (send_slot (l2_ft_ctx pad) t) [0..<FT_PIECE_CACHE_COUNT] (s, [], 0, 0) = Some (s', out, n, u) \<and>
    tx_inv s' \<and> tx_same s s' \<and> tx_out s out n"
proof -
  define Inv where "Inv = (\<lambda>(i :: nat) st. case st of (s', out, n, u :: nat) \<Rightarrow>
    tx_inv s' \<and> tx_same s s' \<and> tx_out s out n)"
  have "\<exists>st. fold_opt (send_slot (l2_ft_ctx pad) t) [0..<FT_PIECE_CACHE_COUNT] (s, [], 0, 0) = Some st \<and>
    Inv FT_PIECE_CACHE_COUNT st"
  proof (rule fold_opt_upt_inv)
    show "Inv 0 (s, [], 0, 0)" using inv by (simp add: Inv_def tx_out_def)
    fix i st assume i: "i < FT_PIECE_CACHE_COUNT" and I: "Inv i st"
    obtain s1 out1 n1 u where st: "st = (s1, out1, n1, u)" by (cases st) auto
    have s1: "tx_inv s1" "tx_out s1 out1 n1" using I by (simp_all add: Inv_def st tx_same_def tx_out_def)
    show "\<exists>st'. send_slot (l2_ft_ctx pad) t i st = Some st' \<and> Inv (Suc i) st'"
    proof (cases "fp_used (fs_pieces s1 ! i)")
      case True
      obtain s2 out2 n2 where s2: "fold_opt (send_slot_block (l2_ft_ctx pad) i) [0..<unat (fs_piece_size_blocks s1)] (s1, out1, n1) =
          Some (s2, out2, n2)" "tx_inv s2" "tx_same s1 s2" "tx_out s1 out2 n2"
        using tx_slot_blocks [OF s1(1) i True s1(2)] by blast
      have "length (fp_bitmap (fs_pieces s2 ! i)) = FT_MAX_PIECE_BITMAP_SIZE"
        using s2(2) i by (auto simp: tx_inv_def)
      then show ?thesis
        using s2 I True tx_inv_put [OF s2(2)]
        by (simp add: send_slot_def st Let_def Inv_def tx_same_def tx_out_def ft_piece_zero_def)
    next
      case False
      then show ?thesis using I by (simp add: send_slot_def st Inv_def)
    qed
  qed
  then show ?thesis by (auto simp: Inv_def)
qed

text \<open>A step of a sending session answers with at most \<open>blocks_per_cycle\<close> messages, each of them
  a response for a block inside of the piece, and stays inside of its arrays.\<close>

theorem ft_sender_bounded:
  assumes "tx_inv s"
  shows "\<exists>s' out. file_transfer_session_step (l2_ft_ctx pad) s FT_STEP_INTERVAL_MS = Some (s', out) \<and>
    length out \<le> unat (fs_blocks_per_cycle s) \<and>
    (\<forall>m \<in> set out. \<exists>piece block len. snd m = Block_response piece block len \<and> block < fs_piece_size_blocks s)"
proof -
  let ?s = "s\<lparr>fs_idle_time_ms := fs_idle_time_ms s + FT_STEP_INTERVAL_MS,
    fs_message_time_ms := fs_message_time_ms s + FT_STEP_INTERVAL_MS\<rparr>"
  have "tx_inv ?s" using assms by simp
  from tx_slots [OF this, of pad FT_STEP_INTERVAL_MS] obtain s' out n u where
    "fold_opt (send_slot (l2_ft_ctx pad) FT_STEP_INTERVAL_MS) [0..<FT_PIECE_CACHE_COUNT] (?s, [], 0, 0) =
      Some (s', out, n, u)" "tx_out s out n"
    by (auto simp: tx_out_def)
  then show ?thesis using tx_inv_state [OF assms]
    by (simp add: file_transfer_session_step_def sending_step_def Let_def tx_out_def)
qed

lemma ft_sender_bounded_witness:
  "case file_transfer_session_step (l2_ft_ctx 0)
      (ft_session_zero\<lparr>fs_state := FT_STATE_SENDING, fs_lock := True, fs_piece_size_blocks := 32,
        fs_block_size_bytes := 32, fs_blocks_per_cycle := 5,
        fs_pieces := (fs_pieces ft_session_zero)[2 := ft_piece_zero\<lparr>fp_used := True, fp_id := 7\<rparr>]\<rparr>)
      FT_STEP_INTERVAL_MS of
     None \<Rightarrow> False | Some (s', out) \<Rightarrow> length out \<le> 5"
proof -
  have "tx_inv (ft_session_zero\<lparr>fs_state := FT_STATE_SENDING, fs_lock := True, fs_piece_size_blocks := 32,
        fs_block_size_bytes := 32, fs_blocks_per_cycle := 5,
        fs_pieces := (fs_pieces ft_session_zero)[2 := ft_piece_zero\<lparr>fp_used := True, fp_id := 7\<rparr>]\<rparr>)"
    by code_simp
  from ft_sender_bounded [OF this, of 0] show ?thesis by auto
qed

subsection \<open>A session whose peer is silent ends\<close>

definition ft_ok :: "ft_session \<Rightarrow> bool" where
  "ft_ok s \<longleftrightarrow>
     (case fs_state s of
        FT_STATE_RECEIVING \<Rightarrow> rx_inv UNIV s
      | FT_STATE_SENDING \<Rightarrow> tx_inv s
      | _ \<Rightarrow> fs_lock s \<and> fs_session_id_size s \<le> length (fs_session_id s) \<and> 0 \<in> set (fs_file_name s))"

definition ft_active :: "ft_session \<Rightarrow> bool" where
  "ft_active s \<longleftrightarrow> fs_state s \<in> {FT_STATE_FILE_METADATA, FT_STATE_FILE_REQUEST, FT_STATE_SENDING, FT_STATE_RECEIVING}"

definition ft_ended :: "ft_session \<Rightarrow> bool" where
  "ft_ended s \<longleftrightarrow> fs_state s \<in> {FT_STATE_FINISHED, FT_STATE_FAILED, FT_STATE_EMPTY}"

lemma receive_slot_piece_idle:
  "receive_slot_piece self t i s = Some (s', m) \<Longrightarrow> fs_idle_time_ms s' = fs_idle_time_ms s"
  by (cases "piece_missing_blocks s (fs_pieces s ! i)")
    (auto simp: receive_slot_piece_def Let_def bind_eq_Some_conv split: if_splits)

lemma receive_slot_allocate_idle: "receive_slot_allocate i s = Some s' \<Longrightarrow> fs_idle_time_ms s' = fs_idle_time_ms s"
  by (cases "ft_piece_count s") (auto simp: receive_slot_allocate_def split: if_splits)

lemma receive_slot_idle:
  assumes "receive_slot self t i st = Some st'"
  shows "fs_idle_time_ms (fst st') = fs_idle_time_ms (fst st)"
proof -
  obtain s out u where st: "st = (s, out, u)" by (cases st) auto
  obtain s1 m where s1: "receive_slot_piece self t i s = Some (s1, m)"
    using assms by (cases "receive_slot_piece self t i s") (auto simp: receive_slot_def st)
  obtain s2 where s2: "receive_slot_allocate i s1 = Some s2"
    using assms s1 by (cases "receive_slot_allocate i s1") (auto simp: receive_slot_def st)
  have "fst st' = s2" using assms s1 s2 by (auto simp: receive_slot_def st)
  then show ?thesis using receive_slot_piece_idle [OF s1] receive_slot_allocate_idle [OF s2] by (simp add: st)
qed

lemma set_state_l2:
  "ft_active s \<Longrightarrow> ft_set_state (l2_ft_ctx pad) s x = s\<lparr>fs_idle_time_ms := 0, fs_state := x\<rparr>"
  by (auto simp: ft_set_state_def ft_active_def l2_ft_ctx_def l2_file_progress_callback_def)

lemma timeout_cases:
  obtains "10000 \<le> (t :: u32)" | "\<not> 10000 \<le> t" "t < 10000"
  by fastforce

lemma initial_step_silent:
  assumes send: "\<exists>m. send (l2_ft_ctx pad) s = Some m" and act: "ft_active s"
    and st: "fs_state s = st" and ok: "ft_ok s" "st \<noteq> FT_STATE_RECEIVING" "st \<noteq> FT_STATE_SENDING"
    and idle: "fs_idle_time_ms s = idle"
  shows "\<exists>s' m. initial_step (l2_ft_ctx pad) s interval send = Some (s', m) \<and>
    (ft_ended s' \<or> fs_state s' = st \<and> ft_ok s' \<and> fs_idle_time_ms s' = idle \<and> idle < 10000)"
proof (cases "idle \<ge> FT_SESSION_INIT_TIMEOUT_MS")
  case True
  then show ?thesis using idle by (simp add: initial_step_def set_state_l2 [OF act] ft_ended_def)
next
  case False
  then have "idle < 10000" by (simp add: FT_SESSION_INIT_TIMEOUT_MS_def word_less_nat_alt word_le_nat_alt)
  moreover obtain m where "send (l2_ft_ctx pad) s = Some m" using send by blast
  moreover have "ft_ok (s\<lparr>fs_message_time_ms := 0\<rparr>)"
    using ok st by (simp add: ft_ok_def split: ft_state.splits)
  ultimately show ?thesis using False idle st ok by (simp add: initial_step_def)
qed

lemma silent_step:
  assumes ok: "ft_ok s" and active: "ft_active s"
  shows "\<exists>s' m. file_transfer_session_step (l2_ft_ctx pad) s 50 = Some (s', m) \<and>
    (ft_ended s' \<or> fs_state s' = fs_state s \<and> ft_ok s' \<and> fs_idle_time_ms s' = fs_idle_time_ms s + 50 \<and>
      fs_idle_time_ms s + 50 < 10000)"
proof -
  let ?s = "s\<lparr>fs_idle_time_ms := fs_idle_time_ms s + 50, fs_message_time_ms := fs_message_time_ms s + 50\<rparr>"
  have act: "ft_active ?s" using active by (simp add: ft_active_def)
  consider "fs_state s = FT_STATE_FILE_METADATA" | "fs_state s = FT_STATE_FILE_REQUEST"
    | "fs_state s = FT_STATE_SENDING" | "fs_state s = FT_STATE_RECEIVING"
    using active by (auto simp: ft_active_def)
  then show ?thesis
  proof cases
    case 1
    then have send: "\<exists>m. send_file_metadata (l2_ft_ctx pad) ?s = Some m"
      using ok by (simp add: ft_ok_def send_file_metadata_def ft_lock_def session_header_def ft_strlen_def mem_read_def)
    have "\<exists>s' m. initial_step (l2_ft_ctx pad) ?s FT_FILE_METADATA_MSG_INTERVAL send_file_metadata = Some (s', m) \<and>
      (ft_ended s' \<or> fs_state s' = fs_state s \<and> ft_ok s' \<and> fs_idle_time_ms s' = fs_idle_time_ms s + 50 \<and>
        fs_idle_time_ms s + 50 < 10000)"
      by (rule initial_step_silent) (use send ok 1 act in \<open>simp_all add: ft_ok_def\<close>)
    then show ?thesis using 1 by (simp add: file_transfer_session_step_def Let_def)
  next
    case 2
    then have send: "\<exists>m. send_file_request (l2_ft_ctx pad) ?s = Some m"
      using ok by (simp add: ft_ok_def send_file_request_def ft_lock_def session_header_def ft_strlen_def mem_read_def)
    have "\<exists>s' m. initial_step (l2_ft_ctx pad) ?s FT_FILE_REQUEST_MSG_INTERVAL send_file_request = Some (s', m) \<and>
      (ft_ended s' \<or> fs_state s' = fs_state s \<and> ft_ok s' \<and> fs_idle_time_ms s' = fs_idle_time_ms s + 50 \<and>
        fs_idle_time_ms s + 50 < 10000)"
      by (rule initial_step_silent) (use send ok 2 act in \<open>simp_all add: ft_ok_def\<close>)
    then show ?thesis using 2 by (simp add: file_transfer_session_step_def Let_def)
  next
    case 3
    then have "tx_inv ?s" using ok by (simp add: ft_ok_def)
    then obtain s' out n u where f: "fold_opt (send_slot (l2_ft_ctx pad) 50) [0..<FT_PIECE_CACHE_COUNT] (?s, [], 0, 0) = Some (s', out, n, u)"
      "tx_inv s'" "tx_same ?s s'" using tx_slots by blast
    have "ft_active s'" "ft_ok s'" using tx_inv_state [OF f(2)] f(2) by (simp_all add: ft_active_def ft_ok_def)
    with f 3 show ?thesis using set_state_l2 [OF act] tx_inv_state [OF f(2)]
      by (cases "u = 0"; cases rule: timeout_cases [of "fs_idle_time_ms s + 50"])
        (simp_all add: file_transfer_session_step_def sending_step_def set_state_l2 tx_same_def Let_def
          ft_ended_def FT_SESSION_RUNNING_TIMEOUT_MS_def del: not_le)
  next
    case 4
    then have "rx_inv UNIV ?s" using ok by (simp add: ft_ok_def)
    then obtain s' out u where f: "fold_opt (receive_slot (l2_ft_ctx pad) 50) [0..<FT_PIECE_CACHE_COUNT] (?s, [], 0) = Some (s', out, u)"
      "rx_inv UNIV s'" using rx_slots by blast
    have "fs_idle_time_ms s' = fs_idle_time_ms ?s"
      using fold_opt_keeps [where g = "\<lambda>st. fs_idle_time_ms (fst st)", OF receive_slot_idle f(1)] by simp
    moreover have "ft_active s'" "ft_ok s'" using rx_inv_state [OF f(2)] f(2) by (simp_all add: ft_active_def ft_ok_def)
    ultimately show ?thesis using set_state_l2 [OF act] f 4 rx_inv_state [OF f(2)]
      by (cases "u = 0"; cases rule: timeout_cases [of "fs_idle_time_ms s + 50"])
        (simp_all add: file_transfer_session_step_def receiving_step_def set_state_l2 Let_def
          ft_ended_def FT_SESSION_RUNNING_TIMEOUT_MS_def del: not_le)
  qed
qed

lemma ft_ok_progress: "ft_ok (s\<lparr>fs_last_progress_ms := x\<rparr>) = ft_ok s"
  by (simp add: ft_ok_def split: ft_state.splits)

lemma silent_round:
  assumes ok: "ft_ok s" and active: "ft_active s"
  shows "\<exists>s' m. ft_session_round (l2_ft_ctx pad) s = Some (s', m) \<and>
    (ft_ended s' \<or> ft_active s' \<and> ft_ok s' \<and> fs_idle_time_ms s' = fs_idle_time_ms s + 50 \<and>
      fs_idle_time_ms s + 50 < 10000)"
proof -
  obtain s1 m where s1: "file_transfer_session_step (l2_ft_ctx pad) s 50 = Some (s1, m)"
    "ft_ended s1 \<or> fs_state s1 = fs_state s \<and> ft_ok s1 \<and> fs_idle_time_ms s1 = fs_idle_time_ms s + 50 \<and>
      fs_idle_time_ms s + 50 < 10000"
    using silent_step [OF assms] by blast
  have ne: "fs_state s \<noteq> FT_STATE_EMPTY" using active by (auto simp: ft_active_def)
  have "ft_ended (update_progress (l2_ft_ctx pad) s1 50)" if "ft_ended s1"
    using that by (auto simp: update_progress_def Let_def ft_ended_def l2_ft_ctx_def l2_file_progress_callback_def
        file_transfer_free_session_def ft_session_zero_def)
  moreover have "ft_active (update_progress (l2_ft_ctx pad) s1 50) \<and>
      ft_ok (update_progress (l2_ft_ctx pad) s1 50) = ft_ok s1 \<and>
      fs_idle_time_ms (update_progress (l2_ft_ctx pad) s1 50) = fs_idle_time_ms s1" if act: "ft_active s1"
  proof -
    have "\<exists>x. update_progress (l2_ft_ctx pad) s1 50 = s1\<lparr>fs_last_progress_ms := x\<rparr>"
      using act by (auto simp: update_progress_def Let_def ft_active_def l2_ft_ctx_def l2_file_progress_callback_def)
    then show ?thesis using act by (auto simp: ft_ok_progress ft_active_def)
  qed
  moreover have "fs_state s1 = fs_state s \<Longrightarrow> ft_active s1" using active by (simp add: ft_active_def)
  ultimately show ?thesis using s1 ne by (auto simp: ft_session_round_def FT_STEP_INTERVAL_MS_def)
qed

lemma ended_round:
  assumes "ft_ended s"
  shows "\<exists>s' m. ft_session_round (l2_ft_ctx pad) s = Some (s', m) \<and> ft_ended s'"
proof (cases "fs_state s = FT_STATE_EMPTY")
  case True
  then show ?thesis by (simp add: ft_session_round_def ft_ended_def)
next
  case False
  then have "rx_state {} (s\<lparr>fs_state := FT_STATE_FAILED\<rparr>)" "fs_state s \<in> {FT_STATE_FINISHED, FT_STATE_FAILED}"
    using assms by (auto simp: rx_state_def ft_ended_def)
  moreover have "ft_ended (update_progress (l2_ft_ctx pad)
      (s\<lparr>fs_idle_time_ms := a, fs_message_time_ms := b\<rparr>) t)" for a b t
    using assms by (auto simp: update_progress_def Let_def ft_ended_def l2_ft_ctx_def l2_file_progress_callback_def
        file_transfer_free_session_def ft_session_zero_def)
  ultimately show ?thesis using False by (simp add: ft_session_round_def rx_ended_step)
qed

lemma ft_run_rounds:
  "ft_run self (replicate (Suc n) Ft_round) s =
     Option.bind (ft_run self (replicate n Ft_round) s) (\<lambda>s'. map_option fst (ft_session_round self s'))"
proof -
  have "replicate (Suc n) Ft_round = replicate n Ft_round @ [Ft_round]"
    by (metis replicate_append_same replicate_Suc)
  moreover have "fold_opt (ft_event_step self) [Ft_round] = (\<lambda>s'. map_option fst (ft_session_round self s'))"
    by (rule ext) (simp add: ft_event_step_def Option.bind_runit)
  ultimately show ?thesis unfolding ft_run_def by (simp only: fold_opt_append)
qed

lemma silent_rounds:
  assumes ok: "ft_ok s" and active: "ft_active s" and idle: "fs_idle_time_ms s \<le> 10000"
  shows "\<exists>s'. ft_run (l2_ft_ctx pad) (replicate n Ft_round) s = Some s' \<and>
    (ft_ended s' \<or> ft_active s' \<and> ft_ok s' \<and> fs_idle_time_ms s' \<le> 10000 \<and>
      50 * n \<le> unat (fs_idle_time_ms s') \<and> (0 < n \<longrightarrow> fs_idle_time_ms s' < 10000))"
proof (induction n)
  case 0
  then show ?case using assms by (simp add: ft_run_def)
next
  case (Suc n)
  then obtain s1 where s1: "ft_run (l2_ft_ctx pad) (replicate n Ft_round) s = Some s1"
    "ft_ended s1 \<or> ft_active s1 \<and> ft_ok s1 \<and> fs_idle_time_ms s1 \<le> 10000 \<and> 50 * n \<le> unat (fs_idle_time_ms s1)"
    by blast
  show ?case
  proof (cases "ft_ended s1")
    case True
    then show ?thesis using ended_round [OF True, of pad] s1(1) by (auto simp: ft_run_rounds simp del: replicate_Suc)
  next
    case False
    then obtain s2 m where s2: "ft_session_round (l2_ft_ctx pad) s1 = Some (s2, m)"
      "ft_ended s2 \<or> ft_active s2 \<and> ft_ok s2 \<and> fs_idle_time_ms s2 = fs_idle_time_ms s1 + 50 \<and>
        fs_idle_time_ms s1 + 50 < 10000"
      using silent_round [of s1 pad] s1(2) by blast
    have "unat (fs_idle_time_ms s1) \<le> 10000" using s1(2) False by (simp add: word_le_nat_alt)
    then have "unat (fs_idle_time_ms s1 + 50) = unat (fs_idle_time_ms s1) + 50" by (simp add: unat_word_ariths)
    then have "50 * Suc n \<le> unat (fs_idle_time_ms s1 + 50)" using s1(2) False by simp
    then show ?thesis using s1(1) s2
      by (auto simp: ft_run_rounds less_imp_le simp del: replicate_Suc)
  qed
qed

text \<open>Property C15. A transfer whose peer falls silent ends: whatever state it is in, a session that waits for
  the answer to its metadata or request, sends or receives has finished, failed or been freed after 200
  rounds (ten seconds) without a message.\<close>

theorem ft_silent_session_ends:
  assumes "ft_ok s" and "ft_active s" and "fs_idle_time_ms s \<le> 10000"
  shows "\<exists>s'. ft_run (l2_ft_ctx pad) (replicate 200 Ft_round) s = Some s' \<and>
    fs_state s' \<in> {FT_STATE_FINISHED, FT_STATE_FAILED, FT_STATE_EMPTY}"
proof -
  obtain s' where "ft_run (l2_ft_ctx pad) (replicate 200 Ft_round) s = Some s'"
    "ft_ended s' \<or> fs_idle_time_ms s' < 10000 \<and> 50 * 200 \<le> unat (fs_idle_time_ms s')"
    using silent_rounds [OF assms, of pad 200] by auto
  then show ?thesis by (auto simp: ft_ended_def word_less_nat_alt)
qed

lemma ft_silent_session_ends_witness:
  "\<exists>s'. ft_run (l2_ft_ctx 0) (replicate 200 Ft_round) example_receiver = Some s' \<and>
    fs_state s' \<in> {FT_STATE_FINISHED, FT_STATE_FAILED, FT_STATE_EMPTY}"
proof -
  have "fresh_receiver example_receiver" "ft_metadata_ok example_receiver" by code_simp+
  then have "rx_inv UNIV example_receiver"
    using fresh_receiver_inv [of example_receiver] by (auto simp: rx_inv_def rx_pieces_def rx_done_def)
  then have "ft_ok example_receiver" by (simp add: ft_ok_def rx_inv_state)
  moreover have "ft_active example_receiver" "fs_idle_time_ms example_receiver \<le> 10000" by code_simp+
  ultimately show ?thesis by (rule ft_silent_session_ends)
qed

subsection \<open>What the code does outside of its intended use\<close>

text \<open>A message with the identifier of no session makes a session of the state \<open>PEER\<close>. When the message
  does not start a transfer, the session stays there: no round of the task ends it.\<close>

lemma peer_session_never_ends:
  assumes "fs_state s = FT_STATE_PEER"
  shows "\<exists>s'. ft_run (l2_ft_ctx pad) (replicate n Ft_round) s = Some s' \<and> fs_state s' = FT_STATE_PEER"
proof (induction n)
  case 0
  then show ?case using assms by (simp add: ft_run_def)
next
  case (Suc n)
  then obtain s1 where s1: "ft_run (l2_ft_ctx pad) (replicate n Ft_round) s = Some s1" "fs_state s1 = FT_STATE_PEER"
    by blast
  have "\<exists>s2 m. ft_session_round (l2_ft_ctx pad) s1 = Some (s2, m) \<and> fs_state s2 = FT_STATE_PEER"
    using s1(2) by (simp add: ft_session_round_def file_transfer_session_step_def update_progress_def Let_def
        l2_ft_ctx_def l2_file_progress_callback_def)
  then show ?case using s1(1) by (auto simp: ft_run_rounds simp del: replicate_Suc)
qed

text \<open>The module has one file transfer session (\<open>file_transfer_init(..., 1)\<close>). While it is in use, a message
  of any node with another session identifier goes through a null pointer.\<close>

lemma second_peer_uses_null:
  "umesh_l2_file_transfer_receive_handler pad
     (self\<lparr>l2ft_session_table := [l2_ft_session_zero], l2ft_file_transfer := [s]\<rparr>) stid (Some (sid, c)) = None"
  if "fs_state s \<noteq> FT_STATE_EMPTY" and "fs_session_id_size s = 2" and "length sid = 1"
  using that by (simp add: umesh_l2_file_transfer_receive_handler_def file_transfer_receive_handler_def
      find_session_by_id_def FT_MAX_SESSION_ID_SIZE_def l2_ft_allocate_session_def l2_ft_session_zero_def
      file_transfer_init_peer_session_def find_last_def)

text \<open>A block index is compared with the announced piece size only, so metadata with pieces of more than 32
  blocks let the peer write behind the bitmap.\<close>

lemma large_piece_leaves_bitmap:
  assumes "fs_state s = FT_STATE_RECEIVING" and "find_piece s piece = Some i"
    and "length (fp_bitmap (fs_pieces s ! i)) = FT_MAX_PIECE_BITMAP_SIZE"
    and "32 \<le> block" and "block < fs_piece_size_blocks s"
  shows "process_block_response self s piece block = None"
proof -
  have "4 \<le> unat block div 8"
    using assms(4) by (simp add: word_le_nat_alt less_eq_div_iff_mult_less_eq)
  then show ?thesis using assms
    by (simp add: process_block_response_def set_block_bit_def mem_get_def FT_MAX_PIECE_BITMAP_SIZE_def not_le)
qed

text \<open>A piece of fewer than eight blocks counts as complete without any of them.\<close>

lemma small_piece_complete: "unat (fs_piece_size_blocks s) < 8 \<Longrightarrow> piece_missing_blocks s p = Some False"
  by (simp add: piece_missing_blocks_def)

end
