(* ===== verification/Slot_Queue.thy ===== *)
theory Slot_Queue
  imports Prelude "HOL-Library.Multiset"
begin

text \<open>
  The slot queue of the radio MAC (\<open>services/radio-mac-simple/radio-scheduler.c\<close>,
  \<open>rmac_slot_queue_*\<close>): an array-based binary heap ordered by the start time of a slot. The
  heap array has \<open>size\<close> entries, of which the first \<open>len\<close> are used. The mutex \<open>lock\<close> makes every
  operation atomic, so an operation is one function on the state; the binary semaphore
  \<open>tx_available\<close> is a flag. A packet of the packet pool is referred to by its index.

  The contract is the locale \<open>priority_queue\<close>: a bag of slots of which the earliest is at the
  front. It is proved for the heap code, and what the scheduler relies on (slots leave the
  queue in the order of time, none is lost or duplicated) is proved once in the locale.
\<close>

datatype rmac_slot_type =
    RMAC_SLOT_TYPE_RX_SEARCH
  | RMAC_SLOT_TYPE_RX_UNMANAGED
  | RMAC_SLOT_TYPE_RX_UNICAST
  | RMAC_SLOT_TYPE_TX_BROADCAST
  | RMAC_SLOT_TYPE_TX_CONTROL
  | RMAC_SLOT_TYPE_TX_UNICAST

datatype rmac_ret =
    RMAC_RET_OK
  | RMAC_RET_NULL
  | RMAC_RET_BAD_ARG
  | RMAC_RET_FAILED
  | RMAC_RET_TIMEOUT
  | RMAC_RET_NOOP
  | RMAC_RET_BAD_STATE

record rmac_slot =
  slot_start_us :: u64
  slot_length_us :: u32
  slot_type :: rmac_slot_type
  slot_peer_id :: u32
  slot_packet :: "nat option"

record rmac_slot_queue =
  q_items :: "rmac_slot list"
  q_size :: nat
  q_len :: nat
  q_tx_available :: bool

text \<open>The zeroed slot of \<open>calloc\<close> and of \<open>struct rmac_slot slot = {0}\<close>.\<close>

definition rmac_slot_zero :: rmac_slot where
  "rmac_slot_zero = \<lparr>slot_start_us = 0, slot_length_us = 0, slot_type = RMAC_SLOT_TYPE_RX_SEARCH,
     slot_peer_id = 0, slot_packet = None\<rparr>"

subsection \<open>Operations\<close>

definition rmac_slot_queue_init :: "nat \<Rightarrow> rmac_slot_queue" where
  "rmac_slot_queue_init items =
     \<lparr>q_items = replicate items rmac_slot_zero, q_size = items, q_len = 0, q_tx_available = False\<rparr>"

definition slot_swap :: "rmac_slot list \<Rightarrow> nat \<Rightarrow> nat \<Rightarrow> rmac_slot list" where
  "slot_swap items i j = (let tmp = items ! i in items[i := items ! j, j := tmp])"

function rmac_slot_queue_siftup :: "rmac_slot list \<Rightarrow> nat \<Rightarrow> rmac_slot list" where
  "rmac_slot_queue_siftup items index =
     (if index = 0 then items
      else let index_parent = (index - 1) div 2 in
        if slot_start_us (items ! index_parent) > slot_start_us (items ! index)
        then rmac_slot_queue_siftup (slot_swap items index index_parent) index_parent
        else items)"
  by pat_completeness auto
termination
  by (relation "measure snd") auto

definition slot_smallest :: "rmac_slot list \<Rightarrow> nat \<Rightarrow> nat \<Rightarrow> nat" where
  "slot_smallest items len index =
     (let index_left = index * 2 + 1;
          index_right = index * 2 + 2;
          index_smallest = index;
          index_smallest =
            (if index_left < len \<and> slot_start_us (items ! index_left) < slot_start_us (items ! index_smallest)
             then index_left else index_smallest)
      in if index_right < len \<and> slot_start_us (items ! index_right) < slot_start_us (items ! index_smallest)
         then index_right else index_smallest)"

lemma slot_smallest_cases:
  "slot_smallest items len index = index \<or>
    slot_smallest items len index = 2 * index + 1 \<and> 2 * index + 1 < len \<or>
    slot_smallest items len index = 2 * index + 2 \<and> 2 * index + 2 < len"
  by (auto simp: slot_smallest_def Let_def)

function rmac_slot_queue_siftdown :: "rmac_slot list \<Rightarrow> nat \<Rightarrow> nat \<Rightarrow> rmac_slot list" where
  "rmac_slot_queue_siftdown items len index =
     (let index_smallest = slot_smallest items len index in
      if index \<noteq> index_smallest
      then rmac_slot_queue_siftdown (slot_swap items index index_smallest) len index_smallest
      else items)"
  by pat_completeness auto
termination
proof (relation "measure (\<lambda>(items, len, index). len - index)", goal_cases)
  case (2 items len index x)
  then show ?case using slot_smallest_cases [of items len index] by auto
qed simp

declare rmac_slot_queue_siftup.simps [simp del] rmac_slot_queue_siftdown.simps [simp del]

text \<open>The argument slot is passed by reference and its packet is cleared in any case.\<close>

definition rmac_slot_queue_insert :: "rmac_slot_queue \<Rightarrow> rmac_slot \<Rightarrow> rmac_ret \<times> rmac_slot_queue \<times> rmac_slot" where
  "rmac_slot_queue_insert self slot =
     (let slot = slot\<lparr>slot_packet := None\<rparr> in
      if q_len self \<ge> q_size self then (RMAC_RET_FAILED, self, slot)
      else
        let self = self\<lparr>q_items := (q_items self)[q_len self := slot]\<rparr>;
            self = self\<lparr>q_len := q_len self + 1\<rparr>;
            self = self\<lparr>q_items := rmac_slot_queue_siftup (q_items self) (q_len self - 1)\<rparr>;
            self = (if slot_type slot = RMAC_SLOT_TYPE_TX_BROADCAST then self\<lparr>q_tx_available := True\<rparr> else self)
        in (RMAC_RET_OK, self, slot))"

definition rmac_slot_queue_peek :: "rmac_slot_queue \<Rightarrow> rmac_ret \<times> rmac_slot option" where
  "rmac_slot_queue_peek self =
     (if q_len self = 0 then (RMAC_RET_FAILED, None) else (RMAC_RET_OK, Some (q_items self ! 0)))"

definition rmac_slot_queue_remove :: "rmac_slot_queue \<Rightarrow> rmac_ret \<times> rmac_slot_queue \<times> rmac_slot option" where
  "rmac_slot_queue_remove self =
     (if q_len self = 0 then (RMAC_RET_FAILED, self, None)
      else
        let slot = q_items self ! 0;
            self =
              (if q_len self > 1 then
                 let self = self\<lparr>q_items := (q_items self)[0 := q_items self ! (q_len self - 1)]\<rparr>;
                     self = self\<lparr>q_len := q_len self - 1\<rparr>
                 in self\<lparr>q_items := rmac_slot_queue_siftdown (q_items self) (q_len self) 0\<rparr>
               else self\<lparr>q_len := q_len self - 1\<rparr>)
        in (RMAC_RET_OK, self, Some slot))"

definition rmac_slot_queue_is_available :: "rmac_slot_queue \<Rightarrow> rmac_slot_type \<Rightarrow> bool" where
  "rmac_slot_queue_is_available self type =
     (find_index (\<lambda>s. slot_type s = type) (take (q_len self) (q_items self)) \<noteq> None)"

definition rmac_slot_queue_attach_packet ::
  "rmac_slot_queue \<Rightarrow> rmac_slot_type \<Rightarrow> nat \<Rightarrow> rmac_ret \<times> rmac_slot_queue \<times> rmac_slot option" where
  "rmac_slot_queue_attach_packet self type packet =
     (case find_index (\<lambda>s. slot_packet s = None \<and> slot_type s = type) (take (q_len self) (q_items self)) of
        Some i \<Rightarrow>
          let slot = (q_items self ! i)\<lparr>slot_packet := Some packet\<rparr>
          in (RMAC_RET_OK, self\<lparr>q_items := (q_items self)[i := slot]\<rparr>, Some slot)
      | None \<Rightarrow> (RMAC_RET_FAILED, self, None))"

subsection \<open>Heap order\<close>

abbreviation start_at :: "rmac_slot list \<Rightarrow> nat \<Rightarrow> u64" where
  "start_at items i \<equiv> slot_start_us (items ! i)"

abbreviation parent :: "nat \<Rightarrow> nat" where
  "parent i \<equiv> (i - 1) div 2"

definition slot_heap :: "rmac_slot list \<Rightarrow> nat \<Rightarrow> bool" where
  "slot_heap items len \<longleftrightarrow> (\<forall>i. 0 < i \<and> i < len \<longrightarrow> start_at items (parent i) \<le> start_at items i)"

text \<open>The heap order holds but between \<open>index\<close> and its parent; the children of \<open>index\<close> are in
  order with that parent.\<close>

definition heap_but_up :: "rmac_slot list \<Rightarrow> nat \<Rightarrow> nat \<Rightarrow> bool" where
  "heap_but_up items len index \<longleftrightarrow>
     (\<forall>i. 0 < i \<and> i < len \<and> i \<noteq> index \<longrightarrow> start_at items (parent i) \<le> start_at items i) \<and>
     (\<forall>i. 0 < i \<and> i < len \<and> parent i = index \<and> 0 < index \<longrightarrow>
        start_at items (parent index) \<le> start_at items i)"

text \<open>The heap order holds but between \<open>index\<close> and its children, which are in order with the
  parent of \<open>index\<close>.\<close>

definition heap_but_down :: "rmac_slot list \<Rightarrow> nat \<Rightarrow> nat \<Rightarrow> bool" where
  "heap_but_down items len index \<longleftrightarrow>
     (\<forall>i. 0 < i \<and> i < len \<and> parent i \<noteq> index \<longrightarrow> start_at items (parent i) \<le> start_at items i) \<and>
     (\<forall>i. 0 < i \<and> i < len \<and> parent i = index \<and> 0 < index \<longrightarrow>
        start_at items (parent index) \<le> start_at items i)"

definition rmac_slot_queue_inv :: "rmac_slot_queue \<Rightarrow> bool" where
  "rmac_slot_queue_inv self \<longleftrightarrow>
     length (q_items self) = q_size self \<and> q_len self \<le> q_size self \<and>
     slot_heap (q_items self) (q_len self)"

definition rmac_slot_queue_bag :: "rmac_slot_queue \<Rightarrow> rmac_slot multiset" where
  "rmac_slot_queue_bag self = mset (take (q_len self) (q_items self))"

lemma length_slot_swap [simp]: "length (slot_swap items i j) = length items"
  by (simp add: slot_swap_def Let_def)

lemma slot_swap_nth:
  "i < length items \<Longrightarrow> j < length items \<Longrightarrow>
    slot_swap items i j ! k = (if k = j then items ! i else if k = i then items ! j else items ! k)"
  by (cases "k < length items") (auto simp: slot_swap_def Let_def nth_list_update)

lemma mset_slot_swap:
  assumes "i < len" "j < len" "len \<le> length items"
  shows "mset (take len (slot_swap items i j)) = mset (take len items)"
proof -
  have "take len (slot_swap items i j) = (take len items)[i := take len items ! j, j := take len items ! i]"
    using assms by (simp add: slot_swap_def Let_def take_update_swap)
  then show ?thesis using assms mset_swap [of j "take len items" i] by (simp add: list_update_swap)
qed

lemma slot_heap_first:
  assumes "slot_heap items len" "i < len"
  shows "start_at items 0 \<le> start_at items i"
  using assms(2)
proof (induction i rule: less_induct)
  case (less i)
  show ?case
  proof (cases "i = 0")
    case False
    then have "start_at items (parent i) \<le> start_at items i"
      using assms(1) less.prems by (simp add: slot_heap_def)
    moreover have "start_at items 0 \<le> start_at items (parent i)"
      using False less by (intro less.IH) auto
    ultimately show ?thesis by (rule order.trans [rotated])
  qed simp
qed

subsection \<open>Sifting restores the heap order and keeps the slots\<close>

lemma siftup_heap:
  assumes "heap_but_up items len index" "index < len" "len \<le> length items"
  shows "slot_heap (rmac_slot_queue_siftup items index) len"
  using assms
proof (induction items index rule: rmac_slot_queue_siftup.induct)
  case (1 items index)
  show ?case
  proof (cases "index \<noteq> 0 \<and> start_at items (parent index) > start_at items index")
    case True
    define p where "p = parent index"
    let ?items = "slot_swap items index p"
    have less: "start_at items index < start_at items p" and "index \<noteq> 0"
      using True by (simp_all add: p_def)
    have bounds: "index < length items" "p < length items" "p < len" "p \<noteq> index"
      using \<open>index \<noteq> 0\<close> 1(3,4) by (auto simp: p_def)
    note swap = slot_swap_nth [OF bounds(1,2)]
    have up: "start_at items (parent i) \<le> start_at items i" if "0 < i" "i < len" "i \<noteq> index" for i
      using 1(2) that by (simp add: heap_but_up_def)
    have child: "start_at items p \<le> start_at items i" if "0 < i" "i < len" "parent i = index" for i
      using 1(2) that \<open>index \<noteq> 0\<close> by (simp add: heap_but_up_def p_def)
    have "heap_but_up ?items len p"
      unfolding heap_but_up_def
    proof (intro conjI allI impI; elim conjE)
      fix i assume i: "0 < i" "i < len" "i \<noteq> p"
      show "start_at ?items (parent i) \<le> start_at ?items i"
      proof (cases "i = index")
        case outer: False
        have "start_at ?items i = start_at items i" using i outer by (simp add: swap)
        moreover have "start_at ?items (parent i) \<le> start_at items i"
        proof (cases "parent i = index \<or> parent i = p")
          case True
          with up [of i] child [of i] i outer less bounds show ?thesis
            by (auto simp: swap simp del: One_nat_def)
        qed (use up [of i] i outer in \<open>simp add: swap\<close>)
        ultimately show ?thesis by simp
      qed (use less bounds p_def [symmetric] in \<open>simp add: swap\<close>)
    next
      fix i assume i: "0 < i" "i < len" "parent i = p" "0 < p"
      define pp where "pp = parent p"
      have pp: "pp \<noteq> p" "pp \<noteq> index" using i(4) by (auto simp: pp_def p_def)
      have le: "start_at items pp \<le> start_at items p"
        using i(4) bounds up [of p] by (simp add: pp_def)
      moreover have "i \<noteq> index \<Longrightarrow> start_at items p \<le> start_at items i" using up [of i] i by simp
      moreover have "i \<noteq> p" using i(1,3) by auto
      ultimately show "start_at ?items (parent p) \<le> start_at ?items i"
        using pp unfolding pp_def [symmetric] by (cases "i = index") (auto simp: swap)
    qed
    then have "slot_heap (rmac_slot_queue_siftup ?items p) len"
      using True bounds 1(4) unfolding p_def by (intro 1(1)) (auto simp: Let_def)
    then show ?thesis using True by (subst rmac_slot_queue_siftup.simps) (simp add: Let_def p_def)
  next
    case False
    have "slot_heap items len"
      unfolding slot_heap_def
    proof (intro allI impI)
      fix i assume "0 < i \<and> i < len"
      then show "start_at items (parent i) \<le> start_at items i"
        using 1(2) False by (cases "i = index") (auto simp: heap_but_up_def not_less)
    qed
    then show ?thesis using False by (subst rmac_slot_queue_siftup.simps) (auto simp: Let_def)
  qed
qed

lemma siftup_mset:
  assumes "index < len" "len \<le> length items"
  shows "mset (take len (rmac_slot_queue_siftup items index)) = mset (take len items)"
    "length (rmac_slot_queue_siftup items index) = length items"
proof -
  have "mset (take len (rmac_slot_queue_siftup items index)) = mset (take len items) \<and>
    length (rmac_slot_queue_siftup items index) = length items"
    using assms
  proof (induction items index rule: rmac_slot_queue_siftup.induct)
    case (1 items index)
    then show ?case
      by (subst (1 2) rmac_slot_queue_siftup.simps) (auto simp: Let_def mset_slot_swap)
  qed
  then show "mset (take len (rmac_slot_queue_siftup items index)) = mset (take len items)"
    "length (rmac_slot_queue_siftup items index) = length items" by simp_all
qed

lemma parent_iff: "0 < i \<Longrightarrow> parent i = k \<longleftrightarrow> i = 2 * k + 1 \<or> i = 2 * k + 2"
  by auto

lemma slot_smallest_le:
  "start_at items (slot_smallest items len index) \<le> start_at items index"
  "2 * index + 1 < len \<Longrightarrow> start_at items (slot_smallest items len index) \<le> start_at items (2 * index + 1)"
  "2 * index + 2 < len \<Longrightarrow> start_at items (slot_smallest items len index) \<le> start_at items (2 * index + 2)"
  by (auto simp: slot_smallest_def Let_def mult.commute)

lemma siftdown_heap:
  assumes "heap_but_down items len index" "index < len" "len \<le> length items"
  shows "slot_heap (rmac_slot_queue_siftdown items len index) len"
  using assms
proof (induction items len index rule: rmac_slot_queue_siftdown.induct)
  case (1 items len index)
  define s where "s = slot_smallest items len index"
  have le_child: "start_at items s \<le> start_at items i" if "0 < i" "i < len" "parent i = index" for i
    using that slot_smallest_le [where items = items and len = len and index = index] parent_iff [of i index] by (auto simp: s_def)
  have other: "start_at items (parent i) \<le> start_at items i" if "0 < i" "i < len" "parent i \<noteq> index" for i
    using 1(2) that by (auto simp: heap_but_down_def)
  have above: "start_at items (parent index) \<le> start_at items i"
    if "0 < i" "i < len" "parent i = index" "0 < index" for i
    using 1(2) that by (auto simp: heap_but_down_def)
  show ?case
  proof (cases "index = s")
    case True
    have "slot_heap items len"
      unfolding slot_heap_def
    proof (intro allI impI)
      fix i assume "0 < i \<and> i < len"
      then show "start_at items (parent i) \<le> start_at items i"
        using other le_child True by (cases "parent i = index") auto
    qed
    with True show ?thesis by (subst rmac_slot_queue_siftdown.simps) (simp add: Let_def s_def)
  next
    case False
    let ?items = "slot_swap items index s"
    have s: "0 < s" "s < len" "parent s = index" "index < s"
      using slot_smallest_cases [of items len index] False by (auto simp: s_def)
    have bounds: "index < length items" "s < length items" using s 1(3,4) by auto
    have "heap_but_down ?items len s"
      unfolding heap_but_down_def
    proof (intro conjI allI impI; elim conjE)
      fix i assume i: "0 < i" "i < len" "parent i \<noteq> s"
      show "start_at ?items (parent i) \<le> start_at ?items i"
      proof (cases "parent i = index")
        case True
        then show ?thesis
          using i s bounds le_child [of i] slot_smallest_le(1) [where items = items and len = len and index = index]
          by (auto simp: slot_swap_nth s_def)
      next
        case outer: False
        then have "i \<noteq> s" using s by auto
        then show ?thesis
          using i outer s bounds other [of i] above [of s] by (auto simp: slot_swap_nth)
      qed
    next
      fix i assume i: "0 < i" "i < len" "parent i = s" "0 < s"
      then have "i \<noteq> s" "i \<noteq> index" using s by auto
      then show "start_at ?items (parent s) \<le> start_at ?items i"
        using i s bounds other [of i] by (auto simp: slot_swap_nth)
    qed
    then have "slot_heap (rmac_slot_queue_siftdown ?items len s) len"
      using False s 1(4) unfolding s_def by (intro 1(1)) auto
    then show ?thesis using False by (subst rmac_slot_queue_siftdown.simps) (simp add: Let_def s_def)
  qed
qed

lemma siftdown_mset:
  assumes "index < len" "len \<le> length items"
  shows "mset (take len (rmac_slot_queue_siftdown items len index)) = mset (take len items)"
    "length (rmac_slot_queue_siftdown items len index) = length items"
proof -
  have "mset (take len (rmac_slot_queue_siftdown items len index)) = mset (take len items) \<and>
    length (rmac_slot_queue_siftdown items len index) = length items"
    using assms
  proof (induction items len index rule: rmac_slot_queue_siftdown.induct)
    case (1 items len index)
    then show ?case
      using slot_smallest_cases [of items len index]
      by (subst (1 2) rmac_slot_queue_siftdown.simps) (auto simp: Let_def mset_slot_swap)
  qed
  then show "mset (take len (rmac_slot_queue_siftdown items len index)) = mset (take len items)"
    "length (rmac_slot_queue_siftdown items len index) = length items" by simp_all
qed

subsection \<open>The contract of a priority queue\<close>

text \<open>Taking the first element up to \<open>n\<close> times.\<close>

fun drain :: "('q \<Rightarrow> ('a \<times> 'q) option) \<Rightarrow> nat \<Rightarrow> 'q \<Rightarrow> 'a list" where
  "drain take_first 0 q = []"
| "drain take_first (Suc n) q =
     (case take_first q of None \<Rightarrow> [] | Some (x, q) \<Rightarrow> x # drain take_first n q)"

locale priority_queue =
  fixes inv :: "'q \<Rightarrow> bool" and bag :: "'q \<Rightarrow> 'a multiset" and key :: "'a \<Rightarrow> 'k::linorder"
    and has_room :: "'q \<Rightarrow> bool" and stored :: "'a \<Rightarrow> 'a"
    and ins :: "'q \<Rightarrow> 'a \<Rightarrow> 'q" and first :: "'q \<Rightarrow> 'a option" and take_first :: "'q \<Rightarrow> ('a \<times> 'q) option"
  assumes ins_inv: "inv q \<Longrightarrow> inv (ins q x)"
    and ins_bag: "inv q \<Longrightarrow> bag (ins q x) = (if has_room q then add_mset (stored x) (bag q) else bag q)"
    and take_first_empty: "inv q \<Longrightarrow> take_first q = None \<longleftrightarrow> bag q = {#}"
    and take_first_first: "inv q \<Longrightarrow> map_option fst (take_first q) = first q"
    and take_first_inv: "inv q \<Longrightarrow> take_first q = Some (x, q') \<Longrightarrow> inv q'"
    and take_first_bag: "inv q \<Longrightarrow> take_first q = Some (x, q') \<Longrightarrow> bag q = add_mset x (bag q')"
    and take_first_min: "inv q \<Longrightarrow> take_first q = Some (x, q') \<Longrightarrow> y \<in># bag q \<Longrightarrow> key x \<le> key y"
begin

lemma first_is_min:
  assumes "inv q" "first q = Some x" "y \<in># bag q"
  shows "key x \<le> key y"
  using assms take_first_first [of q] take_first_min [of q x] by auto

lemma drain_subset: "inv q \<Longrightarrow> set (drain take_first n q) \<subseteq> set_mset (bag q)"
proof (induction n arbitrary: q)
  case (Suc n)
  show ?case
  proof (cases "take_first q")
    case (Some p)
    obtain x q' where p: "take_first q = Some (x, q')" using Some by (cases p) auto
    then show ?thesis
      using Suc.IH [OF take_first_inv [OF Suc.prems p]] take_first_bag [OF Suc.prems p] by auto
  qed simp
qed simp

lemma drain_sorted: "inv q \<Longrightarrow> sorted (map key (drain take_first n q))"
proof (induction n arbitrary: q)
  case (Suc n)
  show ?case
  proof (cases "take_first q")
    case (Some p)
    obtain x q' where p: "take_first q = Some (x, q')" using Some by (cases p) auto
    note inv' = take_first_inv [OF Suc.prems p]
    have "key x \<le> key y" if "y \<in> set (drain take_first n q')" for y
      using that drain_subset [OF inv'] take_first_bag [OF Suc.prems p]
        take_first_min [OF Suc.prems p, of y] by auto
    with Suc.IH [OF inv'] show ?thesis by (simp add: p)
  qed simp
qed simp

lemma drain_all: "inv q \<Longrightarrow> size (bag q) \<le> n \<Longrightarrow> mset (drain take_first n q) = bag q"
proof (induction n arbitrary: q)
  case (Suc n)
  show ?case
  proof (cases "take_first q")
    case None
    then show ?thesis using Suc.prems(1) take_first_empty [of q] by simp
  next
    case (Some p)
    obtain x q' where p: "take_first q = Some (x, q')" using Some by (cases p) auto
    have bag: "bag q = add_mset x (bag q')" by (rule take_first_bag [OF Suc.prems(1) p])
    then have "size (bag q') \<le> n" using Suc.prems(2) by simp
    then show ?thesis using Suc.IH [OF take_first_inv [OF Suc.prems(1) p]] by (simp add: p bag)
  qed
qed simp

end

text \<open>The heap code as such a queue.\<close>

definition slot_queue_has_room :: "rmac_slot_queue \<Rightarrow> bool" where
  "slot_queue_has_room q = (q_len q < q_size q)"

definition slot_queue_stored :: "rmac_slot \<Rightarrow> rmac_slot" where
  "slot_queue_stored s = s\<lparr>slot_packet := None\<rparr>"

definition slot_queue_insert :: "rmac_slot_queue \<Rightarrow> rmac_slot \<Rightarrow> rmac_slot_queue" where
  "slot_queue_insert q s = fst (snd (rmac_slot_queue_insert q s))"

definition slot_queue_first :: "rmac_slot_queue \<Rightarrow> rmac_slot option" where
  "slot_queue_first q = snd (rmac_slot_queue_peek q)"

definition slot_queue_take :: "rmac_slot_queue \<Rightarrow> (rmac_slot \<times> rmac_slot_queue) option" where
  "slot_queue_take q = (case rmac_slot_queue_remove q of (r, q, s) \<Rightarrow> map_option (\<lambda>s. (s, q)) s)"

lemma slot_queue_insert_room:
  assumes "rmac_slot_queue_inv q" "slot_queue_has_room q"
  shows "rmac_slot_queue_inv (slot_queue_insert q s)"
    "rmac_slot_queue_bag (slot_queue_insert q s) = add_mset (slot_queue_stored s) (rmac_slot_queue_bag q)"
proof -
  let ?s = "slot_queue_stored s" and ?n = "q_len q"
  let ?items = "(q_items q)[?n := ?s]"
  let ?up = "rmac_slot_queue_siftup ?items ?n"
  have n: "?n < length (q_items q)" and heap: "slot_heap (q_items q) ?n"
    using assms by (auto simp: rmac_slot_queue_inv_def slot_queue_has_room_def)
  have "heap_but_up ?items (Suc ?n) ?n"
    using heap n by (auto simp: heap_but_up_def slot_heap_def nth_list_update less_Suc_eq)
  then have up: "slot_heap ?up (Suc ?n)" using n by (intro siftup_heap) auto
  have bag: "mset (take (Suc ?n) ?up) = add_mset ?s (mset (take ?n (q_items q)))"
    using n siftup_mset(1) [of ?n "Suc ?n" ?items]
    by (simp add: take_Suc_conv_app_nth take_update_cancel)
  have len: "length ?up = length (q_items q)"
    using n siftup_mset(2) [of ?n "Suc ?n" ?items] by simp
  have q': "q_items (slot_queue_insert q s) = ?up" "q_len (slot_queue_insert q s) = Suc ?n"
    "q_size (slot_queue_insert q s) = q_size q"
    using assms(2)
    by (simp_all add: slot_queue_insert_def rmac_slot_queue_insert_def slot_queue_stored_def Let_def
        slot_queue_has_room_def)
  show "rmac_slot_queue_inv (slot_queue_insert q s)"
    using up len n assms by (auto simp: rmac_slot_queue_inv_def q')
  show "rmac_slot_queue_bag (slot_queue_insert q s) = add_mset ?s (rmac_slot_queue_bag q)"
    by (simp add: rmac_slot_queue_bag_def q' bag)
qed

lemma slot_queue_insert_full: "\<not> slot_queue_has_room q \<Longrightarrow> slot_queue_insert q s = q"
  by (simp add: slot_queue_insert_def rmac_slot_queue_insert_def slot_queue_has_room_def Let_def)

lemma slot_queue_take_empty: "rmac_slot_queue_inv q \<Longrightarrow> slot_queue_take q = None \<longleftrightarrow> rmac_slot_queue_bag q = {#}"
  by (auto simp: slot_queue_take_def rmac_slot_queue_remove_def rmac_slot_queue_bag_def Let_def
      rmac_slot_queue_inv_def)

lemma slot_queue_take_Some:
  assumes "rmac_slot_queue_inv q" "slot_queue_take q = Some (x, q')"
  shows "rmac_slot_queue_inv q'" "rmac_slot_queue_bag q = add_mset x (rmac_slot_queue_bag q')"
    "x = q_items q ! 0" "0 < q_len q"
proof -
  let ?n = "q_len q" and ?items = "q_items q"
  have n: "0 < ?n" and x: "x = ?items ! 0"
    using assms(2) by (auto simp: slot_queue_take_def rmac_slot_queue_remove_def Let_def split: if_splits)
  have len: "length ?items = q_size q" "?n \<le> length ?items" and heap: "slot_heap ?items ?n"
    using assms(1) by (auto simp: rmac_slot_queue_inv_def)
  have "rmac_slot_queue_inv q' \<and> rmac_slot_queue_bag q = add_mset x (rmac_slot_queue_bag q')"
  proof (cases "?n = 1")
    case True
    then have "q' = q\<lparr>q_len := 0\<rparr>"
      using assms(2) by (auto simp: slot_queue_take_def rmac_slot_queue_remove_def Let_def)
    then show ?thesis
      using True len x by (cases ?items) (auto simp: rmac_slot_queue_inv_def rmac_slot_queue_bag_def slot_heap_def)
  next
    case False
    define m where "m = ?n - 1"
    let ?moved = "?items[0 := ?items ! m]"
    let ?down = "rmac_slot_queue_siftdown ?moved m 0"
    have m: "0 < m" "?n = Suc m" "m < length ?items" using False n len by (auto simp: m_def)
    have q': "q_items q' = ?down" "q_len q' = m" "q_size q' = q_size q"
      using assms(2) m(1,2)
      by (auto simp: slot_queue_take_def rmac_slot_queue_remove_def Let_def)
    have "start_at ?moved (parent i) \<le> start_at ?moved i" if "0 < i" "i < m" "parent i \<noteq> 0" for i
      using heap that m(2) by (simp add: slot_heap_def)
    then have "heap_but_down ?moved m 0" by (simp add: heap_but_down_def)
    then have "slot_heap ?down m" using m by (intro siftdown_heap) auto
    moreover have bag: "mset (take m ?down) = mset (take m ?moved)" and "length ?down = length ?items"
      using m siftdown_mset [of 0 m ?moved] by auto
    moreover have "mset (take (Suc m) ?items) = add_mset (?items ! 0) (mset (take m ?moved))"
    proof -
      obtain y ys where ys: "?items = y # ys" using m by (cases ?items) auto
      then show ?thesis using m by (cases m) (auto simp: take_Suc_conv_app_nth)
    qed
    ultimately show ?thesis
      using m len by (simp add: rmac_slot_queue_inv_def rmac_slot_queue_bag_def q' x)
  qed
  then show "rmac_slot_queue_inv q'" "rmac_slot_queue_bag q = add_mset x (rmac_slot_queue_bag q')"
    "x = q_items q ! 0" "0 < q_len q" using x n by auto
qed

lemma slot_queue_front_min:
  assumes "rmac_slot_queue_inv q" "y \<in># rmac_slot_queue_bag q"
  shows "slot_start_us (q_items q ! 0) \<le> slot_start_us y"
  using assms slot_heap_first [of "q_items q" "q_len q"]
  by (auto simp: rmac_slot_queue_bag_def rmac_slot_queue_inv_def in_set_conv_nth)

interpretation slot_queue: priority_queue rmac_slot_queue_inv rmac_slot_queue_bag slot_start_us
  slot_queue_has_room slot_queue_stored slot_queue_insert slot_queue_first slot_queue_take
proof unfold_locales
  fix q :: rmac_slot_queue and s x y :: rmac_slot and q'
  assume inv: "rmac_slot_queue_inv q"
  show "rmac_slot_queue_inv (slot_queue_insert q s)"
    using inv slot_queue_insert_room(1) [of q s] slot_queue_insert_full [of q s]
    by (cases "slot_queue_has_room q") auto
  show "rmac_slot_queue_bag (slot_queue_insert q s) =
      (if slot_queue_has_room q then add_mset (slot_queue_stored s) (rmac_slot_queue_bag q)
       else rmac_slot_queue_bag q)"
    using inv slot_queue_insert_room(2) [of q s] slot_queue_insert_full [of q s] by auto
  show "slot_queue_take q = None \<longleftrightarrow> rmac_slot_queue_bag q = {#}"
    using inv by (rule slot_queue_take_empty)
  show "map_option fst (slot_queue_take q) = slot_queue_first q"
    by (auto simp: slot_queue_take_def slot_queue_first_def rmac_slot_queue_remove_def
        rmac_slot_queue_peek_def Let_def)
  assume t: "slot_queue_take q = Some (x, q')"
  show "rmac_slot_queue_inv q'" "rmac_slot_queue_bag q = add_mset x (rmac_slot_queue_bag q')"
    using slot_queue_take_Some [OF inv t] by auto
  assume "y \<in># rmac_slot_queue_bag q"
  then show "slot_start_us x \<le> slot_start_us y"
    using slot_queue_take_Some [OF inv t] slot_queue_front_min [OF inv] by auto
qed

subsection \<open>Attaching a packet\<close>

lemma slot_heap_packet:
  "slot_heap (items[i := (items ! i)\<lparr>slot_packet := p\<rparr>]) len = slot_heap items len"
proof -
  have "start_at (items[i := (items ! i)\<lparr>slot_packet := p\<rparr>]) k = start_at items k" for k
    by (cases "i < length items") (auto simp: nth_list_update list_update_beyond)
  then show ?thesis by (simp add: slot_heap_def)
qed

lemma slot_queue_attach_OK:
  assumes "rmac_slot_queue_attach_packet q type p = (RMAC_RET_OK, q', slot)"
  obtains i where "i < q_len q" "i < length (q_items q)" "slot_packet (q_items q ! i) = None"
    "slot_type (q_items q ! i) = type" "q' = q\<lparr>q_items := (q_items q)[i := (q_items q ! i)\<lparr>slot_packet := Some p\<rparr>]\<rparr>"
    "slot = Some ((q_items q ! i)\<lparr>slot_packet := Some p\<rparr>)"
  using assms
  by (auto simp: rmac_slot_queue_attach_packet_def Let_def find_index_Some split: option.splits)

lemma slot_queue_attach_inv:
  assumes "rmac_slot_queue_inv q"
  shows "rmac_slot_queue_inv (fst (snd (rmac_slot_queue_attach_packet q type p)))"
  using assms
  by (auto simp: rmac_slot_queue_attach_packet_def rmac_slot_queue_inv_def slot_heap_packet Let_def
      split: option.splits)

lemma mset_take_update:
  "i < n \<Longrightarrow> n \<le> length xs \<Longrightarrow> mset (take n (xs[i := y])) = add_mset y (mset (take n xs) - {#xs ! i#})"
  using mset_update [of i "take n xs" y] by (simp add: take_update_swap)

subsection \<open>Every sequence of operations\<close>

datatype slot_queue_op =
    Slot_Insert rmac_slot
  | Slot_Remove
  | Slot_Attach rmac_slot_type nat

fun slot_queue_exec :: "rmac_slot_queue \<Rightarrow> slot_queue_op \<Rightarrow> rmac_slot_queue" where
  "slot_queue_exec q (Slot_Insert s) = fst (snd (rmac_slot_queue_insert q s))"
| "slot_queue_exec q Slot_Remove = fst (snd (rmac_slot_queue_remove q))"
| "slot_queue_exec q (Slot_Attach t p) = fst (snd (rmac_slot_queue_attach_packet q t p))"

lemma slot_queue_remove_inv:
  assumes "rmac_slot_queue_inv q"
  shows "rmac_slot_queue_inv (fst (snd (rmac_slot_queue_remove q)))"
proof (cases "slot_queue_take q")
  case None
  then have "q_len q = 0"
    by (auto simp: slot_queue_take_def rmac_slot_queue_remove_def Let_def split: if_splits)
  with assms show ?thesis by (simp add: rmac_slot_queue_remove_def)
next
  case (Some p)
  then have "snd p = fst (snd (rmac_slot_queue_remove q))"
    by (auto simp: slot_queue_take_def split: prod.splits)
  with Some slot_queue.take_first_inv [OF assms, of "fst p" "snd p"] show ?thesis by (metis prod.collapse)
qed

lemma slot_queue_exec_inv: "rmac_slot_queue_inv q \<Longrightarrow> rmac_slot_queue_inv (slot_queue_exec q op)"
  using slot_queue.ins_inv
  by (cases op) (auto simp: slot_queue_remove_inv slot_queue_attach_inv slot_queue_insert_def)

lemma slot_queue_init_inv: "rmac_slot_queue_inv (rmac_slot_queue_init n)"
  by (simp add: rmac_slot_queue_inv_def rmac_slot_queue_init_def slot_heap_def)

lemma slot_queue_exec_all_inv:
  "rmac_slot_queue_inv (foldl slot_queue_exec (rmac_slot_queue_init n) ops)"
  by (induction ops rule: rev_induct) (simp_all add: slot_queue_init_inv slot_queue_exec_inv)

lemma slot_queue_bag_size: "rmac_slot_queue_inv q \<Longrightarrow> size (rmac_slot_queue_bag q) = q_len q"
  by (simp add: rmac_slot_queue_inv_def rmac_slot_queue_bag_def)

subsection \<open>Properties\<close>

text \<open>Property C13. Whatever slots are inserted, removed and given packets, and in whatever order,
  removing the slots of the queue one after another gives them in the order of their start
  times, and gives each of them exactly once.\<close>

theorem slot_queue_time_order:
  "let q = foldl slot_queue_exec (rmac_slot_queue_init n) ops;
       slots = drain slot_queue_take (q_len q) q
   in sorted (map slot_start_us slots) \<and> mset slots = rmac_slot_queue_bag q"
  using slot_queue_exec_all_inv [of n ops]
  by (simp add: Let_def slot_queue.drain_sorted slot_queue.drain_all slot_queue_bag_size)

text \<open>Inserting fails exactly when the queue is full, and then changes nothing; otherwise
  the slot, with its packet cleared, is added to the scheduled slots and to nothing else. The
  heap invariant is kept either way.\<close>

theorem slot_queue_insert_spec:
  assumes "rmac_slot_queue_inv q"
  shows "case rmac_slot_queue_insert q s of (r, q', s') \<Rightarrow>
    rmac_slot_queue_inv q' \<and> s' = s\<lparr>slot_packet := None\<rparr> \<and>
    (if q_len q < q_size q
     then r = RMAC_RET_OK \<and> rmac_slot_queue_bag q' = add_mset s' (rmac_slot_queue_bag q)
     else r = RMAC_RET_FAILED \<and> q' = q)"
proof -
  have "rmac_slot_queue_inv (slot_queue_insert q s)" by (rule slot_queue.ins_inv [OF assms])
  moreover note slot_queue.ins_bag [OF assms, of s] slot_queue_insert_full [of q s]
  moreover have "fst (rmac_slot_queue_insert q s) = (if q_len q < q_size q then RMAC_RET_OK else RMAC_RET_FAILED)"
    "snd (snd (rmac_slot_queue_insert q s)) = s\<lparr>slot_packet := None\<rparr>"
    by (simp_all add: rmac_slot_queue_insert_def Let_def)
  ultimately show ?thesis
    by (auto simp: slot_queue_insert_def slot_queue_stored_def slot_queue_has_room_def split: prod.splits)
qed

definition slot_example :: "u64 \<Rightarrow> rmac_slot" where
  "slot_example t = rmac_slot_zero\<lparr>slot_start_us := t, slot_type := RMAC_SLOT_TYPE_TX_BROADCAST\<rparr>"

definition slot_queue_example :: rmac_slot_queue where
  "slot_queue_example = foldl slot_queue_exec (rmac_slot_queue_init 3)
     [Slot_Insert (slot_example 7), Slot_Insert (slot_example 5)]"

lemma slot_queue_insert_spec_witness:
  "q_len slot_queue_example = 2 \<and>
   (case rmac_slot_queue_insert slot_queue_example (slot_example 6) of (r, q', s') \<Rightarrow>
     rmac_slot_queue_inv q' \<and> s' = slot_example 6 \<and>
     (if q_len slot_queue_example < q_size slot_queue_example
      then r = RMAC_RET_OK \<and> rmac_slot_queue_bag q' = add_mset s' (rmac_slot_queue_bag slot_queue_example)
      else r = RMAC_RET_FAILED \<and> q' = slot_queue_example))"
proof
  have inv: "rmac_slot_queue_inv slot_queue_example"
    unfolding slot_queue_example_def by (rule slot_queue_exec_all_inv)
  have "(slot_example 6)\<lparr>slot_packet := None\<rparr> = slot_example 6"
    by (simp add: slot_example_def rmac_slot_zero_def)
  then show "case rmac_slot_queue_insert slot_queue_example (slot_example 6) of (r, q', s') \<Rightarrow>
     rmac_slot_queue_inv q' \<and> s' = slot_example 6 \<and>
     (if q_len slot_queue_example < q_size slot_queue_example
      then r = RMAC_RET_OK \<and> rmac_slot_queue_bag q' = add_mset s' (rmac_slot_queue_bag slot_queue_example)
      else r = RMAC_RET_FAILED \<and> q' = slot_queue_example)"
    using slot_queue_insert_spec [OF inv, of "slot_example 6"] by simp
qed (code_simp)

text \<open>Attaching a packet succeeds exactly when a scheduled slot of the type has no packet;
  it then gives the packet to one such slot, which is the slot handed to the caller, leaves every
  other slot alone and keeps the heap invariant. Otherwise the queue is unchanged.\<close>

theorem slot_queue_attach_spec:
  assumes "rmac_slot_queue_inv q"
  shows "case rmac_slot_queue_attach_packet q type p of (r, q', slot) \<Rightarrow>
    rmac_slot_queue_inv q' \<and>
    (if \<exists>s \<in># rmac_slot_queue_bag q. slot_packet s = None \<and> slot_type s = type
     then r = RMAC_RET_OK \<and> (\<exists>s \<in># rmac_slot_queue_bag q. slot_packet s = None \<and> slot_type s = type \<and>
       slot = Some (s\<lparr>slot_packet := Some p\<rparr>) \<and>
       rmac_slot_queue_bag q' = add_mset (s\<lparr>slot_packet := Some p\<rparr>) (rmac_slot_queue_bag q - {#s#}))
     else r = RMAC_RET_FAILED \<and> q' = q \<and> slot = None)"
proof (cases "find_index (\<lambda>s. slot_packet s = None \<and> slot_type s = type) (take (q_len q) (q_items q))")
  case None
  then have "\<forall>s \<in># rmac_slot_queue_bag q. \<not> (slot_packet s = None \<and> slot_type s = type)"
    by (simp add: find_index_None rmac_slot_queue_bag_def)
  with None assms show ?thesis by (simp add: rmac_slot_queue_attach_packet_def)
next
  case (Some i)
  let ?s = "q_items q ! i"
  have len: "q_len q \<le> length (q_items q)" using assms by (simp add: rmac_slot_queue_inv_def)
  from Some have i: "i < q_len q" "slot_packet ?s = None" "slot_type ?s = type"
    by (auto simp: find_index_Some)
  then have mem: "?s \<in># rmac_slot_queue_bag q"
    using len by (auto simp: rmac_slot_queue_bag_def in_set_conv_nth)
  have "rmac_slot_queue_inv (fst (snd (rmac_slot_queue_attach_packet q type p)))"
    using assms by (rule slot_queue_attach_inv)
  with Some i mem len show ?thesis
    by (auto simp: rmac_slot_queue_attach_packet_def Let_def rmac_slot_queue_bag_def mset_take_update
        intro!: bexI [of _ ?s])
qed

lemma slot_queue_attach_spec_witness:
  "\<exists>s. s \<in># rmac_slot_queue_bag slot_queue_example \<and>
     snd (snd (rmac_slot_queue_attach_packet slot_queue_example RMAC_SLOT_TYPE_TX_BROADCAST 0)) =
       Some (s\<lparr>slot_packet := Some 0\<rparr>)"
proof -
  have inv: "rmac_slot_queue_inv slot_queue_example"
    unfolding slot_queue_example_def by (rule slot_queue_exec_all_inv)
  have "\<exists>s \<in># rmac_slot_queue_bag slot_queue_example.
      slot_packet s = None \<and> slot_type s = RMAC_SLOT_TYPE_TX_BROADCAST"
    by code_simp
  then show ?thesis
    using slot_queue_attach_spec [OF inv, of RMAC_SLOT_TYPE_TX_BROADCAST 0]
    by (auto split: prod.splits)
qed

text \<open>The test for an available slot ignores the packets: it can succeed when every slot of the type
  is taken, and then attaching fails and the caller drops the packet.\<close>

lemma slot_queue_available_but_taken:
  "\<exists>q. rmac_slot_queue_inv q \<and> rmac_slot_queue_is_available q RMAC_SLOT_TYPE_TX_BROADCAST \<and>
     fst (rmac_slot_queue_attach_packet q RMAC_SLOT_TYPE_TX_BROADCAST 1) = RMAC_RET_FAILED"
proof -
  let ?ops = "[Slot_Insert (slot_example 7), Slot_Attach RMAC_SLOT_TYPE_TX_BROADCAST 0]"
  let ?q = "foldl slot_queue_exec (rmac_slot_queue_init 3) ?ops"
  have "rmac_slot_queue_is_available ?q RMAC_SLOT_TYPE_TX_BROADCAST \<and>
    fst (rmac_slot_queue_attach_packet ?q RMAC_SLOT_TYPE_TX_BROADCAST 1) = RMAC_RET_FAILED"
    by code_simp
  then show ?thesis using slot_queue_exec_all_inv [of 3 ?ops] by blast
qed

end
