(* ===== verification/Rmac_Tables.thy ===== *)
theory Rmac_Tables
  imports Table Slot_Queue
begin

text \<open>
  The two preallocated tables of the radio MAC: the neighbour table
  (\<open>services/radio-mac-simple/nb-table.c\<close>) with its accounting of missed packets, and the packet
  pool (\<open>rmac_packet_pool_*\<close> in \<open>radio-scheduler.c\<close>) with its lock. The average signal
  strength of a neighbour is a floating point number and is not modelled.
\<close>

subsection \<open>Neighbour table\<close>

record nbtable_item =
  nb_used :: bool
  nb_id :: u32
  nb_rxpackets :: u32
  nb_rxbytes :: u32
  nb_rxmissed :: u32
  nb_txpackets :: u32
  nb_txbytes :: u32
  nb_counter :: u8
  nb_time :: u8

definition nbtable_item_zero :: nbtable_item where
  "nbtable_item_zero = \<lparr>nb_used = False, nb_id = 0, nb_rxpackets = 0, nb_rxbytes = 0, nb_rxmissed = 0,
     nb_txpackets = 0, nb_txbytes = 0, nb_counter = 0, nb_time = 0\<rparr>"

text \<open>\<open>nbtable_init_nb\<close> clears the item and sets \<open>used\<close>; the table is the list of its items.\<close>

definition nbtable_init_nb :: "bool \<Rightarrow> nbtable_item" where
  "nbtable_init_nb used = nbtable_item_zero\<lparr>nb_used := used\<rparr>"

definition nbtable_init :: "nat \<Rightarrow> nbtable_item list" where
  "nbtable_init items = map (\<lambda>_. nbtable_init_nb False) [0..<items]"

definition nbtable_free_nb :: "nbtable_item list \<Rightarrow> nat \<Rightarrow> nbtable_item list" where
  "nbtable_free_nb self item = self[item := nbtable_item_zero\<lparr>nb_used := False\<rparr>]"

definition nbtable_find_id :: "nbtable_item list \<Rightarrow> u32 \<Rightarrow> nat option" where
  "nbtable_find_id self i = find_index (\<lambda>x. nb_used x \<and> nb_id x = i) self"

definition nbtable_find_empty :: "nbtable_item list \<Rightarrow> nat option" where
  "nbtable_find_empty self = find_index (\<lambda>x. nb_used x = False) self"

definition nbtable_find_or_add_id :: "nbtable_item list \<Rightarrow> u32 \<Rightarrow> nat option \<times> nbtable_item list" where
  "nbtable_find_or_add_id self i =
     (case nbtable_find_id self i of
        Some item \<Rightarrow> (Some item, self)
      | None \<Rightarrow>
          (case nbtable_find_empty self of
             None \<Rightarrow> (None, self)
           | Some item \<Rightarrow>
               let self = self[item := nbtable_init_nb True];
                   self = self[item := (self ! item)\<lparr>nb_id := i\<rparr>]
               in (Some item, self)))"

text \<open>The difference of the 8-bit counters is read as a signed 8-bit number.\<close>

definition nbtable_update_rx_counter :: "nbtable_item \<Rightarrow> u8 \<Rightarrow> nat \<Rightarrow> nbtable_item" where
  "nbtable_update_rx_counter item counter len =
     (let counter_diff = sint (counter - nb_counter item);
          item = (if counter_diff > 0 then
                    item\<lparr>nb_rxmissed := nb_rxmissed item + of_int (counter_diff - 1), nb_counter := counter\<rparr>
                  else item)
      in item\<lparr>nb_rxpackets := nb_rxpackets item + 1, nb_rxbytes := nb_rxbytes item + of_nat len, nb_time := 0\<rparr>)"

subsection \<open>Packet pool\<close>

text \<open>The pool is the list of the \<open>used\<close> flags of its packets, and the state of its mutex. Taking a
  mutex that is held blocks for ever: the outer \<open>None\<close>.\<close>

record rmac_packet_pool =
  pool_used :: "bool list"
  pool_locked :: bool

definition rmac_packet_pool_init :: "nat \<Rightarrow> rmac_packet_pool option" where
  "rmac_packet_pool_init n =
     (if n > 0 then Some \<lparr>pool_used = replicate n False, pool_locked = False\<rparr> else None)"

definition rmac_packet_pool_get :: "rmac_packet_pool \<Rightarrow> (nat option \<times> rmac_packet_pool) option" where
  "rmac_packet_pool_get self =
     (if pool_locked self then None
      else Some (case find_index (\<lambda>u. u = False) (pool_used self) of
          Some i \<Rightarrow> (Some i, self\<lparr>pool_used := (pool_used self)[i := True]\<rparr>)
        | None \<Rightarrow> (None, self)))"

text \<open>The early return of the failed assertion leaves the mutex taken.\<close>

definition rmac_packet_pool_release ::
  "rmac_packet_pool \<Rightarrow> nat option \<Rightarrow> (rmac_ret \<times> rmac_packet_pool) option" where
  "rmac_packet_pool_release self packet =
     (case packet of
        None \<Rightarrow> Some (RMAC_RET_OK, self)
      | Some i \<Rightarrow>
          if pool_locked self then None
          else
            let self = self\<lparr>pool_locked := True\<rparr> in
            if \<not> pool_used self ! i then Some (RMAC_RET_FAILED, self)
            else
              let self = self\<lparr>pool_used := (pool_used self)[i := False]\<rparr> in
              Some (RMAC_RET_OK, self\<lparr>pool_locked := False\<rparr>))"

subsection \<open>The neighbour table is a keyed table\<close>

definition nbtable_fresh :: "u32 \<Rightarrow> nbtable_item" where
  "nbtable_fresh i = (nbtable_init_nb True)\<lparr>nb_id := i\<rparr>"

interpretation rmac_nb: keyed_table nb_used nb_id nbtable_fresh
  by unfold_locales (simp_all add: nbtable_fresh_def nbtable_init_nb_def)

lemma nbtable_find_id_table: "nbtable_find_id xs i = table_find nb_used nb_id i xs"
  by (simp add: nbtable_find_id_def table_find_def)

lemma nbtable_find_or_add_put:
  "nbtable_find_or_add_id xs i =
    (case table_put nb_used nb_id nbtable_fresh i xs of None \<Rightarrow> (None, xs) | Some (k, ys) \<Rightarrow> (Some k, ys))"
proof -
  have "nbtable_find_empty xs = table_alloc nb_used xs"
    by (simp add: nbtable_find_empty_def table_alloc_def)
  then show ?thesis
    by (auto simp: nbtable_find_or_add_id_def table_put_def nbtable_find_id_table nbtable_fresh_def Let_def
        dest!: table_alloc_Some split: option.splits)
qed

definition rmac_nbtable_inv :: "nbtable_item list \<Rightarrow> bool" where
  "rmac_nbtable_inv = table_distinct nb_used nb_id"

definition rmac_neighbours :: "nbtable_item list \<Rightarrow> u32 \<Rightarrow> nbtable_item option" where
  "rmac_neighbours = table_lookup nb_used nb_id"

text \<open>Looking a neighbour up or adding it keeps at most one entry per identifier, fails
  exactly when the table is full of other neighbours, and acts on the table as on a map from
  identifiers: a known neighbour is left as it is, an unknown one gets a cleared entry, no other
  neighbour changes.\<close>

theorem nbtable_find_or_add_spec:
  assumes "rmac_nbtable_inv self"
  shows "case nbtable_find_or_add_id self i of (item, self') \<Rightarrow>
    rmac_nbtable_inv self' \<and>
    (case item of
       None \<Rightarrow> self' = self \<and> (\<forall>x \<in> set self. nb_used x \<and> nb_id x \<noteq> i)
     | Some k \<Rightarrow> k < length self \<and> rmac_neighbours self' i = Some (self' ! k) \<and>
         rmac_neighbours self' = (rmac_neighbours self)
           (i \<mapsto> case rmac_neighbours self i of None \<Rightarrow> (nbtable_init_nb True)\<lparr>nb_id := i\<rparr> | Some x \<Rightarrow> x))"
proof (cases "table_put nb_used nb_id nbtable_fresh i self")
  case None
  then show ?thesis
    using assms rmac_nb.put_None [of i self] by (simp add: nbtable_find_or_add_put)
next
  case (Some p)
  obtain k ys where p: "table_put nb_used nb_id nbtable_fresh i self = Some (k, ys)"
    using Some by (cases p) auto
  note dist = assms [unfolded rmac_nbtable_inv_def]
  note put = rmac_nb.put_props [OF dist p]
  have "rmac_neighbours ys i = Some (ys ! k)"
    using rmac_nb.find_unique [OF put(1,3,4,5)] by (simp add: rmac_neighbours_def table_lookup_def)
  then show ?thesis
    using put(1,2,3) rmac_nb.put_lookup [OF dist p, unfolded nbtable_fresh_def]
    by (simp add: nbtable_find_or_add_put p rmac_nbtable_inv_def rmac_neighbours_def
nbtable_fresh_def del: fun_upd_apply)
qed

lemma nbtable_find_or_add_spec_witness:
  "case nbtable_find_or_add_id (nbtable_init 2) 7 of (item, self') \<Rightarrow> rmac_nbtable_inv self' \<and> item = Some 0"
proof -
  have "rmac_nbtable_inv (nbtable_init 2)"
    by (simp add: rmac_nbtable_inv_def table_distinct_def nbtable_init_def nbtable_init_nb_def)
  moreover have "fst (nbtable_find_or_add_id (nbtable_init 2) 7) = Some 0" by code_simp
  ultimately show ?thesis
    using nbtable_find_or_add_spec [of "nbtable_init 2" 7] by (auto split: prod.splits)
qed

text \<open>The accounting of missed packets: a packet whose counter is ahead of the last one by
  \<open>d\<close> steps, \<open>1 \<le> d \<le> 127\<close> modulo 256, counts \<open>d - 1\<close> missed packets and moves the
  counter; any other packet (a repetition or one from the past) counts none and does not move
  the counter. Each packet is counted once and resets the age of the neighbour.\<close>

theorem nbtable_rx_counter_spec:
  "let d = unat (counter - nb_counter item);
       item' = nbtable_update_rx_counter item counter len
   in (if 1 \<le> d \<and> d \<le> 127
       then nb_counter item' = counter \<and> nb_rxmissed item' = nb_rxmissed item + of_nat (d - 1)
       else nb_counter item' = nb_counter item \<and> nb_rxmissed item' = nb_rxmissed item) \<and>
      nb_rxpackets item' = nb_rxpackets item + 1 \<and>
      nb_rxbytes item' = nb_rxbytes item + of_nat len \<and> nb_time item' = 0 \<and>
      nb_used item' = nb_used item \<and> nb_id item' = nb_id item"
proof -
  define w where "w = counter - nb_counter item"
  note s = sint_u8 [of w]
  have u: "unat w < 256" using unsigned_less [where ?'a = nat and w = w] by simp
  have pos: "sint w > 0 \<longleftrightarrow> 1 \<le> unat w \<and> unat w \<le> 127"
  proof (cases "unat w < 128")
    case True
    then have "sint w = int (unat w)" by (simp only: s if_True)
    with True show ?thesis by linarith
  next
    case False
    then have "sint w = int (unat w) - 256" by (simp only: s if_False)
    with False u show ?thesis by linarith
  qed
  have "1 \<le> unat w \<Longrightarrow> unat w \<le> 127 \<Longrightarrow> of_int (sint w - 1) = (of_nat (unat w - 1) :: u32)"
    by (simp add: s of_nat_diff flip: uint_nat)
  then show ?thesis
    unfolding Let_def nbtable_update_rx_counter_def w_def [symmetric] using pos by auto
qed

text \<open>Packets taken from the pool are distinct from the ones in use, and releasing makes room again.\<close>

lemma packet_pool_get_fresh:
  assumes "rmac_packet_pool_get self = Some (Some i, self')"
  shows "i < length (pool_used self)" "\<not> pool_used self ! i"
    "pool_used self' = (pool_used self)[i := True]" "\<not> pool_locked self'"
  using assms
  by (auto simp: rmac_packet_pool_get_def find_index_Some split: if_splits option.splits)

text \<open>A packet taken from the pool was not in use, and releasing it gives back the pool as it
  was; taking a packet fails exactly when all of them are in use.\<close>

theorem packet_pool_get_release:
  assumes "\<not> pool_locked self"
  shows "case rmac_packet_pool_get self of
      None \<Rightarrow> False
    | Some (None, self') \<Rightarrow> self' = self \<and> False \<notin> set (pool_used self)
    | Some (Some i, self') \<Rightarrow> i < length (pool_used self) \<and> \<not> pool_used self ! i \<and>
        rmac_packet_pool_release self' (Some i) = Some (RMAC_RET_OK, self)"
proof (cases "find_index (\<lambda>u. u = False) (pool_used self)")
  case None
  then have "False \<notin> set (pool_used self)" by (auto simp only: find_index_None)
  with None assms show ?thesis by (simp add: rmac_packet_pool_get_def)
next
  case (Some i)
  then have i: "i < length (pool_used self)" "\<not> pool_used self ! i" by (auto simp: find_index_Some)
  then have "(pool_used self)[i := False] = pool_used self" using list_update_id [of "pool_used self" i] by simp
  with i assms Some show ?thesis
    by (simp add: rmac_packet_pool_get_def rmac_packet_pool_release_def Let_def)
qed

lemma packet_pool_get_release_witness:
  "case rmac_packet_pool_get \<lparr>pool_used = [True, False], pool_locked = False\<rparr> of
     Some (Some i, self') \<Rightarrow> i = 1 | _ \<Rightarrow> False"
  using packet_pool_get_release [of "\<lparr>pool_used = [True, False], pool_locked = False\<rparr>"]
  by (simp add: rmac_packet_pool_get_def)

text \<open>A second release of the same packet returns with the mutex held: every later access to the pool
  blocks for ever.\<close>

lemma packet_pool_double_release:
  assumes "\<not> pool_locked self" "i < length (pool_used self)" "\<not> pool_used self ! i"
  shows "\<exists>self'. rmac_packet_pool_release self (Some i) = Some (RMAC_RET_FAILED, self') \<and>
    rmac_packet_pool_get self' = None \<and> rmac_packet_pool_release self' (Some j) = None"
  using assms by (simp add: rmac_packet_pool_release_def rmac_packet_pool_get_def Let_def)

end
