(* ===== verification/Blake2s.thy ===== *)
theory Blake2s
  imports Keystream
begin

text \<open>
  BLAKE2s as in \<open>lib/plumcore-cryptolib/src/blake2s-ref.c\<close>: the hash, MAC and keystream
  generator of the radio MAC, of NBUS and of the worn-log block layer. The state keeps a partly
  filled block; \<open>blake2s_update\<close> compresses a block only when more input follows. The
  abstraction forgets the stale bytes of the block buffer behind \<open>buflen\<close>; over it, updating is
  absorbing a sequence of bytes (\<open>blake2s_absorb\<close>), so feeding a message in pieces is feeding it
  at once, and the digest depends on the concatenation of the pieces only.
\<close>

record blake2s_state =
  b2h :: "u32 list"
  b2t0 :: u32
  b2t1 :: u32
  b2f0 :: u32
  b2f1 :: u32
  b2buf :: "u8 list"
  b2buflen :: nat
  b2outlen :: nat
  b2last_node :: u8

definition BLAKE2S_BLOCKBYTES :: nat where "BLAKE2S_BLOCKBYTES = 64"
definition BLAKE2S_OUTBYTES :: nat where "BLAKE2S_OUTBYTES = 32"
definition BLAKE2S_KEYBYTES :: nat where "BLAKE2S_KEYBYTES = 32"

definition blake2s_IV :: "u32 list" where
  "blake2s_IV = [0x6A09E667, 0xBB67AE85, 0x3C6EF372, 0xA54FF53A,
                 0x510E527F, 0x9B05688C, 0x1F83D9AB, 0x5BE0CD19]"

definition blake2s_sigma :: "nat list list" where
  "blake2s_sigma =
    [[0, 1, 2, 3, 4, 5, 6, 7, 8, 9, 10, 11, 12, 13, 14, 15],
     [14, 10, 4, 8, 9, 15, 13, 6, 1, 12, 0, 2, 11, 7, 5, 3],
     [11, 8, 12, 0, 5, 2, 15, 13, 10, 14, 3, 6, 7, 1, 9, 4],
     [7, 9, 3, 1, 13, 12, 11, 14, 2, 6, 5, 10, 4, 0, 15, 8],
     [9, 0, 5, 7, 2, 4, 10, 15, 14, 1, 11, 12, 6, 8, 3, 13],
     [2, 12, 6, 10, 0, 11, 8, 3, 4, 13, 7, 5, 15, 14, 1, 9],
     [12, 5, 1, 15, 14, 13, 4, 10, 0, 7, 6, 3, 9, 2, 8, 11],
     [13, 11, 7, 14, 12, 1, 3, 9, 5, 0, 15, 4, 8, 6, 2, 10],
     [6, 15, 14, 9, 11, 3, 0, 8, 12, 2, 13, 7, 1, 4, 10, 5],
     [10, 2, 8, 4, 7, 6, 1, 5, 15, 11, 9, 14, 3, 12, 13, 0]]"

subsection \<open>Initialisation\<close>

definition blake2s_set_lastnode :: "blake2s_state \<Rightarrow> blake2s_state" where
  "blake2s_set_lastnode S = S\<lparr>b2f1 := - 1\<rparr>"

definition blake2s_is_lastblock :: "blake2s_state \<Rightarrow> bool" where
  "blake2s_is_lastblock S = (b2f0 S \<noteq> 0)"

definition blake2s_set_lastblock :: "blake2s_state \<Rightarrow> blake2s_state" where
  "blake2s_set_lastblock S =
     (let S = (if b2last_node S \<noteq> 0 then blake2s_set_lastnode S else S) in S\<lparr>b2f0 := - 1\<rparr>)"

definition blake2s_increment_counter :: "blake2s_state \<Rightarrow> u32 \<Rightarrow> blake2s_state" where
  "blake2s_increment_counter S inc =
     (let t0 = b2t0 S + inc
      in S\<lparr>b2t0 := t0, b2t1 := b2t1 S + (if t0 < inc then 1 else 0)\<rparr>)"

definition blake2s_init0 :: blake2s_state where
  "blake2s_init0 = \<lparr>b2h = blake2s_IV, b2t0 = 0, b2t1 = 0, b2f0 = 0, b2f1 = 0,
     b2buf = replicate BLAKE2S_BLOCKBYTES 0, b2buflen = 0, b2outlen = 0, b2last_node = 0\<rparr>"

text \<open>The 32 bytes of the parameter block: digest length, key length, fanout, depth, and zeros.\<close>

definition blake2s_param :: "nat \<Rightarrow> nat \<Rightarrow> u8 list" where
  "blake2s_param outlen keylen = [of_nat outlen, of_nat keylen, 1, 1] @ replicate 28 0"

definition blake2s_init_param :: "u8 list \<Rightarrow> blake2s_state" where
  "blake2s_init_param p =
     (let S = blake2s_init0 in
      S\<lparr>b2h := map (\<lambda>i. b2h S ! i XOR load32_le (drop (i * 4) p)) [0..<8], b2outlen := unat (p ! 0)\<rparr>)"

definition blake2s_init :: "nat \<Rightarrow> blake2s_state option" where
  "blake2s_init outlen =
     (if outlen = 0 \<or> outlen > BLAKE2S_OUTBYTES then None
      else Some (blake2s_init_param (blake2s_param outlen 0)))"

subsection \<open>Compression\<close>

definition blake2s_G :: "u32 list \<Rightarrow> nat \<Rightarrow> nat \<Rightarrow> nat \<Rightarrow> nat \<Rightarrow> nat \<Rightarrow> nat \<Rightarrow> u32 list \<Rightarrow> u32 list" where
  "blake2s_G m r i a b c d v =
     (let v = v[a := v ! a + v ! b + m ! (blake2s_sigma ! r ! (2 * i + 0))];
          v = v[d := rotr32 (v ! d XOR v ! a) 16];
          v = v[c := v ! c + v ! d];
          v = v[b := rotr32 (v ! b XOR v ! c) 12];
          v = v[a := v ! a + v ! b + m ! (blake2s_sigma ! r ! (2 * i + 1))];
          v = v[d := rotr32 (v ! d XOR v ! a) 8];
          v = v[c := v ! c + v ! d];
          v = v[b := rotr32 (v ! b XOR v ! c) 7]
      in v)"

definition blake2s_ROUND :: "u32 list \<Rightarrow> nat \<Rightarrow> u32 list \<Rightarrow> u32 list" where
  "blake2s_ROUND m r v =
     (let v = blake2s_G m r 0 0 4 8 12 v;
          v = blake2s_G m r 1 1 5 9 13 v;
          v = blake2s_G m r 2 2 6 10 14 v;
          v = blake2s_G m r 3 3 7 11 15 v;
          v = blake2s_G m r 4 0 5 10 15 v;
          v = blake2s_G m r 5 1 6 11 12 v;
          v = blake2s_G m r 6 2 7 8 13 v;
          v = blake2s_G m r 7 3 4 9 14 v
      in v)"

definition blake2s_compress :: "blake2s_state \<Rightarrow> u8 list \<Rightarrow> blake2s_state" where
  "blake2s_compress S block =
     (let m = map (\<lambda>i. load32_le (drop (i * 4) block)) [0..<16];
          v = map (\<lambda>i. b2h S ! i) [0..<8] @
              [blake2s_IV ! 0, blake2s_IV ! 1, blake2s_IV ! 2, blake2s_IV ! 3,
               b2t0 S XOR blake2s_IV ! 4, b2t1 S XOR blake2s_IV ! 5,
               b2f0 S XOR blake2s_IV ! 6, b2f1 S XOR blake2s_IV ! 7];
          v = fold (blake2s_ROUND m) [0..<10] v
      in S\<lparr>b2h := map (\<lambda>i. b2h S ! i XOR v ! i XOR v ! (i + 8)) [0..<8]\<rparr>)"

subsection \<open>Update and final\<close>

text \<open>The \<open>while\<close> loop over whole blocks: the remaining input and the state.\<close>

function blake2s_blocks :: "blake2s_state \<Rightarrow> u8 list \<Rightarrow> blake2s_state \<times> u8 list" where
  "blake2s_blocks S inp =
     (if length inp > BLAKE2S_BLOCKBYTES
      then blake2s_blocks
        (blake2s_compress (blake2s_increment_counter S (of_nat BLAKE2S_BLOCKBYTES))
          (take BLAKE2S_BLOCKBYTES inp))
        (drop BLAKE2S_BLOCKBYTES inp)
      else (S, inp))"
  by pat_completeness auto
termination
  by (relation "measure (\<lambda>(S, inp). length inp)") (auto simp: BLAKE2S_BLOCKBYTES_def)

declare blake2s_blocks.simps [simp del]

text \<open>\<open>memcpy(S->buf + at, in, n)\<close>.\<close>

definition blake2s_fill :: "blake2s_state \<Rightarrow> nat \<Rightarrow> u8 list \<Rightarrow> blake2s_state" where
  "blake2s_fill S at bs = S\<lparr>b2buf := take at (b2buf S) @ bs @ drop (at + length bs) (b2buf S)\<rparr>"

definition blake2s_update :: "blake2s_state \<Rightarrow> u8 list \<Rightarrow> blake2s_state" where
  "blake2s_update S inp =
     (if length inp > 0 then
        let left = b2buflen S;
            fill = BLAKE2S_BLOCKBYTES - left;
            (S, inp) =
              (if length inp > fill then
                 let S = S\<lparr>b2buflen := 0\<rparr>;
                     S = blake2s_fill S left (take fill inp);
                     S = blake2s_increment_counter S (of_nat BLAKE2S_BLOCKBYTES);
                     S = blake2s_compress S (b2buf S)
                 in blake2s_blocks S (drop fill inp)
               else (S, inp));
            S = blake2s_fill S (b2buflen S) inp
        in S\<lparr>b2buflen := b2buflen S + length inp\<rparr>
      else S)"

definition blake2s_init_key :: "nat \<Rightarrow> u8 list option \<Rightarrow> blake2s_state option" where
  "blake2s_init_key outlen key =
     (if outlen = 0 \<or> outlen > BLAKE2S_OUTBYTES then None
      else case key of None \<Rightarrow> None
      | Some key \<Rightarrow>
          if length key = 0 \<or> length key > BLAKE2S_KEYBYTES then None
          else Some (blake2s_update (blake2s_init_param (blake2s_param outlen (length key)))
                 (key @ replicate (BLAKE2S_BLOCKBYTES - length key) 0)))"

text \<open>\<open>blake2s_final\<close> gives its return value, the state and the digest that it copies to \<open>out\<close>
  (\<open>None\<close> when it returns before). Copying more than the 32 bytes of the temporary buffer is an
  access out of bounds: the outer \<open>None\<close>.\<close>

definition blake2s_finish :: "blake2s_state \<Rightarrow> blake2s_state" where
  "blake2s_finish S =
     (let S = blake2s_increment_counter S (of_nat (b2buflen S));
          S = blake2s_set_lastblock S;
          S = blake2s_fill S (b2buflen S) (replicate (BLAKE2S_BLOCKBYTES - b2buflen S) 0)
      in blake2s_compress S (b2buf S))"

definition blake2s_final ::
  "blake2s_state \<Rightarrow> nat \<Rightarrow> (int \<times> blake2s_state \<times> u8 list option) option" where
  "blake2s_final S outlen =
     (if outlen < b2outlen S then Some (- 1, S, None)
      else if blake2s_is_lastblock S then Some (- 1, S, None)
      else
        let S = blake2s_finish S;
            buffer = concat (map (\<lambda>i. store32_le (b2h S ! i)) [0..<8])
        in case mem_read buffer 0 outlen of
             None \<Rightarrow> None
           | Some digest \<Rightarrow> Some (0, S, Some digest))"

text \<open>The one-call interface; \<open>key\<close> is a null pointer, or the bytes of the key.\<close>

definition blake2s :: "nat \<Rightarrow> u8 list \<Rightarrow> u8 list option \<Rightarrow> (int \<times> u8 list option) option" where
  "blake2s outlen inp key =
     (if outlen = 0 \<or> outlen > BLAKE2S_OUTBYTES then Some (- 1, None)
      else
        let keylen = (case key of None \<Rightarrow> 0 | Some k \<Rightarrow> length k) in
        if keylen > BLAKE2S_KEYBYTES then Some (- 1, None)
        else
          case (if keylen > 0 then blake2s_init_key outlen key else blake2s_init outlen) of
            None \<Rightarrow> Some (- 1, None)
          | Some S \<Rightarrow>
              (case blake2s_final (blake2s_update S inp) outlen of
                 None \<Rightarrow> None
               | Some (_, _, out) \<Rightarrow> Some (0, out)))"

subsection \<open>Well-formed states and the abstraction\<close>

definition blake2s_wf :: "blake2s_state \<Rightarrow> bool" where
  "blake2s_wf S \<longleftrightarrow> length (b2buf S) = BLAKE2S_BLOCKBYTES \<and> b2buflen S \<le> BLAKE2S_BLOCKBYTES \<and>
     length (b2h S) = 8"

definition blake2s_abs :: "blake2s_state \<Rightarrow> blake2s_state" where
  "blake2s_abs S = S\<lparr>b2buf := take (b2buflen S) (b2buf S)\<rparr>"

definition blake2s_pending :: "blake2s_state \<Rightarrow> u8 list" where
  "blake2s_pending S = take (b2buflen S) (b2buf S)"

function blake2s_absorb :: "blake2s_state \<Rightarrow> u8 list \<Rightarrow> blake2s_state" where
  "blake2s_absorb S p =
     (if length p > BLAKE2S_BLOCKBYTES
      then blake2s_absorb
        (blake2s_compress (blake2s_increment_counter S (of_nat BLAKE2S_BLOCKBYTES))
          (take BLAKE2S_BLOCKBYTES p))
        (drop BLAKE2S_BLOCKBYTES p)
      else S\<lparr>b2buf := p, b2buflen := length p\<rparr>)"
  by pat_completeness auto
termination
  by (relation "measure (\<lambda>(S, p). length p)") (auto simp: BLAKE2S_BLOCKBYTES_def)

declare blake2s_absorb.simps [simp del]

subsection \<open>Compression leaves the block buffer alone\<close>

lemma blake2s_counter_simps [simp]:
  "b2buf (blake2s_increment_counter S i) = b2buf S"
  "b2buflen (blake2s_increment_counter S i) = b2buflen S"
  "b2outlen (blake2s_increment_counter S i) = b2outlen S"
  "b2h (blake2s_increment_counter S i) = b2h S"
  "b2f0 (blake2s_increment_counter S i) = b2f0 S"
  "blake2s_increment_counter (S\<lparr>b2buf := x\<rparr>) i = (blake2s_increment_counter S i)\<lparr>b2buf := x\<rparr>"
  "blake2s_increment_counter (S\<lparr>b2buflen := n\<rparr>) i = (blake2s_increment_counter S i)\<lparr>b2buflen := n\<rparr>"
  by (simp_all add: blake2s_increment_counter_def Let_def)

lemma blake2s_compress_simps [simp]:
  "b2buf (blake2s_compress S m) = b2buf S"
  "b2buflen (blake2s_compress S m) = b2buflen S"
  "b2outlen (blake2s_compress S m) = b2outlen S"
  "b2f0 (blake2s_compress S m) = b2f0 S"
  "length (b2h (blake2s_compress S m)) = 8"
  "blake2s_compress (S\<lparr>b2buf := x\<rparr>) m = (blake2s_compress S m)\<lparr>b2buf := x\<rparr>"
  "blake2s_compress (S\<lparr>b2buflen := n\<rparr>) m = (blake2s_compress S m)\<lparr>b2buflen := n\<rparr>"
  by (simp_all add: blake2s_compress_def Let_def)

lemma blake2s_fill_simps [simp]:
  "b2buflen (blake2s_fill S at bs) = b2buflen S"
  "b2h (blake2s_fill S at bs) = b2h S"
  "b2f0 (blake2s_fill S at bs) = b2f0 S"
  "b2outlen (blake2s_fill S at bs) = b2outlen S"
  "b2buf (blake2s_fill S at bs) = take at (b2buf S) @ bs @ drop (at + length bs) (b2buf S)"
  by (simp_all add: blake2s_fill_def)

lemma blake2s_absorb_long:
  "BLAKE2S_BLOCKBYTES < length p \<Longrightarrow>
    blake2s_absorb S p = blake2s_absorb
      (blake2s_compress (blake2s_increment_counter S (of_nat BLAKE2S_BLOCKBYTES)) (take BLAKE2S_BLOCKBYTES p))
      (drop BLAKE2S_BLOCKBYTES p)"
  by (subst blake2s_absorb.simps) simp

lemma blake2s_absorb_short:
  "\<not> BLAKE2S_BLOCKBYTES < length p \<Longrightarrow> blake2s_absorb S p = S\<lparr>b2buf := p, b2buflen := length p\<rparr>"
  by (subst blake2s_absorb.simps) simp

lemma blake2s_blocks_long:
  "BLAKE2S_BLOCKBYTES < length p \<Longrightarrow>
    blake2s_blocks S p = blake2s_blocks
      (blake2s_compress (blake2s_increment_counter S (of_nat BLAKE2S_BLOCKBYTES)) (take BLAKE2S_BLOCKBYTES p))
      (drop BLAKE2S_BLOCKBYTES p)"
  by (subst blake2s_blocks.simps) simp

lemma blake2s_blocks_short: "\<not> BLAKE2S_BLOCKBYTES < length p \<Longrightarrow> blake2s_blocks S p = (S, p)"
  by (subst blake2s_blocks.simps) simp

lemma blake2s_absorb_ignores_buffer [simp]:
  "blake2s_absorb (S\<lparr>b2buf := x\<rparr>) p = blake2s_absorb S p"
  "blake2s_absorb (S\<lparr>b2buflen := n\<rparr>) p = blake2s_absorb S p"
proof (induction S p rule: blake2s_absorb.induct)
  case (1 S p)
  show "blake2s_absorb (S\<lparr>b2buf := x\<rparr>) p = blake2s_absorb S p"
    using 1(1) by (cases "BLAKE2S_BLOCKBYTES < length p")
      (simp_all add: blake2s_absorb_long [of p] blake2s_absorb_short [of p])
  show "blake2s_absorb (S\<lparr>b2buflen := n\<rparr>) p = blake2s_absorb S p"
    using 1(2) by (cases "BLAKE2S_BLOCKBYTES < length p")
      (simp_all add: blake2s_absorb_long [of p] blake2s_absorb_short [of p])
qed

text \<open>The state after absorbing holds the pending bytes; absorbing more continues from there.\<close>

lemma blake2s_absorb_pending:
  "length (b2buf (blake2s_absorb S p)) \<le> BLAKE2S_BLOCKBYTES"
  "b2buflen (blake2s_absorb S p) = length (b2buf (blake2s_absorb S p))"
proof (induction S p rule: blake2s_absorb.induct)
  case (1 S p)
  show "length (b2buf (blake2s_absorb S p)) \<le> BLAKE2S_BLOCKBYTES"
    "b2buflen (blake2s_absorb S p) = length (b2buf (blake2s_absorb S p))"
    using 1 by (cases "BLAKE2S_BLOCKBYTES < length p";
      simp add: blake2s_absorb_long [of p] blake2s_absorb_short [of p])+
qed

lemma blake2s_absorb_append:
  "blake2s_absorb (blake2s_absorb S p) (b2buf (blake2s_absorb S p) @ q) = blake2s_absorb S (p @ q)"
proof (induction S p rule: blake2s_absorb.induct)
  case (1 S p)
  show ?case
  proof (cases "BLAKE2S_BLOCKBYTES < length p")
    case True
    with 1 show ?thesis by (simp add: blake2s_absorb_long [of p] blake2s_absorb_long [of "p @ q"])
  next
    case False
    then show ?thesis by (simp add: blake2s_absorb_short [of p])
  qed
qed

subsection \<open>Update refines absorption\<close>

lemma blake2s_blocks_absorb:
  assumes "blake2s_blocks S inp = (S', rest)"
  shows "blake2s_absorb S inp = S'\<lparr>b2buf := rest, b2buflen := length rest\<rparr>"
    "length rest \<le> BLAKE2S_BLOCKBYTES" "b2buf S' = b2buf S" "b2buflen S' = b2buflen S"
    "length (b2h S) = 8 \<Longrightarrow> length (b2h S') = 8"
proof -
  have "blake2s_absorb S inp = S'\<lparr>b2buf := rest, b2buflen := length rest\<rparr> \<and>
    length rest \<le> BLAKE2S_BLOCKBYTES \<and> b2buf S' = b2buf S \<and> b2buflen S' = b2buflen S \<and>
    (length (b2h S) = 8 \<longrightarrow> length (b2h S') = 8)"
    using assms
  proof (induction S inp rule: blake2s_blocks.induct)
    case (1 S p)
    then show ?case
      by (cases "BLAKE2S_BLOCKBYTES < length p")
        (simp_all add: blake2s_absorb_long [of p] blake2s_absorb_short [of p]
          blake2s_absorb_short [of rest] blake2s_blocks_long [of p] blake2s_blocks_short [of p])
  qed
  then show "blake2s_absorb S inp = S'\<lparr>b2buf := rest, b2buflen := length rest\<rparr>"
    "length rest \<le> BLAKE2S_BLOCKBYTES" "b2buf S' = b2buf S" "b2buflen S' = b2buflen S"
    "length (b2h S) = 8 \<Longrightarrow> length (b2h S') = 8" by auto
qed

lemma blake2s_update_refines:
  assumes "blake2s_wf S"
  shows "blake2s_abs (blake2s_update S inp) = blake2s_absorb S (blake2s_pending S @ inp)"
    "blake2s_wf (blake2s_update S inp)"
proof -
  let ?B = BLAKE2S_BLOCKBYTES
  have wf: "length (b2buf S) = ?B" "b2buflen S \<le> ?B" "length (b2h S) = 8"
    using assms by (auto simp: blake2s_wf_def)
  have pend: "length (blake2s_pending S) = b2buflen S" using wf by (simp add: blake2s_pending_def)
  have "blake2s_abs (blake2s_update S inp) = blake2s_absorb S (blake2s_pending S @ inp) \<and>
    blake2s_wf (blake2s_update S inp)"
  proof (cases "length inp > ?B - b2buflen S")
    case False
    then have "length (blake2s_pending S @ inp) \<le> ?B" using pend wf by simp
    with False wf show ?thesis
      by (cases "inp = []")
        (auto simp: blake2s_update_def blake2s_absorb_short blake2s_abs_def blake2s_wf_def
          blake2s_pending_def blake2s_fill_def Let_def)
  next
    case True
    define fill where "fill = ?B - b2buflen S"
    define S1 where "S1 = blake2s_fill (S\<lparr>b2buflen := 0\<rparr>) (b2buflen S) (take fill inp)"
    define S2 where "S2 = blake2s_compress (blake2s_increment_counter S1 (of_nat ?B)) (b2buf S1)"
    obtain S3 rest where blocks: "blake2s_blocks S2 (drop fill inp) = (S3, rest)" by fastforce
    note B = blake2s_blocks_absorb [OF blocks]
    have buf1: "b2buf S1 = blake2s_pending S @ take fill inp"
      using wf True by (simp add: S1_def blake2s_pending_def fill_def)
    have len1: "length (b2buf S1) = ?B" using True by (simp add: buf1 pend fill_def wf)
    have "S1 = S\<lparr>b2buflen := 0, b2buf := b2buf S1\<rparr>" by (simp add: S1_def blake2s_fill_def)
    then have same: "blake2s_absorb S1 p = blake2s_absorb S p" for p
      by (metis blake2s_absorb_ignores_buffer)
    have long: "?B < length (b2buf S1 @ drop fill inp)" using True by (simp add: len1 fill_def)
    have "blake2s_absorb S (blake2s_pending S @ inp) = blake2s_absorb S1 (b2buf S1 @ drop fill inp)"
      by (simp add: same buf1)
    also have "\<dots> = blake2s_absorb S2 (drop fill inp)"
      using long by (simp add: blake2s_absorb_long [of "b2buf S1 @ _"] len1 S2_def)
    finally have abs: "blake2s_absorb S (blake2s_pending S @ inp) =
      S3\<lparr>b2buf := rest, b2buflen := length rest\<rparr>" by (simp add: B(1))
    have upd: "blake2s_update S inp =
      (blake2s_fill S3 (b2buflen S3) rest)\<lparr>b2buflen := b2buflen S3 + length rest\<rparr>"
      using True blocks
      by (auto simp: blake2s_update_def Let_def S2_def S1_def fill_def blake2s_fill_def)
    have "b2buflen S3 = 0" "length (b2buf S3) = ?B" "length (b2h S3) = 8"
      using B(3,4,5) by (simp_all add: S2_def len1) (simp_all add: S1_def)
    then show ?thesis
      using B(2) by (simp add: upd abs blake2s_abs_def blake2s_wf_def blake2s_fill_def)
  qed
  then show "blake2s_abs (blake2s_update S inp) = blake2s_absorb S (blake2s_pending S @ inp)"
    "blake2s_wf (blake2s_update S inp)" by simp_all
qed

lemma blake2s_abs_absorb:
  "blake2s_absorb (blake2s_abs S) p = blake2s_absorb S p" "b2buf (blake2s_abs S) = blake2s_pending S"
  by (simp_all add: blake2s_abs_def blake2s_pending_def)

lemma blake2s_update_update:
  assumes "blake2s_wf S"
  shows "blake2s_abs (blake2s_update (blake2s_update S as) bs) = blake2s_abs (blake2s_update S (as @ bs))"
proof -
  let ?T = "blake2s_update S as"
  have abs: "blake2s_abs ?T = blake2s_absorb S (blake2s_pending S @ as)"
    using assms by (rule blake2s_update_refines)
  have "blake2s_abs (blake2s_update ?T bs) = blake2s_absorb ?T (blake2s_pending ?T @ bs)"
    using assms by (intro blake2s_update_refines)
  also have "\<dots> = blake2s_absorb (blake2s_abs ?T) (b2buf (blake2s_abs ?T) @ bs)"
    by (simp add: blake2s_abs_absorb)
  also have "\<dots> = blake2s_absorb S ((blake2s_pending S @ as) @ bs)"
    by (simp only: abs blake2s_absorb_append)
  finally show ?thesis using assms by (simp add: blake2s_update_refines)
qed

lemma blake2s_update_abs_cong:
  assumes "blake2s_wf S" "blake2s_wf T" "blake2s_abs S = blake2s_abs T"
  shows "blake2s_abs (blake2s_update S p) = blake2s_abs (blake2s_update T p)"
  by (metis assms blake2s_update_refines(1) blake2s_abs_absorb)

lemma blake2s_update_Nil [simp]: "blake2s_update S [] = S"
  by (simp add: blake2s_update_def)

lemma blake2s_wf_updates: "blake2s_wf S \<Longrightarrow> blake2s_wf (foldl blake2s_update S chunks)"
  by (induction chunks rule: rev_induct) (simp_all add: blake2s_update_refines)

lemma blake2s_updates_concat:
  assumes "blake2s_wf S"
  shows "blake2s_abs (foldl blake2s_update S chunks) = blake2s_abs (blake2s_update S (concat chunks))"
proof (induction chunks rule: rev_induct)
  case Nil
  then show ?case by simp
next
  case (snoc c chunks)
  then show ?case
    using assms
    by (simp flip: blake2s_update_update
        add: blake2s_update_abs_cong [of "foldl blake2s_update S chunks" "blake2s_update S (concat chunks)"]
          blake2s_wf_updates blake2s_update_refines(2))
qed

subsection \<open>The digest depends on the bytes absorbed only\<close>

lemma blake2s_finish_abs:
  assumes "blake2s_wf S"
  shows "blake2s_finish (blake2s_abs S) = blake2s_finish S"
proof -
  let ?c = "blake2s_set_lastblock (blake2s_increment_counter S (of_nat (b2buflen S)))"
  have lb: "blake2s_set_lastblock (T\<lparr>b2buf := x\<rparr>) = (blake2s_set_lastblock T)\<lparr>b2buf := x\<rparr>"
    "b2buflen (blake2s_set_lastblock T) = b2buflen T" "b2buf (blake2s_set_lastblock T) = b2buf T" for T x
    by (simp_all add: blake2s_set_lastblock_def blake2s_set_lastnode_def Let_def)
  show ?thesis
    using assms
    by (simp add: blake2s_finish_def blake2s_abs_def lb blake2s_fill_def blake2s_wf_def Let_def)
qed

definition blake2s_digest :: "blake2s_state \<Rightarrow> nat \<Rightarrow> (int \<times> u8 list option) option" where
  "blake2s_digest S outlen = map_option (\<lambda>(r, _, d). (r, d)) (blake2s_final S outlen)"

lemma blake2s_digest_abs: "blake2s_wf S \<Longrightarrow> blake2s_digest (blake2s_abs S) n = blake2s_digest S n"
  using blake2s_finish_abs [of S]
  by (auto simp: blake2s_digest_def blake2s_final_def blake2s_is_lastblock_def Let_def
      blake2s_abs_def split: option.splits)

lemma blake2s_digest_cong:
  "blake2s_wf S \<Longrightarrow> blake2s_wf T \<Longrightarrow> blake2s_abs S = blake2s_abs T \<Longrightarrow>
    blake2s_digest S n = blake2s_digest T n"
  by (metis blake2s_digest_abs)

lemma blake2s_digest_chunks:
  assumes "blake2s_wf S"
  shows "blake2s_digest (foldl blake2s_update S chunks) n = blake2s_digest (blake2s_update S (concat chunks)) n"
  using assms
  by (intro blake2s_digest_cong)
    (simp_all add: blake2s_wf_updates blake2s_update_refines(2) blake2s_updates_concat)

subsection \<open>Initialised states\<close>

lemma blake2s_wf_init_param: "blake2s_wf (blake2s_init_param p)"
  by (simp add: blake2s_wf_def blake2s_init_param_def blake2s_init0_def Let_def)

lemma blake2s_wf_init: "blake2s_init n = Some S \<Longrightarrow> blake2s_wf S"
  by (auto simp: blake2s_init_def blake2s_wf_init_param split: if_splits)

lemma blake2s_wf_init_key: "blake2s_init_key n key = Some S \<Longrightarrow> blake2s_wf S"
  by (auto simp: blake2s_init_key_def blake2s_wf_init_param blake2s_update_refines(2)
      split: if_splits option.splits)

subsection \<open>Digests\<close>

lemma blake2s_blocks_keeps:
  "b2f0 (fst (blake2s_blocks S inp)) = b2f0 S \<and> b2outlen (fst (blake2s_blocks S inp)) = b2outlen S"
proof (induction S inp rule: blake2s_blocks.induct)
  case (1 S p)
  then show ?case
    by (cases "BLAKE2S_BLOCKBYTES < length p") (simp_all add: blake2s_blocks_long [of p] blake2s_blocks_short [of p])
qed

lemma blake2s_update_keeps [simp]:
  "b2f0 (blake2s_update S inp) = b2f0 S" "b2outlen (blake2s_update S inp) = b2outlen S"
  using blake2s_blocks_keeps
  by (simp_all add: blake2s_update_def Let_def split_beta)

lemma blake2s_updates_keep [simp]:
  "b2f0 (foldl blake2s_update S chunks) = b2f0 S" "b2outlen (foldl blake2s_update S chunks) = b2outlen S"
  by (induction chunks rule: rev_induct) simp_all

definition blake2s_ready :: "blake2s_state \<Rightarrow> nat \<Rightarrow> bool" where
  "blake2s_ready S n \<longleftrightarrow> blake2s_wf S \<and> b2f0 S = 0 \<and> b2outlen S = n \<and> n \<le> BLAKE2S_OUTBYTES"

lemma blake2s_ready_updates: "blake2s_ready S n \<Longrightarrow> blake2s_ready (foldl blake2s_update S chunks) n"
  by (simp add: blake2s_ready_def blake2s_wf_updates)

lemma blake2s_ready_update: "blake2s_ready S n \<Longrightarrow> blake2s_ready (blake2s_update S inp) n"
  by (simp add: blake2s_ready_def blake2s_update_refines(2))

lemma blake2s_ready_init_param:
  "n \<le> BLAKE2S_OUTBYTES \<Longrightarrow> blake2s_ready (blake2s_init_param (blake2s_param n k)) n"
  by (simp add: blake2s_ready_def blake2s_wf_init_param)
    (simp add: blake2s_init_param_def blake2s_param_def blake2s_init0_def Let_def BLAKE2S_OUTBYTES_def
      unat_of_nat take_bit_nat_eq_self)

lemma blake2s_ready_init: "blake2s_init n = Some S \<Longrightarrow> blake2s_ready S n"
  by (auto simp: blake2s_init_def blake2s_ready_init_param split: if_splits)

lemma blake2s_ready_init_key: "blake2s_init_key n key = Some S \<Longrightarrow> blake2s_ready S n"
  by (auto simp: blake2s_init_key_def blake2s_ready_init_param blake2s_ready_update split: if_splits option.splits)

lemma blake2s_final_ready:
  assumes "blake2s_ready S n"
  shows "\<exists>S' d. blake2s_final S n = Some (0, S', Some d) \<and> length d = n"
proof -
  have "length (concat (map (\<lambda>i. store32_le (h ! i)) [0..<8])) = 32" for h :: "u32 list"
    by (simp add: store32_le_def upt_rec numeral_eq_Suc)
  with assms show ?thesis
    by (simp add: blake2s_final_def blake2s_ready_def blake2s_is_lastblock_def Let_def mem_read_def
        BLAKE2S_OUTBYTES_def del: map_map)
qed

lemma blake2s_init_key_Some:
  assumes "0 < n" "n \<le> BLAKE2S_OUTBYTES" "key \<noteq> []" "length key \<le> BLAKE2S_KEYBYTES"
  shows "\<exists>S. blake2s_init_key n (Some key) = Some S"
  using assms by (simp add: blake2s_init_key_def)

text \<open>The one-call function returns a digest of the requested length for every message and every key
  of at most 32 bytes.\<close>

lemma blake2s_total:
  assumes "0 < n" "n \<le> BLAKE2S_OUTBYTES" "\<forall>k. key = Some k \<longrightarrow> length k \<le> BLAKE2S_KEYBYTES"
  shows "\<exists>d. blake2s n inp key = Some (0, Some d) \<and> length d = n"
proof -
  define S where "S = (if (case key of None \<Rightarrow> 0 | Some k \<Rightarrow> length k) > 0 then blake2s_init_key n key else blake2s_init n)"
  have "\<exists>T. S = Some T \<and> blake2s_ready T n"
  proof (cases "(case key of None \<Rightarrow> 0 | Some k \<Rightarrow> length k) > 0")
    case True
    then obtain k where k: "key = Some k" "k \<noteq> []" by (auto split: option.splits)
    then show ?thesis
      using blake2s_init_key_Some [OF assms(1,2) k(2)] assms(3) blake2s_ready_init_key by (auto simp: S_def)
  next
    case False
    then show ?thesis using assms by (simp add: S_def blake2s_init_def blake2s_ready_init_param)
  qed
  then obtain T where T: "S = Some T" "blake2s_ready T n" by blast
  from blake2s_final_ready [OF blake2s_ready_update [OF T(2), of inp]] obtain S' d where
    "blake2s_final (blake2s_update T inp) n = Some (0, S', Some d)" "length d = n" by blast
  moreover have "(case key of None \<Rightarrow> 0 | Some k \<Rightarrow> length k) \<le> BLAKE2S_KEYBYTES"
    using assms(3) by (auto split: option.split)
  ultimately show ?thesis
    using assms T(1) by (simp add: blake2s_def S_def [symmetric])
qed

text \<open>
  Hashing is incremental: feeding a message to the keyed hash in any number of
  pieces, of any lengths, and finishing gives the same digest as the one-call function on the whole
  message, and finishing succeeds. The block buffer, the lazy compression of a full block and the
  byte counter do not show.
\<close>

theorem blake2s_streaming:
  assumes "0 < n" "n \<le> BLAKE2S_OUTBYTES" "key \<noteq> []" "length key \<le> BLAKE2S_KEYBYTES"
  shows "\<exists>S S' d. blake2s_init_key n (Some key) = Some S \<and>
    blake2s_final (foldl blake2s_update S chunks) n = Some (0, S', Some d) \<and> length d = n \<and>
    blake2s n (concat chunks) (Some key) = Some (0, Some d)"
proof -
  obtain S where S: "blake2s_init_key n (Some key) = Some S" using blake2s_init_key_Some [OF assms] by blast
  note ready = blake2s_ready_init_key [OF S]
  obtain S' d where fin: "blake2s_final (foldl blake2s_update S chunks) n = Some (0, S', Some d)" "length d = n"
    using blake2s_final_ready [OF blake2s_ready_updates [OF ready]] by blast
  obtain S'' d' where fin': "blake2s_final (blake2s_update S (concat chunks)) n = Some (0, S'', Some d')"
    using blake2s_final_ready [OF blake2s_ready_update [OF ready]] by blast
  have "d' = d"
    using blake2s_digest_chunks [of S chunks n] ready fin fin'
    by (simp add: blake2s_ready_def blake2s_digest_def)
  with S fin fin' assms show ?thesis by (simp add: blake2s_def)
qed

lemma blake2s_streaming_witness:
  "\<exists>S S' d. blake2s_init_key 16 (Some [1, 2, 3]) = Some S \<and>
    blake2s_final (foldl blake2s_update S [[4], [], [5, 6]]) 16 = Some (0, S', Some d) \<and>
    blake2s 16 [4, 5, 6] (Some [1, 2, 3]) = Some (0, Some d)"
  using blake2s_streaming [of 16 "[1, 2, 3]" "[[4], [], [5, 6]]"]
  by (auto simp: BLAKE2S_OUTBYTES_def BLAKE2S_KEYBYTES_def)

end
