(* ===== verification/Rmac_Pbuf.thy ===== *)
theory Rmac_Pbuf
  imports Keystream Blake2s
begin

text \<open>
  The packet encoder of the radio MAC (\<open>services/radio-mac-simple/pbuf.c\<close>). A packet is the
  protobuf message, encrypted in counter mode with a Blake2s keystream, after a 16 byte
  synthetic initialisation vector (SIV) that is the keyed Blake2s hash of the plain message. The
  nanopb library is not in the repository: its encoder and decoder are the parameters
  \<open>pb_encode\<close> (message and room, the serialised bytes or failure) and \<open>pb_decode\<close>. What is relied on is that the
  decoder gives back what was encoded, without the optional fields that are marked as missing.
\<close>

datatype rmac_pbuf_ret =
    RMAC_PBUF_RET_OK
  | RMAC_PBUF_RET_FAILED
  | RMAC_PBUF_RET_NULL
  | RMAC_PBUF_RET_BAD_ARG
  | RMAC_PBUF_RET_NO_BUF
  | RMAC_PBUF_RET_DECRYPT_FAILED
  | RMAC_PBUF_RET_ENCRYPT_FAILED
  | RMAC_PBUF_RET_MAC_FAILED
  | RMAC_PBUF_RET_DECODING_FAILED
  | RMAC_PBUF_RET_ENCODING_FAILED

definition RMAC_PBUF_KE_LEN :: nat where "RMAC_PBUF_KE_LEN = 16"
definition RMAC_PBUF_KM_LEN :: nat where "RMAC_PBUF_KM_LEN = 16"
definition RMAC_PBUF_SIV_LEN :: nat where "RMAC_PBUF_SIV_LEN = 16"
definition RMAC_PBUF_PACKET_LEN_MAX :: nat where "RMAC_PBUF_PACKET_LEN_MAX = 255"

lemmas rmac_pbuf_lens = RMAC_PBUF_KE_LEN_def RMAC_PBUF_KM_LEN_def RMAC_PBUF_SIV_LEN_def
  RMAC_PBUF_PACKET_LEN_MAX_def

text \<open>The message \<open>RmacPacket\<close> of \<open>rmac_pbuf.proto\<close>; an optional field has a flag that says whether it is there, and the
  bytes \<open>data\<close> with their size are a list. The padding, which has no maximal size and so is nothing but a callback
  that is not set, is left out.\<close>

record rmac_packet =
  pk_has_destination :: bool
  pk_destination :: u32
  pk_source :: u32
  pk_has_context :: bool
  pk_context :: u32
  pk_has_counter :: bool
  pk_counter :: u32
  pk_has_data :: bool
  pk_data :: "u8 list"
  pk_has_time :: bool
  pk_time :: u64

definition RmacPacket_init_default :: rmac_packet where
  "RmacPacket_init_default =
     \<lparr>pk_has_destination = False, pk_destination = 0, pk_source = 0, pk_has_context = False, pk_context = 0,
      pk_has_counter = False, pk_counter = 0, pk_has_data = False, pk_data = [], pk_has_time = False, pk_time = 0\<rparr>"

text \<open>The message with the default in every field that is not there, and what nanopb does: only what is there is
  encoded, and decoded again.\<close>

definition pk_present :: "rmac_packet \<Rightarrow> rmac_packet" where
  "pk_present m =
     m\<lparr>pk_destination := if pk_has_destination m then pk_destination m else 0,
       pk_context := if pk_has_context m then pk_context m else 0,
       pk_counter := if pk_has_counter m then pk_counter m else 0,
       pk_data := if pk_has_data m then pk_data m else [],
       pk_time := if pk_has_time m then pk_time m else 0\<rparr>"

definition nanopb_ok :: "(rmac_packet \<Rightarrow> nat \<Rightarrow> u8 list option) \<Rightarrow> (u8 list \<Rightarrow> rmac_packet option) \<Rightarrow> bool" where
  "nanopb_ok enc dec \<longleftrightarrow> (\<forall>m room data. enc m room = Some data \<longrightarrow> dec data = Some (pk_present m))"

record rmac_pbuf =
  rp_used :: bool
  rp_msg :: rmac_packet
  rp_key_encrypt :: "u8 list"
  rp_key_mac :: "u8 list"

definition rmac_pbuf_clear :: rmac_pbuf where
  "rmac_pbuf_clear = \<lparr>rp_used = False, rp_msg = RmacPacket_init_default,
     rp_key_encrypt = replicate RMAC_PBUF_KE_LEN 0, rp_key_mac = replicate RMAC_PBUF_KM_LEN 0\<rparr>"

definition rmac_pbuf_use :: "rmac_pbuf \<Rightarrow> rmac_pbuf" where
  "rmac_pbuf_use self = self\<lparr>rp_used := True\<rparr>"

text \<open>The return value of \<open>blake2s\<close> is not checked; when it fails the zeroed result stays.\<close>

definition rmac_hash :: "nat \<Rightarrow> u8 list \<Rightarrow> u8 list option \<Rightarrow> u8 list" where
  "rmac_hash n inp key = (case blake2s n inp key of Some (_, Some d) \<Rightarrow> d | _ \<Rightarrow> replicate n 0)"

definition rmac_pbuf_universe_key :: "rmac_pbuf \<Rightarrow> u8 list \<Rightarrow> rmac_pbuf_ret \<times> rmac_pbuf" where
  "rmac_pbuf_universe_key self key =
     (if \<not> length key > 0 then (RMAC_PBUF_RET_BAD_ARG, self)
      else if \<not> RMAC_PBUF_KE_LEN + RMAC_PBUF_KM_LEN \<le> BLAKE2S_OUTBYTES then (RMAC_PBUF_RET_FAILED, self)
      else
        let res = rmac_hash (RMAC_PBUF_KE_LEN + RMAC_PBUF_KM_LEN) key None
        in (RMAC_PBUF_RET_OK,
            self\<lparr>rp_key_encrypt := take RMAC_PBUF_KE_LEN res, rp_key_mac := drop RMAC_PBUF_KE_LEN res\<rparr>))"

text \<open>One block of keystream. The initialisation cannot fail with the 16 byte keys of the packet
  buffer.\<close>

definition rmac_keystream :: "u8 list \<Rightarrow> u8 list \<Rightarrow> u8 \<Rightarrow> u8 list" where
  "rmac_keystream siv key i =
     (case blake2s_init_key BLAKE2S_OUTBYTES (Some key) of
        None \<Rightarrow> replicate BLAKE2S_OUTBYTES 0
      | Some s \<Rightarrow>
          let s = blake2s_update s siv;
              s = blake2s_update s [0, 0, 0, i]
          in (case blake2s_final s BLAKE2S_OUTBYTES of
                Some (_, _, Some k) \<Rightarrow> k
              | _ \<Rightarrow> replicate BLAKE2S_OUTBYTES 0))"

definition crypt_in_place :: "u8 list \<Rightarrow> u8 list \<Rightarrow> u8 list \<Rightarrow> rmac_pbuf_ret \<times> u8 list" where
  "crypt_in_place buf siv key =
     (if \<not> length buf > 0 then (RMAC_PBUF_RET_BAD_ARG, buf)
      else (RMAC_PBUF_RET_OK, ctr_xor (rmac_keystream siv key) BLAKE2S_OUTBYTES 0 buf))"

text \<open>\<open>buf\<close> are the \<open>len\<close> bytes of the received packet; they are decrypted in place.\<close>

definition rmac_pbuf_read ::
  "(u8 list \<Rightarrow> rmac_packet option) \<Rightarrow> rmac_pbuf \<Rightarrow> u8 list \<Rightarrow> rmac_pbuf_ret \<times> rmac_pbuf \<times> u8 list" where
  "rmac_pbuf_read pb_decode self buf =
     (if length buf < RMAC_PBUF_SIV_LEN + 1 then (RMAC_PBUF_RET_DECRYPT_FAILED, self, buf)
      else if length buf > RMAC_PBUF_PACKET_LEN_MAX then (RMAC_PBUF_RET_DECRYPT_FAILED, self, buf)
      else
        let siv = take RMAC_PBUF_SIV_LEN buf;
            data = drop RMAC_PBUF_SIV_LEN buf;
            (ret, data) = crypt_in_place data siv (rp_key_encrypt self)
        in
        if ret \<noteq> RMAC_PBUF_RET_OK then (RMAC_PBUF_RET_DECRYPT_FAILED, self, siv @ data)
        else if siv \<noteq> rmac_hash RMAC_PBUF_SIV_LEN data (Some (rp_key_mac self))
        then (RMAC_PBUF_RET_MAC_FAILED, self, siv @ replicate (length data) 0)
        else (case pb_decode data of
            None \<Rightarrow> (RMAC_PBUF_RET_DECODING_FAILED, self\<lparr>rp_msg := RmacPacket_init_default\<rparr>, siv @ data)
          | Some msg \<Rightarrow> (RMAC_PBUF_RET_OK, self\<lparr>rp_msg := msg\<rparr>, siv @ data)))"

text \<open>The result is the packet that was written, when the function succeeds.\<close>

definition rmac_pbuf_write ::
  "(rmac_packet \<Rightarrow> nat \<Rightarrow> u8 list option) \<Rightarrow> rmac_pbuf \<Rightarrow> nat \<Rightarrow> rmac_pbuf_ret \<times> u8 list option" where
  "rmac_pbuf_write pb_encode self buf_size =
     (if buf_size < RMAC_PBUF_SIV_LEN + 1 then (RMAC_PBUF_RET_ENCODING_FAILED, None)
      else case pb_encode (rp_msg self) (buf_size - RMAC_PBUF_SIV_LEN) of
          None \<Rightarrow> (RMAC_PBUF_RET_ENCODING_FAILED, None)
        | Some data \<Rightarrow>
            if \<not> RMAC_PBUF_SIV_LEN + length data \<le> buf_size then (RMAC_PBUF_RET_ENCODING_FAILED, None)
            else
              let siv = rmac_hash RMAC_PBUF_SIV_LEN data (Some (rp_key_mac self));
                  (ret, data) = crypt_in_place data siv (rp_key_encrypt self)
              in if ret \<noteq> RMAC_PBUF_RET_OK then (RMAC_PBUF_RET_ENCRYPT_FAILED, None)
                 else (RMAC_PBUF_RET_OK, Some (siv @ data)))"

subsection \<open>Keystream and tags\<close>

lemma length_rmac_keystream [simp]: "length (rmac_keystream siv key i) = BLAKE2S_OUTBYTES"
proof (cases "blake2s_init_key BLAKE2S_OUTBYTES (Some key)")
  case (Some s)
  let ?s = "blake2s_update (blake2s_update s siv) [0, 0, 0, i]"
  have "blake2s_ready ?s BLAKE2S_OUTBYTES"
    using blake2s_ready_init_key [OF Some] by (intro blake2s_ready_update)
  from blake2s_final_ready [OF this] show ?thesis using Some by (auto simp: rmac_keystream_def)
qed (simp add: rmac_keystream_def)

interpretation rmac_ctr: keystream "rmac_keystream siv key" BLAKE2S_OUTBYTES for siv key
  by unfold_locales (simp_all add: BLAKE2S_OUTBYTES_def)

lemma length_rmac_hash:
  assumes "0 < n" "n \<le> BLAKE2S_OUTBYTES" "\<forall>k. key = Some k \<longrightarrow> length k \<le> BLAKE2S_KEYBYTES"
  shows "length (rmac_hash n inp key) = n"
  using blake2s_total [OF assms, of inp] by (auto simp: rmac_hash_def)

text \<open>The keys have the fixed lengths of their arrays.\<close>

definition rmac_pbuf_wf :: "rmac_pbuf \<Rightarrow> bool" where
  "rmac_pbuf_wf self \<longleftrightarrow> length (rp_key_encrypt self) = RMAC_PBUF_KE_LEN \<and> length (rp_key_mac self) = RMAC_PBUF_KM_LEN"

lemma rmac_pbuf_wf_clear: "rmac_pbuf_wf rmac_pbuf_clear"
  by (simp add: rmac_pbuf_wf_def rmac_pbuf_clear_def)

lemma rmac_pbuf_wf_universe_key: "rmac_pbuf_wf self \<Longrightarrow> rmac_pbuf_wf (snd (rmac_pbuf_universe_key self key))"
  using length_rmac_hash [of 32 None key]
  by (simp add: rmac_pbuf_universe_key_def rmac_pbuf_wf_def rmac_pbuf_lens BLAKE2S_OUTBYTES_def Let_def)

lemma length_siv: "rmac_pbuf_wf self \<Longrightarrow> length (rmac_hash RMAC_PBUF_SIV_LEN d (Some (rp_key_mac self))) = 16"
  by (simp add: length_rmac_hash rmac_pbuf_wf_def rmac_pbuf_lens BLAKE2S_OUTBYTES_def BLAKE2S_KEYBYTES_def)

lemma crypt_in_place_ok: "fst (crypt_in_place buf siv key) = RMAC_PBUF_RET_OK \<longleftrightarrow> buf \<noteq> []"
  by (simp add: crypt_in_place_def)

lemma crypt_in_place_twice:
  "snd (crypt_in_place (snd (crypt_in_place buf siv key)) siv key) = buf"
proof (cases "buf = []")
  case False
  then have "ctr_xor (rmac_keystream siv key) BLAKE2S_OUTBYTES 0 buf \<noteq> []"
    by (metis length_0_conv rmac_ctr.length_ctr_xor)
  with False show ?thesis by (simp add: crypt_in_place_def rmac_ctr.ctr_xor_involution)
qed (simp add: crypt_in_place_def)

lemma length_crypt_in_place [simp]: "length (snd (crypt_in_place buf siv key)) = length buf"
  by (simp add: crypt_in_place_def rmac_ctr.length_ctr_xor)

definition siv_of :: "rmac_pbuf \<Rightarrow> u8 list \<Rightarrow> u8 list" where
  "siv_of self data = rmac_hash RMAC_PBUF_SIV_LEN data (Some (rp_key_mac self))"

lemma rmac_pbuf_write_bytes:
  assumes "rmac_pbuf_write pb_encode self n = (ret, Some bytes)"
  shows "\<exists>data. pb_encode (rp_msg self) (n - RMAC_PBUF_SIV_LEN) = Some data \<and> data \<noteq> [] \<and> ret = RMAC_PBUF_RET_OK \<and>
    bytes = siv_of self data @ snd (crypt_in_place data (siv_of self data) (rp_key_encrypt self)) \<and>
    RMAC_PBUF_SIV_LEN + length data \<le> n"
  using assms
  by (auto simp: rmac_pbuf_write_def siv_of_def Let_def split_beta crypt_in_place_ok
      split: if_splits option.splits)

lemma rmac_pbuf_write_Some:
  assumes "rmac_pbuf_wf self" "pb_encode (rp_msg self) (n - RMAC_PBUF_SIV_LEN) = Some data" "data \<noteq> []"
    and "RMAC_PBUF_SIV_LEN + length data \<le> n"
  shows "\<exists>bytes. rmac_pbuf_write pb_encode self n = (RMAC_PBUF_RET_OK, Some bytes) \<and>
    length bytes = RMAC_PBUF_SIV_LEN + length data"
proof -
  have "\<not> n < RMAC_PBUF_SIV_LEN + 1" using assms(3,4) by (cases data) auto
  with assms length_siv [OF assms(1), of data] show ?thesis
    by (simp add: rmac_pbuf_write_def Let_def split_beta crypt_in_place_ok) (simp add: rmac_pbuf_lens)
qed

lemma rmac_pbuf_read_data:
  assumes "rmac_pbuf_wf self" "length siv = 16" "cipher \<noteq> []" "length cipher \<le> 239"
  shows "rmac_pbuf_read pb_decode self (siv @ cipher) =
    (let data = snd (crypt_in_place cipher siv (rp_key_encrypt self)) in
     if siv \<noteq> siv_of self data then (RMAC_PBUF_RET_MAC_FAILED, self, siv @ replicate (length cipher) 0)
     else case pb_decode data of
         None \<Rightarrow> (RMAC_PBUF_RET_DECODING_FAILED, self\<lparr>rp_msg := RmacPacket_init_default\<rparr>, siv @ data)
       | Some msg \<Rightarrow> (RMAC_PBUF_RET_OK, self\<lparr>rp_msg := msg\<rparr>, siv @ data))"
  using assms
  by (cases cipher) (simp_all add: rmac_pbuf_read_def rmac_pbuf_lens siv_of_def crypt_in_place_def Let_def
      rmac_ctr.length_ctr_xor)

lemma read_written:
  assumes "rmac_pbuf_write enc tx n = (RMAC_PBUF_RET_OK, Some bytes)" "length bytes \<le> RMAC_PBUF_PACKET_LEN_MAX"
    and "\<And>room data. enc (rp_msg tx) room = Some data \<Longrightarrow> dec data = Some (pk_present (rp_msg tx))"
    and "rmac_pbuf_wf tx" "rmac_pbuf_wf rx" "rp_key_encrypt rx = rp_key_encrypt tx" "rp_key_mac rx = rp_key_mac tx"
  shows "\<exists>buf. rmac_pbuf_read dec rx bytes = (RMAC_PBUF_RET_OK, rx\<lparr>rp_msg := pk_present (rp_msg tx)\<rparr>, buf)"
proof -
  obtain data where w: "enc (rp_msg tx) (n - RMAC_PBUF_SIV_LEN) = Some data" "data \<noteq> []"
    "bytes = siv_of tx data @ snd (crypt_in_place data (siv_of tx data) (rp_key_encrypt tx))"
    using rmac_pbuf_write_bytes [OF assms(1)] by blast
  have c: "snd (crypt_in_place data (siv_of tx data) (rp_key_encrypt tx)) \<noteq> []" "length data \<le> 239"
    using w(2,3) assms(2) length_siv [OF assms(4), folded siv_of_def]
      length_crypt_in_place [of data "siv_of tx data" "rp_key_encrypt tx"]
    by (auto simp: rmac_pbuf_lens simp del: length_crypt_in_place)
  have "siv_of rx d = siv_of tx d" for d by (simp add: siv_of_def assms(7))
  then show ?thesis
    using rmac_pbuf_read_data [OF assms(5) length_siv [OF assms(4), folded siv_of_def] c(1), of dec] c(2) w
      assms(3) [OF w(1)]
    by (simp add: assms(6) crypt_in_place_twice Let_def)
qed

text \<open>
  A packet that was written is read back: with the same keys on both sides, and when the
  decoder gives back what is there of the message, reading the written bytes succeeds and gives
  that, provided that the packet keeps to the 255 bytes the reader accepts (the writer's
  own buffer has 256).
\<close>

theorem rmac_pbuf_roundtrip:
  assumes "rmac_pbuf_write pb_encode tx n = (ret, Some bytes)" "length bytes \<le> RMAC_PBUF_PACKET_LEN_MAX"
    and "\<And>room data. pb_encode (rp_msg tx) room = Some data \<Longrightarrow> pb_decode data = Some (pk_present (rp_msg tx))"
    and "rmac_pbuf_wf tx" "rmac_pbuf_wf rx" "rp_key_encrypt rx = rp_key_encrypt tx" "rp_key_mac rx = rp_key_mac tx"
  shows "ret = RMAC_PBUF_RET_OK \<and>
    (\<exists>buf. rmac_pbuf_read pb_decode rx bytes = (RMAC_PBUF_RET_OK, rx\<lparr>rp_msg := pk_present (rp_msg tx)\<rparr>, buf))"
proof -
  have ret: "ret = RMAC_PBUF_RET_OK" using rmac_pbuf_write_bytes [OF assms(1)] by blast
  with read_written [of pb_encode tx n bytes pb_decode rx] assms show ?thesis by auto
qed

text \<open>
  Property C12. Nothing unauthenticated is used: reading succeeds, or reaches the decoder at all,
  only when the first 16 bytes are the keyed hash of the decrypted rest; the message is then the
  decoding of exactly that data. When the hash does not match, the message is untouched and the
  decrypted data is wiped from the receive buffer.
\<close>

theorem rmac_pbuf_authentic:
  assumes "rmac_pbuf_read pb_decode self buf = (ret, self', buf')"
  shows "(case ret of
      RMAC_PBUF_RET_OK \<Rightarrow> \<exists>data. take 16 buf = siv_of self data \<and> buf' = take 16 buf @ data \<and>
        length data = length buf - 16 \<and> pb_decode data = Some (rp_msg self')
    | RMAC_PBUF_RET_DECODING_FAILED \<Rightarrow> \<exists>data. take 16 buf = siv_of self data \<and> pb_decode data = None
    | RMAC_PBUF_RET_MAC_FAILED \<Rightarrow> self' = self \<and> buf' = take 16 buf @ replicate (length buf - 16) 0
    | _ \<Rightarrow> self' = self \<and> buf' = buf \<and> (length buf < 17 \<or> length buf > 255))"
proof (cases "17 \<le> length buf \<and> length buf \<le> 255")
  case False
  then show ?thesis using assms by (auto simp: rmac_pbuf_read_def rmac_pbuf_lens)
next
  case True
  let ?d = "snd (crypt_in_place (drop 16 buf) (take 16 buf) (rp_key_encrypt self))"
  have ok: "fst (crypt_in_place (drop 16 buf) (take 16 buf) (rp_key_encrypt self)) = RMAC_PBUF_RET_OK"
    using True by (simp add: crypt_in_place_ok)
  have len: "length ?d = length buf - 16" by simp
  show ?thesis
    using True ok assms len
    by (auto simp: rmac_pbuf_read_def rmac_pbuf_lens siv_of_def Let_def split_beta
        split: if_splits option.splits)
qed

subsection \<open>An example\<close>

definition encode_example :: "rmac_packet \<Rightarrow> nat \<Rightarrow> u8 list option" where
  "encode_example m room = (if 1 \<le> room then Some [ucast (pk_source m)] else None)"

definition decode_example :: "u8 list \<Rightarrow> rmac_packet option" where
  "decode_example d = (case d of [b] \<Rightarrow> Some (RmacPacket_init_default\<lparr>pk_source := ucast b\<rparr>) | _ \<Rightarrow> None)"

lemma rmac_pbuf_roundtrip_witness:
  "\<exists>bytes buf. rmac_pbuf_write encode_example (rmac_pbuf_clear\<lparr>rp_msg := RmacPacket_init_default\<lparr>pk_source := 5\<rparr>\<rparr>) 256 =
      (RMAC_PBUF_RET_OK, Some bytes) \<and>
    rmac_pbuf_read decode_example rmac_pbuf_clear bytes =
      (RMAC_PBUF_RET_OK, rmac_pbuf_clear\<lparr>rp_msg := RmacPacket_init_default\<lparr>pk_source := 5\<rparr>\<rparr>, buf)"
proof -
  let ?tx = "rmac_pbuf_clear\<lparr>rp_msg := RmacPacket_init_default\<lparr>pk_source := 5\<rparr>\<rparr>"
  have wf: "rmac_pbuf_wf ?tx" by (simp add: rmac_pbuf_wf_def rmac_pbuf_clear_def)
  obtain bytes where w: "rmac_pbuf_write encode_example ?tx 256 = (RMAC_PBUF_RET_OK, Some bytes)" "length bytes = 17"
    using rmac_pbuf_write_Some [OF wf, of encode_example 256 "[5]"]
    by (auto simp: encode_example_def rmac_pbuf_lens)
  have inv: "decode_example data = Some (pk_present (rp_msg ?tx))" if "encode_example (rp_msg ?tx) room = Some data" for room data
    using that by (auto simp: encode_example_def decode_example_def pk_present_def RmacPacket_init_default_def split: if_splits)
  have "length bytes \<le> RMAC_PBUF_PACKET_LEN_MAX" using w by (simp add: rmac_pbuf_lens)
  from rmac_pbuf_roundtrip [OF w(1) this inv wf rmac_pbuf_wf_clear] w(1) show ?thesis
    by (auto simp: pk_present_def RmacPacket_init_default_def)
qed

lemma rmac_pbuf_authentic_witness:
  "\<exists>bytes self' buf' data. rmac_pbuf_read decode_example rmac_pbuf_clear bytes = (RMAC_PBUF_RET_OK, self', buf') \<and>
    take 16 bytes = siv_of rmac_pbuf_clear data"
proof -
  let ?siv = "siv_of rmac_pbuf_clear [5]" and ?k = "rp_key_encrypt rmac_pbuf_clear"
  let ?c = "snd (crypt_in_place [5] ?siv ?k)"
  have siv: "length ?siv = 16" using length_siv [OF rmac_pbuf_wf_clear] by (simp add: siv_of_def)
  have c: "?c \<noteq> []" "length ?c \<le> 239" using length_crypt_in_place [of "[5]" ?siv ?k] by (auto simp del: length_crypt_in_place)
  have r: "rmac_pbuf_read decode_example rmac_pbuf_clear (?siv @ ?c) =
      (RMAC_PBUF_RET_OK, rmac_pbuf_clear\<lparr>rp_msg := RmacPacket_init_default\<lparr>pk_source := 5\<rparr>\<rparr>, ?siv @ [5])"
    using rmac_pbuf_read_data [OF rmac_pbuf_wf_clear siv c, of decode_example]
    by (simp add: crypt_in_place_twice decode_example_def Let_def)
  from rmac_pbuf_authentic [OF r] obtain data where "take 16 (?siv @ ?c) = siv_of rmac_pbuf_clear data"
    by (simp del: take_append) blast
  with r show ?thesis by blast
qed

text \<open>A codec for every message: five flags, the fields that are there, and the data behind them.\<close>

definition flag_byte :: "bool \<Rightarrow> u8" where
  "flag_byte b = (if b then 1 else 0)"

definition encode_all :: "rmac_packet \<Rightarrow> nat \<Rightarrow> u8 list option" where
  "encode_all m room =
     (let p = pk_present m;
          d = map flag_byte [pk_has_destination p, pk_has_context p, pk_has_counter p, pk_has_data p, pk_has_time p] @
            store32_le (pk_destination p) @ store32_le (pk_source p) @ store32_le (pk_context p) @
            store32_le (pk_counter p) @ store32_le (ucast (pk_time p)) @ store32_le (ucast (drop_bit 32 (pk_time p))) @ pk_data p
      in if length d \<le> room then Some d else None)"

definition decode_all :: "u8 list \<Rightarrow> rmac_packet option" where
  "decode_all d =
     (if length d < 29 then None
      else
        Some \<lparr>pk_has_destination = (d ! 0 = 1), pk_destination = load32_le (take 4 (drop 5 d)),
          pk_source = load32_le (take 4 (drop 9 d)), pk_has_context = (d ! 1 = 1), pk_context = load32_le (take 4 (drop 13 d)),
          pk_has_counter = (d ! 2 = 1), pk_counter = load32_le (take 4 (drop 17 d)), pk_has_data = (d ! 3 = 1),
          pk_data = drop 29 d, pk_has_time = (d ! 4 = 1),
          pk_time = ucast (load32_le (take 4 (drop 21 d))) OR push_bit 32 (ucast (load32_le (take 4 (drop 25 d))))\<rparr>)"

lemma two_halves: "ucast (ucast t :: u32) OR push_bit 32 (ucast (ucast (drop_bit 32 t) :: u32)) = (t :: u64)"
proof (rule bit_word_eqI)
  fix n assume "n < LENGTH(64)"
  then show "bit (ucast (ucast t :: u32) OR push_bit 32 (ucast (ucast (drop_bit 32 t) :: u32)) :: u64) n = bit t n"
    by (cases "n < 32") (auto simp: bit_simps)
qed

lemma encode_all_ok: "nanopb_ok encode_all decode_all"
proof -
  have one: "flag_byte b = 1 \<longleftrightarrow> b" for b by (simp add: flag_byte_def)
  have "decode_all data = Some (pk_present m)" if "encode_all m room = Some data" for m room data
  proof -
    let ?p = "pk_present m"
    have d: "data = [flag_byte (pk_has_destination ?p), flag_byte (pk_has_context ?p), flag_byte (pk_has_counter ?p),
          flag_byte (pk_has_data ?p), flag_byte (pk_has_time ?p)] @
        store32_le (pk_destination ?p) @ store32_le (pk_source ?p) @ store32_le (pk_context ?p) @
        store32_le (pk_counter ?p) @ store32_le (ucast (pk_time ?p)) @ store32_le (ucast (drop_bit 32 (pk_time ?p))) @ pk_data ?p"
      using that by (simp add: encode_all_def Let_def split: if_splits)
    show ?thesis unfolding decode_all_def d by (simp add: one load_store32_le two_halves)
  qed
  then show ?thesis by (simp add: nanopb_ok_def)
qed

end
