(* ===== verification/Rmac.thy ===== *)
theory Rmac
  imports Rmac_Tables Rmac_Pbuf
begin

text \<open>
  The radio MAC service (\<open>services/radio-mac-simple/rmac.c\<close>) and its tasks
  (\<open>radio-scheduler.c\<close>): the configuration and life cycle of the service, the slot scheduler, the
  radio task that executes the slots, the processing of received packets, and the transmit task that
  attaches packets to slots. A task is a state machine on its own program counter and the shared
  state, with one transition from one access to the shared state to the next, so that the tasks
  interleave as under the preemptive kernel. The clock readings, the radio and the client
  messages are arguments of the transitions.
\<close>

datatype rmac_state =
    RMAC_STATE_UNINITIALIZED
  | RMAC_STATE_STOPPED
  | RMAC_STATE_SEARCHING
  | RMAC_STATE_RUNNING
  | RMAC_STATE_STOP_REQ

datatype rmac_fhss_algo = RMAC_FHSS_ALGO_SINGLE | RMAC_FHSS_ALGO_HASH

datatype rmac_tdma_algo = RMAC_TDMA_ALGO_CSMA | RMAC_TDMA_ALGO_IMMEDIATE_RX | RMAC_TDMA_ALGO_HASH

definition RMAC_UNIVERSE_KEY_MAX :: nat where "RMAC_UNIVERSE_KEY_MAX = 32"
definition IRADIO_MAC_RX_MESSAGE_LEN :: nat where "IRADIO_MAC_RX_MESSAGE_LEN = 256"

text \<open>Messages between the MAC and its clients (\<open>services/interfaces/radio-mac/descriptor.h\<close>).\<close>

record iradio_mac_rx_message =
  rxm_buf :: "u8 list"
  rxm_source :: u32

record iradio_mac_tx_message =
  txm_buf :: "u8 list"
  txm_destination :: u32
  txm_context :: u32

record radio_mac_client =
  cl_context :: u32
  cl_rxqueue :: "iradio_mac_rx_message list"

record rmac =
  rm_state :: rmac_state
  rm_node_id :: u32
  rm_tx_counter :: u8
  rm_nbtable :: "nbtable_item list"
  rm_slot_start_time_error_ema_us :: u32
  rm_fhss_algo :: rmac_fhss_algo
  rm_tdma_algo :: rmac_tdma_algo
  rm_universe_key :: "u8 list"
  rm_radio_sync :: "u8 list"
  rm_rxqueue :: "u8 list list"
  rm_slot_queue :: rmac_slot_queue
  rm_packet_pool :: rmac_packet_pool
  rm_pool_bufs :: "u8 list list"
  rm_rx_pbuf :: rmac_pbuf
  rm_tx_pbuf :: rmac_pbuf
  rm_clients :: "radio_mac_client list"

subsection \<open>Configuration and life cycle\<close>

definition rmac_set_universe_key :: "rmac \<Rightarrow> u8 list \<Rightarrow> rmac_ret \<times> rmac" where
  "rmac_set_universe_key self key =
     (if \<not> length key > 0 then (RMAC_RET_BAD_ARG, self)
      else if length key > RMAC_UNIVERSE_KEY_MAX then (RMAC_RET_FAILED, self)
      else (RMAC_RET_OK, self\<lparr>rm_universe_key := key, rm_radio_sync := [97, 98, 99, 100]\<rparr>))"

definition rmac_set_fhss_algo :: "rmac \<Rightarrow> rmac_fhss_algo \<Rightarrow> rmac" where
  "rmac_set_fhss_algo self fhss = self\<lparr>rm_fhss_algo := fhss\<rparr>"

definition rmac_set_tdma_algo :: "rmac \<Rightarrow> rmac_tdma_algo \<Rightarrow> rmac" where
  "rmac_set_tdma_algo self tdma = self\<lparr>rm_tdma_algo := tdma\<rparr>"

text \<open>\<open>radio_scheduler_start\<close> when its allocations succeed: 31 slots and one packet.\<close>

definition radio_scheduler_start :: "rmac \<Rightarrow> rmac" where
  "radio_scheduler_start self =
     self\<lparr>rm_rxqueue := [], rm_slot_queue := rmac_slot_queue_init 31,
          rm_packet_pool := (case rmac_packet_pool_init 1 of Some p \<Rightarrow> p | None \<Rightarrow> rm_packet_pool self),
          rm_pool_bufs := [[]]\<rparr>"

definition rmac_zero :: rmac where
  "rmac_zero =
     \<lparr>rm_state = RMAC_STATE_UNINITIALIZED, rm_node_id = 0, rm_tx_counter = 0, rm_nbtable = [],
      rm_slot_start_time_error_ema_us = 0, rm_fhss_algo = RMAC_FHSS_ALGO_SINGLE,
      rm_tdma_algo = RMAC_TDMA_ALGO_CSMA, rm_universe_key = [], rm_radio_sync = [0, 0, 0, 0],
      rm_rxqueue = [], rm_slot_queue = rmac_slot_queue_init 0,
      rm_packet_pool = \<lparr>pool_used = [], pool_locked = False\<rparr>, rm_pool_bufs = [],
      rm_rx_pbuf = rmac_pbuf_clear, rm_tx_pbuf = rmac_pbuf_clear, rm_clients = []\<rparr>"

text \<open>The default key is the string \<open>Universe\<close>.\<close>

definition rmac_init :: rmac where
  "rmac_init =
     (let self = rmac_zero\<lparr>rm_nbtable := nbtable_init 16\<rparr>;
          self = radio_scheduler_start self;
          self = self\<lparr>rm_state := RMAC_STATE_STOPPED\<rparr>;
          self = snd (rmac_set_universe_key self [85, 110, 105, 118, 101, 114, 115, 101]);
          self = rmac_set_fhss_algo self RMAC_FHSS_ALGO_SINGLE
      in rmac_set_tdma_algo self RMAC_TDMA_ALGO_CSMA)"

definition rmac_free :: "rmac \<Rightarrow> rmac_ret \<times> rmac" where
  "rmac_free self =
     (if rm_state self \<noteq> RMAC_STATE_STOPPED then (RMAC_RET_BAD_STATE, self)
      else (RMAC_RET_OK, self\<lparr>rm_nbtable := []\<rparr>))"

definition rmac_start :: "rmac \<Rightarrow> rmac_ret \<times> rmac" where
  "rmac_start self =
     (if rm_state self \<noteq> RMAC_STATE_STOPPED then (RMAC_RET_BAD_STATE, self)
      else (RMAC_RET_OK, self\<lparr>rm_state := RMAC_STATE_SEARCHING\<rparr>))"

text \<open>The loop that waits for the tasks tests a constant and is left at once.\<close>

definition rmac_stop :: "rmac \<Rightarrow> rmac_ret \<times> rmac" where
  "rmac_stop self =
     (if \<not> (rm_state self = RMAC_STATE_SEARCHING \<or> rm_state self = RMAC_STATE_RUNNING)
      then (RMAC_RET_BAD_STATE, self)
      else
        let self = self\<lparr>rm_state := RMAC_STATE_STOP_REQ\<rparr>
        in (RMAC_RET_OK, self\<lparr>rm_state := RMAC_STATE_STOPPED\<rparr>))"

subsection \<open>Received packets\<close>

text \<open>\<open>hradio_mac_put_received_packet\<close>: every client of the context gets the message; the first full
  queue (of five messages) ends the loop.\<close>

fun hradio_mac_put_received_packet ::
  "radio_mac_client list \<Rightarrow> iradio_mac_rx_message \<Rightarrow> u32 \<Rightarrow> radio_mac_client list" where
  "hradio_mac_put_received_packet [] msg context = []"
| "hradio_mac_put_received_packet (client # rest) msg context =
     (if cl_context client = context then
        if length (cl_rxqueue client) \<ge> 5 then client # rest
        else client\<lparr>cl_rxqueue := cl_rxqueue client @ [msg]\<rparr> # hradio_mac_put_received_packet rest msg context
      else client # hradio_mac_put_received_packet rest msg context)"

definition process_packet ::
  "(u8 list \<Rightarrow> rmac_packet option) \<Rightarrow> rmac \<Rightarrow> u8 list \<Rightarrow> rmac_ret \<times> rmac" where
  "process_packet pb_decode self packet =
     (let pbuf = rmac_pbuf_clear;
          pbuf = snd (rmac_pbuf_universe_key pbuf (rm_universe_key self));
          (ret, pbuf, _) = rmac_pbuf_read pb_decode pbuf packet;
          self = self\<lparr>rm_rx_pbuf := pbuf\<rparr>
      in
      if ret \<noteq> RMAC_PBUF_RET_OK then (RMAC_RET_FAILED, self)
      else
        let msg = rp_msg pbuf in
        case nbtable_find_or_add_id (rm_nbtable self) (pk_source msg) of
          (None, nbtable) \<Rightarrow> (RMAC_RET_FAILED, self\<lparr>rm_nbtable := nbtable\<rparr>)
        | (Some item, nbtable) \<Rightarrow>
            let nb = nbtable_update_rx_counter (nbtable ! item) (ucast (pk_counter msg)) (length (pk_data msg));
                self = self\<lparr>rm_nbtable := nbtable[item := nb]\<rparr>
            in
            if pk_destination msg = 0 \<or> pk_destination msg = rm_node_id self then
              if pk_data msg = [] \<or> length (pk_data msg) > IRADIO_MAC_RX_MESSAGE_LEN then (RMAC_RET_FAILED, self)
              else
                (RMAC_RET_OK,
                 self\<lparr>rm_clients := hradio_mac_put_received_packet (rm_clients self)
                        \<lparr>rxm_buf = pk_data msg, rxm_source = pk_source msg\<rparr> (pk_context msg)\<rparr>)
            else (RMAC_RET_OK, self))"

text \<open>One turn of \<open>rx_process_task\<close>; it blocks while its queue is empty.\<close>

definition rx_process_step :: "(u8 list \<Rightarrow> rmac_packet option) \<Rightarrow> rmac \<Rightarrow> rmac" where
  "rx_process_step pb_decode self =
     (case rm_rxqueue self of
        [] \<Rightarrow> self
      | packet # rest \<Rightarrow> snd (process_packet pb_decode (self\<lparr>rm_rxqueue := rest\<rparr>) packet))"

subsection \<open>Slot scheduler\<close>

definition rmac_insert_slot :: "rmac \<Rightarrow> rmac_slot \<Rightarrow> rmac" where
  "rmac_insert_slot self slot =
     self\<lparr>rm_slot_queue := fst (snd (rmac_slot_queue_insert (rm_slot_queue self) slot))\<rparr>"

text \<open>One pass of the body of \<open>slot_scheduler_task\<close>: the two \<open>while\<close> loops fill the queue up to
  \<open>limit\<close> slots, at most two seconds ahead. The queue has 31 entries and the limits are 5 and 10, so
  the test that the queue is not full, which makes the function total on every queue, is always true in the
  service.\<close>

function slot_fill :: "nat \<Rightarrow> u32 \<Rightarrow> rmac_slot_type \<Rightarrow> u64 \<Rightarrow> u64 \<Rightarrow> rmac_slot_queue \<Rightarrow> u64 \<times> rmac_slot_queue" where
  "slot_fill limit len type time next_slot q =
     (if q_len q < limit \<and> next_slot < time + 2000000 \<and> q_len q < q_size q then
        let slot = \<lparr>slot_start_us = next_slot, slot_length_us = len, slot_type = type, slot_peer_id = 0,
                    slot_packet = None\<rparr>
        in slot_fill limit len type time (next_slot + 200000) (fst (snd (rmac_slot_queue_insert q slot)))
      else (next_slot, q))"
  by pat_completeness auto
termination
  by (relation "measure (\<lambda>(limit, len, type, time, next_slot, q). q_size q - q_len q)")
    (auto simp: rmac_slot_queue_insert_def Let_def)

declare slot_fill.simps [simp del]

definition slot_scheduler_pass :: "u64 \<Rightarrow> u64 \<Rightarrow> rmac \<Rightarrow> u64 \<times> rmac" where
  "slot_scheduler_pass time next_slot self =
     (case rm_tdma_algo self of
        RMAC_TDMA_ALGO_IMMEDIATE_RX \<Rightarrow>
          let (next_slot, q) = slot_fill 5 100000 RMAC_SLOT_TYPE_TX_BROADCAST time next_slot (rm_slot_queue self)
          in (next_slot, self\<lparr>rm_slot_queue := q\<rparr>)
      | RMAC_TDMA_ALGO_CSMA \<Rightarrow>
          let (next_slot, q) = slot_fill 10 200000 RMAC_SLOT_TYPE_RX_UNMANAGED time next_slot (rm_slot_queue self)
          in (next_slot, self\<lparr>rm_slot_queue := q\<rparr>)
      | RMAC_TDMA_ALGO_HASH \<Rightarrow> (next_slot, self))"

subsection \<open>Radio task\<close>

text \<open>What the radio does in a slot, and the clock at its start and end.\<close>

datatype radio_rx = Rx_packet "u8 list" | Rx_timeout | Rx_error

record radio_event =
  ev_rx :: radio_rx
  ev_sent :: bool
  ev_time_start :: u64
  ev_time_end :: u64

definition slot_is_rx :: "rmac_slot_type \<Rightarrow> bool" where
  "slot_is_rx type =
     (type \<in> {RMAC_SLOT_TYPE_RX_SEARCH, RMAC_SLOT_TYPE_RX_UNMANAGED, RMAC_SLOT_TYPE_RX_UNICAST})"

text \<open>\<open>rmac_slot_exec\<close>; the third component is the packet given to the radio, if any. The receive queue
  holds two packets, and a packet that does not fit is dropped.\<close>

definition rmac_slot_exec :: "radio_event \<Rightarrow> rmac \<Rightarrow> rmac_slot \<Rightarrow> rmac_ret \<times> rmac \<times> u8 list option" where
  "rmac_slot_exec ev self slot =
     (let self = self\<lparr>rm_slot_start_time_error_ema_us :=
            ucast ((scast (rm_slot_start_time_error_ema_us self * 15) + (slot_start_us slot - ev_time_start ev)) div
              (16 :: u64))\<rparr>
      in
      if slot_is_rx (slot_type slot) then
        (case ev_rx ev of
           Rx_packet packet \<Rightarrow>
             let self = (if length (rm_rxqueue self) < 2 then self\<lparr>rm_rxqueue := rm_rxqueue self @ [packet]\<rparr> else self);
                 self = (if rm_tdma_algo self = RMAC_TDMA_ALGO_CSMA
                         then rmac_insert_slot self
                           \<lparr>slot_start_us = ev_time_end ev + 10000, slot_length_us = 100000,
                            slot_type = RMAC_SLOT_TYPE_TX_BROADCAST, slot_peer_id = 0, slot_packet = None\<rparr>
                         else self)
             in (RMAC_RET_OK, self, None)
         | Rx_timeout \<Rightarrow> (RMAC_RET_NOOP, self, None)
         | Rx_error \<Rightarrow> (RMAC_RET_OK, self, None))
      else
        (case slot_packet slot of
           None \<Rightarrow> (RMAC_RET_NOOP, self, None)
         | Some packet \<Rightarrow>
             if ev_sent ev then
               let sent = rm_pool_bufs self ! packet;
                   self = (if rm_tdma_algo self = RMAC_TDMA_ALGO_IMMEDIATE_RX
                           then rmac_insert_slot self
                             \<lparr>slot_start_us = ev_time_end ev, slot_length_us = 20000,
                              slot_type = RMAC_SLOT_TYPE_RX_UNMANAGED, slot_peer_id = 0, slot_packet = None\<rparr>
                           else self)
               in (RMAC_RET_OK, self, Some sent)
             else (RMAC_RET_FAILED, self, Some (rm_pool_bufs self ! packet))))"

text \<open>The program counter of \<open>radio_scheduler_task\<close>: between the reads of the queue and the pool. In
  \<open>RS_Remove\<close> the flag tells whether the slot is to be executed, in \<open>RS_Release\<close> whether it was; the
  task looks for a request to stop only after it has executed a slot.\<close>

datatype radio_pc =
    RS_Peek
  | RS_Spin rmac_slot
  | RS_Remove rmac_slot bool
  | RS_Exec rmac_slot
  | RS_Release rmac_slot bool
  | RS_Exit

text \<open>The slot that was peeked, and the first reading of the clock.\<close>

definition radio_decide :: "rmac_slot \<Rightarrow> u64 \<Rightarrow> radio_pc" where
  "radio_decide slot time =
     (if slot_start_us slot + ucast (slot_length_us slot) \<le> time then RS_Remove slot False
      else if slot_start_us slot > time \<and> slot_start_us slot - time > 2000 then RS_Peek
      else RS_Spin slot)"

text \<open>The busy wait, with one reading of the clock. The window is shortened to end three milliseconds
  early, in 32 bits.\<close>

definition radio_spin :: "rmac_slot \<Rightarrow> u64 \<Rightarrow> radio_pc" where
  "radio_spin slot time =
     (if time \<ge> slot_start_us slot then
        let slot_expected_end_us = slot_start_us slot + ucast (slot_length_us slot);
            len_remaining = (ucast (slot_expected_end_us - time) :: u32)
        in if len_remaining < 2000 then RS_Remove slot False
           else RS_Remove (slot\<lparr>slot_length_us := len_remaining - 3000\<rparr>) True
      else RS_Spin slot)"

text \<open>One transition; \<open>None\<close> when the task blocks for ever on the mutex of the pool. Removing a slot
  overwrites the local copy of the slot with the removed one. The last component is the packet that
  is given to the radio.\<close>

fun radio_task_step ::
  "u64 \<Rightarrow> radio_event \<Rightarrow> radio_pc \<Rightarrow> rmac \<Rightarrow> (radio_pc \<times> rmac \<times> u8 list option) option" where
  "radio_task_step time ev RS_Peek self =
     (case rmac_slot_queue_peek (rm_slot_queue self) of
        (RMAC_RET_OK, Some slot) \<Rightarrow> Some (radio_decide slot time, self, None)
      | _ \<Rightarrow> Some (RS_Peek, self, None))"
| "radio_task_step time ev (RS_Spin slot) self = Some (radio_spin slot time, self, None)"
| "radio_task_step time ev (RS_Remove slot exec) self =
     (case rmac_slot_queue_remove (rm_slot_queue self) of
        (_, q, removed) \<Rightarrow>
          let slot = (case removed of Some s \<Rightarrow> s | None \<Rightarrow> slot)
          in Some (if exec then RS_Exec slot else RS_Release slot False, self\<lparr>rm_slot_queue := q\<rparr>, None))"
| "radio_task_step time ev (RS_Exec slot) self =
     (case rmac_slot_exec ev self slot of (_, self, sent) \<Rightarrow> Some (RS_Release slot True, self, sent))"
| "radio_task_step time ev (RS_Release slot executed) self =
     (case rmac_packet_pool_release (rm_packet_pool self) (slot_packet slot) of
        None \<Rightarrow> None
      | Some (_, pool) \<Rightarrow>
          Some (if executed \<and> rm_state self = RMAC_STATE_STOP_REQ then RS_Exit else RS_Peek,
                self\<lparr>rm_packet_pool := pool\<rparr>, None))"
| "radio_task_step time ev RS_Exit self = Some (RS_Exit, self, None)"

subsection \<open>Transmit task\<close>

text \<open>The program counter of \<open>tx_process_task\<close>. The packet is written after it was attached to the
  slot.\<close>

datatype tx_pc =
    TX_Idle
  | TX_Alloc iradio_mac_tx_message
  | TX_Check iradio_mac_tx_message nat
  | TX_Wait iradio_mac_tx_message nat
  | TX_Attach iradio_mac_tx_message nat
  | TX_Drop nat
  | TX_Write iradio_mac_tx_message nat rmac_slot
  | TX_Exit

definition tx_write ::
  "(rmac_packet \<Rightarrow> nat \<Rightarrow> u8 list option) \<Rightarrow> iradio_mac_tx_message \<Rightarrow> nat \<Rightarrow> rmac_slot \<Rightarrow> rmac \<Rightarrow> rmac" where
  "tx_write pb_encode msg packet slot self =
     (let pbuf = rmac_pbuf_clear;
          pbuf = snd (rmac_pbuf_universe_key pbuf (rm_universe_key self));
          pbuf = pbuf\<lparr>rp_msg := (rp_msg pbuf)
            \<lparr>pk_source := rm_node_id self, pk_has_context := True, pk_context := txm_context msg,
             pk_has_destination := True, pk_destination := txm_destination msg,
             pk_has_counter := True, pk_counter := ucast (rm_tx_counter self),
             pk_has_time := True, pk_time := slot_start_us slot, pk_data := txm_buf msg\<rparr>\<rparr>;
          self = self\<lparr>rm_tx_counter := rm_tx_counter self + 1, rm_tx_pbuf := pbuf\<rparr>
      in case rmac_pbuf_write pb_encode pbuf 256 of
           (RMAC_PBUF_RET_OK, Some bytes) \<Rightarrow> self\<lparr>rm_pool_bufs := (rm_pool_bufs self)[packet := bytes]\<rparr>
         | _ \<Rightarrow> self)"

fun tx_task_step ::
  "(rmac_packet \<Rightarrow> nat \<Rightarrow> u8 list option) \<Rightarrow> iradio_mac_tx_message \<Rightarrow> tx_pc \<Rightarrow> rmac \<Rightarrow> (tx_pc \<times> rmac) option" where
  "tx_task_step pb_encode new TX_Idle self = Some (TX_Alloc new, self)"
| "tx_task_step pb_encode new (TX_Alloc msg) self =
     (case rmac_packet_pool_get (rm_packet_pool self) of
        None \<Rightarrow> None
      | Some (None, pool) \<Rightarrow> Some (TX_Alloc msg, self\<lparr>rm_packet_pool := pool\<rparr>)
      | Some (Some packet, pool) \<Rightarrow> Some (TX_Check msg packet, self\<lparr>rm_packet_pool := pool\<rparr>))"
| "tx_task_step pb_encode new (TX_Check msg packet) self =
     (if rmac_slot_queue_is_available (rm_slot_queue self) RMAC_SLOT_TYPE_TX_BROADCAST = False
      then Some (TX_Wait msg packet, self\<lparr>rm_slot_queue := (rm_slot_queue self)\<lparr>q_tx_available := False\<rparr>\<rparr>)
      else Some (TX_Attach msg packet, self))"
| "tx_task_step pb_encode new (TX_Wait msg packet) self =
     (if q_tx_available (rm_slot_queue self)
      then Some (TX_Attach msg packet, self\<lparr>rm_slot_queue := (rm_slot_queue self)\<lparr>q_tx_available := False\<rparr>\<rparr>)
      else Some (TX_Wait msg packet, self))"
| "tx_task_step pb_encode new (TX_Attach msg packet) self =
     (case rmac_slot_queue_attach_packet (rm_slot_queue self) RMAC_SLOT_TYPE_TX_BROADCAST packet of
        (RMAC_RET_OK, q, Some slot) \<Rightarrow> Some (TX_Write msg packet slot, self\<lparr>rm_slot_queue := q\<rparr>)
      | (_, q, _) \<Rightarrow> Some (TX_Drop packet, self\<lparr>rm_slot_queue := q\<rparr>))"
| "tx_task_step pb_encode new (TX_Drop packet) self =
     (case rmac_packet_pool_release (rm_packet_pool self) (Some packet) of
        None \<Rightarrow> None
      | Some (_, pool) \<Rightarrow> Some (TX_Idle, self\<lparr>rm_packet_pool := pool\<rparr>))"
| "tx_task_step pb_encode new (TX_Write msg packet slot) self =
     (let self = tx_write pb_encode msg packet slot self;
          ret = fst (rmac_pbuf_write pb_encode (rm_tx_pbuf self) 256)
      in Some (if ret = RMAC_PBUF_RET_OK \<and> rm_state self = RMAC_STATE_STOP_REQ then TX_Exit else TX_Idle, self))"
| "tx_task_step pb_encode new TX_Exit self = Some (TX_Exit, self)"

end
