(* ===== verification/Rmac_Props.thy ===== *)
theory Rmac_Props
  imports Rmac
begin

text \<open>
  The tasks of the radio MAC together: every interleaving of the slot scheduler, the radio task, the
  transmit task and the receive task keeps an exact account of the packets of the pool, so that no task
  ever blocks on the pool's mutex. Further: delivery of a received packet, the queue between two
  nodes, and the life cycle of the service.
\<close>

subsection \<open>The system of tasks\<close>

record rmac_system =
  sys_rmac :: rmac
  sys_radio :: radio_pc
  sys_tx :: tx_pc
  sys_next_slot :: u64

inductive rmac_step ::
  "(rmac_packet \<Rightarrow> nat \<Rightarrow> u8 list option) \<Rightarrow> (u8 list \<Rightarrow> rmac_packet option) \<Rightarrow> rmac_system \<Rightarrow> rmac_system \<Rightarrow> bool"
  for enc :: "rmac_packet \<Rightarrow> nat \<Rightarrow> u8 list option" and dec :: "u8 list \<Rightarrow> rmac_packet option" where
  radio: "radio_task_step time ev (sys_radio s) (sys_rmac s) = Some (pc, self, sent) \<Longrightarrow>
    rmac_step enc dec s (s\<lparr>sys_radio := pc, sys_rmac := self\<rparr>)"
| tx: "tx_task_step enc msg (sys_tx s) (sys_rmac s) = Some (pc, self) \<Longrightarrow>
    rmac_step enc dec s (s\<lparr>sys_tx := pc, sys_rmac := self\<rparr>)"
| sched: "slot_scheduler_pass time (sys_next_slot s) (sys_rmac s) = (next_slot, self) \<Longrightarrow>
    rmac_step enc dec s (s\<lparr>sys_next_slot := next_slot, sys_rmac := self\<rparr>)"
| rx: "rmac_step enc dec s (s\<lparr>sys_rmac := rx_process_step dec (sys_rmac s)\<rparr>)"
| stop: "rmac_step enc dec s (s\<lparr>sys_rmac := snd (rmac_stop (sys_rmac s))\<rparr>)"
| start: "rmac_step enc dec s (s\<lparr>sys_rmac := snd (rmac_start (sys_rmac s))\<rparr>)"
| tdma: "rmac_step enc dec s (s\<lparr>sys_rmac := rmac_set_tdma_algo (sys_rmac s) tdma\<rparr>)"

inductive rmac_reach ::
  "(rmac_packet \<Rightarrow> nat \<Rightarrow> u8 list option) \<Rightarrow> (u8 list \<Rightarrow> rmac_packet option) \<Rightarrow> rmac_system \<Rightarrow> bool"
  for enc :: "rmac_packet \<Rightarrow> nat \<Rightarrow> u8 list option" and dec :: "u8 list \<Rightarrow> rmac_packet option" where
  start: "rmac_reach enc dec \<lparr>sys_rmac = rmac_init, sys_radio = RS_Peek, sys_tx = TX_Idle, sys_next_slot = t\<rparr>"
| step: "rmac_reach enc dec s \<Longrightarrow> rmac_step enc dec s s' \<Longrightarrow> rmac_reach enc dec s'"

subsection \<open>Who owns a packet\<close>

definition slot_owner :: "rmac_slot \<Rightarrow> nat multiset" where
  "slot_owner s = (case slot_packet s of None \<Rightarrow> {#} | Some p \<Rightarrow> {#p#})"

definition queue_owners :: "rmac_slot_queue \<Rightarrow> nat multiset" where
  "queue_owners q = (\<Sum>s \<in># rmac_slot_queue_bag q. slot_owner s)"

fun tx_owner :: "tx_pc \<Rightarrow> nat multiset" where
  "tx_owner (TX_Check msg p) = {#p#}"
| "tx_owner (TX_Wait msg p) = {#p#}"
| "tx_owner (TX_Attach msg p) = {#p#}"
| "tx_owner (TX_Drop p) = {#p#}"
| "tx_owner _ = {#}"

fun radio_owner :: "radio_pc \<Rightarrow> nat multiset" where
  "radio_owner (RS_Exec s) = slot_owner s"
| "radio_owner (RS_Release s e) = slot_owner s"
| "radio_owner _ = {#}"

fun radio_peeked :: "radio_pc \<Rightarrow> bool" where
  "radio_peeked (RS_Spin s) = True"
| "radio_peeked (RS_Remove s e) = True"
| "radio_peeked _ = False"

definition used_packets :: "rmac_packet_pool \<Rightarrow> nat multiset" where
  "used_packets pool = mset_set {i. i < length (pool_used pool) \<and> pool_used pool ! i}"

definition rmac_system_inv :: "rmac_system \<Rightarrow> bool" where
  "rmac_system_inv s \<longleftrightarrow>
     rmac_slot_queue_inv (rm_slot_queue (sys_rmac s)) \<and>
     \<not> pool_locked (rm_packet_pool (sys_rmac s)) \<and>
     queue_owners (rm_slot_queue (sys_rmac s)) + tx_owner (sys_tx s) + radio_owner (sys_radio s) =
       used_packets (rm_packet_pool (sys_rmac s)) \<and>
     (radio_peeked (sys_radio s) \<longrightarrow> 0 < q_len (rm_slot_queue (sys_rmac s)))"

text \<open>Every operation on the queue, as seen by the owners.\<close>

lemma slot_owner_none [simp]: "slot_packet s = None \<Longrightarrow> slot_owner s = {#}"
  "slot_packet s = Some p \<Longrightarrow> slot_owner s = {#p#}"
  by (simp_all add: slot_owner_def)

definition queue_kept :: "rmac_slot_queue \<Rightarrow> rmac_slot_queue \<Rightarrow> bool" where
  "queue_kept q q' \<longleftrightarrow> rmac_slot_queue_inv q' \<and> queue_owners q' = queue_owners q \<and> (0 < q_len q \<longrightarrow> 0 < q_len q')"

lemma insert_kept:
  assumes "rmac_slot_queue_inv q"
  shows "queue_kept q (fst (snd (rmac_slot_queue_insert q s)))"
proof -
  have len: "q_len q \<le> q_len (fst (snd (rmac_slot_queue_insert q s)))"
    by (simp add: rmac_slot_queue_insert_def Let_def)
  have "queue_owners (slot_queue_insert q s) = queue_owners q \<and> rmac_slot_queue_inv (slot_queue_insert q s)"
  proof (cases "slot_queue_has_room q")
    case True
    from slot_queue_insert_room [OF assms True] show ?thesis
      by (simp add: queue_owners_def slot_queue_stored_def)
  qed (use assms in \<open>simp add: slot_queue_insert_full\<close>)
  with len show ?thesis by (simp add: queue_kept_def slot_queue_insert_def)
qed

lemma queue_kept_refl: "rmac_slot_queue_inv q \<Longrightarrow> queue_kept q q"
  by (simp add: queue_kept_def)

lemma queue_kept_trans: "queue_kept p q \<Longrightarrow> queue_kept q r \<Longrightarrow> queue_kept p r"
  by (simp add: queue_kept_def)

lemma slot_fill_kept:
  "rmac_slot_queue_inv q \<Longrightarrow> queue_kept q (snd (slot_fill limit len type time next_slot q))"
proof (induction limit len type time next_slot q rule: slot_fill.induct)
  case (1 limit len type time next_slot q)
  let ?s = "\<lparr>slot_start_us = next_slot, slot_length_us = len, slot_type = type, slot_peer_id = 0, slot_packet = None\<rparr>"
  show ?case
  proof (cases "q_len q < limit \<and> next_slot < time + 2000000 \<and> q_len q < q_size q")
    case True
    note kept = insert_kept [OF 1(2), of ?s]
    from 1(1) [OF True refl] kept have
      "queue_kept (fst (snd (rmac_slot_queue_insert q ?s)))
        (snd (slot_fill limit len type time (next_slot + 200000) (fst (snd (rmac_slot_queue_insert q ?s)))))"
      by (simp add: queue_kept_def)
    with True kept show ?thesis
      by (subst slot_fill.simps) (auto simp: Let_def intro: queue_kept_trans)
  next
    case False
    with 1(2) show ?thesis by (subst slot_fill.simps) (auto intro: queue_kept_refl)
  qed
qed

lemma remove_owners:
  assumes "rmac_slot_queue_inv q" "0 < q_len q" "rmac_slot_queue_remove q = (r, q', s)"
  shows "\<exists>slot. s = Some slot \<and> rmac_slot_queue_inv q' \<and> queue_owners q = slot_owner slot + queue_owners q'"
proof -
  obtain slot where s: "s = Some slot" using assms(2,3) by (auto simp: rmac_slot_queue_remove_def Let_def)
  then have "slot_queue_take q = Some (slot, q')" using assms(3) by (simp add: slot_queue_take_def)
  from slot_queue_take_Some [OF assms(1) this] s show ?thesis by (simp add: queue_owners_def)
qed

lemma attach_owners:
  assumes "rmac_slot_queue_inv q" "rmac_slot_queue_attach_packet q type p = (r, q', s)"
  shows "rmac_slot_queue_inv q' \<and> q_len q' = q_len q \<and>
    (case (r, s) of (RMAC_RET_OK, Some slot) \<Rightarrow> queue_owners q' = add_mset p (queue_owners q)
     | _ \<Rightarrow> q' = q)"
proof -
  have inv: "rmac_slot_queue_inv q'" using slot_queue_attach_inv [OF assms(1), of type p] assms(2) by simp
  show ?thesis
  proof (cases r)
    case RMAC_RET_OK
    then obtain i where i: "i < q_len q" "i < length (q_items q)" "slot_packet (q_items q ! i) = None"
      "q' = q\<lparr>q_items := (q_items q)[i := (q_items q ! i)\<lparr>slot_packet := Some p\<rparr>]\<rparr>"
      "s = Some ((q_items q ! i)\<lparr>slot_packet := Some p\<rparr>)"
      using slot_queue_attach_OK assms(2) by metis
    have len: "q_len q \<le> length (q_items q)" using assms(1) by (simp add: rmac_slot_queue_inv_def)
    let ?x = "q_items q ! i"
    have mem: "?x \<in># rmac_slot_queue_bag q"
      using i len by (auto simp: rmac_slot_queue_bag_def in_set_conv_nth)
    have bag: "rmac_slot_queue_bag q' = add_mset (?x\<lparr>slot_packet := Some p\<rparr>) (rmac_slot_queue_bag q - {#?x#})"
      using i len by (simp add: rmac_slot_queue_bag_def mset_take_update)
    obtain M where M: "rmac_slot_queue_bag q = add_mset ?x M" using mem by (metis insert_DiffM)
    have "queue_owners q' = add_mset p (queue_owners q)"
      using i(3) by (simp add: queue_owners_def bag M)
    with inv i RMAC_RET_OK show ?thesis by simp
  qed (use assms inv in \<open>auto simp: rmac_slot_queue_attach_packet_def Let_def split: option.splits\<close>)
qed

subsection \<open>Operations of the pool\<close>

lemma pool_get_used:
  assumes "rmac_packet_pool_get pool = Some (Some i, pool')"
  shows "used_packets pool' = add_mset i (used_packets pool) \<and> \<not> pool_locked pool'"
proof -
  note g = packet_pool_get_fresh [OF assms]
  have "{k. k < length (pool_used pool') \<and> pool_used pool' ! k} =
      insert i {k. k < length (pool_used pool) \<and> pool_used pool ! k}"
    using g by (auto simp: nth_list_update)
  with g show ?thesis by (simp add: used_packets_def)
qed

lemma pool_get_None: "rmac_packet_pool_get pool = Some (None, pool') \<Longrightarrow> pool' = pool"
  by (auto simp: rmac_packet_pool_get_def split: if_splits option.splits)

lemma pool_release_used:
  assumes "used_packets pool = add_mset i M" "\<not> pool_locked pool"
  shows "\<exists>pool'. rmac_packet_pool_release pool (Some i) = Some (RMAC_RET_OK, pool') \<and> used_packets pool' = M \<and>
    \<not> pool_locked pool'"
proof -
  let ?U = "{k. k < length (pool_used pool) \<and> pool_used pool ! k}"
  have "i \<in># used_packets pool" using assms(1) by simp
  then have i: "i \<in> ?U" by (simp add: used_packets_def)
  have "{k. k < length (pool_used pool) \<and> (pool_used pool)[i := False] ! k} = ?U - {i}"
    using i by (auto simp: nth_list_update)
  moreover have "M = mset_set (?U - {i})"
    using assms(1) i mset_set.remove [of ?U i] by (simp add: used_packets_def)
  ultimately show ?thesis
    using i assms(2) by (simp add: rmac_packet_pool_release_def used_packets_def Let_def)
qed


subsection \<open>Every step of every task\<close>

lemma process_packet_shared:
  "rm_slot_queue (snd (process_packet dec self p)) = rm_slot_queue self"
  "rm_packet_pool (snd (process_packet dec self p)) = rm_packet_pool self"
  by (auto simp: process_packet_def Let_def split: prod.splits option.splits)

lemma rx_process_shared:
  "rm_slot_queue (rx_process_step dec self) = rm_slot_queue self"
  "rm_packet_pool (rx_process_step dec self) = rm_packet_pool self"
  by (simp_all add: rx_process_step_def process_packet_shared split: list.split)

lemma sched_shared:
  assumes "rmac_slot_queue_inv (rm_slot_queue self)"
  shows "queue_kept (rm_slot_queue self) (rm_slot_queue (snd (slot_scheduler_pass t n self))) \<and>
    rm_packet_pool (snd (slot_scheduler_pass t n self)) = rm_packet_pool self"
  using assms
  by (cases "rm_tdma_algo self") (simp_all add: slot_scheduler_pass_def split_beta slot_fill_kept queue_kept_refl)

lemma tx_write_shared:
  "rm_slot_queue (tx_write enc msg p slot self) = rm_slot_queue self"
  "rm_packet_pool (tx_write enc msg p slot self) = rm_packet_pool self"
  by (auto simp: tx_write_def Let_def split: prod.splits option.splits rmac_pbuf_ret.splits)

lemma exec_shared:
  assumes "rmac_slot_queue_inv (rm_slot_queue self)"
  shows "queue_kept (rm_slot_queue self) (rm_slot_queue (fst (snd (rmac_slot_exec ev self slot)))) \<and>
    rm_packet_pool (fst (snd (rmac_slot_exec ev self slot))) = rm_packet_pool self"
  using assms
  by (auto simp: rmac_slot_exec_def rmac_insert_slot_def Let_def insert_kept queue_kept_refl
      split: radio_rx.split option.split)

lemma radio_decide_pc: "radio_owner (radio_decide slot t) = {#}"
  by (simp add: radio_decide_def)

lemma radio_spin_pc: "radio_owner (radio_spin slot t) = {#}" "radio_peeked (radio_spin slot t)"
  by (simp_all add: radio_spin_def Let_def)

lemma radio_step_inv:
  assumes inv: "rmac_system_inv s"
  shows "\<exists>pc self sent. radio_task_step time ev (sys_radio s) (sys_rmac s) = Some (pc, self, sent) \<and>
    rmac_system_inv (s\<lparr>sys_radio := pc, sys_rmac := self\<rparr>)"
proof -
  let ?q = "rm_slot_queue (sys_rmac s)" and ?pool = "rm_packet_pool (sys_rmac s)"
  have q: "rmac_slot_queue_inv ?q" and free: "\<not> pool_locked ?pool"
    and own: "queue_owners ?q + tx_owner (sys_tx s) + radio_owner (sys_radio s) = used_packets ?pool"
    and peeked: "radio_peeked (sys_radio s) \<Longrightarrow> 0 < q_len ?q"
    using inv by (simp_all add: rmac_system_inv_def)
  show ?thesis
  proof (cases "sys_radio s")
    case RS_Peek
    then show ?thesis
      using q free own
      by (auto simp: rmac_slot_queue_peek_def rmac_system_inv_def radio_decide_pc)
  next
    case (RS_Spin slot)
    then show ?thesis using q free own peeked by (simp add: rmac_system_inv_def radio_spin_pc)
  next
    case (RS_Remove slot ex)
    obtain r q' x where rm: "rmac_slot_queue_remove ?q = (r, q', x)" by (metis prod_cases3)
    have "0 < q_len ?q" using peeked RS_Remove by simp
    from remove_owners [OF q this rm] obtain y where
      y: "x = Some y" "rmac_slot_queue_inv q'" "queue_owners ?q = slot_owner y + queue_owners q'" by blast
    then have "queue_owners q' + tx_owner (sys_tx s) + slot_owner y = used_packets ?pool"
      using own RS_Remove by (simp add: add.commute add.left_commute)
    then show ?thesis using RS_Remove rm free y by (simp add: rmac_system_inv_def)
  next
    case (RS_Exec slot)
    obtain r self sent where ex: "rmac_slot_exec ev (sys_rmac s) slot = (r, self, sent)" by (metis prod_cases3)
    with exec_shared [OF q, of ev slot] RS_Exec free own show ?thesis
      by (simp add: rmac_system_inv_def queue_kept_def)
  next
    case (RS_Release slot e)
    show ?thesis
    proof (cases "slot_packet slot")
      case None
      then show ?thesis using RS_Release q free own by (simp add: rmac_system_inv_def rmac_packet_pool_release_def)
    next
      case (Some p)
      have "used_packets ?pool = add_mset p (queue_owners ?q + tx_owner (sys_tx s))"
        using own RS_Release Some by simp
      from pool_release_used [OF this free] show ?thesis
        using RS_Release Some q by (auto simp: rmac_system_inv_def)
    qed
  next
    case RS_Exit
    then show ?thesis using q free own by (simp add: rmac_system_inv_def)
  qed
qed

lemma tx_step_inv:
  assumes inv: "rmac_system_inv s"
  shows "\<exists>pc self. tx_task_step enc new (sys_tx s) (sys_rmac s) = Some (pc, self) \<and>
    rmac_system_inv (s\<lparr>sys_tx := pc, sys_rmac := self\<rparr>)"
proof -
  let ?q = "rm_slot_queue (sys_rmac s)" and ?pool = "rm_packet_pool (sys_rmac s)"
  have q: "rmac_slot_queue_inv ?q" and free: "\<not> pool_locked ?pool"
    and own: "queue_owners ?q + tx_owner (sys_tx s) + radio_owner (sys_radio s) = used_packets ?pool"
    and peeked: "radio_peeked (sys_radio s) \<Longrightarrow> 0 < q_len ?q"
    using inv by (simp_all add: rmac_system_inv_def)
  have flag: "rmac_slot_queue_inv (?q\<lparr>q_tx_available := False\<rparr>)"
    "queue_owners (?q\<lparr>q_tx_available := False\<rparr>) = queue_owners ?q"
    using q by (simp_all add: rmac_slot_queue_inv_def queue_owners_def rmac_slot_queue_bag_def)
  show ?thesis
  proof (cases "sys_tx s")
    case TX_Idle
    then show ?thesis using q free own peeked by (simp add: rmac_system_inv_def)
  next
    case (TX_Alloc msg)
    show ?thesis
    proof (cases "rmac_packet_pool_get ?pool")
      case None
      with free show ?thesis by (simp add: rmac_packet_pool_get_def split: option.splits)
    next
      case (Some r)
      obtain p pool where r: "r = (p, pool)" by fastforce
      show ?thesis
      proof (cases p)
        case None
        with Some r TX_Alloc q free own peeked pool_get_None [of ?pool pool] show ?thesis
          by (simp add: rmac_system_inv_def)
      next
        case p: (Some i)
        with Some r TX_Alloc q own peeked pool_get_used [of ?pool i pool] show ?thesis
          by (simp add: rmac_system_inv_def)
      qed
    qed
  next
    case (TX_Check msg p)
    then show ?thesis using q free own peeked flag by (simp add: rmac_system_inv_def)
  next
    case (TX_Wait msg p)
    then show ?thesis using q free own peeked flag by (simp add: rmac_system_inv_def)
  next
    case (TX_Attach msg p)
    obtain r q' x where at: "rmac_slot_queue_attach_packet ?q RMAC_SLOT_TYPE_TX_BROADCAST p = (r, q', x)"
      by (metis prod_cases3)
    from attach_owners [OF q at] at TX_Attach free own peeked q show ?thesis
      by (cases r; cases x) (simp_all add: rmac_system_inv_def)
  next
    case (TX_Drop p)
    have "used_packets ?pool = add_mset p (queue_owners ?q + radio_owner (sys_radio s))"
      using own TX_Drop by simp
    from pool_release_used [OF this free] show ?thesis
      using TX_Drop q peeked by (auto simp: rmac_system_inv_def)
  next
    case (TX_Write msg p slot)
    then show ?thesis using q free own peeked by (simp add: rmac_system_inv_def tx_write_shared Let_def)
  next
    case TX_Exit
    then show ?thesis using q free own peeked by (simp add: rmac_system_inv_def)
  qed
qed

lemma rmac_init_inv:
  "rmac_system_inv \<lparr>sys_rmac = rmac_init, sys_radio = RS_Peek, sys_tx = TX_Idle, sys_next_slot = t\<rparr>"
proof -
  have none: "{i. i = 0 \<and> [False] ! i} = ({} :: nat set)" by auto
  have sh: "rm_slot_queue rmac_init = rmac_slot_queue_init 31"
    "rm_packet_pool rmac_init = \<lparr>pool_used = [False], pool_locked = False\<rparr>"
    by (simp_all add: rmac_init_def Let_def rmac_set_tdma_algo_def rmac_set_fhss_algo_def rmac_set_universe_key_def
        RMAC_UNIVERSE_KEY_MAX_def radio_scheduler_start_def rmac_packet_pool_init_def)
  show ?thesis
    using slot_queue_init_inv [of 31]
    by (simp add: rmac_system_inv_def sh queue_owners_def rmac_slot_queue_bag_def used_packets_def none)
      (simp add: rmac_slot_queue_init_def)
qed

lemma rmac_step_inv:
  assumes "rmac_step enc dec s s'" "rmac_system_inv s"
  shows "rmac_system_inv s'"
  using assms
proof (induction rule: rmac_step.induct)
  case (radio time ev s pc self sent)
  then show ?case using radio_step_inv [OF radio(2), of time ev] by auto
next
  case (tx msg s pc self)
  then show ?case using tx_step_inv [OF tx(2), of enc msg] by auto
next
  case (sched time s next_slot self)
  then show ?case
    using sched_shared [of "sys_rmac s" time "sys_next_slot s"] by (simp add: rmac_system_inv_def queue_kept_def)
next
  case (rx s)
  then show ?case by (simp add: rmac_system_inv_def rx_process_shared)
next
  case (stop s)
  then show ?case by (simp add: rmac_system_inv_def rmac_stop_def Let_def)
next
  case (start s)
  then show ?case by (simp add: rmac_system_inv_def rmac_start_def)
next
  case (tdma s tdma)
  then show ?case by (simp add: rmac_system_inv_def rmac_set_tdma_algo_def)
qed

lemma rmac_reach_inv: "rmac_reach enc dec s \<Longrightarrow> rmac_system_inv s"
  by (induction rule: rmac_reach.induct) (auto simp: rmac_init_inv rmac_step_inv)

text \<open>
  Property C3. However the tasks interleave, the packets of the pool are accounted for: a
  packet is in use exactly when one holder has it, and it has one holder only, which is a slot in
  the queue, the transmit task before it has attached it, or the radio task while it executes
  the slot. Nothing is lost, and no packet is attached to two slots.
\<close>

theorem rmac_packets_accounted:
  assumes "rmac_reach enc dec s"
  shows "queue_owners (rm_slot_queue (sys_rmac s)) + tx_owner (sys_tx s) + radio_owner (sys_radio s) =
    mset_set {i. i < length (pool_used (rm_packet_pool (sys_rmac s))) \<and> pool_used (rm_packet_pool (sys_rmac s)) ! i}"
  using rmac_reach_inv [OF assms] by (simp add: rmac_system_inv_def used_packets_def)

text \<open>
  Property C7. The release of a packet that is not in use would leave the pool's mutex taken for ever.
  This never happens: in every reachable state of the system both tasks that use the pool can make
  their next step.
\<close>

theorem rmac_tasks_never_block:
  assumes "rmac_reach enc dec s"
  shows "radio_task_step time ev (sys_radio s) (sys_rmac s) \<noteq> None \<and>
    tx_task_step enc msg (sys_tx s) (sys_rmac s) \<noteq> None"
  using radio_step_inv [OF rmac_reach_inv [OF assms], of time ev] tx_step_inv [OF rmac_reach_inv [OF assms], of enc msg]
  by auto

abbreviation sys_start :: rmac_system where
  "sys_start \<equiv> \<lparr>sys_rmac = rmac_init, sys_radio = RS_Peek, sys_tx = TX_Idle, sys_next_slot = 0\<rparr>"

lemma rmac_packets_accounted_witness:
  "queue_owners (rm_slot_queue rmac_init) =
    mset_set {i. i < length (pool_used (rm_packet_pool rmac_init)) \<and> pool_used (rm_packet_pool rmac_init) ! i}"
  using rmac_packets_accounted [of encode_example decode_example sys_start] rmac_reach.start [of encode_example decode_example 0]
  by simp

lemma rmac_tasks_never_block_witness:
  "tx_task_step encode_example \<lparr>txm_buf = [1], txm_destination = 0, txm_context = 0\<rparr> TX_Idle rmac_init \<noteq> None"
  using rmac_tasks_never_block [of encode_example decode_example sys_start 0
      "\<lparr>ev_rx = Rx_timeout, ev_sent = True, ev_time_start = 0, ev_time_end = 0\<rparr>"
      "\<lparr>txm_buf = [1], txm_destination = 0, txm_context = 0\<rparr>"] rmac_reach.start [of encode_example decode_example 0]
  by simp


subsection \<open>Between two nodes\<close>

lemma tx_write_pbuf:
  "rm_tx_pbuf (tx_write enc msg p slot self) =
    (let pbuf = snd (rmac_pbuf_universe_key rmac_pbuf_clear (rm_universe_key self)) in
     pbuf\<lparr>rp_msg := (rp_msg pbuf)
       \<lparr>pk_source := rm_node_id self, pk_has_context := True, pk_context := txm_context msg,
        pk_has_destination := True, pk_destination := txm_destination msg,
        pk_has_counter := True, pk_counter := ucast (rm_tx_counter self),
        pk_has_time := True, pk_time := slot_start_us slot, pk_data := txm_buf msg\<rparr>\<rparr>)"
  by (auto simp: tx_write_def Let_def split: prod.splits option.splits rmac_pbuf_ret.splits)

text \<open>Every packet with the keys of the network is taken up.\<close>

lemma packet_received:
  assumes nanopb: "nanopb_ok enc dec"
    and written: "rmac_pbuf_write enc ((snd (rmac_pbuf_universe_key rmac_pbuf_clear (rm_universe_key b)))\<lparr>rp_msg := m\<rparr>) n =
        (RMAC_PBUF_RET_OK, Some bytes)" "length bytes \<le> RMAC_PBUF_PACKET_LEN_MAX"
    and room: "nbtable_find_or_add_id (rm_nbtable b) (pk_source m) = (Some i, nbs)"
  shows "\<exists>b'. process_packet dec b bytes =
      (if (pk_destination (pk_present m) = 0 \<or> pk_destination (pk_present m) = rm_node_id b) \<and>
          \<not> length (pk_data (pk_present m)) \<in> {1..IRADIO_MAC_RX_MESSAGE_LEN}
       then RMAC_RET_FAILED else RMAC_RET_OK, b') \<and>
    rm_nbtable b' = nbs[i := nbtable_update_rx_counter (nbs ! i) (ucast (pk_counter (pk_present m))) (length (pk_data (pk_present m)))] \<and>
    rm_clients b' =
      (if (pk_destination (pk_present m) = 0 \<or> pk_destination (pk_present m) = rm_node_id b) \<and>
          length (pk_data (pk_present m)) \<in> {1..IRADIO_MAC_RX_MESSAGE_LEN}
       then hradio_mac_put_received_packet (rm_clients b) \<lparr>rxm_buf = pk_data (pk_present m), rxm_source = pk_source m\<rparr>
         (pk_context (pk_present m))
       else rm_clients b)"
proof -
  define rx where "rx = snd (rmac_pbuf_universe_key rmac_pbuf_clear (rm_universe_key b))"
  have wf: "rmac_pbuf_wf rx" unfolding rx_def by (intro rmac_pbuf_wf_universe_key rmac_pbuf_wf_clear)
  let ?tx = "rx\<lparr>rp_msg := m\<rparr>"
  have wft: "rmac_pbuf_wf ?tx" using wf by (simp add: rmac_pbuf_wf_def)
  have inv: "enc (rp_msg ?tx) room = Some data \<Longrightarrow> dec data = Some (pk_present (rp_msg ?tx))" for room data
    using nanopb by (simp add: nanopb_ok_def)
  note w = written [folded rx_def]
  have "\<exists>buf. rmac_pbuf_read dec rx bytes = (RMAC_PBUF_RET_OK, rx\<lparr>rp_msg := pk_present (rp_msg ?tx)\<rparr>, buf)"
    by (rule read_written [OF w(1,2) inv wft wf]) simp_all
  then obtain buf where read: "rmac_pbuf_read dec rx bytes = (RMAC_PBUF_RET_OK, rx\<lparr>rp_msg := pk_present m\<rparr>, buf)" by auto
  have src: "pk_source (pk_present m) = pk_source m" by (simp add: pk_present_def)
  have len: "xs = [] \<or> k < length xs \<longleftrightarrow> length xs \<notin> {1..k}" for xs :: "u8 list" and k by (cases xs) auto
  show ?thesis using read room
    by (auto simp: process_packet_def rx_def [symmetric] src len Let_def)
qed

text \<open>
  Property C9. Every packet that was written with the universe key of a node, and whose bytes keep to the receiver's limit, is
  taken up there, when the node can manage its sender: the neighbour's counter and traffic are updated, and the data
  goes, with the sender's identifier, into the queues of the clients of the packet's context, exactly when the packet is
  for all or for this node and has between one byte of data and as many as a message has room for. The fields of a packet
  are those that it has: a field whose flag is not set is not there, whatever its value.
\<close>

theorem rmac_packet_received:
  assumes nanopb: "nanopb_ok enc dec"
    and written: "rmac_pbuf_write enc ((snd (rmac_pbuf_universe_key rmac_pbuf_clear (rm_universe_key b)))\<lparr>rp_msg := m\<rparr>) n =
        (RMAC_PBUF_RET_OK, Some bytes)" "length bytes \<le> RMAC_PBUF_PACKET_LEN_MAX"
    and room: "nbtable_find_or_add_id (rm_nbtable b) (pk_source m) = (Some i, nbs)"
  shows "\<exists>b'. process_packet dec b bytes =
      (if (pk_destination (pk_present m) = 0 \<or> pk_destination (pk_present m) = rm_node_id b) \<and>
          \<not> length (pk_data (pk_present m)) \<in> {1..IRADIO_MAC_RX_MESSAGE_LEN}
       then RMAC_RET_FAILED else RMAC_RET_OK, b') \<and>
    rm_nbtable b' = nbs[i := nbtable_update_rx_counter (nbs ! i) (ucast (pk_counter (pk_present m))) (length (pk_data (pk_present m)))] \<and>
    rm_clients b' =
      (if (pk_destination (pk_present m) = 0 \<or> pk_destination (pk_present m) = rm_node_id b) \<and>
          length (pk_data (pk_present m)) \<in> {1..IRADIO_MAC_RX_MESSAGE_LEN}
       then hradio_mac_put_received_packet (rm_clients b) \<lparr>rxm_buf = pk_data (pk_present m), rxm_source = pk_source m\<rparr>
         (pk_context (pk_present m))
       else rm_clients b)"
  using assms by (rule packet_received)

text \<open>A packet with two bytes for the clients of context 3.\<close>

definition packet_example :: rmac_packet where
  "packet_example = RmacPacket_init_default\<lparr>pk_source := 7, pk_has_context := True, pk_context := 3,
     pk_has_data := True, pk_data := [9, 8]\<rparr>"

definition receiver_example :: rmac where
  "receiver_example = rmac_init\<lparr>rm_clients := [\<lparr>cl_context = 3, cl_rxqueue = []\<rparr>]\<rparr>"

lemma receiver_example_room: "\<exists>i nbs. nbtable_find_or_add_id (rm_nbtable receiver_example) n = (Some i, nbs)" if "n \<in> {0, 7}"
proof -
  have "fst (nbtable_find_or_add_id (nbtable_init 16) 0) \<noteq> None" "fst (nbtable_find_or_add_id (nbtable_init 16) 7) \<noteq> None" by code_simp+
  moreover have "rm_nbtable receiver_example = nbtable_init 16"
    by (simp add: receiver_example_def rmac_init_def Let_def rmac_set_tdma_algo_def rmac_set_fhss_algo_def rmac_set_universe_key_def
        RMAC_UNIVERSE_KEY_MAX_def radio_scheduler_start_def rmac_zero_def)
  ultimately show ?thesis using that
    by (cases "nbtable_find_or_add_id (nbtable_init 16) n") auto
qed

lemma rmac_packet_received_witness:
  "\<exists>bytes b'. process_packet decode_all receiver_example bytes = (RMAC_RET_OK, b') \<and>
    rm_clients b' = [\<lparr>cl_context = 3, cl_rxqueue = [\<lparr>rxm_buf = [9, 8], rxm_source = 7\<rparr>]\<rparr>]"
proof -
  let ?tx = "(snd (rmac_pbuf_universe_key rmac_pbuf_clear (rm_universe_key receiver_example)))\<lparr>rp_msg := packet_example\<rparr>"
  have wf: "rmac_pbuf_wf ?tx"
    using rmac_pbuf_wf_universe_key [OF rmac_pbuf_wf_clear, of "rm_universe_key receiver_example"] by (simp add: rmac_pbuf_wf_def)
  have "\<exists>data. encode_all packet_example 240 = Some data \<and> length data = 31"
    by (simp add: encode_all_def packet_example_def pk_present_def RmacPacket_init_default_def Let_def)
  then obtain data where e: "encode_all (rp_msg ?tx) (256 - RMAC_PBUF_SIV_LEN) = Some data" "length data = 31"
    by (auto simp: RMAC_PBUF_SIV_LEN_def)
  have "data \<noteq> []" "RMAC_PBUF_SIV_LEN + length data \<le> 256" using e(2) by (auto simp: RMAC_PBUF_SIV_LEN_def)
  from rmac_pbuf_write_Some [where pb_encode = encode_all and n = 256, OF wf e(1) this] obtain bytes where
    w: "rmac_pbuf_write encode_all ?tx 256 = (RMAC_PBUF_RET_OK, Some bytes)" "length bytes \<le> RMAC_PBUF_PACKET_LEN_MAX"
    using e(2) by (auto simp: rmac_pbuf_lens)
  obtain i nbs where r: "nbtable_find_or_add_id (rm_nbtable receiver_example) (pk_source packet_example) = (Some i, nbs)"
    using receiver_example_room [of 7] by (auto simp: packet_example_def)
  from rmac_packet_received [OF encode_all_ok w r] show ?thesis
    by (auto simp: packet_example_def receiver_example_def pk_present_def RmacPacket_init_default_def IRADIO_MAC_RX_MESSAGE_LEN_def)
qed

text \<open>The transmit task sets the data and its size, but not the flag that says that there is data: what it writes reaches
  no client.\<close>

theorem sent_without_data:
  assumes "rmac_pbuf_write enc (rm_tx_pbuf (tx_write enc msg p slot a)) 256 = (RMAC_PBUF_RET_OK, Some bytes)"
    and "length bytes \<le> RMAC_PBUF_PACKET_LEN_MAX" "nanopb_ok enc dec" "rm_universe_key b = rm_universe_key a"
    and "nbtable_find_or_add_id (rm_nbtable b) (rm_node_id a) = (Some i, nbs)"
  shows "\<exists>b'. process_packet dec b bytes =
      (if txm_destination msg = 0 \<or> txm_destination msg = rm_node_id b then RMAC_RET_FAILED else RMAC_RET_OK, b') \<and>
    rm_clients b' = rm_clients b"
proof -
  let ?pb = "snd (rmac_pbuf_universe_key rmac_pbuf_clear (rm_universe_key b))"
  define m where "m = rp_msg (rm_tx_pbuf (tx_write enc msg p slot a))"
  have "rp_msg ?pb = RmacPacket_init_default"
    by (simp add: rmac_pbuf_universe_key_def rmac_pbuf_clear_def Let_def)
  then have m: "m = RmacPacket_init_default\<lparr>pk_source := rm_node_id a, pk_has_context := True, pk_context := txm_context msg,
      pk_has_destination := True, pk_destination := txm_destination msg, pk_has_counter := True,
      pk_counter := ucast (rm_tx_counter a), pk_has_time := True, pk_time := slot_start_us slot, pk_data := txm_buf msg\<rparr>"
    by (simp add: m_def tx_write_pbuf Let_def assms(4))
  have "rm_tx_pbuf (tx_write enc msg p slot a) = ?pb\<lparr>rp_msg := m\<rparr>"
    by (simp add: m_def tx_write_pbuf Let_def assms(4))
  then have w: "rmac_pbuf_write enc (?pb\<lparr>rp_msg := m\<rparr>) 256 = (RMAC_PBUF_RET_OK, Some bytes)" using assms(1) by simp
  have r: "nbtable_find_or_add_id (rm_nbtable b) (pk_source m) = (Some i, nbs)" using assms(5) by (simp add: m)
  have f: "pk_destination (pk_present m) = txm_destination msg" "pk_data (pk_present m) = []"
    by (simp_all add: m pk_present_def RmacPacket_init_default_def)
  show ?thesis using packet_received [OF assms(3) w assms(2) r] by (auto simp: f)
qed

subsection \<open>The radio window\<close>

text \<open>The length of the shortened window is computed in 32 bits without a check: with between two and
  three milliseconds left it wraps to more than an hour.\<close>

lemma radio_spin_window_wraps:
  "\<exists>slot time. slot_length_us slot = 200000 \<and>
    radio_spin slot time = RS_Remove (slot\<lparr>slot_length_us := 4294966796\<rparr>) True"
proof -
  let ?slot = "rmac_slot_zero\<lparr>slot_length_us := 200000\<rparr>"
  have "radio_spin ?slot 197500 = RS_Remove (?slot\<lparr>slot_length_us := 4294966796\<rparr>) True"
    by (simp add: radio_spin_def rmac_slot_zero_def)
  then show ?thesis by (intro exI [of _ ?slot] exI [of _ 197500]) simp
qed

text \<open>The shortened length never reaches the radio, because removing the slot from the queue overwrites
  the copy that holds it.\<close>

lemma radio_window_not_shortened:
  assumes "rmac_slot_queue_remove (rm_slot_queue self) = (r, q', Some removed)"
  shows "radio_task_step t ev (RS_Remove (slot\<lparr>slot_length_us := len\<rparr>) True) self =
    Some (RS_Exec removed, self\<lparr>rm_slot_queue := q'\<rparr>, None)"
  using assms by simp

end
