(* ===== verification/Nbus_Packet.thy ===== *)
theory Nbus_Packet
  imports Prelude "HOL-Library.Sublist"
begin

text \<open>
  NBUS, the CAN bus protocol of the firmware (\<open>services/nbus/nbus.c\<close>), layers 2 and 3: the
  29 bit frame identifier, the state machine that cuts a packet into frames
  (\<open>NbusTxPacket\<close>) and the one that puts frames together again (\<open>NbusRxPacket\<close>).
  The channels and tasks that use them are in \<open>Nbus\<close>.
\<close>

subsection \<open>Frame identifiers\<close>

datatype nbus_direction = NBUS_DIR_REQUEST | NBUS_DIR_RESPONSE | NBUS_DIR_PUBLISH | NBUS_DIR_SUBSCRIBE

fun nbus_direction_value :: "nbus_direction \<Rightarrow> nat" where
  "nbus_direction_value NBUS_DIR_REQUEST = 0"
| "nbus_direction_value NBUS_DIR_RESPONSE = 1"
| "nbus_direction_value NBUS_DIR_PUBLISH = 2"
| "nbus_direction_value NBUS_DIR_SUBSCRIBE = 3"

definition nbus_direction_of :: "nat \<Rightarrow> nbus_direction" where
  "nbus_direction_of n =
     (if n = 0 then NBUS_DIR_REQUEST else if n = 1 then NBUS_DIR_RESPONSE
      else if n = 2 then NBUS_DIR_PUBLISH else NBUS_DIR_SUBSCRIBE)"

text \<open>The reserved bits \<open>res1\<close> and \<open>res2\<close> are never read and not kept.\<close>

record nbus_id =
  sid_channel :: u16
  sid_direction :: nbus_direction
  sid_opcode :: u8

definition nbus_id_zero :: nbus_id where
  "nbus_id_zero = \<lparr>sid_channel = 0, sid_direction = NBUS_DIR_REQUEST, sid_opcode = 0\<rparr>"

definition nbus_parse_id :: "u32 \<Rightarrow> nbus_id" where
  "nbus_parse_id w =
     \<lparr>sid_channel = ucast (drop_bit 12 w AND 0xffff),
      sid_direction = nbus_direction_of (unat (drop_bit 10 w AND 0x3)),
      sid_opcode = ucast (w AND 0xff)\<rparr>"

definition nbus_build_id :: "nbus_id \<Rightarrow> u32" where
  "nbus_build_id s =
     (let r = 0;
          r = r + push_bit 12 (ucast (sid_channel s));
          r = r + push_bit 10 (of_nat (nbus_direction_value (sid_direction s)));
          r = r + ucast (sid_opcode s)
      in r)"

definition NBUS_CHANNEL_MTU :: nat where "NBUS_CHANNEL_MTU = 64 * 8"
definition NBUS_OP_LEADING_MIN :: u8 where "NBUS_OP_LEADING_MIN = 0x00"
definition NBUS_OP_LEADING_MAX :: u8 where "NBUS_OP_LEADING_MAX = 0x3f"
definition NBUS_OP_DATA_MIN :: u8 where "NBUS_OP_DATA_MIN = 0x40"
definition NBUS_OP_DATA_MAX :: u8 where "NBUS_OP_DATA_MAX = 0xbf"
definition NBUS_OP_TRAILING :: u8 where "NBUS_OP_TRAILING = 0xc0"
definition NBUS_OP_ADVERTISEMENT :: u8 where "NBUS_OP_ADVERTISEMENT = 0xc1"
definition NBUS_SIV_LEN :: nat where "NBUS_SIV_LEN = 8"
definition NBUS_ADV_TIME :: nat where "NBUS_ADV_TIME = 10"

lemmas nbus_consts = NBUS_CHANNEL_MTU_def NBUS_OP_LEADING_MIN_def NBUS_OP_LEADING_MAX_def
  NBUS_OP_DATA_MIN_def NBUS_OP_DATA_MAX_def NBUS_OP_TRAILING_def NBUS_OP_ADVERTISEMENT_def
  NBUS_SIV_LEN_def

datatype nbus_ret = NBUS_RET_OK | NBUS_RET_FAILED | NBUS_RET_BAD_PARAM | NBUS_RET_VOID
  | NBUS_RET_INVALID | NBUS_RET_BIG

subsection \<open>The leading frame\<close>

record nbus_leading_frame_msg =
  lf_counter :: u32
  lf_len :: u16
  lf_flags :: u16

definition store16_le :: "u16 \<Rightarrow> u8 list" where
  "store16_le v = [ucast v, ucast (drop_bit 8 v)]"

definition load16_le :: "u8 list \<Rightarrow> u16" where
  "load16_le p = ucast (p ! 0) OR push_bit 8 (ucast (p ! 1))"

text \<open>The packed structure in memory on the little-endian target.\<close>

definition lf_bytes :: "nbus_leading_frame_msg \<Rightarrow> u8 list" where
  "lf_bytes m = store32_le (lf_counter m) @ store16_le (lf_len m) @ store16_le (lf_flags m)"

subsection \<open>Transmit packet\<close>

datatype nbus_txp_state = NBUS_TXP_EMPTY | NBUS_TXP_LEADING | NBUS_TXP_DATA | NBUS_TXP_TRAILING
  | NBUS_TXP_DONE

record nbus_txpacket =
  tx_state :: nbus_txp_state
  tx_channel_id :: u16
  tx_ep :: u8
  tx_packet_counter :: u32
  tx_next_frag :: nat
  tx_packet_sent :: nat
  tx_buf :: "u8 list"
  tx_len :: nat

definition nbus_txpacket_init :: "u16 \<Rightarrow> u8 \<Rightarrow> u32 \<Rightarrow> nbus_ret \<times> nbus_txpacket" where
  "nbus_txpacket_init channel_id ep packet_counter =
     (NBUS_RET_OK,
      \<lparr>tx_state = NBUS_TXP_LEADING, tx_channel_id = channel_id, tx_ep = ep,
       tx_packet_counter = packet_counter, tx_next_frag = 0, tx_packet_sent = 0, tx_buf = [],
       tx_len = 0\<rparr>)"

definition nbus_txpacket_buf_ref :: "nbus_txpacket \<Rightarrow> u8 list \<Rightarrow> nat \<Rightarrow> nbus_ret \<times> nbus_txpacket" where
  "nbus_txpacket_buf_ref self buf len = (NBUS_RET_OK, self\<lparr>tx_buf := buf, tx_len := len\<rparr>)"

definition nbus_txpacket_buf_copy :: "nbus_txpacket \<Rightarrow> u8 list \<Rightarrow> nat \<Rightarrow> nbus_ret \<times> nbus_txpacket" where
  "nbus_txpacket_buf_copy self buf len = (NBUS_RET_FAILED, self)"

text \<open>One fragment: the identifier, the contents of \<open>data\<close> and the length are written through
  pointers. The outer \<open>None\<close> is a copy out of bounds of \<open>data\<close> or of the packet.\<close>

definition nbus_txpacket_get_fragment ::
  "nbus_txpacket \<Rightarrow> nbus_id \<Rightarrow> u8 list \<Rightarrow> nat \<Rightarrow>
   (nbus_ret \<times> nbus_txpacket \<times> nbus_id \<times> u8 list \<times> nat) option" where
  "nbus_txpacket_get_fragment self sid data len =
     (let sid' = sid\<lparr>sid_channel := tx_channel_id self, sid_direction := NBUS_DIR_RESPONSE\<rparr> in
      case tx_state self of
        NBUS_TXP_LEADING \<Rightarrow>
          let lf = lf_bytes \<lparr>lf_counter = tx_packet_counter self, lf_len = of_nat (tx_len self), lf_flags = 0\<rparr>
          in (case mem_write data 0 lf of
                None \<Rightarrow> None
              | Some data \<Rightarrow> Some (NBUS_RET_OK,
                  self\<lparr>tx_packet_sent := 0, tx_next_frag := 0, tx_state := NBUS_TXP_DATA\<rparr>,
                  sid'\<lparr>sid_opcode := NBUS_OP_LEADING_MIN + tx_ep self\<rparr>, data, length lf))
      | NBUS_TXP_DATA \<Rightarrow>
          let frag_len = sub32 (tx_len self) (tx_packet_sent self);
              frag_len = (if frag_len > 8 then 8 else frag_len)
          in (case mem_read (tx_buf self) (tx_packet_sent self) frag_len of
                None \<Rightarrow> None
              | Some frag \<Rightarrow>
                  (case mem_write data 0 frag of
                     None \<Rightarrow> None
                   | Some data \<Rightarrow>
                       let packet_sent = add32 (tx_packet_sent self) frag_len
                       in Some (NBUS_RET_OK,
                         self\<lparr>tx_packet_sent := packet_sent, tx_next_frag := add32 (tx_next_frag self) 1,
                           tx_state := (if packet_sent = tx_len self then NBUS_TXP_TRAILING else NBUS_TXP_DATA)\<rparr>,
                         sid'\<lparr>sid_opcode := NBUS_OP_DATA_MIN + of_nat (tx_next_frag self)\<rparr>, data, frag_len)))
      | NBUS_TXP_TRAILING \<Rightarrow>
          (case mem_write data 0 (replicate NBUS_SIV_LEN 0) of
             None \<Rightarrow> None
           | Some data \<Rightarrow> Some (NBUS_RET_OK, self\<lparr>tx_state := NBUS_TXP_DONE\<rparr>,
               sid'\<lparr>sid_opcode := NBUS_OP_TRAILING\<rparr>, data, NBUS_SIV_LEN))
      | NBUS_TXP_DONE \<Rightarrow> Some (NBUS_RET_VOID, self, sid, data, len)
      | NBUS_TXP_EMPTY \<Rightarrow> Some (NBUS_RET_FAILED, self, sid, data, len))"

subsection \<open>Receive packet\<close>

datatype nbus_rxp_state = NBUS_RXP_EMPTY | NBUS_RXP_READY | NBUS_RXP_DATA | NBUS_RXP_TRAILING
  | NBUS_RXP_DONE | NBUS_RXP_INVALID | NBUS_RXP_VOID | NBUS_RXP_INVALID_ID

text \<open>\<open>rx_done\<close> is the binary semaphore: whether it is given; \<open>None\<close> when there is none.\<close>

record nbus_rxpacket =
  rx_state :: nbus_rxp_state
  rx_buf :: "u8 list"
  rx_buf_size :: nat
  rx_frame_expected :: u32
  rx_packet_size :: nat
  rx_expected_packet_size :: nat
  rx_ep :: u8
  rx_done :: "bool option"

definition nbus_rxpacket_zero :: nbus_rxpacket where
  "nbus_rxpacket_zero = \<lparr>rx_state = NBUS_RXP_EMPTY, rx_buf = [], rx_buf_size = 0, rx_frame_expected = 0,
     rx_packet_size = 0, rx_expected_packet_size = 0, rx_ep = 0, rx_done = None\<rparr>"

text \<open>\<open>mem\<close> is the block that \<open>malloc\<close> returns (\<open>max_size\<close> bytes of any contents), \<open>sem\<close> tells
  whether the semaphore can be created (it is created empty).\<close>

definition nbus_rxpacket_init :: "u8 list option \<Rightarrow> bool \<Rightarrow> nat \<Rightarrow> nbus_ret \<times> nbus_rxpacket" where
  "nbus_rxpacket_init mem sem max_size =
     (let self = nbus_rxpacket_zero in
      case mem of
        None \<Rightarrow> (NBUS_RET_FAILED, self)
      | Some buf \<Rightarrow>
          let self = self\<lparr>rx_buf := buf, rx_buf_size := max_size\<rparr> in
          if \<not> sem then (NBUS_RET_FAILED, self)
          else (NBUS_RET_OK, self\<lparr>rx_done := Some False, rx_state := NBUS_RXP_READY\<rparr>))"

definition nbus_rxpacket_free :: "nbus_rxpacket \<Rightarrow> nbus_ret \<times> nbus_rxpacket" where
  "nbus_rxpacket_free self = (NBUS_RET_OK, self\<lparr>rx_buf := [], rx_buf_size := 0, rx_done := None\<rparr>)"

definition nbus_rxpacket_reset :: "nbus_rxpacket \<Rightarrow> nbus_ret \<times> nbus_rxpacket" where
  "nbus_rxpacket_reset self = (NBUS_RET_OK, self\<lparr>rx_state := NBUS_RXP_READY\<rparr>)"

text \<open>The three kinds of frames of \<open>nbus_rxpacket_append\<close>. \<open>buf\<close> is the memory the pointer
  refers to (the 64 byte buffer of a CAN message), \<open>len\<close> the length of the frame: the header of the
  leading frame is read without looking at \<open>len\<close>.\<close>

definition nbus_rx_leading ::
  "nbus_rxpacket \<Rightarrow> nbus_id \<Rightarrow> u8 list \<Rightarrow> nat \<Rightarrow> (nbus_ret \<times> nbus_rxpacket) option" where
  "nbus_rx_leading self sid buf len =
     (let ep = sid_opcode sid - NBUS_OP_LEADING_MIN;
          self = (if rx_state self = NBUS_RXP_DONE then self\<lparr>rx_state := NBUS_RXP_READY\<rparr> else self);
          self = (if rx_state self \<noteq> NBUS_RXP_READY then self\<lparr>rx_state := NBUS_RXP_READY\<rparr> else self)
      in (case mem_read buf 4 2 of
            None \<Rightarrow> None
          | Some b \<Rightarrow>
              let lf_len = unat (load16_le b) in
              if lf_len > rx_buf_size self then Some (NBUS_RET_FAILED, self)
              else Some (NBUS_RET_OK,
                self\<lparr>rx_packet_size := 0, rx_expected_packet_size := lf_len, rx_frame_expected := 0,
                  rx_ep := ep, rx_state := NBUS_RXP_DATA\<rparr>)))"

definition nbus_rx_data ::
  "nbus_rxpacket \<Rightarrow> nbus_id \<Rightarrow> u8 list \<Rightarrow> nat \<Rightarrow> (nbus_ret \<times> nbus_rxpacket) option" where
  "nbus_rx_data self sid buf len =
     (if rx_state self \<noteq> NBUS_RXP_DATA then Some (NBUS_RET_FAILED, self)
      else
        let frame = ucast (sid_opcode sid - NBUS_OP_DATA_MIN) in
        if rx_frame_expected self \<noteq> frame then Some (NBUS_RET_FAILED, self)
        else if add32 (rx_packet_size self) len > rx_expected_packet_size self then Some (NBUS_RET_FAILED, self)
        else
          (case mem_read buf 0 len of
             None \<Rightarrow> None
           | Some frag \<Rightarrow>
               (case mem_write (rx_buf self) (rx_packet_size self) frag of
                  None \<Rightarrow> None
                | Some b \<Rightarrow>
                    let self = self\<lparr>rx_buf := b, rx_packet_size := add32 (rx_packet_size self) len,
                          rx_frame_expected := rx_frame_expected self + 1\<rparr>
                    in Some (NBUS_RET_OK,
                         (if rx_packet_size self = rx_expected_packet_size self
                          then self\<lparr>rx_state := NBUS_RXP_TRAILING\<rparr> else self)))))"

definition nbus_rx_trailing :: "nbus_rxpacket \<Rightarrow> (nbus_ret \<times> nbus_rxpacket) option" where
  "nbus_rx_trailing self =
     (if rx_state self \<noteq> NBUS_RXP_TRAILING then
        Some (NBUS_RET_FAILED, self\<lparr>rx_state := NBUS_RXP_INVALID\<rparr>)
      else Some (NBUS_RET_OK,
        self\<lparr>rx_state := NBUS_RXP_DONE, rx_done := map_option (\<lambda>_. True) (rx_done self)\<rparr>))"

definition nbus_rxpacket_append ::
  "nbus_rxpacket \<Rightarrow> nbus_id \<Rightarrow> u8 list \<Rightarrow> nat \<Rightarrow> (nbus_ret \<times> nbus_rxpacket) option" where
  "nbus_rxpacket_append self sid buf len =
     (if rx_state self = NBUS_RXP_EMPTY then Some (NBUS_RET_FAILED, self)
      else
        let op = sid_opcode sid in
        if NBUS_OP_LEADING_MIN \<le> op \<and> op \<le> NBUS_OP_LEADING_MAX then nbus_rx_leading self sid buf len
        else if NBUS_OP_DATA_MIN \<le> op \<and> op \<le> NBUS_OP_DATA_MAX then nbus_rx_data self sid buf len
        else if op = NBUS_OP_TRAILING then nbus_rx_trailing self
        else if op = NBUS_OP_ADVERTISEMENT then Some (NBUS_RET_INVALID, self)
        else Some (NBUS_RET_FAILED, self))"

end
