(* ===== verification/Cc_Rpc.thy ===== *)
theory Cc_Rpc
  imports Prelude "HOL-Library.Monad_Syntax"
begin

text \<open>
  The command processor of NBUS channels (\<open>services/nbus/cc-rpc.c\<close>): a request is a CBOR map, every
  key that names a handler is answered with the value read from or written to it, or with null.

  The CBOR library (tinycbor, not part of the sources) is the record \<open>cbor\<close>: the parser functions on
  a cursor of type \<open>'v\<close>, and the encoder as a function from the items of the response map to the bytes
  that end up in a buffer of the given size. Handler functions work on the owner \<open>'s\<close> of the instance.
\<close>

datatype cbor_rpc_ret = CBOR_RPC_RET_OK | CBOR_RPC_RET_FAILED | CBOR_RPC_RET_NULL

definition CBOR_RPC_REQ_SIZE :: nat where "CBOR_RPC_REQ_SIZE = 256"
definition CBOR_RPC_RESP_SIZE :: nat where "CBOR_RPC_RESP_SIZE = 256"

datatype cbor_out = Out_text string | Out_bool bool | Out_int int | Out_null

record 'v cbor =
  cb_init :: "u8 list \<Rightarrow> 'v option"
  cb_is_map :: "'v \<Rightarrow> bool"
  cb_enter :: "'v \<Rightarrow> 'v option"
  cb_at_end :: "'v \<Rightarrow> bool"
  cb_advance :: "'v \<Rightarrow> 'v"
  cb_is_null :: "'v \<Rightarrow> bool"
  cb_is_text :: "'v \<Rightarrow> bool"
  cb_is_int :: "'v \<Rightarrow> bool"
  cb_is_bool :: "'v \<Rightarrow> bool"
  cb_text_equals :: "'v \<Rightarrow> string \<Rightarrow> bool option"
  cb_text :: "'v \<Rightarrow> nat \<Rightarrow> string"
  cb_int :: "'v \<Rightarrow> int"
  cb_bool :: "'v \<Rightarrow> bool"
  cb_encode :: "nat \<Rightarrow> cbor_out list \<Rightarrow> u8 list"

text \<open>The tagged union of a handler; a missing function is \<open>None\<close>, a function that fails returns
  \<open>None\<close>.\<close>

datatype 's cbor_rpc_htype =
    CBOR_RPC_HTYPE_NONE
  | CBOR_RPC_HTYPE_INT "('s \<Rightarrow> int option) option" "('s \<Rightarrow> int \<Rightarrow> 's option) option"
  | CBOR_RPC_HTYPE_STRING "('s \<Rightarrow> nat \<Rightarrow> string option) option" "('s \<Rightarrow> string \<Rightarrow> 's option) option"
  | CBOR_RPC_HTYPE_BOOL "('s \<Rightarrow> bool option) option" "('s \<Rightarrow> bool \<Rightarrow> 's option) option"
  | CBOR_RPC_HTYPE_FUNCTION

type_synonym 's cbor_rpc_handler = "string \<times> 's cbor_rpc_htype"

text \<open>The list of handlers, the last one added first.\<close>

definition cbor_rpc_init :: "cbor_rpc_ret \<times> 's cbor_rpc_handler list" where
  "cbor_rpc_init = (CBOR_RPC_RET_OK, [])"

definition cbor_rpc_add_handler ::
  "'s cbor_rpc_handler list \<Rightarrow> 's cbor_rpc_handler option \<Rightarrow> cbor_rpc_ret \<times> 's cbor_rpc_handler list" where
  "cbor_rpc_add_handler self handler =
     (case handler of
        None \<Rightarrow> (CBOR_RPC_RET_FAILED, self)
      | Some h \<Rightarrow> (CBOR_RPC_RET_OK, h # self))"

definition cbor_rpc_parse :: "'v cbor \<Rightarrow> u8 list \<Rightarrow> cbor_rpc_ret \<times> 'v option" where
  "cbor_rpc_parse cb buf =
     (if length buf > CBOR_RPC_REQ_SIZE then (CBOR_RPC_RET_FAILED, None)
      else case cb_init cb buf of
        None \<Rightarrow> (CBOR_RPC_RET_FAILED, None)
      | Some v \<Rightarrow> if \<not> cb_is_map cb v then (CBOR_RPC_RET_FAILED, Some v) else (CBOR_RPC_RET_OK, Some v))"

text \<open>Reading a value: \<open>Some\<close> item when the handler gave one. A handler without type fails at once;
  the other failures go on to the tests for a value to be written.\<close>

definition cbor_rpc_read :: "'s \<Rightarrow> 's cbor_rpc_htype \<Rightarrow> cbor_out option" where
  "cbor_rpc_read s htype =
     (case htype of
        CBOR_RPC_HTYPE_STRING (Some read) _ \<Rightarrow> map_option Out_text (read s 64)
      | CBOR_RPC_HTYPE_BOOL (Some read) _ \<Rightarrow> map_option Out_bool (read s)
      | CBOR_RPC_HTYPE_INT (Some read) _ \<Rightarrow> map_option Out_int (read s)
      | _ \<Rightarrow> None)"

definition cbor_rpc_readable :: "'s cbor_rpc_htype \<Rightarrow> bool" where
  "cbor_rpc_readable htype =
     (case htype of CBOR_RPC_HTYPE_STRING _ _ \<Rightarrow> True | CBOR_RPC_HTYPE_BOOL _ _ \<Rightarrow> True
      | CBOR_RPC_HTYPE_INT _ _ \<Rightarrow> True | _ \<Rightarrow> False)"

definition cbor_rpc_call_handler ::
  "'v cbor \<Rightarrow> 's \<Rightarrow> 's cbor_rpc_htype \<Rightarrow> 'v \<Rightarrow> cbor_rpc_ret \<times> 's \<times> cbor_out list" where
  "cbor_rpc_call_handler cb s htype v =
     (case (if cb_is_null cb v then cbor_rpc_read s htype else None) of
        Some out \<Rightarrow> (CBOR_RPC_RET_OK, s, [out])
      | None \<Rightarrow>
      if cb_is_null cb v \<and> \<not> cbor_rpc_readable htype then (CBOR_RPC_RET_FAILED, s, [])
      else case (case htype of
          CBOR_RPC_HTYPE_STRING _ (Some write) \<Rightarrow>
            if cb_is_text cb v then map_option (\<lambda>s. (s, Out_text (cb_text cb v 64))) (write s (cb_text cb v 64)) else None
        | CBOR_RPC_HTYPE_INT _ (Some write) \<Rightarrow>
            if cb_is_int cb v then map_option (\<lambda>s. (s, Out_int (cb_int cb v))) (write s (cb_int cb v)) else None
        | CBOR_RPC_HTYPE_BOOL _ (Some write) \<Rightarrow>
            if cb_is_bool cb v then map_option (\<lambda>s. (s, Out_bool (cb_bool cb v))) (write s (cb_bool cb v)) else None
        | _ \<Rightarrow> None) of
        Some (s, out) \<Rightarrow> (CBOR_RPC_RET_OK, s, [out])
      | None \<Rightarrow> (CBOR_RPC_RET_FAILED, s, []))"

text \<open>The search for the handler of a key; the outer \<open>None\<close> is an error of the comparison.\<close>

fun cbor_rpc_find :: "'v cbor \<Rightarrow> 's cbor_rpc_handler list \<Rightarrow> 'v \<Rightarrow> 's cbor_rpc_handler option option" where
  "cbor_rpc_find cb [] v = Some None"
| "cbor_rpc_find cb (h # hs) v =
     (case cb_text_equals cb v (fst h) of
        None \<Rightarrow> None
      | Some eq \<Rightarrow> if eq then Some (Some h) else cbor_rpc_find cb hs v)"

text \<open>The loop over the map. No result is a loop that does not end (an \<open>advance\<close> that makes no
  progress: its errors are ignored).\<close>

partial_function (option) cbor_rpc_loop ::
  "'v cbor \<Rightarrow> 's cbor_rpc_handler list \<Rightarrow> 's \<Rightarrow> 'v \<Rightarrow> cbor_out list \<Rightarrow> (cbor_rpc_ret \<times> 's \<times> cbor_out list) option" where
  "cbor_rpc_loop cb hs s v out =
     (if cb_at_end cb v then Some (CBOR_RPC_RET_OK, s, out)
      else if \<not> cb_is_text cb v then Some (CBOR_RPC_RET_FAILED, s, out)
      else case cbor_rpc_find cb hs v of
        None \<Rightarrow> Some (CBOR_RPC_RET_FAILED, s, out)
      | Some None \<Rightarrow> cbor_rpc_loop cb hs s (cb_advance cb (cb_advance cb v)) out
      | Some (Some h) \<Rightarrow>
          (case cbor_rpc_call_handler cb s (snd h) (cb_advance cb v) of
             (ret, s, written) \<Rightarrow>
               cbor_rpc_loop cb hs s (cb_advance cb (cb_advance cb v))
                 (out @ [Out_text (fst h)] @ written @ (if ret \<noteq> CBOR_RPC_RET_OK then [Out_null] else []))))"

definition cbor_rpc_run ::
  "'v cbor \<Rightarrow> 's cbor_rpc_handler list \<Rightarrow> 's \<Rightarrow> 'v \<Rightarrow> (cbor_rpc_ret \<times> 's \<times> cbor_out list) option" where
  "cbor_rpc_run cb hs s parser_map =
     (case cb_enter cb parser_map of
        None \<Rightarrow> Some (CBOR_RPC_RET_FAILED, s, [])
      | Some v \<Rightarrow> cbor_rpc_loop cb hs s v [])"

definition cbor_rpc_get_response :: "'v cbor \<Rightarrow> cbor_out list \<Rightarrow> cbor_rpc_ret \<times> u8 list" where
  "cbor_rpc_get_response cb out = (CBOR_RPC_RET_OK, cb_encode cb CBOR_RPC_RESP_SIZE out)"

subsection \<open>Documents\<close>

text \<open>The documented behaviour of the parser, for a cursor that stands in a sequence of well-formed
  items: \<open>view\<close> gives the items from the cursor to the end of the container.\<close>

datatype cbor_item = It_text string | It_null | It_int int | It_bool bool

definition cbor_view :: "'v cbor \<Rightarrow> ('v \<Rightarrow> cbor_item list) \<Rightarrow> bool" where
  "cbor_view cb view \<longleftrightarrow>
     (\<forall>v. cb_at_end cb v \<longleftrightarrow> view v = []) \<and>
     (\<forall>v. view (cb_advance cb v) = tl (view v)) \<and>
     (\<forall>v k vs. view v = It_text k # vs \<longrightarrow> cb_is_text cb v \<and> (\<forall>s. cb_text_equals cb v s = Some (s = k))) \<and>
     (\<forall>v vs. view v = It_null # vs \<longrightarrow>
        cb_is_null cb v \<and> \<not> cb_is_text cb v \<and> \<not> cb_is_int cb v \<and> \<not> cb_is_bool cb v)"

lemma cbor_view_simps:
  assumes "cbor_view cb view"
  shows "cb_at_end cb v \<longleftrightarrow> view v = []" "view (cb_advance cb v) = tl (view v)"
    "view v = It_text k # vs \<Longrightarrow> cb_is_text cb v"
    "view v = It_text k # vs \<Longrightarrow> cb_text_equals cb v s = Some (s = k)"
    "view v = It_null # vs \<Longrightarrow> cb_is_null cb v \<and> \<not> cb_is_text cb v \<and> \<not> cb_is_int cb v \<and> \<not> cb_is_bool cb v"
  using assms unfolding cbor_view_def by blast+

lemma cbor_rpc_find_view:
  assumes "cbor_view cb view" "view v = It_text k # vs"
  shows "cbor_rpc_find cb hs v = Some (List.find (\<lambda>h. fst h = k) hs)"
  by (induction hs) (auto simp: cbor_view_simps(4) [OF assms])

text \<open>What a request that only reads is answered: the known keys with their values, in the order of
  the request.\<close>

fun cbor_rpc_answers :: "'s cbor_rpc_handler list \<Rightarrow> 's \<Rightarrow> string list \<Rightarrow> cbor_out list" where
  "cbor_rpc_answers hs s [] = []"
| "cbor_rpc_answers hs s (k # ks) =
     (case List.find (\<lambda>h. fst h = k) hs of
        None \<Rightarrow> []
      | Some h \<Rightarrow> [Out_text k, case cbor_rpc_read s (snd h) of None \<Rightarrow> Out_null | Some out \<Rightarrow> out]) @
     cbor_rpc_answers hs s ks"

definition cbor_reads :: "string list \<Rightarrow> cbor_item list" where
  "cbor_reads ks = concat (map (\<lambda>k. [It_text k, It_null]) ks)"

lemma cbor_reads_simps [simp]:
  "cbor_reads [] = []" "cbor_reads (k # ks) = It_text k # It_null # cbor_reads ks"
  by (simp_all add: cbor_reads_def)

lemma cbor_rpc_call_null:
  assumes "cbor_view cb view" "view v = It_null # vs"
  shows "cbor_rpc_call_handler cb s t v =
    (case cbor_rpc_read s t of Some out \<Rightarrow> (CBOR_RPC_RET_OK, s, [out]) | None \<Rightarrow> (CBOR_RPC_RET_FAILED, s, []))"
  using cbor_view_simps(5) [OF assms]
  by (cases t) (auto simp: cbor_rpc_call_handler_def split: option.splits)

text \<open>The loop answers a request that only reads, and ends.\<close>

lemma cbor_rpc_loop_reads:
  assumes "cbor_view cb view" "view v = cbor_reads ks"
  shows "cbor_rpc_loop cb hs s v out = Some (CBOR_RPC_RET_OK, s, out @ cbor_rpc_answers hs s ks)"
  using assms(2)
proof (induction ks arbitrary: v out)
  case Nil
  then show ?case by (subst cbor_rpc_loop.simps) (simp add: cbor_view_simps(1) [OF assms(1)])
next
  case (Cons k ks)
  note sim = cbor_view_simps [OF assms(1)]
  from Cons.prems have v: "view v = It_text k # It_null # cbor_reads ks" by simp
  then have null: "view (cb_advance cb v) = It_null # cbor_reads ks"
    and rest: "view (cb_advance cb (cb_advance cb v)) = cbor_reads ks" by (simp_all add: sim(2))
  note IH = Cons.IH [OF rest]
  have find: "cbor_rpc_find cb hs v = Some (List.find (\<lambda>h. fst h = k) hs)"
    by (rule cbor_rpc_find_view [OF assms(1) v])
  show ?case
  proof (cases "List.find (\<lambda>h. fst h = k) hs")
    case None
    then show ?thesis
      using v by (subst cbor_rpc_loop.simps) (simp add: sim(1) sim(3) [OF v] find IH)
  next
    case (Some h)
    then have "fst h = k" by (auto simp: find_Some_iff)
    with Some show ?thesis
      using v by (subst cbor_rpc_loop.simps)
        (simp add: sim(1) sim(3) [OF v] find IH cbor_rpc_call_null [OF assms(1) null] split: option.split)
  qed
qed

text \<open>A parser with this behaviour, over a fixed document, for the examples.\<close>

definition cbor_example :: "cbor_item list \<Rightarrow> cbor_item list cbor" where
  "cbor_example doc = \<lparr>cb_init = (\<lambda>_. Some doc), cb_is_map = (\<lambda>_. True), cb_enter = Some,
     cb_at_end = (\<lambda>v. v = []), cb_advance = tl,
     cb_is_null = (\<lambda>v. v \<noteq> [] \<and> hd v = It_null),
     cb_is_text = (\<lambda>v. case v of It_text _ # _ \<Rightarrow> True | _ \<Rightarrow> False),
     cb_is_int = (\<lambda>v. case v of It_int _ # _ \<Rightarrow> True | _ \<Rightarrow> False),
     cb_is_bool = (\<lambda>v. case v of It_bool _ # _ \<Rightarrow> True | _ \<Rightarrow> False),
     cb_text_equals = (\<lambda>v s. case v of It_text t # _ \<Rightarrow> Some (s = t) | _ \<Rightarrow> None),
     cb_text = (\<lambda>v n. case v of It_text t # _ \<Rightarrow> take (n - 1) t | _ \<Rightarrow> []),
     cb_int = (\<lambda>v. case v of It_int i # _ \<Rightarrow> i | _ \<Rightarrow> 0),
     cb_bool = (\<lambda>v. case v of It_bool b # _ \<Rightarrow> b | _ \<Rightarrow> False),
     cb_encode = (\<lambda>n out. take n (concat (map (\<lambda>i. case i of Out_text t \<Rightarrow> map of_char t | _ \<Rightarrow> [0xf6]) out)))\<rparr>"

lemma cbor_view_example: "cbor_view (cbor_example doc) id"
  by (simp add: cbor_view_def cbor_example_def)

lemma cbor_example_simps [simp]:
  "cb_init (cbor_example doc) buf = Some doc" "cb_is_map (cbor_example doc) v" "cb_enter (cbor_example doc) v = Some v"
  "length (cb_encode (cbor_example doc) n out) \<le> n"
  by (simp_all add: cbor_example_def)

end
