(* ===== verification/Nbus.thy ===== *)
theory Nbus
  imports Nbus_Packet Blake2s Cc_Rpc
begin

text \<open>
  NBUS channels and tasks (\<open>services/nbus/nbus.c\<close>, \<open>services/nbus/nbus-root.c\<close>,
  \<open>services/nbus/nbus-log.c\<close>). A channel is a record; the linked list of an \<open>Nbus\<close> instance is the
  list of its channels, first one first (each channel object is added once). The CAN driver is a
  parameter: \<open>None\<close> when there is no driver or no send operation, otherwise a function on the state
  \<open>'d\<close> of the driver. Endpoint 0 is served by the command processor of \<open>Cc_Rpc\<close> on the CBOR library
  \<open>cb\<close>.
\<close>

subsection \<open>CAN messages, channels\<close>

datatype can_ret = CAN_RET_OK | CAN_RET_FAILED | CAN_RET_BUS_OFF

record can_message =
  msg_rtr :: bool
  msg_extid :: bool
  msg_id :: u32
  msg_len :: nat
  msg_buf :: "u8 list"
  msg_timestamp :: u32

definition can_message_zero :: can_message where
  "can_message_zero = \<lparr>msg_rtr = False, msg_extid = False, msg_id = 0, msg_len = 0,
     msg_buf = replicate 64 0, msg_timestamp = 0\<rparr>"

type_synonym 'd can = "('d \<Rightarrow> can_message \<Rightarrow> can_ret \<times> 'd) option"

text \<open>\<open>ch_parent\<close> is the short identifier of the parent channel, which is what the code reads
  through the \<open>parent\<close> pointer. The links \<open>nbus\<close> and \<open>next\<close> are the list that holds the channel, the
  command processor and its handlers are \<open>nbus_channel_handlers\<close>, and \<open>counter\<close> is never used.\<close>

record nbus_channel =
  ch_parent :: "u32 option"
  ch_channel_id :: u16
  ch_channel_id_valid :: bool
  ch_short_id :: u32
  ch_name :: string
  ch_interface :: "string option"
  ch_version :: "string option"
  ch_txpacket :: nbus_txpacket
  ch_rxpacket :: nbus_rxpacket
  ch_packet_counter :: u32
  ch_adv_time :: nat

text \<open>The read functions of the command handlers: \<open>strlcpy\<close> into a buffer of \<open>size\<close> characters, and the
  short identifier of the parent as eight hexadecimal digits.\<close>

definition strlcpy :: "string \<Rightarrow> nat \<Rightarrow> string" where
  "strlcpy s sz = take (sz - 1) s"

definition hex_digit :: "nat \<Rightarrow> char" where
  "hex_digit n = ''0123456789abcdef'' ! n"

definition format_08lx :: "u32 \<Rightarrow> string" where
  "format_08lx w = map (\<lambda>i. hex_digit (unat (drop_bit (4 * i) w AND 0xf))) [7, 6, 5, 4, 3, 2, 1, 0]"

definition nbus_channel_cc_read_name :: "nbus_channel \<Rightarrow> nat \<Rightarrow> string option" where
  "nbus_channel_cc_read_name channel sz = Some (strlcpy (ch_name channel) sz)"

definition nbus_channel_cc_read_parent :: "nbus_channel \<Rightarrow> nat \<Rightarrow> string option" where
  "nbus_channel_cc_read_parent channel sz =
     Some (case ch_parent channel of
       Some short_id \<Rightarrow> take (sz - 1) (format_08lx short_id)
     | None \<Rightarrow> strlcpy [] sz)"

definition nbus_channel_cc_read_interface :: "nbus_channel \<Rightarrow> nat \<Rightarrow> string option" where
  "nbus_channel_cc_read_interface channel sz =
     Some (case ch_interface channel of Some i \<Rightarrow> strlcpy i sz | None \<Rightarrow> strlcpy [] sz)"

definition nbus_channel_cc_read_version :: "nbus_channel \<Rightarrow> nat \<Rightarrow> string option" where
  "nbus_channel_cc_read_version channel sz =
     Some (case ch_version channel of Some v \<Rightarrow> strlcpy v sz | None \<Rightarrow> strlcpy [] sz)"

text \<open>The handlers that \<open>nbus_channel_init\<close> registers; they are the same for every channel.\<close>

definition nbus_channel_handlers :: "nbus_channel cbor_rpc_handler list" where
  "nbus_channel_handlers =
     (let (_, hs) = cbor_rpc_init;
          (_, hs) = cbor_rpc_add_handler hs (Some (''n'', CBOR_RPC_HTYPE_STRING (Some nbus_channel_cc_read_name) None));
          (_, hs) = cbor_rpc_add_handler hs (Some (''p'', CBOR_RPC_HTYPE_STRING (Some nbus_channel_cc_read_parent) None));
          (_, hs) = cbor_rpc_add_handler hs (Some (''if'', CBOR_RPC_HTYPE_STRING (Some nbus_channel_cc_read_interface) None));
          (_, hs) = cbor_rpc_add_handler hs (Some (''v'', CBOR_RPC_HTYPE_STRING (Some nbus_channel_cc_read_version) None))
      in hs)"

definition nbus_channel_init :: "u8 list option \<Rightarrow> bool \<Rightarrow> string \<Rightarrow> nbus_ret \<times> nbus_channel" where
  "nbus_channel_init mem sem name =
     (NBUS_RET_OK,
      \<lparr>ch_parent = None, ch_channel_id = 0, ch_channel_id_valid = False, ch_short_id = 0, ch_name = name,
       ch_interface = None, ch_version = None,
       ch_txpacket = \<lparr>tx_state = NBUS_TXP_EMPTY, tx_channel_id = 0, tx_ep = 0, tx_packet_counter = 0,
         tx_next_frag = 0, tx_packet_sent = 0, tx_buf = [], tx_len = 0\<rparr>,
       ch_rxpacket = snd (nbus_rxpacket_init mem sem NBUS_CHANNEL_MTU),
       ch_packet_counter = 0, ch_adv_time = 0\<rparr>)"

definition nbus_channel_set_explicit_short_id :: "nbus_channel \<Rightarrow> u32 \<Rightarrow> nbus_ret \<times> nbus_channel" where
  "nbus_channel_set_explicit_short_id self short_id = (NBUS_RET_OK, self\<lparr>ch_short_id := short_id\<rparr>)"

definition nbus_channel_set_interface ::
  "nbus_channel \<Rightarrow> string option \<Rightarrow> string option \<Rightarrow> nbus_ret \<times> nbus_channel" where
  "nbus_channel_set_interface self interface version =
     (NBUS_RET_OK, self\<lparr>ch_interface := interface, ch_version := version\<rparr>)"

text \<open>The hash of the concatenation of two values, written over \<open>cur\<close> when \<open>blake2s_final\<close>
  succeeds.\<close>

definition nbus_hash2 :: "nat \<Rightarrow> u8 list \<Rightarrow> u8 list \<Rightarrow> u8 list \<Rightarrow> u8 list" where
  "nbus_hash2 n as bs cur =
     (case blake2s_init n of
        None \<Rightarrow> cur
      | Some s \<Rightarrow>
          let s = blake2s_update s as; s = blake2s_update s bs
          in (case blake2s_final s n of Some (_, _, Some d) \<Rightarrow> d | _ \<Rightarrow> cur))"

definition name_bytes :: "string \<Rightarrow> u8 list" where
  "name_bytes s = map of_char s"

definition nbus_channel_set_parent :: "nbus_channel \<Rightarrow> nbus_channel \<Rightarrow> nbus_ret \<times> nbus_channel" where
  "nbus_channel_set_parent self parent =
     (NBUS_RET_OK,
      self\<lparr>ch_short_id := load32_le (nbus_hash2 4 (store32_le (ch_short_id parent)) (name_bytes (ch_name self))
             (store32_le (ch_short_id self))),
        ch_parent := Some (ch_short_id parent)\<rparr>)"

definition prepare_short_id :: "u8 list \<Rightarrow> u32" where
  "prepare_short_id anything = load32_le (nbus_hash2 4 anything (name_bytes ''root'') (store32_le 0))"

text \<open>Adding a channel puts it in front of the list; \<open>NULL\<close> is refused.\<close>

definition nbus_add_channel :: "nbus_channel list \<Rightarrow> nbus_channel option \<Rightarrow> nbus_ret \<times> nbus_channel list" where
  "nbus_add_channel self channel =
     (case channel of
        None \<Rightarrow> (NBUS_RET_BAD_PARAM, self)
      | Some ch \<Rightarrow> (NBUS_RET_OK, ch # self))"

definition nbus_channel_find_by_id :: "nbus_channel list \<Rightarrow> u16 \<Rightarrow> nat option" where
  "nbus_channel_find_by_id self i =
     find_index (\<lambda>ch. ch_channel_id_valid ch \<and> ch_channel_id ch = i) self"

subsection \<open>Sending\<close>

definition nbus_channel_send_frame ::
  "'d can \<Rightarrow> 'd \<Rightarrow> nbus_id \<Rightarrow> u8 list \<Rightarrow> nat \<Rightarrow> (nbus_ret \<times> 'd) option" where
  "nbus_channel_send_frame can d sid buf len =
     (case mem_read buf 0 len of
        None \<Rightarrow> None
      | Some frag \<Rightarrow>
          (case mem_write (msg_buf can_message_zero) 0 frag of
             None \<Rightarrow> None
           | Some b \<Rightarrow>
               let msg = can_message_zero\<lparr>msg_id := nbus_build_id sid, msg_extid := True, msg_buf := b, msg_len := len\<rparr>
               in (case can of
                     None \<Rightarrow> Some (NBUS_RET_FAILED, d)
                   | Some send \<Rightarrow>
                       let (ret, d) = send d msg in
                       if ret \<noteq> CAN_RET_OK then Some (NBUS_RET_FAILED, d) else Some (NBUS_RET_OK, d))))"

text \<open>The loop of \<open>nbus_channel_send\<close>: no result also stands for a loop that does not end.\<close>

partial_function (option) nbus_send_loop ::
  "'d can \<Rightarrow> 'd \<Rightarrow> nbus_txpacket \<Rightarrow> nbus_id \<Rightarrow> u8 list \<Rightarrow> nat \<Rightarrow> (nbus_txpacket \<times> 'd) option" where
  "nbus_send_loop can d tx sid framebuf framelen =
     Option.bind (nbus_txpacket_get_fragment tx sid framebuf framelen)
       (\<lambda>(ret, tx, sid, framebuf, framelen).
         if ret = NBUS_RET_OK then
           Option.bind (nbus_channel_send_frame can d sid framebuf framelen)
             (\<lambda>(_, d). nbus_send_loop can d tx sid framebuf framelen)
         else Some (tx, d))"

text \<open>The local \<open>framebuf\<close> is not initialised: its contents are the argument \<open>stack\<close>.\<close>

definition nbus_channel_send ::
  "u8 list \<Rightarrow> 'd can \<Rightarrow> 'd \<Rightarrow> nbus_channel \<Rightarrow> u8 \<Rightarrow> u8 list \<Rightarrow> nat \<Rightarrow> (nbus_ret \<times> nbus_channel \<times> 'd) option" where
  "nbus_channel_send stack can d self ep buf len =
     (if len > NBUS_CHANNEL_MTU then Some (NBUS_RET_BAD_PARAM, self, d)
      else if \<not> ch_channel_id_valid self then Some (NBUS_RET_VOID, self, d)
      else
        let (_, tx) = nbus_txpacket_init (ch_channel_id self) ep (ch_packet_counter self);
            (_, tx) = nbus_txpacket_buf_ref tx buf len
        in map_option (\<lambda>(tx, d). (NBUS_RET_OK, self\<lparr>ch_txpacket := tx\<rparr>, d))
             (nbus_send_loop can d tx nbus_id_zero stack 0))"

subsection \<open>Receiving\<close>

text \<open>Frames that the receive task appends, in order; the results are used by the task only.\<close>

fun nbus_rx_frames :: "nbus_rxpacket \<Rightarrow> (nbus_id \<times> u8 list \<times> nat) list \<Rightarrow> nbus_rxpacket option" where
  "nbus_rx_frames p [] = Some p"
| "nbus_rx_frames p ((sid, buf, len) # fs) =
     Option.bind (nbus_rxpacket_append p sid buf len) (\<lambda>(_, p). nbus_rx_frames p fs)"

text \<open>Waiting: \<open>arrivals\<close> are the frames that the receive task appends while the caller is blocked
  (until the timeout, or until the caller runs again).\<close>

definition nbus_rxpacket_wait ::
  "nbus_rxpacket \<Rightarrow> (nbus_id \<times> u8 list \<times> nat) list \<Rightarrow> (nbus_ret \<times> nbus_rxpacket) option" where
  "nbus_rxpacket_wait self arrivals =
     (if rx_state self = NBUS_RXP_DONE then Some (NBUS_RET_OK, self)
      else
        case nbus_rx_frames self arrivals of
          None \<Rightarrow> None
        | Some self \<Rightarrow>
            (case rx_done self of
               None \<Rightarrow> None
             | Some given \<Rightarrow>
                 if given then Some (NBUS_RET_OK, self\<lparr>rx_done := Some False\<rparr>)
                 else Some (NBUS_RET_VOID, self)))"

definition nbus_channel_process_cc ::
  "'v cbor \<Rightarrow> u8 list \<Rightarrow> 'd can \<Rightarrow> 'd \<Rightarrow> nbus_channel \<Rightarrow> u8 list \<Rightarrow> nat \<Rightarrow>
   (nbus_ret \<times> nbus_channel \<times> 'd) option" where
  "nbus_channel_process_cc cb stack can d self buf len =
     (case mem_read buf 0 len of
        None \<Rightarrow> None
      | Some request \<Rightarrow>
          (case cbor_rpc_parse cb request of
             (CBOR_RPC_RET_OK, Some parser_map) \<Rightarrow>
               (case cbor_rpc_run cb nbus_channel_handlers self parser_map of
                  None \<Rightarrow> None
                | Some (ret, self, out) \<Rightarrow>
                    if ret \<noteq> CBOR_RPC_RET_OK then Some (NBUS_RET_FAILED, self, d)
                    else
                      let (ret, response) = cbor_rpc_get_response cb out in
                      if ret \<noteq> CBOR_RPC_RET_OK then Some (NBUS_RET_FAILED, self, d)
                      else map_option (\<lambda>(_, self, d). (NBUS_RET_OK, self, d))
                        (nbus_channel_send stack can d self 0 response (length response)))
           | _ \<Rightarrow> Some (NBUS_RET_FAILED, self, d)))"

text \<open>The results through pointers are the endpoint, the buffer of the caller (its first
  \<open>buf_size\<close> bytes are usable) and the length.\<close>

definition nbus_channel_receive ::
  "'v cbor \<Rightarrow> u8 list \<Rightarrow> 'd can \<Rightarrow> 'd \<Rightarrow> nbus_channel \<Rightarrow> u8 \<Rightarrow> u8 list \<Rightarrow>
   nat \<Rightarrow> nat \<Rightarrow> (nbus_id \<times> u8 list \<times> nat) list \<Rightarrow>
   (nbus_ret \<times> nbus_channel \<times> 'd \<times> u8 \<times> u8 list \<times> nat) option" where
  "nbus_channel_receive cb stack can d self ep buf buf_size len arrivals =
     Option.bind (nbus_rxpacket_wait (ch_rxpacket self) arrivals)
       (\<lambda>(ret, rx).
         let self = self\<lparr>ch_rxpacket := rx\<rparr> in
         if ret \<noteq> NBUS_RET_OK then Some (ret, self, d, ep, buf, len)
         else if rx_ep rx = 0 then
           Option.bind (nbus_channel_process_cc cb stack can d self (rx_buf rx) (rx_packet_size rx))
             (\<lambda>(_, self, d).
               Some (NBUS_RET_VOID, self\<lparr>ch_rxpacket := snd (nbus_rxpacket_reset (ch_rxpacket self))\<rparr>, d, ep, buf, len))
         else if rx_packet_size rx > buf_size then
           Some (NBUS_RET_BIG, self\<lparr>ch_rxpacket := snd (nbus_rxpacket_reset rx)\<rparr>, d, ep, buf, len)
         else
           Option.bind (mem_read (rx_buf rx) 0 (rx_packet_size rx)) (\<lambda>packet.
           Option.bind (mem_write buf 0 packet) (\<lambda>buf.
             Some (NBUS_RET_OK, self\<lparr>ch_rxpacket := snd (nbus_rxpacket_reset rx)\<rparr>, d, rx_ep rx, buf,
               rx_packet_size rx))))"

text \<open>One round of the receive task with what the driver returns.\<close>

definition nbus_receive_step :: "nbus_channel list \<Rightarrow> can_ret \<times> can_message \<Rightarrow> nbus_channel list option" where
  "nbus_receive_step self got =
     (let (ret, msg) = got in
      if ret \<noteq> CAN_RET_OK then Some self
      else if \<not> msg_extid msg then Some self
      else
        let sid = nbus_parse_id (msg_id msg) in
        case nbus_channel_find_by_id self (sid_channel sid) of
          None \<Rightarrow> Some self
        | Some i \<Rightarrow>
            (case nbus_rxpacket_append (ch_rxpacket (self ! i)) sid (msg_buf msg) (msg_len msg) of
               None \<Rightarrow> None
             | Some (ret, rx) \<Rightarrow>
                 let ch = (self ! i)\<lparr>ch_rxpacket := rx\<rparr>;
                     ch = (if ret = NBUS_RET_INVALID then ch\<lparr>ch_channel_id_valid := False\<rparr> else ch)
                 in Some (self[i := ch])))"

fun nbus_receive_task :: "nbus_channel list \<Rightarrow> (can_ret \<times> can_message) list \<Rightarrow> nbus_channel list option" where
  "nbus_receive_task self [] = Some self"
| "nbus_receive_task self (m # ms) = Option.bind (nbus_receive_step self m) (\<lambda>self. nbus_receive_task self ms)"

subsection \<open>Housekeeping\<close>

definition advertise_channel_id :: "'d can \<Rightarrow> 'd \<Rightarrow> nbus_channel \<Rightarrow> 'd option" where
  "advertise_channel_id can d self =
     (let cha = \<lparr>sid_channel = ch_channel_id self, sid_direction = NBUS_DIR_PUBLISH,
            sid_opcode = NBUS_OP_ADVERTISEMENT\<rparr>
      in map_option snd (nbus_channel_send_frame can d cha (store32_le (ch_short_id self)) 4))"

fun nbus_send_adv :: "'d can \<Rightarrow> 'd \<Rightarrow> nbus_channel list \<Rightarrow> (nbus_channel list \<times> 'd) option" where
  "nbus_send_adv can d [] = Some ([], d)"
| "nbus_send_adv can d (ch # chs) =
     Option.bind
       (if ch_channel_id_valid ch then
          let ch = ch\<lparr>ch_adv_time := ch_adv_time ch + 1\<rparr> in
          if ch_adv_time ch \<ge> NBUS_ADV_TIME then
            let ch = ch\<lparr>ch_adv_time := 0\<rparr> in map_option (\<lambda>d. (ch, d)) (advertise_channel_id can d ch)
          else Some (ch, d)
        else Some (ch, d))
       (\<lambda>(ch, d). map_option (\<lambda>(chs, d). (ch # chs, d)) (nbus_send_adv can d chs))"

definition nbus_new_channel_id :: "nbus_channel \<Rightarrow> u16" where
  "nbus_new_channel_id ch =
     load16_le (nbus_hash2 2 (store32_le (ch_short_id ch)) (store16_le (ch_channel_id ch)) (store16_le (ch_channel_id ch)))"

fun nbus_generate_short_ids :: "'d can \<Rightarrow> 'd \<Rightarrow> nbus_channel list \<Rightarrow> (nbus_channel list \<times> 'd) option" where
  "nbus_generate_short_ids can d [] = Some ([], d)"
| "nbus_generate_short_ids can d (ch # chs) =
     Option.bind
       (if \<not> ch_channel_id_valid ch then
          let ch = ch\<lparr>ch_channel_id := nbus_new_channel_id ch, ch_channel_id_valid := True\<rparr>
          in map_option (\<lambda>d. (ch, d)) (advertise_channel_id can d ch)
        else Some (ch, d))
       (\<lambda>(ch, d). map_option (\<lambda>(chs, d). (ch # chs, d)) (nbus_generate_short_ids can d chs))"

definition nbus_housekeeping_round :: "'d can \<Rightarrow> 'd \<Rightarrow> nbus_channel list \<Rightarrow> (nbus_channel list \<times> 'd) option" where
  "nbus_housekeeping_round can d self =
     Option.bind (nbus_send_adv can d self) (\<lambda>(self, d). nbus_generate_short_ids can d self)"

subsection \<open>The root channel\<close>

text \<open>\<open>nbus_root_init\<close> up to the creation of its task, and one round of that task: a packet that
  arrives is sent back.\<close>

definition nbus_root_init ::
  "u8 list option \<Rightarrow> bool \<Rightarrow> nbus_channel list \<Rightarrow> u8 list \<Rightarrow> nbus_channel list" where
  "nbus_root_init mem sem nbus anything =
     (let (_, ch) = nbus_channel_init mem sem ''root'';
          (_, ch) = nbus_channel_set_explicit_short_id ch (prepare_short_id anything)
      in snd (nbus_add_channel nbus (Some ch)))"

definition nbus_log_init ::
  "u8 list option \<Rightarrow> bool \<Rightarrow> nbus_channel list \<Rightarrow> nbus_channel \<Rightarrow> nbus_ret \<times> nbus_channel list" where
  "nbus_log_init mem sem nbus parent =
     (let (_, ch) = nbus_channel_init mem sem ''log'';
          (_, ch) = nbus_channel_set_parent ch parent
      in (NBUS_RET_OK, snd (nbus_add_channel nbus (Some ch))))"

definition nbus_root_round ::
  "'v cbor \<Rightarrow> u8 list \<Rightarrow> 'd can \<Rightarrow> 'd \<Rightarrow> nbus_channel \<Rightarrow> u8 list \<Rightarrow>
   (nbus_id \<times> u8 list \<times> nat) list \<Rightarrow> (nbus_channel \<times> 'd \<times> u8 list) option" where
  "nbus_root_round cb stack can d self buf arrivals =
     Option.bind (nbus_channel_receive cb stack can d self 0 buf (length buf) 0 arrivals)
       (\<lambda>(ret, self, d, ep, buf, len).
         if ret = NBUS_RET_OK then
           map_option (\<lambda>(_, self, d). (self, d, buf)) (nbus_channel_send stack can d self ep buf len)
         else Some (self, d, buf))"

end
