(* ===== verification/Nbus_Props.thy ===== *)
theory Nbus_Props
  imports Nbus
begin

text \<open>
  Properties of NBUS: identifiers, fragmentation and reassembly. The abstract description of a
  packet on the wire is \<open>nbus_frames\<close>: a leading frame, the chunks of at most eight bytes with
  consecutive opcodes, a trailing frame. The send loop refines it, and the receive state machine
  ends with a complete packet only on a subsequence of that shape.
\<close>

subsection \<open>Identifiers\<close>

lemma nbus_direction_of_value [simp]: "nbus_direction_of (nbus_direction_value d) = d"
  by (cases d) (simp_all add: nbus_direction_of_def)

lemma nbus_direction_value_less: "nbus_direction_value d < 4"
  by (cases d) simp_all

lemma add_disjoint: "a AND b = 0 \<Longrightarrow> (a :: 'a::len word) + b = a OR b"
  by (simp add: word_plus_and_or [of a b, symmetric])

lemma bit_direction: "bit (nbus_direction_value d) n \<Longrightarrow> n < 2"
proof -
  have "take_bit 2 (nbus_direction_value d) = nbus_direction_value d"
    using nbus_direction_value_less [of d] by (intro take_bit_nat_eq_self) simp
  then show "bit (nbus_direction_value d) n \<Longrightarrow> n < 2" by (metis bit_take_bit_iff)
qed

lemma and_masks: "(x :: u32) AND 0xffff = take_bit 16 x" "(x :: u32) AND 0xff = take_bit 8 x"
  by (simp_all add: take_bit_eq_mask mask_eq_exp_minus_1)

lemma nbus_build_id_or:
  "nbus_build_id s = push_bit 12 (ucast (sid_channel s)) OR
     push_bit 10 (of_nat (nbus_direction_value (sid_direction s))) OR ucast (sid_opcode s)"
proof -
  have "push_bit 12 (ucast (sid_channel s)) AND push_bit 10 (of_nat (nbus_direction_value (sid_direction s))) = (0 :: u32)"
    by (rule bit_eqI) (force simp: bit_simps dest: bit_direction)
  moreover have "(push_bit 12 (ucast (sid_channel s)) OR push_bit 10 (of_nat (nbus_direction_value (sid_direction s))))
      AND ucast (sid_opcode s) = (0 :: u32)"
    by (rule bit_eqI) (force simp: bit_simps dest: bit_direction bit_imp_le_length)
  ultimately show ?thesis by (simp add: nbus_build_id_def add_disjoint or.assoc)
qed

lemma nbus_parse_build: "nbus_parse_id (nbus_build_id s) = s"
proof -
  have "ucast (drop_bit 12 (nbus_build_id s) AND 0xffff) = sid_channel s"
    by (rule bit_eqI) (auto simp: nbus_build_id_or and_masks bit_simps dest: bit_imp_le_length bit_direction)
  moreover have "drop_bit 10 (nbus_build_id s) AND 0x3 = of_nat (nbus_direction_value (sid_direction s))"
    by (rule bit_eqI)
      (auto simp: nbus_build_id_or and_3_take_bit and_masks bit_simps dest: bit_imp_le_length bit_direction)
  moreover have "ucast (nbus_build_id s AND 0xff) = sid_opcode s"
    by (rule bit_eqI) (auto simp: nbus_build_id_or and_masks bit_simps dest: bit_imp_le_length bit_direction)
  moreover have "unat (of_nat (nbus_direction_value (sid_direction s)) :: u32) = nbus_direction_value (sid_direction s)"
    using nbus_direction_value_less [of "sid_direction s"] by (simp add: unat_of_nat)
  ultimately show ?thesis by (simp add: nbus_parse_id_def)
qed

text \<open>
  The identifier of an NBUS frame is a valid 29 bit CAN identifier (its three top bits
  are zero), and parsing it gives the channel, direction and opcode that it was built from.
\<close>

theorem nbus_id_roundtrip:
  "nbus_parse_id (nbus_build_id s) = s \<and> unat (nbus_build_id s) < 2 ^ 29"
proof
  show "nbus_parse_id (nbus_build_id s) = s" by (rule nbus_parse_build)
next
  have "nbus_build_id s = take_bit 29 (nbus_build_id s)"
    by (rule bit_eqI) (auto simp: nbus_build_id_or and_masks bit_simps dest: bit_imp_le_length bit_direction)
  then show "unat (nbus_build_id s) < 2 ^ 29"
    by (metis take_bit_int_less_exp unsigned_take_bit_eq take_bit_nat_less_exp)
qed

subsection \<open>A packet on the wire\<close>

function chunks8 :: "u8 list \<Rightarrow> u8 list list" where
  "chunks8 xs = (if length xs \<le> 8 then [xs] else take 8 xs # chunks8 (drop 8 xs))"
  by pat_completeness auto
termination
  by (relation "measure length") auto

declare chunks8.simps [simp del]

lemma chunks8_short: "length xs \<le> 8 \<Longrightarrow> chunks8 xs = [xs]"
  by (simp add: chunks8.simps [of xs])

lemma chunks8_long: "8 < length xs \<Longrightarrow> chunks8 xs = take 8 xs # chunks8 (drop 8 xs)"
  by (simp add: chunks8.simps [of xs])

lemma concat_chunks8 [simp]: "concat (chunks8 xs) = xs"
  by (induction xs rule: chunks8.induct) (subst chunks8.simps, simp)

lemma chunks8_ne [simp]: "chunks8 xs \<noteq> []"
  by (subst chunks8.simps) simp

lemma chunks8_length: "c \<in> set (chunks8 xs) \<Longrightarrow> length c \<le> 8"
proof (induction xs rule: chunks8.induct)
  case (1 xs)
  then show ?case by (cases "length xs \<le> 8") (auto simp: chunks8_short chunks8_long [of xs])
qed

lemma length_chunks8: "length (chunks8 xs) \<le> Suc (length xs div 8)"
proof (induction xs rule: chunks8.induct)
  case (1 xs)
  show ?case
  proof (cases "length xs \<le> 8")
    case True
    then show ?thesis by (simp add: chunks8_short)
  next
    case False
    moreover from this 1 have "length (chunks8 (drop 8 xs)) \<le> Suc ((length xs - 8) div 8)" by simp
    ultimately show ?thesis by (simp add: chunks8_long [of xs] le_div_geq)
  qed
qed

text \<open>No chunk but the only one of the empty packet is empty.\<close>

lemma chunks8_nonempty: "xs \<noteq> [] \<Longrightarrow> c \<in> set (chunks8 xs) \<Longrightarrow> c \<noteq> []"
proof (induction xs rule: chunks8.induct)
  case (1 xs)
  show ?case
  proof (cases "length xs \<le> 8")
    case True
    with 1 show ?thesis by (simp add: chunks8_short)
  next
    case False
    then have d: "drop 8 xs \<noteq> []" "chunks8 xs = take 8 xs # chunks8 (drop 8 xs)" by (simp_all add: chunks8_long)
    with 1(3) consider "c = take 8 xs" | "c \<in> set (chunks8 (drop 8 xs))" by auto
    then show ?thesis
    proof cases
      case 1
      with \<open>xs \<noteq> []\<close> show ?thesis by simp
    next
      case 2
      with "1.IH" [OF False d(1)] show ?thesis by simp
    qed
  qed
qed

definition nbus_hdr :: "u16 \<Rightarrow> u8 \<Rightarrow> nbus_id" where
  "nbus_hdr ch op = \<lparr>sid_channel = ch, sid_direction = NBUS_DIR_RESPONSE, sid_opcode = op\<rparr>"

fun nbus_data_frames :: "u16 \<Rightarrow> nat \<Rightarrow> u8 list list \<Rightarrow> (nbus_id \<times> u8 list) list" where
  "nbus_data_frames ch n [] = []"
| "nbus_data_frames ch n (c # cs) = (nbus_hdr ch (NBUS_OP_DATA_MIN + of_nat n), c) # nbus_data_frames ch (n + 1) cs"

definition nbus_leading_frame :: "u16 \<Rightarrow> u8 \<Rightarrow> u32 \<Rightarrow> nat \<Rightarrow> nbus_id \<times> u8 list" where
  "nbus_leading_frame ch ep counter len =
     (nbus_hdr ch (NBUS_OP_LEADING_MIN + ep),
      lf_bytes \<lparr>lf_counter = counter, lf_len = of_nat len, lf_flags = 0\<rparr>)"

definition nbus_trailing_frame :: "u16 \<Rightarrow> nbus_id \<times> u8 list" where
  "nbus_trailing_frame ch = (nbus_hdr ch NBUS_OP_TRAILING, replicate NBUS_SIV_LEN 0)"

definition nbus_frames :: "u16 \<Rightarrow> u8 \<Rightarrow> u32 \<Rightarrow> u8 list \<Rightarrow> (nbus_id \<times> u8 list) list" where
  "nbus_frames ch ep counter p =
     nbus_leading_frame ch ep counter (length p) # nbus_data_frames ch 0 (chunks8 p) @ [nbus_trailing_frame ch]"

text \<open>A frame as a CAN message, and its effect on the driver.\<close>

definition nbus_wire :: "nbus_id \<times> u8 list \<Rightarrow> can_message" where
  "nbus_wire f = can_message_zero\<lparr>msg_id := nbus_build_id (fst f), msg_extid := True,
     msg_buf := snd f @ replicate (64 - length (snd f)) 0, msg_len := length (snd f)\<rparr>"

definition nbus_deliver :: "'d can \<Rightarrow> nbus_id \<times> u8 list \<Rightarrow> 'd \<Rightarrow> 'd" where
  "nbus_deliver can f d = (case can of None \<Rightarrow> d | Some send \<Rightarrow> snd (send d (nbus_wire f)))"

lemma length_lf_bytes [simp]: "length (lf_bytes m) = 8"
  by (simp add: lf_bytes_def store16_le_def)

subsection \<open>The send loop\<close>

lemma send_frame_deliver:
  assumes "length p \<le> length buf" "take (length p) buf = p" "length p \<le> 64"
  shows "\<exists>r. nbus_channel_send_frame can d sid buf (length p) = Some (r, nbus_deliver can (sid, p) d)"
proof -
  have "mem_write (msg_buf can_message_zero) 0 p = Some (p @ replicate (64 - length p) 0)"
    using assms(3) by (simp add: mem_write_def can_message_zero_def)
  then show ?thesis
    using assms
    by (cases can)
      (auto simp: nbus_channel_send_frame_def mem_read_def nbus_deliver_def nbus_wire_def Let_def split_beta)
qed

lemma send_loop_stop:
  "tx_state tx = NBUS_TXP_DONE \<Longrightarrow> nbus_send_loop can d tx sid fb n = Some (tx, d)"
  by (subst nbus_send_loop.simps) (simp add: nbus_txpacket_get_fragment_def)

lemma send_loop_frame:
  assumes frag: "nbus_txpacket_get_fragment tx sid fb n = Some (NBUS_RET_OK, tx', sid', fb', length p)"
    and p: "take (length p) fb' = p" "length p \<le> 8" and fb: "length fb' = 8"
  shows "nbus_send_loop can d tx sid fb n = nbus_send_loop can (nbus_deliver can (sid', p) d) tx' sid' fb' (length p)"
proof -
  obtain r where "nbus_channel_send_frame can d sid' fb' (length p) = Some (r, nbus_deliver can (sid', p) d)"
    using send_frame_deliver [of p fb' can d sid'] p fb by auto
  then show ?thesis by (subst nbus_send_loop.simps) (simp add: frag)
qed

lemma send_loop_trailing:
  assumes "tx_state tx = NBUS_TXP_TRAILING" "length fb = 8"
  shows "\<exists>tx'. nbus_send_loop can d tx sid fb n =
    Some (tx', nbus_deliver can (nbus_trailing_frame (tx_channel_id tx)) d)"
proof -
  let ?p = "replicate NBUS_SIV_LEN 0 :: u8 list"
  have "nbus_txpacket_get_fragment tx sid fb n =
    Some (NBUS_RET_OK, tx\<lparr>tx_state := NBUS_TXP_DONE\<rparr>, nbus_hdr (tx_channel_id tx) NBUS_OP_TRAILING,
      ?p, length ?p)"
    using assms by (simp add: nbus_txpacket_get_fragment_def mem_write_def NBUS_SIV_LEN_def nbus_hdr_def)
  from send_loop_frame [OF this, of can d] show ?thesis
    by (simp add: NBUS_SIV_LEN_def nbus_trailing_frame_def send_loop_stop)
qed

lemma tx_data_fragment:
  assumes "tx_state tx = NBUS_TXP_DATA" "length fb = 8"
    and "tx_packet_sent tx \<le> tx_len tx" "tx_len tx \<le> length (tx_buf tx)" "tx_len tx < 2 ^ 31"
    and "tx_next_frag tx < 2 ^ 31"
    and p: "p = take (min 8 (tx_len tx - tx_packet_sent tx)) (drop (tx_packet_sent tx) (tx_buf tx))"
  shows "nbus_txpacket_get_fragment tx sid fb n =
    Some (NBUS_RET_OK,
      tx\<lparr>tx_packet_sent := tx_packet_sent tx + length p, tx_next_frag := tx_next_frag tx + 1,
        tx_state := (if tx_packet_sent tx + length p = tx_len tx then NBUS_TXP_TRAILING else NBUS_TXP_DATA)\<rparr>,
      nbus_hdr (tx_channel_id tx) (NBUS_OP_DATA_MIN + of_nat (tx_next_frag tx)),
      p @ drop (length p) fb, length p)"
proof -
  let ?k = "min 8 (tx_len tx - tx_packet_sent tx)"
  have len: "length p = ?k" using assms by simp
  have "sub32 (tx_len tx) (tx_packet_sent tx) = tx_len tx - tx_packet_sent tx"
    using assms by (intro sub32_small) auto
  then have k: "(if sub32 (tx_len tx) (tx_packet_sent tx) > 8 then 8 else sub32 (tx_len tx) (tx_packet_sent tx)) = ?k"
    by simp
  have rd: "mem_read (tx_buf tx) (tx_packet_sent tx) ?k = Some p" using assms by (simp add: mem_read_def p)
  have wr: "mem_write fb 0 p = Some (p @ drop (length p) fb)" using assms(2) len by (simp add: mem_write_def)
  have "add32 (tx_packet_sent tx) ?k = tx_packet_sent tx + length p"
    using assms(3,5) by (simp add: len add32_small)
  moreover have "add32 (tx_next_frag tx) 1 = tx_next_frag tx + 1" using assms(6) by (simp add: add32_small)
  ultimately show ?thesis
    using assms(1) by (simp add: nbus_txpacket_get_fragment_def k rd wr len Let_def nbus_hdr_def del: min_less_iff_conj)
qed

lemma send_loop_data:
  assumes "tx_state tx = NBUS_TXP_DATA" "length fb = 8"
    and "tx_packet_sent tx \<le> tx_len tx" "tx_len tx \<le> length (tx_buf tx)" "tx_len tx < 2 ^ 31"
    and "tx_next_frag tx + (tx_len tx - tx_packet_sent tx) < 2 ^ 31"
  shows "\<exists>tx'. nbus_send_loop can d tx sid fb n = Some (tx',
    fold (nbus_deliver can) (nbus_data_frames (tx_channel_id tx) (tx_next_frag tx)
      (chunks8 (take (tx_len tx - tx_packet_sent tx) (drop (tx_packet_sent tx) (tx_buf tx)))) @
      [nbus_trailing_frame (tx_channel_id tx)]) d)"
  using assms
proof (induction "tx_len tx - tx_packet_sent tx" arbitrary: tx d sid fb n rule: less_induct)
  case less
  define r where "r = take (tx_len tx - tx_packet_sent tx) (drop (tx_packet_sent tx) (tx_buf tx))"
  define p where "p = take 8 r"
  define tx1 where "tx1 = tx\<lparr>tx_packet_sent := tx_packet_sent tx + length p, tx_next_frag := tx_next_frag tx + 1,
    tx_state := (if tx_packet_sent tx + length p = tx_len tx then NBUS_TXP_TRAILING else NBUS_TXP_DATA)\<rparr>"
  define h where "h = nbus_hdr (tx_channel_id tx) (NBUS_OP_DATA_MIN + of_nat (tx_next_frag tx))"
  define fb1 where "fb1 = p @ drop (length p) fb"
  have r: "length r = tx_len tx - tx_packet_sent tx" using less.prems by (simp add: r_def)
  have p: "p = take (min 8 (tx_len tx - tx_packet_sent tx)) (drop (tx_packet_sent tx) (tx_buf tx))"
    by (simp add: p_def r_def min.commute)
  from less.prems have "tx_next_frag tx < 2 ^ 31" by simp
  from tx_data_fragment [OF less.prems(1-5) this p]
  have "nbus_txpacket_get_fragment tx sid fb n = Some (NBUS_RET_OK, tx1, h, fb1, length p)"
    by (simp only: tx1_def h_def fb1_def)
  note step = send_loop_frame [OF this, of can d]
  have l8: "length p \<le> 8" by (simp add: p_def)
  then have fb1: "length fb1 = 8" "take (length p) fb1 = p" using less.prems(2) by (simp_all add: fb1_def)
  from step fb1 l8 have step: "nbus_send_loop can d tx sid fb n =
      nbus_send_loop can (nbus_deliver can (h, p) d) tx1 h fb1 (length p)"
    by simp
  have ch: "tx_channel_id tx1 = tx_channel_id tx" by (simp add: tx1_def)
  show ?case
  proof (cases "length r \<le> 8")
    case True
    then have pr: "p = r" by (simp add: p_def)
    then have "tx_packet_sent tx + length p = tx_len tx" using r less.prems(3) by simp
    then have "tx_state tx1 = NBUS_TXP_TRAILING" by (simp add: tx1_def)
    from send_loop_trailing [OF this fb1(1), of can "nbus_deliver can (h, p) d" h "length p"]
    show ?thesis
      unfolding r_def [symmetric] step chunks8_short [OF True] by (simp add: ch h_def pr)
  next
    case False
    then have len: "length p = 8" and more: "tx_packet_sent tx + 8 < tx_len tx" using r by (simp_all add: p_def)
    then have tx1: "tx_state tx1 = NBUS_TXP_DATA" "tx_len tx1 = tx_len tx" "tx_buf tx1 = tx_buf tx"
      "tx_packet_sent tx1 = tx_packet_sent tx + 8" "tx_next_frag tx1 = tx_next_frag tx + 1"
      by (simp_all add: tx1_def)
    have rest: "take (tx_len tx - (tx_packet_sent tx + 8)) (drop (tx_packet_sent tx + 8) (tx_buf tx)) = drop 8 r"
      by (simp add: r_def drop_take add.commute)
    have "tx_len tx1 - tx_packet_sent tx1 < tx_len tx - tx_packet_sent tx" using more by (simp add: tx1)
    from less.hyps [OF this tx1(1) fb1(1), of "nbus_deliver can (h, p) d" h "length p"]
    have "\<exists>tx'. nbus_send_loop can (nbus_deliver can (h, p) d) tx1 h fb1 (length p) = Some (tx',
      fold (nbus_deliver can) (nbus_data_frames (tx_channel_id tx) (tx_next_frag tx + 1) (chunks8 (drop 8 r)) @
        [nbus_trailing_frame (tx_channel_id tx)]) (nbus_deliver can (h, p) d))"
      unfolding ch tx1 rest using less.prems(4-6) more by simp
    then show ?thesis
      using False unfolding r_def [symmetric] step by (simp add: chunks8_long [of r] h_def p_def)
  qed
qed

lemma channel_send_frames:
  assumes "length p \<le> NBUS_CHANNEL_MTU" "ch_channel_id_valid self" "length stack = 8"
  shows "\<exists>tx. nbus_channel_send stack can d self ep p (length p) = Some (NBUS_RET_OK, self\<lparr>ch_txpacket := tx\<rparr>,
    fold (nbus_deliver can) (nbus_frames (ch_channel_id self) ep (ch_packet_counter self) p) d)"
proof -
  define tx where "tx = (snd (nbus_txpacket_init (ch_channel_id self) ep (ch_packet_counter self)))
    \<lparr>tx_buf := p, tx_len := length p\<rparr>"
  let ?tx = "tx\<lparr>tx_packet_sent := 0, tx_next_frag := 0, tx_state := NBUS_TXP_DATA\<rparr>"
  let ?lf = "lf_bytes \<lparr>lf_counter = ch_packet_counter self, lf_len = of_nat (length p), lf_flags = 0\<rparr>"
  have "nbus_txpacket_get_fragment tx nbus_id_zero stack 0 = Some (NBUS_RET_OK, ?tx,
      nbus_hdr (ch_channel_id self) (NBUS_OP_LEADING_MIN + ep), ?lf, length ?lf)"
    using assms(3)
    by (simp add: tx_def nbus_txpacket_init_def nbus_txpacket_get_fragment_def mem_write_def nbus_hdr_def Let_def)
  note step = send_loop_frame [OF this, of can d]
  have "\<exists>tx'. nbus_send_loop can e ?tx sid ?lf n = Some (tx',
    fold (nbus_deliver can) (nbus_data_frames (tx_channel_id ?tx) (tx_next_frag ?tx)
      (chunks8 (take (tx_len ?tx - tx_packet_sent ?tx) (drop (tx_packet_sent ?tx) (tx_buf ?tx)))) @
      [nbus_trailing_frame (tx_channel_id ?tx)]) e)" for e sid n
    using assms(1) by (intro send_loop_data) (auto simp: tx_def NBUS_CHANNEL_MTU_def nbus_txpacket_init_def)
  then have "\<exists>tx'. nbus_send_loop can d tx nbus_id_zero stack 0 = Some (tx',
      fold (nbus_deliver can) (nbus_frames (ch_channel_id self) ep (ch_packet_counter self) p) d)"
    using step by (simp add: tx_def nbus_txpacket_init_def nbus_frames_def nbus_leading_frame_def)
  moreover have "snd (nbus_txpacket_buf_ref (snd (nbus_txpacket_init (ch_channel_id self) ep (ch_packet_counter self))) p (length p)) = tx"
    by (simp add: tx_def nbus_txpacket_buf_ref_def)
  ultimately show ?thesis
    using assms(1,2) by (auto simp: nbus_channel_send_def split_beta)
qed

text \<open>
  Property C28. Sending a packet of at most 512 bytes on a channel that has an identifier always
  returns, stays inside of the packet and of the eight byte frame buffer, and gives the driver exactly
  the frames of the packet, in order: the leading frame, the chunks with consecutive opcodes, the
  trailing frame. This holds whatever the driver answers to each frame.
\<close>

theorem nbus_send_frames:
  assumes "length p \<le> NBUS_CHANNEL_MTU" "ch_channel_id_valid self" "length stack = 8"
  shows "\<exists>tx. nbus_channel_send stack can d self ep p (length p) = Some (NBUS_RET_OK, self\<lparr>ch_txpacket := tx\<rparr>,
    fold (nbus_deliver can) (nbus_frames (ch_channel_id self) ep (ch_packet_counter self) p) d)"
  by (rule channel_send_frames [OF assms])

subsection \<open>Reassembly\<close>

type_synonym nbus_rx_frame = "nbus_id \<times> u8 list \<times> nat"

fun rxf_opcode :: "nbus_rx_frame \<Rightarrow> u8" where "rxf_opcode (sid, buf, len) = sid_opcode sid"
fun rxf_payload :: "nbus_rx_frame \<Rightarrow> u8 list" where "rxf_payload (sid, buf, len) = take len buf"
fun rxf_ok :: "nbus_rx_frame \<Rightarrow> bool" where "rxf_ok (sid, buf, len) \<longleftrightarrow> length buf = 64 \<and> len \<le> 64"

definition rxf_lf_len :: "nbus_rx_frame \<Rightarrow> nat" where
  "rxf_lf_len f = unat (load16_le (take 2 (drop 4 (fst (snd f)))))"

text \<open>The state of a receive packet that has its memory: the packet fits in the buffer, and a packet
  whose chunks are all there has the announced length.\<close>

definition nbus_rx_wf :: "nbus_rxpacket \<Rightarrow> bool" where
  "nbus_rx_wf p \<longleftrightarrow> length (rx_buf p) = rx_buf_size p \<and> rx_buf_size p < 2 ^ 16 \<and> rx_done p \<noteq> None \<and>
     rx_packet_size p \<le> rx_expected_packet_size p \<and> rx_expected_packet_size p \<le> rx_buf_size p \<and>
     (rx_state p \<in> {NBUS_RXP_TRAILING, NBUS_RXP_DONE} \<longrightarrow> rx_packet_size p = rx_expected_packet_size p)"

lemma nbus_rx_wf_init:
  "length mem < 2 ^ 16 \<Longrightarrow> nbus_rx_wf (snd (nbus_rxpacket_init (Some mem) True (length mem)))"
  by (simp add: nbus_rxpacket_init_def nbus_rx_wf_def nbus_rxpacket_zero_def)

lemma length_store16_le [simp]: "length (store16_le v) = 2"
  by (simp add: store16_le_def)

lemma load16_store16: "load16_le (store16_le v) = v"
proof (rule bit_eqI)
  fix n assume n: "possible_bit TYPE(u16) n"
  then consider "n < 8" | "8 \<le> n" "n < 16" by (force simp: possible_bit_word)
  then show "bit (load16_le (store16_le v)) n = bit v n"
    by cases (auto simp: load16_le_def store16_le_def bit_simps)
qed

lemma rx_leading_eq:
  "rxf_ok f \<Longrightarrow> nbus_rx_leading p (fst f) (fst (snd f)) (snd (snd f)) =
    Some (if rxf_lf_len f > rx_buf_size p then (NBUS_RET_FAILED, p\<lparr>rx_state := NBUS_RXP_READY\<rparr>)
      else (NBUS_RET_OK, p\<lparr>rx_packet_size := 0, rx_expected_packet_size := rxf_lf_len f,
        rx_frame_expected := 0, rx_ep := rxf_opcode f, rx_state := NBUS_RXP_DATA\<rparr>))"
  by (cases f) (auto simp: nbus_rx_leading_def rxf_lf_len_def mem_read_def NBUS_OP_LEADING_MIN_def Let_def)

definition rx_take :: "nbus_rxpacket \<Rightarrow> u8 list \<Rightarrow> nbus_rxpacket" where
  "rx_take p b = p\<lparr>rx_buf := take (rx_packet_size p) (rx_buf p) @ b @ drop (rx_packet_size p + length b) (rx_buf p),
     rx_packet_size := rx_packet_size p + length b, rx_frame_expected := rx_frame_expected p + 1,
     rx_state := (if rx_packet_size p + length b = rx_expected_packet_size p then NBUS_RXP_TRAILING else NBUS_RXP_DATA)\<rparr>"

lemma rx_data_eq:
  assumes "rxf_ok f" "nbus_rx_wf p"
  shows "nbus_rx_data p (fst f) (fst (snd f)) (snd (snd f)) =
    Some (if rx_state p = NBUS_RXP_DATA \<and> rx_frame_expected p = ucast (rxf_opcode f - NBUS_OP_DATA_MIN) \<and>
        rx_packet_size p + length (rxf_payload f) \<le> rx_expected_packet_size p
      then (NBUS_RET_OK, rx_take p (rxf_payload f)) else (NBUS_RET_FAILED, p))"
proof (cases f)
  case (fields sid buf len)
  with assms have len: "length buf = 64" "len \<le> 64" "length (take len buf) = len" by auto
  have "add32 (rx_packet_size p) len = rx_packet_size p + len"
    using assms(2) len by (intro add32_small) (auto simp: nbus_rx_wf_def)
  then show ?thesis
    using assms(2) len
    by (auto simp: fields nbus_rx_data_def Let_def mem_read_def mem_write_def nbus_rx_wf_def rx_take_def)
qed

lemma rx_leading_wf:
  "nbus_rx_wf p \<Longrightarrow> n \<le> rx_buf_size p \<Longrightarrow> nbus_rx_wf (p\<lparr>rx_packet_size := 0, rx_expected_packet_size := n,
        rx_frame_expected := k, rx_ep := e, rx_state := NBUS_RXP_DATA\<rparr>)"
  by (simp add: nbus_rx_wf_def)

lemma rx_take_wf:
  "nbus_rx_wf p \<Longrightarrow> rx_packet_size p + length b \<le> rx_expected_packet_size p \<Longrightarrow> nbus_rx_wf (rx_take p b)"
  by (auto simp: nbus_rx_wf_def rx_take_def)

lemma rx_state_wf: "nbus_rx_wf p \<Longrightarrow> s \<notin> {NBUS_RXP_TRAILING, NBUS_RXP_DONE} \<Longrightarrow> nbus_rx_wf (p\<lparr>rx_state := s\<rparr>)"
  by (simp add: nbus_rx_wf_def)

lemma rx_done_wf: "nbus_rx_wf p \<Longrightarrow> rx_state p = NBUS_RXP_TRAILING \<Longrightarrow>
    nbus_rx_wf (p\<lparr>rx_state := NBUS_RXP_DONE, rx_done := Some b\<rparr>)"
  by (simp add: nbus_rx_wf_def)

lemma rx_take_size [simp]: "rx_buf_size (rx_take p b) = rx_buf_size p"
  by (simp add: rx_take_def)

text \<open>What one frame does, by its opcode.\<close>

definition rx_step :: "nbus_rxpacket \<Rightarrow> nbus_rx_frame \<Rightarrow> nbus_ret \<times> nbus_rxpacket" where
  "rx_step p f =
     (if rx_state p = NBUS_RXP_EMPTY then (NBUS_RET_FAILED, p)
      else if rxf_opcode f \<le> NBUS_OP_LEADING_MAX then
        if rxf_lf_len f > rx_buf_size p then (NBUS_RET_FAILED, p\<lparr>rx_state := NBUS_RXP_READY\<rparr>)
        else (NBUS_RET_OK, p\<lparr>rx_packet_size := 0, rx_expected_packet_size := rxf_lf_len f,
          rx_frame_expected := 0, rx_ep := rxf_opcode f, rx_state := NBUS_RXP_DATA\<rparr>)
      else if rxf_opcode f \<le> NBUS_OP_DATA_MAX then
        if rx_state p = NBUS_RXP_DATA \<and> rx_frame_expected p = ucast (rxf_opcode f - NBUS_OP_DATA_MIN) \<and>
          rx_packet_size p + length (rxf_payload f) \<le> rx_expected_packet_size p
        then (NBUS_RET_OK, rx_take p (rxf_payload f)) else (NBUS_RET_FAILED, p)
      else if rxf_opcode f = NBUS_OP_TRAILING then
        if rx_state p = NBUS_RXP_TRAILING then (NBUS_RET_OK, p\<lparr>rx_state := NBUS_RXP_DONE, rx_done := Some True\<rparr>)
        else (NBUS_RET_FAILED, p\<lparr>rx_state := NBUS_RXP_INVALID\<rparr>)
      else if rxf_opcode f = NBUS_OP_ADVERTISEMENT then (NBUS_RET_INVALID, p)
      else (NBUS_RET_FAILED, p))"

lemma append_rx_step:
  assumes "rxf_ok f" "nbus_rx_wf p"
  shows "nbus_rxpacket_append p (fst f) (fst (snd f)) (snd (snd f)) = Some (rx_step p f)"
proof -
  have op: "rxf_opcode f = sid_opcode (fst f)" by (cases f) simp
  have ranges: "NBUS_OP_LEADING_MIN \<le> x" "\<not> x \<le> NBUS_OP_LEADING_MAX \<Longrightarrow> NBUS_OP_DATA_MIN \<le> x" for x
    using inc_le [of NBUS_OP_LEADING_MAX x] by (simp_all add: nbus_consts)
  obtain d where "rx_done p = Some d" using assms(2) by (auto simp: nbus_rx_wf_def)
  then show ?thesis
    unfolding nbus_rxpacket_append_def rx_step_def Let_def rx_leading_eq [OF assms(1)] rx_data_eq [OF assms] op
    using ranges by (simp add: nbus_rx_trailing_def)
qed

lemma rx_step_wf: "nbus_rx_wf p \<Longrightarrow> nbus_rx_wf (snd (rx_step p f)) \<and> rx_buf_size (snd (rx_step p f)) = rx_buf_size p"
  by (simp add: rx_step_def rx_take_wf rx_leading_wf rx_state_wf rx_done_wf rx_take_size)

lemma rx_frames_fold:
  "nbus_rx_wf p \<Longrightarrow> list_all rxf_ok fs \<Longrightarrow>
    nbus_rx_frames p fs = Some (foldl (\<lambda>p f. snd (rx_step p f)) p fs)"
proof (induction fs arbitrary: p)
  case (Cons f fs)
  then show ?case
    using append_rx_step [of f p] rx_step_wf [of p f] by (cases f) (auto simp: split_beta)
qed simp

lemma rx_fold_wf: "nbus_rx_wf p \<Longrightarrow> nbus_rx_wf (foldl (\<lambda>p f. snd (rx_step p f)) p fs)"
  by (induction fs arbitrary: p) (auto simp: rx_step_wf)

text \<open>The frames behind the contents of a receive packet: the last leading frame, and after it the
  chunks \<open>ds\<close> and the trailing frame \<open>tr\<close>, in order but possibly among other frames.\<close>

definition rx_origin :: "nbus_rxpacket \<Rightarrow> nbus_rx_frame list \<Rightarrow> nbus_rx_frame list \<Rightarrow> nbus_rx_frame \<Rightarrow>
    nbus_rx_frame list \<Rightarrow> nbus_rx_frame list \<Rightarrow> nbus_rx_frame list \<Rightarrow> bool" where
  "rx_origin p fs pre lead rest ds tr \<longleftrightarrow> fs = pre @ lead # rest \<and>
     rxf_opcode lead = rx_ep p \<and> rx_ep p \<le> NBUS_OP_LEADING_MAX \<and> rxf_lf_len lead = rx_expected_packet_size p \<and>
     (\<forall>f \<in> set rest. \<not> rxf_opcode f \<le> NBUS_OP_LEADING_MAX) \<and> subseq (ds @ tr) rest \<and>
     map rxf_opcode ds = map (\<lambda>i. NBUS_OP_DATA_MIN + of_nat i) [0..<length ds] \<and>
     length ds \<le> 128 \<and> rx_frame_expected p = of_nat (length ds) \<and>
     concat (map rxf_payload ds) = take (rx_packet_size p) (rx_buf p) \<and>
     map rxf_opcode tr = (if rx_state p = NBUS_RXP_DONE then [NBUS_OP_TRAILING] else [])"

definition rx_active :: "nbus_rxpacket \<Rightarrow> bool" where
  "rx_active p \<longleftrightarrow> rx_state p \<in> {NBUS_RXP_DATA, NBUS_RXP_TRAILING, NBUS_RXP_DONE}"

lemma rx_origin_later:
  "rx_origin p fs pre lead rest ds tr \<Longrightarrow> \<not> rxf_opcode f \<le> NBUS_OP_LEADING_MAX \<Longrightarrow>
    rx_origin p (fs @ [f]) pre lead (rest @ [f]) ds tr"
  by (auto simp: rx_origin_def)

lemma rx_origin_leading:
  "rxf_opcode f \<le> NBUS_OP_LEADING_MAX \<Longrightarrow> rx_origin (p\<lparr>rx_packet_size := 0, rx_expected_packet_size := rxf_lf_len f,
      rx_frame_expected := 0, rx_ep := rxf_opcode f, rx_state := NBUS_RXP_DATA\<rparr>) (fs @ [f]) fs f [] [] []"
  by (simp add: rx_origin_def)

lemma unat_ucast_u8: "unat (ucast (k :: u8) :: u32) = unat k"
proof -
  have "unat k < 2 ^ 32" using unsigned_less [where ?'a = nat and w = k] by simp
  then show ?thesis by (simp add: unsigned_ucast_eq take_bit_nat_eq_self)
qed

lemma rx_origin_data:
  assumes o: "rx_origin p fs pre lead rest ds tr" and st: "rx_state p = NBUS_RXP_DATA"
    and op: "\<not> rxf_opcode f \<le> NBUS_OP_LEADING_MAX" "rxf_opcode f \<le> NBUS_OP_DATA_MAX"
    and exp: "rx_frame_expected p = ucast (rxf_opcode f - NBUS_OP_DATA_MIN)"
    and size: "rx_packet_size p + length (rxf_payload f) \<le> length (rx_buf p)"
  shows "rx_origin (rx_take p (rxf_payload f)) (fs @ [f]) pre lead (rest @ [f]) (ds @ [f]) []"
proof -
  let ?k = "rxf_opcode f - NBUS_OP_DATA_MIN"
  have "NBUS_OP_DATA_MIN \<le> rxf_opcode f" using inc_le [of NBUS_OP_LEADING_MAX "rxf_opcode f"] op(1)
    by (simp add: nbus_consts)
  then have k: "unat ?k = unat (rxf_opcode f) - 64" and ge: "64 \<le> unat (rxf_opcode f)"
    by (simp_all add: unat_sub nbus_consts word_le_nat_alt)
  moreover have "unat (rxf_opcode f) \<le> 191" using op(2) by (simp add: nbus_consts word_le_nat_alt)
  ultimately have k127: "unat ?k \<le> 127" by simp
  have ds: "length ds \<le> 128" "rx_frame_expected p = of_nat (length ds)" using o by (simp_all add: rx_origin_def)
  have "unat (rx_frame_expected p) = length ds" using ds by (simp add: unat_of_nat)
  moreover have "unat (rx_frame_expected p) = unat ?k" by (simp add: exp unat_ucast_u8)
  ultimately have n: "length ds = unat ?k" by simp
  then have opc: "rxf_opcode f = NBUS_OP_DATA_MIN + of_nat (length ds)" by simp
  have tr: "tr = []" using o st by (simp add: rx_origin_def)
  show ?thesis
    using o op(1) size k127 n tr unfolding rx_origin_def
    by (auto simp: rx_take_def opc [symmetric] intro: list_emb_append_mono)
qed

lemma rx_origin_done:
  assumes "rx_origin p fs pre lead rest ds tr" "rx_state p = NBUS_RXP_TRAILING" "rxf_opcode f = NBUS_OP_TRAILING"
  shows "rx_origin (p\<lparr>rx_state := NBUS_RXP_DONE, rx_done := d\<rparr>) (fs @ [f]) pre lead (rest @ [f]) ds [f]"
  using assms by (auto simp: rx_origin_def nbus_consts intro: list_emb_append_mono)

lemma rx_step_origin:
  assumes wf: "nbus_rx_wf p" and o: "rx_active p \<Longrightarrow> \<exists>pre lead rest ds tr. rx_origin p fs pre lead rest ds tr"
    and act: "rx_active (snd (rx_step p f))"
  shows "\<exists>pre lead rest ds tr. rx_origin (snd (rx_step p f)) (fs @ [f]) pre lead rest ds tr"
proof -
  have bound: "rx_packet_size p + n \<le> rx_expected_packet_size p \<Longrightarrow> rx_packet_size p + n \<le> length (rx_buf p)" for n
    using wf by (simp add: nbus_rx_wf_def)
  consider (leading) "rxf_opcode f \<le> NBUS_OP_LEADING_MAX" "rx_state p \<noteq> NBUS_RXP_EMPTY" "\<not> rxf_lf_len f > rx_buf_size p"
    | (data) "\<not> rxf_opcode f \<le> NBUS_OP_LEADING_MAX" "rxf_opcode f \<le> NBUS_OP_DATA_MAX" "rx_state p = NBUS_RXP_DATA"
      "rx_frame_expected p = ucast (rxf_opcode f - NBUS_OP_DATA_MIN)"
      "rx_packet_size p + length (rxf_payload f) \<le> rx_expected_packet_size p"
    | (trailing) "\<not> rxf_opcode f \<le> NBUS_OP_DATA_MAX" "rxf_opcode f = NBUS_OP_TRAILING" "rx_state p = NBUS_RXP_TRAILING"
    | (other) "\<not> rxf_opcode f \<le> NBUS_OP_LEADING_MAX" "snd (rx_step p f) = p"
    using act by (auto simp: rx_step_def rx_active_def split: if_splits)
  then show ?thesis
  proof cases
    case leading
    from leading have "snd (rx_step p f) = p\<lparr>rx_packet_size := 0, rx_expected_packet_size := rxf_lf_len f,
      rx_frame_expected := 0, rx_ep := rxf_opcode f, rx_state := NBUS_RXP_DATA\<rparr>" by (simp add: rx_step_def)
    then show ?thesis using rx_origin_leading [OF leading(1), of p fs] by metis
  next
    case data
    then obtain pre lead rest ds tr where "rx_origin p fs pre lead rest ds tr" using o by (auto simp: rx_active_def)
    from rx_origin_data [OF this data(3,1,2,4) bound [OF data(5)]]
    have "\<exists>pre lead rest ds tr. rx_origin (rx_take p (rxf_payload f)) (fs @ [f]) pre lead rest ds tr" by blast
    moreover have "snd (rx_step p f) = rx_take p (rxf_payload f)" using data by (simp add: rx_step_def)
    ultimately show ?thesis by simp
  next
    case trailing
    then obtain pre lead rest ds tr where "rx_origin p fs pre lead rest ds tr" using o by (auto simp: rx_active_def)
    from rx_origin_done [OF this trailing(3,2), of "Some True"]
    have "\<exists>pre lead rest ds tr. rx_origin (p\<lparr>rx_state := NBUS_RXP_DONE, rx_done := Some True\<rparr>) (fs @ [f]) pre lead rest ds tr"
      by blast
    moreover have "snd (rx_step p f) = p\<lparr>rx_state := NBUS_RXP_DONE, rx_done := Some True\<rparr>"
      using trailing by (simp add: rx_step_def nbus_consts)
    ultimately show ?thesis by simp
  next
    case other
    then show ?thesis using o act rx_origin_later by metis
  qed
qed

lemma rx_fold_origin:
  assumes "nbus_rx_wf p" "\<not> rx_active p" "rx_active (foldl (\<lambda>p f. snd (rx_step p f)) p fs)"
  shows "\<exists>pre lead rest ds tr. rx_origin (foldl (\<lambda>p f. snd (rx_step p f)) p fs) fs pre lead rest ds tr"
  using assms(3)
proof (induction fs rule: rev_induct)
  case Nil
  with assms(2) show ?case by simp
next
  case (snoc f fs)
  then show ?case using rx_step_origin [OF rx_fold_wf [OF assms(1)]] by simp
qed

text \<open>
  Property C21. Reassembly is safe and honest. Any sequence of frames of at most 64 bytes is handled
  without an access outside of the packet buffer. When a packet that was idle is then complete, there is
  a leading frame after which no other leading frame came, whose endpoint and length are those of the
  packet, and after it, in this order among possibly other frames, data frames numbered from zero
  whose payloads are the contents of the packet and add up to the announced length, and a trailing frame.
\<close>

theorem nbus_rx_integrity:
  assumes "nbus_rx_wf p" "rx_state p = NBUS_RXP_READY" "list_all rxf_ok fs"
  shows "\<exists>p'. nbus_rx_frames p fs = Some p' \<and> nbus_rx_wf p' \<and>
    (rx_state p' = NBUS_RXP_DONE \<longrightarrow>
      (\<exists>pre lead rest ds tr. fs = pre @ lead # rest \<and> rxf_opcode lead = rx_ep p' \<and>
        (\<forall>f \<in> set rest. \<not> rxf_opcode f \<le> NBUS_OP_LEADING_MAX) \<and> subseq (ds @ [tr]) rest \<and>
        map rxf_opcode ds = map (\<lambda>i. NBUS_OP_DATA_MIN + of_nat i) [0..<length ds] \<and>
        rxf_opcode tr = NBUS_OP_TRAILING \<and>
        concat (map rxf_payload ds) = take (rx_packet_size p') (rx_buf p') \<and>
        rxf_lf_len lead = rx_packet_size p' \<and> rx_packet_size p' \<le> length (rx_buf p')))"
proof -
  let ?p = "foldl (\<lambda>p f. snd (rx_step p f)) p fs"
  have wf: "nbus_rx_wf ?p" by (rule rx_fold_wf [OF assms(1)])
  moreover have "\<exists>pre lead rest ds tr. rx_origin ?p fs pre lead rest ds [tr] \<and> rxf_opcode tr = NBUS_OP_TRAILING"
    if "rx_state ?p = NBUS_RXP_DONE"
  proof -
    obtain pre lead rest ds tr where o: "rx_origin ?p fs pre lead rest ds tr"
      using rx_fold_origin [OF assms(1), of fs] assms(2) \<open>rx_state ?p = NBUS_RXP_DONE\<close> by (auto simp: rx_active_def)
    then have "map rxf_opcode tr = [NBUS_OP_TRAILING]" using that by (simp add: rx_origin_def)
    then obtain t where "tr = [t]" "rxf_opcode t = NBUS_OP_TRAILING" by auto
    with o show ?thesis by blast
  qed
  ultimately show ?thesis
    unfolding rx_frames_fold [OF assms(1,3)] by (fastforce simp: rx_origin_def nbus_rx_wf_def)
qed

subsection \<open>Send and receive\<close>

definition rxf_of :: "nbus_id \<times> u8 list \<Rightarrow> nbus_rx_frame" where
  "rxf_of f = (fst f, snd f @ replicate (64 - length (snd f)) 0, length (snd f))"

abbreviation rx_run :: "nbus_rxpacket \<Rightarrow> nbus_rx_frame list \<Rightarrow> nbus_rxpacket" where
  "rx_run p fs \<equiv> foldl (\<lambda>p f. snd (rx_step p f)) p fs"

lemma rxf_of_simps [simp]:
  "rxf_opcode (rxf_of (nbus_hdr ch op, b)) = op" "rxf_payload (rxf_of (h, b)) = b"
  by (simp_all add: rxf_of_def nbus_hdr_def)

lemma data_opcode:
  assumes "n < 128"
  shows "\<not> NBUS_OP_DATA_MIN + of_nat n \<le> NBUS_OP_LEADING_MAX" "NBUS_OP_DATA_MIN + of_nat n \<le> NBUS_OP_DATA_MAX"
    "ucast (NBUS_OP_DATA_MIN + of_nat n - NBUS_OP_DATA_MIN) = (of_nat n :: u32)"
proof -
  have u: "unat (0x40 + of_nat n :: u8) = 64 + n" using assms by (simp add: unat_word_ariths unat_of_nat)
  show "\<not> NBUS_OP_DATA_MIN + of_nat n \<le> NBUS_OP_LEADING_MAX" "NBUS_OP_DATA_MIN + of_nat n \<le> NBUS_OP_DATA_MAX"
    using assms by (simp_all add: nbus_consts word_le_nat_alt u)
  have "unat (ucast (of_nat n :: u8) :: u32) = unat (of_nat n :: u32)"
    using assms by (simp add: unat_ucast_u8 unat_of_nat)
  then show "ucast (NBUS_OP_DATA_MIN + of_nat n - NBUS_OP_DATA_MIN) = (of_nat n :: u32)"
    by (simp add: word_unat_eq_iff del: unsigned_ucast_eq)
qed

text \<open>What a packet that is being received keeps, and what arrived so far.\<close>

definition rx_holds :: "nbus_rxpacket \<Rightarrow> nat \<Rightarrow> u8 \<Rightarrow> nat \<Rightarrow> u8 list \<Rightarrow> bool" where
  "rx_holds p sz ep expected bs \<longleftrightarrow> rx_buf_size p = sz \<and> length (rx_buf p) = sz \<and> rx_ep p = ep \<and>
     rx_expected_packet_size p = expected \<and> rx_packet_size p = length bs \<and> take (length bs) (rx_buf p) = bs"

lemma rx_take_holds:
  assumes "rx_holds p sz ep expected bs" "length bs + length b \<le> sz"
  shows "rx_holds (rx_take p b) sz ep expected (bs @ b)"
  using assms by (auto simp: rx_holds_def rx_take_def min_def)

lemma rx_step_data:
  assumes "rx_state p = NBUS_RXP_DATA" "rx_frame_expected p = of_nat n" "n < 128"
    and "rx_packet_size p + length b \<le> rx_expected_packet_size p"
  shows "snd (rx_step p (rxf_of (nbus_hdr ch (NBUS_OP_DATA_MIN + of_nat n), b))) = rx_take p b"
  using assms data_opcode [OF assms(3)] by (simp add: rx_step_def)

lemma rx_run_data:
  assumes "rx_state p = NBUS_RXP_DATA" "rx_frame_expected p = of_nat n" "n + length r div 8 < 128"
    and "rx_holds p sz ep (length bs + length r) bs" "length bs + length r \<le> sz"
  shows "rx_state (rx_run p (map rxf_of (nbus_data_frames ch n (chunks8 r)))) = NBUS_RXP_TRAILING \<and>
    rx_holds (rx_run p (map rxf_of (nbus_data_frames ch n (chunks8 r)))) sz ep (length bs + length r) (bs @ r)"
  using assms
proof (induction "length r" arbitrary: p n r bs rule: less_induct)
  case less
  have n: "n < 128" using less.prems(3) by simp
  have exp: "rx_packet_size p = length bs" "rx_expected_packet_size p = length bs + length r"
    using less.prems(4) by (simp_all add: rx_holds_def)
  show ?case
  proof (cases "length r \<le> 8")
    case True
    have "snd (rx_step p (rxf_of (nbus_hdr ch (NBUS_OP_DATA_MIN + of_nat n), r))) = rx_take p r"
      using less.prems(1,2) n exp by (intro rx_step_data) simp_all
    moreover have "rx_state (rx_take p r) = NBUS_RXP_TRAILING" by (simp add: rx_take_def exp)
    ultimately show ?thesis
      using rx_take_holds [OF less.prems(4,5)] by (simp add: chunks8_short [OF True])
  next
    case False
    let ?b = "take 8 r" and ?r = "drop 8 r"
    have l: "length ?b = 8" "length ?r = length r - 8" using False by simp_all
    have "snd (rx_step p (rxf_of (nbus_hdr ch (NBUS_OP_DATA_MIN + of_nat n), ?b))) = rx_take p ?b"
      using less.prems(1,2) n exp False by (intro rx_step_data) simp_all
    moreover have "rx_state (rx_take p ?b) = NBUS_RXP_DATA" using False by (simp add: rx_take_def exp)
    moreover have "rx_frame_expected (rx_take p ?b) = of_nat (n + 1)" using less.prems(2) by (simp add: rx_take_def)
    moreover have "rx_holds (rx_take p ?b) sz ep (length (bs @ ?b) + length ?r) (bs @ ?b)"
      using rx_take_holds [OF less.prems(4), of ?b] less.prems(5) False by simp
    moreover have "n + 1 + length ?r div 8 < 128"
      using less.prems(3) False by (simp add: l le_div_geq)
    ultimately show ?thesis
      using less.hyps [of ?r "rx_take p ?b" "n + 1" "bs @ ?b"] False less.prems(5)
      by (simp add: chunks8_long [of r])
  qed
qed

lemma rx_run_packet:
  assumes "nbus_rx_wf p" "rx_state p \<noteq> NBUS_RXP_EMPTY" "ep \<le> NBUS_OP_LEADING_MAX"
    and "length m \<le> NBUS_CHANNEL_MTU" "length m \<le> rx_buf_size p"
  shows "rx_state (rx_run p (map rxf_of (nbus_frames ch ep counter m))) = NBUS_RXP_DONE \<and>
    rx_holds (rx_run p (map rxf_of (nbus_frames ch ep counter m))) (rx_buf_size p) ep (length m) m"
proof -
  let ?lead = "rxf_of (nbus_leading_frame ch ep counter (length m))"
  let ?p = "p\<lparr>rx_packet_size := 0, rx_expected_packet_size := length m, rx_frame_expected := 0, rx_ep := ep,
    rx_state := NBUS_RXP_DATA\<rparr>"
  have "rxf_lf_len ?lead = unat (of_nat (length m) :: u16)"
    by (simp add: rxf_lf_len_def rxf_of_def nbus_leading_frame_def lf_bytes_def load16_store16)
  also have "\<dots> = length m" using assms(4) by (simp add: unat_of_nat NBUS_CHANNEL_MTU_def)
  finally have "rxf_lf_len ?lead = length m" .
  moreover have "rxf_opcode ?lead = ep" by (simp add: nbus_leading_frame_def NBUS_OP_LEADING_MIN_def)
  ultimately have lead: "snd (rx_step p ?lead) = ?p" using assms by (simp add: rx_step_def)
  have "rx_holds ?p (rx_buf_size p) ep (length [] + length m) []" using assms(1) by (simp add: rx_holds_def nbus_rx_wf_def)
  moreover have "0 + length m div 8 < 128" using assms(4) by (simp add: NBUS_CHANNEL_MTU_def)
  moreover define q where "q = rx_run ?p (map rxf_of (nbus_data_frames ch 0 (chunks8 m)))"
  ultimately have q: "rx_state q = NBUS_RXP_TRAILING" "rx_holds q (rx_buf_size p) ep (length m) m"
    using rx_run_data [of ?p 0 m "rx_buf_size p" ep "[]" ch] assms(5) by simp_all
  have "rx_run p (map rxf_of (nbus_frames ch ep counter m)) = snd (rx_step q (rxf_of (nbus_trailing_frame ch)))"
    by (simp add: nbus_frames_def lead q_def)
  also have "\<dots> = q\<lparr>rx_state := NBUS_RXP_DONE, rx_done := Some True\<rparr>"
    using q(1) by (simp add: nbus_trailing_frame_def rx_step_def nbus_consts)
  finally show ?thesis using q(2) by (simp add: rx_holds_def)
qed

text \<open>The receive task as seen by one channel: it processes the frames with its identifier.\<close>

definition nbus_ch_ok :: "nbus_channel \<Rightarrow> bool" where
  "nbus_ch_ok ch \<longleftrightarrow> rx_state (ch_rxpacket ch) = NBUS_RXP_EMPTY \<or> nbus_rx_wf (ch_rxpacket ch)"

definition nbus_for :: "u16 \<Rightarrow> can_ret \<times> can_message \<Rightarrow> bool" where
  "nbus_for c m \<longleftrightarrow> fst m = CAN_RET_OK \<and> msg_extid (snd m) \<and> sid_channel (nbus_parse_id (msg_id (snd m))) = c"

definition nbus_got :: "can_ret \<times> can_message \<Rightarrow> nbus_rx_frame" where
  "nbus_got m = (nbus_parse_id (msg_id (snd m)), msg_buf (snd m), msg_len (snd m))"

lemma rx_step_empty:
  assumes "rx_state p = NBUS_RXP_EMPTY"
  shows "rx_step p f = (NBUS_RET_FAILED, p)" "nbus_rxpacket_append p sid b n = Some (NBUS_RET_FAILED, p)"
  using assms by (simp_all add: rx_step_def nbus_rxpacket_append_def)

lemma append_ok:
  assumes "rxf_ok f" "nbus_ch_ok ch"
  shows "nbus_rxpacket_append (ch_rxpacket ch) (fst f) (fst (snd f)) (snd (snd f)) = Some (rx_step (ch_rxpacket ch) f)"
  using assms append_rx_step [OF assms(1)] by (auto simp: nbus_ch_ok_def rx_step_empty)

text \<open>A frame for a channel, with the reaction to an identifier that is used twice.\<close>

definition nbus_ch_step :: "nbus_channel \<Rightarrow> nbus_rx_frame \<Rightarrow> nbus_channel" where
  "nbus_ch_step ch f =
     (let ch' = ch\<lparr>ch_rxpacket := snd (rx_step (ch_rxpacket ch) f)\<rparr>
      in if fst (rx_step (ch_rxpacket ch) f) = NBUS_RET_INVALID then ch'\<lparr>ch_channel_id_valid := False\<rparr> else ch')"

lemma nbus_ch_step_ok: "nbus_ch_ok ch \<Longrightarrow> nbus_ch_ok (nbus_ch_step ch f)"
  by (auto simp: nbus_ch_step_def nbus_ch_ok_def rx_step_empty rx_step_wf Let_def)

lemma nbus_ch_step_simps [simp]:
  "ch_rxpacket (nbus_ch_step ch f) = snd (rx_step (ch_rxpacket ch) f)"
  "ch_channel_id (nbus_ch_step ch f) = ch_channel_id ch"
  by (simp_all add: nbus_ch_step_def Let_def)

lemma rx_step_invalid: "fst (rx_step p f) = NBUS_RET_INVALID \<Longrightarrow> rxf_opcode f = NBUS_OP_ADVERTISEMENT"
  by (auto simp: rx_step_def split: if_splits)

lemma nbus_ch_step_valid:
  "rxf_opcode f \<noteq> NBUS_OP_ADVERTISEMENT \<Longrightarrow> ch_channel_id_valid (nbus_ch_step ch f) = ch_channel_id_valid ch"
  using rx_step_invalid [of "ch_rxpacket ch" f] by (auto simp: nbus_ch_step_def Let_def)

abbreviation nbus_msg_ok :: "can_ret \<times> can_message \<Rightarrow> bool" where
  "nbus_msg_ok m \<equiv> length (msg_buf (snd m)) = 64 \<and> msg_len (snd m) \<le> 64"

lemma receive_step_eq:
  assumes "list_all nbus_ch_ok chs" "nbus_msg_ok m"
  shows "nbus_receive_step chs m = Some (
    if fst m = CAN_RET_OK \<and> msg_extid (snd m) then
      (case nbus_channel_find_by_id chs (sid_channel (nbus_parse_id (msg_id (snd m)))) of
         None \<Rightarrow> chs | Some i \<Rightarrow> chs[i := nbus_ch_step (chs ! i) (nbus_got m)]) else chs)"
proof (cases "nbus_channel_find_by_id chs (sid_channel (nbus_parse_id (msg_id (snd m))))")
  case None
  then show ?thesis by (simp add: nbus_receive_step_def split_beta)
next
  case (Some i)
  then have "i < length chs" unfolding nbus_channel_find_by_id_def by (rule find_index_less)
  with assms(1) have ok: "nbus_ch_ok (chs ! i)" by (simp add: list_all_length)
  have f: "rxf_ok (nbus_got m)" using assms(2) by (simp add: nbus_got_def)
  from append_ok [OF f ok] Some show ?thesis
    by (auto simp: nbus_receive_step_def split_beta nbus_got_def nbus_ch_step_def Let_def)
qed

lemma find_by_id_update:
  assumes "j < length chs" "ch_channel_id x = ch_channel_id (chs ! j)"
    and "ch_channel_id (chs ! j) = c \<longrightarrow> ch_channel_id_valid x = ch_channel_id_valid (chs ! j)"
  shows "nbus_channel_find_by_id (chs[j := x]) c = nbus_channel_find_by_id chs c"
  unfolding nbus_channel_find_by_id_def using assms
  by (intro find_index_cong) (auto simp: nth_list_update)

lemma receive_task_proj:
  assumes "list_all nbus_ch_ok chs" "nbus_channel_find_by_id chs c = Some i"
    and "list_all nbus_msg_ok ms"
    and "list_all (\<lambda>m. rxf_opcode (nbus_got m) \<noteq> NBUS_OP_ADVERTISEMENT) (filter (nbus_for c) ms)"
  shows "\<exists>chs'. nbus_receive_task chs ms = Some chs' \<and> list_all nbus_ch_ok chs' \<and>
    nbus_channel_find_by_id chs' c = Some i \<and>
    ch_rxpacket (chs' ! i) = rx_run (ch_rxpacket (chs ! i)) (map nbus_got (filter (nbus_for c) ms))"
  using assms
proof (induction ms arbitrary: chs)
  case Nil
  then show ?case by simp
next
  case (Cons m ms)
  let ?c = "sid_channel (nbus_parse_id (msg_id (snd m)))"
  from Cons.prems have m: "nbus_msg_ok m" and rest: "list_all nbus_msg_ok ms"
    "list_all (\<lambda>m. rxf_opcode (nbus_got m) \<noteq> NBUS_OP_ADVERTISEMENT) (filter (nbus_for c) ms)"
    by (auto split: if_splits)
  note step = receive_step_eq [OF Cons.prems(1) m]
  show ?case
  proof (cases "fst m = CAN_RET_OK \<and> msg_extid (snd m) \<and> nbus_channel_find_by_id chs ?c \<noteq> None")
    case False
    then have "nbus_receive_step chs m = Some chs" using step by auto
    moreover have "\<not> nbus_for c m" using False Cons.prems(2) by (auto simp: nbus_for_def)
    ultimately show ?thesis using Cons.IH [OF Cons.prems(1,2) rest] by simp
  next
    case True
    then obtain j where j: "nbus_channel_find_by_id chs ?c = Some j" by auto
    let ?x = "nbus_ch_step (chs ! j) (nbus_got m)"
    let ?chs = "chs[j := ?x]"
    have jl: "j < length chs" "ch_channel_id (chs ! j) = ?c"
      using j find_index_less find_index_holds unfolding nbus_channel_find_by_id_def by blast+
    have il: "i < length chs" using Cons.prems(2) find_index_less unfolding nbus_channel_find_by_id_def by blast
    have st: "nbus_receive_step chs m = Some ?chs" using step True j by auto
    have ok: "list_all nbus_ch_ok ?chs"
      using Cons.prems(1) jl by (auto simp: list_all_length nth_list_update nbus_ch_step_ok)
    have "?c = c \<longrightarrow> ch_channel_id_valid ?x = ch_channel_id_valid (chs ! j)"
      using Cons.prems(4) True by (auto simp: nbus_for_def intro!: nbus_ch_step_valid split: if_splits)
    then have f: "nbus_channel_find_by_id ?chs c = Some i"
      using find_by_id_update [OF jl(1), of ?x c] jl Cons.prems(2) by simp
    have "ch_rxpacket (?chs ! i) = (if nbus_for c m then snd (rx_step (ch_rxpacket (chs ! i)) (nbus_got m)) else ch_rxpacket (chs ! i))"
    proof (cases "?c = c")
      case True': True
      then have "j = i" using j Cons.prems(2) by simp
      with True True' il show ?thesis by (simp add: nbus_for_def)
    next
      case False
      have "ch_channel_id (chs ! i) = c"
        using Cons.prems(2) find_index_holds unfolding nbus_channel_find_by_id_def by blast
      with False jl have "j \<noteq> i" by auto
      with False show ?thesis by (simp add: nbus_for_def)
    qed
    with Cons.IH [OF ok f rest] st show ?thesis by auto
  qed
qed

lemma fold_deliver_log:
  "fold (nbus_deliver (Some (\<lambda>d m. (r d m, d @ [m])))) fs d = d @ map nbus_wire fs"
  by (induction fs arbitrary: d) (simp_all add: nbus_deliver_def)

lemma nbus_got_wire: "snd m = nbus_wire f \<Longrightarrow> nbus_got m = rxf_of f"
  by (simp add: nbus_got_def nbus_wire_def rxf_of_def nbus_parse_build)

lemma map_nbus_got: "map snd ms = map nbus_wire fs \<Longrightarrow> map nbus_got ms = map rxf_of fs"
proof (induction ms arbitrary: fs)
  case (Cons m ms)
  then obtain f gs where fs: "fs = f # gs" "snd m = nbus_wire f" "map snd ms = map nbus_wire gs"
    by (cases fs) simp_all
  then show ?case using Cons.IH [OF fs(3)] nbus_got_wire [OF fs(2)] by simp
qed simp

lemma data_frames_opcode:
  "f \<in> set (nbus_data_frames ch n cs) \<Longrightarrow> \<exists>k < n + length cs. \<exists>b. f = (nbus_hdr ch (NBUS_OP_DATA_MIN + of_nat k), b)"
proof (induction cs arbitrary: n)
  case (Cons c cs)
  then consider "f = (nbus_hdr ch (NBUS_OP_DATA_MIN + of_nat n), c)" | "f \<in> set (nbus_data_frames ch (n + 1) cs)"
    by auto
  then show ?case
  proof cases
    case 1
    then show ?thesis by (intro exI [of _ n]) simp
  next
    case 2
    from Cons.IH [OF this] show ?thesis by auto
  qed
qed simp

lemma nbus_frames_no_advertisement:
  assumes "length m \<le> NBUS_CHANNEL_MTU" "ep \<le> NBUS_OP_LEADING_MAX" "f \<in> set (nbus_frames ch ep counter m)"
  shows "rxf_opcode (rxf_of f) \<noteq> NBUS_OP_ADVERTISEMENT"
proof -
  consider "f = nbus_leading_frame ch ep counter (length m)" | "f = nbus_trailing_frame ch"
    | "f \<in> set (nbus_data_frames ch 0 (chunks8 m))"
    using assms(3) by (auto simp: nbus_frames_def)
  then show ?thesis
  proof cases
    case 1
    with assms(2) show ?thesis by (auto simp: nbus_leading_frame_def nbus_consts)
  next
    case 2
    then show ?thesis by (simp add: nbus_trailing_frame_def nbus_consts)
  next
    case 3
    then obtain k b where k: "k < length (chunks8 m)" "f = (nbus_hdr ch (NBUS_OP_DATA_MIN + of_nat k), b)"
      using data_frames_opcode [of f ch 0 "chunks8 m"] by auto
    have "k < 128" using k(1) length_chunks8 [of m] assms(1) by (simp add: NBUS_CHANNEL_MTU_def)
    from data_opcode(2) [OF this] show ?thesis
      unfolding k(2) rxf_of_simps by (auto simp: nbus_consts)
  qed
qed

lemma channel_receive_done:
  assumes "rx_state (ch_rxpacket ch) = NBUS_RXP_DONE" "rx_ep (ch_rxpacket ch) \<noteq> 0"
    and "rx_packet_size (ch_rxpacket ch) \<le> length (rx_buf (ch_rxpacket ch))" "rx_packet_size (ch_rxpacket ch) \<le> length buf"
  shows "nbus_channel_receive cb stack can d ch ep buf (length buf) n arrivals =
      Some (NBUS_RET_OK, ch\<lparr>ch_rxpacket := (ch_rxpacket ch)\<lparr>rx_state := NBUS_RXP_READY\<rparr>\<rparr>, d, rx_ep (ch_rxpacket ch),
        take (rx_packet_size (ch_rxpacket ch)) (rx_buf (ch_rxpacket ch)) @ drop (rx_packet_size (ch_rxpacket ch)) buf,
        rx_packet_size (ch_rxpacket ch))"
  using assms
  by (simp add: nbus_channel_receive_def nbus_rxpacket_wait_def mem_read_def mem_write_def nbus_rxpacket_reset_def Let_def)

text \<open>
  Property C6. From one node to another. A packet of at most 512 bytes that is sent on a channel to
  an endpoint from 1 to 63 reaches the receiver of that channel at another node: whatever else
  is on the bus (frames of other channels, standard frames, driver errors, in any interleaving), when the
  frames with the identifier of the channel are those that the sender gave to its driver, the packet
  of the channel is complete and \<open>nbus_channel_receive\<close> returns it with its endpoint and length.
\<close>

theorem nbus_send_receive:
  assumes send: "length p \<le> NBUS_CHANNEL_MTU" "ch_channel_id_valid self" "length stack = 8"
      "ep \<le> NBUS_OP_LEADING_MAX" "ep \<noteq> 0"
      "nbus_channel_send stack (Some (\<lambda>d m. (r d m, d @ [m]))) [] self ep p (length p) = Some (ret, self', log)"
    and bus: "list_all nbus_msg_ok ms" "map snd (filter (nbus_for (ch_channel_id self)) ms) = log"
    and node: "list_all nbus_ch_ok chs" "nbus_channel_find_by_id chs (ch_channel_id self) = Some i"
      "rx_state (ch_rxpacket (chs ! i)) \<noteq> NBUS_RXP_EMPTY" "length p \<le> rx_buf_size (ch_rxpacket (chs ! i))"
    and client: "length p \<le> length buf"
  shows "ret = NBUS_RET_OK \<and> (\<exists>chs' ch. nbus_receive_task chs ms = Some chs' \<and>
    nbus_channel_receive cb stack' can d (chs' ! i) ep' buf (length buf) n [] =
      Some (NBUS_RET_OK, ch, d, ep, p @ drop (length p) buf, length p) \<and>
    rx_state (ch_rxpacket ch) = NBUS_RXP_READY)"
proof -
  let ?c = "ch_channel_id self"
  let ?fs = "nbus_frames ?c ep (ch_packet_counter self) p"
  from channel_send_frames [OF send(1-3), of "Some (\<lambda>d m. (r d m, d @ [m]))" "[]" ep] send(6)
  have sent: "ret = NBUS_RET_OK" "log = map nbus_wire ?fs" by (auto simp: fold_deliver_log)
  have got: "map nbus_got (filter (nbus_for ?c) ms) = map rxf_of ?fs"
    using bus(2) unfolding sent(2) by (rule map_nbus_got)
  have "list_all (\<lambda>f. rxf_opcode f \<noteq> NBUS_OP_ADVERTISEMENT) (map rxf_of ?fs)"
    using nbus_frames_no_advertisement [OF send(1,4)] by (simp add: list_all_iff)
  then have "list_all (\<lambda>m. rxf_opcode (nbus_got m) \<noteq> NBUS_OP_ADVERTISEMENT) (filter (nbus_for ?c) ms)"
    unfolding got [symmetric] by (simp add: list.pred_map comp_def)
  from receive_task_proj [OF node(1,2) bus(1) this] obtain chs' where
    task: "nbus_receive_task chs ms = Some chs'" and
    rx: "ch_rxpacket (chs' ! i) = rx_run (ch_rxpacket (chs ! i)) (map rxf_of ?fs)"
    unfolding got by auto
  have "i < length chs" using node(2) find_index_less unfolding nbus_channel_find_by_id_def by blast
  with node(1,3) have "nbus_rx_wf (ch_rxpacket (chs ! i))" by (auto simp: list_all_length nbus_ch_ok_def)
  from rx_run_packet [OF this node(3) send(4,1) node(4), of ?c "ch_packet_counter self"]
  have complete: "rx_state (ch_rxpacket (chs' ! i)) = NBUS_RXP_DONE"
    and holds: "rx_holds (ch_rxpacket (chs' ! i)) (rx_buf_size (ch_rxpacket (chs ! i))) ep (length p) p"
    by (simp_all add: rx)
  have "nbus_channel_receive cb stack' can d (chs' ! i) ep' buf (length buf) n [] =
      Some (NBUS_RET_OK, (chs' ! i)\<lparr>ch_rxpacket := (ch_rxpacket (chs' ! i))\<lparr>rx_state := NBUS_RXP_READY\<rparr>\<rparr>, d, ep,
        p @ drop (length p) buf, length p)"
    using channel_receive_done [OF complete, of buf cb stack' can d ep' n "[]"] holds client send(5) node(4)
    by (simp add: rx_holds_def)
  with sent(1) task show ?thesis by auto
qed

text \<open>A channel with its receive buffer, the input of the examples.\<close>

definition nbus_example_channel :: nbus_channel where
  "nbus_example_channel = (snd (nbus_channel_init (Some (replicate 512 0)) True ''demo''))
     \<lparr>ch_channel_id := 7, ch_channel_id_valid := True\<rparr>"

lemma nbus_example_simps [simp]:
  "ch_channel_id nbus_example_channel = 7" "ch_channel_id_valid nbus_example_channel"
  "ch_packet_counter nbus_example_channel = 0" "ch_adv_time nbus_example_channel = 0"
  "rx_state (ch_rxpacket nbus_example_channel) = NBUS_RXP_READY"
  "rx_buf_size (ch_rxpacket nbus_example_channel) = 512"
  "nbus_rx_wf (ch_rxpacket nbus_example_channel)" "nbus_ch_ok nbus_example_channel"
  by (simp_all add: nbus_example_channel_def nbus_channel_init_def nbus_rxpacket_init_def nbus_rxpacket_zero_def
      NBUS_CHANNEL_MTU_def nbus_rx_wf_def nbus_ch_ok_def)

lemma nbus_example_find [simp]: "nbus_channel_find_by_id [nbus_example_channel] 7 = Some 0"
  by (simp add: nbus_channel_find_by_id_def)

lemma nbus_frames_payload:
  assumes "f \<in> set (nbus_frames ch ep counter m)"
  shows "length (snd f) \<le> 8" "sid_channel (fst f) = ch"
proof -
  have "length (snd f) \<le> 8 \<and> sid_channel (fst f) = ch" if "f \<in> set (nbus_data_frames ch n cs)" "\<forall>c \<in> set cs. length c \<le> 8" for n cs
    using that by (induction cs arbitrary: n) (auto simp: nbus_hdr_def)
  then show "length (snd f) \<le> 8" "sid_channel (fst f) = ch"
    using assms chunks8_length
    by (auto simp: nbus_frames_def nbus_leading_frame_def nbus_trailing_frame_def nbus_hdr_def NBUS_SIV_LEN_def)
qed

lemma nbus_wire_ok:
  assumes "f \<in> set (nbus_frames ch ep counter m)"
  shows "nbus_msg_ok (r, nbus_wire f)" "nbus_for ch (CAN_RET_OK, nbus_wire f)"
  using nbus_frames_payload [OF assms] by (simp_all add: nbus_wire_def nbus_for_def nbus_parse_build)

lemma nbus_send_frames_witness:
  "\<exists>tx. nbus_channel_send (replicate 8 0) (Some (\<lambda>d m. (CAN_RET_BUS_OFF, d @ [m]))) [] nbus_example_channel 5 [1, 2, 3] 3 =
    Some (NBUS_RET_OK, nbus_example_channel\<lparr>ch_txpacket := tx\<rparr>, map nbus_wire (nbus_frames 7 5 0 [1, 2, 3]))"
  using nbus_send_frames [of "[1, 2, 3]" nbus_example_channel "replicate 8 0"
      "Some (\<lambda>d m. (CAN_RET_BUS_OFF, d @ [m]))" "[]" 5]
  by (simp add: fold_deliver_log NBUS_CHANNEL_MTU_def numeral_3_eq_3)

lemma nbus_rx_integrity_witness:
  "\<exists>p' ds. nbus_rx_frames (ch_rxpacket nbus_example_channel) (map rxf_of (nbus_frames 7 5 0 [1, 2, 3])) = Some p' \<and>
    rx_state p' = NBUS_RXP_DONE \<and> concat (map rxf_payload ds) = take (rx_packet_size p') (rx_buf p')"
proof -
  let ?p = "ch_rxpacket nbus_example_channel" and ?fs = "map rxf_of (nbus_frames 7 5 0 [1, 2, 3])"
  have ok: "list_all rxf_ok ?fs" using nbus_frames_payload by (fastforce simp: list_all_iff rxf_of_def)
  have "rx_state (rx_run ?p ?fs) = NBUS_RXP_DONE"
    using rx_run_packet [of ?p 5 "[1, 2, 3]" 7 0] by (simp add: nbus_consts)
  with nbus_rx_integrity [of ?p ?fs] ok show ?thesis by (force simp: rx_frames_fold)
qed

lemma nbus_send_receive_witness:
  "\<exists>chs' ch. nbus_receive_task [nbus_example_channel]
      (map (\<lambda>f. (CAN_RET_OK, nbus_wire f)) (nbus_frames 7 5 0 [1, 2, 3])) = Some chs' \<and>
    nbus_channel_receive (cbor_example []) [] None () (chs' ! 0) 0 [9, 9, 9, 9] 4 0 [] =
      Some (NBUS_RET_OK, ch, (), 5, [1, 2, 3, 9], 3)"
proof -
  let ?ms = "map (\<lambda>f. (CAN_RET_OK, nbus_wire f)) (nbus_frames 7 5 0 [1, 2, 3])"
  obtain tx where sent: "nbus_channel_send (replicate 8 0) (Some (\<lambda>d m. (CAN_RET_OK, d @ [m]))) [] nbus_example_channel 5 [1, 2, 3] 3 =
      Some (NBUS_RET_OK, nbus_example_channel\<lparr>ch_txpacket := tx\<rparr>, map nbus_wire (nbus_frames 7 5 0 [1, 2, 3]))"
    using channel_send_frames [of "[1, 2, 3]" nbus_example_channel "replicate 8 0"
        "Some (\<lambda>d m. (CAN_RET_OK, d @ [m]))" "[]" 5] by (auto simp: fold_deliver_log NBUS_CHANNEL_MTU_def numeral_3_eq_3)
  have "list_all nbus_msg_ok ?ms" using nbus_wire_ok(1) by (fastforce simp: list_all_iff)
  moreover have "filter (nbus_for 7) ?ms = ?ms" using nbus_wire_ok(2) by (auto simp: filter_id_conv)
  moreover have l: "length [1, 2, 3 :: u8] = 3" "length [9, 9, 9, 9 :: u8] = 4" by simp_all
  ultimately show ?thesis
    using nbus_send_receive [of "[1, 2, 3]" nbus_example_channel "replicate 8 0" 5 "\<lambda>_ _. CAN_RET_OK"
        NBUS_RET_OK "nbus_example_channel\<lparr>ch_txpacket := tx\<rparr>" "map nbus_wire (nbus_frames 7 5 0 [1, 2, 3])"
        ?ms "[nbus_example_channel]" 0 "[9, 9, 9, 9]" "cbor_example []" "[]" None "()" 0 0, unfolded l] sent
    by (auto simp: nbus_consts comp_def)
qed

text \<open>A packet that is fetched by polling leaves the semaphore given: the next call returns the same
  packet again although no frame arrived in between.\<close>

lemma nbus_receive_duplicates:
  assumes "rx_state (ch_rxpacket ch) = NBUS_RXP_DONE" "rx_done (ch_rxpacket ch) = Some True" "rx_ep (ch_rxpacket ch) \<noteq> 0"
    and "rx_packet_size (ch_rxpacket ch) \<le> length (rx_buf (ch_rxpacket ch))" "rx_packet_size (ch_rxpacket ch) \<le> length buf"
  shows "\<exists>ch1 ch2 packet. nbus_channel_receive cb stack can d ch ep buf (length buf) n [] =
      Some (NBUS_RET_OK, ch1, d, rx_ep (ch_rxpacket ch), packet, rx_packet_size (ch_rxpacket ch)) \<and>
    nbus_channel_receive cb stack can d ch1 ep buf (length buf) n [] =
      Some (NBUS_RET_OK, ch2, d, rx_ep (ch_rxpacket ch), packet, rx_packet_size (ch_rxpacket ch))"
  unfolding channel_receive_done [OF assms(1,3-5)] using assms
  by (simp add: nbus_channel_receive_def nbus_rxpacket_wait_def mem_read_def mem_write_def Let_def)

subsection \<open>Command requests\<close>

text \<open>
  Commands: when a complete packet for endpoint 0 holds a CBOR map of keys to be read,
  \<open>nbus_channel_receive\<close> returns, delivers nothing to its caller, frees the packet, and answers the
  request: the driver gets exactly the frames of one response on endpoint 0, which encodes, in the order of
  the request, every known key with its value and nothing for the others. The hypotheses on \<open>cb\<close> are the
  documented behaviour of the CBOR parser on that document and of its encoder on a buffer of 256 bytes.
\<close>

theorem nbus_command_answered:
  assumes rx: "rx_state (ch_rxpacket ch) = NBUS_RXP_DONE" "rx_ep (ch_rxpacket ch) = 0"
      "rx_packet_size (ch_rxpacket ch) \<le> CBOR_RPC_REQ_SIZE" "rx_packet_size (ch_rxpacket ch) \<le> length (rx_buf (ch_rxpacket ch))"
    and ch: "ch_channel_id_valid ch" "length stack = 8"
    and cb: "cbor_view cb view" "cb_init cb (take (rx_packet_size (ch_rxpacket ch)) (rx_buf (ch_rxpacket ch))) = Some m"
      "cb_is_map cb m" "cb_enter cb m = Some v" "view v = cbor_reads ks" "\<forall>n out. length (cb_encode cb n out) \<le> n"
  shows "\<exists>ch'. nbus_channel_receive cb stack can d ch ep buf sz n arrivals =
      Some (NBUS_RET_VOID, ch', fold (nbus_deliver can) (nbus_frames (ch_channel_id ch) 0 (ch_packet_counter ch)
        (cb_encode cb CBOR_RPC_RESP_SIZE (cbor_rpc_answers nbus_channel_handlers ch ks))) d, ep, buf, n) \<and>
    rx_state (ch_rxpacket ch') = NBUS_RXP_READY"
proof -
  let ?req = "take (rx_packet_size (ch_rxpacket ch)) (rx_buf (ch_rxpacket ch))"
  let ?resp = "cb_encode cb CBOR_RPC_RESP_SIZE (cbor_rpc_answers nbus_channel_handlers ch ks)"
  have parse: "cbor_rpc_parse cb ?req = (CBOR_RPC_RET_OK, Some m)"
    using rx(3) cb(2,3) by (simp add: cbor_rpc_parse_def)
  have run: "cbor_rpc_run cb nbus_channel_handlers ch m =
      Some (CBOR_RPC_RET_OK, ch, cbor_rpc_answers nbus_channel_handlers ch ks)"
    using cbor_rpc_loop_reads [OF cb(1,5), of nbus_channel_handlers ch "[]"] by (simp add: cbor_rpc_run_def cb(4))
  have "length ?resp \<le> NBUS_CHANNEL_MTU"
    using cb(6) [THEN spec, THEN spec, of CBOR_RPC_RESP_SIZE "cbor_rpc_answers nbus_channel_handlers ch ks"]
    by (simp add: CBOR_RPC_RESP_SIZE_def NBUS_CHANNEL_MTU_def)
  from channel_send_frames [OF this ch, of can d 0] obtain tx where
    send: "nbus_channel_send stack can d ch 0 ?resp (length ?resp) = Some (NBUS_RET_OK, ch\<lparr>ch_txpacket := tx\<rparr>,
      fold (nbus_deliver can) (nbus_frames (ch_channel_id ch) 0 (ch_packet_counter ch) ?resp) d)" by blast
  have "mem_read (rx_buf (ch_rxpacket ch)) 0 (rx_packet_size (ch_rxpacket ch)) = Some ?req"
    using rx(4) by (simp add: mem_read_def)
  then have "nbus_channel_process_cc cb stack can d ch (rx_buf (ch_rxpacket ch)) (rx_packet_size (ch_rxpacket ch)) =
      Some (NBUS_RET_OK, ch\<lparr>ch_txpacket := tx\<rparr>,
        fold (nbus_deliver can) (nbus_frames (ch_channel_id ch) 0 (ch_packet_counter ch) ?resp) d)"
    by (simp add: nbus_channel_process_cc_def parse run cbor_rpc_get_response_def send)
  then show ?thesis
    using rx(1,2) by (simp add: nbus_channel_receive_def nbus_rxpacket_wait_def Let_def nbus_rxpacket_reset_def)
qed

lemma nbus_command_answered_witness:
  "\<exists>ch'. nbus_channel_receive (cbor_example [It_text ''n'', It_null, It_text ''x'', It_null]) (replicate 8 0)
      (Some (\<lambda>d m. (CAN_RET_OK, d @ [m]))) []
      (nbus_example_channel\<lparr>ch_rxpacket := (ch_rxpacket nbus_example_channel)\<lparr>rx_state := NBUS_RXP_DONE\<rparr>\<rparr>) 0 [] 0 0 [] =
    Some (NBUS_RET_VOID, ch', map nbus_wire (nbus_frames 7 0 0 (map of_char ''ndemo'')), 0, [], 0)"
proof -
  let ?ch = "nbus_example_channel\<lparr>ch_rxpacket := (ch_rxpacket nbus_example_channel)\<lparr>rx_state := NBUS_RXP_DONE\<rparr>\<rparr>"
  let ?doc = "[It_text ''n'', It_null, It_text ''x'', It_null]"
  have rx: "rx_ep (ch_rxpacket ?ch) = 0" "rx_packet_size (ch_rxpacket ?ch) = 0" "ch_name ?ch = ''demo''"
    by (simp_all add: nbus_example_channel_def nbus_channel_init_def nbus_rxpacket_init_def nbus_rxpacket_zero_def)
  then have "cbor_rpc_answers nbus_channel_handlers ?ch [''n'', ''x''] = [Out_text ''n'', Out_text ''demo'']"
    by (simp add: nbus_channel_handlers_def cbor_rpc_init_def cbor_rpc_add_handler_def cbor_rpc_read_def
        nbus_channel_cc_read_name_def strlcpy_def)
  then have enc: "cb_encode (cbor_example ?doc) CBOR_RPC_RESP_SIZE (cbor_rpc_answers nbus_channel_handlers ?ch [''n'', ''x'']) =
      map of_char ''ndemo''"
    by (simp add: cbor_example_def CBOR_RPC_RESP_SIZE_def)
  from rx show ?thesis
    using nbus_command_answered [of ?ch "replicate 8 0" "cbor_example ?doc" id ?doc ?doc "[''n'', ''x'']"
        "Some (\<lambda>d m. (CAN_RET_OK, d @ [m]))" "[]" 0 "[]" 0 0 "[]", unfolded enc] cbor_view_example [of ?doc]
    by (auto simp: fold_deliver_log)
qed

end
