(* ===== verification/Nbus_Adv.thy ===== *)
theory Nbus_Adv
  imports Nbus_Props "HOL-Library.Multiset"
begin

text \<open>
  Channel identifiers on the NBUS: the housekeeping task advertises every identifier once in ten
  rounds, and replaces the identifier of a channel that was lost to an advertisement of another node.
  The driver of the theorems records the messages in a list, and its answers are arbitrary.
\<close>

subsection \<open>One round\<close>

definition nbus_adv :: "nbus_channel \<Rightarrow> can_message" where
  "nbus_adv ch = nbus_wire (\<lparr>sid_channel = ch_channel_id ch, sid_direction = NBUS_DIR_PUBLISH,
     sid_opcode = NBUS_OP_ADVERTISEMENT\<rparr>, store32_le (ch_short_id ch))"

abbreviation can_log :: "(can_message list \<Rightarrow> can_message \<Rightarrow> can_ret) \<Rightarrow> can_message list can" where
  "can_log r \<equiv> Some (\<lambda>d m. (r d m, d @ [m]))"

lemma advertise_log: "advertise_channel_id (can_log r) d ch = Some (d @ [nbus_adv ch])"
  using send_frame_deliver [of "store32_le (ch_short_id ch)" "store32_le (ch_short_id ch)" "can_log r" d
      "\<lparr>sid_channel = ch_channel_id ch, sid_direction = NBUS_DIR_PUBLISH, sid_opcode = NBUS_OP_ADVERTISEMENT\<rparr>"]
  by (auto simp: advertise_channel_id_def nbus_adv_def nbus_deliver_def)

definition nbus_tick :: "nbus_channel \<Rightarrow> nbus_channel" where
  "nbus_tick ch = (if ch_channel_id_valid ch
     then ch\<lparr>ch_adv_time := (if ch_adv_time ch + 1 \<ge> NBUS_ADV_TIME then 0 else ch_adv_time ch + 1)\<rparr> else ch)"

definition nbus_renew :: "nbus_channel \<Rightarrow> nbus_channel" where
  "nbus_renew ch = (if ch_channel_id_valid ch then ch
     else ch\<lparr>ch_channel_id := nbus_new_channel_id ch, ch_channel_id_valid := True\<rparr>)"

lemma send_adv_eq:
  "nbus_send_adv (can_log r) d chs = Some (map nbus_tick chs,
     d @ map nbus_adv (filter (\<lambda>ch. ch_channel_id_valid ch \<and> ch_adv_time ch + 1 \<ge> NBUS_ADV_TIME) chs))"
  by (induction chs arbitrary: d) (auto simp: advertise_log nbus_tick_def nbus_adv_def Let_def)

lemma generate_eq:
  "nbus_generate_short_ids (can_log r) d chs = Some (map nbus_renew chs,
     d @ map (\<lambda>ch. nbus_adv (nbus_renew ch)) (filter (\<lambda>ch. \<not> ch_channel_id_valid ch) chs))"
  by (induction chs arbitrary: d) (auto simp: advertise_log nbus_renew_def Let_def)

lemma housekeeping_eq:
  "nbus_housekeeping_round (can_log r) d chs = Some (map (\<lambda>ch. nbus_renew (nbus_tick ch)) chs,
     d @ map nbus_adv (filter (\<lambda>ch. ch_channel_id_valid ch \<and> ch_adv_time ch + 1 \<ge> NBUS_ADV_TIME) chs) @
     map (\<lambda>ch. nbus_adv (nbus_renew ch)) (filter (\<lambda>ch. \<not> ch_channel_id_valid ch) (map nbus_tick chs)))"
  by (simp add: nbus_housekeeping_round_def send_adv_eq generate_eq comp_def)

subsection \<open>Ten rounds\<close>

fun nbus_housekeeping_rounds ::
  "nat \<Rightarrow> 'd can \<Rightarrow> 'd \<Rightarrow> nbus_channel list \<Rightarrow> (nbus_channel list \<times> 'd) option" where
  "nbus_housekeeping_rounds 0 can d chs = Some (chs, d)"
| "nbus_housekeeping_rounds (Suc n) can d chs =
     Option.bind (nbus_housekeeping_rounds n can d chs) (\<lambda>(chs, d). nbus_housekeeping_round can d chs)"

definition nbus_aged :: "nat \<Rightarrow> nbus_channel \<Rightarrow> nbus_channel" where
  "nbus_aged n ch = ch\<lparr>ch_adv_time := (ch_adv_time ch + n) mod NBUS_ADV_TIME\<rparr>"

lemma nbus_aged_simps [simp]:
  "ch_channel_id_valid (nbus_aged n ch) = ch_channel_id_valid ch" "nbus_adv (nbus_aged n ch) = nbus_adv ch"
  by (simp_all add: nbus_aged_def nbus_adv_def)

lemma nbus_aged_tick: "ch_channel_id_valid ch \<Longrightarrow> nbus_renew (nbus_tick (nbus_aged n ch)) = nbus_aged (Suc n) ch"
  by (simp add: nbus_renew_def nbus_tick_def nbus_aged_def NBUS_ADV_TIME_def mod_Suc)

lemma nbus_aged_due:
  "NBUS_ADV_TIME \<le> ch_adv_time (nbus_aged n ch) + 1 \<longleftrightarrow> (ch_adv_time ch + n) mod NBUS_ADV_TIME = 9"
proof -
  have "(ch_adv_time ch + n) mod 10 < 10" by simp
  then show ?thesis unfolding nbus_aged_def NBUS_ADV_TIME_def by (simp del: mod_less_divisor) linarith
qed

lemma housekeeping_rounds_eq:
  assumes "\<forall>ch \<in> set chs. ch_channel_id_valid ch \<and> ch_adv_time ch < NBUS_ADV_TIME"
  shows "nbus_housekeeping_rounds n (can_log r) d chs = Some (map (nbus_aged n) chs,
    d @ concat (map (\<lambda>k. map nbus_adv (filter (\<lambda>ch. (ch_adv_time ch + k) mod NBUS_ADV_TIME = 9) chs)) [0..<n]))"
proof (induction n)
  case 0
  have "map (nbus_aged 0) chs = chs" using assms by (intro map_idI) (simp add: nbus_aged_def)
  then show ?case by simp
next
  case (Suc n)
  have tick: "map (\<lambda>ch. nbus_renew (nbus_tick (nbus_aged n ch))) chs = map (nbus_aged (Suc n)) chs"
    using assms by (intro map_cong refl nbus_aged_tick) simp
  have none: "filter (\<lambda>ch. \<not> ch_channel_id_valid (nbus_tick (nbus_aged n ch))) chs = []"
    using assms by (auto simp: filter_empty_conv nbus_tick_def)
  have due: "filter (\<lambda>ch. ch_channel_id_valid ch \<and> NBUS_ADV_TIME \<le> ch_adv_time (nbus_aged n ch) + 1) chs =
      filter (\<lambda>ch. (ch_adv_time ch + n) mod NBUS_ADV_TIME = 9) chs"
    unfolding nbus_aged_due using assms by (intro filter_cong) auto
  show ?case
    using Suc.IH by (simp add: housekeeping_eq filter_map comp_def tick none due [simplified] del: upt_Suc)
      (simp add: upt_Suc)
qed

lemma once_in_ten:
  assumes "t < (10 :: nat)"
  shows "length (filter (\<lambda>k. (t + k) mod 10 = 9) [0..<10]) = 1"
proof -
  have "list_all (\<lambda>t. length (filter (\<lambda>k. (t + k) mod 10 = 9) [0..<10]) = 1) [0..<10::nat]" by code_simp
  with assms show ?thesis by (simp add: list_all_iff)
qed

lemma mset_concat_filter:
  "mset (concat (map (\<lambda>k. map f (filter (P k) xs)) ks)) =
     \<Sum>\<^sub># (image_mset (\<lambda>x. replicate_mset (length (filter (\<lambda>k. P k x) ks)) (f x)) (mset xs))"
proof (induction ks)
  case Nil
  then show ?case by (induction xs) auto
next
  case (Cons k ks)
  have "mset (map f (filter (P k) xs)) + \<Sum>\<^sub># (image_mset (\<lambda>x. replicate_mset (length (filter (\<lambda>k. P k x) ks)) (f x)) (mset xs))
    = \<Sum>\<^sub># (image_mset (\<lambda>x. replicate_mset (length (filter (\<lambda>k. P k x) (k # ks))) (f x)) (mset xs))"
    by (induction xs) auto
  with Cons show ?case by simp
qed

text \<open>
  The housekeeping task is periodic: when all channels of a node have an identifier, ten
  rounds bring every channel back to the same state and advertise every identifier exactly once,
  whatever the driver answers and wherever in the period each channel was.
\<close>

theorem nbus_advertised_once:
  assumes "\<forall>ch \<in> set chs. ch_channel_id_valid ch \<and> ch_adv_time ch < NBUS_ADV_TIME"
  shows "\<exists>log. nbus_housekeeping_rounds NBUS_ADV_TIME (can_log r) [] chs = Some (chs, log) \<and>
    mset log = mset (map nbus_adv chs)"
proof -
  let ?log = "concat (map (\<lambda>k. map nbus_adv (filter (\<lambda>ch. (ch_adv_time ch + k) mod NBUS_ADV_TIME = 9) chs)) [0..<NBUS_ADV_TIME])"
  have "map (nbus_aged NBUS_ADV_TIME) chs = chs"
    using assms by (intro map_idI) (simp add: nbus_aged_def)
  then have "nbus_housekeeping_rounds NBUS_ADV_TIME (can_log r) [] chs = Some (chs, ?log)"
    using housekeeping_rounds_eq [OF assms, of NBUS_ADV_TIME r "[]"] by simp
  moreover have "mset ?log = (\<Sum>\<^sub># (image_mset (\<lambda>ch. replicate_mset 1 (nbus_adv ch)) (mset chs)))"
    unfolding mset_concat_filter
    using assms once_in_ten by (intro arg_cong [of _ _ sum_mset] image_mset_cong) (simp add: NBUS_ADV_TIME_def)
  moreover have "\<dots> = mset (map nbus_adv chs)" by simp
  ultimately show ?thesis by auto
qed

lemma nbus_advertised_once_witness:
  "\<exists>log. nbus_housekeeping_rounds NBUS_ADV_TIME (can_log (\<lambda>_ _. CAN_RET_OK)) []
      [nbus_example_channel, nbus_example_channel\<lparr>ch_channel_id := 8, ch_adv_time := 4\<rparr>] =
      Some ([nbus_example_channel, nbus_example_channel\<lparr>ch_channel_id := 8, ch_adv_time := 4\<rparr>], log) \<and> size (mset log) = 2"
  using nbus_advertised_once [of "[nbus_example_channel, nbus_example_channel\<lparr>ch_channel_id := 8, ch_adv_time := 4\<rparr>]" "\<lambda>_ _. CAN_RET_OK"]
  by (fastforce simp: NBUS_ADV_TIME_def)

subsection \<open>An identifier that is used twice\<close>

text \<open>
  Property C23. Conflict of identifiers: when the receive task gets an advertisement of an identifier
  of its own node, the channel loses the identifier (it is no longer found, and sending on it
  is refused), and after the next housekeeping round it has the one that is computed as the hash of its short identifier
  and the old one, which is advertised in that round. The code takes any result for valid, also zero or the old
  identifier; the documentation has the full identifier in the hash, and zero as invalid.
\<close>

theorem nbus_conflict_resolved:
  assumes "list_all nbus_ch_ok chs" "nbus_channel_find_by_id chs c = Some i"
    and "rx_state (ch_rxpacket (chs ! i)) \<noteq> NBUS_RXP_EMPTY"
    and "nbus_msg_ok m" "nbus_for c m" "rxf_opcode (nbus_got m) = NBUS_OP_ADVERTISEMENT"
  shows "\<exists>chs1 chs2 log. nbus_receive_step chs m = Some chs1 \<and>
    nbus_channel_find_by_id chs1 c \<noteq> Some i \<and>
    nbus_channel_send stack can d (chs1 ! i) ep [] 0 = Some (NBUS_RET_VOID, chs1 ! i, d) \<and>
    nbus_housekeeping_round (can_log r) [] chs1 = Some (chs2, log) \<and>
    ch_channel_id_valid (chs2 ! i) \<and> ch_channel_id (chs2 ! i) = nbus_new_channel_id (chs ! i) \<and>
    nbus_adv (chs2 ! i) \<in> set log"
proof -
  have i: "i < length chs" using assms(2) find_index_less unfolding nbus_channel_find_by_id_def by blast
  have "sid_channel (nbus_parse_id (msg_id (snd m))) = c" "fst m = CAN_RET_OK" "msg_extid (snd m)"
    using assms(5) by (simp_all add: nbus_for_def)
  then have step: "nbus_receive_step chs m = Some (chs[i := nbus_ch_step (chs ! i) (nbus_got m)])"
    using receive_step_eq [OF assms(1,4)] assms(2) by simp
  define x where "x = nbus_ch_step (chs ! i) (nbus_got m)"
  have x: "x = (chs ! i)\<lparr>ch_channel_id_valid := False\<rparr>"
    using assms(3,6) by (simp add: x_def nbus_ch_step_def rx_step_def nbus_consts)
  let ?chs = "chs[i := x]"
  have "nbus_channel_find_by_id ?chs c \<noteq> Some i"
    unfolding nbus_channel_find_by_id_def using i by (auto simp: x dest!: find_index_holds)
  moreover have "nbus_channel_send stack can d (?chs ! i) ep [] 0 = Some (NBUS_RET_VOID, ?chs ! i, d)"
    using i by (simp add: nbus_channel_send_def x)
  moreover have "nbus_renew (nbus_tick x) = x\<lparr>ch_channel_id := nbus_new_channel_id (chs ! i), ch_channel_id_valid := True\<rparr>"
    by (simp add: nbus_renew_def nbus_tick_def x nbus_new_channel_id_def)
  moreover have "x \<in> set ?chs" using i by (simp add: set_update_memI)
  then have "nbus_renew (nbus_tick x) \<in> nbus_renew ` set (filter (\<lambda>ch. \<not> ch_channel_id_valid ch) (map nbus_tick ?chs))"
    by (force simp: nbus_tick_def x)
  ultimately show ?thesis
    unfolding step x_def [symmetric] housekeeping_eq using i by auto
qed

lemma nbus_conflict_resolved_witness:
  "\<exists>chs1 chs2 log. nbus_receive_step [nbus_example_channel] (CAN_RET_OK, nbus_adv nbus_example_channel) = Some chs1 \<and>
    nbus_housekeeping_round (can_log (\<lambda>_ _. CAN_RET_OK)) [] chs1 = Some (chs2, log) \<and>
    ch_channel_id (chs2 ! 0) = nbus_new_channel_id nbus_example_channel"
proof -
  have "nbus_got (CAN_RET_OK, nbus_adv nbus_example_channel) =
      rxf_of (\<lparr>sid_channel = 7, sid_direction = NBUS_DIR_PUBLISH, sid_opcode = NBUS_OP_ADVERTISEMENT\<rparr>,
        store32_le (ch_short_id nbus_example_channel))"
    by (intro nbus_got_wire) (simp add: nbus_adv_def)
  then have "rxf_opcode (nbus_got (CAN_RET_OK, nbus_adv nbus_example_channel)) = NBUS_OP_ADVERTISEMENT"
    by (simp add: rxf_of_def)
  moreover have "nbus_msg_ok (CAN_RET_OK, nbus_adv nbus_example_channel)"
    "nbus_for 7 (CAN_RET_OK, nbus_adv nbus_example_channel)"
    by (simp_all add: nbus_adv_def nbus_wire_def nbus_for_def nbus_parse_build)
  ultimately show ?thesis
    using nbus_conflict_resolved [of "[nbus_example_channel]" 7 0 "(CAN_RET_OK, nbus_adv nbus_example_channel)"
        "[]" None "()" 0 "\<lambda>_ _. CAN_RET_OK"] by auto
qed

end
