(* ===== verification/Nbus_Switch.thy ===== *)
theory Nbus_Switch
  imports Nbus_Props Table
begin

text \<open>
  The NBUS switch (\<open>services/nbus-switch/nbus-switch.c\<close>): frames that arrive at one of four
  ports are queued, and forwarded to the port behind which the opposite direction of their channel was
  seen, or to all other ports. A port is named by its place in the table; the CAN drivers of all
  ports are one parameter \<open>send\<close> on a state \<open>'d\<close>.
\<close>

datatype nbus_switch_ret = NBUS_SWITCH_RET_OK | NBUS_SWITCH_RET_FAILED

definition NBUS_SWITCH_MAX_CHANNELS :: nat where "NBUS_SWITCH_MAX_CHANNELS = 256"
definition NBUS_SWITCH_MAX_PORTS :: nat where "NBUS_SWITCH_MAX_PORTS = 4"
definition NBUS_SWITCH_IQ_SIZE :: nat where "NBUS_SWITCH_IQ_SIZE = 128"
definition NBUS_SWITCH_MAX_LIFETIME :: u32 where "NBUS_SWITCH_MAX_LIFETIME = 10"

text \<open>\<open>sp_parent\<close> tells whether the port is allocated.\<close>

record nbus_switch_port =
  sp_parent :: bool
  sp_tx_frames :: u32
  sp_rx_frames :: u32
  sp_rx_errors :: u32
  sp_tx_errors :: u32
  sp_rx_dropped :: u32

record nbus_switch_channel =
  sc_ch :: u16
  sc_dir :: nbus_direction
  sc_port :: "nat option"
  sc_frames :: u32
  sc_last_access :: u32

definition nbus_switch_channel_zero :: nbus_switch_channel where
  "nbus_switch_channel_zero = \<lparr>sc_ch = 0, sc_dir = NBUS_DIR_REQUEST, sc_port = None, sc_frames = 0, sc_last_access = 0\<rparr>"

definition nbus_switch_port_zero :: nbus_switch_port where
  "nbus_switch_port_zero = \<lparr>sp_parent = False, sp_tx_frames = 0, sp_rx_frames = 0, sp_rx_errors = 0,
     sp_tx_errors = 0, sp_rx_dropped = 0\<rparr>"

record nbus_switch =
  sw_ch :: "nbus_switch_channel list"
  sw_ports :: "nbus_switch_port list"
  sw_iq :: "(nat \<times> can_message) list"

definition find_channel :: "nbus_switch \<Rightarrow> u16 \<Rightarrow> nbus_direction \<Rightarrow> nat option" where
  "find_channel self c dir = find_index (\<lambda>e. sc_port e \<noteq> None \<and> sc_ch e = c \<and> sc_dir e = dir) (sw_ch self)"

definition add_channel :: "nbus_switch \<Rightarrow> nat option" where
  "add_channel self = find_index (\<lambda>e. sc_port e = None) (sw_ch self)"

definition nbus_switch_send_port ::
  "('d \<Rightarrow> nat \<Rightarrow> can_message \<Rightarrow> can_ret \<times> 'd) \<Rightarrow> 'd \<Rightarrow> nbus_switch \<Rightarrow> nat \<Rightarrow> can_message \<Rightarrow>
   nbus_switch_ret \<times> nbus_switch \<times> 'd" where
  "nbus_switch_send_port send d self p msg =
     (let (ret, d) = send d p msg; port = sw_ports self ! p in
      if ret \<noteq> CAN_RET_OK then
        (NBUS_SWITCH_RET_FAILED, self\<lparr>sw_ports := (sw_ports self)[p := port\<lparr>sp_tx_errors := sp_tx_errors port + 1\<rparr>]\<rparr>, d)
      else
        (NBUS_SWITCH_RET_OK, self\<lparr>sw_ports := (sw_ports self)[p := port\<lparr>sp_tx_frames := sp_tx_frames port + 1\<rparr>]\<rparr>, d))"

definition nbus_switch_send_multi ::
  "('d \<Rightarrow> nat \<Rightarrow> can_message \<Rightarrow> can_ret \<times> 'd) \<Rightarrow> 'd \<Rightarrow> nbus_switch \<Rightarrow> nat \<Rightarrow> can_message \<Rightarrow> nbus_switch \<times> 'd" where
  "nbus_switch_send_multi send d self except msg =
     fold (\<lambda>i (self, d).
         if sp_parent (sw_ports self ! i) \<and> i \<noteq> except then snd (nbus_switch_send_port send d self i msg)
         else (self, d))
       [0..<NBUS_SWITCH_MAX_PORTS] (self, d)"

text \<open>Finding or adding the entry of the channel and direction of a frame, and updating it.\<close>

definition nbus_switch_learn :: "nbus_switch \<Rightarrow> nbus_id \<Rightarrow> nat \<Rightarrow> nbus_switch" where
  "nbus_switch_learn self sid port =
     (let (found, tab) =
        (case find_channel self (sid_channel sid) (sid_direction sid) of
           Some i \<Rightarrow> (Some i, sw_ch self)
         | None \<Rightarrow>
             (case add_channel self of
                None \<Rightarrow> (None, sw_ch self)
              | Some i \<Rightarrow> (Some i, (sw_ch self)[i := (sw_ch self ! i)\<lparr>sc_port := Some port,
                  sc_dir := sid_direction sid, sc_ch := sid_channel sid, sc_frames := 0\<rparr>])))
      in (case found of
            None \<Rightarrow> self
          | Some i \<Rightarrow>
              let e = tab ! i;
                  e = (if sc_port e \<noteq> Some port then e\<lparr>sc_port := Some port\<rparr> else e);
                  e = e\<lparr>sc_last_access := 0, sc_frames := sc_frames e + 1\<rparr>
              in self\<lparr>sw_ch := tab[i := e]\<rparr>))"

definition nbus_switch_reverse :: "nbus_direction \<Rightarrow> nbus_direction" where
  "nbus_switch_reverse dir = (if dir = NBUS_DIR_REQUEST then NBUS_DIR_RESPONSE else NBUS_DIR_REQUEST)"

definition nbus_switch_process ::
  "('d \<Rightarrow> nat \<Rightarrow> can_message \<Rightarrow> can_ret \<times> 'd) \<Rightarrow> 'd \<Rightarrow> nbus_switch \<Rightarrow> nat \<Rightarrow> can_message \<Rightarrow> nbus_switch \<times> 'd" where
  "nbus_switch_process send d self port msg =
     (let sid = nbus_parse_id (msg_id msg) in
      if sid_direction sid = NBUS_DIR_PUBLISH then nbus_switch_send_multi send d self port msg
      else
        let self = nbus_switch_learn self sid port in
        case find_channel self (sid_channel sid) (nbus_switch_reverse (sid_direction sid)) of
          Some i \<Rightarrow>
            let dest = the (sc_port (sw_ch self ! i));
                (self, d) = (if port \<noteq> dest then snd (nbus_switch_send_port send d self dest msg) else (self, d))
            in (self\<lparr>sw_ch := (sw_ch self)[i := (sw_ch self ! i)\<lparr>sc_last_access := 0\<rparr>]\<rparr>, d)
        | None \<Rightarrow> nbus_switch_send_multi send d self port msg)"

text \<open>One round of each task. The process task blocks while the queue is empty; the queue is first in,
  first out, and a full queue drops the frame.\<close>

definition nbus_switch_process_step ::
  "('d \<Rightarrow> nat \<Rightarrow> can_message \<Rightarrow> can_ret \<times> 'd) \<Rightarrow> 'd \<Rightarrow> nbus_switch \<Rightarrow> nbus_switch \<times> 'd" where
  "nbus_switch_process_step send d self =
     (case sw_iq self of
        [] \<Rightarrow> (self, d)
      | (port, msg) # rest \<Rightarrow> nbus_switch_process send d (self\<lparr>sw_iq := rest\<rparr>) port msg)"

definition nbus_switch_age :: "nbus_switch_channel \<Rightarrow> nbus_switch_channel" where
  "nbus_switch_age e =
     (let e = (if sc_port e \<noteq> None then e\<lparr>sc_last_access := sc_last_access e + 1\<rparr> else e)
      in if sc_last_access e > NBUS_SWITCH_MAX_LIFETIME then nbus_switch_channel_zero else e)"

definition nbus_switch_housekeeping :: "nbus_switch \<Rightarrow> nbus_switch" where
  "nbus_switch_housekeeping self = self\<lparr>sw_ch := map nbus_switch_age (sw_ch self)\<rparr>"

definition nbus_switch_receive_step :: "nbus_switch \<Rightarrow> nat \<Rightarrow> can_ret \<times> can_message \<Rightarrow> nbus_switch" where
  "nbus_switch_receive_step self p got =
     (let (ret, msg) = got; port = sw_ports self ! p in
      if ret \<noteq> CAN_RET_OK then self
      else if \<not> msg_extid msg then self\<lparr>sw_ports := (sw_ports self)[p := port\<lparr>sp_rx_errors := sp_rx_errors port + 1\<rparr>]\<rparr>
      else if length (sw_iq self) < NBUS_SWITCH_IQ_SIZE then
        self\<lparr>sw_iq := sw_iq self @ [(p, msg)],
          sw_ports := (sw_ports self)[p := port\<lparr>sp_rx_frames := sp_rx_frames port + 1\<rparr>]\<rparr>
      else self\<lparr>sw_ports := (sw_ports self)[p := port\<lparr>sp_rx_dropped := sp_rx_dropped port + 1\<rparr>]\<rparr>)"

text \<open>Initialisation: \<open>queue\<close>, \<open>process\<close> and \<open>housekeeping\<close> tell whether the kernel can create the queue
  and the two tasks; \<open>can\<close> whether the driver has both operations, \<open>task\<close> whether its task starts.\<close>

definition nbus_switch_init :: "bool \<Rightarrow> bool \<Rightarrow> bool \<Rightarrow> nbus_switch_ret \<times> nbus_switch" where
  "nbus_switch_init queue process housekeeping =
     (let self = \<lparr>sw_ch = replicate NBUS_SWITCH_MAX_CHANNELS nbus_switch_channel_zero,
            sw_ports = replicate NBUS_SWITCH_MAX_PORTS nbus_switch_port_zero, sw_iq = []\<rparr>
      in if \<not> queue then (NBUS_SWITCH_RET_FAILED, self)
         else if \<not> process then (NBUS_SWITCH_RET_FAILED, self)
         else if \<not> housekeeping then (NBUS_SWITCH_RET_FAILED, self)
         else (NBUS_SWITCH_RET_OK, self))"

definition nbus_switch_add_port :: "nbus_switch \<Rightarrow> bool \<Rightarrow> bool \<Rightarrow> nbus_switch_ret \<times> nbus_switch" where
  "nbus_switch_add_port self can task =
     (if \<not> can then (NBUS_SWITCH_RET_FAILED, self)
      else case find_index (\<lambda>p. \<not> sp_parent p) (sw_ports self) of
        None \<Rightarrow> (NBUS_SWITCH_RET_FAILED, self)
      | Some i \<Rightarrow>
          if \<not> task then (NBUS_SWITCH_RET_FAILED, self)
          else (NBUS_SWITCH_RET_OK, self\<lparr>sw_ports := (sw_ports self)[i := (sw_ports self ! i)\<lparr>sp_parent := True\<rparr>]\<rparr>))"

subsection \<open>The forwarding table as a map\<close>

text \<open>The table is an instance of \<open>keyed_table\<close>: the key of an entry is its channel and direction.\<close>

definition sc_used :: "nbus_switch_channel \<Rightarrow> bool" where "sc_used e \<longleftrightarrow> sc_port e \<noteq> None"
definition sc_key :: "nbus_switch_channel \<Rightarrow> u16 \<times> nbus_direction" where "sc_key e = (sc_ch e, sc_dir e)"

definition sc_fresh :: "nat \<Rightarrow> u16 \<times> nbus_direction \<Rightarrow> nbus_switch_channel" where
  "sc_fresh port k = \<lparr>sc_ch = fst k, sc_dir = snd k, sc_port = Some port, sc_frames = 0, sc_last_access = 0\<rparr>"

interpretation sw_tab: keyed_table sc_used sc_key "sc_fresh port" for port
  by unfold_locales (simp_all add: sc_used_def sc_key_def sc_fresh_def)

definition sw_map :: "nbus_switch \<Rightarrow> u16 \<times> nbus_direction \<Rightarrow> nat option" where
  "sw_map self k = Option.bind (table_lookup sc_used sc_key (sw_ch self) k) sc_port"

definition sw_full :: "nbus_switch \<Rightarrow> bool" where
  "sw_full self \<longleftrightarrow> (\<forall>e \<in> set (sw_ch self). sc_used e)"

definition nbus_switch_wf :: "nbus_switch \<Rightarrow> bool" where
  "nbus_switch_wf self \<longleftrightarrow> length (sw_ch self) = NBUS_SWITCH_MAX_CHANNELS \<and>
     length (sw_ports self) = NBUS_SWITCH_MAX_PORTS \<and> table_distinct sc_used sc_key (sw_ch self) \<and>
     (\<forall>e \<in> set (sw_ch self). \<not> sc_used e \<longrightarrow> e = nbus_switch_channel_zero) \<and>
     (\<forall>e \<in> set (sw_ch self). \<forall>p. sc_port e = Some p \<longrightarrow> p < NBUS_SWITCH_MAX_PORTS \<and> sp_parent (sw_ports self ! p))"

lemma find_channel_table: "find_channel self c dir = table_find sc_used sc_key (c, dir) (sw_ch self)"
  by (simp add: find_channel_def table_find_def sc_used_def sc_key_def)

lemma add_channel_table: "add_channel self = table_alloc sc_used (sw_ch self)"
  by (simp add: add_channel_def table_alloc_def sc_used_def)

lemma sw_map_entry:
  assumes "table_distinct sc_used sc_key (sw_ch self)"
  shows "sw_map self k = Some p \<longleftrightarrow> (\<exists>e \<in> set (sw_ch self). sc_key e = k \<and> sc_port e = Some p)"
  using sw_tab.lookup_eq_Some [OF assms, of k]
  by (auto simp: sw_map_def bind_eq_Some_conv sc_used_def)

lemma sw_map_find:
  "sw_map self k = None \<longleftrightarrow> table_find sc_used sc_key k (sw_ch self) = None"
  "table_find sc_used sc_key k (sw_ch self) = Some i \<Longrightarrow> sw_map self k = sc_port (sw_ch self ! i)"
  by (cases "table_find sc_used sc_key k (sw_ch self)";
      auto simp: sw_map_def table_lookup_def sc_used_def dest: table_find_Some)+

lemma sw_map_cong:
  assumes "table_distinct sc_used sc_key (sw_ch a)" "table_distinct sc_used sc_key (sw_ch b)"
    and "\<And>k p. (\<exists>e \<in> set (sw_ch a). sc_key e = k \<and> sc_port e = Some p) \<longleftrightarrow> (\<exists>e \<in> set (sw_ch b). sc_key e = k \<and> sc_port e = Some p)"
  shows "sw_map a = sw_map b"
proof (rule ext)
  fix k
  have "sw_map a k = Some p \<longleftrightarrow> sw_map b k = Some p" for p
    using assms by (simp add: sw_map_entry)
  then show "sw_map a k = sw_map b k" by (metis not_None_eq)
qed

lemma sw_update:
  assumes wf: "nbus_switch_wf self" and i: "i < length (sw_ch self)"
    and e: "sc_port e = Some port" "sc_key e = k" and port: "port < NBUS_SWITCH_MAX_PORTS" "sp_parent (sw_ports self ! port)"
    and old: "sc_used (sw_ch self ! i) \<Longrightarrow> sc_key (sw_ch self ! i) = k"
      "\<not> sc_used (sw_ch self ! i) \<Longrightarrow> table_find sc_used sc_key k (sw_ch self) = None"
  shows "nbus_switch_wf (self\<lparr>sw_ch := (sw_ch self)[i := e]\<rparr>) \<and>
    sw_map (self\<lparr>sw_ch := (sw_ch self)[i := e]\<rparr>) = (sw_map self)(k \<mapsto> port)"
proof -
  let ?s = "self\<lparr>sw_ch := (sw_ch self)[i := e]\<rparr>"
  have d: "table_distinct sc_used sc_key (sw_ch self)" using wf by (simp add: nbus_switch_wf_def)
  have only: "j = i" if "j < length (sw_ch self)" "sc_used (sw_ch self ! j)" "sc_key (sw_ch self ! j) = k" for j
  proof (cases "sc_used (sw_ch self ! i)")
    case True
    with that old(1) d i show ?thesis unfolding table_distinct_def by metis
  next
    case False
    from old(2) [OF False] that show ?thesis by (auto simp: table_find_None)
  qed
  have d': "table_distinct sc_used sc_key (sw_ch ?s)"
    using sw_tab.update_distinct [OF d i, of e] only e by auto
  have set_sub: "x \<in> set ((sw_ch self)[i := e]) \<Longrightarrow> x = e \<or> x \<in> set (sw_ch self)" for x
    using set_update_subset_insert [of "sw_ch self" i e] by auto
  have "nbus_switch_wf ?s"
    using wf d' e port set_sub unfolding nbus_switch_wf_def by (fastforce simp: sc_used_def)
  moreover have "sw_map ?s = (sw_map self)(k \<mapsto> port)"
  proof (rule ext)
    fix k'
    show "sw_map ?s k' = ((sw_map self)(k \<mapsto> port)) k'"
    proof (cases "k' = k")
      case True
      then show ?thesis using sw_map_entry [OF d', of k port] e i by (auto simp: set_update_memI)
    next
      case False
      have "sw_map ?s k' = Some p \<longleftrightarrow> sw_map self k' = Some p" for p
      proof -
        have "(\<exists>x \<in> set ((sw_ch self)[i := e]). sc_key x = k' \<and> sc_port x = Some p) \<longleftrightarrow>
            (\<exists>x \<in> set (sw_ch self). sc_key x = k' \<and> sc_port x = Some p)"
        proof
          assume "\<exists>x \<in> set ((sw_ch self)[i := e]). sc_key x = k' \<and> sc_port x = Some p"
          with set_sub e(2) False show "\<exists>x \<in> set (sw_ch self). sc_key x = k' \<and> sc_port x = Some p" by blast
        next
          assume "\<exists>x \<in> set (sw_ch self). sc_key x = k' \<and> sc_port x = Some p"
          then obtain j where j: "j < length (sw_ch self)" "sc_key (sw_ch self ! j) = k'" "sc_port (sw_ch self ! j) = Some p"
            by (auto simp: in_set_conv_nth)
          with old(1) False have "j \<noteq> i" by (auto simp: sc_used_def)
          with j have "(sw_ch self)[i := e] ! j = sw_ch self ! j" "j < length ((sw_ch self)[i := e])" by simp_all
          with j show "\<exists>x \<in> set ((sw_ch self)[i := e]). sc_key x = k' \<and> sc_port x = Some p" by (metis nth_mem)
        qed
        then show ?thesis using sw_map_entry [OF d', of k' p] sw_map_entry [OF d, of k' p] by simp
      qed
      then show ?thesis using False by (simp, metis not_None_eq)
    qed
  qed
  ultimately show ?thesis by simp
qed

definition sw_learned :: "nbus_switch \<Rightarrow> u16 \<times> nbus_direction \<Rightarrow> nat \<Rightarrow> u16 \<times> nbus_direction \<Rightarrow> nat option" where
  "sw_learned self k port = (if sw_map self k = None \<and> sw_full self then sw_map self else (sw_map self)(k \<mapsto> port))"

lemma nbus_switch_learn_map:
  assumes wf: "nbus_switch_wf self" and port: "port < NBUS_SWITCH_MAX_PORTS" "sp_parent (sw_ports self ! port)"
  shows "nbus_switch_wf (nbus_switch_learn self sid port) \<and>
    sw_map (nbus_switch_learn self sid port) = sw_learned self (sid_channel sid, sid_direction sid) port \<and>
    sw_ports (nbus_switch_learn self sid port) = sw_ports self \<and> sw_iq (nbus_switch_learn self sid port) = sw_iq self"
proof -
  let ?k = "(sid_channel sid, sid_direction sid)"
  show ?thesis
  proof (cases "table_find sc_used sc_key ?k (sw_ch self)")
    case (Some i)
    let ?o = "sw_ch self ! i"
    let ?e = "(if sc_port ?o \<noteq> Some port then ?o\<lparr>sc_port := Some port\<rparr> else ?o)"
    let ?e' = "?e\<lparr>sc_last_access := 0, sc_frames := sc_frames ?e + 1\<rparr>"
    note i = table_find_Some [OF Some]
    have "nbus_switch_learn self sid port = self\<lparr>sw_ch := (sw_ch self)[i := ?e']\<rparr>"
      using Some by (simp add: nbus_switch_learn_def find_channel_table Let_def)
    moreover have "sc_port ?e' = Some port" "sc_key ?e' = ?k" using i by (auto simp: sc_key_def)
    moreover have "sw_map self ?k \<noteq> None" using Some by (simp add: sw_map_find(1))
    ultimately show ?thesis
      using sw_update [OF wf, of i ?e' port ?k] i port by (auto simp: sw_learned_def)
  next
    case None
    show ?thesis
    proof (cases "table_alloc sc_used (sw_ch self)")
      case full: None
      have "nbus_switch_learn self sid port = self"
        using None full by (simp add: nbus_switch_learn_def find_channel_table add_channel_table Let_def)
      moreover have "sw_full self" using full by (simp add: sw_full_def table_alloc_None)
      moreover have "sw_map self ?k = None" using None by (simp add: sw_map_find(1))
      ultimately show ?thesis using wf by (simp add: sw_learned_def)
    next
      case (Some i)
      note i = table_alloc_Some [OF Some]
      let ?n = "(sw_ch self ! i)\<lparr>sc_port := Some port, sc_dir := sid_direction sid, sc_ch := sid_channel sid, sc_frames := 0\<rparr>"
      let ?e' = "?n\<lparr>sc_last_access := 0, sc_frames := sc_frames ?n + 1\<rparr>"
      have "nbus_switch_learn self sid port = self\<lparr>sw_ch := (sw_ch self)[i := ?e']\<rparr>"
        using None Some i by (simp add: nbus_switch_learn_def find_channel_table add_channel_table Let_def)
      moreover have "sc_port ?e' = Some port" "sc_key ?e' = ?k" by (auto simp: sc_key_def)
      moreover have "\<not> sw_full self" using i by (auto simp: sw_full_def)
      ultimately show ?thesis
        using sw_update [OF wf, of i ?e' port ?k] i port None by (auto simp: sw_learned_def)
    qed
  qed
qed

subsection \<open>Forwarding\<close>

text \<open>The state up to the counters of the ports.\<close>

definition sw_same :: "nbus_switch \<Rightarrow> nbus_switch \<Rightarrow> bool" where
  "sw_same a b \<longleftrightarrow> sw_ch a = sw_ch b \<and> sw_iq a = sw_iq b \<and> map sp_parent (sw_ports a) = map sp_parent (sw_ports b)"

lemma sw_same_parent:
  "sw_same a b \<Longrightarrow> length (sw_ports a) = length (sw_ports b)"
  "sw_same a b \<Longrightarrow> p < length (sw_ports a) \<Longrightarrow> sp_parent (sw_ports a ! p) = sp_parent (sw_ports b ! p)"
  unfolding sw_same_def by (metis length_map, metis length_map nth_map)

lemma sw_same_props:
  assumes "sw_same a b"
  shows "nbus_switch_wf a \<Longrightarrow> nbus_switch_wf b" "sw_map a = sw_map b"
  using assms sw_same_parent [OF assms]
  by (auto simp: nbus_switch_wf_def sw_map_def sw_same_def fun_eq_iff)

abbreviation port_log :: "((nat \<times> can_message) list \<Rightarrow> nat \<Rightarrow> can_message \<Rightarrow> can_ret) \<Rightarrow>
    (nat \<times> can_message) list \<Rightarrow> nat \<Rightarrow> can_message \<Rightarrow> can_ret \<times> (nat \<times> can_message) list" where
  "port_log r \<equiv> (\<lambda>d p m. (r d p m, d @ [(p, m)]))"

lemma map_update_same:
  assumes "f x = f (xs ! p)"
  shows "map f (xs[p := x]) = map f xs"
proof (cases "p < length xs")
  case True
  then have "map f (xs[p := x]) = (map f xs)[p := map f xs ! p]" using assms by (simp add: map_update)
  then show ?thesis by simp
qed (simp add: list_update_beyond)

lemma send_port_log:
  "\<exists>self'. snd (nbus_switch_send_port (port_log r) d self p msg) = (self', d @ [(p, msg)]) \<and> sw_same self self'"
proof -
  have "map sp_parent ((sw_ports self)[p := (sw_ports self ! p)\<lparr>sp_tx_errors := n\<rparr>]) = map sp_parent (sw_ports self)"
    "map sp_parent ((sw_ports self)[p := (sw_ports self ! p)\<lparr>sp_tx_frames := n\<rparr>]) = map sp_parent (sw_ports self)" for n
    by (rule map_update_same, simp)+
  then show ?thesis by (auto simp: nbus_switch_send_port_def Let_def sw_same_def)
qed

lemma sw_same_trans: "sw_same a b \<Longrightarrow> sw_same b c \<Longrightarrow> sw_same a c"
  by (simp add: sw_same_def)

lemma send_multi_log:
  assumes "length (sw_ports self) = NBUS_SWITCH_MAX_PORTS"
  shows "\<exists>self'. nbus_switch_send_multi (port_log r) d self except msg =
    (self', d @ map (\<lambda>p. (p, msg)) (filter (\<lambda>p. sp_parent (sw_ports self ! p) \<and> p \<noteq> except) [0..<NBUS_SWITCH_MAX_PORTS])) \<and>
    sw_same self self'"
proof -
  have "\<exists>self'. fold (\<lambda>i (self, d).
         if sp_parent (sw_ports self ! i) \<and> i \<noteq> except then snd (nbus_switch_send_port (port_log r) d self i msg)
         else (self, d)) ps (a, d) =
      (self', d @ map (\<lambda>p. (p, msg)) (filter (\<lambda>p. sp_parent (sw_ports self ! p) \<and> p \<noteq> except) ps)) \<and> sw_same self self'"
    if "sw_same self a" "\<forall>p \<in> set ps. p < length (sw_ports self)" for ps a d
    using that
  proof (induction ps arbitrary: a d)
    case (Cons p ps)
    have par: "sp_parent (sw_ports a ! p) = sp_parent (sw_ports self ! p)"
      using sw_same_parent [OF Cons.prems(1)] Cons.prems(2) by simp
    obtain b where "snd (nbus_switch_send_port (port_log r) d a p msg) = (b, d @ [(p, msg)])" "sw_same a b"
      using send_port_log by blast
    moreover from this have "sw_same self b" using sw_same_trans Cons.prems(1) by blast
    ultimately show ?case
      using Cons.IH [of b "d @ [(p, msg)]"] Cons.IH [of a d] Cons.prems par by simp
  qed simp
  from this [of self "[0..<NBUS_SWITCH_MAX_PORTS]" d] assms show ?thesis
    by (simp add: nbus_switch_send_multi_def sw_same_def)
qed

text \<open>The ports a frame is sent to.\<close>

definition sw_targets :: "nbus_switch \<Rightarrow> nbus_id \<Rightarrow> nat \<Rightarrow> nat list" where
  "sw_targets self sid port =
     (case (if sid_direction sid = NBUS_DIR_PUBLISH then None
            else sw_map self (sid_channel sid, nbus_switch_reverse (sid_direction sid))) of
        Some dest \<Rightarrow> if dest = port then [] else [dest]
      | None \<Rightarrow> filter (\<lambda>p. sp_parent (sw_ports self ! p) \<and> p \<noteq> port) [0..<NBUS_SWITCH_MAX_PORTS])"

lemma sw_learned_other: "k' \<noteq> k \<Longrightarrow> sw_learned self k port k' = sw_map self k'"
  by (simp add: sw_learned_def)

text \<open>The turn of a frame whose opposite direction is known, after the table has learned from it.\<close>

lemma process_known_route:
  assumes wf: "nbus_switch_wf self" and len: "length (sw_ports self) = NBUS_SWITCH_MAX_PORTS" and sid: "sid = nbus_parse_id (msg_id msg)"
    and pub: "sid_direction sid \<noteq> NBUS_DIR_PUBLISH" and l_def: "l = nbus_switch_learn self sid port"
    and l: "nbus_switch_wf l" "sw_ports l = sw_ports self" "sw_iq l = sw_iq self"
    and rev: "sw_map l (sid_channel sid, nbus_switch_reverse (sid_direction sid)) = sw_map self (sid_channel sid, nbus_switch_reverse (sid_direction sid))"
    and known: "\<And>k p. sw_map self k = Some p \<Longrightarrow> p < NBUS_SWITCH_MAX_PORTS"
    and Some: "table_find sc_used sc_key (sid_channel sid, nbus_switch_reverse (sid_direction sid)) (sw_ch l) = Some i"
  shows "\<exists>self'. nbus_switch_process (port_log r) d self port msg = (self', d @ map (\<lambda>p. (p, msg)) (sw_targets self sid port)) \<and>
    nbus_switch_wf self' \<and> sw_iq self' = sw_iq self \<and> sw_map self' = sw_map l"
proof -
  let ?r = "(sid_channel sid, nbus_switch_reverse (sid_direction sid))"
  note i = table_find_Some [OF Some]
  then obtain dest where dest: "sc_port (sw_ch l ! i) = Some dest" by (auto simp: sc_used_def)
  then have map_r: "sw_map l ?r = Some dest" using sw_map_find(2) [OF Some] by simp
  then have "sw_map self ?r = Some dest" using rev by simp
  then have t: "sw_targets self sid port = (if dest = port then [] else [dest])" and kd: "dest < NBUS_SWITCH_MAX_PORTS"
    using pub known by (auto simp: sw_targets_def)
  have "\<exists>s. (if port \<noteq> dest then snd (nbus_switch_send_port (port_log r) d l dest msg) else (l, d)) =
      (s, d @ map (\<lambda>p. (p, msg)) (sw_targets self sid port)) \<and> sw_same l s"
  proof (cases "port = dest")
    case True
    then show ?thesis unfolding t by (intro exI [of _ l]) (simp add: sw_same_def)
  next
    case False
    then show ?thesis using send_port_log [of r d l dest msg] unfolding t by auto
  qed
  then obtain s where s: "(if port \<noteq> dest then snd (nbus_switch_send_port (port_log r) d l dest msg) else (l, d)) =
      (s, d @ map (\<lambda>p. (p, msg)) (sw_targets self sid port))" "sw_same l s" by blast
  let ?e = "(sw_ch l ! i)\<lparr>sc_last_access := 0\<rparr>"
  have sch: "sw_ch s = sw_ch l" and ws: "nbus_switch_wf s" and ms: "sw_map s = sw_map l" and iqs: "sw_iq s = sw_iq l"
    using s(2) sw_same_props [OF s(2)] l(1) by (auto simp: sw_same_def)
  have ps: "sp_parent (sw_ports s ! dest)"
    using ws dest nth_mem [of i "sw_ch l"] i unfolding nbus_switch_wf_def sch by blast
  have upd: "nbus_switch_wf (s\<lparr>sw_ch := (sw_ch s)[i := ?e]\<rparr>)"
    "sw_map (s\<lparr>sw_ch := (sw_ch s)[i := ?e]\<rparr>) = (sw_map s)(?r \<mapsto> dest)"
    using sw_update [OF ws, of i ?e dest ?r] i dest kd ps sch by (auto simp: sc_key_def)
  have "nbus_switch_process (port_log r) d self port msg =
      (s\<lparr>sw_ch := (sw_ch s)[i := ?e]\<rparr>, d @ map (\<lambda>p. (p, msg)) (sw_targets self sid port))"
    using pub Some dest s(1) sch
    by (simp add: nbus_switch_process_def sid [symmetric] l_def [symmetric] find_channel_table)
  moreover have "(sw_map s)(?r \<mapsto> dest) = sw_map l" using map_r ms by (simp add: fun_upd_idem)
  ultimately show ?thesis using upd l iqs by auto
qed

text \<open>
  Property C22. The switch forwards and learns. Processing a frame from a port hands it to the drivers of
  exactly the following ports, once each and never to the port it came from: a publish
  frame, and a frame whose opposite direction is unknown, to all other allocated ports; otherwise
  to the port where the opposite direction of the channel was last seen. In the abstract table, a map
  from channel and direction to a port, the frame's own direction is then bound to the port it came from,
  unless it is new and the table is full. The table stays well-formed: one entry per key, free entries
  zero, every port in it allocated.
\<close>

theorem nbus_switch_forwards:
  assumes wf: "nbus_switch_wf self" and port: "port < NBUS_SWITCH_MAX_PORTS" "sp_parent (sw_ports self ! port)"
    and sid: "sid = nbus_parse_id (msg_id msg)"
  shows "\<exists>self'. nbus_switch_process (port_log r) d self port msg =
      (self', d @ map (\<lambda>p. (p, msg)) (sw_targets self sid port)) \<and>
    port \<notin> set (sw_targets self sid port) \<and> distinct (sw_targets self sid port) \<and>
    (\<forall>p \<in> set (sw_targets self sid port). p < NBUS_SWITCH_MAX_PORTS \<and> sp_parent (sw_ports self ! p)) \<and>
    nbus_switch_wf self' \<and> sw_iq self' = sw_iq self \<and>
    sw_map self' = (if sid_direction sid = NBUS_DIR_PUBLISH then sw_map self
      else sw_learned self (sid_channel sid, sid_direction sid) port)"
proof -
  let ?k = "(sid_channel sid, sid_direction sid)"
  let ?r = "(sid_channel sid, nbus_switch_reverse (sid_direction sid))"
  have len: "length (sw_ports self) = NBUS_SWITCH_MAX_PORTS" using wf by (simp add: nbus_switch_wf_def)
  have known: "p < NBUS_SWITCH_MAX_PORTS \<and> sp_parent (sw_ports self ! p)" if "sw_map self k = Some p" for k p
    using that wf by (auto simp: nbus_switch_wf_def sw_map_entry)
  then have targets: "port \<notin> set (sw_targets self sid port)" "distinct (sw_targets self sid port)"
    "\<forall>p \<in> set (sw_targets self sid port). p < NBUS_SWITCH_MAX_PORTS \<and> sp_parent (sw_ports self ! p)"
    by (auto simp: sw_targets_def split: option.splits if_splits)
  show ?thesis
  proof (cases "sid_direction sid = NBUS_DIR_PUBLISH")
    case True
    obtain s where "nbus_switch_send_multi (port_log r) d self port msg =
        (s, d @ map (\<lambda>p. (p, msg)) (sw_targets self sid port))" "sw_same self s"
      using send_multi_log [OF len] True by (fastforce simp: sw_targets_def)
    then show ?thesis
      using True targets wf sw_same_props [of self s] by (auto simp: nbus_switch_process_def sid sw_same_def)
  next
    case False
    define l where "l = nbus_switch_learn self sid port"
    have l: "nbus_switch_wf l" "sw_map l = sw_learned self ?k port" "sw_ports l = sw_ports self" "sw_iq l = sw_iq self"
      using nbus_switch_learn_map [OF wf port, of sid] by (simp_all add: l_def)
    have "?r \<noteq> ?k" using False by (cases "sid_direction sid") (simp_all add: nbus_switch_reverse_def)
    then have rev: "sw_map l ?r = sw_map self ?r" by (simp add: l(2) sw_learned_other)
    show ?thesis
    proof (cases "table_find sc_used sc_key ?r (sw_ch l)")
      case None
      then have "sw_map self ?r = None" using rev sw_map_find(1) [of l ?r] by simp
      then obtain s where "nbus_switch_send_multi (port_log r) d l port msg =
          (s, d @ map (\<lambda>p. (p, msg)) (sw_targets self sid port))" "sw_same l s"
        using send_multi_log [of l r d port msg] len l(3) False by (auto simp: sw_targets_def)
      then show ?thesis
        using False None targets l sw_same_props [of l s]
        by (auto simp: nbus_switch_process_def sid l_def find_channel_table sw_same_def)
    next
      case (Some i)
      have "\<And>k p. sw_map self k = Some p \<Longrightarrow> p < NBUS_SWITCH_MAX_PORTS" using known by blast
      from process_known_route [OF wf len sid False l_def l(1,3,4) rev this Some] show ?thesis
        using False targets l(2) by auto
    qed
  qed
qed

text \<open>A switch with two ports in use; a request from port 0 of an unknown channel is broadcast to the
  other port.\<close>

definition sw_example :: nbus_switch where
  "sw_example = snd (nbus_switch_add_port (snd (nbus_switch_add_port (snd (nbus_switch_init True True True)) True True)) True True)"

lemma sw_example_wf:
  "nbus_switch_wf sw_example" "sp_parent (sw_ports sw_example ! 0)" "sp_parent (sw_ports sw_example ! 1)"
  "sw_map sw_example k = None" "filter (\<lambda>p. sp_parent (sw_ports sw_example ! p) \<and> p \<noteq> 0) [0..<NBUS_SWITCH_MAX_PORTS] = [1]"
proof -
  have ports: "sw_ports sw_example = [nbus_switch_port_zero\<lparr>sp_parent := True\<rparr>, nbus_switch_port_zero\<lparr>sp_parent := True\<rparr>,
      nbus_switch_port_zero, nbus_switch_port_zero]"
    by (simp add: sw_example_def nbus_switch_add_port_def nbus_switch_init_def NBUS_SWITCH_MAX_PORTS_def
        nbus_switch_port_zero_def numeral_eq_Suc)
  have ch: "sw_ch sw_example = replicate NBUS_SWITCH_MAX_CHANNELS nbus_switch_channel_zero"
    by (simp add: sw_example_def nbus_switch_add_port_def nbus_switch_init_def Let_def split: option.split)
  show "nbus_switch_wf sw_example"
    by (simp add: nbus_switch_wf_def ports ch table_distinct_def sc_used_def nbus_switch_channel_zero_def NBUS_SWITCH_MAX_PORTS_def)
  show "sp_parent (sw_ports sw_example ! 0)" "sp_parent (sw_ports sw_example ! 1)" by (simp_all add: ports)
  show "sw_map sw_example k = None"
    by (simp add: sw_map_find(1) table_find_None ch sc_used_def nbus_switch_channel_zero_def)
  show "filter (\<lambda>p. sp_parent (sw_ports sw_example ! p) \<and> p \<noteq> 0) [0..<NBUS_SWITCH_MAX_PORTS] = [1]"
    by (simp add: ports NBUS_SWITCH_MAX_PORTS_def upt_rec nbus_switch_port_zero_def)
qed

lemma nbus_switch_forwards_witness:
  "\<exists>self'. nbus_switch_process (port_log (\<lambda>_ _ _. CAN_RET_OK)) [] sw_example 0
      (can_message_zero\<lparr>msg_id := nbus_build_id \<lparr>sid_channel = 7, sid_direction = NBUS_DIR_REQUEST, sid_opcode = 1\<rparr>\<rparr>) =
      (self', [(1, can_message_zero\<lparr>msg_id := nbus_build_id \<lparr>sid_channel = 7, sid_direction = NBUS_DIR_REQUEST, sid_opcode = 1\<rparr>\<rparr>)]) \<and>
    nbus_switch_wf self'"
proof -
  let ?sid = "\<lparr>sid_channel = 7, sid_direction = NBUS_DIR_REQUEST, sid_opcode = 1\<rparr>"
  let ?m = "can_message_zero\<lparr>msg_id := nbus_build_id ?sid\<rparr>"
  have "?sid = nbus_parse_id (msg_id ?m)" by (simp add: nbus_parse_build)
  moreover have "sw_targets sw_example ?sid 0 = [1]" using sw_example_wf(4,5) by (simp add: sw_targets_def)
  ultimately show ?thesis
    using nbus_switch_forwards [of sw_example 0 ?sid ?m "\<lambda>_ _ _. CAN_RET_OK" "[]"] sw_example_wf(1,2)
    by (auto simp: NBUS_SWITCH_MAX_PORTS_def)
qed

end
