(* ===== verification/B2s_Siv.thy ===== *)
theory B2s_Siv
  imports Blake2s Keystream
begin

text \<open>
  The BLAKE2s based SIV mode of NBUS (\<open>services/nbus/blake2s-siv.c\<close>): key derivation, the
  counter-mode cipher, which is an instance of the locale \<open>keystream\<close>, and the synthetic
  initialisation vector. The assertions of the code only report; the functions go on.
\<close>

definition B2S_KE_LEN :: nat where "B2S_KE_LEN = 16"
definition B2S_KM_LEN :: nat where "B2S_KM_LEN = 16"

text \<open>Copying the hash to \<open>res\<close> when the hash function succeeds, then splitting it.\<close>

definition b2s_derive_keys :: "u8 list \<Rightarrow> u8 list \<times> u8 list" where
  "b2s_derive_keys key =
     (let res = (case blake2s (B2S_KE_LEN + B2S_KM_LEN) key None of
            Some (_, Some d) \<Rightarrow> d
          | _ \<Rightarrow> replicate (B2S_KE_LEN + B2S_KM_LEN) 0)
      in (take B2S_KE_LEN res, take B2S_KM_LEN (drop B2S_KE_LEN res)))"

definition b2s_keystream :: "u8 list \<Rightarrow> u8 list \<Rightarrow> u8 \<Rightarrow> u8 list" where
  "b2s_keystream siv ke i =
     (case blake2s_init_key BLAKE2S_OUTBYTES (Some (take B2S_KE_LEN ke)) of
        None \<Rightarrow> replicate BLAKE2S_OUTBYTES 0
      | Some s \<Rightarrow>
          let s = blake2s_update s siv;
              s = blake2s_update s [0, 0, 0, i]
          in (case blake2s_final s BLAKE2S_OUTBYTES of
                Some (_, _, Some k) \<Rightarrow> k
              | _ \<Rightarrow> replicate BLAKE2S_OUTBYTES 0))"

definition b2s_crypt :: "u8 list \<Rightarrow> u8 list \<Rightarrow> u8 list \<Rightarrow> u8 list" where
  "b2s_crypt buf siv ke = ctr_xor (b2s_keystream siv ke) BLAKE2S_OUTBYTES 0 buf"

text \<open>The new contents of the \<open>siv\<close> array, whose length is \<open>siv_len\<close>.\<close>

definition b2s_siv :: "u8 list \<Rightarrow> u8 list \<Rightarrow> u8 list \<Rightarrow> u8 list option" where
  "b2s_siv buf siv km =
     (case blake2s_init_key BLAKE2S_OUTBYTES (Some (take B2S_KE_LEN km)) of
        None \<Rightarrow> None
      | Some s \<Rightarrow>
          (case blake2s_final (blake2s_update s buf) (length siv) of
             None \<Rightarrow> None
           | Some (_, _, None) \<Rightarrow> Some siv
           | Some (_, _, Some d) \<Rightarrow> Some d))"

lemma length_b2s_keystream [simp]: "length (b2s_keystream siv ke i) = BLAKE2S_OUTBYTES"
proof (cases "blake2s_init_key BLAKE2S_OUTBYTES (Some (take B2S_KE_LEN ke))")
  case (Some s)
  let ?s = "blake2s_update (blake2s_update s siv) [0, 0, 0, i]"
  have "blake2s_ready ?s BLAKE2S_OUTBYTES"
    using blake2s_ready_init_key [OF Some] by (intro blake2s_ready_update)
  from blake2s_final_ready [OF this] show ?thesis using Some by (auto simp: b2s_keystream_def)
qed (simp add: b2s_keystream_def)

interpretation b2s_ctr: keystream "b2s_keystream siv ke" BLAKE2S_OUTBYTES for siv ke
  by unfold_locales (simp_all add: BLAKE2S_OUTBYTES_def)

lemma b2s_derive_keys_eq:
  "\<exists>d. blake2s 32 key None = Some (0, Some d) \<and> length d = 32 \<and> b2s_derive_keys key = (take 16 d, drop 16 d)"
  using blake2s_total [of 32 None key]
  by (auto simp: b2s_derive_keys_def B2S_KE_LEN_def B2S_KM_LEN_def BLAKE2S_OUTBYTES_def)

text \<open>The vector is only computed for the full length of the hash: for a shorter one, such as the eight
  bytes of \<open>NBUS_SIV_LEN\<close>, the array keeps its contents.\<close>

lemma b2s_siv_short_not_written:
  assumes "length km = B2S_KM_LEN" "length siv < BLAKE2S_OUTBYTES"
  shows "b2s_siv buf siv km = Some siv"
proof -
  obtain s where s: "blake2s_init_key BLAKE2S_OUTBYTES (Some (take B2S_KE_LEN km)) = Some s"
    using blake2s_init_key_Some [of BLAKE2S_OUTBYTES km] assms(1)
    by (cases "km = []") (auto simp: BLAKE2S_OUTBYTES_def BLAKE2S_KEYBYTES_def B2S_KE_LEN_def B2S_KM_LEN_def)
  have "b2outlen (blake2s_update s buf) = BLAKE2S_OUTBYTES"
    using blake2s_ready_init_key [OF s] by (simp add: blake2s_ready_def)
  then show ?thesis using s assms(2) by (simp add: b2s_siv_def blake2s_final_def)
qed

text \<open>
  The SIV cipher: both keys derived from a shared secret of any length are halves of one
  hash and have 16 bytes; encryption keeps the length and undoes itself for every buffer, vector and
  key; and byte \<open>n\<close> of the buffer meets byte \<open>n mod 32\<close> of the block whose 8 bit counter is
  \<open>n div 32\<close>.
\<close>

theorem b2s_cipher_correct:
  "length (fst (b2s_derive_keys key)) = B2S_KE_LEN \<and> length (snd (b2s_derive_keys key)) = B2S_KM_LEN \<and>
   length (b2s_crypt buf siv ke) = length buf \<and> b2s_crypt (b2s_crypt buf siv ke) siv ke = buf \<and>
   (n < length buf \<longrightarrow> b2s_crypt buf siv ke ! n =
      buf ! n XOR b2s_keystream siv ke (of_nat (n div BLAKE2S_OUTBYTES)) ! (n mod BLAKE2S_OUTBYTES))"
  using b2s_derive_keys_eq [of key]
  by (auto simp: b2s_crypt_def b2s_ctr.ctr_xor_involution b2s_ctr.ctr_xor_nth B2S_KE_LEN_def B2S_KM_LEN_def)

lemma b2s_cipher_correct_witness:
  "b2s_crypt (b2s_crypt [1, 2, 3] [9, 8] [7]) [9, 8] [7] = [1, 2, 3] \<and>
   b2s_crypt [1, 2, 3] [9, 8] [7] ! 2 = 3 XOR b2s_keystream [9, 8] [7] 0 ! 2"
  using b2s_cipher_correct [of "[]" "[1, 2, 3]" "[9, 8]" "[7]" 2] by (simp add: BLAKE2S_OUTBYTES_def)

end
