(* ===== verification/Flash.thy ===== *)
theory Flash
  imports Prelude
begin

text \<open>
  Flash memories (\<open>services/interfaces/flash.h\<close>) and the static volumes on top of them
  (\<open>services/flash-vol-static/flash-vol-static.c\<close>).

  \<open>'d flash\<close> is the method table \<open>struct flash_vmt\<close> over the state \<open>'d\<close> of the device; the drivers are hardware
  access. The locale \<open>paged_flash\<close> is what its users rely on of what the interface documents, for a device that works: reads return the
  contents, writes inside of a page can only clear bits, erasing an aligned block sets all bits. That an erase which is not
  aligned fails with \<open>FLASH_RET_BAD_ARG\<close>, as the interface also documents, is not part of it: no user makes such a call,
  and not every driver keeps it. \<open>nor_flash\<close> is a device that
  can be erased as a whole as well. A volume on the first is one of the second: the sublocale \<open>flash_volume\<close>.
\<close>

subsection \<open>The interface\<close>

datatype flash_ret = FLASH_RET_OK | FLASH_RET_FAILED | FLASH_RET_BAD_ARG | FLASH_RET_TIMEOUT

definition FLASH_BLOCK_OPS_READ :: u32 where "FLASH_BLOCK_OPS_READ = 1"
definition FLASH_BLOCK_OPS_WRITE :: u32 where "FLASH_BLOCK_OPS_WRITE = 2"
definition FLASH_BLOCK_OPS_ERASE :: u32 where "FLASH_BLOCK_OPS_ERASE = 4"

text \<open>\<open>get_size\<close> gives the result, the size and the operations; \<open>read\<close> gets the old contents of the
  buffer (whose length is the length to read) and gives the new ones. \<open>None\<close> as the result of
  \<open>erase\<close> is undefined behaviour.\<close>

record 'd flash =
  fl_get_size :: "'d \<Rightarrow> nat \<Rightarrow> flash_ret \<times> nat \<times> u32"
  fl_erase :: "'d \<Rightarrow> nat \<Rightarrow> nat \<Rightarrow> (flash_ret \<times> 'd) option"
  fl_write :: "'d \<Rightarrow> nat \<Rightarrow> u8 list \<Rightarrow> flash_ret \<times> 'd"
  fl_read :: "'d \<Rightarrow> nat \<Rightarrow> u8 list \<Rightarrow> flash_ret \<times> u8 list"

definition nor_write :: "u8 list \<Rightarrow> nat \<Rightarrow> u8 list \<Rightarrow> u8 list" where
  "nor_write m addr bs = take addr m @ map2 (AND) (take (length bs) (drop addr m)) bs @ drop (addr + length bs) m"

definition nor_erase :: "u8 list \<Rightarrow> nat \<Rightarrow> nat \<Rightarrow> u8 list" where
  "nor_erase m addr len = take addr m @ replicate len (- 1) @ drop (addr + len) m"

lemma length_nor_write [simp]: "addr + length bs \<le> length m \<Longrightarrow> length (nor_write m addr bs) = length m"
  by (simp add: nor_write_def)

lemma length_nor_erase [simp]: "addr + len \<le> length m \<Longrightarrow> length (nor_erase m addr len) = length m"
  by (simp add: nor_erase_def)

lemma nor_write_nth:
  "addr + length bs \<le> length m \<Longrightarrow> i < length m \<Longrightarrow>
    nor_write m addr bs ! i = (if addr \<le> i \<and> i < addr + length bs then m ! i AND bs ! (i - addr) else m ! i)"
  by (auto simp: nor_write_def nth_append)

lemma nor_erase_nth:
  "addr + len \<le> length m \<Longrightarrow> i < length m \<Longrightarrow>
    nor_erase m addr len ! i = (if addr \<le> i \<and> i < addr + len then - 1 else m ! i)"
  by (auto simp: nor_erase_def nth_append)

text \<open>\<open>ok\<close> are the states of a working device with \<open>cap\<close> bytes in erasable blocks of \<open>blk\<close> bytes and pages of \<open>pg\<close> bytes:
  a write stays inside of a page, an erase takes one block.\<close>

locale paged_flash =
  fixes fl :: "'d flash" and ok :: "'d \<Rightarrow> bool" and mem :: "'d \<Rightarrow> u8 list" and blk :: nat and cap :: nat and pg :: nat
  assumes blk_pos: "0 < blk" and blk_total: "cap mod blk = 0" and total_bound: "cap < 2 ^ 32"
    and pg_pos: "0 < pg" and pg_blk: "blk mod pg = 0"
    and length_mem: "ok d \<Longrightarrow> length (mem d) = cap"
    and size_total: "ok d \<Longrightarrow> \<exists>ops. fl_get_size fl d 0 = (FLASH_RET_OK, cap, ops)"
    and size_block: "ok d \<Longrightarrow> \<exists>ops. fl_get_size fl d 1 = (FLASH_RET_OK, blk, ops)"
    and size_page: "ok d \<Longrightarrow> \<exists>ops. fl_get_size fl d 3 = (FLASH_RET_OK, pg, ops)"
    and read_ok: "ok d \<Longrightarrow> addr < cap \<Longrightarrow> addr + length buf \<le> cap \<Longrightarrow> buf \<noteq> [] \<Longrightarrow>
      fl_read fl d addr buf = (FLASH_RET_OK, take (length buf) (drop addr (mem d)))"
    and write_ok: "ok d \<Longrightarrow> addr < cap \<Longrightarrow> addr + length bs \<le> cap \<Longrightarrow> bs \<noteq> [] \<Longrightarrow> addr mod pg + length bs \<le> pg \<Longrightarrow>
      \<exists>d'. fl_write fl d addr bs = (FLASH_RET_OK, d') \<and> ok d' \<and> mem d' = nor_write (mem d) addr bs"
    and erase_ok: "ok d \<Longrightarrow> addr < cap \<Longrightarrow> addr mod blk = 0 \<Longrightarrow>
      \<exists>d'. fl_erase fl d addr blk = Some (FLASH_RET_OK, d') \<and> ok d' \<and> mem d' = nor_erase (mem d) addr blk"

text \<open>A device that can be erased as a whole.\<close>

locale nor_flash = paged_flash +
  assumes erase_total_ok: "ok d \<Longrightarrow> 0 < cap \<Longrightarrow>
    \<exists>d'. fl_erase fl d 0 cap = Some (FLASH_RET_OK, d') \<and> ok d' \<and> mem d' = nor_erase (mem d) 0 cap"

text \<open>A memory array with this behaviour, of blocks of 4096 bytes.\<close>

definition chip_flash :: "nat \<Rightarrow> u8 list flash" where
  "chip_flash cap =
     \<lparr>fl_get_size = (\<lambda>m i. if i = 0 then (FLASH_RET_OK, cap, FLASH_BLOCK_OPS_ERASE)
        else if i = 1 then (FLASH_RET_OK, 4096, FLASH_BLOCK_OPS_ERASE)
        else (FLASH_RET_OK, 256, FLASH_BLOCK_OPS_WRITE)),
      fl_erase = (\<lambda>m addr len. Some (if addr mod 4096 \<noteq> 0 \<or> len mod 4096 \<noteq> 0 then (FLASH_RET_BAD_ARG, m)
        else if addr + len > cap then (FLASH_RET_FAILED, m) else (FLASH_RET_OK, nor_erase m addr len))),
      fl_write = (\<lambda>m addr bs. if addr + length bs > cap then (FLASH_RET_FAILED, m)
        else (FLASH_RET_OK, nor_write m addr bs)),
      fl_read = (\<lambda>m addr buf. if addr + length buf > cap then (FLASH_RET_FAILED, buf)
        else (FLASH_RET_OK, take (length buf) (drop addr m)))\<rparr>"

lemma chip_nor_flash:
  assumes "cap mod 4096 = 0" "cap < 2 ^ 32"
  shows "nor_flash (chip_flash cap) (\<lambda>m. length m = cap) id 4096 cap 256"
proof -
  have "\<not> cap < addr + 4096" if a: "addr < cap" "4096 dvd addr" for addr
  proof -
    obtain m n where "cap = 4096 * m" "addr = 4096 * n" using assms(1) a(2) by (auto simp: mod_eq_0_iff_dvd dvd_def)
    with a(1) show ?thesis by simp
  qed
  then show ?thesis using assms by unfold_locales (auto simp: chip_flash_def)
qed

interpretation chip: nor_flash "chip_flash 65536" "\<lambda>m. length m = 65536" id 4096 65536 256
  by (rule chip_nor_flash) simp_all

subsection \<open>Static volumes\<close>

definition FLASH_VOL_STATIC_LVS_MAX :: nat where "FLASH_VOL_STATIC_LVS_MAX = 8"

datatype flash_vol_static_ret = FLASH_VOL_STATIC_RET_OK | FLASH_VOL_STATIC_RET_FAILED

text \<open>\<open>lv_parent\<close> tells whether the place is in use.\<close>

record flash_vol_lv =
  lv_parent :: bool
  lv_start :: nat
  lv_size :: nat
  lv_name :: string

definition lv_get_size :: "'d flash \<Rightarrow> flash_vol_lv \<Rightarrow> 'd \<Rightarrow> nat \<Rightarrow> flash_ret \<times> nat \<times> u32" where
  "lv_get_size pv lv d i =
     (if i = 0 then (FLASH_RET_OK, lv_size lv, FLASH_BLOCK_OPS_ERASE) else fl_get_size pv d i)"

text \<open>The loop over the blocks of a volume: the next block and the number of blocks that are left.\<close>

fun lv_erase_blocks :: "'d flash \<Rightarrow> flash_vol_lv \<Rightarrow> nat \<Rightarrow> 'd \<Rightarrow> nat \<Rightarrow> nat \<Rightarrow> (flash_ret \<times> 'd) option" where
  "lv_erase_blocks pv lv block_size d i 0 = Some (FLASH_RET_OK, d)"
| "lv_erase_blocks pv lv block_size d i (Suc n) =
     (case fl_erase pv d ((lv_start lv + i * block_size) mod 2 ^ 32) block_size of
        None \<Rightarrow> None
      | Some (ret, d) \<Rightarrow>
          if ret \<noteq> FLASH_RET_OK then Some (FLASH_RET_FAILED, d) else lv_erase_blocks pv lv block_size d (i + 1) n)"

definition lv_erase :: "'d flash \<Rightarrow> flash_vol_lv \<Rightarrow> 'd \<Rightarrow> nat \<Rightarrow> nat \<Rightarrow> (flash_ret \<times> 'd) option" where
  "lv_erase pv lv d addr len =
     (if addr \<ge> lv_size lv \<or> add32 addr len > lv_size lv then Some (FLASH_RET_FAILED, d)
      else if addr = 0 \<and> len = lv_size lv then
        (case fl_get_size pv d 1 of
           (ret, block_size, _) \<Rightarrow>
             if ret \<noteq> FLASH_RET_OK then Some (FLASH_RET_FAILED, d)
             else if block_size = 0 then None
             else lv_erase_blocks pv lv block_size d 0 (len div block_size))
      else fl_erase pv d (add32 addr (lv_start lv)) len)"

definition lv_write :: "'d flash \<Rightarrow> flash_vol_lv \<Rightarrow> 'd \<Rightarrow> nat \<Rightarrow> u8 list \<Rightarrow> flash_ret \<times> 'd" where
  "lv_write pv lv d addr bs =
     (if addr \<ge> lv_size lv \<or> add32 addr (length bs) > lv_size lv then (FLASH_RET_FAILED, d)
      else fl_write pv d (add32 addr (lv_start lv)) bs)"

definition lv_read :: "'d flash \<Rightarrow> flash_vol_lv \<Rightarrow> 'd \<Rightarrow> nat \<Rightarrow> u8 list \<Rightarrow> flash_ret \<times> u8 list" where
  "lv_read pv lv d addr buf =
     (if addr \<ge> lv_size lv \<or> add32 addr (length buf) > lv_size lv then (FLASH_RET_FAILED, buf)
      else fl_read pv d (add32 addr (lv_start lv)) buf)"

text \<open>The method table of a volume.\<close>

definition lv_vmt :: "'d flash \<Rightarrow> flash_vol_lv \<Rightarrow> 'd flash" where
  "lv_vmt pv lv = \<lparr>fl_get_size = lv_get_size pv lv, fl_erase = lv_erase pv lv, fl_write = lv_write pv lv,
     fl_read = lv_read pv lv\<rparr>"

definition flash_vol_lv_zero :: flash_vol_lv where
  "flash_vol_lv_zero = \<lparr>lv_parent = False, lv_start = 0, lv_size = 0, lv_name = []\<rparr>"

definition flash_vol_static_init :: "flash_vol_static_ret \<times> flash_vol_lv list" where
  "flash_vol_static_init = (FLASH_VOL_STATIC_RET_OK, replicate FLASH_VOL_STATIC_LVS_MAX flash_vol_lv_zero)"

definition flash_vol_static_free :: flash_vol_static_ret where
  "flash_vol_static_free = FLASH_VOL_STATIC_RET_OK"

text \<open>Creating a volume gives its place.\<close>

definition flash_vol_static_create ::
  "flash_vol_lv list \<Rightarrow> string \<Rightarrow> nat \<Rightarrow> nat \<Rightarrow> flash_vol_static_ret \<times> flash_vol_lv list \<times> nat option" where
  "flash_vol_static_create self name start sz =
     (case find_index (\<lambda>l. \<not> lv_parent l) self of
        None \<Rightarrow> (FLASH_VOL_STATIC_RET_FAILED, self, None)
      | Some i \<Rightarrow> (FLASH_VOL_STATIC_RET_OK,
          self[i := \<lparr>lv_parent = True, lv_start = start, lv_size = sz, lv_name = name\<rparr>], Some i))"

subsection \<open>A volume is a flash memory\<close>

definition lv_ok :: "flash_vol_lv \<Rightarrow> nat \<Rightarrow> nat \<Rightarrow> bool" where
  "lv_ok lv blk cap \<longleftrightarrow> lv_start lv mod blk = 0 \<and> lv_size lv mod blk = 0 \<and> 0 < lv_size lv \<and>
     lv_start lv + lv_size lv \<le> cap"

definition lv_mem :: "flash_vol_lv \<Rightarrow> u8 list \<Rightarrow> u8 list" where
  "lv_mem lv m = take (lv_size lv) (drop (lv_start lv) m)"

text \<open>The bytes outside of the volume.\<close>

definition lv_outside :: "flash_vol_lv \<Rightarrow> u8 list \<Rightarrow> u8 list" where
  "lv_outside lv m = take (lv_start lv) m @ drop (lv_start lv + lv_size lv) m"

lemma lv_mem_write:
  assumes "addr + length bs \<le> lv_size lv" "lv_start lv + lv_size lv \<le> length m"
  shows "lv_mem lv (nor_write m (addr + lv_start lv) bs) = nor_write (lv_mem lv m) addr bs"
    "lv_outside lv (nor_write m (addr + lv_start lv) bs) = lv_outside lv m"
proof -
  have l: "addr + lv_start lv + length bs \<le> length m" using assms by simp
  show "lv_mem lv (nor_write m (addr + lv_start lv) bs) = nor_write (lv_mem lv m) addr bs"
  proof (rule nth_equalityI)
    fix i assume "i < length (lv_mem lv (nor_write m (addr + lv_start lv) bs))"
    then have i: "i < lv_size lv" using assms l by (simp add: lv_mem_def)
    then show "lv_mem lv (nor_write m (addr + lv_start lv) bs) ! i = nor_write (lv_mem lv m) addr bs ! i"
      using assms l by (auto simp: lv_mem_def nor_write_nth ac_simps)
  qed (use assms l in \<open>simp add: lv_mem_def\<close>)
  show "lv_outside lv (nor_write m (addr + lv_start lv) bs) = lv_outside lv m"
    unfolding lv_outside_def using assms l
    by (intro arg_cong2 [of _ _ _ _ append] nth_equalityI) (auto simp: nor_write_nth)
qed

lemma lv_mem_erase:
  assumes "addr + len \<le> lv_size lv" "lv_start lv + lv_size lv \<le> length m"
  shows "lv_mem lv (nor_erase m (addr + lv_start lv) len) = nor_erase (lv_mem lv m) addr len"
    "lv_outside lv (nor_erase m (addr + lv_start lv) len) = lv_outside lv m"
proof -
  have l: "addr + lv_start lv + len \<le> length m" using assms by simp
  show "lv_mem lv (nor_erase m (addr + lv_start lv) len) = nor_erase (lv_mem lv m) addr len"
  proof (rule nth_equalityI)
    fix i assume "i < length (lv_mem lv (nor_erase m (addr + lv_start lv) len))"
    then have i: "i < lv_size lv" using assms l by (simp add: lv_mem_def)
    then show "lv_mem lv (nor_erase m (addr + lv_start lv) len) ! i = nor_erase (lv_mem lv m) addr len ! i"
      using assms l by (auto simp: lv_mem_def nor_erase_nth ac_simps)
  qed (use assms l in \<open>simp add: lv_mem_def\<close>)
  show "lv_outside lv (nor_erase m (addr + lv_start lv) len) = lv_outside lv m"
    unfolding lv_outside_def using assms l
    by (intro arg_cong2 [of _ _ _ _ append] nth_equalityI) (auto simp: nor_erase_nth)
qed

lemma block_inside: "addr < n \<Longrightarrow> addr mod blk = 0 \<Longrightarrow> n mod blk = 0 \<Longrightarrow> addr + blk \<le> (n :: nat)"
proof -
  assume "addr < n" "addr mod blk = 0" "n mod blk = 0"
  then obtain i j where "addr = blk * i" "n = blk * j" "i < j" by (auto simp: mod_eq_0_iff_dvd dvd_def)
  then show "addr + blk \<le> n" by (metis Suc_leI mult_Suc_right mult_le_mono2 add.commute)
qed

lemma nor_erase_append:
  "a + b + c \<le> length m \<Longrightarrow> nor_erase (nor_erase m a b) (a + b) c = nor_erase m a (b + c)"
  by (rule nth_equalityI) (auto simp: nor_erase_nth)

locale flash_volume = paged_flash +
  fixes lv :: flash_vol_lv
  assumes lv_ok: "lv_ok lv blk cap"
begin

lemma lv_bounds:
  "lv_start lv + lv_size lv \<le> cap" "0 < lv_size lv" "lv_start lv mod blk = 0" "lv_size lv mod blk = 0"
  "lv_start lv + lv_size lv < 2 ^ 32"
  using lv_ok total_bound by (simp_all add: lv_ok_def)

lemma lv_addr: "addr < lv_size lv \<Longrightarrow> add32 addr (lv_start lv) = addr + lv_start lv"
  using lv_bounds by (intro add32_small) simp

lemma lv_erase_blocks_ok:
  assumes "ok d" "(i + n) * blk \<le> lv_size lv"
  shows "\<exists>d'. lv_erase_blocks fl lv blk d i n = Some (FLASH_RET_OK, d') \<and> ok d' \<and>
    mem d' = nor_erase (mem d) (lv_start lv + i * blk) (n * blk)"
  using assms
proof (induction n arbitrary: d i)
  case 0
  then show ?case by (simp add: nor_erase_def)
next
  case (Suc n)
  let ?a = "lv_start lv + i * blk"
  have le: "i * blk + blk + n * blk \<le> lv_size lv" using Suc.prems(2) by (simp add: algebra_simps)
  then have a: "?a + blk \<le> cap" "?a mod 2 ^ 32 = ?a" using lv_bounds by (simp_all add: mod_less)
  have "?a < cap" using a blk_pos by simp
  moreover have "?a mod blk = 0" using lv_bounds(3) by (simp add: mod_add_right_eq [symmetric])
  ultimately obtain d1 where d1: "fl_erase fl d ?a blk = Some (FLASH_RET_OK, d1)" "ok d1"
    "mem d1 = nor_erase (mem d) ?a blk"
    using erase_ok [OF Suc.prems(1), of ?a] a by auto
  have "(i + 1 + n) * blk \<le> lv_size lv" using Suc.prems(2) by simp
  from Suc.IH [OF d1(2) this] obtain d2 where d2: "lv_erase_blocks fl lv blk d1 (i + 1) n = Some (FLASH_RET_OK, d2)"
    "ok d2" "mem d2 = nor_erase (mem d1) (lv_start lv + (i + 1) * blk) (n * blk)" by blast
  have eq: "lv_start lv + (i + 1) * blk = ?a + blk" by simp
  have "?a + blk + n * blk \<le> length (mem d)" using le lv_bounds length_mem [OF Suc.prems(1)] by simp
  then have "mem d2 = nor_erase (mem d) ?a (blk + n * blk)"
    using d2(3) unfolding eq d1(3) by (simp only: nor_erase_append)
  then show ?case using a d1 d2 by simp
qed

lemma lv_erase_ok:
  assumes "ok d" "addr < lv_size lv" "addr mod blk = 0" "len = blk \<or> addr = 0 \<and> len = lv_size lv" "addr + len \<le> lv_size lv"
  shows "\<exists>d'. lv_erase fl lv d addr len = Some (FLASH_RET_OK, d') \<and> ok d' \<and>
    mem d' = nor_erase (mem d) (addr + lv_start lv) len"
proof -
  have range: "\<not> (addr \<ge> lv_size lv \<or> add32 addr len > lv_size lv)"
    using assms lv_bounds add32_small [of addr len] by simp
  show ?thesis
  proof (cases "addr = 0 \<and> len = lv_size lv")
    case True
    obtain ops where "fl_get_size fl d 1 = (FLASH_RET_OK, blk, ops)" using size_block [OF assms(1)] by blast
    moreover have "lv_size lv div blk * blk = lv_size lv" using lv_bounds(4) by (simp add: mod_eq_0_iff_dvd)
    ultimately show ?thesis
      using True range blk_pos lv_erase_blocks_ok [OF assms(1), of 0 "lv_size lv div blk"]
      by (simp add: lv_erase_def)
  next
    case False
    have "(addr + lv_start lv) mod blk = 0" using assms(3) lv_bounds(3) by (simp add: mod_add_eq [symmetric])
    moreover have "addr + lv_start lv < cap" using assms lv_bounds by simp
    ultimately show ?thesis
      using False range lv_addr [OF assms(2)] erase_ok [OF assms(1), of "addr + lv_start lv"] assms(4)
      by (auto simp: lv_erase_def)
  qed
qed

text \<open>The start of a volume is a multiple of the page size.\<close>

lemma lv_page: "(addr + lv_start lv) mod pg = addr mod pg"
proof -
  have "pg dvd blk" "blk dvd lv_start lv" using pg_blk lv_bounds(3) by auto
  then have "pg dvd lv_start lv" by (rule dvd_trans)
  then show ?thesis by (auto simp: dvd_def)
qed

lemma lv_write_ok:
  assumes "ok d" "addr < lv_size lv" "addr + length bs \<le> lv_size lv" "bs \<noteq> []" "addr mod pg + length bs \<le> pg"
  shows "\<exists>d'. lv_write fl lv d addr bs = (FLASH_RET_OK, d') \<and> ok d' \<and>
    mem d' = nor_write (mem d) (addr + lv_start lv) bs"
proof -
  have "add32 addr (length bs) = addr + length bs" using assms lv_bounds by (intro add32_small) simp
  moreover have "addr + lv_start lv < cap" "addr + lv_start lv + length bs \<le> cap" using assms lv_bounds by simp_all
  ultimately show ?thesis
    using write_ok [OF assms(1), of "addr + lv_start lv" bs] lv_addr [OF assms(2)] assms by (simp add: lv_write_def lv_page)
qed

lemma lv_read_ok:
  assumes "ok d" "addr < lv_size lv" "addr + length buf \<le> lv_size lv" "buf \<noteq> []"
  shows "lv_read fl lv d addr buf = (FLASH_RET_OK, take (length buf) (drop addr (lv_mem lv (mem d))))"
proof -
  have "add32 addr (length buf) = addr + length buf" using assms lv_bounds by (intro add32_small) simp
  moreover have "addr + lv_start lv < cap" "addr + lv_start lv + length buf \<le> cap" using assms lv_bounds by simp_all
  moreover have "take (length buf) (drop (addr + lv_start lv) (mem d)) = take (length buf) (drop addr (lv_mem lv (mem d)))"
    using assms(3) by (simp add: lv_mem_def drop_take min_absorb1)
  ultimately show ?thesis
    using read_ok [OF assms(1), of "addr + lv_start lv" buf] lv_addr [OF assms(2)] assms by (simp add: lv_read_def)
qed

end

sublocale flash_volume \<subseteq> vol: nor_flash "lv_vmt fl lv" ok "\<lambda>d. lv_mem lv (mem d)" blk "lv_size lv"
proof
  show "0 < blk" by (rule blk_pos)
  show "lv_size lv mod blk = 0" by (rule lv_bounds)
  show "lv_size lv < 2 ^ 32" using lv_bounds by simp
  show "length (lv_mem lv (mem d)) = lv_size lv" if "ok d" for d
    using that lv_bounds by (simp add: lv_mem_def length_mem)
  show "\<exists>ops. fl_get_size (lv_vmt fl lv) d 0 = (FLASH_RET_OK, lv_size lv, ops)" for d
    by (simp add: lv_vmt_def lv_get_size_def)
  show "0 < pg" "blk mod pg = 0" by (rule pg_pos, rule pg_blk)
  show "\<exists>ops. fl_get_size (lv_vmt fl lv) d 1 = (FLASH_RET_OK, blk, ops)" if "ok d" for d
    using size_block [OF that] by (simp add: lv_vmt_def lv_get_size_def)
  show "\<exists>ops. fl_get_size (lv_vmt fl lv) d 3 = (FLASH_RET_OK, pg, ops)" if "ok d" for d
    using size_page [OF that] by (simp add: lv_vmt_def lv_get_size_def)
  show "fl_read (lv_vmt fl lv) d addr buf = (FLASH_RET_OK, take (length buf) (drop addr (lv_mem lv (mem d))))"
    if "ok d" "addr < lv_size lv" "addr + length buf \<le> lv_size lv" "buf \<noteq> []" for d addr buf
    using lv_read_ok [OF that] by (simp add: lv_vmt_def)
  show "\<exists>d'. fl_write (lv_vmt fl lv) d addr bs = (FLASH_RET_OK, d') \<and> ok d' \<and> lv_mem lv (mem d') = nor_write (lv_mem lv (mem d)) addr bs"
    if "ok d" "addr < lv_size lv" "addr + length bs \<le> lv_size lv" "bs \<noteq> []" "addr mod pg + length bs \<le> pg" for d addr bs
    using lv_write_ok [OF that] lv_mem_write(1) [OF that(3), of "mem d"] lv_bounds length_mem [OF that(1)]
    by (auto simp: lv_vmt_def)
  have erase: "\<exists>d'. fl_erase (lv_vmt fl lv) d addr len = Some (FLASH_RET_OK, d') \<and> ok d' \<and> lv_mem lv (mem d') = nor_erase (lv_mem lv (mem d)) addr len"
    if "ok d" "addr < lv_size lv" "addr mod blk = 0" "len = blk \<or> addr = 0 \<and> len = lv_size lv" "addr + len \<le> lv_size lv"
    for d addr len
    using lv_erase_ok [OF that] lv_mem_erase(1) [OF that(5), of "mem d"] lv_bounds length_mem [OF that(1)]
    by (auto simp: lv_vmt_def)
  show "\<exists>d'. fl_erase (lv_vmt fl lv) d addr blk = Some (FLASH_RET_OK, d') \<and> ok d' \<and> lv_mem lv (mem d') = nor_erase (lv_mem lv (mem d)) addr blk"
    if "ok d" "addr < lv_size lv" "addr mod blk = 0" for d addr
    using erase [OF that] block_inside [OF that(2,3) lv_bounds(4)] by blast
  show "\<exists>d'. fl_erase (lv_vmt fl lv) d 0 (lv_size lv) = Some (FLASH_RET_OK, d') \<and> ok d' \<and>
      lv_mem lv (mem d') = nor_erase (lv_mem lv (mem d)) 0 (lv_size lv)" if "ok d" "0 < lv_size lv" for d
    using erase [OF that, of "lv_size lv"] by simp
qed

subsection \<open>Isolation of volumes\<close>

definition lv_disjoint :: "flash_vol_lv \<Rightarrow> flash_vol_lv \<Rightarrow> bool" where
  "lv_disjoint a b \<longleftrightarrow> lv_start a + lv_size a \<le> lv_start b \<or> lv_start b + lv_size b \<le> lv_start a"

lemma lv_outside_mem:
  assumes "lv_outside lv m' = lv_outside lv m" "length m' = length m" "lv_start lv + lv_size lv \<le> length m"
    and "lv_disjoint lv lv'"
  shows "lv_mem lv' m' = lv_mem lv' m"
proof -
  have parts: "take (lv_start lv) m' = take (lv_start lv) m"
    "drop (lv_start lv + lv_size lv) m' = drop (lv_start lv + lv_size lv) m"
    using assms(1-3) by (simp_all add: lv_outside_def)
  from assms(4) consider "lv_start lv' + lv_size lv' \<le> lv_start lv" | "lv_start lv + lv_size lv \<le> lv_start lv'"
    by (auto simp: lv_disjoint_def)
  then show ?thesis
  proof cases
    case 1
    then have eq: "lv_mem lv' x = take (lv_size lv') (drop (lv_start lv') (take (lv_start lv) x))" for x
      by (simp add: lv_mem_def drop_take min_def)
    show ?thesis unfolding eq [of m] eq [of m'] by (simp only: parts)
  next
    case 2
    then have eq: "lv_mem lv' x = take (lv_size lv') (drop (lv_start lv' - (lv_start lv + lv_size lv)) (drop (lv_start lv + lv_size lv) x))" for x
      by (simp add: lv_mem_def)
    show ?thesis unfolding eq [of m] eq [of m'] by (simp only: parts)
  qed
qed

context flash_volume begin

lemma isolated_write:
  assumes "ok d" "addr + length bs < 2 ^ 32" "bs \<noteq> []" "addr mod pg + length bs \<le> pg"
  shows "case lv_write fl lv d addr bs of (ret, d') \<Rightarrow> ok d' \<and> lv_outside lv (mem d') = lv_outside lv (mem d) \<and>
    (ret = FLASH_RET_OK \<longleftrightarrow> addr < lv_size lv \<and> addr + length bs \<le> lv_size lv)"
proof (cases "addr < lv_size lv \<and> addr + length bs \<le> lv_size lv")
  case True
  with lv_write_ok [OF assms(1) _ _ assms(3,4)] lv_mem_write(2) [of addr bs lv "mem d"] lv_bounds length_mem [OF assms(1)]
  show ?thesis by fastforce
next
  case False
  then have "lv_write fl lv d addr bs = (FLASH_RET_FAILED, d)"
    using add32_small [OF assms(2)] by (auto simp: lv_write_def)
  then show ?thesis using False assms(1) by simp
qed

lemma isolated_erase:
  assumes "ok d" "addr + len < 2 ^ 32" "addr mod blk = 0" "len = blk \<or> addr = 0 \<and> len = lv_size lv"
  shows "\<exists>ret d'. lv_erase fl lv d addr len = Some (ret, d') \<and> ok d' \<and> lv_outside lv (mem d') = lv_outside lv (mem d) \<and>
    (ret = FLASH_RET_OK \<longleftrightarrow> addr < lv_size lv \<and> addr + len \<le> lv_size lv)"
proof (cases "addr < lv_size lv \<and> addr + len \<le> lv_size lv")
  case True
  with lv_erase_ok [OF assms(1) _ assms(3,4)] lv_mem_erase(2) [of addr len lv "mem d"] lv_bounds length_mem [OF assms(1)]
  show ?thesis by fastforce
next
  case False
  then have "lv_erase fl lv d addr len = Some (FLASH_RET_FAILED, d)"
    using add32_small [OF assms(2)] by (auto simp: lv_erase_def)
  then show ?thesis using False assms(1) by simp
qed

lemma volume_flash: "nor_flash (lv_vmt fl lv) ok (\<lambda>d. lv_mem lv (mem d)) blk (lv_size lv) pg"
  by (rule vol.nor_flash_axioms)

lemma outside_other:
  assumes "ok d" "ok d'" "lv_outside lv (mem d') = lv_outside lv (mem d)" "lv_disjoint lv lv'"
  shows "lv_mem lv' (mem d') = lv_mem lv' (mem d)"
  using assms lv_bounds by (intro lv_outside_mem [of lv]) (simp_all add: length_mem)

end

definition example_lv :: "nat \<Rightarrow> nat \<Rightarrow> flash_vol_lv" where
  "example_lv start sz = \<lparr>lv_parent = True, lv_start = start, lv_size = sz, lv_name = ''lv''\<rparr>"

interpretation chip_vol: flash_volume "chip_flash 65536" "\<lambda>m. length m = 65536" id 4096 65536 256 "example_lv 4096 8192"
  by unfold_locales (simp add: lv_ok_def example_lv_def)

text \<open>
  Volumes are isolated flash memories. On a working device, a volume made of whole blocks
  is itself a device with the contract of the interface, for its own bytes; a write or an erase
  through it succeeds exactly when its range lies inside of the volume, is refused otherwise,
  and in both cases leaves the contents of every disjoint volume as they were. The hypothesis
  \<open>nor_flash\<close> is the documented behaviour of the device below; the lengths must not wrap around.
\<close>

theorem flash_volume_isolated:
  assumes "paged_flash fl ok mem blk cap pg" "lv_ok lv blk cap" "ok d" "lv_disjoint lv lv'"
  shows "nor_flash (lv_vmt fl lv) ok (\<lambda>d. lv_mem lv (mem d)) blk (lv_size lv) pg \<and>
    (addr + length bs < 2 ^ 32 \<longrightarrow> bs \<noteq> [] \<longrightarrow> addr mod pg + length bs \<le> pg \<longrightarrow> (case lv_write fl lv d addr bs of (ret, d') \<Rightarrow>
      ok d' \<and> lv_mem lv' (mem d') = lv_mem lv' (mem d) \<and>
      (ret = FLASH_RET_OK \<longleftrightarrow> addr < lv_size lv \<and> addr + length bs \<le> lv_size lv))) \<and>
    (addr + len < 2 ^ 32 \<longrightarrow> addr mod blk = 0 \<longrightarrow> len = blk \<or> addr = 0 \<and> len = lv_size lv \<longrightarrow>
      (\<exists>ret d'. lv_erase fl lv d addr len = Some (ret, d') \<and> ok d' \<and> lv_mem lv' (mem d') = lv_mem lv' (mem d) \<and>
        (ret = FLASH_RET_OK \<longleftrightarrow> addr < lv_size lv \<and> addr + len \<le> lv_size lv)))"
proof -
  have vol: "flash_volume fl ok mem blk cap pg lv"
    using assms(1,2) by (simp add: flash_volume_def flash_volume_axioms_def)
  have "case lv_write fl lv d addr bs of (ret, d') \<Rightarrow> ok d' \<and> lv_mem lv' (mem d') = lv_mem lv' (mem d) \<and>
      (ret = FLASH_RET_OK \<longleftrightarrow> addr < lv_size lv \<and> addr + length bs \<le> lv_size lv)"
    if "addr + length bs < 2 ^ 32" "bs \<noteq> []" "addr mod pg + length bs \<le> pg"
    using flash_volume.isolated_write [OF vol assms(3) that] flash_volume.outside_other [OF vol assms(3) _ _ assms(4)]
    by (auto split: prod.splits)
  moreover have "\<exists>ret d'. lv_erase fl lv d addr len = Some (ret, d') \<and> ok d' \<and> lv_mem lv' (mem d') = lv_mem lv' (mem d) \<and>
        (ret = FLASH_RET_OK \<longleftrightarrow> addr < lv_size lv \<and> addr + len \<le> lv_size lv)"
    if "addr + len < 2 ^ 32" "addr mod blk = 0" "len = blk \<or> addr = 0 \<and> len = lv_size lv"
    using flash_volume.isolated_erase [OF vol assms(3) that] flash_volume.outside_other [OF vol assms(3) _ _ assms(4)]
    by metis
  ultimately show ?thesis using flash_volume.volume_flash [OF vol] by blast
qed

lemma flash_volume_isolated_witness:
  "case lv_write (chip_flash 65536) (example_lv 4096 8192) (replicate 65536 0xff) 8192 [1] of (ret, d') \<Rightarrow>
     lv_mem (example_lv 12288 4096) d' = lv_mem (example_lv 12288 4096) (replicate 65536 0xff) \<and> ret \<noteq> FLASH_RET_OK"
  using flash_volume_isolated [of "chip_flash 65536" "\<lambda>m. length m = 65536" id 4096 65536 256 "example_lv 4096 8192"
      "replicate 65536 0xff" "example_lv 12288 4096" 8192 "[1]" 0] chip_nor_flash [of 65536]
  by (auto simp: lv_ok_def lv_disjoint_def example_lv_def nor_flash_def)

text \<open>The range check adds without looking at the carry: a request whose end wraps around passes it, and goes
  to the device with a length beyond the volume.\<close>

lemma lv_write_length_wraps:
  assumes "0 < addr" "addr < lv_size lv" "length bs = 2 ^ 32 - addr" "lv_size lv \<le> 2 ^ 31"
  shows "lv_write pv lv d addr bs = fl_write pv d (add32 addr (lv_start lv)) bs" "lv_size lv < length bs"
  using assms by (simp_all add: lv_write_def add32_def)

end
