(* ===== verification/Flash_Fifo.thy ===== *)
theory Flash_Fifo
  imports Flash
begin

text \<open>
  A FIFO of blocks in a flash memory (\<open>services/flash-fifo/flash-fifo.c\<close>). Every block starts with a
  page that holds a header: the state of the block as a magic number (erased, head, FIFO, tail: each
  can be reached from the one before by clearing bits), a bitmap of the space written so far, and room
  for keys. The positions \<open>tail\<close>, \<open>last\<close> and \<open>head\<close> count blocks and are reduced
  modulo the number of blocks when the device is accessed.

  The device is a method table \<open>fl\<close> and its state \<open>d\<close>. Sizes and positions are 32 bit numbers: where the
  code can wrap around, \<open>add32\<close> and \<open>sub32\<close> are used. The result \<open>None\<close> is undefined behaviour: a shift
  by the width of the word, a division by zero, or that of the device. The mutex of
  the file operations is taken and given in each of them, so they are atomic here; logging is left out.
\<close>

subsection \<open>Headers\<close>

definition FLASH_FIFO_BITMAP_SIZE :: nat where "FLASH_FIFO_BITMAP_SIZE = 1024"
definition FLASH_FIFO_KEY_SIZE :: nat where "FLASH_FIFO_KEY_SIZE = 16"
definition FLASH_FIFO_MAGIC_ERASED :: u32 where "FLASH_FIFO_MAGIC_ERASED = 0xffffffff"
definition FLASH_FIFO_MAGIC_HEAD :: u32 where "FLASH_FIFO_MAGIC_HEAD = 0x77777777"
definition FLASH_FIFO_MAGIC_FIFO :: u32 where "FLASH_FIFO_MAGIC_FIFO = 0x33333333"
definition FLASH_FIFO_MAGIC_TAIL :: u32 where "FLASH_FIFO_MAGIC_TAIL = 0x00000000"

lemmas fifo_magic_defs = FLASH_FIFO_MAGIC_ERASED_def FLASH_FIFO_MAGIC_HEAD_def FLASH_FIFO_MAGIC_FIFO_def
  FLASH_FIFO_MAGIC_TAIL_def

datatype flash_fifo_ret = FLASH_FIFO_RET_OK | FLASH_FIFO_RET_FAILED | FLASH_FIFO_RET_FULL | FLASH_FIFO_RET_EMPTY

record flash_fifo_header =
  fh_magic :: u32
  fh_bitmap :: "u32 list"
  fh_iv :: "u8 list"
  fh_mac :: "u8 list"

definition fh_zero :: flash_fifo_header where
  "fh_zero = \<lparr>fh_magic = 0, fh_bitmap = replicate (FLASH_FIFO_BITMAP_SIZE div 32) 0,
     fh_iv = replicate FLASH_FIFO_KEY_SIZE 0, fh_mac = replicate FLASH_FIFO_KEY_SIZE 0\<rparr>"

text \<open>The structure in memory.\<close>

definition fh_bytes :: "flash_fifo_header \<Rightarrow> u8 list" where
  "fh_bytes h = store32_le (fh_magic h) @ concat (map store32_le (fh_bitmap h)) @ fh_iv h @ fh_mac h"

definition fh_of_bytes :: "u8 list \<Rightarrow> flash_fifo_header" where
  "fh_of_bytes bs =
     \<lparr>fh_magic = load32_le bs,
      fh_bitmap = map (\<lambda>i. load32_le (drop (4 + 4 * i) bs)) [0..<FLASH_FIFO_BITMAP_SIZE div 32],
      fh_iv = take FLASH_FIFO_KEY_SIZE (drop (4 + FLASH_FIFO_BITMAP_SIZE div 8) bs),
      fh_mac = take FLASH_FIFO_KEY_SIZE (drop (4 + FLASH_FIFO_BITMAP_SIZE div 8 + FLASH_FIFO_KEY_SIZE) bs)\<rparr>"

record flash_fifo =
  ff_flash_size :: nat
  ff_block_size :: nat
  ff_page_size :: nat
  ff_blocks :: nat
  ff_tail :: nat
  ff_last :: nat
  ff_head :: nat
  ff_read_offset :: nat

definition ff_addr :: "flash_fifo \<Rightarrow> nat \<Rightarrow> nat" where
  "ff_addr self pos = ((pos mod ff_blocks self) * ff_block_size self) mod 2 ^ 32"

definition read_header ::
  "'d flash \<Rightarrow> 'd \<Rightarrow> flash_fifo \<Rightarrow> nat \<Rightarrow> flash_fifo_header \<Rightarrow> flash_fifo_ret \<times> flash_fifo_header" where
  "read_header fl d self pos h =
     (case fl_read fl d (ff_addr self pos) (fh_bytes h) of
        (ret, bs) \<Rightarrow> (if ret \<noteq> FLASH_RET_OK then FLASH_FIFO_RET_FAILED else FLASH_FIFO_RET_OK, fh_of_bytes bs))"

definition write_header ::
  "'d flash \<Rightarrow> 'd \<Rightarrow> flash_fifo \<Rightarrow> nat \<Rightarrow> flash_fifo_header \<Rightarrow> flash_fifo_ret \<times> 'd" where
  "write_header fl d self pos h =
     (case fl_write fl d (ff_addr self pos) (fh_bytes h) of
        (ret, d) \<Rightarrow> (if ret \<noteq> FLASH_RET_OK then FLASH_FIFO_RET_FAILED else FLASH_FIFO_RET_OK, d))"

subsection \<open>Finding the FIFO\<close>

text \<open>The loop of \<open>find_block\<close>: \<open>n\<close> blocks are left, \<open>i\<close> is the next one. \<open>None\<close> is a failure.\<close>

fun find_block_from :: "'d flash \<Rightarrow> 'd \<Rightarrow> flash_fifo \<Rightarrow> u32 \<Rightarrow> flash_fifo_header \<Rightarrow> nat \<Rightarrow> nat \<Rightarrow> nat option" where
  "find_block_from fl d self magic h i 0 = None"
| "find_block_from fl d self magic h i (Suc n) =
     (case read_header fl d self i h of
        (ret, h) \<Rightarrow>
          if ret \<noteq> FLASH_FIFO_RET_OK then None
          else if fh_magic h = magic then Some i
          else find_block_from fl d self magic h (i + 1) n)"

definition find_block :: "'d flash \<Rightarrow> 'd \<Rightarrow> flash_fifo \<Rightarrow> nat \<Rightarrow> u32 \<Rightarrow> nat option" where
  "find_block fl d self start magic =
     find_block_from fl d self magic fh_zero start (add32 (ff_blocks self) start - start)"

text \<open>The last part of \<open>find_fifo\<close>, from the comment about the head on.\<close>

definition find_head :: "'d flash \<Rightarrow> 'd \<Rightarrow> flash_fifo \<Rightarrow> nat \<Rightarrow> flash_fifo_ret \<times> flash_fifo" where
  "find_head fl d self pos =
     (case find_block fl d self pos FLASH_FIFO_MAGIC_HEAD of
        Some pos \<Rightarrow> (FLASH_FIFO_RET_OK, self\<lparr>ff_head := pos\<rparr>)
      | None \<Rightarrow>
          (case find_block fl d self pos FLASH_FIFO_MAGIC_ERASED of
             None \<Rightarrow> (FLASH_FIFO_RET_FAILED, self)
           | Some pos \<Rightarrow> (FLASH_FIFO_RET_OK, self\<lparr>ff_head := sub32 pos 1\<rparr>)))"

definition find_fifo :: "'d flash \<Rightarrow> 'd \<Rightarrow> flash_fifo \<Rightarrow> flash_fifo_ret \<times> flash_fifo" where
  "find_fifo fl d self =
     (case find_block fl d self 0 FLASH_FIFO_MAGIC_ERASED of
        None \<Rightarrow> (FLASH_FIFO_RET_FAILED, self)
      | Some pos \<Rightarrow>
          (case find_block fl d self pos FLASH_FIFO_MAGIC_TAIL of
             None \<Rightarrow>
               (case (case find_block fl d self pos FLASH_FIFO_MAGIC_FIFO of
                        None \<Rightarrow> find_block fl d self pos FLASH_FIFO_MAGIC_HEAD
                      | Some pos \<Rightarrow> Some pos) of
                  None \<Rightarrow> (FLASH_FIFO_RET_EMPTY, self)
                | Some pos \<Rightarrow> find_head fl d (self\<lparr>ff_tail := pos, ff_last := pos\<rparr>) pos)
           | Some pos \<Rightarrow>
               let self = self\<lparr>ff_tail := pos\<rparr> in
               (case (case find_block fl d self pos FLASH_FIFO_MAGIC_FIFO of
                        None \<Rightarrow> find_block fl d self pos FLASH_FIFO_MAGIC_HEAD
                      | Some pos \<Rightarrow> Some pos) of
                  None \<Rightarrow> (FLASH_FIFO_RET_FAILED, self)
                | Some pos \<Rightarrow> find_head fl d (self\<lparr>ff_last := pos\<rparr>) pos)))"

subsection \<open>The bitmap\<close>

text \<open>\<open>__builtin_clz\<close> of a word that is not zero.\<close>

definition clz32 :: "u32 \<Rightarrow> nat" where
  "clz32 w = length (takeWhile (\<lambda>i. \<not> bit w (31 - i)) [0..<32])"

fun bitmap_zeros :: "u32 list \<Rightarrow> nat" where
  "bitmap_zeros [] = 0"
| "bitmap_zeros (w # ws) = (if w = 0 then 32 + bitmap_zeros ws else clz32 w)"

definition bitmap_to_offset :: "flash_fifo \<Rightarrow> u32 list \<Rightarrow> nat" where
  "bitmap_to_offset self b = (ff_block_size self div FLASH_FIFO_BITMAP_SIZE) * bitmap_zeros b"

text \<open>The number of words that are left and the offset; the shift by \<open>bits\<close> is undefined from 32 on.\<close>

fun offset_to_words :: "nat \<Rightarrow> nat \<Rightarrow> nat \<Rightarrow> u32 list option" where
  "offset_to_words g 0 offset = Some []"
| "offset_to_words g (Suc len) offset =
     (if offset > g * 32 then map_option ((#) 0) (offset_to_words g len (offset - g * 32))
      else
        let bits = offset div g in
        if g = 0 \<or> bits \<ge> 32 then None
        else Some (drop_bit bits (- 1) # replicate len (- 1)))"

definition offset_to_bitmap :: "flash_fifo \<Rightarrow> nat \<Rightarrow> nat \<Rightarrow> u32 list option" where
  "offset_to_bitmap self len offset = offset_to_words (ff_block_size self div FLASH_FIFO_BITMAP_SIZE) len offset"

subsection \<open>Heads\<close>

definition prepare_head :: "'d flash \<Rightarrow> 'd \<Rightarrow> flash_fifo \<Rightarrow> nat \<Rightarrow> flash_fifo_ret \<times> 'd" where
  "prepare_head fl d self pos =
     (let (_, h) = read_header fl d self (add32 pos 1) fh_zero in
      if fh_magic h \<noteq> FLASH_FIFO_MAGIC_ERASED then (FLASH_FIFO_RET_FULL, d)
      else
        let (_, h) = read_header fl d self pos h in
        if fh_magic h \<noteq> FLASH_FIFO_MAGIC_ERASED then (FLASH_FIFO_RET_FULL, d)
        else
          let h = h\<lparr>fh_magic := FLASH_FIFO_MAGIC_HEAD, fh_iv := replicate FLASH_FIFO_KEY_SIZE 0x55\<rparr>;
              (ret, d) = write_header fl d self pos h
          in if ret \<noteq> FLASH_FIFO_RET_OK then (FLASH_FIFO_RET_FAILED, d) else (FLASH_FIFO_RET_OK, d))"

definition close_head :: "'d flash \<Rightarrow> 'd \<Rightarrow> flash_fifo \<Rightarrow> nat \<Rightarrow> flash_fifo_ret \<times> 'd" where
  "close_head fl d self pos =
     (let (_, h) = read_header fl d self pos fh_zero in
      if fh_magic h \<noteq> FLASH_FIFO_MAGIC_HEAD then (FLASH_FIFO_RET_FAILED, d)
      else
        let (ret, d) = write_header fl d self pos (h\<lparr>fh_magic := FLASH_FIFO_MAGIC_FIFO\<rparr>)
        in if ret \<noteq> FLASH_FIFO_RET_OK then (FLASH_FIFO_RET_FAILED, d) else (FLASH_FIFO_RET_OK, d))"

definition flash_fifo_format :: "'d flash \<Rightarrow> 'd \<Rightarrow> flash_fifo \<Rightarrow> 'd option" where
  "flash_fifo_format fl d self =
     (case fl_erase fl d 0 (ff_flash_size self) of
        None \<Rightarrow> None
      | Some (_, d) \<Rightarrow> Some (snd (prepare_head fl d self 0)))"

subsection \<open>Writing\<close>

text \<open>The new offset and length are written through pointers. \<open>None\<close> is the division by a page size of zero.\<close>

definition get_block_write_range ::
  "'d flash \<Rightarrow> 'd \<Rightarrow> flash_fifo \<Rightarrow> nat \<Rightarrow> nat \<Rightarrow> (flash_fifo_ret \<times> nat \<times> nat) option" where
  "get_block_write_range fl d self offset len =
     (if offset \<ge> ff_block_size self then Some (FLASH_FIFO_RET_FAILED, offset, len)
      else
        let (_, h) = read_header fl d self (ff_head self) fh_zero in
        if offset = 0 \<and> fh_magic h \<noteq> FLASH_FIFO_MAGIC_HEAD then Some (FLASH_FIFO_RET_FAILED, offset, len)
        else
          let offset = (if offset = 0 then bitmap_to_offset self (fh_bitmap h) else offset);
              end' = sub32 (ff_block_size self) (ff_page_size self);
              end' = (if sub32 end' offset > ff_page_size self then add32 offset (ff_page_size self) else end')
          in if ff_page_size self = 0 then None
             else
               let end' = end' - end' mod ff_page_size self
               in Some (FLASH_FIFO_RET_OK, offset, sub32 end' offset))"

definition set_block_write_usage :: "'d flash \<Rightarrow> 'd \<Rightarrow> flash_fifo \<Rightarrow> nat \<Rightarrow> (flash_fifo_ret \<times> 'd) option" where
  "set_block_write_usage fl d self len =
     (let (_, h) = read_header fl d self (ff_head self) fh_zero in
      if fh_magic h \<noteq> FLASH_FIFO_MAGIC_HEAD then Some (FLASH_FIFO_RET_FAILED, d)
      else
        case offset_to_bitmap self (FLASH_FIFO_BITMAP_SIZE div 32)
            (add32 (sub32 len 1) (ff_block_size self div FLASH_FIFO_BITMAP_SIZE)) of
          None \<Rightarrow> None
        | Some b \<Rightarrow>
            let (ret, d) = write_header fl d self (ff_head self) (h\<lparr>fh_bitmap := b\<rparr>)
            in Some (if ret \<noteq> FLASH_FIFO_RET_OK then (FLASH_FIFO_RET_FAILED, d) else (FLASH_FIFO_RET_OK, d)))"

definition block_write_data :: "'d flash \<Rightarrow> 'd \<Rightarrow> flash_fifo \<Rightarrow> nat \<Rightarrow> u8 list \<Rightarrow> flash_fifo_ret \<times> 'd" where
  "block_write_data fl d self offset buf =
     (case fl_write fl d (add32 (add32 (ff_addr self (ff_head self)) (ff_page_size self)) offset) buf of
        (ret, d) \<Rightarrow> (if ret \<noteq> FLASH_RET_OK then FLASH_FIFO_RET_FAILED else FLASH_FIFO_RET_OK, d))"

definition block_read_data :: "'d flash \<Rightarrow> 'd \<Rightarrow> flash_fifo \<Rightarrow> nat \<Rightarrow> u8 list \<Rightarrow> flash_fifo_ret \<times> u8 list" where
  "block_read_data fl d self offset buf =
     (case fl_read fl d (add32 (add32 (ff_addr self (ff_last self)) (ff_page_size self)) offset) buf of
        (ret, buf) \<Rightarrow> (if ret \<noteq> FLASH_RET_OK then FLASH_FIFO_RET_FAILED else FLASH_FIFO_RET_OK, buf))"

text \<open>The loop of \<open>flash_fifo_write\<close> over what is left of the data; it gives the number of bytes
  that are left, the offset in the block and the device.\<close>

function flash_fifo_write_loop ::
  "'d flash \<Rightarrow> 'd \<Rightarrow> flash_fifo \<Rightarrow> nat \<Rightarrow> nat \<Rightarrow> u8 list \<Rightarrow> (nat \<times> nat \<times> 'd) option" where
  "flash_fifo_write_loop fl d self offset len buf =
     (case get_block_write_range fl d self offset len of
        None \<Rightarrow> None
      | Some (ret, offset, len) \<Rightarrow>
          if ret = FLASH_FIFO_RET_OK \<and> length buf > 0 \<and> len > 0 then
            let len = (if length buf < len then length buf else len);
                (_, d) = block_write_data fl d self offset (take len buf)
            in flash_fifo_write_loop fl d self (add32 offset len) len (drop len buf)
          else Some (length buf, offset, d))"
  by pat_completeness auto
termination
  by (relation "measure (\<lambda>(fl, d, self, offset, len, buf). length buf)") (auto split: if_splits)

declare flash_fifo_write_loop.simps [simp del]

definition flash_fifo_write ::
  "'d flash \<Rightarrow> 'd \<Rightarrow> flash_fifo \<Rightarrow> u8 list \<Rightarrow> (flash_fifo_ret \<times> flash_fifo \<times> 'd \<times> nat) option" where
  "flash_fifo_write fl d self buf =
     (case flash_fifo_write_loop fl d self 0 0 buf of
        None \<Rightarrow> None
      | Some (rem, offset, d) \<Rightarrow>
          (case set_block_write_usage fl d self offset of
             None \<Rightarrow> None
           | Some (_, d) \<Rightarrow>
               let written = length buf - rem in
               if rem > 0 then
                 let (_, d) = close_head fl d self (ff_head self);
                     (ret, d) = prepare_head fl d self (add32 (ff_head self) 1);
                     self = (if ret = FLASH_FIFO_RET_OK then self\<lparr>ff_head := add32 (ff_head self) 1\<rparr> else self)
                 in Some (ret, self, d, written)
               else Some (FLASH_FIFO_RET_OK, self, d, written)))"

subsection \<open>Reading\<close>

text \<open>\<open>buf\<close> are the \<open>len\<close> bytes of the caller; the results are the new contents and the length
  that is reported.\<close>

definition flash_fifo_read ::
  "'d flash \<Rightarrow> 'd \<Rightarrow> flash_fifo \<Rightarrow> u8 list \<Rightarrow> (flash_fifo_ret \<times> flash_fifo \<times> u8 list \<times> nat) option" where
  "flash_fifo_read fl d self buf =
     (if ff_head self = ff_last self then Some (FLASH_FIFO_RET_EMPTY, self, buf, 0)
      else
        let end' = sub32 (ff_block_size self) (ff_page_size self);
            end' = (if sub32 end' (ff_read_offset self) > ff_page_size self
                    then add32 (ff_read_offset self) (ff_page_size self) else end')
        in if ff_page_size self = 0 then None
           else
             let end' = end' - end' mod ff_page_size self;
                 read_len = sub32 end' (ff_read_offset self)
             in if read_len = 0 then Some (FLASH_FIFO_RET_EMPTY, self, buf, 0)
                else
                  let read_len = (if length buf < read_len then length buf else read_len);
                      (ret, bs) = block_read_data fl d self (ff_read_offset self) (take read_len buf);
                      buf' = bs @ drop read_len buf
                  in if ret \<noteq> FLASH_FIFO_RET_OK then Some (FLASH_FIFO_RET_FAILED, self, buf', 0)
                     else Some (FLASH_FIFO_RET_OK,
                       self\<lparr>ff_read_offset := add32 (ff_read_offset self) (length buf)\<rparr>, buf', length buf))"

subsection \<open>Garbage collection\<close>

definition flash_fifo_gc_single ::
  "'d flash \<Rightarrow> 'd \<Rightarrow> flash_fifo \<Rightarrow> (flash_fifo_ret \<times> flash_fifo \<times> 'd) option" where
  "flash_fifo_gc_single fl d self =
     (let (_, h) = read_header fl d self (ff_tail self) fh_zero in
      if fh_magic h \<noteq> FLASH_FIFO_MAGIC_TAIL then Some (FLASH_FIFO_RET_FAILED, self, d)
      else case fl_erase fl d (ff_addr self (ff_tail self)) (ff_block_size self) of
        None \<Rightarrow> None
      | Some (ret, d) \<Rightarrow>
          if ret \<noteq> FLASH_RET_OK then Some (FLASH_FIFO_RET_FAILED, self, d)
          else Some (FLASH_FIFO_RET_OK, self\<lparr>ff_tail := add32 (ff_tail self) 1\<rparr>, d))"

subsection \<open>File operations\<close>

datatype fs_ret = FS_RET_OK | FS_RET_FAILED | FS_RET_NULL

definition FS_MODE_READONLY :: u32 where "FS_MODE_READONLY = push_bit 3 1"
definition FS_MODE_WRITEONLY :: u32 where "FS_MODE_WRITEONLY = push_bit 4 1"
definition FS_FILE_READING :: nat where "FS_FILE_READING = 1"
definition FS_FILE_WRITING :: nat where "FS_FILE_WRITING = 2"

text \<open>Opening gives the handle of the file.\<close>

definition fs_open :: "flash_fifo \<Rightarrow> nat \<Rightarrow> string \<Rightarrow> u32 \<Rightarrow> fs_ret \<times> flash_fifo \<times> nat" where
  "fs_open ff handle path mode =
     (if path = ''fifo'' \<and> mode AND FS_MODE_READONLY \<noteq> 0 then (FS_RET_OK, ff\<lparr>ff_read_offset := 0\<rparr>, FS_FILE_READING)
      else if path = ''fifo'' \<and> mode AND FS_MODE_WRITEONLY \<noteq> 0 then (FS_RET_OK, ff, FS_FILE_WRITING)
      else (FS_RET_FAILED, ff, handle))"

text \<open>The two assertions are joined with \<open>&&\<close>: the handle is never looked at.\<close>

definition fs_close :: "nat \<Rightarrow> fs_ret" where
  "fs_close handle = FS_RET_OK"

definition fs_remove :: "'d flash \<Rightarrow> 'd \<Rightarrow> flash_fifo \<Rightarrow> string \<Rightarrow> (fs_ret \<times> flash_fifo \<times> 'd) option" where
  "fs_remove fl d ff path =
     (if path = ''fifo'' then
        let (_, h) = read_header fl d ff (ff_last ff) fh_zero in
        if fh_magic h \<noteq> FLASH_FIFO_MAGIC_FIFO then Some (FS_RET_FAILED, ff, d)
        else
          let (_, d) = write_header fl d ff (ff_last ff) (h\<lparr>fh_magic := FLASH_FIFO_MAGIC_TAIL\<rparr>);
              ff = ff\<lparr>ff_last := add32 (ff_last ff) 1\<rparr>
          in (case flash_fifo_gc_single fl d ff of
                None \<Rightarrow> None
              | Some (_, ff, d) \<Rightarrow>
                  (case flash_fifo_gc_single fl d ff of
                     None \<Rightarrow> None
                   | Some (_, ff, d) \<Rightarrow> Some (FS_RET_OK, ff, d)))
      else Some (FS_RET_FAILED, ff, d))"

text \<open>The loop of \<open>fs_read\<close> over what is left of the buffer; it gives the last result, the
  contents of that part of the buffer and the number of bytes that are left. No result also
  stands for a loop that does not end.\<close>

partial_function (option) fs_read_loop ::
  "'d flash \<Rightarrow> 'd \<Rightarrow> flash_fifo \<Rightarrow> u8 list \<Rightarrow> (flash_fifo_ret \<times> flash_fifo \<times> u8 list \<times> nat) option" where
  "fs_read_loop fl d ff buf =
     (if buf = [] then Some (FLASH_FIFO_RET_OK, ff, [], 0)
      else Option.bind (flash_fifo_read fl d ff buf) (\<lambda>(ret, ff, buf', r).
        if ret = FLASH_FIFO_RET_OK then
          Option.bind (fs_read_loop fl d ff (drop r buf')) (\<lambda>(ret, ff, rest, left).
            Some (ret, ff, take r buf' @ rest, left))
        else Some (ret, ff, buf', length buf')))"

text \<open>The contents of the buffer, and the length that is reported (nothing when the call fails).\<close>

definition fs_read ::
  "'d flash \<Rightarrow> 'd \<Rightarrow> flash_fifo \<Rightarrow> nat \<Rightarrow> u8 list \<Rightarrow> (fs_ret \<times> flash_fifo \<times> u8 list \<times> nat option) option" where
  "fs_read fl d ff handle buf =
     (if handle \<noteq> FS_FILE_READING then Some (FS_RET_FAILED, ff, buf, None)
      else Option.bind (fs_read_loop fl d ff buf) (\<lambda>(ret, ff, buf', rem).
        if ret = FLASH_FIFO_RET_OK then Some (FS_RET_OK, ff, buf', Some (length buf - rem))
        else Some (FS_RET_FAILED, ff, buf', None)))"

definition fs_write ::
  "'d flash \<Rightarrow> 'd \<Rightarrow> flash_fifo \<Rightarrow> nat \<Rightarrow> u8 list \<Rightarrow> (fs_ret \<times> flash_fifo \<times> 'd \<times> nat option) option" where
  "fs_write fl d ff handle buf =
     (if handle \<noteq> FS_FILE_WRITING then Some (FS_RET_FAILED, ff, d, None)
      else Option.bind (flash_fifo_write fl d ff buf) (\<lambda>(ret, ff, d, written).
        Some (if ret = FLASH_FIFO_RET_OK then FS_RET_OK else FS_RET_FAILED, ff, d, Some written)))"

text \<open>The total and the used size.\<close>

definition fs_info :: "flash_fifo \<Rightarrow> fs_ret \<times> nat \<times> nat" where
  "fs_info ff =
     (let data = sub32 (ff_block_size ff) (ff_page_size ff)
      in (FS_RET_OK, (ff_blocks ff * data) mod 2 ^ 32, (sub32 (ff_head ff) (ff_tail ff) * data) mod 2 ^ 32))"

subsection \<open>Initialisation\<close>

text \<open>\<open>mem\<close> and \<open>lock\<close> tell whether the page buffer and the mutex can be allocated. A block size of zero is
  a division by zero.\<close>

definition flash_fifo_setup :: "'d flash \<Rightarrow> 'd \<Rightarrow> flash_fifo option" where
  "flash_fifo_setup fl d =
     (let (_, flash_size, _) = fl_get_size fl d 0;
          (_, block_size, _) = fl_get_size fl d 1;
          (_, page_size, _) = fl_get_size fl d 3
      in if block_size = 0 then None
         else Some \<lparr>ff_flash_size = flash_size, ff_block_size = block_size, ff_page_size = page_size,
           ff_blocks = flash_size div block_size, ff_tail = 0, ff_last = 0, ff_head = 0, ff_read_offset = 0\<rparr>)"

definition flash_fifo_init ::
  "'d flash \<Rightarrow> 'd \<Rightarrow> bool \<Rightarrow> bool \<Rightarrow> (flash_fifo_ret \<times> flash_fifo \<times> 'd) option" where
  "flash_fifo_init fl d mem lock =
     Option.bind (flash_fifo_setup fl d) (\<lambda>self.
       if \<not> mem \<or> \<not> lock then Some (FLASH_FIFO_RET_FAILED, self, d)
       else
         let (ret, self) = find_fifo fl d self in
         if ret = FLASH_FIFO_RET_FAILED then
           Option.bind (flash_fifo_format fl d self) (\<lambda>d.
             let (ret, self) = find_fifo fl d self in
             if ret \<noteq> FLASH_FIFO_RET_OK then Some (FLASH_FIFO_RET_FAILED, self, d)
             else Some (FLASH_FIFO_RET_OK, self, d))
         else Some (FLASH_FIFO_RET_OK, self, d))"

text \<open>What is freed is the page buffer and the mutex.\<close>

definition flash_fifo_free :: flash_fifo_ret where
  "flash_fifo_free = FLASH_FIFO_RET_OK"

end
