(* ===== verification/Flash_Fifo_Props.thy ===== *)
theory Flash_Fifo_Props
  imports Flash_Fifo
begin

text \<open>
  The flash FIFO on a working device (\<open>nor_flash\<close>). The lemmas describe the effect of every access on the
  headers of the blocks; the invariant \<open>fifo_inv\<close> says which block is in which state; the
  theorems show that the operations keep it and that mounting the device finds the positions again.
\<close>

subsection \<open>Headers in memory\<close>

definition fh_wf :: "flash_fifo_header \<Rightarrow> bool" where
  "fh_wf h \<longleftrightarrow> length (fh_bitmap h) = 32 \<and> length (fh_iv h) = 16 \<and> length (fh_mac h) = 16"

definition fh_and :: "flash_fifo_header \<Rightarrow> flash_fifo_header \<Rightarrow> flash_fifo_header" where
  "fh_and a b = \<lparr>fh_magic = fh_magic a AND fh_magic b, fh_bitmap = map2 (AND) (fh_bitmap a) (fh_bitmap b),
     fh_iv = map2 (AND) (fh_iv a) (fh_iv b), fh_mac = map2 (AND) (fh_mac a) (fh_mac b)\<rparr>"

lemmas fifo_sizes = FLASH_FIFO_BITMAP_SIZE_def FLASH_FIFO_KEY_SIZE_def

lemma fh_wf_zero [simp]: "fh_wf fh_zero"
  by (simp add: fh_wf_def fh_zero_def fifo_sizes)

lemma fh_wf_of_bytes: "length bs = 164 \<Longrightarrow> fh_wf (fh_of_bytes bs)"
  by (simp add: fh_wf_def fh_of_bytes_def fifo_sizes)

lemma length_fh_bytes: "fh_wf h \<Longrightarrow> length (fh_bytes h) = 164"
  by (simp add: fh_wf_def fh_bytes_def)

lemma load32_le_take: "4 \<le> n \<Longrightarrow> load32_le (take n bs) = load32_le bs"
  by (simp add: load32_le_def)

lemma load32_le_append: "4 \<le> length a \<Longrightarrow> load32_le (a @ b) = load32_le a"
  by (auto simp: load32_le_def nth_append)

lemma drop_concat_store32:
  "i < length ws \<Longrightarrow> load32_le (drop (4 * i) (concat (map store32_le ws)) @ r) = ws ! i"
proof (induction ws arbitrary: i)
  case (Cons w ws)
  show ?case
  proof (cases i)
    case 0
    then show ?thesis by (simp add: load32_le_append load_store32_le)
  next
    case (Suc j)
    then show ?thesis using Cons by simp
  qed
qed simp

lemma fh_of_bytes_bytes:
  assumes "fh_wf h"
  shows "fh_of_bytes (fh_bytes h) = h"
proof -
  have "map (\<lambda>i. load32_le (drop (4 + 4 * i) (fh_bytes h))) [0..<32] = fh_bitmap h"
    using assms by (intro nth_equalityI) (auto simp: fh_wf_def fh_bytes_def drop_concat_store32 add.commute
        simp flip: drop_drop)
  then show ?thesis
    using assms by (simp add: fh_of_bytes_def fifo_sizes fh_wf_def)
      (simp add: fh_bytes_def load32_le_append load_store32_le fh_wf_def)
qed

lemma load32_le_and:
  "4 \<le> length a \<Longrightarrow> 4 \<le> length b \<Longrightarrow> load32_le (map2 (AND) a b) = load32_le a AND load32_le b"
proof (rule bit_eqI)
  assume l: "4 \<le> length a" "4 \<le> length b"
  fix n assume n: "possible_bit TYPE(u32) n"
  have nth: "map2 (AND) a b ! i = a ! i AND b ! i" if "i < 4" for i using l that by simp
  consider "n < 8" | "8 \<le> n" "n < 16" | "16 \<le> n" "n < 24" | "24 \<le> n" "n < 32"
    using n by (force simp: possible_bit_word)
  moreover have "bit (x :: u8) k = False" if "8 \<le> k" for x k
    using that bit_imp_le_length [of x k] by auto
  ultimately show "bit (load32_le (map2 (AND) a b)) n = bit (load32_le a AND load32_le b) n"
    by cases (simp_all add: load32_le_def bit_simps nth, auto)
qed

lemma fh_of_bytes_and:
  assumes "length a = 164" "length b = 164"
  shows "fh_of_bytes (map2 (AND) a b) = fh_and (fh_of_bytes a) (fh_of_bytes b)"
proof -
  have "load32_le (drop k (map2 (AND) a b)) = load32_le (drop k a) AND load32_le (drop k b)" if "k \<le> 160" for k
    using assms that load32_le_and [of "drop k a" "drop k b"] by (simp add: drop_zip drop_map)
  then show ?thesis
    using assms load32_le_and [of a b]
    by (simp add: fh_of_bytes_def fh_and_def fifo_sizes list_eq_iff_nth_eq)
qed

lemma fh_and_magic: "fh_wf h \<Longrightarrow> fh_and h (h\<lparr>fh_magic := x\<rparr>) = h\<lparr>fh_magic := fh_magic h AND x\<rparr>"
  by (cases h) (auto simp: fh_and_def list_eq_iff_nth_eq)

lemma fh_and_bitmap:
  "fh_wf h \<Longrightarrow> fh_and h (h\<lparr>fh_bitmap := b\<rparr>) = h\<lparr>fh_bitmap := map2 (AND) (fh_bitmap h) b\<rparr>"
  by (cases h) (auto simp: fh_and_def list_eq_iff_nth_eq)

text \<open>The header at an address, and what writing and erasing do to it.\<close>

definition hdr_at :: "u8 list \<Rightarrow> nat \<Rightarrow> flash_fifo_header" where
  "hdr_at m a = fh_of_bytes (take 164 (drop a m))"

lemma hdr_at_wf: "a + 164 \<le> length m \<Longrightarrow> fh_wf (hdr_at m a)"
  by (simp add: hdr_at_def fh_wf_of_bytes)

lemma hdr_at_write:
  assumes "a + 164 \<le> length m" "fh_wf h"
  shows "hdr_at (nor_write m a (fh_bytes h)) a = fh_and (hdr_at m a) h"
proof -
  have "take 164 (drop a (nor_write m a (fh_bytes h))) = map2 (AND) (take 164 (drop a m)) (fh_bytes h)"
    using assms by (simp add: nor_write_def length_fh_bytes)
  then show ?thesis
    using assms by (simp add: hdr_at_def fh_of_bytes_and length_fh_bytes fh_of_bytes_bytes)
qed

lemma hdr_at_write_other:
  assumes "b + length bs \<le> length m" "a + 164 \<le> length m" "a + 164 \<le> b \<or> b + length bs \<le> a"
  shows "hdr_at (nor_write m b bs) a = hdr_at m a"
proof -
  have "take 164 (drop a (nor_write m b bs)) = take 164 (drop a m)"
    using assms by (intro nth_equalityI) (auto simp: nor_write_nth)
  then show ?thesis by (simp add: hdr_at_def)
qed

lemma hdr_at_erase_other:
  assumes "b + n \<le> length m" "a + 164 \<le> length m" "a + 164 \<le> b \<or> b + n \<le> a"
  shows "hdr_at (nor_erase m b n) a = hdr_at m a"
proof -
  have "take 164 (drop a (nor_erase m b n)) = take 164 (drop a m)"
    using assms by (intro nth_equalityI) (auto simp: nor_erase_nth)
  then show ?thesis by (simp add: hdr_at_def)
qed

definition fh_erased :: flash_fifo_header where
  "fh_erased = \<lparr>fh_magic = - 1, fh_bitmap = replicate 32 (- 1), fh_iv = replicate 16 (- 1), fh_mac = replicate 16 (- 1)\<rparr>"

lemma load32_le_ones: "k \<le> 160 \<Longrightarrow> load32_le (drop k (replicate 164 (- 1))) = - 1"
  by (rule bit_eqI) (auto simp: load32_le_def bit_simps possible_bit_word)

lemma fh_of_bytes_ones: "fh_of_bytes (replicate 164 (- 1)) = fh_erased"
  using load32_le_ones [of 0] load32_le_ones
  by (simp add: fh_of_bytes_def fh_erased_def fifo_sizes list_eq_iff_nth_eq del: drop_replicate)

lemma hdr_at_erase:
  assumes "b + n \<le> length m" "b \<le> a" "a + 164 \<le> b + n"
  shows "hdr_at (nor_erase m b n) a = fh_erased"
proof -
  have "take 164 (drop a (nor_erase m b n)) = replicate 164 (- 1)"
    using assms by (intro nth_equalityI) (auto simp: nor_erase_nth)
  then show ?thesis by (simp add: hdr_at_def fh_of_bytes_ones)
qed

subsection \<open>Accesses to a working device\<close>

text \<open>The geometry: blocks of whole bitmap units and of whole pages, a page holds the header.\<close>

definition ff_geom :: "flash_fifo \<Rightarrow> nat \<Rightarrow> nat \<Rightarrow> nat \<Rightarrow> bool" where
  "ff_geom self blk cap pg \<longleftrightarrow> pg = ff_page_size self \<and> ff_block_size self = blk \<and> ff_flash_size self = cap \<and> ff_blocks self * blk = cap \<and>
     0 < ff_blocks self \<and> 164 \<le> ff_page_size self \<and> ff_page_size self < blk \<and> ff_page_size self dvd blk \<and>
     FLASH_FIFO_BITMAP_SIZE dvd blk"

definition hd_at :: "flash_fifo \<Rightarrow> u8 list \<Rightarrow> nat \<Rightarrow> flash_fifo_header" where
  "hd_at self m p = hdr_at m (ff_addr self p)"

definition mg_at :: "flash_fifo \<Rightarrow> u8 list \<Rightarrow> nat \<Rightarrow> u32" where
  "mg_at self m p = fh_magic (hd_at self m p)"

text \<open>The space for data in a block: all but its first page.\<close>

definition ff_space :: "flash_fifo \<Rightarrow> nat" where
  "ff_space self = ff_block_size self - ff_page_size self"

definition blk_data :: "flash_fifo \<Rightarrow> u8 list \<Rightarrow> nat \<Rightarrow> u8 list" where
  "blk_data self m p = take (ff_space self) (drop (ff_addr self p + ff_page_size self) m)"

definition data_erased :: "flash_fifo \<Rightarrow> u8 list" where
  "data_erased self = replicate (ff_space self) (- 1)"

text \<open>The header and the data belong to the block: only the position modulo the number of blocks counts.\<close>

lemma blk_data_mod: "p mod ff_blocks self = q mod ff_blocks self \<Longrightarrow> blk_data self m p = blk_data self m q"
  by (simp add: blk_data_def ff_addr_def)

text \<open>Parts of the memory that are not written or erased.\<close>

lemma nor_write_part:
  assumes "a + length bs \<le> length m" "s + n \<le> length m" "s + n \<le> a \<or> a + length bs \<le> s"
  shows "take n (drop s (nor_write m a bs)) = take n (drop s m)"
  using assms by (intro nth_equalityI) (auto simp: nor_write_nth)

lemma nor_erase_part:
  assumes "a + len \<le> length m" "s + n \<le> length m" "s + n \<le> a \<or> a + len \<le> s"
  shows "take n (drop s (nor_erase m a len)) = take n (drop s m)"
  using assms by (intro nth_equalityI) (auto simp: nor_erase_nth)

lemma nor_write_inside:
  assumes "s + n \<le> length m" "off + length bs \<le> n"
  shows "take n (drop s (nor_write m (s + off) bs)) = nor_write (take n (drop s m)) off bs"
  using assms by (intro nth_equalityI) (auto simp: nor_write_nth)

lemma nor_erase_inside:
  assumes "a + len \<le> length m" "a \<le> s" "s + n \<le> a + len"
  shows "take n (drop s (nor_erase m a len)) = replicate n (- 1)"
  using assms by (intro nth_equalityI) (auto simp: nor_erase_nth)

lemma hd_at_mod: "p mod ff_blocks self = q mod ff_blocks self \<Longrightarrow> hd_at self m p = hd_at self m q"
  by (simp add: hd_at_def ff_addr_def)

context nor_flash begin

lemma addr_eq:
  assumes "ff_geom self blk cap pg"
  shows "ff_addr self p = (p mod ff_blocks self) * blk" "ff_addr self p + blk \<le> cap" "ff_addr self p < cap"
    "ff_addr self p mod blk = 0"
proof -
  let ?i = "p mod ff_blocks self"
  have "?i + 1 \<le> ff_blocks self" using assms mod_less_divisor [of "ff_blocks self" p] by (simp add: ff_geom_def del: mod_less_divisor)
  then have "(?i + 1) * blk \<le> ff_blocks self * blk" by (rule mult_le_mono1)
  then have le: "?i * blk + blk \<le> cap" using assms by (simp add: ff_geom_def)
  then show eq: "ff_addr self p = ?i * blk"
    using assms total_bound by (simp add: ff_addr_def ff_geom_def)
  show "ff_addr self p + blk \<le> cap" "ff_addr self p < cap" "ff_addr self p mod blk = 0"
    using le blk_pos by (simp_all add: eq)
qed

lemma addr_page:
  assumes "ff_geom self blk cap pg"
  shows "ff_addr self p mod pg = 0"
proof -
  have "pg dvd blk" "blk dvd ff_addr self p" using pg_blk addr_eq(4) [OF assms, of p] by auto
  then have "pg dvd ff_addr self p" by (rule dvd_trans)
  then show ?thesis by simp
qed

lemma header_fits: "ff_geom self blk cap pg \<Longrightarrow> ff_addr self p + 164 \<le> cap"
  using addr_eq(2) [of self p] by (simp add: ff_geom_def)

lemma addr_other:
  assumes "ff_geom self blk cap pg" "p mod ff_blocks self \<noteq> q mod ff_blocks self"
  shows "ff_addr self q + blk \<le> ff_addr self p \<or> ff_addr self p + blk \<le> ff_addr self q"
proof -
  have "i * blk + blk \<le> j * blk" if "i < j" for i j
  proof -
    have "(i + 1) * blk \<le> j * blk" using that by (intro mult_le_mono1) simp
    then show ?thesis by simp
  qed
  then show ?thesis using assms(2) addr_eq(1) [OF assms(1)] by (metis nat_neq_iff)
qed

lemma data_blk: "ff_geom self blk cap pg \<Longrightarrow> ff_page_size self + ff_space self = blk"
  by (simp add: ff_geom_def ff_space_def)

lemma data_range: "ff_geom self blk cap pg \<Longrightarrow> ff_addr self q + ff_page_size self + ff_space self \<le> cap"
  using addr_eq(2) [of self q] data_blk [of self] by simp

lemma data_header:
  assumes "ff_geom self blk cap pg"
  shows "ff_addr self q + ff_page_size self + ff_space self \<le> ff_addr self p \<or>
    ff_addr self p + 164 \<le> ff_addr self q + ff_page_size self"
proof (cases "p mod ff_blocks self = q mod ff_blocks self")
  case True
  then show ?thesis using assms by (simp add: ff_addr_def ff_geom_def)
next
  case False
  have "164 \<le> blk" using assms by (simp add: ff_geom_def)
  with addr_other [OF assms False] data_blk [OF assms] show ?thesis by linarith
qed

lemma fh_bytes_ne: "fh_wf h \<Longrightarrow> fh_bytes h \<noteq> []"
  using length_fh_bytes [of h] by auto

lemma header_ok: "ok d \<Longrightarrow> ff_geom self blk cap pg \<Longrightarrow> fh_wf (hd_at self (mem d) p)"
  using header_fits [of self p] by (simp add: hd_at_def hdr_at_wf length_mem)

lemma read_header_ok:
  assumes "ok d" "ff_geom self blk cap pg" "fh_wf h"
  shows "read_header fl d self p h = (FLASH_FIFO_RET_OK, hd_at self (mem d) p)"
  using read_ok [OF assms(1) addr_eq(3) [OF assms(2)], of p "fh_bytes h"] header_fits [OF assms(2), of p]
    length_fh_bytes [OF assms(3)] fh_bytes_ne [OF assms(3)]
  by (simp add: read_header_def hd_at_def hdr_at_def)

lemma write_header_ok:
  assumes "ok d" "ff_geom self blk cap pg" "fh_wf h"
  shows "\<exists>d'. write_header fl d self p h = (FLASH_FIFO_RET_OK, d') \<and> ok d' \<and>
    (\<forall>q. hd_at self (mem d') q = (if q mod ff_blocks self = p mod ff_blocks self
      then fh_and (hd_at self (mem d) p) h else hd_at self (mem d) q)) \<and>
    (\<forall>q. blk_data self (mem d') q = blk_data self (mem d) q)"
proof -
  note len = length_fh_bytes [OF assms(3)] length_mem [OF assms(1)]
  obtain d' where d': "fl_write fl d (ff_addr self p) (fh_bytes h) = (FLASH_RET_OK, d')" "ok d'"
    "mem d' = nor_write (mem d) (ff_addr self p) (fh_bytes h)"
    using write_ok [OF assms(1) addr_eq(3) [OF assms(2)], of p "fh_bytes h"] header_fits [OF assms(2), of p] len
      addr_page [OF assms(2), of p] assms(2) fh_bytes_ne [OF assms(3)] by (auto simp: ff_geom_def)
  have "hd_at self (mem d') q = (if q mod ff_blocks self = p mod ff_blocks self
      then fh_and (hd_at self (mem d) p) h else hd_at self (mem d) q)" for q
  proof (cases "q mod ff_blocks self = p mod ff_blocks self")
    case True
    then show ?thesis
      using hdr_at_write [of "ff_addr self p" "mem d" h] assms(3) header_fits [OF assms(2), of p] len
      by (simp add: hd_at_mod [OF True] d'(3)) (simp add: hd_at_def)
  next
    case False
    have "164 \<le> blk" using assms(2) by (simp add: ff_geom_def)
    with addr_other [OF assms(2) False] show ?thesis
      using False header_fits [OF assms(2)] len
      by (auto simp: hd_at_def d'(3) intro!: hdr_at_write_other)
  qed
  moreover have "blk_data self (mem d') q = blk_data self (mem d) q" for q
    unfolding blk_data_def d'(3)
    by (rule nor_write_part) (use data_range [OF assms(2), of q] data_header [OF assms(2), of q p]
      header_fits [OF assms(2), of p] len in simp_all)
  ultimately show ?thesis using d' by (auto simp: write_header_def)
qed

lemma erase_block_ok:
  assumes "ok d" "ff_geom self blk cap pg"
  shows "\<exists>d'. fl_erase fl d (ff_addr self p) (ff_block_size self) = Some (FLASH_RET_OK, d') \<and> ok d' \<and>
    (\<forall>q. hd_at self (mem d') q = (if q mod ff_blocks self = p mod ff_blocks self
      then fh_erased else hd_at self (mem d) q)) \<and>
    (\<forall>q. blk_data self (mem d') q = (if q mod ff_blocks self = p mod ff_blocks self
      then data_erased self else blk_data self (mem d) q))"
proof -
  note len = length_mem [OF assms(1)]
  have b: "ff_block_size self = blk" "164 \<le> blk" using assms(2) by (simp_all add: ff_geom_def)
  obtain d' where d': "fl_erase fl d (ff_addr self p) blk = Some (FLASH_RET_OK, d')" "ok d'"
    "mem d' = nor_erase (mem d) (ff_addr self p) blk"
    using erase_ok [OF assms(1) addr_eq(3,4) [OF assms(2)], of p] by auto
  have "hd_at self (mem d') q = (if q mod ff_blocks self = p mod ff_blocks self
      then fh_erased else hd_at self (mem d) q)" for q
  proof (cases "q mod ff_blocks self = p mod ff_blocks self")
    case True
    then show ?thesis
      using hdr_at_erase [of "ff_addr self p" blk "mem d" "ff_addr self p"] addr_eq(2) [OF assms(2), of p] len b
      by (simp add: hd_at_mod [OF True] d'(3)) (simp add: hd_at_def)
  next
    case False
    with addr_other [OF assms(2) False] show ?thesis
      using header_fits [OF assms(2)] addr_eq(2) [OF assms(2)] len b
      by (auto simp: hd_at_def d'(3) intro!: hdr_at_erase_other)
  qed
  moreover have "blk_data self (mem d') q = (if q mod ff_blocks self = p mod ff_blocks self
      then data_erased self else blk_data self (mem d) q)" for q
  proof (cases "q mod ff_blocks self = p mod ff_blocks self")
    case True
    show ?thesis unfolding blk_data_mod [OF True]
      using True data_blk [OF assms(2)] addr_eq(2) [OF assms(2), of p] len
      unfolding blk_data_def data_erased_def d'(3) by (simp add: nor_erase_inside)
  next
    case False
    with addr_other [OF assms(2) False] data_range [OF assms(2), of q] data_blk [OF assms(2)] show ?thesis
      using addr_eq(2) [OF assms(2), of p] len unfolding blk_data_def d'(3)
      by (auto intro!: nor_erase_part)
  qed
  ultimately show ?thesis using d' b by auto
qed

text \<open>Data behind the first page of a block leaves all headers alone.\<close>

lemma data_write_ok:
  assumes "ok d" "ff_geom self blk cap pg" "ff_page_size self + off + length bs \<le> blk" "bs \<noteq> []"
    "off mod pg + length bs \<le> pg"
  shows "\<exists>d'. block_write_data fl d self off bs = (FLASH_FIFO_RET_OK, d') \<and> ok d' \<and>
    mem d' = nor_write (mem d) (ff_addr self (ff_head self) + ff_page_size self + off) bs \<and>
    (\<forall>q. hd_at self (mem d') q = hd_at self (mem d) q) \<and>
    (\<forall>q. blk_data self (mem d') q = (if q mod ff_blocks self = ff_head self mod ff_blocks self
      then nor_write (blk_data self (mem d) q) off bs else blk_data self (mem d) q))"
proof -
  have "0 < length bs" using assms(4) by simp
  then have inside: "ff_page_size self + off < blk" using assms(3) by linarith
  note len = length_mem [OF assms(1)]
  let ?a = "ff_addr self (ff_head self) + ff_page_size self + off"
  have le: "?a < cap" "?a + length bs \<le> cap"
    using addr_eq(2) [OF assms(2), of "ff_head self"] assms(3) inside by simp_all
  then have a: "add32 (add32 (ff_addr self (ff_head self)) (ff_page_size self)) off = ?a"
    using total_bound by (simp add: add32_small)
  have "pg = ff_page_size self" using assms(2) by (simp add: ff_geom_def)
  then have page: "?a mod pg = off mod pg"
    using addr_page [OF assms(2), of "ff_head self"] by (metis add.assoc add_0 mod_add_self1 mod_add_left_eq)
  obtain d' where d': "fl_write fl d ?a bs = (FLASH_RET_OK, d')" "ok d'" "mem d' = nor_write (mem d) ?a bs"
    using write_ok [OF assms(1) le assms(4)] assms(5) page by metis
  have "hd_at self (mem d') q = hd_at self (mem d) q" for q
  proof -
    have p: "164 \<le> ff_page_size self" using assms(2) by (simp add: ff_geom_def)
    have "ff_addr self q + 164 \<le> ?a \<or> ?a + length bs \<le> ff_addr self q"
    proof (cases "q mod ff_blocks self = ff_head self mod ff_blocks self")
      case True
      then show ?thesis using p by (simp add: ff_addr_def)
    next
      case False
      from addr_other [OF assms(2) False] p assms(3) show ?thesis by linarith
    qed
    then show ?thesis
      using header_fits [OF assms(2), of q] le len by (auto simp: hd_at_def d'(3) intro!: hdr_at_write_other)
  qed
  moreover have "blk_data self (mem d') q = (if q mod ff_blocks self = ff_head self mod ff_blocks self
      then nor_write (blk_data self (mem d) q) off bs else blk_data self (mem d) q)" for q
  proof (cases "q mod ff_blocks self = ff_head self mod ff_blocks self")
    case True
    have "off + length bs \<le> ff_space self" using assms(2,3) by (simp add: ff_space_def ff_geom_def)
    then show ?thesis unfolding blk_data_mod [OF True] using True data_range [OF assms(2), of "ff_head self"] len
      by (simp add: blk_data_def d'(3) nor_write_inside)
  next
    case False
    with addr_other [OF assms(2) False] data_range [OF assms(2), of q] data_blk [OF assms(2)] show ?thesis
      using le len assms(3) unfolding blk_data_def d'(3) by (auto intro!: nor_write_part)
  qed
  ultimately show ?thesis using d' a by (auto simp: block_write_data_def)
qed

end

end
