(* ===== verification/Flash_Fifo_Bitmap.thy ===== *)
theory Flash_Fifo_Bitmap
  imports Flash_Fifo
begin

text \<open>
  The bitmap of a block: bits are cleared from the most significant one of the first word on, one for
  each unit of space. \<open>bm_words n k\<close> are \<open>n\<close> words whose first \<open>k\<close> bits are cleared.
\<close>

definition bm_word :: "nat \<Rightarrow> u32" where
  "bm_word k = drop_bit k (- 1)"

definition bm_words :: "nat \<Rightarrow> nat \<Rightarrow> u32 list" where
  "bm_words n k = map (\<lambda>i. bm_word (min 32 (k - 32 * i))) [0..<n]"

lemma length_bm_words [simp]: "length (bm_words n k) = n"
  by (simp add: bm_words_def)

lemma bm_words_0: "bm_words n 0 = replicate n (- 1)"
  by (simp add: bm_words_def bm_word_def map_replicate_const)

lemma bit_bm_word: "bit (bm_word k) i \<longleftrightarrow> i + k < 32"
  by (auto simp: bm_word_def bit_simps)

lemma drop_32: "bm_word 32 = 0"
  by (rule bit_eqI) (simp add: bit_bm_word)

lemma bm_words_Suc: "bm_words (Suc n) k = bm_word (min 32 k) # bm_words n (k - 32)"
  by (simp add: bm_words_def map_upt_Suc del: upt_Suc)

lemma nth_bm_words: "i < n \<Longrightarrow> bm_words n k ! i = bm_word (min 32 (k - 32 * i))"
  by (simp add: bm_words_def)

lemma bm_words_and: "map2 (AND) (bm_words n j) (bm_words n k) = bm_words n (max j k)"
proof (rule nth_equalityI)
  fix i assume "i < length (map2 (AND) (bm_words n j) (bm_words n k))"
  then have i: "i < n" by simp
  have bits: "bm_word a AND bm_word b = bm_word b" if "a \<le> b" for a b
  proof (rule bit_eqI)
    fix i
    have "i + b < 32 \<Longrightarrow> i + a < 32" using that by (rule le_less_trans [OF add_left_mono])
    then show "bit (bm_word a AND bm_word b) i = bit (bm_word b) i"
      unfolding bit_and_iff bit_bm_word by blast
  qed
  have "bm_word a AND bm_word b = bm_word (max a b)" for a b
  proof (cases "a \<le> b")
    case True
    then show ?thesis by (simp only: bits max_absorb2)
  next
    case False
    then have "b \<le> a" by simp
    then show ?thesis using bits [of b a] by (simp only: and.commute max_absorb1)
  qed
  then have words: "bm_word a AND bm_word b = bm_word (max a b)" for a b .
  have caps: "max (min 32 (j - 32 * i)) (min 32 (k - 32 * i)) = min 32 (max j k - 32 * i)"
  proof (cases "j \<le> k")
    case True
    then have "min 32 (j - 32 * i) \<le> min 32 (k - 32 * i)" by (intro min.mono diff_le_mono order.refl)
    with True show ?thesis by (simp only: max_absorb2)
  next
    case False
    then have kj: "k \<le> j" by simp
    then have "min 32 (k - 32 * i) \<le> min 32 (j - 32 * i)" by (intro min.mono diff_le_mono order.refl)
    with kj show ?thesis by (simp only: max_absorb1)
  qed
  have "map2 (AND) (bm_words n j) (bm_words n k) ! i = bm_words n j ! i AND bm_words n k ! i"
    using i by simp
  then show "map2 (AND) (bm_words n j) (bm_words n k) ! i = bm_words n (max j k) ! i"
    by (simp only: nth_bm_words [OF i] words caps)
qed (simp only: length_map length_zip length_bm_words min.idem)

lemma clz_drop: "k < 32 \<Longrightarrow> clz32 (bm_word k) = k"
proof -
  assume k: "k < 32"
  have split: "[0..<32] = [0..<k] @ [k..<32]" using k upt_add_eq_append [of 0 k "32 - k"] by simp
  have "takeWhile (\<lambda>i. \<not> bit (bm_word k) (31 - i)) ([0..<k] @ [k..<32]) =
      [0..<k] @ takeWhile (\<lambda>i. \<not> bit (bm_word k) (31 - i)) [k..<32]"
    using k by (intro takeWhile_append2) (auto simp: bit_bm_word)
  also have "takeWhile (\<lambda>i. \<not> bit (bm_word k) (31 - i)) [k..<32] = []"
    using k by (simp add: takeWhile_eq_Nil_iff upt_conv_Cons bit_bm_word)
  finally show ?thesis by (simp add: clz32_def split)
qed

lemma drop_nonzero: "k < 32 \<Longrightarrow> bm_word k \<noteq> 0"
  using bit_bm_word [of k 0] by auto

lemma bitmap_zeros_words: "k \<le> 32 * n \<Longrightarrow> bitmap_zeros (bm_words n k) = k"
proof (induction n arbitrary: k)
  case 0
  then show ?case by (simp add: bm_words_def)
next
  case (Suc n)
  show ?case
  proof (cases "k < 32")
    case True
    then show ?thesis by (simp add: bm_words_Suc drop_nonzero clz_drop min_def)
  next
    case False
    with Suc show ?thesis by (simp add: bm_words_Suc min_def drop_32)
  qed
qed

text \<open>Encoding: the shift is only undefined when the offset is a multiple of the 32 units of a word.\<close>

lemma offset_to_words_eq:
  assumes "0 < g"
  shows "offset_to_words g n off = Some b \<Longrightarrow> b = bm_words n (off div g)"
proof (induction n arbitrary: off b)
  case 0
  then show ?case by (simp add: bm_words_def)
next
  case (Suc n)
  show ?case
  proof (cases "off > g * 32")
    case True
    then obtain b' where b': "offset_to_words g n (off - g * 32) = Some b'" "b = 0 # b'" using Suc.prems by auto
    obtain r where r: "off = g * 32 + r" using True less_imp_add_positive by blast
    then have "(off - g * 32) div g = off div g - 32" using assms by simp
    moreover have "32 \<le> off div g" using r assms by simp
    ultimately show ?thesis using Suc.IH [OF b'(1)] b'(2) by (simp add: bm_words_Suc drop_32 min_def)
  next
    case False
    then have "off div g < 32" "b = bm_word (off div g) # replicate n (- 1)"
      using Suc.prems by (auto simp: Let_def bm_word_def split: if_splits)
    then show ?thesis by (simp add: bm_words_Suc bm_words_0 min_def)
  qed
qed

lemma offset_to_words_Some:
  assumes "0 < g" "off mod g \<noteq> 0"
  shows "\<exists>b. offset_to_words g n off = Some b"
  using assms(2)
proof (induction n arbitrary: off)
  case (Suc n)
  show ?case
  proof (cases "off > g * 32")
    case True
    obtain r where r: "off = g * 32 + r" using True less_imp_add_positive by blast
    then have "(off - g * 32) mod g \<noteq> 0" using Suc.prems by simp
    from Suc.IH [OF this] True show ?thesis by auto
  next
    case False
    then have "off \<noteq> g * 32" using Suc.prems by auto
    with False have "off < g * 32" by simp
    then have "off div g < 32" using assms(1) by (simp add: div_less_iff_less_mult mult.commute)
    with False assms(1) show ?thesis by (simp add: Let_def)
  qed
qed simp

text \<open>Offset and bitmap: the units of the first \<open>len\<close> bytes are marked, and read back rounded up to units.\<close>

lemma bitmap_roundtrip:
  assumes "0 < g" "len \<le> 1024 * g" "offset_to_words g 32 (len - 1 + g) = Some b" "0 < len"
  shows "g * bitmap_zeros b = (len + g - 1) div g * g" "b = bm_words 32 ((len + g - 1) div g)"
proof -
  have e: "len - 1 + g = len + g - 1" using assms(4) by simp
  show b: "b = bm_words 32 ((len + g - 1) div g)" using offset_to_words_eq [OF assms(1,3)] unfolding e .
  have "len + g - 1 < 1025 * g" using assms(1,2) by simp
  then have "(len + g - 1) div g < 1025" using assms(1) by (simp add: div_less_iff_less_mult)
  then show "g * bitmap_zeros b = (len + g - 1) div g * g" by (simp add: b bitmap_zeros_words mult.commute)
qed

text \<open>Writing 125 bytes to a new block of 4096 bytes needs a shift by 32.\<close>

lemma bitmap_shift_undefined: "offset_to_words 4 32 (125 - 1 + 4) = None"
  using offset_to_words.simps(2) [of 4 31 128] by (simp add: Let_def)

end
