(* ===== verification/Flash_Fifo_Inv.thy ===== *)
theory Flash_Fifo_Inv
  imports Flash_Fifo_Props Flash_Fifo_Bitmap
begin

text \<open>
  The invariant of the flash FIFO. From \<open>tail\<close> to \<open>last\<close> the blocks are tail blocks, from \<open>last\<close> to
  \<open>head\<close> they are full blocks, the head is in use or full, and all the others, of which there is at
  least one, are erased. The lemmas show that formatting, writing, removing and garbage collection keep it.
\<close>

subsection \<open>The invariant\<close>

definition ff_unit :: "flash_fifo \<Rightarrow> nat" where
  "ff_unit self = ff_block_size self div FLASH_FIFO_BITMAP_SIZE"

definition fifo_inv :: "flash_fifo \<Rightarrow> u8 list \<Rightarrow> bool" where
  "fifo_inv self m \<longleftrightarrow>
     ff_tail self \<le> ff_last self \<and> ff_last self \<le> ff_head self + 1 \<and>
     ff_head self + 1 < ff_tail self + ff_blocks self \<and>
     (\<forall>i. ff_tail self \<le> i \<and> i < ff_last self \<longrightarrow> mg_at self m i = FLASH_FIFO_MAGIC_TAIL) \<and>
     (\<forall>i. ff_last self \<le> i \<and> i < ff_head self \<longrightarrow> mg_at self m i = FLASH_FIFO_MAGIC_FIFO) \<and>
     (ff_last self \<le> ff_head self \<longrightarrow>
        mg_at self m (ff_head self) = FLASH_FIFO_MAGIC_FIFO \<or> mg_at self m (ff_head self) = FLASH_FIFO_MAGIC_HEAD) \<and>
     (\<forall>i. ff_head self < i \<and> i < ff_tail self + ff_blocks self \<longrightarrow> hd_at self m i = fh_erased) \<and>
     (\<forall>i. ff_head self < i \<and> i < ff_tail self + ff_blocks self \<longrightarrow> blk_data self m i = data_erased self) \<and>
     (mg_at self m (ff_head self) = FLASH_FIFO_MAGIC_HEAD \<longrightarrow>
        (\<exists>k. k * ff_unit self \<le> ff_space self \<and> fh_bitmap (hd_at self m (ff_head self)) = bm_words 32 k \<and>
          drop (k * ff_unit self) (blk_data self m (ff_head self)) = drop (k * ff_unit self) (data_erased self)))"

lemma mg_erased [simp]: "fh_magic fh_erased = FLASH_FIFO_MAGIC_ERASED"
  by (simp add: fh_erased_def fifo_magic_defs)

lemma fh_wf_erased: "fh_wf fh_erased"
  by (simp add: fh_wf_def fh_erased_def)

lemma bm_erased: "fh_bitmap fh_erased = bm_words 32 0"
  by (simp add: fh_erased_def bm_words_0)

lemma magic_distinct [simp]:
  "FLASH_FIFO_MAGIC_HEAD \<noteq> FLASH_FIFO_MAGIC_ERASED" "FLASH_FIFO_MAGIC_FIFO \<noteq> FLASH_FIFO_MAGIC_ERASED"
  "FLASH_FIFO_MAGIC_TAIL \<noteq> FLASH_FIFO_MAGIC_ERASED" "FLASH_FIFO_MAGIC_FIFO \<noteq> FLASH_FIFO_MAGIC_HEAD"
  "FLASH_FIFO_MAGIC_TAIL \<noteq> FLASH_FIFO_MAGIC_HEAD" "FLASH_FIFO_MAGIC_TAIL \<noteq> FLASH_FIFO_MAGIC_FIFO"
  by (simp_all add: fifo_magic_defs)

lemmas magic_distinct_sym [simp] = magic_distinct [symmetric]

text \<open>Each state is reached by clearing bits of the one before.\<close>

lemma magic_and:
  "FLASH_FIFO_MAGIC_ERASED AND FLASH_FIFO_MAGIC_HEAD = FLASH_FIFO_MAGIC_HEAD"
  "FLASH_FIFO_MAGIC_HEAD AND FLASH_FIFO_MAGIC_FIFO = FLASH_FIFO_MAGIC_FIFO"
  "FLASH_FIFO_MAGIC_FIFO AND FLASH_FIFO_MAGIC_TAIL = FLASH_FIFO_MAGIC_TAIL"
  by (simp_all add: fifo_magic_defs)

lemma ff_geom_units:
  assumes "ff_geom self blk cap pg" "0 < blk"
  shows "0 < ff_unit self" "blk = FLASH_FIFO_BITMAP_SIZE * ff_unit self" "ff_space self < blk"
    "ff_space self mod ff_page_size self = 0" "0 < ff_space self" "ff_page_size self \<le> ff_space self"
proof -
  have g: "ff_block_size self = blk" "FLASH_FIFO_BITMAP_SIZE dvd blk" "ff_page_size self dvd blk"
    "ff_page_size self < blk" "0 < ff_page_size self"
    using assms(1) by (simp_all add: ff_geom_def)
  then show blk: "blk = FLASH_FIFO_BITMAP_SIZE * ff_unit self" by (simp add: ff_unit_def)
  with assms(2) show "0 < ff_unit self" by (metis gr0I mult_0_right less_irrefl)
  show "ff_space self < blk" "0 < ff_space self" using g by (simp_all add: ff_space_def)
  have "ff_page_size self dvd ff_space self" using g by (simp add: ff_space_def dvd_diff_nat)
  then show "ff_space self mod ff_page_size self = 0" "ff_page_size self \<le> ff_space self"
    using \<open>0 < ff_space self\<close> by (simp_all add: dvd_imp_le)
qed

text \<open>Two positions of the window are the same block only if they are equal.\<close>

lemma window_mod:
  assumes "(i :: nat) mod n = j mod n" "t \<le> i" "i < t + n" "t \<le> j" "j < t + n"
  shows "i = j"
proof -
  have "a = b" if "a \<le> b" "b mod n = a mod n" "t \<le> a" "b < t + n" for a b :: nat
  proof -
    have "n dvd b - a" using that mod_eq_dvd_iff_nat [of a b n] by simp
    moreover have "b - a < n" using that by simp
    ultimately have "b - a = 0" by (metis dvd_imp_le not_gr_zero not_le)
    then show ?thesis using that(1) by simp
  qed
  from this [of i j] this [of j i] assms show ?thesis by (cases "i \<le> j") simp_all
qed

context nor_flash begin

lemma prepare_head_full:
  assumes "ok d" "ff_geom self blk cap pg" "p + 1 < 2 ^ 32"
    and "mg_at self (mem d) (p + 1) \<noteq> FLASH_FIFO_MAGIC_ERASED \<or> mg_at self (mem d) p \<noteq> FLASH_FIFO_MAGIC_ERASED"
  shows "prepare_head fl d self p = (FLASH_FIFO_RET_FULL, d)"
  using assms(4) read_header_ok [OF assms(1,2)] header_ok [OF assms(1,2)] add32_small [of p 1] assms(3)
  by (auto simp: prepare_head_def mg_at_def)

text \<open>A new head has an empty bitmap.\<close>

lemma prepare_head_ok:
  assumes "ok d" "ff_geom self blk cap pg" "p + 1 < 2 ^ 32"
    and "hd_at self (mem d) (p + 1) = fh_erased" "hd_at self (mem d) p = fh_erased"
  shows "\<exists>d'. prepare_head fl d self p = (FLASH_FIFO_RET_OK, d') \<and> ok d' \<and>
    (\<forall>q. q mod ff_blocks self \<noteq> p mod ff_blocks self \<longrightarrow> hd_at self (mem d') q = hd_at self (mem d) q) \<and>
    mg_at self (mem d') p = FLASH_FIFO_MAGIC_HEAD \<and> fh_bitmap (hd_at self (mem d') p) = bm_words 32 0 \<and>
    (\<forall>q. blk_data self (mem d') q = blk_data self (mem d) q)"
proof -
  let ?h = "fh_erased\<lparr>fh_magic := FLASH_FIFO_MAGIC_HEAD, fh_iv := replicate FLASH_FIFO_KEY_SIZE 0x55\<rparr>"
  have "fh_wf ?h" by (simp add: fh_wf_def fh_erased_def fifo_sizes)
  from write_header_ok [OF assms(1,2) this, of p] obtain d' where
    d': "write_header fl d self p ?h = (FLASH_FIFO_RET_OK, d')" "ok d'"
    "\<And>q. hd_at self (mem d') q = (if q mod ff_blocks self = p mod ff_blocks self
      then fh_and (hd_at self (mem d) p) ?h else hd_at self (mem d) q)"
    "\<And>q. blk_data self (mem d') q = blk_data self (mem d) q" by blast
  have "fh_and fh_erased ?h = ?h\<lparr>fh_bitmap := bm_words 32 0\<rparr>"
    by (simp add: fh_and_def fh_erased_def fifo_sizes bm_words_0 list_eq_iff_nth_eq)
  then have hd: "hd_at self (mem d') p = ?h\<lparr>fh_bitmap := bm_words 32 0\<rparr>" by (simp add: d'(3) assms(5))
  have "prepare_head fl d self p = (FLASH_FIFO_RET_OK, d')"
    using add32_small [of p 1] assms(3-5) d'(1)
    by (simp add: prepare_head_def read_header_ok [OF assms(1,2) fh_wf_zero] read_header_ok [OF assms(1,2) fh_wf_erased])
  with d'(2-4) hd show ?thesis by (auto simp: mg_at_def)
qed

lemma close_head_ok:
  assumes "ok d" "ff_geom self blk cap pg"
  shows "\<exists>ret d'. close_head fl d self p = (ret, d') \<and> ok d' \<and>
    (if mg_at self (mem d) p = FLASH_FIFO_MAGIC_HEAD
     then ret = FLASH_FIFO_RET_OK \<and> (\<forall>q. hd_at self (mem d') q = (if q mod ff_blocks self = p mod ff_blocks self
       then (hd_at self (mem d) p)\<lparr>fh_magic := FLASH_FIFO_MAGIC_FIFO\<rparr> else hd_at self (mem d) q)) \<and>
       (\<forall>q. blk_data self (mem d') q = blk_data self (mem d) q)
     else ret = FLASH_FIFO_RET_FAILED \<and> d' = d)"
proof (cases "mg_at self (mem d) p = FLASH_FIFO_MAGIC_HEAD")
  case True
  let ?h = "hd_at self (mem d) p"
  have wf: "fh_wf ?h" by (rule header_ok [OF assms])
  then have "fh_wf (?h\<lparr>fh_magic := FLASH_FIFO_MAGIC_FIFO\<rparr>)" by (simp add: fh_wf_def)
  from write_header_ok [OF assms this, of p] obtain d' where
    d': "write_header fl d self p (?h\<lparr>fh_magic := FLASH_FIFO_MAGIC_FIFO\<rparr>) = (FLASH_FIFO_RET_OK, d')" "ok d'"
    "\<And>q. hd_at self (mem d') q = (if q mod ff_blocks self = p mod ff_blocks self
      then fh_and ?h (?h\<lparr>fh_magic := FLASH_FIFO_MAGIC_FIFO\<rparr>) else hd_at self (mem d) q)"
    "\<And>q. blk_data self (mem d') q = blk_data self (mem d) q" by blast
  have "fh_and ?h (?h\<lparr>fh_magic := FLASH_FIFO_MAGIC_FIFO\<rparr>) = ?h\<lparr>fh_magic := FLASH_FIFO_MAGIC_FIFO\<rparr>"
    using fh_and_magic [OF wf] True by (simp add: mg_at_def magic_and)
  with d' True show ?thesis
    by (simp add: close_head_def read_header_ok [OF assms fh_wf_zero] mg_at_def)
next
  case False
  then show ?thesis using assms by (simp add: close_head_def read_header_ok [OF assms fh_wf_zero] mg_at_def)
qed

lemma gc_single_ok:
  assumes "ok d" "ff_geom self blk cap pg" "ff_tail self + 1 < 2 ^ 32"
  shows "\<exists>ret self' d'. flash_fifo_gc_single fl d self = Some (ret, self', d') \<and> ok d' \<and>
    (if mg_at self (mem d) (ff_tail self) = FLASH_FIFO_MAGIC_TAIL
     then ret = FLASH_FIFO_RET_OK \<and> self' = self\<lparr>ff_tail := ff_tail self + 1\<rparr> \<and>
       (\<forall>q. hd_at self (mem d') q = (if q mod ff_blocks self = ff_tail self mod ff_blocks self
         then fh_erased else hd_at self (mem d) q)) \<and>
       (\<forall>q. blk_data self (mem d') q = (if q mod ff_blocks self = ff_tail self mod ff_blocks self
         then data_erased self else blk_data self (mem d) q))
     else ret = FLASH_FIFO_RET_FAILED \<and> self' = self \<and> d' = d)"
  using erase_block_ok [OF assms(1,2), of "ff_tail self"] add32_small [of "ff_tail self" 1] assms(1,3)
  by (auto simp: flash_fifo_gc_single_def read_header_ok [OF assms(1,2) fh_wf_zero] mg_at_def)

end

subsection \<open>Keeping the invariant\<close>

lemma hd_at_positions [simp]:
  "hd_at (self\<lparr>ff_head := h\<rparr>) = hd_at self" "hd_at (self\<lparr>ff_last := l\<rparr>) = hd_at self"
  "hd_at (self\<lparr>ff_tail := t\<rparr>) = hd_at self" "hd_at (self\<lparr>ff_read_offset := r\<rparr>) = hd_at self"
  "mg_at (self\<lparr>ff_head := h\<rparr>) = mg_at self" "mg_at (self\<lparr>ff_last := l\<rparr>) = mg_at self"
  "mg_at (self\<lparr>ff_tail := t\<rparr>) = mg_at self" "mg_at (self\<lparr>ff_read_offset := r\<rparr>) = mg_at self"
  by (simp_all add: hd_at_def mg_at_def ff_addr_def fun_eq_iff)

lemma blk_data_positions [simp]:
  "blk_data (self\<lparr>ff_head := h\<rparr>) = blk_data self" "blk_data (self\<lparr>ff_last := l\<rparr>) = blk_data self"
  "blk_data (self\<lparr>ff_tail := t\<rparr>) = blk_data self" "blk_data (self\<lparr>ff_read_offset := r\<rparr>) = blk_data self"
  "data_erased (self\<lparr>ff_head := h\<rparr>) = data_erased self" "data_erased (self\<lparr>ff_last := l\<rparr>) = data_erased self"
  "data_erased (self\<lparr>ff_tail := t\<rparr>) = data_erased self" "data_erased (self\<lparr>ff_read_offset := r\<rparr>) = data_erased self"
  by (simp_all add: blk_data_def data_erased_def ff_addr_def ff_space_def fun_eq_iff)

lemma ff_unit_positions [simp]:
  "ff_unit (self\<lparr>ff_head := h\<rparr>) = ff_unit self" "ff_space (self\<lparr>ff_head := h\<rparr>) = ff_space self"
  "ff_unit (self\<lparr>ff_last := h\<rparr>) = ff_unit self" "ff_space (self\<lparr>ff_last := h\<rparr>) = ff_space self"
  "ff_unit (self\<lparr>ff_tail := h\<rparr>) = ff_unit self" "ff_space (self\<lparr>ff_tail := h\<rparr>) = ff_space self"
  "ff_unit (self\<lparr>ff_read_offset := h\<rparr>) = ff_unit self" "ff_space (self\<lparr>ff_read_offset := h\<rparr>) = ff_space self"
  by (simp_all add: ff_unit_def ff_space_def)

lemma ff_geom_positions [simp]:
  "ff_geom (self\<lparr>ff_head := h\<rparr>) = ff_geom self" "ff_geom (self\<lparr>ff_last := h\<rparr>) = ff_geom self"
  "ff_geom (self\<lparr>ff_tail := h\<rparr>) = ff_geom self" "ff_geom (self\<lparr>ff_read_offset := h\<rparr>) = ff_geom self"
  by (simp_all add: ff_geom_def fun_eq_iff)

lemma mg_at_mod: "p mod ff_blocks self = q mod ff_blocks self \<Longrightarrow> mg_at self m p = mg_at self m q"
  unfolding mg_at_def by (metis hd_at_mod)

lemma fifo_inv_same:
  "(\<And>q. hd_at self m' q = hd_at self m q) \<Longrightarrow> (\<And>q. blk_data self m' q = blk_data self m q) \<Longrightarrow> fifo_inv self m' = fifo_inv self m"
  by (simp add: fifo_inv_def mg_at_def)

lemma fifo_inv_offset [simp]: "fifo_inv (self\<lparr>ff_read_offset := r\<rparr>) m = fifo_inv self m"
  by (simp add: fifo_inv_def)

lemma fifo_inv_window:
  assumes "fifo_inv self m"
  shows "ff_tail self \<le> ff_last self" "ff_last self \<le> ff_head self + 1" "ff_head self + 1 < ff_tail self + ff_blocks self"
  using assms by (simp_all add: fifo_inv_def)

lemma fifo_inv_at:
  assumes "fifo_inv self m"
  shows "ff_tail self \<le> i \<Longrightarrow> i < ff_last self \<Longrightarrow> mg_at self m i = FLASH_FIFO_MAGIC_TAIL"
    "ff_last self \<le> i \<Longrightarrow> i < ff_head self \<Longrightarrow> mg_at self m i = FLASH_FIFO_MAGIC_FIFO"
    "ff_last self \<le> ff_head self \<Longrightarrow> mg_at self m (ff_head self) \<noteq> FLASH_FIFO_MAGIC_HEAD \<Longrightarrow>
      mg_at self m (ff_head self) = FLASH_FIFO_MAGIC_FIFO"
    "ff_head self < i \<Longrightarrow> i < ff_tail self + ff_blocks self \<Longrightarrow> hd_at self m i = fh_erased"
    "mg_at self m (ff_head self) = FLASH_FIFO_MAGIC_HEAD \<Longrightarrow>
        \<exists>k. k * ff_unit self \<le> ff_space self \<and> fh_bitmap (hd_at self m (ff_head self)) = bm_words 32 k \<and>
          drop (k * ff_unit self) (blk_data self m (ff_head self)) = drop (k * ff_unit self) (data_erased self)"
    "ff_head self < i \<Longrightarrow> i < ff_tail self + ff_blocks self \<Longrightarrow> blk_data self m i = data_erased self"
  using assms by (auto simp: fifo_inv_def)

text \<open>Blocks in use are not erased.\<close>

lemma fifo_inv_used:
  assumes "fifo_inv self m" "ff_tail self \<le> i" "i \<le> ff_head self"
  shows "mg_at self m i \<noteq> FLASH_FIFO_MAGIC_ERASED"
proof -
  consider "i < ff_last self" | "ff_last self \<le> i" "i < ff_head self" | "i = ff_head self" "ff_last self \<le> ff_head self"
    using assms(3) by linarith
  then show ?thesis
  proof cases
    case 1
    with fifo_inv_at(1) [OF assms(1,2)] show ?thesis by simp
  next
    case 2
    with fifo_inv_at(2) [OF assms(1)] show ?thesis by simp
  next
    case 3
    with fifo_inv_at(3) [OF assms(1)] show ?thesis by (metis magic_distinct(1,2))
  qed
qed

context nor_flash begin

lemma fifo_inv_next_head:
  assumes inv: "fifo_inv self (mem d)" and d: "ok d" and geom: "ff_geom self blk cap pg"
    and blocks: "2 \<le> ff_blocks self" "ff_head self + 2 < 2 ^ 32"
    and closed: "mg_at self (mem d) (ff_head self) \<noteq> FLASH_FIFO_MAGIC_HEAD"
  shows "\<exists>ret d'. prepare_head fl d self (ff_head self + 1) = (ret, d') \<and> ok d' \<and>
    (ret = FLASH_FIFO_RET_OK \<and> ff_head self + 2 < ff_tail self + ff_blocks self \<and>
       fifo_inv (self\<lparr>ff_head := ff_head self + 1\<rparr>) (mem d') \<and>
       mg_at self (mem d') (ff_head self + 1) = FLASH_FIFO_MAGIC_HEAD \<and>
       fh_bitmap (hd_at self (mem d') (ff_head self + 1)) = bm_words 32 0 \<and>
       (\<forall>q. blk_data self (mem d') q = blk_data self (mem d) q) \<or>
     ret = FLASH_FIFO_RET_FULL \<and> \<not> ff_head self + 2 < ff_tail self + ff_blocks self \<and> d' = d)"
proof (cases "ff_head self + 2 < ff_tail self + ff_blocks self")
  case True
  let ?p = "ff_head self + 1" and ?T = "ff_tail self" and ?N = "ff_blocks self"
  have "hd_at self (mem d) (?p + 1) = fh_erased" "hd_at self (mem d) ?p = fh_erased"
    using fifo_inv_at(4) [OF inv] True by simp_all
  from prepare_head_ok [OF d geom _ this] blocks(2) obtain d' where d': "prepare_head fl d self ?p = (FLASH_FIFO_RET_OK, d')" "ok d'"
    "\<And>q. q mod ?N \<noteq> ?p mod ?N \<Longrightarrow> hd_at self (mem d') q = hd_at self (mem d) q"
    "mg_at self (mem d') ?p = FLASH_FIFO_MAGIC_HEAD" "fh_bitmap (hd_at self (mem d') ?p) = bm_words 32 0"
    "\<And>q. blk_data self (mem d') q = blk_data self (mem d) q" by auto
  note win = fifo_inv_window [OF inv]
  have same: "hd_at self (mem d') q = hd_at self (mem d) q" if "?T \<le> q" "q < ?T + ?N" "q \<noteq> ?p" for q
    using d'(3) window_mod [of q ?N ?p ?T] that win by fastforce
  then have msame: "mg_at self (mem d') q = mg_at self (mem d) q" if "?T \<le> q" "q < ?T + ?N" "q \<noteq> ?p" for q
    using that by (simp add: mg_at_def)
  have "fifo_inv (self\<lparr>ff_head := ?p\<rparr>) (mem d')"
    unfolding fifo_inv_def
  proof (intro conjI allI impI; (elim conjE)?)
    fix i assume "ff_tail (self\<lparr>ff_head := ?p\<rparr>) \<le> i" "i < ff_last (self\<lparr>ff_head := ?p\<rparr>)"
    then show "mg_at (self\<lparr>ff_head := ?p\<rparr>) (mem d') i = FLASH_FIFO_MAGIC_TAIL"
      using msame [of i] fifo_inv_at(1) [OF inv, of i] win by simp
  next
    fix i assume "ff_last (self\<lparr>ff_head := ?p\<rparr>) \<le> i" "i < ff_head (self\<lparr>ff_head := ?p\<rparr>)"
    then have i: "ff_last self \<le> i" "i \<le> ff_head self" by simp_all
    then have "mg_at self (mem d) i = FLASH_FIFO_MAGIC_FIFO"
      using fifo_inv_at(2,3) [OF inv] closed by (cases "i = ff_head self") auto
    then show "mg_at (self\<lparr>ff_head := ?p\<rparr>) (mem d') i = FLASH_FIFO_MAGIC_FIFO"
      using msame [of i] i win by simp
  next
    fix i assume "ff_head (self\<lparr>ff_head := ?p\<rparr>) < i" "i < ff_tail (self\<lparr>ff_head := ?p\<rparr>) + ff_blocks (self\<lparr>ff_head := ?p\<rparr>)"
    then show "hd_at (self\<lparr>ff_head := ?p\<rparr>) (mem d') i = fh_erased"
      using same [of i] fifo_inv_at(4) [OF inv, of i] win by simp
  next
    fix i assume "ff_head (self\<lparr>ff_head := ?p\<rparr>) < i" "i < ff_tail (self\<lparr>ff_head := ?p\<rparr>) + ff_blocks (self\<lparr>ff_head := ?p\<rparr>)"
    then show "blk_data (self\<lparr>ff_head := ?p\<rparr>) (mem d') i = data_erased (self\<lparr>ff_head := ?p\<rparr>)"
      using d'(6) fifo_inv_at(6) [OF inv, of i] by simp
  next
    show "\<exists>k. k * ff_unit (self\<lparr>ff_head := ?p\<rparr>) \<le> ff_space (self\<lparr>ff_head := ?p\<rparr>) \<and>
        fh_bitmap (hd_at (self\<lparr>ff_head := ?p\<rparr>) (mem d') (ff_head (self\<lparr>ff_head := ?p\<rparr>))) = bm_words 32 k \<and>
        drop (k * ff_unit (self\<lparr>ff_head := ?p\<rparr>)) (blk_data (self\<lparr>ff_head := ?p\<rparr>) (mem d') (ff_head (self\<lparr>ff_head := ?p\<rparr>))) =
        drop (k * ff_unit (self\<lparr>ff_head := ?p\<rparr>)) (data_erased (self\<lparr>ff_head := ?p\<rparr>))"
      using d'(5,6) fifo_inv_at(6) [OF inv, of ?p] True by (intro exI [of _ 0]) simp
  qed (use win True d'(4) in simp_all)
  with d'(1,2,4,5,6) True show ?thesis by blast
next
  case False
  let ?p = "ff_head self + 1"
  note win = fifo_inv_window [OF inv]
  from False win have wrap: "?p + 1 = ff_tail self + ff_blocks self" by simp
  then have "ff_tail self \<le> ff_head self" using win blocks(1) by simp
  then have "mg_at self (mem d) (ff_tail self) \<noteq> FLASH_FIFO_MAGIC_ERASED" using fifo_inv_used [OF inv] by simp
  moreover have "mg_at self (mem d) (?p + 1) = mg_at self (mem d) (ff_tail self)"
    unfolding wrap by (rule mg_at_mod) simp
  ultimately show ?thesis using prepare_head_full [OF d geom, of ?p] blocks(2) d False by simp
qed

end

end
