(* ===== verification/Flash_Fifo_Write.thy ===== *)
theory Flash_Fifo_Write
  imports Flash_Fifo_Inv
begin

text \<open>
  Writing to the flash FIFO, against a list of blocks: the complete blocks that can be read and the
  part of the head that has been written, if there is a head.
\<close>

subsection \<open>The data in a block\<close>

lemma nor_write_append:
  assumes "a + length x + length y \<le> length m"
  shows "nor_write (nor_write m a x) (a + length x) y = nor_write m a (x @ y)"
  using assms by (intro nth_equalityI) (auto simp: nor_write_nth nth_append)

lemma nor_write_Nil [simp]: "nor_write m a [] = m"
  by (simp add: nor_write_def)

text \<open>What is written to erased memory is what is read.\<close>

lemma nor_write_erased:
  assumes "a + length bs \<le> length m" "drop a m = replicate (length m - a) (- 1)"
  shows "nor_write m a bs = take a m @ bs @ drop (a + length bs) m"
proof -
  have "take (length bs) (drop a m) = replicate (length bs) (- 1)"
    unfolding assms(2) using assms(1) by (simp add: min_absorb1)
  moreover have "map2 (AND) (replicate (length bs) (- 1)) bs = bs"
    by (rule nth_equalityI) auto
  ultimately show ?thesis by (simp add: nor_write_def)
qed


text \<open>What is left of the last page.\<close>

lemma rest_of_page:
  fixes P S off :: nat
  assumes "0 < P" "P dvd S" "off \<le> S" "S - off \<le> P"
  shows "off mod P + (S - off) \<le> P"
proof (cases "off = S")
  case True
  then show ?thesis using assms by (simp add: mod_eq_0_iff_dvd)
next
  case False
  obtain b where b: "S = P * b" using assms(2) by (auto simp: dvd_def)
  define q r where "q = off div P" and "r = off mod P"
  have o: "off = P * q + r" "r < P" using assms(1) by (simp_all add: q_def r_def)
  have "P * q < P * b" using False assms(3) o(1) b by linarith
  moreover have "P * b < P * q + 2 * P" using assms(4) o b by linarith
  then have "P * b < P * (q + 2)" by (simp add: algebra_simps)
  then have "b < q + 2" unfolding mult_less_cancel1 by (rule conjunct2)
  ultimately have "b = q + 1" by simp
  then have "S = P * q + P" using b by simp
  then show ?thesis using o unfolding r_def by linarith
qed

context nor_flash begin

lemma ff_size_small:
  assumes "ff_geom self blk cap pg"
  shows "ff_block_size self < 2 ^ 32" "ff_page_size self < ff_block_size self" "0 < ff_page_size self"
    "ff_block_size self = blk" "ff_space self + ff_page_size self = ff_block_size self" "0 < ff_blocks self"
proof -
  have g: "ff_block_size self = blk" "ff_blocks self * blk = cap" "0 < ff_blocks self" "164 \<le> ff_page_size self"
    "ff_page_size self < blk"
    using assms by (simp_all add: ff_geom_def)
  then have "blk \<le> cap" by (metis Suc_leI mult_le_mono1 mult_1 One_nat_def)
  with g total_bound show "ff_block_size self < 2 ^ 32" by simp
  from g show "ff_page_size self < ff_block_size self" "0 < ff_page_size self" "ff_block_size self = blk" "0 < ff_blocks self" by simp_all
  from g show "ff_space self + ff_page_size self = ff_block_size self" by (simp add: ff_space_def)
qed

lemma length_blk_data: "ok d \<Longrightarrow> ff_geom self blk cap pg \<Longrightarrow> length (blk_data self (mem d) p) = ff_space self"
  using data_range [of self p] by (simp add: blk_data_def length_mem)

text \<open>A write never crosses a page and never leaves the block, and there is progress until the block is full.\<close>

lemma write_range_ok:
  assumes "ok d" "ff_geom self blk cap pg" "off \<le> ff_space self"
    and "off = 0 \<Longrightarrow> mg_at self (mem d) (ff_head self) = FLASH_FIFO_MAGIC_HEAD \<and>
      bitmap_zeros (fh_bitmap (hd_at self (mem d) (ff_head self))) = 0"
  shows "\<exists>n. get_block_write_range fl d self off l = Some (FLASH_FIFO_RET_OK, off, n) \<and>
    off + n \<le> ff_space self \<and> (0 < n \<longleftrightarrow> off < ff_space self) \<and> off mod pg + n \<le> pg"
proof -
  note sz = ff_size_small [OF assms(2)] and u = ff_geom_units [OF assms(2) blk_pos]
  let ?B = "ff_block_size self" and ?P = "ff_page_size self" and ?S = "ff_space self"
  have e: "sub32 ?B ?P = ?S" using sz by (simp add: sub32_small ff_space_def)
  have e2: "sub32 ?S off = ?S - off" using sz assms(3) by (simp add: sub32_small)
  define E where "E = (if ?S - off > ?P then off + ?P else ?S)"
  have E: "(if sub32 ?S off > ?P then add32 off ?P else ?S) = E"
    unfolding e2 E_def using sz assms(3) by (simp add: add32_small)
  define F where "F = E - E mod ?P"
  have F: "off \<le> F \<and> F \<le> ?S \<and> (off < F \<longleftrightarrow> off < ?S)"
  proof (cases "?S - off > ?P")
    case True
    then have "E mod ?P < ?P" "E = off + ?P" using sz(3) by (simp_all add: E_def)
    then show ?thesis using True unfolding F_def by auto
  next
    case False
    then have "F = ?S" using u(4) by (simp add: F_def E_def)
    then show ?thesis using assms(3) by simp
  qed
  have "off mod ?P + (F - off) \<le> ?P"
  proof (cases "?S - off > ?P")
    case True
    then have "E = off + ?P" by (simp add: E_def)
    moreover have "off mod ?P < ?P" using sz(3) by simp
    ultimately show ?thesis unfolding F_def by simp
  next
    case False
    then have "F = ?S" using u(4) by (simp add: F_def E_def)
    then show ?thesis using rest_of_page [of ?P ?S off] False u(4) sz(3) assms(3) by (simp add: mod_eq_0_iff_dvd)
  qed
  then have page: "off mod pg + (F - off) \<le> pg" using assms(2) by (simp add: ff_geom_def)
  from F have "sub32 F off = F - off" using sz by (simp add: sub32_small)
  moreover have "get_block_write_range fl d self off l = Some (FLASH_FIFO_RET_OK, off, sub32 F off)"
  proof -
    let ?H = "hd_at self (mem d) (ff_head self)"
    have c: "(?B \<le> off) = False" "(off = 0 \<and> fh_magic ?H \<noteq> FLASH_FIFO_MAGIC_HEAD) = False" "(?P = 0) = False"
      "(if off = 0 then bitmap_to_offset self (fh_bitmap ?H) else off) = off"
      using assms(3,4) sz by (auto simp: mg_at_def bitmap_to_offset_def)
    show ?thesis
      by (simp only: get_block_write_range_def read_header_ok [OF assms(1,2) fh_wf_zero] Let_def prod.case
        c e E F_def [symmetric] if_False)
  qed
  ultimately show ?thesis using F page by (intro exI [of _ "F - off"]) auto
qed

lemma write_loop_ok:
  assumes "ok d" "ff_geom self blk cap pg" "off \<le> ff_space self"
    and "off = 0 \<Longrightarrow> mg_at self (mem d) (ff_head self) = FLASH_FIFO_MAGIC_HEAD \<and>
      bitmap_zeros (fh_bitmap (hd_at self (mem d) (ff_head self))) = 0"
  shows "\<exists>d'. flash_fifo_write_loop fl d self off l buf =
      Some (length buf - min (length buf) (ff_space self - off), off + min (length buf) (ff_space self - off), d') \<and> ok d' \<and>
    (\<forall>q. hd_at self (mem d') q = hd_at self (mem d) q) \<and>
    (\<forall>q. blk_data self (mem d') q = (if q mod ff_blocks self = ff_head self mod ff_blocks self
      then nor_write (blk_data self (mem d) q) off (take (ff_space self - off) buf) else blk_data self (mem d) q))"
  using assms(1,3,4)
proof (induction "length buf" arbitrary: d off l buf rule: less_induct)
  case less
  obtain n where n: "get_block_write_range fl d self off l = Some (FLASH_FIFO_RET_OK, off, n)"
    "off + n \<le> ff_space self" "0 < n \<longleftrightarrow> off < ff_space self" "off mod pg + n \<le> pg"
    using write_range_ok [OF less.prems(1) assms(2) less.prems(2,3)] by blast
  show ?case
  proof (cases "buf \<noteq> [] \<and> 0 < n")
    case False
    then have "buf = [] \<or> off = ff_space self" using n(3) less.prems(2) by auto
    then have "flash_fifo_write_loop fl d self off l buf = Some (length buf, off, d)"
      using n(1) False by (subst flash_fifo_write_loop.simps) auto
    then show ?thesis using \<open>buf = [] \<or> _\<close> less.prems(1) by auto
  next
    case True
    define m where "m = min (length buf) n"
    have m: "0 < m" "m \<le> length buf" "off + m \<le> ff_space self" "m \<le> n"
      using True n(2) by (simp_all add: m_def)
    have lt: "length (take m buf) = m" using m by simp
    have "ff_page_size self + off + length (take m buf) \<le> blk" "take m buf \<noteq> []"
      "off mod pg + length (take m buf) \<le> pg"
      using m data_blk [OF assms(2)] True n(4) unfolding lt by auto
    from data_write_ok [OF less.prems(1) assms(2) this] obtain d1 where
      d1: "block_write_data fl d self off (take m buf) = (FLASH_FIFO_RET_OK, d1)" "ok d1"
      "\<And>q. hd_at self (mem d1) q = hd_at self (mem d) q"
      "\<And>q. blk_data self (mem d1) q = (if q mod ff_blocks self = ff_head self mod ff_blocks self
        then nor_write (blk_data self (mem d) q) off (take m buf) else blk_data self (mem d) q)" by blast
    have "length (drop m buf) < length buf" "off + m = 0 \<Longrightarrow> False" using m True by auto
    from less.hyps [OF this(1) d1(2) m(3), of m] this(2) obtain d2 where
      d2: "flash_fifo_write_loop fl d1 self (off + m) m (drop m buf) =
        Some (length (drop m buf) - min (length (drop m buf)) (ff_space self - (off + m)),
          off + m + min (length (drop m buf)) (ff_space self - (off + m)), d2)" "ok d2"
      "\<And>q. hd_at self (mem d2) q = hd_at self (mem d1) q"
      "\<And>q. blk_data self (mem d2) q = (if q mod ff_blocks self = ff_head self mod ff_blocks self
        then nor_write (blk_data self (mem d1) q) (off + m) (take (ff_space self - (off + m)) (drop m buf))
        else blk_data self (mem d1) q)" by blast
    have a: "add32 off m = off + m" using m ff_size_small [OF assms(2)] by (intro add32_small) simp
    have "flash_fifo_write_loop fl d self off l buf = flash_fifo_write_loop fl d1 self (off + m) m (drop m buf)"
      using n(1) True d1(1) a
      by (subst flash_fifo_write_loop.simps) (auto simp: Let_def m_def min_def split: if_splits)
    moreover have "off + m + min (length (drop m buf)) (ff_space self - (off + m)) = off + min (length buf) (ff_space self - off)"
      "length (drop m buf) - min (length (drop m buf)) (ff_space self - (off + m)) = length buf - min (length buf) (ff_space self - off)"
      using m by (auto simp: min_def)
    moreover have "nor_write (nor_write b off (take m buf)) (off + m) (take (ff_space self - (off + m)) (drop m buf)) =
      nor_write b off (take (ff_space self - off) buf)" if "length b = ff_space self" for b
    proof -
      have "take m buf @ take (ff_space self - (off + m)) (drop m buf) = take (ff_space self - off) buf"
        using m take_add [of m "ff_space self - (off + m)" buf] by simp
      moreover have "off + length (take m buf) + length (take (ff_space self - (off + m)) (drop m buf)) \<le> length b"
        unfolding lt that using m by simp
      ultimately show ?thesis using nor_write_append [of off "take m buf" _ b] by (simp only: lt)
    qed
    ultimately show ?thesis using d2 d1 length_blk_data [OF less.prems(1) assms(2)] by simp
  qed
qed

text \<open>The bitmap after a write marks the units that are in use.\<close>

lemma usage_ok:
  assumes "ok d" "ff_geom self blk cap pg" "off \<le> ff_space self" "ff_unit self dvd off" "2 \<le> ff_unit self"
    and head: "mg_at self (mem d) (ff_head self) = FLASH_FIFO_MAGIC_HEAD"
      "fh_bitmap (hd_at self (mem d) (ff_head self)) = bm_words 32 k" "k \<le> off div ff_unit self"
  shows "\<exists>d'. set_block_write_usage fl d self off = Some (FLASH_FIFO_RET_OK, d') \<and> ok d' \<and>
    (\<forall>q. hd_at self (mem d') q = (if q mod ff_blocks self = ff_head self mod ff_blocks self
      then (hd_at self (mem d) (ff_head self))\<lparr>fh_bitmap := bm_words 32 (off div ff_unit self)\<rparr>
      else hd_at self (mem d) q)) \<and>
    (\<forall>q. blk_data self (mem d') q = blk_data self (mem d) q)"
proof -
  let ?g = "ff_unit self" and ?H = "hd_at self (mem d) (ff_head self)"
  note sz = ff_size_small [OF assms(2)] and u = ff_geom_units [OF assms(2) blk_pos]
  obtain j where j: "off = j * ?g" using assms(4) by (metis dvd_def mult.commute)
  then have od: "off div ?g = j" using u(1) by simp
  have bound: "off + ?g \<le> 2 ^ 32" "?g \<le> 2 ^ 32"
  proof -
    have "off < blk" using assms(3) u(3) by simp
    then have "j < 1024" unfolding j u(2) by (simp add: FLASH_FIFO_BITMAP_SIZE_def)
    then have "(j + 1) * ?g \<le> 1024 * ?g" by (intro mult_le_mono1) simp
    moreover have "(j + 1) * ?g = off + ?g" "1024 * ?g = blk" using u(2) by (simp_all add: j FLASH_FIFO_BITMAP_SIZE_def)
    ultimately have "off + ?g \<le> blk" by simp
    then show "off + ?g \<le> 2 ^ 32" using sz by linarith
    then show "?g \<le> 2 ^ 32" by simp
  qed
  have x: "add32 (sub32 off 1) ?g = off + ?g - 1"
  proof (cases "off = 0")
    case True
    have "add32 (2 ^ 32 - 1) ?g = ?g - 1"
    proof -
      have "2 ^ 32 - 1 + ?g = (?g - 1) + 2 ^ 32" using assms(5) by simp
      then show ?thesis using bound(2) assms(5) by (simp only: add32_def mod_add_self2) simp
    qed
    then show ?thesis by (simp only: True sub32_wraps add_0)
  next
    case False
    then have "sub32 off 1 = off - 1" using bound assms(5) by (intro sub32_small) auto
    moreover have "off - 1 + ?g < 2 ^ 32" using bound False by simp
    ultimately show ?thesis using False by (simp add: add32_small)
  qed
  have e: "off + ?g - 1 = (?g - 1) + j * ?g" using assms(5) by (simp add: j)
  have "(off + ?g - 1) mod ?g = ?g - 1" "(off + ?g - 1) div ?g = j"
  proof -
    have "(?g - 1) mod ?g = ?g - 1" "(?g - 1) div ?g = 0" "?g \<noteq> 0" using assms(5) by simp_all
    then show "(off + ?g - 1) mod ?g = ?g - 1" "(off + ?g - 1) div ?g = j"
      unfolding e by (simp_all only: mod_mult_self1 div_mult_self1 add_0_right not_False_eq_True)
  qed
  then obtain b where b: "offset_to_words ?g 32 (off + ?g - 1) = Some b" "b = bm_words 32 j"
    using offset_to_words_Some [OF u(1), of "off + ?g - 1" 32] offset_to_words_eq [OF u(1)] assms(5) by fastforce
  have wf: "fh_wf ?H" by (rule header_ok [OF assms(1,2)])
  then have "fh_wf (?H\<lparr>fh_bitmap := b\<rparr>)" by (simp add: fh_wf_def b)
  from write_header_ok [OF assms(1,2) this, of "ff_head self"] obtain d' where
    d': "write_header fl d self (ff_head self) (?H\<lparr>fh_bitmap := b\<rparr>) = (FLASH_FIFO_RET_OK, d')" "ok d'"
    "\<And>q. hd_at self (mem d') q = (if q mod ff_blocks self = ff_head self mod ff_blocks self
      then fh_and ?H (?H\<lparr>fh_bitmap := b\<rparr>) else hd_at self (mem d) q)"
    "\<And>q. blk_data self (mem d') q = blk_data self (mem d) q" by blast
  have "fh_and ?H (?H\<lparr>fh_bitmap := b\<rparr>) = ?H\<lparr>fh_bitmap := bm_words 32 j\<rparr>"
    using head(3) by (simp add: fh_and_bitmap [OF wf] head(2) b bm_words_and od max_absorb2)
  moreover have "set_block_write_usage fl d self off = Some (FLASH_FIFO_RET_OK, d')"
    using head(1) b(1) d'(1) x ff_unit_def [of self]
    by (simp add: set_block_write_usage_def read_header_ok [OF assms(1,2) fh_wf_zero] mg_at_def offset_to_bitmap_def
      fifo_sizes)
  ultimately show ?thesis using d' od by auto
qed

end

end
