(* ===== verification/Flash_Fifo_Refine.thy ===== *)
theory Flash_Fifo_Refine
  imports Flash_Fifo_Write
begin

text \<open>
  The flash FIFO as a queue of blocks: the complete blocks that can be read, and the part of the head
  that is written, when there is a head. Writing appends to it and removing takes the first block.
\<close>

subsection \<open>The queue\<close>

type_synonym fifo_queue = "u8 list list \<times> u8 list option"

definition fifo_open :: "flash_fifo \<Rightarrow> u8 list \<Rightarrow> bool" where
  "fifo_open self m \<longleftrightarrow> mg_at self m (ff_head self) = FLASH_FIFO_MAGIC_HEAD"

definition fifo_queue :: "flash_fifo \<Rightarrow> u8 list \<Rightarrow> fifo_queue" where
  "fifo_queue self m =
     (map (blk_data self m) [ff_last self..<ff_head self + (if fifo_open self m then 0 else 1)],
      if fifo_open self m
      then Some (take (bitmap_to_offset self (fh_bitmap (hd_at self m (ff_head self)))) (blk_data self m (ff_head self)))
      else None)"

text \<open>Appending gives the new queue and the number of bytes that were taken.\<close>

fun queue_append :: "nat \<Rightarrow> fifo_queue \<Rightarrow> u8 list \<Rightarrow> fifo_queue \<times> nat" where
  "queue_append space (full, None) bs = ((full, None), 0)"
| "queue_append space (full, Some p) bs =
     (if length p + length bs \<le> space then ((full, Some (p @ bs)), length bs)
      else ((full @ [p @ take (space - length p) bs], None), space - length p))"

text \<open>When not everything could be taken a new head is opened, if there is room for it.\<close>

fun queue_reopen :: "bool \<Rightarrow> fifo_queue \<Rightarrow> flash_fifo_ret \<times> fifo_queue" where
  "queue_reopen room (full, p) = (if room then (FLASH_FIFO_RET_OK, full, Some []) else (FLASH_FIFO_RET_FULL, full, p))"

definition queue_write :: "nat \<Rightarrow> bool \<Rightarrow> fifo_queue \<Rightarrow> u8 list \<Rightarrow> flash_fifo_ret \<times> fifo_queue \<times> nat" where
  "queue_write space room a bs =
     (let (a, n) = queue_append space a bs in
      if n = length bs then (FLASH_FIFO_RET_OK, a, n)
      else let (ret, a) = queue_reopen room a in (ret, a, n))"

definition fifo_room :: "flash_fifo \<Rightarrow> bool" where
  "fifo_room self \<longleftrightarrow> ff_head self + 2 < ff_tail self + ff_blocks self"

subsection \<open>Changing the head\<close>

lemma fifo_open_last:
  assumes inv: "fifo_inv self m" and "fifo_open self m"
  shows "ff_last self \<le> ff_head self"
proof (rule ccontr)
  assume "\<not> ff_last self \<le> ff_head self"
  then have last: "ff_last self = ff_head self + 1" using fifo_inv_window [OF inv] by simp
  have "mg_at self m (ff_head self) \<noteq> FLASH_FIFO_MAGIC_HEAD"
  proof (cases "ff_tail self = ff_head self + 1")
    case True
    then have "hd_at self m (ff_head self + ff_blocks self) = fh_erased"
      using fifo_inv_at(4) [OF inv, of "ff_head self + ff_blocks self"] fifo_inv_window [OF inv] by simp
    moreover have "mg_at self m (ff_head self + ff_blocks self) = mg_at self m (ff_head self)" by (rule mg_at_mod) simp
    ultimately show ?thesis by (simp add: mg_at_def)
  next
    case False
    then show ?thesis using fifo_inv_at(1) [OF inv, of "ff_head self"] fifo_inv_window [OF inv] last by simp
  qed
  with assms(2) show False by (simp add: fifo_open_def)
qed

lemma head_update:
  assumes inv: "fifo_inv self m" "ff_last self \<le> ff_head self"
    and hd: "\<And>q. hd_at self m' q = (if q mod ff_blocks self = ff_head self mod ff_blocks self then h else hd_at self m q)"
    and bd: "\<And>q. blk_data self m' q = (if q mod ff_blocks self = ff_head self mod ff_blocks self then D else blk_data self m q)"
    and h: "fh_magic h = FLASH_FIFO_MAGIC_FIFO \<or> fh_magic h = FLASH_FIFO_MAGIC_HEAD"
      "fh_magic h = FLASH_FIFO_MAGIC_HEAD \<Longrightarrow> \<exists>k. k * ff_unit self \<le> ff_space self \<and> fh_bitmap h = bm_words 32 k \<and>
        drop (k * ff_unit self) D = drop (k * ff_unit self) (data_erased self)"
  shows "fifo_inv self m'"
    "map (blk_data self m') [ff_last self..<ff_head self] = map (blk_data self m) [ff_last self..<ff_head self]"
proof -
  note win = fifo_inv_window [OF inv(1)]
  have other: "q mod ff_blocks self \<noteq> ff_head self mod ff_blocks self"
    if "ff_tail self \<le> q" "q < ff_tail self + ff_blocks self" "q \<noteq> ff_head self" for q
    using window_mod [of q "ff_blocks self" "ff_head self" "ff_tail self"] that win inv(2) by auto
  have mg: "mg_at self m' q = mg_at self m q"
    if "ff_tail self \<le> q" "q < ff_tail self + ff_blocks self" "q \<noteq> ff_head self" for q
    using other [OF that] by (simp add: mg_at_def hd)
  have hm: "mg_at self m' (ff_head self) = fh_magic h" by (simp add: mg_at_def hd)
  show "map (blk_data self m') [ff_last self..<ff_head self] = map (blk_data self m) [ff_last self..<ff_head self]"
    using other win by (auto simp: bd)
  show "fifo_inv self m'"
    unfolding fifo_inv_def
  proof (intro conjI allI impI; (elim conjE)?)
    fix i assume "ff_tail self \<le> i" "i < ff_last self"
    then show "mg_at self m' i = FLASH_FIFO_MAGIC_TAIL" using mg [of i] fifo_inv_at(1) [OF inv(1)] win inv(2) by simp
  next
    fix i assume "ff_last self \<le> i" "i < ff_head self"
    then show "mg_at self m' i = FLASH_FIFO_MAGIC_FIFO" using mg [of i] fifo_inv_at(2) [OF inv(1)] win by simp
  next
    fix i assume "ff_head self < i" "i < ff_tail self + ff_blocks self"
    then show "hd_at self m' i = fh_erased" "blk_data self m' i = data_erased self"
      using other [of i] fifo_inv_at(4,6) [OF inv(1), of i] win inv(2) by (simp_all add: hd bd)
  qed (use win h hm in \<open>simp_all add: hd bd\<close>)
qed

text \<open>The unit of the bitmap divides the pages, and is not a single byte.\<close>

definition ff_units :: "flash_fifo \<Rightarrow> bool" where
  "ff_units self \<longleftrightarrow> 2 \<le> ff_unit self \<and> ff_unit self dvd ff_page_size self"

lemma ff_units_positions [simp]:
  "ff_units (self\<lparr>ff_head := h\<rparr>) = ff_units self" "ff_units (self\<lparr>ff_last := h\<rparr>) = ff_units self"
  "ff_units (self\<lparr>ff_tail := h\<rparr>) = ff_units self" "ff_units (self\<lparr>ff_read_offset := h\<rparr>) = ff_units self"
  by (simp_all add: ff_units_def)

context nor_flash begin

lemma units_space: "ff_geom self blk cap pg \<Longrightarrow> ff_units self \<Longrightarrow> ff_unit self dvd ff_space self"
  using ff_geom_units(4) [of self blk cap] blk_pos by (auto simp: ff_units_def mod_eq_0_iff_dvd intro: dvd_trans)

lemma units_offset:
  assumes "ff_geom self blk cap pg" "k * ff_unit self \<le> ff_space self"
  shows "bitmap_zeros (bm_words 32 k) = k" "bitmap_to_offset self (bm_words 32 k) = k * ff_unit self"
proof -
  note u = ff_geom_units [OF assms(1) blk_pos]
  have "k * ff_unit self < 1024 * ff_unit self"
    using le_less_trans [OF assms(2) u(3)] unfolding u(2) FLASH_FIFO_BITMAP_SIZE_def .
  then have "k \<le> 1024" by simp
  then show z: "bitmap_zeros (bm_words 32 k) = k" by (simp add: bitmap_zeros_words)
  then show "bitmap_to_offset self (bm_words 32 k) = k * ff_unit self"
    by (simp add: bitmap_to_offset_def ff_unit_def)
qed

text \<open>The part of the head that is in use, from its bitmap.\<close>

lemma open_part:
  assumes "ok d" "ff_geom self blk cap pg" "fifo_inv self (mem d)" "fifo_open self (mem d)"
  obtains k where "k * ff_unit self \<le> ff_space self" "fh_bitmap (hd_at self (mem d) (ff_head self)) = bm_words 32 k"
    "bitmap_to_offset self (bm_words 32 k) = k * ff_unit self" "bitmap_zeros (bm_words 32 k) = k"
    "drop (k * ff_unit self) (blk_data self (mem d) (ff_head self)) = drop (k * ff_unit self) (data_erased self)"
    "fifo_queue self (mem d) = (map (blk_data self (mem d)) [ff_last self..<ff_head self],
      Some (take (k * ff_unit self) (blk_data self (mem d) (ff_head self))))"
proof -
  obtain k where k: "k * ff_unit self \<le> ff_space self" "fh_bitmap (hd_at self (mem d) (ff_head self)) = bm_words 32 k"
    "drop (k * ff_unit self) (blk_data self (mem d) (ff_head self)) = drop (k * ff_unit self) (data_erased self)"
    using fifo_inv_at(5) [OF assms(3)] assms(4) unfolding fifo_open_def by blast
  note z = units_offset [OF assms(2) k(1)]
  with that k z assms(4) show thesis by (simp add: fifo_queue_def)
qed

lemma write_loop_start:
  assumes "ok d" "ff_geom self blk cap pg" "fifo_open self (mem d)" "k * ff_unit self \<le> ff_space self"
    "fh_bitmap (hd_at self (mem d) (ff_head self)) = bm_words 32 k"
    "bitmap_to_offset self (bm_words 32 k) = k * ff_unit self"
  shows "flash_fifo_write_loop fl d self 0 0 buf = flash_fifo_write_loop fl d self (k * ff_unit self) 0 buf"
proof (cases "k * ff_unit self = 0")
  case False
  note sz = ff_size_small [OF assms(2)]
  have "get_block_write_range fl d self 0 0 = get_block_write_range fl d self (k * ff_unit self) 0"
    using assms(3-6) sz False
    by (simp add: get_block_write_range_def read_header_ok [OF assms(1,2) fh_wf_zero] fifo_open_def mg_at_def)
  then show ?thesis by (subst (1 2) flash_fifo_write_loop.simps) simp
next
  case True
  show ?thesis by (simp only: True)
qed

text \<open>Writing to an open head.\<close>

lemma write_open:
  assumes "ok d" "ff_geom self blk cap pg" "ff_units self" "fifo_inv self (mem d)"
    "fifo_queue self (mem d) = (full, Some p)" "ff_unit self dvd length buf"
  defines "n \<equiv> min (length buf) (ff_space self - length p)"
  shows "length p \<le> ff_space self \<and> (\<exists>d1 d2. flash_fifo_write_loop fl d self 0 0 buf = Some (length buf - n, length p + n, d1) \<and>
    set_block_write_usage fl d1 self (length p + n) = Some (FLASH_FIFO_RET_OK, d2) \<and> ok d2 \<and>
    fifo_inv self (mem d2) \<and> fifo_queue self (mem d2) = (full, Some (p @ take n buf)))"
proof -
  have op: "fifo_open self (mem d)" using assms(5) by (auto simp: fifo_queue_def split: if_splits)
  let ?g = "ff_unit self" and ?S = "ff_space self" and ?h = "ff_head self" and ?N = "ff_blocks self"
  from open_part [OF assms(1,2,4) op] obtain k where
    k: "k * ?g \<le> ?S" "fh_bitmap (hd_at self (mem d) ?h) = bm_words 32 k"
      "bitmap_to_offset self (bm_words 32 k) = k * ?g" "bitmap_zeros (bm_words 32 k) = k"
      "drop (k * ?g) (blk_data self (mem d) ?h) = drop (k * ?g) (data_erased self)"
      "full = map (blk_data self (mem d)) [ff_last self..<?h]" "p = take (k * ?g) (blk_data self (mem d) ?h)"
    using assms(5) by (metis Pair_inject option.inject)
  have g: "0 < ?g" "2 \<le> ?g" using assms(3) by (simp_all add: ff_units_def)
  have lp: "length p = k * ?g" using k(1) by (simp add: k(7) length_blk_data [OF assms(1,2)])
  have start: "k * ?g = 0 \<Longrightarrow> mg_at self (mem d) ?h = FLASH_FIFO_MAGIC_HEAD \<and>
      bitmap_zeros (fh_bitmap (hd_at self (mem d) ?h)) = 0"
    using op k(2,4) g by (simp add: fifo_open_def)
  from write_loop_ok [OF assms(1,2) k(1) start, of 0 buf] write_loop_start [OF assms(1,2) op k(1-3), of buf]
  obtain d1 where d1: "flash_fifo_write_loop fl d self 0 0 buf = Some (length buf - n, length p + n, d1)" "ok d1"
    "\<And>q. hd_at self (mem d1) q = hd_at self (mem d) q"
    "\<And>q. blk_data self (mem d1) q = (if q mod ?N = ?h mod ?N
      then nor_write (blk_data self (mem d) q) (length p) (take (?S - length p) buf) else blk_data self (mem d) q)"
    unfolding n_def lp by metis
  have dvd: "?g dvd length p + n"
    using assms(6) units_space [OF assms(2,3)] by (auto simp: n_def lp min_def dvd_diff_nat)
  have le: "length p + n \<le> ?S" using k(1) by (simp add: n_def lp)
  have u: "k \<le> (length p + n) div ?g" using g by (simp add: lp less_eq_div_iff_mult_less_eq)
  have "mg_at self (mem d1) ?h = FLASH_FIFO_MAGIC_HEAD" "fh_bitmap (hd_at self (mem d1) ?h) = bm_words 32 k"
    using op k(2) by (simp_all add: fifo_open_def mg_at_def d1(3))
  from usage_ok [OF d1(2) assms(2) le dvd g(2) this u] obtain d2 where
    d2: "set_block_write_usage fl d1 self (length p + n) = Some (FLASH_FIFO_RET_OK, d2)" "ok d2"
    "\<And>q. hd_at self (mem d2) q = (if q mod ?N = ?h mod ?N
      then (hd_at self (mem d1) ?h)\<lparr>fh_bitmap := bm_words 32 ((length p + n) div ?g)\<rparr> else hd_at self (mem d1) q)"
    "\<And>q. blk_data self (mem d2) q = blk_data self (mem d1) q" by blast
  define D where "D = nor_write (blk_data self (mem d) ?h) (length p) (take (?S - length p) buf)"
  have lD: "length (blk_data self (mem d) ?h) = ?S" by (rule length_blk_data [OF assms(1,2)])
  have ln: "length (take (?S - length p) buf) = n" "take (?S - length p) buf = take n buf"
    by (auto simp: n_def min_def)
  then have ln3: "length (take n buf) = n" by simp
  have D: "D = p @ take n buf @ drop (length p + n) (blk_data self (mem d) ?h)"
  proof -
    have "drop (length p) (blk_data self (mem d) ?h) = replicate (?S - length p) (- 1)"
      unfolding lp k(5) by (simp add: data_erased_def)
    moreover have "take (length p) (blk_data self (mem d) ?h) = p" unfolding lp by (rule k(7) [symmetric])
    ultimately show ?thesis
      unfolding D_def using nor_write_erased [of "length p" "take (?S - length p) buf" "blk_data self (mem d) ?h"] le
      by (simp only: ln(2) ln3 lD)
  qed
  have erased: "drop (length p + n) D = drop (length p + n) (data_erased self)"
  proof -
    have "drop (length p + n) D = drop (length p + n) (blk_data self (mem d) ?h)"
      unfolding D using ln by simp
    also have "\<dots> = drop n (drop (k * ?g) (blk_data self (mem d) ?h))" by (simp add: lp add.commute)
    also have "\<dots> = drop (length p + n) (data_erased self)" unfolding k(5) by (simp add: lp add.commute)
    finally show ?thesis .
  qed
  have jg: "(length p + n) div ?g * ?g = length p + n" using dvd by simp
  have hd2: "hd_at self (mem d2) q = (if q mod ?N = ?h mod ?N
      then (hd_at self (mem d) ?h)\<lparr>fh_bitmap := bm_words 32 ((length p + n) div ?g)\<rparr> else hd_at self (mem d) q)" for q
    by (simp add: d2(3) d1(3))
  have bd2: "blk_data self (mem d2) q = (if q mod ?N = ?h mod ?N then D else blk_data self (mem d) q)" for q
    unfolding d2(4) d1(4) D_def using blk_data_mod [of q self ?h "mem d"] by simp
  have hh: "fh_magic ((hd_at self (mem d) ?h)\<lparr>fh_bitmap := bm_words 32 ((length p + n) div ?g)\<rparr>) = FLASH_FIFO_MAGIC_HEAD"
    using op by (simp add: fifo_open_def mg_at_def)
  have ex: "\<exists>k. k * ?g \<le> ?S \<and>
      fh_bitmap ((hd_at self (mem d) ?h)\<lparr>fh_bitmap := bm_words 32 ((length p + n) div ?g)\<rparr>) = bm_words 32 k \<and>
      drop (k * ?g) D = drop (k * ?g) (data_erased self)"
    using le erased by (intro exI [of _ "(length p + n) div ?g"]) (simp add: jg)
  have "fifo_inv self (mem d2) \<and>
    map (blk_data self (mem d2)) [ff_last self..<?h] = map (blk_data self (mem d)) [ff_last self..<?h]"
    using head_update [OF assms(4) fifo_open_last [OF assms(4) op] hd2 bd2 disjI2 [OF hh] ex] by blast
  moreover have op2: "fifo_open self (mem d2)" using hh by (simp add: fifo_open_def mg_at_def hd2)
  moreover have "take (bitmap_to_offset self (fh_bitmap (hd_at self (mem d2) ?h))) (blk_data self (mem d2) ?h) = p @ take n buf"
  proof -
    have "fh_bitmap (hd_at self (mem d2) ?h) = bm_words 32 ((length p + n) div ?g)" by (simp add: hd2)
    moreover have "bitmap_to_offset self (bm_words 32 ((length p + n) div ?g)) = length p + n"
      using units_offset(2) [OF assms(2), of "(length p + n) div ?g"] le jg by simp
    moreover have "blk_data self (mem d2) ?h = (p @ take n buf) @ drop (length p + n) (blk_data self (mem d) ?h)"
      using bd2 [of ?h] D by simp
    moreover have "length (p @ take n buf) = length p + n" using ln by simp
    ultimately show ?thesis by (simp only: append_eq_conv_conj append_take_drop_id take_append) simp
  qed
  ultimately show ?thesis using d1(1) d2(1,2) k(1,6) by (auto simp: fifo_queue_def lp)
qed

text \<open>Closing a head that is full.\<close>

lemma close_open:
  assumes "ok d" "ff_geom self blk cap pg" "fifo_inv self (mem d)"
    "fifo_queue self (mem d) = (full, Some p)" "length p = ff_space self"
  shows "\<exists>d'. close_head fl d self (ff_head self) = (FLASH_FIFO_RET_OK, d') \<and> ok d' \<and> fifo_inv self (mem d') \<and>
    fifo_queue self (mem d') = (full @ [p], None)"
proof -
  have op: "fifo_open self (mem d)" using assms(4) by (auto simp: fifo_queue_def split: if_splits)
  let ?h = "ff_head self" and ?N = "ff_blocks self"
  note last = fifo_open_last [OF assms(3) op]
  from close_head_ok [OF assms(1,2), of ?h] op obtain d' where
    d': "close_head fl d self ?h = (FLASH_FIFO_RET_OK, d')" "ok d'"
    "\<And>q. hd_at self (mem d') q = (if q mod ?N = ?h mod ?N
       then (hd_at self (mem d) ?h)\<lparr>fh_magic := FLASH_FIFO_MAGIC_FIFO\<rparr> else hd_at self (mem d) q)"
    "\<And>q. blk_data self (mem d') q = blk_data self (mem d) q" unfolding fifo_open_def by auto
  have bd: "blk_data self (mem d') q = (if q mod ?N = ?h mod ?N then blk_data self (mem d) ?h else blk_data self (mem d) q)" for q
    using blk_data_mod [of q self ?h "mem d"] by (simp add: d'(4))
  have "fifo_inv self (mem d')"
    by (rule head_update(1) [OF assms(3) last d'(3) bd]) simp_all
  moreover have "\<not> fifo_open self (mem d')" by (simp add: fifo_open_def mg_at_def d'(3))
  moreover have "blk_data self (mem d) ?h = p"
    using assms(4,5) op length_blk_data [OF assms(1,2), of ?h] by (auto simp: fifo_queue_def min_def split: if_splits)
  moreover have "blk_data self (mem d') = blk_data self (mem d)" by (rule ext) (rule d'(4))
  ultimately show ?thesis using d'(1,2) assms(4) op last by (simp add: fifo_queue_def)
qed

text \<open>Opening a new head behind a closed one.\<close>

lemma reopen_closed:
  assumes "ok d" "ff_geom self blk cap pg" "fifo_inv self (mem d)" "2 \<le> ff_blocks self" "ff_head self + 2 < 2 ^ 32"
    "fifo_queue self (mem d) = (full, None)"
  shows "\<exists>ret d'. prepare_head fl d self (ff_head self + 1) = (ret, d') \<and> ok d' \<and>
    (let self' = (if ret = FLASH_FIFO_RET_OK then self\<lparr>ff_head := ff_head self + 1\<rparr> else self)
     in fifo_inv self' (mem d') \<and> (ret, fifo_queue self' (mem d')) = queue_reopen (fifo_room self) (full, None))"
proof -
  have cl: "\<not> fifo_open self (mem d)" using assms(6) by (auto simp: fifo_queue_def split: if_splits)
  from fifo_inv_next_head [OF assms(3,1,2,4,5)] cl obtain ret d' where
    d': "prepare_head fl d self (ff_head self + 1) = (ret, d')" "ok d'"
      "ret = FLASH_FIFO_RET_OK \<and> fifo_room self \<and> fifo_inv (self\<lparr>ff_head := ff_head self + 1\<rparr>) (mem d') \<and>
         mg_at self (mem d') (ff_head self + 1) = FLASH_FIFO_MAGIC_HEAD \<and>
         fh_bitmap (hd_at self (mem d') (ff_head self + 1)) = bm_words 32 0 \<and>
         (\<forall>q. blk_data self (mem d') q = blk_data self (mem d) q) \<or>
       ret = FLASH_FIFO_RET_FULL \<and> \<not> fifo_room self \<and> d' = d"
    unfolding fifo_open_def fifo_room_def by blast
  have z: "bitmap_to_offset self (bm_words 32 0) = 0" using units_offset(2) [OF assms(2), of 0] by simp
  from d'(3) show ?thesis
  proof (elim disjE conjE)
    assume r: "ret = FLASH_FIFO_RET_OK" "fifo_room self" "fifo_inv (self\<lparr>ff_head := ff_head self + 1\<rparr>) (mem d')"
      "mg_at self (mem d') (ff_head self + 1) = FLASH_FIFO_MAGIC_HEAD"
      "fh_bitmap (hd_at self (mem d') (ff_head self + 1)) = bm_words 32 0"
      "\<forall>q. blk_data self (mem d') q = blk_data self (mem d) q"
    have "bitmap_to_offset (self\<lparr>ff_head := ff_head self + 1\<rparr>) = bitmap_to_offset self"
      by (simp add: bitmap_to_offset_def fun_eq_iff)
    then have "fifo_queue (self\<lparr>ff_head := ff_head self + 1\<rparr>) (mem d') = (full, Some [])"
      using assms(6) cl r(4-6) z by (auto simp: fifo_queue_def fifo_open_def)
    with d' r show ?thesis by simp
  next
    assume "ret = FLASH_FIFO_RET_FULL" "\<not> fifo_room self" "d' = d"
    with d' assms(3,6) show ?thesis by simp
  qed
qed

lemma fifo_write_refines:
  assumes "ok d" "ff_geom self blk cap pg" "ff_units self" "fifo_inv self (mem d)" "ff_unit self dvd length buf"
    "2 \<le> ff_blocks self" "ff_head self + 2 < 2 ^ 32"
  shows "\<exists>ret self' d' n. flash_fifo_write fl d self buf = Some (ret, self', d', n) \<and> ok d' \<and>
    ff_geom self' blk cap pg \<and> ff_units self' \<and> ff_head self' \<le> ff_head self + 1 \<and> fifo_inv self' (mem d') \<and>
    (ret, fifo_queue self' (mem d'), n) = queue_write (ff_space self) (fifo_room self) (fifo_queue self (mem d)) buf"
proof -
  have a: "add32 (ff_head self) 1 = ff_head self + 1" using assms(7) by (simp add: add32_small)
  obtain full part where q: "fifo_queue self (mem d) = (full, part)" by (cases "fifo_queue self (mem d)")
  show ?thesis
  proof (cases part)
    case None
    then have q: "fifo_queue self (mem d) = (full, None)" using q by simp
    then have cl: "fh_magic (hd_at self (mem d) (ff_head self)) \<noteq> FLASH_FIFO_MAGIC_HEAD"
      by (auto simp: fifo_queue_def fifo_open_def mg_at_def split: if_splits)
    have "get_block_write_range fl d self 0 0 = Some (FLASH_FIFO_RET_FAILED, 0, 0)"
      using cl ff_size_small [OF assms(2)]
      by (simp add: get_block_write_range_def read_header_ok [OF assms(1,2) fh_wf_zero])
    then have loop: "flash_fifo_write_loop fl d self 0 0 buf = Some (length buf, 0, d)"
      by (subst flash_fifo_write_loop.simps) simp
    have usage: "set_block_write_usage fl d self 0 = Some (FLASH_FIFO_RET_FAILED, d)"
      using cl by (simp add: set_block_write_usage_def read_header_ok [OF assms(1,2) fh_wf_zero])
    have close: "close_head fl d self (ff_head self) = (FLASH_FIFO_RET_FAILED, d)"
      using cl by (simp add: close_head_def read_header_ok [OF assms(1,2) fh_wf_zero])
    from reopen_closed [OF assms(1,2,4,6,7) q] obtain ret d' where
      "prepare_head fl d self (ff_head self + 1) = (ret, d')" "ok d'"
      "let self' = (if ret = FLASH_FIFO_RET_OK then self\<lparr>ff_head := ff_head self + 1\<rparr> else self)
       in fifo_inv self' (mem d') \<and> (ret, fifo_queue self' (mem d')) = queue_reopen (fifo_room self) (full, None)" by blast
    then show ?thesis using loop usage close assms(1-4) a
      by (cases "buf = []") (auto simp: flash_fifo_write_def q queue_write_def Let_def split: prod.splits)
  next
    case (Some p)
    then have q: "fifo_queue self (mem d) = (full, Some p)" using q by simp
    define n where "n = min (length buf) (ff_space self - length p)"
    from write_open [OF assms(1-4) q assms(5)] obtain d1 d2 where
      w: "length p \<le> ff_space self" "flash_fifo_write_loop fl d self 0 0 buf = Some (length buf - n, length p + n, d1)"
        "set_block_write_usage fl d1 self (length p + n) = Some (FLASH_FIFO_RET_OK, d2)" "ok d2"
        "fifo_inv self (mem d2)" "fifo_queue self (mem d2) = (full, Some (p @ take n buf))" unfolding n_def by blast
    show ?thesis
    proof (cases "n = length buf")
      case True
      with w have "length p + length buf \<le> ff_space self" unfolding n_def by auto
      with w True assms(2,3) show ?thesis by (auto simp: flash_fifo_write_def q queue_write_def)
    next
      case False
      then have n: "n = ff_space self - length p" "n < length buf" unfolding n_def by auto
      then have "length (p @ take n buf) = ff_space self" using w(1) by simp
      from close_open [OF w(4) assms(2) w(5,6) this] obtain d3 where
        c: "close_head fl d2 self (ff_head self) = (FLASH_FIFO_RET_OK, d3)" "ok d3" "fifo_inv self (mem d3)"
          "fifo_queue self (mem d3) = (full @ [p @ take n buf], None)" by blast
      from reopen_closed [OF c(2) assms(2) c(3) assms(6,7) c(4)] obtain ret d' where
        "prepare_head fl d3 self (ff_head self + 1) = (ret, d')" "ok d'"
        "let self' = (if ret = FLASH_FIFO_RET_OK then self\<lparr>ff_head := ff_head self + 1\<rparr> else self)
         in fifo_inv self' (mem d') \<and> (ret, fifo_queue self' (mem d')) =
           queue_reopen (fifo_room self) (full @ [p @ take n buf], None)" by blast
      moreover have "queue_append (ff_space self) (full, Some p) buf = ((full @ [p @ take n buf], None), n)"
        using n w(1) by simp
      ultimately show ?thesis using w(2,3) c(1) n a assms(2,3)
        by (auto simp: flash_fifo_write_def q queue_write_def Let_def split: prod.splits)
    qed
  qed
qed

end

end
