(* ===== verification/Flash_Fifo_Remove.thy ===== *)
theory Flash_Fifo_Remove
  imports Flash_Fifo_Refine
begin

text \<open>
  Removing the first block of the flash FIFO, garbage collection and formatting, against the queue of
  blocks.
\<close>

subsection \<open>Garbage collection\<close>

lemma fifo_tail_last:
  assumes inv: "fifo_inv self m" and "mg_at self m (ff_tail self) = FLASH_FIFO_MAGIC_TAIL"
  shows "ff_tail self < ff_last self"
proof (rule ccontr)
  assume "\<not> ff_tail self < ff_last self"
  then have t: "ff_tail self = ff_last self" using fifo_inv_window [OF inv] by simp
  consider "ff_last self < ff_head self" | "ff_last self = ff_head self" | "ff_last self = ff_head self + 1"
    using fifo_inv_window [OF inv] by linarith
  then show False
  proof cases
    case 1
    then show False using fifo_inv_at(2) [OF inv, of "ff_last self"] assms(2) t by simp
  next
    case 2
    then show False using fifo_inv_at(3) [OF inv] assms(2) t by (metis magic_distinct(5,6) order_refl)
  next
    case 3
    then show False using fifo_inv_at(4) [OF inv, of "ff_last self"] fifo_inv_window [OF inv] assms(2) t
      by (simp add: mg_at_def)
  qed
qed

lemma gc_update:
  assumes inv: "fifo_inv self m" and t: "mg_at self m (ff_tail self) = FLASH_FIFO_MAGIC_TAIL"
    and hd: "\<And>q. hd_at self m' q = (if q mod ff_blocks self = ff_tail self mod ff_blocks self then fh_erased else hd_at self m q)"
    and bd: "\<And>q. blk_data self m' q = (if q mod ff_blocks self = ff_tail self mod ff_blocks self then data_erased self
      else blk_data self m q)"
  shows "fifo_inv (self\<lparr>ff_tail := ff_tail self + 1\<rparr>) m'"
    "fifo_queue (self\<lparr>ff_tail := ff_tail self + 1\<rparr>) m' = fifo_queue self m"
proof -
  note win = fifo_inv_window [OF inv] and tl = fifo_tail_last [OF inv t]
  have other: "q mod ff_blocks self \<noteq> ff_tail self mod ff_blocks self"
    if "ff_tail self < q" "q < ff_tail self + ff_blocks self" for q
    using window_mod [of q "ff_blocks self" "ff_tail self" "ff_tail self"] that by auto
  have mg: "mg_at self m' q = mg_at self m q" if "ff_tail self < q" "q < ff_tail self + ff_blocks self" for q
    using other [OF that] by (simp add: mg_at_def hd)
  have open': "fifo_open self m' = fifo_open self m"
  proof (cases "ff_last self \<le> ff_head self")
    case True
    then show ?thesis using mg [of "ff_head self"] tl win by (simp add: fifo_open_def)
  next
    case False
    then have "\<not> fifo_open self m" using fifo_open_last [OF inv] by auto
    then show ?thesis by (auto simp: fifo_open_def mg_at_def hd)
  qed
  have head: "hd_at self m' (ff_head self) = hd_at self m (ff_head self)" "blk_data self m' (ff_head self) = blk_data self m (ff_head self)"
    if "fifo_open self m"
    using other [of "ff_head self"] fifo_open_last [OF inv that] tl win by (simp_all add: hd bd)
  have "bitmap_to_offset (self\<lparr>ff_tail := t\<rparr>) b = bitmap_to_offset self b" for t b by (simp add: bitmap_to_offset_def)
  then show "fifo_queue (self\<lparr>ff_tail := ff_tail self + 1\<rparr>) m' = fifo_queue self m"
    using open' head other tl win by (auto simp: fifo_queue_def fifo_open_def bd)
  show "fifo_inv (self\<lparr>ff_tail := ff_tail self + 1\<rparr>) m'"
    unfolding fifo_inv_def
  proof (intro conjI allI impI; (elim conjE)?)
    fix i assume "ff_tail (self\<lparr>ff_tail := ff_tail self + 1\<rparr>) \<le> i" "i < ff_last (self\<lparr>ff_tail := ff_tail self + 1\<rparr>)"
    then show "mg_at (self\<lparr>ff_tail := ff_tail self + 1\<rparr>) m' i = FLASH_FIFO_MAGIC_TAIL"
      using mg [of i] fifo_inv_at(1) [OF inv, of i] win by simp
  next
    fix i assume "ff_last (self\<lparr>ff_tail := ff_tail self + 1\<rparr>) \<le> i" "i < ff_head (self\<lparr>ff_tail := ff_tail self + 1\<rparr>)"
    then show "mg_at (self\<lparr>ff_tail := ff_tail self + 1\<rparr>) m' i = FLASH_FIFO_MAGIC_FIFO"
      using mg [of i] fifo_inv_at(2) [OF inv, of i] win tl by simp
  next
    assume "ff_last (self\<lparr>ff_tail := ff_tail self + 1\<rparr>) \<le> ff_head (self\<lparr>ff_tail := ff_tail self + 1\<rparr>)"
    then have "ff_last self \<le> ff_head self" by simp
    then have "mg_at self m' (ff_head self) = mg_at self m (ff_head self)" using mg [of "ff_head self"] win tl by simp
    with inv \<open>ff_last self \<le> ff_head self\<close>
    show "mg_at (self\<lparr>ff_tail := ff_tail self + 1\<rparr>) m' (ff_head (self\<lparr>ff_tail := ff_tail self + 1\<rparr>)) = FLASH_FIFO_MAGIC_FIFO \<or>
      mg_at (self\<lparr>ff_tail := ff_tail self + 1\<rparr>) m' (ff_head (self\<lparr>ff_tail := ff_tail self + 1\<rparr>)) = FLASH_FIFO_MAGIC_HEAD"
      by (simp add: fifo_inv_def)
  next
    fix i assume i: "ff_head (self\<lparr>ff_tail := ff_tail self + 1\<rparr>) < i"
      "i < ff_tail (self\<lparr>ff_tail := ff_tail self + 1\<rparr>) + ff_blocks (self\<lparr>ff_tail := ff_tail self + 1\<rparr>)"
    show "hd_at (self\<lparr>ff_tail := ff_tail self + 1\<rparr>) m' i = fh_erased"
      "blk_data (self\<lparr>ff_tail := ff_tail self + 1\<rparr>) m' i = data_erased (self\<lparr>ff_tail := ff_tail self + 1\<rparr>)"
      using i fifo_inv_at(4,6) [OF inv, of i] by (cases "i = ff_tail self + ff_blocks self"; simp add: hd bd)+
  next
    assume "mg_at (self\<lparr>ff_tail := ff_tail self + 1\<rparr>) m' (ff_head (self\<lparr>ff_tail := ff_tail self + 1\<rparr>)) = FLASH_FIFO_MAGIC_HEAD"
    then have op: "fifo_open self m" using open' by (simp add: fifo_open_def)
    then show "\<exists>k. k * ff_unit (self\<lparr>ff_tail := ff_tail self + 1\<rparr>) \<le> ff_space (self\<lparr>ff_tail := ff_tail self + 1\<rparr>) \<and>
      fh_bitmap (hd_at (self\<lparr>ff_tail := ff_tail self + 1\<rparr>) m' (ff_head (self\<lparr>ff_tail := ff_tail self + 1\<rparr>))) = bm_words 32 k \<and>
      drop (k * ff_unit (self\<lparr>ff_tail := ff_tail self + 1\<rparr>))
        (blk_data (self\<lparr>ff_tail := ff_tail self + 1\<rparr>) m' (ff_head (self\<lparr>ff_tail := ff_tail self + 1\<rparr>))) =
      drop (k * ff_unit (self\<lparr>ff_tail := ff_tail self + 1\<rparr>)) (data_erased (self\<lparr>ff_tail := ff_tail self + 1\<rparr>))"
      using fifo_inv_at(5) [OF inv] head [OF op] by (simp add: fifo_open_def)
  qed (use win tl in simp_all)
qed

text \<open>Removing the first block, which is a complete one.\<close>

lemma last_update:
  assumes inv: "fifo_inv self m" and q: "fifo_queue self m = (b # full, p)"
    and hd: "\<And>q. hd_at self m' q = (if q mod ff_blocks self = ff_last self mod ff_blocks self
      then (hd_at self m (ff_last self))\<lparr>fh_magic := FLASH_FIFO_MAGIC_TAIL\<rparr> else hd_at self m q)"
    and bd: "\<And>q. blk_data self m' q = blk_data self m q"
  shows "fifo_inv (self\<lparr>ff_last := ff_last self + 1\<rparr>) m'"
    "fifo_queue (self\<lparr>ff_last := ff_last self + 1\<rparr>) m' = (full, p)"
proof -
  note win = fifo_inv_window [OF inv]
  have last: "ff_last self < ff_head self + (if fifo_open self m then 0 else 1)"
    by (rule ccontr) (use q in \<open>auto simp: fifo_queue_def split: if_splits\<close>)
  have other: "q mod ff_blocks self \<noteq> ff_last self mod ff_blocks self"
    if "ff_tail self \<le> q" "q < ff_tail self + ff_blocks self" "q \<noteq> ff_last self" for q
    using window_mod [of q "ff_blocks self" "ff_last self" "ff_tail self"] that win by auto
  have mg: "mg_at self m' q = mg_at self m q" if "ff_tail self \<le> q" "q < ff_tail self + ff_blocks self" "q \<noteq> ff_last self" for q
    using other [OF that] by (simp add: mg_at_def hd)
  have mlast: "mg_at self m' (ff_last self) = FLASH_FIFO_MAGIC_TAIL" by (simp add: mg_at_def hd)
  have open': "fifo_open self m' = fifo_open self m"
    using mg [of "ff_head self"] mlast win last by (cases "ff_last self = ff_head self") (auto simp: fifo_open_def split: if_splits)
  have head: "hd_at self m' (ff_head self) = hd_at self m (ff_head self)" if "fifo_open self m"
    using other [of "ff_head self"] that last win by (simp add: hd)
  have "bitmap_to_offset (self\<lparr>ff_last := t\<rparr>) b = bitmap_to_offset self b" for t b by (simp add: bitmap_to_offset_def)
  moreover have "blk_data self m' = blk_data self m" by (rule ext) (rule bd)
  ultimately show "fifo_queue (self\<lparr>ff_last := ff_last self + 1\<rparr>) m' = (full, p)"
    using q open' head last by (auto simp: fifo_queue_def fifo_open_def upt_conv_Cons)
  show "fifo_inv (self\<lparr>ff_last := ff_last self + 1\<rparr>) m'"
    unfolding fifo_inv_def
  proof (intro conjI allI impI; (elim conjE)?)
    fix i assume "ff_tail (self\<lparr>ff_last := ff_last self + 1\<rparr>) \<le> i" "i < ff_last (self\<lparr>ff_last := ff_last self + 1\<rparr>)"
    then show "mg_at (self\<lparr>ff_last := ff_last self + 1\<rparr>) m' i = FLASH_FIFO_MAGIC_TAIL"
      using mg [of i] fifo_inv_at(1) [OF inv, of i] mlast win by (cases "i = ff_last self") simp_all
  next
    fix i assume "ff_last (self\<lparr>ff_last := ff_last self + 1\<rparr>) \<le> i" "i < ff_head (self\<lparr>ff_last := ff_last self + 1\<rparr>)"
    then show "mg_at (self\<lparr>ff_last := ff_last self + 1\<rparr>) m' i = FLASH_FIFO_MAGIC_FIFO"
      using mg [of i] fifo_inv_at(2) [OF inv, of i] win by simp
  next
    assume "ff_last (self\<lparr>ff_last := ff_last self + 1\<rparr>) \<le> ff_head (self\<lparr>ff_last := ff_last self + 1\<rparr>)"
    then have "ff_last self < ff_head self" by simp
    then have "mg_at self m' (ff_head self) = mg_at self m (ff_head self)" using mg [of "ff_head self"] win by simp
    with inv \<open>ff_last self < ff_head self\<close>
    show "mg_at (self\<lparr>ff_last := ff_last self + 1\<rparr>) m' (ff_head (self\<lparr>ff_last := ff_last self + 1\<rparr>)) = FLASH_FIFO_MAGIC_FIFO \<or>
      mg_at (self\<lparr>ff_last := ff_last self + 1\<rparr>) m' (ff_head (self\<lparr>ff_last := ff_last self + 1\<rparr>)) = FLASH_FIFO_MAGIC_HEAD"
      by (simp add: fifo_inv_def)
  next
    fix i assume i: "ff_head (self\<lparr>ff_last := ff_last self + 1\<rparr>) < i"
      "i < ff_tail (self\<lparr>ff_last := ff_last self + 1\<rparr>) + ff_blocks (self\<lparr>ff_last := ff_last self + 1\<rparr>)"
    show "hd_at (self\<lparr>ff_last := ff_last self + 1\<rparr>) m' i = fh_erased"
      "blk_data (self\<lparr>ff_last := ff_last self + 1\<rparr>) m' i = data_erased (self\<lparr>ff_last := ff_last self + 1\<rparr>)"
      using i fifo_inv_at(4,6) [OF inv, of i] other [of i] last win by (auto simp: hd bd split: if_splits)
  next
    assume "mg_at (self\<lparr>ff_last := ff_last self + 1\<rparr>) m' (ff_head (self\<lparr>ff_last := ff_last self + 1\<rparr>)) = FLASH_FIFO_MAGIC_HEAD"
    then have op: "fifo_open self m" using open' by (simp add: fifo_open_def)
    then show "\<exists>k. k * ff_unit (self\<lparr>ff_last := ff_last self + 1\<rparr>) \<le> ff_space (self\<lparr>ff_last := ff_last self + 1\<rparr>) \<and>
      fh_bitmap (hd_at (self\<lparr>ff_last := ff_last self + 1\<rparr>) m' (ff_head (self\<lparr>ff_last := ff_last self + 1\<rparr>))) = bm_words 32 k \<and>
      drop (k * ff_unit (self\<lparr>ff_last := ff_last self + 1\<rparr>))
        (blk_data (self\<lparr>ff_last := ff_last self + 1\<rparr>) m' (ff_head (self\<lparr>ff_last := ff_last self + 1\<rparr>))) =
      drop (k * ff_unit (self\<lparr>ff_last := ff_last self + 1\<rparr>)) (data_erased (self\<lparr>ff_last := ff_last self + 1\<rparr>))"
      using fifo_inv_at(5) [OF inv] head [OF op] by (simp add: fifo_open_def bd)
  qed (use win last in \<open>simp_all split: if_splits\<close>)
qed

context nor_flash begin

lemma gc_refines:
  assumes "ok d" "ff_geom self blk cap pg" "fifo_inv self (mem d)" "ff_tail self + 1 < 2 ^ 32"
  shows "\<exists>ret t d'. flash_fifo_gc_single fl d self = Some (ret, self\<lparr>ff_tail := t\<rparr>, d') \<and> ok d' \<and>
    t \<le> ff_tail self + 1 \<and> fifo_inv (self\<lparr>ff_tail := t\<rparr>) (mem d') \<and>
    fifo_queue (self\<lparr>ff_tail := t\<rparr>) (mem d') = fifo_queue self (mem d)"
proof -
  from gc_single_ok [OF assms(1,2,4)] obtain ret self' d' where g: "flash_fifo_gc_single fl d self = Some (ret, self', d')" "ok d'"
    "if mg_at self (mem d) (ff_tail self) = FLASH_FIFO_MAGIC_TAIL
     then ret = FLASH_FIFO_RET_OK \<and> self' = self\<lparr>ff_tail := ff_tail self + 1\<rparr> \<and>
       (\<forall>q. hd_at self (mem d') q = (if q mod ff_blocks self = ff_tail self mod ff_blocks self
         then fh_erased else hd_at self (mem d) q)) \<and>
       (\<forall>q. blk_data self (mem d') q = (if q mod ff_blocks self = ff_tail self mod ff_blocks self
         then data_erased self else blk_data self (mem d) q))
     else ret = FLASH_FIFO_RET_FAILED \<and> self' = self \<and> d' = d" by blast
  show ?thesis
  proof (cases "mg_at self (mem d) (ff_tail self) = FLASH_FIFO_MAGIC_TAIL")
    case True
    with g(3) have "fifo_inv (self\<lparr>ff_tail := ff_tail self + 1\<rparr>) (mem d')"
      "fifo_queue (self\<lparr>ff_tail := ff_tail self + 1\<rparr>) (mem d') = fifo_queue self (mem d)"
      using gc_update [OF assms(3) True, of "mem d'"] by auto
    with True g show ?thesis by (intro exI [of _ ret] exI [of _ "ff_tail self + 1"] exI [of _ d']) simp
  next
    case False
    with g assms(3) show ?thesis by (intro exI [of _ ret] exI [of _ "ff_tail self"] exI [of _ d']) simp
  qed
qed

text \<open>Removing gives the rest of the queue, and fails when there is no complete block.\<close>

lemma fifo_remove_empty:
  assumes "ok d" "ff_geom self blk cap pg" "fifo_inv self (mem d)" "fst (fifo_queue self (mem d)) = []"
  shows "fs_remove fl d self ''fifo'' = Some (FS_RET_FAILED, self, d)"
proof -
  note inv = assms(3) and win = fifo_inv_window [OF assms(3)]
  have "mg_at self (mem d) (ff_last self) \<noteq> FLASH_FIFO_MAGIC_FIFO"
  proof (cases "fifo_open self (mem d)")
    case True
    with assms(4) fifo_open_last [OF inv True] have "ff_last self = ff_head self" by (auto simp: fifo_queue_def)
    with True show ?thesis by (simp add: fifo_open_def)
  next
    case False
    with assms(4) win have "ff_last self = ff_head self + 1" by (simp add: fifo_queue_def split: if_splits)
    then show ?thesis using fifo_inv_at(4) [OF inv, of "ff_last self"] win by (simp add: mg_at_def)
  qed
  then show ?thesis using read_header_ok [OF assms(1,2) fh_wf_zero] by (simp add: fs_remove_def mg_at_def)
qed

lemma fifo_remove_refines:
  assumes "ok d" "ff_geom self blk cap pg" "fifo_inv self (mem d)" "fifo_queue self (mem d) = (b # full, p)"
    "ff_head self + 2 < 2 ^ 32"
  shows "\<exists>self' d'. fs_remove fl d self ''fifo'' = Some (FS_RET_OK, self', d') \<and> ok d' \<and>
    ff_geom self' blk cap pg \<and> ff_head self' = ff_head self \<and> fifo_inv self' (mem d') \<and>
    fifo_queue self' (mem d') = (full, p)"
proof -
  note inv = assms(3) and win = fifo_inv_window [OF assms(3)]
  let ?h = "hd_at self (mem d) (ff_last self)" and ?l = "ff_last self + 1"
  have le: "ff_last self < ff_head self + (if fifo_open self (mem d) then 0 else 1)"
    by (rule ccontr) (use assms(4) in \<open>auto simp: fifo_queue_def split: if_splits\<close>)
  have magic: "fh_magic ?h = FLASH_FIFO_MAGIC_FIFO"
  proof (cases "ff_last self < ff_head self")
    case True
    then show ?thesis using fifo_inv_at(2) [OF inv, of "ff_last self"] by (simp add: mg_at_def)
  next
    case False
    then have "ff_last self = ff_head self" "\<not> fifo_open self (mem d)" using le by (auto split: if_splits)
    then show ?thesis using fifo_inv_at(3) [OF inv] by (simp add: mg_at_def fifo_open_def)
  qed
  have wf: "fh_wf ?h" by (rule header_ok [OF assms(1,2)])
  then have "fh_wf (?h\<lparr>fh_magic := FLASH_FIFO_MAGIC_TAIL\<rparr>)" by (simp add: fh_wf_def)
  from write_header_ok [OF assms(1,2) this, of "ff_last self"] obtain d1 where
    d1: "write_header fl d self (ff_last self) (?h\<lparr>fh_magic := FLASH_FIFO_MAGIC_TAIL\<rparr>) = (FLASH_FIFO_RET_OK, d1)" "ok d1"
    "\<And>q. hd_at self (mem d1) q = (if q mod ff_blocks self = ff_last self mod ff_blocks self
      then fh_and ?h (?h\<lparr>fh_magic := FLASH_FIFO_MAGIC_TAIL\<rparr>) else hd_at self (mem d) q)"
    "\<And>q. blk_data self (mem d1) q = blk_data self (mem d) q" by blast
  have "fh_and ?h (?h\<lparr>fh_magic := FLASH_FIFO_MAGIC_TAIL\<rparr>) = ?h\<lparr>fh_magic := FLASH_FIFO_MAGIC_TAIL\<rparr>"
    using fh_and_magic [OF wf] magic by (simp add: magic_and)
  from last_update [OF inv assms(4) d1(3) [unfolded this] d1(4)] have
    1: "fifo_inv (self\<lparr>ff_last := ?l\<rparr>) (mem d1)" "fifo_queue (self\<lparr>ff_last := ?l\<rparr>) (mem d1) = (full, p)" .
  have b: "ff_tail self + 2 < 2 ^ 32" "ff_last self + 1 < 2 ^ 32" using le assms(5) win by (auto split: if_splits)
  from gc_refines [OF d1(2) _ 1(1)] assms(2) b obtain r2 t2 d2 where
    2: "flash_fifo_gc_single fl d1 (self\<lparr>ff_last := ?l\<rparr>) = Some (r2, self\<lparr>ff_last := ?l, ff_tail := t2\<rparr>, d2)" "ok d2"
      "t2 \<le> ff_tail self + 1" "fifo_inv (self\<lparr>ff_last := ?l, ff_tail := t2\<rparr>) (mem d2)"
      "fifo_queue (self\<lparr>ff_last := ?l, ff_tail := t2\<rparr>) (mem d2) = (full, p)" unfolding 1(2) by auto
  from gc_refines [OF 2(2) _ 2(4)] assms(2) b 2(3) obtain r3 t3 d3 where
    3: "flash_fifo_gc_single fl d2 (self\<lparr>ff_last := ?l, ff_tail := t2\<rparr>) = Some (r3, self\<lparr>ff_last := ?l, ff_tail := t3\<rparr>, d3)" "ok d3"
      "fifo_inv (self\<lparr>ff_last := ?l, ff_tail := t3\<rparr>) (mem d3)"
      "fifo_queue (self\<lparr>ff_last := ?l, ff_tail := t3\<rparr>) (mem d3) = (full, p)" unfolding 2(5) by auto
  have "fs_remove fl d self ''fifo'' = Some (FS_RET_OK, self\<lparr>ff_last := ?l, ff_tail := t3\<rparr>, d3)"
    using magic d1(1) 2(1) 3(1) b
    by (simp add: fs_remove_def read_header_ok [OF assms(1,2) fh_wf_zero] add32_small)
  with 3 assms(2) show ?thesis by (intro exI [of _ "self\<lparr>ff_last := ?l, ff_tail := t3\<rparr>"] exI [of _ d3]) simp
qed

end

end
