(* ===== verification/Flash_Fifo_Mount.thy ===== *)
theory Flash_Fifo_Mount
  imports Flash_Fifo_Remove
begin

text \<open>
  Formatting the flash FIFO, and finding it again on the device: after a restart the positions are those
  of before modulo the number of blocks, and the queue is the same.
\<close>

subsection \<open>Finding blocks\<close>

lemma find_upt:
  assumes "P x" "a \<le> x" "x < b" "\<And>y. a \<le> y \<Longrightarrow> y < x \<Longrightarrow> \<not> P y"
  shows "find P [a..<b] = Some (x :: nat)"
proof -
  have "[a..<b] = [a..<x] @ x # [Suc x..<b]"
    using assms(2,3) upt_add_eq_append [of a x "b - x"] upt_conv_Cons [of x b] by simp
  moreover have "find P (xs @ x # ys) = Some x" if "\<forall>y\<in>set xs. \<not> P y" for xs ys
    using that assms(1) by (induction xs) auto
  ultimately show ?thesis using assms(4) by simp
qed

lemma find_upt_None: "(\<And>y. a \<le> y \<Longrightarrow> y < b \<Longrightarrow> \<not> P y) \<Longrightarrow> find P [a..<b] = None"
  by (auto simp: find_None_iff)

context nor_flash begin

lemma find_block_from_ok:
  assumes "ok d" "ff_geom self blk cap pg" "fh_wf h"
  shows "find_block_from fl d self magic h i n = find (\<lambda>p. mg_at self (mem d) p = magic) [i..<i + n]"
  using assms(3)
proof (induction n arbitrary: i h)
  case (Suc n)
  have "[i..<i + Suc n] = i # [i + 1..<i + 1 + n]" by (simp add: upt_conv_Cons)
  then show ?case
    using Suc.IH [OF header_ok [OF assms(1,2)]] read_header_ok [OF assms(1,2) Suc.prems, of i]
    by (simp add: mg_at_def del: upt_Suc)
qed simp

lemma ff_blocks_small: "ff_geom self blk cap pg \<Longrightarrow> 4 * ff_blocks self < 2 ^ 32"
proof -
  assume g: "ff_geom self blk cap pg"
  then have "ff_blocks self * blk < 2 ^ 32" "4 \<le> blk" using total_bound by (simp_all add: ff_geom_def)
  moreover have "ff_blocks self * 4 \<le> ff_blocks self * blk" using \<open>4 \<le> blk\<close> by (rule mult_le_mono2)
  ultimately show ?thesis by linarith
qed

lemma find_block_ok:
  assumes "ok d" "ff_geom self blk cap pg" "start \<le> 3 * ff_blocks self"
  shows "find_block fl d self start magic =
    find (\<lambda>p. mg_at self (mem d) p = magic) [start..<start + ff_blocks self]"
proof -
  have "add32 (ff_blocks self) start = ff_blocks self + start"
    using ff_blocks_small [OF assms(2)] assms(3) by (intro add32_small) simp
  then show ?thesis by (simp add: find_block_def find_block_from_ok [OF assms(1,2) fh_wf_zero] add.commute)
qed

text \<open>Formatting.\<close>

lemma format_ok:
  assumes "ok d" "ff_geom self blk cap pg" "2 \<le> ff_blocks self"
  shows "\<exists>d'. flash_fifo_format fl d self = Some d' \<and> ok d' \<and>
    fifo_inv (self\<lparr>ff_tail := 0, ff_last := 0, ff_head := 0\<rparr>) (mem d') \<and>
    fifo_queue (self\<lparr>ff_tail := 0, ff_last := 0, ff_head := 0\<rparr>) (mem d') = ([], Some [])"
proof -
  let ?self = "self\<lparr>ff_tail := 0, ff_last := 0, ff_head := 0\<rparr>"
  have g: "ff_flash_size self = cap" "ff_blocks self * blk = cap" using assms(2) by (simp_all add: ff_geom_def)
  have "0 < cap" using g(2) assms(3) blk_pos by (metis mult_pos_pos less_le_trans zero_less_numeral)
  from erase_total_ok [OF assms(1) this] obtain d1 where
    d1: "fl_erase fl d 0 cap = Some (FLASH_RET_OK, d1)" "ok d1" "mem d1 = nor_erase (mem d) 0 cap" by auto
  have len: "length (mem d) = cap" by (rule length_mem [OF assms(1)])
  have h: "hd_at self (mem d1) q = fh_erased" for q
    using hdr_at_erase [of 0 cap "mem d" "ff_addr self q"] header_fits [OF assms(2), of q] len by (simp add: hd_at_def d1(3))
  have b: "blk_data self (mem d1) q = data_erased self" for q
    unfolding blk_data_def data_erased_def d1(3) using data_range [OF assms(2), of q] len by (intro nor_erase_inside) simp_all
  from prepare_head_ok [OF d1(2) assms(2), of 0] h obtain d2 where
    d2: "prepare_head fl d1 self 0 = (FLASH_FIFO_RET_OK, d2)" "ok d2"
    "\<And>q. q mod ff_blocks self \<noteq> 0 mod ff_blocks self \<Longrightarrow> hd_at self (mem d2) q = fh_erased"
    "mg_at self (mem d2) 0 = FLASH_FIFO_MAGIC_HEAD" "fh_bitmap (hd_at self (mem d2) 0) = bm_words 32 0"
    "\<And>q. blk_data self (mem d2) q = data_erased self" by (auto simp: b)
  have "fifo_inv ?self (mem d2)"
    using d2 assms(3) by (auto simp: fifo_inv_def intro!: exI [of _ 0])
  moreover have "bitmap_to_offset ?self (bm_words 32 0) = 0" using units_offset(2) [of ?self 0] assms(2) by simp
  then have "fifo_queue ?self (mem d2) = ([], Some [])" using d2 by (simp add: fifo_queue_def fifo_open_def)
  ultimately show ?thesis using d1 d2(1,2) g by (simp add: flash_fifo_format_def)
qed

end

subsection \<open>Positions count modulo the number of blocks\<close>

lemma shift_mod:
  assumes "a mod n = b mod n" "b \<le> q + a"
  shows "(q + a - b) mod n = (q :: nat) mod n"
proof (cases "b \<le> a")
  case True
  then have "n dvd a - b" using mod_eq_dvd_iff_nat [of b a n] assms(1) by simp
  then obtain c where "a - b = n * c" by (auto simp: dvd_def)
  then have "q + a - b = q + n * c" using True by simp
  then show ?thesis by simp
next
  case False
  then have "n dvd b - a" using mod_eq_dvd_iff_nat [of a b n] assms(1) by simp
  then obtain c where "b - a = n * c" by (auto simp: dvd_def)
  then have "q = (q + a - b) + n * c" using False assms(2) by simp
  then show ?thesis by (metis mod_mult_self2)
qed

definition ff_shift :: "flash_fifo \<Rightarrow> nat \<Rightarrow> nat \<Rightarrow> flash_fifo" where
  "ff_shift self a b = self\<lparr>ff_tail := ff_tail self + a - b, ff_last := ff_last self + a - b, ff_head := ff_head self + a - b\<rparr>"

lemma ff_shift_simps [simp]:
  "ff_tail (ff_shift self a b) = ff_tail self + a - b" "ff_last (ff_shift self a b) = ff_last self + a - b"
  "ff_head (ff_shift self a b) = ff_head self + a - b" "ff_blocks (ff_shift self a b) = ff_blocks self"
  "hd_at (ff_shift self a b) = hd_at self" "mg_at (ff_shift self a b) = mg_at self"
  "blk_data (ff_shift self a b) = blk_data self" "data_erased (ff_shift self a b) = data_erased self"
  "ff_unit (ff_shift self a b) = ff_unit self" "ff_space (ff_shift self a b) = ff_space self"
  "bitmap_to_offset (ff_shift self a b) = bitmap_to_offset self"
  by (simp_all add: ff_shift_def bitmap_to_offset_def ff_unit_def ff_space_def fun_eq_iff)

lemma shift_inv:
  assumes inv: "fifo_inv self m" and ab: "a mod ff_blocks self = b mod ff_blocks self" "b \<le> ff_tail self + a"
    and last: "ff_last self \<le> ff_head self"
  shows "fifo_inv (ff_shift self a b) m" "fifo_queue (ff_shift self a b) m = fifo_queue self m"
proof -
  note win = fifo_inv_window [OF inv]
  have sh: "hd_at self m (q + a - b) = hd_at self m q" "blk_data self m (q + a - b) = blk_data self m q"
    "mg_at self m (q + a - b) = mg_at self m q" if "ff_tail self \<le> q" for q
    using shift_mod [OF ab(1), of q] ab(2) that hd_at_mod [of "q + a - b" self q m] blk_data_mod [of "q + a - b" self q m]
    by (simp_all add: mg_at_def)
  have unsh: "hd_at self m i = hd_at self m (i + b - a)" "blk_data self m i = blk_data self m (i + b - a)"
    "mg_at self m i = mg_at self m (i + b - a)" if "ff_tail self + a - b \<le> i" for i
  proof -
    have "i = (i + b - a) + a - b" "ff_tail self \<le> i + b - a" using that ab(2) by simp_all
    then show "hd_at self m i = hd_at self m (i + b - a)" "blk_data self m i = blk_data self m (i + b - a)"
      "mg_at self m i = mg_at self m (i + b - a)" using sh [of "i + b - a"] by simp_all
  qed
  have head: "hd_at self m (ff_head self + a - b) = hd_at self m (ff_head self)"
    "blk_data self m (ff_head self + a - b) = blk_data self m (ff_head self)"
    "mg_at self m (ff_head self + a - b) = mg_at self m (ff_head self)" using sh [of "ff_head self"] win last by simp_all
  show "fifo_inv (ff_shift self a b) m"
    unfolding fifo_inv_def ff_shift_simps
  proof (intro conjI allI impI; (elim conjE)?)
    fix i assume "ff_tail self + a - b \<le> i" "i < ff_last self + a - b"
    then show "mg_at self m i = FLASH_FIFO_MAGIC_TAIL" using unsh [of i] fifo_inv_at(1) [OF inv, of "i + b - a"] ab(2) by simp
  next
    fix i assume "ff_last self + a - b \<le> i" "i < ff_head self + a - b"
    then show "mg_at self m i = FLASH_FIFO_MAGIC_FIFO"
      using unsh [of i] fifo_inv_at(2) [OF inv, of "i + b - a"] ab(2) win by simp
  next
    show "mg_at self m (ff_head self + a - b) = FLASH_FIFO_MAGIC_FIFO \<or> mg_at self m (ff_head self + a - b) = FLASH_FIFO_MAGIC_HEAD"
      unfolding head using fifo_inv_at(3) [OF inv last] by blast
  next
    fix i assume "ff_head self + a - b < i" "i < ff_tail self + a - b + ff_blocks self"
    then show "hd_at self m i = fh_erased" "blk_data self m i = data_erased self"
      using unsh [of i] fifo_inv_at(4,6) [OF inv, of "i + b - a"] ab(2) win last by simp_all
  next
    assume "mg_at self m (ff_head self + a - b) = FLASH_FIFO_MAGIC_HEAD"
    then show "\<exists>k. k * ff_unit self \<le> ff_space self \<and> fh_bitmap (hd_at self m (ff_head self + a - b)) = bm_words 32 k \<and>
      drop (k * ff_unit self) (blk_data self m (ff_head self + a - b)) = drop (k * ff_unit self) (data_erased self)"
      unfolding head by (rule fifo_inv_at(5) [OF inv])
  qed (use win ab(2) last in simp_all)
  have op: "fifo_open (ff_shift self a b) m = fifo_open self m" by (simp add: fifo_open_def head)
  have "map (blk_data self m) [ff_last self + a - b..<ff_head self + a - b + c] = map (blk_data self m) [ff_last self..<ff_head self + c]" for c
  proof (rule nth_equalityI)
    fix i assume "i < length (map (blk_data self m) [ff_last self + a - b..<ff_head self + a - b + c])"
    then show "map (blk_data self m) [ff_last self + a - b..<ff_head self + a - b + c] ! i =
      map (blk_data self m) [ff_last self..<ff_head self + c] ! i"
      using sh(2) [of "ff_last self + i"] win ab(2) last by (simp add: algebra_simps)
  qed (use win ab(2) last in simp)
  from this [of 0] this [of 1] show "fifo_queue (ff_shift self a b) m = fifo_queue self m"
    by (simp add: fifo_queue_def op head)
qed

subsection \<open>Finding the FIFO on the device\<close>

lemma window_position: "0 < n \<Longrightarrow> \<exists>q\<ge>t. q < t + n \<and> q mod n = (p :: nat) mod n"
proof (intro exI [of _ "t + (p + (n - t mod n)) mod n"] conjI)
  assume n: "0 < n"
  have "n * (t div n) + t mod n = t" "t mod n < n" using n by simp_all
  then have "t + (p + (n - t mod n)) = p + (n * (t div n) + n)" by linarith
  then have "t + (p + (n - t mod n)) = p + n * (t div n + 1)" by simp
  then have "(t + (p + (n - t mod n))) mod n = p mod n" by (simp only: mod_mult_self2)
  then show "(t + (p + (n - t mod n)) mod n) mod n = p mod n" by (simp add: mod_add_right_eq)
qed simp_all

context nor_flash begin

text \<open>What \<open>find_fifo\<close> does when the first erased block is \<open>p\<close> and the FIFO lies behind it.\<close>

lemma find_fifo_window:
  assumes "ok d" "ff_geom self blk cap pg"
    and p: "find_block fl d self 0 FLASH_FIFO_MAGIC_ERASED = Some p" "p < ff_blocks self"
    and win: "p < T" "T \<le> L" "L \<le> H" "H + 1 \<le> p + ff_blocks self"
    and mg: "\<And>i. p \<le> i \<Longrightarrow> i < T \<Longrightarrow> mg_at self (mem d) i = FLASH_FIFO_MAGIC_ERASED"
      "\<And>i. T \<le> i \<Longrightarrow> i < L \<Longrightarrow> mg_at self (mem d) i = FLASH_FIFO_MAGIC_TAIL"
      "\<And>i. L \<le> i \<Longrightarrow> i < H \<Longrightarrow> mg_at self (mem d) i = FLASH_FIFO_MAGIC_FIFO"
      "mg_at self (mem d) H = FLASH_FIFO_MAGIC_FIFO \<or> mg_at self (mem d) H = FLASH_FIFO_MAGIC_HEAD"
      "\<And>i. H < i \<Longrightarrow> i < T + ff_blocks self \<Longrightarrow> mg_at self (mem d) i = FLASH_FIFO_MAGIC_ERASED"
  shows "find_fifo fl d self = (FLASH_FIFO_RET_OK, self\<lparr>ff_tail := T, ff_last := L, ff_head := H\<rparr>)"
proof -
  let ?M = "mg_at self (mem d)" and ?N = "ff_blocks self"
  have fb: "find_block fl d self' s magic = find (\<lambda>i. ?M i = magic) [s..<s + ?N]"
    if "s \<le> H" "ff_geom self' blk cap pg" "mg_at self' = mg_at self" "ff_blocks self' = ?N" for self' s magic
    using find_block_ok [OF assms(1) that(2), of s magic] that win p(2) by simp
  have fifo: "?M L = FLASH_FIFO_MAGIC_FIFO \<or> L = H \<and> ?M H = FLASH_FIFO_MAGIC_HEAD" using mg(3) [of L] mg(4) win by force
  \<comment> \<open>the blocks after \<open>H\<close>, up to the length of the FIFO from a start in the window\<close>
  have none: "?M i \<noteq> magic" if "s \<le> i" "i < s + ?N" "s \<le> T" "p \<le> s" "magic \<noteq> FLASH_FIFO_MAGIC_ERASED"
    "i < T \<or> H < i" for i s magic
    using that mg(1) [of i] mg(5) [of i] by auto
  have tail: "find (\<lambda>i. ?M i = FLASH_FIFO_MAGIC_TAIL) [p..<p + ?N] = (if T < L then Some T else None)"
  proof (cases "T < L")
    case True
    then show ?thesis using find_upt [of "\<lambda>i. ?M i = FLASH_FIFO_MAGIC_TAIL" T p "p + ?N"] mg(1) mg(2) [of T] win by simp
  next
    case False
    have "?M i \<noteq> FLASH_FIFO_MAGIC_TAIL" if "p \<le> i" "i < p + ?N" for i
      using that False win mg(3) [of i] mg(4) none [of p i FLASH_FIFO_MAGIC_TAIL]
      by (cases "i = H"; cases "i < T \<or> H < i") auto
    then show ?thesis using False by (simp add: find_upt_None)
  qed
  have first: "(case find (\<lambda>i. ?M i = FLASH_FIFO_MAGIC_FIFO) [s..<s + ?N] of
       None \<Rightarrow> find (\<lambda>i. ?M i = FLASH_FIFO_MAGIC_HEAD) [s..<s + ?N] | Some q \<Rightarrow> Some q) = Some L"
    if s: "s = T \<or> s = p \<and> T = L" for s
  proof -
    have bounds: "p \<le> s" "s \<le> T" "s \<le> L" "H < s + ?N" using s win by auto
    have before: "?M i = FLASH_FIFO_MAGIC_ERASED \<or> ?M i = FLASH_FIFO_MAGIC_TAIL" if "s \<le> i" "i < L" for i
      using that bounds mg(1) [of i] mg(2) [of i] by (cases "i < T") auto
    show ?thesis
    proof (cases "?M L = FLASH_FIFO_MAGIC_FIFO")
      case True
      have "find (\<lambda>i. ?M i = FLASH_FIFO_MAGIC_FIFO) [s..<s + ?N] = Some L"
        using True bounds win before by (intro find_upt) fastforce+
      then show ?thesis by simp
    next
      case False
      with fifo have H: "L = H" "?M H = FLASH_FIFO_MAGIC_HEAD" by auto
      have "?M i \<noteq> FLASH_FIFO_MAGIC_FIFO" if "s \<le> i" "i < s + ?N" for i
        using that H before [of i] none [of s i FLASH_FIFO_MAGIC_FIFO] bounds by (cases "i < H"; cases "i = H") fastforce+
      then have "find (\<lambda>i. ?M i = FLASH_FIFO_MAGIC_FIFO) [s..<s + ?N] = None" by (rule find_upt_None)
      moreover have "find (\<lambda>i. ?M i = FLASH_FIFO_MAGIC_HEAD) [s..<s + ?N] = Some H"
        using H bounds win before by (intro find_upt) fastforce+
      ultimately show ?thesis using H by simp
    qed
  qed
  have head: "find_head fl d self' L = (FLASH_FIFO_RET_OK, self'\<lparr>ff_head := H\<rparr>)"
    if "ff_geom self' blk cap pg" "mg_at self' = mg_at self" "ff_blocks self' = ?N" for self'
  proof (cases "?M H = FLASH_FIFO_MAGIC_HEAD")
    case True
    have "find (\<lambda>i. ?M i = FLASH_FIFO_MAGIC_HEAD) [L..<L + ?N] = Some H"
      using True win mg(3) by (intro find_upt) fastforce+
    then show ?thesis using fb [OF _ that, of L] win by (simp add: find_head_def)
  next
    case False
    then have H: "?M H = FLASH_FIFO_MAGIC_FIFO" using mg(4) by simp
    have wrap: "?M i = ?M (i - ?N)" if "?N \<le> i" for i using that by (intro mg_at_mod) (simp add: le_mod_geq)
    have "?M i \<noteq> FLASH_FIFO_MAGIC_HEAD" if "L \<le> i" "i < L + ?N" for i
    proof -
      consider "i < H" | "i = H" | "H < i" "i < T + ?N" | "T + ?N \<le> i" by linarith
      then show ?thesis
      proof cases
        case 4
        then have "?M (i - ?N) = FLASH_FIFO_MAGIC_TAIL" using that by (intro mg(2)) auto
        then show ?thesis using wrap [of i] 4 by simp
      qed (use mg(3) [of i] mg(5) [of i] H that in auto)
    qed
    then have "find (\<lambda>i. ?M i = FLASH_FIFO_MAGIC_HEAD) [L..<L + ?N] = None" by (rule find_upt_None)
    moreover have "find (\<lambda>i. ?M i = FLASH_FIFO_MAGIC_ERASED) [L..<L + ?N] = Some (H + 1)"
    proof (rule find_upt)
      show "?M (H + 1) = FLASH_FIFO_MAGIC_ERASED" using mg(5) [of "H + 1"] win by simp
      show "?M y \<noteq> FLASH_FIFO_MAGIC_ERASED" if "L \<le> y" "y < H + 1" for y
        using that mg(3) [of y] H by (cases "y = H") auto
    qed (use win in auto)
    moreover have "sub32 (H + 1) 1 = H" using ff_blocks_small [OF assms(2)] win p(2) by (simp add: sub32_small)
    ultimately show ?thesis using fb [OF _ that, of L] win by (simp add: find_head_def)
  qed
  show ?thesis
  proof (cases "T < L")
    case True
    have "find_fifo fl d self = find_head fl d (self\<lparr>ff_tail := T, ff_last := L\<rparr>) L"
      using p(1) tail first [of T] fb [of p self FLASH_FIFO_MAGIC_TAIL]
        fb [of T "self\<lparr>ff_tail := T\<rparr>" FLASH_FIFO_MAGIC_FIFO] fb [of T "self\<lparr>ff_tail := T\<rparr>" FLASH_FIFO_MAGIC_HEAD] True win assms(2)
      by (simp add: find_fifo_def Let_def cong: option.case_cong)
    then show ?thesis using head [of "self\<lparr>ff_tail := T, ff_last := L\<rparr>"] assms(2) by simp
  next
    case False
    then have "T = L" using win by simp
    then have "find_fifo fl d self = find_head fl d (self\<lparr>ff_tail := T, ff_last := L\<rparr>) L"
      using p(1) tail first [of p] fb [of p self] False win assms(2)
      by (simp add: find_fifo_def Let_def cong: option.case_cong)
    then show ?thesis using head [of "self\<lparr>ff_tail := T, ff_last := L\<rparr>"] assms(2) by simp
  qed
qed

text \<open>After a restart the FIFO is found again, with the same queue: the positions may differ by a multiple of the
  number of blocks.\<close>

lemma find_fifo_ok:
  assumes "ok d" "ff_geom self blk cap pg" "fifo_inv (self\<lparr>ff_tail := t, ff_last := l, ff_head := h\<rparr>) (mem d)" "l \<le> h"
  defines "old \<equiv> self\<lparr>ff_tail := t, ff_last := l, ff_head := h\<rparr>"
  shows "\<exists>self'. find_fifo fl d self = (FLASH_FIFO_RET_OK, self') \<and> ff_geom self' blk cap pg \<and>
    ff_read_offset self' = ff_read_offset self \<and> fifo_inv self' (mem d) \<and> fifo_queue self' (mem d) = fifo_queue old (mem d)"
proof -
  note inv = assms(3) [folded old_def]
  let ?N = "ff_blocks self" and ?M = "mg_at self (mem d)"
  have N: "0 < ?N" using assms(2) by (simp add: ff_geom_def)
  have mg: "mg_at old = mg_at self" "ff_blocks old = ?N" "ff_last old \<le> ff_head old" using assms(4) by (simp_all add: old_def)
  note win = fifo_inv_window [OF inv] and at = fifo_inv_at [OF inv]
  let ?P = "\<lambda>i. ?M i = FLASH_FIFO_MAGIC_ERASED"
  have "hd_at old (mem d) (ff_head old + 1) = fh_erased" using at(4) [of "ff_head old + 1"] win by simp
  then have "?P (ff_head old + 1)" unfolding mg(1) [symmetric] by (simp only: mg_at_def mg_erased)
  then have "?P ((ff_head old + 1) mod ?N)" using mg_at_mod [of "(ff_head old + 1) mod ?N" self "ff_head old + 1"] by simp
  moreover have "(ff_head old + 1) mod ?N < ?N" using N by simp
  ultimately have "find ?P [0..<?N] \<noteq> None" unfolding find_None_iff by auto
  then obtain p where p: "find ?P [0..<?N] = Some p" by auto
  then have pP: "p < ?N" "?P p" by (auto simp: find_Some_iff)
  have fb: "find_block fl d self 0 FLASH_FIFO_MAGIC_ERASED = Some p"
    using find_block_ok [OF assms(1,2), of 0] p by simp
  from window_position [OF N] obtain q where q: "ff_tail old \<le> q" "q < ff_tail old + ?N" "q mod ?N = p mod ?N" by blast
  have "?P q" using pP(2) mg_at_mod [OF q(3)] by simp
  then have qh: "ff_head old < q" using fifo_inv_used [OF inv q(1)] mg by (metis not_le)
  let ?s = "ff_shift old (p + ?N) q"
  have ab: "(p + ?N) mod ff_blocks old = q mod ff_blocks old" "q \<le> ff_tail old + (p + ?N)" using q(2,3) mg(2) by simp_all
  note sh = shift_inv [OF inv ab mg(3)]
  note win' = fifo_inv_window [OF sh(1)] and at' = fifo_inv_at [OF sh(1)]
  have "find_fifo fl d self = (FLASH_FIFO_RET_OK, self\<lparr>ff_tail := ff_tail ?s, ff_last := ff_last ?s, ff_head := ff_head ?s\<rparr>)"
  proof (rule find_fifo_window [OF assms(1,2) fb pP(1)])
    show "p < ff_tail ?s" "ff_tail ?s \<le> ff_last ?s" "ff_last ?s \<le> ff_head ?s" "ff_head ?s + 1 \<le> p + ?N"
      using q qh win mg by simp_all
    show "?M i = FLASH_FIFO_MAGIC_ERASED" if "p \<le> i" "i < ff_tail ?s" for i
    proof -
      have "ff_head ?s < i + ?N" "i + ?N < ff_tail ?s + ff_blocks ?s"
        using that qh q win mg by simp_all
      then have "mg_at ?s (mem d) (i + ?N) = FLASH_FIFO_MAGIC_ERASED"
        using at'(4) [of "i + ?N"] by (simp only: mg_at_def mg_erased)
      then show ?thesis using mg_at_mod [of "i + ?N" self i "mem d"] mg by simp
    qed
    show "?M i = FLASH_FIFO_MAGIC_TAIL" if "ff_tail ?s \<le> i" "i < ff_last ?s" for i
      using at'(1) [OF that] mg by simp
    show "?M i = FLASH_FIFO_MAGIC_FIFO" if "ff_last ?s \<le> i" "i < ff_head ?s" for i
      using at'(2) [OF that] mg by simp
    show "?M (ff_head ?s) = FLASH_FIFO_MAGIC_FIFO \<or> ?M (ff_head ?s) = FLASH_FIFO_MAGIC_HEAD"
      using at'(3) mg by fastforce
    show "?M i = FLASH_FIFO_MAGIC_ERASED" if "ff_head ?s < i" "i < ff_tail ?s + ?N" for i
    proof -
      have "hd_at ?s (mem d) i = fh_erased" using at'(4) [of i] that mg(2) by simp
      then have "mg_at ?s (mem d) i = FLASH_FIFO_MAGIC_ERASED" by (simp only: mg_at_def mg_erased)
      then show ?thesis using mg by simp
    qed
  qed
  moreover have "self\<lparr>ff_tail := ff_tail ?s, ff_last := ff_last ?s, ff_head := ff_head ?s\<rparr> = ?s"
    by (simp add: ff_shift_def old_def)
  ultimately show ?thesis using sh assms(2) by (auto simp: ff_shift_def old_def)
qed

end

end
