(* ===== verification/Flash_Fifo_Top.thy ===== *)
theory Flash_Fifo_Top
  imports Flash_Fifo_Mount
begin

text \<open>
  The flash FIFO over any flash memory that works: initialisation, and what it promises its clients.
\<close>

subsection \<open>Initialisation\<close>

context nor_flash begin

lemma setup_ok:
  assumes "ok d" "ff_geom self blk cap pg" "fl_get_size fl d 3 = (r, ff_page_size self, ops)"
  shows "flash_fifo_setup fl d = Some (self\<lparr>ff_tail := 0, ff_last := 0, ff_head := 0, ff_read_offset := 0\<rparr>)"
proof -
  have "ff_blocks self * blk = cap" using assms(2) by (simp add: ff_geom_def)
  then have "cap div blk = ff_blocks self" using blk_pos by (metis nonzero_mult_div_cancel_right less_irrefl)
  then show ?thesis
    using size_total [OF assms(1)] size_block [OF assms(1)] assms(2,3) blk_pos
    by (auto simp: flash_fifo_setup_def ff_geom_def)
qed

lemma init_restart:
  assumes "ok d" "ff_geom self blk cap pg" "fl_get_size fl d 3 = (r, ff_page_size self, ops)"
    "fifo_inv self (mem d)" "ff_last self \<le> ff_head self"
  shows "\<exists>self'. flash_fifo_init fl d True True = Some (FLASH_FIFO_RET_OK, self', d) \<and> ff_geom self' blk cap pg \<and>
    fifo_inv self' (mem d) \<and> fifo_queue self' (mem d) = fifo_queue self (mem d)"
proof -
  let ?z = "self\<lparr>ff_tail := 0, ff_last := 0, ff_head := 0, ff_read_offset := 0\<rparr>"
  let ?o = "?z\<lparr>ff_tail := ff_tail self, ff_last := ff_last self, ff_head := ff_head self\<rparr>"
  have o: "?o = self\<lparr>ff_read_offset := 0\<rparr>" by simp
  have q: "fifo_queue (self\<lparr>ff_read_offset := 0\<rparr>) m = fifo_queue self m" for m
    by (simp add: fifo_queue_def fifo_open_def bitmap_to_offset_def)
  from find_fifo_ok [OF assms(1), of ?z "ff_head self" "ff_last self" "ff_tail self", unfolded o q] assms(2,4,5)
  obtain self' where "find_fifo fl d ?z = (FLASH_FIFO_RET_OK, self')" "ff_geom self' blk cap pg"
    "fifo_inv self' (mem d)" "fifo_queue self' (mem d) = fifo_queue self (mem d)" by auto
  then show ?thesis by (simp add: flash_fifo_init_def setup_ok [OF assms(1-3)])
qed

text \<open>A device that was never formatted is accepted as it is: every position is 0, and no block is a head.\<close>

lemma init_blank:
  assumes "ok d" "ff_geom self blk cap pg" "fl_get_size fl d 3 = (r, ff_page_size self, ops)"
    and blank: "\<And>p. hd_at self (mem d) p = fh_erased"
  shows "\<exists>self'. flash_fifo_init fl d True True = Some (FLASH_FIFO_RET_OK, self', d) \<and>
    ff_tail self' = 0 \<and> ff_last self' = 0 \<and> ff_head self' = 0 \<and>
    mg_at self' (mem d) (ff_head self') = FLASH_FIFO_MAGIC_ERASED"
proof -
  let ?z = "self\<lparr>ff_tail := 0, ff_last := 0, ff_head := 0, ff_read_offset := 0\<rparr>"
  have g: "ff_geom ?z blk cap pg" using assms(2) by simp
  then have N: "0 < ff_blocks ?z" by (simp add: ff_geom_def)
  have mg: "mg_at self (mem d) p = FLASH_FIFO_MAGIC_ERASED" for p by (simp add: mg_at_def blank)
  have "find_block fl d ?z 0 FLASH_FIFO_MAGIC_ERASED = Some 0"
    unfolding find_block_ok [OF assms(1) g, of 0, simplified] using N by (intro find_upt) (simp_all add: mg)
  moreover have "find_block fl d ?z 0 magic = None" if "magic \<noteq> FLASH_FIFO_MAGIC_ERASED" for magic
    unfolding find_block_ok [OF assms(1) g, of 0, simplified] using that by (intro find_upt_None) (simp add: mg)
  ultimately have "find_fifo fl d ?z = (FLASH_FIFO_RET_EMPTY, ?z)" by (simp add: find_fifo_def)
  then show ?thesis using mg [of 0] by (simp add: flash_fifo_init_def setup_ok [OF assms(1-3)])
qed

text \<open>When the device is full and everything has been removed, \<open>last\<close> is behind \<open>head\<close>: reading then gives the
  contents of an erased block, as if it were data.\<close>

lemma read_past_head:
  assumes "ok d" "ff_geom self blk cap pg" "fifo_inv self (mem d)" "ff_last self = ff_head self + 1"
    "ff_read_offset self = 0" "0 < length buf" "length buf \<le> ff_page_size self"
  shows "flash_fifo_read fl d self buf =
    Some (FLASH_FIFO_RET_OK, self\<lparr>ff_read_offset := length buf\<rparr>, replicate (length buf) (- 1), length buf)"
proof -
  note sz = ff_size_small [OF assms(2)] and u = ff_geom_units [OF assms(2) blk_pos]
  let ?n = "length buf" and ?P = "ff_page_size self" and ?S = "ff_space self"
  have e: "sub32 (ff_block_size self) ?P = ?S" using sz by (simp add: sub32_small ff_space_def)
  have e0: "sub32 x 0 = x" if "x < 2 ^ 32" for x using that by (simp add: sub32_small)
  have P: "?P < 2 ^ 32" "?S < 2 ^ 32" using sz by simp_all
  define E where "E = (if ?S > ?P then ?P else ?S)"
  have E: "E - E mod ?P = ?P" using u(4,6) by (auto simp: E_def)
  have a: "add32 0 ?P = ?P" "add32 0 ?n = ?n" using P assms(7) by (simp_all add: add32_small)
  have "ff_addr self (ff_last self) + ?P + ?S \<le> cap" "0 < ?S" by (rule data_range [OF assms(2)]) (rule u(5))
  then have r: "ff_addr self (ff_last self) + ?P < cap" "ff_addr self (ff_last self) + ?P + ?n \<le> cap"
    using assms(7) u(6) by simp_all
  have "take ?n (drop (ff_addr self (ff_last self) + ?P) (mem d)) = take ?n (blk_data self (mem d) (ff_last self))"
    using assms(7) u(6) by (simp add: blk_data_def min_absorb1)
  also have "blk_data self (mem d) (ff_last self) = data_erased self"
    using fifo_inv_at(6) [OF assms(3), of "ff_last self"] fifo_inv_window [OF assms(3)] assms(4) by simp
  also have "take ?n (data_erased self) = replicate ?n (- 1)" using assms(7) u(6) by (simp add: data_erased_def min_absorb1)
  finally have rd: "fl_read fl d (ff_addr self (ff_last self) + ?P) buf = (FLASH_RET_OK, replicate ?n (- 1))"
    using read_ok [OF assms(1) r] assms(6) by simp
  have "add32 (add32 (ff_addr self (ff_last self)) ?P) 0 = ff_addr self (ff_last self) + ?P"
    using r total_bound by (simp add: add32_small)
  then have blk: "block_read_data fl d self 0 buf = (FLASH_FIFO_RET_OK, replicate ?n (- 1))"
    by (simp add: block_read_data_def rd)
  have ifE: "(if sub32 ?S 0 > ?P then add32 0 ?P else ?S) = E" using P by (simp add: E_def e0 a)
  have c: "(ff_head self = ff_last self) = False" "(?P = 0) = False" "(if ?n < ?P then ?n else ?P) = ?n"
    "take ?n buf = buf" "drop ?n buf = []" using assms(4,7) sz(3) by auto
  show ?thesis
    by (simp only: flash_fifo_read_def Let_def e assms(5) ifE E e0 [OF P(1)] c if_False blk prod.case a(2) append_Nil2) simp
qed

end

subsection \<open>A FIFO on a chip\<close>

definition example_fifo :: flash_fifo where
  "example_fifo = \<lparr>ff_flash_size = 65536, ff_block_size = 4096, ff_page_size = 256, ff_blocks = 16,
     ff_tail = 0, ff_last = 0, ff_head = 0, ff_read_offset = 0\<rparr>"

lemma example_geom:
  "ff_geom example_fifo 4096 65536 256" "ff_units example_fifo" "ff_space example_fifo = 3840" "ff_unit example_fifo = 4"
  "fifo_room example_fifo"
  by (simp_all add: example_fifo_def ff_geom_def ff_units_def ff_unit_def ff_space_def fifo_room_def FLASH_FIFO_BITMAP_SIZE_def)

lemma example_formatted:
  "\<exists>d. flash_fifo_format (chip_flash 65536) (replicate 65536 0) example_fifo = Some d \<and> length d = 65536 \<and>
    fifo_inv example_fifo d \<and> fifo_queue example_fifo d = ([], Some [])"
proof -
  have "example_fifo\<lparr>ff_tail := 0, ff_last := 0, ff_head := 0\<rparr> = example_fifo" "2 \<le> ff_blocks example_fifo"
    by (simp_all add: example_fifo_def)
  then show ?thesis using chip.format_ok [of "replicate 65536 0" example_fifo] example_geom(1) by simp
qed

lemma example_block:
  "\<exists>self d. length d = 65536 \<and> ff_geom self 4096 65536 256 \<and> ff_head self \<le> 1 \<and> fifo_inv self d \<and>
    fifo_queue self d = ([replicate 3840 7], Some [])"
proof -
  obtain d where d: "length d = 65536" "fifo_inv example_fifo d" "fifo_queue example_fifo d = ([], Some [])"
    using example_formatted by blast
  have "2 \<le> ff_blocks example_fifo" "ff_head example_fifo + 2 < 2 ^ 32" "4 dvd length (replicate 4000 (7 :: u8))"
    by (simp_all add: example_fifo_def)
  with chip.fifo_write_refines [of d example_fifo "replicate 4000 7"] d example_geom
  obtain ret self' d' n where w: "length d' = 65536" "ff_geom self' 4096 65536 256" "ff_head self' \<le> ff_head example_fifo + 1"
    "fifo_inv self' d'" "(ret, fifo_queue self' d', n) = queue_write 3840 True ([], Some []) (replicate 4000 7)"
    unfolding example_geom id_def by auto
  then have "fifo_queue self' d' = ([replicate 3840 7], Some [])" by (simp add: queue_write_def)
  moreover have "ff_head self' \<le> 1" using w(3) by (simp add: example_fifo_def)
  ultimately show ?thesis using w by blast
qed

subsection \<open>What the FIFO promises\<close>

text \<open>Property C5. Writing whole units to the FIFO appends them to its queue of blocks: all of them when the head has
  room, else what fits, and then the next block is opened (or the FIFO is full). The invariant of the FIFO is kept.\<close>

lemma fifo_write_appends:
  assumes "nor_flash fl ok mem blk cap pg" "ok d" "ff_geom self blk cap pg" "ff_units self" "fifo_inv self (mem d)"
    "ff_unit self dvd length buf" "2 \<le> ff_blocks self" "ff_head self + 2 < 2 ^ 32"
  shows "\<exists>ret self' d' n. flash_fifo_write fl d self buf = Some (ret, self', d', n) \<and> ok d' \<and>
    ff_geom self' blk cap pg \<and> ff_units self' \<and> ff_head self' \<le> ff_head self + 1 \<and> fifo_inv self' (mem d') \<and>
    (ret, fifo_queue self' (mem d'), n) = queue_write (ff_space self) (fifo_room self) (fifo_queue self (mem d)) buf"
  using nor_flash.fifo_write_refines [OF assms] .

lemma fifo_write_appends_witness:
  "\<exists>d self' d'. flash_fifo_format (chip_flash 65536) (replicate 65536 0) example_fifo = Some d \<and>
    flash_fifo_write (chip_flash 65536) d example_fifo (replicate 4000 7) = Some (FLASH_FIFO_RET_OK, self', d', 3840) \<and>
    fifo_queue self' d' = ([replicate 3840 7], Some [])"
proof -
  obtain d where d: "flash_fifo_format (chip_flash 65536) (replicate 65536 0) example_fifo = Some d" "length d = 65536"
    "fifo_inv example_fifo d" "fifo_queue example_fifo d = ([], Some [])" using example_formatted by blast
  from fifo_write_appends [OF chip_nor_flash, of 65536 d example_fifo "replicate 4000 7"] d(2,3) example_geom
  obtain ret self' d' n where w: "flash_fifo_write (chip_flash 65536) d example_fifo (replicate 4000 7) = Some (ret, self', d', n)"
    "(ret, fifo_queue self' d', n) = queue_write 3840 True ([], Some []) (replicate 4000 7)"
    unfolding example_geom id_def d(4) by (auto simp: example_fifo_def)
  then have "ret = FLASH_FIFO_RET_OK" "n = 3840" "fifo_queue self' d' = ([replicate 3840 7], Some [])"
    by (simp_all add: queue_write_def)
  with d w show ?thesis by blast
qed

text \<open>Property C24. Removing takes the first complete block off the queue and keeps the rest; it fails, and changes nothing,
  exactly when there is no complete block.\<close>

lemma fifo_remove_takes_first:
  assumes "nor_flash fl ok mem blk cap pg" "ok d" "ff_geom self blk cap pg" "fifo_inv self (mem d)" "ff_head self + 2 < 2 ^ 32"
  shows "case fst (fifo_queue self (mem d)) of
      [] \<Rightarrow> fs_remove fl d self ''fifo'' = Some (FS_RET_FAILED, self, d)
    | b # full \<Rightarrow> \<exists>self' d'. fs_remove fl d self ''fifo'' = Some (FS_RET_OK, self', d') \<and> ok d' \<and>
        ff_geom self' blk cap pg \<and> ff_head self' = ff_head self \<and> fifo_inv self' (mem d') \<and>
        fifo_queue self' (mem d') = (full, snd (fifo_queue self (mem d)))"
  using nor_flash.fifo_remove_empty [OF assms(1-4)] nor_flash.fifo_remove_refines [OF assms(1-4) _ assms(5)]
  by (cases "fifo_queue self (mem d)") (auto split: list.split)

lemma fifo_remove_takes_first_witness:
  "\<exists>self d self' d'. fifo_queue self d = ([replicate 3840 7], Some []) \<and>
    fs_remove (chip_flash 65536) d self ''fifo'' = Some (FS_RET_OK, self', d') \<and> fifo_queue self' d' = ([], Some []) \<and>
    fs_remove (chip_flash 65536) d' self' ''fifo'' = Some (FS_RET_FAILED, self', d')"
proof -
  obtain self d where d: "length d = 65536" "ff_geom self 4096 65536 256" "ff_head self \<le> 1" "fifo_inv self d"
    "fifo_queue self d = ([replicate 3840 7], Some [])" using example_block by blast
  with fifo_remove_takes_first [OF chip_nor_flash, of 65536 d self] obtain self' d' where
    r: "fs_remove (chip_flash 65536) d self ''fifo'' = Some (FS_RET_OK, self', d')" "length d' = 65536"
      "ff_geom self' 4096 65536 256" "ff_head self' \<le> 1" "fifo_inv self' d'" "fifo_queue self' d' = ([], Some [])" by auto
  with fifo_remove_takes_first [OF chip_nor_flash, of 65536 d' self']
  have "fs_remove (chip_flash 65536) d' self' ''fifo'' = Some (FS_RET_FAILED, self', d')" by auto
  with d r show ?thesis by blast
qed

text \<open>Property C8. When the FIFO is initialised on a device that holds one, it is found, and its queue is that of before:
  the data survives a restart.\<close>

lemma fifo_survives_restart:
  assumes "nor_flash fl ok mem blk cap pg" "ok d" "ff_geom self blk cap pg" "fl_get_size fl d 3 = (r, ff_page_size self, ops)"
    "fifo_inv self (mem d)" "ff_last self \<le> ff_head self"
  shows "\<exists>self'. flash_fifo_init fl d True True = Some (FLASH_FIFO_RET_OK, self', d) \<and> ff_geom self' blk cap pg \<and>
    fifo_inv self' (mem d) \<and> fifo_queue self' (mem d) = fifo_queue self (mem d)"
  using nor_flash.init_restart [OF assms] .

lemma fifo_survives_restart_witness:
  "\<exists>d self. flash_fifo_format (chip_flash 65536) (replicate 65536 0) example_fifo = Some d \<and>
    flash_fifo_init (chip_flash 65536) d True True = Some (FLASH_FIFO_RET_OK, self, d) \<and> fifo_queue self d = ([], Some [])"
proof -
  obtain d where d: "flash_fifo_format (chip_flash 65536) (replicate 65536 0) example_fifo = Some d" "length d = 65536"
    "fifo_inv example_fifo d" "fifo_queue example_fifo d = ([], Some [])" using example_formatted by blast
  have "fl_get_size (chip_flash 65536) d 3 = (FLASH_RET_OK, ff_page_size example_fifo, FLASH_BLOCK_OPS_WRITE)"
    "ff_last example_fifo \<le> ff_head example_fifo" by (simp_all add: chip_flash_def example_fifo_def)
  with fifo_survives_restart [OF chip_nor_flash, of 65536 d example_fifo] d example_geom(1) show ?thesis by fastforce
qed

end
