(* ===== verification/Syslog.thy ===== *)
theory Syslog
  imports Prelude
begin

text \<open>
  The circular log of the system (\<open>lib/plumcore-log/src/system_log.c\<close>): blocks of different
  lengths in one array. A block has a header of eight bytes (the type with the flag that the next block
  is at the beginning of the array, an unused byte, the length of the message with its terminating zero,
  the time) and the message.

  The print handler is known by its presence, and its calls by the list of positions they are made for;
  the time handler gives the time. Messages are the bytes of a string, without the terminating zero. The
  formatting of \<open>log_cbuffer_printf\<close> is done by the standard library: its result is the argument here.
\<close>

subsection \<open>Data\<close>

definition LOG_HEADER_OVR :: u8 where "LOG_HEADER_OVR = 0x80"
definition LOG_CBUFFER_MSG_LEN_MAX :: nat where "LOG_CBUFFER_MSG_LEN_MAX = 128"
definition LOG_TYPE_INFO :: u8 where "LOG_TYPE_INFO = 1"

record log_cbuffer =
  lc_blk_first :: nat
  lc_blk_last :: nat
  lc_size :: nat
  lc_d :: "u8 list"
  lc_print_handler :: bool
  lc_time_handler :: bool

text \<open>One byte is written; \<open>None\<close> is an access outside of the array.\<close>

definition lc_put :: "log_cbuffer \<Rightarrow> nat \<Rightarrow> u8 \<Rightarrow> log_cbuffer option" where
  "lc_put buf i b = (if i < length (lc_d buf) then Some (buf\<lparr>lc_d := (lc_d buf)[i := b]\<rparr>) else None)"

definition lc_get :: "log_cbuffer \<Rightarrow> nat \<Rightarrow> u8 option" where
  "lc_get buf i = mem_get (lc_d buf) i"

subsection \<open>Fields of a block\<close>

definition log_cbuffer_set_header :: "log_cbuffer \<Rightarrow> nat \<Rightarrow> u8 \<Rightarrow> log_cbuffer option" where
  "log_cbuffer_set_header buf pos header = lc_put buf pos header"

definition log_cbuffer_set_time :: "log_cbuffer \<Rightarrow> nat \<Rightarrow> u32 \<Rightarrow> log_cbuffer option" where
  "log_cbuffer_set_time buf pos time =
     Option.bind (lc_put buf (add32 pos 4) (ucast (drop_bit 24 time))) (\<lambda>buf.
     Option.bind (lc_put buf (add32 pos 5) (ucast (drop_bit 16 time))) (\<lambda>buf.
     Option.bind (lc_put buf (add32 pos 6) (ucast (drop_bit 8 time))) (\<lambda>buf.
     lc_put buf (add32 pos 7) (ucast time))))"

text \<open>\<open>strncpy\<close> of a message to a field of \<open>n\<close> bytes.\<close>

definition strncpy_bytes :: "u8 list \<Rightarrow> nat \<Rightarrow> u8 list" where
  "strncpy_bytes msg n = take n (msg @ replicate n 0)"

definition log_cbuffer_set_message :: "log_cbuffer \<Rightarrow> nat \<Rightarrow> u8 list \<Rightarrow> nat \<Rightarrow> log_cbuffer option" where
  "log_cbuffer_set_message buf pos message len =
     Option.bind (lc_put buf (add32 pos 2) (of_nat ((len + 1) div 256))) (\<lambda>buf.
     Option.bind (lc_put buf (add32 pos 3) (of_nat (len + 1))) (\<lambda>buf.
     Option.bind (mem_write (lc_d buf) (add32 8 pos) (strncpy_bytes message (len + 1))) (\<lambda>d.
     lc_put (buf\<lparr>lc_d := d\<rparr>) (add32 (add32 8 pos) len) 0)))"

definition log_cbuffer_get_header :: "log_cbuffer \<Rightarrow> nat \<Rightarrow> u8 option" where
  "log_cbuffer_get_header buf pos = lc_get buf pos"

definition log_cbuffer_get_time :: "log_cbuffer \<Rightarrow> nat \<Rightarrow> u32 option" where
  "log_cbuffer_get_time buf pos =
     Option.bind (lc_get buf (add32 pos 4)) (\<lambda>a.
     Option.bind (lc_get buf (add32 pos 5)) (\<lambda>b.
     Option.bind (lc_get buf (add32 pos 6)) (\<lambda>c.
     Option.bind (lc_get buf (add32 pos 7)) (\<lambda>e.
     Some (push_bit 24 (ucast a) + push_bit 16 (ucast b) + push_bit 8 (ucast c) + ucast e)))))"

text \<open>The string that starts at the message, up to its terminating zero.\<close>

fun lc_string :: "u8 list \<Rightarrow> u8 list option" where
  "lc_string [] = None"
| "lc_string (b # bs) = (if b = 0 then Some [] else map_option ((#) b) (lc_string bs))"

definition log_cbuffer_get_message :: "log_cbuffer \<Rightarrow> nat \<Rightarrow> u8 list option" where
  "log_cbuffer_get_message buf pos = lc_string (drop (add32 pos 8) (lc_d buf))"

subsection \<open>Walking over the blocks\<close>

definition log_cbuffer_next_block :: "log_cbuffer \<Rightarrow> nat \<Rightarrow> nat option" where
  "log_cbuffer_next_block buf pos =
     Option.bind (lc_get buf (add32 pos 2)) (\<lambda>hi.
     Option.bind (lc_get buf (add32 pos 3)) (\<lambda>lo.
     Option.bind (lc_get buf pos) (\<lambda>header.
       if header AND LOG_HEADER_OVR \<noteq> 0 then Some 0
       else Some (add32 (add32 pos 8) (unat hi * 256 + unat lo)))))"

definition log_cbuffer_truncate :: "log_cbuffer \<Rightarrow> log_cbuffer option" where
  "log_cbuffer_truncate buf =
     map_option (\<lambda>p. buf\<lparr>lc_blk_first := p\<rparr>) (log_cbuffer_next_block buf (lc_blk_first buf))"

text \<open>The loop of \<open>log_cbuffer_print\<close>: the blocks behind \<open>pos\<close>. No result also stands for a loop
  that does not end.\<close>

partial_function (option) log_print_loop :: "log_cbuffer \<Rightarrow> nat \<Rightarrow> nat list option" where
  "log_print_loop buf pos =
     (if pos = lc_blk_last buf then Some []
      else Option.bind (log_cbuffer_next_block buf pos) (\<lambda>pos.
           Option.bind (log_print_loop buf pos) (\<lambda>ps. Some (pos # ps))))"

definition log_cbuffer_print :: "log_cbuffer \<Rightarrow> nat list option" where
  "log_cbuffer_print buf =
     map_option (\<lambda>ps. if lc_print_handler buf then lc_blk_first buf # ps else []) (log_print_loop buf (lc_blk_first buf))"

subsection \<open>Appending\<close>

text \<open>The loop of \<open>log_cbuffer_append_msg\<close> until the place of the block is found.\<close>

partial_function (option) log_place :: "nat \<Rightarrow> log_cbuffer \<Rightarrow> nat \<Rightarrow> (log_cbuffer \<times> nat) option" where
  "log_place len buf new_pos =
     (if new_pos > lc_blk_first buf then
        (if len < sub32 (lc_size buf) new_pos then Some (buf, new_pos)
         else
           Option.bind (lc_get buf (lc_blk_last buf)) (\<lambda>h.
           Option.bind (lc_put buf (lc_blk_last buf) (h OR LOG_HEADER_OVR)) (\<lambda>buf. log_place len buf 0)))
      else if len < sub32 (lc_blk_first buf) new_pos then Some (buf, new_pos)
      else Option.bind (log_cbuffer_truncate buf) (\<lambda>buf. log_place len buf new_pos))"

text \<open>\<open>now\<close> is what the time handler gives. The result is the buffer and the positions that are printed.\<close>

definition log_cbuffer_append_msg :: "log_cbuffer \<Rightarrow> u8 list \<Rightarrow> u8 \<Rightarrow> u32 \<Rightarrow> (log_cbuffer \<times> nat list) option" where
  "log_cbuffer_append_msg buf msg type now =
     Option.bind (log_cbuffer_next_block buf (lc_blk_last buf)) (\<lambda>new_pos.
       let msg_len = (if length msg > LOG_CBUFFER_MSG_LEN_MAX then LOG_CBUFFER_MSG_LEN_MAX else length msg);
           len = msg_len + 1 + 8
       in Option.bind (log_place len buf new_pos) (\<lambda>(buf, new_pos).
          Option.bind (log_cbuffer_set_header buf new_pos type) (\<lambda>buf.
          Option.bind (log_cbuffer_set_time buf new_pos (if lc_time_handler buf then now else 0)) (\<lambda>buf.
          Option.bind (log_cbuffer_set_message buf new_pos msg msg_len) (\<lambda>buf.
          Some (buf\<lparr>lc_blk_last := new_pos\<rparr>, if lc_print_handler buf then [new_pos] else []))))))"

text \<open>\<open>str\<close> is the formatted text; \<open>vsnprintf\<close> cuts it to its buffer.\<close>

definition log_cbuffer_printf :: "log_cbuffer \<Rightarrow> u8 \<Rightarrow> u8 list \<Rightarrow> u32 \<Rightarrow> (log_cbuffer \<times> nat list) option" where
  "log_cbuffer_printf buf type str now = log_cbuffer_append_msg buf (take (LOG_CBUFFER_MSG_LEN_MAX - 1) str) type now"

subsection \<open>Initialisation\<close>

text \<open>The bytes of \<open>clog initialized\<close>.\<close>

definition clog_initialized :: "u8 list" where
  "clog_initialized = map (\<lambda>c. of_nat (of_char c)) ''clog initialized''"

definition log_cbuffer_init :: "u8 list \<Rightarrow> nat \<Rightarrow> log_cbuffer option" where
  "log_cbuffer_init data sz =
     (let buf = \<lparr>lc_blk_first = 0, lc_blk_last = 0, lc_size = sz, lc_d = data, lc_print_handler = False, lc_time_handler = False\<rparr> in
      Option.bind (log_cbuffer_set_header buf 0 LOG_TYPE_INFO) (\<lambda>buf.
      Option.bind (log_cbuffer_set_time buf 0 0) (\<lambda>buf.
      Option.bind (log_cbuffer_set_message buf 0 clog_initialized 16) (\<lambda>buf.
      Some (buf\<lparr>lc_blk_last := 0\<rparr>)))))"

definition log_cbuffer_set_print_handler :: "log_cbuffer \<Rightarrow> bool \<Rightarrow> log_cbuffer" where
  "log_cbuffer_set_print_handler buf h = buf\<lparr>lc_print_handler := h\<rparr>"

definition log_cbuffer_set_time_handler :: "log_cbuffer \<Rightarrow> bool \<Rightarrow> log_cbuffer" where
  "log_cbuffer_set_time_handler buf h = buf\<lparr>lc_time_handler := h\<rparr>"

end
