(* ===== verification/Syslog_Props.thy ===== *)
theory Syslog_Props
  imports Syslog
begin

text \<open>
  The circular log keeps its newest messages: an append finds a place for every message, drops only the
  oldest blocks, and leaves all others readable.
\<close>

subsection \<open>Blocks\<close>

definition blen :: "u8 list \<Rightarrow> nat \<Rightarrow> nat" where
  "blen d p = unat (d ! (p + 2)) * 256 + unat (d ! (p + 3))"

definition ovr :: "u8 list \<Rightarrow> nat \<Rightarrow> bool" where
  "ovr d p \<longleftrightarrow> d ! p AND LOG_HEADER_OVR \<noteq> 0"

definition bmsg :: "u8 list \<Rightarrow> nat \<Rightarrow> u8 list" where
  "bmsg d p = take (blen d p - 1) (drop (p + 8) d)"

text \<open>A block from \<open>p\<close> to \<open>e\<close> with a terminated message.\<close>

definition block :: "u8 list \<Rightarrow> nat \<Rightarrow> nat \<Rightarrow> bool" where
  "block d p e \<longleftrightarrow> 1 \<le> blen d p \<and> blen d p \<le> LOG_CBUFFER_MSG_LEN_MAX + 1 \<and> e = p + 8 + blen d p \<and> e \<le> length d \<and>
     0 \<notin> set (bmsg d p) \<and> d ! (e - 1) = 0"

text \<open>What is read from it: type, time and message.\<close>

definition bentry :: "u8 list \<Rightarrow> nat \<Rightarrow> u8 \<times> u32 \<times> u8 list" where
  "bentry d p = (d ! p AND NOT LOG_HEADER_OVR,
     push_bit 24 (ucast (d ! (p + 4))) + push_bit 16 (ucast (d ! (p + 5))) + push_bit 8 (ucast (d ! (p + 6))) + ucast (d ! (p + 7)),
     bmsg d p)"

text \<open>Blocks that follow each other.\<close>

fun chain :: "u8 list \<Rightarrow> nat \<Rightarrow> nat list \<Rightarrow> nat \<Rightarrow> bool" where
  "chain d a [] e \<longleftrightarrow> e = a"
| "chain d a (p # ps) e \<longleftrightarrow> p = a \<and> block d a (a + 8 + blen d a) \<and> chain d (a + 8 + blen d a) ps e"

lemma block_end: "block d p e \<Longrightarrow> e = p + 8 + blen d p"
  by (simp add: block_def)

lemma chain_append: "chain d a (ps @ qs) e \<longleftrightarrow> (\<exists>m. chain d a ps m \<and> chain d m qs e)"
  by (induction ps arbitrary: a) auto

lemma chain_bounds: "chain d a ps e \<Longrightarrow> a \<le> e \<and> (\<forall>p\<in>set ps. a \<le> p \<and> p + 8 + blen d p \<le> e) \<and> (ps \<noteq> [] \<longrightarrow> a < e \<and> e \<le> length d)"
proof (induction ps arbitrary: a)
  case (Cons p ps)
  then have "block d a (a + 8 + blen d a)" "p = a" "chain d (a + 8 + blen d a) ps e" by simp_all
  with Cons.IH [of "a + 8 + blen d a"] show ?case by (cases ps) (auto simp: block_def)
qed simp

lemma block_frame:
  assumes "length d' = length d" "\<And>i. p \<le> i \<Longrightarrow> i < e \<Longrightarrow> d' ! i = d ! i" "block d p e"
  shows "block d' p e" "bentry d' p = bentry d p" "ovr d' p = ovr d p" "blen d' p = blen d p"
proof -
  have b: "e = p + 8 + blen d p" "e \<le> length d" using assms(3) by (simp_all add: block_def)
  have at: "d' ! (p + k) = d ! (p + k)" if "k < 8" for k using assms(2) [of "p + k"] that b by simp
  show len: "blen d' p = blen d p" using at [of 2] at [of 3] by (simp add: blen_def)
  have "take (blen d p - 1) (drop (p + 8) d') = take (blen d p - 1) (drop (p + 8) d)"
    using b assms(1,2) by (intro nth_equalityI) auto
  then have msg: "bmsg d' p = bmsg d p" by (simp add: bmsg_def len)
  have "d' ! (e - 1) = d ! (e - 1)" using assms(2) [of "e - 1"] b by simp
  then show "block d' p e" using assms(1,3) by (auto simp: block_def len msg)
  show "bentry d' p = bentry d p" using at [of 0] at [of 4] at [of 5] at [of 6] at [of 7] by (simp add: bentry_def msg)
  show "ovr d' p = ovr d p" using at [of 0] by (simp add: ovr_def)
qed

lemma chain_frame:
  assumes "length d' = length d" "\<And>i. a \<le> i \<Longrightarrow> i < e \<Longrightarrow> d' ! i = d ! i" "chain d a ps e"
  shows "chain d' a ps e \<and> (\<forall>p\<in>set ps. bentry d' p = bentry d p \<and> ovr d' p = ovr d p)"
  using assms(2,3)
proof (induction ps arbitrary: a)
  case (Cons p ps)
  then have b: "block d a (a + 8 + blen d a)" "p = a" "chain d (a + 8 + blen d a) ps e" by simp_all
  then have le: "a + 8 + blen d a \<le> e" using chain_bounds by blast
  note f = block_frame [OF assms(1) _ b(1)]
  have 1: "block d' a (a + 8 + blen d a)" "bentry d' a = bentry d a" "ovr d' a = ovr d a" "blen d' a = blen d a"
    using f Cons.prems(1) le by auto
  with Cons.IH [OF _ b(3)] Cons.prems(1) b(2) show ?case by auto
qed simp

text \<open>The space that blocks take.\<close>

definition used :: "(u8 \<times> u32 \<times> u8 list) list \<Rightarrow> nat" where
  "used es = sum_list (map (\<lambda>(t, time, msg). 9 + length msg) es)"

lemma block_used: "block d p e \<Longrightarrow> used [bentry d p] = e - p"
  by (auto simp: block_def used_def bentry_def bmsg_def)

lemma used_append: "used (xs @ ys) = used xs + used ys"
  by (simp add: used_def)

lemma chain_used: "chain d a ps e \<Longrightarrow> used (map (bentry d) ps) = e - a"
proof (induction ps arbitrary: a)
  case (Cons p ps)
  let ?m = "a + 8 + blen d a"
  have b: "block d a ?m" "chain d ?m ps e" "p = a" using Cons.prems by simp_all
  have "used (map (bentry d) (p # ps)) = used [bentry d a] + used (map (bentry d) ps)"
    using used_append [of "[bentry d a]" "map (bentry d) ps"] b(3) by simp
  then show ?case using block_used [OF b(1)] Cons.IH [OF b(2)] chain_bounds [OF b(2)] by simp
qed (simp add: used_def)

text \<open>Marking the last block of a chain.\<close>

lemma chain_mark:
  assumes "chain d a ps e" "ps \<noteq> []"
  defines "d' \<equiv> d[last ps := d ! last ps OR LOG_HEADER_OVR]"
  shows "chain d' a ps e" "\<forall>p\<in>set ps. bentry d' p = bentry d p" "\<forall>p\<in>set (butlast ps). ovr d' p = ovr d p" "ovr d' (last ps)"
proof -
  let ?q = "last ps"
  have ps: "ps = butlast ps @ [?q]" using assms(2) by simp
  obtain m where m: "chain d a (butlast ps) m" "chain d m [?q] e"
    using assms(1) chain_append [of d a "butlast ps" "[?q]" e] ps by auto
  then have q: "m = ?q" "block d ?q (?q + 8 + blen d ?q)" "e = ?q + 8 + blen d ?q" by auto
  then have lt: "?q < length d" by (simp add: block_def)
  have f: "chain d' a (butlast ps) m \<and> (\<forall>p\<in>set (butlast ps). bentry d' p = bentry d p \<and> ovr d' p = ovr d p)"
    using m(1) q(1) by (intro chain_frame) (auto simp: d'_def)
  have len: "blen d' ?q = blen d ?q" by (simp add: blen_def d'_def)
  have msg: "bmsg d' ?q = bmsg d ?q" by (simp add: bmsg_def len) (simp add: d'_def)
  have "d' ! (?q + 8 + blen d ?q - 1) = d ! (?q + 8 + blen d ?q - 1)" by (simp add: d'_def)
  then have b: "block d' ?q (?q + 8 + blen d ?q)" using q(2) by (simp add: block_def len msg) (simp add: d'_def)
  show "chain d' a ps e" by (subst ps) (use f b q len in \<open>auto simp: chain_append\<close>)
  have or: "(x OR LOG_HEADER_OVR) AND NOT LOG_HEADER_OVR = x AND NOT LOG_HEADER_OVR" for x
    by (rule bit_eqI) (auto simp: bit_simps)
  have eq: "bentry d' ?q = bentry d ?q" using lt by (simp add: bentry_def msg) (simp add: d'_def or)
  show "\<forall>p\<in>set ps. bentry d' p = bentry d p" by (subst ps) (use f eq in auto)
  show "\<forall>p\<in>set (butlast ps). ovr d' p = ovr d p" using f by blast
  have "(x OR LOG_HEADER_OVR) AND LOG_HEADER_OVR = LOG_HEADER_OVR" for x
    by (rule bit_eqI) (auto simp: bit_simps)
  then show "ovr d' ?q" using lt by (simp add: ovr_def d'_def LOG_HEADER_OVR_def)
qed

subsection \<open>The invariant\<close>

text \<open>Either the blocks follow each other (\<open>lin\<close>), or those at the end of the array, of which the last is marked,
  are followed by those at its beginning (\<open>wrap\<close>). Right after the mark has been set there are none yet at the
  beginning. The space that is left behind the marked block is less than a block needs.\<close>

definition lc_basic :: "log_cbuffer \<Rightarrow> bool" where
  "lc_basic buf \<longleftrightarrow> length (lc_d buf) = lc_size buf \<and> lc_size buf < 2 ^ 31 \<and> 3 * (LOG_CBUFFER_MSG_LEN_MAX + 9) < lc_size buf"

definition lin :: "log_cbuffer \<Rightarrow> nat list \<Rightarrow> nat \<Rightarrow> bool" where
  "lin buf ps e \<longleftrightarrow> ps \<noteq> [] \<and> chain (lc_d buf) (lc_blk_first buf) ps e \<and> (\<forall>p\<in>set ps. \<not> ovr (lc_d buf) p) \<and>
     lc_blk_last buf = last ps"

definition wrap :: "log_cbuffer \<Rightarrow> nat list \<Rightarrow> nat list \<Rightarrow> nat \<Rightarrow> bool" where
  "wrap buf qs rs e \<longleftrightarrow> qs \<noteq> [] \<and> (\<exists>e1. chain (lc_d buf) (lc_blk_first buf) qs e1 \<and> lc_size buf \<le> e1 + (LOG_CBUFFER_MSG_LEN_MAX + 9)) \<and>
     (\<forall>p\<in>set (butlast qs). \<not> ovr (lc_d buf) p) \<and> ovr (lc_d buf) (last qs) \<and>
     chain (lc_d buf) 0 rs e \<and> (\<forall>p\<in>set rs. \<not> ovr (lc_d buf) p) \<and> e \<le> lc_blk_first buf \<and>
     lc_blk_last buf = last (qs @ rs)"

definition log_blocks :: "log_cbuffer \<Rightarrow> nat list \<Rightarrow> bool" where
  "log_blocks buf ps \<longleftrightarrow> lc_basic buf \<and>
     ((\<exists>e. lin buf ps e) \<or> (\<exists>qs rs e. wrap buf qs rs e \<and> rs \<noteq> [] \<and> ps = qs @ rs))"

subsection \<open>Finding a place\<close>

lemma next_block_eq:
  assumes "lc_basic buf" "block (lc_d buf) p e"
  shows "log_cbuffer_next_block buf p = Some (if ovr (lc_d buf) p then 0 else e)"
proof -
  have "length (lc_d buf) < 2 ^ 31" "p + 8 + blen (lc_d buf) p \<le> length (lc_d buf)" "e = p + 8 + blen (lc_d buf) p"
    using assms by (simp_all add: lc_basic_def block_def)
  then show ?thesis
    by (simp add: log_cbuffer_next_block_def lc_get_def mem_get_Some add32_small ovr_def blen_def)
qed

text \<open>The place is behind the last block and before the end of the array, or before the first block.\<close>

definition placed :: "nat \<Rightarrow> log_cbuffer \<Rightarrow> nat \<Rightarrow> nat list \<Rightarrow> bool" where
  "placed len buf pos ps \<longleftrightarrow> lc_basic buf \<and>
     (lin buf ps pos \<and> pos + len < lc_size buf \<or>
      (\<exists>qs rs. wrap buf qs rs pos \<and> ps = qs @ rs \<and> pos + len < lc_blk_first buf))"

text \<open>What an append does not change.\<close>

definition lc_same :: "log_cbuffer \<Rightarrow> log_cbuffer \<Rightarrow> bool" where
  "lc_same buf buf' \<longleftrightarrow> lc_size buf' = lc_size buf \<and> lc_print_handler buf' = lc_print_handler buf \<and>
     lc_time_handler buf' = lc_time_handler buf"

lemma lc_same_trans: "lc_same a b \<Longrightarrow> lc_same b c \<Longrightarrow> lc_same a c"
  by (simp add: lc_same_def)

lemma place_wrap_step:
  assumes "lc_basic buf" "wrap buf (q # qs) rs e" "len \<le> LOG_CBUFFER_MSG_LEN_MAX + 9"
  shows "q = lc_blk_first buf"
    "log_place len buf e = (if len < lc_blk_first buf - e then Some (buf, e)
       else log_place len (buf\<lparr>lc_blk_first := (if qs = [] then 0 else hd qs)\<rparr>) e)"
    "qs \<noteq> [] \<Longrightarrow> wrap (buf\<lparr>lc_blk_first := hd qs\<rparr>) qs rs e"
    "qs = [] \<Longrightarrow> rs \<noteq> [] \<Longrightarrow> lin (buf\<lparr>lc_blk_first := 0\<rparr>) rs e"
    "qs = [] \<Longrightarrow> lc_size buf \<le> lc_blk_first buf + 2 * (LOG_CBUFFER_MSG_LEN_MAX + 9)"
    "\<not> len < lc_blk_first buf - e \<Longrightarrow>
      lc_size buf \<le> used (map (bentry (lc_d buf)) (qs @ rs)) + 3 * (LOG_CBUFFER_MSG_LEN_MAX + 9)"
proof -
  let ?d = "lc_d buf" and ?f = "lc_blk_first buf"
  obtain e1 where c: "chain ?d ?f (q # qs) e1" and room: "lc_size buf \<le> e1 + (LOG_CBUFFER_MSG_LEN_MAX + 9)"
    using assms(2) by (auto simp: wrap_def)
  then show q: "q = ?f" by simp
  let ?m = "?f + 8 + blen ?d ?f"
  have b: "block ?d ?f ?m" "chain ?d ?m qs e1" using c by simp_all
  have e: "e \<le> ?f" "?f < 2 ^ 31" using assms(1,2) b(1) by (auto simp: wrap_def lc_basic_def block_def)
  have hd: "qs \<noteq> [] \<Longrightarrow> hd qs = ?m" using b(2) by (cases qs) auto
  have o: "ovr ?d ?f \<longleftrightarrow> qs = []" using assms(2) q by (auto simp: wrap_def split: if_splits)
  have "log_cbuffer_truncate buf = Some (buf\<lparr>lc_blk_first := (if qs = [] then 0 else hd qs)\<rparr>)"
    using next_block_eq [OF assms(1) b(1)] hd by (auto simp: log_cbuffer_truncate_def o)
  then show "log_place len buf e = (if len < ?f - e then Some (buf, e)
       else log_place len (buf\<lparr>lc_blk_first := (if qs = [] then 0 else hd qs)\<rparr>) e)"
    using e by (subst log_place.simps) (simp add: sub32_small)
  show "wrap (buf\<lparr>lc_blk_first := hd qs\<rparr>) qs rs e" if "qs \<noteq> []"
    using assms(2) b(2) hd [OF that] e that room by (auto simp: wrap_def)
  show "lin (buf\<lparr>lc_blk_first := 0\<rparr>) rs e" if "qs = []" "rs \<noteq> []"
    using assms(2) that by (auto simp: wrap_def lin_def)
  have bl: "?m \<le> ?f + (LOG_CBUFFER_MSG_LEN_MAX + 9)" using b(1) by (simp add: block_def)
  show "lc_size buf \<le> ?f + 2 * (LOG_CBUFFER_MSG_LEN_MAX + 9)" if "qs = []" using b(2) room bl that by simp
  assume no: "\<not> len < ?f - e"
  have "chain ?d 0 rs e" using assms(2) by (simp add: wrap_def)
  then have "used (map (bentry ?d) (qs @ rs)) = (e1 - ?m) + e"
    using chain_used [OF b(2)] chain_used by (simp add: used_append)
  moreover have "?m \<le> e1" using chain_bounds [OF b(2)] by simp
  ultimately have "used (map (bentry ?d) (qs @ rs)) + ?m = e1 + e" by simp
  moreover have "?f \<le> e + len" using no e by simp
  ultimately show "lc_size buf \<le> used (map (bentry ?d) (qs @ rs)) + 3 * (LOG_CBUFFER_MSG_LEN_MAX + 9)"
    using room bl assms(3) by (simp add: algebra_simps)
qed

text \<open>The result of looking for a place: some of the oldest blocks may be gone.\<close>

definition found :: "nat \<Rightarrow> log_cbuffer \<Rightarrow> nat list \<Rightarrow> (log_cbuffer \<times> nat) option \<Rightarrow> bool" where
  "found len buf ps r \<longleftrightarrow> (\<exists>buf' pos k. r = Some (buf', pos) \<and> placed len buf' pos (drop k ps) \<and> lc_same buf buf' \<and>
     (k = 0 \<or> lc_size buf \<le> used (map (bentry (lc_d buf)) (drop k ps)) + 3 * (LOG_CBUFFER_MSG_LEN_MAX + 9)) \<and>
     (\<forall>p\<in>set (drop k ps). bentry (lc_d buf') p = bentry (lc_d buf) p))"

lemma found_here: "placed len buf pos ps \<Longrightarrow> found len buf ps (Some (buf, pos))"
  unfolding found_def by (intro exI [of _ buf] exI [of _ pos] exI [of _ 0]) (simp add: lc_same_def)

lemma found_drop:
  assumes "found len buf2 ps r" "lc_same buf buf2" "\<And>p. p \<in> set ps \<Longrightarrow> bentry (lc_d buf2) p = bentry (lc_d buf) p"
    and room: "x = [] \<or> lc_size buf \<le> used (map (bentry (lc_d buf)) ps) + 3 * (LOG_CBUFFER_MSG_LEN_MAX + 9)"
  shows "found len buf (x @ ps) r"
proof -
  from assms(1) obtain buf' pos k where f: "r = Some (buf', pos)" "placed len buf' pos (drop k ps)" "lc_same buf2 buf'"
    "k = 0 \<or> lc_size buf2 \<le> used (map (bentry (lc_d buf2)) (drop k ps)) + 3 * (LOG_CBUFFER_MSG_LEN_MAX + 9)"
    "\<forall>p\<in>set (drop k ps). bentry (lc_d buf') p = bentry (lc_d buf2) p" unfolding found_def by blast
  have d: "drop (length x + k) (x @ ps) = drop k ps" by simp
  have eq: "\<forall>p\<in>set (drop k ps). bentry (lc_d buf2) p = bentry (lc_d buf) p"
    using assms(3) by (metis in_set_dropD)
  then have meq: "map (bentry (lc_d buf2)) (drop k ps) = map (bentry (lc_d buf)) (drop k ps)" by simp
  have szeq: "lc_size buf2 = lc_size buf" using assms(2) by (simp add: lc_same_def)
  have "length x + k = 0 \<or> lc_size buf \<le> used (map (bentry (lc_d buf)) (drop k ps)) + 3 * (LOG_CBUFFER_MSG_LEN_MAX + 9)"
    using f(4) room unfolding meq szeq by (cases "k = 0") auto
  then show ?thesis unfolding found_def
    using f(1,2,5) eq lc_same_trans [OF assms(2) f(3)] by (intro exI [of _ buf'] exI [of _ pos] exI [of _ "length x + k"]) (simp only: d, simp)
qed

lemma lc_same_first [simp]: "lc_same buf (buf\<lparr>lc_blk_first := f\<rparr>)" "lc_basic (buf\<lparr>lc_blk_first := f\<rparr>) = lc_basic buf"
  by (simp_all add: lc_same_def lc_basic_def)

lemma place_marked:
  assumes "lc_basic buf" "wrap buf qs [] 0" "len \<le> LOG_CBUFFER_MSG_LEN_MAX + 9"
  shows "found len buf qs (log_place len buf 0)"
  using assms(1,2)
proof (induction qs arbitrary: buf)
  case Nil
  then show ?case by (simp add: wrap_def)
next
  case (Cons q qs)
  note st = place_wrap_step [OF Cons.prems assms(3)]
  show ?case
  proof (cases "len < lc_blk_first buf")
    case True
    have "placed len buf 0 (q # qs)" unfolding placed_def using Cons.prems True by (intro conjI disjI2 exI [of _ "q # qs"] exI [of _ "[]"]) auto
    then show ?thesis using found_here st(2) True by simp
  next
    case False
    have "qs \<noteq> []"
    proof
      assume "qs = []"
      then have "lc_size buf \<le> lc_blk_first buf + 2 * (LOG_CBUFFER_MSG_LEN_MAX + 9)" by (rule st(5))
      then show False using False assms(3) Cons.prems(1) by (simp add: lc_basic_def)
    qed
    then have "found len (buf\<lparr>lc_blk_first := hd qs\<rparr>) qs (log_place len (buf\<lparr>lc_blk_first := hd qs\<rparr>) 0)"
      using Cons.IH [of "buf\<lparr>lc_blk_first := hd qs\<rparr>"] st(3) Cons.prems(1) by simp
    then have "found len buf ([q] @ qs) (log_place len (buf\<lparr>lc_blk_first := hd qs\<rparr>) 0)"
      by (rule found_drop) (use st(6) False in simp_all)
    then show ?thesis using st(2) False \<open>qs \<noteq> []\<close> by simp
  qed
qed

text \<open>From blocks that follow each other: at the end, or after marking the last block.\<close>

lemma place_lin:
  assumes "lc_basic buf" "lin buf ps e" "len \<le> LOG_CBUFFER_MSG_LEN_MAX + 9"
  shows "found len buf ps (log_place len buf e)"
proof -
  let ?d = "lc_d buf" and ?q = "last ps"
  have ne: "ps \<noteq> []" and c: "chain ?d (lc_blk_first buf) ps e" and no: "\<forall>p\<in>set ps. \<not> ovr ?d p"
    and lst: "lc_blk_last buf = ?q" using assms(2) by (simp_all add: lin_def)
  have sz: "length ?d = lc_size buf" "lc_size buf < 2 ^ 31" using assms(1) by (simp_all add: lc_basic_def)
  have b: "lc_blk_first buf < e" "e \<le> lc_size buf" using chain_bounds [OF c] ne sz by auto
  show ?thesis
  proof (cases "len < lc_size buf - e")
    case True
    then have "placed len buf e ps" unfolding placed_def using assms(1,2) b by auto
    then have "found len buf ps (Some (buf, e))" by (rule found_here)
    moreover have "log_place len buf e = Some (buf, e)" using True b sz by (subst log_place.simps) (simp add: sub32_small)
    ultimately show ?thesis by simp
  next
    case False
    let ?d' = "?d[?q := ?d ! ?q OR LOG_HEADER_OVR]"
    let ?b = "buf\<lparr>lc_d := ?d'\<rparr>"
    note mark = chain_mark [OF c ne]
    obtain m where "chain ?d (lc_blk_first buf) (butlast ps) m" "chain ?d m [?q] e"
      using c chain_append [of ?d "lc_blk_first buf" "butlast ps" "[?q]" e] ne by auto
    then have blk: "block ?d ?q e" by auto
    then have q: "?q < lc_size buf" "e \<le> ?q + (LOG_CBUFFER_MSG_LEN_MAX + 9)" using sz by (simp_all add: block_def)
    have "\<forall>p\<in>set (butlast ps). \<not> ovr ?d' p" using mark(3) no by (metis in_set_butlastD)
    then have "wrap ?b ps [] 0"
      using ne mark(1,4) lst q(2) False assms(3) by (auto simp: wrap_def intro!: exI [of _ e])
    moreover have "lc_basic ?b" using assms(1) by (simp add: lc_basic_def)
    ultimately have "found len ?b ps (log_place len ?b 0)" using assms(3) by (intro place_marked)
    from found_drop [OF this, of buf "[]"] have "found len buf ps (log_place len ?b 0)"
      using mark(2) by (simp add: lc_same_def)
    moreover have "log_place len buf e = log_place len ?b 0"
      using False b sz q(1) lst by (subst log_place.simps) (simp add: sub32_small lc_get_def lc_put_def mem_get_Some)
    ultimately show ?thesis by simp
  qed
qed

lemma place_wrap:
  assumes "lc_basic buf" "wrap buf qs rs e" "rs \<noteq> []" "len \<le> LOG_CBUFFER_MSG_LEN_MAX + 9"
  shows "found len buf (qs @ rs) (log_place len buf e)"
  using assms(1,2)
proof (induction qs arbitrary: buf)
  case Nil
  then show ?case by (simp add: wrap_def)
next
  case (Cons q qs)
  note st = place_wrap_step [OF Cons.prems assms(4)]
  show ?case
  proof (cases "len < lc_blk_first buf - e")
    case True
    have "placed len buf e (q # qs @ rs)" unfolding placed_def
      using Cons.prems True by (intro conjI disjI2 exI [of _ "q # qs"] exI [of _ rs]) auto
    then show ?thesis using found_here st(2) True by simp
  next
    case False
    have "found len (buf\<lparr>lc_blk_first := (if qs = [] then 0 else hd qs)\<rparr>) (qs @ rs)
        (log_place len (buf\<lparr>lc_blk_first := (if qs = [] then 0 else hd qs)\<rparr>) e)"
    proof (cases "qs = []")
      case True
      then show ?thesis using place_lin [of "buf\<lparr>lc_blk_first := 0\<rparr>" rs e len] st(4) assms(3,4) Cons.prems(1) by simp
    next
      case False
      then show ?thesis using Cons.IH [of "buf\<lparr>lc_blk_first := hd qs\<rparr>"] st(3) Cons.prems(1) by simp
    qed
    then have "found len buf ([q] @ qs @ rs) (log_place len (buf\<lparr>lc_blk_first := (if qs = [] then 0 else hd qs)\<rparr>) e)"
      by (rule found_drop) (use st(6) False in simp_all)
    then show ?thesis using st(2) False by simp
  qed
qed

subsection \<open>Writing a block\<close>

lemma time_bytes:
  "push_bit 24 (ucast (ucast (drop_bit 24 t) :: u8)) + push_bit 16 (ucast (ucast (drop_bit 16 t) :: u8)) +
    push_bit 8 (ucast (ucast (drop_bit 8 t) :: u8)) + ucast (ucast t :: u8) = (t :: u32)"
    (is "?a + ?b + ?c + ?e = t")
proof -
  have "?a + ?b = ?a OR ?b" by (rule disjunctive_add_eq_or) (rule bit_eqI, auto simp: bit_simps)
  moreover have "(?a OR ?b) + ?c = ?a OR ?b OR ?c" by (subst disjunctive_add_eq_or) (rule bit_eqI, auto simp: bit_simps or.assoc)
  moreover have "(?a OR ?b OR ?c) + ?e = ?a OR ?b OR ?c OR ?e"
    by (subst disjunctive_add_eq_or) (rule bit_eqI, auto simp: bit_simps or.assoc)
  moreover have "?a OR ?b OR ?c OR ?e = t"
  proof (rule bit_eqI)
    fix n assume n: "possible_bit TYPE(u32) n"
    consider "n < 8" | "8 \<le> n" "n < 16" | "16 \<le> n" "n < 24" | "24 \<le> n" "n < 32"
      using n by (force simp: possible_bit_word)
    then show "bit (?a OR ?b OR ?c OR ?e) n = bit t n" by cases (auto simp: bit_simps)
  qed
  ultimately show ?thesis by metis
qed

lemma ovr_push: "LOG_HEADER_OVR = push_bit 7 1"
  by (simp add: LOG_HEADER_OVR_def)

lemma mem_write_nth:
  "mem_write m pos bs = Some m' \<Longrightarrow> i < length m \<Longrightarrow> m' ! i = (if pos \<le> i \<and> i < pos + length bs then bs ! (i - pos) else m ! i)"
  by (auto simp: mem_write_def nth_append split: if_splits)

text \<open>The three fields are written; the buffer is changed in the block only.\<close>

lemma write_block:
  assumes basic: "lc_basic buf" and fits: "pos + (m + 9) \<le> lc_size buf" and m: "m = min (length msg) LOG_CBUFFER_MSG_LEN_MAX"
    and msg: "0 \<notin> set msg" and type: "\<not> bit type 7"
  shows "\<exists>d. Option.bind (log_cbuffer_set_header buf pos type) (\<lambda>buf. Option.bind (log_cbuffer_set_time buf pos (t buf))
      (\<lambda>buf. log_cbuffer_set_message buf pos msg m)) = Some (buf\<lparr>lc_d := d\<rparr>) \<and> length d = length (lc_d buf) \<and>
    (\<forall>i. i < length d \<and> (i < pos \<or> pos + (m + 9) \<le> i) \<longrightarrow> d ! i = lc_d buf ! i) \<and> block d pos (pos + (m + 9)) \<and> \<not> ovr d pos \<and>
    bentry d pos = (type, t (buf\<lparr>lc_d := (lc_d buf)[pos := type]\<rparr>), take LOG_CBUFFER_MSG_LEN_MAX msg)"
proof -
  have sz: "length (lc_d buf) = lc_size buf" "lc_size buf < 2 ^ 31" using basic by (simp_all add: lc_basic_def)
  have ml: "m \<le> 128" "m \<le> length msg" "take LOG_CBUFFER_MSG_LEN_MAX msg = take m msg"
    by (auto simp: m LOG_CBUFFER_MSG_LEN_MAX_def min_def)
  define T where "T = t (buf\<lparr>lc_d := (lc_d buf)[pos := type]\<rparr>)"
  define d1 where "d1 = (lc_d buf)[pos := type, pos + 4 := ucast (drop_bit 24 T), pos + 5 := ucast (drop_bit 16 T),
    pos + 6 := ucast (drop_bit 8 T), pos + 7 := ucast T, pos + 2 := of_nat ((m + 1) div 256), pos + 3 := of_nat (m + 1)]"
  have l1: "length d1 = lc_size buf" by (simp add: d1_def sz)
  have ls: "length (strncpy_bytes msg (m + 1)) = m + 1" by (simp add: strncpy_bytes_def)
  obtain d2 where d2: "mem_write d1 (pos + 8) (strncpy_bytes msg (m + 1)) = Some d2"
    using fits mem_write_Some [of "pos + 8" "strncpy_bytes msg (m + 1)" d1] unfolding ls l1 by simp
  then have l2: "length d2 = lc_size buf" using length_mem_write [OF d2] l1 by simp
  define d where "d = d2[pos + 8 + m := 0]"
  have run: "Option.bind (log_cbuffer_set_header buf pos type) (\<lambda>buf. Option.bind (log_cbuffer_set_time buf pos (t buf))
      (\<lambda>buf. log_cbuffer_set_message buf pos msg m)) = Some (buf\<lparr>lc_d := d\<rparr>)"
    using fits sz d2 l2
    by (simp add: log_cbuffer_set_header_def log_cbuffer_set_time_def log_cbuffer_set_message_def lc_put_def add32_small
      d_def T_def d1_def add.commute [of 8 pos])
  have ld: "length d = length (lc_d buf)" by (simp add: d_def l2 sz)
  have nth2: "d2 ! i = (if pos + 8 \<le> i \<and> i < pos + m + 9 then strncpy_bytes msg (m + 1) ! (i - (pos + 8)) else d1 ! i)"
    if "i < lc_size buf" for i using mem_write_nth [OF d2, of i] that l1 ls by (auto simp: algebra_simps)
  have out: "d ! i = lc_d buf ! i" if "i < length d" "i < pos \<or> pos + (m + 9) \<le> i" for i
    using that nth2 [of i] sz ld by (auto simp: d_def d1_def)
  have hdr: "d ! (pos + k) = d1 ! (pos + k)" if "k < 8" for k
    using nth2 [of "pos + k"] that fits by (simp add: d_def)
  have h0: "d ! pos = type" using hdr [of 0] fits sz by (simp add: d1_def)
  have small: "unat (of_nat k :: u8) = k" if "k < 256" for k
    using that by (simp add: unsigned_of_nat take_bit_nat_eq_self)
  have "unat (of_nat ((m + 1) div 256) :: u8) = 0" "unat (of_nat (m + 1) :: u8) = m + 1"
    using ml(1) small [of "m + 1"] by (simp_all del: of_nat_Suc)
  moreover have "d ! (pos + 2) = of_nat ((m + 1) div 256)" "d ! (pos + 3) = of_nat (m + 1)"
    using hdr [of 2] hdr [of 3] fits sz by (simp_all add: d1_def)
  ultimately have bl: "blen d pos = m + 1" by (simp add: blen_def)
  have "bmsg d pos = take m msg"
  proof (rule nth_equalityI)
    fix i assume "i < length (bmsg d pos)"
    then have i: "i < m" by (simp add: bmsg_def bl)
    then have "d ! (pos + 8 + i) = msg ! i"
      using nth2 [of "pos + 8 + i"] fits ml(2) by (simp add: d_def strncpy_bytes_def nth_append)
    then show "bmsg d pos ! i = take m msg ! i" using i fits ld sz by (simp add: bmsg_def bl)
  qed (use fits ml ld sz in \<open>simp add: bmsg_def bl\<close>)
  moreover have "0 \<notin> set (take m msg)" using msg by (metis in_set_takeD)
  moreover have "d ! (8 + (pos + m)) = 0" "length d = lc_size buf" using l2 fits by (simp_all add: d_def ac_simps)
  ultimately have blk: "block d pos (pos + (m + 9))" "bmsg d pos = take LOG_CBUFFER_MSG_LEN_MAX msg"
    using bl ml fits by (simp_all add: block_def LOG_CBUFFER_MSG_LEN_MAX_def)
  have t0: "type AND LOG_HEADER_OVR = 0" unfolding ovr_push and_single using type by simp
  have "type = (type AND LOG_HEADER_OVR) OR (type AND NOT LOG_HEADER_OVR)" by (rule bit_eqI) (auto simp: bit_simps)
  with t0 have "type AND LOG_HEADER_OVR = 0" "type AND NOT LOG_HEADER_OVR = type" by simp_all
  moreover have "d ! (pos + 4) = ucast (drop_bit 24 T)" "d ! (pos + 5) = ucast (drop_bit 16 T)"
    "d ! (pos + 6) = ucast (drop_bit 8 T)" "d ! (pos + 7) = ucast T"
    using hdr [of 4] hdr [of 5] hdr [of 6] hdr [of 7] fits sz by (simp_all add: d1_def)
  ultimately have "\<not> ovr d pos" "bentry d pos = (type, T, take LOG_CBUFFER_MSG_LEN_MAX msg)"
    using blk(2) time_bytes [of T] by (simp_all add: ovr_def bentry_def h0)
  with run ld out blk(1) show ?thesis unfolding T_def by blast
qed

lemma placed_write:
  assumes pl: "placed len buf pos ps" and d: "length d = length (lc_d buf)"
    "\<And>i. i < length d \<Longrightarrow> i < pos \<or> pos + len \<le> i \<Longrightarrow> d ! i = lc_d buf ! i" "block d pos (pos + len)" "\<not> ovr d pos"
  shows "log_blocks (buf\<lparr>lc_d := d, lc_blk_last := pos\<rparr>) (ps @ [pos]) \<and> (\<forall>p\<in>set ps. bentry d p = bentry (lc_d buf) p)"
proof -
  have basic: "lc_basic buf" "lc_basic (buf\<lparr>lc_d := d, lc_blk_last := pos\<rparr>)" "length d = lc_size buf"
    using pl d(1) by (auto simp: placed_def lc_basic_def)
  have new: "chain d pos [pos] (pos + len)" using d(3) block_end [OF d(3)] by auto
  from pl consider (lin) "lin buf ps pos" "pos + len < lc_size buf"
    | (wrap) qs rs where "wrap buf qs rs pos" "ps = qs @ rs" "pos + len < lc_blk_first buf" unfolding placed_def by blast
  then show ?thesis
  proof cases
    case lin
    then have c: "chain (lc_d buf) (lc_blk_first buf) ps pos" by (simp add: lin_def)
    have "chain d (lc_blk_first buf) ps pos \<and> (\<forall>p\<in>set ps. bentry d p = bentry (lc_d buf) p \<and> ovr d p = ovr (lc_d buf) p)"
      using lin(2) basic(3) d(2) by (intro chain_frame [OF d(1) _ c]) auto
    with lin(1) new d(4) have "lin (buf\<lparr>lc_d := d, lc_blk_last := pos\<rparr>) (ps @ [pos]) (pos + len) \<and>
        (\<forall>p\<in>set ps. bentry d p = bentry (lc_d buf) p)" by (auto simp: lin_def chain_append)
    then show ?thesis unfolding log_blocks_def using basic(2) by blast
  next
    case wrap
    then obtain e1 where q: "chain (lc_d buf) (lc_blk_first buf) qs e1" "qs \<noteq> []"
      "lc_size buf \<le> e1 + (LOG_CBUFFER_MSG_LEN_MAX + 9)" and r: "chain (lc_d buf) 0 rs pos"
      by (auto simp: wrap_def)
    have le: "e1 \<le> length d" using chain_bounds [OF q(1)] q(2) d(1) by auto
    have "chain d (lc_blk_first buf) qs e1 \<and> (\<forall>p\<in>set qs. bentry d p = bentry (lc_d buf) p \<and> ovr d p = ovr (lc_d buf) p)"
      using wrap(3) le d(2) by (intro chain_frame [OF d(1) _ q(1)]) auto
    moreover have "chain d 0 rs pos \<and> (\<forall>p\<in>set rs. bentry d p = bentry (lc_d buf) p \<and> ovr d p = ovr (lc_d buf) p)"
      using wrap(3) le chain_bounds [OF q(1)] d(2) by (intro chain_frame [OF d(1) _ r]) auto
    ultimately have "wrap (buf\<lparr>lc_d := d, lc_blk_last := pos\<rparr>) qs (rs @ [pos]) (pos + len) \<and>
        (\<forall>p\<in>set ps. bentry d p = bentry (lc_d buf) p)"
      using wrap new d(4) q(2,3) by (auto simp: wrap_def chain_append dest: in_set_butlastD)
    moreover have "ps @ [pos] = qs @ rs @ [pos]" "rs @ [pos] \<noteq> []" using wrap(2) by simp_all
    ultimately show ?thesis unfolding log_blocks_def using basic(2) by blast
  qed
qed

lemma log_append_blocks:
  assumes "log_blocks buf ps" "0 \<notin> set msg" "\<not> bit type 7"
  shows "\<exists>buf' pos k. log_cbuffer_append_msg buf msg type now = Some (buf', if lc_print_handler buf then [pos] else []) \<and>
    log_blocks buf' (drop k ps @ [pos]) \<and> lc_same buf buf' \<and>
    (k = 0 \<or> lc_size buf \<le> used (map (bentry (lc_d buf)) (drop k ps)) + 3 * (LOG_CBUFFER_MSG_LEN_MAX + 9)) \<and> (\<forall>p\<in>set (drop k ps). bentry (lc_d buf') p = bentry (lc_d buf) p) \<and>
    bentry (lc_d buf') pos = (type, if lc_time_handler buf then now else 0, take LOG_CBUFFER_MSG_LEN_MAX msg)"
proof -
  define m where "m = min (length msg) LOG_CBUFFER_MSG_LEN_MAX"
  have basic: "lc_basic buf" using assms(1) by (simp add: log_blocks_def)
  have len: "m + 9 \<le> LOG_CBUFFER_MSG_LEN_MAX + 9" by (simp add: m_def)
  have last: "block d (last xs) e" if "chain d a xs e" "xs \<noteq> []" for d a xs e
    using that chain_append [of d a "butlast xs" "[last xs]" e] by auto
  obtain e where e: "log_cbuffer_next_block buf (lc_blk_last buf) = Some e" "found (m + 9) buf ps (log_place (m + 9) buf e)"
  proof -
    from assms(1) consider (lin) e where "lin buf ps e" | (wrap) qs rs e where "wrap buf qs rs e" "rs \<noteq> []" "ps = qs @ rs"
      unfolding log_blocks_def by blast
    then show thesis
    proof cases
      case (lin e)
      then have "block (lc_d buf) (lc_blk_last buf) e" "\<not> ovr (lc_d buf) (lc_blk_last buf)"
        using last [of "lc_d buf" "lc_blk_first buf" ps e] by (auto simp: lin_def)
      with that next_block_eq [OF basic] place_lin [OF basic lin len] show thesis by simp
    next
      case (wrap qs rs e)
      then have "block (lc_d buf) (lc_blk_last buf) e" "\<not> ovr (lc_d buf) (lc_blk_last buf)"
        using last [of "lc_d buf" 0 rs e] by (auto simp: wrap_def)
      with that next_block_eq [OF basic] place_wrap [OF basic wrap(1,2) len] wrap(3) show thesis by simp
    qed
  qed
  from e(2) obtain b pos k where p: "log_place (m + 9) buf e = Some (b, pos)" "placed (m + 9) b pos (drop k ps)" "lc_same buf b"
    "k = 0 \<or> lc_size buf \<le> used (map (bentry (lc_d buf)) (drop k ps)) + 3 * (LOG_CBUFFER_MSG_LEN_MAX + 9)"
    "\<forall>p\<in>set (drop k ps). bentry (lc_d b) p = bentry (lc_d buf) p" unfolding found_def by blast
  have bb: "lc_basic b" "pos + (m + 9) \<le> lc_size b"
  proof -
    show bb: "lc_basic b" using p(2) by (simp add: placed_def)
    from p(2) consider "pos + (m + 9) < lc_size b" | qs rs where "wrap b qs rs pos" "pos + (m + 9) < lc_blk_first b"
      unfolding placed_def by blast
    then show "pos + (m + 9) \<le> lc_size b"
    proof cases
      case 2
      then obtain e1 where "chain (lc_d b) (lc_blk_first b) qs e1" "qs \<noteq> []" by (auto simp: wrap_def)
      then have "lc_blk_first b < length (lc_d b)" using chain_bounds by fastforce
      with 2 bb show ?thesis by (simp add: lc_basic_def)
    qed simp
  qed
  obtain d where d: "Option.bind (log_cbuffer_set_header b pos type) (\<lambda>buf. Option.bind (log_cbuffer_set_time buf pos (if lc_time_handler buf then now else 0))
      (\<lambda>buf. log_cbuffer_set_message buf pos msg m)) = Some (b\<lparr>lc_d := d\<rparr>)" "length d = length (lc_d b)"
    "\<forall>i. i < length d \<and> (i < pos \<or> pos + (m + 9) \<le> i) \<longrightarrow> d ! i = lc_d b ! i" "block d pos (pos + (m + 9))" "\<not> ovr d pos"
    "bentry d pos = (type, if lc_time_handler b then now else 0, take LOG_CBUFFER_MSG_LEN_MAX msg)"
    using write_block [OF bb m_def assms(2,3), of "\<lambda>buf. if lc_time_handler buf then now else 0"] by auto
  have w: "log_blocks (b\<lparr>lc_d := d, lc_blk_last := pos\<rparr>) (drop k ps @ [pos])"
    "\<forall>p\<in>set (drop k ps). bentry d p = bentry (lc_d b) p"
    using placed_write [OF p(2) d(2) _ d(4,5)] d(3) by auto
  have ml: "(if length msg > LOG_CBUFFER_MSG_LEN_MAX then LOG_CBUFFER_MSG_LEN_MAX else length msg) = m"
    by (simp add: m_def min_def)
  obtain b1 b2 where b12: "log_cbuffer_set_header b pos type = Some b1"
    "log_cbuffer_set_time b1 pos (if lc_time_handler b1 then now else 0) = Some b2"
    "log_cbuffer_set_message b2 pos msg m = Some (b\<lparr>lc_d := d\<rparr>)"
    using d(1) by (auto simp: bind_eq_Some_conv)
  have eq9: "m + 1 + 8 = m + 9" by simp
  have "log_cbuffer_append_msg buf msg type now = Some (b\<lparr>lc_d := d, lc_blk_last := pos\<rparr>, if lc_print_handler b then [pos] else [])"
    by (simp only: log_cbuffer_append_msg_def Let_def e(1) ml eq9 p(1) bind.bind_lunit prod.case b12) simp
  then show ?thesis using w d(6) p(3-5) by (intro exI [of _ "b\<lparr>lc_d := d, lc_blk_last := pos\<rparr>"] exI [of _ pos] exI [of _ k]) (simp add: lc_same_def)
qed

subsection \<open>Reading the log\<close>

text \<open>What a print handler reads at a position, and over the whole log.\<close>

definition log_entry :: "log_cbuffer \<Rightarrow> nat \<Rightarrow> (u8 \<times> u32 \<times> u8 list) option" where
  "log_entry buf pos =
     Option.bind (log_cbuffer_get_header buf pos) (\<lambda>h.
     Option.bind (log_cbuffer_get_time buf pos) (\<lambda>t.
     Option.bind (log_cbuffer_get_message buf pos) (\<lambda>m. Some (h AND NOT LOG_HEADER_OVR, t, m))))"

definition log_contents :: "log_cbuffer \<Rightarrow> (u8 \<times> u32 \<times> u8 list) list option" where
  "log_contents buf =
     Option.bind (log_cbuffer_print (buf\<lparr>lc_print_handler := True\<rparr>)) (\<lambda>ps. those (map (log_entry buf) ps))"

lemma lc_string_append: "0 \<notin> set xs \<Longrightarrow> lc_string (xs @ 0 # ys) = Some xs"
  by (induction xs) auto

lemma block_entry:
  assumes "lc_basic buf" "block (lc_d buf) p e"
  shows "log_entry buf p = Some (bentry (lc_d buf) p)"
proof -
  let ?d = "lc_d buf"
  have b: "1 \<le> blen ?d p" "e = p + 8 + blen ?d p" "e \<le> length ?d" "0 \<notin> set (bmsg ?d p)" "?d ! (e - 1) = 0"
    using assms(2) by (auto simp: block_def)
  have sz: "length ?d < 2 ^ 31" using assms(1) by (simp add: lc_basic_def)
  have "drop (p + 8) ?d = bmsg ?d p @ drop (e - 1) ?d"
    using b(1,2) append_take_drop_id [of "blen ?d p - 1" "drop (p + 8) ?d"] by (simp add: bmsg_def add.commute)
  moreover have "e - 1 < length ?d" "Suc (e - 1) = e" using b(1-3) by linarith+
  then have "drop (e - 1) ?d = 0 # drop e ?d" using b(5) Cons_nth_drop_Suc by metis
  ultimately have "lc_string (drop (p + 8) ?d) = Some (bmsg ?d p)" using lc_string_append [OF b(4)] by simp
  then show ?thesis using b sz
    by (simp add: log_entry_def log_cbuffer_get_header_def log_cbuffer_get_time_def log_cbuffer_get_message_def lc_get_def
      mem_get_Some add32_small bentry_def)
qed

lemma print_walk:
  assumes "lc_basic buf" "chain (lc_d buf) a qs e" "qs \<noteq> []" "\<forall>p\<in>set (butlast qs). \<not> ovr (lc_d buf) p \<and> p \<noteq> lc_blk_last buf"
  shows "hd qs = a" "log_print_loop buf a = map_option ((@) (tl qs)) (log_print_loop buf (last qs))"
proof -
  show "hd qs = a" using assms(2,3) by (cases qs) auto
  show "log_print_loop buf a = map_option ((@) (tl qs)) (log_print_loop buf (last qs))"
    using assms(2,3,4)
  proof (induction qs arbitrary: a)
    case (Cons q qs)
    show ?case
    proof (cases qs)
      case Nil
      with Cons.prems show ?thesis by (simp add: option.map_ident)
    next
      case (Cons r rs)
      let ?m = "a + 8 + blen (lc_d buf) a"
      have b: "block (lc_d buf) a ?m" "chain (lc_d buf) ?m qs e" "r = ?m" "q = a" using Cons.prems(1) Cons by auto
      have o: "\<not> ovr (lc_d buf) a" "a \<noteq> lc_blk_last buf" using Cons.prems(3) Cons b(4) by auto
      have "\<forall>p\<in>set (butlast qs). \<not> ovr (lc_d buf) p \<and> p \<noteq> lc_blk_last buf" using Cons.prems(3) Cons by simp
      with Cons.IH [OF b(2)] have "log_print_loop buf ?m = map_option ((@) (tl qs)) (log_print_loop buf (last qs))" using Cons by simp
      moreover have "log_print_loop buf a = map_option ((#) ?m) (log_print_loop buf ?m)"
        using o next_block_eq [OF assms(1) b(1)]
        by (subst log_print_loop.simps) (simp add: map_option_case split: option.split)
      ultimately show ?thesis using Cons b(3) by (simp add: option.map_comp comp_def)
    qed
  qed simp
qed

lemma chain_less_last: "chain d a ps e \<Longrightarrow> ps \<noteq> [] \<Longrightarrow> p \<in> set (butlast ps) \<Longrightarrow> p < last ps"
proof -
  assume c: "chain d a ps e" "ps \<noteq> []" "p \<in> set (butlast ps)"
  then obtain m where m: "chain d a (butlast ps) m" "chain d m [last ps] e"
    using chain_append [of d a "butlast ps" "[last ps]" e] by auto
  then have "last ps = m" by simp
  then show ?thesis using chain_bounds [OF m(1)] c(3) by fastforce
qed

lemma print_blocks:
  assumes "log_blocks buf ps"
  shows "ps \<noteq> []" "hd ps = lc_blk_first buf" "log_print_loop buf (lc_blk_first buf) = Some (tl ps)"
    "p \<in> set ps \<Longrightarrow> \<exists>e. block (lc_d buf) p e"
proof -
  have basic: "lc_basic buf" using assms by (simp add: log_blocks_def)
  have here: "log_print_loop buf (lc_blk_last buf) = Some []" by (subst log_print_loop.simps) simp
  have blocks: "\<exists>e. block d x e" if "chain d a xs e" "x \<in> set xs" for d a xs e x
    using that by (induction xs arbitrary: a) auto
  from assms consider (lin) e where "lin buf ps e" | (wrap) qs rs e where "wrap buf qs rs e" "rs \<noteq> []" "ps = qs @ rs"
    unfolding log_blocks_def by blast
  then have "ps \<noteq> [] \<and> hd ps = lc_blk_first buf \<and> log_print_loop buf (lc_blk_first buf) = Some (tl ps) \<and>
    (p \<in> set ps \<longrightarrow> (\<exists>e. block (lc_d buf) p e))"
  proof cases
    case lin
    then have c: "chain (lc_d buf) (lc_blk_first buf) ps e" "ps \<noteq> []" "lc_blk_last buf = last ps" by (simp_all add: lin_def)
    have "\<forall>p\<in>set (butlast ps). \<not> ovr (lc_d buf) p \<and> p \<noteq> lc_blk_last buf"
      using lin chain_less_last [OF c(1,2)] c(3) by (auto simp: lin_def dest: in_set_butlastD)
    from print_walk [OF basic c(1,2) this] here blocks [OF c(1)] c(2,3) show ?thesis by simp
  next
    case wrap
    then obtain e1 where q: "chain (lc_d buf) (lc_blk_first buf) qs e1" "qs \<noteq> []" and r: "chain (lc_d buf) 0 rs e"
      and lst: "lc_blk_last buf = last rs" and le: "e \<le> lc_blk_first buf" by (auto simp: wrap_def)
    have lt: "lc_blk_last buf < e" using chain_bounds [OF r] wrap(2) lst last_in_set by fastforce
    have ne: "p \<noteq> lc_blk_last buf" if "p \<in> set qs" for p using chain_bounds [OF q(1)] that lt le by fastforce
    have "\<forall>p\<in>set (butlast qs). \<not> ovr (lc_d buf) p \<and> p \<noteq> lc_blk_last buf"
      using wrap(1) ne by (auto simp: wrap_def dest: in_set_butlastD)
    note wq = print_walk [OF basic q this]
    have "\<forall>p\<in>set (butlast rs). \<not> ovr (lc_d buf) p \<and> p \<noteq> lc_blk_last buf"
      using wrap(1) chain_less_last [OF r wrap(2)] lst by (auto simp: wrap_def dest: in_set_butlastD)
    note wr = print_walk [OF basic r wrap(2) this]
    obtain eq where "block (lc_d buf) (last qs) eq" using blocks [OF q(1)] q(2) by force
    moreover have "ovr (lc_d buf) (last qs)" "last qs \<noteq> lc_blk_last buf" using wrap(1) q(2) ne by (auto simp: wrap_def)
    ultimately have "log_print_loop buf (last qs) = Some (0 # tl rs)"
      using next_block_eq [OF basic] wr here lst by (subst log_print_loop.simps) simp
    moreover have "0 # tl rs = rs" using wr(1) wrap(2) by (cases rs) auto
    ultimately have "log_print_loop buf (lc_blk_first buf) = Some (tl qs @ rs)" using wq(2) by simp
    then show ?thesis using wq(1) wrap(3) q blocks [OF q(1)] blocks [OF r] by auto
  qed
  then show "ps \<noteq> []" "hd ps = lc_blk_first buf" "log_print_loop buf (lc_blk_first buf) = Some (tl ps)"
    "p \<in> set ps \<Longrightarrow> \<exists>e. block (lc_d buf) p e" by blast+
qed

subsection \<open>The contents of the log\<close>

definition log_ok :: "log_cbuffer \<Rightarrow> bool" where
  "log_ok buf \<longleftrightarrow> (\<exists>ps. log_blocks buf ps)"

lemma those_Some: "(\<And>p. p \<in> set ps \<Longrightarrow> f p = Some (g p)) \<Longrightarrow> those (map f ps) = Some (map g ps)"
  by (induction ps) auto

lemma contents_blocks:
  assumes "log_blocks buf ps"
  shows "log_contents buf = Some (map (bentry (lc_d buf)) ps)"
proof -
  have basic: "lc_basic buf" using assms by (simp add: log_blocks_def)
  have h: "log_blocks (buf\<lparr>lc_print_handler := True\<rparr>) ps"
    using assms by (simp add: log_blocks_def lin_def wrap_def lc_basic_def)
  note pb = print_blocks [OF h]
  have "log_cbuffer_print (buf\<lparr>lc_print_handler := True\<rparr>) = Some ps"
    using pb(1-3) by (cases ps) (auto simp: log_cbuffer_print_def)
  moreover have "log_entry buf p = Some (bentry (lc_d buf) p)" if "p \<in> set ps" for p
    using block_entry [OF basic] pb(4) [OF that] by auto
  ultimately show ?thesis by (simp add: log_contents_def those_Some)
qed

lemma log_append_contents:
  assumes "log_ok buf" "0 \<notin> set msg" "\<not> bit type 7"
  shows "\<exists>es k buf' pos. log_contents buf = Some es \<and>
    log_cbuffer_append_msg buf msg type now = Some (buf', if lc_print_handler buf then [pos] else []) \<and>
    log_ok buf' \<and> lc_same buf buf' \<and> (k = 0 \<or> lc_size buf \<le> used (drop k es) + 3 * (LOG_CBUFFER_MSG_LEN_MAX + 9)) \<and>
    log_contents buf' = Some (drop k es @
      [(type, if lc_time_handler buf then now else 0, take LOG_CBUFFER_MSG_LEN_MAX msg)])"
proof -
  obtain ps where ps: "log_blocks buf ps" using assms(1) by (auto simp: log_ok_def)
  from log_append_blocks [OF ps assms(2,3), of now] obtain buf' pos k where
    a: "log_cbuffer_append_msg buf msg type now = Some (buf', if lc_print_handler buf then [pos] else [])"
      "log_blocks buf' (drop k ps @ [pos])" "lc_same buf buf'"
      "k = 0 \<or> lc_size buf \<le> used (map (bentry (lc_d buf)) (drop k ps)) + 3 * (LOG_CBUFFER_MSG_LEN_MAX + 9)"
      "\<forall>p\<in>set (drop k ps). bentry (lc_d buf') p = bentry (lc_d buf) p"
      "bentry (lc_d buf') pos = (type, if lc_time_handler buf then now else 0, take LOG_CBUFFER_MSG_LEN_MAX msg)" by blast
  have "map (bentry (lc_d buf')) (drop k ps @ [pos]) = drop k (map (bentry (lc_d buf)) ps) @
      [(type, if lc_time_handler buf then now else 0, take LOG_CBUFFER_MSG_LEN_MAX msg)]"
    using a(5,6) by (simp add: drop_map)
  with contents_blocks [OF ps] contents_blocks [OF a(2)] a(1-4) show ?thesis
    unfolding log_ok_def by (intro exI [of _ "map (bentry (lc_d buf)) ps"] exI [of _ k] exI [of _ buf'] exI [of _ pos]) (auto simp: drop_map)
qed

text \<open>A new log has one message.\<close>

lemma log_init_ok:
  assumes "length data = sz" "sz < 2 ^ 31" "3 * (LOG_CBUFFER_MSG_LEN_MAX + 9) < sz"
  shows "\<exists>buf. log_cbuffer_init data sz = Some buf \<and> log_ok buf \<and> log_contents buf = Some [(LOG_TYPE_INFO, 0, clog_initialized)] \<and>
    \<not> lc_print_handler buf \<and> \<not> lc_time_handler buf"
proof -
  let ?b = "\<lparr>lc_blk_first = 0, lc_blk_last = 0, lc_size = sz, lc_d = data, lc_print_handler = False, lc_time_handler = False\<rparr>"
  have basic: "lc_basic ?b" using assms by (simp add: lc_basic_def)
  have cl: "length clog_initialized = 16" "0 \<notin> set clog_initialized" "\<not> bit LOG_TYPE_INFO 7"
    "16 = min (length clog_initialized) LOG_CBUFFER_MSG_LEN_MAX" "take LOG_CBUFFER_MSG_LEN_MAX clog_initialized = clog_initialized"
    by (simp_all add: clog_initialized_def LOG_CBUFFER_MSG_LEN_MAX_def LOG_TYPE_INFO_def)
  have "0 + (16 + 9) \<le> lc_size ?b" using assms(3) by (simp add: LOG_CBUFFER_MSG_LEN_MAX_def)
  from write_block [OF basic this cl(4,2,3), of "\<lambda>_. 0"] obtain d where
    d: "Option.bind (log_cbuffer_set_header ?b 0 LOG_TYPE_INFO) (\<lambda>buf. Option.bind (log_cbuffer_set_time buf 0 0)
        (\<lambda>buf. log_cbuffer_set_message buf 0 clog_initialized 16)) = Some (?b\<lparr>lc_d := d\<rparr>)" "length d = sz"
      "block d 0 (0 + (16 + 9))" "\<not> ovr d 0" "bentry d 0 = (LOG_TYPE_INFO, 0, clog_initialized)"
    using assms(1) cl(5) by auto
  have "log_cbuffer_init data sz = Some (?b\<lparr>lc_d := d\<rparr>)"
    using d(1) by (auto simp: log_cbuffer_init_def bind_eq_Some_conv)
  moreover have "lin (?b\<lparr>lc_d := d\<rparr>) [0] 25" using d(3,4) block_end [OF d(3)] by (simp add: lin_def)
  then have "log_blocks (?b\<lparr>lc_d := d\<rparr>) [0]" using assms d(2) unfolding log_blocks_def by (auto simp: lc_basic_def)
  ultimately show ?thesis using contents_blocks d(5) by (auto simp: log_ok_def)
qed

text \<open>Property C40. The circular log keeps its newest messages: appending a message to a log in use always ends, drops
  only the oldest messages, and those only when the ones that are left use all but the space of three blocks
  of the array, and the new message (cut to 128 bytes) becomes the last one that is read.\<close>

theorem log_keeps_newest:
  assumes "log_ok buf" "0 \<notin> set msg" "\<not> bit type 7"
  shows "\<exists>es k buf' pos. log_contents buf = Some es \<and>
    log_cbuffer_append_msg buf msg type now = Some (buf', if lc_print_handler buf then [pos] else []) \<and>
    log_ok buf' \<and> lc_same buf buf' \<and> (k = 0 \<or> lc_size buf \<le> used (drop k es) + 3 * (LOG_CBUFFER_MSG_LEN_MAX + 9)) \<and>
    log_contents buf' = Some (drop k es @
      [(type, if lc_time_handler buf then now else 0, take LOG_CBUFFER_MSG_LEN_MAX msg)])"
  using log_append_contents [OF assms] .

lemma log_keeps_newest_witness:
  "\<exists>buf buf'. log_cbuffer_init (replicate 2000 0xff) 2000 = Some buf \<and>
    log_cbuffer_append_msg buf [72, 105] 4 5 = Some (buf', []) \<and>
    log_contents buf' = Some [(LOG_TYPE_INFO, 0, clog_initialized), (4, 0, [72, 105])]"
proof -
  obtain buf where b: "log_cbuffer_init (replicate 2000 0xff) 2000 = Some buf" "log_ok buf"
    "log_contents buf = Some [(LOG_TYPE_INFO, 0, clog_initialized)]" "\<not> lc_print_handler buf" "\<not> lc_time_handler buf"
    using log_init_ok [of "replicate 2000 0xff" 2000] by (auto simp: LOG_CBUFFER_MSG_LEN_MAX_def)
  then have sz: "lc_size buf = 2000" by (auto simp: log_cbuffer_init_def log_cbuffer_set_header_def log_cbuffer_set_time_def
    log_cbuffer_set_message_def lc_put_def bind_eq_Some_conv split: if_splits)
  from log_keeps_newest [OF b(2), of "[72, 105]" 4 5] b(3-5) sz obtain k buf' where
    a: "log_cbuffer_append_msg buf [72, 105] 4 5 = Some (buf', [])"
      "k = 0 \<or> 2000 \<le> used (drop k [(LOG_TYPE_INFO, 0, clog_initialized)]) + 411"
      "log_contents buf' = Some (drop k [(LOG_TYPE_INFO, 0, clog_initialized)] @ [(4, 0, [72, 105])])"
    by (auto simp: LOG_CBUFFER_MSG_LEN_MAX_def)
  have "used (drop k [(LOG_TYPE_INFO, 0, clog_initialized)]) + 411 < 2000"
    by (cases k) (simp_all add: used_def clog_initialized_def)
  then have "k = 0" using a(2) by linarith
  with a b show ?thesis by auto
qed

end
