(* ===== verification/Plog_Topic.thy ===== *)
theory Plog_Topic
  imports Prelude
begin

text \<open>
  Topics of the message router (\<open>plog_router_match_topic\<close> in \<open>services/plog-router/plog_router.c\<close>):
  the matching loop over the characters of filter and topic, and its meaning on levels. Strings are
  character lists without the terminating zero; \<open>at\<close> reads the first character or that zero.
\<close>

fun at :: "string \<Rightarrow> char" where
  "at [] = CHR 0x00"
| "at (c # _) = c"

text \<open>Every turn of the loop advances in the filter or in the topic.\<close>

lemma tl_shorter: "at s \<noteq> CHR 0x00 \<Longrightarrow> length s - Suc 0 < length s"
  by (cases s) auto

function match_loop :: "char \<Rightarrow> string \<Rightarrow> string \<Rightarrow> bool" where
  "match_loop last_filter flt topic =
     (if at flt = CHR ''#'' \<and> at topic \<noteq> CHR 0x00 then match_loop last_filter flt (tl topic)
      else if at flt = CHR ''+'' \<and> at topic \<noteq> CHR 0x00 \<and> at topic \<noteq> CHR ''/''
        then match_loop last_filter flt (tl topic)
      else if at flt = CHR ''+'' \<and> at topic = CHR ''/'' then match_loop (at flt) (tl flt) topic
      else if at flt = CHR ''#'' \<and> last_filter \<noteq> CHR ''/'' then False
      else if at flt = CHR ''+'' \<and> last_filter \<noteq> CHR ''/'' then False
      else if (at flt = CHR ''/'' \<or> at flt = CHR ''#'' \<or> at flt = CHR ''+'') \<and> at topic = CHR 0x00
        then match_loop (at flt) (tl flt) topic
      else if at flt = CHR 0x00 \<and> at topic = CHR 0x00 then True
      else if at flt = at topic then match_loop (at flt) (tl flt) (tl topic)
      else False)"
  by pat_completeness auto

termination
  by (relation "measure (\<lambda>(l, f, t). length f + length t)") (auto intro!: add_less_mono tl_shorter)

declare match_loop.simps [simp del]

definition plog_router_match_topic :: "string \<Rightarrow> string \<Rightarrow> bool" where
  "plog_router_match_topic flt topic =
     (if at flt = CHR ''#'' then True else match_loop (CHR 0x00) flt topic)"

subsection \<open>Steps of the loop\<close>

lemma match_nil: "match_loop l [] [] = True"
  by (subst match_loop.simps) simp

lemma match_short: "c \<noteq> CHR 0x00 \<Longrightarrow> match_loop l [] (c # t) = False"
  by (subst match_loop.simps) simp

lemma match_same: "c \<notin> {CHR 0x00, CHR ''#'', CHR ''+''} \<Longrightarrow> match_loop l (c # f) (c # t) = match_loop c f t"
  by (subst match_loop.simps) simp

lemma match_differ: "c \<notin> {CHR 0x00, CHR ''#'', CHR ''+''} \<Longrightarrow> d \<noteq> CHR 0x00 \<Longrightarrow> c \<noteq> d \<Longrightarrow> match_loop l (c # f) (d # t) = False"
  by (subst match_loop.simps) simp

lemma match_end: "c \<notin> {CHR 0x00, CHR ''#'', CHR ''+'', CHR ''/''} \<Longrightarrow> match_loop l (c # f) [] = False"
  by (subst match_loop.simps) simp

lemma match_slash_end: "match_loop l (CHR ''/'' # f) [] = match_loop (CHR ''/'') f []"
  by (subst match_loop.simps) simp

lemma match_plus_end: "match_loop (CHR ''/'') (CHR ''+'' # f) [] = match_loop (CHR ''+'') f []"
  by (subst match_loop.simps) simp

lemma match_plus_slash: "match_loop l (CHR ''+'' # f) (CHR ''/'' # t) = match_loop (CHR ''+'') f (CHR ''/'' # t)"
  by (subst match_loop.simps) simp

lemma match_plus_char:
  "c \<notin> {CHR 0x00, CHR ''/''} \<Longrightarrow> match_loop l (CHR ''+'' # f) (c # t) = match_loop l (CHR ''+'' # f) t"
  by (subst match_loop.simps) simp

lemma match_hash_end: "match_loop (CHR ''/'') (CHR ''#'' # f) [] = match_loop (CHR ''#'') f []"
  by (subst match_loop.simps) simp

lemma match_hash_char: "c \<noteq> CHR 0x00 \<Longrightarrow> match_loop l (CHR ''#'' # f) (c # t) = match_loop l (CHR ''#'' # f) t"
  by (subst match_loop.simps) simp

lemmas match_steps = match_nil match_short match_same match_differ match_end match_slash_end match_plus_end
  match_plus_slash match_plus_char match_hash_end match_hash_char

subsection \<open>Filters and topics as levels\<close>

datatype level = Name string | Plus

definition plain :: "string \<Rightarrow> bool" where
  "plain n \<longleftrightarrow> list_all (\<lambda>c. c \<notin> {CHR 0x00, CHR ''#'', CHR ''+'', CHR ''/''}) n"

definition topic_level :: "string \<Rightarrow> bool" where
  "topic_level n \<longleftrightarrow> list_all (\<lambda>c. c \<notin> {CHR 0x00, CHR ''/''}) n"

fun level_ok :: "level \<Rightarrow> bool" where
  "level_ok (Name n) = plain n"
| "level_ok Plus = True"

fun level_str :: "level \<Rightarrow> string" where
  "level_str (Name n) = n"
| "level_str Plus = ''+''"

text \<open>The text after the first level; \<open>h\<close> tells whether the filter ends with the level \<open>#\<close>.\<close>

fun rest_str :: "level list \<Rightarrow> bool \<Rightarrow> string" where
  "rest_str [] h = (if h then ''/#'' else '''')"
| "rest_str (f # fs) h = CHR ''/'' # level_str f @ rest_str fs h"

fun topic_rest :: "string list \<Rightarrow> string" where
  "topic_rest [] = ''''"
| "topic_rest (t # ts) = CHR ''/'' # t @ topic_rest ts"

fun level_match :: "level \<Rightarrow> string \<Rightarrow> bool" where
  "level_match (Name n) t = (n = t)"
| "level_match Plus t = True"

text \<open>
  What a filter means: level by level, with \<open>#\<close> standing for any number of further levels. This is
  the matching of the MQTT standard.
\<close>

fun mqtt_match :: "level list \<Rightarrow> bool \<Rightarrow> string list \<Rightarrow> bool" where
  "mqtt_match [] h ts = (h \<or> ts = [])"
| "mqtt_match (f # fs) h [] = False"
| "mqtt_match (f # fs) h (t # ts) = (level_match f t \<and> mqtt_match fs h ts)"

fun may_be_missing :: "level \<Rightarrow> bool" where
  "may_be_missing (Name n) = (n = '''')"
| "may_be_missing Plus = True"

text \<open>The same, but a topic may be shorter by levels that could be empty.\<close>

fun loose_match :: "level list \<Rightarrow> bool \<Rightarrow> string list \<Rightarrow> bool" where
  "loose_match [] h ts = (h \<or> ts = [])"
| "loose_match (f # fs) h [] = (may_be_missing f \<and> loose_match fs h [])"
| "loose_match (f # fs) h (t # ts) = (level_match f t \<and> loose_match fs h ts)"

lemma plain_Cons: "plain (c # n) \<longleftrightarrow> c \<notin> {CHR 0x00, CHR ''#'', CHR ''+'', CHR ''/''} \<and> plain n"
  by (simp add: plain_def)

lemma topic_level_Cons: "topic_level (c # n) \<longleftrightarrow> c \<notin> {CHR 0x00, CHR ''/''} \<and> topic_level n"
  by (simp add: topic_level_def)

lemma rest_cases: "rest_str fs h = [] \<or> (\<exists>r. rest_str fs h = CHR ''/'' # r)"
  by (cases fs) auto

lemma topic_rest_cases: "topic_rest ts = [] \<or> (\<exists>r. topic_rest ts = CHR ''/'' # r)"
  by (cases ts) auto

lemma match_name:
  "plain n \<Longrightarrow> topic_level t \<Longrightarrow> F = [] \<or> (\<exists>r. F = CHR ''/'' # r) \<Longrightarrow> T = [] \<or> (\<exists>r. T = CHR ''/'' # r) \<Longrightarrow>
   \<exists>l'. match_loop l (n @ F) (t @ T) = (n = t \<and> match_loop l' F T)"
proof (induction n arbitrary: l t)
  case Nil
  then show ?case by (cases t) (auto simp: match_steps topic_level_Cons)
next
  case (Cons c n)
  show ?case
  proof (cases t)
    case Nil
    then show ?thesis using Cons.prems by (auto simp: match_steps plain_Cons)
  next
    case (Cons d t')
    note t = this
    show ?thesis
    proof (cases "c = d")
      case True
      obtain l' where "match_loop c (n @ F) (t' @ T) = (n = t' \<and> match_loop l' F T)"
        using Cons.IH Cons.prems t by (auto simp: plain_Cons topic_level_Cons)
      then show ?thesis using True t Cons.prems(1) by (auto simp: match_steps plain_Cons)
    next
      case False
      then show ?thesis using t Cons.prems(1,2) by (auto simp: match_steps plain_Cons topic_level_Cons)
    qed
  qed
qed

lemma match_plus:
  "topic_level t \<Longrightarrow> T = [] \<or> (\<exists>r. T = CHR ''/'' # r) \<Longrightarrow>
   match_loop (CHR ''/'') (CHR ''+'' # F) (t @ T) = match_loop (CHR ''+'') F T"
  by (induction t) (auto simp: match_steps topic_level_Cons)

lemma match_hash: "list_all (\<lambda>c. c \<noteq> CHR 0x00) t \<Longrightarrow> match_loop (CHR ''/'') ''#'' t"
  by (induction t) (simp_all add: match_steps)

lemma topic_rest_nonzero: "list_all topic_level ts \<Longrightarrow> list_all (\<lambda>c. c \<noteq> CHR 0x00) (topic_rest ts)"
  by (induction ts) (auto simp: topic_level_def list_all_iff)

lemma match_rest:
  "list_all level_ok fs \<Longrightarrow> list_all topic_level ts \<Longrightarrow>
   match_loop l (rest_str fs h) (topic_rest ts) = loose_match fs h ts"
proof (induction fs h ts arbitrary: l rule: loose_match.induct)
  case (1 h ts)
  show ?case
  proof (cases ts)
    case Nil
    then show ?thesis by (simp add: match_steps)
  next
    case (Cons t ts')
    then have "list_all (\<lambda>c. c \<noteq> CHR 0x00) (t @ topic_rest ts')"
      using 1 topic_rest_nonzero [of ts'] by (auto simp: topic_level_def list_all_iff)
    then show ?thesis using Cons match_hash [of "t @ topic_rest ts'"] by (simp add: match_steps)
  qed
next
  case (2 f fs h)
  show ?case
  proof (cases f)
    case (Name n)
    then show ?thesis using 2 by (cases n) (auto simp: match_steps plain_Cons)
  next
    case Plus
    then show ?thesis using 2 by (simp add: match_steps)
  qed
next
  case (3 f fs h t ts)
  have t: "topic_level t" using 3 by simp
  have IH: "level_match f t \<Longrightarrow> match_loop l' (rest_str fs h) (topic_rest ts) = loose_match fs h ts" for l'
    using 3 by simp
  show ?case
  proof (cases f)
    case (Name n)
    obtain l' where "match_loop (CHR ''/'') (n @ rest_str fs h) (t @ topic_rest ts) =
        (n = t \<and> match_loop l' (rest_str fs h) (topic_rest ts))"
      using match_name [OF _ t rest_cases topic_rest_cases] 3(2) Name by fastforce
    then show ?thesis using IH Name by (auto simp: match_steps)
  next
    case Plus
    then show ?thesis using match_plus [OF t topic_rest_cases] IH by (simp add: match_steps)
  qed
qed

lemma loose_mqtt:
  "loose_match fs h ts \<longleftrightarrow> mqtt_match fs h ts \<or>
     length ts < length fs \<and> mqtt_match (take (length ts) fs) False ts \<and> list_all may_be_missing (drop (length ts) fs)"
proof (induction fs h ts rule: loose_match.induct)
  case (2 f fs h)
  then show ?case by (cases fs) auto
qed auto

lemma match_topic:
  assumes "plain n" "list_all level_ok fs" "list_all topic_level (t # ts)"
  shows "plog_router_match_topic (n @ rest_str fs h) (t @ topic_rest ts) = loose_match (Name n # fs) h (t # ts)"
proof -
  have "at (n @ rest_str fs h) \<noteq> CHR ''#''"
    using assms(1) rest_cases [of fs h] by (cases n) (auto simp: plain_Cons)
  moreover have "topic_level t" using assms(3) by simp
  ultimately show ?thesis
    using match_name [OF assms(1) _ rest_cases topic_rest_cases, of t "CHR 0x00" fs h ts] match_rest assms(2,3)
    by (auto simp: plog_router_match_topic_def)
qed

text \<open>The text of a filter with the levels \<open>fs\<close>.\<close>

fun filter_str :: "level list \<Rightarrow> bool \<Rightarrow> string" where
  "filter_str [] h = ''#''"
| "filter_str (f # fs) h = level_str f @ rest_str fs h"

lemma match_first_plus:
  assumes "list_all level_ok fs" "list_all topic_level (t # ts)"
  shows "plog_router_match_topic (CHR ''+'' # rest_str fs h) (t @ topic_rest ts) \<longleftrightarrow> ts \<noteq> [] \<and> loose_match fs h ts"
proof -
  have skip: "match_loop (CHR 0x00) (CHR ''+'' # F) (u @ T) = match_loop (CHR 0x00) (CHR ''+'' # F) T" if "topic_level u" for u F T
    using that by (induction u) (simp_all add: match_steps topic_level_Cons)
  have none: "\<not> match_loop (CHR 0x00) (CHR ''+'' # F) []" for F by (subst match_loop.simps) simp
  have "match_loop (CHR 0x00) (CHR ''+'' # rest_str fs h) (topic_rest ts) \<longleftrightarrow> ts \<noteq> [] \<and> loose_match fs h ts"
  proof (cases ts)
    case Nil
    then show ?thesis using none by simp
  next
    case (Cons u us)
    then show ?thesis using match_rest [of fs ts "CHR ''+''" h] assms by (simp add: match_plus_slash)
  qed
  then show ?thesis using skip [of t] assms(2) by (simp add: plog_router_match_topic_def)
qed

text \<open>
  Property C38. The matching of topics is the one of MQTT with two exceptions. A filter of any names and \<open>+\<close> levels and
  perhaps a final \<open>#\<close> accepts a topic exactly when it accepts it level by level, or, which MQTT does not allow, when the
  topic is shorter, agrees with the first levels of the filter, and all the remaining levels of the filter are \<open>+\<close> or
  empty; but a filter whose first level is \<open>+\<close> accepts no topic of a single level, which MQTT does.
\<close>

theorem match_topic_levels:
  assumes "fs \<noteq> [] \<or> h" "list_all level_ok fs" "list_all topic_level (t # ts)"
  shows "plog_router_match_topic (filter_str fs h) (t @ topic_rest ts) \<longleftrightarrow>
    (mqtt_match fs h (t # ts) \<or>
      length (t # ts) < length fs \<and> mqtt_match (take (length (t # ts)) fs) False (t # ts) \<and>
        list_all may_be_missing (drop (length (t # ts)) fs)) \<and>
    \<not> (ts = [] \<and> take 1 fs = [Plus])"
proof (cases fs)
  case Nil
  then show ?thesis using assms(1) by (simp add: plog_router_match_topic_def)
next
  case (Cons f gs)
  have l: "loose_match fs h (t # ts) \<longleftrightarrow> mqtt_match fs h (t # ts) \<or> length (t # ts) < length fs \<and>
      mqtt_match (take (length (t # ts)) fs) False (t # ts) \<and> list_all may_be_missing (drop (length (t # ts)) fs)"
    by (rule loose_mqtt)
  show ?thesis
  proof (cases f)
    case (Name n)
    then have "plog_router_match_topic (filter_str fs h) (t @ topic_rest ts) = loose_match fs h (t # ts)"
      using match_topic [of n gs t ts h] assms(2,3) Cons by simp
    then show ?thesis unfolding l using Cons Name by simp
  next
    case Plus
    then have "plog_router_match_topic (filter_str fs h) (t @ topic_rest ts) \<longleftrightarrow> ts \<noteq> [] \<and> loose_match fs h (t # ts)"
      using match_first_plus [OF _ assms(3), of gs h] assms(2) Cons by simp
    then show ?thesis unfolding l using Cons Plus by auto
  qed
qed

lemma match_topic_levels_witness:
  "plog_router_match_topic ''sport/+/score/#'' ''sport/tennis/score/wimbledon'' \<and>
   \<not> plog_router_match_topic ''sport/+'' ''sport/tennis/score'' \<and> plog_router_match_topic ''sport/+'' ''sport'' \<and>
   plog_router_match_topic ''+/tennis'' ''sport/tennis'' \<and> \<not> plog_router_match_topic ''+'' ''sport''"
  using match_topic_levels [of "[Name ''sport'', Plus, Name ''score'']" True "''sport''" "[''tennis'', ''score'', ''wimbledon'']"]
    match_topic_levels [of "[Name ''sport'', Plus]" False "''sport''" "[''tennis'', ''score'']"]
    match_topic_levels [of "[Name ''sport'', Plus]" False "''sport''" "[]"]
    match_topic_levels [of "[Plus, Name ''tennis'']" False "''sport''" "[''tennis'']"]
    match_topic_levels [of "[Plus]" False "''sport''" "[]"]
  by (simp add: plain_def topic_level_def)

text \<open>A filter that is a single \<open>+\<close> accepts no topic of one level.\<close>

lemma single_plus_accepts_nothing:
  assumes "topic_level t"
  shows "\<not> plog_router_match_topic ''+'' t"
proof -
  have "\<not> match_loop (CHR 0x00) ''+'' t" using assms
  proof (induction t)
    case Nil
    show ?case by (subst match_loop.simps) simp
  qed (simp add: match_steps topic_level_Cons)
  then show ?thesis by (simp add: plog_router_match_topic_def)
qed

text \<open>Within a level, \<open>+\<close> stands for the rest of the level.\<close>

lemma plus_inside_level: "plog_router_match_topic ''te+/x'' ''tennis/x''"
  by (simp add: plog_router_match_topic_def match_steps)

end
