(* ===== verification/Ndarray.thy ===== *)
theory Ndarray
  imports Prelude
begin

text \<open>
  Arrays of numbers (\<open>services/types/ndarray.c\<close>), the payload of the messages of the message queue.
  The buffer is the list of its bytes; a buffer that could not be allocated is the empty one. Sizes
  are products of 32 bit numbers. The result \<open>None\<close> is an access outside of the buffer or a division
  by zero. Printing and the square roots of floating point numbers are left out.
\<close>

datatype ndarray_ret = NDARRAY_RET_OK | NDARRAY_RET_FAILED

datatype dtype = DTYPE_CHAR | DTYPE_BYTE | DTYPE_INT8 | DTYPE_UINT8 | DTYPE_INT16 | DTYPE_UINT16 | DTYPE_INT32
  | DTYPE_UINT32 | DTYPE_INT64 | DTYPE_UINT64 | DTYPE_FLOAT | DTYPE_DOUBLE

record ndarray =
  na_dtype :: dtype
  na_dsize :: nat
  na_asize :: nat
  na_buf :: "u8 list"
  na_bufsize :: nat

fun ndarray_get_dsize :: "dtype \<Rightarrow> nat" where
  "ndarray_get_dsize DTYPE_CHAR = 1"
| "ndarray_get_dsize DTYPE_BYTE = 1"
| "ndarray_get_dsize DTYPE_INT8 = 1"
| "ndarray_get_dsize DTYPE_UINT8 = 1"
| "ndarray_get_dsize DTYPE_INT16 = 2"
| "ndarray_get_dsize DTYPE_UINT16 = 2"
| "ndarray_get_dsize DTYPE_INT32 = 4"
| "ndarray_get_dsize DTYPE_UINT32 = 4"
| "ndarray_get_dsize DTYPE_FLOAT = 4"
| "ndarray_get_dsize DTYPE_INT64 = 8"
| "ndarray_get_dsize DTYPE_UINT64 = 8"
| "ndarray_get_dsize DTYPE_DOUBLE = 8"

definition mul32 :: "nat \<Rightarrow> nat \<Rightarrow> nat" where
  "mul32 a b = (a * b) mod 2 ^ 32"

text \<open>\<open>memset\<close> of the structure.\<close>

definition ndarray_clear :: ndarray where
  "ndarray_clear = \<lparr>na_dtype = DTYPE_CHAR, na_dsize = 0, na_asize = 0, na_buf = [], na_bufsize = 0\<rparr>"

text \<open>\<open>mem\<close> tells whether memory can be allocated.\<close>

definition ndarray_init_zero :: "bool \<Rightarrow> dtype \<Rightarrow> nat \<Rightarrow> ndarray_ret \<times> ndarray" where
  "ndarray_init_zero mem dtype asize =
     (let dsize = ndarray_get_dsize dtype; bufsize = mul32 asize dsize;
          self = ndarray_clear\<lparr>na_dtype := dtype, na_dsize := dsize, na_asize := asize, na_bufsize := bufsize\<rparr>
      in if \<not> mem then (NDARRAY_RET_FAILED, self)
         else (NDARRAY_RET_OK, self\<lparr>na_buf := replicate bufsize 0\<rparr>))"

text \<open>\<open>fresh\<close> gives the contents of new memory of a size, \<open>None\<close> when it cannot be allocated.\<close>

definition ndarray_init_empty :: "(nat \<Rightarrow> u8 list option) \<Rightarrow> dtype \<Rightarrow> nat \<Rightarrow> ndarray_ret \<times> ndarray" where
  "ndarray_init_empty fresh dtype asize_max =
     (let dsize = ndarray_get_dsize dtype; bufsize = mul32 asize_max dsize;
          self = ndarray_clear\<lparr>na_dtype := dtype, na_dsize := dsize, na_bufsize := bufsize\<rparr>
      in case fresh bufsize of
           None \<Rightarrow> (NDARRAY_RET_FAILED, self)
         | Some m \<Rightarrow> (NDARRAY_RET_OK, self\<lparr>na_buf := m\<rparr>))"

definition ndarray_init_view :: "dtype \<Rightarrow> nat \<Rightarrow> u8 list \<Rightarrow> nat \<Rightarrow> ndarray_ret \<times> ndarray" where
  "ndarray_init_view dtype asize buf bufsize =
     (let self = ndarray_clear\<lparr>na_dtype := dtype, na_dsize := ndarray_get_dsize dtype\<rparr> in
      if mul32 asize (na_dsize self) > bufsize then (NDARRAY_RET_FAILED, self)
      else (NDARRAY_RET_OK, self\<lparr>na_asize := asize, na_bufsize := bufsize, na_buf := buf\<rparr>))"

definition ndarray_free :: "ndarray \<Rightarrow> ndarray_ret \<times> ndarray" where
  "ndarray_free self = (NDARRAY_RET_OK, ndarray_clear)"

definition ndarray_move :: "ndarray \<Rightarrow> nat \<Rightarrow> nat \<Rightarrow> nat \<Rightarrow> ndarray option" where
  "ndarray_move self offset_to offset_from sz =
     Option.bind (mem_read (na_buf self) (mul32 offset_from (na_dsize self)) (mul32 sz (na_dsize self))) (\<lambda>bs.
     Option.bind (mem_write (na_buf self) (mul32 offset_to (na_dsize self)) bs) (\<lambda>b. Some (self\<lparr>na_buf := b\<rparr>)))"

definition ndarray_copy_from :: "ndarray \<Rightarrow> nat \<Rightarrow> ndarray \<Rightarrow> nat \<Rightarrow> nat \<Rightarrow> (ndarray_ret \<times> ndarray) option" where
  "ndarray_copy_from self offset_to from' offset_from sz =
     (if na_dtype self \<noteq> na_dtype from' then Some (NDARRAY_RET_FAILED, self)
      else if na_dsize self = 0 then None
      else
        let dst_max_size = na_bufsize self div na_dsize self;
            sz = (if sz > sub32 dst_max_size offset_to then sub32 dst_max_size offset_to else sz);
            sz = (if sz > sub32 (na_asize from') offset_from then sub32 (na_asize from') offset_from else sz)
        in Option.bind (mem_read (na_buf from') (mul32 offset_from (na_dsize self)) (mul32 sz (na_dsize self))) (\<lambda>bs.
           Option.bind (mem_write (na_buf self) (mul32 offset_to (na_dsize self)) bs) (\<lambda>b.
           Some (NDARRAY_RET_OK, self\<lparr>na_buf := b\<rparr>))))"

definition ndarray_zero :: "ndarray \<Rightarrow> ndarray option" where
  "ndarray_zero self =
     map_option (\<lambda>b. self\<lparr>na_buf := b\<rparr>) (mem_write (na_buf self) 0 (replicate (mul32 (na_asize self) (na_dsize self)) 0))"

definition ndarray_append :: "ndarray \<Rightarrow> ndarray \<Rightarrow> ndarray option" where
  "ndarray_append self from' =
     (if na_dsize self = 0 then None
      else
        let max_asize = na_bufsize self div na_dsize self;
            sz = na_asize from';
            sz = (if sz > sub32 max_asize (na_asize self) then sub32 max_asize (na_asize self) else sz)
        in Option.bind (ndarray_copy_from self (na_asize self) from' 0 sz) (\<lambda>(_, self).
           Some (self\<lparr>na_asize := add32 (na_asize self) sz\<rparr>)))"

fun dtype_str :: "dtype \<Rightarrow> string" where
  "dtype_str DTYPE_CHAR = ''CHAR''"
| "dtype_str DTYPE_BYTE = ''BYTE''"
| "dtype_str DTYPE_INT8 = ''INT8''"
| "dtype_str DTYPE_UINT8 = ''UINT8''"
| "dtype_str DTYPE_INT16 = ''INT16''"
| "dtype_str DTYPE_UINT16 = ''UINT16''"
| "dtype_str DTYPE_INT32 = ''INT32''"
| "dtype_str DTYPE_UINT32 = ''UINT32''"
| "dtype_str DTYPE_INT64 = ''INT64''"
| "dtype_str DTYPE_UINT64 = ''UINT64''"
| "dtype_str DTYPE_FLOAT = ''FLOAT''"
| "dtype_str DTYPE_DOUBLE = ''DOUBLE''"

definition ndarray_dtype_str :: "ndarray \<Rightarrow> string" where
  "ndarray_dtype_str self = dtype_str (na_dtype self)"

subsection \<open>Well-formed arrays\<close>

definition na_ok :: "ndarray \<Rightarrow> bool" where
  "na_ok a \<longleftrightarrow> na_dsize a = ndarray_get_dsize (na_dtype a) \<and> length (na_buf a) = na_bufsize a \<and> na_bufsize a < 2 ^ 32 \<and>
     na_asize a * na_dsize a \<le> na_bufsize a"

text \<open>The bytes of the numbers in an array.\<close>

definition na_data :: "ndarray \<Rightarrow> u8 list" where
  "na_data a = take (na_asize a * na_dsize a) (na_buf a)"

definition na_room :: "ndarray \<Rightarrow> nat" where
  "na_room a = na_bufsize a div na_dsize a - na_asize a"

lemma dsize_pos [simp]: "0 < ndarray_get_dsize t"
  by (cases t) simp_all

lemma na_max:
  assumes "na_ok a"
  shows "na_asize a \<le> na_bufsize a div na_dsize a" "na_bufsize a div na_dsize a < 2 ^ 32"
    "x \<le> na_bufsize a div na_dsize a \<Longrightarrow> x * na_dsize a \<le> na_bufsize a"
    "x \<le> na_bufsize a div na_dsize a \<Longrightarrow> mul32 x (na_dsize a) = x * na_dsize a"
    "x \<le> na_asize a \<Longrightarrow> mul32 x (na_dsize a) = x * na_dsize a" "0 < na_dsize a"
proof -
  have d: "0 < na_dsize a" "na_bufsize a < 2 ^ 32" using assms by (simp_all add: na_ok_def)
  have le': "na_asize a * na_dsize a \<le> na_bufsize a" using assms unfolding na_ok_def by blast
  show "0 < na_dsize a" by (rule d(1))
  show le: "na_asize a \<le> na_bufsize a div na_dsize a"
    using le' less_eq_div_iff_mult_less_eq [OF d(1)] by blast
  show "na_bufsize a div na_dsize a < 2 ^ 32" using d by (meson div_le_dividend le_less_trans)
  show m: "x * na_dsize a \<le> na_bufsize a" if "x \<le> na_bufsize a div na_dsize a" for x
    using that d by (simp add: less_eq_div_iff_mult_less_eq)
  then show w: "mul32 x (na_dsize a) = x * na_dsize a" if "x \<le> na_bufsize a div na_dsize a" for x
    using m [OF that] d(2) by (simp add: mul32_def)
  show "mul32 x (na_dsize a) = x * na_dsize a" if "x \<le> na_asize a" using w le that by simp
qed

lemma ndarray_append_ok:
  assumes "na_ok a" "na_ok b" "na_dtype a = na_dtype b"
  shows "\<exists>a'. ndarray_append a b = Some a' \<and> na_ok a' \<and> na_dtype a' = na_dtype a \<and> na_bufsize a' = na_bufsize a \<and>
    na_asize a' = na_asize a + min (na_asize b) (na_room a) \<and>
    na_data a' = na_data a @ take (na_room a * na_dsize a) (na_data b)"
proof -
  note A = na_max [OF assms(1)] and B = na_max [OF assms(2)]
  have ds: "na_dsize b = na_dsize a" using assms by (simp add: na_ok_def)
  define n where "n = min (na_asize b) (na_room a)"
  have n: "n \<le> na_asize b" "na_asize a + n \<le> na_bufsize a div na_dsize a" using A(1) by (auto simp: n_def na_room_def)
  have room: "sub32 (na_bufsize a div na_dsize a) (na_asize a) = na_room a"
    using A(1,2) by (simp add: sub32_small na_room_def)
  have sz: "(if na_asize b > na_room a then na_room a else na_asize b) = n" by (simp add: n_def min_def)
  have app: "ndarray_append a b = Option.bind (ndarray_copy_from a (na_asize a) b 0 n)
      (\<lambda>(_, c). Some (c\<lparr>na_asize := add32 (na_asize c) n\<rparr>))"
    using A(6) unfolding ndarray_append_def Let_def room sz by simp
  have z: "sub32 (na_asize b) 0 = na_asize b" using B(1,2) by (simp add: sub32_small)
  have nb: "mul32 n (na_dsize a) = n * na_dsize a" using B(5) n(1) ds by simp
  have ab: "mul32 (na_asize a) (na_dsize a) = na_asize a * na_dsize a" using A(5) by simp
  have fits: "n * na_dsize a \<le> length (na_buf b)"
    using B(1) B(3) [where x = n] n(1) ds assms(2) by (simp add: na_ok_def)
  have fits2: "na_asize a * na_dsize a + n * na_dsize a \<le> length (na_buf a)"
    using A(3) [where x = "na_asize a + n"] n(2) assms(1) by (simp add: na_ok_def add_mult_distrib)
  let ?bs = "take (n * na_dsize a) (na_buf b)"
  let ?a = "a\<lparr>na_buf := take (na_asize a * na_dsize a) (na_buf a) @ ?bs @ drop (na_asize a * na_dsize a + length ?bs) (na_buf a)\<rparr>"
  have lbs: "length ?bs = n * na_dsize a" using fits by simp
  have "ndarray_copy_from a (na_asize a) b 0 n = Some (NDARRAY_RET_OK, ?a)"
    using assms(3) A(6) n(1) fits fits2 room nb ab
    by (simp add: ndarray_copy_from_def z Let_def mem_read_def mem_write_def n_def mul32_def)
  moreover have "add32 (na_asize a) n = na_asize a + n" using A(2) n(2) by (intro add32_small) simp
  ultimately have "ndarray_append a b = Some (?a\<lparr>na_asize := na_asize a + n\<rparr>)"
    by (simp add: app)
  moreover have "na_ok (?a\<lparr>na_asize := na_asize a + n\<rparr>)"
    using assms(1) fits2 fits by (simp add: na_ok_def add_mult_distrib)
  moreover have same: "take (n * na_dsize a) (na_buf b) = take (na_room a * na_dsize a) (na_data b)"
    using nat_mult_min_left [of "na_asize b" "na_room a" "na_dsize a"]
    by (simp add: na_data_def n_def ds min.commute)
  have "na_data (?a\<lparr>na_asize := na_asize a + n\<rparr>) = na_data a @ take (n * na_dsize a) (na_buf b)"
    using fits2 fits by (simp add: na_data_def add_mult_distrib)
  then have "na_data (?a\<lparr>na_asize := na_asize a + n\<rparr>) = na_data a @ take (na_room a * na_dsize a) (na_data b)"
    unfolding same .
  ultimately show ?thesis by (auto simp: n_def)
qed

text \<open>An array of another type is not copied, but its length is added all the same.\<close>

lemma ndarray_append_other_type:
  assumes "na_ok a" "na_dtype a \<noteq> na_dtype b" "na_asize b \<le> na_room a"
  shows "ndarray_append a b = Some (a\<lparr>na_asize := na_asize a + na_asize b\<rparr>)"
proof -
  note A = na_max [OF assms(1)]
  have "sub32 (na_bufsize a div na_dsize a) (na_asize a) = na_room a" "na_asize a + na_asize b < 2 ^ 32"
    using A(1,2) assms(3) by (simp_all add: sub32_small na_room_def)
  then show ?thesis using assms(2,3) A(6) by (simp add: ndarray_append_def ndarray_copy_from_def add32_small)
qed

lemma copy_from_ok:
  assumes "na_ok a" "na_ok b" "na_dtype a = na_dtype b" "to \<le> na_bufsize a div na_dsize a" "from' \<le> na_asize b"
  shows "\<exists>a'. ndarray_copy_from a to b from' n = Some (NDARRAY_RET_OK, a') \<and> na_ok a' \<and>
    na_dtype a' = na_dtype a \<and> na_bufsize a' = na_bufsize a \<and> na_asize a' = na_asize a"
proof -
  note A = na_max [OF assms(1)] and B = na_max [OF assms(2)]
  have ds: "na_dsize b = na_dsize a" using assms(1-3) by (simp add: na_ok_def)
  define k where "k = min (min n (na_bufsize a div na_dsize a - to)) (na_asize b - from')"
  have r: "sub32 (na_bufsize a div na_dsize a) to = na_bufsize a div na_dsize a - to" "sub32 (na_asize b) from' = na_asize b - from'"
    using A(2) B(1,2) assms(4,5) by (simp_all add: sub32_small)
  have sz: "(if (if n > na_bufsize a div na_dsize a - to then na_bufsize a div na_dsize a - to else n) > na_asize b - from'
      then na_asize b - from' else if n > na_bufsize a div na_dsize a - to then na_bufsize a div na_dsize a - to else n) = k"
    by (simp add: k_def)
  have k: "to + k \<le> na_bufsize a div na_dsize a" "from' + k \<le> na_asize b" using assms(4,5) by (auto simp: k_def)
  have m: "mul32 k (na_dsize a) = k * na_dsize a" "mul32 to (na_dsize a) = to * na_dsize a" "mul32 from' (na_dsize a) = from' * na_dsize a"
    using A(4) [where x = k] A(4) [where x = to] B(5) [where x = from'] k assms(4,5) ds by auto
  have room: "to * na_dsize a + k * na_dsize a \<le> length (na_buf a)"
    using A(3) [where x = "to + k"] k(1) assms(1) by (simp add: na_ok_def add_mult_distrib)
  have "(from' + k) * na_dsize b \<le> na_bufsize b" using B(1) B(3) [where x = "from' + k"] k(2) by simp
  then have src: "from' * na_dsize a + k * na_dsize a \<le> length (na_buf b)"
    using assms(2) ds by (simp add: na_ok_def add_mult_distrib)
  let ?bs = "take (k * na_dsize a) (drop (from' * na_dsize a) (na_buf b))"
  have "ndarray_copy_from a to b from' n = Some (NDARRAY_RET_OK, a\<lparr>na_buf := take (to * na_dsize a) (na_buf a) @ ?bs @
      drop (to * na_dsize a + length ?bs) (na_buf a)\<rparr>)"
    using A(6) assms(3) room src unfolding ndarray_copy_from_def r Let_def sz m by (simp add: mem_read_def mem_write_def)
  moreover have "na_asize a * na_dsize a \<le> na_bufsize a" using assms(1) unfolding na_ok_def by metis
  ultimately show ?thesis using assms(1) room src by (simp add: na_ok_def)
qed

lemma zero_ok:
  assumes "na_ok a"
  shows "\<exists>a'. ndarray_zero a = Some a' \<and> na_ok a' \<and> na_dtype a' = na_dtype a \<and> na_bufsize a' = na_bufsize a \<and> na_asize a' = na_asize a"
proof -
  have n: "mul32 (na_asize a) (na_dsize a) = na_asize a * na_dsize a" using na_max(5) [OF assms, of "na_asize a"] by simp
  have "na_asize a * na_dsize a \<le> length (na_buf a)" using assms unfolding na_ok_def by metis
  then have "ndarray_zero a = Some (a\<lparr>na_buf := replicate (na_asize a * na_dsize a) 0 @ drop (na_asize a * na_dsize a) (na_buf a)\<rparr>)"
    unfolding ndarray_zero_def n by (simp add: mem_write_def)
  then show ?thesis using assms \<open>na_asize a * na_dsize a \<le> length (na_buf a)\<close> by (simp add: na_ok_def)
qed

text \<open>
  Property C39. Well-formed arrays do not go wrong: appending to, copying into and clearing a well-formed array, from a
  well-formed array of the same type and from positions inside of them, returns without an access outside of
  a buffer, and the result is well-formed and has the same type and the same buffer size; whatever
  lengths are asked for. A new array is well-formed when its size in bytes fits into 32 bits.
\<close>

theorem ndarray_well_typed:
  assumes "na_ok a" "na_ok b" "na_dtype a = na_dtype b" "to \<le> na_bufsize a div na_dsize a" "from' \<le> na_asize b"
  shows "(\<exists>a'. ndarray_append a b = Some a' \<and> na_ok a' \<and> na_dtype a' = na_dtype a \<and> na_bufsize a' = na_bufsize a) \<and>
    (\<exists>a'. ndarray_copy_from a to b from' n = Some (NDARRAY_RET_OK, a') \<and> na_ok a' \<and> na_dtype a' = na_dtype a \<and> na_bufsize a' = na_bufsize a) \<and>
    (\<exists>a'. ndarray_zero a = Some a' \<and> na_ok a' \<and> na_dtype a' = na_dtype a \<and> na_bufsize a' = na_bufsize a) \<and>
    (m * ndarray_get_dsize t < 2 ^ 32 \<longrightarrow> na_ok (snd (ndarray_init_zero True t m)) \<and> na_dtype (snd (ndarray_init_zero True t m)) = t)"
proof -
  have "na_ok (snd (ndarray_init_zero True t m))" if "m * ndarray_get_dsize t < 2 ^ 32"
    using that by (simp add: ndarray_init_zero_def Let_def na_ok_def ndarray_clear_def mul32_def)
  moreover have "na_dtype (snd (ndarray_init_zero True t m)) = t" by (simp add: ndarray_init_zero_def Let_def ndarray_clear_def)
  ultimately show ?thesis using ndarray_append_ok [OF assms(1-3)] copy_from_ok [OF assms, of n] zero_ok [OF assms(1)] by blast
qed

definition wit_array :: ndarray where
  "wit_array = \<lparr>na_dtype = DTYPE_UINT16, na_dsize = 2, na_asize = 1, na_buf = [1, 2, 3, 4], na_bufsize = 4\<rparr>"

lemma ndarray_well_typed_witness:
  "\<exists>a'. ndarray_copy_from wit_array 1 wit_array 0 9 = Some (NDARRAY_RET_OK, a') \<and> na_ok a' \<and> na_dtype a' = DTYPE_UINT16"
proof -
  have ok: "na_ok wit_array" "na_dtype wit_array = DTYPE_UINT16" "1 \<le> na_bufsize wit_array div na_dsize wit_array"
    by (simp_all add: wit_array_def na_ok_def)
  show ?thesis using ndarray_well_typed [OF ok(1,1) refl ok(3) le0, of 9 0 DTYPE_CHAR] ok(2) by auto
qed

end
