(* ===== verification/Mq_Batch.thy ===== *)
theory Mq_Batch
  imports Ndarray
begin

text \<open>
  The batching service (\<open>services/mq-batch/mq-batch.c\<close>): numbers received from one topic are collected
  in an array and published on another topic when the array is full. Each turn of the loop of the
  task has the result of \<open>receive\<close> of the message queue client as its argument, \<open>None\<close> when it
  did not return \<open>MQ_RET_OK\<close>.
\<close>

datatype mq_batch_ret = MQ_BATCH_RET_OK | MQ_BATCH_RET_FAILED

definition MQ_BATCH_MAX_TOPIC_LEN :: nat where "MQ_BATCH_MAX_TOPIC_LEN = 32"

record mq_batch =
  mb_sub_topic :: string
  mb_pub_topic :: string
  mb_client :: bool
  mb_batch :: ndarray
  mb_rxbuf :: ndarray
  mb_task :: bool
  mb_can_run :: bool
  mb_running :: bool

definition mq_batch_init :: "mq_batch_ret \<times> mq_batch" where
  "mq_batch_init = (MQ_BATCH_RET_OK,
     \<lparr>mb_sub_topic = [], mb_pub_topic = [], mb_client = False, mb_batch = ndarray_clear, mb_rxbuf = ndarray_clear,
      mb_task = False, mb_can_run = False, mb_running = False\<rparr>)"

text \<open>One turn of the loop in \<open>mq_batch_task\<close>; the published message is returned with its topic.\<close>

definition mq_batch_turn :: "mq_batch \<Rightarrow> ndarray option \<Rightarrow> (mq_batch \<times> (string \<times> ndarray) option) option" where
  "mq_batch_turn self rx =
     (case rx of None \<Rightarrow> Some (self, None)
      | Some msg \<Rightarrow>
        Option.bind (ndarray_append (mb_batch self) msg) (\<lambda>batch.
          let self = self\<lparr>mb_rxbuf := msg, mb_batch := batch\<rparr> in
          if mul32 (na_asize batch) (na_dsize batch) \<ge> na_bufsize batch
          then Some (self\<lparr>mb_batch := batch\<lparr>na_asize := 0\<rparr>\<rparr>, Some (mb_pub_topic self, batch))
          else Some (self, None)))"

text \<open>The loop over a sequence of results of \<open>receive\<close>, with everything it publishes.\<close>

fun mq_batch_loop :: "mq_batch \<Rightarrow> ndarray option list \<Rightarrow> (mq_batch \<times> (string \<times> ndarray) list) option" where
  "mq_batch_loop self [] = Some (self, [])"
| "mq_batch_loop self (rx # rxs) =
     Option.bind (mq_batch_turn self rx) (\<lambda>(self, out).
     Option.bind (mq_batch_loop self rxs) (\<lambda>(self, outs). Some (self, (case out of None \<Rightarrow> [] | Some m \<Rightarrow> [m]) @ outs)))"

text \<open>Stopping: the flag ends the loop of the task, which clears \<open>running\<close> before the memory is given back.\<close>

definition mq_batch_stop :: "mq_batch \<Rightarrow> mq_batch_ret \<times> mq_batch" where
  "mq_batch_stop self =
     (if \<not> mb_client self then (MQ_BATCH_RET_FAILED, self)
      else (MQ_BATCH_RET_OK, self\<lparr>mb_can_run := False, mb_running := False, mb_rxbuf := snd (ndarray_free (mb_rxbuf self)),
              mb_batch := snd (ndarray_free (mb_batch self))\<rparr>))"

text \<open>
  Starting: \<open>client\<close> tells whether the queue gave a client, \<open>fresh\<close> and \<open>fresh'\<close> the memory of the two
  arrays, \<open>task\<close> whether the task could be created.
\<close>

definition mq_batch_start ::
  "bool \<Rightarrow> (nat \<Rightarrow> u8 list option) \<Rightarrow> (nat \<Rightarrow> u8 list option) \<Rightarrow> bool \<Rightarrow> mq_batch \<Rightarrow> dtype \<Rightarrow> nat \<Rightarrow> string \<Rightarrow> string \<Rightarrow>
   mq_batch_ret \<times> mq_batch" where
  "mq_batch_start client fresh fresh' task self dtype asize sub_topic pub_topic =
     (if asize = 0 then (MQ_BATCH_RET_FAILED, self)
      else
        let self = self\<lparr>mb_sub_topic := strlcpy MQ_BATCH_MAX_TOPIC_LEN sub_topic,
                        mb_pub_topic := strlcpy MQ_BATCH_MAX_TOPIC_LEN pub_topic, mb_client := client\<rparr>
        in if \<not> client then (MQ_BATCH_RET_FAILED, snd (mq_batch_stop self))
           else
             let (r, batch) = ndarray_init_empty fresh dtype asize; self = self\<lparr>mb_batch := batch\<rparr>
             in if r \<noteq> NDARRAY_RET_OK then (MQ_BATCH_RET_FAILED, snd (mq_batch_stop self))
                else
                  let (r, rxbuf) = ndarray_init_empty fresh' dtype 32; self = self\<lparr>mb_rxbuf := rxbuf\<rparr>
                  in if r \<noteq> NDARRAY_RET_OK then (MQ_BATCH_RET_FAILED, snd (mq_batch_stop self))
                     else if \<not> task then (MQ_BATCH_RET_FAILED, snd (mq_batch_stop (self\<lparr>mb_task := False\<rparr>)))
                     else (MQ_BATCH_RET_OK, self\<lparr>mb_task := True\<rparr>))"

text \<open>The first lines of \<open>mq_batch_task\<close>, run when the new task gets the processor.\<close>

definition mq_batch_task_enter :: "mq_batch \<Rightarrow> mq_batch" where
  "mq_batch_task_enter self = self\<lparr>mb_can_run := True, mb_running := True\<rparr>"

text \<open>A service stopped before its task has run: the task enters its loop all the same, without a client.\<close>

lemma mq_batch_stop_before_enter:
  assumes "mb_client self"
  shows "fst (mq_batch_stop self) = MQ_BATCH_RET_OK \<and> mb_can_run (mq_batch_task_enter (snd (mq_batch_stop self)))"
  using assms by (simp add: mq_batch_stop_def mq_batch_task_enter_def)

subsection \<open>What is published\<close>

text \<open>The messages received in a sequence of turns.\<close>

fun messages :: "'a option list \<Rightarrow> 'a list" where
  "messages [] = []"
| "messages (None # rxs) = messages rxs"
| "messages (Some m # rxs) = m # messages rxs"

lemma na_data_length: "na_ok a \<Longrightarrow> length (na_data a) = na_asize a * na_dsize a"
  unfolding na_ok_def na_data_def length_take by (metis min.absorb2)

lemma na_room_asize: "na_ok a \<Longrightarrow> na_asize a + na_room a = na_bufsize a div na_dsize a"
  using na_max(1) [of a] by (simp add: na_room_def)

lemma na_ok_empty: "na_ok a \<Longrightarrow> na_ok (a\<lparr>na_asize := 0\<rparr>)"
  by (simp add: na_ok_def)

text \<open>
  An array whose room is a multiple of the length of every message: nothing of a message is left out,
  and the array is published exactly when it is full.
\<close>

definition batch_ok :: "dtype \<Rightarrow> nat \<Rightarrow> nat \<Rightarrow> ndarray \<Rightarrow> bool" where
  "batch_ok t k n a \<longleftrightarrow> na_ok a \<and> na_dtype a = t \<and> na_bufsize a = n * k * na_dsize a \<and> 0 < k \<and>
     (\<exists>j<n. na_asize a = j * k)"

definition msg_ok :: "dtype \<Rightarrow> nat \<Rightarrow> ndarray \<Rightarrow> bool" where
  "msg_ok t k m \<longleftrightarrow> na_ok m \<and> na_dtype m = t \<and> na_asize m = k"

lemma turn_ok:
  assumes "batch_ok t k n (mb_batch b)" "msg_ok t k m"
  shows "\<exists>b' out. mq_batch_turn b (Some m) = Some (b', out) \<and> batch_ok t k n (mb_batch b') \<and> mb_pub_topic b' = mb_pub_topic b \<and>
    (case out of None \<Rightarrow> na_data (mb_batch b') = na_data (mb_batch b) @ na_data m
     | Some (topic, a) \<Rightarrow> topic = mb_pub_topic b \<and> na_data a = na_data (mb_batch b) @ na_data m \<and>
         na_asize a = n * k \<and> na_data (mb_batch b') = [])"
proof -
  let ?a = "mb_batch b"
  have a: "na_ok ?a" "na_dtype ?a = t" "na_bufsize ?a = n * k * na_dsize ?a" "0 < k" and m: "na_ok m" "na_dtype m = t" "na_asize m = k"
    using assms by (auto simp: batch_ok_def msg_ok_def)
  obtain j where j: "j < n" "na_asize ?a = j * k" using assms(1) by (auto simp: batch_ok_def)
  have d: "0 < na_dsize ?a" "na_dsize m = na_dsize ?a" using na_max(6) [OF a(1)] a m by (auto simp: na_ok_def)
  have max: "na_bufsize ?a div na_dsize ?a = n * k" using a(3) d(1) by simp
  have jk: "j * k + k \<le> n * k" using mult_le_mono1 [of "Suc j" n k] j(1) by simp
  then have room: "k \<le> na_room ?a" using na_room_asize [OF a(1)] max j(2) by linarith
  then have all: "length (na_data m) \<le> na_room ?a * na_dsize ?a"
    using na_data_length [OF m(1)] m(3) d(2) by simp
  obtain a' where a': "ndarray_append ?a m = Some a'" "na_ok a'" "na_dtype a' = t" "na_bufsize a' = na_bufsize ?a"
    "na_asize a' = Suc j * k" "na_data a' = na_data ?a @ na_data m"
    using ndarray_append_ok [OF a(1) m(1)] a(2) m(2,3) room all j(2) by (auto simp: min_def)
  have da: "na_dsize a' = na_dsize ?a" using a'(2,3) a(1,2) by (simp add: na_ok_def)
  have w: "mul32 (na_asize a') (na_dsize a') = Suc j * k * na_dsize a'"
    using na_max(5) [OF a'(2), of "na_asize a'"] a'(5) by simp
  show ?thesis
  proof (cases "Suc j = n")
    case True
    then have "na_bufsize a' \<le> mul32 (na_asize a') (na_dsize a')" using w a'(4) a(3) da by simp
    then have "mq_batch_turn b (Some m) = Some (b\<lparr>mb_rxbuf := m, mb_batch := a'\<lparr>na_asize := 0\<rparr>\<rparr>, Some (mb_pub_topic b, a'))"
      using a'(1) by (simp add: mq_batch_turn_def)
    moreover have "batch_ok t k n (a'\<lparr>na_asize := 0\<rparr>)"
      using a'(2,3,4) a(3,4) da j(1) by (auto simp: batch_ok_def na_ok_empty intro!: exI [of _ 0])
    ultimately show ?thesis using a'(5,6) True by (simp add: na_data_def)
  next
    case False
    then have "Suc j < n" using j(1) by simp
    then have "Suc j * k < n * k" using a(4) mult_less_mono1 by blast
    then have "Suc j * k * na_dsize a' < n * k * na_dsize a'" using d(1) da mult_less_mono1 by simp
    then have "\<not> na_bufsize a' \<le> mul32 (na_asize a') (na_dsize a')" using w a'(4) a(3) da by simp
    then have "mq_batch_turn b (Some m) = Some (b\<lparr>mb_rxbuf := m, mb_batch := a'\<rparr>, None)"
      using a'(1) by (simp add: mq_batch_turn_def)
    moreover have "batch_ok t k n a'"
      using a'(2-5) a(3,4) da \<open>Suc j < n\<close> unfolding batch_ok_def by metis
    ultimately show ?thesis using a'(6) by simp
  qed
qed

lemma loop_ok:
  "batch_ok t k n (mb_batch b) \<Longrightarrow> list_all (msg_ok t k) (messages rxs) \<Longrightarrow>
   \<exists>b' outs. mq_batch_loop b rxs = Some (b', outs) \<and> batch_ok t k n (mb_batch b') \<and>
     list_all (\<lambda>(topic, a). topic = mb_pub_topic b \<and> na_asize a = n * k) outs \<and>
     concat (map (na_data \<circ> snd) outs) @ na_data (mb_batch b') =
       na_data (mb_batch b) @ concat (map na_data (messages rxs))"
proof (induction rxs arbitrary: b)
  case Nil
  then show ?case by simp
next
  case (Cons rx rxs)
  show ?case
  proof (cases rx)
    case None
    then show ?thesis using Cons.IH [OF Cons.prems(1)] Cons.prems(2)
      by (auto simp: mq_batch_turn_def)
  next
    case (Some m)
    have m: "msg_ok t k m" "list_all (msg_ok t k) (messages rxs)"
      using Cons.prems(2) Some by simp_all
    obtain b' out where b': "mq_batch_turn b (Some m) = Some (b', out)" "batch_ok t k n (mb_batch b')"
      "mb_pub_topic b' = mb_pub_topic b"
      and o: "case out of None \<Rightarrow> na_data (mb_batch b') = na_data (mb_batch b) @ na_data m
        | Some (topic, a) \<Rightarrow> topic = mb_pub_topic b \<and> na_data a = na_data (mb_batch b) @ na_data m \<and>
           na_asize a = n * k \<and> na_data (mb_batch b') = []"
      using turn_ok [OF Cons.prems(1) m(1)] by blast
    obtain b'' outs where r: "mq_batch_loop b' rxs = Some (b'', outs)" "batch_ok t k n (mb_batch b'')"
      "list_all (\<lambda>(topic, a). topic = mb_pub_topic b \<and> na_asize a = n * k) outs"
      "concat (map (na_data \<circ> snd) outs) @ na_data (mb_batch b'') =
         na_data (mb_batch b') @ concat (map na_data (messages rxs))"
      using Cons.IH [OF b'(2) m(2)] unfolding b'(3) by blast
    have mf: "messages (Some m # rxs) = m # messages rxs" by simp
    show ?thesis using b'(1) o r unfolding Some mf by (cases out) (auto simp: comp_def)
  qed
qed

lemma start_ok:
  assumes "mq_batch_start client fresh fresh' task self t (n * k) sub pub = (MQ_BATCH_RET_OK, b)"
    and "\<And>sz m. fresh sz = Some m \<Longrightarrow> length m = sz" "n * k * ndarray_get_dsize t < 2 ^ 32"
  shows "batch_ok t k n (mb_batch b)" "mb_pub_topic b = strlcpy MQ_BATCH_MAX_TOPIC_LEN pub" "na_data (mb_batch b) = []"
proof -
  have nk: "0 < n" "0 < k" using assms(1) by (auto simp: mq_batch_start_def split: if_splits)
  have w: "mul32 (n * k) (ndarray_get_dsize t) = n * k * ndarray_get_dsize t" using assms(3) by (simp add: mul32_def)
  obtain r batch where e: "ndarray_init_empty fresh t (n * k) = (r, batch)" by (cases "ndarray_init_empty fresh t (n * k)")
  obtain r' rx where e': "ndarray_init_empty fresh' t 32 = (r', rx)" by (cases "ndarray_init_empty fresh' t 32")
  have b: "r = NDARRAY_RET_OK" "mb_batch b = batch" "mb_pub_topic b = strlcpy MQ_BATCH_MAX_TOPIC_LEN pub"
    using assms(1) e e' by (auto simp: mq_batch_start_def Let_def split: if_splits)
  obtain m where m: "fresh (n * k * ndarray_get_dsize t) = Some m" using e b(1) w
    by (auto simp: ndarray_init_empty_def Let_def split: option.splits)
  then have "batch = ndarray_clear\<lparr>na_dtype := t, na_dsize := ndarray_get_dsize t, na_bufsize := n * k * ndarray_get_dsize t, na_buf := m\<rparr>"
    using e w by (simp add: ndarray_init_empty_def Let_def)
  then show "batch_ok t k n (mb_batch b)" "mb_pub_topic b = strlcpy MQ_BATCH_MAX_TOPIC_LEN pub" "na_data (mb_batch b) = []"
    using b nk assms(2) [OF m] assms(3)
    by (auto simp: batch_ok_def na_ok_def ndarray_clear_def na_data_def intro!: exI [of _ 0])
qed


definition wit_fresh :: "nat \<Rightarrow> u8 list option" where
  "wit_fresh sz = Some (replicate sz 7)"

definition wit_msg :: "u8 list \<Rightarrow> ndarray" where
  "wit_msg bs = \<lparr>na_dtype = DTYPE_UINT16, na_dsize = 2, na_asize = 1, na_buf = bs, na_bufsize = 2\<rparr>"


end
