(* ===== verification/Plog_Router.thy ===== *)
theory Plog_Router
  imports Plog_Topic Mq_Batch
begin

text \<open>
  The message router (\<open>services/plog-router/plog_router.c\<close>). First the operations that run alone, over the
  list of clients (newest first, as the code links them); then the delivery of messages as steps of
  several tasks. A client is known by a number. Its mutex has the publisher that holds it, its two queues of
  length one have their message. A publisher hands over pointers to its own message, so what
  matters is that a message is read only while its publisher waits.
\<close>

datatype mq_ret = MQ_RET_OK | MQ_RET_FAILED | MQ_RET_NO_MEM | MQ_RET_OK_TRUNCATED | MQ_RET_TIMEOUT

datatype plog_router_ret = PLOG_ROUTER_RET_OK | PLOG_ROUTER_RET_FAILED | PLOG_ROUTER_RET_NULL | PLOG_ROUTER_RET_BAD_ARG

definition PLOG_ROUTER_TOPIC_LEN_MAX :: nat where "PLOG_ROUTER_TOPIC_LEN_MAX = 64"
definition PLOG_ROUTER_RX_TIMEOUT_MS_DEFAULT :: u32 where "PLOG_ROUTER_RX_TIMEOUT_MS_DEFAULT = 500"

record 'ts msg_send =
  ms_array :: ndarray
  ms_ts :: 'ts
  ms_topic :: string

record 'ts plog_client =
  pc_topic_filter :: string
  pc_rx_timeout :: u32
  pc_mutex :: "nat option"
  pc_send :: "'ts msg_send option"
  pc_recv :: bool

text \<open>Where a publisher is in \<open>plog_router_mq_client_publish\<close> and \<open>deliver_to_client\<close>, with the clients still to visit.\<close>

datatype 'ts publisher =
    Pub_Idle
  | Pub_Loop "'ts msg_send" "nat list"
  | Pub_Lock "'ts msg_send" nat "nat list"
  | Pub_Send "'ts msg_send" nat "nat list"
  | Pub_Wait "'ts msg_send" nat "nat list"
  | Pub_Give "'ts msg_send" nat "nat list"

text \<open>Where the task of a client is in \<open>plog_router_mq_client_receive\<close>.\<close>

datatype 'ts receiver = Rcv_Idle | Rcv_Wait | Rcv_Copy "'ts msg_send"

record 'ts plog_router =
  pr_rtc :: "nat option"
  pr_initialized :: bool
  pr_clients :: "nat list"
  pr_client :: "nat \<Rightarrow> 'ts plog_client"
  pr_pub :: "nat \<Rightarrow> 'ts publisher"
  pr_rcv :: "nat \<Rightarrow> 'ts receiver"
  pr_received :: "nat \<Rightarrow> (nat \<times> 'ts msg_send) list"
  pr_delivered :: "nat \<Rightarrow> (nat \<times> 'ts msg_send) list"

text \<open>The last two components are not in the code: what each client has received and from whom, and what
  publishers have delivered to it.\<close>

definition client_clear :: "'ts plog_client" where
  "client_clear = \<lparr>pc_topic_filter = [], pc_rx_timeout = 0, pc_mutex = None, pc_send = None, pc_recv = False\<rparr>"

definition plog_router_init :: "plog_router_ret \<times> 'ts plog_router" where
  "plog_router_init = (PLOG_ROUTER_RET_OK,
     \<lparr>pr_rtc = None, pr_initialized = True, pr_clients = [], pr_client = (\<lambda>_. client_clear), pr_pub = (\<lambda>_. Pub_Idle),
      pr_rcv = (\<lambda>_. Rcv_Idle), pr_received = (\<lambda>_. []), pr_delivered = (\<lambda>_. [])\<rparr>)"

definition plog_router_free :: "'ts plog_router \<Rightarrow> plog_router_ret \<times> 'ts plog_router" where
  "plog_router_free self =
     (if \<not> pr_initialized self then (PLOG_ROUTER_RET_NULL, self) else (PLOG_ROUTER_RET_OK, self\<lparr>pr_initialized := False\<rparr>))"

definition plog_router_set_clock :: "'ts plog_router \<Rightarrow> nat option \<Rightarrow> plog_router_ret \<times> 'ts plog_router" where
  "plog_router_set_clock self rtc = (PLOG_ROUTER_RET_OK, self\<lparr>pr_rtc := rtc\<rparr>)"

text \<open>\<open>mem\<close> is the number of the new client, \<open>None\<close> when there is no memory for it; \<open>handles\<close> tells whether its mutex
  and queues could be made.\<close>

definition plog_router_open :: "nat option \<Rightarrow> bool \<Rightarrow> 'ts plog_router \<Rightarrow> nat option \<times> 'ts plog_router" where
  "plog_router_open mem handles plog =
     (case mem of None \<Rightarrow> (None, plog)
      | Some c \<Rightarrow>
        if \<not> handles then (None, plog)
        else (Some c, plog\<lparr>pr_client := (pr_client plog)(c := client_clear\<lparr>pc_rx_timeout := PLOG_ROUTER_RX_TIMEOUT_MS_DEFAULT\<rparr>),
                pr_clients := c # pr_clients plog\<rparr>))"

definition client_update :: "nat \<Rightarrow> ('ts plog_client \<Rightarrow> 'ts plog_client) \<Rightarrow> 'ts plog_router \<Rightarrow> 'ts plog_router" where
  "client_update c g plog = plog\<lparr>pr_client := (pr_client plog)(c := g (pr_client plog c))\<rparr>"

definition plog_router_mq_client_subscribe :: "nat \<Rightarrow> string \<Rightarrow> 'ts plog_router \<Rightarrow> mq_ret \<times> 'ts plog_router" where
  "plog_router_mq_client_subscribe c flt plog =
     (MQ_RET_FAILED, client_update c (pc_topic_filter_update (\<lambda>_. strlcpy PLOG_ROUTER_TOPIC_LEN_MAX flt)) plog)"

definition plog_router_mq_client_unsubscribe :: "nat \<Rightarrow> 'ts plog_router \<Rightarrow> mq_ret \<times> 'ts plog_router" where
  "plog_router_mq_client_unsubscribe c plog = (MQ_RET_FAILED, client_update c (pc_topic_filter_update (\<lambda>_. [])) plog)"

definition plog_router_mq_client_close :: "nat \<Rightarrow> 'ts plog_router \<Rightarrow> mq_ret \<times> 'ts plog_router" where
  "plog_router_mq_client_close c plog = (MQ_RET_OK, client_update c (pc_topic_filter_update (\<lambda>_. [])) plog)"

definition plog_router_mq_client_set_timeout :: "nat \<Rightarrow> u32 \<Rightarrow> 'ts plog_router \<Rightarrow> mq_ret \<times> 'ts plog_router" where
  "plog_router_mq_client_set_timeout c timeout_ms plog =
     (MQ_RET_OK, client_update c (pc_rx_timeout_update (\<lambda>_. timeout_ms)) plog)"

text \<open>What \<open>receive\<close> does with the message: the topic cut to the buffer, the time, and the array
  with its type taken over and its own buffer kept.\<close>

definition receive_copy :: "'ts msg_send \<Rightarrow> nat \<Rightarrow> ndarray \<Rightarrow> (string \<times> ndarray \<times> 'ts) option" where
  "receive_copy m topic_size array =
     map_option (\<lambda>array. (strlcpy topic_size (ms_topic m), array, ms_ts m))
       (ndarray_append (array\<lparr>na_dtype := na_dtype (ms_array m), na_dsize := na_dsize (ms_array m), na_asize := 0\<rparr>) (ms_array m))"

text \<open>A received message keeps its type, and as many of its first numbers as the buffer holds.\<close>

lemma receive_copy_ok:
  assumes "na_ok (ms_array m)" "length (na_buf array) = na_bufsize array" "na_bufsize array < 2 ^ 32"
  shows "\<exists>array'. receive_copy m topic_size array = Some (strlcpy topic_size (ms_topic m), array', ms_ts m) \<and>
    na_ok array' \<and> na_dtype array' = na_dtype (ms_array m) \<and>
    na_data array' = take (na_bufsize array div na_dsize (ms_array m) * na_dsize (ms_array m)) (na_data (ms_array m))"
proof -
  let ?a = "array\<lparr>na_dtype := na_dtype (ms_array m), na_dsize := na_dsize (ms_array m), na_asize := 0\<rparr>"
  have a: "na_ok ?a" "na_room ?a = na_bufsize array div na_dsize (ms_array m)" "na_data ?a = []"
    using assms by (simp_all add: na_ok_def na_room_def na_data_def)
  show ?thesis using ndarray_append_ok [OF a(1) assms(1)] a(2,3) by (auto simp: receive_copy_def)
qed

subsection \<open>Publishers and receivers\<close>

inductive plog_step :: "'ts plog_router \<Rightarrow> 'ts plog_router \<Rightarrow> bool" where
  publish: "pr_pub s p = Pub_Idle \<Longrightarrow> plog_step s (s\<lparr>pr_pub := (pr_pub s)(p := Pub_Loop m (pr_clients s))\<rparr>)"
| finish: "pr_pub s p = Pub_Loop m [] \<Longrightarrow> plog_step s (s\<lparr>pr_pub := (pr_pub s)(p := Pub_Idle)\<rparr>)"
| skip: "pr_pub s p = Pub_Loop m (c # cs) \<Longrightarrow> \<not> plog_router_match_topic (pc_topic_filter (pr_client s c)) (ms_topic m) \<Longrightarrow>
    plog_step s (s\<lparr>pr_pub := (pr_pub s)(p := Pub_Loop m cs)\<rparr>)"
| deliver: "pr_pub s p = Pub_Loop m (c # cs) \<Longrightarrow> plog_router_match_topic (pc_topic_filter (pr_client s c)) (ms_topic m) \<Longrightarrow>
    plog_step s (s\<lparr>pr_pub := (pr_pub s)(p := Pub_Lock m c cs)\<rparr>)"
| take_mutex: "pr_pub s p = Pub_Lock m c cs \<Longrightarrow> pc_mutex (pr_client s c) = None \<Longrightarrow>
    plog_step s (client_update c (pc_mutex_update (\<lambda>_. Some p)) (s\<lparr>pr_pub := (pr_pub s)(p := Pub_Send m c cs)\<rparr>))"
| send: "pr_pub s p = Pub_Send m c cs \<Longrightarrow> pc_send (pr_client s c) = None \<Longrightarrow>
    plog_step s (client_update c (pc_send_update (\<lambda>_. Some m)) (s\<lparr>pr_pub := (pr_pub s)(p := Pub_Wait m c cs)\<rparr>))"
| response: "pr_pub s p = Pub_Wait m c cs \<Longrightarrow> pc_recv (pr_client s c) \<Longrightarrow>
    plog_step s (client_update c (pc_recv_update (\<lambda>_. False))
      (s\<lparr>pr_pub := (pr_pub s)(p := Pub_Give m c cs), pr_delivered := (pr_delivered s)(c := pr_delivered s c @ [(p, m)])\<rparr>))"
| give_mutex: "pr_pub s p = Pub_Give m c cs \<Longrightarrow>
    plog_step s (client_update c (pc_mutex_update (\<lambda>_. None)) (s\<lparr>pr_pub := (pr_pub s)(p := Pub_Loop m cs)\<rparr>))"
| receive: "pr_rcv s c = Rcv_Idle \<Longrightarrow> c \<in> set (pr_clients s) \<Longrightarrow> plog_step s (s\<lparr>pr_rcv := (pr_rcv s)(c := Rcv_Wait)\<rparr>)"
| timeout: "pr_rcv s c = Rcv_Wait \<Longrightarrow> plog_step s (s\<lparr>pr_rcv := (pr_rcv s)(c := Rcv_Idle)\<rparr>)"
| take_message: "pr_rcv s c = Rcv_Wait \<Longrightarrow> pc_send (pr_client s c) = Some m \<Longrightarrow>
    plog_step s (client_update c (pc_send_update (\<lambda>_. None)) (s\<lparr>pr_rcv := (pr_rcv s)(c := Rcv_Copy m)\<rparr>))"
| respond: "pr_rcv s c = Rcv_Copy m \<Longrightarrow>
    plog_step s (client_update c (pc_recv_update (\<lambda>_. True))
      (s\<lparr>pr_rcv := (pr_rcv s)(c := Rcv_Idle), pr_received := (pr_received s)(c := pr_received s c @ [(the (pc_mutex (pr_client s c)), m)])\<rparr>))"
| subscribe: "plog_step s (snd (plog_router_mq_client_subscribe c flt s))"
| unsubscribe: "plog_step s (snd (plog_router_mq_client_unsubscribe c s))"
| close: "plog_step s (snd (plog_router_mq_client_close c s))"
| set_timeout: "plog_step s (snd (plog_router_mq_client_set_timeout c t s))"
| open_client: "(\<forall>c. mem = Some c \<longrightarrow> c \<notin> set (pr_clients s)) \<Longrightarrow> plog_step s (snd (plog_router_open mem handles s))"

inductive plog_reach :: "'ts plog_router \<Rightarrow> bool" where
  init: "plog_reach (snd plog_router_init)"
| step: "plog_reach s \<Longrightarrow> plog_step s s' \<Longrightarrow> plog_reach s'"

end
