(* ===== verification/Plog_Props.thy ===== *)
theory Plog_Props
  imports Plog_Router
begin

text \<open>
  What the steps of the message router keep: at every moment, each client has at most one publisher
  between taking and giving its mutex, and that publisher's stage says where its message is: in the
  queue, being copied by the client, or answered.
\<close>

datatype 'ts stage = At_Send "'ts msg_send" | At_Wait "'ts msg_send" | At_Give "'ts msg_send"

text \<open>The stage of a publisher at a client, \<open>None\<close> when it does not hold the client's mutex.\<close>

fun stage_at :: "nat \<Rightarrow> 'ts publisher \<Rightarrow> 'ts stage option" where
  "stage_at c (Pub_Send m c' cs) = (if c' = c then Some (At_Send m) else None)"
| "stage_at c (Pub_Wait m c' cs) = (if c' = c then Some (At_Wait m) else None)"
| "stage_at c (Pub_Give m c' cs) = (if c' = c then Some (At_Give m) else None)"
| "stage_at c p = None"

fun copying :: "'ts receiver \<Rightarrow> 'ts msg_send option" where
  "copying (Rcv_Copy m) = Some m"
| "copying r = None"

definition quiet :: "'ts plog_router \<Rightarrow> nat \<Rightarrow> bool" where
  "quiet s c \<longleftrightarrow> pc_send (pr_client s c) = None \<and> \<not> pc_recv (pr_client s c) \<and> copying (pr_rcv s c) = None \<and>
     pr_received s c = pr_delivered s c"

text \<open>The message is in exactly one place.\<close>

definition under_way :: "'ts plog_router \<Rightarrow> nat \<Rightarrow> nat \<Rightarrow> 'ts msg_send \<Rightarrow> bool" where
  "under_way s c p m \<longleftrightarrow>
     pc_send (pr_client s c) = Some m \<and> \<not> pc_recv (pr_client s c) \<and> copying (pr_rcv s c) = None \<and>
       pr_received s c = pr_delivered s c \<or>
     pc_send (pr_client s c) = None \<and> \<not> pc_recv (pr_client s c) \<and> copying (pr_rcv s c) = Some m \<and>
       pr_received s c = pr_delivered s c \<or>
     pc_send (pr_client s c) = None \<and> pc_recv (pr_client s c) \<and> copying (pr_rcv s c) = None \<and>
       pr_received s c = pr_delivered s c @ [(p, m)]"

definition client_ok :: "'ts plog_router \<Rightarrow> nat \<Rightarrow> bool" where
  "client_ok s c \<longleftrightarrow>
     (\<forall>q. pc_mutex (pr_client s c) \<noteq> Some q \<longrightarrow> stage_at c (pr_pub s q) = None) \<and>
     (case pc_mutex (pr_client s c) of
        None \<Rightarrow> quiet s c
      | Some p \<Rightarrow>
          (case stage_at c (pr_pub s p) of
             None \<Rightarrow> False
           | Some (At_Send m) \<Rightarrow> quiet s c
           | Some (At_Wait m) \<Rightarrow> under_way s c p m
           | Some (At_Give m) \<Rightarrow> quiet s c))"

text \<open>The clients a publisher still deals with.\<close>

fun visits :: "'ts publisher \<Rightarrow> nat set" where
  "visits Pub_Idle = {}"
| "visits (Pub_Loop m cs) = set cs"
| "visits (Pub_Lock m c cs) = insert c (set cs)"
| "visits (Pub_Send m c cs) = insert c (set cs)"
| "visits (Pub_Wait m c cs) = insert c (set cs)"
| "visits (Pub_Give m c cs) = insert c (set cs)"

definition known :: "'ts plog_router \<Rightarrow> bool" where
  "known s \<longleftrightarrow> (\<forall>p. visits (pr_pub s p) \<subseteq> set (pr_clients s)) \<and>
     (\<forall>c. c \<notin> set (pr_clients s) \<longrightarrow> pr_rcv s c = Rcv_Idle \<and> pr_received s c = [] \<and> pr_delivered s c = [])"

definition router_ok :: "'ts plog_router \<Rightarrow> bool" where
  "router_ok s \<longleftrightarrow> known s \<and> (\<forall>c. client_ok s c)"

lemma stage_at_visits: "stage_at c q \<noteq> None \<Longrightarrow> c \<in> visits q"
  by (cases q) (auto split: if_splits)

text \<open>Whatever the rest of the router does, a client depends only on its own queues and on the publishers at it.\<close>

lemma client_ok_cong:
  assumes "client_ok s c" "pc_mutex (pr_client s' c) = pc_mutex (pr_client s c)" "pc_send (pr_client s' c) = pc_send (pr_client s c)"
    and "pc_recv (pr_client s' c) = pc_recv (pr_client s c)" "copying (pr_rcv s' c) = copying (pr_rcv s c)"
    and "pr_received s' c = pr_received s c" "pr_delivered s' c = pr_delivered s c"
    and "\<And>p. stage_at c (pr_pub s' p) = stage_at c (pr_pub s p)"
  shows "client_ok s' c"
  using assms(1) unfolding client_ok_def quiet_def under_way_def assms(2-8) .

lemma client_update_simps [simp]:
  "pr_client (client_update c g s) = (pr_client s)(c := g (pr_client s c))"
  "pr_pub (client_update c g s) = pr_pub s" "pr_rcv (client_update c g s) = pr_rcv s"
  "pr_clients (client_update c g s) = pr_clients s"
  "pr_received (client_update c g s) = pr_received s" "pr_delivered (client_update c g s) = pr_delivered s"
  by (simp_all add: client_update_def)

lemma client_ok_holder:
  "client_ok s c \<Longrightarrow> stage_at c (pr_pub s p) = Some st \<Longrightarrow> pc_mutex (pr_client s c) = Some p"
  by (auto simp: client_ok_def)

lemma known_client_update [simp]: "known (client_update c g s) = known s"
  by (simp add: known_def)

lemma known_visits: "known s \<Longrightarrow> visits (pr_pub s p) \<subseteq> set (pr_clients s)"
  by (simp add: known_def)

lemma known_pub: "known s \<Longrightarrow> visits q \<subseteq> set (pr_clients s) \<Longrightarrow> known (s\<lparr>pr_pub := (pr_pub s)(p := q)\<rparr>)"
  by (simp add: known_def)

lemma known_busy: "known s \<Longrightarrow> pr_rcv s c \<noteq> Rcv_Idle \<Longrightarrow> c \<in> set (pr_clients s)"
  unfolding known_def by blast

lemma known_rcv: "known s \<Longrightarrow> c \<in> set (pr_clients s) \<Longrightarrow> known (s\<lparr>pr_rcv := (pr_rcv s)(c := r)\<rparr>)"
  by (auto simp: known_def)

lemma known_logs:
  "known s \<Longrightarrow> c \<in> set (pr_clients s) \<Longrightarrow> known (s\<lparr>pr_delivered := (pr_delivered s)(c := l)\<rparr>)"
  "known s \<Longrightarrow> c \<in> set (pr_clients s) \<Longrightarrow> known (s\<lparr>pr_received := (pr_received s)(c := l)\<rparr>)"
  by (auto simp: known_def)

lemma known_step: "plog_step s s' \<Longrightarrow> known s \<Longrightarrow> known s'"
proof (induction rule: plog_step.induct)
  case (response s p m c cs)
  have v: "visits (pr_pub s p) \<subseteq> set (pr_clients s)" by (rule known_visits [OF response(3)])
  have "known (s\<lparr>pr_pub := (pr_pub s)(p := Pub_Give m c cs)\<rparr>)" using v response(1,3) by (intro known_pub) auto
  then show ?case using known_logs(1) [of "s\<lparr>pr_pub := (pr_pub s)(p := Pub_Give m c cs)\<rparr>" c] v response(1) by simp
next
  case (respond s c m)
  have c: "c \<in> set (pr_clients s)" using known_busy [OF respond(2), of c] respond(1) by simp
  have "known (s\<lparr>pr_rcv := (pr_rcv s)(c := Rcv_Idle)\<rparr>)" by (rule known_rcv [OF respond(2) c])
  then show ?case using known_logs(2) [of "s\<lparr>pr_rcv := (pr_rcv s)(c := Rcv_Idle)\<rparr>" c] c by simp
next
  case (timeout s c)
  then show ?case using known_busy [of s c] by (simp add: known_rcv)
next
  case (take_message s c m)
  then show ?case using known_busy [of s c] by (simp add: known_rcv)
next
  case (receive s c)
  then show ?case by (simp add: known_rcv)
next
  case (open_client mem s handles)
  then show ?case by (auto simp: known_def plog_router_open_def split: option.splits)
next
  case (publish s p m)
  then show ?case by (simp add: known_pub)
next
  case (finish s p m)
  then show ?case by (simp add: known_pub)
next
  case (skip s p m c cs)
  then show ?case using known_visits [of s p] by (auto intro!: known_pub)
next
  case (deliver s p m c cs)
  then show ?case using known_visits [of s p] by (auto intro!: known_pub)
next
  case (take_mutex s p m c cs)
  then show ?case using known_visits [of s p] by (auto intro!: known_pub)
next
  case (send s p m c cs)
  then show ?case using known_visits [of s p] by (auto intro!: known_pub)
next
  case (give_mutex s p m c cs)
  then show ?case using known_visits [of s p] by (auto intro!: known_pub)
qed (simp_all add: plog_router_mq_client_subscribe_def plog_router_mq_client_unsubscribe_def
      plog_router_mq_client_close_def plog_router_mq_client_set_timeout_def)

text \<open>A step of one publisher changes the stage of no other.\<close>

lemma client_ok_pub:
  assumes "client_ok s c" "stage_at c q = stage_at c (pr_pub s p)"
  shows "client_ok (s\<lparr>pr_pub := (pr_pub s)(p := q)\<rparr>) c"
  by (rule client_ok_cong [OF assms(1)]) (auto simp: assms(2))

lemma client_step:
  assumes "plog_step s s'" "known s" "\<And>d. client_ok s d"
  shows "client_ok s' c"
  using assms(1)
proof (cases rule: plog_step.cases)
  case (take_mutex p m d cs)
  show ?thesis
  proof (cases "c = d")
    case True
    then show ?thesis using take_mutex assms(3) [of c] by (auto simp: client_ok_def quiet_def)
  next
    case False
    then show ?thesis unfolding take_mutex(1)
      by (intro client_ok_cong [OF assms(3)]) (auto simp: take_mutex(2))
  qed
next
  case (send p m d cs)
  have h: "c = d \<Longrightarrow> pc_mutex (pr_client s c) = Some p" using client_ok_holder [OF assms(3)] send(2) by simp
  show ?thesis
  proof (cases "c = d")
    case True
    then show ?thesis using send assms(3) [of c] h by (auto simp: client_ok_def quiet_def under_way_def)
  next
    case False
    then show ?thesis unfolding send(1) by (intro client_ok_cong [OF assms(3)]) (auto simp: send(2))
  qed
next
  case (response p m d cs)
  have h: "c = d \<Longrightarrow> pc_mutex (pr_client s c) = Some p" using client_ok_holder [OF assms(3)] response(2) by simp
  show ?thesis
  proof (cases "c = d")
    case True
    then show ?thesis using response assms(3) [of c] h by (auto simp: client_ok_def quiet_def under_way_def)
  next
    case False
    then show ?thesis unfolding response(1) by (intro client_ok_cong [OF assms(3)]) (auto simp: response(2))
  qed
next
  case (give_mutex p m d cs)
  have h: "c = d \<Longrightarrow> pc_mutex (pr_client s c) = Some p" using client_ok_holder [OF assms(3)] give_mutex(2) by simp
  show ?thesis
  proof (cases "c = d")
    case True
    then show ?thesis using give_mutex assms(3) [of c] h by (auto simp: client_ok_def quiet_def)
  next
    case False
    then show ?thesis unfolding give_mutex(1) by (intro client_ok_cong [OF assms(3)]) (auto simp: give_mutex(2))
  qed
next
  case (take_message d m)
  show ?thesis
  proof (cases "c = d")
    case True
    then show ?thesis using take_message assms(3) [of c]
      by (auto simp: client_ok_def quiet_def under_way_def split: option.splits stage.splits)
  next
    case False
    then show ?thesis unfolding take_message(1) by (intro client_ok_cong [OF assms(3)]) auto
  qed
next
  case (respond d m)
  show ?thesis
  proof (cases "c = d")
    case True
    then show ?thesis using respond assms(3) [of c]
      by (auto simp: client_ok_def quiet_def under_way_def split: option.splits stage.splits)
  next
    case False
    then show ?thesis unfolding respond(1) by (intro client_ok_cong [OF assms(3)]) auto
  qed
next
  case (open_client mem handles)
  show ?thesis
  proof (cases "mem = Some c \<and> handles")
    case True
    then have new: "c \<notin> set (pr_clients s)" using open_client by simp
    then have "stage_at c (pr_pub s p) = None" for p
      using assms(2) stage_at_visits [of c "pr_pub s p"] unfolding known_def by blast
    moreover have "pr_rcv s c = Rcv_Idle" "pr_received s c = []" "pr_delivered s c = []"
      using assms(2) new by (simp_all add: known_def)
    ultimately show ?thesis using open_client True
      by (simp add: plog_router_open_def client_ok_def quiet_def client_clear_def)
  next
    case False
    then show ?thesis unfolding open_client(1)
      by (intro client_ok_cong [OF assms(3)]) (auto simp: plog_router_open_def split: option.splits)
  qed
qed (auto intro!: client_ok_cong [OF assms(3)] simp: plog_router_mq_client_subscribe_def
      plog_router_mq_client_unsubscribe_def plog_router_mq_client_close_def plog_router_mq_client_set_timeout_def split: if_splits)

lemma router_reach: "plog_reach s \<Longrightarrow> router_ok s"
proof (induction rule: plog_reach.induct)
  case init
  show ?case by (simp add: router_ok_def known_def client_ok_def quiet_def plog_router_init_def client_clear_def)
next
  case (step s s')
  then show ?case using known_step [OF step.hyps(2)] client_step [OF step.hyps(2)] unfolding router_ok_def by blast
qed

lemma stage_at_wait: "stage_at c q = Some (At_Wait m) \<Longrightarrow> \<exists>cs. q = Pub_Wait m c cs"
  by (cases q) (auto split: if_splits)

lemma delivery_cases:
  assumes "client_ok s c"
  shows "quiet s c \<or> (\<exists>p m cs. pr_pub s p = Pub_Wait m c cs \<and> pc_mutex (pr_client s c) = Some p \<and> under_way s c p m)"
proof (cases "pc_mutex (pr_client s c)")
  case None
  then show ?thesis using assms by (simp add: client_ok_def)
next
  case (Some p)
  then obtain st where st: "stage_at c (pr_pub s p) = Some st" using assms by (auto simp: client_ok_def split: option.splits)
  show ?thesis
  proof (cases st)
    case (At_Wait m)
    then have "under_way s c p m" using assms Some st by (simp add: client_ok_def)
    then show ?thesis using stage_at_wait [of c "pr_pub s p" m] st At_Wait Some by blast
  qed (use assms Some st in \<open>simp_all add: client_ok_def\<close>)
qed

text \<open>
  Property C37. Delivery is safe however the tasks are interleaved, with any number of publishers and clients, while
  clients open, subscribe, unsubscribe and close. A message waiting in a client's queue or being copied by it is
  the one of a publisher that holds the client's mutex and is still waiting for the answer, so the
  pointers in it are never dangling; and what a client has received is what the publishers have
  delivered to it, each message once and in order, but for the last one while its publisher still waits.
\<close>

theorem plog_delivery_safe:
  assumes "plog_reach s"
  shows "(\<forall>m. pc_send (pr_client s c) = Some m \<or> pr_rcv s c = Rcv_Copy m \<longrightarrow>
      (\<exists>p cs. pr_pub s p = Pub_Wait m c cs \<and> pc_mutex (pr_client s c) = Some p)) \<and>
    (pr_received s c = pr_delivered s c \<or>
     (\<exists>p m cs. pr_pub s p = Pub_Wait m c cs \<and> pr_received s c = pr_delivered s c @ [(p, m)]))"
proof -
  have ok: "client_ok s c" using router_reach [OF assms] by (simp add: router_ok_def)
  show ?thesis
  proof (cases "quiet s c")
    case True
    then show ?thesis by (auto simp: quiet_def)
  next
    case False
    then obtain p m cs where p: "pr_pub s p = Pub_Wait m c cs" "pc_mutex (pr_client s c) = Some p" "under_way s c p m"
      using delivery_cases [OF ok] by blast
    have "m' = m" if "pc_send (pr_client s c) = Some m' \<or> pr_rcv s c = Rcv_Copy m'" for m'
      using p(3) that by (auto simp: under_way_def)
    moreover have "pr_received s c = pr_delivered s c \<or> pr_received s c = pr_delivered s c @ [(p, m)]"
      using p(3) by (auto simp: under_way_def)
    ultimately show ?thesis using p(1,2) by blast
  qed
qed

definition wit_send :: "nat msg_send" where
  "wit_send = \<lparr>ms_array = wit_msg [1, 2], ms_ts = 5, ms_topic = ''a''\<rparr>"

lemma plog_delivery_safe_witness:
  "\<exists>s p cs. plog_reach s \<and> pc_send (pr_client s 1) = Some wit_send \<and> pr_pub s p = Pub_Wait wit_send 1 cs \<and>
     pc_mutex (pr_client s 1) = Some p"
proof -
  define s0 :: "nat plog_router" where "s0 = snd plog_router_init"
  define s1 where "s1 = snd (plog_router_open (Some 1) True s0)"
  define s2 where "s2 = snd (plog_router_mq_client_subscribe 1 ''a'' s1)"
  define s3 where "s3 = s2\<lparr>pr_pub := (pr_pub s2)(0 := Pub_Loop wit_send (pr_clients s2))\<rparr>"
  define s4 where "s4 = s3\<lparr>pr_pub := (pr_pub s3)(0 := Pub_Lock wit_send 1 [])\<rparr>"
  define s5 where "s5 = client_update 1 (pc_mutex_update (\<lambda>_. Some 0)) (s4\<lparr>pr_pub := (pr_pub s4)(0 := Pub_Send wit_send 1 [])\<rparr>)"
  define s6 where "s6 = client_update 1 (pc_send_update (\<lambda>_. Some wit_send)) (s5\<lparr>pr_pub := (pr_pub s5)(0 := Pub_Wait wit_send 1 [])\<rparr>)"
  note defs = s0_def s1_def s2_def plog_router_init_def plog_router_open_def plog_router_mq_client_subscribe_def client_clear_def
  have "plog_reach s0" unfolding s0_def by (rule plog_reach.init)
  moreover have "plog_step s0 s1" unfolding s1_def by (rule plog_step.open_client) (simp add: defs)
  moreover have "plog_step s1 s2" unfolding s2_def by (rule plog_step.subscribe)
  moreover have "plog_step s2 s3" unfolding s3_def by (rule plog_step.publish) (simp add: defs)
  moreover have "plog_step s3 s4" unfolding s4_def
    by (rule plog_step.deliver) (simp_all add: s3_def defs wit_send_def strlcpy_def PLOG_ROUTER_TOPIC_LEN_MAX_def
        plog_router_match_topic_def match_steps)
  moreover have "plog_step s4 s5" unfolding s5_def by (rule plog_step.take_mutex) (simp_all add: s4_def s3_def defs)
  moreover have "plog_step s5 s6" unfolding s6_def by (rule plog_step.send) (simp_all add: s5_def s4_def s3_def defs)
  ultimately have r: "plog_reach s6" by (meson plog_reach.step)
  have q: "pc_send (pr_client s6 1) = Some wit_send" by (simp add: s6_def)
  then show ?thesis using plog_delivery_safe [OF r, of 1] r by blast
qed

text \<open>A publisher waiting at a client that does not call \<open>receive\<close> stays there, whatever else happens.\<close>

lemma publisher_blocked:
  assumes "plog_reach s" "pr_pub s p = Pub_Wait m c cs" "pc_send (pr_client s c) = Some m" "c \<in> set (pr_clients s)"
    and "pr_rcv s c = Rcv_Idle" "plog_step s s'" "pr_rcv s' c = Rcv_Idle"
  shows "pr_pub s' p = Pub_Wait m c cs \<and> pc_send (pr_client s' c) = Some m"
proof -
  have ok: "client_ok s c" using router_reach [OF assms(1)] by (simp add: router_ok_def)
  then have "pc_mutex (pr_client s c) = Some p" using client_ok_holder [of s c p "At_Wait m"] assms(2) by simp
  then have "under_way s c p m" using ok assms(2) by (simp add: client_ok_def)
  then have "\<not> pc_recv (pr_client s c)" using assms(3) by (simp add: under_way_def)
  with assms(6) show ?thesis
  proof (cases rule: plog_step.cases)
    case (open_client mem handles)
    then show ?thesis using assms(2-4) by (auto simp: plog_router_open_def split: option.splits)
  qed (use assms(2-5,7) in \<open>auto simp: plog_router_mq_client_subscribe_def plog_router_mq_client_unsubscribe_def
      plog_router_mq_client_close_def plog_router_mq_client_set_timeout_def split: if_splits\<close>)
qed

end
