(* ===== verification/Tinyelf.thy ===== *)
theory Tinyelf
  imports Prelude "HOL-Library.State_Monad"
begin

text \<open>
  The ELF reader (\<open>services/chainloader/tinyelf.c\<close>). The reader keeps a cursor, so its operations are
  programs of the state monad over the structure \<open>Elf\<close>. The read callback, which the reader only ever asks
  for one byte, is a function of the position; \<open>None\<close> is a failed or empty read. Enumerations are kept as
  the numbers that were read.
\<close>

definition TINYELF_ELF_MAGIC :: u32 where "TINYELF_ELF_MAGIC = 0x7f454c46"
definition TINYELF_MAX_SECTION_NAME_LEN :: nat where "TINYELF_MAX_SECTION_NAME_LEN = 32"
definition TINYELF_ELF32 :: u8 where "TINYELF_ELF32 = 1"
definition TINYELF_ELF64 :: u8 where "TINYELF_ELF64 = 2"
definition TINYELF_DATA_LITTLE :: u8 where "TINYELF_DATA_LITTLE = 1"
definition TINYELF_DATA_BIG :: u8 where "TINYELF_DATA_BIG = 2"

datatype tinyelf_ret = TINYELF_RET_OK | TINYELF_RET_FAILED | TINYELF_RET_NOELF

record elf_header =
  eh_class :: u8
  eh_data :: u8
  eh_version :: u8
  eh_osabi :: u8
  eh_abiversion :: u8
  eh_type :: u16
  eh_machine :: u16
  eh_version2 :: u32
  eh_entry :: u32
  eh_phoff :: u32
  eh_shoff :: u32
  eh_flags :: u32
  eh_ehsize :: u16
  eh_phentsize :: u16
  eh_phnum :: u16
  eh_shentsize :: u16
  eh_shnum :: u16
  eh_shstrndx :: u16

record program_header =
  ph_type :: u32
  ph_flags :: u32
  ph_offset :: u32
  ph_vaddr :: u32
  ph_paddr :: u32
  ph_filesz :: u32
  ph_memsz :: u32
  ph_align :: u32

record section_header =
  sh_name :: u32
  sh_type :: u32
  sh_flags :: u32
  sh_addr :: u32
  sh_offset :: u32
  sh_size :: u32
  sh_link :: u32
  sh_info :: u32
  sh_align :: u32
  sh_entsize :: u32

record elf =
  el_read :: "nat \<Rightarrow> u8 option"
  el_header :: elf_header
  el_cursor :: nat

definition elf_header_clear :: elf_header where
  "elf_header_clear = \<lparr>eh_class = 0, eh_data = 0, eh_version = 0, eh_osabi = 0, eh_abiversion = 0, eh_type = 0, eh_machine = 0,
     eh_version2 = 0, eh_entry = 0, eh_phoff = 0, eh_shoff = 0, eh_flags = 0, eh_ehsize = 0, eh_phentsize = 0, eh_phnum = 0,
     eh_shentsize = 0, eh_shnum = 0, eh_shstrndx = 0\<rparr>"

definition program_header_clear :: program_header where
  "program_header_clear = \<lparr>ph_type = 0, ph_flags = 0, ph_offset = 0, ph_vaddr = 0, ph_paddr = 0, ph_filesz = 0, ph_memsz = 0,
     ph_align = 0\<rparr>"

definition section_header_clear :: section_header where
  "section_header_clear = \<lparr>sh_name = 0, sh_type = 0, sh_flags = 0, sh_addr = 0, sh_offset = 0, sh_size = 0, sh_link = 0,
     sh_info = 0, sh_align = 0, sh_entsize = 0\<rparr>"

definition load_uint8 :: "(elf, u8) state" where
  "load_uint8 = do {
     self \<leftarrow> State_Monad.get;
     case el_read self (el_cursor self) of
       Some r \<Rightarrow> do { State_Monad.set (self\<lparr>el_cursor := add32 (el_cursor self) 1\<rparr>); State_Monad.return r }
     | None \<Rightarrow> State_Monad.return 0
   }"

definition is_big :: "(elf, bool) state" where
  "is_big = do { self \<leftarrow> State_Monad.get; State_Monad.return (eh_data (el_header self) = TINYELF_DATA_BIG) }"

definition load_uint16 :: "(elf, u16) state" where
  "load_uint16 = do {
     big \<leftarrow> is_big;
     if big then do {
       a \<leftarrow> load_uint8; b \<leftarrow> load_uint8;
       State_Monad.return (push_bit 8 (ucast a) OR ucast b)
     } else do {
       a \<leftarrow> load_uint8; b \<leftarrow> load_uint8;
       State_Monad.return (ucast a OR push_bit 8 (ucast b))
     }
   }"

definition load_uint32 :: "(elf, u32) state" where
  "load_uint32 = do {
     big \<leftarrow> is_big;
     a \<leftarrow> load_uint8; b \<leftarrow> load_uint8; c \<leftarrow> load_uint8; d \<leftarrow> load_uint8;
     State_Monad.return (if big then load32_le [d, c, b, a] else load32_le [a, b, c, d])
   }"

definition load_ptr :: "(elf, u32) state" where
  "load_ptr = do {
     self \<leftarrow> State_Monad.get;
     if eh_class (el_header self) = TINYELF_ELF32 then load_uint32 else State_Monad.return 0
   }"

definition tinyelf_init :: "(nat \<Rightarrow> u8 option) \<Rightarrow> tinyelf_ret \<times> elf" where
  "tinyelf_init rd = (TINYELF_RET_OK, \<lparr>el_read = rd, el_header = elf_header_clear, el_cursor = 0\<rparr>)"

definition set_header :: "(elf_header \<Rightarrow> elf_header) \<Rightarrow> (elf, unit) state" where
  "set_header g = do { self \<leftarrow> State_Monad.get; State_Monad.set (self\<lparr>el_header := g (el_header self)\<rparr>) }"

definition seek :: "(elf_header \<Rightarrow> nat \<Rightarrow> nat) \<Rightarrow> (elf, unit) state" where
  "seek g = do { self \<leftarrow> State_Monad.get; State_Monad.set (self\<lparr>el_cursor := g (el_header self) (el_cursor self)\<rparr>) }"

text \<open>What \<open>tinyelf_parse\<close> reads after the magic number.\<close>

definition parse_fields :: "(elf, tinyelf_ret) state" where
  "parse_fields = do {
       v \<leftarrow> load_uint8; set_header (\<lambda>h. h\<lparr>eh_class := v\<rparr>);
       v \<leftarrow> load_uint8; set_header (\<lambda>h. h\<lparr>eh_data := v\<rparr>);
       v \<leftarrow> load_uint8; set_header (\<lambda>h. h\<lparr>eh_version := v\<rparr>);
       v \<leftarrow> load_uint8; set_header (\<lambda>h. h\<lparr>eh_osabi := v\<rparr>);
       v \<leftarrow> load_uint8; set_header (\<lambda>h. h\<lparr>eh_abiversion := v\<rparr>);
       seek (\<lambda>_ c. add32 c 7);
       v \<leftarrow> load_uint16; set_header (\<lambda>h. h\<lparr>eh_type := v\<rparr>);
       v \<leftarrow> load_uint16; set_header (\<lambda>h. h\<lparr>eh_machine := v\<rparr>);
       v \<leftarrow> load_uint32; set_header (\<lambda>h. h\<lparr>eh_version2 := v\<rparr>);
       v \<leftarrow> load_ptr; set_header (\<lambda>h. h\<lparr>eh_entry := v\<rparr>);
       v \<leftarrow> load_ptr; set_header (\<lambda>h. h\<lparr>eh_phoff := v\<rparr>);
       v \<leftarrow> load_ptr; set_header (\<lambda>h. h\<lparr>eh_shoff := v\<rparr>);
       v \<leftarrow> load_uint32; set_header (\<lambda>h. h\<lparr>eh_flags := v\<rparr>);
       v \<leftarrow> load_uint16; set_header (\<lambda>h. h\<lparr>eh_ehsize := v\<rparr>);
       v \<leftarrow> load_uint16; set_header (\<lambda>h. h\<lparr>eh_phentsize := v\<rparr>);
       v \<leftarrow> load_uint16; set_header (\<lambda>h. h\<lparr>eh_phnum := v\<rparr>);
       v \<leftarrow> load_uint16; set_header (\<lambda>h. h\<lparr>eh_shentsize := v\<rparr>);
       v \<leftarrow> load_uint16; set_header (\<lambda>h. h\<lparr>eh_shnum := v\<rparr>);
       v \<leftarrow> load_uint16; set_header (\<lambda>h. h\<lparr>eh_shstrndx := v\<rparr>);
       State_Monad.return TINYELF_RET_OK
     }"

definition tinyelf_parse :: "(elf, tinyelf_ret) state" where
  "tinyelf_parse = do {
     set_header (\<lambda>h. h\<lparr>eh_data := TINYELF_DATA_BIG\<rparr>);
     seek (\<lambda>_ _. 0);
     magic \<leftarrow> load_uint32;
     if magic \<noteq> TINYELF_ELF_MAGIC then State_Monad.return TINYELF_RET_NOELF else parse_fields
   }"

text \<open>\<open>entry_pos\<close> is the position of an entry of one of the two tables, computed with 32 bits.\<close>

definition entry_pos :: "u32 \<Rightarrow> u16 \<Rightarrow> nat \<Rightarrow> nat" where
  "entry_pos off entsize idx = unat (off + ucast entsize * (of_nat idx :: u32))"

definition tinyelf_phdr_get :: "program_header \<Rightarrow> nat \<Rightarrow> (elf, tinyelf_ret \<times> program_header) state" where
  "tinyelf_phdr_get phdr idx = do {
     self \<leftarrow> State_Monad.get;
     if idx \<ge> unat (eh_phnum (el_header self)) then State_Monad.return (TINYELF_RET_FAILED, phdr)
     else do {
       seek (\<lambda>h _. entry_pos (eh_phoff h) (eh_phentsize h) idx);
       type \<leftarrow> load_uint32;
       flags \<leftarrow> (if eh_class (el_header self) = TINYELF_ELF64 then load_uint32 else State_Monad.return (ph_flags phdr));
       offset \<leftarrow> load_ptr;
       vaddr \<leftarrow> load_ptr;
       paddr \<leftarrow> load_ptr;
       filesz \<leftarrow> load_ptr;
       memsz \<leftarrow> load_ptr;
       flags \<leftarrow> (if eh_class (el_header self) = TINYELF_ELF32 then load_uint32 else State_Monad.return flags);
       align \<leftarrow> load_ptr;
       State_Monad.return (TINYELF_RET_OK, \<lparr>ph_type = type, ph_flags = flags, ph_offset = offset, ph_vaddr = vaddr,
         ph_paddr = paddr, ph_filesz = filesz, ph_memsz = memsz, ph_align = align\<rparr>)
     }
   }"

definition tinyelf_shdr_get :: "section_header \<Rightarrow> nat \<Rightarrow> (elf, tinyelf_ret \<times> section_header) state" where
  "tinyelf_shdr_get shdr idx = do {
     self \<leftarrow> State_Monad.get;
     if idx \<ge> unat (eh_shnum (el_header self)) then State_Monad.return (TINYELF_RET_FAILED, shdr)
     else do {
       seek (\<lambda>h _. entry_pos (eh_shoff h) (eh_shentsize h) idx);
       name \<leftarrow> load_ptr;
       type \<leftarrow> load_uint32;
       flags \<leftarrow> load_uint32;
       addr \<leftarrow> load_ptr;
       offset \<leftarrow> load_ptr;
       sz \<leftarrow> load_ptr;
       link \<leftarrow> load_uint32;
       info \<leftarrow> load_uint32;
       align \<leftarrow> load_uint32;
       entsize \<leftarrow> load_uint32;
       State_Monad.return (TINYELF_RET_OK, \<lparr>sh_name = name, sh_type = type, sh_flags = flags, sh_addr = addr,
         sh_offset = offset, sh_size = sz, sh_link = link, sh_info = info, sh_align = align, sh_entsize = entsize\<rparr>)
     }
   }"

text \<open>The loop that copies a name of at most \<open>sz - 1\<close> characters; the name is returned without its zero.\<close>

fun name_loop :: "nat \<Rightarrow> (elf, u8 list) state" where
  "name_loop 0 = do { _ \<leftarrow> load_uint8; State_Monad.return [] }"
| "name_loop (Suc n) = do {
     c \<leftarrow> load_uint8;
     if c \<noteq> 0 \<and> n > 0 then do { cs \<leftarrow> name_loop n; State_Monad.return (c # cs) } else State_Monad.return []
   }"

definition tinyelf_section_get_name :: "u32 \<Rightarrow> nat \<Rightarrow> (elf, tinyelf_ret \<times> u8 list) state" where
  "tinyelf_section_get_name offset sz = do {
     self \<leftarrow> State_Monad.get;
     (r, str_hdr) \<leftarrow> tinyelf_shdr_get section_header_clear (unat (eh_shstrndx (el_header self)));
     if r \<noteq> TINYELF_RET_OK then State_Monad.return (TINYELF_RET_FAILED, [])
     else do {
       seek (\<lambda>_ _. unat (sh_offset str_hdr + offset));
       s \<leftarrow> name_loop sz;
       State_Monad.return (TINYELF_RET_OK, s)
     }
   }"

text \<open>The search over the sections from number \<open>i\<close> on, with \<open>n\<close> turns left before the table ends.\<close>

fun find_loop :: "u8 list \<Rightarrow> section_header \<Rightarrow> nat \<Rightarrow> nat \<Rightarrow> (elf, tinyelf_ret \<times> section_header) state" where
  "find_loop name shdr i 0 = do {
     (r, shdr) \<leftarrow> tinyelf_shdr_get shdr i;
     State_Monad.return (TINYELF_RET_FAILED, shdr)
   }"
| "find_loop name shdr i (Suc n) = do {
     (r, shdr) \<leftarrow> tinyelf_shdr_get shdr i;
     if r \<noteq> TINYELF_RET_OK then State_Monad.return (TINYELF_RET_FAILED, shdr)
     else do {
       (_, fname) \<leftarrow> tinyelf_section_get_name (sh_name shdr) TINYELF_MAX_SECTION_NAME_LEN;
       if name = fname then State_Monad.return (TINYELF_RET_OK, shdr) else find_loop name shdr (Suc i) n
     }
   }"

definition tinyelf_section_find_by_name :: "u8 list \<Rightarrow> section_header \<Rightarrow> (elf, tinyelf_ret \<times> section_header) state" where
  "tinyelf_section_find_by_name name shdr = do {
     self \<leftarrow> State_Monad.get;
     find_loop name shdr 0 (unat (eh_shnum (el_header self)))
   }"

end
