(* ===== verification/Tinyelf_Props.thy ===== *)
theory Tinyelf_Props
  imports Tinyelf
begin

text \<open>
  Reading what was written: programs over the reader are described by the bytes they consume, and
  the description of a sequence is made from those of its parts.
\<close>

definition holds :: "elf \<Rightarrow> u8 list \<Rightarrow> bool" where
  "holds s bs \<longleftrightarrow> el_cursor s + length bs < 2 ^ 32 \<and> (\<forall>i<length bs. el_read s (el_cursor s + i) = Some (bs ! i))"

text \<open>Started where the bytes \<open>bs\<close> stand, the program consumes them, returns \<open>a\<close> and leaves the reader as \<open>s'\<close>.\<close>

definition consumes :: "(elf, 'a) state \<Rightarrow> elf \<Rightarrow> u8 list \<Rightarrow> 'a \<Rightarrow> elf \<Rightarrow> bool" where
  "consumes m s bs a s' \<longleftrightarrow>
     (\<forall>rest. holds s (bs @ rest) \<longrightarrow> run_state m s = (a, s') \<and> holds s' rest)"

definition advance :: "nat \<Rightarrow> elf \<Rightarrow> elf" where
  "advance n s = s\<lparr>el_cursor := el_cursor s + n\<rparr>"

lemma advance_simps [simp]:
  "el_read (advance n s) = el_read s" "el_header (advance n s) = el_header s" "el_cursor (advance n s) = el_cursor s + n"
  by (simp_all add: advance_def)

lemma holds_append: "holds s (bs @ rest) \<longleftrightarrow> holds s bs \<and> holds (advance (length bs) s) rest"
proof -
  have "(\<forall>i<length (bs @ rest). P i ((bs @ rest) ! i)) \<longleftrightarrow>
      (\<forall>i<length bs. P i (bs ! i)) \<and> (\<forall>i<length rest. P (length bs + i) (rest ! i))" for P :: "nat \<Rightarrow> u8 \<Rightarrow> bool"
  proof (intro iffI conjI allI impI)
    fix i assume a: "\<forall>i<length (bs @ rest). P i ((bs @ rest) ! i)" and i: "i < length rest"
    then show "P (length bs + i) (rest ! i)" using a [rule_format, of "length bs + i"] by (simp add: nth_append)
  next
    fix i assume "(\<forall>i<length bs. P i (bs ! i)) \<and> (\<forall>i<length rest. P (length bs + i) (rest ! i))" "i < length (bs @ rest)"
    then show "P i ((bs @ rest) ! i)"
      by (cases "i < length bs") (auto simp: nth_append dest!: spec [of _ "i - length bs"])
  next
    fix i assume a: "\<forall>i<length (bs @ rest). P i ((bs @ rest) ! i)" and i: "i < length bs"
    then show "P i (bs ! i)" using a [rule_format, of i] by (simp add: nth_append)
  qed
  from this [of "\<lambda>i b. el_read s (el_cursor s + i) = Some b"] show ?thesis by (auto simp: holds_def add.assoc)
qed

lemma holds_reader: "el_read s = el_read s' \<Longrightarrow> el_cursor s = el_cursor s' \<Longrightarrow> holds s bs = holds s' bs"
  by (simp add: holds_def)

lemma consumes_bind:
  assumes "consumes m s bs a s1" "consumes (f a) s1 bs' b s2"
  shows "consumes (State_Monad.bind m f) s (bs @ bs') b s2"
  using assms unfolding consumes_def by (auto simp: append_assoc)

lemma consumes_bind0:
  assumes "run_state m s = (a, s1)" "el_read s1 = el_read s" "el_cursor s1 = el_cursor s" "consumes (f a) s1 bs b s2"
  shows "consumes (State_Monad.bind m f) s bs b s2"
  using assms holds_reader [of s s1] unfolding consumes_def by auto

lemma consumes_return: "consumes (State_Monad.return a) s [] a s"
  by (simp add: consumes_def)

lemma consumes_uint8: "consumes load_uint8 s [b] b (advance 1 s)"
  using holds_append [of s "[b]"] by (auto simp: consumes_def load_uint8_def holds_def add32_small advance_def)

lemma consumes_header:
  "consumes m (s\<lparr>el_header := g (el_header s)\<rparr>) bs a s' \<Longrightarrow> consumes (State_Monad.bind (set_header g) (\<lambda>_. m)) s bs a s'"
  by (rule consumes_bind0 [where a = "()"]) (simp_all add: set_header_def)

lemma consumes_pad: "length bs = n \<Longrightarrow> consumes (seek (\<lambda>_ c. add32 c n)) s bs () (advance n s)"
  using holds_append [of s bs] by (auto simp: consumes_def seek_def holds_def add32_small advance_def)

lemma consumes_uint8_bind:
  "consumes (f b) (advance 1 s) bs a s' \<Longrightarrow> consumes (State_Monad.bind load_uint8 f) s (b # bs) a s'"
  using consumes_bind [OF consumes_uint8] by fastforce

lemma consumes_end: "s' = s \<Longrightarrow> a = b \<Longrightarrow> consumes (State_Monad.return a) s [] b s'"
  by (simp add: consumes_return)

text \<open>Numbers as they stand in the file.\<close>

definition half_bytes :: "bool \<Rightarrow> u16 \<Rightarrow> u8 list" where
  "half_bytes big v = (if big then [ucast (drop_bit 8 v), ucast v] else [ucast v, ucast (drop_bit 8 v)])"

definition word_bytes :: "bool \<Rightarrow> u32 \<Rightarrow> u8 list" where
  "word_bytes big v = (if big then rev (store32_le v) else store32_le v)"

definition big :: "elf \<Rightarrow> bool" where
  "big s \<longleftrightarrow> eh_data (el_header s) = TINYELF_DATA_BIG"

lemma length_bytes [simp]: "length (half_bytes b v) = 2" "length (word_bytes b w) = 4"
  by (simp_all add: half_bytes_def word_bytes_def)

lemma half_value: "push_bit 8 (ucast (ucast (drop_bit 8 v) :: u8)) OR ucast (ucast v :: u8) = (v :: u16)"
proof (rule bit_eqI)
  fix n assume "possible_bit TYPE(u16) n"
  then have "n < 16" by (simp add: possible_bit_word)
  then show "bit (push_bit 8 (ucast (ucast (drop_bit 8 v) :: u8)) OR ucast (ucast v :: u8) :: u16) n = bit v n"
    by (cases "n < 8") (auto simp: bit_simps)
qed

lemma consumes_big: "consumes (f (big s)) s bs b s2 \<Longrightarrow> consumes (State_Monad.bind is_big f) s bs b s2"
  by (rule consumes_bind0 [where a = "big s"]) (simp_all add: is_big_def big_def)

lemma consumes_uint16: "consumes load_uint16 s (half_bytes (big s) v) v (advance 2 s)"
proof -
  have two: "advance 1 (advance 1 s) = advance 2 s" by (simp add: advance_def)
  have two8: "consumes (do { a \<leftarrow> load_uint8; b \<leftarrow> load_uint8; State_Monad.return (g a b) }) s [x, y] (g x y) (advance 2 s)"
    for g :: "u8 \<Rightarrow> u8 \<Rightarrow> u16" and x y
    by (intro consumes_uint8_bind consumes_end) (simp_all add: two)
  show ?thesis
  proof (cases "big s")
    case True
    then show ?thesis using two8 [of "\<lambda>a b. push_bit 8 (ucast a) OR ucast b" "ucast (drop_bit 8 v)" "ucast v"]
      unfolding load_uint16_def by (intro consumes_big) (simp add: half_bytes_def half_value)
  next
    case False
    then show ?thesis using two8 [of "\<lambda>a b. ucast a OR push_bit 8 (ucast b)" "ucast v" "ucast (drop_bit 8 v)"]
      unfolding load_uint16_def
      by (intro consumes_big) (simp add: half_bytes_def half_value or.commute [of "ucast (ucast v :: u8)"])
  qed
qed

lemma consumes_uint32: "consumes load_uint32 s (word_bytes (big s) v) v (advance 4 s)"
proof -
  have four: "advance 1 (advance 1 (advance 1 (advance 1 s))) = advance 4 s" by (simp add: advance_def)
  have four8: "consumes (do { a \<leftarrow> load_uint8; b \<leftarrow> load_uint8; c \<leftarrow> load_uint8; d \<leftarrow> load_uint8; State_Monad.return (g a b c d) })
      s [x, y, z, w] (g x y z w) (advance 4 s)" for g :: "u8 \<Rightarrow> u8 \<Rightarrow> u8 \<Rightarrow> u8 \<Rightarrow> u32" and x y z w
    by (intro consumes_uint8_bind consumes_end) (simp_all add: four)
  obtain x y z w where v: "store32_le v = [x, y, z, w]" by (simp add: store32_le_def)
  then have l: "load32_le [x, y, z, w] = v" using load_store32_le [of v] by simp
  show ?thesis unfolding load_uint32_def
    using four8 [of "\<lambda>a b c d. if big s then load32_le [d, c, b, a] else load32_le [a, b, c, d]"] v l
    by (intro consumes_big) (cases "big s", fastforce simp: word_bytes_def, fastforce simp: word_bytes_def)
qed

lemma consumes_ptr:
  "eh_class (el_header s) = TINYELF_ELF32 \<Longrightarrow> consumes load_ptr s (word_bytes (big s) v) v (advance 4 s)"
  unfolding load_ptr_def
  by (rule consumes_bind0 [where a = s]) (auto simp: consumes_uint32)

text \<open>The header of an ELF32 file, in either byte order; the bytes of the padding are arbitrary.\<close>

definition header_fields_bytes :: "u8 list \<Rightarrow> elf_header \<Rightarrow> u8 list" where
  "header_fields_bytes pad h =
     (let b = (eh_data h = TINYELF_DATA_BIG) in
      [eh_class h] @ [eh_data h] @ [eh_version h] @ [eh_osabi h] @ [eh_abiversion h] @ pad @
      half_bytes b (eh_type h) @ half_bytes b (eh_machine h) @ word_bytes b (eh_version2 h) @ word_bytes b (eh_entry h) @
      word_bytes b (eh_phoff h) @ word_bytes b (eh_shoff h) @ word_bytes b (eh_flags h) @ half_bytes b (eh_ehsize h) @
      half_bytes b (eh_phentsize h) @ half_bytes b (eh_phnum h) @ half_bytes b (eh_shentsize h) @ half_bytes b (eh_shnum h) @
      half_bytes b (eh_shstrndx h))"

definition elf_header_bytes :: "u8 list \<Rightarrow> elf_header \<Rightarrow> u8 list" where
  "elf_header_bytes pad h = word_bytes True TINYELF_ELF_MAGIC @ header_fields_bytes pad h"

definition section_header_bytes :: "bool \<Rightarrow> section_header \<Rightarrow> u8 list" where
  "section_header_bytes b h =
     word_bytes b (sh_name h) @ word_bytes b (sh_type h) @ word_bytes b (sh_flags h) @ word_bytes b (sh_addr h) @
     word_bytes b (sh_offset h) @ word_bytes b (sh_size h) @ word_bytes b (sh_link h) @ word_bytes b (sh_info h) @
     word_bytes b (sh_align h) @ word_bytes b (sh_entsize h)"

text \<open>Steps over numbers whose byte order and class are known.\<close>

lemma step_uint32:
  "big s = b \<Longrightarrow> consumes (f v) (advance 4 s) bs a s' \<Longrightarrow> consumes (State_Monad.bind load_uint32 f) s (word_bytes b v @ bs) a s'"
  using consumes_bind [OF consumes_uint32] by fastforce

lemma step_uint16:
  "big s = b \<Longrightarrow> consumes (f v) (advance 2 s) bs a s' \<Longrightarrow> consumes (State_Monad.bind load_uint16 f) s (half_bytes b v @ bs) a s'"
  using consumes_bind [OF consumes_uint16] by fastforce

lemma step_ptr:
  "eh_class (el_header s) = TINYELF_ELF32 \<Longrightarrow> big s = b \<Longrightarrow> consumes (f v) (advance 4 s) bs a s' \<Longrightarrow>
   consumes (State_Monad.bind load_ptr f) s (word_bytes b v @ bs) a s'"
  using consumes_bind [OF consumes_ptr] by fastforce

lemma step_uint8:
  "consumes (f v) (advance 1 s) bs a s' \<Longrightarrow> consumes (State_Monad.bind load_uint8 f) s ([v] @ bs) a s'"
  using consumes_uint8_bind by simp

lemma step_pad:
  "length pad = n \<Longrightarrow> consumes m (advance n s) bs a s' \<Longrightarrow>
   consumes (State_Monad.bind (seek (\<lambda>_ c. add32 c n)) (\<lambda>_. m)) s (pad @ bs) a s'"
  by (rule consumes_bind [OF consumes_pad])

lemma consumes_run: "consumes m s bs a s' \<Longrightarrow> holds s bs \<Longrightarrow> run_state m s = (a, s')"
  unfolding consumes_def using append_Nil2 [of bs] by metis

lemma consumes_last_uint32:
  "big s = b \<Longrightarrow> consumes (f v) (advance 4 s) [] a s' \<Longrightarrow> consumes (State_Monad.bind load_uint32 f) s (word_bytes b v) a s'"
  using step_uint32 [of s b f v "[]"] by simp

lemma consumes_last_uint16:
  "big s = b \<Longrightarrow> consumes (f v) (advance 2 s) [] a s' \<Longrightarrow> consumes (State_Monad.bind load_uint16 f) s (half_bytes b v) a s'"
  using step_uint16 [of s b f v "[]"] by simp

lemma parse_section:
  assumes "eh_class (el_header s) = TINYELF_ELF32" "idx < unat (eh_shnum (el_header s))"
    and "holds (s\<lparr>el_cursor := entry_pos (eh_shoff (el_header s)) (eh_shentsize (el_header s)) idx\<rparr>) (section_header_bytes (big s) h)"
  shows "run_state (tinyelf_shdr_get shdr idx) s =
    ((TINYELF_RET_OK, h), s\<lparr>el_cursor := entry_pos (eh_shoff (el_header s)) (eh_shentsize (el_header s)) idx + 40\<rparr>)"
proof -
  let ?s = "s\<lparr>el_cursor := entry_pos (eh_shoff (el_header s)) (eh_shentsize (el_header s)) idx\<rparr>"
  have [simp]: "big (advance n t) = big t" "big (t\<lparr>el_cursor := c\<rparr>) = big t" for n t c by (simp_all add: big_def)
  have "consumes (do {
       name \<leftarrow> load_ptr; type \<leftarrow> load_uint32; flags \<leftarrow> load_uint32; addr \<leftarrow> load_ptr; offset \<leftarrow> load_ptr; sz \<leftarrow> load_ptr;
       link \<leftarrow> load_uint32; info \<leftarrow> load_uint32; align \<leftarrow> load_uint32; entsize \<leftarrow> load_uint32;
       State_Monad.return (TINYELF_RET_OK, \<lparr>sh_name = name, sh_type = type, sh_flags = flags, sh_addr = addr,
         sh_offset = offset, sh_size = sz, sh_link = link, sh_info = info, sh_align = align, sh_entsize = entsize\<rparr>) })
     ?s (section_header_bytes (big s) h) (TINYELF_RET_OK, h) (advance 40 ?s)"
    unfolding section_header_bytes_def
    by (intro step_ptr step_uint32 consumes_last_uint32 consumes_end) (simp_all add: assms(1) advance_def)
  from consumes_run [OF this assms(3)] show ?thesis using assms(2)
    by (simp add: tinyelf_shdr_get_def seek_def advance_def)
qed

lemma big_header [simp]:
  "big (advance n t) = big t" "big (t\<lparr>el_cursor := c\<rparr>) = big t" "big (t\<lparr>el_header := k\<rparr>) = (eh_data k = TINYELF_DATA_BIG)"
  by (simp_all add: big_def)

text \<open>The reader with header and cursor named, so that a long program keeps its state small.\<close>

definition reader :: "elf \<Rightarrow> elf_header \<Rightarrow> nat \<Rightarrow> elf" where
  "reader s h c = s\<lparr>el_header := h, el_cursor := c\<rparr>"

lemma reader_simps [simp]:
  "advance n (reader s h c) = reader s h (c + n)" "el_header (reader s h c) = h" "el_cursor (reader s h c) = c"
  "el_read (reader s h c) = el_read s" "big (reader s h c) = (eh_data h = TINYELF_DATA_BIG)"
  by (simp_all add: reader_def advance_def)

lemma reader_header: "consumes m (reader s (g h) c) bs a s' \<Longrightarrow> consumes (State_Monad.bind (set_header g) (\<lambda>_. m)) (reader s h c) bs a s'"
  by (rule consumes_bind0 [where a = "()" and ?s1.0 = "reader s (g h) c"]) (simp_all add: set_header_def reader_def)

lemma reader_uint8:
  "consumes (f v) (reader s h (c + 1)) bs a s' \<Longrightarrow> consumes (State_Monad.bind load_uint8 f) (reader s h c) ([v] @ bs) a s'"
  by (rule step_uint8) simp

lemma reader_pad:
  "length pad = n \<Longrightarrow> consumes m (reader s h (c + n)) bs a s' \<Longrightarrow>
   consumes (State_Monad.bind (seek (\<lambda>_ c. add32 c n)) (\<lambda>_. m)) (reader s h c) (pad @ bs) a s'"
  by (rule step_pad) simp_all

lemma reader_uint16:
  "b = (eh_data h = TINYELF_DATA_BIG) \<Longrightarrow> consumes (f v) (reader s h (c + 2)) bs a s' \<Longrightarrow>
   consumes (State_Monad.bind load_uint16 f) (reader s h c) (half_bytes b v @ bs) a s'"
  by (rule step_uint16) simp_all

lemma reader_last:
  "b = (eh_data h = TINYELF_DATA_BIG) \<Longrightarrow> consumes (f v) (reader s h (c + 2)) [] a s' \<Longrightarrow>
   consumes (State_Monad.bind load_uint16 f) (reader s h c) (half_bytes b v) a s'"
  by (rule consumes_last_uint16) simp_all

lemma reader_uint32:
  "b = (eh_data h = TINYELF_DATA_BIG) \<Longrightarrow> consumes (f v) (reader s h (c + 4)) bs a s' \<Longrightarrow>
   consumes (State_Monad.bind load_uint32 f) (reader s h c) (word_bytes b v @ bs) a s'"
  by (rule step_uint32) simp_all

lemma reader_ptr:
  "eh_class h = TINYELF_ELF32 \<Longrightarrow> b = (eh_data h = TINYELF_DATA_BIG) \<Longrightarrow> consumes (f v) (reader s h (c + 4)) bs a s' \<Longrightarrow>
   consumes (State_Monad.bind load_ptr f) (reader s h c) (word_bytes b v @ bs) a s'"
  by (rule step_ptr) simp_all

lemmas reader_steps = reader_header reader_uint8 reader_pad reader_uint16 reader_last reader_uint32 reader_ptr consumes_end

lemma parse_header:
  assumes "eh_class h = TINYELF_ELF32" "length pad = 7" "holds (s\<lparr>el_cursor := 0\<rparr>) (elf_header_bytes pad h)"
  shows "run_state tinyelf_parse s = (TINYELF_RET_OK, s\<lparr>el_header := h, el_cursor := 52\<rparr>)"
proof -
  let ?s = "reader s ((el_header s)\<lparr>eh_data := TINYELF_DATA_BIG\<rparr>) 0"
  have fields: "consumes parse_fields (reader s ((el_header s)\<lparr>eh_data := TINYELF_DATA_BIG\<rparr>) 4)
      (header_fields_bytes pad h) TINYELF_RET_OK (reader s h 52)"
    unfolding parse_fields_def header_fields_bytes_def Let_def
    by (intro reader_steps) (simp_all add: assms(1,2))
  have "consumes (State_Monad.bind load_uint32 (\<lambda>magic. if magic \<noteq> TINYELF_ELF_MAGIC then State_Monad.return TINYELF_RET_NOELF else parse_fields))
      ?s (elf_header_bytes pad h) TINYELF_RET_OK (reader s h 52)"
    unfolding elf_header_bytes_def by (intro reader_uint32) (simp_all add: fields)
  moreover have "holds ?s (elf_header_bytes pad h)" using assms(3) holds_reader [of ?s "s\<lparr>el_cursor := 0\<rparr>"] by simp
  ultimately have "run_state (State_Monad.bind load_uint32 (\<lambda>magic. if magic \<noteq> TINYELF_ELF_MAGIC then State_Monad.return TINYELF_RET_NOELF else parse_fields))
      ?s = (TINYELF_RET_OK, reader s h 52)" by (rule consumes_run)
  then show ?thesis by (simp add: tinyelf_parse_def set_header_def seek_def reader_def)
qed

subsection \<open>Sections by name\<close>

definition holds_at :: "(nat \<Rightarrow> u8 option) \<Rightarrow> nat \<Rightarrow> u8 list \<Rightarrow> bool" where
  "holds_at rd pos bs \<longleftrightarrow> pos + length bs < 2 ^ 32 \<and> (\<forall>i<length bs. rd (pos + i) = Some (bs ! i))"

lemma holds_at: "holds s bs \<longleftrightarrow> holds_at (el_read s) (el_cursor s) bs"
  by (simp add: holds_def holds_at_def)

text \<open>
  A file: header, section headers and names, as the reader meets them. Every name is at its place in the
  string section and ends with a zero.
\<close>

definition elf_file :: "(nat \<Rightarrow> u8 option) \<Rightarrow> elf_header \<Rightarrow> section_header list \<Rightarrow> u8 list list \<Rightarrow> bool" where
  "elf_file rd h secs names \<longleftrightarrow>
     eh_class h = TINYELF_ELF32 \<and> length secs = unat (eh_shnum h) \<and> length names = length secs \<and>
     unat (eh_shstrndx h) < length secs \<and>
     (\<exists>pad. length pad = 7 \<and> holds_at rd 0 (elf_header_bytes pad h)) \<and>
     (\<forall>i<length secs.
        holds_at rd (entry_pos (eh_shoff h) (eh_shentsize h) i)
          (section_header_bytes (eh_data h = TINYELF_DATA_BIG) (secs ! i)) \<and>
        holds_at rd (unat (sh_offset (secs ! unat (eh_shstrndx h)) + sh_name (secs ! i))) (names ! i @ [0]) \<and>
        list_all (\<lambda>c. c \<noteq> 0) (names ! i) \<and> length (names ! i) < TINYELF_MAX_SECTION_NAME_LEN)"

lemma elf_file_parse:
  assumes "elf_file (el_read s) h secs names"
  shows "run_state tinyelf_parse s = (TINYELF_RET_OK, s\<lparr>el_header := h, el_cursor := 52\<rparr>)"
  using assms parse_header by (auto simp: elf_file_def holds_at)

lemma consumes_name:
  "list_all (\<lambda>c. c \<noteq> 0) cs \<Longrightarrow> length cs < sz \<Longrightarrow> consumes (name_loop sz) s (cs @ [0]) cs (advance (length cs + 1) s)"
proof (induction cs arbitrary: sz s)
  case Nil
  then obtain n where sz: "sz = Suc n" by (cases sz) auto
  have "consumes (State_Monad.bind load_uint8 (\<lambda>c. if c \<noteq> 0 \<and> n > 0 then State_Monad.bind (name_loop n) (\<lambda>cs. State_Monad.return (c # cs))
      else State_Monad.return [])) s [0] [] (advance 1 s)"
    by (intro consumes_uint8_bind) (simp add: consumes_return)
  then show ?case by (simp add: sz)
next
  case (Cons c cs)
  then obtain n where sz: "sz = Suc n" and n: "length cs < n" by (cases sz) auto
  have "consumes (name_loop n) (advance 1 s) (cs @ [0]) cs (advance (length cs + 1) (advance 1 s))"
    using Cons n by simp
  from consumes_bind [where f = "\<lambda>cs. State_Monad.return (c # cs)", OF this consumes_return [of "c # cs"]]
  have "consumes (State_Monad.bind (name_loop n) (\<lambda>cs. State_Monad.return (c # cs))) (advance 1 s) (cs @ [0]) (c # cs)
      (advance (length (c # cs) + 1) s)"
    by (simp add: advance_def)
  moreover have "c \<noteq> 0 \<and> n > 0" using Cons.prems n by auto
  ultimately show ?case unfolding sz name_loop.simps append_Cons by (intro consumes_uint8_bind) simp
qed

lemma file_section:
  assumes "elf_file (el_read s) h secs names" "el_header s = h" "i < length secs"
  shows "\<exists>c. run_state (tinyelf_shdr_get shdr i) s = ((TINYELF_RET_OK, secs ! i), s\<lparr>el_cursor := c\<rparr>)"
  using assms parse_section [of s i "secs ! i" shdr] by (auto simp: elf_file_def holds_at big_def)

lemma file_name:
  assumes "elf_file (el_read s) h secs names" "el_header s = h" "i < length secs"
  shows "\<exists>c. run_state (tinyelf_section_get_name (sh_name (secs ! i)) TINYELF_MAX_SECTION_NAME_LEN) s =
    ((TINYELF_RET_OK, names ! i), s\<lparr>el_cursor := c\<rparr>)"
proof -
  have f: "unat (eh_shstrndx h) < length secs" "list_all (\<lambda>c. c \<noteq> 0) (names ! i)" "length (names ! i) < TINYELF_MAX_SECTION_NAME_LEN"
    "holds_at (el_read s) (unat (sh_offset (secs ! unat (eh_shstrndx h)) + sh_name (secs ! i))) (names ! i @ [0])"
    using assms by (auto simp: elf_file_def)
  obtain c where c: "run_state (tinyelf_shdr_get section_header_clear (unat (eh_shstrndx h))) s =
      ((TINYELF_RET_OK, secs ! unat (eh_shstrndx h)), s\<lparr>el_cursor := c\<rparr>)"
    using file_section [OF assms(1,2) f(1)] by blast
  let ?s = "s\<lparr>el_cursor := unat (sh_offset (secs ! unat (eh_shstrndx h)) + sh_name (secs ! i))\<rparr>"
  have "holds ?s (names ! i @ [0])" using f(4) by (simp add: holds_at)
  from consumes_run [OF consumes_name [OF f(2,3)] this] show ?thesis
    using c assms(2) by (simp add: tinyelf_section_get_name_def seek_def advance_def) blast
qed

lemma find_loop_file:
  assumes "elf_file (el_read s) h secs names" "el_header s = h" "i + n = length secs"
  shows "\<exists>c. run_state (find_loop name shdr i n) s =
    ((case find_index (\<lambda>m. name = m) (drop i names) of Some j \<Rightarrow> (TINYELF_RET_OK, secs ! (i + j))
      | None \<Rightarrow> (TINYELF_RET_FAILED, if n = 0 then shdr else last secs)), s\<lparr>el_cursor := c\<rparr>)"
  using assms
proof (induction n arbitrary: i shdr s)
  case 0
  have "\<not> i < unat (eh_shnum (el_header s))" "length names \<le> i" using 0 by (auto simp: elf_file_def)
  then have "run_state (find_loop name shdr i 0) s = ((TINYELF_RET_FAILED, shdr), s)" by (simp add: tinyelf_shdr_get_def)
  then show ?case using \<open>length names \<le> i\<close> by (auto intro!: exI [of _ "el_cursor s"])
next
  case (Suc n)
  have i: "i < length secs" "length names = length secs" using Suc.prems by (auto simp: elf_file_def)
  obtain c where c: "run_state (tinyelf_shdr_get shdr i) s = ((TINYELF_RET_OK, secs ! i), s\<lparr>el_cursor := c\<rparr>)"
    using file_section [OF Suc.prems(1,2) i(1)] by blast
  obtain d where d: "run_state (tinyelf_section_get_name (sh_name (secs ! i)) TINYELF_MAX_SECTION_NAME_LEN) (s\<lparr>el_cursor := c\<rparr>) =
      ((TINYELF_RET_OK, names ! i), s\<lparr>el_cursor := d\<rparr>)"
    using file_name [of "s\<lparr>el_cursor := c\<rparr>" h secs names i] Suc.prems(1,2) i(1) by auto
  have dr: "drop i names = names ! i # drop (Suc i) names" using i by (simp add: Cons_nth_drop_Suc)
  obtain e where e: "run_state (find_loop name (secs ! i) (Suc i) n) (s\<lparr>el_cursor := d\<rparr>) =
    ((case find_index (\<lambda>m. name = m) (drop (Suc i) names) of Some j \<Rightarrow> (TINYELF_RET_OK, secs ! (Suc i + j))
      | None \<Rightarrow> (TINYELF_RET_FAILED, if n = 0 then secs ! i else last secs)), s\<lparr>el_cursor := e\<rparr>)"
    using Suc.IH [of "s\<lparr>el_cursor := d\<rparr>" "Suc i" "secs ! i"] Suc.prems by auto
  have l: "(if n = 0 then secs ! i else last secs) = last secs" using Suc.prems(3)
    by (cases secs rule: rev_cases) (auto simp: nth_append)
  show ?case using c d e unfolding dr l by (auto split: option.splits)
qed

lemma find_file:
  assumes "elf_file (el_read s) h secs names" "el_header s = h"
  shows "\<exists>c shdr'. run_state (tinyelf_section_find_by_name name shdr) s =
    ((case find_index (\<lambda>m. name = m) names of Some j \<Rightarrow> (TINYELF_RET_OK, secs ! j) | None \<Rightarrow> (TINYELF_RET_FAILED, shdr')),
     s\<lparr>el_cursor := c\<rparr>)"
proof -
  have n: "unat (eh_shnum (el_header s)) = length secs" using assms by (simp add: elf_file_def)
  show ?thesis using find_loop_file [OF assms, of 0 "length secs" name shdr]
    by (auto simp: tinyelf_section_find_by_name_def n split: option.splits)
qed

text \<open>
  Reading a file gives back what was written into it, in both byte orders: parsing
  returns the header, and looking a section up by name finds the first section of that name
  with all its fields, or reports a failure when there is none.
\<close>

theorem tinyelf_reads_file:
  assumes "elf_file rd h secs names"
  shows "\<exists>s c shdr. run_state tinyelf_parse (snd (tinyelf_init rd)) = (TINYELF_RET_OK, s) \<and> el_header s = h \<and>
    run_state (tinyelf_section_find_by_name name section_header_clear) s =
      ((case find_index (\<lambda>m. name = m) names of Some j \<Rightarrow> (TINYELF_RET_OK, secs ! j) | None \<Rightarrow> (TINYELF_RET_FAILED, shdr)),
       s\<lparr>el_cursor := c\<rparr>)"
proof -
  let ?s = "snd (tinyelf_init rd)\<lparr>el_header := h, el_cursor := 52\<rparr>"
  have "run_state tinyelf_parse (snd (tinyelf_init rd)) = (TINYELF_RET_OK, ?s)"
    using assms by (intro elf_file_parse) (simp add: tinyelf_init_def)
  moreover have "elf_file (el_read ?s) h secs names" using assms by (simp add: tinyelf_init_def)
  ultimately show ?thesis using find_file [of ?s h secs names name section_header_clear] by auto
qed

subsection \<open>An example\<close>

text \<open>A file with a section of 64 bytes for a signature and a section of names, in front of the section headers.\<close>

definition wit_header :: elf_header where
  "wit_header = elf_header_clear\<lparr>eh_class := TINYELF_ELF32, eh_data := TINYELF_DATA_LITTLE, eh_entry := 1, eh_shoff := 136,
     eh_shentsize := 40, eh_shnum := 2\<rparr>"

definition wit_strings :: section_header where
  "wit_strings = section_header_clear\<lparr>sh_name := 14, sh_offset := 116, sh_size := 19\<rparr>"

definition wit_sign :: section_header where
  "wit_sign = section_header_clear\<lparr>sh_offset := 52, sh_size := 64\<rparr>"

definition sign_name :: "u8 list" where
  "sign_name = [0x2e, 0x73, 0x69, 0x67, 0x6e, 0x2e, 0x65, 0x64, 0x32, 0x35, 0x35, 0x31, 0x39]"

definition str_name :: "u8 list" where
  "str_name = [0x2e, 0x73, 0x74, 0x72]"

definition wit_image :: "u8 list \<Rightarrow> u8 list" where
  "wit_image sig = elf_header_bytes (replicate 7 0) wit_header @ sig @ sign_name @ [0] @ str_name @ [0, 0] @
     section_header_bytes False wit_strings @ section_header_bytes False wit_sign"

text \<open>The file read without the bytes of the signature.\<close>

definition wit_reader :: "u8 list \<Rightarrow> nat \<Rightarrow> u8 option" where
  "wit_reader sig p = (if 52 \<le> p \<and> p < 116 \<or> 216 \<le> p then None else Some (wit_image sig ! p))"

lemma wit_header_simps [simp]:
  "eh_class wit_header = TINYELF_ELF32" "eh_data wit_header = TINYELF_DATA_LITTLE" "eh_shoff wit_header = 136"
  "eh_shentsize wit_header = 40" "eh_shnum wit_header = 2" "eh_shstrndx wit_header = 0"
  by (simp_all add: wit_header_def elf_header_clear_def)

lemma wit_section_simps [simp]:
  "sh_name wit_strings = 14" "sh_offset wit_strings = 116" "sh_name wit_sign = 0" "sh_offset wit_sign = 52" "sh_size wit_sign = 64"
  by (simp_all add: wit_strings_def wit_sign_def section_header_clear_def)

lemma length_elf_header: "length pad = 7 \<Longrightarrow> length (elf_header_bytes pad h) = 52"
  by (simp add: elf_header_bytes_def header_fields_bytes_def Let_def)

lemma length_section_bytes: "length (section_header_bytes b h) = 40"
  by (simp add: section_header_bytes_def)

lemma wit_holds:
  assumes "length sig = 64" "take (length bs) (drop pos (wit_image sig)) = bs" "pos + length bs \<le> 216"
    and "pos + length bs \<le> 52 \<or> 116 \<le> pos"
  shows "holds_at (wit_reader sig) pos bs"
proof -
  have l: "length (wit_image sig) = 216"
    by (simp add: wit_image_def length_elf_header length_section_bytes assms(1) sign_name_def str_name_def)
  have "wit_reader sig (pos + i) = Some (bs ! i)" if "i < length bs" for i
  proof -
    have "bs ! i = drop pos (wit_image sig) ! i" using assms(2) that nth_take by metis
    then show ?thesis using that assms(3,4) l by (auto simp: wit_reader_def)
  qed
  then show ?thesis using assms(3) by (simp add: holds_at_def)
qed

lemma wit_file:
  assumes "length sig = 64"
  shows "elf_file (wit_reader sig) wit_header [wit_strings, wit_sign] [str_name, sign_name]"
proof -
  note img = wit_image_def length_elf_header length_section_bytes assms sign_name_def str_name_def
  have "holds_at (wit_reader sig) 0 (elf_header_bytes (replicate 7 0) wit_header)"
    by (rule wit_holds) (simp_all add: img)
  moreover have "holds_at (wit_reader sig) 136 (section_header_bytes False wit_strings)"
    by (rule wit_holds) (simp_all add: img)
  moreover have "holds_at (wit_reader sig) 176 (section_header_bytes False wit_sign)"
    by (rule wit_holds) (simp_all add: img)
  moreover have "holds_at (wit_reader sig) 130 (str_name @ [0])"
    by (rule wit_holds) (simp_all add: img)
  moreover have "holds_at (wit_reader sig) 116 (sign_name @ [0])"
    by (rule wit_holds) (simp_all add: img)
  moreover have "entry_pos 136 40 0 = 136" "entry_pos 136 40 (Suc 0) = 176" by (simp_all add: entry_pos_def)
  moreover have "(TINYELF_DATA_LITTLE = TINYELF_DATA_BIG) = False" by (simp add: TINYELF_DATA_LITTLE_def TINYELF_DATA_BIG_def)
  moreover have "list_all (\<lambda>c. c \<noteq> 0) str_name" "list_all (\<lambda>c. c \<noteq> 0) sign_name"
    "length str_name < TINYELF_MAX_SECTION_NAME_LEN" "length sign_name < TINYELF_MAX_SECTION_NAME_LEN"
    by (simp_all add: sign_name_def str_name_def TINYELF_MAX_SECTION_NAME_LEN_def)
  ultimately show ?thesis
    unfolding elf_file_def by (auto simp: less_Suc_eq intro!: exI [of _ "replicate 7 0"])
qed

lemma tinyelf_reads_file_witness:
  "\<exists>s c. run_state tinyelf_parse (snd (tinyelf_init (wit_reader (replicate 64 7)))) = (TINYELF_RET_OK, s) \<and>
     run_state (tinyelf_section_find_by_name sign_name section_header_clear) s = ((TINYELF_RET_OK, wit_sign), s\<lparr>el_cursor := c\<rparr>)"
  using tinyelf_reads_file [OF wit_file [of "replicate 64 7"], of sign_name] by (auto simp: sign_name_def str_name_def)

end
