(* ===== verification/Chainloader.thy ===== *)
theory Chainloader
  imports Tinyelf_Props Blake2s
begin

text \<open>
  The chain loader (\<open>services/chainloader/chainloader.c\<close>): it looks for an ELF image in memory, checks its
  signature and starts it. Memory is a function of the address; addresses are numbers of 32 bits and 0 is the
  null pointer. The verification of Ed25519 signatures is a parameter of the operations that call it.
  Logging is left out.
\<close>

datatype chainloader_ret = CHAINLOADER_RET_OK | CHAINLOADER_RET_FAILED

record chainloader =
  cl_membuf :: nat
  cl_memsize :: nat
  cl_elf :: elf
  cl_vector_table :: u32

definition mem_range :: "(nat \<Rightarrow> u8) \<Rightarrow> nat \<Rightarrow> nat \<Rightarrow> u8 list" where
  "mem_range mem a n = map (\<lambda>i. mem (add32 a i)) [0..<n]"

text \<open>The read callback: a copy from the image in memory that never fails.\<close>

definition tinyelf_read :: "(nat \<Rightarrow> u8) \<Rightarrow> nat \<Rightarrow> nat \<Rightarrow> u8 option" where
  "tinyelf_read mem membuf pos = Some (mem (add32 membuf pos))"

definition chainloader_init :: "chainloader_ret \<times> chainloader" where
  "chainloader_init = (CHAINLOADER_RET_OK,
     \<lparr>cl_membuf = 0, cl_memsize = 0, cl_elf = \<lparr>el_read = (\<lambda>_. None), el_header = elf_header_clear, el_cursor = 0\<rparr>, cl_vector_table = 0\<rparr>)"

definition chainloader_free :: "chainloader \<Rightarrow> chainloader_ret \<times> chainloader" where
  "chainloader_free self = (CHAINLOADER_RET_OK, self)"

definition chainloader_set_elf :: "(nat \<Rightarrow> u8) \<Rightarrow> nat \<Rightarrow> nat \<Rightarrow> chainloader \<Rightarrow> chainloader_ret \<times> chainloader" where
  "chainloader_set_elf mem buf sz self =
     (let self = self\<lparr>cl_membuf := buf, cl_memsize := sz\<rparr>;
          (_, elf) = tinyelf_init (tinyelf_read mem buf);
          (r, elf) = run_state tinyelf_parse elf
      in if r = TINYELF_RET_OK then (CHAINLOADER_RET_OK, self\<lparr>cl_elf := elf\<rparr>)
         else (CHAINLOADER_RET_FAILED, self\<lparr>cl_membuf := 0, cl_memsize := 0, cl_elf := elf\<lparr>el_read := tinyelf_read mem 0\<rparr>\<rparr>))"

text \<open>The scan may not end, when \<open>mstep\<close> is zero or the offset wraps around.\<close>

partial_function (option) find_elf_loop ::
  "(nat \<Rightarrow> u8) \<Rightarrow> nat \<Rightarrow> nat \<Rightarrow> nat \<Rightarrow> nat \<Rightarrow> chainloader \<Rightarrow> (chainloader_ret \<times> chainloader) option" where
  "find_elf_loop mem mstart msize mstep offset self =
     (if offset < msize then
        let (r, self) = chainloader_set_elf mem (add32 mstart offset) (sub32 msize offset) self
        in if r = CHAINLOADER_RET_OK then Some (CHAINLOADER_RET_OK, self)
           else find_elf_loop mem mstart msize mstep (add32 offset mstep) self
      else Some (CHAINLOADER_RET_FAILED, self))"

definition chainloader_find_elf ::
  "(nat \<Rightarrow> u8) \<Rightarrow> nat \<Rightarrow> nat \<Rightarrow> nat \<Rightarrow> chainloader \<Rightarrow> (chainloader_ret \<times> chainloader) option" where
  "chainloader_find_elf mem mstart msize mstep self = find_elf_loop mem mstart msize mstep 0 self"

definition chainloader_find_signature :: "chainloader \<Rightarrow> (chainloader_ret \<times> nat \<times> nat) \<times> chainloader" where
  "chainloader_find_signature self =
     (let ((r, hdr), elf) = run_state (tinyelf_section_find_by_name sign_name section_header_clear) (cl_elf self);
          self = self\<lparr>cl_elf := elf\<rparr>
      in if r \<noteq> TINYELF_RET_OK then ((CHAINLOADER_RET_FAILED, 0, 0), self)
         else ((CHAINLOADER_RET_OK, add32 (cl_membuf self) (unat (sh_offset hdr)), unat (sh_size hdr)), self))"

text \<open>The hash of the image, with 64 zeros for the excluded part.\<close>

definition chainloader_elf_b2s :: "(nat \<Rightarrow> u8) \<Rightarrow> chainloader \<Rightarrow> nat \<Rightarrow> nat \<Rightarrow> (chainloader_ret \<times> u8 list) option" where
  "chainloader_elf_b2s mem self exclude exclude_size =
     (let h = el_header (cl_elf self);
          elf_size = unat (eh_shoff h + ucast (eh_shentsize h) * ucast (eh_shnum h));
          before = sub32 exclude (cl_membuf self)
      in Option.bind (blake2s_init 32) (\<lambda>s.
         let s = blake2s_update s (mem_range mem (cl_membuf self) before);
             s = blake2s_update s (replicate 32 0);
             s = blake2s_update s (replicate 32 0);
             s = blake2s_update s (mem_range mem (add32 exclude exclude_size) (sub32 (sub32 elf_size before) exclude_size))
         in Option.bind (blake2s_final s 32) (\<lambda>(_, _, d).
              Some (CHAINLOADER_RET_OK, case d of None \<Rightarrow> replicate 32 0 | Some d \<Rightarrow> d))))"

text \<open>\<open>verify signature pubkey message\<close> stands for \<open>ed25519_verify\<close>, which reads 64 bytes of signature.\<close>

definition chainloader_check_signature ::
  "(u8 list \<Rightarrow> u8 list \<Rightarrow> u8 list \<Rightarrow> bool) \<Rightarrow> (nat \<Rightarrow> u8) \<Rightarrow> chainloader \<Rightarrow> u8 list \<Rightarrow> (chainloader_ret \<times> chainloader) option" where
  "chainloader_check_signature verify mem self pubkey =
     (let ((r, addr, sz), self) = chainloader_find_signature self
      in if r \<noteq> CHAINLOADER_RET_OK then Some (CHAINLOADER_RET_FAILED, self)
         else Option.bind (chainloader_elf_b2s mem self addr sz) (\<lambda>(r, h).
           if r = CHAINLOADER_RET_OK \<and> verify (mem_range mem addr 64) pubkey h then Some (CHAINLOADER_RET_OK, self)
           else Some (CHAINLOADER_RET_FAILED, self)))"

text \<open>The search for the vector table, from program header \<open>i\<close> on with \<open>n\<close> turns left; the last match wins.\<close>

fun vector_loop :: "(nat \<Rightarrow> u8) \<Rightarrow> program_header \<Rightarrow> nat \<Rightarrow> nat \<Rightarrow> chainloader_ret \<times> u32 \<Rightarrow> (elf, chainloader_ret \<times> u32) state" where
  "vector_loop mem hdr i 0 res = do { _ \<leftarrow> tinyelf_phdr_get hdr i; State_Monad.return res }"
| "vector_loop mem hdr i (Suc n) res = do {
     (r, hdr) \<leftarrow> tinyelf_phdr_get hdr i;
     if r \<noteq> TINYELF_RET_OK then State_Monad.return res
     else do {
       self \<leftarrow> State_Monad.get;
       vector_loop mem hdr (Suc i) n
         (if eh_entry (el_header self) = load32_le (mem_range mem (unat (ph_paddr hdr + 4)) 4)
          then (CHAINLOADER_RET_OK, ph_paddr hdr) else res)
     }
   }"

definition chainloader_find_vector_table :: "(nat \<Rightarrow> u8) \<Rightarrow> chainloader \<Rightarrow> chainloader_ret \<times> chainloader" where
  "chainloader_find_vector_table mem self =
     (let ((r, addr), elf) = run_state (vector_loop mem program_header_clear 0 (unat (eh_phnum (el_header (cl_elf self))))
            (CHAINLOADER_RET_FAILED, cl_vector_table self)) (cl_elf self)
      in (r, self\<lparr>cl_elf := elf, cl_vector_table := addr\<rparr>))"

text \<open>Starting the image: it does not return when it jumps to the entry with the stack pointer and vector table given.\<close>

datatype boot = Boot_Failed | Boot_Jump u32 u32 u32

definition chainloader_boot :: "(nat \<Rightarrow> u8) \<Rightarrow> chainloader \<Rightarrow> boot \<times> chainloader" where
  "chainloader_boot mem self =
     (if cl_membuf self = 0 then (Boot_Failed, self)
      else
        let (r, self) = chainloader_find_vector_table mem self
        in if r \<noteq> CHAINLOADER_RET_OK then (Boot_Failed, self)
           else (Boot_Jump (eh_entry (el_header (cl_elf self))) (load32_le (mem_range mem (unat (cl_vector_table self)) 4))
                   (cl_vector_table self), self))"

subsection \<open>Finding an image\<close>

text \<open>The magic number at an address.\<close>

definition elf_at :: "(nat \<Rightarrow> u8) \<Rightarrow> nat \<Rightarrow> bool" where
  "elf_at mem a \<longleftrightarrow> load32_le (rev (mem_range mem a 4)) = TINYELF_ELF_MAGIC"

lemma fst_bind_state: "(\<And>a t. fst (run_state (f a) t) = r) \<Longrightarrow> fst (run_state (State_Monad.bind m f) s) = r"
  by (simp add: split_beta)

lemma parse_fields_ok: "fst (run_state parse_fields s) = TINYELF_RET_OK"
  unfolding parse_fields_def by (intro fst_bind_state) simp

lemma parse_magic:
  "fst (run_state tinyelf_parse (snd (tinyelf_init (tinyelf_read mem buf)))) =
     (if elf_at mem buf then TINYELF_RET_OK else TINYELF_RET_NOELF)"
proof -
  let ?s = "\<lambda>c. \<lparr>el_read = tinyelf_read mem buf, el_header = elf_header_clear\<lparr>eh_data := TINYELF_DATA_BIG\<rparr>, el_cursor = c\<rparr>"
  have "mem_range mem buf 4 = [mem (add32 buf 0), mem (add32 buf 1), mem (add32 buf 2), mem (add32 buf 3)]"
    by (simp add: mem_range_def upt_rec numeral_2_eq_2 numeral_3_eq_3)
  moreover have "add32 0 1 = 1" "add32 1 1 = 2" "add32 2 1 = 3" "add32 3 1 = 4" by (simp_all add: add32_def)
  ultimately have load: "run_state load_uint32 (?s 0) = (load32_le (rev (mem_range mem buf 4)), ?s 4)"
    by (simp add: load_uint32_def load_uint8_def is_big_def tinyelf_read_def del: One_nat_def)
  have "run_state tinyelf_parse (snd (tinyelf_init (tinyelf_read mem buf))) =
      run_state (State_Monad.bind load_uint32 (\<lambda>magic. if magic \<noteq> TINYELF_ELF_MAGIC then State_Monad.return TINYELF_RET_NOELF
        else parse_fields)) (?s 0)"
    by (simp add: tinyelf_parse_def tinyelf_init_def set_header_def seek_def)
  then show ?thesis using parse_fields_ok [of "?s 4"] by (simp add: load elf_at_def)
qed

lemma set_elf_result:
  assumes "chainloader_set_elf mem buf sz self = (r, self')"
  shows "r = (if elf_at mem buf then CHAINLOADER_RET_OK else CHAINLOADER_RET_FAILED)"
    "cl_membuf self' = (if elf_at mem buf then buf else 0)" "cl_memsize self' = (if elf_at mem buf then sz else 0)"
proof -
  obtain x elf where p: "run_state tinyelf_parse (snd (tinyelf_init (tinyelf_read mem buf))) = (x, elf)" by fastforce
  then have "x = (if elf_at mem buf then TINYELF_RET_OK else TINYELF_RET_NOELF)" using parse_magic [of mem buf] by simp
  then show "r = (if elf_at mem buf then CHAINLOADER_RET_OK else CHAINLOADER_RET_FAILED)"
    "cl_membuf self' = (if elf_at mem buf then buf else 0)" "cl_memsize self' = (if elf_at mem buf then sz else 0)"
    using assms p by (auto simp: chainloader_set_elf_def tinyelf_init_def Let_def split: if_splits)
qed

definition scan_result :: "(nat \<Rightarrow> u8) \<Rightarrow> nat \<Rightarrow> nat \<Rightarrow> nat \<Rightarrow> chainloader_ret \<Rightarrow> chainloader \<Rightarrow> bool" where
  "scan_result mem mstart msize mstep r self \<longleftrightarrow>
     (if r = CHAINLOADER_RET_OK then
        \<exists>k. k * mstep < msize \<and> elf_at mem (mstart + k * mstep) \<and> (\<forall>j<k. \<not> elf_at mem (mstart + j * mstep)) \<and>
          cl_membuf self = mstart + k * mstep \<and> cl_memsize self = msize - k * mstep
      else \<forall>k. k * mstep < msize \<longrightarrow> \<not> elf_at mem (mstart + k * mstep))"

lemma find_elf_loop_ok:
  assumes "0 < mstep" "msize + mstep \<le> 2 ^ 32" "mstart + msize < 2 ^ 32"
  shows "k * mstep < msize + mstep \<Longrightarrow> \<forall>j<k. \<not> elf_at mem (mstart + j * mstep) \<Longrightarrow>
    \<exists>r self'. find_elf_loop mem mstart msize mstep (k * mstep) self = Some (r, self') \<and> scan_result mem mstart msize mstep r self'"
proof (induction "msize + mstep - k * mstep" arbitrary: k self rule: less_induct)
  case less
  show ?case
  proof (cases "k * mstep < msize")
    case False
    have "j * mstep < msize \<Longrightarrow> j < k" for j
      using False assms(1) mult_le_mono1 [of k j mstep] by (meson le_less_trans not_less)
    then have "scan_result mem mstart msize mstep CHAINLOADER_RET_FAILED self"
      using less.prems(2) by (auto simp: scan_result_def)
    then show ?thesis using False by (subst find_elf_loop.simps) auto
  next
    case True
    have a: "add32 mstart (k * mstep) = mstart + k * mstep" "sub32 msize (k * mstep) = msize - k * mstep"
      "add32 (k * mstep) mstep = Suc k * mstep"
      using True assms by (simp_all add: add32_small sub32_small)
    obtain r self' where e: "chainloader_set_elf mem (mstart + k * mstep) (msize - k * mstep) self = (r, self')" by fastforce
    note res = set_elf_result [OF e]
    have unfold: "find_elf_loop mem mstart msize mstep (k * mstep) self =
        (if r = CHAINLOADER_RET_OK then Some (CHAINLOADER_RET_OK, self') else find_elf_loop mem mstart msize mstep (Suc k * mstep) self')"
      using True e by (subst find_elf_loop.simps) (simp only: a if_True Let_def prod.case)
    show ?thesis
    proof (cases "elf_at mem (mstart + k * mstep)")
      case here: True
      then have "scan_result mem mstart msize mstep CHAINLOADER_RET_OK self'"
        using res True less.prems(2) by (auto simp: scan_result_def)
      then show ?thesis unfolding unfold using res(1) here by simp
    next
      case no: False
      have "\<forall>j<Suc k. \<not> elf_at mem (mstart + j * mstep)" using no less.prems(2) by (auto simp: less_Suc_eq)
      moreover have "Suc k * mstep < msize + mstep" using True by simp
      moreover have "msize + mstep - Suc k * mstep < msize + mstep - k * mstep" using True assms(1) by simp
      ultimately obtain r' self'' where
        "find_elf_loop mem mstart msize mstep (Suc k * mstep) self' = Some (r', self'') \<and> scan_result mem mstart msize mstep r' self''"
        using less.hyps [of "Suc k" self'] by blast
      then show ?thesis unfolding unfold using res(1) no by simp
    qed
  qed
qed

text \<open>
  The scan for an image ends, and finds the first one: when the step is not zero and the offset cannot
  wrap around, it returns, either with the lowest multiple of the step at which the magic number stands and
  the rest of the region as the size of the image, or with a failure when there is none in the region.
\<close>

theorem find_elf_first:
  assumes "0 < mstep" "msize + mstep \<le> 2 ^ 32" "mstart + msize < 2 ^ 32"
  shows "\<exists>r self'. chainloader_find_elf mem mstart msize mstep self = Some (r, self') \<and>
    (if r = CHAINLOADER_RET_OK then
       \<exists>k. k * mstep < msize \<and> elf_at mem (mstart + k * mstep) \<and> (\<forall>j<k. \<not> elf_at mem (mstart + j * mstep)) \<and>
         cl_membuf self' = mstart + k * mstep \<and> cl_memsize self' = msize - k * mstep
     else \<forall>k. k * mstep < msize \<longrightarrow> \<not> elf_at mem (mstart + k * mstep))"
  using find_elf_loop_ok [OF assms, of 0 mem self] assms(1) unfolding chainloader_find_elf_def scan_result_def by auto

subsection \<open>Checking the signature\<close>

lemma holds_at_mono: "holds_at rd pos bs \<Longrightarrow> (\<And>p b. rd p = Some b \<Longrightarrow> rd' p = Some b) \<Longrightarrow> holds_at rd' pos bs"
  by (auto simp: holds_at_def)

lemma elf_file_mono:
  assumes "elf_file rd h secs names" "\<And>p b. rd p = Some b \<Longrightarrow> rd' p = Some b"
  shows "elf_file rd' h secs names"
  using assms(1) holds_at_mono [of rd _ _ rd', OF _ assms(2)] unfolding elf_file_def by metis

definition elf_size :: "elf_header \<Rightarrow> nat" where
  "elf_size h = unat (eh_shoff h + ucast (eh_shentsize h) * ucast (eh_shnum h))"

lemma mem_range_split: "n \<le> m \<Longrightarrow> mem_range mem a n = take n (mem_range mem a m)"
  by (simp add: mem_range_def take_map)

lemma mem_range_drop:
  assumes "n \<le> m" "a + m < 2 ^ 32"
  shows "mem_range mem (a + n) (m - n) = drop n (mem_range mem a m)"
  by (rule nth_equalityI) (use assms in \<open>auto simp: mem_range_def add32_small add.assoc\<close>)

lemma length_mem_range [simp]: "length (mem_range mem a n) = n"
  by (simp add: mem_range_def)

text \<open>The image as it is hashed: the section of the signature is replaced by 64 zeros.\<close>

definition unsigned_image :: "u8 list \<Rightarrow> nat \<Rightarrow> nat \<Rightarrow> u8 list" where
  "unsigned_image img off sz = take off img @ replicate 64 0 @ drop (off + sz) img"

lemma elf_b2s_ok:
  assumes "el_header (cl_elf self) = h" "cl_membuf self = buf" "off + sz \<le> elf_size h" "buf + elf_size h < 2 ^ 32"
  shows "\<exists>d. chainloader_elf_b2s mem self (buf + off) sz = Some (CHAINLOADER_RET_OK, d) \<and>
    blake2s 32 (unsigned_image (mem_range mem buf (elf_size h)) off sz) None = Some (0, Some d)"
proof -
  obtain S where S: "blake2s_init 32 = Some S" by (simp add: blake2s_init_def BLAKE2S_OUTBYTES_def)
  note ready = blake2s_ready_init [OF S]
  let ?chunks = "[mem_range mem buf off, replicate 32 0, replicate 32 0, mem_range mem (buf + (off + sz)) (elf_size h - (off + sz))]"
  obtain S' d where fin: "blake2s_final (foldl blake2s_update S ?chunks) 32 = Some (0, S', Some d)"
    using blake2s_final_ready [OF blake2s_ready_updates [OF ready]] by blast
  obtain S'' d' where fin': "blake2s_final (blake2s_update S (concat ?chunks)) 32 = Some (0, S'', Some d')"
    using blake2s_final_ready [OF blake2s_ready_update [OF ready]] by blast
  have "d' = d" using blake2s_digest_chunks [of S ?chunks 32] ready fin fin'
    by (simp add: blake2s_ready_def blake2s_digest_def)
  have "concat ?chunks = unsigned_image (mem_range mem buf (elf_size h)) off sz"
    using mem_range_split [of off "elf_size h" mem buf] mem_range_drop [of "off + sz" "elf_size h" buf mem] assms(3,4)
    by (simp add: unsigned_image_def flip: replicate_add)
  then have digest: "blake2s 32 (unsigned_image (mem_range mem buf (elf_size h)) off sz) None = Some (0, Some d)"
    using fin' \<open>d' = d\<close> S by (simp add: blake2s_def BLAKE2S_OUTBYTES_def)
  have sizes: "sub32 (buf + off) buf = off" "add32 (buf + off) sz = buf + (off + sz)"
    "sub32 (sub32 (elf_size h) off) sz = elf_size h - (off + sz)"
    using assms(3,4) by (simp_all add: sub32_small add32_small)
  have "chainloader_elf_b2s mem self (buf + off) sz = Some (CHAINLOADER_RET_OK, d)"
    using fin S unfolding chainloader_elf_b2s_def Let_def assms(1,2) elf_size_def [symmetric] sizes by simp
  then show ?thesis using digest by blast
qed

lemma set_elf_file:
  assumes "elf_file (tinyelf_read mem buf) h secs names"
  shows "chainloader_set_elf mem buf sz self = (CHAINLOADER_RET_OK,
    self\<lparr>cl_membuf := buf, cl_memsize := sz, cl_elf := \<lparr>el_read = tinyelf_read mem buf, el_header = h, el_cursor = 52\<rparr>\<rparr>)"
proof -
  have "run_state tinyelf_parse (snd (tinyelf_init (tinyelf_read mem buf))) =
      (TINYELF_RET_OK, \<lparr>el_read = tinyelf_read mem buf, el_header = h, el_cursor = 52\<rparr>)"
    using elf_file_parse [of "snd (tinyelf_init (tinyelf_read mem buf))" h secs names] assms by (simp add: tinyelf_init_def)
  then show ?thesis by (simp add: chainloader_set_elf_def tinyelf_init_def)
qed

lemma check_signature_file:
  assumes "elf_file (tinyelf_read mem buf) h secs names" "find_index (\<lambda>m. sign_name = m) names = Some k"
    and "off = unat (sh_offset (secs ! k))" "sz = unat (sh_size (secs ! k))" "off + sz \<le> elf_size h" "buf + elf_size h < 2 ^ 32"
  shows "\<exists>self' d. chainloader_check_signature verify mem (snd (chainloader_set_elf mem buf n self)) pubkey =
      Some (if verify (mem_range mem (buf + off) 64) pubkey d then CHAINLOADER_RET_OK else CHAINLOADER_RET_FAILED, self') \<and>
    blake2s 32 (unsigned_image (mem_range mem buf (elf_size h)) off sz) None = Some (0, Some d)"
proof -
  let ?e = "\<lparr>el_read = tinyelf_read mem buf, el_header = h, el_cursor = 52\<rparr>"
  let ?c = "self\<lparr>cl_membuf := buf, cl_memsize := n, cl_elf := ?e\<rparr>"
  obtain c where c: "run_state (tinyelf_section_find_by_name sign_name section_header_clear) ?e =
      ((TINYELF_RET_OK, secs ! k), ?e\<lparr>el_cursor := c\<rparr>)"
    using find_file [of ?e h secs names sign_name section_header_clear] assms(1,2) by auto
  let ?c' = "?c\<lparr>cl_elf := ?e\<lparr>el_cursor := c\<rparr>\<rparr>"
  have sig: "chainloader_find_signature ?c = ((CHAINLOADER_RET_OK, buf + off, sz), ?c')"
    using c assms(3-6) by (simp add: chainloader_find_signature_def add32_small)
  obtain d where d: "chainloader_elf_b2s mem ?c' (buf + off) sz = Some (CHAINLOADER_RET_OK, d)"
    "blake2s 32 (unsigned_image (mem_range mem buf (elf_size h)) off sz) None = Some (0, Some d)"
    using elf_b2s_ok [of ?c' h buf off sz mem] assms(5,6) by auto
  have "chainloader_check_signature verify mem ?c pubkey =
      Some (if verify (mem_range mem (buf + off) 64) pubkey d then CHAINLOADER_RET_OK else CHAINLOADER_RET_FAILED, ?c')"
    using d(1) by (simp add: chainloader_check_signature_def sig)
  then show ?thesis using d(2) unfolding set_elf_file [OF assms(1)] by auto
qed

text \<open>
  Property C36. The signature check decides by the right hash: for a well-formed image it accepts exactly when the
  64 bytes at the start of the section \<open>.sign.ed25519\<close> are a signature, under the given key, of the Blake2s digest of
  the image from its header to the end of the section headers, with the contents of that section
  replaced by 64 zeros.
\<close>

theorem signature_check_exact:
  assumes "elf_file (tinyelf_read mem buf) h secs names" "find_index (\<lambda>m. sign_name = m) names = Some k"
    and "off = unat (sh_offset (secs ! k))" "sz = unat (sh_size (secs ! k))" "off + sz \<le> elf_size h" "buf + elf_size h < 2 ^ 32"
  shows "\<exists>self' d. chainloader_check_signature verify mem (snd (chainloader_set_elf mem buf n self)) pubkey =
      Some (if verify (mem_range mem (buf + off) 64) pubkey d then CHAINLOADER_RET_OK else CHAINLOADER_RET_FAILED, self') \<and>
    blake2s 32 (unsigned_image (mem_range mem buf (elf_size h)) off sz) None = Some (0, Some d)"
  using check_signature_file [OF assms] .

lemma unsigned_image_write:
  assumes "off + 64 \<le> m" "buf + m < 2 ^ 32"
    and "mem' = (\<lambda>a. if buf + off \<le> a \<and> a < buf + off + 64 then sig ! (a - (buf + off)) else mem a)"
  shows "unsigned_image (mem_range mem' buf m) off 64 = unsigned_image (mem_range mem buf m) off 64"
proof -
  have "take off (mem_range mem' buf m) = take off (mem_range mem buf m)"
    by (rule nth_equalityI) (use assms in \<open>auto simp: mem_range_def add32_small\<close>)
  moreover have "drop (off + 64) (mem_range mem' buf m) = drop (off + 64) (mem_range mem buf m)"
    by (rule nth_equalityI) (use assms in \<open>auto simp: mem_range_def add32_small\<close>)
  ultimately show ?thesis by (simp add: unsigned_image_def)
qed

lemma signed_image:
  assumes "elf_file (\<lambda>p. if off \<le> p \<and> p < off + 64 \<or> elf_size h \<le> p then None else tinyelf_read mem buf p) h secs names"
    and "find_index (\<lambda>m. sign_name = m) names = Some k" "off = unat (sh_offset (secs ! k))" "unat (sh_size (secs ! k)) = 64"
    and "off + 64 \<le> elf_size h" "buf + elf_size h < 2 ^ 32"
    and "blake2s 32 (unsigned_image (mem_range mem buf (elf_size h)) off 64) None = Some (0, Some d)"
    and "length sig = 64" "verify sig pubkey d"
    and "mem' = (\<lambda>a. if buf + off \<le> a \<and> a < buf + off + 64 then sig ! (a - (buf + off)) else mem a)"
  shows "\<exists>self'. chainloader_check_signature verify mem' (snd (chainloader_set_elf mem' buf n self)) pubkey =
    Some (CHAINLOADER_RET_OK, self')"
proof -
  have "elf_file (tinyelf_read mem' buf) h secs names"
  proof (rule elf_file_mono [OF assms(1)])
    fix p b
    assume "(if off \<le> p \<and> p < off + 64 \<or> elf_size h \<le> p then None else tinyelf_read mem buf p) = Some b"
    then show "tinyelf_read mem' buf p = Some b"
      using assms(6,10) by (auto simp: tinyelf_read_def add32_small split: if_splits)
  qed
  from check_signature_file [OF this assms(2,3) assms(4) [symmetric] assms(5,6), of verify n self pubkey]
  obtain self' d' where r: "chainloader_check_signature verify mem' (snd (chainloader_set_elf mem' buf n self)) pubkey =
      Some (if verify (mem_range mem' (buf + off) 64) pubkey d' then CHAINLOADER_RET_OK else CHAINLOADER_RET_FAILED, self')"
    and d': "blake2s 32 (unsigned_image (mem_range mem' buf (elf_size h)) off 64) None = Some (0, Some d')" by blast
  have "d' = d" using d' assms(7) unsigned_image_write [OF assms(5,6,10)] by simp
  moreover have "mem_range mem' (buf + off) 64 = sig"
    by (rule nth_equalityI) (use assms(5,6,8,10) in \<open>auto simp: mem_range_def add32_small\<close>)
  ultimately show ?thesis using r assms(9) by simp
qed

text \<open>
  A signed image is accepted: take a well-formed image whose header, section headers and names
  do not use the 64 bytes of its section \<open>.sign.ed25519\<close>, and write into that section a signature of the
  digest of the image with zeros there. The image with the signature in it parses and passes the check.
\<close>

theorem signed_image_accepted:
  assumes "elf_file (\<lambda>p. if off \<le> p \<and> p < off + 64 \<or> elf_size h \<le> p then None else tinyelf_read mem buf p) h secs names"
    and "find_index (\<lambda>m. sign_name = m) names = Some k" "off = unat (sh_offset (secs ! k))" "unat (sh_size (secs ! k)) = 64"
    and "off + 64 \<le> elf_size h" "buf + elf_size h < 2 ^ 32"
    and "blake2s 32 (unsigned_image (mem_range mem buf (elf_size h)) off 64) None = Some (0, Some d)"
    and "length sig = 64" "verify sig pubkey d"
    and "mem' = (\<lambda>a. if buf + off \<le> a \<and> a < buf + off + 64 then sig ! (a - (buf + off)) else mem a)"
  shows "\<exists>self'. chainloader_check_signature verify mem' (snd (chainloader_set_elf mem' buf n self)) pubkey =
    Some (CHAINLOADER_RET_OK, self')"
  using signed_image [where off = off and h = h and mem = mem and buf = buf and secs = secs and names = names and k = k and d = d and sig = sig
    and verify = verify and pubkey = pubkey and mem' = mem', OF assms] .

definition wit_mem :: "nat \<Rightarrow> u8" where
  "wit_mem a = wit_image (replicate 64 7) ! (a - 0x8000)"

lemma wit_elf_size [simp]: "elf_size wit_header = 216"
  by (simp add: elf_size_def)

lemma wit_mem_reader:
  "wit_reader (replicate 64 7) p = (if 52 \<le> p \<and> p < 52 + 64 \<or> 216 \<le> p then None else tinyelf_read wit_mem 0x8000 p)"
  by (auto simp: wit_reader_def tinyelf_read_def wit_mem_def add32_small)

lemma wit_names: "find_index (\<lambda>m. sign_name = m) [str_name, sign_name] = Some 1"
  by (simp add: sign_name_def str_name_def)

lemma signature_check_exact_witness:
  "\<exists>self' d. chainloader_check_signature (\<lambda>s k m. s = m @ m) wit_mem (snd (chainloader_set_elf wit_mem 0x8000 1000 (snd chainloader_init))) [] =
      Some (if mem_range wit_mem (0x8000 + 52) 64 = d @ d then CHAINLOADER_RET_OK else CHAINLOADER_RET_FAILED, self') \<and>
    blake2s 32 (unsigned_image (mem_range wit_mem 0x8000 216) 52 64) None = Some (0, Some d)"
proof -
  have "elf_file (tinyelf_read wit_mem 0x8000) wit_header [wit_strings, wit_sign] [str_name, sign_name]"
    by (rule elf_file_mono [OF wit_file [of "replicate 64 7"]]) (auto simp: wit_mem_reader split: if_splits)
  from signature_check_exact [OF this wit_names, of 52 64 "\<lambda>s k m. s = m @ m" 1000 "snd chainloader_init" "[]"]
  show ?thesis by simp
qed

lemma signed_image_accepted_witness:
  "\<exists>mem' d self'. blake2s 32 (unsigned_image (mem_range wit_mem 0x8000 216) 52 64) None = Some (0, Some d) \<and>
    chainloader_check_signature (\<lambda>s k m. s = m @ m) mem' (snd (chainloader_set_elf mem' 0x8000 1000 (snd chainloader_init))) [] =
    Some (CHAINLOADER_RET_OK, self')"
proof -
  obtain d where d: "blake2s 32 (unsigned_image (mem_range wit_mem 0x8000 216) 52 64) None = Some (0, Some d)" "length d = 32"
    using blake2s_total [of 32 None] by (auto simp: BLAKE2S_OUTBYTES_def)
  have "elf_file (\<lambda>p. if 52 \<le> p \<and> p < 52 + 64 \<or> elf_size wit_header \<le> p then None else tinyelf_read wit_mem 0x8000 p)
      wit_header [wit_strings, wit_sign] [str_name, sign_name]"
    using wit_file [of "replicate 64 7"] unfolding wit_elf_size wit_mem_reader [symmetric] by simp
  from signed_image_accepted [where off = 52 and h = wit_header and mem = wit_mem and buf = "0x8000" and secs = "[wit_strings, wit_sign]"
      and names = "[str_name, sign_name]" and k = 1 and d = d and sig = "d @ d" and verify = "\<lambda>s k m. s = m @ m" and pubkey = "[]"
      and mem' = "\<lambda>a. if 0x8000 + 52 \<le> a \<and> a < 0x8000 + 52 + 64 then (d @ d) ! (a - (0x8000 + 52)) else wit_mem a"
      and n = 1000 and self = "snd chainloader_init", OF this wit_names]
  show ?thesis using d by auto
qed

lemma find_elf_first_witness:
  "\<exists>r self'. chainloader_find_elf (\<lambda>_. 0) 0x8000 1000 4 (snd chainloader_init) = Some (r, self')"
  using find_elf_first [of 4 1000 "0x8000" "\<lambda>_. 0" "snd chainloader_init"] by auto

end
