(* ===== verification/Worn_Log.thy ===== *)
theory Worn_Log
  imports B2s_Siv
begin

text \<open>
  The write-only log on a block device (\<open>services/worn-log-block/worn-log-block.c\<close>): blocks are encrypted and
  authenticated by a synthetic initialisation vector, and the end of the log is found by bisection. The
  device is a function from block numbers to their contents, \<open>None\<close> where reading fails. The result \<open>None\<close> of
  an operation is an access outside of a block, or for the search that it does not end.
\<close>

datatype worn_log_block_ret = WORN_LOG_BLOCK_RET_OK | WORN_LOG_BLOCK_RET_FAILED | WORN_LOG_BLOCK_RET_NO_DATA
  | WORN_LOG_BLOCK_RET_BAD_ARG

definition WORN_SIV_LEN :: nat where "WORN_SIV_LEN = 16"
definition WORN_KEY_LEN :: nat where "WORN_KEY_LEN = 16"

record worn_log_block =
  wl_block_size :: nat
  wl_size :: nat
  wl_access_ke :: "u8 list"
  wl_access_km :: "u8 list"

type_synonym block_storage = "nat \<Rightarrow> u8 list option"

definition worn_keystream :: "u8 list \<Rightarrow> u8 list \<Rightarrow> u8 \<Rightarrow> u8 list" where
  "worn_keystream siv key i =
     (case blake2s_init_key BLAKE2S_OUTBYTES (Some (take WORN_KEY_LEN key)) of
        None \<Rightarrow> replicate BLAKE2S_OUTBYTES 0
      | Some s \<Rightarrow>
          let s = blake2s_update s (take WORN_SIV_LEN siv);
              s = blake2s_update s [0, 0, 0, i]
          in (case blake2s_final s BLAKE2S_OUTBYTES of
                Some (_, _, Some k) \<Rightarrow> k
              | _ \<Rightarrow> replicate BLAKE2S_OUTBYTES 0))"

definition worn_crypt_in_place :: "u8 list \<Rightarrow> u8 list \<Rightarrow> u8 list \<Rightarrow> worn_log_block_ret \<times> u8 list" where
  "worn_crypt_in_place buf siv key =
     (if length buf = 0 then (WORN_LOG_BLOCK_RET_BAD_ARG, buf)
      else (WORN_LOG_BLOCK_RET_OK, ctr_xor (worn_keystream siv key) BLAKE2S_OUTBYTES 0 buf))"

text \<open>\<open>blake2s\<close> into an array of the size of the vector, which keeps its contents if there is no digest.\<close>

definition worn_mac :: "worn_log_block \<Rightarrow> u8 list \<Rightarrow> u8 list \<Rightarrow> u8 list" where
  "worn_mac self old buf =
     (case blake2s WORN_SIV_LEN buf (Some (take WORN_KEY_LEN (wl_access_km self))) of Some (_, Some d) \<Rightarrow> d | _ \<Rightarrow> old)"

text \<open>The block is decrypted in place; the last component is what \<open>buf\<close> and \<open>len\<close> give, the data.\<close>

definition block_decrypt :: "worn_log_block \<Rightarrow> u8 list \<Rightarrow> (worn_log_block_ret \<times> u8 list \<times> u8 list) option" where
  "block_decrypt self block =
     Option.bind (mem_read block 0 WORN_SIV_LEN) (\<lambda>siv.
     Option.bind (mem_read block WORN_SIV_LEN (sub32 (wl_block_size self) WORN_SIV_LEN)) (\<lambda>data.
       let (r, data) = worn_crypt_in_place data siv (wl_access_ke self) in
       if r \<noteq> WORN_LOG_BLOCK_RET_OK then Some (WORN_LOG_BLOCK_RET_FAILED, siv @ data, [])
       else
         let mac_decrypted = worn_mac self (replicate WORN_SIV_LEN 0) data in
         if siv \<noteq> mac_decrypted then Some (WORN_LOG_BLOCK_RET_FAILED, siv @ replicate (length data) 0, [])
         else Some (WORN_LOG_BLOCK_RET_OK, siv @ data, data)))"

definition block_encrypt :: "worn_log_block \<Rightarrow> u8 list \<Rightarrow> u8 list \<Rightarrow> (worn_log_block_ret \<times> u8 list) option" where
  "block_encrypt self block buf =
     Option.bind (mem_read buf 0 (sub32 (wl_block_size self) WORN_SIV_LEN)) (\<lambda>data.
     Option.bind (mem_write block WORN_SIV_LEN data) (\<lambda>block.
     Option.bind (mem_write block 0 (worn_mac self (take WORN_SIV_LEN block) data)) (\<lambda>block.
       let (r, data) = worn_crypt_in_place data (take WORN_SIV_LEN block) (wl_access_ke self) in
       if r \<noteq> WORN_LOG_BLOCK_RET_OK then Some (WORN_LOG_BLOCK_RET_FAILED, block)
       else Option.bind (mem_write block WORN_SIV_LEN data) (\<lambda>block. Some (WORN_LOG_BLOCK_RET_OK, block)))))"

partial_function (option) find_next_loop ::
  "worn_log_block \<Rightarrow> block_storage \<Rightarrow> nat \<Rightarrow> nat \<Rightarrow> (worn_log_block_ret \<times> nat option) option" where
  "find_next_loop self storage scope scope_size =
     (let check_block = add32 scope (scope_size div 2) in
      case storage check_block of
        None \<Rightarrow> Some (WORN_LOG_BLOCK_RET_FAILED, None)
      | Some buf \<Rightarrow>
          Option.bind (block_decrypt self buf) (\<lambda>(r, _, _).
            let (scope, scope_size) =
                  (if r = WORN_LOG_BLOCK_RET_OK
                   then (add32 check_block 1, sub32 (add32 (sub32 scope check_block) scope_size) 1)
                   else (scope, sub32 check_block scope))
            in if scope_size = 0 then Some (WORN_LOG_BLOCK_RET_OK, Some scope)
               else find_next_loop self storage scope scope_size))"

definition worn_log_block_find_next :: "worn_log_block \<Rightarrow> block_storage \<Rightarrow> (worn_log_block_ret \<times> nat option) option" where
  "worn_log_block_find_next self storage = find_next_loop self storage 0 (wl_size self)"

text \<open>
  \<open>firmware\<close> is the memory at the address the code takes the data from. Neither result is looked at,
  and the buffer has 512 bytes.
\<close>

definition worn_log_block_append :: "u8 list \<Rightarrow> worn_log_block \<Rightarrow> block_storage \<Rightarrow> block_storage option" where
  "worn_log_block_append firmware self storage =
     Option.bind (worn_log_block_find_next self storage) (\<lambda>(_, next).
       let current_block = (case next of None \<Rightarrow> 0 | Some b \<Rightarrow> b) in
       Option.bind (block_encrypt self (replicate 512 0) firmware) (\<lambda>(_, buf).
       Option.bind (mem_read buf 0 (wl_block_size self)) (\<lambda>block.
         Some (storage(current_block := Some block)))))"

definition worn_log_block_init :: "nat \<Rightarrow> nat \<Rightarrow> worn_log_block_ret \<times> worn_log_block" where
  "worn_log_block_init st_block_size st_size =
     (WORN_LOG_BLOCK_RET_OK,
      \<lparr>wl_block_size = st_block_size, wl_size = st_size, wl_access_ke = (replicate WORN_KEY_LEN 0)[0 := 1],
       wl_access_km = replicate WORN_KEY_LEN 0\<rparr>)"

subsection \<open>Encryption\<close>

lemma length_worn_keystream [simp]: "length (worn_keystream siv key i) = BLAKE2S_OUTBYTES"
proof (cases "blake2s_init_key BLAKE2S_OUTBYTES (Some (take WORN_KEY_LEN key))")
  case (Some s)
  let ?s = "blake2s_update (blake2s_update s (take WORN_SIV_LEN siv)) [0, 0, 0, i]"
  have "blake2s_ready ?s BLAKE2S_OUTBYTES"
    using blake2s_ready_init_key [OF Some] by (intro blake2s_ready_update)
  from blake2s_final_ready [OF this] show ?thesis using Some by (auto simp: worn_keystream_def)
qed (simp add: worn_keystream_def)

interpretation worn_ctr: keystream "worn_keystream siv key" BLAKE2S_OUTBYTES for siv key
  by unfold_locales (simp_all add: BLAKE2S_OUTBYTES_def)

lemma length_worn_mac [simp]: "length (worn_mac self old buf) = WORN_SIV_LEN"
proof -
  have "\<exists>d. blake2s WORN_SIV_LEN buf (Some (take WORN_KEY_LEN (wl_access_km self))) = Some (0, Some d) \<and> length d = WORN_SIV_LEN"
    by (rule blake2s_total) (simp_all add: WORN_SIV_LEN_def WORN_KEY_LEN_def BLAKE2S_OUTBYTES_def BLAKE2S_KEYBYTES_def)
  then show ?thesis by (auto simp: worn_mac_def)
qed

lemma worn_mac_old: "worn_mac self old buf = worn_mac self old' buf"
proof -
  have "\<exists>d. blake2s WORN_SIV_LEN buf (Some (take WORN_KEY_LEN (wl_access_km self))) = Some (0, Some d) \<and> length d = WORN_SIV_LEN"
    by (rule blake2s_total) (simp_all add: WORN_SIV_LEN_def WORN_KEY_LEN_def BLAKE2S_OUTBYTES_def BLAKE2S_KEYBYTES_def)
  then show ?thesis by (auto simp: worn_mac_def)
qed

text \<open>The block that holds given data.\<close>

definition worn_block :: "worn_log_block \<Rightarrow> u8 list \<Rightarrow> u8 list" where
  "worn_block self data =
     (let siv = worn_mac self [] data in siv @ ctr_xor (worn_keystream siv (wl_access_ke self)) BLAKE2S_OUTBYTES 0 data)"

definition worn_ok :: "worn_log_block \<Rightarrow> bool" where
  "worn_ok self \<longleftrightarrow> WORN_SIV_LEN < wl_block_size self \<and> wl_block_size self < 2 ^ 32"

lemma worn_data_len: "worn_ok self \<Longrightarrow> sub32 (wl_block_size self) WORN_SIV_LEN = wl_block_size self - WORN_SIV_LEN"
  by (simp add: worn_ok_def sub32_small)

lemma decrypt_block:
  assumes "worn_ok self" "length block = wl_block_size self"
  shows "\<exists>block'. block_decrypt self block =
    (let data = ctr_xor (worn_keystream (take WORN_SIV_LEN block) (wl_access_ke self)) BLAKE2S_OUTBYTES 0 (drop WORN_SIV_LEN block) in
     if block = worn_block self data then Some (WORN_LOG_BLOCK_RET_OK, block', data) else Some (WORN_LOG_BLOCK_RET_FAILED, block', []))"
proof -
  let ?siv = "take WORN_SIV_LEN block" and ?enc = "drop WORN_SIV_LEN block"
  let ?data = "ctr_xor (worn_keystream ?siv (wl_access_ke self)) BLAKE2S_OUTBYTES 0 ?enc"
  have l: "WORN_SIV_LEN < length block" using assms by (simp add: worn_ok_def)
  have r: "mem_read block 0 WORN_SIV_LEN = Some ?siv"
    "mem_read block WORN_SIV_LEN (sub32 (wl_block_size self) WORN_SIV_LEN) = Some ?enc"
    using l assms worn_data_len [OF assms(1)] by (simp_all add: mem_read_def)
  have "block = worn_block self ?data \<longleftrightarrow> ?siv = worn_mac self [] ?data"
  proof
    assume "block = worn_block self ?data"
    then have "?siv = take WORN_SIV_LEN (worn_block self ?data)" by simp
    then show "?siv = worn_mac self [] ?data" by (simp add: worn_block_def Let_def)
  next
    assume s: "?siv = worn_mac self [] ?data"
    have "worn_block self ?data = ?siv @ ?enc"
      unfolding worn_block_def Let_def s [symmetric] by (simp add: worn_ctr.ctr_xor_involution)
    then show "block = worn_block self ?data" by simp
  qed
  then show ?thesis using r l worn_mac_old [of self "replicate WORN_SIV_LEN 0" ?data "[]"]
    by (simp add: block_decrypt_def worn_crypt_in_place_def Let_def)
qed

lemma encrypt_block:
  assumes "worn_ok self" "wl_block_size self \<le> length block" "wl_block_size self - WORN_SIV_LEN \<le> length buf"
  shows "block_encrypt self block buf = Some (WORN_LOG_BLOCK_RET_OK,
    worn_block self (take (wl_block_size self - WORN_SIV_LEN) buf) @ drop (wl_block_size self) block)"
proof -
  let ?n = "wl_block_size self - WORN_SIV_LEN"
  define data where "data = take ?n buf"
  have n: "0 < ?n" "WORN_SIV_LEN + ?n = wl_block_size self" using assms(1) by (simp_all add: worn_ok_def)
  have l: "length data = ?n" using assms(3) by (simp add: data_def)
  then have ne: "length data \<noteq> 0" using n by simp
  define siv where "siv = worn_mac self [] data"
  have ls: "length siv = WORN_SIV_LEN" by (simp add: siv_def)
  define tl' where "tl' = drop (wl_block_size self) block"
  define enc where "enc = ctr_xor (worn_keystream siv (wl_access_ke self)) BLAKE2S_OUTBYTES 0 data"
  have le: "length enc = ?n" by (simp add: enc_def l)
  have r: "mem_read buf 0 (sub32 (wl_block_size self) WORN_SIV_LEN) = Some data"
    using assms(3) worn_data_len [OF assms(1)] by (simp add: mem_read_def data_def)
  have w1: "mem_write block WORN_SIV_LEN data = Some (take WORN_SIV_LEN block @ data @ tl')"
    using assms(2) n l by (simp add: mem_write_def tl'_def)
  have t: "length (take WORN_SIV_LEN block) = WORN_SIV_LEN" using assms(2) n by simp
  have w2: "mem_write (take WORN_SIV_LEN block @ data @ tl') 0 siv = Some (siv @ data @ tl')"
    using ls t by (simp add: mem_write_def)
  have w3: "mem_write (siv @ data @ tl') WORN_SIV_LEN enc = Some (siv @ enc @ tl')"
    using ls le l by (simp add: mem_write_def)
  have mac: "worn_mac self x data = siv" for x unfolding siv_def by (rule worn_mac_old)
  have "block_encrypt self block buf = Some (WORN_LOG_BLOCK_RET_OK, siv @ enc @ tl')"
    using w3 ls ne by (simp add: block_encrypt_def worn_crypt_in_place_def r w1 w2 mac enc_def)
  then show ?thesis by (simp add: worn_block_def Let_def enc_def siv_def data_def tl'_def)
qed

text \<open>
  The blocks of the log are encrypted and authenticated: encrypting data and decrypting the block gives
  the data back, and decryption accepts a block only if it is the encryption of the data it
  returns, for every key and block size above the length of the vector.
\<close>

theorem worn_block_roundtrip:
  assumes "worn_ok self" "length block = wl_block_size self" "length data = wl_block_size self - WORN_SIV_LEN"
  shows "(\<exists>block'. block_decrypt self block = Some (WORN_LOG_BLOCK_RET_OK, block', data)) \<longleftrightarrow>
    (\<exists>old. length old = wl_block_size self \<and> block_encrypt self old data = Some (WORN_LOG_BLOCK_RET_OK, block))"
proof -
  have enc: "block_encrypt self old data = Some (WORN_LOG_BLOCK_RET_OK, worn_block self data)"
    if "length old = wl_block_size self" for old
    using encrypt_block [OF assms(1), of old data] that assms(3) by simp
  have lb: "take WORN_SIV_LEN (worn_block self data) = worn_mac self [] data"
    "drop WORN_SIV_LEN (worn_block self data) = ctr_xor (worn_keystream (worn_mac self [] data) (wl_access_ke self)) BLAKE2S_OUTBYTES 0 data"
    by (simp_all add: worn_block_def Let_def)
  obtain block' where dec: "block_decrypt self block =
    (let data = ctr_xor (worn_keystream (take WORN_SIV_LEN block) (wl_access_ke self)) BLAKE2S_OUTBYTES 0 (drop WORN_SIV_LEN block) in
     if block = worn_block self data then Some (WORN_LOG_BLOCK_RET_OK, block', data) else Some (WORN_LOG_BLOCK_RET_FAILED, block', []))"
    using decrypt_block [OF assms(1,2)] by blast
  have "(\<exists>block'. block_decrypt self block = Some (WORN_LOG_BLOCK_RET_OK, block', data)) \<longleftrightarrow> block = worn_block self data"
  proof
    assume "\<exists>block'. block_decrypt self block = Some (WORN_LOG_BLOCK_RET_OK, block', data)"
    then show "block = worn_block self data" unfolding dec Let_def by (auto split: if_splits)
  next
    assume b: "block = worn_block self data"
    have "ctr_xor (worn_keystream (take WORN_SIV_LEN block) (wl_access_ke self)) BLAKE2S_OUTBYTES 0 (drop WORN_SIV_LEN block) = data"
      unfolding b lb by (rule worn_ctr.ctr_xor_involution)
    then show "\<exists>block'. block_decrypt self block = Some (WORN_LOG_BLOCK_RET_OK, block', data)" unfolding dec Let_def using b by simp
  qed
  also have "\<dots> \<longleftrightarrow> (\<exists>old. length old = wl_block_size self \<and> block_encrypt self old data = Some (WORN_LOG_BLOCK_RET_OK, block))"
    using enc assms(2) by auto
  finally show ?thesis .
qed

definition wit_worn :: worn_log_block where
  "wit_worn = snd (worn_log_block_init 32 2)"

lemma wit_worn_ok: "worn_ok wit_worn" "wl_block_size wit_worn = 32" "wl_size wit_worn = 2"
  by (simp_all add: wit_worn_def worn_log_block_init_def worn_ok_def WORN_SIV_LEN_def)

lemma worn_block_roundtrip_witness:
  "\<exists>block block'. block_encrypt wit_worn (replicate 32 0) (replicate 16 5) = Some (WORN_LOG_BLOCK_RET_OK, block) \<and>
     block_decrypt wit_worn block = Some (WORN_LOG_BLOCK_RET_OK, block', replicate 16 5)"
proof -
  let ?block = "worn_block wit_worn (replicate 16 5)"
  have e: "block_encrypt wit_worn (replicate 32 0) (replicate 16 5) = Some (WORN_LOG_BLOCK_RET_OK, ?block)"
    using encrypt_block [OF wit_worn_ok(1), of "replicate 32 0" "replicate 16 5"] wit_worn_ok(2) by (simp add: WORN_SIV_LEN_def)
  have l: "length ?block = wl_block_size wit_worn" "length (replicate 16 (5::u8)) = wl_block_size wit_worn - WORN_SIV_LEN"
    by (simp_all add: worn_block_def Let_def wit_worn_ok WORN_SIV_LEN_def)
  have "length (replicate 32 (0::u8)) = wl_block_size wit_worn" by (simp add: wit_worn_ok)
  then show ?thesis using e worn_block_roundtrip [OF wit_worn_ok(1) l] by blast
qed

subsection \<open>The end of the log\<close>

definition valid_block :: "worn_log_block \<Rightarrow> u8 list \<Rightarrow> bool" where
  "valid_block self block \<longleftrightarrow> (\<exists>data. length data = wl_block_size self - WORN_SIV_LEN \<and> block = worn_block self data)"

text \<open>A device whose first \<open>n\<close> blocks are valid and no others.\<close>

definition worn_storage :: "worn_log_block \<Rightarrow> block_storage \<Rightarrow> nat \<Rightarrow> bool" where
  "worn_storage self storage n \<longleftrightarrow> n \<le> wl_size self \<and>
     (\<forall>b<wl_size self. \<exists>block. storage b = Some block \<and> length block = wl_block_size self \<and> (valid_block self block \<longleftrightarrow> b < n))"

lemma decrypt_valid:
  assumes "worn_ok self" "length block = wl_block_size self"
  shows "\<exists>r x. block_decrypt self block = Some (r, x) \<and> (r = WORN_LOG_BLOCK_RET_OK \<longleftrightarrow> valid_block self block)"
proof -
  let ?data = "ctr_xor (worn_keystream (take WORN_SIV_LEN block) (wl_access_ke self)) BLAKE2S_OUTBYTES 0 (drop WORN_SIV_LEN block)"
  obtain block' where dec: "block_decrypt self block = (if block = worn_block self ?data then Some (WORN_LOG_BLOCK_RET_OK, block', ?data)
      else Some (WORN_LOG_BLOCK_RET_FAILED, block', []))"
    using decrypt_block [OF assms] unfolding Let_def by blast
  have "valid_block self block \<longleftrightarrow> block = worn_block self ?data"
  proof
    assume "valid_block self block"
    then obtain data where b: "block = worn_block self data" by (auto simp: valid_block_def)
    have "?data = data" unfolding b worn_block_def Let_def by (simp add: worn_ctr.ctr_xor_involution)
    then show "block = worn_block self ?data" using b by simp
  next
    assume "block = worn_block self ?data"
    moreover have "length ?data = wl_block_size self - WORN_SIV_LEN" using assms(2) by simp
    ultimately show "valid_block self block" unfolding valid_block_def by metis
  qed
  then show ?thesis using dec by auto
qed

lemma upper_half: "0 < sz \<Longrightarrow> scope + sz < 2 ^ 32 \<Longrightarrow>
   sub32 (add32 (sub32 scope (scope + sz div 2)) sz) 1 = sz - sz div 2 - 1"
proof -
  assume a: "0 < sz" "scope + sz < 2 ^ 32"
  have "sub32 scope (scope + sz div 2) = (if sz div 2 = 0 then 0 else 2 ^ 32 - sz div 2)"
  proof (cases "sz div 2 = 0")
    case False
    have "(int scope - int (scope + sz div 2)) mod 2 ^ 32 = (2 ^ 32 - int (sz div 2)) mod 2 ^ 32" by simp
    also have "\<dots> = 2 ^ 32 - int (sz div 2)" using False a by (intro mod_pos_pos_trivial) auto
    finally show ?thesis using False a unfolding sub32_def by (simp add: nat_diff_distrib)
  qed (simp add: sub32_def)
  moreover have "add32 (2 ^ 32 - sz div 2) sz = sz - sz div 2" if "sz div 2 \<noteq> 0"
  proof -
    have "2 ^ 32 - sz div 2 + sz = (sz - sz div 2) + 2 ^ 32" using a by simp
    then have "(2 ^ 32 - sz div 2 + sz) mod 2 ^ 32 = (sz - sz div 2) mod 2 ^ 32" by (metis mod_add_self2)
    then show ?thesis using a unfolding add32_def by simp
  qed
  moreover have "sub32 (sz - sz div 2) 1 = sz - sz div 2 - 1" using a by (intro sub32_small) auto
  ultimately show ?thesis using a by (cases "sz div 2 = 0") (auto simp: add32_small sub32_small)
qed

lemma find_next_loop_ok:
  assumes "worn_ok self" "worn_storage self storage n" "wl_size self < 2 ^ 32"
  shows "0 < sz \<Longrightarrow> scope \<le> n \<Longrightarrow> n \<le> scope + sz \<Longrightarrow> scope + sz \<le> wl_size self \<Longrightarrow>
    find_next_loop self storage scope sz = Some (WORN_LOG_BLOCK_RET_OK, Some n)"
proof (induction sz arbitrary: scope rule: less_induct)
  case (less sz)
  let ?c = "scope + sz div 2"
  have c: "?c < wl_size self" "add32 scope (sz div 2) = ?c" "add32 ?c 1 = ?c + 1"
    using less.prems assms(3) by (simp_all add: add32_small)
  obtain block where b: "storage ?c = Some block" "length block = wl_block_size self" "valid_block self block \<longleftrightarrow> ?c < n"
    using assms(2) c(1) unfolding worn_storage_def by blast
  obtain r x where r: "block_decrypt self block = Some (r, x)" "r = WORN_LOG_BLOCK_RET_OK \<longleftrightarrow> ?c < n"
    using decrypt_valid [OF assms(1) b(2)] b(3) by auto
  obtain y z where x: "x = (y, z)" by (cases x)
  show ?case
  proof (cases "?c < n")
    case True
    have u: "sub32 (add32 (sub32 scope ?c) sz) 1 = sz - sz div 2 - 1" using less.prems assms(3) by (intro upper_half) auto
    have step: "find_next_loop self storage scope sz =
        (if sz - sz div 2 - 1 = 0 then Some (WORN_LOG_BLOCK_RET_OK, Some (?c + 1)) else find_next_loop self storage (?c + 1) (sz - sz div 2 - 1))"
      using b(1) r x True u by (subst find_next_loop.simps) (simp add: c(2,3) Let_def del: One_nat_def)
    have bounds: "?c + 1 \<le> n" "n \<le> ?c + 1 + (sz - sz div 2 - 1)" "?c + 1 + (sz - sz div 2 - 1) \<le> wl_size self"
      using True less.prems by linarith+
    show ?thesis
    proof (cases "sz - sz div 2 - 1 = 0")
      case True
      then show ?thesis using bounds step by simp
    next
      case False
      have "sz - sz div 2 - 1 < sz" using less.prems(1) by simp
      from less.IH [OF this _ bounds] False show ?thesis using step by simp
    qed
  next
    case False
    have u: "sub32 ?c scope = sz div 2" using less.prems assms(3) by (simp add: sub32_small)
    have step: "find_next_loop self storage scope sz =
        (if sz div 2 = 0 then Some (WORN_LOG_BLOCK_RET_OK, Some scope) else find_next_loop self storage scope (sz div 2))"
      using b(1) r x False u by (subst find_next_loop.simps) (simp add: c(2) Let_def)
    show ?thesis
    proof (cases "sz div 2 = 0")
      case True
      then show ?thesis using step less.prems \<open>\<not> ?c < n\<close> by simp
    next
      case nz: False
      have "sz div 2 < sz" using less.prems(1) by simp
      from less.IH [OF this, of scope] nz less.prems False show ?thesis using step by simp
    qed
  qed
qed

lemma find_next_ok:
  assumes "worn_ok self" "worn_storage self storage n" "0 < wl_size self" "wl_size self < 2 ^ 32"
  shows "worn_log_block_find_next self storage = Some (WORN_LOG_BLOCK_RET_OK, Some n)"
  unfolding worn_log_block_find_next_def
  by (rule find_next_loop_ok [OF assms(1,2,4,3)]) (use assms(2) in \<open>auto simp: worn_storage_def\<close>)

lemma append_storage:
  assumes "worn_ok self" "worn_storage self storage n" "n < wl_size self" "wl_size self < 2 ^ 32"
    and "wl_block_size self \<le> 512" "wl_block_size self - WORN_SIV_LEN \<le> length firmware"
  shows "\<exists>storage'. worn_log_block_append firmware self storage = Some storage' \<and> worn_storage self storage' (Suc n) \<and>
    storage' n = Some (worn_block self (take (wl_block_size self - WORN_SIV_LEN) firmware)) \<and> (\<forall>b. b \<noteq> n \<longrightarrow> storage' b = storage b)"
proof -
  let ?d = "take (wl_block_size self - WORN_SIV_LEN) firmware"
  have d: "length ?d = wl_block_size self - WORN_SIV_LEN" using assms(6) by simp
  have lb: "length (worn_block self ?d) = wl_block_size self" using d assms(1) by (simp add: worn_block_def Let_def worn_ok_def)
  have "block_encrypt self (replicate 512 0) firmware = Some (WORN_LOG_BLOCK_RET_OK, worn_block self ?d @ drop (wl_block_size self) (replicate 512 0))"
    using assms(5,6) by (intro encrypt_block [OF assms(1)]) simp_all
  moreover have "mem_read (worn_block self ?d @ drop (wl_block_size self) (replicate 512 0)) 0 (wl_block_size self) = Some (worn_block self ?d)"
    using lb by (simp add: mem_read_def)
  ultimately have app: "worn_log_block_append firmware self storage = Some (storage(n := Some (worn_block self ?d)))"
    using find_next_ok [OF assms(1,2) _ assms(4)] assms(3) by (simp add: worn_log_block_append_def)
  have "valid_block self (worn_block self ?d)" unfolding valid_block_def using d by blast
  then have "worn_storage self (storage(n := Some (worn_block self ?d))) (Suc n)"
    using assms(2,3) lb unfolding worn_storage_def by (auto simp: less_Suc_eq)
  then show ?thesis using app by simp
qed

text \<open>
  Property C29. The log grows one block at a time: on every readable device of blocks of 17 to 512 bytes whose
  valid blocks come first and that has a block left, bisection ends and finds the number of valid blocks, with unsigned
  arithmetic that wraps around in between, and appending writes the next
  block, leaves every other block alone, and moves the end that is found next time by one.
\<close>

theorem worn_log_appends:
  assumes "worn_ok self" "worn_storage self storage n" "n < wl_size self" "wl_size self < 2 ^ 32"
    and "wl_block_size self \<le> 512" "wl_block_size self - WORN_SIV_LEN \<le> length firmware"
  shows "worn_log_block_find_next self storage = Some (WORN_LOG_BLOCK_RET_OK, Some n) \<and>
    (\<exists>storage'. worn_log_block_append firmware self storage = Some storage' \<and>
       worn_log_block_find_next self storage' = Some (WORN_LOG_BLOCK_RET_OK, Some (Suc n)) \<and> (\<forall>b. b \<noteq> n \<longrightarrow> storage' b = storage b))"
proof -
  obtain storage' where s: "worn_log_block_append firmware self storage = Some storage'" "worn_storage self storage' (Suc n)"
    "\<forall>b. b \<noteq> n \<longrightarrow> storage' b = storage b"
    using append_storage [OF assms] by blast
  have "0 < wl_size self" using assms(3) by simp
  then show ?thesis using find_next_ok [OF assms(1,2) _ assms(4)] find_next_ok [OF assms(1) s(2) _ assms(4)] s(1,3) by blast
qed

text \<open>Not every block is valid, as there are more blocks than data.\<close>

lemma invalid_block:
  assumes "worn_ok self"
  shows "\<exists>block. length block = wl_block_size self \<and> \<not> valid_block self block"
proof (rule ccontr)
  assume "\<not> ?thesis"
  then have "{b :: u8 list. set b \<subseteq> UNIV \<and> length b = wl_block_size self} \<subseteq>
      worn_block self ` {d. set d \<subseteq> UNIV \<and> length d = wl_block_size self - WORN_SIV_LEN}"
    by (auto simp: valid_block_def)
  moreover have fin: "finite {d :: u8 list. set d \<subseteq> UNIV \<and> length d = n}" for n by (rule finite_lists_length_eq) simp
  ultimately have "card {b :: u8 list. set b \<subseteq> UNIV \<and> length b = wl_block_size self} \<le>
      card {d :: u8 list. set d \<subseteq> UNIV \<and> length d = wl_block_size self - WORN_SIV_LEN}"
    by (meson card_image_le card_mono finite_imageI le_trans)
  then have "card (UNIV :: u8 set) ^ wl_block_size self \<le> card (UNIV :: u8 set) ^ (wl_block_size self - WORN_SIV_LEN)"
    by (simp only: card_lists_length_eq [OF finite])
  then have "wl_block_size self \<le> wl_block_size self - WORN_SIV_LEN"
    by (rule power_le_imp_le_exp [rotated]) (simp add: card_word)
  moreover have "16 < wl_block_size self" using assms by (simp add: worn_ok_def WORN_SIV_LEN_def)
  ultimately show False unfolding WORN_SIV_LEN_def by linarith
qed

lemma worn_log_appends_witness:
  "\<exists>storage storage'. worn_log_block_find_next wit_worn storage = Some (WORN_LOG_BLOCK_RET_OK, Some 1) \<and>
     worn_log_block_append (replicate 512 9) wit_worn storage = Some storage' \<and>
     worn_log_block_find_next wit_worn storage' = Some (WORN_LOG_BLOCK_RET_OK, Some 2)"
proof -
  obtain bad where bad: "length bad = wl_block_size wit_worn" "\<not> valid_block wit_worn bad"
    using invalid_block [OF wit_worn_ok(1)] by blast
  define good where "good = worn_block wit_worn (replicate 16 5)"
  have "length (replicate 16 (5 :: u8)) = wl_block_size wit_worn - WORN_SIV_LEN" by (simp add: wit_worn_ok WORN_SIV_LEN_def)
  then have good: "length good = wl_block_size wit_worn" "valid_block wit_worn good"
    unfolding valid_block_def good_def by (simp add: worn_block_def Let_def wit_worn_ok WORN_SIV_LEN_def, blast)
  let ?storage = "\<lambda>b :: nat. Some (if b = 0 then good else bad)"
  have "worn_storage wit_worn ?storage 1" using good bad by (auto simp: worn_storage_def wit_worn_ok)
  moreover have "1 < wl_size wit_worn" "wl_size wit_worn < 2 ^ 32" "wl_block_size wit_worn \<le> 512"
    "wl_block_size wit_worn - WORN_SIV_LEN \<le> length (replicate 512 (9 :: u8))" by (simp_all add: wit_worn_ok)
  ultimately have "worn_log_block_find_next wit_worn ?storage = Some (WORN_LOG_BLOCK_RET_OK, Some 1) \<and>
    (\<exists>storage'. worn_log_block_append (replicate 512 9) wit_worn ?storage = Some storage' \<and>
       worn_log_block_find_next wit_worn storage' = Some (WORN_LOG_BLOCK_RET_OK, Some (Suc 1)) \<and> (\<forall>b. b \<noteq> 1 \<longrightarrow> storage' b = ?storage b))"
    by (rule worn_log_appends [OF wit_worn_ok(1)])
  moreover have "Suc 1 = 2" by simp
  ultimately show ?thesis by metis
qed

end
