(* ===== verification/Plocator.thy ===== *)
theory Plocator
  imports Prelude
begin

text \<open>
  The service locator: its interface (\<open>services/interfaces/servicelocator.c\<close>), a table of operations any of which may
  be missing, and the implementation by a linked list with the newest item first
  (\<open>services/plocator/plocator.c\<close>). Interfaces are numbers, the addresses of their structures.
\<close>

datatype iservicelocator_ret = ISERVICELOCATOR_RET_OK | ISERVICELOCATOR_RET_FAILED | ISERVICELOCATOR_RET_NOT_IMPLEMENTED

datatype plocator_ret = PLOCATOR_RET_OK | PLOCATOR_RET_FAILED

record plocator_item =
  it_interface :: nat
  it_name :: string
  it_type :: nat

text \<open>Operations on a context; a query returns its result and, where it succeeds, what it found.\<close>

record 'c iservicelocator_vmt =
  vm_set_name :: "(nat \<Rightarrow> string \<Rightarrow> 'c \<Rightarrow> iservicelocator_ret \<times> 'c) option"
  vm_add :: "(nat \<Rightarrow> nat \<Rightarrow> string \<Rightarrow> 'c \<Rightarrow> iservicelocator_ret \<times> 'c) option"
  vm_query_name :: "(string \<Rightarrow> 'c \<Rightarrow> iservicelocator_ret \<times> nat option) option"
  vm_query_type_id :: "(nat \<Rightarrow> nat \<Rightarrow> 'c \<Rightarrow> iservicelocator_ret \<times> nat option) option"
  vm_query_type_next :: "(nat \<Rightarrow> nat \<Rightarrow> 'c \<Rightarrow> iservicelocator_ret \<times> nat option) option"
  vm_query_name_type :: "(string \<Rightarrow> nat \<Rightarrow> 'c \<Rightarrow> iservicelocator_ret \<times> nat option) option"
  vm_get_name :: "(nat \<Rightarrow> 'c \<Rightarrow> iservicelocator_ret \<times> string option) option"

definition iservicelocator_init :: "iservicelocator_ret \<times> 'c iservicelocator_vmt" where
  "iservicelocator_init = (ISERVICELOCATOR_RET_OK, \<lparr>vm_set_name = None, vm_add = None, vm_query_name = None,
     vm_query_type_id = None, vm_query_type_next = None, vm_query_name_type = None, vm_get_name = None\<rparr>)"

definition iservicelocator_set_name :: "'c iservicelocator_vmt \<Rightarrow> nat \<Rightarrow> string \<Rightarrow> 'c \<Rightarrow> iservicelocator_ret \<times> 'c" where
  "iservicelocator_set_name vmt iface name c =
     (case vm_set_name vmt of Some g \<Rightarrow> g iface name c | None \<Rightarrow> (ISERVICELOCATOR_RET_FAILED, c))"

definition iservicelocator_add :: "'c iservicelocator_vmt \<Rightarrow> nat \<Rightarrow> nat \<Rightarrow> string \<Rightarrow> 'c \<Rightarrow> iservicelocator_ret \<times> 'c" where
  "iservicelocator_add vmt type iface name c =
     (case vm_add vmt of Some g \<Rightarrow> g type iface name c | None \<Rightarrow> (ISERVICELOCATOR_RET_FAILED, c))"

definition iservicelocator_query_name :: "'c iservicelocator_vmt \<Rightarrow> string \<Rightarrow> 'c \<Rightarrow> iservicelocator_ret \<times> nat option" where
  "iservicelocator_query_name vmt name c =
     (case vm_query_name vmt of Some g \<Rightarrow> g name c | None \<Rightarrow> (ISERVICELOCATOR_RET_FAILED, None))"

definition iservicelocator_query_type_id :: "'c iservicelocator_vmt \<Rightarrow> nat \<Rightarrow> nat \<Rightarrow> 'c \<Rightarrow> iservicelocator_ret \<times> nat option" where
  "iservicelocator_query_type_id vmt type index c =
     (case vm_query_type_id vmt of Some g \<Rightarrow> g type index c | None \<Rightarrow> (ISERVICELOCATOR_RET_FAILED, None))"

definition iservicelocator_query_type_next :: "'c iservicelocator_vmt \<Rightarrow> nat \<Rightarrow> nat \<Rightarrow> 'c \<Rightarrow> iservicelocator_ret \<times> nat option" where
  "iservicelocator_query_type_next vmt type start c =
     (case vm_query_type_next vmt of Some g \<Rightarrow> g type start c | None \<Rightarrow> (ISERVICELOCATOR_RET_FAILED, None))"

definition iservicelocator_query_name_type :: "'c iservicelocator_vmt \<Rightarrow> string \<Rightarrow> nat \<Rightarrow> 'c \<Rightarrow> iservicelocator_ret \<times> nat option" where
  "iservicelocator_query_name_type vmt name type c =
     (case vm_query_name_type vmt of Some g \<Rightarrow> g name type c | None \<Rightarrow> (ISERVICELOCATOR_RET_FAILED, None))"

definition iservicelocator_get_name :: "'c iservicelocator_vmt \<Rightarrow> nat \<Rightarrow> 'c \<Rightarrow> iservicelocator_ret \<times> string option" where
  "iservicelocator_get_name vmt iface c =
     (case vm_get_name vmt of Some g \<Rightarrow> g iface c | None \<Rightarrow> (ISERVICELOCATOR_RET_FAILED, None))"

text \<open>\<open>mem\<close> tells whether memory for the item can be allocated.\<close>

definition plocator_add :: "bool \<Rightarrow> nat \<Rightarrow> nat \<Rightarrow> string \<Rightarrow> plocator_item list \<Rightarrow> iservicelocator_ret \<times> plocator_item list" where
  "plocator_add mem type iface name self =
     (if \<not> mem then (ISERVICELOCATOR_RET_FAILED, self)
      else (ISERVICELOCATOR_RET_OK, \<lparr>it_interface = iface, it_name = name, it_type = type\<rparr> # self))"

fun plocator_query_name :: "string \<Rightarrow> plocator_item list \<Rightarrow> iservicelocator_ret \<times> nat option" where
  "plocator_query_name name [] = (ISERVICELOCATOR_RET_FAILED, None)"
| "plocator_query_name name (item # items) =
     (if name = it_name item then (ISERVICELOCATOR_RET_OK, Some (it_interface item)) else plocator_query_name name items)"

fun plocator_query_name_type :: "string \<Rightarrow> nat \<Rightarrow> plocator_item list \<Rightarrow> iservicelocator_ret \<times> nat option" where
  "plocator_query_name_type name type [] = (ISERVICELOCATOR_RET_FAILED, None)"
| "plocator_query_name_type name type (item # items) =
     (if name = it_name item \<and> type = it_type item then (ISERVICELOCATOR_RET_OK, Some (it_interface item))
      else plocator_query_name_type name type items)"

fun type_id_loop :: "nat \<Rightarrow> nat \<Rightarrow> nat \<Rightarrow> plocator_item list \<Rightarrow> iservicelocator_ret \<times> nat option" where
  "type_id_loop current_id type index [] = (ISERVICELOCATOR_RET_FAILED, None)"
| "type_id_loop current_id type index (item # items) =
     (if it_type item = type then
        if current_id = index then (ISERVICELOCATOR_RET_OK, Some (it_interface item))
        else type_id_loop (current_id + 1) type index items
      else type_id_loop current_id type index items)"

definition plocator_query_type_id :: "nat \<Rightarrow> nat \<Rightarrow> plocator_item list \<Rightarrow> iservicelocator_ret \<times> nat option" where
  "plocator_query_type_id type index self = type_id_loop 0 type index self"

definition plocator_query_type_next :: "nat \<Rightarrow> nat \<Rightarrow> plocator_item list \<Rightarrow> iservicelocator_ret \<times> nat option" where
  "plocator_query_type_next type start self = (ISERVICELOCATOR_RET_NOT_IMPLEMENTED, None)"

fun plocator_get_name :: "nat \<Rightarrow> plocator_item list \<Rightarrow> iservicelocator_ret \<times> string option" where
  "plocator_get_name iface [] = (ISERVICELOCATOR_RET_FAILED, None)"
| "plocator_get_name iface (item # items) =
     (if it_interface item = iface then (ISERVICELOCATOR_RET_OK, Some (it_name item)) else plocator_get_name iface items)"

fun plocator_set_name :: "nat \<Rightarrow> string \<Rightarrow> plocator_item list \<Rightarrow> iservicelocator_ret \<times> plocator_item list" where
  "plocator_set_name iface name [] = (ISERVICELOCATOR_RET_FAILED, [])"
| "plocator_set_name iface name (item # items) =
     (if it_interface item = iface then (ISERVICELOCATOR_RET_OK, item\<lparr>it_name := name\<rparr> # items)
      else let (r, items) = plocator_set_name iface name items in (r, item # items))"

text \<open>The operations of the initialised locator.\<close>

definition plocator_vmt :: "bool \<Rightarrow> plocator_item list iservicelocator_vmt" where
  "plocator_vmt mem = (snd iservicelocator_init)\<lparr>vm_add := Some (plocator_add mem), vm_query_name := Some plocator_query_name,
     vm_query_name_type := Some plocator_query_name_type, vm_query_type_id := Some plocator_query_type_id,
     vm_query_type_next := Some plocator_query_type_next, vm_get_name := Some plocator_get_name,
     vm_set_name := Some plocator_set_name\<rparr>"

definition plocator_init :: "plocator_ret \<times> plocator_item list" where
  "plocator_init = (if fst (iservicelocator_init :: _ \<times> plocator_item list iservicelocator_vmt) \<noteq> ISERVICELOCATOR_RET_OK
     then (PLOCATOR_RET_FAILED, []) else (PLOCATOR_RET_OK, []))"

subsection \<open>What a locator promises\<close>

text \<open>A client that asks for the services of a type by number, at most \<open>m\<close> of them, until there are no more.\<close>

fun collect_services :: "'c iservicelocator_vmt \<Rightarrow> nat \<Rightarrow> nat \<Rightarrow> 'c \<Rightarrow> nat \<Rightarrow> nat list" where
  "collect_services vmt t k c 0 = []"
| "collect_services vmt t k c (Suc m) =
     (case iservicelocator_query_type_id vmt t k c of
        (ISERVICELOCATOR_RET_OK, Some i) \<Rightarrow> i # collect_services vmt t (Suc k) c m | _ \<Rightarrow> [])"

text \<open>Registering services one after the other.\<close>

definition register_all :: "'c iservicelocator_vmt \<Rightarrow> (nat \<times> nat \<times> string) list \<Rightarrow> 'c \<Rightarrow> 'c" where
  "register_all vmt regs c = fold (\<lambda>(t, i, n) c. snd (iservicelocator_add vmt t i n c)) regs c"

text \<open>
  The contract a client of the locator relies on: there is a list of the registered services, newest first, that only
  adding and renaming change, and every query is answered from it.
\<close>

locale registry =
  fixes vmt :: "'c iservicelocator_vmt" and services :: "'c \<Rightarrow> (nat \<times> nat \<times> string) list"
  assumes services_add: "iservicelocator_add vmt t i n c = (ISERVICELOCATOR_RET_OK, c') \<Longrightarrow> services c' = (t, i, n) # services c"
    and add_fails: "iservicelocator_add vmt t i n c = (r, c') \<Longrightarrow> r \<noteq> ISERVICELOCATOR_RET_OK \<Longrightarrow> services c' = services c"
    and query_name: "iservicelocator_query_name vmt n c =
      (case find (\<lambda>(_, _, m). m = n) (services c) of Some (_, i, _) \<Rightarrow> (ISERVICELOCATOR_RET_OK, Some i)
       | None \<Rightarrow> (ISERVICELOCATOR_RET_FAILED, None))"
    and query_type_id: "iservicelocator_query_type_id vmt t k c =
      (let is = [i. (u, i, _) \<leftarrow> services c, u = t] in
       if k < length is then (ISERVICELOCATOR_RET_OK, Some (is ! k)) else (ISERVICELOCATOR_RET_FAILED, None))"
begin

lemma collect_drop: "collect_services vmt t k c m = take m (drop k [i. (u, i, _) \<leftarrow> services c, u = t])"
proof (induction m arbitrary: k)
  case (Suc m)
  let ?is = "[i. (u, i, _) \<leftarrow> services c, u = t]"
  show ?case
  proof (cases "k < length ?is")
    case True
    have "drop k ?is = ?is ! k # drop (Suc k) ?is" using True by (rule Cons_nth_drop_Suc [symmetric])
    then show ?thesis using True Suc by (simp add: query_type_id Let_def del: drop_Suc)
  qed (simp add: query_type_id Let_def)
qed simp

lemma query_added: "iservicelocator_add vmt t i n c = (ISERVICELOCATOR_RET_OK, c') \<Longrightarrow> iservicelocator_query_name vmt n c' = (ISERVICELOCATOR_RET_OK, Some i)"
  by (simp add: services_add query_name)

lemma query_other: "iservicelocator_add vmt t i n c = (r, c') \<Longrightarrow> m \<noteq> n \<Longrightarrow> iservicelocator_query_name vmt m c' = iservicelocator_query_name vmt m c"
  by (cases "r = ISERVICELOCATOR_RET_OK") (auto simp: services_add add_fails query_name)

lemma services_register:
  assumes "\<And>t i n c. fst (iservicelocator_add vmt t i n c) = ISERVICELOCATOR_RET_OK"
  shows "services (register_all vmt regs c) = rev regs @ services c"
proof (induction regs arbitrary: c)
  case (Cons reg regs)
  obtain t i n where reg: "reg = (t, i, n)" by (cases reg) auto
  have "iservicelocator_add vmt t i n c = (ISERVICELOCATOR_RET_OK, snd (iservicelocator_add vmt t i n c))"
    using assms by (metis prod.collapse)
  from services_add [OF this] show ?case using Cons by (simp add: register_all_def reg)
qed (simp add: register_all_def)

end

lemma type_id_loop_nth:
  "cur \<le> k \<Longrightarrow> type_id_loop cur t k items =
     (let is = [it_interface it. it \<leftarrow> items, it_type it = t] in
      if k - cur < length is then (ISERVICELOCATOR_RET_OK, Some (is ! (k - cur))) else (ISERVICELOCATOR_RET_FAILED, None))"
proof (induction items arbitrary: cur)
  case (Cons item items)
  show ?case
  proof (cases "it_type item = t \<and> cur \<noteq> k")
    case True
    then have "cur < k" using Cons.prems by simp
    then have "k - cur = Suc (k - Suc cur)" by (rule Suc_diff_Suc [symmetric])
    then show ?thesis using Cons True by (simp add: Let_def)
  qed (use Cons in \<open>auto simp: Let_def\<close>)
qed simp

definition item_entry :: "plocator_item \<Rightarrow> nat \<times> nat \<times> string" where
  "item_entry item = (it_type item, it_interface item, it_name item)"

lemma query_name_find:
  "plocator_query_name n items = (case find (\<lambda>(_, _, m). m = n) (map item_entry items) of
     Some (_, i, _) \<Rightarrow> (ISERVICELOCATOR_RET_OK, Some i) | None \<Rightarrow> (ISERVICELOCATOR_RET_FAILED, None))"
  by (induction items) (auto simp: item_entry_def)

lemma entries_of_type: "[i. (u, i, _) \<leftarrow> map item_entry items, u = t] = [it_interface it. it \<leftarrow> items, it_type it = t]"
  by (induction items) (auto simp: item_entry_def)

interpretation pl: registry "plocator_vmt mem" "map item_entry" for mem
proof
  fix t i n c c' assume "iservicelocator_add (plocator_vmt mem) t i n c = (ISERVICELOCATOR_RET_OK, c')"
  then show "map item_entry c' = (t, i, n) # map item_entry c"
    by (auto simp: iservicelocator_add_def plocator_vmt_def plocator_add_def item_entry_def split: if_splits)
next
  fix t i n c r c' assume "iservicelocator_add (plocator_vmt mem) t i n c = (r, c')" "r \<noteq> ISERVICELOCATOR_RET_OK"
  then show "map item_entry c' = map item_entry c"
    by (auto simp: iservicelocator_add_def plocator_vmt_def plocator_add_def split: if_splits)
next
  fix n c
  show "iservicelocator_query_name (plocator_vmt mem) n c =
      (case find (\<lambda>(_, _, m). m = n) (map item_entry c) of Some (_, i, _) \<Rightarrow> (ISERVICELOCATOR_RET_OK, Some i)
       | None \<Rightarrow> (ISERVICELOCATOR_RET_FAILED, None))"
    by (simp add: iservicelocator_query_name_def plocator_vmt_def query_name_find)
next
  fix t k c
  show "iservicelocator_query_type_id (plocator_vmt mem) t k c =
      (let is = [i. (u, i, _) \<leftarrow> map item_entry c, u = t] in
       if k < length is then (ISERVICELOCATOR_RET_OK, Some (is ! k)) else (ISERVICELOCATOR_RET_FAILED, None))"
    unfolding entries_of_type
    by (simp add: iservicelocator_query_type_id_def plocator_vmt_def plocator_query_type_id_def type_id_loop_nth Let_def)
qed

lemma located:
  "map item_entry (register_all (plocator_vmt True) regs (snd plocator_init)) = rev regs"
  using pl.services_register [of True regs "snd plocator_init"]
  by (simp add: iservicelocator_add_def plocator_vmt_def plocator_add_def plocator_init_def iservicelocator_init_def)

text \<open>
  The locator finds what was registered: asking for the services of a type by number, until the
  locator has no more, gives every service registered with that type exactly once, the newest first, and
  asking by name gives the newest service of that name, or a failure when there is none.
\<close>

theorem locator_finds_services:
  "let c = register_all (plocator_vmt True) regs (snd plocator_init) in
    collect_services (plocator_vmt True) t 0 c (Suc (length regs)) = rev [i. (u, i, _) \<leftarrow> regs, u = t] \<and>
    iservicelocator_query_name (plocator_vmt True) n c =
      (case find (\<lambda>(_, _, m). m = n) (rev regs) of Some (_, i, _) \<Rightarrow> (ISERVICELOCATOR_RET_OK, Some i)
       | None \<Rightarrow> (ISERVICELOCATOR_RET_FAILED, None))"
proof -
  define c where "c = register_all (plocator_vmt True) regs (snd plocator_init)"
  have s: "map item_entry c = rev regs" unfolding c_def by (rule located)
  have "[i. (u, i, _) \<leftarrow> rev regs, u = t] = rev [i. (u, i, _) \<leftarrow> regs, u = t]"
    by (induction regs) auto
  moreover have "length [i. (u, i, _) \<leftarrow> regs, u = t] \<le> length regs" by (induction regs) auto
  ultimately have "collect_services (plocator_vmt True) t 0 c (Suc (length regs)) = rev [i. (u, i, _) \<leftarrow> regs, u = t]"
    by (simp only: pl.collect_drop s drop_0) simp
  then show ?thesis using pl.query_name [of True n c] unfolding Let_def c_def [symmetric] by (simp only: s)
qed

lemma locator_finds_services_witness:
  "collect_services (plocator_vmt True) 3 0 (register_all (plocator_vmt True) [(3, 10, ''a''), (4, 11, ''b''), (3, 12, ''c'')] (snd plocator_init)) 4 = [12, 10]"
  using locator_finds_services [of "[(3, 10, ''a''), (4, 11, ''b''), (3, 12, ''c'')]" 3 "''a''"]
  by (simp add: Let_def eval_nat_numeral del: collect_services.simps)

text \<open>A new name is the one that is given back.\<close>

lemma set_get_name:
  "plocator_set_name iface name items = (ISERVICELOCATOR_RET_OK, items') \<Longrightarrow> plocator_get_name iface items' = (ISERVICELOCATOR_RET_OK, Some name)"
  by (induction items arbitrary: items') (auto split: if_splits prod.splits)

end
