(* ===== verification/Streams.thy ===== *)
theory Streams
  imports Prelude
begin

text \<open>
  The interface of byte streams (\<open>services/interfaces/stream.h\<close>) as a table of methods over a state \<open>'h\<close>, and
  strings as the bytes that are written to them.
\<close>

datatype stream_ret = STREAM_RET_OK | STREAM_RET_FAILED | STREAM_RET_TIMEOUT | STREAM_RET_EOF

text \<open>A read gives the bytes that were put in the buffer (their number is \<open>*read\<close>), \<open>None\<close> when neither is written.\<close>

record 'h stream =
  st_write :: "'h \<Rightarrow> u8 list \<Rightarrow> stream_ret \<times> 'h"
  st_read :: "'h \<Rightarrow> nat \<Rightarrow> stream_ret \<times> u8 list option \<times> 'h"
  st_write_timeout :: "'h \<Rightarrow> u8 list \<Rightarrow> nat \<Rightarrow> stream_ret \<times> nat option \<times> 'h"
  st_read_timeout :: "'h \<Rightarrow> nat \<Rightarrow> nat \<Rightarrow> stream_ret \<times> u8 list option \<times> 'h"

definition str_bytes :: "string \<Rightarrow> u8 list" where
  "str_bytes s = map of_char s"

end
