(* ===== verification/Loginmgr.thy ===== *)
theory Loginmgr
  imports Streams
begin

text \<open>
  The login manager (\<open>services/loginmgr/module_loginmgr.c\<close>): a stream for the shell that is connected with the
  stream of the console (the host) only after a login and a password were entered.

  The host is a stream (\<open>services/interfaces/stream.h\<close>) over a state \<open>'h\<close>, the table of its methods is a
  parameter. The line editor (\<open>lib/lineedit\<close>, a git submodule) is a parameter as well: its operations work on a
  state \<open>'le\<close> and say what they print through the print handler. The file \<open>issue\<close> of the system file system is
  a parameter: the file system's own state and its reads. Characters are bytes, strings are kept without their
  terminating zero; log messages are left out. \<open>None\<close> is a fault (a host that gives more bytes than it was asked
  for, a prompt that was not set) or a welcome message that never ends.

  A pass through the loop of the task is one step (\<open>lm_turn\<close>), each call of the shell is one step (\<open>lm_shell\<close>), and
  the host changes by itself at any time: the runs are the predicate \<open>lm_run\<close>. The state is written by the task
  only, and the shell reads it once in each call.
\<close>

subsection \<open>The line editor and the file system\<close>

text \<open>What the line editor asks to print: a string or the prompt (by the prompt callback).\<close>

datatype le_out = Le_print string | Le_prompt

text \<open>\<open>le_keypress\<close> tells whether the result is \<open>LINEEDIT_ENTER\<close>.\<close>

record 'le lineedit =
  le_init :: "nat \<Rightarrow> 'le"
  le_set_pwchar :: "char \<Rightarrow> 'le \<Rightarrow> 'le"
  le_clear :: "'le \<Rightarrow> 'le \<times> le_out list"
  le_refresh :: "'le \<Rightarrow> 'le \<times> le_out list"
  le_keypress :: "'le \<Rightarrow> u8 \<Rightarrow> bool \<times> 'le \<times> le_out list"
  le_get_line :: "'le \<Rightarrow> string"

text \<open>The file \<open>issue\<close>: \<open>None\<close> when the file system or the file cannot be found, else the state of the open file.
  A read gives the bytes, \<open>None\<close> when its result is not \<open>FS_RET_OK\<close>.\<close>

record 'f issue =
  is_open :: "'f option"
  is_read :: "'f \<Rightarrow> (u8 list \<times> 'f) option"

record ('h, 'le, 'f) lm_env =
  lm_host :: "'h stream"
  lm_lineedit :: "'le lineedit"
  lm_issue :: "'f issue"

subsection \<open>State\<close>

definition MODULE_LOGINMGR_LOGIN_LENGTH :: nat where "MODULE_LOGINMGR_LOGIN_LENGTH = 16"

text \<open>The last constructor stands for the other values of the enumeration's integer type.\<close>

datatype module_loginmgr_state = LOGINMGR_STATE_BANNER | LOGINMGR_STATE_UNAUTH | LOGINMGR_STATE_LOGIN
  | LOGINMGR_STATE_PASSWORD | LOGINMGR_STATE_CHECK | LOGINMGR_STATE_AUTH | LOGINMGR_STATE_OTHER nat

record 'le module_loginmgr =
  lm_le :: 'le
  lm_le_prompt :: "string option"
  lm_login :: string
  lm_state :: module_loginmgr_state
  lm_host_refresh_pending :: bool

type_synonym ('le, 'h) lm_st = "'le module_loginmgr \<times> 'h"

definition ESC :: string where "ESC = [CHR 0x1B]"
definition CRLF :: string where "CRLF = [CHR 0x0D, CHR 0x0A]"

subsection \<open>Printing\<close>

text \<open>The terminating zero is written as well.\<close>

definition module_loginmgr_print_handler :: "('h, 'le, 'f) lm_env \<Rightarrow> string \<Rightarrow> 'h \<Rightarrow> 'h" where
  "module_loginmgr_print_handler e s h = snd (st_write (lm_host e) h (str_bytes s @ [0]))"

definition module_loginmgr_prompt_callback :: "('h, 'le, 'f) lm_env \<Rightarrow> string option \<Rightarrow> 'h \<Rightarrow> 'h option" where
  "module_loginmgr_prompt_callback e prompt h =
     (let h = module_loginmgr_print_handler e (ESC @ ''[32m'') h in
      case prompt of
        None \<Rightarrow> None
      | Some s \<Rightarrow>
          let h = module_loginmgr_print_handler e s h
          in Some (module_loginmgr_print_handler e (ESC @ ''[0m'') h))"

definition le_print :: "('h, 'le, 'f) lm_env \<Rightarrow> string option \<Rightarrow> le_out \<Rightarrow> 'h \<Rightarrow> 'h option" where
  "le_print e prompt out h =
     (case out of
        Le_print s \<Rightarrow> Some (module_loginmgr_print_handler e s h)
      | Le_prompt \<Rightarrow> module_loginmgr_prompt_callback e prompt h)"

text \<open>A call of the line editor that changes its state and prints.\<close>

definition le_call :: "('h, 'le, 'f) lm_env \<Rightarrow> ('le \<Rightarrow> 'le \<times> le_out list) \<Rightarrow> ('le, 'h) lm_st \<Rightarrow> ('le, 'h) lm_st option" where
  "le_call e op s =
     (case s of (lm, h) \<Rightarrow>
        case op (lm_le lm) of (le, outs) \<Rightarrow>
          map_option (\<lambda>h. (lm\<lparr>lm_le := le\<rparr>, h)) (fold_opt (le_print e (lm_le_prompt lm)) outs h))"

subsection \<open>The welcome message\<close>

fun welcome_bytes :: "('h, 'le, 'f) lm_env \<Rightarrow> u8 list \<Rightarrow> 'h \<Rightarrow> 'h" where
  "welcome_bytes e [] h = h"
| "welcome_bytes e (b # bs) h =
     (let h = if b = 10 then snd (st_write (lm_host e) h [13]) else h
      in welcome_bytes e bs (snd (st_write (lm_host e) h [b])))"

text \<open>The loop ends at the first read that is not \<open>FS_RET_OK\<close>.\<close>

partial_function (option) welcome_loop ::
  "('h, 'le, 'f) lm_env \<Rightarrow> 'f \<Rightarrow> 'h \<Rightarrow> 'h option" where
  "welcome_loop e f h =
     (case is_read (lm_issue e) f of
        None \<Rightarrow> Some h
      | Some r \<Rightarrow>
          if 64 < length (fst r) then None
          else welcome_loop e (snd r) (welcome_bytes e (fst r) h))"

definition MODULE_LOGINMGR_PRINT_WELCOME_OK :: int where "MODULE_LOGINMGR_PRINT_WELCOME_OK = 0"
definition MODULE_LOGINMGR_PRINT_WELCOME_FAILED :: int where "MODULE_LOGINMGR_PRINT_WELCOME_FAILED = - 1"

definition module_loginmgr_print_welcome :: "('h, 'le, 'f) lm_env \<Rightarrow> 'h \<Rightarrow> (int \<times> 'h) option" where
  "module_loginmgr_print_welcome e h =
     (case is_open (lm_issue e) of
        None \<Rightarrow> Some (MODULE_LOGINMGR_PRINT_WELCOME_FAILED, h)
      | Some f \<Rightarrow>
          map_option (\<lambda>h. (MODULE_LOGINMGR_PRINT_WELCOME_OK, snd (st_write (lm_host e) h [13, 10])))
            (welcome_loop e f h))"

subsection \<open>The state machine\<close>

definition MODULE_LOGINMGR_SET_STATE_OK :: int where "MODULE_LOGINMGR_SET_STATE_OK = 0"
definition MODULE_LOGINMGR_SET_STATE_FAILED :: int where "MODULE_LOGINMGR_SET_STATE_FAILED = - 1"

text \<open>The two prompts differ in their text and in the character that is shown for each one that is typed.\<close>

definition lm_ask :: "('h, 'le, 'f) lm_env \<Rightarrow> string \<Rightarrow> char \<Rightarrow> ('le, 'h) lm_st \<Rightarrow> ('le, 'h) lm_st option" where
  "lm_ask e prompt pwchar s =
     (case s of (lm, h) \<Rightarrow>
        let lm = lm\<lparr>lm_le_prompt := Some prompt, lm_le := le_set_pwchar (lm_lineedit e) pwchar (lm_le lm)\<rparr>
        in Option.bind (le_call e (le_clear (lm_lineedit e)) (lm, h)) (le_call e (le_refresh (lm_lineedit e))))"

definition module_loginmgr_set_state ::
  "('h, 'le, 'f) lm_env \<Rightarrow> module_loginmgr_state \<Rightarrow> ('le, 'h) lm_st \<Rightarrow> (int \<times> ('le, 'h) lm_st) option" where
  "module_loginmgr_set_state e state s =
     (let set = (\<lambda>(lm, h). (MODULE_LOGINMGR_SET_STATE_OK, lm\<lparr>lm_state := state\<rparr>, h)) in
      case state of
        LOGINMGR_STATE_BANNER \<Rightarrow> Some (set s)
      | LOGINMGR_STATE_UNAUTH \<Rightarrow> Some (set s)
      | LOGINMGR_STATE_LOGIN \<Rightarrow> map_option set (lm_ask e ''Login: '' (CHR 0x00) s)
      | LOGINMGR_STATE_PASSWORD \<Rightarrow> map_option set (lm_ask e ''Password: '' (CHR ''*'') s)
      | LOGINMGR_STATE_CHECK \<Rightarrow> Some (set s)
      | LOGINMGR_STATE_AUTH \<Rightarrow>
          map_option (\<lambda>r. set ((fst s)\<lparr>lm_host_refresh_pending := True\<rparr>, snd r))
            (module_loginmgr_print_welcome e (snd s))
      | LOGINMGR_STATE_OTHER _ \<Rightarrow>
          Some (MODULE_LOGINMGR_SET_STATE_FAILED, (fst s)\<lparr>lm_state := LOGINMGR_STATE_UNAUTH\<rparr>, snd s))"

definition lm_print :: "('h, 'le, 'f) lm_env \<Rightarrow> string \<Rightarrow> ('le, 'h) lm_st \<Rightarrow> ('le, 'h) lm_st" where
  "lm_print e str s = (fst s, module_loginmgr_print_handler e str (snd s))"

definition lm_goto :: "('h, 'le, 'f) lm_env \<Rightarrow> module_loginmgr_state \<Rightarrow> ('le, 'h) lm_st \<Rightarrow> ('le, 'h) lm_st option" where
  "lm_goto e state s = map_option snd (module_loginmgr_set_state e state s)"

text \<open>The loop over the bytes that were read: it is left at the first key that ends the line, the bytes after it
  are dropped.\<close>

fun lm_keys :: "('h, 'le, 'f) lm_env \<Rightarrow> u8 list \<Rightarrow> ('le, 'h) lm_st \<Rightarrow> ('le, 'h) lm_st option" where
  "lm_keys e [] s = Some s"
| "lm_keys e (b # bs) s =
     (case le_keypress (lm_lineedit e) (lm_le (fst s)) b of (enter, le, outs) \<Rightarrow>
        Option.bind (le_call e (\<lambda>_. (le, outs)) s) (\<lambda>(lm, h).
          if enter \<and> lm_state lm = LOGINMGR_STATE_LOGIN then
            let lm = lm\<lparr>lm_login := strlcpy MODULE_LOGINMGR_LOGIN_LENGTH (le_get_line (lm_lineedit e) (lm_le lm))\<rparr>
            in lm_goto e LOGINMGR_STATE_PASSWORD (lm_print e CRLF (lm, h))
          else if enter \<and> lm_state lm = LOGINMGR_STATE_PASSWORD then
            lm_goto e LOGINMGR_STATE_CHECK (lm_print e CRLF (lm, h))
          else lm_keys e bs (lm, h)))"

definition lm_turn_banner :: "('h, 'le, 'f) lm_env \<Rightarrow> ('le, 'h) lm_st \<Rightarrow> ('le, 'h) lm_st option" where
  "lm_turn_banner e s =
     (let s = lm_print e (ESC @ ''[1m'' @ CRLF @ ''Press any key to activate this console.'' @ CRLF @ CRLF @ ESC @ ''[0m'') s in
      case st_read (lm_host e) (snd s) 1 of (ret, data, h) \<Rightarrow>
        case data of
          Some bs \<Rightarrow> if 1 < length bs then None
            else lm_goto e LOGINMGR_STATE_LOGIN (lm_print e (CRLF @ CRLF) (fst s, h))
        | None \<Rightarrow> lm_goto e LOGINMGR_STATE_LOGIN (lm_print e (CRLF @ CRLF) (fst s, h)))"

definition lm_turn_input :: "('h, 'le, 'f) lm_env \<Rightarrow> ('le, 'h) lm_st \<Rightarrow> ('le, 'h) lm_st option" where
  "lm_turn_input e s =
     (case st_read (lm_host e) (snd s) 10 of (ret, data, h) \<Rightarrow>
        let host_buf = (case data of None \<Rightarrow> [] | Some bs \<Rightarrow> bs)
        in if 10 < length host_buf then None else lm_keys e host_buf (fst s, h))"

definition lm_turn_check :: "('h, 'le, 'f) lm_env \<Rightarrow> ('le, 'h) lm_st \<Rightarrow> ('le, 'h) lm_st option" where
  "lm_turn_check e s =
     (let s = lm_print e (''checking auth'' @ CRLF) s;
          pw = le_get_line (lm_lineedit e) (lm_le (fst s))
      in if lm_login (fst s) = ''admin'' \<and> pw = ''test'' then lm_goto e LOGINMGR_STATE_AUTH s
         else lm_goto e LOGINMGR_STATE_UNAUTH s)"

definition lm_turn :: "('h, 'le, 'f) lm_env \<Rightarrow> ('le, 'h) lm_st \<Rightarrow> ('le, 'h) lm_st option" where
  "lm_turn e s =
     (case lm_state (fst s) of
        LOGINMGR_STATE_BANNER \<Rightarrow> lm_turn_banner e s
      | LOGINMGR_STATE_UNAUTH \<Rightarrow>
          lm_goto e LOGINMGR_STATE_LOGIN (lm_print e (ESC @ ''[31m'' @ ''Authentication failed.'' @ CRLF @ CRLF @ ESC @ ''[0m'') s)
      | LOGINMGR_STATE_LOGIN \<Rightarrow> lm_turn_input e s
      | LOGINMGR_STATE_PASSWORD \<Rightarrow> lm_turn_input e s
      | LOGINMGR_STATE_CHECK \<Rightarrow> lm_turn_check e s
      | LOGINMGR_STATE_AUTH \<Rightarrow> Some s
      | LOGINMGR_STATE_OTHER _ \<Rightarrow> lm_goto e LOGINMGR_STATE_LOGIN s)"

definition module_loginmgr_init :: "('h, 'le, 'f) lm_env \<Rightarrow> 'le module_loginmgr" where
  "module_loginmgr_init e = \<lparr>lm_le = le_init (lm_lineedit e) 50, lm_le_prompt = None, lm_login = [],
     lm_state = LOGINMGR_STATE_BANNER, lm_host_refresh_pending = False\<rparr>"

subsection \<open>The stream of the shell\<close>

definition stream_write :: "('h, 'le, 'f) lm_env \<Rightarrow> u8 list \<Rightarrow> ('le, 'h) lm_st \<Rightarrow> stream_ret \<times> ('le, 'h) lm_st" where
  "stream_write e buf s =
     (if lm_state (fst s) = LOGINMGR_STATE_AUTH then
        (case st_write (lm_host e) (snd s) buf of (ret, h) \<Rightarrow> (ret, fst s, h))
      else (STREAM_RET_EOF, s))"

text \<open>The part that both reads share: the key that makes the shell print its line again, else the host.\<close>

definition gated_read ::
  "('h \<Rightarrow> stream_ret \<times> u8 list option \<times> 'h) \<Rightarrow> nat \<Rightarrow> ('le, 'h) lm_st \<Rightarrow> stream_ret \<times> u8 list option \<times> ('le, 'h) lm_st" where
  "gated_read rd sz s =
     (if lm_state (fst s) = LOGINMGR_STATE_AUTH then
        if lm_host_refresh_pending (fst s) then
          let s = ((fst s)\<lparr>lm_host_refresh_pending := False\<rparr>, snd s)
          in if sz \<ge> 1 then (STREAM_RET_OK, Some [0x12], s) else (STREAM_RET_EOF, None, s)
        else (case rd (snd s) of (ret, data, h) \<Rightarrow> (ret, data, fst s, h))
      else (STREAM_RET_EOF, None, s))"

definition stream_read ::
  "('h, 'le, 'f) lm_env \<Rightarrow> nat \<Rightarrow> ('le, 'h) lm_st \<Rightarrow> stream_ret \<times> u8 list option \<times> ('le, 'h) lm_st" where
  "stream_read e sz s = gated_read (\<lambda>h. st_read (lm_host e) h sz) sz s"

definition stream_write_timeout ::
  "('h, 'le, 'f) lm_env \<Rightarrow> u8 list \<Rightarrow> nat \<Rightarrow> ('le, 'h) lm_st \<Rightarrow> stream_ret \<times> nat option \<times> ('le, 'h) lm_st" where
  "stream_write_timeout e buf timeout_ms s =
     (if lm_state (fst s) = LOGINMGR_STATE_AUTH then
        (case st_write_timeout (lm_host e) (snd s) buf timeout_ms of (ret, written, h) \<Rightarrow> (ret, written, fst s, h))
      else (STREAM_RET_EOF, None, s))"

definition stream_read_timeout ::
  "('h, 'le, 'f) lm_env \<Rightarrow> nat \<Rightarrow> nat \<Rightarrow> ('le, 'h) lm_st \<Rightarrow> stream_ret \<times> u8 list option \<times> ('le, 'h) lm_st" where
  "stream_read_timeout e sz timeout_ms s = gated_read (\<lambda>h. st_read_timeout (lm_host e) h sz timeout_ms) sz s"

end
