(* ===== verification/Loginmgr_Props.thy ===== *)
theory Loginmgr_Props
  imports Loginmgr
begin

text \<open>
  Theorems about the login manager: what must have been entered when the shell and the host are connected, and that
  entering it connects them when each line comes in reads of its own (what follows the end of a line in the same read is
  dropped).
\<close>

subsection \<open>Runs\<close>

datatype shell_call = Shell_write "u8 list" | Shell_read nat | Shell_write_timeout "u8 list" nat
  | Shell_read_timeout nat nat

definition lm_shell :: "('h, 'le, 'f) lm_env \<Rightarrow> shell_call \<Rightarrow> ('le, 'h) lm_st \<Rightarrow> stream_ret \<times> ('le, 'h) lm_st" where
  "lm_shell e c s =
     (case c of
        Shell_write buf \<Rightarrow> stream_write e buf s
      | Shell_read sz \<Rightarrow> (case stream_read e sz s of (ret, _, s) \<Rightarrow> (ret, s))
      | Shell_write_timeout buf t \<Rightarrow> (case stream_write_timeout e buf t s of (ret, _, s) \<Rightarrow> (ret, s))
      | Shell_read_timeout sz t \<Rightarrow> (case stream_read_timeout e sz t s of (ret, _, s) \<Rightarrow> (ret, s)))"

text \<open>The states of a run, the last one first.\<close>

inductive lm_run :: "('h, 'le, 'f) lm_env \<Rightarrow> ('le, 'h) lm_st list \<Rightarrow> bool" for e where
  run_init: "lm_run e [(module_loginmgr_init e, h)]"
| run_task: "lm_run e (s # ss) \<Longrightarrow> lm_turn e s = Some s' \<Longrightarrow> lm_run e (s' # s # ss)"
| run_shell: "lm_run e (s # ss) \<Longrightarrow> lm_run e (snd (lm_shell e c s) # s # ss)"
| run_host: "lm_run e (s # ss) \<Longrightarrow> lm_run e ((fst s, h) # s # ss)"

text \<open>A login was entered: the step from the login prompt to the password prompt saved it. A password was entered for a
  login: the step from the password prompt to the check left it in the line editor, after the login was entered.\<close>

definition login_entered :: "string \<Rightarrow> ('le, 'h) lm_st list \<Rightarrow> bool" where
  "login_entered l tr \<longleftrightarrow> (\<exists>vs b a ws. tr = vs @ b # a # ws \<and> lm_state (fst a) = LOGINMGR_STATE_LOGIN \<and>
     lm_state (fst b) = LOGINMGR_STATE_PASSWORD \<and> lm_login (fst b) = l)"

definition password_entered :: "('h, 'le, 'f) lm_env \<Rightarrow> string \<Rightarrow> string \<Rightarrow> ('le, 'h) lm_st list \<Rightarrow> bool" where
  "password_entered e l p tr \<longleftrightarrow> (\<exists>us c q ws. tr = us @ c # q # ws \<and> lm_state (fst q) = LOGINMGR_STATE_PASSWORD \<and>
     lm_state (fst c) = LOGINMGR_STATE_CHECK \<and> le_get_line (lm_lineedit e) (lm_le (fst c)) = p \<and>
     login_entered l (q # ws))"

lemma login_entered_Cons: "login_entered l ss \<Longrightarrow> login_entered l (s # ss)"
  unfolding login_entered_def by (metis append_Cons)

lemma password_entered_Cons: "password_entered e l p ss \<Longrightarrow> password_entered e l p (s # ss)"
  unfolding password_entered_def by (metis append_Cons)

lemma login_entered_step:
  "lm_state (fst a) = LOGINMGR_STATE_LOGIN \<Longrightarrow> lm_state (fst b) = LOGINMGR_STATE_PASSWORD \<Longrightarrow>
    login_entered (lm_login (fst b)) (b # a # ws)"
  unfolding login_entered_def by (metis append_Nil)

lemma password_entered_step:
  "login_entered l (q # ws) \<Longrightarrow> lm_state (fst q) = LOGINMGR_STATE_PASSWORD \<Longrightarrow>
    lm_state (fst c) = LOGINMGR_STATE_CHECK \<Longrightarrow>
    password_entered e l (le_get_line (lm_lineedit e) (lm_le (fst c))) (c # q # ws)"
  unfolding password_entered_def by (metis append_Nil)

subsection \<open>What a step changes\<close>

lemma le_call_keeps:
  assumes "le_call e op s = Some s'"
  shows "lm_state (fst s') = lm_state (fst s)" "lm_login (fst s') = lm_login (fst s)"
    "lm_le_prompt (fst s') = lm_le_prompt (fst s)" "lm_le (fst s') = fst (op (lm_le (fst s)))"
  using assms by (auto simp: le_call_def split: prod.splits)

lemma lm_ask_keeps:
  assumes "lm_ask e prompt c s = Some s'"
  shows "lm_login (fst s') = lm_login (fst s)"
  using assms by (auto simp: lm_ask_def bind_eq_Some_conv split: prod.splits dest!: le_call_keeps(2))

lemma lm_print_fst [simp]: "fst (lm_print e str s) = fst s"
  by (simp add: lm_print_def)

text \<open>Entering a state: the states without a prompt keep the login and the line editor.\<close>

lemma lm_goto_state:
  assumes "lm_goto e state s = Some s'" "\<And>n. state \<noteq> LOGINMGR_STATE_OTHER n"
  shows "lm_state (fst s') = state" "lm_login (fst s') = lm_login (fst s)"
  using assms by (auto simp: lm_goto_def module_loginmgr_set_state_def Let_def dest!: lm_ask_keeps
      split: module_loginmgr_state.splits prod.splits)

lemma lm_goto_le:
  assumes "lm_goto e state s = Some s'" "state \<in> {LOGINMGR_STATE_CHECK, LOGINMGR_STATE_AUTH, LOGINMGR_STATE_UNAUTH}"
  shows "lm_le (fst s') = lm_le (fst s)"
  using assms by (auto simp: lm_goto_def module_loginmgr_set_state_def Let_def split: prod.splits)

lemma lm_keys_step:
  assumes "lm_keys e bs s = Some s'"
  shows "lm_state (fst s') = lm_state (fst s) \<and> lm_login (fst s') = lm_login (fst s) \<or>
    lm_state (fst s) = LOGINMGR_STATE_LOGIN \<and> lm_state (fst s') = LOGINMGR_STATE_PASSWORD \<or>
    lm_state (fst s) = LOGINMGR_STATE_PASSWORD \<and> lm_state (fst s') = LOGINMGR_STATE_CHECK \<and>
      lm_login (fst s') = lm_login (fst s)"
  using assms
proof (induction bs arbitrary: s)
  case (Cons b bs)
  obtain enter le outs where k: "le_keypress (lm_lineedit e) (lm_le (fst s)) b = (enter, le, outs)"
    by (cases "le_keypress (lm_lineedit e) (lm_le (fst s)) b") auto
  obtain lm h where c: "le_call e (\<lambda>_. (le, outs)) s = Some (lm, h)"
    using Cons.prems k by (cases "le_call e (\<lambda>_. (le, outs)) s") auto
  note keep = le_call_keeps [OF c]
  show ?case using Cons.prems Cons.IH [of "(lm, h)"] keep
    by (auto simp: k c Let_def dest: lm_goto_state split: if_splits)
qed simp

text \<open>The steps of the task, by the state they start in.\<close>

definition lm_turn_post :: "('h, 'le, 'f) lm_env \<Rightarrow> ('le, 'h) lm_st \<Rightarrow> ('le, 'h) lm_st \<Rightarrow> bool" where
  "lm_turn_post e s s' =
     (case lm_state (fst s) of
        LOGINMGR_STATE_LOGIN \<Rightarrow> lm_state (fst s') = LOGINMGR_STATE_LOGIN \<or> lm_state (fst s') = LOGINMGR_STATE_PASSWORD
      | LOGINMGR_STATE_PASSWORD \<Rightarrow> lm_login (fst s') = lm_login (fst s) \<and>
          (lm_state (fst s') = LOGINMGR_STATE_PASSWORD \<or> lm_state (fst s') = LOGINMGR_STATE_CHECK)
      | LOGINMGR_STATE_CHECK \<Rightarrow> lm_state (fst s') = LOGINMGR_STATE_UNAUTH \<or>
          lm_state (fst s') = LOGINMGR_STATE_AUTH \<and> lm_login (fst s) = ''admin'' \<and>
          le_get_line (lm_lineedit e) (lm_le (fst s)) = ''test''
      | LOGINMGR_STATE_AUTH \<Rightarrow> s' = s
      | _ \<Rightarrow> lm_state (fst s') = LOGINMGR_STATE_LOGIN)"

lemma lm_turn_check_step:
  assumes "lm_turn_check e s = Some s'"
  shows "lm_state (fst s') = LOGINMGR_STATE_UNAUTH \<or>
    lm_state (fst s') = LOGINMGR_STATE_AUTH \<and> lm_login (fst s) = ''admin'' \<and>
    le_get_line (lm_lineedit e) (lm_le (fst s)) = ''test''"
  using assms by (simp add: lm_turn_check_def Let_def lm_goto_state(1) split: if_splits)

lemma lm_turn_banner_step:
  "lm_turn_banner e s = Some s' \<Longrightarrow> lm_state (fst s') = LOGINMGR_STATE_LOGIN"
  by (auto simp: lm_turn_banner_def Let_def split: prod.splits option.splits if_splits intro: lm_goto_state(1))

lemma lm_turn_input_step:
  assumes "lm_turn_input e s = Some s'"
  shows "lm_state (fst s') = lm_state (fst s) \<and> lm_login (fst s') = lm_login (fst s) \<or>
    lm_state (fst s) = LOGINMGR_STATE_LOGIN \<and> lm_state (fst s') = LOGINMGR_STATE_PASSWORD \<or>
    lm_state (fst s) = LOGINMGR_STATE_PASSWORD \<and> lm_state (fst s') = LOGINMGR_STATE_CHECK \<and>
      lm_login (fst s') = lm_login (fst s)"
proof -
  obtain bs h where "lm_keys e bs (fst s, h) = Some s'"
    using assms by (auto simp: lm_turn_input_def Let_def split: prod.splits if_splits)
  from lm_keys_step [OF this] show ?thesis by simp
qed

lemma lm_turn_step: "lm_turn e s = Some s' \<Longrightarrow> lm_turn_post e s s'"
  by (cases "lm_state (fst s)")
    (auto simp: lm_turn_def lm_turn_post_def dest: lm_turn_banner_step lm_turn_check_step lm_turn_input_step
      lm_goto_state(1))

lemma lm_shell_keeps:
  "lm_state (fst (snd (lm_shell e c s))) = lm_state (fst s)" "lm_login (fst (snd (lm_shell e c s))) = lm_login (fst s)"
  "lm_le (fst (snd (lm_shell e c s))) = lm_le (fst s)"
  by (auto simp: lm_shell_def stream_write_def stream_read_def stream_write_timeout_def stream_read_timeout_def
      gated_read_def Let_def split: shell_call.splits prod.splits)

text \<open>Without authentication nothing passes between the shell and the host.\<close>

lemma lm_shell_refused:
  "lm_state (fst s) \<noteq> LOGINMGR_STATE_AUTH \<Longrightarrow> lm_shell e c s = (STREAM_RET_EOF, s)"
  by (auto simp: lm_shell_def stream_write_def stream_read_def stream_write_timeout_def stream_read_timeout_def
      gated_read_def split: shell_call.splits)

subsection \<open>Who is let in\<close>

text \<open>What the past of a run holds in each state.\<close>

definition lm_past :: "('h, 'le, 'f) lm_env \<Rightarrow> ('le, 'h) lm_st \<Rightarrow> ('le, 'h) lm_st list \<Rightarrow> bool" where
  "lm_past e s tr =
     (case lm_state (fst s) of
        LOGINMGR_STATE_PASSWORD \<Rightarrow> login_entered (lm_login (fst s)) tr
      | LOGINMGR_STATE_CHECK \<Rightarrow>
          password_entered e (lm_login (fst s)) (le_get_line (lm_lineedit e) (lm_le (fst s))) tr
      | LOGINMGR_STATE_AUTH \<Rightarrow> password_entered e ''admin'' ''test'' tr
      | _ \<Rightarrow> True)"

lemma lm_past_same:
  assumes "lm_past e s tr" "lm_state (fst s') = lm_state (fst s)" "lm_login (fst s') = lm_login (fst s)"
    "lm_le (fst s') = lm_le (fst s)"
  shows "lm_past e s' (s' # tr)"
  using assms
  by (auto simp: lm_past_def split: module_loginmgr_state.splits intro: login_entered_Cons password_entered_Cons)

lemma lm_past_turn:
  assumes past: "lm_past e s (s # ss)" and turn: "lm_turn e s = Some s'"
  shows "lm_past e s' (s' # s # ss)"
proof (cases "lm_state (fst s)")
  case LOGINMGR_STATE_LOGIN
  then show ?thesis using lm_turn_step [OF turn] login_entered_step [of s s' ss]
    by (auto simp: lm_past_def lm_turn_post_def)
next
  case LOGINMGR_STATE_PASSWORD
  then have "login_entered (lm_login (fst s)) (s # ss)" using past by (simp add: lm_past_def)
  then show ?thesis
    using LOGINMGR_STATE_PASSWORD lm_turn_step [OF turn] password_entered_step [of _ s ss s' e]
    by (auto simp: lm_past_def lm_turn_post_def intro: login_entered_Cons)
next
  case LOGINMGR_STATE_CHECK
  then show ?thesis using past lm_turn_step [OF turn]
    by (auto simp: lm_past_def lm_turn_post_def intro: password_entered_Cons)
next
  case LOGINMGR_STATE_AUTH
  then show ?thesis using past lm_turn_step [OF turn] lm_past_same [OF past, of s] by (simp add: lm_turn_post_def)
qed (use lm_turn_step [OF turn] in \<open>auto simp: lm_past_def lm_turn_post_def\<close>)

lemma lm_run_past: "lm_run e tr \<Longrightarrow> \<exists>s ss. tr = s # ss \<and> lm_past e s tr"
proof (induction rule: lm_run.induct)
  case (run_init h)
  then show ?case by (simp add: lm_past_def module_loginmgr_init_def)
next
  case (run_task s ss s')
  then show ?case using lm_past_turn by blast
next
  case (run_shell s ss c)
  then show ?case using lm_past_same [OF _ lm_shell_keeps] by blast
next
  case (run_host s ss h)
  then show ?case using lm_past_same [of e s _ "(fst s, h)"] by auto
qed

subsection \<open>Entering a login and a password\<close>

text \<open>A line editor: keys that do not end the line change it by \<open>edit\<close>, the key that ends it keeps it, clearing it
  empties it; refreshing it and choosing the character that is shown do not change it.\<close>

definition lineedit_ok :: "'le lineedit \<Rightarrow> u8 \<Rightarrow> (string \<Rightarrow> u8 \<Rightarrow> string) \<Rightarrow> bool" where
  "lineedit_ok led ent edit \<longleftrightarrow>
     (\<forall>le c. le_get_line led (le_set_pwchar led c le) = le_get_line led le) \<and>
     (\<forall>le. le_get_line led (fst (le_clear led le)) = []) \<and>
     (\<forall>le. le_get_line led (fst (le_refresh led le)) = le_get_line led le) \<and>
     (\<forall>le k. fst (le_keypress led le k) = (k = ent)) \<and>
     (\<forall>le k. le_get_line led (fst (snd (le_keypress led le k))) =
        (if k = ent then le_get_line led le else edit (le_get_line led le) k))"

text \<open>A host whose next reads are given by \<open>inq\<close>: a read takes the first of them, writing does not change them.\<close>

definition host_ok :: "'h stream \<Rightarrow> ('h \<Rightarrow> u8 list list) \<Rightarrow> bool" where
  "host_ok st inq \<longleftrightarrow>
     (\<forall>h bs. inq (snd (st_write st h bs)) = inq h) \<and>
     (\<forall>h bs bss sz. inq h = bs # bss \<longrightarrow> (\<exists>h'. st_read st h sz = (STREAM_RET_OK, Some bs, h') \<and> inq h' = bss))"

text \<open>The reads that enter a text: at most ten bytes each, the key that ends the line is the very last one.\<close>

definition enters :: "u8 \<Rightarrow> (string \<Rightarrow> u8 \<Rightarrow> string) \<Rightarrow> u8 list list \<Rightarrow> string \<Rightarrow> bool" where
  "enters ent edit bss word \<longleftrightarrow> bss \<noteq> [] \<and> last bss \<noteq> [] \<and> last (last bss) = ent \<and>
     ent \<notin> set (butlast (concat bss)) \<and> (\<forall>bs \<in> set bss. length bs \<le> 10) \<and>
     foldl edit [] (butlast (concat bss)) = word"

primrec lm_turns :: "('h, 'le, 'f) lm_env \<Rightarrow> nat \<Rightarrow> ('le, 'h) lm_st \<Rightarrow> ('le, 'h) lm_st option" where
  "lm_turns e 0 s = Some s"
| "lm_turns e (Suc n) s = Option.bind (lm_turn e s) (lm_turns e n)"

lemma lm_turns_add: "lm_turns e (m + n) s = Option.bind (lm_turns e m s) (lm_turns e n)"
  by (induction m arbitrary: s) (auto split: Option.bind_split)

lemma print_inq: "host_ok (lm_host e) inq \<Longrightarrow> inq (module_loginmgr_print_handler e str h) = inq h"
  by (simp add: host_ok_def module_loginmgr_print_handler_def)

lemma lm_print_inq: "host_ok (lm_host e) inq \<Longrightarrow> inq (snd (lm_print e str s)) = inq (snd s)"
  by (simp add: lm_print_def print_inq)

text \<open>Once a prompt is set, what the line editor prints never fails.\<close>

lemma le_print_some:
  assumes "host_ok (lm_host e) inq"
  shows "\<exists>h'. fold_opt (le_print e (Some p)) outs h = Some h' \<and> inq h' = inq h"
proof (induction outs arbitrary: h)
  case (Cons out outs)
  obtain h1 where "le_print e (Some p) out h = Some h1" "inq h1 = inq h"
    by (cases out) (simp_all add: le_print_def module_loginmgr_prompt_callback_def Let_def print_inq [OF assms])
  then show ?case using Cons [of h1] by auto
qed simp

lemma le_call_some:
  assumes "host_ok (lm_host e) inq" "lm_le_prompt (fst s) \<noteq> None"
  shows "\<exists>s'. le_call e op s = Some s' \<and> inq (snd s') = inq (snd s)"
proof -
  obtain lm h p where s: "s = (lm, h)" "lm_le_prompt lm = Some p" using assms by (cases s) auto
  obtain le outs where op: "op (lm_le lm) = (le, outs)" by (cases "op (lm_le lm)") auto
  from le_print_some [OF assms(1), of p outs h] show ?thesis by (auto simp: le_call_def s op)
qed

text \<open>The prompts start with an empty line.\<close>

lemma lm_ask_some:
  assumes led: "lineedit_ok (lm_lineedit e) ent edit" and hok: "host_ok (lm_host e) inq"
  shows "\<exists>s'. lm_ask e prompt c s = Some s' \<and> inq (snd s') = inq (snd s) \<and> lm_le_prompt (fst s') \<noteq> None \<and>
    le_get_line (lm_lineedit e) (lm_le (fst s')) = []"
proof -
  let ?lm = "(fst s)\<lparr>lm_le_prompt := Some prompt, lm_le := le_set_pwchar (lm_lineedit e) c (lm_le (fst s))\<rparr>"
  obtain s1 where s1: "le_call e (le_clear (lm_lineedit e)) (?lm, snd s) = Some s1" "inq (snd s1) = inq (snd s)"
    using le_call_some [OF hok, of "(?lm, snd s)" "le_clear (lm_lineedit e)"] by auto
  note k1 = le_call_keeps [OF s1(1)]
  obtain s2 where s2: "le_call e (le_refresh (lm_lineedit e)) s1 = Some s2" "inq (snd s2) = inq (snd s1)"
    using le_call_some [OF hok, of s1 "le_refresh (lm_lineedit e)"] k1(3) by auto
  have "le_get_line (lm_lineedit e) (lm_le (fst s2)) = []"
    using led k1(4) le_call_keeps(4) [OF s2(1)] by (simp add: lineedit_ok_def)
  moreover have "lm_ask e prompt c s = Some s2"
    using s1(1) s2(1) by (simp add: lm_ask_def split_beta)
  ultimately show ?thesis using s1(2) s2(2) k1(3) le_call_keeps(3) [OF s2(1)] by auto
qed

text \<open>A state with a prompt set, in the state \<open>q\<close> of the machine, with the login \<open>l\<close> and the line \<open>word\<close>.\<close>

definition lm_at :: "('h, 'le, 'f) lm_env \<Rightarrow> module_loginmgr_state \<Rightarrow> string \<Rightarrow> string \<Rightarrow> ('le, 'h) lm_st \<Rightarrow> bool" where
  "lm_at e q l word s \<longleftrightarrow> lm_state (fst s) = q \<and> lm_le_prompt (fst s) \<noteq> None \<and> lm_login (fst s) = l \<and>
     le_get_line (lm_lineedit e) (lm_le (fst s)) = word"

lemma lm_goto_prompt:
  assumes led: "lineedit_ok (lm_lineedit e) ent edit" and hok: "host_ok (lm_host e) inq"
    and q: "q = LOGINMGR_STATE_LOGIN \<or> q = LOGINMGR_STATE_PASSWORD"
  shows "\<exists>s'. lm_goto e q s = Some s' \<and> inq (snd s') = inq (snd s) \<and> lm_at e q (lm_login (fst s)) [] s'"
proof -
  obtain prompt c where g: "lm_goto e q s = map_option (\<lambda>x. ((fst x)\<lparr>lm_state := q\<rparr>, snd x)) (lm_ask e prompt c s)"
    using q that by (elim disjE) (simp_all add: lm_goto_def module_loginmgr_set_state_def option.map_comp comp_def split_beta)
  obtain s1 where s1: "lm_ask e prompt c s = Some s1" "inq (snd s1) = inq (snd s)" "lm_le_prompt (fst s1) \<noteq> None"
    "le_get_line (lm_lineedit e) (lm_le (fst s1)) = []"
    using lm_ask_some [OF led hok, of prompt c s] by blast
  show ?thesis using g s1 lm_ask_keeps [OF s1(1)] by (auto simp: lm_at_def split_beta)
qed

lemma lineedit_key:
  assumes "lineedit_ok led ent edit"
  shows "\<exists>le' outs. le_keypress led le k = (k = ent, le', outs) \<and>
    le_get_line led le' = (if k = ent then le_get_line led le else edit (le_get_line led le) k)"
proof -
  obtain b le' outs where k: "le_keypress led le k = (b, le', outs)" by (cases "le_keypress led le k") auto
  from assms have "fst (le_keypress led le k) = (k = ent)"
    "le_get_line led (fst (snd (le_keypress led le k))) =
      (if k = ent then le_get_line led le else edit (le_get_line led le) k)"
    unfolding lineedit_ok_def by blast+
  then show ?thesis using k by simp
qed

lemma lm_key_plain:
  assumes led: "lineedit_ok (lm_lineedit e) ent edit" and hok: "host_ok (lm_host e) inq"
    and s: "lm_at e q l word s" "k \<noteq> ent"
  shows "\<exists>s'. lm_at e q l (edit word k) s' \<and> inq (snd s') = inq (snd s) \<and> (\<forall>bs. lm_keys e (k # bs) s = lm_keys e bs s')"
proof -
  obtain le outs where k: "le_keypress (lm_lineedit e) (lm_le (fst s)) k = (False, le, outs)"
    "le_get_line (lm_lineedit e) le = edit word k"
    using lineedit_key [OF led, of "lm_le (fst s)" k] s by (auto simp: lm_at_def)
  obtain s' where c: "le_call e (\<lambda>_. (le, outs)) s = Some s'" "inq (snd s') = inq (snd s)"
    using le_call_some [OF hok, of s "\<lambda>_. (le, outs)"] s(1) by (auto simp: lm_at_def)
  show ?thesis using s(1) k c le_call_keeps [OF c(1)] by (intro exI [of _ s']) (simp add: lm_at_def split_beta)
qed

lemma lm_key_enter:
  assumes led: "lineedit_ok (lm_lineedit e) ent edit" and hok: "host_ok (lm_host e) inq" and s: "lm_at e q l word s"
  shows "q = LOGINMGR_STATE_LOGIN \<Longrightarrow> \<exists>s'. (\<forall>bs. lm_keys e (ent # bs) s = Some s') \<and> inq (snd s') = inq (snd s) \<and>
      lm_at e LOGINMGR_STATE_PASSWORD (strlcpy MODULE_LOGINMGR_LOGIN_LENGTH word) [] s'"
    and "q = LOGINMGR_STATE_PASSWORD \<Longrightarrow> \<exists>s'. (\<forall>bs. lm_keys e (ent # bs) s = Some s') \<and> inq (snd s') = inq (snd s) \<and>
      lm_at e LOGINMGR_STATE_CHECK l word s'"
proof -
  obtain le outs where k: "le_keypress (lm_lineedit e) (lm_le (fst s)) ent = (True, le, outs)"
    "le_get_line (lm_lineedit e) le = word"
    using lineedit_key [OF led, of "lm_le (fst s)" ent] s by (auto simp: lm_at_def)
  obtain s1 where c: "le_call e (\<lambda>_. (le, outs)) s = Some s1" "inq (snd s1) = inq (snd s)"
    using le_call_some [OF hok, of s "\<lambda>_. (le, outs)"] s by (auto simp: lm_at_def)
  note keep = le_call_keeps [OF c(1)]
  {
    assume q: "q = LOGINMGR_STATE_LOGIN"
    let ?lm = "(fst s1)\<lparr>lm_login := strlcpy MODULE_LOGINMGR_LOGIN_LENGTH word\<rparr>"
    obtain s' where "lm_goto e LOGINMGR_STATE_PASSWORD (lm_print e CRLF (?lm, snd s1)) = Some s'"
      "inq (snd s') = inq (snd s1)" "lm_at e LOGINMGR_STATE_PASSWORD (strlcpy MODULE_LOGINMGR_LOGIN_LENGTH word) [] s'"
      using lm_goto_prompt [OF led hok, of LOGINMGR_STATE_PASSWORD "lm_print e CRLF (?lm, snd s1)"]
      by (auto simp: lm_print_inq [OF hok])
    then show "\<exists>s'. (\<forall>bs. lm_keys e (ent # bs) s = Some s') \<and> inq (snd s') = inq (snd s) \<and>
      lm_at e LOGINMGR_STATE_PASSWORD (strlcpy MODULE_LOGINMGR_LOGIN_LENGTH word) [] s'"
      using q s k c keep by (intro exI [of _ s']) (simp add: lm_at_def split_beta Let_def)
  }
  assume q: "q = LOGINMGR_STATE_PASSWORD"
  let ?s = "lm_print e CRLF s1"
  have "lm_goto e LOGINMGR_STATE_CHECK ?s = Some ((fst ?s)\<lparr>lm_state := LOGINMGR_STATE_CHECK\<rparr>, snd ?s)"
    by (simp add: lm_goto_def module_loginmgr_set_state_def split_beta)
  then show "\<exists>s'. (\<forall>bs. lm_keys e (ent # bs) s = Some s') \<and> inq (snd s') = inq (snd s) \<and>
      lm_at e LOGINMGR_STATE_CHECK l word s'"
    using q s k c keep by (simp add: lm_at_def split_beta Let_def lm_print_inq [OF hok])
qed

text \<open>Reads without the key that ends the line, then the read that has it as its last key.\<close>

lemma lm_keys_plain:
  assumes "lineedit_ok (lm_lineedit e) ent edit" "host_ok (lm_host e) inq" "lm_at e q l word s" "ent \<notin> set ks"
  shows "\<exists>s'. lm_at e q l (foldl edit word ks) s' \<and> inq (snd s') = inq (snd s) \<and>
    (\<forall>bs. lm_keys e (ks @ bs) s = lm_keys e bs s')"
  using assms(3,4)
proof (induction ks arbitrary: s word)
  case Nil
  then show ?case by (intro exI [of _ s]) simp
next
  case (Cons k ks)
  obtain s1 where s1: "lm_at e q l (edit word k) s1" "inq (snd s1) = inq (snd s)"
    "\<forall>bs. lm_keys e (k # bs) s = lm_keys e bs s1"
    using lm_key_plain [OF assms(1,2) Cons.prems(1), of k] Cons.prems(2) by auto
  then show ?case using Cons.IH [OF s1(1)] Cons.prems(2) by auto
qed

text \<open>The state that follows the line.\<close>

definition lm_next :: "('h, 'le, 'f) lm_env \<Rightarrow> module_loginmgr_state \<Rightarrow> string \<Rightarrow> string \<Rightarrow> ('le, 'h) lm_st \<Rightarrow> bool" where
  "lm_next e q l word s \<longleftrightarrow>
     (if q = LOGINMGR_STATE_LOGIN then
        lm_at e LOGINMGR_STATE_PASSWORD (strlcpy MODULE_LOGINMGR_LOGIN_LENGTH word) [] s
      else lm_at e LOGINMGR_STATE_CHECK l word s)"

lemma lm_input_turn:
  assumes hok: "host_ok (lm_host e) inq" and s: "lm_at e q l word s"
    and q: "q = LOGINMGR_STATE_LOGIN \<or> q = LOGINMGR_STATE_PASSWORD"
    and inq: "inq (snd s) = bs # bss" "length bs \<le> 10"
  shows "\<exists>h. inq h = bss \<and> lm_turn e s = lm_keys e bs (fst s, h)"
proof -
  obtain h where h: "st_read (lm_host e) (snd s) 10 = (STREAM_RET_OK, Some bs, h)" "inq h = bss"
    using hok inq(1) unfolding host_ok_def by blast
  then show ?thesis using q s inq(2) by (intro exI [of _ h]) (auto simp: lm_turn_def lm_turn_input_def lm_at_def)
qed

lemma lm_at_host: "lm_at e q l word (fst s, h) = lm_at e q l word s"
  by (simp add: lm_at_def)

lemma lm_enter_line:
  assumes led: "lineedit_ok (lm_lineedit e) ent edit" and hok: "host_ok (lm_host e) inq"
    and q: "q = LOGINMGR_STATE_LOGIN \<or> q = LOGINMGR_STATE_PASSWORD"
    and "lm_at e q l word s" "inq (snd s) = bss @ rest" "bss \<noteq> []" "last bss \<noteq> []" "last (last bss) = ent"
    "ent \<notin> set (butlast (concat bss))" "\<forall>bs \<in> set bss. length bs \<le> 10"
  shows "\<exists>s'. lm_turns e (length bss) s = Some s' \<and> inq (snd s') = rest \<and>
    lm_next e q l (foldl edit word (butlast (concat bss))) s'"
  using assms(4-)
proof (induction bss arbitrary: s word)
  case (Cons bs bss)
  obtain h where h: "inq h = bss @ rest" "lm_turn e s = lm_keys e bs (fst s, h)"
    using lm_input_turn [OF hok Cons.prems(1) q, of bs "bss @ rest"] Cons.prems(2,7) by auto
  note at = Cons.prems(1) [folded lm_at_host [of e q l word s h]]
  show ?case
  proof (cases "bss = []")
    case True
    then obtain ks where ks: "bs = ks @ [ent]" "ent \<notin> set ks"
      using Cons.prems(4-6) by (cases bs rule: rev_cases) auto
    obtain s1 where s1: "lm_at e q l (foldl edit word ks) s1" "inq (snd s1) = inq h"
      "lm_keys e bs (fst s, h) = lm_keys e [ent] s1"
      using lm_keys_plain [OF led hok at ks(2)] ks(1) by auto
    show ?thesis using True lm_key_enter [OF led hok s1(1)] s1(2,3) q h ks(1)
      by (auto simp: lm_next_def)
  next
    case False
    have "concat bss \<noteq> []" using False Cons.prems(4) last_in_set [OF False] by auto
    then have split: "butlast (concat (bs # bss)) = bs @ butlast (concat bss)"
      by (simp add: butlast_append del: concat_eq_Nil_conv)
    with Cons.prems(6) have bs: "ent \<notin> set bs" by simp
    obtain s1 where s1: "lm_at e q l (foldl edit word bs) s1" "inq (snd s1) = inq h"
      "\<forall>cs. lm_keys e (bs @ cs) (fst s, h) = lm_keys e cs s1"
      using lm_keys_plain [OF led hok at bs] by auto
    then have s1': "lm_keys e bs (fst s, h) = Some s1" using spec [OF s1(3), of "[]"] by simp
    show ?thesis
      using Cons.IH [OF s1(1)] Cons.prems(4-7) False s1(2) s1' h split by auto
  qed
qed simp

subsection \<open>Properties\<close>

text \<open>Property C27. Whenever a call of the shell changes the host or does not give the end of the stream, the past of
  the run holds a step in which the login "admin" was entered and, later, one in which the password "test" was entered:
  nothing passes between the shell and the console before. The task, the shell and the console interleave freely.\<close>

theorem shell_needs_credentials:
  assumes run: "lm_run e (s # ss)" and call: "lm_shell e c s = (ret, s')"
    and passed: "ret \<noteq> STREAM_RET_EOF \<or> snd s' \<noteq> snd s"
  shows "password_entered e ''admin'' ''test'' (s # ss)"
proof -
  have "lm_state (fst s) = LOGINMGR_STATE_AUTH" using lm_shell_refused [of s e c] call passed by auto
  then show ?thesis using lm_run_past [OF run] by (auto simp: lm_past_def)
qed

lemma login_truncated: "strlcpy MODULE_LOGINMGR_LOGIN_LENGTH l = ''admin'' \<longleftrightarrow> l = ''admin''"
proof
  assume l: "strlcpy MODULE_LOGINMGR_LOGIN_LENGTH l = ''admin''"
  then have "take 15 l = ''admin''" by (simp add: strlcpy_def MODULE_LOGINMGR_LOGIN_LENGTH_def)
  moreover from this have "length (take 15 l) = 5" by simp
  then have "length l = 5" by (simp add: min_def split: if_splits)
  ultimately show "l = ''admin''" by simp
qed (simp add: strlcpy_def MODULE_LOGINMGR_LOGIN_LENGTH_def)

lemma lm_check_turn:
  assumes "lm_at e LOGINMGR_STATE_CHECK l p s" and "\<And>h. module_loginmgr_print_welcome e h \<noteq> None"
  shows "\<exists>s'. lm_turn e s = Some s' \<and> lm_state (fst s') =
    (if l = ''admin'' \<and> p = ''test'' then LOGINMGR_STATE_AUTH else LOGINMGR_STATE_UNAUTH)"
proof -
  let ?s = "lm_print e (''checking auth'' @ CRLF) s"
  obtain r where "module_loginmgr_print_welcome e (snd ?s) = Some r" using assms(2) by fast
  then show ?thesis using assms(1)
    by (simp add: lm_turn_def lm_at_def lm_turn_check_def Let_def lm_goto_def module_loginmgr_set_state_def split_beta)
qed

text \<open>A line editor that appends each key, a console that is a list of reads with a log of what was written, a file
  system without the file.\<close>

definition simple_le :: "string lineedit" where
  "simple_le = \<lparr>le_init = (\<lambda>_. []), le_set_pwchar = (\<lambda>c le. le), le_clear = (\<lambda>le. ([], [])), le_refresh = (\<lambda>le. (le, [Le_prompt])),
     le_keypress = (\<lambda>le k. if k = 13 then (True, le, []) else (False, le @ [char_of (unat k)], [Le_print [char_of (unat k)]])),
     le_get_line = (\<lambda>le. le)\<rparr>"

definition list_host :: "(u8 list list \<times> u8 list) stream" where
  "list_host = \<lparr>st_write = (\<lambda>h bs. (STREAM_RET_OK, fst h, snd h @ bs)),
     st_read = (\<lambda>h n. case fst h of [] \<Rightarrow> (STREAM_RET_EOF, None, h) | bs # bss \<Rightarrow> (STREAM_RET_OK, Some bs, bss, snd h)),
     st_write_timeout = (\<lambda>h bs t. (STREAM_RET_OK, Some (length bs), fst h, snd h @ bs)),
     st_read_timeout = (\<lambda>h n t. (STREAM_RET_TIMEOUT, None, h))\<rparr>"

definition list_env :: "(u8 list list \<times> u8 list, string, unit) lm_env" where
  "list_env = \<lparr>lm_host = list_host, lm_lineedit = simple_le, lm_issue = \<lparr>is_open = None, is_read = (\<lambda>_. None)\<rparr>\<rparr>"

text \<open>The run of the task on this console, as long as its turns return.\<close>

fun lm_trace :: "('h, 'le, 'f) lm_env \<Rightarrow> nat \<Rightarrow> ('le, 'h) lm_st list \<Rightarrow> ('le, 'h) lm_st list" where
  "lm_trace e (Suc n) (s # ss) = (case lm_turn e s of None \<Rightarrow> s # ss | Some s' \<Rightarrow> lm_trace e n (s' # s # ss))"
| "lm_trace e n tr = tr"

lemma lm_run_trace: "lm_run e tr \<Longrightarrow> lm_run e (lm_trace e n tr)"
  by (induction e n tr rule: lm_trace.induct) (auto split: option.split intro: run_task)

definition login_run :: "u8 list list \<Rightarrow> (string, u8 list list \<times> u8 list) lm_st list" where
  "login_run bss = lm_trace list_env (length bss + 1) [(module_loginmgr_init list_env, bss, [])]"

theorem shell_needs_credentials_witness:
  "password_entered list_env ''admin'' ''test'' (login_run [[32], [97, 100, 109, 105, 110, 13], [116, 101, 115, 116, 13]])"
proof -
  let ?tr = "login_run [[32], [97, 100, 109, 105, 110, 13], [116, 101, 115, 116, 13]]"
  have run: "lm_run list_env ?tr" unfolding login_run_def by (rule lm_run_trace) (rule run_init)
  have hd: "?tr = hd ?tr # tl ?tr" by code_simp
  have ok: "fst (lm_shell list_env (Shell_write [120]) (hd ?tr)) = STREAM_RET_OK" by code_simp
  show ?thesis
    using shell_needs_credentials [of list_env "hd ?tr" "tl ?tr" "Shell_write [120]" STREAM_RET_OK
        "snd (lm_shell list_env (Shell_write [120]) (hd ?tr))"] run hd ok
    by (metis prod.collapse stream_ret.distinct(5))
qed

text \<open>From the login prompt, a console on which a login and then a password are typed, each ended by the
  key that ends a line, lets the shell in exactly when they are "admin" and "test"; any other pair ends in the state
  that reports the failure. A read of the console gives the next piece that was typed, which fits into it, and the
  editor, a library that is not in the repository, appends the keys to its line; the welcome message ends.\<close>

theorem login_decides:
  assumes led: "lineedit_ok (lm_lineedit e) ent edit" and hok: "host_ok (lm_host e) inq"
    and issue: "\<And>h. module_loginmgr_print_welcome e h \<noteq> None"
    and start: "lm_at e LOGINMGR_STATE_LOGIN l0 [] s" and inq: "inq (snd s) = ls @ ps @ rest"
    and typed: "enters ent edit ls l" "enters ent edit ps p"
  shows "\<exists>s'. lm_turns e (length ls + length ps + 1) s = Some s' \<and>
    lm_state (fst s') = (if l = ''admin'' \<and> p = ''test'' then LOGINMGR_STATE_AUTH else LOGINMGR_STATE_UNAUTH)"
proof -
  let ?l = "strlcpy MODULE_LOGINMGR_LOGIN_LENGTH l"
  obtain s1 where s1: "lm_turns e (length ls) s = Some s1" "inq (snd s1) = ps @ rest"
    "lm_at e LOGINMGR_STATE_PASSWORD ?l [] s1"
    using lm_enter_line [OF led hok _ start inq] typed(1) by (auto simp: enters_def lm_next_def)
  obtain s2 where s2: "lm_turns e (length ps) s1 = Some s2" "lm_at e LOGINMGR_STATE_CHECK ?l p s2"
    using lm_enter_line [OF led hok _ s1(3,2)] typed(2) by (auto simp: enters_def lm_next_def)
  obtain s3 where s3: "lm_turn e s2 = Some s3"
    "lm_state (fst s3) = (if ?l = ''admin'' \<and> p = ''test'' then LOGINMGR_STATE_AUTH else LOGINMGR_STATE_UNAUTH)"
    using lm_check_turn [OF s2(2) issue] by blast
  have "lm_turns e (length ls + (length ps + 1)) s = Some s3"
    using s1(1) s2(1) s3(1) unfolding lm_turns_add by simp
  then show ?thesis using s3(2) by (auto simp: login_truncated add.assoc)
qed

lemma list_env_ok:
  "lineedit_ok (lm_lineedit list_env) 13 (\<lambda>l k. l @ [char_of (unat k)])" "host_ok (lm_host list_env) fst"
  "module_loginmgr_print_welcome list_env h \<noteq> None"
  by (simp_all add: list_env_def simple_le_def list_host_def lineedit_ok_def host_ok_def module_loginmgr_print_welcome_def)

definition login_asked :: "(string, u8 list list \<times> u8 list) lm_st" where
  "login_asked = (\<lparr>lm_le = [], lm_le_prompt = Some ''Login: '', lm_login = [], lm_state = LOGINMGR_STATE_LOGIN,
     lm_host_refresh_pending = False\<rparr>, [[97, 100], [109, 105, 110, 13], [116, 101, 115, 116, 13]], [])"

theorem login_decides_witness:
  "\<exists>s'. lm_turns list_env 4 login_asked = Some s' \<and> lm_state (fst s') = LOGINMGR_STATE_AUTH"
proof -
  let ?ls = "[[97, 100], [109, 105, 110, 13]] :: u8 list list" and ?ps = "[[116, 101, 115, 116, 13]] :: u8 list list"
  let ?edit = "\<lambda>l k :: u8. l @ [char_of (unat k)]"
  have at: "lm_at list_env LOGINMGR_STATE_LOGIN [] [] login_asked" by code_simp
  have inq: "fst (snd login_asked) = ?ls @ ?ps @ []" by (simp add: login_asked_def)
  have ls: "enters 13 ?edit ?ls ''admin''" and ps: "enters 13 ?edit ?ps ''test''" by code_simp+
  have n: "length ?ls + length ?ps + 1 = 4" by simp
  show ?thesis using login_decides [OF list_env_ok at inq ls ps] unfolding n by (simp del: lm_turns.simps)
qed

text \<open>Keys that follow the end of the login in the same read are dropped: a console that sends login and password at
  once is asked for the password again.\<close>

theorem keys_after_enter_dropped:
  assumes "lineedit_ok (lm_lineedit e) ent edit" "host_ok (lm_host e) inq" "lm_at e LOGINMGR_STATE_LOGIN l word s"
  shows "lm_keys e (ent # ks) s = lm_keys e [ent] s"
  using lm_key_enter(1) [OF assms] by auto

end
