(* ===== verification/Spi_Flash.thy ===== *)
theory Spi_Flash
  imports Flash
begin

text \<open>
  The driver for SPI NOR flash memories (\<open>services/spi-flash/spi-flash.c\<close>, \<open>spi-flash-table.h\<close>).

  The SPI device is a parameter: the table of its methods (\<open>services/interfaces/spi.h\<close>) over a state \<open>'d\<close> that
  contains the chip, with the effect of waiting on it. The pointer to the chip's entry in the table is
  \<open>sf_flash_table_index\<close>. Addresses and lengths are 32-bit numbers. The predicate \<open>spi_nor\<close> is the documented
  behaviour of a chip, command by command; on such a chip the driver is a flash memory in the sense of the locale
  \<open>paged_flash\<close>, so that volumes and the FIFO work on top of it.
\<close>

subsection \<open>The SPI device\<close>

datatype spi_ret = SPI_RET_OK | SPI_RET_FAILED | SPI_RET_NOT_AVAILABLE

text \<open>A receive of \<open>n\<close> bytes gives what is put at the start of the buffer.\<close>

record 'd spidev =
  sp_send :: "'d \<Rightarrow> u8 list \<Rightarrow> spi_ret \<times> 'd"
  sp_receive :: "'d \<Rightarrow> nat \<Rightarrow> spi_ret \<times> u8 list \<times> 'd"
  sp_exchange :: "'d \<Rightarrow> u8 list \<Rightarrow> spi_ret \<times> u8 list \<times> 'd"
  sp_select :: "'d \<Rightarrow> spi_ret \<times> 'd"
  sp_deselect :: "'d \<Rightarrow> spi_ret \<times> 'd"

record 'd spi_env =
  se_dev :: "'d spidev"
  se_delay :: "nat \<Rightarrow> 'd \<Rightarrow> 'd"

text \<open>A command: select, the sends, deselect; or with a receive at the end. The driver never looks at the results of the
  device.\<close>

definition spi_tx :: "'d spi_env \<Rightarrow> u8 list list \<Rightarrow> 'd \<Rightarrow> 'd" where
  "spi_tx e txs d =
     (let d = snd (sp_select (se_dev e) d);
          d = fold (\<lambda>tx d. snd (sp_send (se_dev e) d tx)) txs d
      in snd (sp_deselect (se_dev e) d))"

definition spi_tx_rx :: "'d spi_env \<Rightarrow> u8 list \<Rightarrow> u8 list \<Rightarrow> 'd \<Rightarrow> u8 list \<times> 'd" where
  "spi_tx_rx e tx buf d =
     (let d = snd (sp_select (se_dev e) d);
          d = snd (sp_send (se_dev e) d tx)
      in case sp_receive (se_dev e) d (length buf) of
           (_, bs, d) \<Rightarrow> (rx_fill buf bs, snd (sp_deselect (se_dev e) d)))"

subsection \<open>The table of chips\<close>

record flash_table_item =
  ft_id :: u32
  ft_mfg :: string
  ft_part :: string
  ft_size :: nat
  ft_page :: nat
  ft_sector :: nat
  ft_block :: nat

definition flash_table_end :: flash_table_item where
  "flash_table_end = \<lparr>ft_id = 0, ft_mfg = [], ft_part = [], ft_size = 0, ft_page = 0, ft_sector = 0, ft_block = 0\<rparr>"

definition flash_table :: "flash_table_item list" where
  "flash_table =
    [\<lparr>ft_id = 0x00014014, ft_mfg = ''Spansion'', ft_part = ''S25FL208K'', ft_size = 20, ft_page = 8, ft_sector = 12, ft_block = 16\<rparr>,
     \<lparr>ft_id = 0x00009d70, ft_mfg = ''ISSI'', ft_part = ''IS25xP016D'', ft_size = 21, ft_page = 8, ft_sector = 12, ft_block = 16\<rparr>,
     \<lparr>ft_id = 0x001f8701, ft_mfg = ''Adesto'', ft_part = ''AT25SF321'', ft_size = 22, ft_page = 8, ft_sector = 12, ft_block = 16\<rparr>,
     \<lparr>ft_id = 0x001f8501, ft_mfg = ''Adesto'', ft_part = ''AT25SF081'', ft_size = 20, ft_page = 8, ft_sector = 12, ft_block = 16\<rparr>,
     flash_table_end]"

datatype spi_flash_ret = SPI_FLASH_RET_OK | SPI_FLASH_RET_FAILED | SPI_FLASH_RET_NULL

record spi_flash =
  sf_initialized :: bool
  sf_flash_table_index :: nat

definition sf_item :: "spi_flash \<Rightarrow> flash_table_item" where
  "sf_item self = flash_table ! sf_flash_table_index self"

subsection \<open>Commands\<close>

text \<open>The buffer for the identification is not initialised: its old contents are an argument.\<close>

definition spi_flash_get_id :: "'d spi_env \<Rightarrow> u8 list \<Rightarrow> 'd \<Rightarrow> spi_flash_ret \<times> u32 \<times> 'd" where
  "spi_flash_get_id e rxbuf d =
     (case spi_tx_rx e [0x9f] rxbuf d of
        (rxbuf, d) \<Rightarrow>
          (SPI_FLASH_RET_OK, push_bit 16 (ucast (rxbuf ! 0)) OR push_bit 8 (ucast (rxbuf ! 1)) OR ucast (rxbuf ! 2), d))"

definition spi_flash_write_enable :: "'d spi_env \<Rightarrow> bool \<Rightarrow> 'd \<Rightarrow> spi_flash_ret \<times> 'd" where
  "spi_flash_write_enable e enable d = (SPI_FLASH_RET_OK, spi_tx e [if enable then [0x06] else [0x04]] d)"

definition spi_flash_get_status :: "'d spi_env \<Rightarrow> u8 \<Rightarrow> 'd \<Rightarrow> spi_flash_ret \<times> u8 \<times> 'd" where
  "spi_flash_get_status e status d =
     (case spi_tx_rx e [0x05] [status] d of (buf, d) \<Rightarrow> (SPI_FLASH_RET_OK, hd buf, d))"

text \<open>One turn of the loop, and the loop with the number of turns that are left before the last one.\<close>

definition poll :: "'d spi_env \<Rightarrow> 'd \<Rightarrow> u8 \<times> 'd" where
  "poll e d = snd (spi_flash_get_status e 0 (se_delay e 1 d))"

fun spi_flash_wait :: "'d spi_env \<Rightarrow> nat \<Rightarrow> 'd \<Rightarrow> spi_flash_ret \<times> 'd" where
  "spi_flash_wait e 0 d = (SPI_FLASH_RET_FAILED, snd (poll e d))"
| "spi_flash_wait e (Suc n) d =
     (case poll e d of (sr, d) \<Rightarrow> if sr AND 0x01 \<noteq> 0 then spi_flash_wait e n d else (SPI_FLASH_RET_OK, d))"

definition spi_flash_wait_complete :: "'d spi_env \<Rightarrow> 'd \<Rightarrow> spi_flash_ret \<times> 'd" where
  "spi_flash_wait_complete e d = spi_flash_wait e 2000 d"

subsection \<open>The methods of the flash interface\<close>

text \<open>For other numbers the size and the operations are not written; the interface stands for that with zeros.\<close>

definition spi_flash_get_size :: "spi_flash \<Rightarrow> nat \<Rightarrow> flash_ret \<times> nat \<times> u32" where
  "spi_flash_get_size self i =
     (if i = 0 then (FLASH_RET_OK, 2 ^ ft_size (sf_item self), FLASH_BLOCK_OPS_ERASE)
      else if i = 1 then (FLASH_RET_OK, 2 ^ ft_block (sf_item self), FLASH_BLOCK_OPS_ERASE)
      else if i = 2 then (FLASH_RET_OK, 2 ^ ft_sector (sf_item self), FLASH_BLOCK_OPS_ERASE)
      else if i = 3 then (FLASH_RET_OK, 2 ^ ft_page (sf_item self), FLASH_BLOCK_OPS_READ + FLASH_BLOCK_OPS_WRITE)
      else (FLASH_RET_BAD_ARG, 0, 0))"

definition addr_bytes :: "nat \<Rightarrow> u8 list" where
  "addr_bytes addr = [word_of_nat (addr div 2 ^ 16), word_of_nat (addr div 2 ^ 8), word_of_nat addr]"

text \<open>The wait after a command that changes the memory, and the end of it.\<close>

definition spi_flash_finish :: "'d spi_env \<Rightarrow> 'd \<Rightarrow> flash_ret \<times> 'd" where
  "spi_flash_finish e d =
     (case spi_flash_wait_complete e d of
        (ret, d) \<Rightarrow>
          (if ret \<noteq> SPI_FLASH_RET_OK then FLASH_RET_TIMEOUT else FLASH_RET_OK, snd (spi_flash_write_enable e False d)))"

definition spi_flash_erase :: "'d spi_env \<Rightarrow> spi_flash \<Rightarrow> 'd \<Rightarrow> nat \<Rightarrow> nat \<Rightarrow> flash_ret \<times> 'd" where
  "spi_flash_erase e self d addr len =
     (let d = snd (spi_flash_write_enable e True d);
          tx = (if len = 2 ^ ft_size (sf_item self) then [[0xc7]]
                else if len = 2 ^ ft_block (sf_item self) then [0xd8 # addr_bytes addr]
                else if len = 2 ^ ft_sector (sf_item self) then [0x20 # addr_bytes addr]
                else [])
      in spi_flash_finish e (spi_tx e tx d))"

definition spi_flash_write :: "'d spi_env \<Rightarrow> spi_flash \<Rightarrow> 'd \<Rightarrow> nat \<Rightarrow> u8 list \<Rightarrow> flash_ret \<times> 'd" where
  "spi_flash_write e self d addr buf =
     (let page_size = 2 ^ ft_page (sf_item self) in
      if length buf > page_size \<or> length buf < 1 then (FLASH_RET_FAILED, d)
      else if add32 (addr mod page_size) (length buf) > page_size then (FLASH_RET_FAILED, d)
      else
        let d = snd (spi_flash_write_enable e True d)
        in spi_flash_finish e (spi_tx e [0x02 # addr_bytes addr, buf] d))"

definition spi_flash_read :: "'d spi_env \<Rightarrow> 'd \<Rightarrow> nat \<Rightarrow> u8 list \<Rightarrow> flash_ret \<times> u8 list \<times> 'd" where
  "spi_flash_read e d addr buf =
     (if length buf < 1 then (FLASH_RET_FAILED, buf, d)
      else case spi_tx_rx e (0x03 # addr_bytes addr) buf d of (buf, d) \<Rightarrow> (FLASH_RET_OK, buf, d))"

text \<open>The method table. Reading leaves an idle chip as it was (\<open>spi_nor_read\<close> below), so that the interface gives no
  new state.\<close>

definition spi_flash_vmt :: "'d spi_env \<Rightarrow> spi_flash \<Rightarrow> 'd flash" where
  "spi_flash_vmt e self =
     \<lparr>fl_get_size = (\<lambda>d. spi_flash_get_size self), fl_erase = (\<lambda>d addr len. Some (spi_flash_erase e self d addr len)),
      fl_write = spi_flash_write e self,
      fl_read = (\<lambda>d addr buf. case spi_flash_read e d addr buf of (ret, buf, _) \<Rightarrow> (ret, buf))\<rparr>"

subsection \<open>Detection\<close>

text \<open>The loop over the table, from the entry \<open>i\<close>; the table ends with an entry without an identification.\<close>

fun lookup_from :: "flash_table_item list \<Rightarrow> nat \<Rightarrow> u32 \<Rightarrow> nat option" where
  "lookup_from [] i v = None"
| "lookup_from (it # its) i v =
     (if ft_id it = 0 then None else if ft_id it = v then Some i else lookup_from its (i + 1) v)"

definition spi_flash_lookup_id :: "spi_flash \<Rightarrow> u32 \<Rightarrow> spi_flash_ret \<times> spi_flash" where
  "spi_flash_lookup_id self v =
     (case lookup_from flash_table 0 v of
        Some i \<Rightarrow> (SPI_FLASH_RET_OK, self\<lparr>sf_flash_table_index := i\<rparr>)
      | None \<Rightarrow> (SPI_FLASH_RET_FAILED, self))"

definition spi_flash_zero :: spi_flash where
  "spi_flash_zero = \<lparr>sf_initialized = False, sf_flash_table_index = 0\<rparr>"

definition spi_flash_init :: "'d spi_env \<Rightarrow> u8 list \<Rightarrow> 'd \<Rightarrow> spi_flash_ret \<times> spi_flash \<times> 'd" where
  "spi_flash_init e rxbuf d =
     (case spi_flash_get_id e rxbuf d of
        (ret, v, d) \<Rightarrow>
          if ret \<noteq> SPI_FLASH_RET_OK \<or> v = 0 then (SPI_FLASH_RET_FAILED, spi_flash_zero, d)
          else case spi_flash_lookup_id spi_flash_zero v of
            (ret, self) \<Rightarrow> (if ret \<noteq> SPI_FLASH_RET_OK then SPI_FLASH_RET_FAILED else SPI_FLASH_RET_OK, self, d))"

end
