(* ===== verification/Spi_Flash_Props.thy ===== *)
theory Spi_Flash_Props
  imports Spi_Flash Flash_Fifo_Top
begin

text \<open>
  Theorems about the SPI flash driver: on a chip that behaves as documented it is a flash memory, and a volume on it
  carries the FIFO.
\<close>

subsection \<open>A chip that works\<close>

text \<open>What a chip shows: its contents, whether writing is enabled, how many ticks the operation in progress still takes.\<close>

record 'd chip_view =
  cv_ok :: "'d \<Rightarrow> bool"
  cv_mem :: "'d \<Rightarrow> u8 list"
  cv_wel :: "'d \<Rightarrow> bool"
  cv_busy :: "'d \<Rightarrow> nat"

text \<open>The state after a command: \<open>t\<close> bounds the time it takes.\<close>

definition chip_next :: "'d chip_view \<Rightarrow> u8 list \<Rightarrow> bool \<Rightarrow> nat \<Rightarrow> 'd \<Rightarrow> bool" where
  "chip_next v m w t d \<longleftrightarrow> cv_ok v d \<and> cv_mem v d = m \<and> cv_wel v d = w \<and> cv_busy v d \<le> t"

definition chip_idle :: "'d chip_view \<Rightarrow> 'd \<Rightarrow> bool" where
  "chip_idle v d \<longleftrightarrow> cv_ok v d \<and> cv_busy v d = 0"

text \<open>The documented commands of a chip whose operations take at most \<open>t\<close> ticks: waiting, status, write enable and
  disable, read, page program, block erase.\<close>

definition spi_nor :: "'d spi_env \<Rightarrow> 'd chip_view \<Rightarrow> flash_table_item \<Rightarrow> nat \<Rightarrow> bool" where
  "spi_nor e v it t \<longleftrightarrow>
     (\<forall>d. cv_ok v d \<longrightarrow> length (cv_mem v d) = 2 ^ ft_size it) \<and>
     (\<forall>d n. cv_ok v d \<longrightarrow> chip_next v (cv_mem v d) (cv_wel v d) (cv_busy v d - n) (se_delay e n d)) \<and>
     (\<forall>d b. cv_ok v d \<longrightarrow> (\<exists>s. spi_tx_rx e [0x05] [b] d = ([s], d) \<and> (s AND 1 = 0 \<longleftrightarrow> cv_busy v d = 0))) \<and>
     (\<forall>d. chip_idle v d \<longrightarrow> chip_next v (cv_mem v d) True 0 (spi_tx e [[0x06]] d)) \<and>
     (\<forall>d. chip_idle v d \<longrightarrow> chip_next v (cv_mem v d) False 0 (spi_tx e [[0x04]] d)) \<and>
     (\<forall>d. chip_idle v d \<longrightarrow> (\<forall>a buf. a + length buf \<le> 2 ^ ft_size it \<longrightarrow>
        spi_tx_rx e (0x03 # addr_bytes a) buf d = (take (length buf) (drop a (cv_mem v d)), d))) \<and>
     (\<forall>d. chip_idle v d \<and> cv_wel v d \<longrightarrow> (\<forall>a bs. a < 2 ^ ft_size it \<and> bs \<noteq> [] \<and>
        a mod 2 ^ ft_page it + length bs \<le> 2 ^ ft_page it \<longrightarrow>
        (\<exists>w. chip_next v (nor_write (cv_mem v d) a bs) w t (spi_tx e [0x02 # addr_bytes a, bs] d)))) \<and>
     (\<forall>d. chip_idle v d \<and> cv_wel v d \<longrightarrow> (\<forall>a. a < 2 ^ ft_size it \<and> a mod 2 ^ ft_block it = 0 \<longrightarrow>
        (\<exists>w. chip_next v (nor_erase (cv_mem v d) a (2 ^ ft_block it)) w t (spi_tx e [0xd8 # addr_bytes a] d))))"

lemma spi_nor_length: "spi_nor e v it t \<Longrightarrow> cv_ok v d \<Longrightarrow> length (cv_mem v d) = 2 ^ ft_size it"
  by (simp add: spi_nor_def)

lemma spi_nor_delay: "spi_nor e v it t \<Longrightarrow> cv_ok v d \<Longrightarrow> chip_next v (cv_mem v d) (cv_wel v d) (cv_busy v d - n) (se_delay e n d)"
  by (simp add: spi_nor_def)

lemma spi_nor_status:
  "spi_nor e v it t \<Longrightarrow> cv_ok v d \<Longrightarrow> \<exists>s. spi_tx_rx e [0x05] [b] d = ([s], d) \<and> (s AND 1 = 0 \<longleftrightarrow> cv_busy v d = 0)"
  by (simp add: spi_nor_def)

lemma spi_nor_enable:
  assumes "spi_nor e v it t" "chip_idle v d"
  shows "chip_next v (cv_mem v d) True 0 (spi_tx e [[0x06]] d)" "chip_next v (cv_mem v d) False 0 (spi_tx e [[0x04]] d)"
  using assms by (simp_all add: spi_nor_def)

text \<open>A read leaves the chip as it was.\<close>

lemma spi_nor_read:
  "spi_nor e v it t \<Longrightarrow> chip_idle v d \<Longrightarrow> a + length buf \<le> 2 ^ ft_size it \<Longrightarrow>
    spi_tx_rx e (0x03 # addr_bytes a) buf d = (take (length buf) (drop a (cv_mem v d)), d)"
  by (simp add: spi_nor_def)

lemma spi_nor_program:
  "spi_nor e v it t \<Longrightarrow> chip_idle v d \<Longrightarrow> cv_wel v d \<Longrightarrow> a < 2 ^ ft_size it \<Longrightarrow> bs \<noteq> [] \<Longrightarrow>
    a mod 2 ^ ft_page it + length bs \<le> 2 ^ ft_page it \<Longrightarrow>
    \<exists>w. chip_next v (nor_write (cv_mem v d) a bs) w t (spi_tx e [0x02 # addr_bytes a, bs] d)"
  by (simp add: spi_nor_def)

lemma spi_nor_erase:
  "spi_nor e v it t \<Longrightarrow> chip_idle v d \<Longrightarrow> cv_wel v d \<Longrightarrow> a < 2 ^ ft_size it \<Longrightarrow> a mod 2 ^ ft_block it = 0 \<Longrightarrow>
    \<exists>w. chip_next v (nor_erase (cv_mem v d) a (2 ^ ft_block it)) w t (spi_tx e [0xd8 # addr_bytes a] d)"
  by (simp add: spi_nor_def)

subsection \<open>Waiting\<close>

text \<open>A turn of the loop takes one tick off and tells whether the chip is still busy.\<close>

lemma poll_ok:
  assumes "spi_nor e v it t" "cv_ok v d"
  shows "\<exists>s d'. poll e d = (s, d') \<and> chip_next v (cv_mem v d) (cv_wel v d) (cv_busy v d - 1) d' \<and>
    (s AND 1 = 0 \<longleftrightarrow> cv_busy v d' = 0)"
proof -
  let ?d = "se_delay e 1 d"
  have d: "chip_next v (cv_mem v d) (cv_wel v d) (cv_busy v d - 1) ?d" by (rule spi_nor_delay [OF assms])
  then obtain s where "spi_tx_rx e [0x05] [0] ?d = ([s], ?d)" "s AND 1 = 0 \<longleftrightarrow> cv_busy v ?d = 0"
    using spi_nor_status [OF assms(1), of ?d 0] by (auto simp: chip_next_def)
  then show ?thesis using d by (simp add: poll_def spi_flash_get_status_def)
qed

lemma wait_ok:
  assumes "spi_nor e v it t" "cv_ok v d" "cv_busy v d \<le> n" "0 < n"
  shows "\<exists>d'. spi_flash_wait e n d = (SPI_FLASH_RET_OK, d') \<and> chip_next v (cv_mem v d) (cv_wel v d) 0 d'"
  using assms(2-)
proof (induction n arbitrary: d)
  case (Suc n)
  obtain s d' where p: "poll e d = (s, d')" "chip_next v (cv_mem v d) (cv_wel v d) (cv_busy v d - 1) d'"
    "s AND 1 = 0 \<longleftrightarrow> cv_busy v d' = 0" using poll_ok [OF assms(1) Suc.prems(1)] by auto
  show ?case
  proof (cases "cv_busy v d' = 0")
    case True
    then show ?thesis using p by (auto simp: chip_next_def)
  next
    case False
    then have "cv_busy v d' \<le> n" "0 < n" using p(2) Suc.prems(2) by (auto simp: chip_next_def)
    then show ?thesis using Suc.IH [of d'] p False by (auto simp: chip_next_def)
  qed
qed simp

lemma finish_ok:
  assumes "spi_nor e v it t" "t \<le> 2000" "chip_next v m w t d"
  shows "\<exists>d'. spi_flash_finish e d = (FLASH_RET_OK, d') \<and> chip_next v m False 0 d'"
proof -
  have "cv_ok v d" "cv_busy v d \<le> 2000" "cv_mem v d = m" using assms(2,3) by (auto simp: chip_next_def)
  then obtain d1 where d1: "spi_flash_wait e 2000 d = (SPI_FLASH_RET_OK, d1)" "chip_next v m (cv_wel v d) 0 d1"
    using wait_ok [OF assms(1), of d 2000] by auto
  then have "chip_next v m False 0 (spi_tx e [[0x04]] d1)"
    using spi_nor_enable(2) [OF assms(1), of d1] by (auto simp: chip_next_def chip_idle_def)
  then show ?thesis using d1(1) by (simp add: spi_flash_finish_def spi_flash_wait_complete_def spi_flash_write_enable_def)
qed

subsection \<open>The methods on a working chip\<close>

lemma chip_enabled:
  assumes "spi_nor e v it t" "chip_idle v d"
  shows "chip_idle v (spi_tx e [[0x06]] d)" "cv_wel v (spi_tx e [[0x06]] d)" "cv_mem v (spi_tx e [[0x06]] d) = cv_mem v d"
  using spi_nor_enable(1) [OF assms] by (auto simp: chip_next_def chip_idle_def)

lemma spi_write_ok:
  assumes nor: "spi_nor e v (sf_item self) t" "t \<le> 2000" and d: "chip_idle v d"
    and a: "addr < 2 ^ ft_size (sf_item self)" "bs \<noteq> []"
      "addr mod 2 ^ ft_page (sf_item self) + length bs \<le> 2 ^ ft_page (sf_item self)" "ft_page (sf_item self) < 32"
  shows "\<exists>d'. spi_flash_write e self d addr bs = (FLASH_RET_OK, d') \<and> chip_next v (nor_write (cv_mem v d) addr bs) False 0 d'"
proof -
  let ?P = "2 ^ ft_page (sf_item self) :: nat"
  note en = chip_enabled [OF nor(1) d]
  obtain w where "chip_next v (nor_write (cv_mem v d) addr bs) w t (spi_tx e [0x02 # addr_bytes addr, bs] (spi_tx e [[0x06]] d))"
    using spi_nor_program [OF nor(1) en(1,2) a(1-3)] en(3) by auto
  then obtain d' where d': "spi_flash_finish e (spi_tx e [0x02 # addr_bytes addr, bs] (spi_tx e [[0x06]] d)) = (FLASH_RET_OK, d')"
    "chip_next v (nor_write (cv_mem v d) addr bs) False 0 d'" using finish_ok [OF nor] by blast
  have "?P < 2 ^ 32" using a(4) by (rule power_strict_increasing) simp
  then have "add32 (addr mod ?P) (length bs) = addr mod ?P + length bs" using a(3) by (intro add32_small) linarith
  moreover have "length bs \<le> ?P" "\<not> length bs < 1" using a(2,3) by (auto simp: Suc_le_eq)
  ultimately show ?thesis
    using a(3) d' by (simp add: spi_flash_write_def spi_flash_write_enable_def Let_def)
qed

lemma spi_erase_ok:
  assumes nor: "spi_nor e v (sf_item self) t" "t \<le> 2000" and d: "chip_idle v d"
    and a: "addr < 2 ^ ft_size (sf_item self)" "addr mod 2 ^ ft_block (sf_item self) = 0"
      "ft_block (sf_item self) \<noteq> ft_size (sf_item self)"
  shows "\<exists>d'. spi_flash_erase e self d addr (2 ^ ft_block (sf_item self)) = (FLASH_RET_OK, d') \<and>
    chip_next v (nor_erase (cv_mem v d) addr (2 ^ ft_block (sf_item self))) False 0 d'"
proof -
  note en = chip_enabled [OF nor(1) d]
  obtain w where "chip_next v (nor_erase (cv_mem v d) addr (2 ^ ft_block (sf_item self))) w t
      (spi_tx e [0xd8 # addr_bytes addr] (spi_tx e [[0x06]] d))"
    using spi_nor_erase [OF nor(1) en(1,2) a(1,2)] en(3) by auto
  then show ?thesis
    using finish_ok [OF nor] a(3) by (simp add: spi_flash_erase_def spi_flash_write_enable_def Let_def)
qed

lemma spi_read_ok:
  assumes "spi_nor e v (sf_item self) t" "chip_idle v d" "addr + length buf \<le> 2 ^ ft_size (sf_item self)" "buf \<noteq> []"
  shows "spi_flash_read e d addr buf = (FLASH_RET_OK, take (length buf) (drop addr (cv_mem v d)), d)"
  using spi_nor_read [OF assms(1-3)] assms(4) by (cases buf) (simp_all add: spi_flash_read_def)

subsection \<open>The driver is a flash memory\<close>

lemma lookup_from_item:
  "lookup_from its i v = Some k \<Longrightarrow> i \<le> k \<and> k - i < length its \<and> ft_id (its ! (k - i)) = v \<and> v \<noteq> 0"
  by (induction its i v rule: lookup_from.induct) (auto split: if_splits simp: nth_Cons' not_less_eq_eq Suc_diff_Suc)

lemma sf_item_sizes:
  assumes "sf_flash_table_index self < 4"
  shows "ft_page (sf_item self) = 8" "ft_sector (sf_item self) = 12" "ft_block (sf_item self) = 16"
    "ft_size (sf_item self) = 20 \<or> ft_size (sf_item self) = 21 \<or> ft_size (sf_item self) = 22"
proof -
  have "sf_flash_table_index self \<in> {0, 1, 2, 3}" using assms by auto
  then show "ft_page (sf_item self) = 8" "ft_sector (sf_item self) = 12" "ft_block (sf_item self) = 16"
    "ft_size (sf_item self) = 20 \<or> ft_size (sf_item self) = 21 \<or> ft_size (sf_item self) = 22"
    by (auto simp: sf_item_def flash_table_def)
qed

text \<open>A detected chip has one of the entries of the table.\<close>

lemma init_item:
  assumes "spi_flash_init e rxbuf d = (SPI_FLASH_RET_OK, self, d')"
  shows "sf_flash_table_index self < 4"
proof -
  obtain v where "lookup_from flash_table 0 v = Some (sf_flash_table_index self)"
    using assms by (auto simp: spi_flash_init_def spi_flash_lookup_id_def split: prod.splits if_splits option.splits)
  from lookup_from_item [OF this] have "sf_flash_table_index self < 5" "sf_flash_table_index self \<noteq> 4"
    by (auto simp: flash_table_def flash_table_end_def)
  then show ?thesis by simp
qed

lemma spi_flash_paged:
  assumes nor: "spi_nor e v (sf_item self) t" "t \<le> 2000" and item: "sf_flash_table_index self < 4"
  shows "paged_flash (spi_flash_vmt e self) (chip_idle v) (cv_mem v) 65536 (2 ^ ft_size (sf_item self)) 256"
proof -
  note sz = sf_item_sizes [OF item]
  have pw: "(2 :: nat) ^ 16 = 65536" "(2 :: nat) ^ 8 = 256" by simp_all
  show ?thesis
  proof (unfold_locales, goal_cases)
    case (3)
    then show ?case using sz(4) by (elim disjE) simp_all
  next
    case (6 d)
    then show ?case using spi_nor_length [OF nor(1)] by (simp add: chip_idle_def)
  next
    case (10 d addr buf)
    then show ?case using spi_read_ok [OF nor(1) 10(1,3,4)] by (simp add: spi_flash_vmt_def)
  next
    case (11 d addr bs)
    have "addr mod 2 ^ ft_page (sf_item self) + length bs \<le> 2 ^ ft_page (sf_item self)" "ft_page (sf_item self) < 32"
      using 11(5) by (simp_all add: sz)
    from spi_write_ok [OF nor 11(1,2,4) this] show ?case by (auto simp: spi_flash_vmt_def chip_next_def chip_idle_def)
  next
    case (12 d addr)
    have "addr mod 2 ^ ft_block (sf_item self) = 0" "ft_block (sf_item self) \<noteq> ft_size (sf_item self)"
      using 12(3) sz(4) by (auto simp: sz(3))
    from spi_erase_ok [OF nor 12(1,2) this] show ?case by (auto simp: spi_flash_vmt_def chip_next_def chip_idle_def sz(3))
  qed (use sz(4) in \<open>auto simp: spi_flash_vmt_def spi_flash_get_size_def sz(1-3)\<close>)
qed

text \<open>A volume on the chip can be erased as a whole.\<close>

lemma spi_volume_flash:
  assumes "spi_nor e v (sf_item self) t" "t \<le> 2000" "sf_flash_table_index self < 4" "lv_ok lv 65536 (2 ^ ft_size (sf_item self))"
  shows "nor_flash (lv_vmt (spi_flash_vmt e self) lv) (chip_idle v) (\<lambda>d. lv_mem lv (cv_mem v d)) 65536 (lv_size lv) 256"
proof -
  have "flash_volume (spi_flash_vmt e self) (chip_idle v) (cv_mem v) 65536 (2 ^ ft_size (sf_item self)) 256 lv"
    using spi_flash_paged [OF assms(1-3)] assms(4) by (simp add: flash_volume_def flash_volume_axioms_def)
  from flash_volume.volume_flash [OF this] show ?thesis .
qed

text \<open>A write whose data is taken as a whole leaves the positions of the FIFO alone.\<close>

lemma write_all_same:
  assumes "flash_fifo_write fl d self buf = Some (ret, self', d', length buf)"
  shows "self' = self"
proof -
  obtain rem off d1 r d2 where w: "flash_fifo_write_loop fl d self 0 0 buf = Some (rem, off, d1)"
    "set_block_write_usage fl d1 self off = Some (r, d2)"
    using assms by (auto simp: flash_fifo_write_def split: option.splits)
  show ?thesis
  proof (cases "0 < rem")
    case True
    then have "length buf - rem = length buf" using assms w by (simp add: flash_fifo_write_def Let_def split_beta)
    moreover have "buf \<noteq> []"
    proof
      assume "buf = []"
      then have "flash_fifo_write_loop fl d self 0 0 [] = Some (rem, off, d1)" using w(1) by simp
      then show False using True
        by (subst (asm) flash_fifo_write_loop.simps) (auto split: option.splits prod.splits if_splits)
    qed
    ultimately show ?thesis using True by (cases buf) simp_all
  next
    case False
    then show ?thesis using assms w by (simp add: flash_fifo_write_def Let_def)
  qed
qed

text \<open>From an empty device to data that survives a restart.\<close>

lemma fifo_life:
  assumes fl: "nor_flash fl ok mem 65536 cap 256" and d: "ok d" and cap: "131072 \<le> cap"
    and buf: "64 dvd length buf" "length buf \<le> 65280"
  shows "\<exists>ff d1 d2 ff'. flash_fifo_setup fl d = Some ff \<and> flash_fifo_format fl d ff = Some d1 \<and>
    flash_fifo_write fl d1 ff buf = Some (FLASH_FIFO_RET_OK, ff, d2, length buf) \<and> ok d2 \<and>
    flash_fifo_init fl d2 True True = Some (FLASH_FIFO_RET_OK, ff', d2) \<and> fifo_queue ff' (mem d2) = ([], Some buf)"
proof -
  define ff where "ff = \<lparr>ff_flash_size = cap, ff_block_size = 65536, ff_page_size = 256, ff_blocks = cap div 65536,
    ff_tail = 0, ff_last = 0, ff_head = 0, ff_read_offset = 0\<rparr>"
  have cap_blk: "cap mod 65536 = 0" using fl by (simp add: nor_flash_def paged_flash_def)
  have blocks: "2 \<le> cap div 65536" using cap by simp
  have g: "ff_geom ff 65536 cap 256" "ff_units ff" "ff_unit ff = 64" "ff_space ff = 65280"
    using cap_blk blocks
    by (simp_all add: ff_def ff_geom_def ff_units_def ff_unit_def ff_space_def FLASH_FIFO_BITMAP_SIZE_def mod_eq_0_iff_dvd)
  have zero: "ff\<lparr>ff_tail := 0, ff_last := 0, ff_head := 0\<rparr> = ff"
    "ff\<lparr>ff_tail := 0, ff_last := 0, ff_head := 0, ff_read_offset := 0\<rparr> = ff" "2 \<le> ff_blocks ff" "ff_head ff = 0"
    "ff_last ff = 0" "ff_page_size ff = 256"
    using blocks by (simp_all add: ff_def)
  have size3: "\<exists>ops. fl_get_size fl x 3 = (FLASH_RET_OK, 256, ops)" if "ok x" for x
    using paged_flash.size_page [OF nor_flash.axioms(1) [OF fl] that] .
  have su: "flash_fifo_setup fl d = Some ff"
    using nor_flash.setup_ok [OF fl d g(1)] size3 [OF d] zero by auto
  obtain d1 where d1: "flash_fifo_format fl d ff = Some d1" "ok d1" "fifo_inv ff (mem d1)" "fifo_queue ff (mem d1) = ([], Some [])"
    using nor_flash.format_ok [OF fl d g(1) zero(3)] unfolding zero(1) by blast
  have "ff_unit ff dvd length buf" "ff_head ff + 2 < 2 ^ 32" using buf(1) by (simp_all add: g(3) zero(4))
  from nor_flash.fifo_write_refines [OF fl d1(2) g(1,2) d1(3) this(1) zero(3) this(2)] obtain ret ff2 d2 n where
    w: "flash_fifo_write fl d1 ff buf = Some (ret, ff2, d2, n)" "ok d2" "fifo_inv ff2 (mem d2)"
      "(ret, fifo_queue ff2 (mem d2), n) = queue_write (ff_space ff) (fifo_room ff) ([], Some []) buf"
    unfolding d1(4) by blast
  have q: "ret = FLASH_FIFO_RET_OK" "fifo_queue ff2 (mem d2) = ([], Some buf)" "n = length buf"
    using w(4) buf(2) by (simp_all add: queue_write_def g(4))
  have same: "ff2 = ff" using write_all_same w(1) q(3) by metis
  obtain ops where sz: "fl_get_size fl d2 3 = (FLASH_RET_OK, ff_page_size ff, ops)" using size3 [OF w(2)] zero(6) by auto
  have "ff_last ff \<le> ff_head ff" by (simp add: zero)
  from nor_flash.init_restart [OF fl w(2) g(1) sz w(3) [unfolded same] this] obtain ff' where
    "flash_fifo_init fl d2 True True = Some (FLASH_FIFO_RET_OK, ff', d2)" "fifo_queue ff' (mem d2) = fifo_queue ff (mem d2)"
    by blast
  then show ?thesis using su d1(1) w(1,2) q same by auto
qed

subsection \<open>A chip, byte by byte\<close>

text \<open>The bytes received since the chip was selected, and what it does when it is deselected.\<close>

record nor_chip =
  nc_mem :: "u8 list"
  nc_wel :: bool
  nc_busy :: nat
  nc_rx :: "u8 list"

definition nc_addr :: "u8 list \<Rightarrow> nat" where
  "nc_addr bs = unat (bs ! 1) * 2 ^ 16 + unat (bs ! 2) * 2 ^ 8 + unat (bs ! 3)"

definition nc_reply :: "flash_table_item \<Rightarrow> nor_chip \<Rightarrow> nat \<Rightarrow> u8 list" where
  "nc_reply it c n =
     (if nc_rx c = [0x9f] then take n [ucast (drop_bit 16 (ft_id it)), ucast (drop_bit 8 (ft_id it)), ucast (ft_id it)]
      else if nc_rx c = [0x05] then replicate n (if nc_busy c = 0 then 0 else 1)
      else if nc_busy c = 0 \<and> length (nc_rx c) = 4 \<and> hd (nc_rx c) = 0x03 then take n (drop (nc_addr (nc_rx c)) (nc_mem c))
      else [])"

definition nc_run :: "nor_chip \<Rightarrow> nor_chip" where
  "nc_run c =
     (if nc_busy c \<noteq> 0 then c
      else if nc_rx c = [0x06] then c\<lparr>nc_wel := True\<rparr>
      else if nc_rx c = [0x04] then c\<lparr>nc_wel := False\<rparr>
      else if nc_wel c \<and> 4 < length (nc_rx c) \<and> hd (nc_rx c) = 0x02 then
        c\<lparr>nc_mem := nor_write (nc_mem c) (nc_addr (nc_rx c)) (drop 4 (nc_rx c)), nc_wel := False, nc_busy := 3\<rparr>
      else if nc_wel c \<and> length (nc_rx c) = 4 \<and> hd (nc_rx c) = 0xd8 then
        c\<lparr>nc_mem := nor_erase (nc_mem c) (nc_addr (nc_rx c)) 65536, nc_wel := False, nc_busy := 1500\<rparr>
      else c)"

definition nor_chip_env :: "flash_table_item \<Rightarrow> nor_chip spi_env" where
  "nor_chip_env it = \<lparr>se_dev =
      \<lparr>sp_send = (\<lambda>c bs. (SPI_RET_OK, c\<lparr>nc_rx := nc_rx c @ bs\<rparr>)), sp_receive = (\<lambda>c n. (SPI_RET_OK, nc_reply it c n, c)),
       sp_exchange = (\<lambda>c bs. (SPI_RET_FAILED, [], c)), sp_select = (\<lambda>c. (SPI_RET_OK, c\<lparr>nc_rx := []\<rparr>)),
       sp_deselect = (\<lambda>c. (SPI_RET_OK, (nc_run c)\<lparr>nc_rx := []\<rparr>))\<rparr>,
     se_delay = (\<lambda>n c. c\<lparr>nc_busy := nc_busy c - n\<rparr>)\<rparr>"

definition nor_chip_view :: "nat \<Rightarrow> nor_chip chip_view" where
  "nor_chip_view cap = \<lparr>cv_ok = (\<lambda>c. nc_rx c = [] \<and> length (nc_mem c) = cap), cv_mem = nc_mem, cv_wel = nc_wel, cv_busy = nc_busy\<rparr>"

lemma nc_addr_bytes:
  assumes "a < 2 ^ 24"
  shows "nc_addr (c # addr_bytes a @ bs) = a"
proof -
  have "a div 2 ^ 16 < 256" using assms by (simp add: less_mult_imp_div_less)
  then have t: "a div 65536 mod 256 = a div 65536" by simp
  have d: "a div 256 div 256 = a div 65536" by (simp add: div_mult2_eq [symmetric])
  have "a = a div 256 * 256 + a mod 256" "a div 256 = a div 65536 * 256 + a div 256 mod 256"
    unfolding d [symmetric] by simp_all
  then have "a div 65536 * 65536 + a div 256 mod 256 * 256 + a mod 256 = a" by linarith
  then show ?thesis by (simp add: nc_addr_def addr_bytes_def unsigned_of_nat take_bit_eq_mod t)
qed

lemma spi_tx_chip:
  "spi_tx (nor_chip_env it) txs c = (nc_run (c\<lparr>nc_rx := concat txs\<rparr>))\<lparr>nc_rx := []\<rparr>"
proof -
  have "fold (\<lambda>tx c. snd (sp_send (se_dev (nor_chip_env it)) c tx)) txs c' = c'\<lparr>nc_rx := nc_rx c' @ concat txs\<rparr>" for c'
    by (induction txs arbitrary: c') (simp_all add: nor_chip_env_def)
  then show ?thesis by (simp add: spi_tx_def) (simp add: nor_chip_env_def)
qed

lemma spi_tx_rx_chip:
  "spi_tx_rx (nor_chip_env it) tx buf c =
    (rx_fill buf (nc_reply it (c\<lparr>nc_rx := tx\<rparr>) (length buf)), (nc_run (c\<lparr>nc_rx := tx\<rparr>))\<lparr>nc_rx := []\<rparr>)"
  by (simp add: spi_tx_rx_def nor_chip_env_def Let_def)

lemma nor_chip_works:
  assumes "it = sf_item self" "sf_flash_table_index self < 4"
  shows "spi_nor (nor_chip_env it) (nor_chip_view (2 ^ ft_size it)) it 2000"
proof -
  note sz = sf_item_sizes [OF assms(2), folded assms(1)]
  let ?cap = "2 ^ ft_size it :: nat"
  have cap: "?cap < 2 ^ 24" using sz(4) by (elim disjE) simp_all
  have addr: "nc_addr (x # addr_bytes a @ bs) = a" if "a \<le> ?cap" for x a bs using that cap by (intro nc_addr_bytes) simp
  have addr0: "nc_addr (x # addr_bytes a) = a" if "a \<le> ?cap" for x a using addr [OF that, of x "[]"] by simp
  have len: "length (addr_bytes a) = 3" for a by (simp add: addr_bytes_def)
  have tail: "drop 3 (addr_bytes a @ bs) = bs" for a bs by (simp add: len)
  have in_page: "a + length bs \<le> ?cap" if "a < ?cap" "a mod 256 + length bs \<le> 256" for a and bs :: "u8 list"
  proof -
    have "256 dvd ?cap" using sz(4) by (elim disjE) simp_all
    then have "a - a mod 256 + 256 \<le> ?cap" using that(1) block_inside [of "a - a mod 256" ?cap 256] by (simp add: mod_eq_0_iff_dvd)
    then show ?thesis using that(2) by linarith
  qed
  have in_block: "a + 65536 \<le> ?cap" if "a < ?cap" "a mod 65536 = 0" for a
    using sz(4) by (intro block_inside [OF that]) auto
  have rd: "rx_fill buf (take (length buf) (drop a m)) = take (length buf) (drop a m)" if "a + length buf \<le> length m" for buf a m
    using that by (simp add: rx_fill_def)
  show ?thesis
    unfolding spi_nor_def
  proof (intro conjI allI impI, goal_cases)
    case (2 d n)
    then show ?case by (simp add: nor_chip_view_def chip_next_def nor_chip_env_def)
  next
    case (3 d b)
    then show ?case by (auto simp: nor_chip_view_def spi_tx_rx_chip nc_run_def nc_reply_def rx_fill_def)
  qed (simp_all add: nor_chip_view_def chip_idle_def chip_next_def spi_tx_chip spi_tx_rx_chip nc_run_def nc_reply_def
      sz(1,3) len tail addr addr0 rd in_page in_block ex_bool_eq)
qed

text \<open>Detecting the chip.\<close>

lemma table_ids:
  assumes "i < 4"
  shows "lookup_from flash_table 0 (ft_id (flash_table ! i)) = Some i \<and> ft_id (flash_table ! i) \<noteq> 0 \<and>
    push_bit 16 (ucast (ucast (drop_bit 16 (ft_id (flash_table ! i))) :: u8)) OR
    push_bit 8 (ucast (ucast (drop_bit 8 (ft_id (flash_table ! i))) :: u8)) OR
    ucast (ucast (ft_id (flash_table ! i)) :: u8) = ft_id (flash_table ! i)"
proof -
  have "i = 0 \<or> i = 1 \<or> i = 2 \<or> i = 3" using assms by auto
  then show ?thesis by (elim disjE; hypsubst) code_simp+
qed

lemma nor_chip_detected:
  assumes "i < 4" "length rxbuf = 3"
  shows "spi_flash_init (nor_chip_env (flash_table ! i)) rxbuf c =
    (SPI_FLASH_RET_OK, \<lparr>sf_initialized = False, sf_flash_table_index = i\<rparr>,
      (nc_run (c\<lparr>nc_rx := [0x9f]\<rparr>))\<lparr>nc_rx := []\<rparr>)"
proof -
  have fill: "rx_fill rxbuf [x, y, z] = [x, y, z]" for x y z using assms(2) by (simp add: rx_fill_def)
  have "spi_flash_get_id (nor_chip_env (flash_table ! i)) rxbuf c =
      (SPI_FLASH_RET_OK, ft_id (flash_table ! i), (nc_run (c\<lparr>nc_rx := [0x9f]\<rparr>))\<lparr>nc_rx := []\<rparr>)"
    using table_ids [OF assms(1)] assms(2) by (simp add: spi_flash_get_id_def spi_tx_rx_chip nc_reply_def fill)
  then show ?thesis
    using table_ids [OF assms(1)] by (simp add: spi_flash_init_def spi_flash_lookup_id_def spi_flash_zero_def)
qed

definition blank_chip :: nor_chip where
  "blank_chip = \<lparr>nc_mem = replicate (2 ^ 20) 0, nc_wel = False, nc_busy = 0, nc_rx = []\<rparr>"

subsection \<open>Properties\<close>

text \<open>Property C25. On a chip that was detected and whose commands work as documented and end within two thousand ticks, the
  driver keeps what the flash interface promises for calls that keep to its blocks: sizes, reads, writes inside of a
  page that only clear bits, erasing an aligned block. An erase that is not aligned, for which the interface promises an
  error, is not part of this: the driver has no check and reports success. And every volume of whole blocks on it is a flash memory that can be erased as a whole.\<close>

theorem spi_flash_is_flash:
  assumes "spi_flash_init e rxbuf d0 = (SPI_FLASH_RET_OK, self, d)" "spi_nor e v (sf_item self) t" "t \<le> 2000"
  shows "paged_flash (spi_flash_vmt e self) (chip_idle v) (cv_mem v) 65536 (2 ^ ft_size (sf_item self)) 256 \<and>
    (lv_ok lv 65536 (2 ^ ft_size (sf_item self)) \<longrightarrow>
      nor_flash (lv_vmt (spi_flash_vmt e self) lv) (chip_idle v) (\<lambda>d. lv_mem lv (cv_mem v d)) 65536 (lv_size lv) 256)"
  using spi_flash_paged [OF assms(2,3) init_item [OF assms(1)]] spi_volume_flash [OF assms(2,3) init_item [OF assms(1)]]
  by blast

theorem spi_flash_is_flash_witness:
  "paged_flash (spi_flash_vmt (nor_chip_env (flash_table ! 3)) \<lparr>sf_initialized = False, sf_flash_table_index = 3\<rparr>)
    (chip_idle (nor_chip_view (2 ^ 20))) nc_mem 65536 (2 ^ 20) 256"
proof -
  let ?self = "\<lparr>sf_initialized = False, sf_flash_table_index = 3\<rparr>" and ?it = "flash_table ! 3"
  have it: "sf_item ?self = ?it" "ft_size ?it = 20" by (simp_all add: sf_item_def flash_table_def)
  have nor: "spi_nor (nor_chip_env ?it) (nor_chip_view (2 ^ 20)) (sf_item ?self) 2000"
    using nor_chip_works [of ?it ?self] it by simp
  have init: "spi_flash_init (nor_chip_env ?it) [0, 0, 0] blank_chip = (SPI_FLASH_RET_OK, ?self,
      (nc_run (blank_chip\<lparr>nc_rx := [0x9f]\<rparr>))\<lparr>nc_rx := []\<rparr>)" by (rule nor_chip_detected) simp_all
  have view: "cv_mem (nor_chip_view (2 ^ 20)) = nc_mem" by (simp add: nor_chip_view_def)
  show ?thesis using spi_flash_is_flash [OF init nor order_refl] unfolding it view by blast
qed

text \<open>Property C26. The layers together: a FIFO in a volume of at least two blocks on a chip that works. Formatting it and
  writing whole units that fit into a block succeeds, and when everything is initialised again from the chip, the FIFO
  is found with exactly this data.\<close>

theorem fifo_on_spi_flash:
  assumes "spi_flash_init e rxbuf d0 = (SPI_FLASH_RET_OK, self, d00)" "spi_nor e v (sf_item self) t" "t \<le> 2000"
    and "lv_ok lv 65536 (2 ^ ft_size (sf_item self))" "131072 \<le> lv_size lv" "chip_idle v d"
    and "64 dvd length buf" "length buf \<le> 65280"
  shows "\<exists>ff d1 d2 ff'. flash_fifo_setup (lv_vmt (spi_flash_vmt e self) lv) d = Some ff \<and>
    flash_fifo_format (lv_vmt (spi_flash_vmt e self) lv) d ff = Some d1 \<and>
    flash_fifo_write (lv_vmt (spi_flash_vmt e self) lv) d1 ff buf = Some (FLASH_FIFO_RET_OK, ff, d2, length buf) \<and>
    chip_idle v d2 \<and>
    flash_fifo_init (lv_vmt (spi_flash_vmt e self) lv) d2 True True = Some (FLASH_FIFO_RET_OK, ff', d2) \<and>
    fifo_queue ff' (lv_mem lv (cv_mem v d2)) = ([], Some buf)"
  using fifo_life [OF spi_volume_flash [OF assms(2,3) init_item [OF assms(1)] assms(4)] assms(6,5,7,8)] .

theorem fifo_on_spi_flash_witness:
  "\<exists>ff d1 d2. flash_fifo_format (lv_vmt (spi_flash_vmt (nor_chip_env (flash_table ! 0)) spi_flash_zero) (example_lv 65536 131072))
      blank_chip ff = Some d1 \<and>
    flash_fifo_write (lv_vmt (spi_flash_vmt (nor_chip_env (flash_table ! 0)) spi_flash_zero) (example_lv 65536 131072))
      d1 ff (replicate 128 7) = Some (FLASH_FIFO_RET_OK, ff, d2, 128)"
proof -
  let ?it = "flash_table ! 0" and ?lv = "example_lv 65536 131072"
  have it: "sf_item spi_flash_zero = ?it" "ft_size ?it = 20" by (simp_all add: sf_item_def spi_flash_zero_def flash_table_def)
  have nor: "spi_nor (nor_chip_env ?it) (nor_chip_view (2 ^ 20)) (sf_item spi_flash_zero) 2000"
    using nor_chip_works [of ?it spi_flash_zero] it by (simp add: spi_flash_zero_def)
  have init: "spi_flash_init (nor_chip_env ?it) [0, 0, 0] blank_chip = (SPI_FLASH_RET_OK, spi_flash_zero,
      (nc_run (blank_chip\<lparr>nc_rx := [0x9f]\<rparr>))\<lparr>nc_rx := []\<rparr>)"
    using nor_chip_detected [of 0 "[0, 0, 0]"] by (simp add: spi_flash_zero_def)
  have lv: "lv_ok ?lv 65536 (2 ^ ft_size (sf_item spi_flash_zero))" "131072 \<le> lv_size ?lv"
    unfolding it by (simp_all add: lv_ok_def example_lv_def)
  have idle: "chip_idle (nor_chip_view (2 ^ 20)) blank_chip"
    by (simp add: chip_idle_def nor_chip_view_def blank_chip_def)
  have n: "length (replicate 128 (7 :: u8)) = 128" "64 dvd length (replicate 128 (7 :: u8))"
    "length (replicate 128 (7 :: u8)) \<le> 65280" by simp_all
  show ?thesis using fifo_on_spi_flash [OF init nor order_refl lv idle n(2,3)] unfolding n(1) by blast
qed

subsection \<open>What the driver leaves out\<close>

text \<open>An erase whose length is not the chip, a block or a sector does nothing and reports success.\<close>

theorem odd_erase_succeeds:
  assumes "spi_nor e v (sf_item self) t" "chip_idle v d"
    and "spi_tx e [] (spi_tx e [[0x06]] d) = spi_tx e [[0x06]] d"
    and "len \<notin> {2 ^ ft_size (sf_item self), 2 ^ ft_block (sf_item self), 2 ^ ft_sector (sf_item self)}"
  shows "\<exists>d'. spi_flash_erase e self d addr len = (FLASH_RET_OK, d') \<and> cv_mem v d' = cv_mem v d"
proof -
  note en = chip_enabled [OF assms(1,2)]
  let ?d = "spi_tx e [[0x06]] d"
  have ok: "cv_ok v ?d" "cv_busy v ?d = 0" using en(1) by (simp_all add: chip_idle_def)
  obtain d1 where d1: "spi_flash_wait e 2000 ?d = (SPI_FLASH_RET_OK, d1)" "chip_next v (cv_mem v d) (cv_wel v ?d) 0 d1"
    using wait_ok [OF assms(1) ok(1), of 2000] ok(2) en(3) by auto
  then have "cv_mem v (spi_tx e [[0x04]] d1) = cv_mem v d"
    using spi_nor_enable(2) [OF assms(1), of d1] by (auto simp: chip_next_def chip_idle_def)
  then show ?thesis using assms(3,4) d1(1)
    by (simp add: spi_flash_erase_def spi_flash_finish_def spi_flash_wait_complete_def spi_flash_write_enable_def)
qed

end
