(* ===== verification/Data_Process.thy ===== *)
theory Data_Process
  imports Prelude
begin

text \<open>
  Flow graphs of data (\<open>services/data-process/data-process.c\<close>): nodes with outputs and inputs. An output hands a piece
  of data to all connected inputs, one after the other: it sets the pointer of the input to the data, gives the
  semaphore \<open>data_can_read\<close> of the input and waits for its \<open>data_has_read\<close>; the input takes the first, copies the
  piece and gives the second.

  Inputs are numbers, pointers to pieces of data are numbers (addresses in \<open>dp_mem\<close>), and so are pointers to contents.
  The binary semaphores of the kernel are Booleans: giving sets one, taking waits until it is set and clears it. The
  program points of the tasks that write and read are explicit (\<open>dp_wpc\<close>, \<open>dp_rpc\<close>); each step is a definition, and
  \<open>None\<close> for a step is a task that waits. Allocation is a parameter. The outer \<open>None\<close> of the graph's operations is a
  fault or a loop that does not end.
\<close>

subsection \<open>Data, inputs, outputs\<close>

datatype dp_ret = DATA_PROCESS_RET_OK | DATA_PROCESS_RET_FAILED

datatype dp_data_type = DP_DATA_TYPE_UINT32 | DP_DATA_TYPE_INT32 | DP_DATA_TYPE_FLOAT | DP_DATA_TYPE_BYTE

definition DATA_PROCESS_MAX_INPUTS :: nat where "DATA_PROCESS_MAX_INPUTS = 4"
definition DP_NODE_NAME_MAX_LEN :: nat where "DP_NODE_NAME_MAX_LEN = 16"

record dp_data =
  dd_content :: "nat option"
  dd_len :: nat
  dd_flags :: nat
  dd_type :: dp_data_type

record dp_input =
  di_initialized :: bool
  di_output :: "nat option"
  di_data :: "nat option"
  di_can_read :: bool
  di_has_read :: bool
  di_type :: dp_data_type

record dp_output =
  do_initialized :: bool
  do_inputs :: "nat option list"
  do_type :: dp_data_type

text \<open>Creating the semaphores can fail; a new one is not given.\<close>

definition dp_input_init :: "bool \<Rightarrow> dp_data_type \<Rightarrow> dp_ret \<times> dp_input" where
  "dp_input_init mem type =
     (if mem then DATA_PROCESS_RET_OK else DATA_PROCESS_RET_FAILED,
      \<lparr>di_initialized = mem, di_output = None, di_data = None, di_can_read = False, di_has_read = False, di_type = type\<rparr>)"

definition dp_input_free :: "dp_input \<Rightarrow> dp_ret \<times> dp_input" where
  "dp_input_free self =
     (if \<not> di_initialized self then (DATA_PROCESS_RET_FAILED, self)
      else (DATA_PROCESS_RET_OK, self\<lparr>di_initialized := False\<rparr>))"

definition dp_input_is_connected :: "dp_input \<Rightarrow> dp_ret" where
  "dp_input_is_connected self = DATA_PROCESS_RET_OK"

definition dp_output_init :: "dp_data_type \<Rightarrow> dp_ret \<times> dp_output" where
  "dp_output_init type = (DATA_PROCESS_RET_OK,
     \<lparr>do_initialized = True, do_inputs = replicate DATA_PROCESS_MAX_INPUTS None, do_type = type\<rparr>)"

definition dp_output_free :: "dp_output \<Rightarrow> dp_ret \<times> dp_output" where
  "dp_output_free self =
     (if \<not> do_initialized self then (DATA_PROCESS_RET_FAILED, self)
      else (DATA_PROCESS_RET_OK, self\<lparr>do_initialized := False\<rparr>))"

text \<open>The test compares the array itself with \<open>NULL\<close>.\<close>

definition dp_output_is_connected :: "dp_output \<Rightarrow> bool" where
  "dp_output_is_connected self = True"

text \<open>The numbers of the input and of the output are their addresses.\<close>

definition dp_connect_input_to_output ::
  "nat \<Rightarrow> dp_input \<Rightarrow> nat \<Rightarrow> dp_output \<Rightarrow> dp_ret \<times> dp_input \<times> dp_output" where
  "dp_connect_input_to_output n self m output =
     (if di_type self \<noteq> do_type output then (DATA_PROCESS_RET_FAILED, self, output)
      else case find_index (\<lambda>i. i = None) (do_inputs output) of
          Some i \<Rightarrow> (DATA_PROCESS_RET_OK, self\<lparr>di_output := Some m\<rparr>, output\<lparr>do_inputs := (do_inputs output)[i := Some n]\<rparr>)
        | None \<Rightarrow> (DATA_PROCESS_RET_FAILED, self, output))"

subsection \<open>The graph\<close>

datatype dp_node_type = DP_NODE_CONSTANT_SOURCE | DP_NODE_SENSOR_SOURCE | DP_NODE_STATISTICS_NODE | DP_NODE_LOG_SINK
  | DP_NODE_CSV_SERIALIZE

record dp_graph_node =
  dn_type :: dp_node_type
  dn_node :: nat
  dn_name :: string

record dp_graph =
  dg_initialized :: bool
  dg_nodes :: "dp_graph_node list"

definition dp_graph_init :: "dp_ret \<times> dp_graph" where
  "dp_graph_init = (DATA_PROCESS_RET_OK, \<lparr>dg_initialized = True, dg_nodes = []\<rparr>)"

text \<open>The checks of \<open>initialized\<close> in the graph's operations assign: they set the flag and never fail.\<close>

definition dp_graph_free :: "dp_graph \<Rightarrow> dp_ret \<times> dp_graph" where
  "dp_graph_free self =
     (let self = self\<lparr>dg_initialized := True\<rparr>
      in (DATA_PROCESS_RET_OK, self\<lparr>dg_initialized := False\<rparr>))"

text \<open>A name that does not fit is written behind the node.\<close>

definition dp_graph_add_node ::
  "bool \<Rightarrow> dp_graph \<Rightarrow> nat \<Rightarrow> dp_node_type \<Rightarrow> string \<Rightarrow> (dp_ret \<times> dp_graph) option" where
  "dp_graph_add_node mem self node type name =
     (let self = self\<lparr>dg_initialized := True\<rparr> in
      if \<not> mem then Some (DATA_PROCESS_RET_FAILED, self)
      else if DP_NODE_NAME_MAX_LEN \<le> length name then None
      else Some (DATA_PROCESS_RET_OK,
        self\<lparr>dg_nodes := dg_nodes self @ [\<lparr>dn_type = type, dn_node = node, dn_name = name\<rparr>]\<rparr>))"

text \<open>A node is taken for the requested one when its pointer is the same or its name is another one.\<close>

definition dp_is_node :: "nat \<Rightarrow> string option \<Rightarrow> dp_graph_node \<Rightarrow> bool" where
  "dp_is_node node name n \<longleftrightarrow> dn_node n = node \<or> (case name of None \<Rightarrow> False | Some s \<Rightarrow> s \<noteq> dn_name n)"

text \<open>The loop over the list stays at the first node.\<close>

definition dp_graph_remove_node :: "dp_graph \<Rightarrow> nat \<Rightarrow> string option \<Rightarrow> (dp_ret \<times> dp_graph) option" where
  "dp_graph_remove_node self node name =
     (let self = self\<lparr>dg_initialized := True\<rparr> in
      case dg_nodes self of
        [] \<Rightarrow> None
      | [n] \<Rightarrow>
          if dp_is_node node name n then Some (DATA_PROCESS_RET_OK, self\<lparr>dg_nodes := []\<rparr>)
          else Some (DATA_PROCESS_RET_FAILED, self)
      | cur # n # ns \<Rightarrow>
          if dp_is_node node name n then Some (DATA_PROCESS_RET_OK, self\<lparr>dg_nodes := cur # ns\<rparr>) else None)"

subsection \<open>Writing and reading\<close>

text \<open>The task that writes: outside of \<open>dp_output_write\<close> (with the result of the last call), at the head of the loop,
  before it gives \<open>data_can_read\<close>, before it takes \<open>data_has_read\<close>. Each holds the pointer to the data and the index.\<close>

datatype dp_wpc = W_out dp_ret | W_loop nat nat | W_give nat nat | W_take nat nat

text \<open>A task that reads: outside of \<open>dp_input_read\<close>, before it takes \<open>data_can_read\<close>, before the copy, before it gives
  \<open>data_has_read\<close> with the copy that it made.\<close>

datatype dp_rpc = R_out | R_take | R_copy | R_give dp_data

record dp_sys =
  dp_mem :: "nat \<Rightarrow> dp_data"
  dp_out :: dp_output
  dp_ins :: "dp_input list"
  dp_w :: dp_wpc
  dp_r :: "dp_rpc list"

definition dp_set_in :: "nat \<Rightarrow> (dp_input \<Rightarrow> dp_input) \<Rightarrow> dp_sys \<Rightarrow> dp_sys" where
  "dp_set_in j f s = s\<lparr>dp_ins := (dp_ins s)[j := f (dp_ins s ! j)]\<rparr>"

definition dp_set_r :: "nat \<Rightarrow> dp_rpc \<Rightarrow> dp_sys \<Rightarrow> dp_sys" where
  "dp_set_r j pc s = s\<lparr>dp_r := (dp_r s)[j := pc]\<rparr>"

definition dp_write_loop :: "nat \<Rightarrow> nat \<Rightarrow> dp_sys \<Rightarrow> dp_sys" where
  "dp_write_loop p i s =
     (if DATA_PROCESS_MAX_INPUTS \<le> i then s\<lparr>dp_w := W_out DATA_PROCESS_RET_OK\<rparr>
      else case do_inputs (dp_out s) ! i of
          None \<Rightarrow> s\<lparr>dp_w := W_loop p (i + 1)\<rparr>
        | Some j \<Rightarrow>
            if \<not> (dd_type (dp_mem s p) = do_type (dp_out s) \<and> dd_type (dp_mem s p) = di_type (dp_ins s ! j))
            then s\<lparr>dp_w := W_out DATA_PROCESS_RET_FAILED\<rparr>
            else (dp_set_in j (di_data_update (\<lambda>_. Some p)) s)\<lparr>dp_w := W_give p i\<rparr>)"

definition dp_output_write_step :: "dp_sys \<Rightarrow> dp_sys option" where
  "dp_output_write_step s =
     (case dp_w s of
        W_out _ \<Rightarrow> None
      | W_loop p i \<Rightarrow> Some (dp_write_loop p i s)
      | W_give p i \<Rightarrow>
          Some ((dp_set_in (the (do_inputs (dp_out s) ! i)) (di_can_read_update (\<lambda>_. True)) s)\<lparr>dp_w := W_take p i\<rparr>)
      | W_take p i \<Rightarrow>
          let j = the (do_inputs (dp_out s) ! i)
          in if di_has_read (dp_ins s ! j)
             then Some ((dp_set_in j (di_has_read_update (\<lambda>_. False)) s)\<lparr>dp_w := W_loop p (i + 1)\<rparr>)
             else None)"

definition dp_input_read_step :: "nat \<Rightarrow> dp_sys \<Rightarrow> dp_sys option" where
  "dp_input_read_step j s =
     (case dp_r s ! j of
        R_out \<Rightarrow> None
      | R_take \<Rightarrow>
          if di_can_read (dp_ins s ! j) then Some (dp_set_r j R_copy (dp_set_in j (di_can_read_update (\<lambda>_. False)) s))
          else None
      | R_copy \<Rightarrow> map_option (\<lambda>p. dp_set_r j (R_give (dp_mem s p)) s) (di_data (dp_ins s ! j))
      | R_give _ \<Rightarrow> Some (dp_set_r j R_out (dp_set_in j (di_has_read_update (\<lambda>_. True)) s)))"

end
