(* ===== verification/Data_Process_Props.thy ===== *)
theory Data_Process_Props
  imports Data_Process
begin

text \<open>
  Theorems about the flow graphs: what passes from an output to its inputs when the task that writes and the tasks that
  read interleave in any way.
\<close>

subsection \<open>Runs\<close>

text \<open>The history holds the pieces whose write returned \<open>DATA_PROCESS_RET_OK\<close> and what each input has read. The memory of
  the data changes only while the writing task is outside of \<open>dp_output_write\<close>.\<close>

definition dp_done :: "dp_sys \<Rightarrow> dp_sys \<Rightarrow> dp_data list" where
  "dp_done s s' = (case (dp_w s, dp_w s') of (W_loop p i, W_out DATA_PROCESS_RET_OK) \<Rightarrow> [dp_mem s p] | _ \<Rightarrow> [])"

definition dp_got :: "nat \<Rightarrow> dp_sys \<Rightarrow> dp_data list" where
  "dp_got j s = (case dp_r s ! j of R_give d \<Rightarrow> [d] | _ \<Rightarrow> [])"

inductive dp_reach :: "dp_sys \<Rightarrow> dp_data list \<Rightarrow> (nat \<Rightarrow> dp_data list) \<Rightarrow> dp_sys \<Rightarrow> bool" for s0 where
  start: "dp_reach s0 [] (\<lambda>_. []) s0"
| write_call: "dp_reach s0 w rd s \<Longrightarrow> dp_w s = W_out r \<Longrightarrow> dp_reach s0 w rd (s\<lparr>dp_w := W_loop p 0\<rparr>)"
| write_step: "dp_reach s0 w rd s \<Longrightarrow> dp_output_write_step s = Some s' \<Longrightarrow> dp_reach s0 (w @ dp_done s s') rd s'"
| read_call: "dp_reach s0 w rd s \<Longrightarrow> j < length (dp_r s) \<Longrightarrow> dp_r s ! j = R_out \<Longrightarrow> dp_reach s0 w rd (dp_set_r j R_take s)"
| read_step: "dp_reach s0 w rd s \<Longrightarrow> j < length (dp_r s) \<Longrightarrow> dp_input_read_step j s = Some s' \<Longrightarrow>
    dp_reach s0 w (rd(j := rd j @ dp_got j s)) s'"
| change: "dp_reach s0 w rd s \<Longrightarrow> dp_w s = W_out r \<Longrightarrow> dp_reach s0 w rd (s\<lparr>dp_mem := m\<rparr>)"

subsection \<open>Wiring\<close>

text \<open>Each input is connected once, with an output of its type.\<close>

definition dp_link :: "dp_output \<Rightarrow> nat \<Rightarrow> nat \<Rightarrow> bool" where
  "dp_link out i j \<longleftrightarrow> i < DATA_PROCESS_MAX_INPUTS \<and> do_inputs out ! i = Some j"

definition dp_wired :: "dp_output \<Rightarrow> dp_input list \<Rightarrow> bool" where
  "dp_wired out ins \<longleftrightarrow> length (do_inputs out) = DATA_PROCESS_MAX_INPUTS \<and>
     (\<forall>i j. dp_link out i j \<longrightarrow> j < length ins \<and> di_type (ins ! j) = do_type out) \<and>
     (\<forall>i i' j. dp_link out i j \<and> dp_link out i' j \<longrightarrow> i' = i)"

lemma dp_wired_length: "dp_wired out ins \<Longrightarrow> length (do_inputs out) = DATA_PROCESS_MAX_INPUTS"
  unfolding dp_wired_def by blast

lemma dp_wired_link:
  assumes "dp_wired out ins" "dp_link out i j"
  shows "j < length ins" "di_type (ins ! j) = do_type out"
  using assms unfolding dp_wired_def by blast+

lemma dp_wired_once: "dp_wired out ins \<Longrightarrow> dp_link out i j \<Longrightarrow> dp_link out i' j \<Longrightarrow> i' = i"
  unfolding dp_wired_def by blast

lemma dp_wiredI:
  assumes "length (do_inputs out) = DATA_PROCESS_MAX_INPUTS"
    "\<And>i j. dp_link out i j \<Longrightarrow> j < length ins \<and> di_type (ins ! j) = do_type out"
    "\<And>i i' j. dp_link out i j \<Longrightarrow> dp_link out i' j \<Longrightarrow> i' = i"
  shows "dp_wired out ins"
  using assms unfolding dp_wired_def by blast

definition dp_start :: "dp_sys \<Rightarrow> bool" where
  "dp_start s \<longleftrightarrow> dp_wired (dp_out s) (dp_ins s) \<and> length (dp_r s) = length (dp_ins s) \<and> dp_w s = W_out DATA_PROCESS_RET_OK \<and>
     (\<forall>j < length (dp_ins s). \<not> di_can_read (dp_ins s ! j) \<and> \<not> di_has_read (dp_ins s ! j) \<and> dp_r s ! j = R_out)"

text \<open>Connecting an input that is not connected yet keeps the wiring.\<close>

lemma connect_wired:
  assumes w: "dp_wired out ins" and n: "n < length ins" "Some n \<notin> set (do_inputs out)"
    and c: "dp_connect_input_to_output n (ins ! n) m out = (DATA_PROCESS_RET_OK, inp, out')"
  shows "dp_wired out' (ins[n := inp])"
proof -
  obtain i where i: "find_index (\<lambda>x. x = None) (do_inputs out) = Some i" "out' = out\<lparr>do_inputs := (do_inputs out)[i := Some n]\<rparr>"
    "inp = (ins ! n)\<lparr>di_output := Some m\<rparr>" "di_type (ins ! n) = do_type out"
    using c by (auto simp: dp_connect_input_to_output_def split: option.splits if_splits)
  note len = dp_wired_length [OF w]
  have lt: "i < DATA_PROCESS_MAX_INPUTS" using find_index_less [OF i(1)] len by simp
  have link: "dp_link out' k j \<longleftrightarrow> (if k = i then j = n else dp_link out k j)" for k j
    using lt len by (auto simp: dp_link_def i(2) nth_list_update)
  have other: "j \<noteq> n" if "dp_link out k j" for k j
    using that n(2) len nth_mem [of k "do_inputs out"] by (auto simp: dp_link_def)
  have ty: "di_type (ins[n := inp] ! j) = di_type (ins ! j)" for j using n(1) by (simp add: i(3) nth_list_update)
  show ?thesis
  proof (rule dp_wiredI)
    show "length (do_inputs out') = DATA_PROCESS_MAX_INPUTS" using len by (simp add: i(2))
    show "j < length (ins[n := inp]) \<and> di_type (ins[n := inp] ! j) = do_type out'" if "dp_link out' k j" for k j
      using that n(1) i(4) dp_wired_link [OF w] unfolding link ty by (auto simp: i(2) split: if_splits)
    show "k' = k" if "dp_link out' k j" "dp_link out' k' j" for k k' j
      using that dp_wired_once [OF w] unfolding link by (auto split: if_splits dest: other)
  qed
qed

subsection \<open>The invariant\<close>

definition dp_idle :: "dp_input \<Rightarrow> dp_rpc \<Rightarrow> bool" where
  "dp_idle inp r \<longleftrightarrow> \<not> di_can_read inp \<and> \<not> di_has_read inp \<and> (r = R_out \<or> r = R_take)"

text \<open>The input that the writing task waits for.\<close>

definition dp_serving :: "dp_data \<Rightarrow> dp_data list \<Rightarrow> dp_input \<Rightarrow> dp_rpc \<Rightarrow> dp_data list \<Rightarrow> bool" where
  "dp_serving d w inp r rd \<longleftrightarrow>
     (if di_can_read inp then \<not> di_has_read inp \<and> (r = R_out \<or> r = R_take) \<and> rd = w
      else if di_has_read inp then (r = R_out \<or> r = R_take) \<and> rd = w @ [d]
      else (r = R_copy \<or> r = R_give d) \<and> rd = w)"

definition dp_cell :: "dp_wpc \<Rightarrow> (nat \<Rightarrow> dp_data) \<Rightarrow> dp_data list \<Rightarrow> nat \<Rightarrow> dp_input \<Rightarrow> dp_rpc \<Rightarrow> dp_data list \<Rightarrow> bool" where
  "dp_cell pc mem w i inp r rd \<longleftrightarrow>
     (case pc of
        W_out _ \<Rightarrow> dp_idle inp r \<and> rd = w
      | W_loop p k \<Rightarrow> dp_idle inp r \<and> rd = (if i < k then w @ [mem p] else w)
      | W_give p k \<Rightarrow> dp_idle inp r \<and> (i = k \<longrightarrow> di_data inp = Some p) \<and> rd = (if i < k then w @ [mem p] else w)
      | W_take p k \<Rightarrow>
          if i = k then di_data inp = Some p \<and> dp_serving (mem p) w inp r rd
          else dp_idle inp r \<and> rd = (if i < k then w @ [mem p] else w))"

text \<open>The program point of the writing task: it handles a connected input, and the types are right as soon as one input has
  been served.\<close>

definition dp_point :: "dp_sys \<Rightarrow> bool" where
  "dp_point s \<longleftrightarrow>
     (case dp_w s of
        W_out _ \<Rightarrow> True
      | W_loop p k \<Rightarrow> k \<le> DATA_PROCESS_MAX_INPUTS \<and>
          (\<forall>i < k. do_inputs (dp_out s) ! i \<noteq> None \<longrightarrow> dd_type (dp_mem s p) = do_type (dp_out s))
      | W_give p k \<Rightarrow> k < DATA_PROCESS_MAX_INPUTS \<and> do_inputs (dp_out s) ! k \<noteq> None \<and> dd_type (dp_mem s p) = do_type (dp_out s)
      | W_take p k \<Rightarrow> k < DATA_PROCESS_MAX_INPUTS \<and> do_inputs (dp_out s) ! k \<noteq> None \<and> dd_type (dp_mem s p) = do_type (dp_out s))"

definition dp_inv :: "dp_data list \<Rightarrow> (nat \<Rightarrow> dp_data list) \<Rightarrow> dp_sys \<Rightarrow> bool" where
  "dp_inv w rd s \<longleftrightarrow> dp_wired (dp_out s) (dp_ins s) \<and> length (dp_r s) = length (dp_ins s) \<and> dp_point s \<and>
     (\<forall>i j. dp_link (dp_out s) i j \<longrightarrow> dp_cell (dp_w s) (dp_mem s) w i (dp_ins s ! j) (dp_r s ! j) (rd j))"

lemma dp_invD:
  assumes "dp_inv w rd s"
  shows "dp_wired (dp_out s) (dp_ins s)" "length (dp_r s) = length (dp_ins s)" "dp_point s"
    "dp_link (dp_out s) i j \<Longrightarrow> dp_cell (dp_w s) (dp_mem s) w i (dp_ins s ! j) (dp_r s ! j) (rd j)"
  using assms unfolding dp_inv_def by blast+

lemma dp_invI:
  assumes "dp_wired (dp_out s) (dp_ins s)" "length (dp_r s) = length (dp_ins s)" "dp_point s"
    "\<And>i j. dp_link (dp_out s) i j \<Longrightarrow> dp_cell (dp_w s) (dp_mem s) w i (dp_ins s ! j) (dp_r s ! j) (rd j)"
  shows "dp_inv w rd s"
  using assms unfolding dp_inv_def by blast

lemma dp_set_in_simps [simp]:
  "dp_mem (dp_set_in j f s) = dp_mem s" "dp_out (dp_set_in j f s) = dp_out s" "dp_w (dp_set_in j f s) = dp_w s"
  "dp_r (dp_set_in j f s) = dp_r s" "length (dp_ins (dp_set_in j f s)) = length (dp_ins s)"
  "j' \<noteq> j \<Longrightarrow> dp_ins (dp_set_in j f s) ! j' = dp_ins s ! j'"
  "j < length (dp_ins s) \<Longrightarrow> dp_ins (dp_set_in j f s) ! j = f (dp_ins s ! j)"
  by (simp_all add: dp_set_in_def)

lemma dp_set_r_simps [simp]:
  "dp_mem (dp_set_r j pc s) = dp_mem s" "dp_out (dp_set_r j pc s) = dp_out s" "dp_w (dp_set_r j pc s) = dp_w s"
  "dp_ins (dp_set_r j pc s) = dp_ins s" "length (dp_r (dp_set_r j pc s)) = length (dp_r s)"
  "j' \<noteq> j \<Longrightarrow> dp_r (dp_set_r j pc s) ! j' = dp_r s ! j'"
  "j < length (dp_r s) \<Longrightarrow> dp_r (dp_set_r j pc s) ! j = pc"
  by (simp_all add: dp_set_r_def)

lemma dp_wired_set_in:
  assumes "dp_wired (dp_out s) (dp_ins s)" "\<And>x. di_type (f x) = di_type x"
  shows "dp_wired (dp_out s) (dp_ins (dp_set_in j f s))"
proof -
  have "di_type (dp_ins (dp_set_in j f s) ! k) = di_type (dp_ins s ! k)" if "k < length (dp_ins s)" for k
    using assms(2) that by (cases "k = j") simp_all
  then show ?thesis
    using dp_wired_link [OF assms(1)] dp_wired_once [OF assms(1)] dp_wired_length [OF assms(1)]
    by (intro dp_wiredI) auto
qed

lemma dp_start_inv:
  assumes "dp_start s"
  shows "dp_inv [] (\<lambda>_. []) s"
proof (rule dp_invI)
  show "dp_wired (dp_out s) (dp_ins s)" "length (dp_r s) = length (dp_ins s)" "dp_point s"
    using assms by (simp_all add: dp_start_def dp_point_def)
  show "dp_cell (dp_w s) (dp_mem s) [] i (dp_ins s ! j) (dp_r s ! j) []" if "dp_link (dp_out s) i j" for i j
    using assms dp_wired_link(1) [OF \<open>dp_wired _ _\<close> that] by (simp add: dp_start_def dp_cell_def dp_idle_def)
qed

subsection \<open>The steps of the writing task\<close>

text \<open>A step that changes one input keeps the cells of the others.\<close>

lemma dp_inv_change:
  assumes inv: "dp_inv w rd s" and link: "dp_link (dp_out s) k j" and ty: "\<And>x. di_type (f x) = di_type x"
    and pt: "dp_point ((dp_set_in j f s)\<lparr>dp_w := pc\<rparr>)"
    and cell: "dp_cell pc (dp_mem s) w k (f (dp_ins s ! j)) (dp_r s ! j) (rd j)"
    and other: "\<And>i inp r h. i \<noteq> k \<Longrightarrow> dp_cell (dp_w s) (dp_mem s) w i inp r h \<Longrightarrow> dp_cell pc (dp_mem s) w i inp r h"
  shows "dp_inv w rd ((dp_set_in j f s)\<lparr>dp_w := pc\<rparr>)"
proof (rule dp_invI)
  note wired = dp_invD(1) [OF inv]
  show "dp_wired (dp_out ((dp_set_in j f s)\<lparr>dp_w := pc\<rparr>)) (dp_ins ((dp_set_in j f s)\<lparr>dp_w := pc\<rparr>))"
    using dp_wired_set_in [of s f j, OF wired ty] by simp
  show "length (dp_r ((dp_set_in j f s)\<lparr>dp_w := pc\<rparr>)) = length (dp_ins ((dp_set_in j f s)\<lparr>dp_w := pc\<rparr>))"
    using dp_invD(2) [OF inv] by simp
  show "dp_point ((dp_set_in j f s)\<lparr>dp_w := pc\<rparr>)" by (rule pt)
  fix i j' assume "dp_link (dp_out ((dp_set_in j f s)\<lparr>dp_w := pc\<rparr>)) i j'"
  then have l: "dp_link (dp_out s) i j'" by simp
  show "dp_cell (dp_w ((dp_set_in j f s)\<lparr>dp_w := pc\<rparr>)) (dp_mem ((dp_set_in j f s)\<lparr>dp_w := pc\<rparr>)) w i
      (dp_ins ((dp_set_in j f s)\<lparr>dp_w := pc\<rparr>) ! j') (dp_r ((dp_set_in j f s)\<lparr>dp_w := pc\<rparr>) ! j') (rd j')"
  proof (cases "i = k")
    case True
    then have "j' = j" using l link by (simp add: dp_link_def)
    then show ?thesis using True cell dp_wired_link(1) [OF wired link] by simp
  next
    case False
    then have "j' \<noteq> j" using dp_wired_once [OF wired link, of i] l by auto
    then show ?thesis using other [OF False dp_invD(4) [OF inv l]] by simp
  qed
qed

lemma dp_inv_move:
  assumes inv: "dp_inv w rd s" and pt: "dp_point (s\<lparr>dp_w := pc\<rparr>)"
    and cell: "\<And>i j. dp_link (dp_out s) i j \<Longrightarrow> dp_cell (dp_w s) (dp_mem s) w i (dp_ins s ! j) (dp_r s ! j) (rd j) \<Longrightarrow>
      dp_cell pc (dp_mem s) w' i (dp_ins s ! j) (dp_r s ! j) (rd j)"
  shows "dp_inv w' rd (s\<lparr>dp_w := pc\<rparr>)"
  using dp_invD [OF inv] pt cell by (intro dp_invI) simp_all

lemma inv_write_loop:
  assumes inv: "dp_inv w rd s" and pc: "dp_w s = W_loop p k"
  shows "dp_inv (w @ dp_done s (dp_write_loop p k s)) rd (dp_write_loop p k s)"
proof (cases "k < DATA_PROCESS_MAX_INPUTS")
  case False
  then have k: "k = DATA_PROCESS_MAX_INPUTS" using dp_invD(3) [OF inv] pc by (simp add: dp_point_def)
  then have "dp_write_loop p k s = s\<lparr>dp_w := W_out DATA_PROCESS_RET_OK\<rparr>" by (simp add: dp_write_loop_def)
  then show ?thesis using inv pc k
    by (auto simp: dp_done_def dp_point_def dp_cell_def dp_link_def intro!: dp_inv_move)
next
  case lt: True
  have pt: "\<And>i. i < k \<Longrightarrow> do_inputs (dp_out s) ! i \<noteq> None \<Longrightarrow> dd_type (dp_mem s p) = do_type (dp_out s)"
    using dp_invD(3) [OF inv] pc by (simp add: dp_point_def)
  show ?thesis
  proof (cases "do_inputs (dp_out s) ! k")
    case None
    then have "dp_write_loop p k s = s\<lparr>dp_w := W_loop p (k + 1)\<rparr>" using lt by (simp add: dp_write_loop_def)
    then show ?thesis using inv pc None lt pt
      by (auto simp: dp_done_def dp_point_def dp_cell_def dp_link_def less_Suc_eq intro!: dp_inv_move)
  next
    case (Some j)
    then have link: "dp_link (dp_out s) k j" using lt by (simp add: dp_link_def)
    note ty = dp_wired_link(2) [OF dp_invD(1) [OF inv] link]
    show ?thesis
    proof (cases "dd_type (dp_mem s p) = do_type (dp_out s)")
      case False
      then have "dp_write_loop p k s = s\<lparr>dp_w := W_out DATA_PROCESS_RET_FAILED\<rparr>"
        using lt Some by (simp add: dp_write_loop_def)
      moreover have "\<not> i < k" if "dp_link (dp_out s) i j'" for i j'
        using that pt [of i] False by (auto simp: dp_link_def)
      ultimately show ?thesis using inv pc
        by (auto simp: dp_done_def dp_point_def dp_cell_def intro!: dp_inv_move)
    next
      case True
      then have "dp_write_loop p k s = (dp_set_in j (di_data_update (\<lambda>_. Some p)) s)\<lparr>dp_w := W_give p k\<rparr>"
        using lt Some ty by (simp add: dp_write_loop_def)
      moreover have "dp_inv w rd ((dp_set_in j (di_data_update (\<lambda>_. Some p)) s)\<lparr>dp_w := W_give p k\<rparr>)"
        using dp_invD(4) [OF inv link] pc True lt Some
        by (intro dp_inv_change [OF inv link]) (auto simp: dp_point_def dp_cell_def dp_idle_def)
      ultimately show ?thesis by (simp add: dp_done_def pc)
    qed
  qed
qed

lemma inv_write_step:
  assumes inv: "dp_inv w rd s" and step: "dp_output_write_step s = Some s'"
  shows "dp_inv (w @ dp_done s s') rd s'"
proof (cases "dp_w s")
  case (W_out r)
  then show ?thesis using step by (simp add: dp_output_write_step_def)
next
  case (W_loop p k)
  then show ?thesis using step inv_write_loop [OF inv W_loop] by (simp add: dp_output_write_step_def)
next
  case (W_give p k)
  then obtain j where j: "do_inputs (dp_out s) ! k = Some j" "k < DATA_PROCESS_MAX_INPUTS" "dd_type (dp_mem s p) = do_type (dp_out s)"
    using dp_invD(3) [OF inv] by (auto simp: dp_point_def)
  then have link: "dp_link (dp_out s) k j" by (simp add: dp_link_def)
  have "s' = (dp_set_in j (di_can_read_update (\<lambda>_. True)) s)\<lparr>dp_w := W_take p k\<rparr>"
    using step W_give j(1) by (simp add: dp_output_write_step_def)
  moreover have "dp_inv w rd ((dp_set_in j (di_can_read_update (\<lambda>_. True)) s)\<lparr>dp_w := W_take p k\<rparr>)"
    using dp_invD(4) [OF inv link] W_give j
    by (intro dp_inv_change [OF inv link]) (auto simp: dp_point_def dp_cell_def dp_idle_def dp_serving_def)
  ultimately show ?thesis using W_give by (simp add: dp_done_def)
next
  case (W_take p k)
  then obtain j where j: "do_inputs (dp_out s) ! k = Some j" "k < DATA_PROCESS_MAX_INPUTS" "dd_type (dp_mem s p) = do_type (dp_out s)"
    using dp_invD(3) [OF inv] by (auto simp: dp_point_def)
  then have link: "dp_link (dp_out s) k j" by (simp add: dp_link_def)
  have h: "di_has_read (dp_ins s ! j)" and s': "s' = (dp_set_in j (di_has_read_update (\<lambda>_. False)) s)\<lparr>dp_w := W_loop p (k + 1)\<rparr>"
    using step W_take j(1) by (auto simp: dp_output_write_step_def Let_def split: if_splits)
  have "dp_inv w rd ((dp_set_in j (di_has_read_update (\<lambda>_. False)) s)\<lparr>dp_w := W_loop p (k + 1)\<rparr>)"
    using dp_invD(4) [OF inv link] W_take j h
    by (intro dp_inv_change [OF inv link]) (auto simp: dp_point_def dp_cell_def dp_idle_def dp_serving_def less_Suc_eq split: if_splits)
  then show ?thesis using W_take s' by (simp add: dp_done_def)
qed

subsection \<open>The steps of the reading tasks\<close>

text \<open>A step of the task that reads the input \<open>j\<close>.\<close>

lemma dp_inv_reader:
  assumes inv: "dp_inv w rd s" and j: "j < length (dp_r s)" and ty: "\<And>x. di_type (f x) = di_type x"
    and cell: "\<And>i. dp_cell (dp_w s) (dp_mem s) w i (dp_ins s ! j) (dp_r s ! j) (rd j) \<Longrightarrow>
      dp_cell (dp_w s) (dp_mem s) w i (f (dp_ins s ! j)) r (rd j @ h)"
  shows "dp_inv w (rd(j := rd j @ h)) (dp_set_r j r (dp_set_in j f s))"
proof (rule dp_invI)
  note len = dp_invD(2) [OF inv]
  show "dp_wired (dp_out (dp_set_r j r (dp_set_in j f s))) (dp_ins (dp_set_r j r (dp_set_in j f s)))"
    using dp_wired_set_in [of s f j, OF dp_invD(1) [OF inv] ty] by simp
  show "length (dp_r (dp_set_r j r (dp_set_in j f s))) = length (dp_ins (dp_set_r j r (dp_set_in j f s)))" using len by simp
  show "dp_point (dp_set_r j r (dp_set_in j f s))" using dp_invD(3) [OF inv] by (simp add: dp_point_def split: dp_wpc.splits)
  fix i j' assume "dp_link (dp_out (dp_set_r j r (dp_set_in j f s))) i j'"
  then have l: "dp_link (dp_out s) i j'" by simp
  show "dp_cell (dp_w (dp_set_r j r (dp_set_in j f s))) (dp_mem (dp_set_r j r (dp_set_in j f s))) w i
      (dp_ins (dp_set_r j r (dp_set_in j f s)) ! j') (dp_r (dp_set_r j r (dp_set_in j f s)) ! j') ((rd(j := rd j @ h)) j')"
    using dp_invD(4) [OF inv l] cell [of i] j len by (cases "j' = j") simp_all
qed

lemma dp_set_in_id: "dp_set_in j (\<lambda>x. x) s = s"
  by (simp add: dp_set_in_def)

lemma inv_read_call:
  assumes "dp_inv w rd s" "j < length (dp_r s)" "dp_r s ! j = R_out"
  shows "dp_inv w rd (dp_set_r j R_take s)"
proof -
  have "dp_inv w (rd(j := rd j @ [])) (dp_set_r j R_take (dp_set_in j (\<lambda>x. x) s))"
    using assms(3) by (intro dp_inv_reader [OF assms(1,2)])
      (auto simp: dp_cell_def dp_idle_def dp_serving_def split: dp_wpc.splits if_splits)
  then show ?thesis by (simp add: dp_set_in_id)
qed

lemma inv_read_step:
  assumes inv: "dp_inv w rd s" and j: "j < length (dp_r s)" and step: "dp_input_read_step j s = Some s'"
  shows "dp_inv w (rd(j := rd j @ dp_got j s)) s'"
proof (cases "dp_r s ! j")
  case R_out
  then show ?thesis using step by (simp add: dp_input_read_step_def)
next
  case R_take
  then have "di_can_read (dp_ins s ! j)" "s' = dp_set_r j R_copy (dp_set_in j (di_can_read_update (\<lambda>_. False)) s)"
    using step by (auto simp: dp_input_read_step_def split: if_splits)
  moreover from this(1) have "dp_inv w (rd(j := rd j @ [])) (dp_set_r j R_copy (dp_set_in j (di_can_read_update (\<lambda>_. False)) s))"
    using R_take by (intro dp_inv_reader [OF inv j])
      (auto simp: dp_cell_def dp_idle_def dp_serving_def split: dp_wpc.splits if_splits)
  ultimately show ?thesis using R_take by (simp add: dp_got_def)
next
  case R_copy
  then obtain p where p: "di_data (dp_ins s ! j) = Some p" "s' = dp_set_r j (R_give (dp_mem s p)) (dp_set_in j (\<lambda>x. x) s)"
    using step by (auto simp: dp_input_read_step_def dp_set_in_id)
  moreover have "dp_inv w (rd(j := rd j @ [])) (dp_set_r j (R_give (dp_mem s p)) (dp_set_in j (\<lambda>x. x) s))"
    using R_copy p(1) by (intro dp_inv_reader [OF inv j])
      (auto simp: dp_cell_def dp_idle_def dp_serving_def split: dp_wpc.splits if_splits)
  ultimately show ?thesis using R_copy by (simp add: dp_got_def)
next
  case (R_give d)
  then have "s' = dp_set_r j R_out (dp_set_in j (di_has_read_update (\<lambda>_. True)) s)"
    using step by (simp add: dp_input_read_step_def)
  moreover have "dp_inv w (rd(j := rd j @ [d])) (dp_set_r j R_out (dp_set_in j (di_has_read_update (\<lambda>_. True)) s))"
    using R_give by (intro dp_inv_reader [OF inv j])
      (auto simp: dp_cell_def dp_idle_def dp_serving_def split: dp_wpc.splits if_splits)
  ultimately show ?thesis using R_give by (simp add: dp_got_def)
qed

lemma dp_reach_inv:
  assumes "dp_start s0"
  shows "dp_reach s0 w rd s \<Longrightarrow> dp_inv w rd s"
proof (induction rule: dp_reach.induct)
  case start
  show ?case by (rule dp_start_inv [OF assms])
next
  case (write_call w rd s r p)
  then show ?case by (intro dp_inv_move) (auto simp: dp_point_def dp_cell_def)
next
  case (write_step w rd s s')
  then show ?case by (intro inv_write_step)
next
  case (read_call w rd s j)
  then show ?case by (intro inv_read_call)
next
  case (read_step w rd s j s')
  then show ?case by (intro inv_read_step)
next
  case (change w rd s r m)
  then show ?case using dp_invD [OF change.IH] by (intro dp_invI) (simp_all add: dp_point_def dp_cell_def)
qed

subsection \<open>Properties\<close>

text \<open>The piece that is being written.\<close>

definition dp_writing :: "dp_sys \<Rightarrow> dp_data option" where
  "dp_writing s = (case dp_w s of W_out _ \<Rightarrow> None | W_loop p _ \<Rightarrow> Some (dp_mem s p) | W_give p _ \<Rightarrow> Some (dp_mem s p)
     | W_take p _ \<Rightarrow> Some (dp_mem s p))"

text \<open>Property C31. Whatever the interleaving, each connected input reads exactly the pieces that were written, in their order:
  outside of a write it has read all of them, and during a write it is at most the current piece ahead of those whose
  write has returned. No piece is lost, repeated or overwritten before it is read.\<close>

theorem dp_reads_what_is_written:
  assumes "dp_start s0" "dp_reach s0 w rd s" "dp_link (dp_out s) i j"
  shows "rd j = w \<or> (\<exists>d. dp_writing s = Some d \<and> rd j = w @ [d])"
  using dp_invD(4) [OF dp_reach_inv [OF assms(1,2)] assms(3)]
  by (auto simp: dp_cell_def dp_writing_def dp_serving_def split: dp_wpc.splits if_splits)

text \<open>Runs as lists of events.\<close>

datatype dp_event = Ev_call nat | Ev_write | Ev_read nat | Ev_step nat

fun dp_exec :: "dp_event list \<Rightarrow> dp_data list \<times> (nat \<Rightarrow> dp_data list) \<times> dp_sys \<Rightarrow>
    (dp_data list \<times> (nat \<Rightarrow> dp_data list) \<times> dp_sys) option" where
  "dp_exec [] x = Some x"
| "dp_exec (Ev_call p # evs) (w, rd, s) =
     (case dp_w s of W_out _ \<Rightarrow> dp_exec evs (w, rd, s\<lparr>dp_w := W_loop p 0\<rparr>) | _ \<Rightarrow> None)"
| "dp_exec (Ev_write # evs) (w, rd, s) =
     (case dp_output_write_step s of None \<Rightarrow> None | Some s' \<Rightarrow> dp_exec evs (w @ dp_done s s', rd, s'))"
| "dp_exec (Ev_read j # evs) (w, rd, s) =
     (if j < length (dp_r s) \<and> dp_r s ! j = R_out then dp_exec evs (w, rd, dp_set_r j R_take s) else None)"
| "dp_exec (Ev_step j # evs) (w, rd, s) =
     (if j < length (dp_r s) then
        case dp_input_read_step j s of None \<Rightarrow> None | Some s' \<Rightarrow> dp_exec evs (w, rd(j := rd j @ dp_got j s), s')
      else None)"

lemma dp_exec_reach:
  "dp_exec evs x = Some y \<Longrightarrow> dp_reach s0 (fst x) (fst (snd x)) (snd (snd x)) \<Longrightarrow>
    dp_reach s0 (fst y) (fst (snd y)) (snd (snd y))"
proof (induction evs x rule: dp_exec.induct)
  case (2 p evs w rd s)
  then show ?case by (auto split: dp_wpc.splits intro: dp_reach.write_call)
next
  case (3 evs w rd s)
  then show ?case by (auto split: option.splits intro: dp_reach.write_step)
next
  case (4 j evs w rd s)
  then show ?case by (auto split: if_splits intro: dp_reach.read_call)
next
  case (5 j evs w rd s)
  then obtain s' where s': "j < length (dp_r s)" "dp_input_read_step j s = Some s'"
    "dp_exec evs (w, rd(j := rd j @ dp_got j s), s') = Some y" by (simp split: option.splits if_splits)
  have "dp_reach s0 w (rd(j := rd j @ dp_got j s)) s'" using 5(3) s'(1,2) by (intro dp_reach.read_step) simp_all
  then show ?case using 5(1) [OF s'(1,2)] s'(3) by (simp del: fun_upd_apply)
qed simp

definition example_dp :: dp_sys where
  "example_dp = \<lparr>dp_mem = (\<lambda>p. \<lparr>dd_content = Some p, dd_len = 1, dd_flags = 0, dd_type = DP_DATA_TYPE_FLOAT\<rparr>),
     dp_out = \<lparr>do_initialized = True, do_inputs = [Some 1, Some 0, None, None], do_type = DP_DATA_TYPE_FLOAT\<rparr>,
     dp_ins = replicate 2 (snd (dp_input_init True DP_DATA_TYPE_FLOAT)), dp_w = W_out DATA_PROCESS_RET_OK,
     dp_r = replicate 2 R_out\<rparr>"

definition example_run :: "dp_data list \<times> (nat \<Rightarrow> dp_data list) \<times> dp_sys" where
  "example_run = the (dp_exec [Ev_read 1, Ev_call 5, Ev_write, Ev_write, Ev_step 1, Ev_step 1, Ev_step 1, Ev_write, Ev_write,
     Ev_write] ([], \<lambda>_. [], example_dp))"

lemma example_dp_start: "dp_start example_dp"
proof -
  have i: "i = 0 \<or> i = 1 \<or> i = 2 \<or> i = 3" if "i < DATA_PROCESS_MAX_INPUTS" for i
    using that by (auto simp: DATA_PROCESS_MAX_INPUTS_def)
  have link: "dp_link (dp_out example_dp) i j \<longleftrightarrow> i = 0 \<and> j = 1 \<or> i = 1 \<and> j = 0" for i j
    using i [of i] by (auto simp: dp_link_def example_dp_def DATA_PROCESS_MAX_INPUTS_def)
  have ty: "j < length (dp_ins example_dp) \<and> di_type (dp_ins example_dp ! j) = do_type (dp_out example_dp) \<and>
      \<not> di_can_read (dp_ins example_dp ! j) \<and> \<not> di_has_read (dp_ins example_dp ! j) \<and> dp_r example_dp ! j = R_out"
    if "j = 0 \<or> j = 1" for j
    using that by (elim disjE; hypsubst) code_simp+
  have "dp_wired (dp_out example_dp) (dp_ins example_dp)"
  proof (rule dp_wiredI)
    show "length (do_inputs (dp_out example_dp)) = DATA_PROCESS_MAX_INPUTS" by code_simp
    show "j < length (dp_ins example_dp) \<and> di_type (dp_ins example_dp ! j) = do_type (dp_out example_dp)"
      if "dp_link (dp_out example_dp) i j" for i j using that ty [of j] unfolding link by blast
    show "i' = i" if "dp_link (dp_out example_dp) i j" "dp_link (dp_out example_dp) i' j" for i i' j
      using that unfolding link by auto
  qed
  moreover have "j = 0 \<or> j = 1" if "j < length (dp_ins example_dp)" for j using that by (auto simp: example_dp_def)
  moreover have "length (dp_r example_dp) = length (dp_ins example_dp)" "dp_w example_dp = W_out DATA_PROCESS_RET_OK"
    by (simp_all add: example_dp_def)
  ultimately show ?thesis using ty unfolding dp_start_def by blast
qed

lemma example_run_reach: "dp_reach example_dp (fst example_run) (fst (snd example_run)) (snd (snd example_run))"
proof -
  let ?x = "([], \<lambda>_. [], example_dp) :: dp_data list \<times> (nat \<Rightarrow> dp_data list) \<times> dp_sys"
  let ?evs = "[Ev_read 1, Ev_call 5, Ev_write, Ev_write, Ev_step 1, Ev_step 1, Ev_step 1, Ev_write, Ev_write, Ev_write]"
  have "\<not> Option.is_none (dp_exec ?evs ?x)" by code_simp
  then have "dp_exec ?evs ?x = Some example_run" unfolding example_run_def by (cases "dp_exec ?evs ?x") simp_all
  moreover have "dp_reach example_dp (fst ?x) (fst (snd ?x)) (snd (snd ?x))" unfolding fst_conv snd_conv by (rule dp_reach.start)
  ultimately show ?thesis by (rule dp_exec_reach)
qed

theorem dp_reads_what_is_written_witness:
  "fst example_run = [] \<and> dp_link (dp_out (snd (snd example_run))) 0 1 \<and>
    fst (snd example_run) 1 = [dp_mem example_dp 5] \<and> dp_writing (snd (snd example_run)) = Some (dp_mem example_dp 5)"
proof -
  have w: "fst example_run = []" "dp_link (dp_out (snd (snd example_run))) 0 1" "fst (snd example_run) 1 \<noteq> []"
    "dp_writing (snd (snd example_run)) = Some (dp_mem example_dp 5)" by code_simp+
  then show ?thesis using dp_reads_what_is_written [OF example_dp_start example_run_reach w(2)] by auto
qed

text \<open>The writing task never waits for ever on inputs that are read: inside of a write, it can take its next
  step, or the task of the input that it waits for can, or that task only has to call the read.\<close>

theorem dp_write_progresses:
  assumes "dp_start s0" "dp_reach s0 w rd s" "dp_writing s \<noteq> None"
  shows "dp_output_write_step s \<noteq> None \<or>
    (\<exists>i j. dp_link (dp_out s) i j \<and> (dp_r s ! j = R_out \<or> dp_input_read_step j s \<noteq> None))"
proof -
  note inv = dp_reach_inv [OF assms(1,2)]
  show ?thesis
  proof (cases "dp_w s")
    case (W_out r)
    then show ?thesis using assms(3) by (simp add: dp_writing_def)
  next
    case (W_take p k)
    then obtain j where j: "dp_link (dp_out s) k j" using dp_invD(3) [OF inv] by (auto simp: dp_point_def dp_link_def)
    have "di_has_read (dp_ins s ! j) \<or> dp_r s ! j = R_out \<or> dp_input_read_step j s \<noteq> None"
      using dp_invD(4) [OF inv j] W_take
      by (auto simp: dp_cell_def dp_serving_def dp_input_read_step_def split: if_splits)
    then show ?thesis using W_take j by (auto simp: dp_output_write_step_def dp_link_def Let_def)
  qed (simp_all add: dp_output_write_step_def)
qed

theorem dp_write_progresses_witness:
  "dp_output_write_step (snd (snd example_run)) = None \<and>
    (\<exists>j. dp_r (snd (snd example_run)) ! j = R_out \<or> dp_input_read_step j (snd (snd example_run)) \<noteq> None)"
proof -
  have "Option.is_none (dp_output_write_step (snd (snd example_run)))" by code_simp
  then have w: "dp_output_write_step (snd (snd example_run)) = None" by (simp add: Option.is_none_def)
  have w2: "dp_writing (snd (snd example_run)) \<noteq> None" by code_simp
  then show ?thesis using dp_write_progresses [OF example_dp_start example_run_reach w2] w by blast
qed

subsection \<open>The graph\<close>

text \<open>Asked for a name, \<open>dp_graph_remove_node\<close> removes a node with another name.\<close>

theorem remove_takes_other_name:
  "dp_graph_remove_node \<lparr>dg_initialized = True, dg_nodes = [a, b]\<rparr> node (Some name) =
    Some (DATA_PROCESS_RET_OK, \<lparr>dg_initialized = True, dg_nodes = [a]\<rparr>)" if "dn_name b \<noteq> name"
  using that by (simp add: dp_graph_remove_node_def dp_is_node_def)

text \<open>The first of several nodes cannot be removed: the search does not end.\<close>

theorem remove_first_diverges:
  "dn_node b \<noteq> node \<Longrightarrow> dp_graph_remove_node \<lparr>dg_initialized = i, dg_nodes = a # b # ns\<rparr> node None = None"
  by (simp add: dp_graph_remove_node_def dp_is_node_def)

end
