(* ===== verification/Dp_Statistics.thy ===== *)
theory Dp_Statistics
  imports Data_Process
begin

text \<open>
  The node of a flow graph that computes an average, a minimum and a maximum
  (\<open>services/data-process/statistics-node.c\<close>): one pass through the loop of its task for a piece that it has read.

  The numbers of the C type \<open>float\<close> and their operations are parameters; \<open>mem\<close> gives the number that a pointer to a
  content refers to. \<open>None\<close> is an access through a null pointer or a history without places. The history is a list
  of the pointers that were read, not of their numbers.
\<close>

record 'f float_ops =
  fo_zero :: 'f
  fo_add :: "'f \<Rightarrow> 'f \<Rightarrow> 'f"
  fo_div :: "'f \<Rightarrow> 'f \<Rightarrow> 'f"
  fo_less :: "'f \<Rightarrow> 'f \<Rightarrow> bool"
  fo_of_nat :: "nat \<Rightarrow> 'f"

record dp_statistics_node =
  ds_type :: dp_data_type
  ds_history :: "nat option list"
  ds_history_len :: nat
  ds_history_pos :: nat

datatype dp_statistics_out = Out_avg | Out_min | Out_max | Out_avg_floating | Out_min_floating | Out_max_floating

text \<open>The fields that the loop uses; the history is allocated by the start.\<close>

definition dp_statistics_node_init :: "dp_data_type \<Rightarrow> dp_statistics_node" where
  "dp_statistics_node_init type = \<lparr>ds_type = type, ds_history = [], ds_history_len = 10, ds_history_pos = 0\<rparr>"

definition dp_statistics_node_start :: "bool \<Rightarrow> dp_statistics_node \<Rightarrow> dp_ret \<times> dp_statistics_node" where
  "dp_statistics_node_start mem self =
     (if \<not> mem then (DATA_PROCESS_RET_FAILED, self)
      else (DATA_PROCESS_RET_OK, self\<lparr>ds_history := replicate (ds_history_len self) None, ds_history_pos := 0\<rparr>))"

text \<open>The loop over the history: the sum, the minimum and the maximum.\<close>

fun statistics_loop ::
  "'f float_ops \<Rightarrow> (nat \<Rightarrow> 'f) \<Rightarrow> 'f \<Rightarrow> nat option list \<Rightarrow> 'f \<times> 'f \<times> 'f \<Rightarrow> ('f \<times> 'f \<times> 'f) option" where
  "statistics_loop ops mem cur [] acc = Some acc"
| "statistics_loop ops mem cur (None # ps) acc = None"
| "statistics_loop ops mem cur (Some p # ps) (avg, mn, mx) =
     statistics_loop ops mem cur ps
       (fo_add ops avg (mem p), if fo_less ops cur mn then cur else mn, if fo_less ops mx cur then cur else mx)"

definition dp_statistics_turn ::
  "'f float_ops \<Rightarrow> (nat \<Rightarrow> 'f) \<Rightarrow> dp_statistics_node \<Rightarrow> dp_data \<Rightarrow> (dp_statistics_node \<times> (dp_statistics_out \<times> 'f) list) option" where
  "dp_statistics_turn ops mem self data_in =
     (if ds_history_len self = 0 then None else
      let self = self\<lparr>ds_history := (ds_history self)[ds_history_pos self := dd_content data_in],
                      ds_history_pos := (ds_history_pos self + 1) mod ds_history_len self\<rparr> in
      if ds_type self \<noteq> DP_DATA_TYPE_FLOAT then Some (self, [])
      else Option.bind (dd_content data_in) (\<lambda>p.
        Option.bind (statistics_loop ops mem (mem p) (take (ds_history_len self) (ds_history self)) (fo_zero ops, fo_zero ops, fo_zero ops))
          (\<lambda>(avg, mn, mx).
            let avg = fo_div ops avg (fo_of_nat ops (ds_history_len self))
            in Some (self, (if ds_history_pos self = 0 then [(Out_avg, avg), (Out_min, mn), (Out_max, mx)] else []) @
                 [(Out_avg_floating, avg), (Out_min_floating, mn), (Out_max_floating, mx)]))))"

subsection \<open>What it computes\<close>

text \<open>The minimum and the maximum are those of the piece that was just read and zero, whatever the history is.\<close>

lemma statistics_loop_current:
  assumes "statistics_loop ops mem cur ps (avg, mn, mx) = Some (avg', mn', mx')"
    and "\<not> fo_less ops cur cur"
  shows "(ps = [] \<longrightarrow> mn' = mn \<and> mx' = mx) \<and>
    (ps \<noteq> [] \<longrightarrow> mn' = (if fo_less ops cur mn then cur else mn) \<and> mx' = (if fo_less ops mx cur then cur else mx))"
  using assms
proof (induction ps arbitrary: avg mn mx)
  case (Cons q ps)
  then obtain a where q: "q = Some a" by (cases q) auto
  let ?mn = "if fo_less ops cur mn then cur else mn" and ?mx = "if fo_less ops mx cur then cur else mx"
  have "statistics_loop ops mem cur ps (fo_add ops avg (mem a), ?mn, ?mx) = Some (avg', mn', mx')"
    using Cons.prems(1) by (simp only: q statistics_loop.simps)
  from Cons.IH [OF this assms(2)] show ?case using assms(2) by (cases "ps = []") auto
qed simp

theorem statistics_min_of_current:
  assumes "dp_statistics_turn ops mem self d = Some (self', outs)" "ds_type self = DP_DATA_TYPE_FLOAT" "dd_content d = Some p"
    and "\<not> fo_less ops (mem p) (mem p)" "length (ds_history self) = ds_history_len self"
  shows "\<exists>avg. set outs \<subseteq> {(Out_avg, avg), (Out_avg_floating, avg)} \<union>
    {Out_min, Out_min_floating} \<times> {if fo_less ops (mem p) (fo_zero ops) then mem p else fo_zero ops} \<union>
    {Out_max, Out_max_floating} \<times> {if fo_less ops (fo_zero ops) (mem p) then mem p else fo_zero ops}"
proof -
  let ?h = "(ds_history self)[ds_history_pos self := Some p]"
  obtain avg mn mx where l: "statistics_loop ops mem (mem p) (take (ds_history_len self) ?h) (fo_zero ops, fo_zero ops, fo_zero ops) =
      Some (avg, mn, mx)" "ds_history_len self \<noteq> 0"
    and outs: "set outs \<subseteq> {(Out_avg, fo_div ops avg (fo_of_nat ops (ds_history_len self))), (Out_min, mn), (Out_max, mx),
      (Out_avg_floating, fo_div ops avg (fo_of_nat ops (ds_history_len self))), (Out_min_floating, mn), (Out_max_floating, mx)}"
    using assms(1-3) by (auto simp: dp_statistics_turn_def Let_def bind_eq_Some_conv split: if_splits)
  have "take (ds_history_len self) ?h \<noteq> []" using assms(5) l(2) by (cases "ds_history self") (auto split: nat.split)
  then have "mn = (if fo_less ops (mem p) (fo_zero ops) then mem p else fo_zero ops)"
    "mx = (if fo_less ops (fo_zero ops) (mem p) then mem p else fo_zero ops)"
    using statistics_loop_current [OF l(1) assms(4)] by simp_all
  then show ?thesis using outs by blast
qed

text \<open>Until the history is full, the loop goes through a null pointer.\<close>

theorem statistics_starts_with_null:
  assumes "ds_type self = DP_DATA_TYPE_FLOAT" "2 \<le> ds_history_len self"
    "(ret, self') = dp_statistics_node_start True self"
  shows "dp_statistics_turn ops mem self' d = None"
proof -
  obtain n where n: "ds_history_len self = Suc (Suc n)" using assms(2) by (metis Suc_le_D numeral_2_eq_2 Suc_le_mono)
  have self': "self' = self\<lparr>ds_history := replicate (ds_history_len self) None, ds_history_pos := 0\<rparr>"
    using assms(3) by (simp add: dp_statistics_node_start_def)
  show ?thesis
    by (cases "dd_content d") (simp_all add: self' dp_statistics_turn_def Let_def n assms(1))
qed

end
