(* ===== verification/Gps_Ublox.thy ===== *)
theory Gps_Ublox
  imports Prelude
begin

text \<open>
  The driver for satellite receivers (\<open>services/gps-ublox/gps-ublox.c\<close>): frames of the UBX protocol over a transport
  that gives and takes bytes.

  The I2C bus is a parameter: a transfer to an address writes bytes and then reads some, over a state \<open>'d\<close>; so is the
  effect of waiting, and \<open>mktime\<close> of the standard library. Frames are \<open>b5 62 class id length length payload ck ck\<close>.
  \<open>None\<close> is a loop that does not end. Critical sections are single steps, and the clock that is measured at a pulse is
  left out with the hardware.
\<close>

datatype gps_ublox_ret = GPS_UBLOX_RET_OK | GPS_UBLOX_RET_FAILED
datatype i2c_bus_ret = I2C_BUS_RET_OK | I2C_BUS_RET_FAILED
datatype gps_ublox_mode = GPS_UBLOX_MODE_BACKUP | GPS_UBLOX_MODE_FULL

definition GPS_UBLOX_PROTO_UBX :: u8 where "GPS_UBLOX_PROTO_UBX = 0x01"
definition GPS_UBLOX_PROTO_NMEA :: u8 where "GPS_UBLOX_PROTO_NMEA = 0x02"

text \<open>A transfer gives the bytes that it put at the start of the receive buffer.\<close>

record tm =
  tm_hour :: int
  tm_min :: int
  tm_sec :: int
  tm_year :: int
  tm_mon :: int
  tm_mday :: int

record 'd gps_env =
  ge_transfer :: "u8 \<Rightarrow> u8 list \<Rightarrow> nat \<Rightarrow> 'd \<Rightarrow> i2c_bus_ret \<times> u8 list \<times> 'd"
  ge_delay :: "nat \<Rightarrow> 'd \<Rightarrow> 'd"
  ge_mktime :: "tm \<Rightarrow> int"

record gps_ublox =
  gu_i2c :: bool
  gu_i2c_addr :: u8
  gu_rx_can_run :: bool
  gu_rx_running :: bool
  gu_timepulse_sec :: int
  gu_timepulse_nsec :: int
  gu_timepulse_accuracy :: int
  gu_timepulse_count :: u32

definition gps_ublox_init :: "gps_ublox_ret \<times> gps_ublox" where
  "gps_ublox_init = (GPS_UBLOX_RET_OK, \<lparr>gu_i2c = False, gu_i2c_addr = 0, gu_rx_can_run = False, gu_rx_running = False,
     gu_timepulse_sec = 0, gu_timepulse_nsec = 0, gu_timepulse_accuracy = 0, gu_timepulse_count = 0\<rparr>)"

definition gps_ublox_set_i2c_transport :: "gps_ublox \<Rightarrow> bool \<Rightarrow> u8 \<Rightarrow> gps_ublox_ret \<times> gps_ublox" where
  "gps_ublox_set_i2c_transport self i2c addr =
     (if \<not> i2c then (GPS_UBLOX_RET_FAILED, self)
      else (GPS_UBLOX_RET_OK, self\<lparr>gu_i2c := True, gu_i2c_addr := addr\<rparr>))"

subsection \<open>Bytes\<close>

definition write_data :: "'d gps_env \<Rightarrow> gps_ublox \<Rightarrow> u8 list \<Rightarrow> 'd \<Rightarrow> gps_ublox_ret \<times> 'd" where
  "write_data e self buf d =
     (if gu_i2c self then
        (case ge_transfer e (gu_i2c_addr self) buf 0 d of
           (ret, _, d) \<Rightarrow> (if ret = I2C_BUS_RET_OK then GPS_UBLOX_RET_OK else GPS_UBLOX_RET_FAILED, d))
      else (GPS_UBLOX_RET_FAILED, d))"

text \<open>The number of bytes that the receiver holds, the high byte first.\<close>

definition bytes_available :: "'d gps_env \<Rightarrow> gps_ublox \<Rightarrow> 'd \<Rightarrow> nat \<times> 'd" where
  "bytes_available e self d =
     (case ge_transfer e (gu_i2c_addr self) [0xfd] 2 d of
        (_, bs, d) \<Rightarrow> let b = rx_fill [0, 0] bs in (unat (b ! 0) * 256 + unat (b ! 1), d))"

text \<open>The loop of \<open>read_data\<close>: only a turn with too few bytes counts as an attempt.\<close>

partial_function (option) read_loop ::
  "'d gps_env \<Rightarrow> gps_ublox \<Rightarrow> nat \<Rightarrow> u8 list \<Rightarrow> 'd \<Rightarrow> (gps_ublox_ret \<times> u8 list \<times> 'd) option" where
  "read_loop e self attempt buf d =
     (case bytes_available e self d of
        (bytes, d) \<Rightarrow>
          if bytes < length buf then
            if 100 < attempt + 1 then Some (GPS_UBLOX_RET_FAILED, buf, d)
            else read_loop e self (attempt + 1) buf (ge_delay e 2 d)
          else if 0 < length buf then
            (case ge_transfer e (gu_i2c_addr self) [0xff] (length buf) d of
               (ret, bs, d) \<Rightarrow>
                 if ret = I2C_BUS_RET_OK then Some (GPS_UBLOX_RET_OK, rx_fill buf bs, d)
                 else read_loop e self attempt (rx_fill buf bs) d)
          else read_loop e self attempt buf d)"

definition read_data :: "'d gps_env \<Rightarrow> gps_ublox \<Rightarrow> u8 list \<Rightarrow> 'd \<Rightarrow> (gps_ublox_ret \<times> u8 list \<times> 'd) option" where
  "read_data e self buf d =
     (if gu_i2c self then read_loop e self 0 buf d else Some (GPS_UBLOX_RET_FAILED, buf, d))"

subsection \<open>Sending\<close>

text \<open>The checksum: two sums modulo 256, over a list of bytes.\<close>

definition ubx_sum :: "u8 list \<Rightarrow> u8 \<times> u8 \<Rightarrow> u8 \<times> u8" where
  "ubx_sum bs ck = foldl (\<lambda>(cka, ckb) b. (cka + b, ckb + (cka + b))) ck bs"

text \<open>The high byte of the length is \<open>(len << 8) & 0xff\<close>.\<close>

definition ubx_header :: "u8 \<Rightarrow> u8 \<Rightarrow> nat \<Rightarrow> u8 list" where
  "ubx_header cls ident len = [0xb5, 0x62, cls, ident, word_of_nat len, word_of_nat (len * 256)]"

definition send_ubx :: "'d gps_env \<Rightarrow> gps_ublox \<Rightarrow> u8 \<Rightarrow> u8 \<Rightarrow> u8 list \<Rightarrow> 'd \<Rightarrow> gps_ublox_ret \<times> 'd" where
  "send_ubx e self cls ident buf d =
     (let header = ubx_header cls ident (length buf);
          (cka, ckb) = ubx_sum buf (ubx_sum (drop 2 header) (0, 0));
          d = snd (write_data e self header d);
          d = (if 0 < length buf then snd (write_data e self buf d) else d);
          d = snd (write_data e self [cka, ckb] d)
      in (GPS_UBLOX_RET_OK, d))"

subsection \<open>Receiving\<close>

text \<open>The loop with the number of bytes that are left and the variable for the byte, a buffer of one; the second byte of
  the header.\<close>

fun garbage_loop :: "'d gps_env \<Rightarrow> gps_ublox \<Rightarrow> nat \<Rightarrow> u8 list \<Rightarrow> 'd \<Rightarrow> (gps_ublox_ret \<times> 'd) option" where
  "garbage_loop e self 0 byte d = Some (GPS_UBLOX_RET_FAILED, d)"
| "garbage_loop e self (Suc n) byte d =
     Option.bind (read_data e self byte d) (\<lambda>(ret, byte, d).
       if ret \<noteq> GPS_UBLOX_RET_OK \<or> n = 0 then Some (GPS_UBLOX_RET_FAILED, d)
       else if byte = [0xb5] then
         Option.bind (read_data e self byte d) (\<lambda>(ret, byte, d).
           if ret \<noteq> GPS_UBLOX_RET_OK \<or> byte \<noteq> [0x62] then Some (GPS_UBLOX_RET_FAILED, d) else Some (GPS_UBLOX_RET_OK, d))
       else garbage_loop e self n byte d)"

definition eat_garbage_header :: "'d gps_env \<Rightarrow> gps_ublox \<Rightarrow> 'd \<Rightarrow> (gps_ublox_ret \<times> 'd) option" where
  "eat_garbage_header e self d = garbage_loop e self 100 [0] d"

text \<open>Bytes that do not fit are read one by one and dropped.\<close>

fun eat_rest :: "'d gps_env \<Rightarrow> gps_ublox \<Rightarrow> nat \<Rightarrow> 'd \<Rightarrow> 'd option" where
  "eat_rest e self 0 d = Some d"
| "eat_rest e self (Suc n) d = Option.bind (read_data e self [0] d) (\<lambda>(_, _, d). eat_rest e self n d)"

text \<open>The results are the class, the identifier and the length of the payload, which are set when a header was found,
  and the buffer. The checksum is read and not looked at.\<close>

definition receive_ubx ::
  "'d gps_env \<Rightarrow> gps_ublox \<Rightarrow> u8 list \<Rightarrow> 'd \<Rightarrow> (gps_ublox_ret \<times> (u8 \<times> u8 \<times> nat) option \<times> u8 list \<times> 'd) option" where
  "receive_ubx e self buf d =
     Option.bind (eat_garbage_header e self d) (\<lambda>(ret, d).
       if ret \<noteq> GPS_UBLOX_RET_OK then Some (GPS_UBLOX_RET_FAILED, None, buf, d)
       else Option.bind (read_data e self [0, 0, 0, 0] d) (\<lambda>(ret, header, d).
         if ret \<noteq> GPS_UBLOX_RET_OK then Some (GPS_UBLOX_RET_FAILED, None, buf, d)
         else
           let plen = unat (header ! 2) + unat (header ! 3) * 256;
               len = (if plen < length buf then plen else length buf)
           in Option.bind (if 0 < len then map_option (\<lambda>(_, bs, d). (bs @ drop len buf, d)) (read_data e self (take len buf) d)
                           else Some (buf, d)) (\<lambda>(buf, d).
              Option.bind (eat_rest e self (plen - len) d) (\<lambda>d.
              Option.bind (read_data e self [0, 0] d) (\<lambda>(_, _, d).
                Some (GPS_UBLOX_RET_OK, Some (header ! 0, header ! 1, plen), buf, d))))))"

text \<open>The wait for an acknowledgement, with the attempts that are left; the buffer keeps what failed attempts put there.\<close>

fun receive_ack_loop ::
  "'d gps_env \<Rightarrow> gps_ublox \<Rightarrow> u8 \<Rightarrow> u8 \<Rightarrow> nat \<Rightarrow> u8 list \<Rightarrow> 'd \<Rightarrow> (gps_ublox_ret \<times> 'd) option" where
  "receive_ack_loop e self orig_class orig_id timeout dat d =
     Option.bind (receive_ubx e self dat d) (\<lambda>(ret, hdr, dat, d).
       if ret \<noteq> GPS_UBLOX_RET_OK \<and> 0 < timeout then
         (case timeout of 0 \<Rightarrow> None | Suc n \<Rightarrow> receive_ack_loop e self orig_class orig_id n dat (ge_delay e 2 d))
       else
         (case hdr of
            None \<Rightarrow> Some (GPS_UBLOX_RET_FAILED, d)
          | Some (cls, ident, _) \<Rightarrow>
              Some (if cls = 0x05 \<and> ident = 0x01 \<and> dat ! 0 = orig_class \<and> dat ! 1 = orig_id
                    then GPS_UBLOX_RET_OK else GPS_UBLOX_RET_FAILED, d)))"

definition receive_ack :: "'d gps_env \<Rightarrow> gps_ublox \<Rightarrow> u8 \<Rightarrow> u8 \<Rightarrow> 'd \<Rightarrow> (gps_ublox_ret \<times> 'd) option" where
  "receive_ack e self orig_class orig_id d = receive_ack_loop e self orig_class orig_id 100 [0, 0] d"

text \<open>The loop with the attempts that are left: the last one is not used.\<close>

fun send_ack_loop ::
  "'d gps_env \<Rightarrow> gps_ublox \<Rightarrow> u8 \<Rightarrow> u8 \<Rightarrow> u8 list \<Rightarrow> nat \<Rightarrow> gps_ublox_ret \<Rightarrow> 'd \<Rightarrow> (gps_ublox_ret \<times> 'd) option" where
  "send_ack_loop e self cls ident buf 0 ret d = Some (ret, d)"
| "send_ack_loop e self cls ident buf (Suc n) ret d =
     (if n = 0 then Some (ret, d)
      else
        let d = snd (send_ubx e self cls ident buf d)
        in Option.bind (receive_ack e self cls ident d) (\<lambda>(ret, d).
          if ret \<noteq> GPS_UBLOX_RET_OK then send_ack_loop e self cls ident buf n ret d else Some (GPS_UBLOX_RET_OK, d)))"

definition send_ubx_ack ::
  "'d gps_env \<Rightarrow> gps_ublox \<Rightarrow> u8 \<Rightarrow> u8 \<Rightarrow> u8 list \<Rightarrow> 'd \<Rightarrow> (gps_ublox_ret \<times> 'd) option" where
  "send_ubx_ack e self cls ident buf d = send_ack_loop e self cls ident buf 3 GPS_UBLOX_RET_FAILED d"

subsection \<open>The commands of the receiver\<close>

definition gps_ublox_set_ddc ::
  "'d gps_env \<Rightarrow> gps_ublox \<Rightarrow> u8 \<Rightarrow> u8 \<Rightarrow> u8 \<Rightarrow> 'd \<Rightarrow> (gps_ublox_ret \<times> 'd) option" where
  "gps_ublox_set_ddc e self addr proto_in proto_out d =
     send_ubx_ack e self 0x06 0x00 [0x00, 0x00, 0x00, 0x00, push_bit 1 addr, 0x00, 0x00, 0x00, 0x00, 0x00, 0x00, 0x00,
       proto_in, 0x00, proto_out, 0x00, 0x00, 0x00, 0x00, 0x00] d"

definition gps_ublox_set_ant :: "'d gps_env \<Rightarrow> gps_ublox \<Rightarrow> 'd \<Rightarrow> (gps_ublox_ret \<times> 'd) option" where
  "gps_ublox_set_ant e self d = send_ubx_ack e self 0x06 0x13 [0x00, 0x00, 0x00, 0x00] d"

definition gps_ublox_set_periodic_msg ::
  "'d gps_env \<Rightarrow> gps_ublox \<Rightarrow> u8 \<Rightarrow> u8 \<Rightarrow> u8 \<Rightarrow> 'd \<Rightarrow> (gps_ublox_ret \<times> 'd) option" where
  "gps_ublox_set_periodic_msg e self cls ident rate d = send_ubx_ack e self 0x06 0x01 [cls, ident, rate] d"

definition gps_ublox_set_nav5 :: "'d gps_env \<Rightarrow> gps_ublox \<Rightarrow> 'd \<Rightarrow> (gps_ublox_ret \<times> 'd) option" where
  "gps_ublox_set_nav5 e self d =
     send_ubx_ack e self 0x06 0x24 ([0x05, 0x00, 0x02, 0x01, 0xd8, 0xd6] @ replicate 30 0x00) d"

definition gps_ublox_set_timepulse :: "'d gps_env \<Rightarrow> gps_ublox \<Rightarrow> 'd \<Rightarrow> (gps_ublox_ret \<times> 'd) option" where
  "gps_ublox_set_timepulse e self d =
     send_ubx_ack e self 0x06 0x31 [0x00, 0x00, 0x00, 0x00, 0x00, 0x00, 0x00, 0x00, 0x00, 0x00, 0x00, 0x00,
       0x40, 0x42, 0x0f, 0x00, 0x00, 0x00, 0x00, 0x00, 0x64, 0x00, 0x00, 0x00, 0x00, 0x00, 0x00, 0x00,
       0x77, 0x00, 0x00, 0x00] d"

definition gps_ublox_mode_set :: "'d gps_env \<Rightarrow> gps_ublox \<Rightarrow> gps_ublox_mode \<Rightarrow> 'd \<Rightarrow> gps_ublox_ret \<times> 'd" where
  "gps_ublox_mode_set e self mode d =
     (case mode of
        GPS_UBLOX_MODE_BACKUP \<Rightarrow>
          (GPS_UBLOX_RET_OK, snd (send_ubx e self 0x02 0x41 [0x00, 0x00, 0x80, 0x00, 0x02, 0x00, 0x00, 0x00] d))
      | GPS_UBLOX_MODE_FULL \<Rightarrow> (GPS_UBLOX_RET_FAILED, d))"

subsection \<open>The task and the time pulse\<close>

definition gps_ublox_nav_timeutc_to_timespec :: "'d gps_env \<Rightarrow> gps_ublox \<Rightarrow> u8 list \<Rightarrow> gps_ublox" where
  "gps_ublox_nav_timeutc_to_timespec e self buf =
     (let ts = \<lparr>tm_hour = uint (buf ! 16), tm_min = uint (buf ! 17), tm_sec = uint (buf ! 18),
                tm_year = uint (buf ! 12) + 256 * uint (buf ! 13) - 1900, tm_mon = uint (buf ! 14) - 1,
                tm_mday = uint (buf ! 15)\<rparr>
      in self\<lparr>gu_timepulse_sec := ge_mktime e ts, gu_timepulse_nsec := 0,
              gu_timepulse_accuracy := sint (load32_le (take 4 (drop 4 buf)))\<rparr>)"

text \<open>What the task does before its loop, the body of the loop, and one step: a turn, or the end of the task.\<close>

definition gps_rx_begin :: "'d gps_env \<Rightarrow> gps_ublox \<Rightarrow> 'd \<Rightarrow> (gps_ublox \<times> 'd) option" where
  "gps_rx_begin e self d =
     (let self = self\<lparr>gu_rx_running := True\<rparr> in
      Option.bind (gps_ublox_set_ddc e self 0x42 GPS_UBLOX_PROTO_UBX GPS_UBLOX_PROTO_UBX d) (\<lambda>(_, d).
      Option.bind (gps_ublox_set_periodic_msg e self 0x01 0x21 1 d) (\<lambda>(_, d).
      Option.bind (gps_ublox_set_timepulse e self d) (\<lambda>(_, d).
      Option.bind (gps_ublox_set_ant e self d) (\<lambda>(_, d).
      Option.bind (gps_ublox_set_nav5 e self d) (\<lambda>(_, d). Some (self, d)))))))"

definition gps_rx_turn :: "'d gps_env \<Rightarrow> gps_ublox \<Rightarrow> 'd \<Rightarrow> (gps_ublox \<times> 'd) option" where
  "gps_rx_turn e self d =
     Option.bind (receive_ubx e self (replicate 32 0) d) (\<lambda>(_, hdr, dat, d).
       let self = (case hdr of
             Some (cls, ident, _) \<Rightarrow>
               if cls = 0x01 \<and> ident = 0x21 then gps_ublox_nav_timeutc_to_timespec e self dat else self
           | None \<Rightarrow> self)
       in Some (self, ge_delay e 10 d))"

definition gps_rx_step :: "'d gps_env \<Rightarrow> gps_ublox \<Rightarrow> 'd \<Rightarrow> (gps_ublox \<times> 'd) option" where
  "gps_rx_step e self d =
     (if gu_rx_can_run self then gps_rx_turn e self d else Some (self\<lparr>gu_rx_running := False\<rparr>, d))"

definition gps_ublox_start :: "gps_ublox \<Rightarrow> gps_ublox_ret \<times> gps_ublox" where
  "gps_ublox_start self = (GPS_UBLOX_RET_OK, self\<lparr>gu_rx_can_run := True, gu_timepulse_count := 0\<rparr>)"

text \<open>The task is told to stop; the wait for it is over when it gives a result.\<close>

definition gps_ublox_stop :: "gps_ublox \<Rightarrow> gps_ublox" where
  "gps_ublox_stop self = self\<lparr>gu_rx_can_run := False\<rparr>"

definition gps_ublox_stop_wait :: "gps_ublox \<Rightarrow> gps_ublox_ret option" where
  "gps_ublox_stop_wait self = (if gu_rx_running self then None else Some GPS_UBLOX_RET_OK)"

definition gps_ublox_timepulse_handler :: "gps_ublox \<Rightarrow> gps_ublox_ret \<times> gps_ublox" where
  "gps_ublox_timepulse_handler self =
     (GPS_UBLOX_RET_OK, self\<lparr>gu_timepulse_sec := gu_timepulse_sec self + 1, gu_timepulse_count := gu_timepulse_count self + 1\<rparr>)"

end
