(* ===== verification/Gps_Ublox_Props.thy ===== *)
theory Gps_Ublox_Props
  imports Gps_Ublox
begin

text \<open>
  Theorems about the satellite receiver: frames that are sent are received, and receiving ends.
\<close>

subsection \<open>A bus that works\<close>

text \<open>The receiver holds the bytes \<open>q\<close> and has been sent the bytes \<open>out\<close>. It tells how many bytes it holds (at most what
  16 bits can say), gives them in order, takes what is written, and can get more bytes while one waits.\<close>

definition i2c_ok :: "'d gps_env \<Rightarrow> gps_ublox \<Rightarrow> ('d \<Rightarrow> u8 list) \<Rightarrow> ('d \<Rightarrow> u8 list) \<Rightarrow> bool" where
  "i2c_ok e self q out \<longleftrightarrow> gu_i2c self \<and>
     (\<forall>d. ge_transfer e (gu_i2c_addr self) [0xfd] 2 d =
        (I2C_BUS_RET_OK, [word_of_nat (min (length (q d)) 65535 div 256), word_of_nat (min (length (q d)) 65535)], d)) \<and>
     (\<forall>d n. 0 < n \<and> n \<le> length (q d) \<longrightarrow> (\<exists>d'. ge_transfer e (gu_i2c_addr self) [0xff] n d =
        (I2C_BUS_RET_OK, take n (q d), d') \<and> q d' = drop n (q d) \<and> out d' = out d)) \<and>
     (\<forall>d bs. \<exists>d'. ge_transfer e (gu_i2c_addr self) bs 0 d = (I2C_BUS_RET_OK, [], d') \<and> out d' = out d @ bs \<and> q d' = q d) \<and>
     (\<forall>d n. out (ge_delay e n d) = out d \<and> (\<exists>ys. q (ge_delay e n d) = q d @ ys))"

lemma i2c_available:
  assumes "i2c_ok e self q out"
  shows "bytes_available e self d = (min (length (q d)) 65535, d)"
proof -
  let ?n = "min (length (q d)) 65535"
  have "ge_transfer e (gu_i2c_addr self) [0xfd] 2 d = (I2C_BUS_RET_OK, [word_of_nat (?n div 256), word_of_nat ?n], d)"
    using assms unfolding i2c_ok_def by (elim conjE) blast
  moreover have "?n div 256 < 256" by (simp add: less_mult_imp_div_less)
  ultimately show ?thesis
    by (simp add: bytes_available_def Let_def unsigned_of_nat take_bit_eq_mod)
qed

lemma i2c_read:
  "i2c_ok e self q out \<Longrightarrow> 0 < n \<Longrightarrow> n \<le> length (q d) \<Longrightarrow>
    \<exists>d'. ge_transfer e (gu_i2c_addr self) [0xff] n d = (I2C_BUS_RET_OK, take n (q d), d') \<and> q d' = drop n (q d) \<and> out d' = out d"
  unfolding i2c_ok_def by (elim conjE) blast

lemma i2c_write:
  assumes "i2c_ok e self q out"
  shows "\<exists>d'. write_data e self bs d = (GPS_UBLOX_RET_OK, d') \<and> out d' = out d @ bs"
proof -
  obtain d' where "ge_transfer e (gu_i2c_addr self) bs 0 d = (I2C_BUS_RET_OK, [], d')" "out d' = out d @ bs"
    using assms unfolding i2c_ok_def by (elim conjE) blast
  then show ?thesis using assms by (simp add: write_data_def i2c_ok_def)
qed

lemma i2c_set: "i2c_ok e self q out \<Longrightarrow> gu_i2c self"
  unfolding i2c_ok_def by blast

subsection \<open>Reading\<close>

text \<open>With enough bytes a read gives them at once.\<close>

lemma read_data_ok:
  assumes ok: "i2c_ok e self q out" and n: "buf \<noteq> []" "length buf \<le> length (q d)" "length buf \<le> 65535"
  shows "\<exists>d'. read_data e self buf d = Some (GPS_UBLOX_RET_OK, take (length buf) (q d), d') \<and> q d' = drop (length buf) (q d)"
proof -
  obtain d' where d': "ge_transfer e (gu_i2c_addr self) [0xff] (length buf) d = (I2C_BUS_RET_OK, take (length buf) (q d), d')"
    "q d' = drop (length buf) (q d)" using i2c_read [OF ok, of "length buf" d] n by auto
  have "read_loop e self 0 buf d = Some (GPS_UBLOX_RET_OK, take (length buf) (q d), d')"
    by (subst read_loop.simps) (use d' n in \<open>simp add: i2c_available [OF ok] min_def\<close>)
  then show ?thesis using d'(2) i2c_set [OF ok] by (simp add: read_data_def)
qed

text \<open>A read always ends, after at most a hundred attempts.\<close>

lemma read_loop_enough:
  assumes ok: "i2c_ok e self q out" and n: "buf \<noteq> []" "\<not> min (length (q d)) 65535 < length buf"
  shows "\<exists>r. read_loop e self k buf d = Some r \<and> length (fst (snd r)) = length buf"
proof -
  have "length buf \<le> length (q d)" using n(2) by simp
  then obtain d' where "ge_transfer e (gu_i2c_addr self) [0xff] (length buf) d = (I2C_BUS_RET_OK, take (length buf) (q d), d')"
    using i2c_read [OF ok, of "length buf" d] n by auto
  then show ?thesis using n by (subst read_loop.simps) (simp add: i2c_available [OF ok])
qed

lemma read_loop_ends:
  assumes ok: "i2c_ok e self q out" and n: "buf \<noteq> []"
  shows "\<exists>r. read_loop e self k buf d = Some r \<and> length (fst (snd r)) = length buf"
proof (induction "100 - k" arbitrary: k d)
  case 0
  show ?case
  proof (cases "min (length (q d)) 65535 < length buf")
    case True
    then show ?thesis using 0 by (subst read_loop.simps) (simp add: i2c_available [OF ok])
  next
    case False
    then show ?thesis by (rule read_loop_enough [OF ok n])
  qed
next
  case (Suc m)
  show ?case
  proof (cases "min (length (q d)) 65535 < length buf")
    case True
    have "m = 100 - (k + 1)" using Suc(2) by simp
    from Suc(1) [OF this, of "ge_delay e 2 d"] show ?thesis using True Suc(2)
      by (subst read_loop.simps) (auto simp: i2c_available [OF ok])
  next
    case False
    then show ?thesis by (rule read_loop_enough [OF ok n])
  qed
qed

lemma read_data_ends:
  assumes "i2c_ok e self q out" "buf \<noteq> []"
  shows "\<exists>ret buf' d'. read_data e self buf d = Some (ret, buf', d') \<and> length buf' = length buf"
  using read_loop_ends [OF assms, of 0 d] i2c_set [OF assms(1)] by (auto simp: read_data_def)

lemma garbage_ends: "i2c_ok e self q out \<Longrightarrow> byte \<noteq> [] \<Longrightarrow> \<exists>r. garbage_loop e self n byte d = Some r"
proof (induction n arbitrary: byte d)
  case (Suc n)
  obtain ret byte1 d1 where r: "read_data e self byte d = Some (ret, byte1, d1)" "byte1 \<noteq> []"
    using read_data_ends [OF Suc.prems, of d] Suc.prems(2) by (metis length_0_conv)
  obtain ret2 byte2 d2 where "read_data e self byte1 d1 = Some (ret2, byte2, d2)"
    using read_data_ends [OF Suc.prems(1) r(2), of d1] by blast
  then show ?case using r Suc.IH [OF Suc.prems(1) r(2), of d1] by auto
qed simp

lemma eat_rest_ends: "i2c_ok e self q out \<Longrightarrow> \<exists>d'. eat_rest e self n d = Some d'"
proof (induction n arbitrary: d)
  case (Suc n)
  obtain ret b d1 where "read_data e self [0] d = Some (ret, b, d1)" using read_data_ends [OF Suc.prems, of "[0]" d] by auto
  then show ?case using Suc.IH [OF Suc.prems, of d1] by simp
qed simp

subsection \<open>Frames\<close>

definition ubx_frame :: "u8 \<Rightarrow> u8 \<Rightarrow> u8 list \<Rightarrow> u8 list" where
  "ubx_frame cls ident buf = ubx_header cls ident (length buf) @ buf @
     (case ubx_sum buf (ubx_sum (drop 2 (ubx_header cls ident (length buf))) (0, 0)) of (cka, ckb) \<Rightarrow> [cka, ckb])"

lemma send_ubx_out:
  assumes ok: "i2c_ok e self q out"
  shows "out (snd (send_ubx e self cls ident buf d)) = out d @ ubx_frame cls ident buf"
proof -
  have w: "out (snd (write_data e self bs d)) = out d @ bs" for bs d
    using i2c_write [OF ok, of bs d] by auto
  show ?thesis by (auto simp: send_ubx_def ubx_frame_def Let_def w split: prod.split)
qed

lemma high_byte_zero: "word_of_nat (n * 256) = (0 :: u8)"
proof -
  have "(256 :: u8) = 0" by simp
  then show ?thesis by (simp only: of_nat_mult of_nat_numeral mult_zero_right)
qed

text \<open>So a frame of 256 bytes says that it is empty.\<close>

lemma long_frame_says_empty: "ubx_header cls ident 256 = ubx_header cls ident 0"
  by (simp add: ubx_header_def)

text \<open>The mark of a frame is not found when another \<open>b5\<close> stands before it, on any bus that works.\<close>

lemma doubled_mark_refused:
  assumes ok: "i2c_ok e self q out" and q: "q d = 0xb5 # 0xb5 # rest"
  shows "\<exists>d'. eat_garbage_header e self d = Some (GPS_UBLOX_RET_FAILED, d') \<and> q d' = rest"
proof -
  obtain d1 where d1: "read_data e self [0] d = Some (GPS_UBLOX_RET_OK, [0xb5], d1)" "q d1 = 0xb5 # rest"
    using read_data_ok [OF ok, of "[0]" d] q by auto
  obtain d2 where "read_data e self [0xb5] d1 = Some (GPS_UBLOX_RET_OK, [0xb5], d2)" "q d2 = rest"
    using read_data_ok [OF ok, of "[0xb5]" d1] d1(2) by auto
  moreover have "(100 :: nat) = Suc 99" by simp
  ultimately show ?thesis using d1(1) by (simp only: eat_garbage_header_def garbage_loop.simps bind.simps prod.case) simp
qed

lemma ubx_frame_shape:
  obtains ck where "ubx_frame cls ident buf = 0xb5 # 0x62 # [cls, ident, word_of_nat (length buf), 0] @ buf @ ck" "length ck = 2"
proof -
  obtain a b where ab: "ubx_sum buf (ubx_sum (drop 2 (ubx_header cls ident (length buf))) (0, 0)) = (a, b)" by (rule prod.exhaust)
  show ?thesis
    using that [of "[a, b]"] unfolding ubx_frame_def ab by (simp only: ubx_header_def high_byte_zero) simp
qed

lemma garbage_ok:
  assumes ok: "i2c_ok e self q out"
  shows "0xb5 \<notin> set g \<Longrightarrow> length g + 2 \<le> n \<Longrightarrow> length byte = 1 \<Longrightarrow> q d = g @ 0xb5 # 0x62 # rest \<Longrightarrow>
    \<exists>d'. garbage_loop e self n byte d = Some (GPS_UBLOX_RET_OK, d') \<and> q d' = rest"
proof (induction g arbitrary: n byte d)
  case Nil
  then obtain m where m: "n = Suc m" "m \<noteq> 0" by (cases n) auto
  have "byte \<noteq> []" using Nil.prems(3) by auto
  then obtain d1 where d1: "read_data e self byte d = Some (GPS_UBLOX_RET_OK, [0xb5], d1)" "q d1 = 0x62 # rest"
    using read_data_ok [OF ok, of byte d] Nil.prems(3,4) by auto
  obtain d2 where "read_data e self [0xb5] d1 = Some (GPS_UBLOX_RET_OK, [0x62], d2)" "q d2 = rest"
    using read_data_ok [OF ok, of "[0xb5]" d1] d1(2) by auto
  then show ?case using d1(1) m by simp
next
  case (Cons x g)
  then obtain m where m: "n = Suc m" "m \<noteq> 0" "length g + 2 \<le> m" by (cases n) auto
  have "byte \<noteq> []" using Cons.prems(3) by auto
  then obtain d1 where d1: "read_data e self byte d = Some (GPS_UBLOX_RET_OK, [x], d1)" "q d1 = g @ 0xb5 # 0x62 # rest"
    using read_data_ok [OF ok, of byte d] Cons.prems(3,4) by auto
  have "x \<noteq> 0xb5" "0xb5 \<notin> set g" using Cons.prems(1) by auto
  then show ?case using d1(1) m Cons.IH [OF _ m(3) _ d1(2), of "[x]"] by simp
qed

lemma eat_rest_ok:
  assumes ok: "i2c_ok e self q out"
  shows "n \<le> length (q d) \<Longrightarrow> \<exists>d'. eat_rest e self n d = Some d' \<and> q d' = drop n (q d)"
proof (induction n arbitrary: d)
  case (Suc n)
  have "length [0 :: u8] \<le> length (q d)" using Suc.prems by simp
  then obtain r b d1 where d1: "read_data e self [0] d = Some (r, b, d1)" "q d1 = drop 1 (q d)"
    using read_data_ok [OF ok, of "[0]" d] by auto
  then show ?case using Suc.IH [of d1] Suc.prems by (auto simp: drop_Suc tl_drop [symmetric] drop_tl)
qed simp

lemma ubx_frame_received:
  assumes ok: "i2c_ok e self q out" and g: "0xb5 \<notin> set g" "length g \<le> 98" and len: "length buf < 256"
    and q: "q d = g @ ubx_frame cls ident buf @ rest"
  shows "\<exists>d'. receive_ubx e self rbuf d = Some (GPS_UBLOX_RET_OK, Some (cls, ident, length buf), rx_fill rbuf buf, d') \<and>
    q d' = rest"
proof -
  obtain ck where ck: "ubx_frame cls ident buf = 0xb5 # 0x62 # [cls, ident, word_of_nat (length buf), 0] @ buf @ ck" "length ck = 2"
    by (rule ubx_frame_shape)
  obtain d1 where d1: "eat_garbage_header e self d = Some (GPS_UBLOX_RET_OK, d1)"
    "q d1 = [cls, ident, word_of_nat (length buf), 0] @ buf @ ck @ rest"
    using garbage_ok [OF ok g(1), of 100 "[0]" d "[cls, ident, word_of_nat (length buf), 0] @ buf @ ck @ rest"] g(2) q
    by (auto simp: eat_garbage_header_def ck(1))
  obtain d2 where d2: "read_data e self [0, 0, 0, 0] d1 = Some (GPS_UBLOX_RET_OK, [cls, ident, word_of_nat (length buf), 0], d2)"
    "q d2 = buf @ ck @ rest"
    using read_data_ok [OF ok, of "[0, 0, 0, 0]" d1] d1(2) by auto
  have plen: "unat (word_of_nat (length buf) :: u8) = length buf" using len by (simp add: unsigned_of_nat take_bit_eq_mod)
  define n where "n = (if length buf < length rbuf then length buf else length rbuf)"
  have n: "n \<le> length buf" "n \<le> length rbuf" "n = min (length buf) (length rbuf)" by (auto simp: n_def)
  obtain d3 where d3: "(if 0 < n then map_option (\<lambda>(_, bs, d). (bs @ drop n rbuf, d)) (read_data e self (take n rbuf) d2)
      else Some (rbuf, d2)) = Some (rx_fill rbuf buf, d3)" "q d3 = drop n buf @ ck @ rest"
  proof (cases "0 < n")
    case True
    have fill: "take n buf @ drop n rbuf = rx_fill rbuf buf" unfolding n(3) rx_fill_def by (auto simp: min_def)
    have "length (take n rbuf) = n" using n(2) by simp
    moreover from this True have "take n rbuf \<noteq> []" by auto
    ultimately obtain d3 where "read_data e self (take n rbuf) d2 = Some (GPS_UBLOX_RET_OK, take n (q d2), d3)" "q d3 = drop n (q d2)"
      using read_data_ok [OF ok, of "take n rbuf" d2] n(1) len d2(2) by auto
    then show ?thesis using True that [of d3] n(1) fill d2(2) by simp
  next
    case False
    then have "rx_fill rbuf buf = rbuf" using n(3) by (auto simp: rx_fill_def min_def split: if_splits)
    then show ?thesis using False that [of d2] d2(2) by simp
  qed
  obtain d4 where d4: "eat_rest e self (length buf - n) d3 = Some d4" "q d4 = ck @ rest"
    using eat_rest_ok [OF ok, of "length buf - n" d3] d3(2) by auto
  obtain c d5 where d5: "read_data e self [0, 0] d4 = Some (GPS_UBLOX_RET_OK, c, d5)" "q d5 = rest"
    using read_data_ok [OF ok, of "[0, 0]" d4] d4(2) ck(2) by auto
  have "receive_ubx e self rbuf d = Some (GPS_UBLOX_RET_OK, Some (cls, ident, length buf), rx_fill rbuf buf, d5)"
    using d3(1) d4(1) d5(1) by (simp add: receive_ubx_def d1(1) d2(1) plen n_def [symmetric])
  then show ?thesis using d5(2) by blast
qed

subsection \<open>Properties\<close>

text \<open>On a bus whose transfers work, receiving a frame ends whatever bytes arrive, also when none do, and the
  buffer keeps its length: nothing is written behind it.\<close>

theorem receive_ubx_ends:
  assumes ok: "i2c_ok e self q out"
  shows "\<exists>ret hdr buf' d'. receive_ubx e self buf d = Some (ret, hdr, buf', d') \<and> length buf' = length buf \<and>
    (ret = GPS_UBLOX_RET_OK \<longleftrightarrow> hdr \<noteq> None)"
proof -
  obtain r1 d1 where g: "eat_garbage_header e self d = Some (r1, d1)"
    using garbage_ends [OF ok, of "[0]" 100 d] by (auto simp: eat_garbage_header_def)
  obtain r2 h d2 where h: "read_data e self [0, 0, 0, 0] d1 = Some (r2, h, d2)"
    using read_data_ends [OF ok, of "[0, 0, 0, 0]" d1] by auto
  let ?plen = "unat (h ! 2) + unat (h ! 3) * 256"
  let ?len = "if ?plen < length buf then ?plen else length buf"
  obtain buf' d3 where b: "(if 0 < ?len then map_option (\<lambda>(_, bs, d). (bs @ drop ?len buf, d)) (read_data e self (take ?len buf) d2)
      else Some (buf, d2)) = Some (buf', d3)" "length buf' = length buf"
  proof (cases "0 < ?len")
    case True
    then have "take ?len buf \<noteq> []" "length (take ?len buf) = ?len" by auto
    then obtain r bs d3 where "read_data e self (take ?len buf) d2 = Some (r, bs, d3)" "length bs = ?len"
      using read_data_ends [OF ok, of "take ?len buf" d2] by metis
    then show ?thesis using True that [of "bs @ drop ?len buf" d3] by simp
  next
    case False
    then show ?thesis using that [of buf d2] by simp
  qed
  obtain d4 where d4: "eat_rest e self (?plen - ?len) d3 = Some d4" using eat_rest_ends [OF ok] by blast
  obtain r5 c d5 where d5: "read_data e self [0, 0] d4 = Some (r5, c, d5)" using read_data_ends [OF ok, of "[0, 0]" d4] by auto
  show ?thesis
    unfolding receive_ubx_def g bind.simps(2) prod.case h Let_def b(1) d4 d5
    by (cases "r1 = GPS_UBLOX_RET_OK"; cases "r2 = GPS_UBLOX_RET_OK") (simp_all add: b(2))
qed

text \<open>A bus with the bytes to read and the bytes written.\<close>

definition ex_bus :: "(u8 list \<times> u8 list) gps_env" where
  "ex_bus = \<lparr>ge_transfer = (\<lambda>_ bs n (q, out).
       if n = 0 then (I2C_BUS_RET_OK, [], (q, out @ bs))
       else if bs = [0xfd] then
         (I2C_BUS_RET_OK, [word_of_nat (min (length q) 65535 div 256), word_of_nat (min (length q) 65535)], (q, out))
       else (I2C_BUS_RET_OK, take n q, (drop n q, out))),
     ge_delay = (\<lambda>_ d. d), ge_mktime = (\<lambda>_. 0)\<rparr>"

definition ex_gps :: gps_ublox where
  "ex_gps = snd (gps_ublox_set_i2c_transport (snd gps_ublox_init) True 0x42)"

lemma ex_bus_ok: "i2c_ok ex_bus ex_gps fst snd"
  by (simp add: i2c_ok_def ex_bus_def ex_gps_def gps_ublox_init_def gps_ublox_set_i2c_transport_def)

theorem receive_ubx_ends_witness:
  "\<exists>ret hdr buf' d'. receive_ubx ex_bus ex_gps [7, 8] ([1, 0xb5], []) = Some (ret, hdr, buf', d') \<and>
    length buf' = length [7 :: u8, 8] \<and> (ret = GPS_UBLOX_RET_OK \<longleftrightarrow> hdr \<noteq> None)"
  by (rule receive_ubx_ends [OF ex_bus_ok])

text \<open>Property C32. Send and receive are inverse: when a frame with less than 256 bytes of payload is sent, what goes over
  the bus is a string of bytes that a receiver, after at most 98 other bytes that hold no \<open>b5\<close>, takes as a frame with the
  same class, identifier and length and with the payload, as much of it as the buffer holds; what comes after the frame
  is the next to be read.\<close>

theorem ubx_roundtrip:
  assumes tx: "i2c_ok te ts tq tout" and rx: "i2c_ok e self q out"
    and g: "0xb5 \<notin> set g" "length g \<le> 98" and len: "length buf < 256"
    and q: "q d = g @ drop (length (tout t)) (tout (snd (send_ubx te ts cls ident buf t))) @ rest"
  shows "\<exists>d'. receive_ubx e self rbuf d =
      Some (GPS_UBLOX_RET_OK, Some (cls, ident, length buf), take (length rbuf) buf @ drop (length buf) rbuf, d') \<and>
    q d' = rest"
proof -
  have "q d = g @ ubx_frame cls ident buf @ rest" using q by (simp add: send_ubx_out [OF tx])
  from ubx_frame_received [OF rx g len this, of rbuf] show ?thesis by (simp add: rx_fill_def)
qed

text \<open>A frame of three bytes behind one byte of noise, into a buffer of two; a second frame begins behind it.\<close>

theorem ubx_roundtrip_witness:
  "\<exists>d'. receive_ubx ex_bus ex_gps [7, 8] ([0xff, 0xb5, 0x62, 0x06, 0x01, 3, 0, 0x01, 0x21, 1, 0x2d, 0x85, 0xb5], []) =
      Some (GPS_UBLOX_RET_OK, Some (0x06, 0x01, length [0x01 :: u8, 0x21, 1]),
        take (length [7 :: u8, 8]) [0x01, 0x21, 1] @ drop (length [0x01 :: u8, 0x21, 1]) [7, 8], d') \<and>
    fst d' = [0xb5]"
proof -
  have s: "snd (snd (send_ubx ex_bus ex_gps 0x06 0x01 [0x01, 0x21, 1] ([], []))) =
      [0xb5, 0x62, 0x06, 0x01, 3, 0, 0x01, 0x21, 1, 0x2d, 0x85]" by code_simp
  show ?thesis
    by (rule ubx_roundtrip [OF ex_bus_ok ex_bus_ok, where g = "[0xff]" and t = "([], [])"]) (simp_all add: s)
qed

end
