(* ===== verification/Lora_Modem.thy ===== *)
theory Lora_Modem
  imports Streams
begin

text \<open>
  The driver of a LoRaWAN modem that is controlled by lines of text (\<open>services/lora-rn2483/lora-rn2483.c\<close>,
  \<open>services/lora-rn2483/lora-api.c\<close>).

  The serial line is a stream over a state \<open>'d\<close> and a parameter, and so are the power switch, waiting, and what the
  other tasks do while the driver waits for one of its semaphores. Characters are unsigned bytes; the line that was
  received is kept as the whole array, other strings without their terminating zero. \<open>None\<close> is an access outside of an
  array, a stream that gives more bytes than it was asked for, a wait for a mutex that its own task holds, or a loop that
  does not end. Creating semaphores is a parameter. The light and the text output are left out, and the sensor for the
  voltage, which only divides a number by a thousand.
\<close>

subsection \<open>Types\<close>

definition LORA_RESPONSE_LEN :: nat where "LORA_RESPONSE_LEN = 540"
definition LORA_TX_OK_TIMEOUT :: nat where "LORA_TX_OK_TIMEOUT = 10"
definition LORA_RX_DATA_LEN :: nat where "LORA_RX_DATA_LEN = 256"
definition LORA_MAX_ERRORS_BEFORE_REJOIN :: u32 where "LORA_MAX_ERRORS_BEFORE_REJOIN = 10"

datatype lora_modem_ret = LORA_MODEM_RET_OK | LORA_MODEM_RET_FAILED | LORA_MODEM_RET_BAD_PARAM
  | LORA_MODEM_RET_INVALID_PARAM | LORA_MODEM_RET_ACCEPTED | LORA_MODEM_RET_DENIED | LORA_MODEM_RET_NOT_JOINED
  | LORA_MODEM_RET_NO_FREE_CHANNEL | LORA_MODEM_RET_SILENT | LORA_MODEM_RET_FRAME_COUNTER_ERROR | LORA_MODEM_RET_BUSY
  | LORA_MODEM_RET_PAUSED | LORA_MODEM_RET_INVALID_DATA_LEN | LORA_MODEM_RET_TX_OK | LORA_MODEM_RET_RX
  | LORA_MODEM_RET_TX_ERR

datatype lora_ret = LORA_RET_OK | LORA_RET_FAILED | LORA_RET_BAD_PARAM | LORA_RET_INVALID_PARAM | LORA_RET_ACCEPTED
  | LORA_RET_DENIED | LORA_RET_NOT_JOINED | LORA_RET_NO_FREE_CHANNEL | LORA_RET_FRAME_COUNTER_ERROR | LORA_RET_BUSY
  | LORA_RET_PAUSED | LORA_RET_INVALID_DATA_LEN | LORA_RET_TIMEOUT | LORA_RET_MODE

datatype lora_mode = LORA_MODE_NONE | LORA_MODE_OTAA | LORA_MODE_ABP

text \<open>The word that the modem gives as its status, bit by bit.\<close>

record lora_status =
  mac_state :: nat
  joined :: bool
  automatic_reply_enabled :: bool
  adr_enabled :: bool
  silent_immediately :: bool
  mac_paused :: bool
  rx_done :: bool
  line_check_enabled :: bool
  channels_updated :: bool
  power_updated :: bool
  nbrep_updated :: bool
  prescaler_updated :: bool
  rx2_updated :: bool
  rx_timing_updated :: bool
  rejoin_needed :: bool
  multicast_enabled :: bool

text \<open>A semaphore is \<open>None\<close> before it is created, and then says whether it was given. Of the mutex it is known whether
  it is taken.\<close>

record lora_modem =
  lo_power :: bool
  lo_mode :: lora_mode
  lo_locked :: bool
  lo_can_run :: bool
  lo_running :: bool
  response_str :: "u8 list"
  response_len :: nat
  rx_data :: "u8 list"
  rx_data_len :: nat
  rx_data_port :: u8
  lo_status :: lora_status
  join_req :: bool
  status_vdd_mV :: u32
  rx_lock :: "bool option list"
  rx_data_release :: bool
  appkey :: string
  deveui :: string
  appeui :: string
  error_counter :: u32

record 'd lora_env =
  ld_stream :: "'d stream"
  ld_power :: "bool \<Rightarrow> 'd \<Rightarrow> 'd"
  ld_delay :: "nat \<Rightarrow> 'd \<Rightarrow> 'd"
  ld_others :: "lora_modem \<times> 'd \<Rightarrow> lora_modem \<times> 'd"

type_synonym 'd lora_st = "lora_modem \<times> 'd"

definition command_lock :: "'d lora_st \<Rightarrow> 'd lora_st option" where
  "command_lock s = (case s of (l, d) \<Rightarrow> if lo_locked l then None else Some (l\<lparr>lo_locked := True\<rparr>, d))"

definition command_unlock :: "'d lora_st \<Rightarrow> 'd lora_st" where
  "command_unlock s = (case s of (l, d) \<Rightarrow> (l\<lparr>lo_locked := False\<rparr>, d))"

subsection \<open>Strings and numbers\<close>

text \<open>\<open>strcmp\<close> of an array with a constant gives 0; \<open>strncmp\<close> with a constant of the length that is compared.\<close>

definition buf_eq :: "u8 list \<Rightarrow> string \<Rightarrow> bool" where
  "buf_eq buf s \<longleftrightarrow> take (length s + 1) buf = str_bytes s @ [0]"

definition buf_starts :: "u8 list \<Rightarrow> string \<Rightarrow> bool" where
  "buf_starts buf s \<longleftrightarrow> take (length s) buf = str_bytes s"

text \<open>The string in an array; an array without a zero is read past its end.\<close>

definition buf_string :: "u8 list \<Rightarrow> u8 list option" where
  "buf_string buf = (if 0 \<in> set buf then Some (takeWhile (\<lambda>c. c \<noteq> 0) buf) else None)"

text \<open>\<open>%u\<close> and \<open>%02x\<close>.\<close>

fun dec_bytes :: "nat \<Rightarrow> u8 list" where
  "dec_bytes n = (if n < 10 then [word_of_nat (48 + n)] else dec_bytes (n div 10) @ [word_of_nat (48 + n mod 10)])"

declare dec_bytes.simps [simp del]

definition hex_digit :: "nat \<Rightarrow> u8" where
  "hex_digit n = (if n < 10 then word_of_nat (48 + n) else word_of_nat (87 + n))"

definition hex_byte :: "u8 \<Rightarrow> u8 list" where
  "hex_byte b = [hex_digit (unat b div 16), hex_digit (unat b mod 16)]"

text \<open>\<open>snprintf\<close> into a buffer of 50 bytes.\<close>

definition cmd_buf :: "u8 list \<Rightarrow> u8 list" where
  "cmd_buf s = take 49 s"

text \<open>\<open>strtol\<close> with a base of 10 or 16: spaces, a sign, the prefix, as many digits as there are, in the range of
  32 bits.\<close>

definition digit_value :: "u8 \<Rightarrow> nat" where
  "digit_value c = (let n = unat c in
     if 48 \<le> n \<and> n \<le> 57 then n - 48 else if 97 \<le> n \<and> n \<le> 122 then n - 87
     else if 65 \<le> n \<and> n \<le> 90 then n - 55 else 99)"

definition strtol :: "u8 list \<Rightarrow> nat \<Rightarrow> int" where
  "strtol s base =
     (let s = dropWhile (\<lambda>c. c = 32 \<or> (9 \<le> c \<and> c \<le> 13)) s;
          neg = (s \<noteq> [] \<and> hd s = 45);
          s = (if s \<noteq> [] \<and> (hd s = 45 \<or> hd s = 43) then tl s else s);
          s = (if base = 16 \<and> 2 < length s \<and> hd s = 48 \<and> (s ! 1 = 120 \<or> s ! 1 = 88) \<and> digit_value (s ! 2) < 16
               then drop 2 s else s);
          v = foldl (\<lambda>v c. v * int base + int (digit_value c)) 0 (takeWhile (\<lambda>c. digit_value c < base) s);
          v = (if neg then - v else v)
      in max (- (2 ^ 31)) (min (2 ^ 31 - 1) v))"

definition response_check :: "u8 list \<Rightarrow> lora_modem_ret" where
  "response_check response =
     (if buf_eq response ''ok'' then LORA_MODEM_RET_OK
      else if buf_eq response ''invalid_param'' then LORA_MODEM_RET_INVALID_PARAM
      else if buf_eq response ''accepted'' then LORA_MODEM_RET_ACCEPTED
      else if buf_eq response ''denied'' then LORA_MODEM_RET_DENIED
      else if buf_eq response ''not_joined'' then LORA_MODEM_RET_NOT_JOINED
      else if buf_eq response ''no_free_ch'' then LORA_MODEM_RET_NO_FREE_CHANNEL
      else if buf_eq response ''silent'' then LORA_MODEM_RET_SILENT
      else if buf_eq response ''frame_counter_err_rejoin_needed'' then LORA_MODEM_RET_FRAME_COUNTER_ERROR
      else if buf_eq response ''busy'' then LORA_MODEM_RET_BUSY
      else if buf_eq response ''mac_paused'' then LORA_MODEM_RET_PAUSED
      else if buf_eq response ''invalid_data_len'' then LORA_MODEM_RET_INVALID_DATA_LEN
      else if buf_eq response ''mac_tx_ok'' then LORA_MODEM_RET_TX_OK
      else if buf_starts response ''mac_rx'' then LORA_MODEM_RET_RX
      else if buf_eq response ''mac_err'' then LORA_MODEM_RET_TX_ERR
      else LORA_MODEM_RET_FAILED)"

definition lora_response :: "lora_modem \<Rightarrow> lora_modem_ret \<Rightarrow> lora_ret \<times> lora_modem" where
  "lora_response self ret =
     (case ret of
        LORA_MODEM_RET_TX_OK \<Rightarrow> (LORA_RET_OK, self\<lparr>error_counter := 0\<rparr>)
      | LORA_MODEM_RET_OK \<Rightarrow> (LORA_RET_OK, self)
      | LORA_MODEM_RET_ACCEPTED \<Rightarrow> (LORA_RET_OK, self)
      | LORA_MODEM_RET_RX \<Rightarrow> (LORA_RET_OK, self)
      | LORA_MODEM_RET_DENIED \<Rightarrow> (LORA_RET_FAILED, self\<lparr>join_req := True\<rparr>)
      | LORA_MODEM_RET_NOT_JOINED \<Rightarrow> (LORA_RET_FAILED, self\<lparr>join_req := True\<rparr>)
      | LORA_MODEM_RET_NO_FREE_CHANNEL \<Rightarrow> (LORA_RET_FAILED, self)
      | _ \<Rightarrow>
          let self = self\<lparr>error_counter := error_counter self + 1\<rparr>
          in if LORA_MAX_ERRORS_BEFORE_REJOIN \<le> error_counter self
             then (LORA_RET_FAILED, self\<lparr>join_req := True, error_counter := 0\<rparr>)
             else (LORA_RET_FAILED, self))"

text \<open>The loop of \<open>hex2uint\<close> over the characters, with the number that are left.\<close>

fun hex_loop :: "u32 \<Rightarrow> nat \<Rightarrow> u8 list \<Rightarrow> u32 option" where
  "hex_loop u 0 hex = Some u"
| "hex_loop u (Suc n) [] = None"
| "hex_loop u (Suc n) (c # hex) =
     (let u = push_bit 4 u in
      if 48 \<le> c \<and> c \<le> 57 then hex_loop (u OR ucast (c - 48)) n hex
      else if 65 \<le> c \<and> c \<le> 70 then hex_loop (u OR ucast (c - 65)) n hex
      else Some 0)"

definition hex2uint :: "u8 list \<Rightarrow> nat \<Rightarrow> u32 option" where
  "hex2uint hex len = hex_loop 0 len hex"

subsection \<open>Lines\<close>

definition lora_modem_write :: "'d lora_env \<Rightarrow> u8 list \<Rightarrow> 'd \<Rightarrow> 'd" where
  "lora_modem_write e buf d = snd (st_write (ld_stream e) d buf)"

definition lora_modem_write_line :: "'d lora_env \<Rightarrow> u8 list \<Rightarrow> 'd \<Rightarrow> 'd" where
  "lora_modem_write_line e buf d = snd (st_write (ld_stream e) (lora_modem_write e buf d) [13, 10])"

partial_function (option) lora_modem_clear_input :: "'d lora_env \<Rightarrow> 'd \<Rightarrow> 'd option" where
  "lora_modem_clear_input e d =
     (case st_read_timeout (ld_stream e) d 16 0 of
        (ret, bs, d) \<Rightarrow>
          if (case bs of None \<Rightarrow> False | Some bs \<Rightarrow> 16 < length bs) then None
          else if ret = STREAM_RET_OK then lora_modem_clear_input e d else Some d)"

text \<open>The loop of \<open>lora_modem_read_line\<close> with the characters that are in the buffer.\<close>

partial_function (option) read_line_loop ::
  "'d lora_env \<Rightarrow> nat \<Rightarrow> u8 list \<Rightarrow> 'd \<Rightarrow> (lora_modem_ret \<times> u8 list \<times> 'd) option" where
  "read_line_loop e max_buf acc d =
     (case st_read_timeout (ld_stream e) d 1 2000 of
        (ret, bs, d) \<Rightarrow>
          if ret \<noteq> STREAM_RET_OK then Some (LORA_MODEM_RET_FAILED, acc, d)
          else
            (case bs of
               Some [c] \<Rightarrow>
                 if c = 10 \<or> c = 13 then
                   (if 0 < length acc then Some (LORA_MODEM_RET_OK, acc, d) else read_line_loop e max_buf acc d)
                 else if length acc < max_buf then read_line_loop e max_buf (acc @ [c]) d
                 else read_line_loop e max_buf acc d
             | _ \<Rightarrow> None))"

text \<open>The results are the buffer and the number of characters, which is 0 when the line did not end.\<close>

definition lora_modem_read_line ::
  "'d lora_env \<Rightarrow> nat \<Rightarrow> 'd \<Rightarrow> (lora_modem_ret \<times> u8 list \<times> nat \<times> 'd) option" where
  "lora_modem_read_line e max_buf d =
     map_option (\<lambda>(ret, acc, d).
         let buf = acc @ replicate (max_buf - length acc) 0
         in if ret = LORA_MODEM_RET_OK then (ret, buf[max_buf - 1 := 0], length acc, d) else (ret, buf, 0, d))
       (read_line_loop e max_buf [] d)"

text \<open>A read into the buffer of the modem; a command whose answer is a line: the mutex stays taken.\<close>

definition lora_read :: "'d lora_env \<Rightarrow> 'd lora_st \<Rightarrow> (lora_modem_ret \<times> 'd lora_st) option" where
  "lora_read e s =
     (case s of (l, d) \<Rightarrow>
        map_option (\<lambda>(ret, buf, n, d). (ret, l\<lparr>response_str := buf, response_len := n\<rparr>, d))
          (lora_modem_read_line e LORA_RESPONSE_LEN d))"

definition lora_start :: "'d lora_env \<Rightarrow> 'd lora_st \<Rightarrow> 'd lora_st option" where
  "lora_start e s =
     Option.bind (command_lock s) (\<lambda>(l, d).
       map_option (\<lambda>d. (l, d)) (lora_modem_clear_input e d))"

definition lora_ask :: "'d lora_env \<Rightarrow> u8 list \<Rightarrow> 'd lora_st \<Rightarrow> (lora_modem_ret \<times> 'd lora_st) option" where
  "lora_ask e cmd s =
     Option.bind (lora_start e s) (\<lambda>(l, d). lora_read e (l, lora_modem_write_line e cmd d))"

text \<open>A command whose answer becomes the result, for the users of the interface and for those of the driver.\<close>

definition lora_result :: "lora_modem_ret \<Rightarrow> 'd lora_st \<Rightarrow> lora_ret \<times> 'd lora_st" where
  "lora_result r s = (case s of (l, d) \<Rightarrow> case lora_response l r of (ret, l) \<Rightarrow> (ret, l, d))"

definition lora_set :: "'d lora_env \<Rightarrow> u8 list \<Rightarrow> 'd lora_st \<Rightarrow> (lora_ret \<times> 'd lora_st) option" where
  "lora_set e cmd s =
     Option.bind (lora_ask e cmd s) (\<lambda>(_, l, d).
       case lora_result (response_check (response_str l)) (l, d) of (ret, s) \<Rightarrow> Some (ret, command_unlock s))"

definition lora_order :: "'d lora_env \<Rightarrow> u8 list \<Rightarrow> 'd lora_st \<Rightarrow> (lora_modem_ret \<times> 'd lora_st) option" where
  "lora_order e cmd s =
     map_option (\<lambda>(_, s). (response_check (response_str (fst s)), command_unlock s)) (lora_ask e cmd s)"

subsection \<open>The interface of modems\<close>

definition lora_modem_set_mode :: "lora_mode \<Rightarrow> 'd lora_st \<Rightarrow> (lora_ret \<times> 'd lora_st) option" where
  "lora_modem_set_mode mode s = (case s of (l, d) \<Rightarrow> Some (LORA_RET_OK, l\<lparr>lo_mode := mode\<rparr>, d))"

definition lora_modem_get_mode :: "'d lora_st \<Rightarrow> lora_ret \<times> lora_mode" where
  "lora_modem_get_mode s = (LORA_RET_OK, lo_mode (fst s))"

text \<open>The keys and identifiers; a missing string is refused.\<close>

definition lora_modem_set_appkey :: "'d lora_env \<Rightarrow> string option \<Rightarrow> 'd lora_st \<Rightarrow> (lora_ret \<times> 'd lora_st) option" where
  "lora_modem_set_appkey e key s =
     (case key of
        None \<Rightarrow> Some (LORA_RET_BAD_PARAM, s)
      | Some key \<Rightarrow>
          (case s of (l, d) \<Rightarrow>
             if lo_mode l \<noteq> LORA_MODE_OTAA then Some (LORA_RET_MODE, s)
             else lora_set e (cmd_buf (str_bytes (''mac set appkey '' @ key))) (l\<lparr>appkey := strlcpy 33 key\<rparr>, d)))"

definition lora_modem_get_appkey :: "nat \<Rightarrow> 'd lora_st \<Rightarrow> lora_ret \<times> string option" where
  "lora_modem_get_appkey sz s =
     (if lo_mode (fst s) \<noteq> LORA_MODE_OTAA then (LORA_RET_MODE, None)
      else (LORA_RET_OK, Some (strlcpy sz (appkey (fst s)))))"

definition lora_modem_set_appeui :: "'d lora_env \<Rightarrow> string option \<Rightarrow> 'd lora_st \<Rightarrow> (lora_ret \<times> 'd lora_st) option" where
  "lora_modem_set_appeui e eui s =
     (case eui of
        None \<Rightarrow> Some (LORA_RET_BAD_PARAM, s)
      | Some eui \<Rightarrow>
          lora_set e (cmd_buf (str_bytes (''mac set appeui '' @ eui))) ((fst s)\<lparr>appeui := strlcpy 17 eui\<rparr>, snd s))"

definition lora_modem_get_appeui ::
  "'d lora_env \<Rightarrow> nat \<Rightarrow> 'd lora_st \<Rightarrow> (lora_ret \<times> u8 list \<times> 'd lora_st) option" where
  "lora_modem_get_appeui e sz s =
     Option.bind (lora_ask e (str_bytes ''mac get appeui'') s) (\<lambda>(_, l, d).
       map_option (\<lambda>str. (if response_len l \<noteq> 16 then LORA_RET_FAILED else LORA_RET_OK, take (sz - 1) str,
           command_unlock (l, d)))
         (buf_string (response_str l)))"

definition lora_modem_set_deveui :: "'d lora_env \<Rightarrow> string option \<Rightarrow> 'd lora_st \<Rightarrow> (lora_ret \<times> 'd lora_st) option" where
  "lora_modem_set_deveui e eui s =
     (case eui of
        None \<Rightarrow> Some (LORA_RET_BAD_PARAM, s)
      | Some eui \<Rightarrow>
          lora_set e (cmd_buf (str_bytes (''mac set deveui '' @ eui))) ((fst s)\<lparr>deveui := strlcpy 17 eui\<rparr>, snd s))"

text \<open>The string is copied without a bound: the argument is the size of the array of the caller.\<close>

definition lora_modem_get_deveui ::
  "'d lora_env \<Rightarrow> nat \<Rightarrow> 'd lora_st \<Rightarrow> (lora_ret \<times> u8 list \<times> 'd lora_st) option" where
  "lora_modem_get_deveui e sz s =
     Option.bind (lora_ask e (str_bytes ''mac get deveui'') s) (\<lambda>(_, l, d).
       Option.bind (buf_string (response_str l)) (\<lambda>str.
         if length str < sz then Some (LORA_RET_OK, str, command_unlock (l, d)) else None))"

definition lora_modem_set_devaddr :: "'d lora_env \<Rightarrow> u8 list \<Rightarrow> 'd lora_st \<Rightarrow> (lora_ret \<times> 'd lora_st) option" where
  "lora_modem_set_devaddr e addr s =
     (if lo_mode (fst s) \<noteq> LORA_MODE_ABP then Some (LORA_RET_FAILED, s)
      else lora_set e (cmd_buf (str_bytes ''mac set devaddr '' @ concat (map hex_byte (take 4 addr)))) s)"

definition lora_modem_set_nwkskey :: "'d lora_env \<Rightarrow> string option \<Rightarrow> 'd lora_st \<Rightarrow> (lora_ret \<times> 'd lora_st) option" where
  "lora_modem_set_nwkskey e key s =
     (case key of
        None \<Rightarrow> Some (LORA_RET_BAD_PARAM, s)
      | Some key \<Rightarrow>
          if lo_mode (fst s) \<noteq> LORA_MODE_ABP then Some (LORA_RET_FAILED, s)
          else lora_set e (cmd_buf (str_bytes (''mac set nwkskey '' @ key))) s)"

definition lora_modem_set_appskey :: "'d lora_env \<Rightarrow> string option \<Rightarrow> 'd lora_st \<Rightarrow> (lora_ret \<times> 'd lora_st) option" where
  "lora_modem_set_appskey e key s =
     (case key of
        None \<Rightarrow> Some (LORA_RET_BAD_PARAM, s)
      | Some key \<Rightarrow>
          if lo_mode (fst s) \<noteq> LORA_MODE_ABP then Some (LORA_RET_FAILED, s)
          else lora_set e (cmd_buf (str_bytes (''mac set appskey '' @ key))) s)"

definition lora_modem_set_datarate :: "'d lora_env \<Rightarrow> u8 \<Rightarrow> 'd lora_st \<Rightarrow> (lora_ret \<times> 'd lora_st) option" where
  "lora_modem_set_datarate e datarate s = lora_set e (cmd_buf (str_bytes ''mac set dr '' @ dec_bytes (unat datarate))) s"

definition lora_modem_get_datarate :: "'d lora_env \<Rightarrow> 'd lora_st \<Rightarrow> (lora_ret \<times> u8 \<times> 'd lora_st) option" where
  "lora_modem_get_datarate e s =
     Option.bind (lora_ask e (str_bytes ''mac get dr'') s) (\<lambda>(_, l, d).
       map_option (\<lambda>str. let dr = word_of_int (strtol str 10)
           in (if dr \<le> 5 then LORA_RET_OK else LORA_RET_FAILED, dr, command_unlock (l, d)))
         (buf_string (response_str l)))"

definition lora_modem_set_adr :: "'d lora_env \<Rightarrow> bool \<Rightarrow> 'd lora_st \<Rightarrow> (lora_ret \<times> 'd lora_st) option" where
  "lora_modem_set_adr e adr s = lora_set e (str_bytes (if adr then ''mac set adr on'' else ''mac set adr off'')) s"

subsection \<open>Joining\<close>

text \<open>The wait for the answer of the network, with the turns that are left.\<close>

fun join_loop :: "'d lora_env \<Rightarrow> nat \<Rightarrow> 'd lora_st \<Rightarrow> (lora_ret \<times> 'd lora_st) option" where
  "join_loop e 0 s = Some (LORA_RET_FAILED, command_unlock s)"
| "join_loop e (Suc n) s =
     Option.bind (lora_read e s) (\<lambda>(_, l, d).
       if response_len l = 0 then join_loop e n (l, d)
       else Some (lora_result (response_check (response_str l)) (command_unlock (l, d))))"

definition lora_modem_join :: "'d lora_env \<Rightarrow> 'd lora_st \<Rightarrow> (lora_ret \<times> 'd lora_st) option" where
  "lora_modem_join e s =
     Option.bind (lora_start e s) (\<lambda>(l, d).
       if lo_mode l = LORA_MODE_NONE then Some (LORA_RET_FAILED, command_unlock (l, d))
       else
         Option.bind (lora_read e (l, lora_modem_write_line e
             (str_bytes (if lo_mode l = LORA_MODE_ABP then ''mac join abp'' else ''mac join otaa'')) d)) (\<lambda>(_, l, d).
           let ret = response_check (response_str l)
           in if ret \<noteq> LORA_MODEM_RET_OK then Some (lora_result ret (command_unlock (l, d)))
              else join_loop e 100 (l, d)))"

subsection \<open>Sending and receiving\<close>

text \<open>The hexadecimal digits behind \<open>mac_rx\<close> and the port.\<close>

definition parse_rx_data :: "lora_modem \<Rightarrow> (lora_modem_ret \<times> lora_modem) option" where
  "parse_rx_data self =
     (let s = response_str self; len = response_len self in
      if len < 11 \<or> \<not> buf_starts s ''mac_rx'' then Some (LORA_MODEM_RET_FAILED, self)
      else
        let port = s ! 7 - 48;
            (i, len, port) = (if s ! 8 \<noteq> 32 then (9, len - 9, port * 10 + s ! 8 - 48) else (8, len - 8, port));
            self = self\<lparr>rx_data_port := port\<rparr>
        in if s ! i \<noteq> 32 then Some (LORA_MODEM_RET_FAILED, self)
           else
             let i = i + 1; len = len - 1
             in if len mod 2 \<noteq> 0 then Some (LORA_MODEM_RET_FAILED, self)
                else
                  map_option (\<lambda>dat. (LORA_MODEM_RET_OK, self\<lparr>rx_data_len := len div 2, rx_data := dat\<rparr>))
                    (fold_opt (\<lambda>k dat.
                        if k < length dat
                        then map_option (\<lambda>u. dat[k := ucast u]) (hex2uint (drop (i + 2 * k) s) 2)
                        else None)
                      [0 ..< len div 2] (rx_data self)))"

text \<open>The receiver on the port of the packet is woken, and the others can run until they give the semaphore or the wait
  is over; either way the semaphore is not given afterwards.\<close>

definition lora_hand_over :: "'d lora_env \<Rightarrow> 'd lora_st \<Rightarrow> 'd lora_st option" where
  "lora_hand_over e s =
     (case s of (l, d) \<Rightarrow>
        let port = unat (rx_data_port l) in
        if length (rx_lock l) \<le> port then None
        else
          (case rx_lock l ! port of
             None \<Rightarrow> Some (l, d)
           | Some _ \<Rightarrow>
               (case ld_others e (l\<lparr>rx_lock := (rx_lock l)[port := Some True]\<rparr>, d) of
                  (l, d) \<Rightarrow> Some (l\<lparr>rx_data_release := False\<rparr>, d))))"

partial_function (option) send_loop :: "'d lora_env \<Rightarrow> nat \<Rightarrow> 'd lora_st \<Rightarrow> (lora_ret \<times> 'd lora_st) option" where
  "send_loop e timeout s =
     Option.bind (lora_read e s) (\<lambda>(_, l, d).
       if response_len l = 0 then
         (if timeout = 0 then Some (LORA_RET_FAILED, command_unlock (l, d)) else send_loop e (timeout - 1) (l, d))
       else
         let ret = response_check (response_str l)
         in if ret = LORA_MODEM_RET_RX then
              Option.bind (parse_rx_data l) (\<lambda>(r, l).
                Option.bind (if r = LORA_MODEM_RET_OK then lora_hand_over e (l, d) else Some (l, d)) (send_loop e timeout))
            else
              Some (lora_result (if ret = LORA_MODEM_RET_TX_OK then LORA_MODEM_RET_OK else ret) (command_unlock (l, d))))"

text \<open>The data is a string of hexadecimal digits.\<close>

definition lora_modem_send :: "'d lora_env \<Rightarrow> u8 \<Rightarrow> u8 list option \<Rightarrow> 'd lora_st \<Rightarrow> (lora_ret \<times> 'd lora_st) option" where
  "lora_modem_send e port dat s =
     (case dat of
        None \<Rightarrow> Some (LORA_RET_BAD_PARAM, s)
      | Some dat \<Rightarrow>
          Option.bind (lora_start e s) (\<lambda>(l, d).
          let d = lora_modem_write e (cmd_buf (str_bytes ''mac tx uncnf '' @ dec_bytes (unat port) @ [32])) d;
              d = lora_modem_write_line e dat d
          in Option.bind (lora_read e (l, d)) (\<lambda>(_, l, d).
             let ret = response_check (response_str l)
             in if ret \<noteq> LORA_MODEM_RET_OK then Some (lora_result ret (command_unlock (l, d)))
                else send_loop e LORA_TX_OK_TIMEOUT (l, d))))"

text \<open>What the receiver does when it was woken.\<close>

definition lora_receive_data :: "nat \<Rightarrow> lora_modem \<Rightarrow> u8 list \<times> lora_modem" where
  "lora_receive_data sz self =
     (let self = (if sz < rx_data_len self then self\<lparr>rx_data_len := sz\<rparr> else self)
      in (take (rx_data_len self) (rx_data self), self\<lparr>rx_data_release := True\<rparr>))"

text \<open>\<open>create\<close> says whether a semaphore can be created. The data is given with its length.\<close>

definition lora_modem_receive ::
  "'d lora_env \<Rightarrow> bool \<Rightarrow> nat \<Rightarrow> nat \<Rightarrow> 'd lora_st \<Rightarrow> lora_ret \<times> u8 list option \<times> 'd lora_st" where
  "lora_modem_receive e create port sz s =
     (case s of (l, d) \<Rightarrow>
        if 15 < port then (LORA_RET_FAILED, None, l, d)
        else if rx_lock l ! port = None \<and> \<not> create then (LORA_RET_FAILED, None, l, d)
        else
          let l = (if rx_lock l ! port = None then l\<lparr>rx_lock := (rx_lock l)[port := Some False]\<rparr> else l);
              (l, d) = (if rx_lock l ! port = Some True then (l, d) else ld_others e (l, d))
          in if rx_lock l ! port = Some True then
               (case lora_receive_data sz (l\<lparr>rx_lock := (rx_lock l)[port := Some False]\<rparr>) of
                  (bs, l) \<Rightarrow> (LORA_RET_OK, Some bs, l, d))
             else (LORA_RET_TIMEOUT, None, l, d))"

subsection \<open>Orders of the driver\<close>

definition lora_modem_get_vdd :: "'d lora_env \<Rightarrow> 'd lora_st \<Rightarrow> (lora_modem_ret \<times> u32 \<times> 'd lora_st) option" where
  "lora_modem_get_vdd e s =
     Option.bind (lora_ask e (str_bytes ''sys get vdd'') s) (\<lambda>(_, l, d).
       map_option (\<lambda>str. (LORA_MODEM_RET_OK, word_of_int (strtol str 10), command_unlock (l, d)))
         (buf_string (response_str l)))"

definition lora_modem_save :: "'d lora_env \<Rightarrow> 'd lora_st \<Rightarrow> (lora_modem_ret \<times> 'd lora_st) option" where
  "lora_modem_save e s = lora_order e (str_bytes ''mac save'') s"

definition lora_modem_sleep :: "'d lora_env \<Rightarrow> nat \<Rightarrow> 'd lora_st \<Rightarrow> (lora_modem_ret \<times> 'd lora_st) option" where
  "lora_modem_sleep e len s = lora_order e (cmd_buf (str_bytes ''sys sleep '' @ dec_bytes len)) s"

definition lora_send_only :: "'d lora_env \<Rightarrow> u8 list \<Rightarrow> 'd lora_st \<Rightarrow> (lora_modem_ret \<times> 'd lora_st) option" where
  "lora_send_only e cmd s =
     map_option (\<lambda>(l, d). (LORA_MODEM_RET_OK, command_unlock (l, lora_modem_write_line e cmd d))) (lora_start e s)"

definition lora_modem_factory_reset :: "'d lora_env \<Rightarrow> 'd lora_st \<Rightarrow> (lora_modem_ret \<times> 'd lora_st) option" where
  "lora_modem_factory_reset e s = lora_send_only e (str_bytes ''sys factoryRESET'') s"

definition lora_modem_reset :: "'d lora_env \<Rightarrow> 'd lora_st \<Rightarrow> (lora_modem_ret \<times> 'd lora_st) option" where
  "lora_modem_reset e s = lora_send_only e (str_bytes ''sys reset'') s"

text \<open>\<open>strncpy\<close> fills the rest of the array with zeros.\<close>

definition lora_modem_get_ver ::
  "'d lora_env \<Rightarrow> nat option \<Rightarrow> 'd lora_st \<Rightarrow> (lora_modem_ret \<times> u8 list option \<times> 'd lora_st) option" where
  "lora_modem_get_ver e ver_len s =
     Option.bind (lora_ask e (str_bytes ''sys get ver'') s) (\<lambda>(_, l, d).
       case ver_len of
         None \<Rightarrow> Some (LORA_MODEM_RET_OK, None, command_unlock (l, d))
       | Some n \<Rightarrow>
           let str = takeWhile (\<lambda>c. c \<noteq> 0) (take n (response_str l))
           in if length (response_str l) < n \<and> length str = length (response_str l) then None
              else Some (LORA_MODEM_RET_OK, Some (str @ replicate (n - length str) 0), command_unlock (l, d)))"

definition lora_modem_set_ar :: "'d lora_env \<Rightarrow> bool \<Rightarrow> 'd lora_st \<Rightarrow> (lora_modem_ret \<times> 'd lora_st) option" where
  "lora_modem_set_ar e ar s = lora_order e (str_bytes (if ar then ''mac set ar on'' else ''mac set ar off'')) s"

subsection \<open>The status task\<close>

text \<open>The loop waits for the modem's version, with the turns that are left: the last line is read and not looked at.\<close>

fun regain_loop :: "'d lora_env \<Rightarrow> nat \<Rightarrow> 'd lora_st \<Rightarrow> (lora_modem_ret \<times> 'd lora_st) option" where
  "regain_loop e 0 s = Some (LORA_MODEM_RET_FAILED, s)"
| "regain_loop e (Suc n) s =
     Option.bind (lora_read e s) (\<lambda>(_, l, d).
       if n = 0 then Some (LORA_MODEM_RET_FAILED, l, d)
       else if buf_starts (response_str l) ''RN2483'' then Some (LORA_MODEM_RET_OK, l, d)
       else regain_loop e n (l, d))"

definition lora_modem_regain_comms :: "'d lora_env \<Rightarrow> 'd lora_st \<Rightarrow> (lora_modem_ret \<times> 'd lora_st) option" where
  "lora_modem_regain_comms e s =
     (case s of (l, d) \<Rightarrow>
        Option.bind (lora_modem_clear_input e d) (\<lambda>d.
          let d = (if lo_power l then ld_power e True (ld_delay e 500 (ld_power e False d)) else d);
              d = snd (st_write (ld_stream e) d [0x55])
          in regain_loop e 10 (l, d)))"

definition get_status :: "'d lora_env \<Rightarrow> 'd lora_st \<Rightarrow> (u32 option \<times> 'd lora_st) option" where
  "get_status e s =
     map_option (\<lambda>(r, l, d).
         (if r \<noteq> LORA_MODEM_RET_OK \<or> response_len l \<noteq> 8 then None
          else Some (word_of_int (strtol (response_str l) 16)), command_unlock (l, d)))
       (lora_ask e (str_bytes ''mac get status'') s)"

definition lora_status_of :: "u32 \<Rightarrow> lora_status" where
  "lora_status_of status =
     \<lparr>mac_state = unat (status AND 0xf), joined = bit status 4, automatic_reply_enabled = bit status 5,
      adr_enabled = bit status 6, silent_immediately = bit status 7, mac_paused = bit status 8, rx_done = bit status 9,
      line_check_enabled = bit status 10, channels_updated = bit status 11, power_updated = bit status 12,
      nbrep_updated = bit status 13, prescaler_updated = bit status 14, rx2_updated = bit status 15,
      rx_timing_updated = bit status 16, rejoin_needed = bit status 17, multicast_enabled = bit status 18\<rparr>"

text \<open>Joining again: the identifiers and the key are set and the adaptive data rate is turned on before.\<close>

definition lora_rejoin :: "'d lora_env \<Rightarrow> 'd lora_st \<Rightarrow> 'd lora_st option" where
  "lora_rejoin e s =
     (case s of (l, d) \<Rightarrow>
        Option.bind (lora_modem_set_deveui e (Some (deveui l)) (l\<lparr>join_req := False\<rparr>, d)) (\<lambda>(_, l, d).
        Option.bind (lora_modem_set_appeui e (Some (appeui l)) (l, d)) (\<lambda>(_, l, d).
        Option.bind (lora_modem_set_appkey e (Some (appkey l)) (l, d)) (\<lambda>(_, s).
        Option.bind (lora_modem_set_adr e True s) (\<lambda>(_, s).
        map_option snd (lora_modem_join e s))))))"

text \<open>What the task does before its loop, and one step of it.\<close>

definition lora_status_begin :: "'d lora_env \<Rightarrow> 'd lora_st \<Rightarrow> 'd lora_st" where
  "lora_status_begin e s = ((fst s)\<lparr>lo_running := True\<rparr>, ld_delay e 2000 (snd s))"

definition lora_status_turn :: "'d lora_env \<Rightarrow> 'd lora_st \<Rightarrow> 'd lora_st option" where
  "lora_status_turn e s =
     (if \<not> lo_can_run (fst s) then Some ((fst s)\<lparr>lo_running := False\<rparr>, snd s)
      else
        Option.bind (lora_modem_sleep e 800 s) (\<lambda>(_, s).
        Option.bind (get_status e s) (\<lambda>(r, l, d).
        Option.bind (case r of
            Some status \<Rightarrow> Some (l\<lparr>lo_status := lora_status_of status\<rparr>, d)
          | None \<Rightarrow> map_option snd (lora_modem_regain_comms e (l, d))) (\<lambda>(l, d).
        let l = (if rejoin_needed (lo_status l) then l\<lparr>join_req := True\<rparr> else l)
        in Option.bind (if join_req l then lora_rejoin e (l, d) else Some (l, d)) (\<lambda>s.
           map_option (\<lambda>(_, vdd, l, d). (l\<lparr>status_vdd_mV := vdd\<rparr>, d)) (lora_modem_get_vdd e s))))))"

subsection \<open>Start and end\<close>

definition lora_modem_zero :: lora_modem where
  "lora_modem_zero = \<lparr>lo_power = False, lo_mode = LORA_MODE_NONE, lo_locked = False, lo_can_run = False, lo_running = False,
     response_str = replicate LORA_RESPONSE_LEN 0, response_len = 0, rx_data = replicate LORA_RX_DATA_LEN 0, rx_data_len = 0,
     rx_data_port = 0, lo_status = lora_status_of 0, join_req = False, status_vdd_mV = 0, rx_lock = replicate 16 None,
     rx_data_release = False, appkey = [], deveui = [], appeui = [], error_counter = 0\<rparr>"

text \<open>\<open>mutex\<close> and \<open>release\<close> say whether the semaphores can be created.\<close>

definition lora_modem_init ::
  "'d lora_env \<Rightarrow> bool \<Rightarrow> bool \<Rightarrow> bool \<Rightarrow> 'd \<Rightarrow> (lora_modem_ret \<times> 'd lora_st) option" where
  "lora_modem_init e has_power mutex release d =
     (let l = lora_modem_zero\<lparr>lo_power := has_power\<rparr> in
      if \<not> mutex \<or> \<not> release then Some (LORA_MODEM_RET_FAILED, l, d)
      else
        Option.bind (lora_modem_regain_comms e (l, d)) (\<lambda>(ret, l, d).
          if ret \<noteq> LORA_MODEM_RET_OK then Some (LORA_MODEM_RET_FAILED, l, d)
          else Some (LORA_MODEM_RET_OK, l\<lparr>lo_can_run := True\<rparr>, d)))"

text \<open>The end of the driver: the task is told to stop, and when it has stopped, the semaphores are deleted. Deleting one
  that was not created is a fault.\<close>

definition lora_modem_free :: "lora_modem \<Rightarrow> lora_modem" where
  "lora_modem_free self = self\<lparr>lo_can_run := False\<rparr>"

definition lora_modem_free_ready :: "lora_modem \<Rightarrow> bool" where
  "lora_modem_free_ready self \<longleftrightarrow> \<not> lo_running self"

definition lora_modem_free_rest :: "lora_modem \<Rightarrow> lora_modem_ret option" where
  "lora_modem_free_rest self = (if None \<in> set (rx_lock self) then None else Some LORA_MODEM_RET_OK)"

end
