(* ===== verification/Mq_Lora_Bridge.thy ===== *)
theory Mq_Lora_Bridge
  imports Ndarray Lora_Modem
begin

text \<open>
  The bridge from the message queue to a LoRaWAN modem (\<open>services/mq-lora-bridge/mq-lora-bridge.c\<close>): messages of
  chosen topics are put in a CBOR map, which goes as a packet through a message buffer to the task that sends it.

  CBOR is a parameter: it gives the bytes for a list of items and the size of the buffer. So are the conversion of
  floating point numbers and the modem. A message buffer holds packets with four bytes for the length of each and
  takes a packet when there is room for it. Each task is a step function over the state they share.
\<close>

definition MQ_LORA_BRIDGE_MAX_TOPIC_LEN :: nat where "MQ_LORA_BRIDGE_MAX_TOPIC_LEN = 32"
definition MQ_LORA_BRIDGE_MAX_CBOR_KEY_LEN :: nat where "MQ_LORA_BRIDGE_MAX_CBOR_KEY_LEN = 8"

datatype mq_lora_bridge_ret = MQ_LORA_BRIDGE_RET_OK | MQ_LORA_BRIDGE_RET_FAILED

record mq_lora_bridge_topic =
  bt_topic :: string
  bt_key :: string
  bt_decimate_counter :: u32
  bt_decimate :: u32
  bt_triggers :: bool

datatype cbor_item = Cbor_text string | Cbor_uint nat | Cbor_int int | Cbor_null

record bridge_env =
  be_encode :: "nat \<Rightarrow> cbor_item list \<Rightarrow> u8 list"
  be_milli :: "u8 list \<Rightarrow> int"

text \<open>The items of the map that is being written are \<open>None\<close> before the encoder is prepared; the message buffer has its
  size and the packets in it.\<close>

record mq_lora_bridge =
  br_client :: bool
  br_can_run :: bool
  br_collect_running :: bool
  br_send_running :: bool
  br_collect_buf :: ndarray
  br_items :: "cbor_item list option"
  br_pbuf_size :: nat
  br_queue :: "(nat \<times> u8 list list) option"
  br_topics :: "mq_lora_bridge_topic list"

definition mq_lora_bridge_init :: "mq_lora_bridge_ret \<times> mq_lora_bridge" where
  "mq_lora_bridge_init = (MQ_LORA_BRIDGE_RET_OK, \<lparr>br_client = False, br_can_run = False, br_collect_running = False,
     br_send_running = False, br_collect_buf = ndarray_clear, br_items = None, br_pbuf_size = 0, br_queue = None, br_topics = []\<rparr>)"

subsection \<open>Packets\<close>

definition pbuf_prepare :: "mq_lora_bridge \<Rightarrow> mq_lora_bridge" where
  "pbuf_prepare self = self\<lparr>br_items := Some []\<rparr>"

definition add_items :: "cbor_item list \<Rightarrow> mq_lora_bridge \<Rightarrow> mq_lora_bridge option" where
  "add_items is self = map_option (\<lambda>old. self\<lparr>br_items := Some (old @ is)\<rparr>) (br_items self)"

definition pbuf_append_timestamp :: "nat \<Rightarrow> mq_lora_bridge \<Rightarrow> mq_lora_bridge option" where
  "pbuf_append_timestamp sec self = add_items [Cbor_text ''ts'', Cbor_uint sec] self"

definition pbuf_append :: "bridge_env \<Rightarrow> string \<Rightarrow> ndarray \<Rightarrow> mq_lora_bridge \<Rightarrow> mq_lora_bridge option" where
  "pbuf_append e key d self =
     add_items [Cbor_text key,
       if na_dtype d = DTYPE_FLOAT \<and> na_asize d = 1 then Cbor_int (be_milli e (na_buf d))
       else if na_dtype d = DTYPE_UINT32 \<and> na_asize d = 1 then Cbor_uint (unat (load32_le (na_buf d)))
       else if na_dtype d = DTYPE_INT32 \<and> na_asize d = 1 then Cbor_int (sint (load32_le (na_buf d)))
       else Cbor_null] self"

definition mbuf_size :: "u8 list list \<Rightarrow> nat" where
  "mbuf_size ms = sum_list (map (\<lambda>m. length m + 4) ms)"

text \<open>A packet for which there is no room is lost.\<close>

definition pbuf_finish :: "bridge_env \<Rightarrow> mq_lora_bridge \<Rightarrow> mq_lora_bridge option" where
  "pbuf_finish e self =
     Option.bind (br_items self) (\<lambda>is.
     Option.bind (br_queue self) (\<lambda>(n, ms).
       let packet = be_encode e (br_pbuf_size self) is
       in Some (if mbuf_size (ms @ [packet]) \<le> n then self\<lparr>br_queue := Some (n, ms @ [packet])\<rparr> else self)))"

subsection \<open>Collecting\<close>

text \<open>The topics for a message, one after the other.\<close>

fun collect_topics ::
  "bridge_env \<Rightarrow> string \<Rightarrow> nat \<Rightarrow> ndarray \<Rightarrow> mq_lora_bridge_topic list \<Rightarrow> mq_lora_bridge \<Rightarrow>
    (mq_lora_bridge_topic list \<times> mq_lora_bridge) option" where
  "collect_topics e topic sec d [] self = Some ([], self)"
| "collect_topics e topic sec d (t # ts) self =
     Option.bind
       (if topic = bt_topic t then
          (let t = t\<lparr>bt_decimate_counter := bt_decimate_counter t + 1\<rparr> in
           if bt_decimate t \<le> bt_decimate_counter t then
             Option.bind (pbuf_append e (bt_key t) d self) (\<lambda>self.
             Option.bind
               (if bt_triggers t then
                  Option.bind (pbuf_append_timestamp sec self) (\<lambda>self. map_option pbuf_prepare (pbuf_finish e self))
                else Some self) (\<lambda>self.
             Some (t\<lparr>bt_decimate_counter := 0\<rparr>, self)))
           else Some (t, self))
        else Some (t, self)) (\<lambda>(t, self).
     map_option (\<lambda>(ts, self). (t # ts, self)) (collect_topics e topic sec d ts self))"

definition collect_begin :: "mq_lora_bridge \<Rightarrow> mq_lora_bridge" where
  "collect_begin self = self\<lparr>br_collect_running := True\<rparr>"

text \<open>A step of the task that collects, with what was received: a topic, the seconds and an array.\<close>

definition collect_step :: "bridge_env \<Rightarrow> (string \<times> nat \<times> ndarray) option \<Rightarrow> mq_lora_bridge \<Rightarrow> mq_lora_bridge option" where
  "collect_step e rx self =
     (if \<not> br_can_run self then Some (self\<lparr>br_collect_running := False\<rparr>)
      else
        (case rx of
           None \<Rightarrow> Some self
         | Some (topic, sec, d) \<Rightarrow>
             map_option (\<lambda>(ts, self). self\<lparr>br_topics := ts\<rparr>)
               (collect_topics e topic sec d (br_topics self) (self\<lparr>br_collect_buf := d\<rparr>))))"

subsection \<open>Sending\<close>

definition byte2hex :: "u8 list \<Rightarrow> u8 list" where
  "byte2hex bs = concat (map hex_byte bs)"

definition send_begin :: "mq_lora_bridge \<Rightarrow> mq_lora_bridge" where
  "send_begin self = self\<lparr>br_send_running := True\<rparr>"

text \<open>A step of the task that sends. It waits while there is no packet, and stays where it is when the packet is larger
  than its buffer.\<close>

definition send_step :: "(u8 \<Rightarrow> u8 list \<Rightarrow> 'd \<Rightarrow> (lora_ret \<times> 'd) option) \<Rightarrow> mq_lora_bridge \<times> 'd \<Rightarrow> (mq_lora_bridge \<times> 'd) option" where
  "send_step send s =
     (case s of (self, d) \<Rightarrow>
        if \<not> br_can_run self then Some (self\<lparr>br_send_running := False\<rparr>, d)
        else
          (case br_queue self of
             None \<Rightarrow> None
           | Some (n, []) \<Rightarrow> Some (self, d)
           | Some (n, m # ms) \<Rightarrow>
               if br_pbuf_size self < length m then Some (self, d)
               else
                 let self = self\<lparr>br_queue := Some (n, ms)\<rparr>
                 in if 0 < length m then map_option (\<lambda>(_, d). (self, d)) (send 1 (byte2hex m) d)
                    else Some (self, d)))"

subsection \<open>Start, stop, topics\<close>

text \<open>Stopping gives a result when both tasks have ended; a start that fails stops as well, and its rest is that of stopping.\<close>

definition mq_lora_bridge_stop :: "mq_lora_bridge \<Rightarrow> mq_lora_bridge" where
  "mq_lora_bridge_stop self = self\<lparr>br_can_run := False\<rparr>"

definition mq_lora_bridge_stop_rest :: "mq_lora_bridge \<Rightarrow> (mq_lora_bridge_ret \<times> mq_lora_bridge) option" where
  "mq_lora_bridge_stop_rest self =
     (if br_collect_running self \<or> br_send_running self then None
      else Some (MQ_LORA_BRIDGE_RET_OK, self\<lparr>br_queue := None, br_pbuf_size := 0, br_collect_buf := ndarray_clear\<rparr>))"

text \<open>What can be had: a client, memory for a message, for the packets, for the mutex, the message buffer and the tasks.\<close>

definition mq_lora_bridge_start ::
  "bool \<Rightarrow> (nat \<Rightarrow> u8 list option) \<Rightarrow> bool \<Rightarrow> bool \<Rightarrow> bool \<Rightarrow> bool \<Rightarrow> bool \<Rightarrow> nat \<Rightarrow> nat \<Rightarrow> nat \<Rightarrow> mq_lora_bridge \<Rightarrow>
    mq_lora_bridge_ret \<times> mq_lora_bridge" where
  "mq_lora_bridge_start client fresh mem mutex queue collect_task send_task mq_size packet_size queue_len self =
     (let self = self\<lparr>br_client := client\<rparr> in
      if \<not> client then (MQ_LORA_BRIDGE_RET_FAILED, mq_lora_bridge_stop self)
      else
        case ndarray_init_empty fresh DTYPE_BYTE mq_size of (ret, buf) \<Rightarrow>
          let self = self\<lparr>br_collect_buf := buf\<rparr> in
          if ret \<noteq> NDARRAY_RET_OK \<or> \<not> mem \<or> \<not> mutex \<or> \<not> queue then (MQ_LORA_BRIDGE_RET_FAILED, mq_lora_bridge_stop self)
          else
            let self = self\<lparr>br_pbuf_size := packet_size, br_queue := Some (queue_len, []), br_can_run := True\<rparr> in
            if \<not> collect_task \<or> \<not> send_task then (MQ_LORA_BRIDGE_RET_FAILED, mq_lora_bridge_stop self)
            else (MQ_LORA_BRIDGE_RET_OK, pbuf_prepare self))"

text \<open>\<open>mem\<close> tells whether memory can be had; a missing string is refused.\<close>

definition mq_lora_bridge_add_topic ::
  "bool \<Rightarrow> string option \<Rightarrow> string option \<Rightarrow> u32 \<Rightarrow> bool \<Rightarrow> mq_lora_bridge \<Rightarrow> mq_lora_bridge_ret \<times> mq_lora_bridge" where
  "mq_lora_bridge_add_topic mem topic key decimate trigger self =
     (case (topic, key) of
        (Some topic, Some key) \<Rightarrow>
          if \<not> mem then (MQ_LORA_BRIDGE_RET_FAILED, self)
          else
            let t = \<lparr>bt_topic = strlcpy MQ_LORA_BRIDGE_MAX_TOPIC_LEN topic,
                     bt_key = strlcpy MQ_LORA_BRIDGE_MAX_CBOR_KEY_LEN key, bt_decimate_counter = 0,
                     bt_decimate = decimate, bt_triggers = trigger\<rparr>
            in (MQ_LORA_BRIDGE_RET_OK, self\<lparr>br_topics := t # br_topics self\<rparr>)
      | _ \<Rightarrow> (MQ_LORA_BRIDGE_RET_FAILED, self))"

end
