(* ===== verification/Lora_Modem_Props.thy ===== *)
theory Lora_Modem_Props
  imports Lora_Modem
begin

text \<open>
  Theorems about the LoRaWAN modem: what a line is, how the answers of the modem decide what becomes of a packet that is
  sent, and how a packet that the modem received in the meantime reaches the task that waits for it.
\<close>

subsection \<open>A serial line\<close>

text \<open>What arrives is a sequence of bytes and of \<open>None\<close>, a time in which nothing comes for as long as a read waits. A read
  that does not wait takes what is there; a read that waits meets the next byte or the next quiet time. The bytes \<open>out\<close>
  have been written, and a write may let the modem answer.\<close>

definition serial_ok :: "'d lora_env \<Rightarrow> ('d \<Rightarrow> u8 option list) \<Rightarrow> ('d \<Rightarrow> u8 list) \<Rightarrow> bool" where
  "serial_ok e q out \<longleftrightarrow>
     (\<forall>d n. (q d = [] \<or> hd (q d) = None) \<longrightarrow> st_read_timeout (ld_stream e) d n 0 = (STREAM_RET_TIMEOUT, None, d)) \<and>
     (\<forall>d n t. 0 < t \<and> (q d = [] \<or> hd (q d) = None) \<longrightarrow> (\<exists>d'.
        st_read_timeout (ld_stream e) d n t = (STREAM_RET_TIMEOUT, None, d') \<and> q d' = tl (q d) \<and> out d' = out d)) \<and>
     (\<forall>d n t c r. 0 < n \<and> q d = Some c # r \<longrightarrow> (\<exists>bs r' d'. r = map Some bs @ r' \<and> Suc (length bs) \<le> n \<and>
        st_read_timeout (ld_stream e) d n t = (STREAM_RET_OK, Some (c # bs), d') \<and> q d' = r' \<and> out d' = out d)) \<and>
     (\<forall>d bs. \<exists>ys. q (snd (st_write (ld_stream e) d bs)) = q d @ ys \<and> out (snd (st_write (ld_stream e) d bs)) = out d @ bs)"

lemma serial_quiet_now:
  "serial_ok e q out \<Longrightarrow> q d = [] \<or> hd (q d) = None \<Longrightarrow> st_read_timeout (ld_stream e) d n 0 = (STREAM_RET_TIMEOUT, None, d)"
  unfolding serial_ok_def by (elim conjE) blast

lemma serial_quiet:
  assumes "serial_ok e q out" "q d = [] \<or> hd (q d) = None" "0 < t"
  obtains d' where "st_read_timeout (ld_stream e) d n t = (STREAM_RET_TIMEOUT, None, d')" "q d' = tl (q d)" "out d' = out d"
  using assms unfolding serial_ok_def by (elim conjE) meson

lemma serial_read:
  assumes "serial_ok e q out" "0 < n" "q d = Some c # r"
  obtains bs r' d' where "r = map Some bs @ r'" "Suc (length bs) \<le> n"
    "st_read_timeout (ld_stream e) d n t = (STREAM_RET_OK, Some (c # bs), d')" "q d' = r'" "out d' = out d"
  using assms unfolding serial_ok_def by (elim conjE) meson

lemma serial_byte:
  assumes ok: "serial_ok e q out" and q: "q d = Some c # r"
  obtains d' where "st_read_timeout (ld_stream e) d 1 t = (STREAM_RET_OK, Some [c], d')" "q d' = r" "out d' = out d"
proof -
  obtain bs r' d' where d': "r = map Some bs @ r'" "Suc (length bs) \<le> 1"
    "st_read_timeout (ld_stream e) d 1 t = (STREAM_RET_OK, Some (c # bs), d')" "q d' = r'" "out d' = out d"
    using serial_read [OF ok zero_less_one q] by metis
  then have "bs = []" by simp
  then show ?thesis using d' that [of d'] by simp
qed

lemma serial_write:
  assumes "serial_ok e q out"
  obtains ys where "q (snd (st_write (ld_stream e) d bs)) = q d @ ys" "out (snd (st_write (ld_stream e) d bs)) = out d @ bs"
  using assms unfolding serial_ok_def by (elim conjE) meson

lemma serial_out: "serial_ok e q out \<Longrightarrow> out (snd (st_write (ld_stream e) d bs)) = out d @ bs"
  by (erule serial_write)

text \<open>After clearing nothing is there at the moment.\<close>

lemma clear_input_empties:
  assumes ok: "serial_ok e q out"
  shows "\<exists>d'. lora_modem_clear_input e d = Some d' \<and> (q d' = [] \<or> hd (q d') = None) \<and> out d' = out d"
proof (induction "length (q d)" arbitrary: d rule: less_induct)
  case less
  show ?case
  proof (cases "q d = [] \<or> hd (q d) = None")
    case True
    then show ?thesis by (subst lora_modem_clear_input.simps) (simp add: serial_quiet_now [OF ok])
  next
    case False
    then obtain c r where q: "q d = Some c # r" by (cases "q d") auto
    have "0 < (16 :: nat)" by simp
    from serial_read [OF ok this q] obtain bs r' d1 where d1: "r = map Some bs @ r'" "Suc (length bs) \<le> 16"
      "st_read_timeout (ld_stream e) d 16 0 = (STREAM_RET_OK, Some (c # bs), d1)" "q d1 = r'" "out d1 = out d" by metis
    then have "length (q d1) < length (q d)" using q by simp
    from less [OF this] d1 show ?thesis by (subst lora_modem_clear_input.simps) auto
  qed
qed

subsection \<open>Lines\<close>

definition is_nl :: "u8 \<Rightarrow> bool" where
  "is_nl c \<longleftrightarrow> c = 10 \<or> c = 13"

fun line_break :: "u8 option \<Rightarrow> bool" where
  "line_break None = False"
| "line_break (Some c) = is_nl c"

fun in_line :: "u8 option \<Rightarrow> bool" where
  "in_line None = False"
| "in_line (Some c) = (\<not> is_nl c)"

text \<open>The first line of what arrives, whether it ends before a quiet time, and what comes behind it.\<close>

definition line_chars :: "u8 option list \<Rightarrow> u8 list" where
  "line_chars bs = map the (takeWhile in_line (dropWhile line_break bs))"

definition line_tail :: "u8 option list \<Rightarrow> u8 option list" where
  "line_tail bs = dropWhile in_line (dropWhile line_break bs)"

definition line_rest :: "u8 option list \<Rightarrow> u8 option list" where
  "line_rest bs = tl (line_tail bs)"

definition line_ended :: "u8 option list \<Rightarrow> bool" where
  "line_ended bs \<longleftrightarrow> line_tail bs \<noteq> [] \<and> hd (line_tail bs) \<noteq> None"

lemma length_line_rest: "bs \<noteq> [] \<Longrightarrow> length (line_rest bs) < length bs"
proof -
  assume "bs \<noteq> []"
  moreover have "length (line_tail bs) \<le> length bs" unfolding line_tail_def by (meson length_dropWhile_le le_trans)
  ultimately show ?thesis unfolding line_rest_def by (cases "line_tail bs") auto
qed

lemma length_line_rest_le: "length (line_rest bs) \<le> length bs"
  using length_line_rest [of bs] by (cases "bs = []") (simp_all add: line_rest_def line_tail_def)

lemma line_ended_not_empty: "line_ended bs \<Longrightarrow> bs \<noteq> []"
  by (auto simp: line_ended_def line_tail_def)

text \<open>The loop in the middle of a line, and at the start of one.\<close>

definition read_result :: "u8 option list \<Rightarrow> lora_modem_ret" where
  "read_result tail = (if tail \<noteq> [] \<and> hd tail \<noteq> None then LORA_MODEM_RET_OK else LORA_MODEM_RET_FAILED)"

lemma read_loop_quiet:
  assumes ok: "serial_ok e q out" and q: "q d = [] \<or> hd (q d) = None"
  shows "\<exists>d'. read_line_loop e m acc d = Some (LORA_MODEM_RET_FAILED, acc, d') \<and> q d' = tl (q d) \<and> out d' = out d"
proof -
  have "0 < (2000 :: nat)" by simp
  from serial_quiet [OF ok q this] obtain d' where
    "st_read_timeout (ld_stream e) d 1 2000 = (STREAM_RET_TIMEOUT, None, d')" "q d' = tl (q d)" "out d' = out d" by metis
  then show ?thesis by (subst read_line_loop.simps) simp
qed

lemma read_loop_inside:
  assumes ok: "serial_ok e q out"
  shows "acc \<noteq> [] \<Longrightarrow> length acc \<le> m \<Longrightarrow>
    \<exists>d'. read_line_loop e m acc d = Some (read_result (dropWhile in_line (q d)),
          take m (acc @ map the (takeWhile in_line (q d))), d') \<and>
      q d' = tl (dropWhile in_line (q d)) \<and> out d' = out d"
proof (induction "q d" arbitrary: d acc)
  case Nil
  have "q d = [] \<or> hd (q d) = None" using Nil.hyps by simp
  from read_loop_quiet [OF ok this, of m acc] show ?case by (simp add: Nil.hyps [symmetric] Nil.prems read_result_def)
next
  case (Cons x r)
  note q = Cons(2) [symmetric]
  show ?case
  proof (cases x)
    case None
    then have "q d = [] \<or> hd (q d) = None" using q by simp
    from read_loop_quiet [OF ok this, of m acc] show ?thesis using None q Cons.prems by (simp add: read_result_def)
  next
    case (Some c)
    then have qc: "q d = Some c # r" using q by simp
    obtain d1 where d1: "st_read_timeout (ld_stream e) d 1 2000 = (STREAM_RET_OK, Some [c], d1)" "q d1 = r" "out d1 = out d"
      using serial_byte [OF ok qc] by metis
    define acc' where "acc' = (if length acc < m then acc @ [c] else acc)"
    have acc': "acc' \<noteq> []" "length acc' \<le> m" "take m (acc' @ s) = take m (acc @ c # s)" for s
      using Cons.prems by (auto simp: acc'_def take_Cons')
    show ?thesis
    proof (cases "is_nl c")
      case True
      then have "read_line_loop e m acc d = Some (LORA_MODEM_RET_OK, acc, d1)"
        using Cons.prems d1 by (subst read_line_loop.simps) (simp add: is_nl_def)
      then show ?thesis using Cons.prems qc d1(2,3) True by (simp add: read_result_def)
    next
      case False
      have "read_line_loop e m acc d = read_line_loop e m acc' d1"
        using False d1 by (subst read_line_loop.simps) (simp add: is_nl_def acc'_def)
      moreover have "r = q d1" using d1 by simp
      ultimately show ?thesis using Cons(1) [OF \<open>r = q d1\<close> acc'(1,2)] False qc d1(2,3)
        by (simp add: acc'(3) del: take_append dropWhile_eq_Nil_conv)
    qed
  qed
qed

lemma read_loop_spec:
  assumes ok: "serial_ok e q out" and m: "0 < m"
  shows "\<exists>d'. read_line_loop e m [] d = Some (read_result (line_tail (q d)), take m (line_chars (q d)), d') \<and>
    q d' = line_rest (q d) \<and> out d' = out d"
proof (induction "q d" arbitrary: d)
  case Nil
  have "q d = [] \<or> hd (q d) = None" using Nil.hyps by simp
  from read_loop_quiet [OF ok this, of m "[]"] show ?case
    by (simp add: Nil.hyps [symmetric] read_result_def line_tail_def line_chars_def line_rest_def)
next
  case (Cons x r)
  note q = Cons(2) [symmetric]
  show ?case
  proof (cases x)
    case None
    then have "q d = [] \<or> hd (q d) = None" using q by simp
    from read_loop_quiet [OF ok this, of m "[]"] show ?thesis
      using None q by (simp add: read_result_def line_tail_def line_chars_def line_rest_def)
  next
    case (Some c)
    then have qc: "q d = Some c # r" using q by simp
    obtain d1 where d1: "st_read_timeout (ld_stream e) d 1 2000 = (STREAM_RET_OK, Some [c], d1)" "q d1 = r" "out d1 = out d"
      using serial_byte [OF ok qc] by metis
    show ?thesis
    proof (cases "is_nl c")
      case True
      have "read_line_loop e m [] d = read_line_loop e m [] d1"
        using True d1 by (subst read_line_loop.simps) (simp add: is_nl_def)
      moreover have "r = q d1" using d1 by simp
      ultimately show ?thesis using Cons(1) [OF \<open>r = q d1\<close>] True qc d1(2,3)
        by (simp add: line_tail_def line_chars_def line_rest_def)
    next
      case False
      have "read_line_loop e m [] d = read_line_loop e m [c] d1"
        using False d1 m by (subst read_line_loop.simps) (simp add: is_nl_def)
      moreover have "\<exists>d'. read_line_loop e m [c] d1 = Some (read_result (dropWhile in_line (q d1)),
            take m ([c] @ map the (takeWhile in_line (q d1))), d') \<and>
        q d' = tl (dropWhile in_line (q d1)) \<and> out d' = out d1"
        by (rule read_loop_inside [OF ok]) (use m in auto)
      ultimately show ?thesis using False qc d1(2,3)
        by (simp add: line_tail_def line_chars_def line_rest_def)
    qed
  qed
qed

text \<open>The buffer and the length after a line was read.\<close>

definition line_buf :: "u8 option list \<Rightarrow> u8 list" where
  "line_buf bs =
     (let a = take LORA_RESPONSE_LEN (line_chars bs); buf = a @ replicate (LORA_RESPONSE_LEN - length a) 0
      in if line_ended bs then buf[LORA_RESPONSE_LEN - 1 := 0] else buf)"

definition line_len :: "u8 option list \<Rightarrow> nat" where
  "line_len bs = (if line_ended bs then min LORA_RESPONSE_LEN (length (line_chars bs)) else 0)"

lemma length_line_buf [simp]: "length (line_buf bs) = LORA_RESPONSE_LEN"
  by (simp add: line_buf_def Let_def)

lemma line_len_bound: "line_len bs \<le> LORA_RESPONSE_LEN"
  by (simp add: line_len_def)

lemma line_chars_not_empty: "line_ended bs \<Longrightarrow> line_chars bs \<noteq> []"
proof (cases "dropWhile line_break bs")
  case (Cons x r)
  assume e: "line_ended bs"
  have "\<not> line_break x" using hd_dropWhile [of line_break bs] Cons by simp
  moreover have "x \<noteq> None"
  proof
    assume "x = None"
    then have "line_tail bs = None # r" using Cons by (simp add: line_tail_def)
    then show False using e by (simp add: line_ended_def)
  qed
  ultimately have "in_line x" by (cases x) auto
  then show ?thesis using Cons by (simp add: line_chars_def)
qed (simp add: line_ended_def line_tail_def)

lemma line_len_0: "line_len bs = 0 \<longleftrightarrow> \<not> line_ended bs"
  using line_chars_not_empty [of bs] by (auto simp: line_len_def LORA_RESPONSE_LEN_def)

lemma lora_read_spec:
  assumes ok: "serial_ok e q out"
  shows "\<exists>ret d'. lora_read e (l, d) =
      Some (ret, l\<lparr>response_str := line_buf (q d), response_len := line_len (q d)\<rparr>, d') \<and>
    q d' = line_rest (q d) \<and> out d' = out d"
proof -
  have "0 < LORA_RESPONSE_LEN" by (simp add: LORA_RESPONSE_LEN_def)
  from read_loop_spec [OF ok this, of d] obtain d' where d': "read_line_loop e LORA_RESPONSE_LEN [] d =
      Some (read_result (line_tail (q d)), take LORA_RESPONSE_LEN (line_chars (q d)), d')"
    "q d' = line_rest (q d)" "out d' = out d" by blast
  then show ?thesis
    by (cases "line_ended (q d)")
      (auto simp: lora_read_def lora_modem_read_line_def line_buf_def line_len_def line_ended_def read_result_def Let_def min_def)
qed

subsection \<open>Whole lines\<close>

text \<open>The buffer for a line that ended and fits.\<close>

definition padded :: "u8 list \<Rightarrow> u8 list" where
  "padded a = a @ replicate (LORA_RESPONSE_LEN - length a) 0"

definition plain_line :: "u8 list \<Rightarrow> bool" where
  "plain_line a \<longleftrightarrow> a \<noteq> [] \<and> length a < LORA_RESPONSE_LEN \<and> 0 \<notin> set a \<and> 10 \<notin> set a \<and> 13 \<notin> set a"

lemma take_while_line:
  assumes "10 \<notin> set a" "13 \<notin> set a" "is_nl c"
  shows "takeWhile in_line (map Some a @ Some c # r) = map Some a" "dropWhile in_line (map Some a @ Some c # r) = Some c # r"
  using assms by (induction a) (auto simp: is_nl_def)

lemma plain_line_read:
  assumes a: "plain_line a" and c: "is_nl c" and q: "dropWhile line_break bs = map Some a @ Some c # r"
  shows "line_ended bs" "line_rest bs = r" "line_len bs = length a" "line_buf bs = padded a"
proof -
  have n: "10 \<notin> set a" "13 \<notin> set a" "length a < LORA_RESPONSE_LEN" using a by (auto simp: plain_line_def)
  note w = take_while_line [OF n(1,2) c, of r]
  show e: "line_ended bs" "line_rest bs = r" unfolding line_ended_def line_rest_def line_tail_def q w by simp_all
  have lc: "line_chars bs = a" unfolding line_chars_def q w by (simp add: comp_def)
  show "line_len bs = length a" using n e lc by (simp add: line_len_def)
  have "padded a ! (LORA_RESPONSE_LEN - 1) = 0" using n(3) by (auto simp: padded_def nth_append)
  then have "(padded a)[LORA_RESPONSE_LEN - 1 := 0] = padded a" by (metis list_update_id)
  then show "line_buf bs = padded a" using e lc n(3) by (simp add: line_buf_def padded_def)
qed

lemma padded_eq:
  assumes a: "plain_line a" and s: "0 \<notin> set (str_bytes s)" "length s < LORA_RESPONSE_LEN"
  shows "buf_eq (padded a) s \<longleftrightarrow> a = str_bytes s"
proof
  assume "buf_eq (padded a) s"
  then have t: "take (length s + 1) (padded a) = str_bytes s @ [0]" by (simp add: buf_eq_def)
  have za: "\<forall>c \<in> set a. c \<noteq> 0" using a by (auto simp: plain_line_def)
  have zs: "\<forall>c \<in> set (str_bytes s). c \<noteq> 0" using s by auto
  have ls: "length (str_bytes s) = length s" by (simp add: str_bytes_def)
  show "a = str_bytes s"
  proof (cases "length a \<le> length s")
    case True
    then obtain k where "length s + 1 - length a = Suc k" by (metis Suc_diff_le Suc_eq_plus1)
    then have "take (length s + 1) (padded a) = a @ replicate (Suc k) 0" using s(2) True by (simp add: padded_def min_def)
    then have "takeWhile (\<lambda>c. c \<noteq> 0) (a @ replicate (Suc k) 0) = takeWhile (\<lambda>c. c \<noteq> 0) (str_bytes s @ [0])" using t by metis
    then show ?thesis using za zs by (simp add: takeWhile_append2)
  next
    case False
    then have "(str_bytes s @ [0]) ! length s = a ! length s"
      using arg_cong [OF t, of "\<lambda>xs. xs ! length s"] by (simp add: padded_def nth_append)
    then show ?thesis using za False ls by (metis nth_append_length nth_mem not_le)
  qed
next
  assume "a = str_bytes s"
  then show "buf_eq (padded a) s" using s(2) by (simp add: buf_eq_def padded_def str_bytes_def take_Cons' replicate_eq_replicate)
qed

lemma padded_starts:
  assumes s: "0 \<notin> set (str_bytes s)" "length s \<le> LORA_RESPONSE_LEN"
  shows "buf_starts (padded a) s \<longleftrightarrow> take (length s) a = str_bytes s"
proof (cases "length s \<le> length a")
  case True
  then show ?thesis by (simp add: buf_starts_def padded_def)
next
  case False
  then have "take (length s) a = a" "length a < length s" by auto
  then have "take (length s) (padded a) = a @ replicate (length s - length a) 0" "a \<noteq> str_bytes s"
    using s by (auto simp: padded_def str_bytes_def min_def)
  moreover have "0 \<in> set (a @ replicate (length s - length a) (0 :: u8))" using False by simp
  ultimately show ?thesis using False s(1) unfolding buf_starts_def by (metis \<open>take (length s) a = a\<close>)
qed

lemma check_padded:
  assumes a: "plain_line a"
  shows "response_check (padded a) =
     (if a = str_bytes ''ok'' then LORA_MODEM_RET_OK
      else if a = str_bytes ''invalid_param'' then LORA_MODEM_RET_INVALID_PARAM
      else if a = str_bytes ''accepted'' then LORA_MODEM_RET_ACCEPTED
      else if a = str_bytes ''denied'' then LORA_MODEM_RET_DENIED
      else if a = str_bytes ''not_joined'' then LORA_MODEM_RET_NOT_JOINED
      else if a = str_bytes ''no_free_ch'' then LORA_MODEM_RET_NO_FREE_CHANNEL
      else if a = str_bytes ''silent'' then LORA_MODEM_RET_SILENT
      else if a = str_bytes ''frame_counter_err_rejoin_needed'' then LORA_MODEM_RET_FRAME_COUNTER_ERROR
      else if a = str_bytes ''busy'' then LORA_MODEM_RET_BUSY
      else if a = str_bytes ''mac_paused'' then LORA_MODEM_RET_PAUSED
      else if a = str_bytes ''invalid_data_len'' then LORA_MODEM_RET_INVALID_DATA_LEN
      else if a = str_bytes ''mac_tx_ok'' then LORA_MODEM_RET_TX_OK
      else if take 6 a = str_bytes ''mac_rx'' then LORA_MODEM_RET_RX
      else if a = str_bytes ''mac_err'' then LORA_MODEM_RET_TX_ERR
      else LORA_MODEM_RET_FAILED)"
proof -
  have eq: "buf_eq (padded a) s \<longleftrightarrow> a = str_bytes s" if "0 \<notin> set (str_bytes s)" "length s < 540" for s
    using padded_eq [OF a that(1)] that(2) by (simp add: LORA_RESPONSE_LEN_def)
  have six: "length ''mac_rx'' = 6" by simp
  have "0 \<notin> set (str_bytes ''mac_rx'')" "length ''mac_rx'' \<le> LORA_RESPONSE_LEN" by (simp_all add: LORA_RESPONSE_LEN_def str_bytes_def)
  from padded_starts [OF this, of a] have "buf_starts (padded a) ''mac_rx'' \<longleftrightarrow> take 6 a = str_bytes ''mac_rx''" unfolding six .
  then show ?thesis unfolding response_check_def
    by (simp add: eq [of "''ok''"] eq [of "''invalid_param''"] eq [of "''accepted''"] eq [of "''denied''"] eq [of "''not_joined''"]
      eq [of "''no_free_ch''"] eq [of "''silent''"] eq [of "''frame_counter_err_rejoin_needed''"] eq [of "''busy''"]
      eq [of "''mac_paused''"] eq [of "''invalid_data_len''"] eq [of "''mac_tx_ok''"] eq [of "''mac_err''"] str_bytes_def)
qed

subsection \<open>The state of the driver\<close>

definition lora_inv :: "lora_modem \<Rightarrow> bool" where
  "lora_inv l \<longleftrightarrow> length (response_str l) = LORA_RESPONSE_LEN \<and> response_len l \<le> LORA_RESPONSE_LEN \<and>
     length (rx_data l) = LORA_RX_DATA_LEN \<and> rx_data_len l \<le> LORA_RX_DATA_LEN \<and> length (rx_lock l) = 16 \<and>
     error_counter l < LORA_MAX_ERRORS_BEFORE_REJOIN"

text \<open>The other tasks, while the driver waits for one of them to take a packet, only receive.\<close>

definition receivers_only :: "'d lora_env \<Rightarrow> ('d \<Rightarrow> u8 option list) \<Rightarrow> ('d \<Rightarrow> u8 list) \<Rightarrow> bool" where
  "receivers_only e q out \<longleftrightarrow>
     (\<forall>l d. \<exists>ls n b d'. ld_others e (l, d) = (l\<lparr>rx_lock := ls, rx_data_len := n, rx_data_release := b\<rparr>, d') \<and>
        length ls = length (rx_lock l) \<and> n \<le> rx_data_len l \<and> q d' = q d \<and> out d' = out d)"

lemma receivers_onlyE:
  assumes "receivers_only e q out"
  obtains ls n b d' where "ld_others e (l, d) = (l\<lparr>rx_lock := ls, rx_data_len := n, rx_data_release := b\<rparr>, d')"
    "length ls = length (rx_lock l)" "n \<le> rx_data_len l" "q d' = q d" "out d' = out d"
  using assms unfolding receivers_only_def by meson

text \<open>Packets of the network for the ports and of the size that the driver has room for.\<close>

definition rx_port :: "u8 list \<Rightarrow> u8" where
  "rx_port s = (if s ! 8 \<noteq> 32 then (s ! 7 - 48) * 10 + s ! 8 - 48 else s ! 7 - 48)"

definition line_fits :: "u8 list \<Rightarrow> nat \<Rightarrow> bool" where
  "line_fits s len \<longleftrightarrow> (buf_starts s ''mac_rx'' \<longrightarrow> len \<le> 521 \<and> unat (rx_port s) < 16)"

lemma hex_loop_total: "n \<le> length hex \<Longrightarrow> \<exists>u'. hex_loop u n hex = Some u'"
  by (induction u n hex rule: hex_loop.induct) (auto simp: Let_def)

lemma parse_loop_total:
  assumes "length dat = 256" "length s = 540" "n \<le> 256" "i + 2 * n \<le> 540"
  shows "\<exists>dat'. fold_opt (\<lambda>k dat. if k < length dat then map_option (\<lambda>u. dat[k := ucast u]) (hex2uint (drop (i + 2 * k) s) 2) else None)
      [0 ..< n] (dat :: u8 list) = Some dat' \<and> length dat' = 256"
proof (rule fold_opt_upt_inv [where Inv = "\<lambda>_ dat. length dat = 256"])
  fix k dat assume k: "k < n" "length (dat :: u8 list) = 256"
  then have "2 \<le> length (drop (i + 2 * k) s)" using assms by simp
  from hex_loop_total [OF this, of 0] obtain u where "hex2uint (drop (i + 2 * k) s) 2 = Some u" by (auto simp: hex2uint_def)
  then show "\<exists>s'. (if k < length dat then map_option (\<lambda>u. dat[k := ucast u]) (hex2uint (drop (i + 2 * k) s) 2) else None) = Some s' \<and>
    length s' = 256" using k assms by simp
qed (use assms in simp)

lemma parse_total:
  assumes inv: "lora_inv l" and fit: "line_fits (response_str l) (response_len l)"
  shows "\<exists>r p n dat. parse_rx_data l = Some (r, l\<lparr>rx_data_port := p, rx_data_len := n, rx_data := dat\<rparr>) \<and>
    length dat = LORA_RX_DATA_LEN \<and> n \<le> LORA_RX_DATA_LEN \<and> (r = LORA_MODEM_RET_OK \<longrightarrow> unat p < 16)"
proof (cases "response_len l < 11 \<or> \<not> buf_starts (response_str l) ''mac_rx''")
  case True
  then have "parse_rx_data l = Some (LORA_MODEM_RET_FAILED, l\<lparr>rx_data_port := rx_data_port l, rx_data_len := rx_data_len l, rx_data := rx_data l\<rparr>)"
    by (simp add: parse_rx_data_def)
  then show ?thesis using inv unfolding lora_inv_def by blast
next
  case False
  let ?s = "response_str l" and ?len = "response_len l"
  have b: "?len \<le> 521" "unat (rx_port ?s) < 16" "length ?s = 540" "length (rx_data l) = 256" "rx_data_len l \<le> 256"
    using False fit inv by (auto simp: line_fits_def lora_inv_def LORA_RESPONSE_LEN_def LORA_RX_DATA_LEN_def)
  show ?thesis
  proof (cases "?s ! 8 \<noteq> 32")
    case True
    let ?p = "(?s ! 7 - 48) * 10 + ?s ! 8 - 48"
    have p: "unat ?p < 16" using True b(2) by (simp add: rx_port_def)
    obtain dat where dat: "fold_opt (\<lambda>k dat. if k < length dat then map_option (\<lambda>u. dat[k := ucast u]) (hex2uint (drop (10 + 2 * k) ?s) 2) else None)
      [0 ..< (?len - 10) div 2] (rx_data l) = Some dat" "length dat = 256" using parse_loop_total [OF b(4,3), of "(?len - 10) div 2" 10] b(1) False by fastforce
    show ?thesis
    proof (cases "?s ! 9 \<noteq> 32 \<or> (?len - 10) mod 2 \<noteq> 0")
      case t: True
      then have "parse_rx_data l = Some (LORA_MODEM_RET_FAILED, l\<lparr>rx_data_port := ?p, rx_data_len := rx_data_len l, rx_data := rx_data l\<rparr>)"
        using True False by (auto simp: parse_rx_data_def Let_def)
      then show ?thesis using b p by (fastforce simp: LORA_RX_DATA_LEN_def)
    next
      case f: False
      then have "parse_rx_data l = Some (LORA_MODEM_RET_OK, l\<lparr>rx_data_port := ?p, rx_data_len := (?len - 10) div 2, rx_data := dat\<rparr>)"
        using True False dat by (simp add: parse_rx_data_def Let_def)
      then show ?thesis using b p dat by (fastforce simp: LORA_RX_DATA_LEN_def)
    qed
  next
    case 8: False
    let ?p = "?s ! 7 - 48"
    have p: "unat ?p < 16" using 8 b(2) by (simp add: rx_port_def)
    obtain dat where dat: "fold_opt (\<lambda>k dat. if k < length dat then map_option (\<lambda>u. dat[k := ucast u]) (hex2uint (drop (9 + 2 * k) ?s) 2) else None)
      [0 ..< (?len - 9) div 2] (rx_data l) = Some dat" "length dat = 256" using parse_loop_total [OF b(4,3), of "(?len - 9) div 2" 9] b(1) False by fastforce
    show ?thesis
    proof (cases "(?len - 9) mod 2 \<noteq> 0")
      case t: True
      then have "parse_rx_data l = Some (LORA_MODEM_RET_FAILED, l\<lparr>rx_data_port := ?p, rx_data_len := rx_data_len l, rx_data := rx_data l\<rparr>)"
        using 8 False by (auto simp: parse_rx_data_def Let_def)
      then show ?thesis using b p by (fastforce simp: LORA_RX_DATA_LEN_def)
    next
      case f: False
      then have "parse_rx_data l = Some (LORA_MODEM_RET_OK, l\<lparr>rx_data_port := ?p, rx_data_len := (?len - 9) div 2, rx_data := dat\<rparr>)"
        using 8 False dat by (simp add: parse_rx_data_def Let_def)
      then show ?thesis using b p dat by (fastforce simp: LORA_RX_DATA_LEN_def)
    qed
  qed
qed

subsection \<open>Sending\<close>

text \<open>What arrives fits, line by line; and the answer to a packet: the first line that is not a packet of the network, with
  the number of times that the driver waits once more when no line came.\<close>

function lines_fit :: "u8 option list \<Rightarrow> bool" where
  "lines_fit bs \<longleftrightarrow>
     (bs \<noteq> [] \<longrightarrow> (line_ended bs \<longrightarrow> line_fits (line_buf bs) (line_len bs)) \<and> lines_fit (line_rest bs))"
  by pat_completeness auto
termination by (relation "measure length") (simp_all add: length_line_rest)

function send_answer :: "nat \<Rightarrow> u8 option list \<Rightarrow> lora_modem_ret option" where
  "send_answer t bs =
     (if \<not> line_ended bs then (if t = 0 then None else send_answer (t - 1) (line_rest bs))
      else if response_check (line_buf bs) = LORA_MODEM_RET_RX then send_answer t (line_rest bs)
      else Some (response_check (line_buf bs)))"
  by pat_completeness auto
termination
proof (relation "measure (\<lambda>(t, bs). t + length bs)", goal_cases)
  case (2 t bs)
  then show ?case using length_line_rest_le [of bs] by simp
next
  case (3 t bs)
  then show ?case using length_line_rest [of bs] line_ended_not_empty [of bs] by simp
qed simp

declare lines_fit.simps [simp del] send_answer.simps [simp del]

text \<open>The result, the number of errors and whether to join again, from an answer or its absence.\<close>

definition verdict :: "u32 \<Rightarrow> bool \<Rightarrow> lora_modem_ret option \<Rightarrow> lora_ret \<times> u32 \<times> bool" where
  "verdict c j ans =
     (if ans = None \<or> ans = Some LORA_MODEM_RET_NO_FREE_CHANNEL then (LORA_RET_FAILED, c, j)
      else if ans = Some LORA_MODEM_RET_TX_OK then (LORA_RET_OK, 0, j)
      else if ans \<in> {Some LORA_MODEM_RET_OK, Some LORA_MODEM_RET_ACCEPTED, Some LORA_MODEM_RET_RX} then (LORA_RET_OK, c, j)
      else if ans \<in> {Some LORA_MODEM_RET_DENIED, Some LORA_MODEM_RET_NOT_JOINED} then (LORA_RET_FAILED, c, True)
      else if c + 1 = LORA_MAX_ERRORS_BEFORE_REJOIN then (LORA_RET_FAILED, 0, True)
      else (LORA_RET_FAILED, c + 1, j))"

text \<open>The answer to a whole packet: the first line has to be \<open>ok\<close>, and then the driver waits ten more times; what was
  sent is as good as \<open>ok\<close>.\<close>

definition send_outcome :: "u8 option list \<Rightarrow> lora_modem_ret option" where
  "send_outcome bs =
     (let first = response_check (line_buf bs) in
      if first \<noteq> LORA_MODEM_RET_OK then Some first
      else map_option (\<lambda>r. if r = LORA_MODEM_RET_TX_OK then LORA_MODEM_RET_OK else r) (send_answer 10 (line_rest bs)))"

lemma lora_result_verdict:
  assumes inv: "lora_inv l"
  obtains ret l' where "lora_result r (l, d) = (ret, l', d)" "(ret, error_counter l', join_req l') = verdict (error_counter l) (join_req l) (Some r)"
    "lora_inv l'" "lo_locked l' = lo_locked l"
proof -
  have c: "error_counter l < 10" using inv by (simp add: lora_inv_def LORA_MAX_ERRORS_BEFORE_REJOIN_def)
  have ten: "10 \<le> error_counter l + 1 \<longleftrightarrow> error_counter l + 1 = 10"
  proof -
    have "error_counter l + 1 \<le> 10" using c by unat_arith
    then show ?thesis by auto
  qed
  have less: "error_counter l + 1 \<noteq> 10 \<Longrightarrow> error_counter l + 1 < 10" using ten by auto
  obtain ret l' where r: "lora_response l r = (ret, l')" by (cases "lora_response l r")
  have 1: "(ret, error_counter l', join_req l') = verdict (error_counter l) (join_req l) (Some r)"
    using r ten by (cases r) (auto simp: lora_response_def verdict_def LORA_MAX_ERRORS_BEFORE_REJOIN_def Let_def split: if_splits)
  have 2: "lora_inv l'" using inv r ten less
    by (cases r) (auto simp: lora_response_def lora_inv_def LORA_MAX_ERRORS_BEFORE_REJOIN_def Let_def split: if_splits)
  have 3: "lo_locked l' = lo_locked l" using r by (cases r) (auto simp: lora_response_def Let_def split: if_splits)
  show ?thesis using that [OF _ 1 2 3] r by (simp add: lora_result_def)
qed

text \<open>The driver after it has read, parsed and handed over: what counts is as before.\<close>

definition lora_kept :: "lora_modem \<Rightarrow> lora_modem \<Rightarrow> bool" where
  "lora_kept l l' \<longleftrightarrow> lora_inv l' \<and> error_counter l' = error_counter l \<and> join_req l' = join_req l"

lemma lora_kept_trans: "lora_kept l1 l2 \<Longrightarrow> lora_kept l2 l3 \<Longrightarrow> lora_kept l1 l3"
  by (simp add: lora_kept_def)

lemma kept_read: "lora_inv l \<Longrightarrow> lora_kept l (l\<lparr>response_str := line_buf bs, response_len := line_len bs\<rparr>)"
  by (simp add: lora_kept_def lora_inv_def line_len_bound)

lemma kept_unlock: "lora_inv l \<Longrightarrow> command_unlock (l, d) = (l\<lparr>lo_locked := False\<rparr>, d) \<and> lora_kept l (l\<lparr>lo_locked := False\<rparr>)"
  by (simp add: command_unlock_def lora_kept_def lora_inv_def)

lemma hand_over_total:
  assumes rx: "receivers_only e q out" and inv: "lora_inv l" and p: "unat (rx_data_port l) < 16"
  shows "\<exists>l' d'. lora_hand_over e (l, d) = Some (l', d') \<and> lora_kept l l' \<and> q d' = q d \<and> out d' = out d"
proof (cases "rx_lock l ! unat (rx_data_port l)")
  case None
  then show ?thesis using p inv by (simp add: lora_hand_over_def lora_inv_def lora_kept_def)
next
  case (Some g)
  let ?l = "l\<lparr>rx_lock := (rx_lock l)[unat (rx_data_port l) := Some True]\<rparr>"
  obtain ls n b d' where o: "ld_others e (?l, d) = (?l\<lparr>rx_lock := ls, rx_data_len := n, rx_data_release := b\<rparr>, d')"
    "length ls = length (rx_lock ?l)" "n \<le> rx_data_len ?l" "q d' = q d" "out d' = out d"
    by (rule receivers_onlyE [OF rx])
  then show ?thesis using Some p inv by (auto simp: lora_hand_over_def lora_inv_def lora_kept_def)
qed

text \<open>A downlink packet that fits is parsed, and handed over when that succeeds.\<close>

lemma downlink_total:
  assumes rx: "receivers_only e q out" and inv: "lora_inv l" and fit: "line_fits (response_str l) (response_len l)"
  shows "\<exists>l' d'. Option.bind (parse_rx_data l) (\<lambda>(r, l).
      Option.bind (if r = LORA_MODEM_RET_OK then lora_hand_over e (l, d) else Some (l, d)) f) = f (l', d') \<and>
    lora_kept l l' \<and> q d' = q d \<and> out d' = out d"
proof -
  obtain r p n dat where pr: "parse_rx_data l = Some (r, l\<lparr>rx_data_port := p, rx_data_len := n, rx_data := dat\<rparr>)"
    "length dat = LORA_RX_DATA_LEN" "n \<le> LORA_RX_DATA_LEN" "r = LORA_MODEM_RET_OK \<longrightarrow> unat p < 16"
    using parse_total [OF inv fit] by blast
  let ?l = "l\<lparr>rx_data_port := p, rx_data_len := n, rx_data := dat\<rparr>"
  have k: "lora_kept l ?l" using inv pr by (simp add: lora_kept_def lora_inv_def)
  show ?thesis
  proof (cases "r = LORA_MODEM_RET_OK")
    case True
    then have "unat (rx_data_port ?l) < 16" using pr(4) by simp
    moreover have "lora_inv ?l" using k by (simp add: lora_kept_def)
    ultimately obtain l' d' where "lora_hand_over e (?l, d) = Some (l', d')" "lora_kept ?l l'" "q d' = q d" "out d' = out d"
      using hand_over_total [OF rx] by blast
    then show ?thesis using True pr(1) lora_kept_trans [OF k] by auto
  next
    case False
    then show ?thesis using pr(1) k by auto
  qed
qed

lemma send_loop_answer:
  assumes ok: "serial_ok e q out" and rx: "receivers_only e q out"
  shows "lora_inv l \<Longrightarrow> lines_fit (q d) \<Longrightarrow>
    \<exists>ret l' d'. send_loop e t (l, d) = Some (ret, l', d') \<and>
      (ret, error_counter l', join_req l') = verdict (error_counter l) (join_req l)
        (map_option (\<lambda>r. if r = LORA_MODEM_RET_TX_OK then LORA_MODEM_RET_OK else r) (send_answer t (q d))) \<and>
      lora_inv l' \<and> \<not> lo_locked l' \<and> out d' = out d"
proof (induction "t + length (q d)" arbitrary: t l d rule: less_induct)
  case less
  obtain ret d1 where r: "lora_read e (l, d) = Some (ret, l\<lparr>response_str := line_buf (q d), response_len := line_len (q d)\<rparr>, d1)"
    "q d1 = line_rest (q d)" "out d1 = out d" using lora_read_spec [OF ok, of l d] by blast
  let ?l = "l\<lparr>response_str := line_buf (q d), response_len := line_len (q d)\<rparr>"
  let ?r = "response_check (line_buf (q d))"
  have k: "lora_kept l ?l" using less.prems by (simp add: kept_read)
  then have inv: "lora_inv ?l" by (simp add: lora_kept_def)
  have rest: "length (q d1) \<le> length (q d)" "lines_fit (q d1)"
    using r(2) less.prems(2) lines_fit.simps [of "q d"] length_line_rest_le [of "q d"]
    by (cases "q d = []"; simp add: line_rest_def line_tail_def)+
  show ?case
  proof (cases "line_ended (q d)")
    case quiet: False
    show ?thesis
    proof (cases "t = 0")
      case True
      then have "send_loop e t (l, d) = Some (LORA_RET_FAILED, command_unlock (?l, d1))"
        using r(1) quiet by (subst send_loop.simps) (simp add: line_len_0)
      then show ?thesis using True quiet r(3) kept_unlock [OF inv, of d1] k send_answer.simps [of t "q d"]
        by (auto simp: verdict_def lora_kept_def)
    next
      case False
      then have s: "send_loop e t (l, d) = send_loop e (t - 1) (?l, d1)"
        using r(1) quiet by (subst send_loop.simps) (simp add: line_len_0)
      have a: "send_answer t (q d) = send_answer (t - 1) (q d1)" using False quiet r(2) by (subst send_answer.simps) simp
      have "t - 1 + length (q d1) < t + length (q d)" using False rest(1) by simp
      from less.hyps [OF this inv rest(2)] show ?thesis unfolding s a r(3) by simp
    qed
  next
    case True
    show ?thesis
    proof (cases "?r = LORA_MODEM_RET_RX")
      case a: True
      have fit: "line_fits (response_str ?l) (response_len ?l)"
        using less.prems(2) True lines_fit.simps [of "q d"] line_ended_not_empty by auto
      obtain l2 d2 where h: "Option.bind (parse_rx_data ?l) (\<lambda>(r, l).
          Option.bind (if r = LORA_MODEM_RET_OK then lora_hand_over e (l, d1) else Some (l, d1)) (send_loop e t)) = send_loop e t (l2, d2)"
        "lora_kept ?l l2" "q d2 = q d1" "out d2 = out d1"
        using downlink_total [OF rx inv fit, of d1 "send_loop e t"] by blast
      have s: "send_loop e t (l, d) = send_loop e t (l2, d2)"
        using r(1) True a h(1) by (subst send_loop.simps) (simp add: line_len_0)
      have n: "send_answer t (q d) = send_answer t (q d2)" using True a r(2) h(3) by (subst send_answer.simps) simp
      have "t + length (q d2) < t + length (q d)" "lines_fit (q d2)"
        using h(3) r(2) True length_line_rest line_ended_not_empty rest(2) by auto
      moreover have l2: "lora_inv l2" "error_counter l2 = error_counter l" "join_req l2 = join_req l"
        using lora_kept_trans [OF k h(2)] by (auto simp: lora_kept_def)
      ultimately show ?thesis using less.hyps [of t d2 l2] unfolding s n l2(2,3) h(4) r(3) by blast
    next
      case b: False
      let ?r' = "if ?r = LORA_MODEM_RET_TX_OK then LORA_MODEM_RET_OK else ?r"
      let ?u = "?l\<lparr>lo_locked := False\<rparr>"
      have u: "lora_kept ?l ?u" "command_unlock (?l, d1) = (?u, d1)" using kept_unlock [OF inv, of d1] by auto
      then have "lora_inv ?u" by (simp add: lora_kept_def)
      then obtain ret l' where v: "lora_result ?r' (?u, d1) = (ret, l', d1)"
        "(ret, error_counter l', join_req l') = verdict (error_counter ?u) (join_req ?u) (Some ?r')" "lora_inv l'" "lo_locked l' = lo_locked ?u"
        by (rule lora_result_verdict)
      have "send_loop e t (l, d) = Some (ret, l', d1)"
        using r(1) True b v(1) u(2) by (subst send_loop.simps) (simp add: line_len_0)
      then show ?thesis using v r(3) True b send_answer.simps [of t "q d"] by simp
    qed
  qed
qed

subsection \<open>Commands and joining\<close>

text \<open>A command ends with the mutex taken and the first line of what came back in the buffer.\<close>

lemma lora_ask_spec:
  assumes ok: "serial_ok e q out" and inv: "lora_inv l" and free: "\<not> lo_locked l"
  shows "\<exists>ret d' bs. lora_ask e cmd (l, d) =
      Some (ret, l\<lparr>lo_locked := True, response_str := line_buf bs, response_len := line_len bs\<rparr>, d') \<and>
    out d' = out d @ cmd @ [13, 10] \<and> lora_inv (l\<lparr>lo_locked := True, response_str := line_buf bs, response_len := line_len bs\<rparr>)"
proof -
  obtain d1 where d1: "lora_modem_clear_input e d = Some d1" "out d1 = out d" using clear_input_empties [OF ok] by blast
  let ?d2 = "lora_modem_write_line e cmd d1"
  have o2: "out ?d2 = out d @ cmd @ [13, 10]"
    by (simp add: lora_modem_write_line_def lora_modem_write_def serial_out [OF ok] d1(2))
  obtain ret d' where "lora_read e (l\<lparr>lo_locked := True\<rparr>, ?d2) =
      Some (ret, l\<lparr>lo_locked := True, response_str := line_buf (q ?d2), response_len := line_len (q ?d2)\<rparr>, d')" "out d' = out ?d2"
    using lora_read_spec [OF ok, of "l\<lparr>lo_locked := True\<rparr>" ?d2] by blast
  then show ?thesis using free d1(1) o2 inv
    by (auto simp: lora_ask_def lora_start_def command_lock_def lora_inv_def line_len_bound)
qed

text \<open>The result of a line of the modem, when the mutex is given back before and when it is given back after.\<close>

lemma lora_result_unlocked:
  assumes inv: "lora_inv l"
  shows "\<exists>ret l'. lora_result r (command_unlock (l, d)) = (ret, l', d) \<and>
    (ret, error_counter l', join_req l') = verdict (error_counter l) (join_req l) (Some r) \<and> lora_inv l' \<and> \<not> lo_locked l'"
proof -
  have u: "command_unlock (l, d) = (l\<lparr>lo_locked := False\<rparr>, d)" "lora_inv (l\<lparr>lo_locked := False\<rparr>)"
    using inv by (simp_all add: command_unlock_def lora_inv_def)
  show ?thesis unfolding u(1) by (rule lora_result_verdict [OF u(2), of r d]) auto
qed

theorem lora_set_total:
  assumes ok: "serial_ok e q out" and inv: "lora_inv l" and free: "\<not> lo_locked l"
  shows "\<exists>ret l' d' ans. lora_set e cmd (l, d) = Some (ret, l', d') \<and>
    (ret, error_counter l', join_req l') = verdict (error_counter l) (join_req l) (Some ans) \<and>
    lora_inv l' \<and> \<not> lo_locked l' \<and> out d' = out d @ cmd @ [13, 10]"
proof -
  obtain ret0 d' bs where a: "lora_ask e cmd (l, d) =
      Some (ret0, l\<lparr>lo_locked := True, response_str := line_buf bs, response_len := line_len bs\<rparr>, d')"
    "out d' = out d @ cmd @ [13, 10]" "lora_inv (l\<lparr>lo_locked := True, response_str := line_buf bs, response_len := line_len bs\<rparr>)"
    using lora_ask_spec [OF ok inv free] by blast
  let ?l = "l\<lparr>lo_locked := True, response_str := line_buf bs, response_len := line_len bs\<rparr>"
  obtain ret l' where "lora_result (response_check (line_buf bs)) (?l, d') = (ret, l', d')"
    "(ret, error_counter l', join_req l') = verdict (error_counter ?l) (join_req ?l) (Some (response_check (line_buf bs)))" "lora_inv l'"
    by (rule lora_result_verdict [OF a(3)])
  then show ?thesis using a by (auto simp: lora_set_def command_unlock_def lora_inv_def)
qed

text \<open>Joining ends after at most a hundred lines, whatever the modem says.\<close>

lemma join_loop_total:
  assumes ok: "serial_ok e q out"
  shows "lora_inv l \<Longrightarrow> \<exists>ret l' d' ans. join_loop e n (l, d) = Some (ret, l', d') \<and>
    (ret, error_counter l', join_req l') = verdict (error_counter l) (join_req l) ans \<and>
    lora_inv l' \<and> \<not> lo_locked l' \<and> out d' = out d"
proof (induction n arbitrary: l d)
  case 0
  then have "join_loop e 0 (l, d) = Some (LORA_RET_FAILED, l\<lparr>lo_locked := False\<rparr>, d)" by (simp add: command_unlock_def)
  moreover have "(LORA_RET_FAILED, error_counter l, join_req l) = verdict (error_counter l) (join_req l) None" by (simp add: verdict_def)
  ultimately show ?case using 0 by (auto simp: lora_inv_def)
next
  case (Suc n)
  let ?l = "l\<lparr>response_str := line_buf (q d), response_len := line_len (q d)\<rparr>"
  obtain r0 d1 where r: "lora_read e (l, d) = Some (r0, ?l, d1)" "out d1 = out d" using lora_read_spec [OF ok, of l d] by blast
  have k: "lora_inv ?l" using kept_read [OF Suc.prems] by (simp add: lora_kept_def)
  show ?case
  proof (cases "line_len (q d) = 0")
    case True
    then show ?thesis using Suc.IH [OF k, of d1] r by simp
  next
    case False
    then have s: "join_loop e (Suc n) (l, d) = Some (lora_result (response_check (line_buf (q d))) (command_unlock (?l, d1)))"
      by (simp add: r(1))
    obtain ret l' where v: "lora_result (response_check (line_buf (q d))) (command_unlock (?l, d1)) = (ret, l', d1)"
      "(ret, error_counter l', join_req l') = verdict (error_counter ?l) (join_req ?l) (Some (response_check (line_buf (q d))))"
      "lora_inv l'" "\<not> lo_locked l'" 
      using lora_result_unlocked [OF k, of "response_check (line_buf (q d))" d1] by (elim exE conjE)
    have c: "error_counter ?l = error_counter l" "join_req ?l = join_req l" by simp_all
    show ?thesis unfolding s v(1) using v(2-4) r(2) unfolding c by blast
  qed
qed

theorem lora_join_total:
  assumes ok: "serial_ok e q out" and inv: "lora_inv l" and free: "\<not> lo_locked l"
  shows "\<exists>ret l' d' ans. lora_modem_join e (l, d) = Some (ret, l', d') \<and>
    (ret, error_counter l', join_req l') = verdict (error_counter l) (join_req l) ans \<and> lora_inv l' \<and> \<not> lo_locked l'"
proof (cases "lo_mode l = LORA_MODE_NONE")
  case True
  obtain d1 where "lora_modem_clear_input e d = Some d1" using clear_input_empties [OF ok] by blast
  then have "lora_modem_join e (l, d) = Some (LORA_RET_FAILED, l\<lparr>lo_locked := False\<rparr>, d1)"
    using True free by (simp add: lora_modem_join_def lora_start_def command_lock_def command_unlock_def)
  moreover have "(LORA_RET_FAILED, error_counter l, join_req l) = verdict (error_counter l) (join_req l) None" by (simp add: verdict_def)
  ultimately show ?thesis using inv by (auto simp: lora_inv_def)
next
  case False
  let ?cmd = "str_bytes (if lo_mode l = LORA_MODE_ABP then ''mac join abp'' else ''mac join otaa'')"
  obtain r0 d' bs where a: "lora_ask e ?cmd (l, d) =
      Some (r0, l\<lparr>lo_locked := True, response_str := line_buf bs, response_len := line_len bs\<rparr>, d')"
    "lora_inv (l\<lparr>lo_locked := True, response_str := line_buf bs, response_len := line_len bs\<rparr>)"
    using lora_ask_spec [OF ok inv free] by blast
  let ?l = "l\<lparr>lo_locked := True, response_str := line_buf bs, response_len := line_len bs\<rparr>"
  let ?r = "response_check (line_buf bs)"
  obtain d1 where d1: "lora_start e (l, d) = Some (l\<lparr>lo_locked := True\<rparr>, d1)"
    using clear_input_empties [OF ok, of d] free by (auto simp: lora_start_def command_lock_def)
  have s: "lora_modem_join e (l, d) = (if ?r \<noteq> LORA_MODEM_RET_OK then Some (lora_result ?r (command_unlock (?l, d')))
      else join_loop e 100 (?l, d'))"
    using a(1) d1 False by (simp add: lora_modem_join_def lora_ask_def Let_def)
  show ?thesis
  proof (cases "?r = LORA_MODEM_RET_OK")
    case True
    obtain ret l' d2 ans where "join_loop e 100 (?l, d') = Some (ret, l', d2)"
      "(ret, error_counter l', join_req l') = verdict (error_counter ?l) (join_req ?l) ans" "lora_inv l'" "\<not> lo_locked l'"
      using join_loop_total [OF ok a(2), of 100 d'] by blast
    then show ?thesis using s True by (intro exI [of _ ret] exI [of _ l'] exI [of _ d2] exI [of _ ans]) simp
  next
    case False
    obtain ret l' where "lora_result ?r (command_unlock (?l, d')) = (ret, l', d')"
      "(ret, error_counter l', join_req l') = verdict (error_counter ?l) (join_req ?l) (Some ?r)" "lora_inv l'" "\<not> lo_locked l'"
      using lora_result_unlocked [OF a(2), of ?r d'] by blast
    then show ?thesis using s False by (intro exI [of _ ret] exI [of _ l'] exI [of _ d'] exI [of _ "Some ?r"]) simp
  qed
qed

subsection \<open>A packet of the network\<close>

text \<open>The digits of the modem are capital letters.\<close>

definition upper_digit :: "nat \<Rightarrow> u8" where
  "upper_digit n = (if n < 10 then word_of_nat (48 + n) else word_of_nat (55 + n))"

definition upper_byte :: "u8 \<Rightarrow> u8 list" where
  "upper_byte b = [upper_digit (unat b div 16), upper_digit (unat b mod 16)]"

definition hex_bytes :: "u8 list \<Rightarrow> u8 list" where
  "hex_bytes bs = concat (map upper_byte bs)"

definition downlink :: "nat \<Rightarrow> u8 list \<Rightarrow> u8 list" where
  "downlink p bs = str_bytes ''mac_rx '' @ dec_bytes p @ 32 # hex_bytes bs"

text \<open>What the driver takes a byte for: it reads the letters from \<open>A\<close> to \<open>F\<close> as the numbers from 0 to 5.\<close>

definition digit_seen :: "nat \<Rightarrow> nat" where
  "digit_seen n = (if n < 10 then n else n - 10)"

definition byte_seen :: "u8 \<Rightarrow> u8" where
  "byte_seen b = word_of_nat (16 * digit_seen (unat b div 16) + digit_seen (unat b mod 16))"

text \<open>Bytes that are written without letters are taken for what they are.\<close>

definition decimal :: "u8 \<Rightarrow> bool" where
  "decimal b \<longleftrightarrow> unat b div 16 < 10 \<and> unat b mod 16 < 10"

lemma byte_seen_decimal: "decimal b \<Longrightarrow> byte_seen b = b"
  by (simp add: decimal_def byte_seen_def digit_seen_def mult_div_mod_eq of_nat_unat)

lemma nibbles: "unat (b :: u8) div 16 < 16" "unat b mod 16 < 16"
proof -
  have "unat b < 2 ^ LENGTH(8)" by (rule unsigned_less)
  then show "unat b div 16 < 16" "unat b mod 16 < 16" by (simp_all add: less_mult_imp_div_less)
qed

lemma length_hex_bytes [simp]: "length (hex_bytes bs) = 2 * length bs"
  by (induction bs) (auto simp: hex_bytes_def upper_byte_def)

lemma drop_hex_bytes: "drop (2 * k) (hex_bytes bs) = hex_bytes (drop k bs)"
proof (induction k arbitrary: bs)
  case (Suc k)
  show ?case
  proof (cases bs)
    case (Cons b bs')
    then have "hex_bytes bs = upper_digit (unat b div 16) # upper_digit (unat b mod 16) # hex_bytes bs'" by (simp add: hex_bytes_def upper_byte_def)
    then show ?thesis using Suc [of bs'] Cons by simp
  qed (simp add: hex_bytes_def)
qed simp

lemma hex_bytes_Cons: "hex_bytes (b # bs) = upper_byte b @ hex_bytes bs"
  by (simp add: hex_bytes_def)

lemma hex_loop_append: "n \<le> length h \<Longrightarrow> hex_loop u n (h @ r) = hex_loop u n h"
  by (induction u n h rule: hex_loop.induct) (auto simp: Let_def)

lemma hex_digits_back:
  assumes "m < 16" "n < 16"
  shows "map_option ucast (hex_loop 0 2 (upper_digit m # upper_digit n # r)) = Some (word_of_nat (16 * digit_seen m + digit_seen n) :: u8)"
proof -
  have "\<forall>m \<in> set [0..<16]. \<forall>n \<in> set [0..<16]. map_option ucast (hex_loop 0 2 [upper_digit m, upper_digit n]) =
      Some (word_of_nat (16 * digit_seen m + digit_seen n) :: u8)" by code_simp
  then have s: "map_option ucast (hex_loop 0 2 [upper_digit m, upper_digit n]) = Some (word_of_nat (16 * digit_seen m + digit_seen n) :: u8)"
    using assms by simp
  have "hex_loop 0 2 ([upper_digit m, upper_digit n] @ r) = hex_loop 0 2 [upper_digit m, upper_digit n]" by (rule hex_loop_append) simp
  then show ?thesis using s by simp
qed

lemma hex_byte_back: "map_option ucast (hex2uint (upper_byte b @ r) 2) = Some (byte_seen b)"
  using hex_digits_back [OF nibbles, of b b r] by (simp add: hex2uint_def upper_byte_def byte_seen_def)

lemma parse_loop_bytes:
  assumes bs: "length bs \<le> length dat" and s: "drop i s = hex_bytes bs @ r"
  shows "fold_opt (\<lambda>k dat. if k < length dat then map_option (\<lambda>u. dat[k := ucast u]) (hex2uint (drop (i + 2 * k) s) 2) else None)
      [0 ..< length bs] (dat :: u8 list) = Some (map byte_seen bs @ drop (length bs) dat)"
proof -
  let ?f = "\<lambda>k dat. if k < length dat then map_option (\<lambda>u. dat[k := ucast u]) (hex2uint (drop (i + 2 * k) s) 2) else None"
  have "\<exists>dat'. fold_opt ?f [0 ..< length bs] dat = Some dat' \<and> dat' = map byte_seen (take (length bs) bs) @ drop (length bs) dat"
  proof (rule fold_opt_upt_inv [where Inv = "\<lambda>k dat'. dat' = map byte_seen (take k bs) @ drop k dat"])
    fix k dat' assume k: "k < length bs" "dat' = map byte_seen (take k bs) @ drop k dat"
    have "drop (i + 2 * k) s = drop (2 * k) (hex_bytes bs @ r)" unfolding s [symmetric] by (simp add: add.commute)
    also have "\<dots> = hex_bytes (drop k bs) @ r" using k(1) by (simp add: drop_hex_bytes)
    also have "\<dots> = upper_byte (bs ! k) @ hex_bytes (drop (Suc k) bs) @ r"
      using k(1) by (simp add: Cons_nth_drop_Suc [symmetric] hex_bytes_Cons)
    finally obtain u where "hex2uint (drop (i + 2 * k) s) 2 = Some u" "ucast u = byte_seen (bs ! k)"
      using hex_byte_back [of "bs ! k" "hex_bytes (drop (Suc k) bs) @ r"] by auto
    moreover have "dat'[k := byte_seen (bs ! k)] = map byte_seen (take (Suc k) bs) @ drop (Suc k) dat"
      using k bs by (simp add: list_update_append take_Suc_conv_app_nth Cons_nth_drop_Suc [symmetric])
    ultimately show "\<exists>s'. ?f k dat' = Some s' \<and> s' = map byte_seen (take (Suc k) bs) @ drop (Suc k) dat" using k bs by simp
  qed simp
  then show ?thesis by simp
qed

lemma dec_bytes_port: "p < 16 \<Longrightarrow> dec_bytes p = (if p < 10 then [word_of_nat (48 + p)] else [49, word_of_nat (48 + (p - 10))])"
proof -
  have "\<forall>p \<in> set [0..<16]. dec_bytes p = (if p < 10 then [word_of_nat (48 + p)] else [49, word_of_nat (48 + (p - 10))])" by code_simp
  moreover assume "p < 16"
  ultimately show ?thesis by simp
qed

lemma downlink_plain:
  assumes p: "p < 16" and bs: "length bs \<le> 256"
  shows "plain_line (downlink p bs)"
proof -
  have d: "upper_digit n \<notin> {0, 10, 13}" if "n < 16" for n
  proof -
    have "\<forall>n \<in> set [0..<16]. upper_digit n \<notin> {0, 10, 13}" by code_simp
    then show ?thesis using that by simp
  qed
  have "\<forall>c \<in> set (hex_bytes bs). c \<notin> {0, 10, 13}"
    using d [OF nibbles(1)] d [OF nibbles(2)] unfolding hex_bytes_def upper_byte_def by auto
  moreover have "\<forall>c \<in> set (dec_bytes p). c \<notin> {0, 10, 13}"
  proof -
    have "\<forall>p \<in> set [0..<16]. \<forall>c \<in> set (dec_bytes p). c \<notin> {0, 10, 13}" by code_simp
    then show ?thesis using p by simp
  qed
  moreover have "length (dec_bytes p) \<le> 2" using p by (simp add: dec_bytes_port)
  ultimately show ?thesis using bs
    by (auto simp: plain_line_def downlink_def str_bytes_def LORA_RESPONSE_LEN_def)
qed

lemma downlink_parsed:
  assumes p: "p < 16" and bs: "bs \<noteq> []" "length bs \<le> 256"
    and l: "response_str l = padded (downlink p bs)" "response_len l = length (downlink p bs)" "length (rx_data l) = 256"
  shows "parse_rx_data l = Some (LORA_MODEM_RET_OK,
    l\<lparr>rx_data_port := word_of_nat p, rx_data_len := length bs, rx_data := map byte_seen bs @ drop (length bs) (rx_data l)\<rparr>)"
proof -
  let ?s = "padded (downlink p bs)"
  have len: "1 \<le> length bs" using bs(1) by (cases bs) auto
  have st: "buf_starts ?s ''mac_rx''" by (simp add: buf_starts_def padded_def downlink_def str_bytes_def)
  show ?thesis
  proof (cases "p < 10")
    case True
    have s: "?s = [109, 97, 99, 95, 114, 120, 32, word_of_nat (48 + p), 32] @ hex_bytes bs @ replicate (540 - length (downlink p bs)) 0"
      using True p by (simp add: padded_def downlink_def str_bytes_def dec_bytes_port LORA_RESPONSE_LEN_def)
    have n: "length (downlink p bs) = 9 + 2 * length bs" using True p by (simp add: downlink_def str_bytes_def dec_bytes_port)
    have "drop 9 ?s = hex_bytes bs @ replicate (540 - length (downlink p bs)) 0" unfolding s by simp
    note loop = parse_loop_bytes [OF _ this, of "rx_data l"]
    have nth: "?s ! 7 = word_of_nat (48 + p)" "?s ! 8 = 32" unfolding s by simp_all
    show ?thesis using len loop bs st
      by (simp add: parse_rx_data_def l nth n Let_def)
  next
    case False
    have "\<forall>p \<in> set [10..<16]. word_of_nat (48 + (p - 10)) \<noteq> (32 :: u8) \<and> (49 - 48) * 10 + word_of_nat (48 + (p - 10)) - 48 = (word_of_nat p :: u8)"
      by code_simp
    moreover have "p \<in> set [10..<16]" unfolding set_upt using False p by auto
    ultimately obtain w where w: "w = (word_of_nat (48 + (p - 10)) :: u8)" "w \<noteq> 32" "(49 - 48) * 10 + w - 48 = word_of_nat p" by blast
    have s: "?s = [109, 97, 99, 95, 114, 120, 32, 49, w, 32] @ hex_bytes bs @ replicate (540 - length (downlink p bs)) 0"
      using False p unfolding w(1) by (simp add: padded_def downlink_def str_bytes_def dec_bytes_port LORA_RESPONSE_LEN_def)
    have n: "length (downlink p bs) = 10 + 2 * length bs" using False p by (simp add: downlink_def str_bytes_def dec_bytes_port)
    have "drop 10 ?s = hex_bytes bs @ replicate (540 - length (downlink p bs)) 0" unfolding s by simp
    note loop = parse_loop_bytes [OF _ this, of "rx_data l"]
    have nth: "?s ! 7 = 49" "?s ! 8 = w" "?s ! 9 = 32" unfolding s by simp_all
    have m: "1 * 10 + w - 48 = word_of_nat p" using w(3) by simp
    show ?thesis using len loop bs st w(2) m
      by (simp add: parse_rx_data_def l nth n Let_def)
  qed
qed

subsection \<open>Properties\<close>

lemma length_dec_bytes: "n < 1000 \<Longrightarrow> length (dec_bytes n) \<le> 3"
proof -
  assume n: "n < 1000"
  have 1: "length (dec_bytes k) = 1" if "k < 10" for k using that by (simp add: dec_bytes.simps)
  have 2: "length (dec_bytes k) \<le> 2" if "k < 100" for k
    using that 1 [of "k div 10"] by (subst dec_bytes.simps) (simp add: less_mult_imp_div_less)
  show ?thesis using n 2 [of "n div 10"] by (subst dec_bytes.simps) (simp add: less_mult_imp_div_less)
qed

text \<open>What is written for a packet.\<close>

definition lora_packet :: "u8 \<Rightarrow> u8 list \<Rightarrow> u8 list" where
  "lora_packet port dat = str_bytes ''mac tx uncnf '' @ dec_bytes (unat port) @ [32] @ dat @ [13, 10]"

definition lora_written :: "'d lora_env \<Rightarrow> u8 \<Rightarrow> u8 list \<Rightarrow> 'd \<Rightarrow> 'd" where
  "lora_written e port dat d =
     lora_modem_write_line e dat (lora_modem_write e (cmd_buf (str_bytes ''mac tx uncnf '' @ dec_bytes (unat port) @ [32])) d)"

lemma lora_written_out:
  assumes ok: "serial_ok e q out"
  shows "out (lora_written e port dat d) = out d @ lora_packet port dat"
proof -
  have "unat port < 2 ^ LENGTH(8)" by (rule unsigned_less)
  then have "length (dec_bytes (unat port)) \<le> 3" by (intro length_dec_bytes) simp
  then have "cmd_buf (str_bytes ''mac tx uncnf '' @ dec_bytes (unat port) @ [32]) = str_bytes ''mac tx uncnf '' @ dec_bytes (unat port) @ [32]"
    by (simp add: cmd_buf_def str_bytes_def)
  then show ?thesis
    by (simp add: lora_written_def lora_modem_write_line_def lora_modem_write_def serial_out [OF ok] lora_packet_def)
qed

lemma lora_send_spec:
  assumes ok: "serial_ok e q out" and rx: "receivers_only e q out" and inv: "lora_inv l" and free: "\<not> lo_locked l"
    and clear: "lora_modem_clear_input e d = Some d1"
    and fit: "lines_fit (line_rest (q (lora_written e port dat d1)))"
  shows "\<exists>ret l' d'. lora_modem_send e port (Some dat) (l, d) = Some (ret, l', d') \<and>
    (ret, error_counter l', join_req l') =
      verdict (error_counter l) (join_req l) (send_outcome (q (lora_written e port dat d1))) \<and>
    lora_inv l' \<and> \<not> lo_locked l' \<and> out d' = out d @ lora_packet port dat"
proof -
  have od1: "out d1 = out d" using clear_input_empties [OF ok, of d] clear by auto
  let ?d2 = "lora_written e port dat d1"
  let ?k = "l\<lparr>lo_locked := True\<rparr>"
  have ki: "lora_inv ?k" using inv by (simp add: lora_inv_def)
  obtain ret0 d3 where r: "lora_read e (?k, ?d2) = Some (ret0, ?k\<lparr>response_str := line_buf (q ?d2), response_len := line_len (q ?d2)\<rparr>, d3)"
    "q d3 = line_rest (q ?d2)" "out d3 = out ?d2" using lora_read_spec [OF ok, of ?k ?d2] by blast
  let ?l = "?k\<lparr>response_str := line_buf (q ?d2), response_len := line_len (q ?d2)\<rparr>"
  let ?r = "response_check (line_buf (q ?d2))"
  have i: "lora_inv ?l" using kept_read [OF ki, of "q ?d2"] by (simp add: lora_kept_def)
  have s: "lora_modem_send e port (Some dat) (l, d) =
      (if ?r \<noteq> LORA_MODEM_RET_OK then Some (lora_result ?r (command_unlock (?l, d3))) else send_loop e LORA_TX_OK_TIMEOUT (?l, d3))"
    using free r(1) by (simp add: lora_modem_send_def lora_start_def command_lock_def clear lora_written_def Let_def)
  show ?thesis
  proof (cases "?r = LORA_MODEM_RET_OK")
    case True
    have ten: "LORA_TX_OK_TIMEOUT = 10" by (simp add: LORA_TX_OK_TIMEOUT_def)
    have "lines_fit (q d3)" using fit r(2) by simp
    from send_loop_answer [OF ok rx i this, of LORA_TX_OK_TIMEOUT, unfolded ten] obtain ret l' d' where
      "send_loop e 10 (?l, d3) = Some (ret, l', d')" "lora_inv l'" "\<not> lo_locked l'" "out d' = out d3"
      "(ret, error_counter l', join_req l') = verdict (error_counter ?l) (join_req ?l)
        (map_option (\<lambda>r. if r = LORA_MODEM_RET_TX_OK then LORA_MODEM_RET_OK else r) (send_answer 10 (q d3)))" by blast
    then show ?thesis using s True r(2,3) by (simp add: ten send_outcome_def lora_written_out [OF ok] od1)
  next
    case False
    let ?u = "?l\<lparr>lo_locked := False\<rparr>"
    have u: "lora_inv ?u" "command_unlock (?l, d3) = (?u, d3)" using kept_unlock [OF i, of d3] by (auto simp: lora_kept_def)
    obtain ret l' where v: "lora_result ?r (?u, d3) = (ret, l', d3)"
      "(ret, error_counter l', join_req l') = verdict (error_counter ?u) (join_req ?u) (Some ?r)" "lora_inv l'" "lo_locked l' = lo_locked ?u"
      by (rule lora_result_verdict [OF u(1)])
    then show ?thesis using s False r(3) u(2) by (simp add: send_outcome_def lora_written_out [OF ok] od1 Let_def)
  qed
qed

text \<open>Property C33. Sending a packet ends, with the command on the line and the mutex free, whatever the modem sends back in
  what order and with what pauses, as long as the packets of the network among it are for ports below 16 and come in lines
  of at most 521 characters; longer lines and higher ports make the driver leave its arrays. The first line that comes
  back has to be \<open>ok\<close>. Then the first line that is not a packet of the network decides the result, the number of errors
  and whether to join again; when eleven waits ended without a line, the packet has failed and neither changes.\<close>

theorem lora_send_decided:
  assumes ok: "serial_ok e q out" and rx: "receivers_only e q out" and inv: "lora_inv l" and free: "\<not> lo_locked l"
    and clear: "lora_modem_clear_input e d = Some d1"
    and fit: "lines_fit (line_rest (q (lora_written e port dat d1)))"
  shows "\<exists>ret l' d'. lora_modem_send e port (Some dat) (l, d) = Some (ret, l', d') \<and>
    (ret, error_counter l', join_req l') =
      verdict (error_counter l) (join_req l) (send_outcome (q (lora_written e port dat d1))) \<and>
    lora_inv l' \<and> \<not> lo_locked l' \<and> out d' = out d @ lora_packet port dat"
  using assms by (rule lora_send_spec)

text \<open>A modem with fixed answers to everything that ends a line; in the place of an answer can be a pause.\<close>

definition ex_answer :: "string option \<Rightarrow> u8 option list" where
  "ex_answer a = (case a of None \<Rightarrow> [None] | Some a \<Rightarrow> map Some (str_bytes a @ [13, 10]))"

definition ex_modem :: "string option list \<Rightarrow>
    (lora_modem \<times> u8 option list \<times> u8 list \<times> 'x \<Rightarrow> lora_modem \<times> u8 option list \<times> u8 list \<times> 'x) \<Rightarrow>
    (u8 option list \<times> u8 list \<times> 'x) lora_env" where
  "ex_modem answers others = \<lparr>ld_stream = \<lparr>st_write = (\<lambda>(q, out, x) bs.
         (STREAM_RET_OK, q @ (if bs = [13, 10] then concat (map ex_answer answers) else []), out @ bs, x)),
       st_read = (\<lambda>d n. (STREAM_RET_FAILED, None, d)),
       st_write_timeout = (\<lambda>d bs t. (STREAM_RET_FAILED, None, d)),
       st_read_timeout = (\<lambda>(q, out, x) n t.
         if q = [] \<or> hd q = None then (STREAM_RET_TIMEOUT, None, if t = 0 then q else tl q, out, x)
         else let bs = take n (takeWhile (\<lambda>b. b \<noteq> None) q)
              in (STREAM_RET_OK, Some (map the bs), drop (length bs) q, out, x))\<rparr>,
     ld_power = (\<lambda>_ d. d), ld_delay = (\<lambda>_ d. d), ld_others = others\<rparr>"

lemma bytes_before_pause:
  fixes r :: "u8 option list" and n
  defines "xs \<equiv> take n (takeWhile (\<lambda>b. b \<noteq> None) r)"
  shows "r = map Some (map the xs) @ drop (length xs) r"
proof -
  have "\<forall>x \<in> set xs. x \<noteq> None" unfolding xs_def by (auto dest!: in_set_takeD set_takeWhileD)
  then have "map Some (map the xs) = xs" by (induction xs) auto
  moreover have "r = xs @ (drop n (takeWhile (\<lambda>b. b \<noteq> None) r) @ dropWhile (\<lambda>b. b \<noteq> None) r)"
    unfolding xs_def append_assoc [symmetric] append_take_drop_id takeWhile_dropWhile_id by (rule refl)
  ultimately show ?thesis by (metis append_eq_conv_conj)
qed

lemma ex_modem_ok: "serial_ok (ex_modem answers others) fst (fst \<circ> snd)"
proof -
  let ?st = "ld_stream (ex_modem answers others)"
  have "\<exists>bs r' d'. r = map Some bs @ r' \<and> Suc (length bs) \<le> n \<and>
      st_read_timeout ?st d n t = (STREAM_RET_OK, Some (c # bs), d') \<and> fst d' = r' \<and> (fst \<circ> snd) d' = (fst \<circ> snd) d"
    if n: "0 < n" and q: "fst d = Some c # r" for d n t c r
  proof -
    obtain m where m: "n = Suc m" using n by (cases n) auto
    let ?xs = "take m (takeWhile (\<lambda>b. b \<noteq> None) r)"
    obtain out x where d: "d = (Some c # r, out, x)" using q by (cases d) auto
    have "st_read_timeout ?st d n t = (STREAM_RET_OK, Some (c # map the ?xs), drop (length ?xs) r, out, x)"
      by (simp add: ex_modem_def d m)
    then show ?thesis using bytes_before_pause [of r m] d m
      by (intro exI [of _ "map the ?xs"] exI [of _ "drop (length ?xs) r"] exI [of _ "(drop (length ?xs) r, out, x)"]) simp
  qed
  then show ?thesis
    unfolding serial_ok_def by (intro conjI) (auto simp: ex_modem_def)
qed

lemma ex_modem_alone: "receivers_only (ex_modem answers (\<lambda>s. s)) fst (fst \<circ> snd)"
  unfolding receivers_only_def
proof (intro allI)
  fix l and d :: "u8 option list \<times> u8 list \<times> 'x"
  have "ld_others (ex_modem answers (\<lambda>s. s)) (l, d) = (l\<lparr>rx_lock := rx_lock l, rx_data_len := rx_data_len l, rx_data_release := rx_data_release l\<rparr>, d)"
    by (simp add: ex_modem_def)
  then show "\<exists>ls n b d'. ld_others (ex_modem answers (\<lambda>s. s)) (l, d) = (l\<lparr>rx_lock := ls, rx_data_len := n, rx_data_release := b\<rparr>, d') \<and>
      length ls = length (rx_lock l) \<and> n \<le> rx_data_len l \<and> fst d' = fst d \<and> (fst \<circ> snd) d' = (fst \<circ> snd) d" by blast
qed

text \<open>The line feed that is left of a line, a pause and another line.\<close>

lemma line_feed_pause:
  "\<not> line_ended (Some 10 # None # r)" "line_rest (Some 10 # None # r) = r"
  by (simp_all add: line_ended_def line_rest_def line_tail_def is_nl_def)

lemma line_feed_end: "lines_fit [Some 10]"
proof -
  have 1: "\<not> line_ended [Some 10]" "line_rest [Some 10] = []"
    by (simp_all add: line_ended_def line_rest_def line_tail_def is_nl_def)
  have 2: "lines_fit []" by (subst lines_fit.simps) simp
  show ?thesis by (subst lines_fit.simps) (simp only: 1 2 simp_thms)
qed

text \<open>A packet to port 2 is answered by \<open>ok\<close>, nothing for a while, a packet of the network for port 7 and \<open>mac_tx_ok\<close>.\<close>

theorem lora_send_decided_witness:
  "\<exists>ret l' d'. lora_modem_send (ex_modem [Some ''ok'', None, Some ''mac_rx 7 4142'', Some ''mac_tx_ok''] (\<lambda>s. s)) 2
      (Some [0x30, 0x31]) (lora_modem_zero, ([], [], ())) = Some (ret, l', d') \<and>
    (ret, error_counter l', join_req l') = (LORA_RET_OK, 0, False) \<and>
    lora_inv l' \<and> \<not> lo_locked l' \<and> (fst \<circ> snd) d' = (fst \<circ> snd) ([] :: u8 option list, [] :: u8 list, ()) @ lora_packet 2 [0x30, 0x31]"
proof -
  let ?e = "ex_modem [Some ''ok'', None, Some ''mac_rx 7 4142'', Some ''mac_tx_ok''] (\<lambda>s. s)"
  let ?rx = "str_bytes ''mac_rx 7 4142''"
  let ?q = "fst (lora_written ?e 2 [0x30, 0x31] ([], [], ()))"
  let ?q3 = "map Some (str_bytes ''mac_tx_ok'') @ Some 13 # [Some 10]"
  let ?q2 = "map Some ?rx @ Some 13 # Some 10 # ?q3"
  have inv: "lora_inv lora_modem_zero" "\<not> lo_locked lora_modem_zero"
    by (simp_all add: lora_inv_def lora_modem_zero_def LORA_MAX_ERRORS_BEFORE_REJOIN_def)
  have clear: "lora_modem_clear_input ?e ([], [], ()) = Some ([], [], ())"
    by (subst lora_modem_clear_input.simps) (simp add: ex_modem_def)
  have q: "?q = map Some (str_bytes ''ok'') @ Some 13 # Some 10 # None # ?q2"
    by (simp add: lora_written_def lora_modem_write_line_def lora_modem_write_def ex_modem_def ex_answer_def cmd_buf_def str_bytes_def dec_bytes.simps)
  have nl: "is_nl 13" by (simp add: is_nl_def)
  have p: "plain_line (str_bytes ''ok'')" "plain_line ?rx" "plain_line (str_bytes ''mac_tx_ok'')"
    by (simp_all add: plain_line_def str_bytes_def LORA_RESPONSE_LEN_def)
  have "dropWhile line_break ?q = map Some (str_bytes ''ok'') @ Some 13 # Some 10 # None # ?q2"
    unfolding q by (simp add: str_bytes_def is_nl_def)
  note 1 = plain_line_read [OF p(1) nl this]
  have "dropWhile line_break ?q2 = ?q2" by (simp add: str_bytes_def is_nl_def)
  note 2 = plain_line_read [OF p(2) nl this]
  have "dropWhile line_break (Some 10 # ?q3) = ?q3" by (simp add: str_bytes_def is_nl_def)
  note 3 = plain_line_read [OF p(3) nl this]
  have c: "response_check (line_buf ?q) = LORA_MODEM_RET_OK" "response_check (line_buf ?q2) = LORA_MODEM_RET_RX"
    "response_check (line_buf (Some 10 # ?q3)) = LORA_MODEM_RET_TX_OK"
    unfolding 1(4) 2(4) 3(4) check_padded [OF p(1)] check_padded [OF p(2)] check_padded [OF p(3)] by (simp_all add: str_bytes_def)
  have fits: "line_fits (padded ?rx) (length ?rx)" "line_fits (padded (str_bytes ''mac_tx_ok'')) (length (str_bytes ''mac_tx_ok''))"
    by (simp_all add: line_fits_def padded_def rx_port_def buf_starts_def str_bytes_def LORA_RESPONSE_LEN_def)
  have f3: "lines_fit (Some 10 # ?q3)" by (subst lines_fit.simps) (simp only: 3 fits line_feed_end simp_thms)
  have f2: "lines_fit ?q2" by (subst lines_fit.simps) (simp only: 2 fits f3 simp_thms)
  have fit: "lines_fit (line_rest ?q)" unfolding 1 by (subst lines_fit.simps) (simp only: line_feed_pause f2 simp_thms)
  have a3: "send_answer 9 (Some 10 # ?q3) = Some LORA_MODEM_RET_TX_OK"
    by (subst send_answer.simps) (simp only: 3(1) c lora_modem_ret.distinct simp_thms if_True if_False)
  have a2: "send_answer 9 ?q2 = Some LORA_MODEM_RET_TX_OK"
    by (subst send_answer.simps) (simp only: 2(1,2) c a3 simp_thms if_True if_False)
  have "send_answer 10 (Some 10 # None # ?q2) = send_answer (10 - 1) ?q2"
    by (subst send_answer.simps) (simp only: line_feed_pause simp_thms if_True zero_neq_numeral [symmetric] if_False)
  also have "\<dots> = Some LORA_MODEM_RET_TX_OK" using a2 by simp
  finally have "send_outcome ?q = Some LORA_MODEM_RET_OK"
    unfolding send_outcome_def 1(2) c(1) by simp
  then have v: "verdict (error_counter lora_modem_zero) (join_req lora_modem_zero) (send_outcome ?q) = (LORA_RET_OK, 0, False)"
    by (simp add: verdict_def lora_modem_zero_def)
  show ?thesis using lora_send_decided [OF ex_modem_ok ex_modem_alone inv clear fit] unfolding v .
qed

text \<open>Property C34. A packet of 1 to 256 bytes that comes from the network for a port below 16 while a packet is sent reaches
  the task that waits on that port: the task gets as many bytes as it has room for, the driver goes on with the lines
  behind it, and nothing is left of it on the line. The task gets each byte as the driver reads its digits: those from 0 to
  9 as they are, but the letters from \<open>A\<close> to \<open>F\<close> as the numbers from 0 to 5, which is a fault of the driver.\<close>

theorem downlink_reaches_receiver:
  assumes ok: "serial_ok e q out" and inv: "lora_inv l" and p: "p < 16"
    and bs: "bs \<noteq> []" "length bs \<le> 256"
    and q: "q d = map Some (downlink p bs) @ Some 13 # rest" and waits: "rx_lock l ! p \<noteq> None"
    and receiver: "\<forall>l d. rx_lock l ! p = Some True \<longrightarrow> ld_others e (l, d) =
      (case lora_modem_receive e True p sz (l, d) of (_, got, l, d) \<Rightarrow> (l, deliver (the got) d))"
  shows "\<exists>d1 l'. send_loop e t (l, d) = send_loop e t (l', deliver (take sz (map byte_seen bs)) d1) \<and>
    q d1 = rest \<and> out d1 = out d \<and> lora_kept l l' \<and> rx_lock l' ! p = Some False"
proof -
  let ?a = "downlink p bs" and ?b = "map byte_seen bs"
  have a: "plain_line ?a" by (rule downlink_plain [OF p bs(2)])
  have "dropWhile line_break (q d) = map Some ?a @ Some 13 # rest" unfolding q by (simp add: downlink_def str_bytes_def is_nl_def)
  note line = plain_line_read [OF a _ this, unfolded is_nl_def]
  obtain ret d1 where r: "lora_read e (l, d) = Some (ret, l\<lparr>response_str := padded ?a, response_len := length ?a\<rparr>, d1)"
    "q d1 = rest" "out d1 = out d" using lora_read_spec [OF ok, of l d] line by auto
  let ?l = "l\<lparr>response_str := padded ?a, response_len := length ?a\<rparr>"
  have "length (rx_data l) = 256" using inv by (simp add: lora_inv_def LORA_RX_DATA_LEN_def)
  then have parse: "parse_rx_data ?l = Some (LORA_MODEM_RET_OK,
      ?l\<lparr>rx_data_port := word_of_nat p, rx_data_len := length bs, rx_data := ?b @ drop (length bs) (rx_data l)\<rparr>)"
    using downlink_parsed [OF p bs, of ?l] by simp
  let ?l2 = "?l\<lparr>rx_data_port := word_of_nat p, rx_data_len := length bs, rx_data := ?b @ drop (length bs) (rx_data l)\<rparr>"
  have up: "unat (word_of_nat p :: u8) = p" using p by (simp add: unsigned_of_nat take_bit_eq_mod)
  have ll: "length (rx_lock l) = 16" using inv by (simp add: lora_inv_def)
  let ?l3 = "?l2\<lparr>rx_lock := (rx_lock l)[p := Some True]\<rparr>"
  have w: "rx_lock ?l3 ! p = Some True" using p ll by simp
  define n where "n = (if sz < length bs then sz else length bs)"
  let ?l4 = "?l3\<lparr>rx_lock := (rx_lock l)[p := Some False], rx_data_len := n, rx_data_release := True\<rparr>"
  have tk: "take n (?b @ drop (length bs) (rx_data l)) = take sz ?b" by (simp add: n_def)
  have "lora_modem_receive e True p sz (?l3, d1) = (LORA_RET_OK, Some (take sz ?b), ?l4, d1)"
    using p w tk by (simp add: lora_modem_receive_def lora_receive_data_def n_def)
  then have "ld_others e (?l3, d1) = (?l4, deliver (take sz ?b) d1)" using receiver w by simp
  then have ho: "lora_hand_over e (?l2, d1) = Some (?l4\<lparr>rx_data_release := False\<rparr>, deliver (take sz ?b) d1)"
    using up ll p waits by (auto simp: lora_hand_over_def Let_def)
  have "take 6 ?a = str_bytes ''mac_rx''" "hd ?a = 109" "?a ! 4 = 114" by (simp_all add: downlink_def str_bytes_def)
  then have c: "response_check (padded ?a) = LORA_MODEM_RET_RX"
    unfolding check_padded [OF a] by (auto simp: str_bytes_def)
  have "response_len ?l \<noteq> 0" using a by (simp add: plain_line_def)
  then have "send_loop e t (l, d) = send_loop e t (?l4\<lparr>rx_data_release := False\<rparr>, deliver (take sz ?b) d1)"
    using r(1) c parse ho by (subst send_loop.simps) simp
  moreover have "lora_kept l (?l4\<lparr>rx_data_release := False\<rparr>)"
    using inv bs(2) a by (auto simp: lora_kept_def lora_inv_def plain_line_def padded_def n_def LORA_RX_DATA_LEN_def)
  moreover have "rx_lock (?l4\<lparr>rx_data_release := False\<rparr>) ! p = Some False" using p ll by simp
  ultimately show ?thesis using r(2,3) by blast
qed

text \<open>Three bytes for port 7, where a task with room for three waits; of the third, \<open>ab\<close>, it gets \<open>01\<close>.\<close>

definition ex_receiver :: "lora_modem \<times> u8 option list \<times> u8 list \<times> u8 list \<Rightarrow> lora_modem \<times> u8 option list \<times> u8 list \<times> u8 list" where
  "ex_receiver = (\<lambda>(l, d). if rx_lock l ! 7 = Some True
     then (case lora_receive_data 3 (l\<lparr>rx_lock := (rx_lock l)[7 := Some False]\<rparr>) of (got, l) \<Rightarrow> (l, fst d, fst (snd d), got))
     else (l, d))"

definition ex_deliver :: "u8 list \<Rightarrow> u8 option list \<times> u8 list \<times> u8 list \<Rightarrow> u8 option list \<times> u8 list \<times> u8 list" where
  "ex_deliver got d = (case d of (q, out, _) \<Rightarrow> (q, out, got))"

theorem downlink_reaches_receiver_witness:
  "\<exists>d1 l'. send_loop (ex_modem [] ex_receiver) 3
      (lora_modem_zero\<lparr>rx_lock := (replicate 16 None)[7 := Some False]\<rparr>, (map Some (downlink 7 [0x12, 0x34, 0xab]) @ Some 13 # [Some 10], [], [])) =
    send_loop (ex_modem [] ex_receiver) 3 (l', ex_deliver (take 3 (map byte_seen [0x12, 0x34, 0xab])) d1) \<and>
    fst d1 = [Some 10] \<and> (fst \<circ> snd) d1 = (fst \<circ> snd) (map Some (downlink 7 [0x12, 0x34, 0xab]) @ Some 13 # [Some 10], [] :: u8 list, [] :: u8 list) \<and>
    lora_kept (lora_modem_zero\<lparr>rx_lock := (replicate 16 None)[7 := Some False]\<rparr>) l' \<and> rx_lock l' ! 7 = Some False"
proof (rule downlink_reaches_receiver [OF ex_modem_ok(1)])
  show "\<forall>l d. rx_lock l ! 7 = Some True \<longrightarrow> ld_others (ex_modem [] ex_receiver) (l, d) =
      (case lora_modem_receive (ex_modem [] ex_receiver) True 7 3 (l, d) of
        (_, got, l, d) \<Rightarrow> (l, ex_deliver (the got) d))"
    by (auto simp: ex_modem_def ex_receiver_def ex_deliver_def lora_modem_receive_def split: prod.splits)
qed (simp_all add: lora_inv_def lora_modem_zero_def LORA_MAX_ERRORS_BEFORE_REJOIN_def)

text \<open>Letters do not come back, and a port from 16 on is behind the array: the packet that the network sends to port 16
  stops the driver.\<close>

lemma seen_ab: "byte_seen 0xab = 0x01"
  by code_simp

lemma letters_lost: "hex2uint (str_bytes ''FF'') 2 = Some 0x55"
  by code_simp

lemma port_outside: "lora_hand_over e (lora_modem_zero\<lparr>rx_data_port := 16\<rparr>, d) = None"
  by (simp add: lora_hand_over_def lora_modem_zero_def)

text \<open>A packet that was sent leaves the number of errors as it was, and so ten errors with any number of successes between
  them make the driver join again.\<close>

lemma success_keeps_errors: "verdict c j (map_option (\<lambda>r. if r = LORA_MODEM_RET_TX_OK then LORA_MODEM_RET_OK else r) (Some LORA_MODEM_RET_TX_OK)) = (LORA_RET_OK, c, j)"
  by (simp add: verdict_def)

end
