(* ===== verification/Mq_Lora_Bridge_Props.thy ===== *)
theory Mq_Lora_Bridge_Props
  imports Mq_Lora_Bridge Lora_Modem_Props
begin

text \<open>
  Theorems about the bridge: a packet goes on the line of the modem as digits that mean its bytes, and every \<open>n\<close>-th
  message of a topic is considered.
\<close>

subsection \<open>Digits\<close>

text \<open>What hexadecimal digits mean.\<close>

definition hex_value :: "u8 \<Rightarrow> u8" where
  "hex_value c = (if c \<le> 57 then c - 48 else c - 87)"

fun unhex :: "u8 list \<Rightarrow> u8 list" where
  "unhex (a # b # r) = (16 * hex_value a + hex_value b) # unhex r"
| "unhex _ = []"

lemma unhex_digits:
  assumes "m < 16" "n < 16"
  shows "16 * hex_value (hex_digit m) + hex_value (hex_digit n) = word_of_nat (16 * m + n)"
proof -
  have "\<forall>m \<in> set [0..<16]. hex_value (hex_digit m) = word_of_nat m" by code_simp
  then have "hex_value (hex_digit m) = word_of_nat m" "hex_value (hex_digit n) = word_of_nat n" using assms by auto
  then show ?thesis by simp
qed

lemma unhex_byte2hex: "unhex (byte2hex bs) = bs"
proof (induction bs)
  case (Cons b bs)
  have "unat b < 2 ^ LENGTH(8)" by (rule unsigned_less)
  then have "unat b div 16 < 16" "unat b mod 16 < 16" by (simp_all add: less_mult_imp_div_less)
  from unhex_digits [OF this] have "16 * hex_value (hex_digit (unat b div 16)) + hex_value (hex_digit (unat b mod 16)) = b"
    by (simp only: mult_div_mod_eq of_nat_unat ucast_id)
  then show ?case using Cons by (simp add: byte2hex_def hex_byte_def)
qed (simp add: byte2hex_def)

subsection \<open>Decimation\<close>

text \<open>One message of a topic that does not trigger: the counter goes round, and when it does, the value is taken.\<close>

lemma decimation_step:
  assumes c: "bt_decimate_counter t < bt_decimate t" and t: "\<not> bt_triggers t" and items: "br_items self = Some is"
  shows "\<exists>i. collect_topics e (bt_topic t) sec d [t] self =
      Some ([t\<lparr>bt_decimate_counter := if bt_decimate_counter t + 1 = bt_decimate t then 0 else bt_decimate_counter t + 1\<rparr>],
        self\<lparr>br_items := Some (is @ (if bt_decimate_counter t + 1 = bt_decimate t then [Cbor_text (bt_key t), i] else []))\<rparr>)"
proof -
  have "bt_decimate t \<le> bt_decimate_counter t + 1 \<longleftrightarrow> bt_decimate_counter t + 1 = bt_decimate t"
    using c by (metis inc_le order_antisym order_refl)
  then show ?thesis using t items by (auto simp: Let_def pbuf_append_def add_items_def)
qed

text \<open>And any number of them: with the counter \<open>c\<close> at the start, \<open>k\<close> messages put \<open>(c + k) div n\<close> values in the packet.\<close>

theorem decimated_run:
  assumes "bt_decimate_counter t < bt_decimate t" "\<not> bt_triggers t" "br_items self = Some is"
  shows "\<exists>c' is' self'. fold_opt (\<lambda>(sec, d) (ts, self). collect_topics e (bt_topic t) sec d ts self) msgs ([t], self) =
      Some ([t\<lparr>bt_decimate_counter := c'\<rparr>], self') \<and>
    unat c' = (unat (bt_decimate_counter t) + length msgs) mod unat (bt_decimate t) \<and>
    br_items self' = Some (is @ is') \<and>
    length is' = 2 * ((unat (bt_decimate_counter t) + length msgs) div unat (bt_decimate t))"
  using assms
proof (induction msgs arbitrary: t self "is")
  case Nil
  have "unat (bt_decimate_counter t) < unat (bt_decimate t)" using Nil.prems(1) by (simp add: word_less_nat_alt)
  then show ?case using Nil.prems
    by (intro exI [of _ "bt_decimate_counter t"] exI [of _ "[]"] exI [of _ self]) simp
next
  case (Cons m msgs)
  obtain sec d where m: "m = (sec, d)" by (cases m)
  let ?c = "bt_decimate_counter t" and ?D = "bt_decimate t"
  define c1 where "c1 = (if ?c + 1 = ?D then 0 else ?c + 1)"
  let ?t = "t\<lparr>bt_decimate_counter := c1\<rparr>"
  obtain i where s: "collect_topics e (bt_topic t) sec d [t] self = Some ([?t],
      self\<lparr>br_items := Some (is @ (if ?c + 1 = ?D then [Cbor_text (bt_key t), i] else []))\<rparr>)"
    using decimation_step [OF Cons.prems, of e sec d] unfolding c1_def by blast
  have cD: "unat ?c < unat ?D" using Cons.prems(1) by (simp add: word_less_nat_alt)
  have u1: "unat (?c + 1) = unat ?c + 1" using Cons.prems(1) by unat_arith
  have eq: "?c + 1 = ?D \<longleftrightarrow> unat ?c + 1 = unat ?D" using u1 by (metis unsigned_word_eqI)
  have lt: "c1 < ?D" using cD u1 eq by (auto simp: c1_def word_less_nat_alt)
  let ?is = "is @ (if ?c + 1 = ?D then [Cbor_text (bt_key t), i] else [])"
  have prems: "bt_decimate_counter ?t < bt_decimate ?t" "\<not> bt_triggers ?t" "br_items (self\<lparr>br_items := Some ?is\<rparr>) = Some ?is"
    using lt Cons.prems(2) by auto
  from Cons.IH [OF prems] obtain c' is' self' where r:
    "fold_opt (\<lambda>(sec, d) (ts, self). collect_topics e (bt_topic t) sec d ts self) msgs ([?t], self\<lparr>br_items := Some ?is\<rparr>) =
      Some ([t\<lparr>bt_decimate_counter := c'\<rparr>], self')"
    "unat c' = (unat c1 + length msgs) mod unat ?D" "br_items self' = Some (?is @ is')"
    "length is' = 2 * ((unat c1 + length msgs) div unat ?D)" by auto
  have "fold_opt (\<lambda>(sec, d) (ts, self). collect_topics e (bt_topic t) sec d ts self) (m # msgs) ([t], self) =
      Some ([t\<lparr>bt_decimate_counter := c'\<rparr>], self')" using s r(1) by (simp add: m)
  moreover have "unat c' = (unat ?c + length (m # msgs)) mod unat ?D"
  proof (cases "?c + 1 = ?D")
    case True
    then have e: "unat ?c + length (m # msgs) = unat ?D + length msgs" using eq by simp
    show ?thesis unfolding e using r(2) True by (simp add: c1_def)
  qed (use r(2) u1 in \<open>simp add: c1_def\<close>)
  moreover have "length ((if ?c + 1 = ?D then [Cbor_text (bt_key t), i] else []) @ is') =
      2 * ((unat ?c + length (m # msgs)) div unat ?D)"
  proof (cases "?c + 1 = ?D")
    case True
    then have e: "unat ?c + length (m # msgs) = unat ?D + length msgs" using eq by simp
    show ?thesis unfolding e using r(4) True cD by (simp add: c1_def div_add_self1)
  qed (use r(4) u1 in \<open>simp add: c1_def\<close>)
  ultimately show ?case using r(3) by (metis append_assoc)
qed

subsection \<open>On the air\<close>

text \<open>Property C35. The first packet of the message buffer is sent: the line of the modem gets one command for port 1 with
  digits that mean the bytes of the packet, the packet is no longer in the buffer, and the modem is ready for the next.\<close>

theorem bridge_packet_on_air:
  assumes ok: "serial_ok e q out" and rx: "receivers_only e q out" and inv: "lora_inv l" and free: "\<not> lo_locked l"
    and clear: "lora_modem_clear_input e d = Some d1"
    and fit: "lines_fit (line_rest (q (lora_written e 1 (byte2hex m) d1)))"
    and run: "br_can_run self" and m: "br_queue self = Some (n, m # ms)" "m \<noteq> []" "length m \<le> br_pbuf_size self"
  shows "\<exists>l' d' hex. send_step (\<lambda>port dat. lora_modem_send e port (Some dat)) (self, l, d) =
      Some (self\<lparr>br_queue := Some (n, ms)\<rparr>, l', d') \<and>
    out d' = out d @ str_bytes ''mac tx uncnf 1 '' @ hex @ [13, 10] \<and> unhex hex = m \<and> lora_inv l' \<and> \<not> lo_locked l'"
proof -
  obtain ret l' d' where s: "lora_modem_send e 1 (Some (byte2hex m)) (l, d) = Some (ret, l', d')"
    "lora_inv l'" "\<not> lo_locked l'" "out d' = out d @ lora_packet 1 (byte2hex m)"
    using lora_send_spec [OF ok rx inv free clear fit] by blast
  have "lora_packet 1 (byte2hex m) = str_bytes ''mac tx uncnf 1 '' @ byte2hex m @ [13, 10]"
    by (simp add: lora_packet_def str_bytes_def dec_bytes.simps)
  then show ?thesis using s run m unhex_byte2hex [of m] by (auto simp: send_step_def)
qed

text \<open>A packet of two bytes, and a modem that says \<open>ok\<close> and \<open>mac_tx_ok\<close>.\<close>

definition ex_bridge :: mq_lora_bridge where
  "ex_bridge = (snd mq_lora_bridge_init)\<lparr>br_can_run := True, br_pbuf_size := 64, br_queue := Some (128, [[0xab, 0x01], [0xff]])\<rparr>"

theorem bridge_packet_on_air_witness:
  "\<exists>l' d' hex. send_step (\<lambda>port dat. lora_modem_send (ex_modem [Some ''ok'', Some ''mac_tx_ok''] (\<lambda>s. s)) port (Some dat))
      (ex_bridge, lora_modem_zero, ([], [], ())) = Some (ex_bridge\<lparr>br_queue := Some (128, [[0xff]])\<rparr>, l', d') \<and>
    (fst \<circ> snd) d' = (fst \<circ> snd) ([] :: u8 option list, [] :: u8 list, ()) @ str_bytes ''mac tx uncnf 1 '' @ hex @ [13, 10] \<and>
    unhex hex = [0xab, 0x01] \<and> lora_inv l' \<and> \<not> lo_locked l'"
proof -
  let ?e = "ex_modem [Some ''ok'', Some ''mac_tx_ok''] (\<lambda>s. s)"
  let ?q = "fst (lora_written ?e 1 (byte2hex [0xab, 0x01]) ([], [], ()))"
  have inv: "lora_inv lora_modem_zero" "\<not> lo_locked lora_modem_zero"
    by (simp_all add: lora_inv_def lora_modem_zero_def LORA_MAX_ERRORS_BEFORE_REJOIN_def)
  have clear: "lora_modem_clear_input ?e ([], [], ()) = Some ([], [], ())"
    by (subst lora_modem_clear_input.simps) (simp add: ex_modem_def)
  have nl: "is_nl 13" by (simp add: is_nl_def)
  have p: "plain_line (str_bytes ''ok'')" "plain_line (str_bytes ''mac_tx_ok'')"
    by (simp_all add: plain_line_def str_bytes_def LORA_RESPONSE_LEN_def)
  let ?q2 = "map Some (str_bytes ''mac_tx_ok'') @ Some 13 # [Some 10]"
  have q: "dropWhile line_break ?q = map Some (str_bytes ''ok'') @ Some 13 # Some 10 # ?q2"
    by (simp add: lora_written_def lora_modem_write_line_def lora_modem_write_def ex_modem_def ex_answer_def cmd_buf_def str_bytes_def
      dec_bytes.simps byte2hex_def hex_byte_def hex_digit_def is_nl_def)
  note 1 = plain_line_read [OF p(1) nl q]
  have "dropWhile line_break (Some 10 # ?q2) = ?q2" by (simp add: str_bytes_def is_nl_def)
  note 2 = plain_line_read [OF p(2) nl this]
  have "line_fits (padded (str_bytes ''mac_tx_ok'')) (length (str_bytes ''mac_tx_ok''))"
    by (simp add: line_fits_def padded_def buf_starts_def str_bytes_def)
  then have fit: "lines_fit (line_rest ?q)" unfolding 1 by (subst lines_fit.simps) (simp only: 2 line_feed_end simp_thms)
  show ?thesis
    by (rule bridge_packet_on_air [OF ex_modem_ok ex_modem_alone inv clear fit]) (simp_all add: ex_bridge_def)
qed

end
