(* ===== verification/Spec2Isabelle.thy ===== *)
theory Spec2Isabelle
  imports Golay Mesh_L2_Props Ake_Props Keymgr_Props File_Transfer_Props Rmac_Props Nbus_Adv Nbus_Switch B2s_Siv Flash_Fifo_Top Syslog_Props Plog_Props
    Chainloader Worn_Log Plocator
    Loginmgr_Props Spi_Flash_Props Data_Process_Props Dp_Statistics Gps_Ublox_Props Mq_Lora_Bridge_Props
begin

text \<open>
  \<^bold>\<open>A verification library for plumcore\<close>, the modular firmware for microcontrollers of this repository.
  The library models the communication stacks, the storage services, the message services, the console login, the data flow graphs and the boot loader
  of the firmware, together with the cryptographic and coding routines they use, and proves what
  makes them correct. This header says which theory models what, what the theorems show, and what is
  left out. Every theory opens with its own description.

  \<^bold>\<open>How the code is represented.\<close> Structures are records, enumerations and unions are datatypes with the
  names of the source, integers are words of their width or natural numbers with \<open>add32\<close>, \<open>sub32\<close> and
  \<open>mul32\<close> where unsigned arithmetic wraps around. A function that changes its arguments through pointers returns
  the new values. A result \<open>None\<close> of an operation on memory is an access outside of it, a division by zero or
  another undefined behaviour, or, for a \<open>partial_function\<close>, a loop that does not end; theorems that say that
  an operation returns \<open>Some\<close> exclude them. Failures that the code reports are values of its own
  enumerations. Tasks are step functions over the state they share, or an inductive step relation, and the theorems
  quantify over every interleaving. Code that is not part of the repository (nanopb, tinycbor, FreeRTOS, drivers),
  and imported cryptography (Ed25519, X25519, SHA-256), are arguments of the definitions.

  \<^bold>\<open>Shared theories.\<close> \<open>Prelude\<close> has machine integers, first-match search, byte memory with bounds and
  little-endian numbers. \<open>Table\<close> is the contract of preallocated tables (locale \<open>keyed_table\<close>, interpreted for the
  neighbour tables), \<open>Keystream\<close> the counter-mode loop that six components repeat (locale \<open>keystream\<close>, interpreted for
  each of their generators).

  \<^bold>\<open>uMesh\<close> (\<open>src/protocols/umesh\<close>). \<open>Mesh_Pbuf\<close>: packet buffer and packet cryptography. \<open>Mesh_Codec\<close>: parser and
  builder of every field of a packet, from \<open>umesh_l2_receive.c\<close> and \<open>umesh_l2_send.c\<close>. \<open>Mesh_L2\<close>: \<open>umesh_l2_send\<close> and
  \<open>umesh_l2_receive\<close> as a whole, with checks, security, routing and statistics. \<open>Mesh_Nbtable\<close>: neighbour table and
  discovery beacons. \<open>Mesh_Keymgr\<close>: sessions of the key manager and their state machine. \<open>Ake_3dh\<close>: the key exchange
  (\<open>ake_3dh.c\<close>) and the key manager as its user; \<open>Ake_Props\<close> shows how requests slow down, what the code does wrong with the
  identity keys, and that, if these were delivered as they are, both ends would get the same keys in opposite directions;
  \<open>Keymgr_Props\<close> shows, for every order of rounds, results, requests and messages, that only authenticated sessions become
  managed. \<open>File_Transfer\<close>: the file transfer protocol and its
  layer 2 module; \<open>File_Transfer_Props\<close> shows that a finished receiver has seen every block and that silent
  transfers end. \<open>Mesh_Codec_Props\<close>, \<open>Mesh_Data_Props\<close> and \<open>Mesh_L2_Props\<close> show that nothing is accessed
  out of bounds, that what one node sends the next delivers, that damaged packets and packets for others
  are refused, that a beacon enters the neighbour table, and that silent neighbours and sessions disappear in bounded time.

  \<^bold>\<open>Radio MAC\<close> (\<open>src/services/radio-mac-simple\<close>). \<open>Slot_Queue\<close>: the heap of time slots. \<open>Rmac_Tables\<close>: packet pool and
  neighbour table. \<open>Rmac_Pbuf\<close>: encrypted and authenticated packets. \<open>Rmac\<close>: service, slot scheduler and the three
  tasks. \<open>Rmac_Props\<close> shows that every packet of the pool has exactly one holder in every interleaving, that no
  task blocks on the mutex of the pool, and that the data of every packet reaches the clients of its context, but that the
  packets of the transmit task have none.

  \<^bold>\<open>NBUS\<close> (\<open>src/services/nbus\<close>, \<open>src/services/nbus-switch\<close>). \<open>Nbus_Packet\<close>: identifiers, fragmentation and reassembly
  on CAN frames. \<open>Nbus\<close>: channels, receive and housekeeping tasks. \<open>Cc_Rpc\<close>: commands. \<open>B2s_Siv\<close>: the cipher.
  \<open>Nbus_Switch\<close>: forwarding and learning. \<open>Nbus_Props\<close> and \<open>Nbus_Adv\<close> show delivery across arbitrary bus
  traffic, integrity of reassembly, advertisement of identifiers and the resolution of their conflicts. The switch
  refines a map from channels and directions to ports.

  \<^bold>\<open>Storage.\<close> \<open>Flash\<close>: flash memories and static volumes (\<open>src/services/flash-vol-static\<close>, \<open>src/services/interfaces/flash.h\<close>).
  \<open>Flash_Fifo\<close> and the theories named after it: the FIFO of blocks in a flash memory (\<open>src/services/flash-fifo\<close>), refined
  to a queue of blocks: \<open>Flash_Fifo_Bitmap\<close> has the usage bitmap, \<open>Flash_Fifo_Inv\<close> the invariant, \<open>Flash_Fifo_Write\<close>,
  \<open>Flash_Fifo_Remove\<close> and \<open>Flash_Fifo_Mount\<close> the operations, \<open>Flash_Fifo_Top\<close> the promises to clients: writing appends,
  removing takes the first block, and the queue survives a restart. \<open>Spi_Flash\<close>: the driver for SPI flash memories
  (\<open>src/services/spi-flash\<close>) over an SPI device; \<open>Spi_Flash_Props\<close> shows that on a chip that works as documented it has
  the contract that the users of the interface rely on (locale \<open>paged_flash\<close>: writes inside of a page, erasing an aligned block), that a volume on it has
  the stronger one that the FIFO needs (\<open>nor_flash\<close>), and that a FIFO on all three layers keeps its data. \<open>Worn_Log\<close>: the encrypted write-only log on a
  block device (\<open>src/services/worn-log-block\<close>), whose end is found by bisection.

  \<^bold>\<open>Messages and services.\<close> \<open>Syslog\<close>, \<open>Syslog_Props\<close>: the circular log (\<open>src/lib/plumcore-log\<close>) keeps its newest messages.
  \<open>Ndarray\<close>: arrays of numbers (\<open>src/services/types/ndarray.c\<close>). \<open>Plog_Topic\<close>, \<open>Plog_Router\<close>, \<open>Plog_Props\<close>: the message router
  (\<open>src/services/plog-router\<close>) as an interleaving of publishers and clients, and its topic matching against the
  meaning of filters. \<open>Mq_Batch\<close>: batching (\<open>src/services/mq-batch\<close>). \<open>Plocator\<close>: the service locator
  (\<open>src/services/plocator\<close>, \<open>src/services/interfaces/servicelocator.c\<close>; locale \<open>registry\<close>, interpreted for the list).

  \<^bold>\<open>Console and data flow.\<close> \<open>Loginmgr\<close>: the login manager between the console and the shell
  (\<open>src/services/loginmgr\<close>); \<open>Loginmgr_Props\<close> shows what must have been entered before anything passes between them, and that
  entering it, each line in a read of its own, lets the shell in. \<open>Data_Process\<close>: flow graphs whose outputs hand data to inputs with semaphores
  (\<open>src/services/data-process\<close>), as small steps of the tasks; \<open>Data_Process_Props\<close> shows that inputs read exactly what is
  written and that a write only waits for readers that can go on. \<open>Dp_Statistics\<close>: the computation of its statistics node.
  \<open>Gps_Ublox\<close>: frames, commands and the task of the driver of a satellite receiver (\<open>src/services/gps-ublox\<close>);
  \<open>Gps_Ublox_Props\<close> shows that frames that are sent are received, and that receiving ends.
  \<open>Lora_Modem\<close>: the driver of a LoRaWAN modem (\<open>src/services/lora-rn2483\<close>), lines of text over a stream of bytes
  (\<open>Streams\<close>, which the login manager uses as well); \<open>Lora_Modem_Props\<close> shows how the lines of the modem, and the pauses between them, decide what becomes of
  a packet, and what receivers get of the packets of the network. \<open>Mq_Lora_Bridge\<close>, \<open>Mq_Lora_Bridge_Props\<close>: the bridge from the message
  queue (\<open>src/services/mq-lora-bridge\<close>) on top of it.

  \<^bold>\<open>Boot.\<close> \<open>Tinyelf\<close>, \<open>Tinyelf_Props\<close>: the ELF reader, in the state monad; \<open>Chainloader\<close>: the scan for an image, the check
  of its signature and its start (\<open>src/services/chainloader\<close>).

  \<^bold>\<open>Coding and cryptography\<close> (\<open>src/lib/fec-golay\<close>, \<open>src/lib/plumcore-cryptolib\<close>). \<open>Golay\<close>: the decoder restores every codeword
  with at most three errors. \<open>Crc16\<close>: linearity and the detection of bursts of sixteen bits. \<open>Chacha20\<close>, \<open>Poly1305\<close>: the block function and
  the authenticator. \<open>Blake2s\<close>: hashing in pieces equals hashing at once.

  \<^bold>\<open>Bounds and fuel.\<close> Loops whose end is not evident from their arguments are partial functions, and the theorems
  about them state that they return. The searches \<open>find_loop\<close> and \<open>vector_loop\<close> over the tables of an ELF file have the number of
  entries as the bound, which is where the code's loop ends as well. Nothing else carries fuel.

  \<^bold>\<open>Not modelled.\<close> The kernel and the libraries that were imported (FreeRTOS, tinycbor, littlefs, nanopb, treecli and
  others, curve25519, Ed25519, SHA-2, SHA-3); hardware drivers, ports and the command line interface, which are input and
  output, with the exception of the drivers of the SPI flash, of the satellite receiver and of the LoRaWAN modem; the nodes of flow graphs that read sensors or print; the status
  messages of uMesh; the CBOR clients of NBUS; scripting,
  MQTT and cellular services. Logging is left out of every component, except where it is the component.
\<close>

end
